(* ===== verification/Prelude.thy ===== *)
theory Prelude
  imports Main "HOL-Library.Multiset"
begin

text \<open>
  The vocabulary the components share.

  \<^item> Results. A Rust function of type \<open>Result<T>\<close> becomes a value of type \<open>'a outcome\<close>:
    \<open>Ok\<close>, \<open>Err\<close> with the source's error, or \<open>Panic\<close> for an \<open>unwrap\<close> of \<open>None\<close>, a missing key
    of an indexed map or an index out of bounds. A method that takes \<open>&mut self\<close> becomes a
    state transformer \<open>('s, 'a) op\<close>, which returns the state also when it fails, so that
    what an early return leaves behind is visible.
  \<^item> Machine integers. Unsigned integers of a fixed width are natural numbers; every checked
    operation of the source is the checked operation here, with its bound.
  \<^item> Ordered containers. A \<open>BTreeMap\<close> is an association list in strictly ascending key
    order, a \<open>BTreeSet\<close> a strictly ascending list: iteration is the list order, and both
    compute.
  \<^item> The locale \<open>op_frame\<close>, for what an operation keeps between the state before and after, and
    the locale \<open>op_machine\<close>, the interface of a component whose operations preserve an
    invariant.
\<close>

section \<open>Errors and results\<close>

datatype error =
    Invalid string
  | Capacity string
  | NotImplemented string
  | Backend string
  | Stale
  | Io string

definition invalid :: "string \<Rightarrow> error" where
  "invalid message = Invalid message"

datatype 'a outcome = Ok 'a | Err error | Panic

named_theorems outcome_simps
  "inversion of the result combinators"

fun is_ok :: "'a outcome \<Rightarrow> bool" where
  "is_ok (Ok x) = True"
| "is_ok (Err e) = False"
| "is_ok Panic = False"

lemma is_ok_iff: "is_ok r \<longleftrightarrow> (\<exists>x. r = Ok x)"
  by (cases r) auto

text \<open>\<open>and_then m f\<close> is the \<open>?\<close> operator followed by the rest of the function.\<close>

fun and_then :: "'a outcome \<Rightarrow> ('a \<Rightarrow> 'b outcome) \<Rightarrow> 'b outcome" where
  "and_then (Ok x) f = f x"
| "and_then (Err e) f = Err e"
| "and_then Panic f = Panic"

text \<open>\<open>reject c e\<close> is \<open>if c { return Err(e) }\<close>.\<close>

definition reject :: "bool \<Rightarrow> error \<Rightarrow> unit outcome" where
  "reject c e = (if c then Err e else Ok ())"

fun ok_or :: "'a option \<Rightarrow> error \<Rightarrow> 'a outcome" where
  "ok_or None e = Err e"
| "ok_or (Some x) e = Ok x"

fun unwrap :: "'a option \<Rightarrow> 'a outcome" where
  "unwrap None = Panic"
| "unwrap (Some x) = Ok x"

text \<open>A slice access \<open>xs[i]\<close>: out of bounds panics.\<close>

definition index_at :: "'a list \<Rightarrow> nat \<Rightarrow> 'a outcome" where
  "index_at xs i = (if i < length xs then Ok (xs ! i) else Panic)"

definition get_at :: "'a list \<Rightarrow> nat \<Rightarrow> 'a option" where
  "get_at xs i = (if i < length xs then Some (xs ! i) else None)"

lemma and_then_Ok_iff [outcome_simps]:
  "and_then m f = Ok y \<longleftrightarrow> (\<exists>x. m = Ok x \<and> f x = Ok y)"
  by (cases m) auto

lemma and_then_Err_iff [outcome_simps]:
  "and_then m f = Err e \<longleftrightarrow> m = Err e \<or> (\<exists>x. m = Ok x \<and> f x = Err e)"
  by (cases m) auto

lemma and_then_Panic_iff [outcome_simps]:
  "and_then m f = Panic \<longleftrightarrow> m = Panic \<or> (\<exists>x. m = Ok x \<and> f x = Panic)"
  by (cases m) auto

lemma reject_Ok_iff [outcome_simps]: "reject c e = Ok u \<longleftrightarrow> \<not> c"
  by (simp add: reject_def)

lemma reject_Err_iff [outcome_simps]: "reject c e = Err e' \<longleftrightarrow> c \<and> e' = e"
  by (auto simp: reject_def)

lemma reject_Panic_iff [outcome_simps]: "reject c e = Panic \<longleftrightarrow> False"
  by (simp add: reject_def)

lemma ok_or_Ok_iff [outcome_simps]: "ok_or m e = Ok x \<longleftrightarrow> m = Some x"
  by (cases m) auto

lemma ok_or_Err_iff [outcome_simps]: "ok_or m e = Err e' \<longleftrightarrow> m = None \<and> e' = e"
  by (cases m) auto

lemma ok_or_Panic_iff [outcome_simps]: "ok_or m e = Panic \<longleftrightarrow> False"
  by (cases m) auto

lemma unwrap_Ok_iff [outcome_simps]: "unwrap m = Ok x \<longleftrightarrow> m = Some x"
  by (cases m) auto

lemma unwrap_Err_iff [outcome_simps]: "unwrap m = Err e \<longleftrightarrow> False"
  by (cases m) auto

lemma unwrap_Panic_iff [outcome_simps]: "unwrap m = Panic \<longleftrightarrow> m = None"
  by (cases m) auto

lemma index_at_Ok_iff [outcome_simps]: "index_at xs i = Ok x \<longleftrightarrow> i < length xs \<and> x = xs ! i"
  by (auto simp: index_at_def)

lemma index_at_Err_iff [outcome_simps]: "index_at xs i = Err e \<longleftrightarrow> False"
  by (simp add: index_at_def)

lemma index_at_Panic_iff [outcome_simps]: "index_at xs i = Panic \<longleftrightarrow> length xs \<le> i"
  by (auto simp: index_at_def)

text \<open>An assignment \<open>xs[i] = x\<close>.\<close>

definition assign_at :: "'a list \<Rightarrow> nat \<Rightarrow> 'a \<Rightarrow> 'a list outcome" where
  "assign_at xs i x = (if i < length xs then Ok (xs[i := x]) else Panic)"

lemma assign_at_iffs [outcome_simps]:
  "assign_at xs i x = Ok ys \<longleftrightarrow> i < length xs \<and> ys = xs[i := x]" "assign_at xs i x = Err e \<longleftrightarrow> False"
  "assign_at xs i x = Panic \<longleftrightarrow> length xs \<le> i"
  by (auto simp: assign_at_def)

lemma get_at_Some_iff: "get_at xs i = Some x \<longleftrightarrow> i < length xs \<and> x = xs ! i"
  by (auto simp: get_at_def)

lemma get_at_None_iff: "get_at xs i = None \<longleftrightarrow> length xs \<le> i"
  by (auto simp: get_at_def)

text \<open>\<open>unwrap\<close> of a \<open>Result\<close>: an error panics.\<close>

fun expect_ok :: "'a outcome \<Rightarrow> 'a outcome" where
  "expect_ok (Ok x) = Ok x"
| "expect_ok (Err e) = Panic"
| "expect_ok Panic = Panic"

lemma expect_ok_iffs [outcome_simps]:
  "expect_ok m = Ok x \<longleftrightarrow> m = Ok x" "expect_ok m = Err e \<longleftrightarrow> False"
  by (cases m; simp)+

subsection \<open>Loops with an early return\<close>

text \<open>A \<open>for\<close> loop that only checks, one that collects, one that threads an accumulator.\<close>

fun check_all :: "('a \<Rightarrow> unit outcome) \<Rightarrow> 'a list \<Rightarrow> unit outcome" where
  "check_all f [] = Ok ()"
| "check_all f (x # xs) = and_then (f x) (\<lambda>_. check_all f xs)"

fun collect :: "('a \<Rightarrow> 'b outcome) \<Rightarrow> 'a list \<Rightarrow> 'b list outcome" where
  "collect f [] = Ok []"
| "collect f (x # xs) = and_then (f x) (\<lambda>y. and_then (collect f xs) (\<lambda>ys. Ok (y # ys)))"

fun fold_out :: "('a \<Rightarrow> 'b \<Rightarrow> 'b outcome) \<Rightarrow> 'a list \<Rightarrow> 'b \<Rightarrow> 'b outcome" where
  "fold_out f [] b = Ok b"
| "fold_out f (x # xs) b = and_then (f x b) (\<lambda>b'. fold_out f xs b')"

text \<open>\<open>iter().any(p)\<close> for a predicate that may fail: it stops at the first element that satisfies it.\<close>

fun any_out :: "('a \<Rightarrow> bool outcome) \<Rightarrow> 'a list \<Rightarrow> bool outcome" where
  "any_out f [] = Ok False"
| "any_out f (x # xs) = and_then (f x) (\<lambda>b. if b then Ok True else any_out f xs)"

lemma any_out_total: "(\<And>x. x \<in> set xs \<Longrightarrow> f x = Ok (p x)) \<Longrightarrow> any_out f xs = Ok (\<exists>x \<in> set xs. p x)"
  by (induction xs) auto

lemma check_all_Ok_iff [outcome_simps]:
  "check_all f xs = Ok u \<longleftrightarrow> (\<forall>x \<in> set xs. f x = Ok ())"
  by (induction xs) (auto simp: outcome_simps)

lemma check_all_no_panic:
  "(\<And>x. x \<in> set xs \<Longrightarrow> f x \<noteq> Panic) \<Longrightarrow> check_all f xs \<noteq> Panic"
  by (induction xs) (auto simp: outcome_simps)

lemma collect_Ok_iff:
  "collect f xs = Ok ys \<longleftrightarrow>
     length ys = length xs \<and> (\<forall>i < length xs. f (xs ! i) = Ok (ys ! i))"
proof (induction xs arbitrary: ys)
  case Nil
  then show ?case by auto
next
  case (Cons x xs)
  show ?case
  proof (cases ys)
    case Nil
    then show ?thesis by (auto simp: outcome_simps)
  next
    case (Cons y zs)
    then show ?thesis
      by (auto simp: outcome_simps Cons.IH nth_Cons less_Suc_eq_0_disj split: nat.splits)
  qed
qed

lemma collect_length: "collect f xs = Ok ys \<Longrightarrow> length ys = length xs"
  by (simp add: collect_Ok_iff)

lemma collect_no_panic:
  "(\<And>x. x \<in> set xs \<Longrightarrow> f x \<noteq> Panic) \<Longrightarrow> collect f xs \<noteq> Panic"
  by (induction xs) (auto simp: outcome_simps)

lemma collect_cong_out [fundef_cong]:
  "xs = ys \<Longrightarrow> (\<And>x. x \<in> set ys \<Longrightarrow> f x = g x) \<Longrightarrow> collect f xs = collect g ys"
  by (induction xs arbitrary: ys) auto

lemma fold_out_append:
  "fold_out f (xs @ ys) b = and_then (fold_out f xs b) (fold_out f ys)"
proof (induction xs arbitrary: b)
  case Nil
  then show ?case by simp
next
  case (Cons x xs)
  then show ?case by (cases "f x b") auto
qed

lemma fold_out_invariant:
  assumes "fold_out f xs b = Ok b'" and "P b"
    and "\<And>x c c'. x \<in> set xs \<Longrightarrow> P c \<Longrightarrow> f x c = Ok c' \<Longrightarrow> P c'"
  shows "P b'"
  using assms
proof (induction xs arbitrary: b)
  case Nil
  then show ?case by simp
next
  case (Cons x xs)
  from Cons.prems(1) obtain c where c: "f x b = Ok c" "fold_out f xs c = Ok b'"
    by (auto simp: outcome_simps)
  have "P c" using Cons.prems(3) [OF _ Cons.prems(2) c(1)] by simp
  from Cons.IH [OF c(2) this] Cons.prems(3) show ?case by (meson list.set_intros(2))
qed

text \<open>The state of a loop as a function of the elements it has passed.\<close>

lemma fold_out_prefix:
  assumes "fold_out f xs b = Ok b'" and "P [] b"
    and "\<And>ys x zs c c'. xs = ys @ x # zs \<Longrightarrow> P ys c \<Longrightarrow> f x c = Ok c' \<Longrightarrow> P (ys @ [x]) c'"
  shows "P xs b'"
proof -
  have "P xs b'" if "xs = ys @ todo" and "P ys c" and "fold_out f todo c = Ok b'" for ys todo c
    using that
  proof (induction todo arbitrary: ys c)
    case Nil
    then show ?case by simp
  next
    case (Cons x todo)
    from Cons.prems(3) obtain c' where c': "f x c = Ok c'" "fold_out f todo c' = Ok b'"
      by (auto simp: outcome_simps)
    show ?case using Cons.IH [of "ys @ [x]" c'] Cons.prems(1) assms(3) [OF Cons.prems(1,2) c'(1)] c'(2) by simp
  qed
  from this [of "[]" xs b] assms(1,2) show ?thesis by simp
qed

lemma fold_out_prefix_run:
  assumes "P [] b" and "\<And>ys x zs c. xs = ys @ x # zs \<Longrightarrow> P ys c \<Longrightarrow> \<exists>c'. f x c = Ok c' \<and> P (ys @ [x]) c'"
  shows "\<exists>b'. fold_out f xs b = Ok b' \<and> P xs b'"
proof -
  have "\<exists>b'. fold_out f todo c = Ok b' \<and> P xs b'" if "xs = ys @ todo" and "P ys c" for ys todo c
    using that
  proof (induction todo arbitrary: ys c)
    case Nil
    then show ?case by simp
  next
    case (Cons x todo)
    then obtain c' where "f x c = Ok c'" "P (ys @ [x]) c'" using assms(2) by blast
    then show ?case using Cons.IH [of "ys @ [x]" c'] Cons.prems(1) by simp
  qed
  from this [of "[]" xs b] assms(1) show ?thesis by simp
qed

lemma fold_out_prefix_no_panic:
  assumes "P [] b" and "\<And>ys x zs c. xs = ys @ x # zs \<Longrightarrow> P ys c \<Longrightarrow> f x c \<noteq> Panic"
    and "\<And>ys x zs c c'. xs = ys @ x # zs \<Longrightarrow> P ys c \<Longrightarrow> f x c = Ok c' \<Longrightarrow> P (ys @ [x]) c'"
  shows "fold_out f xs b \<noteq> Panic"
proof -
  have "fold_out f todo c \<noteq> Panic" if "xs = ys @ todo" and "P ys c" for ys todo c
    using that
  proof (induction todo arbitrary: ys c)
    case Nil
    then show ?case by simp
  next
    case (Cons x todo)
    show ?case
    proof (cases "f x c")
      case (Ok c')
      then show ?thesis using Cons.IH [of "ys @ [x]" c'] Cons.prems assms(3) [OF Cons.prems] by simp
    qed (use assms(2) [OF Cons.prems] in auto)
  qed
  from this [of "[]" xs b] assms(1) show ?thesis by simp
qed

lemma in_set_enum: "c \<in> set (zip [0..<length xs] xs) \<longleftrightarrow> fst c < length xs \<and> snd c = xs ! fst c"
  by (cases c) (auto simp: enumerate_eq_zip [of 0, simplified, symmetric] in_set_enumerate_eq)

lemma fold_out_enum:
  assumes "fold_out f (zip [0..<length xs] xs) b = Ok b'" and "P 0 b"
    and "\<And>i c c'. i < length xs \<Longrightarrow> P i c \<Longrightarrow> f (i, xs ! i) c = Ok c' \<Longrightarrow> P (Suc i) c'"
  shows "P (length xs) b'"
proof -
  have "P k c" if "k \<le> length xs" and "fold_out f (zip [0..<k] (take k xs)) b = Ok c" for k c
    using that
  proof (induction k arbitrary: c)
    case 0
    then show ?case using assms(2) by simp
  next
    case (Suc k)
    then have "zip [0..<Suc k] (take (Suc k) xs) = zip [0..<k] (take k xs) @ [(k, xs ! k)]"
      by (simp add: take_Suc_conv_app_nth)
    then obtain d where "fold_out f (zip [0..<k] (take k xs)) b = Ok d" "f (k, xs ! k) d = Ok c"
      using Suc.prems(2) by (auto simp: fold_out_append outcome_simps)
    then show ?case using Suc assms(3) by simp
  qed
  from this [of "length xs" b'] assms(1) show ?thesis by simp
qed

lemma fold_out_enum_run:
  assumes "P 0 b" and "\<And>i c. i < length xs \<Longrightarrow> P i c \<Longrightarrow> \<exists>c'. f (i, xs ! i) c = Ok c' \<and> P (Suc i) c'"
  shows "\<exists>b'. fold_out f (zip [0..<length xs] xs) b = Ok b' \<and> P (length xs) b'"
proof -
  have "\<exists>c. fold_out f (zip [0..<k] (take k xs)) b = Ok c \<and> P k c" if "k \<le> length xs" for k
    using that
  proof (induction k)
    case 0
    then show ?case using assms(1) by simp
  next
    case (Suc k)
    then obtain c where c: "fold_out f (zip [0..<k] (take k xs)) b = Ok c" "P k c" by auto
    then obtain c' where "f (k, xs ! k) c = Ok c'" "P (Suc k) c'" using assms(2) [of k c] Suc.prems by auto
    then show ?case using c Suc.prems by (simp add: take_Suc_conv_app_nth fold_out_append)
  qed
  from this [of "length xs"] show ?thesis by simp
qed

text \<open>When the state after each round is known, the loop succeeds exactly if every round is legal.\<close>

lemma fold_out_enum_iff:
  assumes "\<And>k c. k < length xs \<Longrightarrow> f (k, xs ! k) (S k) = Ok c \<longleftrightarrow> Q k \<and> c = S (Suc k)"
  shows "fold_out f (zip [0..<length xs] xs) (S 0) = Ok b \<longleftrightarrow> (\<forall>k < length xs. Q k) \<and> b = S (length xs)"
proof
  assume "fold_out f (zip [0..<length xs] xs) (S 0) = Ok b"
  from fold_out_enum [where P = "\<lambda>k c. (\<forall>i < k. Q i) \<and> c = S k", OF this]
  show "(\<forall>k < length xs. Q k) \<and> b = S (length xs)" using assms by (auto simp: less_Suc_eq)
next
  assume *: "(\<forall>k < length xs. Q k) \<and> b = S (length xs)"
  have "\<exists>b'. fold_out f (zip [0..<length xs] xs) (S 0) = Ok b' \<and> b' = S (length xs)"
    by (rule fold_out_enum_run [where P = "\<lambda>k c. c = S k"]) (use assms * in auto)
  then show "fold_out f (zip [0..<length xs] xs) (S 0) = Ok b" using * by simp
qed

lemma fold_out_enum_no_panic:
  assumes "P 0 b" and "\<And>i c. i < length xs \<Longrightarrow> P i c \<Longrightarrow> f (i, xs ! i) c \<noteq> Panic"
    and "\<And>i c c'. i < length xs \<Longrightarrow> P i c \<Longrightarrow> f (i, xs ! i) c = Ok c' \<Longrightarrow> P (Suc i) c'"
  shows "fold_out f (zip [0..<length xs] xs) b \<noteq> Panic"
proof -
  have "fold_out f (zip [k..<length xs] (drop k xs)) c \<noteq> Panic" if "k \<le> length xs" and "P k c" for k c
    using that
  proof (induction "length xs - k" arbitrary: k c)
    case 0
    then show ?case by simp
  next
    case (Suc d)
    then have k: "k < length xs" by simp
    then have e: "zip [k..<length xs] (drop k xs) = (k, xs ! k) # zip [Suc k..<length xs] (drop (Suc k) xs)"
      by (simp add: upt_conv_Cons Cons_nth_drop_Suc [symmetric])
    show ?case
    proof (cases "f (k, xs ! k) c")
      case (Ok c')
      then show ?thesis using Suc.hyps(1) [of "Suc k" c'] Suc.hyps(2) assms(3) [OF k Suc.prems(2)] k e by simp
    qed (use assms(2) [OF k Suc.prems(2)] e in auto)
  qed
  from this [of 0 b] assms(1) show ?thesis by simp
qed

section \<open>Unsigned integers of a fixed width\<close>

text \<open>\<open>checked_add\<close>, \<open>checked_mul\<close> and \<open>checked_sub\<close> at width \<open>w\<close>; \<open>u32::try_from\<close> is
  \<open>try_narrow 32\<close>. Rust's \<open>div_ceil\<close> panics on a zero divisor: every use in the source divides by
  a page size that was checked to be positive.\<close>

definition checked_add :: "nat \<Rightarrow> nat \<Rightarrow> nat \<Rightarrow> nat option" where
  "checked_add w a b = (if a + b < 2 ^ w then Some (a + b) else None)"

definition checked_mul :: "nat \<Rightarrow> nat \<Rightarrow> nat \<Rightarrow> nat option" where
  "checked_mul w a b = (if a * b < 2 ^ w then Some (a * b) else None)"

definition checked_sub :: "nat \<Rightarrow> nat \<Rightarrow> nat option" where
  "checked_sub a b = (if b \<le> a then Some (a - b) else None)"

definition try_narrow :: "nat \<Rightarrow> nat \<Rightarrow> nat option" where
  "try_narrow w a = (if a < 2 ^ w then Some a else None)"

text \<open>\<open>try_fold(a, |a, b| a.checked_mul(b))\<close> over 64-bit integers.\<close>

fun try_product :: "nat list \<Rightarrow> nat \<Rightarrow> nat option" where
  "try_product [] a = Some a"
| "try_product (b # bs) a = (case checked_mul 64 a b of None \<Rightarrow> None | Some c \<Rightarrow> try_product bs c)"

definition div_ceil :: "nat \<Rightarrow> nat \<Rightarrow> nat" where
  "div_ceil n d = (if n mod d = 0 then n div d else n div d + 1)"

lemma checked_add_Some_iff: "checked_add w a b = Some c \<longleftrightarrow> c = a + b \<and> a + b < 2 ^ w"
  by (auto simp: checked_add_def)

lemma checked_add_None_iff: "checked_add w a b = None \<longleftrightarrow> 2 ^ w \<le> a + b"
  by (auto simp: checked_add_def)

lemma checked_mul_Some_iff: "checked_mul w a b = Some c \<longleftrightarrow> c = a * b \<and> a * b < 2 ^ w"
  by (auto simp: checked_mul_def)

lemma checked_mul_None_iff: "checked_mul w a b = None \<longleftrightarrow> 2 ^ w \<le> a * b"
  by (auto simp: checked_mul_def)

lemma checked_sub_Some_iff: "checked_sub a b = Some c \<longleftrightarrow> c = a - b \<and> b \<le> a"
  by (auto simp: checked_sub_def)

lemma try_narrow_Some_iff: "try_narrow w a = Some c \<longleftrightarrow> c = a \<and> a < 2 ^ w"
  by (auto simp: try_narrow_def)

lemmas checked_iffs = checked_add_Some_iff checked_add_None_iff checked_mul_Some_iff
  checked_mul_None_iff checked_sub_Some_iff try_narrow_Some_iff

lemma div_ceil_upper:
  assumes "0 < d"
  shows "n \<le> div_ceil n d * d"
  using dividend_less_div_times [OF assms, of n] by (auto simp: div_ceil_def)

lemma div_ceil_least: "0 < d \<Longrightarrow> n \<le> k * d \<Longrightarrow> div_ceil n d \<le> k"
proof -
  assume d: "0 < d" and le: "n \<le> k * d"
  have "n div d \<le> k" using div_le_mono [OF le, of d] d by simp
  moreover have "n div d < k" if "n mod d \<noteq> 0"
  proof (rule ccontr)
    assume "\<not> n div d < k"
    with \<open>n div d \<le> k\<close> have "n div d = k" by simp
    then show False using le that div_mult_mod_eq [of n d] by simp
  qed
  ultimately show ?thesis by (auto simp: div_ceil_def)
qed

lemma div_ceil_covers: "0 < d \<Longrightarrow> i < n \<Longrightarrow> i div d < div_ceil n d"
  using div_ceil_upper [of d n] by (metis less_le_trans less_mult_imp_div_less)

lemma div_ceil_mono: "0 < d \<Longrightarrow> m \<le> n \<Longrightarrow> div_ceil m d \<le> div_ceil n d"
  by (meson div_ceil_least div_ceil_upper le_trans)

lemma div_ceil_pos: "0 < d \<Longrightarrow> 0 < n \<Longrightarrow> 0 < div_ceil n d"
  using div_ceil_covers [of d 0 n] by simp

text \<open>\<open>u64::is_power_of_two\<close>.\<close>

fun is_power_of_two :: "nat \<Rightarrow> bool" where
  "is_power_of_two n = (if n \<le> 1 then n = 1 else even n \<and> is_power_of_two (n div 2))"

declare is_power_of_two.simps [simp del]

lemma is_power_of_two_iff: "is_power_of_two n \<longleftrightarrow> (\<exists>k. n = 2 ^ k)"
proof (induction n rule: is_power_of_two.induct)
  case (1 n)
  show ?case
  proof (cases "n \<le> 1")
    case True
    then show ?thesis by (auto simp: is_power_of_two.simps [of n] le_Suc_eq intro: exI [of _ 0])
  next
    case False
    have "even n \<and> (\<exists>k. n div 2 = 2 ^ k) \<longleftrightarrow> (\<exists>k. n = 2 ^ k)"
    proof
      assume "even n \<and> (\<exists>k. n div 2 = 2 ^ k)"
      then obtain k where "n = 2 * (n div 2)" "n div 2 = 2 ^ k" by auto
      then show "\<exists>k. n = 2 ^ k" by (metis power_Suc)
    next
      assume "\<exists>k. n = 2 ^ k"
      then obtain k where "n = 2 ^ k" by blast
      then show "even n \<and> (\<exists>k. n div 2 = 2 ^ k)" using False by (cases k) auto
    qed
    then show ?thesis using False 1 by (simp add: is_power_of_two.simps [of n])
  qed
qed

text \<open>A machine operation without a check: overflow panics.\<close>

definition fit :: "nat \<Rightarrow> nat \<Rightarrow> nat outcome" where
  "fit w n = (if n < 2 ^ w then Ok n else Panic)"

lemma fit_iffs [outcome_simps]:
  "fit w n = Ok m \<longleftrightarrow> m = n \<and> n < 2 ^ w" "fit w n = Err e \<longleftrightarrow> False" "fit w n = Panic \<longleftrightarrow> 2 ^ w \<le> n"
  by (auto simp: fit_def)

text \<open>\<open>format!("{n}")\<close> for an unsigned integer.\<close>

fun show_nat :: "nat \<Rightarrow> string" where
  "show_nat n = (if n < 10 then [char_of (48 + n)]
                 else show_nat (n div 10) @ [char_of (48 + n mod 10)])"

declare show_nat.simps [simp del]

text \<open>\<open>iter().max()\<close> over unsigned values, of a list the source knows to be non-empty.\<close>

definition max_of :: "nat list \<Rightarrow> nat" where
  "max_of xs = foldr max xs 0"

lemma max_of_upper: "x \<in> set xs \<Longrightarrow> x \<le> max_of xs"
  by (induction xs) (auto simp: max_of_def)

lemma max_of_in: "xs \<noteq> [] \<Longrightarrow> max_of xs \<in> set xs"
proof (induction xs)
  case Nil
  then show ?case by simp
next
  case (Cons x xs)
  then show ?case by (cases "xs = []") (auto simp: max_of_def max_def)
qed

section \<open>Operations on a mutable state\<close>

type_synonym ('s, 'a) op = "'s \<Rightarrow> 'a outcome \<times> 's"

text \<open>A \<open>?\<close> on a read-only computation: on failure the operation ends in the present state.\<close>

definition try_op :: "'a outcome \<Rightarrow> ('a \<Rightarrow> ('s, 'b) op) \<Rightarrow> ('s, 'b) op" where
  "try_op r f s = (case r of Ok x \<Rightarrow> f x s | Err e \<Rightarrow> (Err e, s) | Panic \<Rightarrow> (Panic, s))"

text \<open>A \<open>?\<close> on a call that itself changes the state.\<close>

definition bind_op :: "('s, 'a) op \<Rightarrow> ('a \<Rightarrow> ('s, 'b) op) \<Rightarrow> ('s, 'b) op" where
  "bind_op m f s = (case m s of (Ok x, t) \<Rightarrow> f x t | (Err e, t) \<Rightarrow> (Err e, t) | (Panic, t) \<Rightarrow> (Panic, t))"

lemma try_op_simps [simp]:
  "try_op (Ok x) f s = f x s"
  "try_op (Err e) f s = (Err e, s)"
  "try_op Panic f s = (Panic, s)"
  by (simp_all add: try_op_def)

lemma bind_op_simps [simp]:
  "m s = (Ok x, t) \<Longrightarrow> bind_op m f s = f x t"
  "m s = (Err e, t) \<Longrightarrow> bind_op m f s = (Err e, t)"
  "m s = (Panic, t) \<Longrightarrow> bind_op m f s = (Panic, t)"
  by (simp_all add: bind_op_def)

lemma try_op_eq:
  "try_op r f s = (res, t) \<longleftrightarrow>
     (\<exists>x. r = Ok x \<and> f x s = (res, t)) \<or>
     (\<exists>e. r = Err e \<and> res = Err e \<and> t = s) \<or>
     (r = Panic \<and> res = Panic \<and> t = s)"
  by (cases r) auto

lemma bind_op_eq:
  "bind_op m f s = (res, t) \<longleftrightarrow>
     (\<exists>x u. m s = (Ok x, u) \<and> f x u = (res, t)) \<or>
     (\<exists>e. m s = (Err e, t) \<and> res = Err e) \<or>
     (m s = (Panic, t) \<and> res = Panic)"
  by (auto simp: bind_op_def split: prod.splits outcome.splits)

text \<open>A loop that runs an operation for each element and stops at the first failure.\<close>

fun each_op :: "('a \<Rightarrow> ('s, unit) op) \<Rightarrow> 'a list \<Rightarrow> ('s, unit) op" where
  "each_op f [] s = (Ok (), s)"
| "each_op f (x # xs) s = bind_op (f x) (\<lambda>_. each_op f xs) s"

text \<open>\<open>map(f).collect::<Result<Vec<_>>>()\<close> where \<open>f\<close> is an operation.\<close>

fun collect_op :: "('a \<Rightarrow> ('s, 'b) op) \<Rightarrow> 'a list \<Rightarrow> ('s, 'b list) op" where
  "collect_op f [] s = (Ok [], s)"
| "collect_op f (x # xs) s = bind_op (f x) (\<lambda>y. bind_op (collect_op f xs) (\<lambda>ys s. (Ok (y # ys), s))) s"

lemma each_op_rule:
  assumes "I [] s"
    and "\<And>before x todo t. xs = before @ x # todo \<Longrightarrow> I before t \<Longrightarrow> \<exists>u. f x t = (Ok (), u) \<and> I (before @ [x]) u"
  shows "\<exists>u. each_op f xs s = (Ok (), u) \<and> I xs u"
proof -
  have "\<exists>u. each_op f todo t = (Ok (), u) \<and> I xs u" if "xs = before @ todo" and "I before t" for before todo t
    using that
  proof (induction todo arbitrary: before t)
    case Nil
    then show ?case by simp
  next
    case (Cons x todo)
    then obtain u where "f x t = (Ok (), u)" "I (before @ [x]) u" using assms(2) by blast
    then show ?case using Cons.IH [of "before @ [x]" u] Cons.prems(1) by simp
  qed
  from this [of "[]" xs s] assms(1) show ?thesis by simp
qed

text \<open>A relation between the state before and after, whatever the operation returns. For a
  reflexive and transitive relation it composes.\<close>

definition op_rel :: "('s \<Rightarrow> 's \<Rightarrow> bool) \<Rightarrow> ('s, 'a) op \<Rightarrow> bool" where
  "op_rel R m \<longleftrightarrow> (\<forall>s. R s (snd (m s)))"

locale op_frame =
  fixes R :: "'s \<Rightarrow> 's \<Rightarrow> bool"
  assumes frame_refl: "R s s"
    and frame_trans: "R s t \<Longrightarrow> R t u \<Longrightarrow> R s u"
begin

lemma rel_at_try: "(\<And>x. r = Ok x \<Longrightarrow> R s (snd (f x s))) \<Longrightarrow> R s (snd (try_op r f s))"
  by (cases r) (auto simp: frame_refl)

lemma rel_try: "(\<And>x s. r s = Ok x \<Longrightarrow> R s (snd (f x s))) \<Longrightarrow> op_rel R (\<lambda>s. try_op (r s) f s)"
  by (simp add: op_rel_def rel_at_try)

lemma rel_at_bind:
  "R s (snd (m s)) \<Longrightarrow> (\<And>x t. m s = (Ok x, t) \<Longrightarrow> R t (snd (f x t))) \<Longrightarrow> R s (snd (bind_op m f s))"
  by (cases "m s"; cases "fst (m s)") (auto intro: frame_trans)

lemma rel_bind: "op_rel R m \<Longrightarrow> (\<And>x. op_rel R (f x)) \<Longrightarrow> op_rel R (bind_op m f)"
  by (simp add: op_rel_def rel_at_bind)

lemma rel_each: "(\<And>x. op_rel R (f x)) \<Longrightarrow> op_rel R (each_op f xs)"
proof (induction xs)
  case Nil
  then show ?case by (simp add: op_rel_def frame_refl)
next
  case (Cons x xs)
  have "op_rel R (bind_op (f x) (\<lambda>_. each_op f xs))"
    by (rule rel_bind) (use Cons in auto)
  then show ?case by (simp add: op_rel_def)
qed

lemma rel_fold: "(\<And>s c. c \<in> set cs \<Longrightarrow> R s (step c s)) \<Longrightarrow> R s (fold step cs s)"
  by (induction cs arbitrary: s) (auto intro: frame_refl frame_trans)

end

text \<open>\<open>iter().position(p)\<close>.\<close>

fun position_of :: "('a \<Rightarrow> bool) \<Rightarrow> 'a list \<Rightarrow> nat option" where
  "position_of p [] = None"
| "position_of p (x # xs) = (if p x then Some 0 else map_option Suc (position_of p xs))"

lemma position_of_Some: "position_of p xs = Some i \<Longrightarrow> i < length xs \<and> p (xs ! i) \<and> (\<forall>j < i. \<not> p (xs ! j))"
  by (induction xs arbitrary: i) (auto split: if_splits simp: less_Suc_eq_0_disj)

lemma position_of_None: "position_of p xs = None \<longleftrightarrow> (\<forall>x \<in> set xs. \<not> p x)"
  by (induction xs) auto

text \<open>\<open>for (x, y) in xs.iter_mut().zip(ys) { *x = f(x, y) }\<close>: elements without a partner stay.\<close>

fun zip_update :: "('a \<Rightarrow> 'b \<Rightarrow> 'a) \<Rightarrow> 'a list \<Rightarrow> 'b list \<Rightarrow> 'a list" where
  "zip_update f (x # xs) (y # ys) = f x y # zip_update f xs ys"
| "zip_update f xs _ = xs"

lemma length_zip_update [simp]: "length (zip_update f xs ys) = length xs"
  by (induction f xs ys rule: zip_update.induct) auto

lemma nth_zip_update:
  "i < length xs \<Longrightarrow> i < length ys \<Longrightarrow> zip_update f xs ys ! i = f (xs ! i) (ys ! i)"
  by (induction f xs ys arbitrary: i rule: zip_update.induct) (auto simp: nth_Cons split: nat.splits)

lemma map_zip_update:
  "(\<And>x y. g (f x y) = g x) \<Longrightarrow> map g (zip_update f xs ys) = map g xs"
  by (induction f xs ys rule: zip_update.induct) auto

text \<open>
  The interface of a component with an invariant: its calls, run one after the other, each
  result dropped. What a client may rely on after any sequence of calls is proved once here
  and instantiated by every component.
\<close>

locale op_machine =
  fixes exec_call :: "'c \<Rightarrow> 's \<Rightarrow> 's"
    and inv :: "'s \<Rightarrow> bool"
  assumes call_inv: "inv s \<Longrightarrow> inv (exec_call c s)"
begin

lemma run_inv: "inv s \<Longrightarrow> inv (fold exec_call cs s)"
  by (induction cs arbitrary: s) (auto simp: call_inv)

lemma run_stable:
  assumes "\<And>s c. inv s \<Longrightarrow> P s \<Longrightarrow> P (exec_call c s)" and "inv s" and "P s"
  shows "P (fold exec_call cs s)"
  using assms(2,3)
  by (induction cs arbitrary: s) (auto simp: call_inv assms(1))

lemma run_mono:
  fixes f :: "'s \<Rightarrow> nat"
  assumes "\<And>s c. inv s \<Longrightarrow> f s \<le> f (exec_call c s)" and "inv s"
  shows "f s \<le> f (fold exec_call cs s)"
  using assms(2)
proof (induction cs arbitrary: s)
  case Nil
  then show ?case by simp
next
  case (Cons c cs)
  then show ?case using assms(1) [of s c] Cons.IH [of "exec_call c s"] by (simp add: call_inv le_trans)
qed

end

end
