(* ===== verification/Containers.thy ===== *)
theory Containers
  imports Prelude
begin

text \<open>
  \<open>BTreeMap\<close> and \<open>BTreeSet\<close> as the source uses them: strictly ascending association lists
  and lists. \<open>key_store\<close> is the interface the components rely on (what a lookup returns
  after an insert or a removal); the sorted association list implements it.
\<close>

section \<open>The interface of a map\<close>

locale key_store =
  fixes lookup :: "'m \<Rightarrow> 'k \<Rightarrow> 'v option"
    and put :: "'k \<Rightarrow> 'v \<Rightarrow> 'm \<Rightarrow> 'm"
    and del :: "'k \<Rightarrow> 'm \<Rightarrow> 'm"
  assumes lookup_put: "lookup (put k v m) = (lookup m)(k \<mapsto> v)"
    and lookup_del: "lookup (del k m) = (lookup m)(k := None)"
begin

lemma dom_put: "dom (lookup (put k v m)) = insert k (dom (lookup m))"
  by (simp add: lookup_put)

lemma dom_del: "dom (lookup (del k m)) = dom (lookup m) - {k}"
  by (simp add: lookup_del)

lemma put_keeps: "lookup m k' = Some w \<Longrightarrow> k \<notin> dom (lookup m) \<Longrightarrow> lookup (put k v m) k' = Some w"
  by (auto simp: lookup_put)

lemma del_keeps: "k \<noteq> k' \<Longrightarrow> lookup (del k m) k' = lookup m k'"
  by (simp add: lookup_del)

lemma del_put_fresh: "k \<notin> dom (lookup m) \<Longrightarrow> lookup (del k (put k v m)) = lookup m"
  by (auto simp: lookup_put lookup_del fun_upd_idem_iff domIff)

end

section \<open>Ordered maps\<close>

type_synonym ('k, 'v) btmap = "('k \<times> 'v) list"

fun bt_insert :: "'k::linorder \<Rightarrow> 'v \<Rightarrow> ('k, 'v) btmap \<Rightarrow> ('k, 'v) btmap" where
  "bt_insert k v [] = [(k, v)]"
| "bt_insert k v ((k', v') # m) =
     (if k < k' then (k, v) # (k', v') # m
      else if k = k' then (k, v) # m
      else (k', v') # bt_insert k v m)"

definition bt_remove :: "'k \<Rightarrow> ('k, 'v) btmap \<Rightarrow> ('k, 'v) btmap" where
  "bt_remove k m = filter (\<lambda>e. fst e \<noteq> k) m"

text \<open>Mutation of a stored value through \<open>get_mut\<close> or \<open>values_mut\<close>: the keys stay.\<close>

definition bt_adjust :: "'k \<Rightarrow> ('v \<Rightarrow> 'v) \<Rightarrow> ('k, 'v) btmap \<Rightarrow> ('k, 'v) btmap" where
  "bt_adjust k f m = map (\<lambda>e. if fst e = k then (fst e, f (snd e)) else e) m"

abbreviation bt_keys :: "('k, 'v) btmap \<Rightarrow> 'k list" where
  "bt_keys m \<equiv> map fst m"

abbreviation bt_values :: "('k, 'v) btmap \<Rightarrow> 'v list" where
  "bt_values m \<equiv> map snd m"

definition bt_wf :: "('k::linorder, 'v) btmap \<Rightarrow> bool" where
  "bt_wf m \<longleftrightarrow> sorted_wrt (<) (bt_keys m)"

lemma bt_wf_Nil [simp]: "bt_wf []"
  by (simp add: bt_wf_def)

lemma bt_wf_distinct: "bt_wf m \<Longrightarrow> distinct (bt_keys m)"
  by (simp add: bt_wf_def strict_sorted_iff)

lemma map_of_bt_insert [simp]: "map_of (bt_insert k v m) = (map_of m)(k \<mapsto> v)"
  by (induction k v m rule: bt_insert.induct) auto

lemma map_of_bt_remove [simp]: "map_of (bt_remove k m) = (map_of m)(k := None)"
  by (induction m) (auto simp: bt_remove_def)

lemma map_of_bt_adjust: "map_of (bt_adjust k f m) j = (if j = k then map_option f (map_of m j) else map_of m j)"
  by (induction m) (auto simp: bt_adjust_def)

interpretation bt: key_store map_of bt_insert bt_remove
  by unfold_locales simp_all

lemma set_bt_keys_insert [simp]: "fst ` set (bt_insert k v m) = insert k (fst ` set m)"
  by (induction k v m rule: bt_insert.induct) auto

lemma set_bt_keys_remove [simp]: "fst ` set (bt_remove k m) = fst ` set m - {k}"
  by (auto simp: bt_remove_def)

lemma bt_keys_adjust [simp]: "bt_keys (bt_adjust k f m) = bt_keys m"
  by (simp add: bt_adjust_def)

lemma set_bt_insert_values: "set (bt_values (bt_insert k v m)) \<subseteq> insert v (set (bt_values m))"
  by (induction k v m rule: bt_insert.induct) auto

lemma bt_wf_insert: "bt_wf m \<Longrightarrow> bt_wf (bt_insert k v m)"
  by (induction k v m rule: bt_insert.induct) (force simp: bt_wf_def)+

lemma bt_wf_remove: "bt_wf m \<Longrightarrow> bt_wf (bt_remove k m)"
  by (induction m) (auto simp: bt_wf_def bt_remove_def)

lemma bt_wf_adjust [simp]: "bt_wf (bt_adjust k f m) \<longleftrightarrow> bt_wf m"
  by (simp add: bt_wf_def)

lemma mset_bt_insert_fresh:
  "k \<notin> fst ` set m \<Longrightarrow> mset (bt_insert k v m) = add_mset (k, v) (mset m)"
  by (induction k v m rule: bt_insert.induct) auto

lemma mset_bt_remove:
  "distinct (bt_keys m) \<Longrightarrow> map_of m k = Some v \<Longrightarrow> mset m = add_mset (k, v) (mset (bt_remove k m))"
proof (induction m)
  case Nil
  then show ?case by simp
next
  case (Cons e m)
  show ?case
  proof (cases "fst e = k")
    case True
    then have "k \<notin> fst ` set m" using Cons.prems(1) by auto
    then have "filter (\<lambda>x. fst x \<noteq> k) m = m"
      by (intro filter_True) force
    moreover have "v = snd e" using Cons.prems(2) True by (cases e) simp
    ultimately show ?thesis using True by (cases e) (simp add: bt_remove_def)
  next
    case False
    with Cons show ?thesis by (cases e) (auto simp: bt_remove_def)
  qed
qed

lemma length_bt_remove:
  "distinct (bt_keys m) \<Longrightarrow> map_of m k = Some v \<Longrightarrow> length m = Suc (length (bt_remove k m))"
  by (metis mset_bt_remove size_add_mset size_mset)

lemma length_bt_insert_fresh: "k \<notin> fst ` set m \<Longrightarrow> length (bt_insert k v m) = Suc (length m)"
  by (metis mset_bt_insert_fresh size_add_mset size_mset)

lemma length_bt_adjust [simp]: "length (bt_adjust k f m) = length m"
  by (simp add: bt_adjust_def)

lemma set_bt_adjust:
  "distinct (bt_keys m) \<Longrightarrow>
   set (bt_adjust k f m) = {e \<in> set m. fst e \<noteq> k} \<union> (\<lambda>e. (fst e, f (snd e))) ` {e \<in> set m. fst e = k}"
  by (auto simp: bt_adjust_def)

lemma bt_remove_absent: "k \<notin> fst ` set m \<Longrightarrow> bt_remove k m = m"
  by (auto simp: bt_remove_def filter_id_conv)

lemma set_bt_remove_subset: "set (bt_remove k m) \<subseteq> set m"
  by (auto simp: bt_remove_def)

lemma bt_get_in: "map_of m k = Some v \<Longrightarrow> (k, v) \<in> set m"
  by (rule map_of_SomeD)

lemma bt_in_get: "bt_wf m \<Longrightarrow> (k, v) \<in> set m \<longleftrightarrow> map_of m k = Some v"
  using bt_wf_distinct by fastforce

text \<open>\<open>collect\<close> of an iterator of pairs into a map: later entries replace earlier ones.\<close>

definition bt_collect :: "('k::linorder \<times> 'v) list \<Rightarrow> ('k, 'v) btmap" where
  "bt_collect xs = fold (\<lambda>e. bt_insert (fst e) (snd e)) xs []"

lemma map_of_fold_insert: "map_of (fold (\<lambda>e. bt_insert (fst e) (snd e)) xs m) = map_of m ++ map_of (rev xs)"
  by (induction xs arbitrary: m) (auto simp: map_add_def fun_eq_iff split: option.splits)

lemma map_of_bt_collect: "map_of (bt_collect xs) = map_of (rev xs)"
  by (simp add: bt_collect_def map_of_fold_insert)

lemma map_of_bt_collect_distinct: "distinct (map fst xs) \<Longrightarrow> map_of (bt_collect xs) = map_of xs"
  using map_of_inject_set [of "rev xs" xs] by (simp add: map_of_bt_collect rev_map [symmetric])

lemma bt_wf_fold_insert: "bt_wf m \<Longrightarrow> bt_wf (fold (\<lambda>e. bt_insert (fst e) (snd e)) xs m)"
  by (induction xs arbitrary: m) (auto simp: bt_wf_insert)

lemma bt_wf_collect [simp]: "bt_wf (bt_collect xs)"
  by (simp add: bt_collect_def bt_wf_fold_insert)

text \<open>Sorted association lists are canonical: equal lookups, equal maps.\<close>

lemma bt_ext:
  assumes "bt_wf m" and "bt_wf n" and "map_of m = map_of n"
  shows "m = n"
proof -
  have "e \<in> set m \<longleftrightarrow> e \<in> set n" for e
    using bt_in_get [OF assms(1), of "fst e" "snd e"] bt_in_get [OF assms(2), of "fst e" "snd e"]
    by (simp add: assms(3))
  then have eq: "set m = set n" by blast
  have "inj_on fst (set m \<union> set n)"
    using bt_wf_distinct [OF assms(1)] eq by (simp add: distinct_map)
  then show ?thesis
    using assms(1,2) eq by (auto simp: bt_wf_def strict_sorted_iff intro: map_sorted_distinct_set_unique)
qed

section \<open>Ordered sets\<close>

type_synonym 'a btset = "'a list"

fun bs_insert :: "'a::linorder \<Rightarrow> 'a btset \<Rightarrow> 'a btset" where
  "bs_insert x [] = [x]"
| "bs_insert x (y # ys) = (if x < y then x # y # ys else if x = y then y # ys else y # bs_insert x ys)"

definition bs_remove :: "'a \<Rightarrow> 'a btset \<Rightarrow> 'a btset" where
  "bs_remove x ys = filter (\<lambda>y. y \<noteq> x) ys"

definition bs_extend :: "'a::linorder list \<Rightarrow> 'a btset \<Rightarrow> 'a btset" where
  "bs_extend xs ys = fold bs_insert xs ys"

definition bs_of :: "'a::linorder list \<Rightarrow> 'a btset" where
  "bs_of xs = bs_extend xs []"

definition bs_wf :: "'a::linorder btset \<Rightarrow> bool" where
  "bs_wf ys \<longleftrightarrow> sorted_wrt (<) ys"

lemma bs_wf_Nil [simp]: "bs_wf []"
  by (simp add: bs_wf_def)

lemma bs_wf_single [simp]: "bs_wf [x]"
  by (simp add: bs_wf_def)

lemma bs_wf_distinct: "bs_wf ys \<Longrightarrow> distinct ys"
  by (simp add: bs_wf_def strict_sorted_iff)

lemma bs_wf_upt [simp]: "bs_wf [a..<b]"
  by (simp add: bs_wf_def strict_sorted_iff)

lemma set_bs_insert [simp]: "set (bs_insert x ys) = insert x (set ys)"
  by (induction x ys rule: bs_insert.induct) auto

lemma set_bs_remove [simp]: "set (bs_remove x ys) = set ys - {x}"
  by (auto simp: bs_remove_def)

lemma set_bs_extend [simp]: "set (bs_extend xs ys) = set xs \<union> set ys"
  by (induction xs arbitrary: ys) (auto simp: bs_extend_def)

lemma set_bs_of [simp]: "set (bs_of xs) = set xs"
  by (simp add: bs_of_def)

lemma bs_insert_not_Nil [simp]: "bs_insert x ys \<noteq> []"
  by (cases ys) auto

lemma bs_wf_insert: "bs_wf ys \<Longrightarrow> bs_wf (bs_insert x ys)"
  by (induction x ys rule: bs_insert.induct) (force simp: bs_wf_def)+

lemma bs_wf_remove: "bs_wf ys \<Longrightarrow> bs_wf (bs_remove x ys)"
  by (simp add: bs_wf_def bs_remove_def sorted_wrt_filter)

lemma bs_wf_extend: "bs_wf ys \<Longrightarrow> bs_wf (bs_extend xs ys)"
  by (induction xs arbitrary: ys) (auto simp: bs_extend_def bs_wf_insert)

lemma bs_wf_of [simp]: "bs_wf (bs_of xs)"
  by (simp add: bs_of_def bs_wf_extend)

lemma bs_wf_tl: "bs_wf ys \<Longrightarrow> bs_wf (tl ys)"
  by (cases ys) (auto simp: bs_wf_def)

lemma bs_ext: "bs_wf xs \<Longrightarrow> bs_wf ys \<Longrightarrow> set xs = set ys \<Longrightarrow> xs = ys"
  by (metis bs_wf_def sorted_distinct_set_unique strict_sorted_iff)

lemma mset_bs_insert: "x \<notin> set ys \<Longrightarrow> mset (bs_insert x ys) = add_mset x (mset ys)"
  by (induction x ys rule: bs_insert.induct) auto

lemma mset_bs_remove: "distinct ys \<Longrightarrow> x \<in> set ys \<Longrightarrow> mset ys = add_mset x (mset (bs_remove x ys))"
proof (induction ys)
  case Nil
  then show ?case by simp
next
  case (Cons y ys)
  show ?case
  proof (cases "y = x")
    case True
    with Cons.prems have "filter (\<lambda>z. z \<noteq> x) ys = ys" by (auto simp: filter_id_conv)
    with True show ?thesis by (simp add: bs_remove_def)
  next
    case False
    with Cons show ?thesis by (auto simp: bs_remove_def)
  qed
qed

lemma mset_bs_extend:
  "distinct xs \<Longrightarrow> set xs \<inter> set ys = {} \<Longrightarrow> mset (bs_extend xs ys) = mset xs + mset ys"
  by (induction xs arbitrary: ys) (auto simp: bs_extend_def mset_bs_insert)

text \<open>Removing a list of elements one by one.\<close>

definition bs_remove_all :: "'a list \<Rightarrow> 'a btset \<Rightarrow> 'a btset" where
  "bs_remove_all xs ys = fold bs_remove xs ys"

lemma set_bs_remove_all [simp]: "set (bs_remove_all xs ys) = set ys - set xs"
  by (induction xs arbitrary: ys) (auto simp: bs_remove_all_def)

lemma bs_wf_remove_all: "bs_wf ys \<Longrightarrow> bs_wf (bs_remove_all xs ys)"
  by (induction xs arbitrary: ys) (auto simp: bs_remove_all_def bs_wf_remove)

lemma mset_bs_remove_all:
  "bs_wf ys \<Longrightarrow> distinct xs \<Longrightarrow> set xs \<subseteq> set ys \<Longrightarrow> mset ys = mset xs + mset (bs_remove_all xs ys)"
proof (induction xs arbitrary: ys)
  case Nil
  then show ?case by (simp add: bs_remove_all_def)
next
  case (Cons x xs)
  from Cons.prems have "mset ys = add_mset x (mset (bs_remove x ys))"
    by (simp add: mset_bs_remove bs_wf_distinct)
  moreover have "mset (bs_remove x ys) = mset xs + mset (bs_remove_all xs (bs_remove x ys))"
    using Cons.prems by (intro Cons.IH) (auto simp: bs_wf_remove)
  ultimately show ?case by (simp add: bs_remove_all_def)
qed

end
