(* ===== verification/Model.thy ===== *)
theory Model
  imports Containers
begin

text \<open>
  Model metadata (\<open>crates/inferfabric-model/src/lib.rs\<close>): layer kinds, parallel meshes, the
  serving specification and its validation. \<open>usize\<close> fields are natural numbers; every
  dimension is bounded by the validation itself. The error type of this crate is in
  \<open>Prelude\<close>. The lemmas turn a successful validation into the facts later components use.
\<close>

datatype layer = Full | Delta

datatype role = Prefill | Decode

record mesh =
  mesh_tp :: nat
  mesh_cp :: nat
  mesh_sp :: bool

record model =
  model_name :: string
  hidden :: nat
  intermediate :: nat
  vocab :: nat
  query_heads :: nat
  kv_heads :: nat
  head_dim :: nat
  delta_heads :: nat
  delta_dim :: nat
  conv_width :: nat
  layers :: "layer list"

record spec =
  spec_model :: model
  spec_prefill :: mesh
  spec_decode :: mesh
  spec_page_tokens :: nat
  spec_token_budget :: nat
  batch_buckets :: "nat list"
  context_buckets :: "nat list"

text \<open>The array of dimensions that \<open>Spec::validate\<close> inspects twice.\<close>

definition spec_dimensions :: "spec \<Rightarrow> nat list" where
  "spec_dimensions s =
     (let m = spec_model s in
      [hidden m, intermediate m, vocab m, query_heads m, kv_heads m, head_dim m,
       delta_heads m, delta_dim m, conv_width m, spec_page_tokens s, spec_token_budget s])"

definition check_mesh :: "model \<Rightarrow> mesh \<Rightarrow> unit outcome" where
  "check_mesh m mesh =
     and_then (reject (mesh_tp mesh \<notin> {1, 2} \<or> mesh_cp mesh \<notin> {1, 2})
                (invalid ''only TP/CP 1 or 2 supported'')) (\<lambda>_.
     and_then (reject (\<exists>n \<in> set [hidden m, intermediate m, query_heads m, kv_heads m, delta_heads m].
                         \<not> mesh_tp mesh dvd n)
                (invalid ''non-divisible TP shard'')) (\<lambda>_.
     reject (mesh_sp mesh \<and> mesh_tp mesh = 1) (invalid ''SP requires TP=2'')))"

text \<open>\<open>windows(2).any(|w| w[0] >= w[1])\<close>: some adjacent pair is not ascending.\<close>

fun some_adjacent :: "('a \<Rightarrow> 'a \<Rightarrow> bool) \<Rightarrow> 'a list \<Rightarrow> bool" where
  "some_adjacent p (x # y # ys) = (p x y \<or> some_adjacent p (y # ys))"
| "some_adjacent p _ = False"

definition check_buckets :: "nat list \<Rightarrow> unit outcome" where
  "check_buckets buckets =
     reject (buckets = [] \<or> hd buckets = 0 \<or> some_adjacent (\<ge>) buckets)
       (invalid ''buckets must be positive, ascending and unique'')"

definition validate_spec :: "spec \<Rightarrow> unit outcome" where
  "validate_spec s =
     (let m = spec_model s in
      and_then (reject (model_name m = [] \<or> layers m = [] \<or> 0 \<in> set (spec_dimensions s))
                 (invalid ''names, layers and dimensions must be nonzero'')) (\<lambda>_.
      and_then (reject ((\<exists>n \<in> set (spec_dimensions s). n > 16777216) \<or>
                        (\<exists>n \<in> set (batch_buckets s @ context_buckets s). n > 16777216))
                 (invalid ''dimension exceeds skeleton metadata limit'')) (\<lambda>_.
      and_then (reject (\<not> kv_heads m dvd query_heads m)
                 (invalid ''Q heads must divide into KV groups'')) (\<lambda>_.
      and_then (check_all (check_mesh m) [spec_prefill s, spec_decode s]) (\<lambda>_.
      and_then (reject (mesh_cp (spec_decode s) \<noteq> 1 \<or> mesh_sp (spec_decode s) \<or>
                        mesh_tp (spec_prefill s) \<noteq> mesh_tp (spec_decode s))
                 (invalid ''decode CP/SP and differing PD TP widths are unsupported'')) (\<lambda>_.
      and_then (check_all check_buckets [batch_buckets s, context_buckets s]) (\<lambda>_.
      reject (length (layers m) > 4096 \<or> length (batch_buckets s) > 64 \<or> length (context_buckets s) > 64)
        (invalid ''metadata exceeds skeleton limits''))))))))"

text \<open>\<open>self.context_buckets.last().copied().unwrap_or(0)\<close>.\<close>

definition max_context :: "spec \<Rightarrow> nat" where
  "max_context s = (if context_buckets s = [] then 0 else last (context_buckets s))"

section \<open>What validation establishes\<close>

lemma not_some_adjacent_sorted:
  "\<not> some_adjacent (\<ge>) (xs :: nat list) \<Longrightarrow> sorted_wrt (<) xs"
proof (induction "(\<ge>) :: nat \<Rightarrow> nat \<Rightarrow> bool" xs rule: some_adjacent.induct)
  case (1 x y ys)
  then have "sorted_wrt (<) (y # ys)" and "x < y" by auto
  then show ?case by (auto intro: less_trans)
qed auto

lemma sorted_not_some_adjacent:
  "sorted_wrt (<) (xs :: nat list) \<Longrightarrow> \<not> some_adjacent (\<ge>) xs"
  by (induction "(\<ge>) :: nat \<Rightarrow> nat \<Rightarrow> bool" xs rule: some_adjacent.induct) auto

lemma check_buckets_Ok_iff:
  "check_buckets b = Ok () \<longleftrightarrow> b \<noteq> [] \<and> 0 \<notin> set b \<and> sorted_wrt (<) b"
proof
  assume "check_buckets b = Ok ()"
  then have *: "b \<noteq> []" "hd b \<noteq> 0" "sorted_wrt (<) b"
    by (auto simp: check_buckets_def reject_def not_some_adjacent_sorted split: if_splits)
  then show "b \<noteq> [] \<and> 0 \<notin> set b \<and> sorted_wrt (<) b"
    by (cases b) auto
next
  assume "b \<noteq> [] \<and> 0 \<notin> set b \<and> sorted_wrt (<) b"
  then show "check_buckets b = Ok ()"
    by (cases b) (auto simp: check_buckets_def reject_def sorted_not_some_adjacent
                       simp del: some_adjacent.simps)
qed

definition spec_ok :: "spec \<Rightarrow> bool" where
  "spec_ok s \<longleftrightarrow> validate_spec s = Ok ()"

lemma spec_ok_pos:
  assumes "spec_ok s"
  shows "0 < vocab (spec_model s)" "0 < spec_page_tokens s" "0 < spec_token_budget s"
    "0 < conv_width (spec_model s)" "layers (spec_model s) \<noteq> []"
  using assms by (auto simp: spec_ok_def validate_spec_def spec_dimensions_def Let_def outcome_simps)

lemma spec_ok_buckets:
  assumes "spec_ok s"
  shows "batch_buckets s \<noteq> []" "context_buckets s \<noteq> []"
    "0 \<notin> set (batch_buckets s)" "0 \<notin> set (context_buckets s)"
    "sorted_wrt (<) (batch_buckets s)" "sorted_wrt (<) (context_buckets s)"
  using assms
  by (auto simp: spec_ok_def validate_spec_def Let_def outcome_simps check_buckets_Ok_iff)

lemma spec_ok_meshes:
  assumes "spec_ok s"
  shows "mesh_tp (spec_prefill s) \<in> {1, 2}" "mesh_cp (spec_prefill s) \<in> {1, 2}"
    "mesh_tp (spec_decode s) = mesh_tp (spec_prefill s)" "mesh_cp (spec_decode s) = 1"
    "\<not> mesh_sp (spec_decode s)"
    "mesh_sp (spec_prefill s) \<Longrightarrow> mesh_tp (spec_prefill s) = 2"
  using assms
  by (auto simp: spec_ok_def validate_spec_def check_mesh_def Let_def outcome_simps)

lemma spec_ok_limits:
  assumes "spec_ok s"
  shows "\<And>n. n \<in> set (spec_dimensions s) \<Longrightarrow> n \<le> 16777216"
    "\<And>n. n \<in> set (batch_buckets s) \<union> set (context_buckets s) \<Longrightarrow> n \<le> 16777216"
  using assms
  by (auto simp: spec_ok_def validate_spec_def Let_def outcome_simps not_less)

lemma max_context_bucket:
  "spec_ok s \<Longrightarrow> max_context s \<in> set (context_buckets s)"
  using spec_ok_buckets by (auto simp: max_context_def)

lemma max_context_greatest:
  assumes "spec_ok s" and "n \<in> set (context_buckets s)"
  shows "n \<le> max_context s"
proof -
  from spec_ok_buckets(6) [OF assms(1)] have "sorted (context_buckets s)"
    by (simp add: strict_sorted_iff)
  then show ?thesis
    using assms(2) by (cases "context_buckets s" rule: rev_cases) (auto simp: max_context_def sorted_append)
qed

end
