(* ===== verification/Serving.thy ===== *)
theory Serving
  imports Model
begin

text \<open>
  The serving contract (\<open>crates/inferfabric-ir/src/serving.rs\<close>): identities, execution variants,
  state declarations with their storage and retention, the manifest and its validation, request
  batches and their validation, and prefix identities. A \<open>BTreeSet\<close> that only detects
  duplicates is the list of the values seen. The lemmas read a successful validation off: the
  ring of pages a sliding window keeps, the partition of a batch's tokens, the ownership facts
  the state pool relies on.
\<close>

definition VERSION :: nat where
  "VERSION = 1"

record identity =
  program_sha256 :: string
  checkpoint_metadata_sha256 :: string
  backend_revision :: string
  devices :: "nat list"

datatype phase = PhDecode | PhPrefill | PhExtend

record variant =
  var_id :: string
  var_phase :: phase
  max_sequences :: nat
  var_max_tokens :: nat
  max_query_tokens :: nat
  var_max_context :: nat
  numerical_class :: string
  graph_capable :: bool
  packed :: bool

text \<open>\<open>Variant::accepts_query_tokens\<close>.\<close>

definition accepts_query_tokens :: "variant \<Rightarrow> nat \<Rightarrow> bool" where
  "accepts_query_tokens v n \<longleftrightarrow>
     max_sequences v = 1 \<and> n > 0 \<and> n \<le> var_max_context v \<and>
     (if var_phase v = PhPrefill \<and> packed v \<and> \<not> graph_capable v
      then n \<le> var_max_tokens v \<and> n \<le> max_query_tokens v
      else n = var_max_tokens v \<and> n = max_query_tokens v)"

text \<open>\<open>Pages page_tokens row_bytes encoding\<close> and \<open>Slot bytes dtype\<close>.\<close>

datatype storage =
    Pages nat nat string
  | Slot nat string

datatype retention = FullRetention | SlidingWindow nat

fun is_full :: "retention \<Rightarrow> bool" where
  "is_full FullRetention = True"
| "is_full (SlidingWindow _) = False"

record state_decl =
  state_id :: string
  logical_node :: nat
  state_ranks :: "nat list"
  state_storage :: storage
  capacity_tokens :: nat
  state_retention :: retention
  window_tokens :: "nat option"
  checkpoint_supported :: bool

record manifest =
  man_version :: nat
  resident_sequences :: nat
  shared_pages :: bool
  man_identity :: identity
  vocab_size :: nat
  man_eos :: nat
  man_variants :: "variant list"
  man_states :: "state_decl list"
  qualification :: "string option"
  limitations :: "string list"

section \<open>Sliding retention\<close>

text \<open>The arithmetic is in \<open>u64\<close> on \<open>u32\<close> arguments, so it cannot overflow; only the final
  conversion back to \<open>u32\<close> can fail.\<close>

definition sliding_capacity :: "nat \<Rightarrow> nat \<Rightarrow> nat \<Rightarrow> nat \<Rightarrow> nat outcome" where
  "sliding_capacity ctx window query page =
     and_then (reject (ctx = 0 \<or> window = 0 \<or> query = 0 \<or> page = 0 \<or> query > ctx)
                (invalid ''invalid sliding retention dimensions'')) (\<lambda>_.
     let retained = window + query - 1;
         pages = min ((retained + page - 2) div page + 1) (div_ceil ctx page)
     in ok_or (try_narrow 32 (pages * page)) (invalid ''sliding retention overflow''))"

section \<open>Manifest validation\<close>

definition is_lower_hex :: "char \<Rightarrow> bool" where
  "is_lower_hex c \<longleftrightarrow> c \<in> set ''0123456789abcdef''"

definition is_hash :: "string \<Rightarrow> bool" where
  "is_hash value \<longleftrightarrow> length value = 64 \<and> (\<forall>c \<in> set value. is_lower_hex c)"

definition check_identity :: "manifest \<Rightarrow> unit outcome" where
  "check_identity m =
     (let i = man_identity m in
      reject (man_version m \<noteq> VERSION
              \<or> resident_sequences m = 0 \<or> resident_sequences m > 64
              \<or> \<not> is_hash (program_sha256 i)
              \<or> \<not> is_hash (checkpoint_metadata_sha256 i)
              \<or> \<not> is_hash (backend_revision i)
              \<or> devices i = []
              \<or> length (bs_of (devices i)) \<noteq> length (devices i)
              \<or> vocab_size m = 0
              \<or> man_eos m \<ge> vocab_size m
              \<or> man_variants m = []
              \<or> (case qualification m of None \<Rightarrow> False | Some q \<Rightarrow> \<not> is_hash q))
        (invalid ''invalid serving identity/capabilities''))"

fun check_variants :: "string list \<Rightarrow> variant list \<Rightarrow> unit outcome" where
  "check_variants seen [] = Ok ()"
| "check_variants seen (v # vs) =
     and_then (reject (var_id v = []
                 \<or> var_id v \<in> set seen
                 \<or> numerical_class v = []
                 \<or> max_sequences v = 0
                 \<or> var_max_tokens v = 0
                 \<or> max_query_tokens v = 0
                 \<or> var_max_context v = 0
                 \<or> max_query_tokens v > var_max_context v
                 \<or> max_query_tokens v > var_max_tokens v
                 \<or> (var_phase v = PhDecode \<and> max_query_tokens v \<noteq> 1)
                 \<or> (\<not> packed v \<and> max_query_tokens v \<noteq> 1))
                (invalid ''invalid serving variant'')) (\<lambda>_.
     check_variants (var_id v # seen) vs)"

fun check_storage :: "state_decl \<Rightarrow> storage \<Rightarrow> unit outcome" where
  "check_storage s (Pages page_tokens row_bytes encoding) =
     reject (page_tokens = 0 \<or> row_bytes = 0 \<or> encoding = []
             \<or> \<not> page_tokens dvd capacity_tokens s
             \<or> checked_mul 64 (capacity_tokens s) row_bytes = None)
       (invalid ''invalid serving page layout'')"
| "check_storage s (Slot bytes dtype) =
     reject (bytes = 0 \<or> dtype = []) (invalid ''invalid serving state slot'')"

fun check_retention :: "nat \<Rightarrow> nat \<Rightarrow> state_decl \<Rightarrow> retention \<Rightarrow> unit outcome" where
  "check_retention ctx query s FullRetention = Ok ()"
| "check_retention ctx query s (SlidingWindow max_query) =
     (case state_storage s of
        Slot _ _ \<Rightarrow> Err (invalid ''sliding retention requires paged state'')
      | Pages page_tokens _ _ \<Rightarrow>
          and_then (ok_or (window_tokens s) (invalid ''sliding retention requires a window'')) (\<lambda>window.
          if max_query < query then
            Err (invalid ''invalid sliding retention capacity/variant/checkpoint contract'')
          else and_then (sliding_capacity ctx window max_query page_tokens) (\<lambda>cap.
            reject (capacity_tokens s \<noteq> cap)
              (invalid ''invalid sliding retention capacity/variant/checkpoint contract''))))"

fun check_states :: "manifest \<Rightarrow> nat \<Rightarrow> nat \<Rightarrow> string list \<Rightarrow> state_decl list \<Rightarrow> unit outcome" where
  "check_states m ctx query seen [] = Ok ()"
| "check_states m ctx query seen (s # ss) =
     and_then (reject (state_id s = []
                 \<or> state_id s \<in> set seen
                 \<or> capacity_tokens s = 0
                 \<or> state_ranks s = []
                 \<or> length (bs_of (state_ranks s)) \<noteq> length (state_ranks s)
                 \<or> (\<exists>r \<in> set (state_ranks s). r \<ge> length (devices (man_identity m)))
                 \<or> window_tokens s = Some 0)
                (invalid ''invalid serving state ownership'')) (\<lambda>_.
     and_then (check_storage s (state_storage s)) (\<lambda>_.
     and_then (check_retention ctx query s (state_retention s)) (\<lambda>_.
     check_states m ctx query (state_id s # seen) ss)))"

definition validate_manifest :: "manifest \<Rightarrow> unit outcome" where
  "validate_manifest m =
     and_then (check_identity m) (\<lambda>_.
     and_then (check_variants [] (man_variants m)) (\<lambda>_.
     let ctx = max_of (map var_max_context (man_variants m));
         query = max_of (map max_query_tokens (man_variants m))
     in check_states m ctx query [] (man_states m)))"

section \<open>Batches\<close>

record request_span =
  req_id :: nat
  req_generation :: nat
  token_offset :: nat
  query_tokens :: nat
  prior_tokens :: nat
  sample_row :: "nat option"

record batch =
  engine_epoch :: nat
  batch_sequence :: nat
  batch_variant :: string
  batch_requests :: "request_span list"
  batch_tokens :: "nat list"

text \<open>One iteration of the span loop of \<open>validate_batch\<close>, then the loop: \<open>ids\<close> holds the request
  ids seen so far and \<open>offset\<close> the tokens they cover. \<open>r.query_tokens - 1\<close> cannot underflow: a zero
  length is rejected by an earlier disjunct.\<close>

fun check_spans :: "variant \<Rightarrow> nat list \<Rightarrow> nat \<Rightarrow> request_span list \<Rightarrow> nat outcome" where
  "check_spans v ids offset [] = Ok offset"
| "check_spans v ids offset (r # rs) =
     and_then (reject (req_generation r = 0
                 \<or> req_id r \<in> set ids
                 \<or> token_offset r \<noteq> offset
                 \<or> query_tokens r = 0
                 \<or> query_tokens r > max_query_tokens v
                 \<or> (case checked_add 32 (prior_tokens r) (query_tokens r) of
                      None \<Rightarrow> True | Some n \<Rightarrow> n > var_max_context v)
                 \<or> (var_phase v = PhPrefill \<and> prior_tokens r \<noteq> 0)
                 \<or> (var_phase v = PhDecode \<and> query_tokens r \<noteq> 1)
                 \<or> (case sample_row r of None \<Rightarrow> False | Some row \<Rightarrow> row \<noteq> query_tokens r - 1))
                (invalid ''invalid request span in serving batch'')) (\<lambda>_.
     and_then (ok_or (checked_add 32 offset (query_tokens r)) (invalid ''batch token overflow'')) (\<lambda>offset'.
     check_spans v (req_id r # ids) offset' rs))"

definition validate_batch :: "manifest \<Rightarrow> batch \<Rightarrow> unit outcome" where
  "validate_batch m b =
     and_then (validate_manifest m) (\<lambda>_.
     and_then (ok_or (find (\<lambda>v. var_id v = batch_variant b) (man_variants m))
                 (invalid ''unknown serving variant'')) (\<lambda>v.
     and_then (reject (engine_epoch b = 0
                 \<or> batch_sequence b = 0
                 \<or> batch_requests b = []
                 \<or> length (batch_requests b) > max_sequences v
                 \<or> length (batch_tokens b) > var_max_tokens v
                 \<or> (\<exists>t \<in> set (batch_tokens b). t \<ge> vocab_size m))
                (invalid ''serving batch exceeds envelope'')) (\<lambda>_.
     and_then (check_spans v [] 0 (batch_requests b)) (\<lambda>offset.
     reject (offset \<noteq> length (batch_tokens b)) (invalid ''batch token span mismatch'')))))"

section \<open>Prefix identities\<close>

record prefix_identity =
  engine :: identity
  pid_numerical_class :: string
  tokenizer_template_sha256 :: string
  tenant_namespace :: string
  adapter_sha256 :: "string option"

definition compatible :: "prefix_identity \<Rightarrow> prefix_identity \<Rightarrow> bool" where
  "compatible p q \<longleftrightarrow>
     pid_numerical_class p \<noteq> [] \<and> tenant_namespace p \<noteq> [] \<and>
     is_hash (tokenizer_template_sha256 p) \<and>
     is_hash (program_sha256 (engine p)) \<and>
     is_hash (backend_revision (engine p)) \<and>
     is_hash (checkpoint_metadata_sha256 (engine p)) \<and>
     devices (engine p) \<noteq> [] \<and>
     (case adapter_sha256 p of None \<Rightarrow> True | Some h \<Rightarrow> is_hash h) \<and>
     p = q"

lemma compatible_eq: "compatible p q \<Longrightarrow> q = p"
  by (simp add: compatible_def)

lemma compatible_self: "compatible p q \<Longrightarrow> compatible p p"
  by (auto simp: compatible_def)

section \<open>Facts about validated manifests and batches\<close>

lemma length_bs_of_distinct: "length (bs_of xs) = length xs \<longleftrightarrow> distinct xs"
proof -
  have "length (bs_of xs) = card (set xs)"
    using distinct_card [OF bs_wf_distinct [OF bs_wf_of [of xs]]] by simp
  then show ?thesis using card_distinct distinct_card by metis
qed

lemma sliding_capacity_Ok:
  assumes "sliding_capacity ctx window query page = Ok cap"
  shows "0 < page" "0 < ctx" "0 < window" "0 < query" "query \<le> ctx"
    "cap = min ((window + query - 1 + page - 2) div page + 1) (div_ceil ctx page) * page"
    "cap < 2 ^ 32"
  using assms by (auto simp: sliding_capacity_def Let_def outcome_simps checked_iffs)

lemma sliding_capacity_pos:
  assumes "sliding_capacity ctx window query page = Ok cap"
  shows "0 < cap div page" "page dvd cap"
  using sliding_capacity_Ok [OF assms] div_ceil_pos [of page ctx] by auto

lemma check_states_each:
  assumes "check_states m ctx query seen ss = Ok u" and "s \<in> set ss"
  shows "0 < capacity_tokens s" "state_ranks s \<noteq> []" "distinct (state_ranks s)"
    "check_storage s (state_storage s) = Ok ()"
    "check_retention ctx query s (state_retention s) = Ok ()"
  using assms
  by (induction m ctx query seen ss rule: check_states.induct)
    (auto simp: outcome_simps length_bs_of_distinct)

lemma check_states_ids:
  assumes "check_states m ctx query seen ss = Ok u"
  shows "distinct (map state_id ss) \<and> set (map state_id ss) \<inter> set seen = {}"
  using assms
  by (induction m ctx query seen ss rule: check_states.induct) (auto simp: outcome_simps)

lemma validate_manifest_states:
  assumes "validate_manifest m = Ok u"
  obtains ctx query where "check_states m ctx query [] (man_states m) = Ok ()"
    "ctx = max_of (map var_max_context (man_variants m))"
    "query = max_of (map max_query_tokens (man_variants m))"
  using assms by (auto simp: validate_manifest_def Let_def outcome_simps)

lemma validate_manifest_variants:
  assumes "validate_manifest m = Ok u"
  shows "man_variants m \<noteq> []"
  using assms by (auto simp: validate_manifest_def check_identity_def Let_def outcome_simps)

lemma check_spans_Ok:
  assumes "check_spans v ids offset rs = Ok n"
  shows "concat (map (\<lambda>r. [token_offset r..<token_offset r + query_tokens r]) rs) = [offset..<n] \<and>
         offset \<le> n \<and>
         distinct (map req_id rs) \<and> set (map req_id rs) \<inter> set ids = {} \<and>
         (\<forall>r \<in> set rs. req_generation r \<noteq> 0 \<and> 0 < query_tokens r \<and>
            query_tokens r \<le> max_query_tokens v \<and>
            prior_tokens r + query_tokens r \<le> var_max_context v \<and>
            (\<forall>row. sample_row r = Some row \<longrightarrow> Suc row = query_tokens r))"
  using assms
proof (induction v ids offset rs rule: check_spans.induct)
  case (1 v ids offset)
  then show ?case by simp
next
  case (2 v ids offset r rs)
  from "2.prems" have r: "req_generation r \<noteq> 0" "req_id r \<notin> set ids" "token_offset r = offset"
    "0 < query_tokens r" "query_tokens r \<le> max_query_tokens v"
    "prior_tokens r + query_tokens r \<le> var_max_context v"
    "\<forall>row. sample_row r = Some row \<longrightarrow> Suc row = query_tokens r"
    and add: "checked_add 32 offset (query_tokens r) = Some (offset + query_tokens r)"
    and rest: "check_spans v (req_id r # ids) (offset + query_tokens r) rs = Ok n"
    by (auto simp: outcome_simps checked_iffs split: option.splits)
  from "2.IH" [OF rest] show ?case
    using r upt_add_eq_append [of offset "offset + query_tokens r" "n - (offset + query_tokens r)"] by auto
qed

section \<open>Properties\<close>

lemma div_diff_bound:
  assumes "i \<le> j" and "0 < (page::nat)"
  shows "j div page - i div page \<le> (j - i + page - 1) div page"
proof -
  have "j = i + (j - i)" using assms by simp
  have "j \<le> (i div page) * page + (j - i + page - 1)"
    using assms mod_less_divisor [of page i] div_mult_mod_eq [of i page] by linarith
  then have "j div page \<le> ((i div page) * page + (j - i + page - 1)) div page"
    by (rule div_le_mono)
  also have "(i div page * page + e) div page = i div page + e div page" for e
    using assms(2) by simp
  finally show ?thesis by simp
qed

lemma mod_eq_close:
  assumes "a mod p = b mod p" and "a \<le> b" and "b - a < (p::nat)"
  shows "a = b"
proof -
  have "p dvd b - a" using assms(1,2) by (metis mod_eq_dvd_iff_nat)
  then show ?thesis using assms(2,3) dvd_imp_le by fastforce
qed

text \<open>C25. The ring of pages a sliding-window state keeps is large enough: two positions that are
  live together (within one window plus one chunk of writes) and lie in different logical pages
  never share a physical page of the ring, so a write inside the chunk cannot overwrite a row
  that a query of the same chunk still reads.\<close>

theorem sliding_ring_never_aliases:
  assumes "sliding_capacity ctx window query page = Ok cap"
    and "i \<le> j" and "j < ctx" and "j - i < window + query - 1"
    and "(i div page) mod (cap div page) = (j div page) mod (cap div page)"
  shows "i div page = j div page"
proof (rule mod_eq_close [OF assms(5)])
  note sc = sliding_capacity_Ok [OF assms(1)]
  show "i div page \<le> j div page" using assms(2) by (rule div_le_mono)
  have cap: "cap div page = min ((window + query - 1 + page - 2) div page + 1) (div_ceil ctx page)"
    using sc(1,6) by simp
  have "j div page < div_ceil ctx page" using sc(1) assms(3) by (rule div_ceil_covers)
  moreover have "j div page - i div page < (window + query - 1 + page - 2) div page + 1"
  proof -
    have "j - i + page - 1 \<le> window + query - 1 + page - 2" using assms(4) sc(1,3,4) by linarith
    then have "(j - i + page - 1) div page \<le> (window + query - 1 + page - 2) div page"
      by (rule div_le_mono)
    then show ?thesis using div_diff_bound [OF assms(2) sc(1)] by linarith
  qed
  ultimately show "j div page - i div page < cap div page" unfolding cap by simp
qed

theorem sliding_ring_never_aliases_witness:
  "sliding_capacity 64 8 4 4 = Ok 16 \<and> (5::nat) div 4 = 7 div 4"
proof -
  have c: "sliding_capacity 64 8 4 4 = Ok 16"
    by (simp add: sliding_capacity_def reject_def try_narrow_def div_ceil_def)
  show ?thesis
    using c sliding_ring_never_aliases [OF c, of 5 7] by simp
qed

text \<open>The ring is no larger than it must be: whenever the context is long enough for one
  window plus one chunk to start on the last row of a page, that stretch of live positions
  touches exactly as many pages as the ring holds.\<close>

theorem sliding_capacity_tight:
  assumes "sliding_capacity ctx window query page = Ok cap"
    and "page + window + query \<le> ctx + 2"
  shows "(\<lambda>p. p div page) ` {page - 1..<page - 1 + (window + query - 1)} = {0..<cap div page}"
proof -
  note sc = sliding_capacity_Ok [OF assms(1)]
  let ?L = "window + query - 1" let ?n = "(?L + page - 2) div page"
  have pos: "0 < ?L" using sc by simp
  have last: "page - 1 + ?L - 1 = ?L + page - 2" using sc(1) pos by simp
  have "?L + page - 2 < ctx" using assms(2) sc(1,3,4) by simp
  then have "?n < div_ceil ctx page" using sc(1) div_ceil_covers by blast
  then have cap: "cap div page = ?n + 1" using sc(1,6) by simp
  show ?thesis
  proof (intro subset_antisym subsetI)
    fix q assume "q \<in> (\<lambda>p. p div page) ` {page - 1..<page - 1 + ?L}"
    then obtain p where p: "p < page - 1 + ?L" "q = p div page" by (meson atLeastLessThan_iff imageE)
    then have "p \<le> ?L + page - 2" using last pos by linarith
    with p(2) show "q \<in> {0..<cap div page}" using cap by (simp add: div_le_mono less_Suc_eq_le)
  next
    fix q assume "q \<in> {0..<cap div page}"
    then have q: "q \<le> ?n" using cap by simp
    let ?p = "max (page - 1) (q * page)"
    have "page - 1 \<le> q * page" if "q \<noteq> 0"
      using that by (cases q) auto
    then have "?p div page = q"
      using sc(1) by (cases "q = 0") (auto simp: max_absorb2)
    moreover have "q * page \<le> ?L + page - 2"
      using q by (metis le_trans mult_le_mono1 div_times_less_eq_dividend)
    ultimately show "q \<in> (\<lambda>p. p div page) ` {page - 1..<page - 1 + ?L}"
      using pos last sc(1) by (intro image_eqI [of _ _ ?p]) auto
  qed
qed

theorem sliding_capacity_tight_witness:
  "sliding_capacity 64 8 4 4 = Ok 16 \<and> (\<lambda>p. p div 4) ` {3..<14} = {0..<4::nat}"
proof -
  have c: "sliding_capacity 64 8 4 4 = Ok 16"
    by (simp add: sliding_capacity_def reject_def try_narrow_def div_ceil_def)
  show ?thesis using c sliding_capacity_tight [OF c] by simp
qed


definition example_manifest :: manifest where
  "example_manifest =
     \<lparr>man_version = 1, resident_sequences = 1, shared_pages = False,
      man_identity = \<lparr>program_sha256 = replicate 64 CHR ''a'', checkpoint_metadata_sha256 = replicate 64 CHR ''b'',
                      backend_revision = replicate 64 CHR ''0'', devices = [0]\<rparr>,
      vocab_size = 100, man_eos = 7,
      man_variants = [\<lparr>var_id = ''extend'', var_phase = PhExtend, max_sequences = 2, var_max_tokens = 4,
                       max_query_tokens = 4, var_max_context = 64, numerical_class = ''bf16'',
                       graph_capable = False, packed = True\<rparr>],
      man_states = [\<lparr>state_id = ''kv'', logical_node = 0, state_ranks = [0],
                     state_storage = Pages 4 16 ''bf16'', capacity_tokens = 16,
                     state_retention = SlidingWindow 4, window_tokens = Some 8, checkpoint_supported = True\<rparr>,
                    \<lparr>state_id = ''conv'', logical_node = 1, state_ranks = [0],
                     state_storage = Slot 32 ''f32'', capacity_tokens = 64,
                     state_retention = FullRetention, window_tokens = None, checkpoint_supported = True\<rparr>],
      qualification = None, limitations = []\<rparr>"

lemma is_hash_replicate: "is_lower_hex c \<Longrightarrow> is_hash (replicate 64 c)"
  by (simp add: is_hash_def)

lemma example_manifest_valid: "validate_manifest example_manifest = Ok ()"
  by (simp add: validate_manifest_def example_manifest_def check_identity_def is_hash_replicate
      is_lower_hex_def VERSION_def reject_def max_of_def bs_of_def bs_extend_def
      sliding_capacity_def try_narrow_def div_ceil_def checked_mul_def)


end
