(* ===== verification/Arith_History.thy ===== *)
theory Arith_History
  imports Serving "HOL-Library.Sublist"
begin

text \<open>
  Completed invocation histories (\<open>crates/inferfabric-ir/src/arithmetic_history.rs\<close>). A history
  is a list of spans, a run-length encoding of the invocations that ran. The abstraction
  \<open>invocations\<close> expands the spans into the list of (numerical class, token count) pairs; the
  section on correctness shows that appending appends one invocation, that the encoding is
  canonical, and that \<open>same_prefix\<close> compares the two invocation lists up to the boundary.
\<close>

section \<open>The code\<close>

record span =
  span_start :: nat
  span_end :: nat
  span_query :: nat
  span_class :: string

record history =
  hist_version :: nat
  hist_spans :: "span list"

definition empty_history :: history where
  "empty_history = \<lparr>hist_version = 1, hist_spans = []\<rparr>"

definition hist_tokens :: "history \<Rightarrow> nat" where
  "hist_tokens h = (if hist_spans h = [] then 0 else span_end (last (hist_spans h)))"

definition check_append :: "history \<Rightarrow> variant \<Rightarrow> nat \<Rightarrow> nat \<Rightarrow> unit outcome" where
  "check_append h v position n =
     reject (position \<noteq> hist_tokens h \<or> n = 0 \<or> numerical_class v = []
             \<or> \<not> accepts_query_tokens v n
             \<or> (case checked_add 32 position n of None \<Rightarrow> True | Some e \<Rightarrow> e > var_max_context v))
       (invalid ''noncontiguous or unsupported arithmetic history invocation'')"

definition append_completed :: "variant \<Rightarrow> nat \<Rightarrow> nat \<Rightarrow> (history, unit) op" where
  "append_completed v position n h =
     try_op (check_append h v position n) (\<lambda>_ h.
       let e = position + n; spans = hist_spans h in
       if spans \<noteq> [] \<and> span_query (last spans) = n \<and> span_class (last spans) = numerical_class v
       then (Ok (), h\<lparr>hist_spans := butlast spans @ [(last spans)\<lparr>span_end := e\<rparr>]\<rparr>)
       else (Ok (), h\<lparr>hist_spans := spans @
              [\<lparr>span_start = position, span_end = e, span_query = n,
                span_class = numerical_class v\<rparr>]\<rparr>)) h"

text \<open>The loop of \<open>prefix\<close>: \<open>%\<close> panics on a zero query length.\<close>

fun prefix_spans :: "nat \<Rightarrow> span list \<Rightarrow> span list outcome" where
  "prefix_spans boundary [] = Ok []"
| "prefix_spans boundary (s # ss) =
     (if span_start s \<ge> boundary then Ok []
      else let part = s\<lparr>span_end := min (span_end s) boundary\<rparr> in
        if span_query part = 0 then Panic
        else and_then (reject ((span_end part - span_start part) mod span_query part \<noteq> 0)
               (invalid ''arithmetic prefix splits a packed invocation'')) (\<lambda>_.
             and_then (prefix_spans boundary ss) (\<lambda>parts. Ok (part # parts))))"

definition hist_prefix :: "history \<Rightarrow> nat \<Rightarrow> history outcome" where
  "hist_prefix h boundary =
     and_then (reject (boundary > hist_tokens h)
                (invalid ''arithmetic prefix exceeds completed history'')) (\<lambda>_.
     and_then (prefix_spans boundary (hist_spans h)) (\<lambda>parts.
     Ok (empty_history\<lparr>hist_spans := parts\<rparr>)))"

text \<open>\<open>match (self.prefix(b), other.prefix(b))\<close>; a panic in either call would propagate, which
  well-formed histories exclude (\<open>prefix_spans_no_panic\<close>).\<close>

definition same_prefix :: "history \<Rightarrow> history \<Rightarrow> nat \<Rightarrow> bool" where
  "same_prefix h g boundary =
     (case (hist_prefix h boundary, hist_prefix g boundary) of
        (Ok a, Ok b) \<Rightarrow> a = b
      | _ \<Rightarrow> False)"

section \<open>Well-formed histories\<close>

definition span_key :: "span \<Rightarrow> string \<times> nat" where
  "span_key s = (span_class s, span_query s)"

fun chain :: "nat \<Rightarrow> span list \<Rightarrow> bool" where
  "chain n [] = True"
| "chain n (s # ss) =
     (span_start s = n \<and> n < span_end s \<and> 0 < span_query s \<and>
      span_query s dvd span_end s - n \<and> span_class s \<noteq> [] \<and> chain (span_end s) ss)"

definition no_runs :: "span list \<Rightarrow> bool" where
  "no_runs ss \<longleftrightarrow> \<not> some_adjacent (\<lambda>a b. span_key a = span_key b) ss"

definition hist_wf :: "history \<Rightarrow> bool" where
  "hist_wf h \<longleftrightarrow> hist_version h = 1 \<and> chain 0 (hist_spans h) \<and> no_runs (hist_spans h)"

text \<open>The invocations a span stands for, and those of a history.\<close>

definition span_invocations :: "span \<Rightarrow> (string \<times> nat) list" where
  "span_invocations s = replicate ((span_end s - span_start s) div span_query s) (span_key s)"

definition spans_invocations :: "span list \<Rightarrow> (string \<times> nat) list" where
  "spans_invocations ss = concat (map span_invocations ss)"

definition invocations :: "history \<Rightarrow> (string \<times> nat) list" where
  "invocations h = spans_invocations (hist_spans h)"

definition total_tokens :: "(string \<times> nat) list \<Rightarrow> nat" where
  "total_tokens is = sum_list (map snd is)"

lemma no_runs_Nil [simp]: "no_runs []"
  by (simp add: no_runs_def)

lemma no_runs_Cons:
  "no_runs (s # ss) \<longleftrightarrow> (ss = [] \<or> span_key s \<noteq> span_key (hd ss)) \<and> no_runs ss"
  by (cases ss) (auto simp: no_runs_def)

lemma no_runs_snoc:
  "no_runs (ss @ [s]) \<longleftrightarrow> no_runs ss \<and> (ss = [] \<or> span_key (last ss) \<noteq> span_key s)"
  by (induction ss) (auto simp: no_runs_Cons hd_append)

lemma chain_snoc:
  "chain n (ss @ [s]) \<longleftrightarrow> chain n ss \<and> chain (if ss = [] then n else span_end (last ss)) [s]"
  by (induction n ss rule: chain.induct) auto

lemma spans_invocations_Nil [simp]: "spans_invocations [] = []"
  by (simp add: spans_invocations_def)

lemma spans_invocations_Cons [simp]:
  "spans_invocations (s # ss) = span_invocations s @ spans_invocations ss"
  by (simp add: spans_invocations_def)

lemma total_tokens_simps [simp]:
  "total_tokens [] = 0" "total_tokens (i # is) = snd i + total_tokens is"
  "total_tokens (is @ js) = total_tokens is + total_tokens js"
  by (simp_all add: total_tokens_def)

lemma total_tokens_replicate [simp]: "total_tokens (replicate k i) = k * snd i"
  by (induction k) auto

lemma chain_end_le: "chain n ss \<Longrightarrow> n \<le> (if ss = [] then n else span_end (last ss))"
  by (induction n ss rule: chain.induct) (auto split: if_splits)

lemma chain_total:
  "chain n ss \<Longrightarrow> n + total_tokens (spans_invocations ss) = (if ss = [] then n else span_end (last ss))"
proof (induction n ss rule: chain.induct)
  case (1 n)
  then show ?case by simp
next
  case (2 n s ss)
  then have "n + total_tokens (span_invocations s) = span_end s"
    by (auto simp: span_invocations_def span_key_def)
  with 2 show ?case by auto
qed

lemma hist_tokens_total: "hist_wf h \<Longrightarrow> hist_tokens h = total_tokens (invocations h)"
  using chain_total [of 0 "hist_spans h"] by (auto simp: hist_wf_def hist_tokens_def invocations_def)

lemma span_invocations_nonempty:
  "chain n (s # ss) \<Longrightarrow> \<exists>k. span_invocations s = span_key s # replicate k (span_key s)"
proof -
  assume "chain n (s # ss)"
  then have "0 < (span_end s - span_start s) div span_query s"
    by (auto simp: div_greater_zero_iff dest: dvd_imp_le)
  then show ?thesis
    by (auto simp: span_invocations_def gr0_conv_Suc)
qed

lemma hd_spans_invocations:
  "chain n ss \<Longrightarrow> ss \<noteq> [] \<Longrightarrow> spans_invocations ss \<noteq> [] \<and> hd (spans_invocations ss) = span_key (hd ss)"
  using span_invocations_nonempty by (cases ss) fastforce+

section \<open>The encoding is canonical\<close>

lemma replicate_append_eq:
  assumes "replicate k x @ us = replicate m x @ vs"
    and "us = [] \<or> hd us \<noteq> x" and "vs = [] \<or> hd vs \<noteq> x"
  shows "k = m \<and> us = vs"
  using assms
proof (induction k arbitrary: m)
  case 0
  then show ?case by (cases m) auto
next
  case (Suc k)
  then show ?case by (cases m) auto
qed

lemma canonical_spans:
  assumes "chain n ss" "no_runs ss" "chain n ts" "no_runs ts"
    and "spans_invocations ss = spans_invocations ts"
  shows "ss = ts"
  using assms
proof (induction ss arbitrary: n ts)
  case Nil
  then show ?case using hd_spans_invocations [of n ts] by (cases "ts = []") auto
next
  case (Cons s ss)
  have ts: "ts \<noteq> []"
    using hd_spans_invocations [OF Cons.prems(1)] Cons.prems(5) by auto
  then obtain t ts' where t: "ts = t # ts'" by (cases ts) auto
  have key: "span_key s = span_key t"
    using hd_spans_invocations [OF Cons.prems(1)] hd_spans_invocations [OF Cons.prems(3) ts]
      Cons.prems(5) t by auto
  let ?k = "(span_end s - n) div span_query s" and ?m = "(span_end t - n) div span_query t"
  have eq: "?k = ?m \<and> spans_invocations ss = spans_invocations ts'"
  proof (rule replicate_append_eq)
    show "replicate ?k (span_key s) @ spans_invocations ss
        = replicate ?m (span_key s) @ spans_invocations ts'"
      using Cons.prems t key by (simp add: span_invocations_def)
    show "spans_invocations ss = [] \<or> hd (spans_invocations ss) \<noteq> span_key s"
      using Cons.prems(1,2) hd_spans_invocations [of "span_end s" ss]
      by (cases "ss = []") (auto simp: no_runs_Cons)
    show "spans_invocations ts' = [] \<or> hd (spans_invocations ts') \<noteq> span_key s"
      using Cons.prems(3,4) t key hd_spans_invocations [of "span_end t" ts']
      by (cases "ts' = []") (auto simp: no_runs_Cons)
  qed
  have "span_end s - n = span_end t - n"
    using eq Cons.prems(1,3) t key by (auto simp: span_key_def dvd_div_eq_iff)
  then have e: "span_end s = span_end t" using Cons.prems(1,3) t by auto
  have "s = t" using e key Cons.prems(1,3) t by (cases s; cases t) (auto simp: span_key_def)
  moreover have "ss = ts'"
    using Cons.IH [of "span_end s" ts'] Cons.prems t e eq by (auto simp: no_runs_Cons)
  ultimately show ?case using t by simp
qed

section \<open>Appending\<close>

lemma check_append_Ok:
  assumes "check_append h v position n = Ok u"
  shows "position = hist_tokens h" "0 < n" "numerical_class v \<noteq> []" "accepts_query_tokens v n"
    "position + n \<le> var_max_context v" "position + n < 2 ^ 32"
  using assms by (auto simp: check_append_def outcome_simps checked_iffs split: option.splits)

lemma append_completed_cases:
  assumes "append_completed v position n h = (Ok (), h')"
  shows "check_append h v position n = Ok ()"
    "h' = h\<lparr>hist_spans :=
       (if hist_spans h \<noteq> [] \<and> span_query (last (hist_spans h)) = n
            \<and> span_class (last (hist_spans h)) = numerical_class v
        then butlast (hist_spans h) @ [(last (hist_spans h))\<lparr>span_end := position + n\<rparr>]
        else hist_spans h @ [\<lparr>span_start = position, span_end = position + n, span_query = n,
                              span_class = numerical_class v\<rparr>])\<rparr>"
  using assms by (auto simp: append_completed_def try_op_eq Let_def split: if_splits)

lemma append_spans:
  assumes "chain 0 ss" and "no_runs ss" and "0 < n" and "c \<noteq> []"
    and "p = (if ss = [] then 0 else span_end (last ss))"
    and "ts = (if ss \<noteq> [] \<and> span_query (last ss) = n \<and> span_class (last ss) = c
               then butlast ss @ [(last ss)\<lparr>span_end := p + n\<rparr>]
               else ss @ [\<lparr>span_start = p, span_end = p + n, span_query = n, span_class = c\<rparr>])"
  shows "chain 0 ts \<and> no_runs ts \<and> spans_invocations ts = spans_invocations ss @ [(c, n)]"
proof (cases "ss \<noteq> [] \<and> span_query (last ss) = n \<and> span_class (last ss) = c")
  case False
  with assms show ?thesis
    by (auto simp: chain_snoc no_runs_snoc spans_invocations_def span_invocations_def span_key_def)
next
  case True
  then obtain us l where us: "ss = us @ [l]" by (cases ss rule: rev_cases) auto
  let ?l = "l\<lparr>span_end := p + n\<rparr>"
  have ts: "ts = us @ [?l]" using assms(6) True us by simp
  have l: "span_start l < span_end l" "n dvd span_end l - span_start l" "span_query l = n"
    and p: "p = span_end l"
    using assms(1,5) True us by (auto simp: chain_snoc)
  have diff: "p + n - span_start l = (span_end l - span_start l) + n" using l p by simp
  have "(p + n - span_start l) div n = Suc ((span_end l - span_start l) div n)"
    unfolding diff using assms(3) by (simp add: div_add_self2)
  then have "span_invocations ?l = span_invocations l @ [(c, n)]"
    using l(3) True us
    by (simp add: span_invocations_def span_key_def replicate_append_same [symmetric] del: replicate_append_same)
  then have "spans_invocations ts = spans_invocations ss @ [(c, n)]"
    by (simp add: ts us spans_invocations_def)
  moreover have "n dvd p + n - span_start l"
    using diff l(2) by simp
  then have "chain 0 ts"
    using assms(1,3) ts us l p by (auto simp: chain_snoc)
  moreover have "no_runs ts"
    using assms(2) ts us by (auto simp: no_runs_snoc span_key_def)
  ultimately show ?thesis by simp
qed

lemma append_completed_wf:
  assumes "hist_wf h" and "append_completed v position n h = (Ok (), h')"
  shows "hist_wf h'" "invocations h' = invocations h @ [(numerical_class v, n)]"
proof -
  have "chain 0 (hist_spans h') \<and> no_runs (hist_spans h') \<and>
        spans_invocations (hist_spans h') = spans_invocations (hist_spans h) @ [(numerical_class v, n)]"
    using assms check_append_Ok [OF append_completed_cases(1) [OF assms(2)]]
    by (intro append_spans) (auto simp: append_completed_cases(2) [OF assms(2)] hist_wf_def hist_tokens_def)
  then show "hist_wf h'" "invocations h' = invocations h @ [(numerical_class v, n)]"
    using assms(1) append_completed_cases(2) [OF assms(2)] by (auto simp: hist_wf_def invocations_def)
qed

lemma empty_history_wf [simp]: "hist_wf empty_history" "invocations empty_history = []"
  by (auto simp: empty_history_def hist_wf_def invocations_def)

section \<open>Prefixes\<close>

lemma prefix_spans_no_panic: "chain n ss \<Longrightarrow> prefix_spans b ss \<noteq> Panic"
  by (induction b ss arbitrary: n rule: prefix_spans.induct) (auto simp: outcome_simps Let_def)

lemma prefix_spans_Ok:
  assumes "chain n ss" and "no_runs ss" and "n \<le> b"
    and "b \<le> (if ss = [] then n else span_end (last ss))"
    and "prefix_spans b ss = Ok ps"
  shows "chain n ps \<and> no_runs ps \<and> (ps \<noteq> [] \<longrightarrow> ss \<noteq> [] \<and> span_key (hd ps) = span_key (hd ss)) \<and>
         (\<exists>k. spans_invocations ps = take k (spans_invocations ss)) \<and>
         total_tokens (spans_invocations ps) = b - n"
  using assms
proof (induction ss arbitrary: n ps)
  case Nil
  then show ?case by auto
next
  case (Cons s ss)
  show ?case
  proof (cases "span_start s \<ge> b")
    case True
    with Cons.prems have "ps = []" "b = n" by auto
    then show ?thesis by auto
  next
    case False
    then obtain qs where qs: "prefix_spans b ss = Ok qs"
      and ps: "ps = s\<lparr>span_end := min (span_end s) b\<rparr> # qs"
      and dvd: "(min (span_end s) b - span_start s) mod span_query s = 0"
      using Cons.prems(5) by (auto simp: Let_def outcome_simps split: if_splits)
    show ?thesis
    proof (cases "b \<le> span_end s")
      case True
      have "qs = []"
        using qs True Cons.prems(1) by (cases ss) (auto simp: outcome_simps Let_def)
      let ?k = "(b - n) div span_query s" and ?m = "(span_end s - n) div span_query s"
      have "?k \<le> ?m" using True by (simp add: div_le_mono)
      then have "replicate ?k (span_key s) = take ?k (span_invocations s)"
        using Cons.prems(1) by (simp add: span_invocations_def min_def)
      moreover have "?k * span_query s = b - n"
      proof -
        have "min (span_end s) b = b" using True by simp
        then have "span_query s dvd b - n" using dvd Cons.prems(1) by (simp add: mod_eq_0_iff_dvd)
        then show ?thesis by simp
      qed
      ultimately show ?thesis
        using ps \<open>qs = []\<close> True False Cons.prems dvd \<open>?k \<le> ?m\<close>
        by (auto simp: span_invocations_def span_key_def min_def no_runs_Cons mod_eq_0_iff_dvd
            intro: exI [of _ ?k])
    next
      case gt: False
      then have "ss \<noteq> []" using Cons.prems(4) by (auto split: if_splits)
      have IH: "chain (span_end s) qs \<and> no_runs qs \<and>
          (qs \<noteq> [] \<longrightarrow> ss \<noteq> [] \<and> span_key (hd qs) = span_key (hd ss)) \<and>
          (\<exists>k. spans_invocations qs = take k (spans_invocations ss)) \<and>
          total_tokens (spans_invocations qs) = b - span_end s"
        using Cons.prems gt qs \<open>ss \<noteq> []\<close> by (intro Cons.IH) (auto simp: no_runs_Cons split: if_splits)
      then obtain k where k: "spans_invocations qs = take k (spans_invocations ss)" by blast
      have "ps = s # qs" using ps gt by (simp add: min_def)
      then have inv: "spans_invocations ps = span_invocations s @ take k (spans_invocations ss)"
        using k by simp
      then have pre: "spans_invocations ps = take (length (span_invocations s) + k) (spans_invocations (s # ss))"
        by simp
      have tot: "n + total_tokens (span_invocations s) = span_end s"
        using Cons.prems(1) by (auto simp: span_invocations_def span_key_def)
      have "total_tokens (spans_invocations ps) = b - n"
        using inv k IH tot gt by auto
      moreover have "chain n ps \<and> no_runs ps \<and> (ps \<noteq> [] \<longrightarrow> s # ss \<noteq> [] \<and> span_key (hd ps) = span_key (hd (s # ss)))"
        using \<open>ps = s # qs\<close> IH Cons.prems(1,2) by (auto simp: no_runs_Cons)
      ultimately show ?thesis using pre by blast
    qed
  qed
qed

lemma prefix_spans_exists:
  assumes "chain n ss" and "n + total_tokens (take k (spans_invocations ss)) = b"
  shows "\<exists>ps. prefix_spans b ss = Ok ps"
  using assms
proof (induction ss arbitrary: n k)
  case Nil
  then show ?case by auto
next
  case (Cons s ss)
  let ?m = "(span_end s - n) div span_query s"
  have len: "length (span_invocations s) = ?m" and sz: "?m * span_query s = span_end s - n"
    using Cons.prems(1) by (auto simp: span_invocations_def)
  show ?case
  proof (cases "span_start s \<ge> b")
    case True
    then show ?thesis by auto
  next
    case False
    show ?thesis
    proof (cases "k \<le> ?m")
      case True
      then have "take k (spans_invocations (s # ss)) = replicate k (span_key s)"
        using len by (simp add: span_invocations_def Cons.prems(1) min_def)
      then have b: "b = n + k * span_query s" using Cons.prems(2) by (simp add: span_key_def)
      have "b \<le> span_end s"
        using b sz mult_le_mono1 [OF True, of "span_query s"] Cons.prems(1) by auto
      moreover have "prefix_spans b ss = Ok []"
        using \<open>b \<le> span_end s\<close> Cons.prems(1) by (cases ss) auto
      ultimately show ?thesis using Cons.prems(1) b by (auto simp: Let_def min_def reject_def)
    next
      case gt: False
      then have "take k (spans_invocations (s # ss)) = span_invocations s @ take (k - ?m) (spans_invocations ss)"
        using len by simp
      moreover have "total_tokens (span_invocations s) = ?m * span_query s"
        by (simp add: span_invocations_def span_key_def Cons.prems(1) [simplified])
      ultimately have rest: "span_end s + total_tokens (take (k - ?m) (spans_invocations ss)) = b"
        using Cons.prems sz by auto
      then obtain ps where "prefix_spans b ss = Ok ps"
        using Cons.IH [of "span_end s" "k - ?m"] Cons.prems(1) by auto
      moreover have "span_end s \<le> b" using rest by simp
      ultimately show ?thesis using Cons.prems(1) by (auto simp: Let_def min_def reject_def mod_eq_0_iff_dvd)
    qed
  qed
qed

lemma chain_positive: "chain n ss \<Longrightarrow> i \<in> set (spans_invocations ss) \<Longrightarrow> 0 < snd i"
  by (induction n ss rule: chain.induct) (auto simp: span_invocations_def span_key_def)

lemma prefix_total_unique:
  assumes "prefix is js" and "prefix is' js" and "\<forall>i \<in> set js. 0 < snd i"
    and "total_tokens is = total_tokens is'"
  shows "is = is'"
  using assms
proof (induction js arbitrary: "is" is')
  case Nil
  then show ?case by simp
next
  case (Cons j js)
  then show ?case by (cases "is"; cases is') auto
qed

text \<open>\<open>prefix\<close> on well-formed histories: it returns the history of the invocations up to the
  boundary when the boundary falls between two of them, and an error otherwise.\<close>

lemma hist_prefix_sound:
  assumes "hist_wf h" and "hist_prefix h b = Ok p"
  shows "hist_wf p \<and> prefix (invocations p) (invocations h) \<and> total_tokens (invocations p) = b"
proof -
  from assms(2) obtain ps where ps: "prefix_spans b (hist_spans h) = Ok ps"
    and p: "p = empty_history\<lparr>hist_spans := ps\<rparr>" and b: "b \<le> hist_tokens h"
    by (auto simp: hist_prefix_def outcome_simps)
  have "chain 0 ps \<and> no_runs ps \<and> (\<exists>k. spans_invocations ps = take k (spans_invocations (hist_spans h)))
      \<and> total_tokens (spans_invocations ps) = b - 0"
    using prefix_spans_Ok [of 0 "hist_spans h" b ps] assms(1) b ps
    by (auto simp: hist_wf_def hist_tokens_def)
  then show ?thesis
    using p by (auto simp: hist_wf_def invocations_def empty_history_def take_is_prefix)
qed

lemma hist_prefix_complete:
  assumes "hist_wf h" and "prefix is (invocations h)"
  shows "\<exists>p. hist_prefix h (total_tokens is) = Ok p \<and> hist_wf p \<and> invocations p = is"
proof -
  obtain k where k: "is = take k (invocations h)"
    using assms(2) by (metis append_eq_conv_conj prefixE)
  have ch: "chain 0 (hist_spans h)" using assms(1) by (simp add: hist_wf_def)
  obtain ps where "prefix_spans (total_tokens is) (hist_spans h) = Ok ps"
    using prefix_spans_exists [OF ch, of k "total_tokens is"] k by (auto simp: invocations_def)
  moreover have "total_tokens is \<le> hist_tokens h"
    using assms by (auto simp: hist_tokens_total prefix_def)
  ultimately obtain p where p: "hist_prefix h (total_tokens is) = Ok p"
    by (auto simp: hist_prefix_def reject_def)
  have "prefix (invocations p) (invocations h)" "total_tokens (invocations p) = total_tokens is"
    using hist_prefix_sound [OF assms(1) p] by auto
  then have "invocations p = is"
    using prefix_total_unique [OF _ assms(2)] chain_positive [OF ch] by (auto simp: invocations_def)
  then show ?thesis using p hist_prefix_sound [OF assms(1) p] by blast
qed

lemma history_ext:
  assumes "hist_wf h" and "hist_wf g" and "invocations h = invocations g"
  shows "h = g"
proof -
  have "hist_spans h = hist_spans g"
    using assms canonical_spans [of 0 "hist_spans h" "hist_spans g"]
    by (auto simp: hist_wf_def invocations_def)
  then show ?thesis using assms by (cases h; cases g) (auto simp: hist_wf_def)
qed

text \<open>C27. Appending a completed invocation to a well-formed history keeps it well-formed (spans
  contiguous from zero, whole numbers of invocations, no two adjacent spans mergeable), appends
  exactly that invocation to the sequence the spans stand for, and advances the token frontier by
  its token count.\<close>

theorem append_completed_invocation:
  assumes "hist_wf h" and "append_completed v position n h = (Ok (), h')"
  shows "hist_wf h' \<and> invocations h' = invocations h @ [(numerical_class v, n)] \<and>
         hist_tokens h = position \<and> hist_tokens h' = position + n"
  using append_completed_wf [OF assms] hist_tokens_total assms(1)
    check_append_Ok(1) [OF append_completed_cases(1) [OF assms(2)]]
  by simp

theorem append_completed_invocation_witness:
  "\<exists>h'. append_completed
      \<lparr>var_id = ''p'', var_phase = PhExtend, max_sequences = 1, var_max_tokens = 4, max_query_tokens = 4,
       var_max_context = 16, numerical_class = ''bf16'', graph_capable = True, packed = True\<rparr> 0 4 empty_history
      = (Ok (), h') \<and> hist_tokens h' = 4 \<and> hist_wf h'"
proof -
  let ?v = "\<lparr>var_id = ''p'', var_phase = PhExtend, max_sequences = 1, var_max_tokens = 4, max_query_tokens = 4,
       var_max_context = 16, numerical_class = ''bf16'', graph_capable = True, packed = True\<rparr>"
  obtain h' where h: "append_completed ?v 0 4 empty_history = (Ok (), h')"
    by (auto simp: append_completed_def check_append_def empty_history_def hist_tokens_def
        reject_def accepts_query_tokens_def checked_add_def)
  have "hist_wf empty_history" by simp
  from append_completed_invocation [OF this h] h show ?thesis by auto
qed

text \<open>\<open>same_prefix\<close> decides exactly whether two histories ran the same invocations, of the
  same numerical class and the same size in the same order, up to a boundary that falls between
  two invocations of both.\<close>

theorem same_prefix_iff:
  assumes "hist_wf h" and "hist_wf g"
  shows "same_prefix h g b \<longleftrightarrow>
    (\<exists>is. prefix is (invocations h) \<and> prefix is (invocations g) \<and> total_tokens is = b)"
proof
  assume "same_prefix h g b"
  then obtain p where "hist_prefix h b = Ok p" "hist_prefix g b = Ok p"
    by (auto simp: same_prefix_def split: outcome.splits)
  then show "\<exists>is. prefix is (invocations h) \<and> prefix is (invocations g) \<and> total_tokens is = b"
    using hist_prefix_sound assms by blast
next
  assume "\<exists>is. prefix is (invocations h) \<and> prefix is (invocations g) \<and> total_tokens is = b"
  then obtain "is" where i: "prefix is (invocations h)" "prefix is (invocations g)" "total_tokens is = b"
    by blast
  then obtain p q where "hist_prefix h b = Ok p" "hist_prefix g b = Ok q"
    "hist_wf p" "hist_wf q" "invocations p = is" "invocations q = is"
    using hist_prefix_complete assms by blast
  then show "same_prefix h g b" using history_ext [of p q] by (simp add: same_prefix_def)
qed

theorem same_prefix_iff_witness:
  "hist_wf empty_history \<and> same_prefix empty_history empty_history 0 \<and> \<not> same_prefix empty_history empty_history 1"
  using same_prefix_iff [of empty_history empty_history] by auto

text \<open>A checkpoint's arithmetic history never changes under a request that goes on running:
  every prefix a history has is still its prefix after a further completed invocation.\<close>

theorem append_keeps_prefixes:
  assumes "hist_wf h" and "append_completed v position n h = (Ok (), h')"
    and "hist_prefix h b = Ok p"
  shows "hist_prefix h' b = Ok p"
proof -
  have wf: "hist_wf h'" "invocations h' = invocations h @ [(numerical_class v, n)]"
    using append_completed_wf [OF assms(1,2)] by auto
  have p: "hist_wf p" "prefix (invocations p) (invocations h)" "total_tokens (invocations p) = b"
    using hist_prefix_sound [OF assms(1,3)] by auto
  obtain q where "hist_prefix h' b = Ok q" "hist_wf q" "invocations q = invocations p"
    using hist_prefix_complete [OF wf(1), of "invocations p"] p wf(2) by auto
  then show ?thesis using history_ext [of q p] p(1) by simp
qed

theorem append_keeps_prefixes_witness:
  "\<exists>h'. append_completed
      \<lparr>var_id = ''d'', var_phase = PhDecode, max_sequences = 1, var_max_tokens = 1, max_query_tokens = 1,
       var_max_context = 8, numerical_class = ''bf16'', graph_capable = True, packed = False\<rparr> 0 1 empty_history
      = (Ok (), h') \<and> hist_prefix h' 0 = Ok empty_history"
proof -
  let ?v = "\<lparr>var_id = ''d'', var_phase = PhDecode, max_sequences = 1, var_max_tokens = 1, max_query_tokens = 1,
       var_max_context = 8, numerical_class = ''bf16'', graph_capable = True, packed = False\<rparr>"
  obtain h' where h: "append_completed ?v 0 1 empty_history = (Ok (), h')"
    by (auto simp: append_completed_def check_append_def empty_history_def hist_tokens_def
        reject_def accepts_query_tokens_def checked_add_def)
  have "hist_prefix empty_history 0 = Ok empty_history"
    by (simp add: hist_prefix_def empty_history_def reject_def)
  from append_keeps_prefixes [OF _ h this] h show ?thesis by auto
qed

end
