(* ===== verification/State_Pool.thy ===== *)
theory State_Pool
  imports Serving
begin

text \<open>
  The device-state pool (\<open>crates/inferfabric-runtime/src/state_pool.rs\<close>): reservations over every
  component and rank at once, leases with generations, borrowers that pin an allocation, sealed
  allocations, tickets for work in flight on the ranks, and reclamation of retired allocations.
  Every method is an operation on the pool state; \<open>pool_exec\<close> runs one call.
\<close>

section \<open>The code's data\<close>

datatype lease = Lease (lease_pool: nat) (lease_generation: nat)

instantiation lease :: linorder
begin

definition less_eq_lease :: "lease \<Rightarrow> lease \<Rightarrow> bool" where
  "less_eq_lease a b \<longleftrightarrow>
     lease_pool a < lease_pool b \<or>
     lease_pool a = lease_pool b \<and> lease_generation a \<le> lease_generation b"

definition less_lease :: "lease \<Rightarrow> lease \<Rightarrow> bool" where
  "less_lease a b \<longleftrightarrow>
     lease_pool a < lease_pool b \<or>
     lease_pool a = lease_pool b \<and> lease_generation a < lease_generation b"

instance
  by standard (auto simp: less_eq_lease_def less_lease_def lease.expand)

end

datatype borrow_ref = Borrow (borrow_pool: nat) (borrow_id: nat)

datatype ticket = Ticket (ticket_pool: nat) (ticket_id: nat)

datatype sealed_lease = SealedLease lease

record binding =
  bind_component :: string
  bind_rank :: nat
  units :: "nat list"
  bytes_per_unit :: nat

record page_location =
  physical_page :: nat
  row_in_page :: nat
  byte_offset :: nat

record usage =
  us_component :: string
  us_rank :: nat
  reserved_bytes :: nat
  occupied_bytes :: nat
  retiring_bytes :: nat
  borrowed_bytes :: nat
  sealed_bytes :: nat

record pool =
  pool_key :: "string \<times> nat"
  unit_bytes :: nat
  pool_capacity :: nat
  pool_page_tokens :: "nat option"
  pool_max_tokens :: nat
  pool_retention :: retention
  pool_free :: "nat btset"

record allocation =
  al_request :: nat
  token_limit :: nat
  al_bindings :: "binding list"
  retired :: bool
  sealed :: bool
  al_borrowers :: "nat btset"
  pending :: "nat btset"

record flight =
  remaining_ranks :: "nat btset"
  fl_leases :: "lease list"

record state_pool =
  sp_id :: nat
  sp_epoch :: nat
  sp_max_context :: nat
  sp_next :: nat
  sp_pools :: "pool list"
  allocations :: "(lease, allocation) btmap"
  borrowers :: "(nat, lease) btmap"
  flights :: "(nat, flight) btmap"
  poisoned :: bool

section \<open>Construction\<close>

definition storage_unit :: "storage \<Rightarrow> (nat option \<times> nat) outcome" where
  "storage_unit st =
     (case st of
        Pages page_tokens row_bytes _ \<Rightarrow>
          and_then (ok_or (checked_mul 64 page_tokens row_bytes) (invalid ''page bytes overflow''))
            (\<lambda>bytes. Ok (Some page_tokens, bytes))
      | Slot bytes _ \<Rightarrow> Ok (None, bytes))"

definition new_pool :: "((string \<times> nat) \<times> nat) list \<Rightarrow> state_decl \<Rightarrow> nat option \<times> nat \<Rightarrow> nat \<Rightarrow> pool outcome" where
  "new_pool capacities state u rank =
     (let key = (state_id state, rank) in
      and_then (ok_or (map_of capacities key) (invalid ''missing rank pool budget'')) (\<lambda>capacity.
      and_then (reject (capacity = 0 \<or> checked_mul 64 (snd u) capacity = None)
                 (invalid ''invalid rank pool budget'')) (\<lambda>_.
      Ok \<lparr>pool_key = key, unit_bytes = snd u, pool_capacity = capacity, pool_page_tokens = fst u,
          pool_max_tokens = capacity_tokens state, pool_retention = state_retention state,
          pool_free = [0..<capacity]\<rparr>)))"

definition state_pools :: "((string \<times> nat) \<times> nat) list \<Rightarrow> state_decl \<Rightarrow> pool list outcome" where
  "state_pools capacities state =
     and_then (storage_unit (state_storage state)) (\<lambda>u.
     collect (new_pool capacities state u) (state_ranks state))"

text \<open>The state of this operation is the process-wide counter \<open>NEXT_POOL\<close>.\<close>

definition pool_new :: "manifest \<Rightarrow> nat \<Rightarrow> ((string \<times> nat) \<times> nat) list \<Rightarrow> (nat, state_pool) op" where
  "pool_new m epoch capacities =
     try_op (and_then (validate_manifest m) (\<lambda>_.
             and_then (reject (epoch = 0 \<or> man_states m = []) (invalid ''empty state pool/epoch'')) (\<lambda>_.
             and_then (collect (state_pools capacities) (man_states m)) (\<lambda>pss.
             and_then (reject (length capacities \<noteq> length (concat pss)) (invalid ''unknown rank pool budget'')) (\<lambda>_.
             Ok (concat pss)))))) (\<lambda>pools next_pool.
     try_op (ok_or (checked_add 64 next_pool 1) (invalid ''pool identity exhausted'')) (\<lambda>next' _.
     try_op (unwrap (if man_variants m = [] then None else Some (max_of (map var_max_context (man_variants m)))))
       (\<lambda>max_context next''.
       (Ok \<lparr>sp_id = next_pool, sp_epoch = epoch, sp_max_context = max_context, sp_next = 0, sp_pools = pools,
            allocations = [], borrowers = [], flights = [], poisoned = False\<rparr>, next''))
       next') next_pool)"

section \<open>Operations\<close>

definition live :: "state_pool \<Rightarrow> nat \<Rightarrow> unit outcome" where
  "live s epoch =
     and_then (reject (poisoned s) (invalid ''state pool poisoned by rank failure'')) (\<lambda>_.
     reject (epoch \<noteq> sp_epoch s) Stale)"

definition serial :: "(state_pool, nat) op" where
  "serial s =
     try_op (ok_or (checked_add 64 (sp_next s) 1) (invalid ''state generation exhausted''))
       (\<lambda>n s. (Ok n, s\<lparr>sp_next := n\<rparr>)) s"

definition retained_tokens :: "pool \<Rightarrow> nat \<Rightarrow> nat" where
  "retained_tokens p tokens =
     (if is_full (pool_retention p) then tokens else min tokens (pool_max_tokens p))"

definition unit_count :: "pool \<Rightarrow> nat \<Rightarrow> nat" where
  "unit_count p tokens =
     (case pool_page_tokens p of None \<Rightarrow> 1 | Some n \<Rightarrow> div_ceil (retained_tokens p tokens) n)"

definition prepare_binding :: "nat \<Rightarrow> nat option \<Rightarrow> pool \<Rightarrow> binding outcome" where
  "prepare_binding tokens slot p =
     and_then (reject (is_full (pool_retention p) \<and> tokens > pool_max_tokens p)
                (invalid ''state reservation exceeds compiled capacity'')) (\<lambda>_.
     let n = unit_count p tokens in
     and_then (reject (n > length (pool_free p))
                (Capacity (''state pool '' @ fst (pool_key p) @ '' rank '' @ show_nat (snd (pool_key p))))) (\<lambda>_.
     and_then (case (pool_page_tokens p, slot) of
                 (None, Some sl) \<Rightarrow>
                   and_then (reject (sl \<notin> set (pool_free p))
                     (Capacity (''resident slot '' @ show_nat sl @ '' unavailable for '' @ fst (pool_key p))))
                     (\<lambda>_. Ok [sl])
               | _ \<Rightarrow> Ok (take n (pool_free p))) (\<lambda>us.
     Ok \<lparr>bind_component = fst (pool_key p), bind_rank = snd (pool_key p), units = us,
         bytes_per_unit = unit_bytes p\<rparr>)))"

definition take_units :: "pool \<Rightarrow> binding \<Rightarrow> pool" where
  "take_units p b = p\<lparr>pool_free := bs_remove_all (units b) (pool_free p)\<rparr>"

definition give_units :: "pool \<Rightarrow> binding \<Rightarrow> pool" where
  "give_units p b = p\<lparr>pool_free := bs_extend (units b) (pool_free p)\<rparr>"

definition reserve_inner :: "nat \<Rightarrow> nat \<Rightarrow> nat \<Rightarrow> nat option \<Rightarrow> (state_pool, lease) op" where
  "reserve_inner epoch request tokens slot s =
     try_op (and_then (live s epoch) (\<lambda>_.
             and_then (reject (tokens = 0 \<or> (\<exists>a \<in> set (bt_values (allocations s)). al_request a = request))
                        (invalid ''empty or duplicate state reservation'')) (\<lambda>_.
             and_then (reject (tokens > sp_max_context s)
                        (invalid ''state reservation exceeds executable context'')) (\<lambda>_.
             collect (prepare_binding tokens slot) (sp_pools s))))) (\<lambda>bindings.
     bind_op serial (\<lambda>g s.
       let lease = Lease (sp_id s) g in
       (Ok lease,
        s\<lparr>sp_pools := zip_update take_units (sp_pools s) bindings,
          allocations := bt_insert lease
            \<lparr>al_request = request, token_limit = tokens, al_bindings = bindings, retired = False,
             sealed = False, al_borrowers = [], pending = []\<rparr> (allocations s)\<rparr>))) s"

definition reserve :: "nat \<Rightarrow> nat \<Rightarrow> nat \<Rightarrow> (state_pool, lease) op" where
  "reserve epoch request tokens = reserve_inner epoch request tokens None"

definition reserve_at_slot :: "nat \<Rightarrow> nat \<Rightarrow> nat \<Rightarrow> nat \<Rightarrow> (state_pool, lease) op" where
  "reserve_at_slot epoch request tokens slot = reserve_inner epoch request tokens (Some slot)"

definition bindings :: "state_pool \<Rightarrow> nat \<Rightarrow> lease \<Rightarrow> binding list outcome" where
  "bindings s epoch lease =
     and_then (live s epoch) (\<lambda>_.
     and_then (ok_or (map_of (allocations s) lease) Stale) (\<lambda>a.
     and_then (reject (retired a) Stale) (\<lambda>_. Ok (al_bindings a))))"

definition page_address :: "state_pool \<Rightarrow> nat \<Rightarrow> lease \<Rightarrow> string \<Rightarrow> nat \<Rightarrow> nat \<Rightarrow> page_location outcome" where
  "page_address s epoch lease component rank position =
     and_then (bindings s epoch lease) (\<lambda>bs.
     and_then (unwrap (map_of (allocations s) lease)) (\<lambda>a.
     and_then (reject (position \<ge> token_limit a) (invalid ''append exceeds request reservation'')) (\<lambda>_.
     and_then (ok_or (position_of (\<lambda>p. pool_key p = (component, rank)) (sp_pools s))
                (invalid ''unknown state component/rank'')) (\<lambda>index.
     and_then (index_at (sp_pools s) index) (\<lambda>p.
     and_then (ok_or (pool_page_tokens p) (invalid ''slot is not paged state'')) (\<lambda>page_tokens.
     if page_tokens = 0 then Panic else
     let logical_page = position div page_tokens; ring = pool_max_tokens p div page_tokens in
     and_then (if is_full (pool_retention p) then Ok logical_page
               else if ring = 0 then Panic else Ok (logical_page mod ring)) (\<lambda>page.
     and_then (index_at bs index) (\<lambda>b.
     and_then (ok_or (get_at (units b) page) (invalid ''append exceeds reserved pages'')) (\<lambda>physical.
     let row = position mod page_tokens in
     and_then (fit 64 (physical * unit_bytes p)) (\<lambda>base.
     and_then (fit 64 (row * (unit_bytes p div page_tokens))) (\<lambda>off.
     and_then (fit 64 (base + off)) (\<lambda>at.
     Ok \<lparr>physical_page = physical, row_in_page = row, byte_offset = at\<rparr>))))))))))))"

definition adjust_allocation :: "lease \<Rightarrow> (allocation \<Rightarrow> allocation) \<Rightarrow> (state_pool, unit) op" where
  "adjust_allocation lease f s =
     try_op (unwrap (map_of (allocations s) lease))
       (\<lambda>_ s. (Ok (), s\<lparr>allocations := bt_adjust lease f (allocations s)\<rparr>)) s"

definition pin :: "lease \<Rightarrow> (state_pool, borrow_ref) op" where
  "pin lease =
     bind_op serial (\<lambda>id.
     bind_op (adjust_allocation lease (\<lambda>a. a\<lparr>al_borrowers := bs_insert id (al_borrowers a)\<rparr>)) (\<lambda>_ s.
       (Ok (Borrow (sp_id s) id), s\<lparr>borrowers := bt_insert id lease (borrowers s)\<rparr>)))"

definition borrow :: "nat \<Rightarrow> lease \<Rightarrow> (state_pool, borrow_ref) op" where
  "borrow epoch lease s = try_op (bindings s epoch lease) (\<lambda>_. pin lease) s"

definition check_idle :: "state_pool \<Rightarrow> nat \<Rightarrow> lease \<Rightarrow> unit outcome" where
  "check_idle s epoch lease =
     and_then (bindings s epoch lease) (\<lambda>_.
     and_then (unwrap (map_of (allocations s) lease)) (\<lambda>a.
     reject (al_borrowers a \<noteq> [] \<or> pending a \<noteq> [])
       (invalid ''state still has readers or incomplete rank work'')))"

definition seal :: "nat \<Rightarrow> lease \<Rightarrow> (state_pool, sealed_lease) op" where
  "seal epoch lease s =
     try_op (and_then (bindings s epoch lease) (\<lambda>_.
             and_then (unwrap (map_of (allocations s) lease)) (\<lambda>a.
             reject (pending a \<noteq> []) (invalid ''cannot seal state with incomplete rank work'')))) (\<lambda>_.
     bind_op (adjust_allocation lease (\<lambda>a. a\<lparr>sealed := True\<rparr>)) (\<lambda>_ s. (Ok (SealedLease lease), s))) s"

fun borrow_sealed :: "nat \<Rightarrow> sealed_lease \<Rightarrow> (state_pool, borrow_ref) op" where
  "borrow_sealed epoch (SealedLease lease) s =
     try_op (and_then (live s epoch) (\<lambda>_.
             reject (\<not> (case map_of (allocations s) lease of None \<Rightarrow> False | Some a \<Rightarrow> sealed a)) Stale))
       (\<lambda>_. pin lease) s"

definition borrowed_bindings :: "state_pool \<Rightarrow> nat \<Rightarrow> borrow_ref \<Rightarrow> binding list outcome" where
  "borrowed_bindings s epoch b =
     and_then (live s epoch) (\<lambda>_.
     and_then (reject (borrow_pool b \<noteq> sp_id s) Stale) (\<lambda>_.
     and_then (ok_or (map_of (borrowers s) (borrow_id b)) Stale) (\<lambda>lease.
     and_then (unwrap (map_of (allocations s) lease)) (\<lambda>a. Ok (al_bindings a)))))"

definition reclaimable :: "allocation \<Rightarrow> bool" where
  "reclaimable a \<longleftrightarrow> retired a \<and> al_borrowers a = [] \<and> pending a = []"

definition reclaim_one :: "lease \<Rightarrow> (state_pool, unit) op" where
  "reclaim_one lease s =
     try_op (unwrap (map_of (allocations s) lease)) (\<lambda>a s.
       (Ok (), s\<lparr>allocations := bt_remove lease (allocations s),
                 sp_pools := zip_update give_units (sp_pools s) (al_bindings a)\<rparr>)) s"

definition ready_leases :: "state_pool \<Rightarrow> lease list" where
  "ready_leases s = bt_keys (filter (\<lambda>e. reclaimable (snd e)) (allocations s))"

definition reclaim :: "(state_pool, unit) op" where
  "reclaim s = each_op reclaim_one (ready_leases s) s"

definition release :: "nat \<Rightarrow> borrow_ref \<Rightarrow> (state_pool, unit) op" where
  "release epoch b s =
     try_op (borrowed_bindings s epoch b) (\<lambda>_.
     \<lambda>s. try_op (unwrap (map_of (borrowers s) (borrow_id b))) (\<lambda>lease s.
       bind_op (adjust_allocation lease (\<lambda>a. a\<lparr>al_borrowers := bs_remove (borrow_id b) (al_borrowers a)\<rparr>))
         (\<lambda>_. reclaim) (s\<lparr>borrowers := bt_remove (borrow_id b) (borrowers s)\<rparr>)) s) s"

text \<open>The set \<open>all\<close> that \<open>submit\<close> builds: first the write targets, then the borrowed reads.\<close>

definition submit_writes :: "state_pool \<Rightarrow> nat \<Rightarrow> lease list \<Rightarrow> unit outcome" where
  "submit_writes s epoch leases =
     check_all (\<lambda>lease.
       and_then (bindings s epoch lease) (\<lambda>_.
       and_then (unwrap (map_of (allocations s) lease)) (\<lambda>a.
       reject (sealed a) (invalid ''write submission targets sealed continuation state'')))) leases"

definition submit_reads :: "state_pool \<Rightarrow> nat \<Rightarrow> borrow_ref list \<Rightarrow> lease list outcome" where
  "submit_reads s epoch reads =
     collect (\<lambda>r. and_then (borrowed_bindings s epoch r) (\<lambda>_. unwrap (map_of (borrowers s) (borrow_id r)))) reads"

definition lease_ranks :: "state_pool \<Rightarrow> lease \<Rightarrow> nat list outcome" where
  "lease_ranks s l = and_then (unwrap (map_of (allocations s) l)) (\<lambda>a. Ok (map bind_rank (al_bindings a)))"

definition submit :: "nat \<Rightarrow> lease list \<Rightarrow> borrow_ref list \<Rightarrow> (state_pool, ticket) op" where
  "submit epoch leases reads s =
     try_op (and_then (live s epoch) (\<lambda>_.
             and_then (submit_writes s epoch leases) (\<lambda>_.
             and_then (submit_reads s epoch reads) (\<lambda>targets.
             let all_leases = bs_extend targets (bs_of leases) in
             and_then (reject (all_leases = []) (invalid ''empty state submission'')) (\<lambda>_.
             and_then (collect (lease_ranks s) all_leases) (\<lambda>ranks. Ok (all_leases, bs_of (concat ranks)))))))) (\<lambda>(all_leases, ranks).
     bind_op serial (\<lambda>id.
     bind_op (each_op (\<lambda>lease. adjust_allocation lease (\<lambda>a. a\<lparr>pending := bs_insert id (pending a)\<rparr>)) all_leases) (\<lambda>_ s.
       (Ok (Ticket (sp_id s) id),
        s\<lparr>flights := bt_insert id \<lparr>remaining_ranks = ranks, fl_leases = all_leases\<rparr> (flights s)\<rparr>)))) s"

definition complete :: "nat \<Rightarrow> ticket \<Rightarrow> nat \<Rightarrow> (state_pool, unit) op" where
  "complete epoch t rank s =
     try_op (and_then (live s epoch) (\<lambda>_.
             and_then (reject (ticket_pool t \<noteq> sp_id s) Stale) (\<lambda>_.
             and_then (ok_or (map_of (flights s) (ticket_id t)) Stale) (\<lambda>fl.
             and_then (reject (rank \<notin> set (remaining_ranks fl)) Stale) (\<lambda>_. Ok fl))))) (\<lambda>fl s.
       let rest = bs_remove rank (remaining_ranks fl) in
       if rest = [] then
         bind_op (each_op (\<lambda>lease. adjust_allocation lease (\<lambda>a. a\<lparr>pending := bs_remove (ticket_id t) (pending a)\<rparr>))
                   (fl_leases fl)) (\<lambda>_. reclaim)
           (s\<lparr>flights := bt_remove (ticket_id t) (flights s)\<rparr>)
       else (Ok (), s\<lparr>flights := bt_adjust (ticket_id t) (\<lambda>fl. fl\<lparr>remaining_ranks := rest\<rparr>) (flights s)\<rparr>)) s"

definition retire :: "nat \<Rightarrow> lease \<Rightarrow> (state_pool, unit) op" where
  "retire epoch lease s =
     try_op (bindings s epoch lease) (\<lambda>_.
     bind_op (adjust_allocation lease (\<lambda>a. a\<lparr>retired := True\<rparr>)) (\<lambda>_. reclaim)) s"

definition poison :: "state_pool \<Rightarrow> state_pool" where
  "poison s = s\<lparr>poisoned := True\<rparr>"

definition held_bytes :: "state_pool \<Rightarrow> nat \<Rightarrow> pool \<Rightarrow> (allocation \<Rightarrow> bool) \<Rightarrow> nat" where
  "held_bytes s i p pred =
     sum_list (map (\<lambda>a. length (units (al_bindings a ! i)) * unit_bytes p)
       (filter pred (bt_values (allocations s))))"

definition pool_usage :: "state_pool \<Rightarrow> usage list" where
  "pool_usage s =
     map (\<lambda>(i, p).
       \<lparr>us_component = fst (pool_key p), us_rank = snd (pool_key p),
        reserved_bytes = pool_capacity p * unit_bytes p,
        occupied_bytes = (pool_capacity p - length (pool_free p)) * unit_bytes p,
        retiring_bytes = held_bytes s i p retired,
        borrowed_bytes = held_bytes s i p (\<lambda>a. al_borrowers a \<noteq> []),
        sealed_bytes = held_bytes s i p sealed\<rparr>)
     (enumerate 0 (sp_pools s))"

text \<open>The calls that change the state, as data.\<close>

datatype pool_call =
    CallReserve nat nat nat
  | CallReserveAt nat nat nat nat
  | CallBorrow nat lease
  | CallSeal nat lease
  | CallBorrowSealed nat sealed_lease
  | CallRelease nat borrow_ref
  | CallSubmit nat "lease list" "borrow_ref list"
  | CallComplete nat ticket nat
  | CallRetire nat lease
  | CallPoison

definition run_op :: "('s, 'a) op \<Rightarrow> ('s, unit) op" where
  "run_op m s = (case m s of (r, t) \<Rightarrow> (and_then r (\<lambda>_. Ok ()), t))"

fun pool_exec :: "pool_call \<Rightarrow> (state_pool, unit) op" where
  "pool_exec (CallReserve e r t) = run_op (reserve e r t)"
| "pool_exec (CallReserveAt e r t sl) = run_op (reserve_at_slot e r t sl)"
| "pool_exec (CallBorrow e l) = run_op (borrow e l)"
| "pool_exec (CallSeal e l) = run_op (seal e l)"
| "pool_exec (CallBorrowSealed e l) = run_op (borrow_sealed e l)"
| "pool_exec (CallRelease e b) = run_op (release e b)"
| "pool_exec (CallSubmit e ls bs) = run_op (submit e ls bs)"
| "pool_exec (CallComplete e t r) = run_op (complete e t r)"
| "pool_exec (CallRetire e l) = run_op (retire e l)"
| "pool_exec CallPoison = (\<lambda>s. (Ok (), poison s))"

definition pool_step :: "pool_call \<Rightarrow> state_pool \<Rightarrow> state_pool" where
  "pool_step c s = snd (pool_exec c s)"

end
