(* ===== verification/State_Pool_Inv.thy ===== *)
theory State_Pool_Inv
  imports State_Pool
begin

text \<open>
  The invariant of the state pool and its preservation. \<open>units_partition\<close> is the ownership
  law: the free list of a pool together with the units its allocations hold is, as a multiset,
  exactly the pool's capacity. \<open>borrow_links\<close> and \<open>flight_links\<close> say that the pool's tables of
  borrowers and flights and the sets inside the allocations agree, and \<open>settled\<close> that nothing
  reclaimable is left behind.
\<close>

section \<open>The invariant\<close>

definition pool_ok :: "pool \<Rightarrow> bool" where
  "pool_ok p \<longleftrightarrow>
     0 < pool_capacity p \<and> unit_bytes p * pool_capacity p < 2 ^ 64 \<and>
     (\<forall>n. pool_page_tokens p = Some n \<longrightarrow>
        0 < n \<and> n dvd unit_bytes p \<and> n dvd pool_max_tokens p \<and> 0 < pool_max_tokens p) \<and>
     (pool_page_tokens p = None \<longrightarrow> is_full (pool_retention p))"

definition binding_ok :: "nat \<Rightarrow> pool \<Rightarrow> binding \<Rightarrow> bool" where
  "binding_ok tokens p b \<longleftrightarrow>
     (bind_component b, bind_rank b) = pool_key p \<and> bytes_per_unit b = unit_bytes p \<and>
     length (units b) = unit_count p tokens \<and>
     (is_full (pool_retention p) \<longrightarrow> tokens \<le> pool_max_tokens p)"

definition allocation_ok :: "state_pool \<Rightarrow> allocation \<Rightarrow> bool" where
  "allocation_ok s a \<longleftrightarrow>
     list_all2 (binding_ok (token_limit a)) (sp_pools s) (al_bindings a) \<and>
     0 < token_limit a \<and> token_limit a \<le> sp_max_context s \<and>
     bs_wf (al_borrowers a) \<and> bs_wf (pending a)"

definition units_at :: "nat \<Rightarrow> allocation \<Rightarrow> nat list" where
  "units_at i a = units (al_bindings a ! i)"

definition held :: "nat \<Rightarrow> (lease, allocation) btmap \<Rightarrow> nat multiset" where
  "held i al = (\<Sum>e \<in># mset al. mset (units_at i (snd e)))"

definition units_partition :: "state_pool \<Rightarrow> bool" where
  "units_partition s \<longleftrightarrow>
     (\<forall>i < length (sp_pools s).
        bs_wf (pool_free (sp_pools s ! i)) \<and>
        mset (pool_free (sp_pools s ! i)) + held i (allocations s) = mset [0..<pool_capacity (sp_pools s ! i)])"

definition borrow_links :: "state_pool \<Rightarrow> bool" where
  "borrow_links s \<longleftrightarrow>
     (\<forall>id l. map_of (borrowers s) id = Some l \<longleftrightarrow>
        (\<exists>a. map_of (allocations s) l = Some a \<and> id \<in> set (al_borrowers a))) \<and>
     (\<forall>id \<in> fst ` set (borrowers s). id \<le> sp_next s)"

definition flight_links :: "state_pool \<Rightarrow> bool" where
  "flight_links s \<longleftrightarrow>
     (\<forall>id l. (\<exists>fl. map_of (flights s) id = Some fl \<and> l \<in> set (fl_leases fl)) \<longleftrightarrow>
        (\<exists>a. map_of (allocations s) l = Some a \<and> id \<in> set (pending a))) \<and>
     (\<forall>id fl. map_of (flights s) id = Some fl \<longrightarrow>
        id \<le> sp_next s \<and> remaining_ranks fl \<noteq> [] \<and> bs_wf (remaining_ranks fl) \<and> distinct (fl_leases fl))"

definition leases_ok :: "state_pool \<Rightarrow> bool" where
  "leases_ok s \<longleftrightarrow>
     (\<forall>l \<in> fst ` set (allocations s). lease_pool l = sp_id s \<and> lease_generation l \<le> sp_next s) \<and>
     distinct (map al_request (bt_values (allocations s)))"

definition settled :: "state_pool \<Rightarrow> bool" where
  "settled s \<longleftrightarrow> (\<forall>a \<in> set (bt_values (allocations s)). \<not> reclaimable a)"

text \<open>Everything but \<open>settled\<close>, which the reclaim step restores.\<close>

definition pool_base :: "state_pool \<Rightarrow> bool" where
  "pool_base s \<longleftrightarrow>
     sp_pools s \<noteq> [] \<and> (\<forall>p \<in> set (sp_pools s). pool_ok p) \<and> bt_wf (allocations s) \<and>
     (\<forall>a \<in> set (bt_values (allocations s)). allocation_ok s a) \<and>
     units_partition s \<and> leases_ok s"

definition pool_core :: "state_pool \<Rightarrow> bool" where
  "pool_core s \<longleftrightarrow>
     pool_base s \<and> bt_wf (borrowers s) \<and> bt_wf (flights s) \<and> borrow_links s \<and> flight_links s"

definition pool_inv :: "state_pool \<Rightarrow> bool" where
  "pool_inv s \<longleftrightarrow> pool_core s \<and> settled s"

section \<open>Frame facts\<close>

text \<open>What the operations never change of a pool.\<close>

definition pool_static :: "pool \<Rightarrow> pool" where
  "pool_static p = p\<lparr>pool_free := []\<rparr>"

lemma pool_static_take [simp]: "pool_static (take_units p b) = pool_static p"
  by (simp add: pool_static_def take_units_def)

lemma pool_static_give [simp]: "pool_static (give_units p b) = pool_static p"
  by (simp add: pool_static_def give_units_def)

lemma pool_static_fields:
  assumes "pool_static p = pool_static q"
  shows "pool_key p = pool_key q" "unit_bytes p = unit_bytes q" "pool_capacity p = pool_capacity q"
    "pool_page_tokens p = pool_page_tokens q" "pool_max_tokens p = pool_max_tokens q"
    "pool_retention p = pool_retention q"
  using assms by (cases p; cases q; simp add: pool_static_def)+

lemma pool_ok_static: "pool_static p = pool_static q \<Longrightarrow> pool_ok p = pool_ok q"
  by (simp add: pool_ok_def pool_static_fields [of p q])

lemma binding_ok_static: "pool_static p = pool_static q \<Longrightarrow> binding_ok t p b = binding_ok t q b"
  by (simp add: binding_ok_def unit_count_def retained_tokens_def pool_static_fields [of p q]
      cong: option.case_cong)

text \<open>Two states with the same pools up to their free lists and the same context limit.\<close>

definition same_static :: "state_pool \<Rightarrow> state_pool \<Rightarrow> bool" where
  "same_static s t \<longleftrightarrow>
     map pool_static (sp_pools t) = map pool_static (sp_pools s) \<and> sp_max_context t = sp_max_context s \<and>
     sp_id t = sp_id s"

lemma same_static_length: "same_static s t \<Longrightarrow> length (sp_pools t) = length (sp_pools s)"
  by (metis same_static_def length_map)

lemma same_static_nth:
  "same_static s t \<Longrightarrow> i < length (sp_pools s) \<Longrightarrow> pool_static (sp_pools t ! i) = pool_static (sp_pools s ! i)"
  by (metis same_static_def length_map nth_map)

lemma same_static_pools_ok:
  assumes "same_static s t" and "\<forall>p \<in> set (sp_pools s). pool_ok p"
  shows "\<forall>p \<in> set (sp_pools t). pool_ok p"
  using assms same_static_length [OF assms(1)] same_static_nth [OF assms(1)]
  by (metis in_set_conv_nth pool_ok_static)

lemma same_static_allocation_ok:
  assumes "same_static s t"
  shows "allocation_ok t a = allocation_ok s a"
proof -
  have "list_all2 (binding_ok (token_limit a)) (sp_pools t) (al_bindings a)
      = list_all2 (binding_ok (token_limit a)) (sp_pools s) (al_bindings a)"
    using same_static_length [OF assms] same_static_nth [OF assms]
    by (auto simp: list_all2_conv_all_nth intro: binding_ok_static [THEN iffD1] binding_ok_static [THEN iffD2])
  then show ?thesis using assms by (simp add: allocation_ok_def same_static_def)
qed

lemma same_static_refl [simp]: "same_static s s"
  by (simp add: same_static_def)

section \<open>Held units\<close>

lemma held_insert:
  "l \<notin> fst ` set al \<Longrightarrow> held i (bt_insert l a al) = mset (units_at i a) + held i al"
  by (simp add: held_def mset_bt_insert_fresh)

lemma held_remove:
  "bt_wf al \<Longrightarrow> map_of al l = Some a \<Longrightarrow> held i al = mset (units_at i a) + held i (bt_remove l al)"
  using mset_bt_remove [OF bt_wf_distinct, of al l a] by (simp add: held_def)

lemma held_adjust:
  assumes "\<And>a. al_bindings (f a) = al_bindings a"
  shows "held i (bt_adjust l f al) = held i al"
proof -
  have "map (\<lambda>e. mset (units_at i (snd e))) (bt_adjust l f al) = map (\<lambda>e. mset (units_at i (snd e))) al"
    using assms by (simp add: bt_adjust_def units_at_def)
  then show ?thesis
    by (simp add: held_def flip: mset_map sum_mset_sum_list)
qed

lemma held_ge: "map_of al l = Some a \<Longrightarrow> mset (units_at i a) \<subseteq># held i al"
  by (induction al) (auto simp: held_def split: if_splits intro: subset_mset.add_increasing)

lemma held_two:
  "map_of al l = Some a \<Longrightarrow> map_of al m = Some b \<Longrightarrow> l \<noteq> m \<Longrightarrow>
   mset (units_at i a) + mset (units_at i b) \<subseteq># held i al"
proof (induction al)
  case Nil
  then show ?case by simp
next
  case (Cons e al)
  then show ?case
    using held_ge [of al l a i] held_ge [of al m b i]
    by (auto simp: held_def split: if_splits intro: subset_mset.add_increasing
        subset_mset.add_left_mono simp: add.commute)
qed

lemma partition_distinct:
  assumes "units_partition s" and "i < length (sp_pools s)" and "map_of (allocations s) l = Some a"
  shows "distinct (units_at i a)" "set (units_at i a) \<subseteq> {0..<pool_capacity (sp_pools s ! i)}"
    "set (units_at i a) \<inter> set (pool_free (sp_pools s ! i)) = {}"
proof -
  let ?p = "sp_pools s ! i"
  have eq: "mset (pool_free ?p) + held i (allocations s) = mset [0..<pool_capacity ?p]"
    using assms(1,2) by (simp add: units_partition_def)
  have le: "mset (units_at i a) \<subseteq># held i (allocations s)" using held_ge [OF assms(3)] .
  have sub: "mset (pool_free ?p @ units_at i a) \<subseteq># mset [0..<pool_capacity ?p]"
    using le eq by (metis mset_append subset_mset.add_left_mono)
  then have "distinct (pool_free ?p @ units_at i a)"
    by (metis distinct_upt mset_subset_eq_exists_conv mset_append mset_eq_imp_distinct_iff
        distinct_append ex_mset)
  then show "distinct (units_at i a)" "set (units_at i a) \<inter> set (pool_free ?p) = {}" by auto
  have "set_mset (mset (pool_free ?p @ units_at i a)) \<subseteq> set_mset (mset [0..<pool_capacity ?p])"
    using sub by (rule set_mset_mono)
  then show "set (units_at i a) \<subseteq> {0..<pool_capacity ?p}" by auto
qed

lemma partition_disjoint:
  assumes "units_partition s" and "i < length (sp_pools s)"
    and "map_of (allocations s) l = Some a" and "map_of (allocations s) m = Some b" and "l \<noteq> m"
  shows "set (units_at i a) \<inter> set (units_at i b) = {}"
proof -
  let ?p = "sp_pools s ! i"
  have "mset (units_at i a @ units_at i b) \<subseteq># mset [0..<pool_capacity ?p]"
    using held_two [OF assms(3-5), of i] assms(1,2)
    by (metis units_partition_def mset_append subset_mset.add_increasing subset_mset.order_trans
        mset_subset_eq_add_right)
  then have "distinct (units_at i a @ units_at i b)"
    by (metis distinct_upt mset_subset_eq_exists_conv mset_append mset_eq_imp_distinct_iff
        distinct_append ex_mset)
  then show ?thesis by auto
qed

section \<open>Stepwise preservation\<close>

lemma allocation_in_base:
  "pool_base s \<Longrightarrow> map_of (allocations s) l = Some a \<Longrightarrow> allocation_ok s a"
  by (force simp: pool_base_def dest: map_of_SomeD)

lemma bt_values_adjust:
  "set (bt_values (bt_adjust k f m)) \<subseteq> set (bt_values m) \<union> f ` set (bt_values m)"
  by (force simp: bt_adjust_def)

lemma pool_baseI:
  assumes st: "same_static s t" and base: "pool_base s" and "bt_wf (allocations t)"
    and al: "\<And>a. a \<in> set (bt_values (allocations t)) \<Longrightarrow> allocation_ok s a"
    and "units_partition t" and "leases_ok t"
  shows "pool_base t"
proof -
  have "sp_pools t \<noteq> []"
    using same_static_length [OF st] base unfolding pool_base_def by (metis length_0_conv)
  moreover have "\<forall>p \<in> set (sp_pools t). pool_ok p"
    using same_static_pools_ok [OF st] base unfolding pool_base_def by blast
  ultimately show ?thesis
    unfolding pool_base_def same_static_allocation_ok [OF st] using assms by blast
qed

text \<open>A field update of one allocation that leaves its bindings, its request and its limit alone.\<close>

definition mild :: "(allocation \<Rightarrow> allocation) \<Rightarrow> bool" where
  "mild f \<longleftrightarrow> (\<forall>a. al_bindings (f a) = al_bindings a \<and> token_limit (f a) = token_limit a \<and>
     al_request (f a) = al_request a \<and>
     (bs_wf (al_borrowers a) \<longrightarrow> bs_wf (al_borrowers (f a))) \<and> (bs_wf (pending a) \<longrightarrow> bs_wf (pending (f a))))"

lemma mild_updates [simp]:
  "mild (\<lambda>a. a\<lparr>al_borrowers := bs_insert i (al_borrowers a)\<rparr>)"
  "mild (\<lambda>a. a\<lparr>al_borrowers := bs_remove i (al_borrowers a)\<rparr>)"
  "mild (\<lambda>a. a\<lparr>pending := bs_insert i (pending a)\<rparr>)"
  "mild (\<lambda>a. a\<lparr>pending := bs_remove i (pending a)\<rparr>)"
  "mild (\<lambda>a. a\<lparr>sealed := True\<rparr>)" "mild (\<lambda>a. a\<lparr>retired := True\<rparr>)"
  by (simp_all add: mild_def bs_wf_insert bs_wf_remove)

lemma pool_base_adjust:
  assumes "pool_base s" and "mild f" and "sp_next s \<le> sp_next t"
    and t: "sp_pools t = sp_pools s" "sp_id t = sp_id s" "sp_max_context t = sp_max_context s"
      "allocations t = bt_adjust l f (allocations s)"
  shows "pool_base t"
proof -
  have st: "same_static s t" using t by (simp add: same_static_def)
  have ok: "allocation_ok s a \<Longrightarrow> allocation_ok s (f a)" for a
    using assms(2) by (auto simp: allocation_ok_def mild_def)
  have req: "map al_request (bt_values (bt_adjust l f (allocations s))) = map al_request (bt_values (allocations s))"
    using assms(2) by (auto simp: bt_adjust_def mild_def)
  have keys: "fst ` set (bt_adjust l f (allocations s)) = fst ` set (allocations s)"
    by (metis bt_keys_adjust list.set_map)
  have old: "\<forall>a \<in> set (bt_values (allocations s)). allocation_ok s a"
    using assms(1) unfolding pool_base_def by blast
  have "allocation_ok s a" if "a \<in> set (bt_values (bt_adjust l f (allocations s)))" for a
    using that bt_values_adjust [of l f "allocations s"] old ok by blast
  note al = this
  have "units_partition t"
    using assms(1,2) by (simp add: units_partition_def pool_base_def held_adjust mild_def t)
  moreover have "leases_ok t"
    using assms(1,3) req keys by (auto simp: leases_ok_def pool_base_def t intro: le_trans)
  moreover have "bt_wf (allocations t)" using assms(1) by (simp add: pool_base_def t)
  ultimately show ?thesis using al by (intro pool_baseI [OF st assms(1)]) (auto simp: t)
qed

lemma pool_base_next:
  assumes "pool_base s" and "n \<ge> sp_next s"
  shows "pool_base (s\<lparr>sp_next := n\<rparr>)"
proof -
  have st: "same_static s (s\<lparr>sp_next := n\<rparr>)" by (simp add: same_static_def)
  show ?thesis
    using assms
    by (auto simp: pool_base_def same_static_allocation_ok [OF st] units_partition_def leases_ok_def
        intro: le_trans)
qed

lemma serial_cases:
  obtains (ok) "sp_next s + 1 < 2 ^ 64" "serial s = (Ok (Suc (sp_next s)), s\<lparr>sp_next := Suc (sp_next s)\<rparr>)"
  | (full) e where "serial s = (Err e, s)"
  by (cases "sp_next s + 1 < 2 ^ 64") (auto simp: serial_def checked_add_def)

subsection \<open>Reclaiming\<close>

lemma nth_give:
  "i < length ps \<Longrightarrow> length bs = length ps \<Longrightarrow> zip_update give_units ps bs ! i = give_units (ps ! i) (bs ! i)"
  by (simp add: nth_zip_update)

lemma reclaim_one_core:
  assumes "pool_core s" and a: "map_of (allocations s) l = Some a" and "reclaimable a"
  obtains t where "reclaim_one l s = (Ok (), t)" "pool_core t" "same_static s t"
    "allocations t = bt_remove l (allocations s)" "borrowers t = borrowers s" "flights t = flights s"
    "sp_next t = sp_next s" "sp_epoch t = sp_epoch s" "poisoned t = poisoned s"
proof -
  let ?t = "s\<lparr>allocations := bt_remove l (allocations s),
              sp_pools := zip_update give_units (sp_pools s) (al_bindings a)\<rparr>"
  have base: "pool_base s" using assms(1) by (simp add: pool_core_def)
  have wf: "bt_wf (allocations s)" using base by (simp add: pool_base_def)
  have len: "length (al_bindings a) = length (sp_pools s)"
    using allocation_in_base [OF base a] by (auto simp: allocation_ok_def dest: list_all2_lengthD)
  have st: "same_static s ?t" by (simp add: same_static_def map_zip_update)
  have part: "units_partition ?t"
    unfolding units_partition_def
  proof (intro allI impI)
    fix i assume "i < length (sp_pools ?t)"
    then have i: "i < length (sp_pools s)" by simp
    have up: "units_partition s" using base by (simp add: pool_base_def)
    let ?p = "sp_pools s ! i"
    have p': "zip_update give_units (sp_pools s) (al_bindings a) ! i = give_units ?p (al_bindings a ! i)" using i len by (simp add: nth_give)
    have free: "bs_wf (pool_free ?p)"
      and eq: "mset (pool_free ?p) + held i (allocations s) = mset [0..<pool_capacity ?p]"
      using up i by (auto simp: units_partition_def)
    have "mset (bs_extend (units_at i a) (pool_free ?p)) = mset (units_at i a) + mset (pool_free ?p)"
      using partition_distinct [OF up i a] by (intro mset_bs_extend)
    then show "bs_wf (pool_free (sp_pools ?t ! i)) \<and>
        mset (pool_free (sp_pools ?t ! i)) + held i (allocations ?t) = mset [0..<pool_capacity (sp_pools ?t ! i)]"
      using eq held_remove [OF wf a, of i] free
      by (simp add: p' give_units_def units_at_def bs_wf_extend ac_simps)
  qed
  have vals: "set (bt_values (bt_remove l (allocations s))) \<subseteq> set (bt_values (allocations s))"
    by (auto simp: bt_remove_def)
  have "distinct (map al_request (bt_values (bt_remove l (allocations s))))"
    using base by (auto simp: pool_base_def leases_ok_def bt_remove_def distinct_map_filter)
  then have lk: "leases_ok ?t" using base by (auto simp: pool_base_def leases_ok_def)
  have al: "allocation_ok s b" if "b \<in> set (bt_values (bt_remove l (allocations s)))" for b
    using that vals base unfolding pool_base_def by blast
  have "pool_base ?t"
    using part lk bt_wf_remove [OF wf] al by (intro pool_baseI [OF st base]) auto
  moreover have "borrow_links ?t" "flight_links ?t"
    using assms a by (auto simp: pool_core_def borrow_links_def flight_links_def reclaimable_def)
  ultimately have "pool_core ?t" using assms(1) by (simp add: pool_core_def)
  then show ?thesis using st a by (intro that [of ?t]) (auto simp: reclaim_one_def)
qed

lemma map_of_filter_key: "map_of (filter (\<lambda>e. P (fst e)) m) k = (if P k then map_of m k else None)"
  by (induction m) auto

definition same_tables :: "state_pool \<Rightarrow> state_pool \<Rightarrow> bool" where
  "same_tables s t \<longleftrightarrow>
     borrowers t = borrowers s \<and> flights t = flights s \<and> sp_next t = sp_next s \<and>
     sp_epoch t = sp_epoch s \<and> poisoned t = poisoned s"

lemma reclaim_core:
  assumes "pool_core s"
  obtains t where "reclaim s = (Ok (), t)" "pool_inv t" "same_static s t" "same_tables s t"
    "allocations t = filter (\<lambda>e. \<not> reclaimable (snd e)) (allocations s)"
proof -
  let ?ready = "ready_leases s"
  have wf: "bt_wf (allocations s)" using assms by (simp add: pool_core_def pool_base_def)
  then have dist: "distinct (bt_keys (allocations s))" by (rule bt_wf_distinct)
  have dr: "distinct ?ready" using dist by (simp add: ready_leases_def distinct_map_filter)
  have ready: "\<exists>a. map_of (allocations s) l = Some a \<and> reclaimable a" if "l \<in> set ?ready" for l
    using that dist by (force simp: ready_leases_def)
  let ?I = "\<lambda>before t. pool_core t \<and> same_static s t \<and> same_tables s t \<and>
     allocations t = filter (\<lambda>e. fst e \<notin> set before) (allocations s)"
  have "\<exists>t. each_op reclaim_one ?ready s = (Ok (), t) \<and> ?I ?ready t"
  proof (rule each_op_rule [where I = ?I])
    show "?I [] s" using assms by (simp add: same_tables_def)
  next
    fix before x todo t
    assume xs: "?ready = before @ x # todo" and I: "?I before t"
    obtain a where a: "map_of (allocations s) x = Some a" "reclaimable a" using ready [of x] xs by auto
    have "x \<notin> set before" using dr xs by auto
    then have "map_of (allocations t) x = Some a"
      using I a map_of_filter_key [of "\<lambda>k. k \<notin> set before" "allocations s" x] by simp
    from reclaim_one_core [OF _ this a(2)] I obtain u where
      u: "reclaim_one x t = (Ok (), u)" "pool_core u" "same_static t u"
        "allocations u = bt_remove x (allocations t)" "same_tables t u"
      unfolding same_tables_def by blast
    moreover have "bt_remove x (allocations t) = filter (\<lambda>e. fst e \<notin> set (before @ [x])) (allocations s)"
      using I by (auto simp: bt_remove_def intro!: filter_cong)
    ultimately show "\<exists>u. reclaim_one x t = (Ok (), u) \<and> ?I (before @ [x]) u"
      using I by (auto simp: same_static_def same_tables_def)
  qed
  then obtain t where t: "each_op reclaim_one ?ready s = (Ok (), t)" "?I ?ready t" by blast
  have eq: "filter (\<lambda>e. fst e \<notin> set ?ready) (allocations s) = filter (\<lambda>e. \<not> reclaimable (snd e)) (allocations s)"
    using dist by (intro filter_cong) (force simp: ready_leases_def distinct_map inj_on_def)+
  have "settled t" using t(2) eq by (auto simp: settled_def)
  then show ?thesis using t eq that [of t] by (simp add: reclaim_def pool_inv_def)
qed

section \<open>Every call preserves the invariant, fails without a trace and never panics\<close>

definition good :: "(state_pool, 'a) op \<Rightarrow> state_pool \<Rightarrow> bool" where
  "good m s \<longleftrightarrow> (case m s of (Ok _, t) \<Rightarrow> pool_inv t | (Err _, t) \<Rightarrow> t = s | (Panic, _) \<Rightarrow> False)"

lemma good_try:
  assumes "r \<noteq> Panic" and "\<And>x. r = Ok x \<Longrightarrow> good (f x) s"
  shows "good (try_op r f) s"
  using assms by (cases r) (auto simp: good_def)

lemma good_run: "good m s \<Longrightarrow> good (run_op m) s"
  by (auto simp: good_def run_op_def split: prod.splits outcome.splits)

lemma live_no_panic [simp]: "live s e \<noteq> Panic"
  by (simp add: live_def outcome_simps)

lemma bindings_no_panic [simp]: "bindings s e l \<noteq> Panic"
  by (simp add: bindings_def outcome_simps)

lemma bindings_Ok:
  assumes "bindings s e l = Ok bs"
  obtains a where "map_of (allocations s) l = Some a" "bs = al_bindings a" "\<not> retired a" "live s e = Ok ()"
  using assms by (auto simp: bindings_def outcome_simps)

lemma borrow_target:
  assumes "pool_core s" and "map_of (borrowers s) i = Some l"
  obtains a where "map_of (allocations s) l = Some a" "i \<in> set (al_borrowers a)"
  using assms unfolding pool_core_def borrow_links_def by blast

lemma borrowed_bindings_no_panic:
  "pool_core s \<Longrightarrow> borrowed_bindings s e b \<noteq> Panic"
  by (auto simp: borrowed_bindings_def outcome_simps elim: borrow_target)

lemma borrowed_bindings_Ok:
  assumes "borrowed_bindings s e b = Ok bs"
  obtains l a where "borrow_pool b = sp_id s" "map_of (borrowers s) (borrow_id b) = Some l"
    "map_of (allocations s) l = Some a" "bs = al_bindings a" "live s e = Ok ()"
  using assms by (auto simp: borrowed_bindings_def outcome_simps)

lemma fresh_ids:
  assumes "pool_core s"
  shows "Suc (sp_next s) \<notin> fst ` set (borrowers s)" "Suc (sp_next s) \<notin> fst ` set (flights s)"
    "Lease i (Suc (sp_next s)) \<notin> fst ` set (allocations s)"
proof -
  show "Suc (sp_next s) \<notin> fst ` set (borrowers s)"
    using assms by (auto simp: pool_core_def borrow_links_def)
  have "bt_wf (flights s)" using assms by (simp add: pool_core_def)
  then show "Suc (sp_next s) \<notin> fst ` set (flights s)"
    using assms by (fastforce simp: pool_core_def flight_links_def bt_in_get)
  show "Lease i (Suc (sp_next s)) \<notin> fst ` set (allocations s)"
    using assms by (force simp: pool_core_def pool_base_def leases_ok_def)
qed

lemma pin_good:
  assumes "pool_inv s" and a: "map_of (allocations s) l = Some a"
  shows "good (pin l) s"
proof (cases rule: serial_cases [of s])
  case (full e)
  then show ?thesis by (simp add: pin_def good_def)
next
  case ok
  let ?n = "Suc (sp_next s)"
  let ?f = "\<lambda>a. a\<lparr>al_borrowers := bs_insert ?n (al_borrowers a)\<rparr>"
  let ?t = "s\<lparr>sp_next := ?n, allocations := bt_adjust l ?f (allocations s),
               borrowers := bt_insert ?n l (borrowers s)\<rparr>"
  have core: "pool_core s" using assms(1) by (simp add: pool_inv_def)
  have run: "pin l s = (Ok (Borrow (sp_id s) ?n), ?t)"
    using ok a by (simp add: pin_def adjust_allocation_def bind_op_def)
  have base: "pool_base ?t"
    by (rule pool_base_adjust [where s = s and f = ?f and l = l]) (use core in \<open>simp_all add: pool_core_def\<close>)
  have fresh: "map_of (borrowers s) ?n = None"
    using fresh_ids(1) [OF core] by (simp add: map_of_eq_None_iff)
  then have unused: "map_of (allocations s) l' = Some a' \<Longrightarrow> ?n \<notin> set (al_borrowers a')" for l' a'
    using core unfolding pool_core_def borrow_links_def by (metis option.distinct(1))
  have "borrow_links ?t"
    using core a unused
    by (auto simp: pool_core_def borrow_links_def map_of_bt_adjust)
  moreover have "flight_links ?t"
    using core by (fastforce simp: pool_core_def flight_links_def map_of_bt_adjust split: if_splits)
  moreover have "settled ?t"
    using assms(1) by (auto simp: pool_inv_def settled_def reclaimable_def bt_adjust_def)
  ultimately have "pool_inv ?t"
    using base core by (simp add: pool_inv_def pool_core_def bt_wf_insert)
  then show ?thesis by (simp add: good_def run)
qed

lemma borrow_good:
  assumes "pool_inv s"
  shows "good (borrow e l) s"
proof -
  have "good (try_op (bindings s e l) (\<lambda>_. pin l)) s"
    using assms by (intro good_try) (auto intro: pin_good elim: bindings_Ok)
  then show ?thesis by (simp add: good_def borrow_def)
qed

lemma borrow_sealed_good:
  assumes "pool_inv s"
  shows "good (borrow_sealed e sl) s"
proof (cases sl)
  case (SealedLease l)
  have "good (try_op (and_then (live s e) (\<lambda>_.
             reject (\<not> (case map_of (allocations s) l of None \<Rightarrow> False | Some a \<Rightarrow> sealed a)) Stale)) (\<lambda>_. pin l)) s"
  proof (rule good_try)
    fix u
    assume "and_then (live s e) (\<lambda>_. reject (\<not> (case map_of (allocations s) l of None \<Rightarrow> False | Some a \<Rightarrow> sealed a)) Stale)
      = Ok u"
    then obtain a where "map_of (allocations s) l = Some a"
      by (auto simp: outcome_simps split: option.splits)
    then show "good (pin l) s" by (rule pin_good [OF assms])
  qed (auto simp: outcome_simps)
  then show ?thesis by (simp add: good_def SealedLease)
qed

lemma adjust_core:
  assumes "pool_core s" and "map_of (allocations s) l = Some a" and "mild f"
    and "al_borrowers (f a) = al_borrowers a" and "pending (f a) = pending a"
  shows "adjust_allocation l f s = (Ok (), s\<lparr>allocations := bt_adjust l f (allocations s)\<rparr>)"
    "pool_core (s\<lparr>allocations := bt_adjust l f (allocations s)\<rparr>)"
proof -
  let ?t = "s\<lparr>allocations := bt_adjust l f (allocations s)\<rparr>"
  show "adjust_allocation l f s = (Ok (), ?t)"
    using assms(2) by (simp add: adjust_allocation_def)
  have "pool_base ?t"
    by (rule pool_base_adjust [where s = s and f = f and l = l])
      (use assms(1,3) in \<open>simp_all add: pool_core_def\<close>)
  moreover have "borrow_links ?t" "flight_links ?t"
    using assms by (auto simp: pool_core_def borrow_links_def flight_links_def map_of_bt_adjust)
  ultimately show "pool_core ?t" using assms(1) by (simp add: pool_core_def)
qed

lemma seal_good:
  assumes "pool_inv s"
  shows "good (seal e l) s"
proof -
  let ?f = "\<lambda>a :: allocation. a\<lparr>sealed := True\<rparr>"
  let ?r = "and_then (bindings s e l) (\<lambda>_. and_then (unwrap (map_of (allocations s) l)) (\<lambda>a.
             reject (pending a \<noteq> []) (invalid ''cannot seal state with incomplete rank work'')))"
  have core: "pool_core s" using assms by (simp add: pool_inv_def)
  have "good (try_op ?r (\<lambda>_. bind_op (adjust_allocation l ?f) (\<lambda>_ s. (Ok (SealedLease l), s)))) s"
  proof (rule good_try)
    show "?r \<noteq> Panic" by (auto simp: outcome_simps elim: bindings_Ok)
  next
    fix u assume "?r = Ok u"
    then obtain a where a: "map_of (allocations s) l = Some a" by (auto simp: outcome_simps)
    have "settled (s\<lparr>allocations := bt_adjust l ?f (allocations s)\<rparr>)"
      using assms by (auto simp: pool_inv_def settled_def reclaimable_def bt_adjust_def)
    then show "good (bind_op (adjust_allocation l ?f) (\<lambda>_ s. (Ok (SealedLease l), s))) s"
      using adjust_core [OF core a, of ?f] by (simp add: good_def bind_op_def pool_inv_def)
  qed
  then show ?thesis by (simp add: good_def seal_def)
qed

lemma reclaim_good: "pool_core s \<Longrightarrow> \<exists>t. reclaim s = (Ok (), t) \<and> pool_inv t"
  by (metis reclaim_core)

lemma retire_good:
  assumes "pool_inv s"
  shows "good (retire e l) s"
proof -
  let ?f = "\<lambda>a :: allocation. a\<lparr>retired := True\<rparr>"
  have core: "pool_core s" using assms by (simp add: pool_inv_def)
  have "good (try_op (bindings s e l) (\<lambda>_. bind_op (adjust_allocation l ?f) (\<lambda>_. reclaim))) s"
  proof (rule good_try)
    fix bs assume "bindings s e l = Ok bs"
    then obtain a where a: "map_of (allocations s) l = Some a" by (elim bindings_Ok)
    from reclaim_good [OF adjust_core(2) [OF core a, of ?f]]
    show "good (bind_op (adjust_allocation l ?f) (\<lambda>_. reclaim)) s"
      using adjust_core(1) [OF core a, of ?f] by (auto simp: good_def bind_op_def)
  qed simp
  then show ?thesis by (simp add: good_def retire_def)
qed

lemma release_good:
  assumes "pool_inv s"
  shows "good (release e b) s"
proof -
  have core: "pool_core s" using assms by (simp add: pool_inv_def)
  show ?thesis
  proof (cases "borrowed_bindings s e b")
    case Panic
    then show ?thesis using borrowed_bindings_no_panic [OF core] by simp
  next
    case (Err err)
    then show ?thesis by (simp add: good_def release_def)
  next
    case (Ok bs)
    then obtain l a where l: "map_of (borrowers s) (borrow_id b) = Some l" "map_of (allocations s) l = Some a"
      by (elim borrowed_bindings_Ok)
    let ?f = "\<lambda>a. a\<lparr>al_borrowers := bs_remove (borrow_id b) (al_borrowers a)\<rparr>"
    let ?t = "s\<lparr>borrowers := bt_remove (borrow_id b) (borrowers s), allocations := bt_adjust l ?f (allocations s)\<rparr>"
    have "pool_base ?t"
      by (rule pool_base_adjust [where s = s and f = ?f and l = l]) (use core in \<open>simp_all add: pool_core_def\<close>)
    moreover have "borrow_links ?t"
    proof -
      have old: "map_of (borrowers s) i = Some k \<longleftrightarrow>
          (\<exists>a. map_of (allocations s) k = Some a \<and> i \<in> set (al_borrowers a))" for i k
        using core unfolding pool_core_def borrow_links_def by blast
      have "map_of (borrowers ?t) i = Some k \<longleftrightarrow>
          (\<exists>a. map_of (allocations ?t) k = Some a \<and> i \<in> set (al_borrowers a))" for i k
        using old [of i k] old [of "borrow_id b" k] l
        by (cases "i = borrow_id b"; cases "k = l") (auto simp: map_of_bt_adjust)
      then show ?thesis using core by (auto simp: borrow_links_def pool_core_def)
    qed
    moreover have "flight_links ?t"
      using core by (fastforce simp: pool_core_def flight_links_def map_of_bt_adjust split: if_splits)
    ultimately have "pool_core ?t" using core by (simp add: pool_core_def bt_wf_remove)
    then have "\<exists>u. reclaim ?t = (Ok (), u) \<and> pool_inv u" by (rule reclaim_good)
    then show ?thesis
      using Ok l by (auto simp: good_def release_def adjust_allocation_def bind_op_def)
  qed
qed

end
