(* ===== verification/State_Pool_Calls.thy ===== *)
theory State_Pool_Calls
  imports State_Pool_Inv
begin

text \<open>
  Preservation for the three calls that touch several allocations or pools at once
  (\<open>reserve_inner\<close>, \<open>submit\<close>, \<open>complete\<close>), and the result for every call of \<open>pool_exec\<close>.
\<close>

section \<open>Reservation\<close>

lemma prepare_binding_no_panic [simp]: "prepare_binding tokens slot p \<noteq> Panic"
  by (auto simp: prepare_binding_def outcome_simps Let_def split: option.splits)

lemma prepare_binding_Ok:
  assumes "prepare_binding tokens slot p = Ok b" and "bs_wf (pool_free p)"
  shows "binding_ok tokens p b" "distinct (units b)" "set (units b) \<subseteq> set (pool_free p)"
proof -
  from assms(1) have n: "unit_count p tokens \<le> length (pool_free p)"
    by (auto simp: prepare_binding_def outcome_simps Let_def)
  then have len: "length (take (unit_count p tokens) (pool_free p)) = unit_count p tokens" by simp
  have "pool_page_tokens p = None \<Longrightarrow> unit_count p tokens = 1" by (simp add: unit_count_def)
  then show "binding_ok tokens p b"
    using assms(1) len
    by (auto simp: prepare_binding_def outcome_simps Let_def binding_ok_def simp del: length_take
        split: option.splits)
  show "distinct (units b)" "set (units b) \<subseteq> set (pool_free p)"
    using assms(1) bs_wf_distinct [OF assms(2)]
    by (auto simp: prepare_binding_def outcome_simps Let_def split: option.splits dest: in_set_takeD)
qed

definition reserved_state :: "state_pool \<Rightarrow> nat \<Rightarrow> nat \<Rightarrow> binding list \<Rightarrow> state_pool" where
  "reserved_state s request tokens bs =
     s\<lparr>sp_next := Suc (sp_next s), sp_pools := zip_update take_units (sp_pools s) bs,
       allocations := bt_insert (Lease (sp_id s) (Suc (sp_next s)))
         \<lparr>al_request = request, token_limit = tokens, al_bindings = bs, retired = False,
          sealed = False, al_borrowers = [], pending = []\<rparr> (allocations s)\<rparr>"

lemma reserve_inner_Ok:
  assumes "reserve_inner e r tokens slot s = (Ok l, t)"
  obtains bs where "collect (prepare_binding tokens slot) (sp_pools s) = Ok bs"
    "l = Lease (sp_id s) (Suc (sp_next s))" "t = reserved_state s r tokens bs"
    "0 < tokens" "tokens \<le> sp_max_context s" "live s e = Ok ()"
    "r \<notin> set (map al_request (bt_values (allocations s)))"
  using assms
  by (cases rule: serial_cases [of s])
    (auto simp: reserve_inner_def try_op_eq bind_op_eq outcome_simps reserved_state_def Let_def)

lemma reserve_inner_Err:
  "reserve_inner e r tokens slot s = (Err err, t) \<Longrightarrow> t = s"
  by (cases rule: serial_cases [of s])
    (auto simp: reserve_inner_def try_op_eq bind_op_eq Let_def)

lemma reserve_inner_no_panic: "reserve_inner e r tokens slot s \<noteq> (Panic, t)"
  by (cases rule: serial_cases [of s])
    (auto simp: reserve_inner_def try_op_eq bind_op_eq Let_def outcome_simps collect_no_panic)

lemma collected_bindings:
  assumes "pool_base s" and c: "collect (prepare_binding tokens slot) (sp_pools s) = Ok bs"
    and i: "i < length (sp_pools s)"
  shows "length bs = length (sp_pools s)" "binding_ok tokens (sp_pools s ! i) (bs ! i)"
    "distinct (units (bs ! i))" "set (units (bs ! i)) \<subseteq> set (pool_free (sp_pools s ! i))"
proof -
  have "bs_wf (pool_free (sp_pools s ! i))" using assms(1) i by (simp add: pool_base_def units_partition_def)
  moreover have "prepare_binding tokens slot (sp_pools s ! i) = Ok (bs ! i)"
    using c i by (simp add: collect_Ok_iff)
  ultimately show "binding_ok tokens (sp_pools s ! i) (bs ! i)"
    "distinct (units (bs ! i))" "set (units (bs ! i)) \<subseteq> set (pool_free (sp_pools s ! i))"
    by (auto dest: prepare_binding_Ok)
  show "length bs = length (sp_pools s)" using c by (rule collect_length)
qed

lemma reserved_base:
  assumes core: "pool_core s" and c: "collect (prepare_binding tokens slot) (sp_pools s) = Ok bs"
    and "0 < tokens" and "tokens \<le> sp_max_context s"
    and req: "r \<notin> set (map al_request (bt_values (allocations s)))"
  shows "pool_base (reserved_state s r tokens bs)"
proof -
  let ?t = "reserved_state s r tokens bs"
  let ?l = "Lease (sp_id s) (Suc (sp_next s))"
  let ?a = "\<lparr>al_request = r, token_limit = tokens, al_bindings = bs, retired = False,
             sealed = False, al_borrowers = [], pending = []\<rparr>"
  have base: "pool_base s" using core by (simp add: pool_core_def)
  note cb = collected_bindings [OF base c]
  have fresh: "?l \<notin> fst ` set (allocations s)" using fresh_ids(3) [OF core] .
  have st: "same_static s ?t"
    by (simp add: same_static_def reserved_state_def map_zip_update)
  have len: "length bs = length (sp_pools s)" using c by (rule collect_length)
  have new: "allocation_ok s ?a"
    using assms(3,4) cb(2) len by (simp add: allocation_ok_def list_all2_conv_all_nth)
  have old: "\<forall>a \<in> set (bt_values (allocations s)). allocation_ok s a"
    using base unfolding pool_base_def by blast
  have vals: "mset (bt_values (bt_insert ?l ?a (allocations s))) = add_mset ?a (mset (bt_values (allocations s)))"
    using mset_bt_insert_fresh [OF fresh, of ?a] by simp
  have alloc: "allocations ?t = bt_insert ?l ?a (allocations s)" by (simp add: reserved_state_def)
  have al: "allocation_ok s b" if "b \<in> set (bt_values (allocations ?t))" for b
    using that new old set_bt_insert_values [of ?l ?a "allocations s"] unfolding alloc by blast
  have "mset (map al_request (bt_values (bt_insert ?l ?a (allocations s)))) =
      mset (r # map al_request (bt_values (allocations s)))"
    using arg_cong [OF vals, of "image_mset al_request"] by (simp add: multiset.map_comp)
  moreover have lks: "leases_ok s" using base by (simp add: pool_base_def)
  ultimately have dist: "distinct (map al_request (bt_values (allocations ?t)))"
    using mset_eq_imp_distinct_iff req unfolding alloc leases_ok_def by (metis distinct.simps(2))
  have "fst ` set (allocations ?t) = insert ?l (fst ` set (allocations s))" by (simp add: alloc)
  then have lk: "leases_ok ?t"
    using lks dist by (auto simp: leases_ok_def reserved_state_def simp del: set_map list.map_comp)
  have up: "units_partition ?t"
    unfolding units_partition_def
  proof (intro allI impI)
    fix i assume "i < length (sp_pools ?t)"
    then have i: "i < length (sp_pools s)" using same_static_length [OF st] by simp
    let ?p = "sp_pools s ! i"
    have p: "sp_pools ?t ! i = take_units ?p (bs ! i)"
      using i len by (simp add: reserved_state_def nth_zip_update)
    have free: "bs_wf (pool_free ?p)"
      and eq: "mset (pool_free ?p) + held i (allocations s) = mset [0..<pool_capacity ?p]"
      using base i by (auto simp: pool_base_def units_partition_def)
    from mset_bs_remove_all [OF free cb(3,4) [OF i]]
    show "bs_wf (pool_free (sp_pools ?t ! i)) \<and>
        mset (pool_free (sp_pools ?t ! i)) + held i (allocations ?t) = mset [0..<pool_capacity (sp_pools ?t ! i)]"
      using eq held_insert [OF fresh, of i ?a] free
      by (simp add: p alloc take_units_def bs_wf_remove_all units_at_def ac_simps)
  qed
  have wf: "bt_wf (allocations ?t)"
    using base by (simp add: reserved_state_def pool_base_def bt_wf_insert)
  show ?thesis by (rule pool_baseI [OF st base wf al up lk])
qed

lemma reserved_inv:
  assumes "pool_inv s" and "collect (prepare_binding tokens slot) (sp_pools s) = Ok bs"
    and "0 < tokens" and "tokens \<le> sp_max_context s"
    and "r \<notin> set (map al_request (bt_values (allocations s)))"
  shows "pool_inv (reserved_state s r tokens bs)"
proof -
  let ?t = "reserved_state s r tokens bs"
  have core: "pool_core s" using assms(1) by (simp add: pool_inv_def)
  have fresh: "map_of (allocations s) (Lease (sp_id s) (Suc (sp_next s))) = None"
    using fresh_ids(3) [OF core, of "sp_id s"] by (simp add: map_of_eq_None_iff)
  have "pool_base ?t" using reserved_base [OF core assms(2-5)] .
  moreover have "borrow_links ?t" "flight_links ?t"
    using core fresh by (force simp: pool_core_def borrow_links_def flight_links_def reserved_state_def)+
  moreover have "settled ?t"
    using assms(1) set_bt_insert_values
    by (fastforce simp: pool_inv_def settled_def reserved_state_def reclaimable_def)
  ultimately show ?thesis using core by (simp add: pool_inv_def pool_core_def reserved_state_def)
qed

lemma reserve_inner_good:
  assumes "pool_inv s"
  shows "good (reserve_inner e r tokens slot) s"
proof (cases "reserve_inner e r tokens slot s")
  case (Pair res t)
  show ?thesis
  proof (cases res)
    case (Ok l)
    with Pair have "pool_inv t" by (metis reserve_inner_Ok reserved_inv [OF assms])
    then show ?thesis using Pair Ok by (simp add: good_def)
  next
    case (Err err)
    then show ?thesis using Pair reserve_inner_Err [of e r tokens slot s err t] by (simp add: good_def)
  next
    case Panic
    then show ?thesis using Pair reserve_inner_no_panic by blast
  qed
qed

section \<open>Updating several allocations\<close>

definition adjust_all :: "lease list \<Rightarrow> (allocation \<Rightarrow> allocation) \<Rightarrow> (lease, allocation) btmap \<Rightarrow> (lease, allocation) btmap" where
  "adjust_all ls f m = fold (\<lambda>l. bt_adjust l f) ls m"

lemma adjust_all_simps [simp]:
  "adjust_all [] f m = m" "adjust_all (l # ls) f m = adjust_all ls f (bt_adjust l f m)"
  by (simp_all add: adjust_all_def)

lemma map_of_adjust_all:
  "distinct ls \<Longrightarrow> map_of (adjust_all ls f m) k = (if k \<in> set ls then map_option f (map_of m k) else map_of m k)"
  by (induction ls arbitrary: m) (auto simp: map_of_bt_adjust)

lemma each_adjust:
  "(\<And>l. l \<in> set ls \<Longrightarrow> map_of (allocations s) l \<noteq> None) \<Longrightarrow>
   each_op (\<lambda>l. adjust_allocation l f) ls s = (Ok (), s\<lparr>allocations := adjust_all ls f (allocations s)\<rparr>)"
proof (induction ls arbitrary: s)
  case Nil
  then show ?case by simp
next
  case (Cons l ls)
  from Cons.prems [of l] obtain a where "map_of (allocations s) l = Some a" by auto
  then show ?case
    using Cons.prems Cons.IH [of "s\<lparr>allocations := bt_adjust l f (allocations s)\<rparr>"]
    by (simp add: adjust_allocation_def bind_op_def map_of_bt_adjust)
qed

lemma pool_base_adjust_all:
  "pool_base s \<Longrightarrow> mild f \<Longrightarrow> pool_base (s\<lparr>allocations := adjust_all ls f (allocations s)\<rparr>)"
proof (induction ls arbitrary: s)
  case Nil
  then show ?case by simp
next
  case (Cons l ls)
  have "pool_base (s\<lparr>allocations := bt_adjust l f (allocations s)\<rparr>)"
    by (rule pool_base_adjust [where s = s and f = f and l = l]) (use Cons.prems in simp_all)
  from Cons.IH [OF this Cons.prems(2)] show ?case by simp
qed

lemma values_adjust_all:
  assumes "\<And>a. P a \<Longrightarrow> P (f a)" and "\<forall>a \<in> set (bt_values m). P a"
  shows "\<forall>a \<in> set (bt_values (adjust_all ls f m)). P a"
  using assms(2)
proof (induction ls arbitrary: m)
  case (Cons l ls)
  have "\<forall>a \<in> set (bt_values (bt_adjust l f m)). P a"
    using bt_values_adjust [of l f m] Cons.prems assms(1) by blast
  from Cons.IH [OF this] show ?case by simp
qed simp

text \<open>The invariant does not look at the tables beyond the allocations.\<close>

lemma pool_base_frame:
  assumes "pool_base s" and "sp_next s \<le> sp_next t"
    and "sp_pools t = sp_pools s" "sp_id t = sp_id s" "sp_max_context t = sp_max_context s" "allocations t = allocations s"
  shows "pool_base t"
proof (rule pool_base_adjust [where s = s and f = id and l = "Lease 0 0"])
  have "bt_adjust l id m = m" for l :: lease and m :: "(lease, allocation) btmap"
    unfolding bt_adjust_def by (rule map_idI) auto
  then show "allocations t = bt_adjust (Lease 0 0) id (allocations s)" using assms by simp
qed (use assms in \<open>simp_all add: mild_def\<close>)

section \<open>Submission and completion\<close>

lemma submit_writes_no_panic [simp]: "submit_writes s e ls \<noteq> Panic"
  unfolding submit_writes_def
  by (rule check_all_no_panic) (auto simp: outcome_simps elim: bindings_Ok)

lemma submit_reads_no_panic: "pool_core s \<Longrightarrow> submit_reads s e bs \<noteq> Panic"
  unfolding submit_reads_def
  by (rule collect_no_panic) (auto simp: outcome_simps borrowed_bindings_no_panic elim: borrowed_bindings_Ok)

lemma submit_writes_targets:
  "submit_writes s e ls = Ok u \<Longrightarrow> l \<in> set ls \<Longrightarrow> \<exists>a. map_of (allocations s) l = Some a \<and> \<not> sealed a \<and> \<not> retired a"
  by (auto simp: submit_writes_def outcome_simps bindings_def)

lemma submit_reads_targets:
  assumes "pool_core s" and "submit_reads s e bs = Ok ls" and "l \<in> set ls"
  shows "\<exists>a. map_of (allocations s) l = Some a \<and> al_borrowers a \<noteq> []"
proof -
  from assms(2,3) obtain i where "map_of (borrowers s) i = Some l"
    by (auto simp: submit_reads_def collect_Ok_iff outcome_simps in_set_conv_nth)
  from borrow_target [OF assms(1) this] show ?thesis by fastforce
qed

lemma allocation_has_ranks:
  assumes "pool_core s" and "map_of (allocations s) l = Some a"
  shows "al_bindings a \<noteq> []"
proof -
  have base: "pool_base s" using assms(1) by (simp add: pool_core_def)
  then have "sp_pools s \<noteq> []" by (simp add: pool_base_def)
  moreover have "length (al_bindings a) = length (sp_pools s)"
    using allocation_in_base [OF base assms(2)] by (auto simp: allocation_ok_def dest: list_all2_lengthD)
  ultimately show ?thesis by force
qed

definition submitted_state :: "state_pool \<Rightarrow> lease list \<Rightarrow> nat list \<Rightarrow> state_pool" where
  "submitted_state s ls ranks =
     (let n = Suc (sp_next s) in
      s\<lparr>sp_next := n, allocations := adjust_all ls (\<lambda>a. a\<lparr>pending := bs_insert n (pending a)\<rparr>) (allocations s),
        flights := bt_insert n \<lparr>remaining_ranks = ranks, fl_leases = ls\<rparr> (flights s)\<rparr>)"

lemma submitted_inv:
  assumes "pool_inv s" and ls: "distinct ls" "\<And>l. l \<in> set ls \<Longrightarrow> map_of (allocations s) l \<noteq> None"
    and ranks: "ranks \<noteq> []" "bs_wf ranks"
  shows "pool_inv (submitted_state s ls ranks)"
proof -
  let ?n = "Suc (sp_next s)"
  let ?f = "\<lambda>a :: allocation. a\<lparr>pending := bs_insert ?n (pending a)\<rparr>"
  let ?t = "submitted_state s ls ranks"
  have core: "pool_core s" using assms(1) by (simp add: pool_inv_def)
  have al: "allocations ?t = adjust_all ls ?f (allocations s)"
    and fl: "flights ?t = bt_insert ?n \<lparr>remaining_ranks = ranks, fl_leases = ls\<rparr> (flights s)"
    and rest: "borrowers ?t = borrowers s" "sp_next ?t = ?n"
    by (simp_all add: submitted_state_def Let_def)
  have "pool_base (s\<lparr>allocations := adjust_all ls ?f (allocations s)\<rparr>)"
    using core by (intro pool_base_adjust_all) (simp_all add: pool_core_def)
  then have base: "pool_base ?t"
    by (rule pool_base_frame) (simp_all add: submitted_state_def Let_def)
  have look: "map_of (allocations ?t) l = (if l \<in> set ls then map_option ?f (map_of (allocations s) l) else map_of (allocations s) l)" for l
    by (simp add: al map_of_adjust_all ls(1))
  have "borrow_links ?t"
    using core unfolding pool_core_def borrow_links_def rest look by (fastforce split: if_splits)
  moreover have "flight_links ?t"
  proof -
    have old: "(\<exists>fl. map_of (flights s) i = Some fl \<and> l \<in> set (fl_leases fl)) \<longleftrightarrow>
        (\<exists>a. map_of (allocations s) l = Some a \<and> i \<in> set (pending a))" for i l
      using core unfolding pool_core_def flight_links_def by blast
    have fresh: "map_of (flights s) ?n = None"
      using fresh_ids(2) [OF core] by (simp add: map_of_eq_None_iff)
    have "(\<exists>fl. map_of (flights ?t) i = Some fl \<and> l \<in> set (fl_leases fl)) \<longleftrightarrow>
        (\<exists>a. map_of (allocations ?t) l = Some a \<and> i \<in> set (pending a))" for i l
      using old [of i l] old [of ?n l] fresh ls(2) [of l] unfolding look fl
      by (cases "i = ?n"; cases "l \<in> set ls") auto
    moreover have "\<forall>i fl. map_of (flights s) i = Some fl \<longrightarrow>
        i \<le> sp_next s \<and> remaining_ranks fl \<noteq> [] \<and> bs_wf (remaining_ranks fl) \<and> distinct (fl_leases fl)"
      using core unfolding pool_core_def flight_links_def by blast
    ultimately show ?thesis
      using ls ranks unfolding flight_links_def fl rest by (force simp: le_Suc_eq split: if_splits)
  qed
  moreover have "settled ?t"
    unfolding settled_def al
    by (rule values_adjust_all) (use assms(1) in \<open>auto simp: reclaimable_def pool_inv_def settled_def\<close>)
  ultimately show ?thesis using base core by (simp add: pool_inv_def pool_core_def fl rest bt_wf_insert)
qed

lemma submit_good:
  assumes "pool_inv s"
  shows "good (submit e ls bs) s"
proof -
  have core: "pool_core s" using assms by (simp add: pool_inv_def)
  let ?all = "\<lambda>targets. bs_extend targets (bs_of ls)"
  let ?r = "and_then (live s e) (\<lambda>_. and_then (submit_writes s e ls) (\<lambda>_. and_then (submit_reads s e bs) (\<lambda>targets.
             let all_leases = ?all targets in
             and_then (reject (all_leases = []) (invalid ''empty state submission'')) (\<lambda>_.
             and_then (collect (lease_ranks s) all_leases) (\<lambda>ranks. Ok (all_leases, bs_of (concat ranks)))))))"
  have dom: "map_of (allocations s) l \<noteq> None"
    if "submit_writes s e ls = Ok u" "submit_reads s e bs = Ok targets" "l \<in> set (?all targets)" for u targets l
    using that submit_writes_targets [OF that(1)] submit_reads_targets [OF core that(2)] by fastforce
  have np: "?r \<noteq> Panic"
  proof
    assume "?r = Panic"
    then obtain u targets where *: "submit_writes s e ls = Ok u" "submit_reads s e bs = Ok targets"
      "collect (lease_ranks s) (?all targets) = Panic"
      by (auto simp: outcome_simps Let_def submit_reads_no_panic [OF core])
    moreover have "collect (lease_ranks s) (?all targets) \<noteq> Panic"
      using dom [OF *(1,2)] by (intro collect_no_panic) (simp add: lease_ranks_def outcome_simps)
    ultimately show False by simp
  qed
  show ?thesis
  proof (cases ?r)
    case Panic
    then show ?thesis using np by simp
  next
    case (Err err)
    then show ?thesis by (simp add: good_def submit_def)
  next
    case (Ok v)
    then obtain u targets rs where *: "submit_writes s e ls = Ok u" "submit_reads s e bs = Ok targets"
      "?all targets \<noteq> []" "collect (lease_ranks s) (?all targets) = Ok rs" "v = (?all targets, bs_of (concat rs))"
      by (auto simp: outcome_simps Let_def)
    let ?ls = "?all targets"
    have dist: "distinct ?ls" by (simp add: bs_wf_distinct bs_wf_extend)
    have "hd ?ls \<in> set ?ls" using *(3) by (rule hd_in_set)
    moreover from dom [OF *(1,2) this] obtain a where a: "map_of (allocations s) (hd ?ls) = Some a" by auto
    moreover have "lease_ranks s (hd ?ls) = Ok (rs ! 0)"
      using *(3,4) unfolding collect_Ok_iff by (simp add: hd_conv_nth)
    ultimately have "map bind_rank (al_bindings a) = rs ! 0"
      by (simp add: lease_ranks_def)
    moreover have "rs \<noteq> []" using *(3,4) collect_length by fastforce
    ultimately have "set (bs_of (concat rs)) \<noteq> {}"
      using allocation_has_ranks [OF core a] by (cases rs) auto
    then have "bs_of (concat rs) \<noteq> []" by (metis list.set(1))
    then have inv: "pool_inv (submitted_state s ?ls (bs_of (concat rs)))"
      using assms dist dom [OF *(1,2)] by (intro submitted_inv) simp_all
    show ?thesis
    proof (cases rule: serial_cases [of s])
      case (full err)
      then show ?thesis using Ok *(5) by (simp add: good_def submit_def)
    next
      case ok
      let ?s = "s\<lparr>sp_next := Suc (sp_next s)\<rparr>"
      have "each_op (\<lambda>l. adjust_allocation l (\<lambda>a. a\<lparr>pending := bs_insert (Suc (sp_next s)) (pending a)\<rparr>)) ?ls ?s
          = (Ok (), ?s\<lparr>allocations := adjust_all ?ls (\<lambda>a. a\<lparr>pending := bs_insert (Suc (sp_next s)) (pending a)\<rparr>) (allocations ?s)\<rparr>)"
        using dom [OF *(1,2)] by (intro each_adjust) simp
      then have "submit e ls bs s = (Ok (Ticket (sp_id s) (Suc (sp_next s))), submitted_state s ?ls (bs_of (concat rs)))"
        using Ok *(5) ok by (simp add: submit_def submitted_state_def Let_def)
      then show ?thesis using inv by (simp add: good_def)
    qed
  qed
qed

lemma completed_core:
  assumes core: "pool_core s" and fl: "map_of (flights s) i = Some fl"
  shows "pool_core (s\<lparr>flights := bt_remove i (flights s),
    allocations := adjust_all (fl_leases fl) (\<lambda>a. a\<lparr>pending := bs_remove i (pending a)\<rparr>) (allocations s)\<rparr>)"
proof -
  let ?f = "\<lambda>a :: allocation. a\<lparr>pending := bs_remove i (pending a)\<rparr>"
  let ?t = "s\<lparr>flights := bt_remove i (flights s), allocations := adjust_all (fl_leases fl) ?f (allocations s)\<rparr>"
  have dist: "distinct (fl_leases fl)"
    using core fl unfolding pool_core_def flight_links_def by blast
  have "pool_base (s\<lparr>allocations := adjust_all (fl_leases fl) ?f (allocations s)\<rparr>)"
    using core by (intro pool_base_adjust_all) (simp_all add: pool_core_def)
  then have base: "pool_base ?t" by (rule pool_base_frame) simp_all
  have look: "map_of (allocations ?t) l =
      (if l \<in> set (fl_leases fl) then map_option ?f (map_of (allocations s) l) else map_of (allocations s) l)" for l
    by (simp add: map_of_adjust_all dist)
  have "borrow_links ?t"
    using core unfolding pool_core_def borrow_links_def look by (fastforce split: if_splits)
  moreover have "flight_links ?t"
  proof -
    have old: "(\<exists>fl. map_of (flights s) j = Some fl \<and> l \<in> set (fl_leases fl)) \<longleftrightarrow>
        (\<exists>a. map_of (allocations s) l = Some a \<and> j \<in> set (pending a))" for j l
      using core unfolding pool_core_def flight_links_def by blast
    have "(\<exists>fl. map_of (flights ?t) j = Some fl \<and> l \<in> set (fl_leases fl)) \<longleftrightarrow>
        (\<exists>a. map_of (allocations ?t) l = Some a \<and> j \<in> set (pending a))" for j l
      using old [of j l] old [of i l] fl unfolding look
      by (cases "j = i"; cases "l \<in> set (fl_leases fl)") auto
    then show ?thesis
      using core unfolding flight_links_def pool_core_def by (auto split: if_splits)
  qed
  ultimately show ?thesis using base core by (simp add: pool_core_def bt_wf_remove)
qed

lemma flight_progress_inv:
  assumes inv: "pool_inv s" and fl: "map_of (flights s) i = Some fl" and rest: "rest \<noteq> []" "bs_wf rest"
  shows "pool_inv (s\<lparr>flights := bt_adjust i (\<lambda>fl. fl\<lparr>remaining_ranks := rest\<rparr>) (flights s)\<rparr>)"
proof -
  let ?t = "s\<lparr>flights := bt_adjust i (\<lambda>fl. fl\<lparr>remaining_ranks := rest\<rparr>) (flights s)\<rparr>"
  have core: "pool_core s" using inv by (simp add: pool_inv_def)
  then have "pool_base s" by (simp add: pool_core_def)
  then have "pool_base ?t" by (rule pool_base_frame) simp_all
  moreover have "flight_links ?t"
  proof -
    have old: "(\<exists>fl. map_of (flights s) j = Some fl \<and> l \<in> set (fl_leases fl)) \<longleftrightarrow>
        (\<exists>a. map_of (allocations s) l = Some a \<and> j \<in> set (pending a))" for j l
      using core unfolding pool_core_def flight_links_def by blast
    have "(\<exists>fl. map_of (flights ?t) j = Some fl \<and> l \<in> set (fl_leases fl)) \<longleftrightarrow>
        (\<exists>fl. map_of (flights s) j = Some fl \<and> l \<in> set (fl_leases fl))" for j l
      using fl by (auto simp: map_of_bt_adjust)
    then show ?thesis
      using core old rest unfolding flight_links_def pool_core_def
      by (auto simp: map_of_bt_adjust split: if_splits)
  qed
  ultimately show ?thesis
    using inv by (simp add: pool_inv_def pool_core_def borrow_links_def settled_def)
qed

lemma complete_good:
  assumes inv: "pool_inv s"
  shows "good (complete e t r) s"
proof -
  have core: "pool_core s" using inv by (simp add: pool_inv_def)
  let ?i = "ticket_id t"
  let ?f = "\<lambda>a :: allocation. a\<lparr>pending := bs_remove ?i (pending a)\<rparr>"
  let ?r = "and_then (live s e) (\<lambda>_. and_then (reject (ticket_pool t \<noteq> sp_id s) Stale) (\<lambda>_.
             and_then (ok_or (map_of (flights s) ?i) Stale) (\<lambda>fl.
             and_then (reject (r \<notin> set (remaining_ranks fl)) Stale) (\<lambda>_. Ok fl))))"
  show ?thesis
  proof (cases ?r)
    case Panic
    then show ?thesis by (simp add: outcome_simps)
  next
    case (Err err)
    then show ?thesis by (simp add: good_def complete_def)
  next
    case (Ok fl)
    then have fl: "map_of (flights s) ?i = Some fl" by (auto simp: outcome_simps)
    have wf: "bs_wf (remaining_ranks fl)"
      using core fl unfolding pool_core_def flight_links_def by blast
    show ?thesis
    proof (cases "bs_remove r (remaining_ranks fl) = []")
      case False
      then show ?thesis
        using Ok flight_progress_inv [OF inv fl False bs_wf_remove [OF wf]]
        by (simp add: good_def complete_def Let_def)
    next
      case True
      let ?s = "s\<lparr>flights := bt_remove ?i (flights s)\<rparr>"
      have "map_of (allocations ?s) l \<noteq> None" if "l \<in> set (fl_leases fl)" for l
      proof -
        have "\<exists>a. map_of (allocations s) l = Some a \<and> ?i \<in> set (pending a)"
          using core fl that unfolding pool_core_def flight_links_def by blast
        then show ?thesis by auto
      qed
      then have "each_op (\<lambda>l. adjust_allocation l ?f) (fl_leases fl) ?s
          = (Ok (), ?s\<lparr>allocations := adjust_all (fl_leases fl) ?f (allocations ?s)\<rparr>)"
        by (rule each_adjust)
      moreover obtain u where
        "reclaim (?s\<lparr>allocations := adjust_all (fl_leases fl) ?f (allocations ?s)\<rparr>) = (Ok (), u)" "pool_inv u"
        using reclaim_good [OF completed_core [OF core fl]] by auto
      ultimately show ?thesis using Ok True by (simp add: good_def complete_def Let_def)
    qed
  qed
qed

section \<open>Every call\<close>

lemma reserve_good: "pool_inv s \<Longrightarrow> good (reserve e r t) s"
  by (simp add: reserve_def reserve_inner_good)

lemma reserve_at_slot_good: "pool_inv s \<Longrightarrow> good (reserve_at_slot e r t sl) s"
  by (simp add: reserve_at_slot_def reserve_inner_good)

lemma poison_inv: "pool_inv s \<Longrightarrow> pool_inv (poison s)"
proof -
  assume inv: "pool_inv s"
  then have "pool_base s" by (simp add: pool_inv_def pool_core_def)
  then have "pool_base (poison s)" by (rule pool_base_frame) (simp_all add: poison_def)
  then show ?thesis
    using inv by (simp add: pool_inv_def pool_core_def poison_def borrow_links_def flight_links_def settled_def)
qed

lemma pool_exec_good: "pool_inv s \<Longrightarrow> good (pool_exec c) s"
  by (cases c)
    (simp_all add: good_run reserve_good reserve_at_slot_good borrow_good seal_good borrow_sealed_good
      release_good submit_good complete_good retire_good, simp add: good_def poison_inv)

lemma pool_step_inv: "pool_inv s \<Longrightarrow> pool_inv (pool_step c s)"
  using pool_exec_good [of s c]
  by (auto simp: good_def pool_step_def split: prod.splits outcome.splits)

interpretation state_pool_machine: op_machine pool_step pool_inv
  by unfold_locales (rule pool_step_inv)

end
