(* ===== verification/State_Pool_Frame.thy ===== *)
theory State_Pool_Frame
  imports State_Pool_Calls
begin

text \<open>
  What no call of the state pool ever does, stated as relations between the state before and
  after, for every operation and without the invariant: a lease of an old generation is not
  created again and keeps its bindings, a borrower disappears only through \<open>release\<close>, a rank of
  a flight only through its own \<open>complete\<close>.
\<close>

section \<open>The relations\<close>

definition allocation_frame :: "state_pool \<Rightarrow> state_pool \<Rightarrow> bool" where
  "allocation_frame s t \<longleftrightarrow>
     same_static s t \<and> sp_epoch t = sp_epoch s \<and> sp_next s \<le> sp_next t \<and> (poisoned s \<longrightarrow> poisoned t) \<and>
     (\<forall>l a'. map_of (allocations t) l = Some a' \<longrightarrow> lease_generation l \<le> sp_next s \<longrightarrow>
        (\<exists>a. map_of (allocations s) l = Some a \<and> al_bindings a' = al_bindings a \<and>
             token_limit a' = token_limit a \<and> al_request a' = al_request a \<and>
             (sealed a \<longrightarrow> sealed a') \<and> (retired a \<longrightarrow> retired a')))"

definition borrow_frame :: "nat \<Rightarrow> state_pool \<Rightarrow> state_pool \<Rightarrow> bool" where
  "borrow_frame i s t \<longleftrightarrow>
     sp_next s \<le> sp_next t \<and> (i \<le> sp_next s \<longrightarrow> map_of (borrowers t) i = map_of (borrowers s) i)"

definition flight_frame :: "nat \<Rightarrow> nat \<Rightarrow> state_pool \<Rightarrow> state_pool \<Rightarrow> bool" where
  "flight_frame i r s t \<longleftrightarrow>
     sp_next s \<le> sp_next t \<and>
     (i \<le> sp_next s \<longrightarrow> (\<forall>fl. map_of (flights s) i = Some fl \<and> r \<in> set (remaining_ranks fl) \<longrightarrow>
        (\<exists>fl'. map_of (flights t) i = Some fl' \<and> r \<in> set (remaining_ranks fl') \<and> fl_leases fl' = fl_leases fl)))"

lemma allocation_frame_trans:
  assumes st: "allocation_frame s t" and tu: "allocation_frame t u"
  shows "allocation_frame s u"
  unfolding allocation_frame_def
proof (intro conjI allI impI)
  show "same_static s u" "sp_epoch u = sp_epoch s" "sp_next s \<le> sp_next u"
    using st tu by (simp_all add: allocation_frame_def same_static_def)
  show "poisoned u" if "poisoned s" using st tu that by (simp add: allocation_frame_def)
  fix l a2 assume a2: "map_of (allocations u) l = Some a2" and g: "lease_generation l \<le> sp_next s"
  have "lease_generation l \<le> sp_next t" using st g by (simp add: allocation_frame_def)
  with tu a2 obtain a1 where a1: "map_of (allocations t) l = Some a1" "al_bindings a2 = al_bindings a1"
    "token_limit a2 = token_limit a1" "al_request a2 = al_request a1" "sealed a1 \<longrightarrow> sealed a2" "retired a1 \<longrightarrow> retired a2"
    unfolding allocation_frame_def by blast
  from st a1(1) g obtain a where a: "map_of (allocations s) l = Some a" "al_bindings a1 = al_bindings a"
    "token_limit a1 = token_limit a" "al_request a1 = al_request a" "sealed a \<longrightarrow> sealed a1" "retired a \<longrightarrow> retired a1"
    unfolding allocation_frame_def by blast
  show "\<exists>a. map_of (allocations s) l = Some a \<and> al_bindings a2 = al_bindings a \<and>
             token_limit a2 = token_limit a \<and> al_request a2 = al_request a \<and>
             (sealed a \<longrightarrow> sealed a2) \<and> (retired a \<longrightarrow> retired a2)"
    using a a1 by auto
qed

interpretation af: op_frame allocation_frame
  by unfold_locales (simp add: allocation_frame_def, rule allocation_frame_trans)

interpretation bf: op_frame "borrow_frame i" for i
  by unfold_locales (auto simp: borrow_frame_def)

interpretation ff: op_frame "flight_frame i r" for i r
proof unfold_locales
  show "flight_frame i r s s" for s by (simp add: flight_frame_def)
  fix s t u assume st: "flight_frame i r s t" and tu: "flight_frame i r t u"
  show "flight_frame i r s u"
    unfolding flight_frame_def
  proof (intro conjI impI allI)
    show "sp_next s \<le> sp_next u" using st tu by (simp add: flight_frame_def)
    fix fl assume "i \<le> sp_next s" and fl: "map_of (flights s) i = Some fl \<and> r \<in> set (remaining_ranks fl)"
    moreover from this st have "i \<le> sp_next t" by (simp add: flight_frame_def)
    moreover from calculation st obtain fl1 where
      "map_of (flights t) i = Some fl1" "r \<in> set (remaining_ranks fl1)" "fl_leases fl1 = fl_leases fl"
      unfolding flight_frame_def by blast
    ultimately show "\<exists>fl'. map_of (flights u) i = Some fl' \<and> r \<in> set (remaining_ranks fl') \<and> fl_leases fl' = fl_leases fl"
      using tu unfolding flight_frame_def by metis
  qed
qed

section \<open>Allocations\<close>

definition keeps_marks :: "(allocation \<Rightarrow> allocation) \<Rightarrow> bool" where
  "keeps_marks f \<longleftrightarrow> mild f \<and> (\<forall>a. (sealed a \<longrightarrow> sealed (f a)) \<and> (retired a \<longrightarrow> retired (f a)))"

lemma keeps_marks_updates [simp]:
  "keeps_marks (\<lambda>a. a\<lparr>al_borrowers := bs_insert i (al_borrowers a)\<rparr>)"
  "keeps_marks (\<lambda>a. a\<lparr>al_borrowers := bs_remove i (al_borrowers a)\<rparr>)"
  "keeps_marks (\<lambda>a. a\<lparr>pending := bs_insert i (pending a)\<rparr>)"
  "keeps_marks (\<lambda>a. a\<lparr>pending := bs_remove i (pending a)\<rparr>)"
  "keeps_marks (\<lambda>a. a\<lparr>sealed := True\<rparr>)" "keeps_marks (\<lambda>a. a\<lparr>retired := True\<rparr>)"
  by (simp_all add: keeps_marks_def)

lemma af_serial: "op_rel allocation_frame serial"
  unfolding op_rel_def
proof
  fix s show "allocation_frame s (snd (serial s))"
    by (cases rule: serial_cases [of s]) (auto simp: allocation_frame_def same_static_def)
qed

lemma af_adjust: "keeps_marks f \<Longrightarrow> op_rel allocation_frame (adjust_allocation l f)"
  unfolding op_rel_def adjust_allocation_def
  by (intro allI af.rel_at_try)
    (auto simp: allocation_frame_def same_static_def map_of_bt_adjust keeps_marks_def mild_def split: if_splits)

lemma af_reclaim: "op_rel allocation_frame reclaim"
proof -
  have "op_rel allocation_frame (reclaim_one l)" for l
    unfolding op_rel_def reclaim_one_def
    by (intro allI af.rel_at_try)
      (auto simp: allocation_frame_def same_static_def map_zip_update split: if_splits)
  then have "op_rel allocation_frame (each_op reclaim_one ls)" for ls by (rule af.rel_each)
  then show ?thesis by (simp add: op_rel_def reclaim_def)
qed

lemma af_pin: "op_rel allocation_frame (pin l)"
  unfolding pin_def
  by (intro af.rel_bind af_serial af_adjust)
    (simp_all add: op_rel_def allocation_frame_def same_static_def)

lemma af_reserve: "op_rel allocation_frame (reserve_inner e r tokens slot)"
  unfolding op_rel_def
proof
  fix s show "allocation_frame s (snd (reserve_inner e r tokens slot s))"
  proof (cases "reserve_inner e r tokens slot s")
    case (Pair res t)
    then show ?thesis
    proof (cases res)
      case (Ok l)
      with Pair obtain bs where "t = reserved_state s r tokens bs" by (auto elim: reserve_inner_Ok)
      then show ?thesis
        using Pair by (auto simp: allocation_frame_def same_static_def reserved_state_def map_zip_update split: if_splits)
    next
      case (Err x)
      then show ?thesis using Pair reserve_inner_Err [of e r tokens slot s x t] by (simp add: af.frame_refl)
    next
      case Panic
      then show ?thesis using Pair reserve_inner_no_panic by blast
    qed
  qed
qed

lemmas af_rules = af_serial af_adjust af_reclaim af_pin af_reserve

lemma op_rel_at: "op_rel R m \<Longrightarrow> R s (snd (m s))"
  by (simp add: op_rel_def)

lemma snd_run_op [simp]: "snd (run_op m s) = snd (m s)"
  by (simp add: run_op_def split: prod.splits)

lemma af_release: "op_rel allocation_frame (release e b)"
proof -
  have drop: "allocation_frame s (s\<lparr>borrowers := m\<rparr>)" for s m by (simp add: allocation_frame_def same_static_def)
  have "op_rel allocation_frame (bind_op (adjust_allocation l (\<lambda>a. a\<lparr>al_borrowers := bs_remove i (al_borrowers a)\<rparr>)) (\<lambda>_. reclaim))" for l i
    by (intro af.rel_bind af_rules) simp
  note tail = af.frame_trans [OF drop op_rel_at [OF this]]
  show ?thesis
    unfolding op_rel_def release_def by (intro allI af.rel_at_try) (rule tail)
qed

lemma af_complete: "op_rel allocation_frame (complete e t r)"
proof -
  have drop: "allocation_frame s (s\<lparr>flights := m\<rparr>)" for s m by (simp add: allocation_frame_def same_static_def)
  have "op_rel allocation_frame (bind_op (each_op (\<lambda>l. adjust_allocation l (\<lambda>a. a\<lparr>pending := bs_remove i (pending a)\<rparr>)) ls) (\<lambda>_. reclaim))" for ls i
    by (intro af.rel_bind af.rel_each af_rules) simp
  note tail = af.frame_trans [OF drop op_rel_at [OF this]]
  show ?thesis
    unfolding op_rel_def complete_def Let_def
    by (intro allI af.rel_at_try) (auto intro: tail drop)
qed

lemma af_submit: "op_rel allocation_frame (submit e ls bs)"
proof -
  have new: "op_rel allocation_frame (\<lambda>s. (Ok (x s), s\<lparr>flights := m s\<rparr>))"
    for x :: "state_pool \<Rightarrow> ticket" and m by (simp add: op_rel_def allocation_frame_def same_static_def)
  have "op_rel allocation_frame (bind_op serial (\<lambda>i.
      bind_op (each_op (\<lambda>l. adjust_allocation l (\<lambda>a. a\<lparr>pending := bs_insert i (pending a)\<rparr>)) all_ls) (\<lambda>_ s.
       (Ok (Ticket (sp_id s) i), s\<lparr>flights := bt_insert i (fl i) (flights s)\<rparr>))))" for all_ls and fl :: "nat \<Rightarrow> flight"
    by (intro af.rel_bind af.rel_each af_rules new) simp
  note tail = op_rel_at [OF this]
  show ?thesis
    unfolding op_rel_def submit_def case_prod_beta by (intro allI af.rel_at_try) (rule tail)
qed

lemma af_small:
  "op_rel allocation_frame (borrow e l)" "op_rel allocation_frame (seal e l)"
  "op_rel allocation_frame (borrow_sealed e sl)" "op_rel allocation_frame (retire e l)"
proof -
  show "op_rel allocation_frame (borrow e l)"
    unfolding op_rel_def borrow_def by (intro allI af.rel_at_try) (rule op_rel_at [OF af_pin])
  have "op_rel allocation_frame (bind_op (adjust_allocation l (\<lambda>a. a\<lparr>sealed := True\<rparr>)) (\<lambda>_ s. (Ok (SealedLease l), s)))"
    by (intro af.rel_bind af_rules) (simp_all add: op_rel_def af.frame_refl)
  note tail = op_rel_at [OF this]
  show "op_rel allocation_frame (seal e l)"
    unfolding op_rel_def seal_def by (intro allI af.rel_at_try) (rule tail)
  obtain k where sl: "sl = SealedLease k" by (cases sl)
  show "op_rel allocation_frame (borrow_sealed e sl)"
    unfolding op_rel_def sl borrow_sealed.simps by (intro allI af.rel_at_try) (rule op_rel_at [OF af_pin])
  have "op_rel allocation_frame (bind_op (adjust_allocation l (\<lambda>a. a\<lparr>retired := True\<rparr>)) (\<lambda>_. reclaim))"
    by (intro af.rel_bind af_rules) simp
  note tail = op_rel_at [OF this]
  show "op_rel allocation_frame (retire e l)"
    unfolding op_rel_def retire_def by (intro allI af.rel_at_try) (rule tail)
qed

lemmas af_calls = af_reserve [THEN op_rel_at] af_small [THEN op_rel_at] af_release [THEN op_rel_at]
  af_submit [THEN op_rel_at] af_complete [THEN op_rel_at]

text \<open>Case analysis on the call, for relations between the state before and after.\<close>

lemma pool_step_cases:
  assumes "\<And>e r tokens slot. P (snd (reserve_inner e r tokens slot s))"
    and "\<And>e l. c = CallBorrow e l \<Longrightarrow> P (snd (borrow e l s))"
    and "\<And>e l. P (snd (seal e l s))"
    and "\<And>e l. P (snd (borrow_sealed e l s))"
    and "\<And>e b. c = CallRelease e b \<Longrightarrow> P (snd (release e b s))"
    and "\<And>e ls bs. P (snd (submit e ls bs s))"
    and "\<And>e t r. c = CallComplete e t r \<Longrightarrow> P (snd (complete e t r s))"
    and "\<And>e l. P (snd (retire e l s))"
    and "P (poison s)"
  shows "P (pool_step c s)"
  by (cases c; simp only: pool_step_def pool_exec.simps snd_run_op reserve_def reserve_at_slot_def snd_conv;
      rule assms; assumption)

lemma step_allocation_frame: "allocation_frame s (pool_step c s)"
  by (rule pool_step_cases)
    (rule af_calls | simp add: poison_def allocation_frame_def same_static_def)+

section \<open>Borrowers and flights\<close>

text \<open>The calls that leave both tables alone, then what the others do to each entry.\<close>

definition table_frame :: "state_pool \<Rightarrow> state_pool \<Rightarrow> bool" where
  "table_frame s t \<longleftrightarrow> sp_next s \<le> sp_next t \<and> borrowers t = borrowers s \<and> flights t = flights s"

interpretation tf: op_frame table_frame
  by unfold_locales (auto simp: table_frame_def)

lemma tf_adjust: "op_rel table_frame (adjust_allocation l f)"
  unfolding op_rel_def adjust_allocation_def
  by (intro allI tf.rel_at_try) (simp add: table_frame_def)

lemma tf_reclaim: "op_rel table_frame reclaim"
proof -
  have "op_rel table_frame (reclaim_one l)" for l
    unfolding op_rel_def reclaim_one_def by (intro allI tf.rel_at_try) (simp add: table_frame_def)
  then have "op_rel table_frame (each_op reclaim_one ls)" for ls by (rule tf.rel_each)
  then show ?thesis by (simp add: op_rel_def reclaim_def)
qed

lemma tf_reserve: "table_frame s (snd (reserve_inner e r tokens slot s))"
proof -
  have "op_rel table_frame serial"
    unfolding op_rel_def
  proof
    fix s show "table_frame s (snd (serial s))"
      by (cases rule: serial_cases [of s]) (auto simp: table_frame_def)
  qed
  then have "op_rel table_frame (bind_op serial (\<lambda>g s. (Ok (x g s), s\<lparr>sp_pools := p s, allocations := al g s\<rparr>)))"
    for x :: "nat \<Rightarrow> state_pool \<Rightarrow> lease" and p al
    by (rule tf.rel_bind) (simp add: op_rel_def table_frame_def)
  note tail = op_rel_at [OF this]
  show ?thesis
    unfolding reserve_inner_def Let_def by (intro tf.rel_at_try) (rule tail)
qed

lemma tf_seal_retire: "table_frame s (snd (seal e l s))" "table_frame s (snd (retire e l s))"
proof -
  have "op_rel table_frame (bind_op (adjust_allocation l (\<lambda>a. a\<lparr>sealed := True\<rparr>)) (\<lambda>_ s. (Ok (SealedLease l), s)))"
    by (intro tf.rel_bind tf_adjust) (simp add: op_rel_def tf.frame_refl)
  note tail = op_rel_at [OF this]
  show "table_frame s (snd (seal e l s))"
    unfolding seal_def by (intro tf.rel_at_try) (rule tail)
  have "op_rel table_frame (bind_op (adjust_allocation l (\<lambda>a. a\<lparr>retired := True\<rparr>)) (\<lambda>_. reclaim))"
    by (intro tf.rel_bind tf_adjust tf_reclaim)
  note tail = op_rel_at [OF this]
  show "table_frame s (snd (retire e l s))"
    unfolding retire_def by (intro tf.rel_at_try) (rule tail)
qed

lemma table_frame_both: "table_frame s t \<Longrightarrow> borrow_frame i s t \<and> flight_frame j r s t"
  by (auto simp: table_frame_def borrow_frame_def flight_frame_def)

lemma pin_tables:
  "borrow_frame i s (snd (pin l s)) \<and> flight_frame j r s (snd (pin l s))"
proof (cases rule: serial_cases [of s])
  case (full e)
  then show ?thesis by (simp add: pin_def bf.frame_refl ff.frame_refl)
next
  case ok
  then show ?thesis
    by (cases "map_of (allocations s) l")
      (auto simp: pin_def adjust_allocation_def bind_op_def borrow_frame_def flight_frame_def)
qed

lemma borrow_tables:
  "borrow_frame i s (snd (borrow e l s)) \<and> flight_frame j r s (snd (borrow e l s))"
  unfolding borrow_def
  by (cases "bindings s e l") (simp_all add: pin_tables bf.frame_refl ff.frame_refl)

lemma borrow_sealed_tables:
  "borrow_frame i s (snd (borrow_sealed e sl s)) \<and> flight_frame j r s (snd (borrow_sealed e sl s))"
proof -
  obtain l where sl: "sl = SealedLease l" by (cases sl)
  show ?thesis
    unfolding sl borrow_sealed.simps
    by (intro conjI bf.rel_at_try ff.rel_at_try) (simp_all add: pin_tables)
qed

lemma release_tables:
  assumes "borrow_id b \<noteq> i"
  shows "borrow_frame i s (snd (release e b s)) \<and> flight_frame j r s (snd (release e b s))"
proof -
  have drop: "borrow_frame i s (s\<lparr>borrowers := bt_remove (borrow_id b) (borrowers s)\<rparr>) \<and>
      flight_frame j r s (s\<lparr>borrowers := bt_remove (borrow_id b) (borrowers s)\<rparr>)" for s
    using assms by (simp add: borrow_frame_def flight_frame_def)
  have "op_rel table_frame (bind_op (adjust_allocation l f) (\<lambda>_. reclaim))" for l f
    by (intro tf.rel_bind tf_adjust tf_reclaim)
  note tail = table_frame_both [OF op_rel_at [OF this]]
  note both = bf.frame_trans [OF drop [THEN conjunct1] tail [THEN conjunct1]]
    ff.frame_trans [OF drop [THEN conjunct2] tail [THEN conjunct2]]
  show ?thesis
    unfolding release_def by (intro conjI bf.rel_at_try ff.rel_at_try) (rule both)+
qed

lemma submit_tables:
  "borrow_frame i s (snd (submit e ls bs s)) \<and> flight_frame j r s (snd (submit e ls bs s))"
proof -
  have "borrow_frame i s (snd (bind_op serial (\<lambda>n. bind_op (each_op (\<lambda>l. adjust_allocation l (f n)) all_ls) (\<lambda>_ s.
       (Ok (Ticket (sp_id s) n), s\<lparr>flights := bt_insert n (fl n) (flights s)\<rparr>))) s)) \<and>
     flight_frame j r s (snd (bind_op serial (\<lambda>n. bind_op (each_op (\<lambda>l. adjust_allocation l (f n)) all_ls) (\<lambda>_ s.
       (Ok (Ticket (sp_id s) n), s\<lparr>flights := bt_insert n (fl n) (flights s)\<rparr>))) s))" for f all_ls fl s
  proof (cases rule: serial_cases [of s])
    case (full err)
    then show ?thesis by (simp add: bf.frame_refl ff.frame_refl)
  next
    case ok
    let ?m = "each_op (\<lambda>l. adjust_allocation l (f (Suc (sp_next s)))) all_ls"
    have "op_rel table_frame ?m" by (intro tf.rel_each tf_adjust)
    then have t: "table_frame (s\<lparr>sp_next := Suc (sp_next s)\<rparr>) (snd (?m (s\<lparr>sp_next := Suc (sp_next s)\<rparr>)))"
      by (rule op_rel_at)
    show ?thesis
      using ok t
      by (cases "?m (s\<lparr>sp_next := Suc (sp_next s)\<rparr>)"; cases "fst (?m (s\<lparr>sp_next := Suc (sp_next s)\<rparr>))")
        (auto simp: table_frame_def borrow_frame_def flight_frame_def bind_op_def)
  qed
  note tail = this
  show ?thesis
    unfolding submit_def case_prod_beta
    by (intro conjI bf.rel_at_try ff.rel_at_try) (rule tail [THEN conjunct1] tail [THEN conjunct2])+
qed

lemma complete_tables:
  assumes "ticket_id t \<noteq> j \<or> r' \<noteq> r"
  shows "borrow_frame i s (snd (complete e t r' s)) \<and> flight_frame j r s (snd (complete e t r' s))"
proof -
  let ?live = "and_then (live s e) (\<lambda>_.
             and_then (reject (ticket_pool t \<noteq> sp_id s) Stale) (\<lambda>_.
             and_then (ok_or (map_of (flights s) (ticket_id t)) Stale) (\<lambda>fl.
             and_then (reject (r' \<notin> set (remaining_ranks fl)) Stale) (\<lambda>_. Ok fl))))"
  show ?thesis
  proof (cases ?live)
    case (Ok fl)
    then have fl: "map_of (flights s) (ticket_id t) = Some fl" by (auto simp: outcome_simps)
    let ?rest = "bs_remove r' (remaining_ranks fl)"
    show ?thesis
    proof (cases "?rest = []")
      case True
      let ?s = "s\<lparr>flights := bt_remove (ticket_id t) (flights s)\<rparr>"
      have "op_rel table_frame (bind_op (each_op (\<lambda>l. adjust_allocation l f) ls) (\<lambda>_. reclaim))" for f ls
        by (intro tf.rel_bind tf.rel_each tf_adjust tf_reclaim)
      note tail = table_frame_both [OF op_rel_at [OF this]]
      have "j \<noteq> ticket_id t \<or> r \<notin> set (remaining_ranks fl)"
        using assms True by (metis Diff_iff empty_iff empty_set insertE set_bs_remove)
      then have "borrow_frame i s ?s \<and> flight_frame j r s ?s"
        using fl by (auto simp: borrow_frame_def flight_frame_def)
      then have "borrow_frame i s (snd (bind_op (each_op (\<lambda>l. adjust_allocation l f) ls) (\<lambda>_. reclaim) ?s)) \<and>
          flight_frame j r s (snd (bind_op (each_op (\<lambda>l. adjust_allocation l f) ls) (\<lambda>_. reclaim) ?s))" for f ls
        using tail bf.frame_trans ff.frame_trans by blast
      then show ?thesis using Ok True by (simp add: complete_def Let_def)
    next
      case False
      then show ?thesis
        using Ok fl assms by (auto simp: complete_def Let_def borrow_frame_def flight_frame_def map_of_bt_adjust)
    qed
  qed (simp_all add: complete_def bf.frame_refl ff.frame_refl)
qed

lemma step_borrow_frame:
  assumes "\<And>e b. c = CallRelease e b \<Longrightarrow> borrow_id b \<noteq> i"
  shows "borrow_frame i s (pool_step c s)"
proof (rule pool_step_cases)
  show "borrow_frame i s (snd (complete e t r s))" for e t r
    using complete_tables [of t "Suc (ticket_id t)" r r i s e] by simp
  show "borrow_frame i s (poison s)" by (simp add: borrow_frame_def poison_def)
  show "borrow_frame i s (snd (release e b s))" if "c = CallRelease e b" for e b
    using release_tables [of b i s e 0 0] assms that by blast
  show "borrow_frame i s (snd (reserve_inner e r tokens slot s))" for e r tokens slot
    using table_frame_both [OF tf_reserve] by blast
  show "borrow_frame i s (snd (seal e l s))" "borrow_frame i s (snd (retire e l s))" for e l
    using table_frame_both [OF tf_seal_retire(1)] table_frame_both [OF tf_seal_retire(2)] by blast+
  show "borrow_frame i s (snd (borrow e l s))" "borrow_frame i s (snd (borrow_sealed e sl s))"
    "borrow_frame i s (snd (submit e ls bs s))" for e l sl ls bs
    using borrow_tables borrow_sealed_tables submit_tables by blast+
qed

lemma step_flight_frame:
  assumes "\<And>e t. c = CallComplete e t r \<Longrightarrow> ticket_id t \<noteq> j"
  shows "flight_frame j r s (pool_step c s)"
proof (rule pool_step_cases)
  show "flight_frame j r s (snd (complete e t r' s))" if "c = CallComplete e t r'" for e t r'
    using complete_tables [of t j r' r 0 s e] assms that by blast
  show "flight_frame j r s (snd (release e b s))" for e b
    using release_tables [of b "Suc (borrow_id b)" s e j r] by simp
  show "flight_frame j r s (poison s)" by (simp add: flight_frame_def poison_def)
  show "flight_frame j r s (snd (reserve_inner e r1 tokens slot s))" for e r1 tokens slot
    using table_frame_both [OF tf_reserve] by blast
  show "flight_frame j r s (snd (seal e l s))" "flight_frame j r s (snd (retire e l s))" for e l
    using table_frame_both [OF tf_seal_retire(1)] table_frame_both [OF tf_seal_retire(2)] by blast+
  show "flight_frame j r s (snd (borrow e l s))" "flight_frame j r s (snd (borrow_sealed e sl s))"
    "flight_frame j r s (snd (submit e ls bs s))" for e l sl ls bs
    using borrow_tables borrow_sealed_tables submit_tables by blast+
qed

lemma run_allocation_frame: "allocation_frame s (fold pool_step cs s)"
  by (rule af.rel_fold) (rule step_allocation_frame)

lemma allocation_frame_dead:
  assumes "allocation_frame s t" and "lease_generation l \<le> sp_next s" and "map_of (allocations s) l = None"
  shows "map_of (allocations t) l = None"
proof (cases "map_of (allocations t) l")
  case (Some a')
  then have "\<exists>a. map_of (allocations s) l = Some a"
    using assms(1,2) unfolding allocation_frame_def by blast
  then show ?thesis using assms(3) by simp
qed

lemma allocation_frame_live:
  assumes "allocation_frame s t" and "lease_generation l \<le> sp_next s"
    and "map_of (allocations s) l = Some a" and "map_of (allocations t) l = Some a'"
  shows "al_bindings a' = al_bindings a"
  using assms unfolding allocation_frame_def by fastforce

lemma live_generation: "leases_ok s \<Longrightarrow> map_of (allocations s) l = Some a \<Longrightarrow> lease_generation l \<le> sp_next s"
  unfolding leases_ok_def by (force dest: bt_get_in)

end
