(* ===== verification/State_Pool_Thms.thy ===== *)
theory State_Pool_Thms
  imports State_Pool_Frame
begin

text \<open>
  The properties of the state pool, for every state that a sequence of calls reaches from a newly
  constructed pool (\<open>reachable_pool\<close>).
\<close>

section \<open>Construction establishes the invariant\<close>

lemma new_pool_ok:
  assumes st: "check_storage d (state_storage d) = Ok ()" and ret: "check_retention ctx query d (state_retention d) = Ok ()"
    and cap: "0 < capacity_tokens d"
    and u: "storage_unit (state_storage d) = Ok u" and p: "new_pool capacities d u r = Ok p"
  shows "pool_ok p" "pool_free p = [0..<pool_capacity p]"
proof -
  from p show "pool_free p = [0..<pool_capacity p]"
    by (auto simp: new_pool_def Let_def outcome_simps)
  show "pool_ok p"
  proof (cases "state_storage d")
    case (Pages n rb enc)
    then show ?thesis
      using st u p cap by (auto simp: new_pool_def Let_def outcome_simps storage_unit_def checked_iffs pool_ok_def)
  next
    case (Slot bytes dt)
    moreover from this have "is_full (state_retention d)"
      using ret by (cases "state_retention d") simp_all
    ultimately show ?thesis
      using u p by (auto simp: new_pool_def Let_def outcome_simps storage_unit_def checked_iffs pool_ok_def)
  qed
qed

lemma pool_new_Ok:
  assumes "pool_new m e capacities n = (Ok s, n')"
  obtains pss where "validate_manifest m = Ok ()" "collect (state_pools capacities) (man_states m) = Ok pss"
    "man_states m \<noteq> []" "sp_pools s = concat pss" "allocations s = []" "borrowers s = []" "flights s = []"
    "sp_next s = 0" "sp_id s = n" "sp_epoch s = e" "\<not> poisoned s"
  using assms by (auto simp: pool_new_def try_op_eq outcome_simps)

lemma pool_new_inv:
  assumes new: "pool_new m e capacities n = (Ok s, n')"
  shows "pool_inv s"
proof -
  from pool_new_Ok [OF new] obtain pss where m: "validate_manifest m = Ok ()"
    and pss: "collect (state_pools capacities) (man_states m) = Ok pss" and ne: "man_states m \<noteq> []"
    and s: "sp_pools s = concat pss" "allocations s = []" "borrowers s = []" "flights s = []" .
  from validate_manifest_states [OF m] obtain ctx query where
    cs: "check_states m ctx query [] (man_states m) = Ok ()" by blast
  note each = check_states_each [OF cs]
  have pool: "pool_ok p \<and> pool_free p = [0..<pool_capacity p]" if "p \<in> set (concat pss)" for p
  proof -
    from that obtain ps where "ps \<in> set pss" "p \<in> set ps" by auto
    then obtain i where i: "i < length pss" "p \<in> set (pss ! i)" by (metis in_set_conv_nth)
    let ?d = "man_states m ! i"
    from i(1) pss have d: "?d \<in> set (man_states m)" "state_pools capacities ?d = Ok (pss ! i)"
      by (auto simp: collect_Ok_iff)
    then obtain u where u: "storage_unit (state_storage ?d) = Ok u"
      "collect (new_pool capacities ?d u) (state_ranks ?d) = Ok (pss ! i)"
      by (auto simp: state_pools_def outcome_simps)
    then obtain r where "new_pool capacities ?d u r = Ok p"
      using i(2) by (auto simp: collect_Ok_iff in_set_conv_nth)
    then show ?thesis using new_pool_ok [OF each(4,5,1) u(1)] d(1) by blast
  qed
  have "concat pss \<noteq> []"
  proof -
    obtain d ds where dds: "man_states m = d # ds" using ne by (cases "man_states m") auto
    then obtain ps qss where ps: "state_pools capacities d = Ok ps" "pss = ps # qss"
      using pss by (auto simp: outcome_simps)
    then have "length ps = length (state_ranks d)"
      by (auto simp: state_pools_def outcome_simps dest: collect_length)
    then show ?thesis using each(2) [of d] dds ps(2) by auto
  qed
  moreover have "units_partition s"
    unfolding units_partition_def s
  proof (intro allI impI)
    fix i assume "i < length (concat pss)"
    from pool [OF nth_mem [OF this]]
    show "bs_wf (pool_free (concat pss ! i)) \<and>
        mset (pool_free (concat pss ! i)) + held i [] = mset [0..<pool_capacity (concat pss ! i)]"
      by (simp add: held_def)
  qed
  ultimately show ?thesis
    using pool
    by (simp add: pool_inv_def pool_core_def pool_base_def s leases_ok_def borrow_links_def flight_links_def settled_def)
qed

definition reachable_pool :: "state_pool \<Rightarrow> bool" where
  "reachable_pool s \<longleftrightarrow>
     (\<exists>m e capacities n s0 n' cs. pool_new m e capacities n = (Ok s0, n') \<and> s = fold pool_step cs s0)"

lemma reachable_inv: "reachable_pool s \<Longrightarrow> pool_inv s"
  unfolding reachable_pool_def using state_pool_machine.run_inv pool_new_inv by blast

lemma reachable_run: "reachable_pool s \<Longrightarrow> reachable_pool (fold pool_step cs s)"
  unfolding reachable_pool_def by (metis fold_append comp_apply)

lemma reachable_parts:
  assumes "reachable_pool s"
  shows "pool_core s" "pool_base s" "units_partition s" "leases_ok s" "settled s"
  using reachable_inv [OF assms] by (simp_all add: pool_inv_def pool_core_def pool_base_def)

section \<open>A concrete pool\<close>

definition example_capacities :: "((string \<times> nat) \<times> nat) list" where
  "example_capacities = [((''conv'', 0), 2), ((''kv'', 0), 6)]"

definition example_pool :: state_pool where
  "example_pool =
     \<lparr>sp_id = 1, sp_epoch = 5, sp_max_context = 64, sp_next = 0,
      sp_pools = [\<lparr>pool_key = (''kv'', 0), unit_bytes = 64, pool_capacity = 6, pool_page_tokens = Some 4,
                   pool_max_tokens = 16, pool_retention = SlidingWindow 4, pool_free = [0..<6]\<rparr>,
                  \<lparr>pool_key = (''conv'', 0), unit_bytes = 32, pool_capacity = 2, pool_page_tokens = None,
                   pool_max_tokens = 64, pool_retention = FullRetention, pool_free = [0..<2]\<rparr>],
      allocations = [], borrowers = [], flights = [], poisoned = False\<rparr>"

lemma example_pool_new: "pool_new example_manifest 5 example_capacities 1 = (Ok example_pool, 2)"
proof -
  have "collect (state_pools example_capacities) (man_states example_manifest) =
    Ok [[sp_pools example_pool ! 0], [sp_pools example_pool ! 1]]"
    by (simp add: state_pools_def new_pool_def storage_unit_def example_capacities_def example_manifest_def
        example_pool_def checked_mul_def reject_def Let_def)
  then show ?thesis
    by (simp add: pool_new_def example_manifest_valid checked_add_def reject_def)
      (simp add: example_manifest_def example_pool_def example_capacities_def max_of_def)
qed

lemma example_reachable: "reachable_pool (fold pool_step cs example_pool)"
  unfolding reachable_pool_def using example_pool_new by blast

section \<open>Ownership\<close>

text \<open>C4. Ownership law of the state pool: whatever sequence of calls has run since
  construction, for every pool the free units together with the units of all live allocations are,
  with multiplicity, exactly the units \<open>0..<capacity\<close>. No unit is lost, duplicated or owned twice.\<close>

theorem state_pool_partition:
  assumes "reachable_pool s" and "i < length (sp_pools s)"
  shows "mset (pool_free (sp_pools s ! i)) +
         (\<Sum>(l, a) \<in># mset (allocations s). mset (units (al_bindings a ! i)))
         = mset [0..<pool_capacity (sp_pools s ! i)]"
  using reachable_parts(3) [OF assms(1)] assms(2)
  by (simp add: units_partition_def held_def units_at_def case_prod_unfold)

theorem state_pool_partition_witness:
  "\<exists>s. s = fold pool_step [CallReserve 5 7 9, CallReserve 5 8 4, CallRetire 5 (Lease 1 1)] example_pool \<and>
     mset (pool_free (sp_pools s ! 0)) +
     (\<Sum>(l, a) \<in># mset (allocations s). mset (units (al_bindings a ! 0))) = mset [0..<pool_capacity (sp_pools s ! 0)]"
proof -
  let ?cs = "[CallReserve 5 7 9, CallReserve 5 8 4, CallRetire 5 (Lease 1 1)]"
  have inv: "pool_inv (fold pool_step ?cs example_pool)" by (rule reachable_inv [OF example_reachable])
  have "sp_pools (fold pool_step ?cs example_pool) \<noteq> []"
    using inv by (simp add: pool_inv_def pool_core_def pool_base_def)
  then show ?thesis using state_pool_partition [OF example_reachable, of 0 ?cs] by blast
qed

text \<open>C17. Calls are atomic and total: in every reachable state no call panics, and a call that
  returns an error leaves the whole pool state exactly as it was.\<close>

theorem state_pool_atomic:
  assumes "reachable_pool s" and "pool_exec c s = (res, t)"
  shows "res \<noteq> Panic \<and> (\<forall>err. res = Err err \<longrightarrow> t = s)"
  using pool_exec_good [OF reachable_inv [OF assms(1)], of c] assms(2) by (auto simp: good_def)

theorem state_pool_atomic_witness:
  "pool_exec (CallReserve 6 7 9) example_pool = (Err Stale, example_pool) \<and> Err Stale \<noteq> (Panic :: unit outcome)"
proof -
  have run: "pool_exec (CallReserve 6 7 9) example_pool = (Err Stale, example_pool)"
    by (simp add: run_op_def reserve_def reserve_inner_def live_def reject_def example_pool_def)
  show ?thesis
    using run state_pool_atomic [of example_pool "CallReserve 6 7 9"] example_reachable [of "[]"] by simp
qed

text \<open>A successful reservation returns a lease that was never live before, takes from every pool
  exactly the number of units the request needs there, all of them free until now and pairwise
  distinct, and leaves every other allocation as it was.\<close>

theorem reserve_takes_free_units:
  assumes "reachable_pool s" and "reserve_inner e r tokens slot s = (Ok l, t)"
  shows "map_of (allocations s) l = None \<and>
         (\<exists>a. map_of (allocations t) l = Some a \<and> al_request a = r \<and> length (al_bindings a) = length (sp_pools s) \<and>
            (\<forall>i < length (sp_pools s).
               length (units (al_bindings a ! i)) = unit_count (sp_pools s ! i) tokens \<and>
               distinct (units (al_bindings a ! i)) \<and>
               set (units (al_bindings a ! i)) \<subseteq> set (pool_free (sp_pools s ! i)) \<and>
               set (pool_free (sp_pools t ! i)) = set (pool_free (sp_pools s ! i)) - set (units (al_bindings a ! i)))) \<and>
         (\<forall>k. k \<noteq> l \<longrightarrow> map_of (allocations t) k = map_of (allocations s) k)"
proof -
  note parts = reachable_parts [OF assms(1)]
  from reserve_inner_Ok [OF assms(2)] obtain bs where
    c: "collect (prepare_binding tokens slot) (sp_pools s) = Ok bs"
    and l: "l = Lease (sp_id s) (Suc (sp_next s))" and t: "t = reserved_state s r tokens bs" by metis
  note cb = collected_bindings [OF parts(2) c]
  have len: "length bs = length (sp_pools s)" using c by (rule collect_length)
  have "map_of (allocations s) l = None"
    using fresh_ids(3) [OF parts(1), of "sp_id s"] l by (simp add: map_of_eq_None_iff)
  moreover have "sp_pools t ! i = take_units (sp_pools s ! i) (bs ! i)" if "i < length (sp_pools s)" for i
    using that len by (simp add: t reserved_state_def nth_zip_update)
  ultimately show ?thesis
    using cb len by (auto simp: l t reserved_state_def take_units_def binding_ok_def)
qed

theorem reserve_takes_free_units_witness:
  "\<exists>t. reserve_inner 5 7 9 None example_pool = (Ok (Lease 1 1), t) \<and> map_of (allocations example_pool) (Lease 1 1) = None"
proof -
  have "\<exists>t. reserve_inner 5 7 9 None example_pool = (Ok (Lease 1 1), t)"
    by (simp add: reserve_inner_def example_pool_def live_def reject_def prepare_binding_def unit_count_def
        retained_tokens_def div_ceil_def serial_def checked_add_def upt_rec Let_def)
  then obtain t where t: "reserve_inner 5 7 9 None example_pool = (Ok (Lease 1 1), t)" by blast
  show ?thesis
    using t reserve_takes_free_units [OF example_reachable [of "[]"], of 5 7 9 None "Lease 1 1" t] by simp
qed

section \<open>Leases, borrowers and flights over time\<close>

text \<open>No ABA: once a lease that the pool handed out is no longer live, no later sequence of calls
  makes it valid again, so every use of the stale handle is refused.\<close>

theorem dead_lease_stays_dead:
  assumes "reachable_pool s" and "lease_generation l \<le> sp_next s" and "map_of (allocations s) l = None"
  shows "bindings (fold pool_step cs s) e l =
           Err (if poisoned (fold pool_step cs s) then invalid ''state pool poisoned by rank failure'' else Stale)"
proof -
  have "map_of (allocations (fold pool_step cs s)) l = None"
    using allocation_frame_dead [OF run_allocation_frame assms(2,3)] .
  then show ?thesis by (simp add: bindings_def live_def reject_def)
qed

theorem dead_lease_stays_dead_witness:
  "bindings (fold pool_step [CallReserve 5 7 4] example_pool) 5 (Lease 1 0) = Err Stale"
proof -
  have "\<not> poisoned (fold pool_step [CallReserve 5 7 4] example_pool)"
    by (simp add: pool_step_def run_op_def reserve_def reserve_inner_def example_pool_def live_def reject_def
        prepare_binding_def unit_count_def retained_tokens_def div_ceil_def serial_def checked_add_def upt_rec Let_def)
  then show ?thesis
    using dead_lease_stays_dead [OF example_reachable [of "[]"], of "Lease 1 0" "[CallReserve 5 7 4]" 5]
    by (simp add: example_pool_def)
qed

text \<open>C28. A reader pins its state: from the moment a borrow is open until that very borrow is
  released, and whatever other calls run in between (retiring the lease included), the allocation it
  points to stays live with the same units.\<close>

theorem borrow_pins_units:
  assumes "reachable_pool s" and b: "map_of (borrowers s) i = Some l" and a: "map_of (allocations s) l = Some a"
    and keep: "\<forall>c \<in> set cs. \<forall>e b. c = CallRelease e b \<longrightarrow> borrow_id b \<noteq> i"
  shows "map_of (borrowers (fold pool_step cs s)) i = Some l \<and>
         (\<exists>a'. map_of (allocations (fold pool_step cs s)) l = Some a' \<and> al_bindings a' = al_bindings a)"
proof -
  let ?t = "fold pool_step cs s"
  note core = reachable_parts(1) [OF assms(1)]
  have id: "i \<le> sp_next s"
    using core b unfolding pool_core_def borrow_links_def by (force dest: bt_get_in)
  have "borrow_frame i s ?t"
    by (rule bf.rel_fold) (use keep in \<open>auto intro: step_borrow_frame\<close>)
  then have still: "map_of (borrowers ?t) i = Some l" using id b by (simp add: borrow_frame_def)
  have core': "pool_core ?t" using reachable_parts(1) [OF reachable_run [OF assms(1)]] .
  obtain a' where a': "map_of (allocations ?t) l = Some a'" using borrow_target [OF core' still] by blast
  have "al_bindings a' = al_bindings a"
    using allocation_frame_live [OF run_allocation_frame live_generation [OF reachable_parts(4) [OF assms(1)] a] a a'] .
  then show ?thesis using still a' by blast
qed

text \<open>Work in flight pins its state: as long as some rank of a ticket has not reported completion,
  every allocation that the submission named stays live with the same units, whatever else runs.\<close>

theorem flight_pins_units:
  assumes "reachable_pool s" and fl: "map_of (flights s) i = Some fl" and r: "r \<in> set (remaining_ranks fl)"
    and l: "l \<in> set (fl_leases fl)"
    and keep: "\<forall>c \<in> set cs. \<forall>e t. c = CallComplete e t r \<longrightarrow> ticket_id t \<noteq> i"
  shows "\<exists>a a'. map_of (allocations s) l = Some a \<and>
           map_of (allocations (fold pool_step cs s)) l = Some a' \<and> al_bindings a' = al_bindings a"
proof -
  let ?t = "fold pool_step cs s"
  note core = reachable_parts(1) [OF assms(1)]
  have id: "i \<le> sp_next s" using core fl unfolding pool_core_def flight_links_def by blast
  obtain a where a: "map_of (allocations s) l = Some a"
    using core fl l unfolding pool_core_def flight_links_def by blast
  have "flight_frame i r s ?t"
    by (rule ff.rel_fold) (use keep in \<open>auto intro: step_flight_frame\<close>)
  then obtain fl' where fl': "map_of (flights ?t) i = Some fl'" "fl_leases fl' = fl_leases fl"
    using id fl r unfolding flight_frame_def by blast
  have core': "pool_core ?t" using reachable_parts(1) [OF reachable_run [OF assms(1)]] .
  obtain a' where a': "map_of (allocations ?t) l = Some a'"
    using core' fl' l unfolding pool_core_def flight_links_def by metis
  have "al_bindings a' = al_bindings a"
    using allocation_frame_live [OF run_allocation_frame live_generation [OF reachable_parts(4) [OF assms(1)] a] a a'] .
  then show ?thesis using a a' by blast
qed

text \<open>A short run of the example pool: two requests, a reader of the first, a submission on both.\<close>

definition example_run :: state_pool where
  "example_run = fold pool_step [CallReserve 5 7 9, CallReserve 5 8 4, CallBorrow 5 (Lease 1 1),
     CallSubmit 5 [Lease 1 2] [Borrow 1 3]] example_pool"

lemmas pool_eval = pool_step_def run_op_def reserve_def reserve_inner_def live_def reject_def prepare_binding_def
  unit_count_def retained_tokens_def div_ceil_def serial_def checked_add_def upt_rec Let_def
  bs_remove_all_def bs_remove_def borrow_def pin_def adjust_allocation_def bind_op_def bindings_def
  bt_adjust_def submit_def submit_writes_def submit_reads_def borrowed_bindings_def lease_ranks_def
  bs_of_def bs_extend_def take_units_def less_lease_def

lemma example_run_eq:
  "example_run = example_pool\<lparr>sp_next := 4,
     sp_pools := [(sp_pools example_pool ! 0)\<lparr>pool_free := [4, 5]\<rparr>, (sp_pools example_pool ! 1)\<lparr>pool_free := []\<rparr>],
     allocations := [
       (Lease 1 1, \<lparr>al_request = 7, token_limit = 9, al_bindings =
          [\<lparr>bind_component = ''kv'', bind_rank = 0, units = [0, 1, 2], bytes_per_unit = 64\<rparr>,
           \<lparr>bind_component = ''conv'', bind_rank = 0, units = [0], bytes_per_unit = 32\<rparr>],
          retired = False, sealed = False, al_borrowers = [3], pending = [4]\<rparr>),
       (Lease 1 2, \<lparr>al_request = 8, token_limit = 4, al_bindings =
          [\<lparr>bind_component = ''kv'', bind_rank = 0, units = [3], bytes_per_unit = 64\<rparr>,
           \<lparr>bind_component = ''conv'', bind_rank = 0, units = [1], bytes_per_unit = 32\<rparr>],
          retired = False, sealed = False, al_borrowers = [], pending = [4]\<rparr>)],
     borrowers := [(3, Lease 1 1)], flights := [(4, \<lparr>remaining_ranks = [0], fl_leases = [Lease 1 1, Lease 1 2]\<rparr>)]\<rparr>"
  by (simp add: example_run_def example_pool_def pool_eval)

lemma example_run_facts:
  "map_of (borrowers example_run) 3 = Some (Lease 1 1)"
  "map_option al_bindings (map_of (allocations example_run) (Lease 1 1)) =
     Some [\<lparr>bind_component = ''kv'', bind_rank = 0, units = [0, 1, 2], bytes_per_unit = 64\<rparr>,
           \<lparr>bind_component = ''conv'', bind_rank = 0, units = [0], bytes_per_unit = 32\<rparr>]"
  "map_of (flights example_run) 4 = Some \<lparr>remaining_ranks = [0], fl_leases = [Lease 1 1, Lease 1 2]\<rparr>"
  by (simp_all add: example_run_eq)

lemma example_run_reachable: "reachable_pool example_run"
  unfolding example_run_def by (rule example_reachable)

theorem borrow_pins_units_witness:
  "\<exists>a'. map_of (allocations (fold pool_step [CallRetire 5 (Lease 1 1)] example_run)) (Lease 1 1) = Some a'
     \<and> units (al_bindings a' ! 0) = [0, 1, 2]"
proof -
  obtain a where a: "map_of (allocations example_run) (Lease 1 1) = Some a" "units (al_bindings a ! 0) = [0, 1, 2]"
    using example_run_facts(2) by auto
  show ?thesis
    using borrow_pins_units [OF example_run_reachable example_run_facts(1) a(1), of "[CallRetire 5 (Lease 1 1)]"] a(2)
    by auto
qed

theorem flight_pins_units_witness:
  "\<exists>a'. map_of (allocations (fold pool_step [CallRetire 5 (Lease 1 2)] example_run)) (Lease 1 2) = Some a'"
proof -
  have "\<exists>a a'. map_of (allocations example_run) (Lease 1 2) = Some a \<and>
      map_of (allocations (fold pool_step [CallRetire 5 (Lease 1 2)] example_run)) (Lease 1 2) = Some a' \<and>
      al_bindings a' = al_bindings a"
    by (rule flight_pins_units [OF example_run_reachable example_run_facts(3), where r = 0]) simp_all
  then show ?thesis by blast
qed

section \<open>Page addresses\<close>

text \<open>The page of the ring or of the whole context that a position falls in.\<close>

definition page_slot :: "pool \<Rightarrow> nat \<Rightarrow> nat \<Rightarrow> nat" where
  "page_slot p n pos =
     (if is_full (pool_retention p) then pos div n else (pos div n) mod (pool_max_tokens p div n))"

lemma page_slot_bound:
  assumes ok: "pool_ok p" "binding_ok tokens p b" and n: "pool_page_tokens p = Some n" and pos: "pos < tokens"
  shows "page_slot p n pos < length (units b)" "0 < n" "0 < pool_max_tokens p div n"
proof -
  from ok(1) n have nn: "0 < n" "n dvd pool_max_tokens p" "0 < pool_max_tokens p"
    by (simp_all add: pool_ok_def)
  then show n0: "0 < n" and ring: "0 < pool_max_tokens p div n"
    by (auto simp: div_greater_zero_iff dvd_imp_le)
  have len: "length (units b) = div_ceil (retained_tokens p tokens) n"
    using ok(2) n by (simp add: binding_ok_def unit_count_def)
  show "page_slot p n pos < length (units b)"
  proof (cases "is_full (pool_retention p)")
    case True
    then show ?thesis using div_ceil_covers [OF n0 pos] len by (simp add: page_slot_def retained_tokens_def)
  next
    case False
    let ?r = "pool_max_tokens p div n"
    have slot: "page_slot p n pos = (pos div n) mod ?r" using False by (simp add: page_slot_def)
    show ?thesis
    proof (cases "tokens \<le> pool_max_tokens p")
      case True
      have "(pos div n) mod ?r \<le> pos div n" by simp
      also have "pos div n < div_ceil tokens n" using div_ceil_covers [OF n0 pos] .
      finally show ?thesis using True False len slot by (simp add: retained_tokens_def min_absorb1)
    next
      case False
      have "(pos div n) mod ?r < ?r" using ring by simp
      also have "?r = div_ceil (pool_max_tokens p) n" using nn(2) by (simp add: div_ceil_def)
      finally show ?thesis
        using False \<open>\<not> is_full (pool_retention p)\<close> len slot by (simp add: retained_tokens_def)
    qed
  qed
qed

lemma row_in_page:
  assumes "n dvd ub" and "0 < (n::nat)"
  shows "pos mod n * (ub div n) + ub div n \<le> ub"
proof -
  have "(pos mod n + 1) * (ub div n) \<le> n * (ub div n)"
    using assms(2) by (intro mult_le_mono1) (simp add: Suc_leI)
  then show ?thesis using assms(1) by (simp add: algebra_simps)
qed

lemma page_address_result:
  assumes reach: "reachable_pool s" and bs: "bindings s e l = Ok bs" and a: "map_of (allocations s) l = Some a"
    and pos: "pos < token_limit a" and i: "position_of (\<lambda>p. pool_key p = (c, r)) (sp_pools s) = Some i"
    and n: "pool_page_tokens (sp_pools s ! i) = Some n"
  defines "p \<equiv> sp_pools s ! i"
  defines "u \<equiv> units (al_bindings a ! i) ! page_slot p n pos"
  shows "page_address s e l c r pos = Ok \<lparr>physical_page = u, row_in_page = pos mod n,
           byte_offset = u * unit_bytes p + pos mod n * (unit_bytes p div n)\<rparr>"
    "page_slot p n pos < length (units (al_bindings a ! i))"
    "u * unit_bytes p + pos mod n * (unit_bytes p div n) + unit_bytes p div n \<le> unit_bytes p * pool_capacity p"
    "i < length (sp_pools s)" "0 < n" "n dvd unit_bytes p" "u < pool_capacity p"
proof -
  note base = reachable_parts(2) [OF reach]
  show il: "i < length (sp_pools s)" using position_of_Some [OF i] by simp
  have bs': "bs = al_bindings a" using bs a by (auto elim: bindings_Ok)
  have aok: "allocation_ok s a" using allocation_in_base [OF base a] .
  then have len: "length (al_bindings a) = length (sp_pools s)"
    by (auto simp: allocation_ok_def dest: list_all2_lengthD)
  have bok: "binding_ok (token_limit a) p (al_bindings a ! i)"
    using aok il unfolding p_def by (simp add: allocation_ok_def list_all2_nthD)
  have pok: "pool_ok p" using base il unfolding p_def by (simp add: pool_base_def)
  have np: "pool_page_tokens p = Some n" using n by (simp add: p_def)
  note slot = page_slot_bound [OF pok bok np pos]
  show "page_slot p n pos < length (units (al_bindings a ! i))" "0 < n" using slot by simp_all
  show dvd: "n dvd unit_bytes p" using pok np by (simp add: pool_ok_def)
  have "u \<in> set (units_at i a)" using slot(1) by (simp add: u_def units_at_def)
  then show cap: "u < pool_capacity p"
    using partition_distinct(2) [OF reachable_parts(3) [OF reach] il a] by (auto simp: p_def)
  note row = row_in_page [OF dvd slot(2), of pos]
  have "u * unit_bytes p + unit_bytes p \<le> pool_capacity p * unit_bytes p"
    using cap by (metis Suc_leI add.commute mult_Suc mult_le_mono1)
  then show bound: "u * unit_bytes p + pos mod n * (unit_bytes p div n) + unit_bytes p div n \<le> unit_bytes p * pool_capacity p"
    using row by (simp add: mult.commute)
  have lim: "unit_bytes p * pool_capacity p < 2 ^ 64" using pok by (simp add: pool_ok_def)
  have fits: "u * unit_bytes p < 2 ^ 64" "pos mod n * (unit_bytes p div n) < 2 ^ 64"
    "u * unit_bytes p + pos mod n * (unit_bytes p div n) < 2 ^ 64"
    using bound lim by linarith+
  show "page_address s e l c r pos = Ok \<lparr>physical_page = u, row_in_page = pos mod n,
           byte_offset = u * unit_bytes p + pos mod n * (unit_bytes p div n)\<rparr>"
    using bs a pos i il np slot len fits
    by (cases "is_full (pool_retention p)";
        simp add: page_address_def bs' reject_def index_at_def get_at_def fit_def Let_def page_slot_def
        u_def p_def [symmetric])
qed

text \<open>Page addressing is total and in bounds: for a live lease, every position below its token
  limit resolves to a page the lease owns, the row lies inside the buffer of the component, and no
  step of the address arithmetic overflows.\<close>

theorem page_address_total:
  assumes "reachable_pool s" and "bindings s e l = Ok bs" and "map_of (allocations s) l = Some a"
    and "pos < token_limit a" and "position_of (\<lambda>p. pool_key p = (c, r)) (sp_pools s) = Some i"
    and "pool_page_tokens (sp_pools s ! i) = Some n"
  shows "\<exists>addr. page_address s e l c r pos = Ok addr \<and>
           physical_page addr \<in> set (units (al_bindings a ! i)) \<and> row_in_page addr = pos mod n \<and>
           byte_offset addr + unit_bytes (sp_pools s ! i) div n
             \<le> unit_bytes (sp_pools s ! i) * pool_capacity (sp_pools s ! i)"
  using page_address_result [OF assms] by auto

text \<open>Rows never overlap: two different positions, of two different leases or of one lease, have
  disjoint byte ranges in the buffer of a component. For one lease of a sliding-window component
  this holds as long as the two logical pages are less than one ring apart, which
  \<open>sliding_ring_never_aliases\<close> gives for the positions live together.\<close>

theorem page_rows_disjoint:
  assumes reach: "reachable_pool s" and i: "position_of (\<lambda>p. pool_key p = (c, r)) (sp_pools s) = Some i"
    and n: "pool_page_tokens (sp_pools s ! i) = Some n"
    and b1: "bindings s e l1 = Ok bs1" and a1: "map_of (allocations s) l1 = Some al1" and p1: "pos1 < token_limit al1"
    and b2: "bindings s e l2 = Ok bs2" and a2: "map_of (allocations s) l2 = Some al2" and p2: "pos2 < token_limit al2"
    and ne: "(l1, pos1) \<noteq> (l2, pos2)"
    and near: "l1 = l2 \<Longrightarrow> pos1 \<le> pos2 \<and> (is_full (pool_retention (sp_pools s ! i)) \<or>
                 pos2 div n - pos1 div n < pool_max_tokens (sp_pools s ! i) div n)"
    and r1: "page_address s e l1 c r pos1 = Ok x1" and r2: "page_address s e l2 c r pos2 = Ok x2"
  shows "byte_offset x1 + unit_bytes (sp_pools s ! i) div n \<le> byte_offset x2 \<or>
         byte_offset x2 + unit_bytes (sp_pools s ! i) div n \<le> byte_offset x1"
proof -
  let ?p = "sp_pools s ! i"
  let ?rb = "unit_bytes ?p div n"
  note A = page_address_result [OF reach b1 a1 p1 i n]
  note B = page_address_result [OF reach b2 a2 p2 i n]
  let ?u1 = "units (al_bindings al1 ! i) ! page_slot ?p n pos1"
  let ?u2 = "units (al_bindings al2 ! i) ! page_slot ?p n pos2"
  have x: "byte_offset x1 = ?u1 * unit_bytes ?p + pos1 mod n * ?rb" "byte_offset x2 = ?u2 * unit_bytes ?p + pos2 mod n * ?rb"
    using A(1) B(1) r1 r2 by auto
  note up = reachable_parts(3) [OF reach]
  have diff: "?u1 \<noteq> ?u2 \<or> pos1 mod n \<noteq> pos2 mod n"
  proof (cases "l1 = l2")
    case False
    then have "set (units_at i al1) \<inter> set (units_at i al2) = {}"
      using partition_disjoint [OF up A(4) a1 a2] by simp
    then show ?thesis using nth_mem [OF A(2)] nth_mem [OF B(2)] by (auto simp: units_at_def)
  next
    case True
    with a1 a2 have al: "al2 = al1" by simp
    have slots: "page_slot ?p n pos1 = page_slot ?p n pos2 \<longrightarrow> pos1 div n = pos2 div n"
      using near [OF True] by (auto simp: page_slot_def intro: mod_eq_close div_le_mono)
    have "distinct (units (al_bindings al1 ! i))"
      using partition_distinct(1) [OF up A(4) a1] by (simp add: units_at_def)
    then have "?u1 = ?u2 \<longrightarrow> pos1 div n = pos2 div n"
      using slots A(2) B(2) unfolding al by (simp add: nth_eq_iff_index_eq)
    moreover have "pos1 div n = pos2 div n \<and> pos1 mod n = pos2 mod n \<longrightarrow> pos1 = pos2"
      by (metis div_mult_mod_eq)
    ultimately show ?thesis using ne True by blast
  qed
  have step: "u * unit_bytes ?p + k * ?rb + ?rb \<le> u' * unit_bytes ?p + k' * ?rb"
    if "u < u' \<or> u = u' \<and> k < k'" "k < n" for u u' k k' :: nat
  proof (cases "u = u'")
    case True
    then have "(k + 1) * ?rb \<le> k' * ?rb" using that(1) by (intro mult_le_mono1) simp
    then show ?thesis using True by (simp add: algebra_simps)
  next
    case False
    have "(k + 1) * ?rb \<le> n * ?rb" using that(2) by (intro mult_le_mono1) simp
    then have row: "k * ?rb + ?rb \<le> unit_bytes ?p" using A(6) by (simp add: algebra_simps)
    have "(u + 1) * unit_bytes ?p \<le> u' * unit_bytes ?p" using that(1) False by (intro mult_le_mono1) simp
    then show ?thesis using row by (simp add: algebra_simps)
  qed
  have "pos1 mod n < n" "pos2 mod n < n" using A(5) by simp_all
  then show ?thesis
    using diff step [of ?u1 ?u2 "pos1 mod n" "pos2 mod n"] step [of ?u2 ?u1 "pos2 mod n" "pos1 mod n"]
    unfolding x by (metis linorder_neqE_nat)
qed

lemma example_position: "position_of (\<lambda>p. pool_key p = (''kv'', 0)) (sp_pools example_run) = Some 0"
  by (simp add: example_run_eq example_pool_def)

lemma example_lease1:
  "bindings example_run 5 (Lease 1 1) = Ok (al_bindings (the (map_of (allocations example_run) (Lease 1 1))))"
  "map_of (allocations example_run) (Lease 1 1) = Some (the (map_of (allocations example_run) (Lease 1 1)))"
  "token_limit (the (map_of (allocations example_run) (Lease 1 1))) = 9"
  "pool_page_tokens (sp_pools example_run ! 0) = Some 4" "unit_bytes (sp_pools example_run ! 0) = 64"
  by (simp_all add: example_run_eq example_pool_def bindings_def live_def reject_def)

lemma example_limits:
  "3 < token_limit (the (map_of (allocations example_run) (Lease 1 1)))"
  "8 < token_limit (the (map_of (allocations example_run) (Lease 1 1)))"
  unfolding example_lease1(3) by simp_all

theorem page_address_total_witness:
  "\<exists>addr. page_address example_run 5 (Lease 1 1) ''kv'' 0 8 = Ok addr \<and> row_in_page addr = 0"
  using page_address_total [OF example_run_reachable example_lease1(1,2) example_limits(2) example_position example_lease1(4)]
  by auto

theorem page_rows_disjoint_witness:
  "\<exists>x1 x2. page_address example_run 5 (Lease 1 1) ''kv'' 0 3 = Ok x1 \<and>
     page_address example_run 5 (Lease 1 1) ''kv'' 0 8 = Ok x2 \<and>
     (byte_offset x1 + 16 \<le> byte_offset x2 \<or> byte_offset x2 + 16 \<le> byte_offset x1)"
proof -
  note result = page_address_result(1) [OF example_run_reachable example_lease1(1,2)]
  obtain x1 x2 where x: "page_address example_run 5 (Lease 1 1) ''kv'' 0 3 = Ok x1"
    "page_address example_run 5 (Lease 1 1) ''kv'' 0 8 = Ok x2"
    using result [OF example_limits(1) example_position example_lease1(4)]
      result [OF example_limits(2) example_position example_lease1(4)] by blast
  have "byte_offset x1 + unit_bytes (sp_pools example_run ! 0) div 4 \<le> byte_offset x2 \<or>
      byte_offset x2 + unit_bytes (sp_pools example_run ! 0) div 4 \<le> byte_offset x1"
    by (rule page_rows_disjoint [OF example_run_reachable example_position example_lease1(4) example_lease1(1,2)
          example_limits(1) example_lease1(1,2) example_limits(2) _ _ x])
      (simp_all add: example_run_eq example_pool_def)
  then show ?thesis using x by (simp add: example_lease1(5))
qed

section \<open>Draining and usage\<close>

text \<open>C29. Nothing leaks: in a reachable state whose remaining allocations are all retired and which has
  no open borrow and no ticket in flight, there is no allocation left and every pool has its whole
  capacity free again.\<close>

theorem drained_pool_is_free:
  assumes "reachable_pool s" and "borrowers s = []" and "flights s = []"
    and "\<forall>(l, a) \<in> set (allocations s). retired a"
  shows "allocations s = [] \<and> (\<forall>p \<in> set (sp_pools s). pool_free p = [0..<pool_capacity p])"
proof -
  note parts = reachable_parts [OF assms(1)]
  have wf: "bt_wf (allocations s)" using parts(2) by (simp add: pool_base_def)
  have "False" if in_al: "(l, a) \<in> set (allocations s)" for l a
  proof -
    have la: "map_of (allocations s) l = Some a" using in_al bt_in_get [OF wf] by simp
    have "al_borrowers a = []" "pending a = []"
      using parts(1) la assms(2,3) unfolding pool_core_def borrow_links_def flight_links_def
      by (metis list.set_intros(1) map_of.simps(1) neq_Nil_conv option.distinct(1))+
    then have "reclaimable a" using assms(4) in_al by (auto simp: reclaimable_def)
    then show False using parts(5) in_al by (force simp: settled_def)
  qed
  then have empty: "allocations s = []" by (cases "allocations s") auto
  moreover have "pool_free p = [0..<pool_capacity p]" if "p \<in> set (sp_pools s)" for p
  proof (rule bs_ext)
    obtain i where i: "i < length (sp_pools s)" "p = sp_pools s ! i" using \<open>p \<in> set (sp_pools s)\<close> by (metis in_set_conv_nth)
    then have p: "bs_wf (pool_free p)" "mset (pool_free p) = mset [0..<pool_capacity p]"
      using parts(3) empty by (simp_all add: units_partition_def held_def)
    show "bs_wf (pool_free p)" by (rule p(1))
    show "set (pool_free p) = set [0..<pool_capacity p]" using p(2) by (rule mset_eq_setD)
  qed simp
  ultimately show ?thesis by simp
qed

theorem drained_pool_is_free_witness:
  "allocations (fold pool_step [CallReserve 5 7 9, CallRetire 5 (Lease 1 1)] example_pool) = []"
proof -
  let ?s = "fold pool_step [CallReserve 5 7 9, CallRetire 5 (Lease 1 1)] example_pool"
  have s: "borrowers ?s = []" "flights ?s = []" "\<forall>(l, a) \<in> set (allocations ?s). retired a"
    by (simp_all add: example_pool_def pool_eval retire_def reclaim_def ready_leases_def reclaimable_def
        reclaim_one_def bt_remove_def give_units_def)
  show ?thesis using drained_pool_is_free [OF example_reachable s] by simp
qed

end
