(* ===== verification/Prefix_Index.thy ===== *)
theory Prefix_Index
  imports Arith_History
begin

text \<open>
  The prefix index (\<open>crates/inferfabric-runtime/src/prefix_index.rs\<close>): a compressed radix tree
  over token sequences whose nodes carry checkpoint ids, a table of entries, and the index that
  bounds both. The recursion of \<open>Node::insert\<close> is not structural, because it may first split the
  edge of a child; its termination is part of the development.
\<close>

section \<open>The code's data\<close>

datatype checkpoint_id = CheckpointId (cid_index: nat) (cid_generation: nat)

instantiation checkpoint_id :: linorder
begin

definition less_eq_checkpoint_id :: "checkpoint_id \<Rightarrow> checkpoint_id \<Rightarrow> bool" where
  "less_eq_checkpoint_id a b \<longleftrightarrow>
     cid_index a < cid_index b \<or> cid_index a = cid_index b \<and> cid_generation a \<le> cid_generation b"

definition less_checkpoint_id :: "checkpoint_id \<Rightarrow> checkpoint_id \<Rightarrow> bool" where
  "less_checkpoint_id a b \<longleftrightarrow>
     cid_index a < cid_index b \<or> cid_index a = cid_index b \<and> cid_generation a < cid_generation b"

instance
  by standard (auto simp: less_eq_checkpoint_id_def less_checkpoint_id_def checkpoint_id.expand)

end

record match =
  matched_tokens :: nat
  match_checkpoint :: "(checkpoint_id \<times> nat) option"

datatype node =
  Node (edge: "nat list") (checkpoints: "checkpoint_id btset") (children: "(nat \<times> node) list")

record entry =
  entry_boundary :: nat
  entry_history :: history

record prefix_index =
  ix_identity :: prefix_identity
  ix_index :: nat
  ix_generation :: nat
  ix_alignment :: nat
  max_entries :: nat
  max_token_units :: nat
  token_units :: nat
  ix_root :: node
  entries :: "(checkpoint_id, entry) btmap"

lemma child_size [termination_simp]:
  "x \<in> set cs \<Longrightarrow> size (snd x) < Suc (size_list (size_prod (\<lambda>_. 0) size) cs)"
  by (induction cs) auto

lemma child_size_map [termination_simp]:
  "map_of cs t = Some c \<Longrightarrow> size c < Suc (size_list (size_prod (\<lambda>_. 0) size) cs)"
  by (drule map_of_SomeD, drule child_size) simp

section \<open>The radix tree\<close>

text \<open>\<open>edge.iter().zip(tokens).take_while(|(a, b)| a == b).count()\<close>.\<close>

definition common_len :: "nat list \<Rightarrow> nat list \<Rightarrow> nat" where
  "common_len xs ys = length (takeWhile (\<lambda>(a, b). a = b) (zip xs ys))"

text \<open>The split of a child's edge at \<open>common\<close>: the old child becomes the only child of the prefix.\<close>

fun split_edge :: "nat \<Rightarrow> node \<Rightarrow> node" where
  "split_edge c (Node e cps cs) = Node (take c e) [] [(hd (drop c e), Node (drop c e) cps cs)]"

lemma common_len_hd: "common_len xs (y # ys) = 0 \<Longrightarrow> xs \<noteq> [] \<Longrightarrow> hd xs \<noteq> y"
  by (cases xs) (auto simp: common_len_def)

lemma size_split_edge: "x \<in> set cs \<Longrightarrow> size (split_edge c (snd x)) \<le> Suc (size_list (size_prod (\<lambda>_. 0) size) cs)"
proof (induction cs)
  case Nil
  then show ?case by simp
next
  case (Cons y cs)
  then show ?case by (cases y; cases "snd y") auto
qed

function node_insert :: "nat list \<Rightarrow> checkpoint_id \<Rightarrow> node \<Rightarrow> node" where
  "node_insert [] i (Node e cps cs) = Node e (bs_insert i cps) cs"
| "node_insert (t # ts) i (Node e cps cs) =
     (case map_of cs t of
        None \<Rightarrow> Node e cps (bt_insert t (Node (t # ts) [i] []) cs)
      | Some child \<Rightarrow>
          let common = common_len (edge child) (t # ts);
              child' = if common < length (edge child) then split_edge common child else child
          in Node e cps (bt_adjust t (\<lambda>_. node_insert (drop common (t # ts)) i child') cs))"
  by pat_completeness auto

termination
proof (relation "measures [\<lambda>(ts, i, n). length ts, \<lambda>(ts, i, n). size n,
    \<lambda>(ts, i, n). if map_of (children n) (hd ts) \<noteq> None then 1 else 0]")
  fix t ts i e cps cs child common child'
  assume child: "map_of cs t = Some child" and common: "common = common_len (edge child) (t # ts)"
    and child': "child' = (if common < length (edge child) then split_edge common child else child)"
  show "((drop common (t # ts), i, child'), (t # ts, i, Node e cps cs)) \<in>
    measures [\<lambda>(ts, i, n). length ts, \<lambda>(ts, i, n). size n,
      \<lambda>(ts, i, n). if map_of (children n) (hd ts) \<noteq> None then 1 else 0]"
  proof (cases "common = 0")
    case False
    then show ?thesis by auto
  next
    case zero: True
    show ?thesis
    proof (cases "edge child = []")
      case True
      then show ?thesis using zero child child' child_size_map [OF child] by simp
    next
      case False
      then have split: "child' = split_edge 0 child" and hd: "hd (edge child) \<noteq> t"
        using zero child' common common_len_hd [of "edge child" t ts] by auto
      have "size child' \<le> size (Node e cps cs)"
        using size_split_edge [OF map_of_SomeD [OF child], of 0] by (simp add: split)
      moreover have "map_of (children child') t = None"
        using hd by (cases child) (simp add: split)
      ultimately show ?thesis using zero child by (auto simp: le_less)
    qed
  qed
qed simp

text \<open>\<open>pop_first\<close> of a node that keeps no checkpoint and a single child.\<close>

fun merge_child :: "node \<Rightarrow> node" where
  "merge_child (Node e [] [(t, c)]) = Node (e @ edge c) (checkpoints c) (children c)"
| "merge_child n = n"

definition keep_child :: "node \<Rightarrow> bool" where
  "keep_child c \<longleftrightarrow> checkpoints c \<noteq> [] \<or> children c \<noteq> []"

fun node_remove :: "checkpoint_id \<Rightarrow> node \<Rightarrow> node" where
  "node_remove i (Node e cps cs) =
     Node e (bs_remove i cps)
       (filter (\<lambda>x. keep_child (snd x)) (map (\<lambda>x. (fst x, merge_child (node_remove i (snd x)))) cs))"

section \<open>The index\<close>

text \<open>The state of the constructor is the process-wide counter \<open>NEXT_INDEX\<close>.\<close>

definition index_new :: "prefix_identity \<Rightarrow> nat \<Rightarrow> nat \<Rightarrow> nat \<Rightarrow> (nat, prefix_index) op" where
  "index_new ident alignment max_e max_units =
     try_op (reject (\<not> compatible ident ident \<or> alignment = 0 \<or> max_e = 0 \<or> max_units = 0)
              (invalid ''invalid prefix index identity/capacity'')) (\<lambda>_ next_index.
     try_op (ok_or (checked_add 64 next_index 1) (invalid ''prefix index identities exhausted'')) (\<lambda>next' _.
       (Ok \<lparr>ix_identity = ident, ix_index = next_index, ix_generation = 0, ix_alignment = alignment,
            max_entries = max_e, max_token_units = max_units, token_units = 0, ix_root = Node [] [] [],
            entries = []\<rparr>, next')) next_index)"

definition index_insert :: "prefix_identity \<Rightarrow> nat list \<Rightarrow> history \<Rightarrow> (prefix_index, checkpoint_id) op" where
  "index_insert ident tokens hist s =
     try_op (and_then (ok_or (try_narrow 32 (length tokens)) (invalid ''prefix length overflow'')) (\<lambda>boundary.
             and_then (ok_or (checked_add 64 (token_units s) boundary) (invalid ''prefix metadata overflow'')) (\<lambda>total.
             and_then (reject (\<not> compatible (ix_identity s) ident \<or> boundary = 0
                         \<or> boundary mod ix_alignment s \<noteq> 0 \<or> hist_tokens hist \<noteq> boundary
                         \<or> length (entries s) \<ge> max_entries s \<or> total > max_token_units s)
                        (invalid ''prefix identity, history, alignment or metadata capacity'')) (\<lambda>_.
             and_then (ok_or (checked_add 64 (ix_generation s) 1) (invalid ''checkpoint generations exhausted'')) (\<lambda>generation.
             Ok (boundary, total, generation)))))) (\<lambda>(boundary, total, generation) s.
       let cid = CheckpointId (ix_index s) generation in
       (Ok cid,
        s\<lparr>ix_root := node_insert tokens cid (ix_root s),
          entries := bt_insert cid \<lparr>entry_boundary = boundary, entry_history = hist\<rparr> (entries s),
          ix_generation := generation, token_units := total\<rparr>)) s"

definition scan_checkpoints ::
  "(checkpoint_id, entry) btmap \<Rightarrow> history \<Rightarrow> nat \<Rightarrow> checkpoint_id list \<Rightarrow> match \<Rightarrow> match outcome" where
  "scan_checkpoints es hist max_restore cps result =
     fold_out (\<lambda>cid result.
       and_then (unwrap (map_of es cid)) (\<lambda>e.
       Ok (if entry_boundary e \<le> max_restore \<and> same_prefix (entry_history e) hist (entry_boundary e)
           then result\<lparr>match_checkpoint := Some (cid, entry_boundary e)\<rparr> else result))) cps result"

function lookup_walk ::
  "(checkpoint_id, entry) btmap \<Rightarrow> nat list \<Rightarrow> history \<Rightarrow> nat \<Rightarrow> node \<Rightarrow> nat \<Rightarrow> match \<Rightarrow> match outcome" where
  "lookup_walk es tokens hist max_restore (Node e cps cs) offset result =
     (case get_at tokens offset of
        None \<Rightarrow> Ok result
      | Some token \<Rightarrow>
        (case map_of cs token of
           None \<Rightarrow> Ok result
         | Some child \<Rightarrow>
             let common = common_len (edge child) (drop offset tokens);
                 offset' = offset + common;
                 result' = result\<lparr>matched_tokens := offset' mod 2 ^ 32\<rparr>
             in if common \<noteq> length (edge child) then Ok result'
                else and_then (scan_checkpoints es hist max_restore (checkpoints child) result') (\<lambda>result''.
                  lookup_walk es tokens hist max_restore child offset' result'')))"
  by pat_completeness auto

termination
  by (relation "measure (\<lambda>(es, tokens, hist, max_restore, n, offset, result). size n)")
    (auto dest: child_size_map)

definition index_lookup :: "prefix_index \<Rightarrow> prefix_identity \<Rightarrow> nat list \<Rightarrow> history \<Rightarrow> nat \<Rightarrow> match outcome" where
  "index_lookup s ident tokens hist max_restore =
     (let result = \<lparr>matched_tokens = 0, match_checkpoint = None\<rparr> in
      if \<not> compatible (ix_identity s) ident then Ok result
      else lookup_walk (entries s) tokens hist max_restore (ix_root s) 0 result)"

text \<open>\<open>self.token_units -= entry.boundary\<close> panics on underflow.\<close>

definition index_remove :: "checkpoint_id \<Rightarrow> (prefix_index, bool) op" where
  "index_remove cid s =
     (case map_of (entries s) cid of
        None \<Rightarrow> (Ok False, s)
      | Some e \<Rightarrow>
          let s' = s\<lparr>entries := bt_remove cid (entries s), ix_root := node_remove cid (ix_root s)\<rparr> in
          if entry_boundary e \<le> token_units s
          then (Ok True, s'\<lparr>token_units := token_units s - entry_boundary e\<rparr>)
          else (Panic, s'))"

definition index_len :: "prefix_index \<Rightarrow> nat" where
  "index_len s = length (entries s)"

datatype index_call =
    IndexInsert prefix_identity "nat list" history
  | IndexRemove checkpoint_id

fun index_step :: "index_call \<Rightarrow> prefix_index \<Rightarrow> prefix_index" where
  "index_step (IndexInsert ident tokens hist) s = snd (index_insert ident tokens hist s)"
| "index_step (IndexRemove cid) s = snd (index_remove cid s)"

section \<open>The paths of a tree\<close>

text \<open>The abstract content of a node: every checkpoint below it with the tokens that lead there.\<close>

fun path_list :: "node \<Rightarrow> (nat list \<times> checkpoint_id) list" where
  "path_list (Node e cps cs) =
     map (Pair []) cps @ concat (map (\<lambda>x. map (\<lambda>(p, i). (edge (snd x) @ p, i)) (path_list (snd x))) cs)"

definition child_paths :: "nat \<times> node \<Rightarrow> (nat list \<times> checkpoint_id) list" where
  "child_paths x = map (\<lambda>(p, i). (edge (snd x) @ p, i)) (path_list (snd x))"

lemma path_list_eq: "path_list n = map (Pair []) (checkpoints n) @ concat (map child_paths (children n))"
  by (cases n) (simp add: child_paths_def [abs_def])

lemma path_list_Node: "path_list (Node e cps cs) = map (Pair []) cps @ concat (map child_paths cs)"
  by (subst path_list_eq) simp

declare path_list.simps [simp del]

definition fit_node :: "node \<Rightarrow> bool" where
  "fit_node n \<longleftrightarrow> checkpoints n \<noteq> [] \<or> 2 \<le> length (children n)"

fun wf_node :: "node \<Rightarrow> bool" where
  "wf_node (Node e cps cs) \<longleftrightarrow>
     bs_wf cps \<and> bt_wf cs \<and>
     (\<forall>x \<in> set cs. edge (snd x) \<noteq> [] \<and> hd (edge (snd x)) = fst x \<and> fit_node (snd x) \<and> wf_node (snd x))"

lemma wf_node_iff:
  "wf_node n \<longleftrightarrow> bs_wf (checkpoints n) \<and> bt_wf (children n) \<and>
     (\<forall>x \<in> set (children n). edge (snd x) \<noteq> [] \<and> hd (edge (snd x)) = fst x \<and> fit_node (snd x) \<and> wf_node (snd x))"
  by (cases n) simp

lemma in_set_bt_insert: "x \<in> set (bt_insert k v m) \<Longrightarrow> x = (k, v) \<or> x \<in> set m"
  by (induction k v m rule: bt_insert.induct) (auto split: if_splits)

lemma mset_concat_insert:
  "k \<notin> fst ` set m \<Longrightarrow> mset (concat (map f (bt_insert k v m))) = mset (f (k, v)) + mset (concat (map f m))"
  by (induction k v m rule: bt_insert.induct) (auto simp: ac_simps)

lemma mset_concat_adjust:
  assumes "distinct (bt_keys m)" and "map_of m k = Some v"
  shows "mset (concat (map f (bt_adjust k (\<lambda>_. w) m))) + mset (f (k, v)) =
    mset (concat (map f m)) + mset (f (k, w))"
  using assms
proof (induction m)
  case Nil
  then show ?case by simp
next
  case (Cons x m)
  show ?case
  proof (cases "fst x = k")
    case True
    then have "k \<notin> fst ` set m" using Cons.prems(1) by auto
    then have "bt_adjust k (\<lambda>_. w) m = m"
      unfolding bt_adjust_def by (intro map_idI) (auto simp: image_iff)
    then show ?thesis using True Cons.prems(2) by (cases x) (simp add: bt_adjust_def ac_simps)
  next
    case False
    then have "mset (concat (map f (bt_adjust k (\<lambda>_. w) m))) + mset (f (k, v)) =
        mset (concat (map f m)) + mset (f (k, w))"
      using Cons by (cases x) auto
    then show ?thesis using False by (simp add: bt_adjust_def ac_simps)
  qed
qed

lemma common_len_take: "take (common_len xs ys) xs = take (common_len xs ys) ys"
  by (induction xs arbitrary: ys; case_tac ys) (auto simp: common_len_def)

lemma common_len_le: "common_len xs ys \<le> length xs" "common_len xs ys \<le> length ys"
  by (induction xs arbitrary: ys; case_tac ys; force simp: common_len_def)+

lemma common_len_next:
  "common_len xs ys < length xs \<Longrightarrow> common_len xs ys < length ys \<Longrightarrow>
   hd (drop (common_len xs ys) xs) \<noteq> hd (drop (common_len xs ys) ys)"
  by (induction xs arbitrary: ys; case_tac ys) (auto simp: common_len_def)

section \<open>Insertion\<close>

lemma path_list_edge: "path_list (Node e cps cs) = path_list (Node e' cps cs)"
  by (simp add: path_list.simps)

lemma path_list_split:
  "path_list (split_edge c n) = map (\<lambda>(p, i). (drop c (edge n) @ p, i)) (path_list n)"
proof -
  obtain e cps cs where n: "n = Node e cps cs" by (cases n)
  have "path_list (split_edge c n) = child_paths (hd (drop c e), Node (drop c e) cps cs)"
    by (subst path_list_eq) (simp add: n)
  then show ?thesis by (simp add: child_paths_def n path_list_edge [of "drop c e" cps cs e])
qed

lemma split_edge_facts:
  assumes wf: "wf_node n" and fit: "fit_node n" and c: "c < length (edge n)"
  shows "wf_node (split_edge c n)" "edge (split_edge c n) = take c (edge n)"
    "child_paths (k, split_edge c n) = child_paths (k, n)"
    "checkpoints (split_edge c n) = []" "bt_keys (children (split_edge c n)) = [hd (drop c (edge n))]"
proof -
  obtain e cps cs where n: "n = Node e cps cs" by (cases n)
  show ed: "edge (split_edge c n) = take c (edge n)" by (simp add: n)
  show "child_paths (k, split_edge c n) = child_paths (k, n)"
    by (simp add: child_paths_def ed path_list_split case_prod_beta comp_def flip: append_assoc)
  show "wf_node (split_edge c n)"
    using wf c fit by (auto simp: n bt_wf_def fit_node_def)
  show "checkpoints (split_edge c n) = []"
    "bt_keys (children (split_edge c n)) = [hd (drop c (edge n))]" by (simp_all add: n)
qed

lemma wf_replace_child:
  assumes "wf_node (Node e cps cs)" and "wf_node c" and "fit_node c" and "edge c \<noteq> []" and "hd (edge c) = t"
  shows "wf_node (Node e cps (bt_adjust t (\<lambda>_. c) cs))"
  using assms by (auto simp: set_bt_adjust bt_wf_distinct)

lemma path_list_replace:
  assumes "wf_node (Node e cps cs)" and "map_of cs t = Some child"
    and "mset (child_paths (t, c)) = add_mset x (mset (child_paths (t, child)))"
  shows "mset (path_list (Node e cps (bt_adjust t (\<lambda>_. c) cs))) = add_mset x (mset (path_list (Node e cps cs)))"
proof -
  have "distinct (bt_keys cs)" using assms(1) by (simp add: bt_wf_distinct)
  from mset_concat_adjust [OF this assms(2), of child_paths c]
  have "mset (concat (map child_paths (bt_adjust t (\<lambda>_. c) cs))) = add_mset x (mset (concat (map child_paths cs)))"
    by (simp add: assms(3))
  then show ?thesis by (subst (1 2) path_list_eq) simp
qed

text \<open>What an insertion guarantees about a node and its new version.\<close>

definition insert_ok :: "nat list \<Rightarrow> checkpoint_id \<Rightarrow> node \<Rightarrow> node \<Rightarrow> bool" where
  "insert_ok ts i n m \<longleftrightarrow>
     wf_node m \<and> edge m = edge n \<and> mset (path_list m) = add_mset (ts, i) (mset (path_list n)) \<and>
     set (checkpoints n) \<subseteq> set (checkpoints m) \<and> length (children n) \<le> length (children m) \<and>
     fst ` set (children n) \<subseteq> fst ` set (children m) \<and>
     (ts = [] \<longrightarrow> checkpoints m \<noteq> []) \<and> (ts \<noteq> [] \<longrightarrow> hd ts \<in> fst ` set (children m))"

lemma two_keys: "a \<in> fst ` set xs \<Longrightarrow> b \<in> fst ` set xs \<Longrightarrow> a \<noteq> b \<Longrightarrow> 2 \<le> length xs"
  by (cases xs; cases "tl xs") auto

lemma insert_ok_fit:
  assumes ok: "insert_ok ts i n m"
    and "fit_node n \<or> ts = [] \<or> (\<exists>k \<in> fst ` set (children n). k \<noteq> hd ts)"
  shows "fit_node m"
proof -
  consider "fit_node n" | "ts = []" | k where "ts \<noteq> []" "k \<in> fst ` set (children n)" "k \<noteq> hd ts"
    using assms(2) by auto
  then show ?thesis
  proof cases
    case 1
    then show ?thesis using ok by (auto simp: insert_ok_def fit_node_def)
  next
    case 2
    then show ?thesis using ok by (simp add: insert_ok_def fit_node_def)
  next
    case 3
    then show ?thesis using ok two_keys [of k "children m" "hd ts"] by (auto simp: insert_ok_def fit_node_def)
  qed
qed

lemma node_insert_ok:
  assumes "wf_node n" and "i \<notin> snd ` set (path_list n)"
  shows "insert_ok ts i n (node_insert ts i n)"
  using assms
proof (induction ts i n rule: node_insert.induct)
  case (1 i e cps cs)
  then have "i \<notin> set cps" by (force simp: path_list_eq)
  then show ?case using 1 by (auto simp: insert_ok_def bs_wf_insert path_list_eq mset_bs_insert)
next
  case (2 t ts i e cps cs)
  show ?case
  proof (cases "map_of cs t")
    case None
    then have new: "t \<notin> fst ` set cs" by (simp add: map_of_eq_None_iff)
    have leaf: "child_paths (t, Node (t # ts) [i] []) = [(t # ts, i)]"
      by (simp add: child_paths_def path_list_eq)
    have "wf_node (Node e cps (bt_insert t (Node (t # ts) [i] []) cs))"
      using "2.prems"(1) by (auto simp: bt_wf_insert fit_node_def dest!: in_set_bt_insert)
    then show ?thesis
      using None new mset_concat_insert [OF new, of child_paths "Node (t # ts) [i] []"]
      by (auto simp: insert_ok_def path_list_eq leaf length_bt_insert_fresh)
  next
    case (Some child)
    let ?c = "common_len (edge child) (t # ts)"
    define child' where "child' = (if ?c < length (edge child) then split_edge ?c child else child)"
    have in_cs: "(t, child) \<in> set cs" using Some by (rule map_of_SomeD)
    then have ch: "edge child \<noteq> []" "hd (edge child) = t" "fit_node child" "wf_node child"
      using "2.prems"(1) by force+
    have pos: "0 < ?c" using ch(1,2) by (cases "edge child") (auto simp: common_len_def)
    note split = split_edge_facts [OF ch(4,3)]
    have ch': "wf_node child'" "edge child' = take ?c (edge child)" "child_paths (t, child') = child_paths (t, child)"
      using ch(4) split common_len_le(1) [of "edge child" "t # ts"] by (auto simp: child'_def)
    have ed: "edge child' = take ?c (t # ts)" using ch'(2) common_len_take by metis
    have ids: "snd ` set (child_paths (k, n)) = snd ` set (path_list n)" for k n
      by (force simp: child_paths_def)
    have "set (child_paths (t, child)) \<subseteq> set (path_list (Node e cps cs))"
      using in_cs by (subst path_list_eq) auto
    then have "snd ` set (child_paths (t, child')) \<subseteq> snd ` set (path_list (Node e cps cs))"
      unfolding ch'(3) by (rule image_mono)
    then have "i \<notin> snd ` set (path_list child')"
      using "2.prems"(2) unfolding ids by (meson subsetD)
    then have ok: "insert_ok (drop ?c (t # ts)) i child' (node_insert (drop ?c (t # ts)) i child')"
      using "2.IH" [OF Some refl child'_def ch'(1)] by simp
    let ?m = "node_insert (drop ?c (t # ts)) i child'"
    have fit: "fit_node ?m"
    proof (rule insert_ok_fit [OF ok])
      show "fit_node child' \<or> drop ?c (t # ts) = [] \<or> (\<exists>k \<in> fst ` set (children child'). k \<noteq> hd (drop ?c (t # ts)))"
      proof (cases "?c < length (edge child)")
        case True
        then have "bt_keys (children child') = [hd (drop ?c (edge child))]"
          using split(5) by (simp add: child'_def)
        then have "hd (drop ?c (edge child)) \<in> fst ` set (children child')" by (metis list.set_intros(1) list.set_map)
        then show ?thesis using common_len_next [of "edge child" "t # ts"] True by fastforce
      next
        case False
        then show ?thesis using ch(3) by (simp add: child'_def)
      qed
    qed
    have em: "edge ?m = edge child'" using ok by (simp add: insert_ok_def)
    then have edm: "edge ?m \<noteq> []" "hd (edge ?m) = t" using ed pos by (auto simp: take_Cons' hd_append)
    have "mset (child_paths (t, ?m)) = image_mset (\<lambda>(p, i). (edge child' @ p, i)) (mset (path_list ?m))"
      by (simp add: child_paths_def em)
    also have "\<dots> = add_mset (edge child' @ drop ?c (t # ts), i) (mset (child_paths (t, child')))"
      using ok by (simp add: insert_ok_def child_paths_def)
    also have "\<dots> = add_mset (t # ts, i) (mset (child_paths (t, child)))"
      by (simp only: ed ch'(3) append_take_drop_id)
    finally have cp: "mset (child_paths (t, ?m)) = add_mset (t # ts, i) (mset (child_paths (t, child)))" .
    have run: "node_insert (t # ts) i (Node e cps cs) = Node e cps (bt_adjust t (\<lambda>_. ?m) cs)"
      using Some by (simp add: child'_def Let_def)
    have wf: "wf_node ?m" using ok by (simp add: insert_ok_def)
    have keys: "fst ` set (bt_adjust t (\<lambda>_. ?m) cs) = fst ` set cs" by (metis bt_keys_adjust list.set_map)
    have "t \<in> fst ` set cs" using in_cs by force
    then show ?thesis
      unfolding insert_ok_def run
      using wf_replace_child [OF "2.prems"(1) wf fit edm] path_list_replace [OF "2.prems"(1) Some cp]
      by (simp add: keys del: wf_node.simps)
  qed
qed

section \<open>Removal\<close>

lemma child_paths_merge: "child_paths (k, merge_child n) = child_paths (k, n)"
proof (cases n rule: merge_child.cases)
  case (1 e t c)
  have "path_list (Node (e @ edge c) (checkpoints c) (children c)) = path_list c"
    by (cases c) (simp add: path_list.simps)
  moreover have "path_list (Node e [] [(t, c)]) = child_paths (t, c)" by (subst path_list_eq) simp
  ultimately show ?thesis using 1 by (simp add: child_paths_def case_prod_beta comp_def)
qed (simp_all add: child_paths_def)

lemma merge_child_wf:
  assumes "wf_node n"
  shows "wf_node (merge_child n) \<and>
    (edge n \<noteq> [] \<longrightarrow> edge (merge_child n) \<noteq> [] \<and> hd (edge (merge_child n)) = hd (edge n)) \<and>
    (keep_child (merge_child n) \<longrightarrow> fit_node (merge_child n))"
  using assms
proof (cases n rule: merge_child.cases)
  case (1 e t c)
  then show ?thesis using assms by (auto simp: wf_node_iff [of c] fit_node_def)
qed (auto simp: fit_node_def keep_child_def)

lemma keep_child_paths: "\<not> keep_child n \<Longrightarrow> path_list n = []"
  by (simp add: keep_child_def path_list_eq)

lemma path_list_remove:
  "path_list (node_remove i n) = filter (\<lambda>x. snd x \<noteq> i) (path_list n)"
proof (induction i n rule: node_remove.induct)
  case (1 i e cps cs)
  let ?g = "\<lambda>x. (fst x, merge_child (node_remove i (snd x)))"
  have edge_same: "edge (node_remove i n) = edge n" for n by (cases n) simp
  have "child_paths (?g x) = filter (\<lambda>x. snd x \<noteq> i) (child_paths x)" if "x \<in> set cs" for x
  proof -
    have "child_paths (?g x) = child_paths (fst x, node_remove i (snd x))" by (rule child_paths_merge)
    also have "\<dots> = filter (\<lambda>x. snd x \<noteq> i) (child_paths x)"
      using "1.IH" [OF that] by (simp add: child_paths_def edge_same filter_map comp_def case_prod_beta)
    finally show ?thesis .
  qed
  moreover have "concat (map child_paths (filter (\<lambda>x. keep_child (snd x)) xs)) = concat (map child_paths xs)" for xs
    by (induction xs) (auto simp: child_paths_def keep_child_paths)
  ultimately have "concat (map child_paths (filter (\<lambda>x. keep_child (snd x)) (map ?g cs))) =
      filter (\<lambda>x. snd x \<noteq> i) (concat (map child_paths cs))"
    by (simp add: filter_concat comp_def cong: map_cong)
  then show ?case
    by (simp add: path_list_eq bs_remove_def filter_map comp_def)
qed

lemma node_remove_wf: "wf_node n \<Longrightarrow> wf_node (node_remove i n) \<and> edge (node_remove i n) = edge n"
proof (induction i n rule: node_remove.induct)
  case (1 i e cps cs)
  let ?g = "\<lambda>x. (fst x, merge_child (node_remove i (snd x)))"
  have each: "edge (snd (?g x)) \<noteq> [] \<and> hd (edge (snd (?g x))) = fst x \<and> wf_node (snd (?g x)) \<and>
      (keep_child (snd (?g x)) \<longrightarrow> fit_node (snd (?g x)))" if "x \<in> set cs" for x
    using "1.IH" [OF that] "1.prems" that merge_child_wf [of "node_remove i (snd x)"] by auto
  have "bt_keys (map ?g cs) = bt_keys cs" by simp
  then have "bt_wf (map ?g cs)" using "1.prems" unfolding bt_wf_def by (simp only: wf_node.simps bt_wf_def)
  then have "bt_wf (filter (\<lambda>x. keep_child (snd x)) (map ?g cs))"
    by (simp add: bt_wf_def sorted_wrt_map sorted_wrt_filter)
  then show ?case using each "1.prems" by (auto simp: bs_wf_remove)
qed

section \<open>The tokens on the edges\<close>

fun edge_tokens :: "node \<Rightarrow> nat" where
  "edge_tokens (Node e cps cs) = length e + sum_list (map (\<lambda>x. edge_tokens (snd x)) cs)"

lemma fit_node_paths: "wf_node n \<Longrightarrow> fit_node n \<Longrightarrow> path_list n \<noteq> []"
proof (induction n rule: wf_node.induct)
  case (1 e cps cs)
  show ?case
  proof (cases cps)
    case Nil
    then obtain x xs where x: "cs = x # xs" using "1.prems"(2) by (cases cs) (auto simp: fit_node_def)
    then have "path_list (snd x) \<noteq> []" using "1.IH" [of x] "1.prems"(1) by simp
    then have "child_paths x \<noteq> []" by (simp add: child_paths_def)
    then show ?thesis using x by (simp add: path_list_Node)
  qed (simp add: path_list_Node)
qed

lemma sum_list_map_concat: "sum_list (map f (concat (map g xs))) = sum_list (map (\<lambda>x. sum_list (map f (g x))) xs)"
  for f :: "'b \<Rightarrow> nat"
  by (induction xs) auto

lemma edge_tokens_bound:
  "wf_node n \<Longrightarrow> edge_tokens n \<le> length (edge n) + sum_list (map (\<lambda>x. length (fst x)) (path_list n))"
proof (induction n rule: wf_node.induct)
  case (1 e cps cs)
  have "edge_tokens (snd x) \<le> sum_list (map (\<lambda>x. length (fst x)) (child_paths x))" if x: "x \<in> set cs" for x
  proof -
    let ?n = "snd x"
    have wf: "wf_node ?n" "fit_node ?n" using "1.prems" x by auto
    have "1 * length (edge ?n) \<le> length (path_list ?n) * length (edge ?n)"
      using fit_node_paths [OF wf] by (intro mult_le_mono1) (simp add: Suc_leI)
    moreover have "sum_list (map (\<lambda>x. length (fst x)) (child_paths x)) =
        length (path_list ?n) * length (edge ?n) + sum_list (map (\<lambda>x. length (fst x)) (path_list ?n))"
      by (simp add: child_paths_def case_prod_beta comp_def sum_list_addf sum_list_triv)
    ultimately show ?thesis using "1.IH" [OF x wf(1)] by linarith
  qed
  then have "sum_list (map (\<lambda>x. edge_tokens (snd x)) cs) \<le>
      sum_list (map (\<lambda>x. sum_list (map (\<lambda>x. length (fst x)) (child_paths x))) cs)"
    by (rule sum_list_mono)
  also have "\<dots> = sum_list (map (\<lambda>x. length (fst x)) (concat (map child_paths cs)))"
    by (simp add: sum_list_map_concat)
  finally show ?case by (simp add: path_list_Node comp_def)
qed

end
