(* ===== verification/Prefix_Index_Thms.thy ===== *)
theory Prefix_Index_Thms
  imports Prefix_Index
begin

text \<open>
  The prefix index against its specification: the stored prefixes are a set of pairs of tokens
  and checkpoint id (\<open>stored\<close>); insertion adds one pair, removal deletes one, a lookup returns the
  longest common prefix and the longest checkpoint that may be restored, and the metadata bound
  holds in every reachable state.
\<close>

section \<open>The invariant\<close>

definition stored :: "prefix_index \<Rightarrow> (nat list \<times> checkpoint_id) list" where
  "stored s = path_list (ix_root s)"

definition entry_ok :: "prefix_index \<Rightarrow> checkpoint_id \<Rightarrow> entry \<Rightarrow> bool" where
  "entry_ok s i e \<longleftrightarrow>
     cid_index i = ix_index s \<and> cid_generation i \<le> ix_generation s \<and> 0 < entry_boundary e \<and>
     entry_boundary e mod ix_alignment s = 0 \<and> entry_boundary e = hist_tokens (entry_history e) \<and>
     entry_boundary e < 2 ^ 32"

definition index_ok :: "prefix_index \<Rightarrow> bool" where
  "index_ok s \<longleftrightarrow>
     wf_node (ix_root s) \<and> edge (ix_root s) = [] \<and> bt_wf (entries s) \<and>
     image_mset (\<lambda>(p, i). (i, length p)) (mset (stored s)) =
       image_mset (\<lambda>(i, e). (i, entry_boundary e)) (mset (entries s)) \<and>
     token_units s = sum_list (map entry_boundary (bt_values (entries s))) \<and>
     token_units s \<le> max_token_units s \<and> length (entries s) \<le> max_entries s \<and>
     (\<forall>(i, e) \<in> set (entries s). entry_ok s i e)"

lemma stored_entry:
  assumes "index_ok s" and "(p, i) \<in> set (stored s)"
  obtains e where "map_of (entries s) i = Some e" "entry_boundary e = length p" "entry_ok s i e"
proof -
  have eq: "image_mset (\<lambda>(p, i). (i, length p)) (mset (stored s)) =
      image_mset (\<lambda>(i, e). (i, entry_boundary e)) (mset (entries s))"
    using assms(1) unfolding index_ok_def by blast
  have "(i, length p) \<in># image_mset (\<lambda>(p, i). (i, length p)) (mset (stored s))"
    using assms(2) by force
  then have "(i, length p) \<in># image_mset (\<lambda>(i, e). (i, entry_boundary e)) (mset (entries s))"
    unfolding eq .
  then obtain e where e: "(i, e) \<in> set (entries s)" "entry_boundary e = length p" by auto
  have "bt_wf (entries s)" using assms(1) by (simp add: index_ok_def)
  then have "map_of (entries s) i = Some e" using e(1) by (simp add: bt_in_get)
  moreover have "entry_ok s i e" using assms(1) e(1) by (auto simp: index_ok_def)
  ultimately show ?thesis using e(2) that by blast
qed

lemma entry_stored:
  assumes "index_ok s" and "map_of (entries s) i = Some e"
  obtains p where "(p, i) \<in> set (stored s)" "length p = entry_boundary e"
proof -
  have "(i, entry_boundary e) \<in># image_mset (\<lambda>(i, e). (i, entry_boundary e)) (mset (entries s))"
    using map_of_SomeD [OF assms(2)] by force
  then have "(i, entry_boundary e) \<in># image_mset (\<lambda>(p, i). (i, length p)) (mset (stored s))"
    using assms(1) by (simp add: index_ok_def)
  then show ?thesis using that by auto
qed

lemma stored_ids: "index_ok s \<Longrightarrow> snd ` set (stored s) = fst ` set (entries s)"
proof -
  assume ok: "index_ok s"
  have "image_mset fst (image_mset (\<lambda>(p, i). (i, length p)) (mset (stored s))) =
      image_mset fst (image_mset (\<lambda>(i, e). (i, entry_boundary e)) (mset (entries s)))"
    using ok by (simp add: index_ok_def)
  then have "image_mset snd (mset (stored s)) = image_mset fst (mset (entries s))"
    by (simp add: multiset.map_comp comp_def case_prod_beta)
  then show ?thesis by (metis set_image_mset set_mset_mset)
qed

lemma root_has_no_checkpoint:
  assumes "index_ok s" and "(p, i) \<in> set (stored s)"
  shows "p \<noteq> []"
  using stored_entry [OF assms] by (auto simp: entry_ok_def)

section \<open>Insertion and removal\<close>

lemma index_new_ok: "index_new ident a m u n = (Ok s, n') \<Longrightarrow> index_ok s"
  by (auto simp: index_new_def try_op_eq outcome_simps index_ok_def stored_def path_list_Node)

lemma fresh_id:
  assumes "index_ok s"
  shows "CheckpointId (ix_index s) (Suc (ix_generation s)) \<notin> fst ` set (entries s)"
proof
  assume "CheckpointId (ix_index s) (Suc (ix_generation s)) \<in> fst ` set (entries s)"
  then obtain e where "(CheckpointId (ix_index s) (Suc (ix_generation s)), e) \<in> set (entries s)" by auto
  then show False using assms by (auto simp: index_ok_def entry_ok_def)
qed

lemma index_insert_Ok:
  assumes "index_insert ident ts h s = (Ok i, t)"
  obtains "i = CheckpointId (ix_index s) (Suc (ix_generation s))" "length ts < 2 ^ 32" "ts \<noteq> []"
    "length ts mod ix_alignment s = 0" "hist_tokens h = length ts" "length (entries s) < max_entries s"
    "token_units s + length ts \<le> max_token_units s" "compatible (ix_identity s) ident"
    "t = s\<lparr>ix_root := node_insert ts i (ix_root s),
           entries := bt_insert i \<lparr>entry_boundary = length ts, entry_history = h\<rparr> (entries s),
           ix_generation := Suc (ix_generation s), token_units := token_units s + length ts\<rparr>"
  using assms
  by (auto simp: index_insert_def try_op_eq outcome_simps checked_iffs Let_def not_le)

lemma index_insert_effect:
  assumes ok: "index_ok s" and run: "index_insert ident ts h s = (Ok i, t)"
  shows "index_ok t" "mset (stored t) = add_mset (ts, i) (mset (stored s))"
    "i \<notin> snd ` set (stored s)" "entries t = bt_insert i \<lparr>entry_boundary = length ts, entry_history = h\<rparr> (entries s)"
proof -
  from index_insert_Ok [OF run] have i: "i = CheckpointId (ix_index s) (Suc (ix_generation s))"
    and ts: "length ts < 2 ^ 32" "ts \<noteq> []" "length ts mod ix_alignment s = 0" "hist_tokens h = length ts"
    and lim: "length (entries s) < max_entries s" "token_units s + length ts \<le> max_token_units s"
    and t: "t = s\<lparr>ix_root := node_insert ts i (ix_root s),
           entries := bt_insert i \<lparr>entry_boundary = length ts, entry_history = h\<rparr> (entries s),
           ix_generation := Suc (ix_generation s), token_units := token_units s + length ts\<rparr>" by blast+
  let ?e = "\<lparr>entry_boundary = length ts, entry_history = h\<rparr>"
  have fresh: "i \<notin> fst ` set (entries s)" using fresh_id [OF ok] i by simp
  then show new: "i \<notin> snd ` set (stored s)" using stored_ids [OF ok] by simp
  show ent: "entries t = bt_insert i ?e (entries s)" by (simp add: t)
  have wf: "wf_node (ix_root s)" using ok by (simp add: index_ok_def)
  from node_insert_ok [OF wf, of i ts] new have ins: "insert_ok ts i (ix_root s) (ix_root t)"
    by (simp add: t stored_def)
  then show st: "mset (stored t) = add_mset (ts, i) (mset (stored s))"
    by (simp add: insert_ok_def stored_def)
  have me: "mset (entries t) = add_mset (i, ?e) (mset (entries s))"
    unfolding ent by (rule mset_bt_insert_fresh [OF fresh])
  then have sum: "sum_list (map entry_boundary (bt_values (entries t))) =
      length ts + sum_list (map entry_boundary (bt_values (entries s)))"
    by (simp flip: sum_mset_sum_list add: comp_def)
  have "\<forall>(j, e) \<in> set (entries t). entry_ok t j e"
  proof (clarify)
    fix j e assume "(j, e) \<in> set (entries t)"
    then have "(j, e) = (i, ?e) \<or> (j, e) \<in> set (entries s)" using ent in_set_bt_insert by metis
    moreover have "entry_ok t i ?e" using ts by (auto simp: entry_ok_def t i)
    moreover have "entry_ok t j e" if "(j, e) \<in> set (entries s)"
      using ok that by (fastforce simp: index_ok_def entry_ok_def t)
    ultimately show "entry_ok t j e" by blast
  qed
  then show "index_ok t"
    using ok ins st me sum lim length_bt_insert_fresh [OF fresh, of ?e]
    by (simp add: index_ok_def insert_ok_def t bt_wf_insert)
qed

lemma index_insert_error: "index_insert ident ts h s = (Err e, t) \<Longrightarrow> t = s"
  by (auto simp: index_insert_def try_op_eq Let_def)

lemma index_insert_no_panic: "index_insert ident ts h s \<noteq> (Panic, t)"
  by (auto simp: index_insert_def try_op_eq Let_def outcome_simps)

lemma index_remove_effect:
  assumes ok: "index_ok s" and run: "index_remove i s = (r, t)"
  shows "index_ok t \<and> r = Ok (i \<in> snd ` set (stored s)) \<and> stored t = filter (\<lambda>x. snd x \<noteq> i) (stored s) \<and>
      entries t = bt_remove i (entries s)"
proof (cases "map_of (entries s) i")
  case None
  then have absent: "i \<notin> snd ` set (stored s)" by (simp add: stored_ids [OF ok] map_of_eq_None_iff)
  then have "filter (\<lambda>x. snd x \<noteq> i) (stored s) = stored s" by (intro filter_True) force
  moreover have "bt_remove i (entries s) = entries s"
    using None by (simp add: bt_remove_absent map_of_eq_None_iff)
  ultimately show ?thesis
    using None ok run absent by (simp add: index_remove_def)
next
  case (Some e)
  have wf: "bt_wf (entries s)" using ok by (simp add: index_ok_def)
  have me: "mset (entries s) = add_mset (i, e) (mset (bt_remove i (entries s)))"
    using mset_bt_remove [OF bt_wf_distinct [OF wf] Some] .
  then have sum: "sum_list (map entry_boundary (bt_values (entries s))) =
      entry_boundary e + sum_list (map entry_boundary (bt_values (bt_remove i (entries s))))"
    by (simp flip: sum_mset_sum_list add: comp_def)
  then have fits: "entry_boundary e \<le> token_units s" using ok by (simp add: index_ok_def)
  have t: "r = Ok True" "t = s\<lparr>entries := bt_remove i (entries s), ix_root := node_remove i (ix_root s),
      token_units := token_units s - entry_boundary e\<rparr>"
    using run Some fits by (auto simp: index_remove_def Let_def)
  have st: "stored t = filter (\<lambda>x. snd x \<noteq> i) (stored s)" by (simp add: t stored_def path_list_remove)
  have "image_mset (\<lambda>(p, j). (j, length p)) (mset (stored t)) =
      filter_mset (\<lambda>x. fst x \<noteq> i) (image_mset (\<lambda>(p, j). (j, length p)) (mset (stored s)))"
    by (simp add: st filter_mset_image_mset case_prod_beta)
  also have "\<dots> = image_mset (\<lambda>(j, e). (j, entry_boundary e)) (mset (entries t))"
    using ok by (simp add: index_ok_def t bt_remove_def filter_mset_image_mset case_prod_beta)
  finally have "image_mset (\<lambda>(p, j). (j, length p)) (mset (stored t)) =
      image_mset (\<lambda>(j, e). (j, entry_boundary e)) (mset (entries t))" .
  moreover have "\<forall>(j, e) \<in> set (entries t). entry_ok t j e"
    using ok set_bt_remove_subset [of i "entries s"] by (force simp: t index_ok_def entry_ok_def)
  moreover have "length (entries t) \<le> length (entries s)" by (simp add: t bt_remove_def)
  ultimately have "index_ok t"
    using ok sum node_remove_wf [of "ix_root s" i] wf
    by (simp add: index_ok_def t bt_wf_remove)
  moreover have "i \<in> snd ` set (stored s)"
    using Some by (force simp: stored_ids [OF ok] dest: map_of_SomeD)
  ultimately show ?thesis
    using st t by simp
qed

lemma index_step_ok: "index_ok s \<Longrightarrow> index_ok (index_step c s)"
proof (cases c)
  case (IndexInsert ident ts h)
  assume ok: "index_ok s"
  obtain r t where run: "index_insert ident ts h s = (r, t)" by fastforce
  then show ?thesis
    using ok IndexInsert index_insert_error [of ident ts h s] index_insert_no_panic [of ident ts h s]
    by (cases r) (auto dest: index_insert_effect(1) [OF ok])
next
  case (IndexRemove i)
  assume ok: "index_ok s"
  obtain r t where "index_remove i s = (r, t)" by fastforce
  then show ?thesis using IndexRemove index_remove_effect [OF ok] by auto
qed

interpretation prefix_index_machine: op_machine index_step index_ok
  by unfold_locales (rule index_step_ok)

definition reachable_index :: "prefix_index \<Rightarrow> bool" where
  "reachable_index s \<longleftrightarrow>
     (\<exists>ident a m u n s0 n' cs. index_new ident a m u n = (Ok s0, n') \<and> s = fold index_step cs s0)"

lemma reachable_index_ok: "reachable_index s \<Longrightarrow> index_ok s"
  unfolding reachable_index_def using prefix_index_machine.run_inv index_new_ok by blast

section \<open>Lookup\<close>

lemma common_len_append:
  "common_len (e @ q) us =
     (if common_len e us < length e then common_len e us else length e + common_len q (drop (length e) us))"
proof (induction e arbitrary: us)
  case Nil
  then show ?case by (simp add: common_len_def)
next
  case (Cons x e)
  then show ?case by (cases us) (auto simp: common_len_def)
qed

lemma common_len_full: "common_len e us = length e \<longleftrightarrow> take (length e) us = e"
proof (induction e arbitrary: us)
  case Nil
  then show ?case by (simp add: common_len_def)
next
  case (Cons x e)
  then show ?case by (cases us) (auto simp: common_len_def)
qed

lemma prefix_append:
  "take (length (e @ q)) us = e @ q \<longleftrightarrow>
     common_len e us = length e \<and> take (length q) (drop (length e) us) = q"
proof (induction e arbitrary: us)
  case Nil
  then show ?case by (simp add: common_len_def)
next
  case (Cons x e)
  then show ?case by (cases us) (auto simp: common_len_def)
qed

lemma common_len_other: "p \<noteq> [] \<Longrightarrow> us = [] \<or> hd p \<noteq> hd us \<Longrightarrow> common_len p us = 0"
  by (cases p; cases us) (auto simp: common_len_def)

lemma prefix_other: "p \<noteq> [] \<Longrightarrow> us = [] \<or> hd p \<noteq> hd us \<Longrightarrow> take (length p) us \<noteq> p"
  by (cases p; cases us) auto

text \<open>A checkpoint that may be restored.\<close>

definition eligible :: "(checkpoint_id, entry) btmap \<Rightarrow> history \<Rightarrow> nat \<Rightarrow> checkpoint_id \<Rightarrow> bool" where
  "eligible es h mr i \<longleftrightarrow>
     (\<exists>e. map_of es i = Some e \<and> entry_boundary e \<le> mr \<and> same_prefix (entry_history e) h (entry_boundary e))"

definition best_of :: "(nat \<times> checkpoint_id) set \<Rightarrow> (checkpoint_id \<times> nat) option \<Rightarrow> (checkpoint_id \<times> nat) option \<Rightarrow> bool" where
  "best_of hits old new \<longleftrightarrow>
     (if hits = {} then new = old
      else \<exists>i b. new = Some (i, b) \<and> (b, i) \<in> hits \<and> (\<forall>(b', i') \<in> hits. b' < b \<or> b' = b \<and> i' \<le> i))"

lemma best_of_later:
  assumes "best_of A old mid" and "best_of B mid new" and "\<And>a b i j. (a, i) \<in> A \<Longrightarrow> (b, j) \<in> B \<Longrightarrow> a < b"
  shows "best_of (A \<union> B) old new"
proof (cases "B = {}")
  case True
  then show ?thesis using assms by (simp add: best_of_def)
next
  case False
  then obtain i b where b: "new = Some (i, b)" "(b, i) \<in> B" "\<forall>(b', i') \<in> B. b' < b \<or> b' = b \<and> i' \<le> i"
    using assms(2) by (auto simp: best_of_def)
  have "\<forall>(b', i') \<in> A \<union> B. b' < b \<or> b' = b \<and> i' \<le> i" using b assms(3) by blast
  then show ?thesis using b by (auto simp: best_of_def)
qed

lemma scan_result:
  assumes "\<forall>i \<in> set cps. \<exists>e. map_of es i = Some e \<and> entry_boundary e = b" and "bs_wf cps"
  shows "\<exists>c. scan_checkpoints es h mr cps r = Ok (r\<lparr>match_checkpoint := c\<rparr>) \<and>
           best_of (Pair b ` {i \<in> set cps. eligible es h mr i}) (match_checkpoint r) c"
  using assms
proof (induction cps arbitrary: r)
  case Nil
  show ?case by (rule exI [of _ "match_checkpoint r"]) (simp add: scan_checkpoints_def best_of_def)
next
  case (Cons i cps)
  from Cons.prems(1) obtain e where e: "map_of es i = Some e" "entry_boundary e = b" by auto
  let ?r = "if entry_boundary e \<le> mr \<and> same_prefix (entry_history e) h (entry_boundary e)
      then r\<lparr>match_checkpoint := Some (i, entry_boundary e)\<rparr> else r"
  have el: "eligible es h mr i \<longleftrightarrow> entry_boundary e \<le> mr \<and> same_prefix (entry_history e) h (entry_boundary e)"
    using e by (simp add: eligible_def)
  obtain c where c: "scan_checkpoints es h mr cps ?r = Ok (?r\<lparr>match_checkpoint := c\<rparr>)"
    "best_of (Pair b ` {i \<in> set cps. eligible es h mr i}) (match_checkpoint ?r) c"
    using Cons.IH [of ?r] Cons.prems by (auto simp: bs_wf_def)
  have run: "scan_checkpoints es h mr (i # cps) r = Ok (r\<lparr>match_checkpoint := c\<rparr>)"
    using c(1) e(1) by (simp add: scan_checkpoints_def split: if_splits)
  have less: "\<forall>j \<in> set cps. i < j" using Cons.prems(2) by (simp add: bs_wf_def)
  have "best_of (Pair b ` {j \<in> set (i # cps). eligible es h mr j}) (match_checkpoint r) c"
  proof (cases "eligible es h mr i")
    case False
    then have "{j \<in> set (i # cps). eligible es h mr j} = {j \<in> set cps. eligible es h mr j}" by auto
    moreover have "?r = r" using False el by auto
    ultimately show ?thesis using c(2) by (simp only:)
  next
    case True
    then have set: "{j \<in> set (i # cps). eligible es h mr j} = insert i {j \<in> set cps. eligible es h mr j}" by auto
    show ?thesis
    proof (cases "{j \<in> set cps. eligible es h mr j} = {}")
      case True
      then have "c = Some (i, b)" using c(2) \<open>eligible es h mr i\<close> el e by (simp add: best_of_def)
      then show ?thesis unfolding set using True by (auto simp: best_of_def)
    next
      case False
      then obtain j b' where "c = Some (j, b')" "(b', j) \<in> Pair b ` {j \<in> set cps. eligible es h mr j}"
        "\<forall>(a, k) \<in> Pair b ` {j \<in> set cps. eligible es h mr j}. a < b' \<or> a = b' \<and> k \<le> j"
        using c(2) unfolding best_of_def image_is_empty by meson
      then have j: "c = Some (j, b)" "j \<in> set cps" "eligible es h mr j"
        "\<forall>k \<in> set cps. eligible es h mr k \<longrightarrow> k \<le> j" by auto
      then show ?thesis unfolding set using less by (auto simp: best_of_def intro: less_imp_le)
    qed
  qed
  then show ?case using run by blast
qed

text \<open>The eligible checkpoints below a node whose tokens the query continues with, and the
  deepest match of the node's paths.\<close>

definition hits :: "(checkpoint_id, entry) btmap \<Rightarrow> history \<Rightarrow> nat \<Rightarrow> nat \<Rightarrow> nat list \<Rightarrow>
    (nat list \<times> checkpoint_id) set \<Rightarrow> (nat \<times> checkpoint_id) set" where
  "hits es h mr offset us ps =
     {(offset + length p, i) | p i. (p, i) \<in> ps \<and> p \<noteq> [] \<and> take (length p) us = p \<and> eligible es h mr i}"

definition deepest :: "nat \<Rightarrow> nat list \<Rightarrow> (nat list \<times> checkpoint_id) set \<Rightarrow> nat \<Rightarrow> bool" where
  "deepest offset us ps m \<longleftrightarrow>
     (\<forall>(p, i) \<in> ps. offset + common_len p us \<le> m) \<and>
     (m = offset \<or> (\<exists>(p, i) \<in> ps. m = offset + common_len p us))"

lemma deepest_restrict:
  assumes "deepest offset us Q m" and "Q \<subseteq> P" and "\<And>p i. (p, i) \<in> P - Q \<Longrightarrow> common_len p us = 0"
  shows "deepest offset us P m"
proof -
  have "offset \<le> m" using assms(1) by (auto simp: deepest_def)
  then have "offset + common_len p us \<le> m" if "(p, i) \<in> P" for p i
    using that assms(1,3) by (cases "(p, i) \<in> Q") (auto simp: deepest_def)
  moreover have "m = offset \<or> (\<exists>(p, i) \<in> P. m = offset + common_len p us)"
    using assms(1,2) unfolding deepest_def by blast
  ultimately show ?thesis unfolding deepest_def by blast
qed

lemma hits_restrict:
  assumes "Q \<subseteq> P" and "\<And>p i. (p, i) \<in> P - Q \<Longrightarrow> p = [] \<or> take (length p) us \<noteq> p"
  shows "hits es h mr offset us P = hits es h mr offset us Q"
  using assms unfolding hits_def by blast

lemma in_child_paths:
  "(p, i) \<in> set (child_paths x) \<longleftrightarrow> (\<exists>q. p = edge (snd x) @ q \<and> (q, i) \<in> set (path_list (snd x)))"
  by (auto simp: child_paths_def)

lemma c_children_nonempty: "wf_node n \<Longrightarrow> x \<in> set (children n) \<Longrightarrow> (p, i) \<in> set (child_paths x) \<Longrightarrow> p \<noteq> []"
  by (subst (asm) wf_node_iff) (auto simp: in_child_paths)

lemma deepest_child:
  assumes full: "common_len (edge c) us = length (edge c)" and q0: "(q0, i0) \<in> set (path_list c)"
    and deep: "deepest (offset + length (edge c)) (drop (length (edge c)) us) (set (path_list c)) m"
  shows "deepest offset us (set (child_paths (t, c))) m"
proof -
  let ?us = "drop (length (edge c)) us"
  have cl: "common_len (edge c @ q) us = length (edge c) + common_len q ?us" for q
    using full by (simp add: common_len_append)
  have le: "offset + length (edge c) + common_len q ?us \<le> m" if "(q, i) \<in> set (path_list c)" for q i
    using deep that unfolding deepest_def by blast
  have "offset + common_len p us \<le> m" if pi: "(p, i) \<in> set (child_paths (t, c))" for p i
  proof -
    obtain q where "p = edge c @ q" "(q, i) \<in> set (path_list c)" using pi by (auto simp: in_child_paths)
    then show ?thesis using le [of q i] by (simp add: cl)
  qed
  moreover have "\<exists>(p, i) \<in> set (child_paths (t, c)). m = offset + common_len p us"
  proof -
    obtain q i where qi: "(q, i) \<in> set (path_list c)" "m = offset + length (edge c) + common_len q ?us"
    proof (cases "m = offset + length (edge c)")
      case True
      then show ?thesis using le [OF q0] q0 that by simp
    next
      case False
      then show ?thesis using deep that unfolding deepest_def by blast
    qed
    have "(edge c @ q, i) \<in> set (child_paths (t, c))" using qi(1) by (simp add: in_child_paths)
    moreover have "m = offset + common_len (edge c @ q) us" using qi(2) by (simp add: cl)
    ultimately show ?thesis by blast
  qed
  ultimately show ?thesis unfolding deepest_def by blast
qed

lemma own_paths: "wf_node n \<Longrightarrow> ([], i) \<in> set (path_list n) \<longleftrightarrow> i \<in> set (checkpoints n)"
  using c_children_nonempty [of n _ "[]" i] by (subst path_list_eq) fastforce

lemma hits_child:
  assumes full: "common_len (edge c) us = length (edge c)" and ne: "edge c \<noteq> []" and wf: "wf_node c"
  shows "hits es h mr offset us (set (child_paths (t, c))) =
    Pair (offset + length (edge c)) ` {i \<in> set (checkpoints c). eligible es h mr i} \<union>
    hits es h mr (offset + length (edge c)) (drop (length (edge c)) us) (set (path_list c))" (is "?L = ?A \<union> ?B")
proof -
  let ?us = "drop (length (edge c)) us"
  have pre: "take (length (edge c @ q)) us = edge c @ q \<longleftrightarrow> take (length q) ?us = q" for q
    using full by (simp add: prefix_append del: length_append)
  have "(b, i) \<in> ?L \<longleftrightarrow> (\<exists>q. b = offset + length (edge c @ q) \<and> (q, i) \<in> set (path_list c) \<and>
      take (length q) ?us = q \<and> eligible es h mr i)" for b i
    unfolding hits_def using pre ne by (auto simp: in_child_paths simp del: length_append)
  moreover have "(\<exists>q. b = offset + length (edge c @ q) \<and> (q, i) \<in> set (path_list c) \<and>
      take (length q) ?us = q \<and> eligible es h mr i) \<longleftrightarrow> (b, i) \<in> ?A \<union> ?B" for b i
  proof
    assume "\<exists>q. b = offset + length (edge c @ q) \<and> (q, i) \<in> set (path_list c) \<and>
      take (length q) ?us = q \<and> eligible es h mr i"
    then obtain q where q: "b = offset + length (edge c) + length q" "(q, i) \<in> set (path_list c)"
      "take (length q) ?us = q" "eligible es h mr i" by auto
    then show "(b, i) \<in> ?A \<union> ?B"
      using own_paths [OF wf, of i] by (cases "q = []") (auto simp: hits_def)
  next
    assume "(b, i) \<in> ?A \<union> ?B"
    then consider "(b, i) \<in> ?A" | "(b, i) \<in> ?B" by blast
    then show "\<exists>q. b = offset + length (edge c @ q) \<and> (q, i) \<in> set (path_list c) \<and>
      take (length q) ?us = q \<and> eligible es h mr i"
    proof cases
      case 1
      then show ?thesis using own_paths [OF wf, of i] by (intro exI [of _ "[]"]) auto
    next
      case 2
      then show ?thesis by (auto simp: hits_def add.assoc)
    qed
  qed
  ultimately show ?thesis by (auto simp only: set_eq_iff)
qed

lemma hits_later: "(a, i) \<in> Pair offset ` X \<Longrightarrow> (b, j) \<in> hits es h mr offset us P \<Longrightarrow> a < b"
  by (auto simp: hits_def)

lemma walk_spec:
  assumes "wf_node n"
    and "\<And>p i. (p, i) \<in> set (path_list n) \<Longrightarrow>
           \<exists>e. map_of es i = Some e \<and> entry_boundary e = offset + length p \<and> offset + length p < 2 ^ 32"
    and "matched_tokens r = offset"
  shows "\<exists>r'. lookup_walk es ts h mr n offset r = Ok r' \<and>
           deepest offset (drop offset ts) (set (path_list n)) (matched_tokens r') \<and>
           best_of (hits es h mr offset (drop offset ts) (set (path_list n))) (match_checkpoint r) (match_checkpoint r')"
  using assms
proof (induction n arbitrary: offset r rule: wf_node.induct)
  case (1 e cps cs)
  let ?us = "drop offset ts"
  let ?P = "set (path_list (Node e cps cs))"
  have P: "?P = Pair [] ` set cps \<union> (\<Union>x \<in> set cs. set (child_paths x))" by (simp add: path_list_Node)
  have hd_path: "p \<noteq> [] \<and> hd p = fst x" if "x \<in> set cs" "(p, i) \<in> set (child_paths x)" for x p i
    using that "1.prems"(1) by (auto simp: in_child_paths)
  have dist: "distinct (bt_keys cs)" using "1.prems"(1) by (simp add: bt_wf_distinct)
  show ?case
  proof (cases "?us = [] \<or> map_of cs (hd ?us) = None")
    case True
    have other: "p = [] \<or> ?us = [] \<or> hd p \<noteq> hd ?us" if pi: "(p, i) \<in> ?P" for p i
    proof (cases "p = []")
      case False
      then obtain x where x: "x \<in> set cs" "(p, i) \<in> set (child_paths x)" using pi P by auto
      then have "hd p \<in> fst ` set cs" using hd_path [OF x] by simp
      then show ?thesis using True by (metis map_of_eq_None_iff)
    qed simp
    have "common_len p ?us = 0" if "(p, i) \<in> ?P" for p i
      using other [OF that] common_len_other by (cases "p = []") (auto simp: common_len_def)
    then have "deepest offset ?us ?P offset" by (fastforce simp: deepest_def)
    moreover have "p = [] \<or> take (length p) ?us \<noteq> p" if "(p, i) \<in> ?P" for p i
      using other [OF that] prefix_other [of p ?us] by blast
    then have "hits es h mr offset ?us ?P = {}"
      using hits_restrict [of "{}" ?P ?us] by (simp add: hits_def)
    moreover have "lookup_walk es ts h mr (Node e cps cs) offset r = Ok r"
      using True by (auto simp: get_at_def hd_drop_conv_nth split: option.splits)
    ultimately show ?thesis using "1.prems"(3) by (auto simp: best_of_def)
  next
    case False
    then obtain c where c: "map_of cs (hd ?us) = Some c" and us: "?us \<noteq> []" by auto
    let ?t = "hd ?us" let ?Q = "set (child_paths (?t, c))"
    have get: "get_at ts offset = Some ?t" using us by (simp add: get_at_def hd_drop_conv_nth)
    have in_cs: "(?t, c) \<in> set cs" using c by (rule map_of_SomeD)
    then have wc: "edge c \<noteq> []" "fit_node c" "wf_node c" using "1.prems"(1) by force+
    have sub: "?Q \<subseteq> ?P" using in_cs P by auto
    have rest: "p = [] \<or> hd p \<noteq> ?t" if pq: "(p, i) \<in> ?P - ?Q" for p i
    proof (cases "p = []")
      case False
      then obtain x where x: "x \<in> set cs" "(p, i) \<in> set (child_paths x)" using pq P by auto
      then have "x \<noteq> (?t, c)" using pq by auto
      then have "fst x \<noteq> ?t" using x(1) in_cs dist by (metis eq_key_imp_eq_value prod.collapse)
      then show ?thesis using hd_path [OF x] by simp
    qed simp
    have zero: "common_len p ?us = 0" if "(p, i) \<in> ?P - ?Q" for p i
      using rest [OF that] common_len_other by (cases "p = []") (auto simp: common_len_def)
    have noprefix: "p = [] \<or> take (length p) ?us \<noteq> p" if "(p, i) \<in> ?P - ?Q" for p i
      using rest [OF that] prefix_other [of p ?us] by blast
    have hits_eq: "hits es h mr offset ?us ?P = hits es h mr offset ?us ?Q"
      by (rule hits_restrict [OF sub]) (rule noprefix)
    obtain q0 i0 where q0: "(q0, i0) \<in> set (path_list c)"
      using fit_node_paths [OF wc(3,2)] by (metis list.set_intros(1) neq_Nil_conv surj_pair)
    have entry_c: "\<exists>e. map_of es i = Some e \<and> entry_boundary e = (offset + length (edge c)) + length q \<and>
        (offset + length (edge c)) + length q < 2 ^ 32" if "(q, i) \<in> set (path_list c)" for q i
    proof -
      have "(edge c @ q, i) \<in> ?P" using that sub by (auto simp: in_child_paths)
      then show ?thesis using "1.prems"(2) [of "edge c @ q" i] by (simp add: add.assoc)
    qed
    let ?k = "common_len (edge c) ?us"
    have small: "offset + ?k < 2 ^ 32"
      using entry_c [OF q0] common_len_le(1) [of "edge c" ?us] by auto
    let ?r1 = "r\<lparr>matched_tokens := offset + ?k\<rparr>"
    show ?thesis
    proof (cases "?k = length (edge c)")
      case False
      then have k: "?k < length (edge c)" using common_len_le(1) [of "edge c" ?us] by simp
      have "common_len p ?us = ?k" if "(p, i) \<in> ?Q" for p i
        using that k by (auto simp: in_child_paths common_len_append)
      moreover have "(edge c @ q0, i0) \<in> ?Q" using q0 by (simp add: in_child_paths)
      ultimately have "deepest offset ?us ?Q (offset + ?k)" unfolding deepest_def by fastforce
      then have "deepest offset ?us ?P (offset + ?k)" by (rule deepest_restrict [OF _ sub zero])
      moreover have "hits es h mr offset ?us ?P = {}"
        unfolding hits_eq using False by (auto simp: hits_def in_child_paths prefix_append simp del: length_append)
      moreover have "lookup_walk es ts h mr (Node e cps cs) offset r = Ok ?r1"
        using get c False small by (simp add: Let_def)
      ultimately show ?thesis by (auto simp: best_of_def)
    next
      case True
      let ?off = "offset + length (edge c)"
      have us': "drop (length (edge c)) ?us = drop ?off ts" by (simp add: add.commute)
      have "\<forall>i \<in> set (checkpoints c). \<exists>e. map_of es i = Some e \<and> entry_boundary e = ?off"
        using entry_c [of "[]"] by (auto simp: path_list_eq)
      moreover have "bs_wf (checkpoints c)" using wc(3) by (cases c) simp
      ultimately obtain cp where cp: "scan_checkpoints es h mr (checkpoints c) ?r1 = Ok (?r1\<lparr>match_checkpoint := cp\<rparr>)"
        "best_of (Pair ?off ` {i \<in> set (checkpoints c). eligible es h mr i}) (match_checkpoint r) cp"
        using scan_result [of "checkpoints c" es ?off h mr ?r1] by auto
      from "1.IH" [OF in_cs, of ?off "?r1\<lparr>match_checkpoint := cp\<rparr>"] entry_c wc(3) True
      obtain r' where r': "lookup_walk es ts h mr c ?off (?r1\<lparr>match_checkpoint := cp\<rparr>) = Ok r'"
        "deepest ?off (drop ?off ts) (set (path_list c)) (matched_tokens r')"
        "best_of (hits es h mr ?off (drop ?off ts) (set (path_list c))) cp (match_checkpoint r')" by auto
      have run: "lookup_walk es ts h mr (Node e cps cs) offset r = Ok r'"
        using get c True small cp(1) r'(1) by (simp add: Let_def)
      have "deepest offset ?us ?Q (matched_tokens r')"
        using deepest_child [OF True q0, of offset] r'(2) us' by simp
      then have deep: "deepest offset ?us ?P (matched_tokens r')" by (rule deepest_restrict [OF _ sub zero])
      have "hits es h mr offset ?us ?Q = Pair ?off ` {i \<in> set (checkpoints c). eligible es h mr i} \<union>
          hits es h mr ?off (drop ?off ts) (set (path_list c))"
        using hits_child [OF True wc(1,3), of es h mr offset] us' by simp
      then have "best_of (hits es h mr offset ?us ?P) (match_checkpoint r) (match_checkpoint r')"
        unfolding hits_eq using best_of_later [OF cp(2) r'(3) hits_later] by simp
      then show ?thesis using run deep by blast
    qed
  qed
qed

section \<open>Properties\<close>

text \<open>C13. Updates of the radix tree are updates of a set of prefixes: in every reachable state an
  accepted insertion adds exactly the pair of its tokens and a checkpoint id that was never in use,
  a rejected insertion changes nothing, and a removal deletes exactly the pair of its id and says
  whether there was one. Neither ever panics, however edges are split and merged.\<close>

theorem index_updates_refine_set:
  assumes "reachable_index s"
  shows "(case index_insert ident ts h s of
      (Ok i, t) \<Rightarrow> set (stored t) = insert (ts, i) (set (stored s)) \<and> i \<notin> snd ` set (stored s)
    | (Err e, t) \<Rightarrow> t = s
    | (Panic, t) \<Rightarrow> False) \<and>
   (case index_remove j s of
      (r, t) \<Rightarrow> r = Ok (j \<in> snd ` set (stored s)) \<and> set (stored t) = {x \<in> set (stored s). snd x \<noteq> j})"
proof -
  note ok = reachable_index_ok [OF assms]
  have "case index_insert ident ts h s of
      (Ok i, t) \<Rightarrow> set (stored t) = insert (ts, i) (set (stored s)) \<and> i \<notin> snd ` set (stored s)
    | (Err e, t) \<Rightarrow> t = s
    | (Panic, t) \<Rightarrow> False"
  proof (cases "index_insert ident ts h s")
    case (Pair r t)
    show ?thesis
    proof (cases r)
      case (Ok i)
      with Pair have run: "index_insert ident ts h s = (Ok i, t)" by simp
      have "set_mset (mset (stored t)) = set_mset (add_mset (ts, i) (mset (stored s)))"
        using index_insert_effect(2) [OF ok run] by simp
      then show ?thesis using index_insert_effect(3) [OF ok run] run by simp
    next
      case (Err e)
      then show ?thesis using Pair index_insert_error [of ident ts h s e t] by simp
    next
      case Panic
      then show ?thesis using Pair index_insert_no_panic by blast
    qed
  qed
  moreover have "case index_remove j s of
      (r, t) \<Rightarrow> r = Ok (j \<in> snd ` set (stored s)) \<and> set (stored t) = {x \<in> set (stored s). snd x \<noteq> j}"
    using index_remove_effect [OF ok] by (auto split: prod.split)
  ultimately show ?thesis ..
qed

text \<open>Lookup is correct and never panics: in every reachable state it reports the length of the
  longest common prefix of the query with any stored token sequence, and the checkpoint it returns
  is a stored prefix of the query whose boundary and arithmetic history allow the restore, the
  longest such one and the newest among equals; it returns none only when there is none. A query
  with an incompatible identity matches nothing.\<close>

theorem index_lookup_correct:
  assumes "reachable_index s"
  shows "\<exists>m. index_lookup s ident ts h mr = Ok m \<and>
    (if compatible (ix_identity s) ident then
       (\<forall>(p, i) \<in> set (stored s). common_len p ts \<le> matched_tokens m) \<and>
       (matched_tokens m = 0 \<or> (\<exists>(p, i) \<in> set (stored s). matched_tokens m = common_len p ts)) \<and>
       (case match_checkpoint m of
          None \<Rightarrow> \<not> (\<exists>(p, i) \<in> set (stored s). take (length p) ts = p \<and> eligible (entries s) h mr i)
        | Some (i, b) \<Rightarrow>
            (take b ts, i) \<in> set (stored s) \<and> b \<le> length ts \<and> eligible (entries s) h mr i \<and>
            (\<forall>(p, j) \<in> set (stored s). take (length p) ts = p \<and> eligible (entries s) h mr j \<longrightarrow>
               length p < b \<or> length p = b \<and> j \<le> i))
     else m = \<lparr>matched_tokens = 0, match_checkpoint = None\<rparr>)"
proof (cases "compatible (ix_identity s) ident")
  case False
  then show ?thesis by (simp add: index_lookup_def)
next
  case True
  note ok = reachable_index_ok [OF assms]
  let ?r = "\<lparr>matched_tokens = 0, match_checkpoint = None\<rparr>"
  let ?H = "hits (entries s) h mr 0 ts (set (stored s))"
  have wf: "wf_node (ix_root s)" using ok by (simp add: index_ok_def)
  have "\<exists>e. map_of (entries s) i = Some e \<and> entry_boundary e = 0 + length p \<and> 0 + length p < 2 ^ 32"
    if pi: "(p, i) \<in> set (path_list (ix_root s))" for p i
  proof -
    from pi have "(p, i) \<in> set (stored s)" by (simp add: stored_def)
    from stored_entry [OF ok this] obtain e where
      "map_of (entries s) i = Some e" "entry_boundary e = length p" "entry_ok s i e" .
    then show ?thesis by (simp add: entry_ok_def)
  qed
  from walk_spec [OF wf this, of ?r ts h mr] obtain m where
    run: "lookup_walk (entries s) ts h mr (ix_root s) 0 ?r = Ok m"
    and deep: "deepest 0 ts (set (stored s)) (matched_tokens m)"
    and best: "best_of ?H None (match_checkpoint m)"
    by (auto simp: stored_def)
  have H: "(b, i) \<in> ?H \<longleftrightarrow> (take b ts, i) \<in> set (stored s) \<and> b \<le> length ts \<and> eligible (entries s) h mr i" for b i
  proof
    assume "(b, i) \<in> ?H"
    then obtain p where p: "b = length p" "(p, i) \<in> set (stored s)" "take (length p) ts = p" "eligible (entries s) h mr i"
      by (auto simp: hits_def)
    then have "length p \<le> length ts" by (metis length_take min.cobounded1)
    then show "(take b ts, i) \<in> set (stored s) \<and> b \<le> length ts \<and> eligible (entries s) h mr i" using p by simp
  next
    assume a: "(take b ts, i) \<in> set (stored s) \<and> b \<le> length ts \<and> eligible (entries s) h mr i"
    then have "take b ts \<noteq> []" using root_has_no_checkpoint [OF ok] by blast
    then show "(b, i) \<in> ?H" using a by (auto simp: hits_def intro!: exI [of _ "take b ts"])
  qed
  have pre: "(length p, i) \<in> ?H" if "(p, i) \<in> set (stored s)" "take (length p) ts = p" "eligible (entries s) h mr i" for p i
    using that root_has_no_checkpoint [OF ok that(1)] by (auto simp: hits_def)
  have chosen: "case match_checkpoint m of
      None \<Rightarrow> \<not> (\<exists>(p, i) \<in> set (stored s). take (length p) ts = p \<and> eligible (entries s) h mr i)
    | Some (i, b) \<Rightarrow>
        (take b ts, i) \<in> set (stored s) \<and> b \<le> length ts \<and> eligible (entries s) h mr i \<and>
        (\<forall>(p, j) \<in> set (stored s). take (length p) ts = p \<and> eligible (entries s) h mr j \<longrightarrow>
           length p < b \<or> length p = b \<and> j \<le> i)"
  proof (cases "?H = {}")
    case True
    then show ?thesis using best pre by (auto simp: best_of_def)
  next
    case False
    from best have "\<exists>i b. match_checkpoint m = Some (i, b) \<and> (b, i) \<in> ?H \<and> (\<forall>(b', i') \<in> ?H. b' < b \<or> b' = b \<and> i' \<le> i)"
      unfolding best_of_def by (simp only: False if_False)
    then obtain i b where ib: "match_checkpoint m = Some (i, b)" "(b, i) \<in> ?H"
      "\<forall>(b', i') \<in> ?H. b' < b \<or> b' = b \<and> i' \<le> i" by blast
    have "length p < b \<or> length p = b \<and> j \<le> i"
      if "(p, j) \<in> set (stored s)" "take (length p) ts = p" "eligible (entries s) h mr j" for p j
      using ib(3) pre [OF that] by blast
    then show ?thesis using H [of b i] ib(1,2) by auto
  qed
  have found: "index_lookup s ident ts h mr = Ok m" using True run by (simp add: index_lookup_def)
  have "(\<forall>(p, i) \<in> set (stored s). common_len p ts \<le> matched_tokens m) \<and>
      (matched_tokens m = 0 \<or> (\<exists>(p, i) \<in> set (stored s). matched_tokens m = common_len p ts))"
    using deep by (simp add: deepest_def)
  with found chosen show ?thesis unfolding if_P [OF True] by blast
qed

text \<open>The index stays within its metadata budget: in every reachable state the tokens stored on
  the edges of the tree are at most \<open>token_units\<close>, the sum of the published prefix lengths, which is
  at most the configured bound, and the number of entries is bounded too.\<close>

theorem index_bounded:
  assumes "reachable_index s"
  shows "edge_tokens (ix_root s) \<le> token_units s \<and> token_units s \<le> max_token_units s \<and>
         token_units s = sum_list (map entry_boundary (bt_values (entries s))) \<and> index_len s \<le> max_entries s"
proof -
  note ok = reachable_index_ok [OF assms]
  have "image_mset snd (image_mset (\<lambda>(p, i). (i, length p)) (mset (stored s))) =
      image_mset snd (image_mset (\<lambda>(i, e). (i, entry_boundary e)) (mset (entries s)))"
    using ok by (simp add: index_ok_def)
  then have "image_mset (\<lambda>x. length (fst x)) (mset (stored s)) = image_mset (\<lambda>x. entry_boundary (snd x)) (mset (entries s))"
    by (simp add: multiset.map_comp comp_def case_prod_beta)
  then have "sum_mset (image_mset (\<lambda>x. length (fst x)) (mset (stored s))) =
      sum_mset (image_mset (\<lambda>x. entry_boundary (snd x)) (mset (entries s)))"
    by (rule arg_cong)
  then have "sum_list (map (\<lambda>x. length (fst x)) (stored s)) = sum_list (map entry_boundary (bt_values (entries s)))"
    by (simp add: comp_def flip: sum_mset_sum_list)
  moreover have "edge_tokens (ix_root s) \<le> sum_list (map (\<lambda>x. length (fst x)) (stored s))"
    using edge_tokens_bound [of "ix_root s"] ok by (simp add: index_ok_def stored_def)
  ultimately show ?thesis using ok by (simp add: index_ok_def index_len_def)
qed

section \<open>A concrete index\<close>

definition example_prefix_identity :: prefix_identity where
  "example_prefix_identity =
     \<lparr>engine = man_identity example_manifest, pid_numerical_class = ''bf16'',
      tokenizer_template_sha256 = replicate 64 CHR ''c'', tenant_namespace = ''tenant'', adapter_sha256 = None\<rparr>"

definition example_index :: prefix_index where
  "example_index =
     \<lparr>ix_identity = example_prefix_identity, ix_index = 1, ix_generation = 0, ix_alignment = 2, max_entries = 4,
      max_token_units = 100, token_units = 0, ix_root = Node [] [] [], entries = []\<rparr>"

lemma example_compatible: "compatible example_prefix_identity example_prefix_identity"
  by (simp add: compatible_def example_prefix_identity_def example_manifest_def is_hash_replicate is_lower_hex_def)

lemma example_index_reachable: "reachable_index (fold index_step cs example_index)"
proof -
  have "index_new example_prefix_identity 2 4 100 1 = (Ok example_index, 2)"
    using example_compatible by (simp add: index_new_def reject_def checked_add_def example_index_def)
  then show ?thesis unfolding reachable_index_def by blast
qed

definition example_history :: "nat \<Rightarrow> history" where
  "example_history n = \<lparr>hist_version = 1, hist_spans =
     [\<lparr>span_start = 0, span_end = n, span_query = 1, span_class = ''bf16''\<rparr>]\<rparr>"

definition example_indexed :: prefix_index where
  "example_indexed = fold index_step
     [IndexInsert example_prefix_identity [1, 2, 3, 4] (example_history 4),
      IndexInsert example_prefix_identity [1, 2] (example_history 2)] example_index"

lemma example_indexed_eq:
  "example_indexed = example_index\<lparr>ix_generation := 2, token_units := 6,
     ix_root := Node [] [] [(1, Node [1, 2] [CheckpointId 1 2] [(3, Node [3, 4] [CheckpointId 1 1] [])])],
     entries := [(CheckpointId 1 1, \<lparr>entry_boundary = 4, entry_history = example_history 4\<rparr>),
                 (CheckpointId 1 2, \<lparr>entry_boundary = 2, entry_history = example_history 2\<rparr>)]\<rparr>"
  using example_compatible
  by (simp add: example_indexed_def example_index_def index_insert_def try_narrow_def checked_add_def reject_def
      example_history_def hist_tokens_def common_len_def Let_def bt_adjust_def less_checkpoint_id_def)

theorem index_updates_refine_set_witness:
  "\<exists>r t. index_remove (CheckpointId 1 2) example_indexed = (r, t) \<and> r = Ok True \<and>
     set (stored t) = {([1, 2, 3, 4], CheckpointId 1 1)}"
proof -
  have r: "reachable_index example_indexed" unfolding example_indexed_def by (rule example_index_reachable)
  have st: "stored example_indexed = [([1, 2], CheckpointId 1 2), ([1, 2, 3, 4], CheckpointId 1 1)]"
    by (simp add: example_indexed_eq stored_def path_list.simps)
  obtain res t where run: "index_remove (CheckpointId 1 2) example_indexed = (res, t)" by fastforce
  have "res = Ok (CheckpointId 1 2 \<in> snd ` set (stored example_indexed)) \<and>
      set (stored t) = set (filter (\<lambda>x. snd x \<noteq> CheckpointId 1 2) (stored example_indexed))"
    using index_updates_refine_set [OF r, where j = "CheckpointId 1 2"] unfolding run by simp
  then have "res = Ok True" "set (stored t) = {([1, 2, 3, 4], CheckpointId 1 1)}" unfolding st by simp_all
  then show ?thesis using run by blast
qed

theorem index_lookup_correct_witness:
  "\<exists>m. index_lookup example_indexed example_prefix_identity [1, 2, 3, 9] (example_history 2) 3 = Ok m \<and> 3 \<le> matched_tokens m"
proof -
  have r: "reachable_index example_indexed" unfolding example_indexed_def by (rule example_index_reachable)
  have st: "stored example_indexed = [([1, 2], CheckpointId 1 2), ([1, 2, 3, 4], CheckpointId 1 1)]"
    "ix_identity example_indexed = example_prefix_identity"
    by (simp_all add: example_indexed_eq stored_def path_list.simps example_index_def)
  have len: "common_len [1, 2, 3, 4] [1, 2, 3, 9] = 3" by (simp add: common_len_def)
  have comp: "compatible (ix_identity example_indexed) example_prefix_identity" using example_compatible st(2) by simp
  have mem: "([1, 2, 3, 4], CheckpointId 1 1) \<in> set (stored example_indexed)" unfolding st(1) by simp
  obtain m where m: "index_lookup example_indexed example_prefix_identity [1, 2, 3, 9] (example_history 2) 3 = Ok m"
    "\<forall>(p, i) \<in> set (stored example_indexed). common_len p [1, 2, 3, 9] \<le> matched_tokens m"
    using index_lookup_correct [OF r, of example_prefix_identity "[1, 2, 3, 9]" "example_history 2" 3] comp by meson
  have "common_len [1, 2, 3, 4] [1, 2, 3, 9] \<le> matched_tokens m" using m(2) mem by blast
  then show ?thesis using m(1) unfolding len by blast
qed

theorem index_bounded_witness:
  "edge_tokens (ix_root example_indexed) \<le> token_units example_indexed \<and> token_units example_indexed = 6"
proof -
  have r: "reachable_index example_indexed" unfolding example_indexed_def by (rule example_index_reachable)
  show ?thesis using index_bounded [OF r] by (simp add: example_indexed_eq)
qed

end
