(* ===== verification/IR.thy ===== *)
theory IR
  imports Model
begin

text \<open>
  The logical rank programs (\<open>crates/inferfabric-ir/src/lib.rs\<close>): targets, ranks, state layouts,
  communication operations, instructions, rank plans and the artifact a compilation yields.
\<close>

definition FORMAT_VERSION :: nat where
  "FORMAT_VERSION = 1"

datatype backend_kind = Mock | Ascend

record target =
  target_backend :: backend_kind
  soc :: string
  toolchain :: string
  kernel_revision :: string
  target_flags :: "string list"

definition target_mock :: target where
  "target_mock = \<lparr>target_backend = Mock, soc = ''cpu-mock'', toolchain = ''none'',
     kernel_revision = ''mock-v1'', target_flags = []\<rparr>"

record rank =
  rank_role :: role
  rank_tp :: nat
  rank_cp :: nat

datatype state_kind = Kv | Recurrent | Conv

record state_layout =
  layout_layer :: nat
  layout_kind :: state_kind
  layout_shape :: "nat list"
  layout_dtype :: string

datatype comm_op = AllReduce | AllGather | ReduceScatter | Send nat | Receive nat

text \<open>\<open>Communication group sequence op tensor\<close>.\<close>

datatype instruction =
    Kernel "nat option" string
  | Communication string nat comm_op string
  | Fence

record rank_plan =
  plan_rank :: rank
  plan_states :: "state_layout list"
  plan_instructions :: "instruction list"

record artifact =
  art_version :: nat
  art_key :: string
  art_target :: target
  art_spec :: spec
  art_ranks :: "rank_plan list"

text \<open>\<open>Bucket { batch, context }\<close> with the derived lexicographic order.\<close>

datatype bucket = Bucket (bucket_batch: nat) (bucket_context: nat)

instantiation bucket :: linorder
begin

definition less_eq_bucket :: "bucket \<Rightarrow> bucket \<Rightarrow> bool" where
  "less_eq_bucket a b \<longleftrightarrow>
     bucket_batch a < bucket_batch b \<or>
     bucket_batch a = bucket_batch b \<and> bucket_context a \<le> bucket_context b"

definition less_bucket :: "bucket \<Rightarrow> bucket \<Rightarrow> bool" where
  "less_bucket a b \<longleftrightarrow>
     bucket_batch a < bucket_batch b \<or>
     bucket_batch a = bucket_batch b \<and> bucket_context a < bucket_context b"

instance
  by standard (auto simp: less_eq_bucket_def less_bucket_def bucket.expand)

end

end
