(* ===== verification/Compiler.thy ===== *)
theory Compiler
  imports IR Containers
begin

text \<open>
  The startup compiler and its checksummed container (\<open>crates/inferfabric-compiler/src/lib.rs\<close>).
  A rank's instruction list is written by emitters that thread the sequence counter \<open>seq\<close> of the
  code; an emitter returns what it appends and the next counter. \<open>serde_json\<close> and \<open>sha2\<close> are not
  part of the sources and are the fields of \<open>externals\<close>. The lemmas show that the ranks of a
  tensor-parallel group agree on their collectives, that every send has its receive, and that the
  container and the cache never yield anything but what a fresh compilation gives.
\<close>

section \<open>External code\<close>

text \<open>The JSON encoder of the cache key and of an artifact, the JSON parser, the digest, and the three
  source files that \<open>include_bytes!\<close> adds to the digest. Bytes are natural numbers below 256; the left
  summand is the message of a failed conversion.\<close>

record externals =
  key_json :: "nat \<times> string \<times> spec \<times> target \<Rightarrow> string + nat list"
  artifact_json :: "artifact \<Rightarrow> string + nat list"
  parse_artifact :: "nat list \<Rightarrow> string + artifact"
  sha256 :: "nat list \<Rightarrow> nat list"
  included_sources :: "nat list"

fun or_invalid :: "string + 'a \<Rightarrow> 'a outcome" where
  "or_invalid (Inl message) = Err (invalid message)"
| "or_invalid (Inr x) = Ok x"

lemma or_invalid_iffs [outcome_simps]:
  "or_invalid r = Ok x \<longleftrightarrow> r = Inr x" "or_invalid r = Err e \<longleftrightarrow> (\<exists>m. r = Inl m \<and> e = invalid m)"
  "or_invalid r = Panic \<longleftrightarrow> False"
  by (cases r; auto)+

definition MAGIC :: "nat list" where
  "MAGIC = [80, 65, 78, 71, 85, 0, 0, 1]"

text \<open>\<open>format!("{b:02x}")\<close> for every byte of the digest.\<close>

definition hex_byte :: "nat \<Rightarrow> string" where
  "hex_byte b = [''0123456789abcdef'' ! (b div 16 mod 16), ''0123456789abcdef'' ! (b mod 16)]"

definition cache_key :: "externals \<Rightarrow> spec \<Rightarrow> target \<Rightarrow> string outcome" where
  "cache_key x s t =
     and_then (or_invalid (key_json x (FORMAT_VERSION, ''compiler-v1-templates-v1'', s, t))) (\<lambda>bytes.
     Ok (concat (map hex_byte (sha256 x (bytes @ included_sources x)))))"

section \<open>Emitters\<close>

type_synonym emitter = "nat \<Rightarrow> instruction list \<times> nat"

definition emit_seq :: "emitter \<Rightarrow> emitter \<Rightarrow> emitter" where
  "emit_seq a b s = (let (xs, s1) = a s; (ys, s2) = b s1 in (xs @ ys, s2))"

definition emit_none :: emitter where
  "emit_none s = ([], s)"

definition emit_when :: "bool \<Rightarrow> emitter \<Rightarrow> emitter" where
  "emit_when c e = (if c then e else emit_none)"

fun emit_all :: "('a \<Rightarrow> emitter) \<Rightarrow> 'a list \<Rightarrow> emitter" where
  "emit_all f [] = emit_none"
| "emit_all f (x # xs) = emit_seq (f x) (emit_all f xs)"

definition emit_list :: "emitter list \<Rightarrow> emitter" where
  "emit_list es = emit_all (\<lambda>e. e) es"

definition emit_kernels :: "nat option \<Rightarrow> string list \<Rightarrow> emitter" where
  "emit_kernels layer names s = (map (Kernel layer) names, s)"

definition emit_comm :: "string \<Rightarrow> comm_op \<Rightarrow> string \<Rightarrow> emitter" where
  "emit_comm grp op tensor s = ([Communication grp s op tensor], Suc s)"

section \<open>The plan of one rank\<close>

text \<open>\<open>format!("{role:?}")\<close>.\<close>

fun role_name :: "role \<Rightarrow> string" where
  "role_name Prefill = ''Prefill''"
| "role_name Decode = ''Decode''"

definition tp_group :: "role \<Rightarrow> nat \<Rightarrow> string" where
  "tp_group role cp = role_name role @ ''/tp/cp'' @ show_nat cp"

definition cp_group :: "role \<Rightarrow> nat \<Rightarrow> string" where
  "cp_group role tp = role_name role @ ''/cp/tp'' @ show_nat tp"

text \<open>One step of the context ring: send to the next context rank, receive from the previous one.\<close>

definition ring_step :: "role \<Rightarrow> mesh \<Rightarrow> nat \<Rightarrow> nat \<Rightarrow> nat \<Rightarrow> nat \<Rightarrow> emitter" where
  "ring_step role mesh tp cp i step s =
     ([Communication (cp_group role tp) s (Send ((cp + 1) mod mesh_cp mesh)) ''kv_context_shard'',
       Communication (cp_group role tp) s (Receive ((cp + mesh_cp mesh - 1) mod mesh_cp mesh)) ''kv_context_shard'',
       Kernel (Some i) (''causal_attention_online_softmax_merge_'' @ show_nat step)], Suc s)"

definition full_layer :: "role \<Rightarrow> mesh \<Rightarrow> nat \<Rightarrow> nat \<Rightarrow> nat \<Rightarrow> emitter" where
  "full_layer role mesh tp cp i =
     emit_list [
       emit_kernels (Some i) [''qkv_projection'', ''qk_norm_rope'', ''paged_attention_local''],
       emit_when (mesh_cp mesh > 1) (emit_all (ring_step role mesh tp cp i) [1..<mesh_cp mesh]),
       emit_kernels (Some i) [''attention_output_gate'']]"

definition boundary_tensor :: "nat \<Rightarrow> string" where
  "boundary_tensor i = ''hybrid_boundary_layer'' @ show_nat i"

text \<open>The recurrent state travels along the context ranks: receive from the previous, run, send on.\<close>

definition delta_layer :: "role \<Rightarrow> mesh \<Rightarrow> nat \<Rightarrow> nat \<Rightarrow> nat \<Rightarrow> emitter" where
  "delta_layer role mesh tp cp i s =
     ((if cp > 0 then [Communication (cp_group role tp) (s + cp - 1) (Receive (cp - 1)) (boundary_tensor i)] else []) @
      map (Kernel (Some i)) [''delta_projection'', ''causal_conv'', ''qk_l2_norm_decay_beta'', ''gated_delta'', ''gated_norm''] @
      (if cp + 1 < mesh_cp mesh then [Communication (cp_group role tp) (s + cp) (Send (cp + 1)) (boundary_tensor i)] else []),
      s + (mesh_cp mesh - 1))"

definition branch_end :: "role \<Rightarrow> mesh \<Rightarrow> nat \<Rightarrow> nat \<Rightarrow> string \<Rightarrow> emitter" where
  "branch_end role mesh cp i branch =
     (if mesh_tp mesh > 1 then
        emit_list [
          emit_comm (tp_group role cp) (if mesh_sp mesh then ReduceScatter else AllReduce) (branch @ ''_partial_hidden''),
          emit_kernels (Some i) [''residual_add'']]
      else emit_kernels (Some i) [''residual_add''])"

definition branch_plan :: "role \<Rightarrow> mesh \<Rightarrow> nat \<Rightarrow> nat \<Rightarrow> string \<Rightarrow> emitter" where
  "branch_plan role mesh cp i branch =
     emit_list [
       emit_when (branch = ''mlp'') (emit_list [
         emit_kernels (Some i) [''post_norm''],
         emit_when (mesh_sp mesh) (emit_comm (tp_group role cp) AllGather ''normalized_token_shards''),
         emit_kernels (Some i) [''mlp_up_gate_silu'', ''mlp_down'']]),
       branch_end role mesh cp i branch]"

definition layer_plan :: "role \<Rightarrow> mesh \<Rightarrow> nat \<Rightarrow> nat \<Rightarrow> nat \<times> layer \<Rightarrow> emitter" where
  "layer_plan role mesh tp cp il =
     (let i = fst il in
      emit_list [
        emit_kernels (Some i) [''input_norm''],
        emit_when (mesh_sp mesh) (emit_comm (tp_group role cp) AllGather ''normalized_token_shards''),
        (case snd il of Full \<Rightarrow> full_layer role mesh tp cp i | Delta \<Rightarrow> delta_layer role mesh tp cp i),
        emit_kernels (Some i) [''output_projection''],
        emit_all (branch_plan role mesh cp i) [''attention'', ''mlp'']])"

definition rank_emitter :: "spec \<Rightarrow> role \<Rightarrow> mesh \<Rightarrow> nat \<Rightarrow> nat \<Rightarrow> emitter" where
  "rank_emitter s role mesh tp cp =
     emit_list [
       emit_kernels None [if mesh_sp mesh then ''embedding_sequence_shard'' else ''embedding''],
       emit_all (layer_plan role mesh tp cp) (enumerate 0 (layers (spec_model s))),
       emit_kernels None [''final_norm''],
       emit_when (mesh_sp mesh) (emit_comm (tp_group role cp) AllGather ''final_normalized_token_shards''),
       emit_kernels None [''lm_head'', ''sample_logits''],
       (\<lambda>q. ([Fence], q))]"

fun layer_states :: "spec \<Rightarrow> mesh \<Rightarrow> nat \<times> layer \<Rightarrow> state_layout list" where
  "layer_states s mesh (i, Full) =
     [\<lparr>layout_layer = i, layout_kind = Kv,
       layout_shape = [2, spec_page_tokens s, kv_heads (spec_model s) div mesh_tp mesh, head_dim (spec_model s)],
       layout_dtype = ''bf16''\<rparr>]"
| "layer_states s mesh (i, Delta) =
     (let m = spec_model s in
      [\<lparr>layout_layer = i, layout_kind = Recurrent,
        layout_shape = [delta_heads m div mesh_tp mesh, delta_dim m, delta_dim m], layout_dtype = ''fp32''\<rparr>,
       \<lparr>layout_layer = i, layout_kind = Conv,
        layout_shape = [3 * delta_heads m div mesh_tp mesh * delta_dim m, conv_width m], layout_dtype = ''bf16''\<rparr>])"

definition plan_of_rank :: "spec \<Rightarrow> role \<Rightarrow> mesh \<Rightarrow> nat \<Rightarrow> nat \<Rightarrow> rank_plan" where
  "plan_of_rank s role mesh cp tp =
     \<lparr>plan_rank = \<lparr>rank_role = role, rank_tp = tp, rank_cp = cp\<rparr>,
      plan_states = concat (map (layer_states s mesh) (enumerate 0 (layers (spec_model s)))),
      plan_instructions = fst (rank_emitter s role mesh tp cp 0)\<rparr>"

definition role_plans :: "spec \<Rightarrow> role \<times> mesh \<Rightarrow> rank_plan list" where
  "role_plans s rm =
     concat (map (\<lambda>cp. map (\<lambda>tp. plan_of_rank s (fst rm) (snd rm) cp tp) [0..<mesh_tp (snd rm)])
       [0..<mesh_cp (snd rm)])"

definition compile :: "externals \<Rightarrow> spec \<Rightarrow> target \<Rightarrow> artifact outcome" where
  "compile x s t =
     and_then (validate_spec s) (\<lambda>_.
     let ranks = concat (map (role_plans s) [(Prefill, spec_prefill s), (Decode, spec_decode s)]) in
     and_then (cache_key x s t) (\<lambda>k.
     Ok \<lparr>art_version = FORMAT_VERSION, art_key = k, art_target = t, art_spec = s, art_ranks = ranks\<rparr>))"

section \<open>The container\<close>

definition le_bytes :: "nat \<Rightarrow> nat list" where
  "le_bytes n = map (\<lambda>i. n div 256 ^ i mod 256) [0..<8]"

fun from_le :: "nat list \<Rightarrow> nat" where
  "from_le [] = 0"
| "from_le (b # bs) = b + 256 * from_le bs"

definition encode :: "externals \<Rightarrow> artifact \<Rightarrow> nat list outcome" where
  "encode x a =
     and_then (or_invalid (artifact_json x a)) (\<lambda>payload.
     Ok (MAGIC @ le_bytes (length payload) @ sha256 x payload @ payload))"

definition decode :: "externals \<Rightarrow> nat list \<Rightarrow> artifact outcome" where
  "decode x bytes =
     and_then (reject (length bytes < 48 \<or> take 8 bytes \<noteq> MAGIC) (invalid ''invalid artifact header/version'')) (\<lambda>_.
     let len = from_le (take 8 (drop 8 bytes)) in
     and_then (reject (len \<noteq> length bytes - 48 \<or> sha256 x (drop 48 bytes) \<noteq> take 32 (drop 16 bytes))
                (invalid ''artifact length/checksum mismatch'')) (\<lambda>_.
     and_then (or_invalid (parse_artifact x (drop 48 bytes))) (\<lambda>a.
     and_then (compile x (art_spec a) (art_target a)) (\<lambda>b.
     and_then (reject (a \<noteq> b) (invalid ''artifact compatibility/plan mismatch'')) (\<lambda>_. Ok a)))))"

text \<open>The cache: what reading its file gave and what writing it gives are the environment's part; the
  result carries the bytes that were written, if any.\<close>

datatype file_read = FileBytes "nat list" | FileNotFound | FileError string

definition cached :: "externals \<Rightarrow> file_read \<Rightarrow> (nat list \<Rightarrow> unit outcome) \<Rightarrow> spec \<Rightarrow> target \<Rightarrow> (artifact \<times> bool) outcome" where
  "cached x content write s t =
     and_then (cache_key x s t) (\<lambda>_.
     case content of
       FileBytes bytes \<Rightarrow>
         and_then (decode x bytes) (\<lambda>a.
         and_then (reject (art_target a \<noteq> t \<or> art_spec a \<noteq> s) (invalid ''cache target mismatch'')) (\<lambda>_.
         Ok (a, True)))
     | FileNotFound \<Rightarrow>
         and_then (compile x s t) (\<lambda>a.
         and_then (encode x a) (\<lambda>bytes.
         and_then (write bytes) (\<lambda>_. Ok (a, False))))
     | FileError e \<Rightarrow> Err (Io e))"

section \<open>Relating the emitters of two ranks\<close>

fun in_group :: "string \<Rightarrow> instruction \<Rightarrow> bool" where
  "in_group g (Communication g' q op t) = (g' = g)"
| "in_group g _ = False"

fun comm_seq :: "instruction \<Rightarrow> nat" where
  "comm_seq (Communication g q op t) = q"
| "comm_seq _ = 0"

text \<open>Two emitters that append the same communications of a group and advance the counter alike.\<close>

definition same_comms :: "string \<Rightarrow> emitter \<Rightarrow> emitter \<Rightarrow> bool" where
  "same_comms g a b \<longleftrightarrow>
     (\<forall>s. filter (in_group g) (fst (a s)) = filter (in_group g) (fst (b s)) \<and> snd (a s) = snd (b s))"

text \<open>An emitter whose communications of a group carry ascending numbers from its own range.\<close>

definition ascending :: "string \<Rightarrow> emitter \<Rightarrow> bool" where
  "ascending g a \<longleftrightarrow>
     (\<forall>s. s \<le> snd (a s) \<and>
        sorted_wrt (<) (map comm_seq (filter (in_group g) (fst (a s)))) \<and>
        (\<forall>ins \<in> set (filter (in_group g) (fst (a s))). s \<le> comm_seq ins \<and> comm_seq ins < snd (a s)))"

text \<open>Rank \<open>i\<close> runs \<open>a\<close>, rank \<open>j\<close> runs \<open>b\<close>: the sends from \<open>i\<close> to \<open>j\<close> are the receives of \<open>j\<close> from \<open>i\<close>.\<close>

definition sends :: "string \<Rightarrow> nat \<Rightarrow> instruction list \<Rightarrow> (nat \<times> string) set" where
  "sends g j xs = {(q, t). Communication g q (Send j) t \<in> set xs}"

definition receives :: "string \<Rightarrow> nat \<Rightarrow> instruction list \<Rightarrow> (nat \<times> string) set" where
  "receives g i xs = {(q, t). Communication g q (Receive i) t \<in> set xs}"

definition paired :: "string \<Rightarrow> nat \<Rightarrow> nat \<Rightarrow> emitter \<Rightarrow> emitter \<Rightarrow> bool" where
  "paired g i j a b \<longleftrightarrow>
     (\<forall>s. sends g j (fst (a s)) = receives g i (fst (b s)) \<and> snd (a s) = snd (b s))"

lemma sends_simps [simp]:
  "sends g j [] = {}" "sends g j (xs @ ys) = sends g j xs \<union> sends g j ys"
  "receives g i [] = {}" "receives g i (xs @ ys) = receives g i xs \<union> receives g i ys"
  by (auto simp: sends_def receives_def)

lemma sends_Cons:
  "sends g j (x # xs) = sends g j [x] \<union> sends g j xs" "receives g i (x # xs) = receives g i [x] \<union> receives g i xs"
  using sends_simps(2) [of g j "[x]" xs] sends_simps(4) [of g i "[x]" xs] by simp_all

lemma sends_kernels [simp]:
  "sends g j (map (Kernel l) names) = {}" "receives g i (map (Kernel l) names) = {}"
  "filter (in_group g) (map (Kernel l) names) = []"
  by (auto simp: sends_def receives_def filter_empty_conv)

named_theorems emitter_rules "composition of emitters"

lemma same_comms_basic [emitter_rules]:
  "same_comms g emit_none emit_none" "same_comms g (emit_kernels l ks) (emit_kernels l' ks')"
  "same_comms g (emit_comm h op t) (emit_comm h op t)"
  by (simp_all add: same_comms_def emit_none_def emit_kernels_def emit_comm_def)

lemma same_comms_seq [emitter_rules]:
  "same_comms g a b \<Longrightarrow> same_comms g c d \<Longrightarrow> same_comms g (emit_seq a c) (emit_seq b d)"
  by (simp add: same_comms_def emit_seq_def split: prod.split)
    (metis fst_conv snd_conv)

lemma same_comms_when [emitter_rules]:
  "(c \<Longrightarrow> same_comms g a b) \<Longrightarrow> same_comms g (emit_when c a) (emit_when c b)"
  by (simp add: emit_when_def same_comms_basic)

lemma same_comms_all [emitter_rules]:
  "(\<And>x. x \<in> set xs \<Longrightarrow> same_comms g (f x) (h x)) \<Longrightarrow> same_comms g (emit_all f xs) (emit_all h xs)"
  by (induction xs) (simp_all add: same_comms_basic same_comms_seq)

lemma same_comms_list [emitter_rules]:
  "list_all2 (same_comms g) es fs \<Longrightarrow> same_comms g (emit_list es) (emit_list fs)"
  unfolding emit_list_def by (induction rule: list_all2_induct) (simp_all add: same_comms_basic same_comms_seq)

lemma ascending_basic [emitter_rules]:
  "ascending g emit_none" "ascending g (emit_kernels l ks)" "ascending g (emit_comm h op t)"
  by (simp_all add: ascending_def emit_none_def emit_kernels_def emit_comm_def)

lemma ascending_seq [emitter_rules]:
  assumes "ascending g a" and "ascending g b"
  shows "ascending g (emit_seq a b)"
  unfolding ascending_def
proof
  fix s
  obtain xs s1 where a: "a s = (xs, s1)" by fastforce
  obtain ys s2 where b: "b s1 = (ys, s2)" by fastforce
  have A: "s \<le> s1" "sorted_wrt (<) (map comm_seq (filter (in_group g) xs))"
    "\<forall>ins \<in> set (filter (in_group g) xs). s \<le> comm_seq ins \<and> comm_seq ins < s1"
    using assms(1) a unfolding ascending_def by (metis fst_conv snd_conv)+
  have B: "s1 \<le> s2" "sorted_wrt (<) (map comm_seq (filter (in_group g) ys))"
    "\<forall>ins \<in> set (filter (in_group g) ys). s1 \<le> comm_seq ins \<and> comm_seq ins < s2"
    using assms(2) b unfolding ascending_def by (metis fst_conv snd_conv)+
  have run: "emit_seq a b s = (xs @ ys, s2)" using a b by (simp add: emit_seq_def)
  show "s \<le> snd (emit_seq a b s) \<and>
      sorted_wrt (<) (map comm_seq (filter (in_group g) (fst (emit_seq a b s)))) \<and>
      (\<forall>ins \<in> set (filter (in_group g) (fst (emit_seq a b s))). s \<le> comm_seq ins \<and> comm_seq ins < snd (emit_seq a b s))"
    using A B unfolding run by (fastforce simp: sorted_wrt_append)
qed

lemma ascending_when [emitter_rules]: "(c \<Longrightarrow> ascending g a) \<Longrightarrow> ascending g (emit_when c a)"
  by (simp add: emit_when_def ascending_basic)

lemma ascending_all [emitter_rules]: "(\<And>x. x \<in> set xs \<Longrightarrow> ascending g (f x)) \<Longrightarrow> ascending g (emit_all f xs)"
  by (induction xs) (simp_all add: ascending_basic ascending_seq)

lemma ascending_list [emitter_rules]: "list_all (ascending g) es \<Longrightarrow> ascending g (emit_list es)"
  unfolding emit_list_def by (rule ascending_all) (simp add: list_all_iff)

lemma paired_basic [emitter_rules]:
  "paired g i j emit_none emit_none" "paired g i j (emit_kernels l ks) (emit_kernels l' ks')"
  by (simp_all add: paired_def emit_none_def emit_kernels_def)

lemma paired_comm [emitter_rules]:
  "h \<noteq> g \<Longrightarrow> h' \<noteq> g \<Longrightarrow> paired g i j (emit_comm h op t) (emit_comm h' op' t')"
  by (simp add: paired_def emit_comm_def sends_def receives_def)

lemma paired_seq [emitter_rules]:
  "paired g i j a b \<Longrightarrow> paired g i j c d \<Longrightarrow> paired g i j (emit_seq a c) (emit_seq b d)"
  by (simp add: paired_def emit_seq_def split: prod.split)
    (metis fst_conv snd_conv)

lemma paired_when [emitter_rules]: "(c \<Longrightarrow> paired g i j a b) \<Longrightarrow> paired g i j (emit_when c a) (emit_when c b)"
  by (simp add: emit_when_def paired_basic)

lemma paired_all [emitter_rules]:
  "(\<And>x. x \<in> set xs \<Longrightarrow> paired g i j (f x) (h x)) \<Longrightarrow> paired g i j (emit_all f xs) (emit_all h xs)"
  by (induction xs) (simp_all add: paired_basic paired_seq)

lemma paired_list [emitter_rules]:
  "list_all2 (paired g i j) es fs \<Longrightarrow> paired g i j (emit_list es) (emit_list fs)"
  unfolding emit_list_def by (induction rule: list_all2_induct) (simp_all add: paired_basic paired_seq)

section \<open>The groups\<close>

lemma tp_group_not_cp_group [simp]: "tp_group role cp \<noteq> cp_group role tp" "cp_group role tp \<noteq> tp_group role cp"
  by (cases role; simp add: tp_group_def cp_group_def)+

lemma rank_same_comms:
  "same_comms (tp_group role cp) (rank_emitter s role mesh tp1 cp) (rank_emitter s role mesh tp2 cp)"
proof -
  have ring: "same_comms (tp_group role cp) (ring_step role mesh tp1 cp i k) (ring_step role mesh tp2 cp i k)" for i k
    by (simp add: same_comms_def ring_step_def)
  have delta: "same_comms (tp_group role cp) (delta_layer role mesh tp1 cp i) (delta_layer role mesh tp2 cp i)" for i
    by (simp add: same_comms_def delta_layer_def)
  have full: "same_comms (tp_group role cp) (full_layer role mesh tp1 cp i) (full_layer role mesh tp2 cp i)" for i
    unfolding full_layer_def by (intro emitter_rules) (simp add: emitter_rules ring)
  have branch: "same_comms (tp_group role cp) (branch_plan role mesh cp i b) (branch_plan role mesh cp i b)" for i b
    by (simp add: same_comms_def)
  have layer: "same_comms (tp_group role cp) (layer_plan role mesh tp1 cp il) (layer_plan role mesh tp2 cp il)" for il
    unfolding layer_plan_def Let_def
    by (rule same_comms_list) (simp add: emitter_rules full delta branch split: layer.split)
  show ?thesis
    unfolding rank_emitter_def
    by (rule same_comms_list) (simp add: emitter_rules layer, simp add: same_comms_def)
qed

lemma rank_ascending: "ascending (tp_group role cp) (rank_emitter s role mesh tp cp)"
proof -
  have ring: "ascending (tp_group role cp) (ring_step role mesh tp cp i k)" for i k
    by (simp add: ascending_def ring_step_def)
  have delta: "ascending (tp_group role cp) (delta_layer role mesh tp cp i)" for i
    by (simp add: ascending_def delta_layer_def)
  have full: "ascending (tp_group role cp) (full_layer role mesh tp cp i)" for i
    unfolding full_layer_def by (rule ascending_list) (simp add: emitter_rules ring)
  have tail: "ascending (tp_group role cp) (branch_end role mesh cp i b)" for i b
    unfolding branch_end_def by (simp add: emitter_rules)
  have branch: "ascending (tp_group role cp) (branch_plan role mesh cp i b)" for i b
    unfolding branch_plan_def by (rule ascending_list) (simp add: emitter_rules tail)
  have layer: "ascending (tp_group role cp) (layer_plan role mesh tp cp il)" for il
    unfolding layer_plan_def Let_def
    by (rule ascending_list) (simp add: emitter_rules full delta branch split: layer.split)
  show ?thesis
    unfolding rank_emitter_def
    by (rule ascending_list) (simp add: emitter_rules layer, simp add: ascending_def)
qed

lemma ring_neighbours:
  assumes "i < n" and "j < (n::nat)"
  shows "j = (i + 1) mod n \<longleftrightarrow> i = (j + n - 1) mod n"
proof -
  consider "i + 1 < n" | "i + 1 = n" using assms(1) by linarith
  then show ?thesis
  proof cases
    case 1
    then show ?thesis using assms by (cases j) (auto simp: mod_if)
  next
    case 2
    then show ?thesis using assms by (cases j) (auto simp: mod_if)
  qed
qed

lemma rank_paired:
  assumes "i < mesh_cp mesh" and "j < mesh_cp mesh"
  shows "paired (cp_group role tp) i j (rank_emitter s role mesh tp i) (rank_emitter s role mesh tp j)"
proof -
  have ring: "paired (cp_group role tp) i j (ring_step role mesh tp i l k) (ring_step role mesh tp j l k)" for l k
    using ring_neighbours [OF assms] by (auto simp: paired_def ring_step_def sends_def receives_def)
  have delta: "paired (cp_group role tp) i j (delta_layer role mesh tp i l) (delta_layer role mesh tp j l)" for l
    using assms by (auto simp: paired_def delta_layer_def sends_def receives_def)
  have full: "paired (cp_group role tp) i j (full_layer role mesh tp i l) (full_layer role mesh tp j l)" for l
    unfolding full_layer_def by (rule paired_list) (simp add: emitter_rules ring)
  have tail: "paired (cp_group role tp) i j (branch_end role mesh i l b) (branch_end role mesh j l b)" for l b
    unfolding branch_end_def by (simp add: emitter_rules)
  have branch: "paired (cp_group role tp) i j (branch_plan role mesh i l b) (branch_plan role mesh j l b)" for l b
    unfolding branch_plan_def by (rule paired_list) (simp add: emitter_rules tail)
  have layer: "paired (cp_group role tp) i j (layer_plan role mesh tp i il) (layer_plan role mesh tp j il)" for il
    unfolding layer_plan_def Let_def
    by (rule paired_list) (simp add: emitter_rules full delta branch split: layer.split)
  show ?thesis
    unfolding rank_emitter_def
    by (rule paired_list) (simp add: emitter_rules layer, simp add: paired_def sends_def receives_def)
qed

section \<open>Properties of compiled artifacts\<close>

lemma compile_Ok:
  assumes "compile x s t = Ok a"
  shows "validate_spec s = Ok ()" "art_spec a = s" "art_target a = t" "art_version a = FORMAT_VERSION"
    "art_ranks a = role_plans s (Prefill, spec_prefill s) @ role_plans s (Decode, spec_decode s)"
  using assms by (auto simp: compile_def outcome_simps Let_def)

lemma compiled_rank:
  assumes "compile x s t = Ok a" and "r \<in> set (art_ranks a)"
  obtains role mesh tp cp where "r = plan_of_rank s role mesh cp tp" "tp < mesh_tp mesh" "cp < mesh_cp mesh"
    "role = rank_role (plan_rank r)" "tp = rank_tp (plan_rank r)" "cp = rank_cp (plan_rank r)"
    "mesh = (case rank_role (plan_rank r) of Prefill \<Rightarrow> spec_prefill s | Decode \<Rightarrow> spec_decode s)"
  using assms(2) unfolding compile_Ok(5) [OF assms(1)]
  by (fastforce simp: role_plans_def plan_of_rank_def)

text \<open>C24. The ranks of a tensor-parallel group agree on their collectives: two ranks of a compiled
  artifact with the same role and context rank issue exactly the same collectives of their group, in
  the same order, and the sequence numbers of these strictly ascend, so every collective is matched
  on all ranks.\<close>

theorem collectives_agree:
  assumes "compile x s t = Ok a" and "r1 \<in> set (art_ranks a)" and "r2 \<in> set (art_ranks a)"
    and "rank_role (plan_rank r1) = rank_role (plan_rank r2)" and "rank_cp (plan_rank r1) = rank_cp (plan_rank r2)"
  shows "filter (in_group (tp_group (rank_role (plan_rank r1)) (rank_cp (plan_rank r1)))) (plan_instructions r1) =
         filter (in_group (tp_group (rank_role (plan_rank r1)) (rank_cp (plan_rank r1)))) (plan_instructions r2) \<and>
         sorted_wrt (<) (map comm_seq
           (filter (in_group (tp_group (rank_role (plan_rank r1)) (rank_cp (plan_rank r1)))) (plan_instructions r1)))"
proof -
  from compiled_rank [OF assms(1,2)] obtain role mesh tp1 cp where
    r1: "r1 = plan_of_rank s role mesh cp tp1" "role = rank_role (plan_rank r1)" "cp = rank_cp (plan_rank r1)"
    "mesh = (case rank_role (plan_rank r1) of Prefill \<Rightarrow> spec_prefill s | Decode \<Rightarrow> spec_decode s)" by metis
  from compiled_rank [OF assms(1,3)] obtain tp2 where r2: "r2 = plan_of_rank s role mesh cp tp2"
    using assms(4,5) r1 by metis
  show ?thesis
    using rank_same_comms [of role cp s mesh tp1 tp2] rank_ascending [of role cp s mesh tp1]
    unfolding r1(2,3) [symmetric] same_comms_def ascending_def
    by (simp add: r1(1) r2 plan_of_rank_def)
qed

text \<open>Every send has its receive: for two ranks of a compiled artifact with the same role and tensor
  rank, the messages the first sends to the second (sequence number and tensor) are exactly the
  messages the second receives from the first. This covers the context ring and the chain that
  carries the recurrent state.\<close>

theorem sends_match_receives:
  assumes "compile x s t = Ok a" and "r1 \<in> set (art_ranks a)" and "r2 \<in> set (art_ranks a)"
    and "rank_role (plan_rank r1) = rank_role (plan_rank r2)" and "rank_tp (plan_rank r1) = rank_tp (plan_rank r2)"
  shows "sends (cp_group (rank_role (plan_rank r1)) (rank_tp (plan_rank r1))) (rank_cp (plan_rank r2)) (plan_instructions r1) =
         receives (cp_group (rank_role (plan_rank r1)) (rank_tp (plan_rank r1))) (rank_cp (plan_rank r1)) (plan_instructions r2)"
proof -
  from compiled_rank [OF assms(1,2)] obtain role mesh tp cp1 where
    r1: "r1 = plan_of_rank s role mesh cp1 tp" "role = rank_role (plan_rank r1)" "tp = rank_tp (plan_rank r1)"
    "cp1 = rank_cp (plan_rank r1)" "cp1 < mesh_cp mesh"
    "mesh = (case rank_role (plan_rank r1) of Prefill \<Rightarrow> spec_prefill s | Decode \<Rightarrow> spec_decode s)" by metis
  from compiled_rank [OF assms(1,3)] obtain cp2 where
    r2: "r2 = plan_of_rank s role mesh cp2 tp" "cp2 = rank_cp (plan_rank r2)" "cp2 < mesh_cp mesh"
    using assms(4,5) r1 by metis
  show ?thesis
    using rank_paired [OF r1(5) r2(3), of role tp s]
    unfolding r1(2-4) [symmetric] r2(2) [symmetric] paired_def
    by (simp add: r1(1) r2(1) plan_of_rank_def)
qed

lemma role_plans_ranks:
  "map plan_rank (role_plans s (role, mesh)) =
     concat (map (\<lambda>cp. map (\<lambda>tp. \<lparr>rank_role = role, rank_tp = tp, rank_cp = cp\<rparr>) [0..<mesh_tp mesh]) [0..<mesh_cp mesh])"
  by (simp add: role_plans_def map_concat comp_def plan_of_rank_def)

lemma grid_distinct: "distinct (concat (map (\<lambda>cp. map (\<lambda>tp. \<lparr>rank_role = role, rank_tp = tp, rank_cp = cp\<rparr>) [0..<n]) [0..<m]))"
  by (induction m) (auto simp: distinct_map inj_on_def)

text \<open>A compiled artifact has exactly one plan per rank: the ranks are distinct and are all the
  combinations of a role with a tensor and a context index inside the mesh of that role.\<close>

theorem compiled_ranks_exact:
  assumes "compile x s t = Ok a"
  shows "distinct (map plan_rank (art_ranks a)) \<and>
         set (map plan_rank (art_ranks a)) =
           {r. rank_tp r < mesh_tp (case rank_role r of Prefill \<Rightarrow> spec_prefill s | Decode \<Rightarrow> spec_decode s) \<and>
               rank_cp r < mesh_cp (case rank_role r of Prefill \<Rightarrow> spec_prefill s | Decode \<Rightarrow> spec_decode s)}"
proof
  let ?grid = "\<lambda>role mesh. concat (map (\<lambda>cp. map (\<lambda>tp. \<lparr>rank_role = role, rank_tp = tp, rank_cp = cp\<rparr>) [0..<mesh_tp mesh]) [0..<mesh_cp mesh])"
  have eq: "map plan_rank (art_ranks a) = ?grid Prefill (spec_prefill s) @ ?grid Decode (spec_decode s)"
    by (simp only: compile_Ok(5) [OF assms] map_append role_plans_ranks)
  show "distinct (map plan_rank (art_ranks a))"
    unfolding eq distinct_append using grid_distinct by auto
  have grid: "r \<in> set (?grid role mesh) \<longleftrightarrow> rank_role r = role \<and> rank_tp r < mesh_tp mesh \<and> rank_cp r < mesh_cp mesh"
    for r :: rank and role mesh by (cases r) (auto simp: image_iff)
  have "r \<in> set (map plan_rank (art_ranks a)) \<longleftrightarrow>
      rank_tp r < mesh_tp (case rank_role r of Prefill \<Rightarrow> spec_prefill s | Decode \<Rightarrow> spec_decode s) \<and>
      rank_cp r < mesh_cp (case rank_role r of Prefill \<Rightarrow> spec_prefill s | Decode \<Rightarrow> spec_decode s)" for r
    unfolding eq set_append Un_iff grid by (cases "rank_role r") simp_all
  then show "set (map plan_rank (art_ranks a)) =
      {r. rank_tp r < mesh_tp (case rank_role r of Prefill \<Rightarrow> spec_prefill s | Decode \<Rightarrow> spec_decode s) \<and>
          rank_cp r < mesh_cp (case rank_role r of Prefill \<Rightarrow> spec_prefill s | Decode \<Rightarrow> spec_decode s)}"
    by blast
qed

section \<open>The container and the cache\<close>

lemma length_le_bytes [simp]: "length (le_bytes n) = 8"
  by (simp add: le_bytes_def)

lemma from_le_digits: "from_le (map (\<lambda>i. n div 256 ^ i mod 256) [0..<k]) = n mod 256 ^ k"
proof (induction k arbitrary: n)
  case 0
  then show ?case by simp
next
  case (Suc k)
  have "map (\<lambda>i. n div 256 ^ i mod 256) [0..<Suc k] =
      n mod 256 # map (\<lambda>i. (n div 256) div 256 ^ i mod 256) [0..<k]"
    by (simp only: upt_conv_Cons [OF zero_less_Suc] list.map map_Suc_upt [symmetric] map_map comp_def)
      (simp add: div_mult2_eq)
  then have "from_le (map (\<lambda>i. n div 256 ^ i mod 256) [0..<Suc k]) = n mod 256 + 256 * ((n div 256) mod 256 ^ k)"
    by (simp only: from_le.simps Suc.IH)
  then show ?case by (simp add: mod_mult2_eq)
qed

lemma from_le_bytes: "n < 2 ^ 64 \<Longrightarrow> from_le (le_bytes n) = n"
  by (simp add: le_bytes_def from_le_digits del: upt_Suc)

lemma decode_sound:
  assumes "decode x bytes = Ok a"
  shows "compile x (art_spec a) (art_target a) = Ok a"
  using assms by (auto simp: decode_def outcome_simps Let_def)

text \<open>C21. Round trip of the container: what \<open>encode\<close> writes for a compiled artifact, \<open>decode\<close> accepts
  and reads back unchanged. The hypotheses on the external code are that the digest has 32 bytes and
  that the JSON parser inverts the JSON writer.\<close>

theorem encode_decode_roundtrip:
  assumes "compile x s t = Ok a" and "encode x a = Ok bytes"
    and "\<And>p. length (sha256 x p) = 32"
    and "\<And>p. artifact_json x a = Inr p \<Longrightarrow> parse_artifact x p = Inr a \<and> length p < 2 ^ 64"
  shows "decode x bytes = Ok a"
proof -
  from assms(2) obtain p where p: "artifact_json x a = Inr p"
    "bytes = MAGIC @ le_bytes (length p) @ sha256 x p @ p"
    by (auto simp: encode_def outcome_simps)
  have parts: "take 8 bytes = MAGIC" "take 8 (drop 8 bytes) = le_bytes (length p)" "take 32 (drop 16 bytes) = sha256 x p"
    "drop 48 bytes = p" "length bytes = 48 + length p"
    using assms(3) by (simp_all add: p(2) MAGIC_def)
  have "from_le (le_bytes (length p)) = length p" using assms(4) [OF p(1)] from_le_bytes by blast
  moreover have "compile x (art_spec a) (art_target a) = Ok a"
    using assms(1) compile_Ok(2,3) [OF assms(1)] by simp
  ultimately show ?thesis
    using assms(4) [OF p(1)] unfolding decode_def Let_def parts by (simp add: reject_def)
qed

text \<open>The cache is transparent: whatever the cache file contains, a successful \<open>cached\<close> returns
  exactly the artifact that compiling the requested specification for the requested target gives. A
  stale, foreign or forged file can only make it fail.\<close>

theorem cached_is_compile:
  assumes "cached x content write s t = Ok (a, hit)"
  shows "compile x s t = Ok a"
proof (cases content)
  case (FileBytes bytes)
  with assms have "decode x bytes = Ok a" "art_target a = t" "art_spec a = s"
    by (auto simp: cached_def outcome_simps)
  then show ?thesis using decode_sound by blast
qed (use assms in \<open>auto simp: cached_def outcome_simps\<close>)

section \<open>A concrete compilation\<close>

definition example_spec :: spec where
  "example_spec =
     \<lparr>spec_model = \<lparr>model_name = ''demo'', hidden = 8, intermediate = 16, vocab = 100, query_heads = 4, kv_heads = 2,
                   head_dim = 4, delta_heads = 2, delta_dim = 4, conv_width = 3, layers = [Delta, Full]\<rparr>,
      spec_prefill = \<lparr>mesh_tp = 2, mesh_cp = 2, mesh_sp = True\<rparr>, spec_decode = \<lparr>mesh_tp = 2, mesh_cp = 1, mesh_sp = False\<rparr>,
      spec_page_tokens = 4, spec_token_budget = 8, batch_buckets = [1, 2], context_buckets = [4, 8]\<rparr>"

definition example_externals :: "artifact \<Rightarrow> externals" where
  "example_externals a =
     \<lparr>key_json = (\<lambda>_. Inr [1]), artifact_json = (\<lambda>b. if b = a then Inr [7] else Inl ''unknown''),
      parse_artifact = (\<lambda>bytes. if bytes = [7] then Inr a else Inl ''unknown''),
      sha256 = (\<lambda>_. replicate 32 0), included_sources = []\<rparr>"

definition example_artifact :: artifact where
  "example_artifact =
     \<lparr>art_version = FORMAT_VERSION, art_key = concat (map hex_byte (replicate 32 0)), art_target = target_mock,
      art_spec = example_spec,
      art_ranks = concat (map (role_plans example_spec)
        [(Prefill, spec_prefill example_spec), (Decode, spec_decode example_spec)])\<rparr>"

lemma example_spec_valid: "validate_spec example_spec = Ok ()"
  by (simp add: validate_spec_def example_spec_def spec_dimensions_def check_mesh_def check_buckets_def reject_def Let_def)

lemma example_compiles: "compile (example_externals a) example_spec target_mock = Ok example_artifact"
  by (simp add: compile_def example_spec_valid cache_key_def example_externals_def example_artifact_def Let_def)

lemma in_role_plans:
  "cp < mesh_cp mesh \<Longrightarrow> tp < mesh_tp mesh \<Longrightarrow> plan_of_rank s role mesh cp tp \<in> set (role_plans s (role, mesh))"
  unfolding role_plans_def fst_conv snd_conv set_concat set_map set_upt
  by (rule UN_I [OF imageI [of cp]]) simp_all

lemma example_ranks:
  "plan_of_rank example_spec Prefill (spec_prefill example_spec) 0 0 \<in> set (art_ranks example_artifact)"
  "plan_of_rank example_spec Prefill (spec_prefill example_spec) 0 1 \<in> set (art_ranks example_artifact)"
  "plan_of_rank example_spec Prefill (spec_prefill example_spec) 1 0 \<in> set (art_ranks example_artifact)"
proof -
  have "plan_of_rank example_spec Prefill (spec_prefill example_spec) cp tp \<in> set (art_ranks example_artifact)"
    if "cp < 2" "tp < 2" for cp tp
    using that in_role_plans [of cp "spec_prefill example_spec" tp example_spec Prefill]
    by (simp add: example_artifact_def) (simp add: example_spec_def)
  then show "plan_of_rank example_spec Prefill (spec_prefill example_spec) 0 0 \<in> set (art_ranks example_artifact)"
    "plan_of_rank example_spec Prefill (spec_prefill example_spec) 0 1 \<in> set (art_ranks example_artifact)"
    "plan_of_rank example_spec Prefill (spec_prefill example_spec) 1 0 \<in> set (art_ranks example_artifact)"
    by auto
qed

lemma plan_rank_of [simp]: "plan_rank (plan_of_rank s role mesh cp tp) = \<lparr>rank_role = role, rank_tp = tp, rank_cp = cp\<rparr>"
  by (simp add: plan_of_rank_def)

theorem collectives_agree_witness:
  "filter (in_group (tp_group Prefill 0)) (plan_instructions (plan_of_rank example_spec Prefill (spec_prefill example_spec) 0 0)) =
   filter (in_group (tp_group Prefill 0)) (plan_instructions (plan_of_rank example_spec Prefill (spec_prefill example_spec) 0 1))"
  using collectives_agree [OF example_compiles [of example_artifact] example_ranks(1,2)] by simp

theorem sends_match_receives_witness:
  "sends (cp_group Prefill 0) 1 (plan_instructions (plan_of_rank example_spec Prefill (spec_prefill example_spec) 0 0)) =
   receives (cp_group Prefill 0) 0 (plan_instructions (plan_of_rank example_spec Prefill (spec_prefill example_spec) 1 0))"
  using sends_match_receives [OF example_compiles [of example_artifact] example_ranks(1,3)] by simp

theorem compiled_ranks_exact_witness: "distinct (map plan_rank (art_ranks example_artifact))"
  using compiled_ranks_exact [OF example_compiles [of example_artifact]] by (rule conjunct1)

theorem encode_decode_roundtrip_witness:
  "\<exists>bytes. encode (example_externals example_artifact) example_artifact = Ok bytes \<and>
     decode (example_externals example_artifact) bytes = Ok example_artifact"
proof -
  obtain bytes where enc: "encode (example_externals example_artifact) example_artifact = Ok bytes"
    by (simp add: encode_def example_externals_def)
  have "decode (example_externals example_artifact) bytes = Ok example_artifact"
    by (rule encode_decode_roundtrip [OF example_compiles enc]) (auto simp: example_externals_def split: if_splits)
  then show ?thesis using enc by blast
qed

theorem cached_is_compile_witness:
  "compile (example_externals example_artifact) example_spec target_mock = Ok example_artifact"
proof -
  have "cached (example_externals example_artifact) FileNotFound (\<lambda>_. Ok ()) example_spec target_mock = Ok (example_artifact, False)"
    by (simp add: cached_def example_compiles cache_key_def encode_def)
      (simp add: example_externals_def)
  then show ?thesis by (rule cached_is_compile)
qed

end
