(* ===== verification/Hybrid.thy ===== *)
theory Hybrid
  imports Compiler "HOL-Library.Word"
begin

text \<open>
  The hybrid state of a request and its execution on the orchestration mock
  (\<open>crates/inferfabric-runtime/src/lib.rs\<close>: \<open>HybridState\<close>, \<open>StepInput\<close>, \<open>StepOutput\<close> and the per-request
  part of \<open>MockBackend::execute\<close>). State markers are 64-bit words with wrapping arithmetic; an
  unchecked addition of the code is a branch that panics on overflow. The lemmas show that execution
  preserves the state schema, never panics, and does not depend on how a prompt is cut into chunks.
\<close>

record hybrid_state =
  consumed :: nat
  kv :: "64 word list list"
  recurrent :: "64 word list"
  conv :: "64 word list list"

definition full_layers :: "spec \<Rightarrow> nat" where
  "full_layers s = length (filter (\<lambda>x. x = Full) (layers (spec_model s)))"

definition hybrid_empty :: "spec \<Rightarrow> hybrid_state" where
  "hybrid_empty s =
     (let full = full_layers s; delta = length (layers (spec_model s)) - full in
      \<lparr>consumed = 0, kv = replicate full [], recurrent = replicate delta 0, conv = replicate delta []\<rparr>)"

definition validate_state :: "spec \<Rightarrow> hybrid_state \<Rightarrow> unit outcome" where
  "validate_state s st =
     (let empty = hybrid_empty s in
      reject (consumed st > max_context s \<or> length (kv st) \<noteq> length (kv empty)
              \<or> length (recurrent st) \<noteq> length (recurrent empty)
              \<or> length (conv st) \<noteq> length (conv empty)
              \<or> (\<exists>v \<in> set (kv st). length v \<noteq> consumed st)
              \<or> (\<exists>v \<in> set (conv st). length v \<noteq> min (consumed st) (conv_width (spec_model s))))
        (invalid ''hybrid state schema/frontier mismatch''))"

record state_binding =
  sb_slot :: nat
  sb_generation :: nat
  sb_pages :: "nat list"

record step_input =
  in_request :: nat
  in_epoch :: nat
  in_tokens :: "nat list"
  in_state :: hybrid_state
  in_binding :: state_binding

record step_output =
  out_request :: nat
  out_epoch :: nat
  next_token :: nat
  out_state :: hybrid_state

section \<open>One token\<close>

text \<open>\<open>a + b\<close> on \<open>u64\<close> without a check.\<close>

definition add_u64 :: "64 word \<Rightarrow> 64 word \<Rightarrow> 64 word outcome" where
  "add_u64 a b = (if unat a + unat b < 2 ^ 64 then Ok (a + b) else Panic)"

definition push_conv :: "nat \<Rightarrow> 64 word \<Rightarrow> 64 word list \<Rightarrow> 64 word list" where
  "push_conv width marker c = (let c' = c @ [marker] in if length c' > width then tl c' else c')"

definition run_token :: "spec \<Rightarrow> nat \<Rightarrow> hybrid_state \<Rightarrow> hybrid_state outcome" where
  "run_token s token st =
     and_then (reject (token \<ge> vocab (spec_model s)) (invalid ''token outside vocabulary'')) (\<lambda>_.
     and_then (add_u64 (word_of_nat (consumed st)) 1) (\<lambda>position.
     let marker = word_of_nat token * 31 + position in
     and_then (collect (\<lambda>(layer, r). and_then (add_u64 marker (word_of_nat layer)) (\<lambda>m. Ok (r * 33 + m)))
                 (enumerate 0 (recurrent st))) (\<lambda>rs.
     Ok (st\<lparr>kv := map (\<lambda>(layer, v). v @ [marker + word_of_nat layer]) (enumerate 0 (kv st)),
            recurrent := rs,
            conv := map (push_conv (conv_width (spec_model s)) marker) (conv st),
            consumed := consumed st + 1\<rparr>))))"

section \<open>One request\<close>

definition run_request :: "spec \<Rightarrow> step_input \<Rightarrow> step_output outcome" where
  "run_request s i =
     and_then (validate_state s (in_state i)) (\<lambda>_.
     and_then (reject (in_tokens i = [] \<or>
                 (case checked_add 64 (consumed (in_state i)) (length (in_tokens i)) of
                    None \<Rightarrow> True | Some n \<Rightarrow> n > max_context s)) (Capacity ''context'')) (\<lambda>_.
     and_then (fold_out (run_token s) (in_tokens i) (in_state i)) (\<lambda>st.
     and_then (ok_or (if in_tokens i = [] then None else Some (last (in_tokens i))) (invalid ''empty tokens'')) (\<lambda>last_token.
     if last_token + consumed st + 1 < 2 ^ 64
     then Ok \<lparr>out_request = in_request i, out_epoch = in_epoch i,
              next_token = (last_token + consumed st + 1) mod vocab (spec_model s), out_state = st\<rparr>
     else Panic))))"

section \<open>Schema preservation\<close>

definition state_ok :: "spec \<Rightarrow> hybrid_state \<Rightarrow> bool" where
  "state_ok s st \<longleftrightarrow> validate_state s st = Ok ()"

lemma full_layers_le: "full_layers s \<le> length (layers (spec_model s))"
  by (simp add: full_layers_def)

lemma state_ok_iff:
  "state_ok s st \<longleftrightarrow>
     consumed st \<le> max_context s \<and> length (kv st) = full_layers s \<and>
     length (recurrent st) = length (layers (spec_model s)) - full_layers s \<and>
     length (conv st) = length (layers (spec_model s)) - full_layers s \<and>
     (\<forall>v \<in> set (kv st). length v = consumed st) \<and>
     (\<forall>v \<in> set (conv st). length v = min (consumed st) (conv_width (spec_model s)))"
  by (auto simp: state_ok_def validate_state_def hybrid_empty_def Let_def outcome_simps not_less)

lemma empty_state_ok: "state_ok s (hybrid_empty s)"
  by (simp add: state_ok_iff hybrid_empty_def Let_def)

text \<open>The limits a validated specification puts on the arithmetic.\<close>

lemma small_spec:
  assumes "spec_ok s"
  shows "max_context s \<le> 16777216" "vocab (spec_model s) \<le> 16777216" "length (layers (spec_model s)) \<le> 4096"
proof -
  show "max_context s \<le> 16777216"
    using spec_ok_limits(2) [OF assms] max_context_bucket [OF assms] by blast
  show "vocab (spec_model s) \<le> 16777216"
    using spec_ok_limits(1) [OF assms] by (auto simp: spec_dimensions_def Let_def)
  show "length (layers (spec_model s)) \<le> 4096"
    using assms by (auto simp: spec_ok_def validate_spec_def Let_def outcome_simps not_less)
qed

lemma unat_small: "n < 2 ^ 64 \<Longrightarrow> unat (word_of_nat n :: 64 word) = n"
  by (simp add: unat_of_nat take_bit_eq_mod)

lemma marker_small:
  assumes "t < 16777216" and "n \<le> 16777217"
  shows "unat (word_of_nat t * 31 + word_of_nat n :: 64 word) = t * 31 + n"
proof -
  have "word_of_nat t * 31 + word_of_nat n = (word_of_nat (t * 31 + n) :: 64 word)" by simp
  then show ?thesis using unat_small [of "t * 31 + n"] assms by simp
qed

lemma run_token_cases:
  assumes spec: "spec_ok s" and ok: "state_ok s st" and room: "consumed st < max_context s"
  shows "run_token s token st = Err (invalid ''token outside vocabulary'') \<and> vocab (spec_model s) \<le> token \<or>
         token < vocab (spec_model s) \<and>
         (\<exists>st'. run_token s token st = Ok st' \<and> state_ok s st' \<and> consumed st' = Suc (consumed st))"
proof (cases "vocab (spec_model s) \<le> token")
  case True
  then show ?thesis by (simp add: run_token_def reject_def)
next
  case False
  note lim = small_spec [OF spec]
  let ?pos = "word_of_nat (consumed st) + 1 :: 64 word"
  let ?m = "word_of_nat token * 31 + ?pos"
  have pos: "add_u64 (word_of_nat (consumed st)) 1 = Ok ?pos"
    using lim room by (simp add: add_u64_def unat_small)
  have m: "unat ?m = token * 31 + (consumed st + 1)"
    using marker_small [of token "consumed st + 1"] False lim room by (simp add: ac_simps)
  have "collect (\<lambda>(layer, r). and_then (add_u64 ?m (word_of_nat layer)) (\<lambda>m. Ok (r * 33 + m))) (enumerate 0 (recurrent st))
      = Ok (map (\<lambda>(layer, r). r * 33 + (?m + word_of_nat layer)) (enumerate 0 (recurrent st)))"
  proof -
    have "add_u64 ?m (word_of_nat i) = Ok (?m + word_of_nat i)" if "i < length (recurrent st)" for i
      using that ok lim m False room by (auto simp: add_u64_def unat_small state_ok_iff)
    then show ?thesis by (simp add: collect_Ok_iff nth_enumerate_eq)
  qed
  then have run: "run_token s token st =
      Ok (st\<lparr>kv := map (\<lambda>(layer, v). v @ [?m + word_of_nat layer]) (enumerate 0 (kv st)),
             recurrent := map (\<lambda>(layer, r). r * 33 + (?m + word_of_nat layer)) (enumerate 0 (recurrent st)),
             conv := map (push_conv (conv_width (spec_model s)) ?m) (conv st), consumed := consumed st + 1\<rparr>)"
    using False pos by (simp add: run_token_def reject_def Let_def)
  have "length (push_conv w ?m v) = min (Suc n) w" if "length v = min n w" for v w n
    using that by (auto simp: push_conv_def Let_def min_def)
  then show ?thesis
    using ok room False unfolding run by (auto simp: state_ok_iff in_set_enumerate_eq)
qed

lemma run_tokens:
  assumes spec: "spec_ok s"
  shows "state_ok s st \<Longrightarrow> consumed st + length ts \<le> max_context s \<Longrightarrow>
    (case fold_out (run_token s) ts st of
       Ok st' \<Rightarrow> state_ok s st' \<and> consumed st' = consumed st + length ts \<and> (\<forall>t \<in> set ts. t < vocab (spec_model s))
     | Err e \<Rightarrow> e = invalid ''token outside vocabulary'' \<and> (\<exists>t \<in> set ts. vocab (spec_model s) \<le> t)
     | Panic \<Rightarrow> False)"
proof (induction ts arbitrary: st)
  case Nil
  then show ?case by simp
next
  case (Cons t ts)
  from run_token_cases [OF spec Cons.prems(1), of t] Cons.prems(2)
  consider "run_token s t st = Err (invalid ''token outside vocabulary'')" "vocab (spec_model s) \<le> t"
    | st' where "run_token s t st = Ok st'" "state_ok s st'" "consumed st' = Suc (consumed st)" "t < vocab (spec_model s)"
    by auto
  then show ?case
  proof cases
    case 1
    then show ?thesis by auto
  next
    case 2
    then show ?thesis using Cons.IH [of st'] Cons.prems(2) by (auto split: outcome.splits)
  qed
qed

text \<open>What one request gives: the whole case distinction.\<close>

lemma run_request_Ok:
  assumes spec: "spec_ok s"
  shows "run_request s i = Ok out \<longleftrightarrow>
    state_ok s (in_state i) \<and> in_tokens i \<noteq> [] \<and> consumed (in_state i) + length (in_tokens i) \<le> max_context s \<and>
    fold_out (run_token s) (in_tokens i) (in_state i) = Ok (out_state out) \<and>
    out = \<lparr>out_request = in_request i, out_epoch = in_epoch i,
           next_token = (last (in_tokens i) + consumed (out_state out) + 1) mod vocab (spec_model s), out_state = out_state out\<rparr>"
    (is "?L \<longleftrightarrow> ?R")
proof -
  note lim = small_spec [OF spec]
  have small: "last (in_tokens i) + consumed st + 1 < 2 ^ 64"
    if "state_ok s (in_state i)" "in_tokens i \<noteq> []" "consumed (in_state i) + length (in_tokens i) \<le> max_context s"
      "fold_out (run_token s) (in_tokens i) (in_state i) = Ok st" for st
  proof -
    have "last (in_tokens i) < vocab (spec_model s)" "consumed st \<le> max_context s"
      using run_tokens [OF spec that(1,3)] that(2,4) by (auto simp: state_ok_iff)
    then show ?thesis using lim by simp
  qed
  show ?thesis
  proof
    assume ?L
    then show ?R
      using lim by (auto simp: run_request_def outcome_simps checked_add_def state_ok_def split: if_splits)
  next
    assume R: ?R
    then show ?L
      using small [of "out_state out"] lim
      by (auto simp: run_request_def outcome_simps checked_add_def state_ok_def reject_def)
  qed
qed

lemma run_request_no_panic:
  assumes spec: "spec_ok s"
  shows "run_request s i \<noteq> Panic"
proof
  assume p: "run_request s i = Panic"
  note lim = small_spec [OF spec]
  from p have st: "state_ok s (in_state i)" "in_tokens i \<noteq> []" "consumed (in_state i) + length (in_tokens i) \<le> max_context s"
    using lim by (auto simp: run_request_def outcome_simps checked_add_def state_ok_def validate_state_def Let_def split: if_splits)
  note toks = run_tokens [OF spec st(1,3)]
  have "fold_out (run_token s) (in_tokens i) (in_state i) \<noteq> Panic" using toks by auto
  then obtain st' where st': "fold_out (run_token s) (in_tokens i) (in_state i) = Ok st'"
    "\<not> last (in_tokens i) + consumed st' + 1 < 2 ^ 64"
    using p st(2) by (auto simp: run_request_def outcome_simps validate_state_def Let_def split: if_splits)
  then have "last (in_tokens i) < vocab (spec_model s)" "consumed st' \<le> max_context s"
    using toks st(2) by (auto simp: state_ok_iff)
  then show False using st'(2) lim by simp
qed

lemma run_request_is_ok:
  assumes "spec_ok s"
  shows "is_ok (run_request s i) \<longleftrightarrow>
       state_ok s (in_state i) \<and> in_tokens i \<noteq> [] \<and> consumed (in_state i) + length (in_tokens i) \<le> max_context s \<and>
       (\<forall>t \<in> set (in_tokens i). t < vocab (spec_model s))"
proof -
  have "(\<exists>out. run_request s i = Ok out) \<longleftrightarrow>
      state_ok s (in_state i) \<and> in_tokens i \<noteq> [] \<and> consumed (in_state i) + length (in_tokens i) \<le> max_context s \<and>
      (\<forall>t \<in> set (in_tokens i). t < vocab (spec_model s))" (is "?L \<longleftrightarrow> ?R")
  proof
    assume ?L
    then show ?R using run_tokens [OF assms, of "in_state i" "in_tokens i"] by (auto simp: run_request_Ok [OF assms])
  next
    assume R: ?R
    then obtain st where st: "fold_out (run_token s) (in_tokens i) (in_state i) = Ok st"
      using run_tokens [OF assms, of "in_state i" "in_tokens i"] by (fastforce split: outcome.splits)
    then show ?L
      using R by (intro exI [of _ "\<lparr>out_request = in_request i, out_epoch = in_epoch i,
        next_token = (last (in_tokens i) + consumed st + 1) mod vocab (spec_model s), out_state = st\<rparr>"])
        (simp add: run_request_Ok [OF assms])
  qed
  then show ?thesis by (simp add: is_ok_iff)
qed

section \<open>Properties\<close>

text \<open>C22. Chunked prefill computes the same as monolithic prefill: splitting the tokens of a request at
  any inner point and running the second chunk from the state the first one left gives the same final
  state and the same next token, and the whole run succeeds exactly when both chunks do.\<close>

theorem chunked_matches_monolithic:
  assumes "spec_ok s" and "xs \<noteq> []" and "ys \<noteq> []"
  shows "run_request s (i\<lparr>in_tokens := xs @ ys\<rparr>) = Ok out \<longleftrightarrow>
    (\<exists>mid. run_request s (i\<lparr>in_tokens := xs\<rparr>) = Ok mid \<and>
           run_request s (i\<lparr>in_tokens := ys, in_state := out_state mid\<rparr>) = Ok out)"
proof
  assume "run_request s (i\<lparr>in_tokens := xs @ ys\<rparr>) = Ok out"
  then have all: "state_ok s (in_state i)" "consumed (in_state i) + length (xs @ ys) \<le> max_context s"
    "fold_out (run_token s) (xs @ ys) (in_state i) = Ok (out_state out)"
    "out = \<lparr>out_request = in_request i, out_epoch = in_epoch i,
        next_token = (last (xs @ ys) + consumed (out_state out) + 1) mod vocab (spec_model s), out_state = out_state out\<rparr>"
    by (simp_all add: run_request_Ok [OF assms(1)])
  then obtain st where st: "fold_out (run_token s) xs (in_state i) = Ok st" "fold_out (run_token s) ys st = Ok (out_state out)"
    by (auto simp: fold_out_append outcome_simps)
  have "state_ok s st" "consumed st = consumed (in_state i) + length xs"
    using run_tokens [OF assms(1) all(1), of xs] all(2) st(1) by auto
  then show "\<exists>mid. run_request s (i\<lparr>in_tokens := xs\<rparr>) = Ok mid \<and>
      run_request s (i\<lparr>in_tokens := ys, in_state := out_state mid\<rparr>) = Ok out"
    using all st assms
    by (intro exI [of _ "\<lparr>out_request = in_request i, out_epoch = in_epoch i,
        next_token = (last xs + consumed st + 1) mod vocab (spec_model s), out_state = st\<rparr>"])
      (simp add: run_request_Ok [OF assms(1)])
next
  assume "\<exists>mid. run_request s (i\<lparr>in_tokens := xs\<rparr>) = Ok mid \<and>
      run_request s (i\<lparr>in_tokens := ys, in_state := out_state mid\<rparr>) = Ok out"
  then obtain mid where m: "run_request s (i\<lparr>in_tokens := xs\<rparr>) = Ok mid"
    "run_request s (i\<lparr>in_tokens := ys, in_state := out_state mid\<rparr>) = Ok out" by blast
  then have a: "state_ok s (in_state i)" "consumed (in_state i) + length xs \<le> max_context s"
    "fold_out (run_token s) xs (in_state i) = Ok (out_state mid)"
    and b: "consumed (out_state mid) + length ys \<le> max_context s" "fold_out (run_token s) ys (out_state mid) = Ok (out_state out)"
    "out = \<lparr>out_request = in_request i, out_epoch = in_epoch i,
        next_token = (last ys + consumed (out_state out) + 1) mod vocab (spec_model s), out_state = out_state out\<rparr>"
    by (simp_all add: run_request_Ok [OF assms(1)])
  have "consumed (out_state mid) = consumed (in_state i) + length xs"
    using run_tokens [OF assms(1) a(1,2)] a(3) by simp
  then show "run_request s (i\<lparr>in_tokens := xs @ ys\<rparr>) = Ok out"
    using a b assms by (simp add: run_request_Ok [OF assms(1)] fold_out_append)
qed

text \<open>A request never panics, and it succeeds exactly when its state has the schema of the
  specification, it has tokens, they fit the context and all of them are in the vocabulary; then the
  new state has the schema again, the frontier advanced by the tokens, and the next token is in the
  vocabulary.\<close>

theorem run_request_total:
  assumes "spec_ok s"
  shows "run_request s i \<noteq> Panic \<and>
    (is_ok (run_request s i) \<longleftrightarrow>
       state_ok s (in_state i) \<and> in_tokens i \<noteq> [] \<and> consumed (in_state i) + length (in_tokens i) \<le> max_context s \<and>
       (\<forall>t \<in> set (in_tokens i). t < vocab (spec_model s))) \<and>
    (\<forall>out. run_request s i = Ok out \<longrightarrow>
       state_ok s (out_state out) \<and> consumed (out_state out) = consumed (in_state i) + length (in_tokens i) \<and>
       next_token out < vocab (spec_model s) \<and> out_request out = in_request i \<and> out_epoch out = in_epoch i)"
proof (intro conjI allI impI)
  show "run_request s i \<noteq> Panic" using run_request_no_panic [OF assms] .
  show "is_ok (run_request s i) \<longleftrightarrow>
       state_ok s (in_state i) \<and> in_tokens i \<noteq> [] \<and> consumed (in_state i) + length (in_tokens i) \<le> max_context s \<and>
       (\<forall>t \<in> set (in_tokens i). t < vocab (spec_model s))"
    by (rule run_request_is_ok [OF assms])
  fix out assume out: "run_request s i = Ok out"
  then have o: "state_ok s (in_state i)" "consumed (in_state i) + length (in_tokens i) \<le> max_context s"
    "fold_out (run_token s) (in_tokens i) (in_state i) = Ok (out_state out)"
    "out = \<lparr>out_request = in_request i, out_epoch = in_epoch i,
           next_token = (last (in_tokens i) + consumed (out_state out) + 1) mod vocab (spec_model s), out_state = out_state out\<rparr>"
    by (simp_all add: run_request_Ok [OF assms])
  show "state_ok s (out_state out)" "consumed (out_state out) = consumed (in_state i) + length (in_tokens i)"
    using run_tokens [OF assms o(1,2)] o(3) by simp_all
  show "next_token out < vocab (spec_model s)" "out_request out = in_request i" "out_epoch out = in_epoch i"
    using spec_ok_pos(1) [OF assms] by (subst o(4), simp)+
qed

definition example_input :: step_input where
  "example_input = \<lparr>in_request = 3, in_epoch = 1, in_tokens = [5, 6], in_state = hybrid_empty example_spec,
     in_binding = \<lparr>sb_slot = 0, sb_generation = 1, sb_pages = [0, 1]\<rparr>\<rparr>"

lemma example_spec_ok: "spec_ok example_spec"
  by (simp add: spec_ok_def example_spec_valid)

lemma example_spec_sizes: "max_context example_spec = 8" "vocab (spec_model example_spec) = 100"
  by (simp_all add: max_context_def example_spec_def)

theorem run_request_total_witness:
  "\<exists>out. run_request example_spec example_input = Ok out \<and> consumed (out_state out) = 2"
proof -
  have "is_ok (run_request example_spec example_input)"
    using run_request_total [OF example_spec_ok, of example_input] empty_state_ok [of example_spec]
    by (simp add: example_input_def example_spec_sizes hybrid_empty_def Let_def)
  then obtain out where out: "run_request example_spec example_input = Ok out" by (auto simp: is_ok_iff)
  then have "consumed (out_state out) = 2"
    using run_request_total [OF example_spec_ok, of example_input] by (simp add: example_input_def hybrid_empty_def Let_def)
  then show ?thesis using out by blast
qed

theorem chunked_matches_monolithic_witness:
  "\<exists>mid out. run_request example_spec (example_input\<lparr>in_tokens := [5] @ [6]\<rparr>) = Ok out \<and>
     run_request example_spec (example_input\<lparr>in_tokens := [5]\<rparr>) = Ok mid \<and>
     run_request example_spec (example_input\<lparr>in_tokens := [6], in_state := out_state mid\<rparr>) = Ok out"
proof -
  have "example_input\<lparr>in_tokens := [5] @ [6]\<rparr> = example_input" by (simp add: example_input_def)
  moreover obtain out where "run_request example_spec example_input = Ok out"
  proof -
    have "is_ok (run_request example_spec example_input)"
      using run_request_is_ok [OF example_spec_ok, of example_input] empty_state_ok [of example_spec]
      by (simp add: example_input_def example_spec_sizes hybrid_empty_def Let_def)
    then show ?thesis using that by (auto simp: is_ok_iff)
  qed
  ultimately show ?thesis
    using chunked_matches_monolithic [OF example_spec_ok, of "[5]" "[6]" example_input out] by auto
qed

end
