(* ===== verification/Runtime.thy ===== *)
theory Runtime
  imports Hybrid
begin

text \<open>
  The backend contract, the two backends of the source and the runtime of one rank
  (\<open>crates/inferfabric-runtime/src/lib.rs\<close>: \<open>Backend\<close>, \<open>MockBackend\<close>, \<open>AscendBackend\<close>, \<open>Runtime\<close>,
  \<open>WorkerGroup::step\<close>). A backend is a record of operations on a state of its own type, so the
  runtime is verified for every backend; log entries are kept as data instead of formatted text.
\<close>

section \<open>The backend contract\<close>

datatype weight_source = MetadataOnly | Safetensors string

record native_bundle =
  bundle_backend :: backend_kind
  bundle_identity :: string

record device_region =
  region_buffer :: nat
  region_offset :: nat
  region_bytes :: nat

record 'b backend =
  be_kind :: backend_kind
  be_compile_kernels :: "artifact \<Rightarrow> ('b, native_bundle) op"
  be_prepare :: "rank_plan \<Rightarrow> native_bundle \<Rightarrow> ('b, unit) op"
  be_upload_weights :: "weight_source \<Rightarrow> ('b, unit) op"
  be_allocate :: "nat \<Rightarrow> ('b, nat) op"
  be_release :: "nat \<Rightarrow> ('b, unit) op"
  be_state_region :: "nat \<Rightarrow> nat \<Rightarrow> nat \<Rightarrow> ('b, device_region) op"
  be_warmup :: "spec \<Rightarrow> ('b, unit) op"
  be_capture :: "bucket \<Rightarrow> ('b, nat) op"
  be_validate_graph :: "nat \<Rightarrow> bucket \<Rightarrow> ('b, unit) op"
  be_reset_scratch :: "('b, unit) op"
  be_execute :: "rank_plan \<Rightarrow> spec \<Rightarrow> step_input list \<Rightarrow> nat option \<Rightarrow> ('b, step_output list) op"
  be_communicate :: "instruction \<Rightarrow> ('b, unit) op"
  be_synchronize :: "('b, unit) op"
  be_close :: "('b, unit) op"

text \<open>The default methods of the trait; \<open>AscendBackend\<close> keeps all of them.\<close>

definition not_implemented :: "string \<Rightarrow> ('b, 'a) op" where
  "not_implemented what b = (Err (NotImplemented what), b)"

definition ascend_backend :: "unit backend" where
  "ascend_backend =
     \<lparr>be_kind = Ascend,
      be_compile_kernels = (\<lambda>_. not_implemented ''Ascend kernel compilation/loading''),
      be_prepare = (\<lambda>_ _. not_implemented ''Ascend resource preparation''),
      be_upload_weights = (\<lambda>_. not_implemented ''Ascend weight upload''),
      be_allocate = (\<lambda>_. not_implemented ''Ascend allocation''),
      be_release = (\<lambda>_. not_implemented ''Ascend buffer release''),
      be_state_region = (\<lambda>_ _ _. not_implemented ''Ascend state region''),
      be_warmup = (\<lambda>_. not_implemented ''Ascend warmup''),
      be_capture = (\<lambda>_. not_implemented ''ACL Graph capture''),
      be_validate_graph = (\<lambda>_ _. not_implemented ''ACL Graph validation''),
      be_reset_scratch = not_implemented ''Ascend scratch reset'',
      be_execute = (\<lambda>_ _ _ _. not_implemented ''Ascend prefill/decode''),
      be_communicate = (\<lambda>_. not_implemented ''HCCL communication''),
      be_synchronize = not_implemented ''ACL synchronization'',
      be_close = not_implemented ''Ascend cleanup''\<rparr>"

section \<open>The mock backend\<close>

record mock =
  mock_next :: nat
  mock_buffers :: "(nat, nat) btmap"
  mock_graphs :: "(nat, bucket) btmap"

definition mock_default :: mock where
  "mock_default = \<lparr>mock_next = 0, mock_buffers = [], mock_graphs = []\<rparr>"

definition mock_id :: "(mock, nat) op" where
  "mock_id b = try_op (fit 64 (mock_next b + 1)) (\<lambda>n b. (Ok n, b\<lparr>mock_next := n\<rparr>)) b"

definition mock_compile_kernels :: "artifact \<Rightarrow> (mock, native_bundle) op" where
  "mock_compile_kernels a b = (Ok \<lparr>bundle_backend = Mock, bundle_identity = art_key a\<rparr>, b)"

definition mock_prepare :: "rank_plan \<Rightarrow> native_bundle \<Rightarrow> (mock, unit) op" where
  "mock_prepare p bundle b = (reject (bundle_backend bundle \<noteq> Mock) (invalid ''native backend mismatch''), b)"

fun mock_upload_weights :: "weight_source \<Rightarrow> (mock, unit) op" where
  "mock_upload_weights MetadataOnly b = (Ok (), b)"
| "mock_upload_weights (Safetensors path) b = (Err (NotImplemented ''mock tensor weights''), b)"

definition mock_allocate :: "nat \<Rightarrow> (mock, nat) op" where
  "mock_allocate bytes = bind_op mock_id (\<lambda>i b. (Ok i, b\<lparr>mock_buffers := bt_insert i bytes (mock_buffers b)\<rparr>))"

definition mock_release :: "nat \<Rightarrow> (mock, unit) op" where
  "mock_release h b =
     try_op (ok_or (map_of (mock_buffers b) h) (invalid ''unknown buffer''))
       (\<lambda>_ b. (Ok (), b\<lparr>mock_buffers := bt_remove h (mock_buffers b)\<rparr>)) b"

definition mock_state_region :: "nat \<Rightarrow> nat \<Rightarrow> nat \<Rightarrow> (mock, device_region) op" where
  "mock_state_region h offset bytes b =
     (and_then (ok_or (map_of (mock_buffers b) h) (invalid ''unknown buffer'')) (\<lambda>n.
      and_then (reject (case checked_add 64 offset bytes of None \<Rightarrow> True | Some e \<Rightarrow> e > n) (invalid ''region bounds'')) (\<lambda>_.
      Ok \<lparr>region_buffer = h, region_offset = offset, region_bytes = bytes\<rparr>)), b)"

definition mock_capture :: "bucket \<Rightarrow> (mock, nat) op" where
  "mock_capture k = bind_op mock_id (\<lambda>i b. (Ok i, b\<lparr>mock_graphs := bt_insert i k (mock_graphs b)\<rparr>))"

definition mock_validate_graph :: "nat \<Rightarrow> bucket \<Rightarrow> (mock, unit) op" where
  "mock_validate_graph g k b = (reject (map_of (mock_graphs b) g \<noteq> Some k) (invalid ''unknown graph''), b)"

definition ok_op :: "(mock, unit) op" where
  "ok_op b = (Ok (), b)"

text \<open>A graph bounds the batch and takes one token per request.\<close>

definition check_graph :: "mock \<Rightarrow> step_input list \<Rightarrow> nat option \<Rightarrow> unit outcome" where
  "check_graph b inputs graph =
     (case graph of
        None \<Rightarrow> Ok ()
      | Some g \<Rightarrow>
          and_then (ok_or (map_of (mock_graphs b) g) (invalid ''unknown graph'')) (\<lambda>k.
          and_then (reject (length inputs > bucket_batch k) (invalid ''graph capacity'')) (\<lambda>_.
          check_all (\<lambda>i.
            and_then (reject (length (in_tokens i) \<noteq> 1) (invalid ''graph capacity'')) (\<lambda>_.
            and_then (fit 64 (consumed (in_state i) + 1)) (\<lambda>n.
            reject (n > bucket_context k) (invalid ''graph capacity'')))) inputs)))"

definition mock_execute :: "rank_plan \<Rightarrow> spec \<Rightarrow> step_input list \<Rightarrow> nat option \<Rightarrow> (mock, step_output list) op" where
  "mock_execute p s inputs graph =
     bind_op (each_op (\<lambda>i. case i of Communication _ _ _ _ \<Rightarrow> ok_op | Fence \<Rightarrow> ok_op | Kernel _ _ \<Rightarrow> ok_op) (plan_instructions p))
       (\<lambda>_ b. (and_then (check_graph b inputs graph) (\<lambda>_. collect (run_request s) inputs), b))"

definition mock_close :: "(mock, unit) op" where
  "mock_close b = (Ok (), b\<lparr>mock_graphs := [], mock_buffers := []\<rparr>)"

definition mock_backend :: "mock backend" where
  "mock_backend =
     \<lparr>be_kind = Mock, be_compile_kernels = mock_compile_kernels, be_prepare = mock_prepare,
      be_upload_weights = mock_upload_weights, be_allocate = mock_allocate, be_release = mock_release,
      be_state_region = mock_state_region, be_warmup = (\<lambda>_. ok_op), be_capture = mock_capture,
      be_validate_graph = mock_validate_graph, be_reset_scratch = ok_op, be_execute = mock_execute,
      be_communicate = (\<lambda>_. ok_op), be_synchronize = ok_op, be_close = mock_close\<rparr>"

section \<open>The runtime\<close>

datatype stage =
    StValidate | StCompile | StPrepare | StWarmup | StCapture | StValidateReplay | StReset | StReady | StFailed | StClosed

text \<open>\<open>format!("{stage:?}")\<close>.\<close>

fun stage_name :: "stage \<Rightarrow> string" where
  "stage_name StValidate = ''Validate''" | "stage_name StCompile = ''Compile''" | "stage_name StPrepare = ''Prepare''"
| "stage_name StWarmup = ''Warmup''" | "stage_name StCapture = ''Capture''"
| "stage_name StValidateReplay = ''ValidateReplay''" | "stage_name StReset = ''Reset''" | "stage_name StReady = ''Ready''"
| "stage_name StFailed = ''Failed''" | "stage_name StClosed = ''Closed''"

datatype event =
    EvStartup rank stage
  | EvStartupFailed
  | EvCapture rank bucket
  | EvMetadata rank nat nat nat nat "nat list"
  | EvReplay rank nat nat
  | EvPrefill rank nat
  | EvComm rank instruction
  | EvExecute rank nat
  | EvClosed rank

record 'b runtime =
  rt_backend :: 'b
  rt_artifact :: artifact
  rt_plan :: rank_plan
  rt_stage :: stage
  rt_graphs :: "(bucket, nat) btmap"
  rt_log :: "event list"
  rt_buffer :: "nat option"

definition runtime_new :: "'b \<Rightarrow> artifact \<Rightarrow> rank_plan \<Rightarrow> event list \<Rightarrow> 'b runtime" where
  "runtime_new b a p log =
     \<lparr>rt_backend = b, rt_artifact = a, rt_plan = p, rt_stage = StValidate, rt_graphs = [], rt_log = log, rt_buffer = None\<rparr>"

definition trace :: "event \<Rightarrow> ('b runtime, unit) op" where
  "trace e r = (Ok (), r\<lparr>rt_log := rt_log r @ [e]\<rparr>)"

definition on_backend :: "('b, 'a) op \<Rightarrow> ('b runtime, 'a) op" where
  "on_backend m r = (case m (rt_backend r) of (res, b) \<Rightarrow> (res, r\<lparr>rt_backend := b\<rparr>))"

definition next_op :: "('s, unit) op \<Rightarrow> ('s, 'a) op \<Rightarrow> ('s, 'a) op" where
  "next_op m k = bind_op m (\<lambda>_. k)"

definition enter :: "stage \<Rightarrow> stage option \<Rightarrow> ('b runtime, unit) op" where
  "enter st inject r =
     next_op (trace (EvStartup (plan_rank (rt_plan r)) st))
       (\<lambda>r. (reject (inject = Some st) (Backend (''injected failure at '' @ stage_name st)), r)) (r\<lparr>rt_stage := st\<rparr>)"

definition capture_input :: "spec \<Rightarrow> step_input" where
  "capture_input s =
     \<lparr>in_request = 0, in_epoch = 0, in_tokens = [1], in_state = hybrid_empty s,
      in_binding = \<lparr>sb_slot = 0, sb_generation = 0, sb_pages = [0]\<rparr>\<rparr>"

text \<open>The body of the capture loop for one bucket.\<close>

definition capture_bucket :: "'b backend \<Rightarrow> stage option \<Rightarrow> bucket \<Rightarrow> ('b runtime, unit) op" where
  "capture_bucket be inject k r =
     (let plan = rt_plan r; s = art_spec (rt_artifact r) in
      next_op (enter StCapture inject)
      (bind_op (on_backend (be_capture be k)) (\<lambda>g.
      next_op (trace (EvCapture (plan_rank plan) k))
      (next_op (enter StValidateReplay inject)
      (next_op (on_backend (be_validate_graph be g k))
      (bind_op (on_backend (be_execute be plan s [capture_input s] (Some g))) (\<lambda>_.
      next_op (on_backend (be_synchronize be))
      (\<lambda>r. (Ok (), r\<lparr>rt_graphs := bt_insert k g (rt_graphs r)\<rparr>)))))))) r)"

definition buckets_of :: "spec \<Rightarrow> bucket list" where
  "buckets_of s = concat (map (\<lambda>b. map (Bucket b) (context_buckets s)) (batch_buckets s))"

definition start_inner :: "externals \<Rightarrow> 'b backend \<Rightarrow> stage option \<Rightarrow> ('b runtime, unit) op" where
  "start_inner x be inject r =
     (let a = rt_artifact r; plan = rt_plan r; s = art_spec a in
      next_op (enter StValidate inject)
      (next_op (\<lambda>r. (validate_spec s, r))
      (bind_op (\<lambda>r. (compile x s (art_target a), r)) (\<lambda>fresh.
      next_op (\<lambda>r. (reject (a \<noteq> fresh \<or> plan \<notin> set (art_ranks a)) (invalid ''invalid executable artifact/rank''), r))
      (next_op (\<lambda>r. (reject (target_backend (art_target a) \<noteq> be_kind be)
                       (invalid ''artifact/backend mismatch; no automatic fallback''), r))
      (next_op (enter StCompile inject)
      (bind_op (on_backend (be_compile_kernels be a)) (\<lambda>bundle.
      next_op (enter StPrepare inject)
      (next_op (on_backend (be_prepare be plan bundle))
      (next_op (on_backend (be_upload_weights be MetadataOnly))
      (bind_op (on_backend (be_allocate be 4096)) (\<lambda>h.
      next_op (\<lambda>r. (Ok (), r\<lparr>rt_buffer := Some h\<rparr>))
      (next_op (enter StWarmup inject)
      (next_op (on_backend (be_warmup be s))
      (next_op (if rank_role (plan_rank plan) = Decode then each_op (capture_bucket be inject) (buckets_of s)
                else (\<lambda>r. (Ok (), r)))
      (next_op (enter StReset inject)
      (next_op (on_backend (be_reset_scratch be))
      (enter StReady inject))))))))))))))))) r)"

definition runtime_start :: "externals \<Rightarrow> 'b backend \<Rightarrow> stage option \<Rightarrow> ('b runtime, unit) op" where
  "runtime_start x be inject r =
     (if rt_stage r \<noteq> StValidate then (Err (invalid ''startup may only run once''), r)
      else case start_inner x be inject r of
        (Err e, r') \<Rightarrow> (Err e, snd (trace EvStartupFailed (snd (on_backend (be_close be) (r'\<lparr>rt_stage := StFailed\<rparr>)))))
      | (res, r') \<Rightarrow> (res, r'))"

section \<open>Steps\<close>

text \<open>The binding check of \<open>step\<close>, one input at a time, with the slots and pages seen so far.\<close>

fun check_bindings :: "nat list \<Rightarrow> nat list \<Rightarrow> step_input list \<Rightarrow> ('b runtime, unit) op" where
  "check_bindings slots pages [] r = (Ok (), r)"
| "check_bindings slots pages (i # is) r =
     (let b = in_binding i; page_tokens = spec_page_tokens (art_spec (rt_artifact r)) in
      if sb_slot b \<in> set slots \<or> \<not> distinct (sb_pages b) \<or> (\<exists>p \<in> set (sb_pages b). p \<in> set pages)
      then (Err (invalid ''invalid/aliased step state bindings''), r)
      else try_op (fit 64 (consumed (in_state i) + length (in_tokens i))) (\<lambda>n r.
        if page_tokens = 0 then (Panic, r)
        else if length (sb_pages b) < div_ceil n page_tokens
        then (Err (invalid ''invalid/aliased step state bindings''), r)
        else next_op (trace (EvMetadata (plan_rank (rt_plan r)) (in_request i) (in_epoch i) (sb_slot b) (sb_generation b) (sb_pages b)))
          (check_bindings (sb_slot b # slots) (sb_pages b @ pages) is) r) r)"

definition select_graph :: "step_input list \<Rightarrow> ('b runtime, nat option) op" where
  "select_graph inputs r =
     (let s = art_spec (rt_artifact r); k = plan_rank (rt_plan r) in
      if rank_role k = Decode then
        let need = max_of (map (\<lambda>i. consumed (in_state i) + length (in_tokens i)) inputs) in
        try_op (ok_or (find (\<lambda>n. n \<ge> length inputs) (batch_buckets s)) (Capacity ''batch'')) (\<lambda>batch.
        try_op (ok_or (find (\<lambda>n. n \<ge> need) (context_buckets s)) (Capacity ''context'')) (\<lambda>ctx.
        next_op (trace (EvReplay k batch ctx)) (\<lambda>r.
        try_op (ok_or (map_of (rt_graphs r) (Bucket batch ctx)) (invalid ''missing startup graph''))
          (\<lambda>g r. (Ok (Some g), r)) r))) r
      else next_op (trace (EvPrefill k (length inputs))) (\<lambda>r. (Ok None, r)) r)"

definition trace_comms :: "('b runtime, unit) op" where
  "trace_comms r =
     (let k = plan_rank (rt_plan r) in
      each_op (\<lambda>i. case i of Communication _ _ _ _ \<Rightarrow> trace (EvComm k i) | _ \<Rightarrow> (\<lambda>r. (Ok (), r)))
        (plan_instructions (rt_plan r)) r)"

definition check_output :: "spec \<Rightarrow> step_input \<times> step_output \<Rightarrow> unit outcome" where
  "check_output s io =
     (let i = fst io; out = snd io in
      and_then (validate_state s (out_state out)) (\<lambda>_.
      reject (out_request out \<noteq> in_request i \<or> out_epoch out \<noteq> in_epoch i \<or> next_token out \<ge> vocab (spec_model s)
              \<or> consumed (out_state out) \<noteq> consumed (in_state i) + length (in_tokens i))
        (invalid ''backend request/frontier mismatch'')))"

definition runtime_step :: "'b backend \<Rightarrow> step_input list \<Rightarrow> ('b runtime, step_output list) op" where
  "runtime_step be inputs r =
     (let plan = rt_plan r; s = art_spec (rt_artifact r) in
      if rt_stage r \<noteq> StReady then (Err (invalid ''worker not ready''), r)
      else if inputs = [] then (Err (invalid ''empty step''), r)
      else
        next_op (check_bindings [] [] inputs)
        (bind_op (select_graph inputs) (\<lambda>graph.
        next_op trace_comms
        (next_op (trace (EvExecute (plan_rank plan) (length (plan_instructions plan))))
        (bind_op (on_backend (be_execute be plan s inputs graph)) (\<lambda>outputs.
        next_op (on_backend (be_synchronize be)) (\<lambda>r.
        (and_then (reject (length outputs \<noteq> length inputs) (invalid ''backend result count'')) (\<lambda>_.
         and_then (check_all (check_output s) (zip inputs outputs)) (\<lambda>_. Ok outputs)), r))))))) r)"

definition runtime_close :: "'b backend \<Rightarrow> ('b runtime, unit) op" where
  "runtime_close be r =
     (if rt_stage r = StClosed then (Ok (), r)
      else next_op (on_backend (be_synchronize be))
        (next_op (on_backend (be_close be)) (\<lambda>r.
         trace (EvClosed (plan_rank (rt_plan r))) (r\<lparr>rt_buffer := None, rt_graphs := [], rt_stage := StClosed\<rparr>))) r)"

section \<open>Worker groups\<close>

text \<open>A worker thread owns a runtime; a thread that has panicked is gone, and the ends of its channels
  with it.\<close>

type_synonym 'b workers = "'b runtime option list"

definition sending_failed :: error where
  "sending_failed = Backend ''sending on a closed channel''"

definition receiving_failed :: error where
  "receiving_failed = Backend ''receiving on a closed channel''"

definition receive :: "'a outcome \<Rightarrow> 'a outcome" where
  "receive r = (case r of Panic \<Rightarrow> Err receiving_failed | _ \<Rightarrow> r)"

definition start_worker :: "externals \<Rightarrow> artifact \<Rightarrow> rank_plan \<Rightarrow> mock runtime option outcome" where
  "start_worker x a p =
     (case runtime_start x mock_backend None (runtime_new mock_default a p []) of
        (res, r) \<Rightarrow> and_then (receive res) (\<lambda>_. Ok (Some r)))"

definition group_mock :: "externals \<Rightarrow> artifact \<Rightarrow> role \<Rightarrow> mock workers outcome" where
  "group_mock x a role =
     and_then (reject (target_backend (art_target a) \<noteq> Mock) (invalid ''mock workers require mock artifact'')) (\<lambda>_.
     and_then (collect (start_worker x a) (filter (\<lambda>p. rank_role (plan_rank p) = role) (art_ranks a))) (\<lambda>ws.
     and_then (reject (ws = []) (invalid ''empty worker group'')) (\<lambda>_. Ok ws)))"

text \<open>\<open>WorkerGroup::step\<close>: the command goes to the workers in order, then the replies are read in
  order; the first error is the result, otherwise the outputs of the first worker.\<close>

fun send_step :: "'b backend \<Rightarrow> step_input list \<Rightarrow> 'b workers \<Rightarrow> step_output list outcome list outcome \<times> 'b workers" where
  "send_step be inputs [] = (Ok [], [])"
| "send_step be inputs (None # ws) = (Err sending_failed, None # ws)"
| "send_step be inputs (Some r # ws) =
     (let (res, r') = runtime_step be inputs r; (rest, ws') = send_step be inputs ws in
      (and_then rest (\<lambda>rs. Ok (res # rs)), (if res = Panic then None else Some r') # ws'))"

fun leader_reply :: "step_output list outcome list \<Rightarrow> step_output list outcome" where
  "leader_reply [] = Err (invalid ''no leader'')"
| "leader_reply (r # rs) =
     and_then (receive r) (\<lambda>out. and_then (check_all (\<lambda>r. and_then (receive r) (\<lambda>_. Ok ())) rs) (\<lambda>_. Ok out))"

definition group_step :: "'b backend \<Rightarrow> step_input list \<Rightarrow> ('b workers, step_output list) op" where
  "group_step be inputs ws =
     (let (sent, ws') = send_step be inputs ws in (and_then sent leader_reply, ws'))"

text \<open>\<open>Command::Stop\<close> to every worker that is left: the loop ends and the runtime is closed.\<close>

definition group_drop :: "'b backend \<Rightarrow> 'b workers \<Rightarrow> 'b workers" where
  "group_drop be ws = map (map_option (\<lambda>r. snd (runtime_close be r))) ws"

end
