(* ===== verification/Runtime_Thms.thy ===== *)
theory Runtime_Thms
  imports Runtime
begin

text \<open>
  Properties of the runtime of one rank: for every backend, startup either ends ready or fails
  closed and a successful step satisfies its contract; on the mock backend, startup captures every
  bucket and a well-formed decode step is served from a captured graph.
\<close>

section \<open>Sequencing\<close>

lemma next_op_Ok: "next_op m k s = (Ok y, u) \<longleftrightarrow> (\<exists>t. m s = (Ok (), t) \<and> k t = (Ok y, u))"
  by (auto simp: next_op_def bind_op_eq)

lemma bind_op_Ok: "bind_op m k s = (Ok y, u) \<longleftrightarrow> (\<exists>x t. m s = (Ok x, t) \<and> k x t = (Ok y, u))"
  by (auto simp: bind_op_eq)

lemma next_op_run: "m s = (Ok (), t) \<Longrightarrow> next_op m k s = k t"
  by (simp add: next_op_def)

lemma trace_run [simp]: "trace e r = (Ok (), r\<lparr>rt_log := rt_log r @ [e]\<rparr>)"
  by (simp add: trace_def)

lemma enter_eq:
  "enter st inject r = (reject (inject = Some st) (Backend (''injected failure at '' @ stage_name st)),
     r\<lparr>rt_stage := st, rt_log := rt_log r @ [EvStartup (plan_rank (rt_plan r)) st]\<rparr>)"
  by (simp add: enter_def next_op_def)

lemma enter_Ok:
  "enter st inject r = (Ok (), t) \<longleftrightarrow> inject \<noteq> Some st \<and>
     t = r\<lparr>rt_stage := st, rt_log := rt_log r @ [EvStartup (plan_rank (rt_plan r)) st]\<rparr>"
  by (auto simp: enter_eq outcome_simps)

section \<open>Startup of any backend\<close>

lemma start_inner_Ok:
  assumes "start_inner x be inject r = (Ok (), t)"
  shows "rt_stage t = StReady" "validate_spec (art_spec (rt_artifact r)) = Ok ()"
    "compile x (art_spec (rt_artifact r)) (art_target (rt_artifact r)) = Ok (rt_artifact r)"
    "rt_plan r \<in> set (art_ranks (rt_artifact r))" "target_backend (art_target (rt_artifact r)) = be_kind be"
    "inject \<notin> Some ` {StValidate, StCompile, StPrepare, StWarmup, StReset, StReady}"
  using assms
  by (auto simp: start_inner_def Let_def next_op_Ok bind_op_Ok enter_Ok outcome_simps)

text \<open>C30. Startup is fail-closed for every backend and every injected failure: it ends in the stage
  Ready only when the artifact is exactly what compiling its own specification for its own target
  gives, the plan is one of its ranks and the backend is the one the target names; a failing startup
  leaves the runtime in the stage Failed, where every step and every further start is refused.\<close>

theorem startup_fails_closed:
  assumes "rt_stage r = StValidate" and "runtime_start x be inject r = (res, t)" and "res \<noteq> Panic"
  shows "if res = Ok ()
    then rt_stage t = StReady \<and>
      compile x (art_spec (rt_artifact r)) (art_target (rt_artifact r)) = Ok (rt_artifact r) \<and>
      rt_plan r \<in> set (art_ranks (rt_artifact r)) \<and> target_backend (art_target (rt_artifact r)) = be_kind be \<and>
      inject \<notin> Some ` {StValidate, StCompile, StPrepare, StWarmup, StReset, StReady}
    else rt_stage t = StFailed \<and>
      runtime_step be inputs t = (Err (invalid ''worker not ready''), t) \<and>
      runtime_start x be inject' t = (Err (invalid ''startup may only run once''), t)"
proof (cases "start_inner x be inject r")
  case (Pair res' t')
  show ?thesis
  proof (cases res')
    case (Ok u)
    then have "res = Ok ()" "t = t'" "start_inner x be inject r = (Ok (), t)"
      using assms(1,2) Pair by (auto simp: runtime_start_def)
    then show ?thesis using start_inner_Ok [of x be inject r t] by simp
  next
    case (Err e)
    then have t: "res = Err e" "t = snd (trace EvStartupFailed (snd (on_backend (be_close be) (t'\<lparr>rt_stage := StFailed\<rparr>))))"
      using assms(1,2) Pair by (auto simp: runtime_start_def)
    then have "rt_stage t = StFailed" by (simp add: on_backend_def split: prod.split)
    then show ?thesis using t(1) by (simp add: runtime_step_def runtime_start_def Let_def)
  next
    case Panic
    then show ?thesis using assms Pair by (auto simp: runtime_start_def)
  qed
qed

text \<open>There is no automatic fallback: with the placeholder backend for the NPU no startup ever
  succeeds, whatever the artifact and whatever the injected stage.\<close>

theorem ascend_never_ready:
  "fst (runtime_start x ascend_backend inject r) \<noteq> Ok ()"
proof -
  have "start_inner x ascend_backend inject r \<noteq> (Ok (), t)" for t
    by (auto simp: start_inner_def Let_def next_op_Ok bind_op_Ok on_backend_def ascend_backend_def not_implemented_def)
  then show ?thesis by (auto simp: runtime_start_def split: prod.split outcome.split)
qed

section \<open>Steps of any backend\<close>

lemma check_bindings_Ok:
  "check_bindings slots pages is r = (Ok (), t) \<Longrightarrow>
    distinct (map (\<lambda>i. sb_slot (in_binding i)) is) \<and> set (map (\<lambda>i. sb_slot (in_binding i)) is) \<inter> set slots = {} \<and>
    distinct (concat (map (\<lambda>i. sb_pages (in_binding i)) is)) \<and>
    set (concat (map (\<lambda>i. sb_pages (in_binding i)) is)) \<inter> set pages = {} \<and>
    (\<forall>i \<in> set is. div_ceil (consumed (in_state i) + length (in_tokens i)) (spec_page_tokens (art_spec (rt_artifact r)))
       \<le> length (sb_pages (in_binding i))) \<and>
    (\<exists>log. t = r\<lparr>rt_log := log\<rparr>)"
proof (induction slots pages "is" r rule: check_bindings.induct)
  case (1 slots pages r)
  then show ?case by (auto intro: exI [of _ "rt_log r"])
next
  case (2 slots pages i "is" r)
  let ?b = "in_binding i"
  let ?r = "r\<lparr>rt_log := rt_log r @ [EvMetadata (plan_rank (rt_plan r)) (in_request i) (in_epoch i) (sb_slot ?b) (sb_generation ?b) (sb_pages ?b)]\<rparr>"
  from "2.prems" have i: "sb_slot ?b \<notin> set slots" "distinct (sb_pages ?b)" "\<not> (\<exists>p \<in> set (sb_pages ?b). p \<in> set pages)"
    "spec_page_tokens (art_spec (rt_artifact r)) \<noteq> 0"
    "div_ceil (consumed (in_state i) + length (in_tokens i)) (spec_page_tokens (art_spec (rt_artifact r))) \<le> length (sb_pages ?b)"
    "consumed (in_state i) + length (in_tokens i) < 2 ^ 64"
    and rest: "check_bindings (sb_slot ?b # slots) (sb_pages ?b @ pages) is ?r = (Ok (), t)"
    by (auto simp: Let_def try_op_eq next_op_Ok outcome_simps split: if_splits)
  have "distinct (map (\<lambda>i. sb_slot (in_binding i)) is) \<and> set (map (\<lambda>i. sb_slot (in_binding i)) is) \<inter> set (sb_slot ?b # slots) = {} \<and>
    distinct (concat (map (\<lambda>i. sb_pages (in_binding i)) is)) \<and>
    set (concat (map (\<lambda>i. sb_pages (in_binding i)) is)) \<inter> set (sb_pages ?b @ pages) = {} \<and>
    (\<forall>i \<in> set is. div_ceil (consumed (in_state i) + length (in_tokens i)) (spec_page_tokens (art_spec (rt_artifact ?r)))
       \<le> length (sb_pages (in_binding i))) \<and> (\<exists>log. t = ?r\<lparr>rt_log := log\<rparr>)"
    by (rule "2.IH" [OF refl refl, of "consumed (in_state i) + length (in_tokens i)"]) (use i rest in \<open>auto simp: fit_def trace_def\<close>)
  then show ?case using i by auto
qed

lemma select_graph_frame:
  "select_graph inputs r = (Ok g, t) \<Longrightarrow>
     \<exists>log. t = r\<lparr>rt_log := log\<rparr>"
  by (auto simp: select_graph_def Let_def next_op_Ok try_op_eq outcome_simps split: if_splits)

lemma trace_comms_frame: "\<exists>log. trace_comms r = (Ok (), r\<lparr>rt_log := log\<rparr>)"
proof -
  have "\<exists>log. each_op (\<lambda>i. case i of Communication _ _ _ _ \<Rightarrow> trace (EvComm k i) | _ \<Rightarrow> (\<lambda>r. (Ok (), r))) is r
      = (Ok (), r\<lparr>rt_log := log\<rparr>)" for k "is"
  proof (induction "is" arbitrary: r)
    case Nil
    then show ?case by (auto intro: exI [of _ "rt_log r"])
  next
    case (Cons i "is")
    show ?case
    proof (cases i)
      case (Communication g q op t)
      then show ?thesis using Cons.IH [of "r\<lparr>rt_log := rt_log r @ [EvComm k i]\<rparr>"] by simp
    qed (use Cons.IH [of r] in simp_all)
  qed
  then show ?thesis by (simp add: trace_comms_def Let_def)
qed

lemma on_backend_Ok:
  "on_backend m r = (Ok y, t) \<longleftrightarrow> (\<exists>b. m (rt_backend r) = (Ok y, b) \<and> t = r\<lparr>rt_backend := b\<rparr>)"
  by (auto simp: on_backend_def split: prod.splits)

text \<open>C11. The contract of a successful step, for every backend: the runtime was ready, no two inputs
  share a slot or a page and each has the pages its tokens need; there is one output per input, in
  order, for the same request and epoch, with the frontier advanced by the tokens, a next token in the
  vocabulary and a state of the right schema; and no graph was captured.\<close>

theorem step_contract:
  assumes "runtime_step be inputs r = (Ok outs, t)"
  shows "rt_stage r = StReady \<and> inputs \<noteq> [] \<and> rt_graphs t = rt_graphs r \<and>
    distinct (map (\<lambda>i. sb_slot (in_binding i)) inputs) \<and>
    distinct (concat (map (\<lambda>i. sb_pages (in_binding i)) inputs)) \<and>
    list_all2 (\<lambda>i out. out_request out = in_request i \<and> out_epoch out = in_epoch i \<and>
        consumed (out_state out) = consumed (in_state i) + length (in_tokens i) \<and>
        next_token out < vocab (spec_model (art_spec (rt_artifact r))) \<and>
        state_ok (art_spec (rt_artifact r)) (out_state out) \<and>
        div_ceil (consumed (out_state out)) (spec_page_tokens (art_spec (rt_artifact r))) \<le> length (sb_pages (in_binding i)))
      inputs outs"
proof -
  from assms obtain r1 g r2 r3 r4 r5 where st: "rt_stage r = StReady" "inputs \<noteq> []"
    and c: "check_bindings [] [] inputs r = (Ok (), r1)"
    and g: "select_graph inputs r1 = (Ok g, r2)"
    and tc: "trace_comms r2 = (Ok (), r3)"
    and ex: "on_backend (be_execute be (rt_plan r) (art_spec (rt_artifact r)) inputs g) (r3\<lparr>rt_log := r4\<rparr>) = (Ok outs, r5)"
    and sy: "on_backend (be_synchronize be) r5 = (Ok (), t)"
    and len: "length outs = length inputs"
    and outs: "check_all (check_output (art_spec (rt_artifact r))) (zip inputs outs) = Ok ()"
    by (auto simp: runtime_step_def Let_def next_op_Ok bind_op_Ok outcome_simps split: if_splits)
  note bind = check_bindings_Ok [OF c]
  obtain l1 l2 l3 where l: "r1 = r\<lparr>rt_log := l1\<rparr>" "r2 = r1\<lparr>rt_log := l2\<rparr>" "r3 = r2\<lparr>rt_log := l3\<rparr>"
    using bind select_graph_frame [OF g] trace_comms_frame [of r2] tc by auto
  have "rt_graphs t = rt_graphs r" using ex sy l by (auto simp: on_backend_Ok)
  moreover have "list_all2 (\<lambda>i out. out_request out = in_request i \<and> out_epoch out = in_epoch i \<and>
        consumed (out_state out) = consumed (in_state i) + length (in_tokens i) \<and>
        next_token out < vocab (spec_model (art_spec (rt_artifact r))) \<and>
        state_ok (art_spec (rt_artifact r)) (out_state out) \<and>
        div_ceil (consumed (out_state out)) (spec_page_tokens (art_spec (rt_artifact r))) \<le> length (sb_pages (in_binding i)))
      inputs outs"
  proof (rule list_all2_all_nthI)
    fix n assume n: "n < length inputs"
    then have "(inputs ! n, outs ! n) \<in> set (zip inputs outs)" using len by (auto simp: set_zip)
    then have "check_output (art_spec (rt_artifact r)) (inputs ! n, outs ! n) = Ok ()"
      using outs by (auto simp: check_all_Ok_iff)
    moreover have "inputs ! n \<in> set inputs" using n by simp
    ultimately show "out_request (outs ! n) = in_request (inputs ! n) \<and> out_epoch (outs ! n) = in_epoch (inputs ! n) \<and>
        consumed (out_state (outs ! n)) = consumed (in_state (inputs ! n)) + length (in_tokens (inputs ! n)) \<and>
        next_token (outs ! n) < vocab (spec_model (art_spec (rt_artifact r))) \<and>
        state_ok (art_spec (rt_artifact r)) (out_state (outs ! n)) \<and>
        div_ceil (consumed (out_state (outs ! n))) (spec_page_tokens (art_spec (rt_artifact r))) \<le> length (sb_pages (in_binding (inputs ! n)))"
      using bind by (auto simp: check_output_def Let_def outcome_simps state_ok_def not_le)
  qed (use len in simp)
  ultimately show ?thesis using st bind by simp
qed

section \<open>The mock backend serves from captured graphs\<close>

lemma mock_execute_eq:
  "mock_execute p s inputs g b = (and_then (check_graph b inputs g) (\<lambda>_. collect (run_request s) inputs), b)"
proof -
  have "each_op (\<lambda>i. case i of Communication _ _ _ _ \<Rightarrow> ok_op | Fence \<Rightarrow> ok_op | Kernel _ _ \<Rightarrow> ok_op) is b = (Ok (), b)" for "is"
    by (induction "is") (auto simp: ok_op_def split: instruction.split)
  then show ?thesis by (simp add: mock_execute_def)
qed

text \<open>Every graph the runtime knows is a captured graph of the backend for the same bucket.\<close>

definition graphs_agree :: "mock runtime \<Rightarrow> bool" where
  "graphs_agree r \<longleftrightarrow> (\<forall>k g. map_of (rt_graphs r) k = Some g \<longrightarrow>
     map_of (mock_graphs (rt_backend r)) g = Some k \<and> g \<le> mock_next (rt_backend r))"

definition all_captured :: "bucket list \<Rightarrow> mock runtime \<Rightarrow> bool" where
  "all_captured ks r \<longleftrightarrow> (\<forall>k \<in> set ks. \<exists>g. map_of (rt_graphs r) k = Some g)"

lemma capture_input_runs:
  assumes "spec_ok s" and "1 < vocab (spec_model s)"
  shows "\<exists>out. run_request s (capture_input s) = Ok out"
proof -
  have "max_context s \<noteq> 0" using max_context_bucket [OF assms(1)] spec_ok_buckets(4) [OF assms(1)] by metis
  then show ?thesis
    using run_request_is_ok [OF assms(1), of "capture_input s"] assms(2) empty_state_ok [of s]
    by (simp add: is_ok_iff capture_input_def hybrid_empty_def Let_def)
qed

lemma mock_capture_bucket:
  assumes spec: "spec_ok (art_spec (rt_artifact r))" and vocab: "1 < vocab (spec_model (art_spec (rt_artifact r)))"
    and k: "0 < bucket_batch k" "0 < bucket_context k" and room: "mock_next (rt_backend r) + 1 < 2 ^ 64"
    and agree: "graphs_agree r"
  shows "\<exists>u. capture_bucket mock_backend None k r = (Ok (), u) \<and> graphs_agree u \<and>
    rt_graphs u = bt_insert k (mock_next (rt_backend r) + 1) (rt_graphs r) \<and>
    mock_next (rt_backend u) = mock_next (rt_backend r) + 1 \<and> rt_artifact u = rt_artifact r \<and> rt_plan u = rt_plan r"
proof -
  let ?n = "mock_next (rt_backend r) + 1"
  obtain out where out: "run_request (art_spec (rt_artifact r)) (capture_input (art_spec (rt_artifact r))) = Ok out"
    using capture_input_runs [OF spec vocab] by blast
  have fit1: "fit 64 (Suc 0) = Ok (Suc 0)" by (simp add: fit_def)
  have run: "mock_execute p (art_spec (rt_artifact r)) [capture_input (art_spec (rt_artifact r))] (Some ?n) b = (Ok [out], b)"
    if "map_of (mock_graphs b) ?n = Some k" for p b
    using that k out fit1 by (simp add: mock_execute_eq check_graph_def reject_def capture_input_def hybrid_empty_def Let_def)
  have "\<exists>log st. capture_bucket mock_backend None k r =
      (Ok (), r\<lparr>rt_backend := rt_backend r\<lparr>mock_next := ?n, mock_graphs := bt_insert ?n k (mock_graphs (rt_backend r))\<rparr>,
        rt_graphs := bt_insert k ?n (rt_graphs r), rt_log := log, rt_stage := st\<rparr>)"
    by (rule exI [of _ "rt_log r @ [EvStartup (plan_rank (rt_plan r)) StCapture, EvCapture (plan_rank (rt_plan r)) k,
          EvStartup (plan_rank (rt_plan r)) StValidateReplay]"], rule exI [of _ StValidateReplay])
      (use room run in \<open>simp add: capture_bucket_def Let_def next_op_def bind_op_def enter_eq on_backend_def reject_def
        mock_backend_def mock_capture_def mock_id_def fit_def mock_validate_graph_def ok_op_def\<close>)
  then obtain log st where "capture_bucket mock_backend None k r =
      (Ok (), r\<lparr>rt_backend := rt_backend r\<lparr>mock_next := ?n, mock_graphs := bt_insert ?n k (mock_graphs (rt_backend r))\<rparr>,
        rt_graphs := bt_insert k ?n (rt_graphs r), rt_log := log, rt_stage := st\<rparr>)" by blast
  moreover have "g \<noteq> ?n" if "map_of (rt_graphs r) k' = Some g" for k' g
    using agree that unfolding graphs_agree_def by (metis Suc_eq_plus1 Suc_n_not_le_n)
  ultimately show ?thesis using agree by (auto simp: graphs_agree_def le_SucI)
qed

lemma mock_capture_all:
  assumes spec: "spec_ok (art_spec (rt_artifact r))" and vocab: "1 < vocab (spec_model (art_spec (rt_artifact r)))"
    and ks: "\<And>k. k \<in> set ks \<Longrightarrow> 0 < bucket_batch k \<and> 0 < bucket_context k"
    and room: "mock_next (rt_backend r) + length ks < 2 ^ 64" and agree: "graphs_agree r"
  shows "\<exists>u. each_op (capture_bucket mock_backend None) ks r = (Ok (), u) \<and> graphs_agree u \<and> all_captured ks u \<and>
    rt_artifact u = rt_artifact r \<and> rt_plan u = rt_plan r"
proof -
  let ?I = "\<lambda>before u. graphs_agree u \<and> all_captured before u \<and> rt_artifact u = rt_artifact r \<and> rt_plan u = rt_plan r \<and>
    mock_next (rt_backend u) = mock_next (rt_backend r) + length before"
  have "\<exists>u. each_op (capture_bucket mock_backend None) ks r = (Ok (), u) \<and> ?I ks u"
  proof (rule each_op_rule [where I = ?I])
    show "?I [] r" using agree by (simp add: all_captured_def)
  next
    fix before k todo t
    assume split: "ks = before @ k # todo" and I: "?I before t"
    have pos: "0 < bucket_batch k" "0 < bucket_context k" using ks split by auto
    have room': "mock_next (rt_backend t) + 1 < 2 ^ 64" using room split I by simp
    obtain u where "capture_bucket mock_backend None k t = (Ok (), u)" "graphs_agree u"
      "rt_graphs u = bt_insert k (mock_next (rt_backend t) + 1) (rt_graphs t)"
      "mock_next (rt_backend u) = mock_next (rt_backend t) + 1" "rt_artifact u = rt_artifact t" "rt_plan u = rt_plan t"
      using mock_capture_bucket [of t k] pos room' spec vocab I by auto
    then show "\<exists>u. capture_bucket mock_backend None k t = (Ok (), u) \<and> ?I (before @ [k]) u"
      using I by (auto simp: all_captured_def)
  qed
  then show ?thesis by blast
qed


lemma in_buckets_of:
  "k \<in> set (buckets_of s) \<longleftrightarrow> bucket_batch k \<in> set (batch_buckets s) \<and> bucket_context k \<in> set (context_buckets s)"
  by (cases k) (auto simp: buckets_of_def)

lemma length_buckets_of: "length (buckets_of s) = length (batch_buckets s) * length (context_buckets s)"
  by (simp add: buckets_of_def length_concat comp_def sum_list_triv)

lemma buckets_of_bound:
  assumes "spec_ok s"
  shows "length (buckets_of s) \<le> 4096"
proof -
  have "length (batch_buckets s) \<le> 64" "length (context_buckets s) \<le> 64"
    using assms by (auto simp: spec_ok_def validate_spec_def Let_def outcome_simps)
  then show ?thesis using mult_le_mono [of "length (batch_buckets s)" 64 "length (context_buckets s)" 64]
    by (simp add: length_buckets_of)
qed

lemma mock_start_inner:
  assumes "rt_backend r = mock_default" and "rt_graphs r = []"
    and compiled: "compile x (art_spec (rt_artifact r)) (art_target (rt_artifact r)) = Ok (rt_artifact r)"
    and plan: "rt_plan r \<in> set (art_ranks (rt_artifact r))" and target: "target_backend (art_target (rt_artifact r)) = Mock"
    and vocab: "1 < vocab (spec_model (art_spec (rt_artifact r)))"
  shows "\<exists>t. start_inner x mock_backend None r = (Ok (), t) \<and> graphs_agree t \<and>
    rt_artifact t = rt_artifact r \<and> rt_plan t = rt_plan r \<and>
    (rank_role (plan_rank (rt_plan r)) = Decode \<longrightarrow> all_captured (buckets_of (art_spec (rt_artifact r))) t)"
proof -
  let ?s = "art_spec (rt_artifact r)"
  have valid: "validate_spec ?s = Ok ()" using compiled by (auto simp: compile_def outcome_simps)
  then have spec: "spec_ok ?s" by (simp add: spec_ok_def)
  define buf where "buf = rt_backend r\<lparr>mock_next := 1, mock_buffers := bt_insert 1 4096 []\<rparr>"
  let ?log = "rt_log r @ map (EvStartup (plan_rank (rt_plan r))) [StValidate, StCompile, StPrepare, StWarmup]"
  define q where "q = r\<lparr>rt_backend := buf, rt_buffer := Some 1, rt_stage := StWarmup, rt_log := ?log\<rparr>"
  let ?caps = "if rank_role (plan_rank (rt_plan r)) = Decode then each_op (capture_bucket mock_backend None) (buckets_of ?s)
    else (\<lambda>r. (Ok (), r))"
  have start: "start_inner x mock_backend None r =
    next_op ?caps (next_op (enter StReset None) (next_op (on_backend ok_op) (enter StReady None))) q"
    using assms(1) valid compiled plan target
    by (simp add: start_inner_def Let_def next_op_def bind_op_def enter_eq on_backend_def reject_def mock_backend_def
        mock_compile_kernels_def mock_prepare_def mock_allocate_def mock_id_def fit_def ok_op_def q_def buf_def mock_default_def)
  have "\<exists>u. ?caps q = (Ok (), u) \<and> graphs_agree u \<and> rt_artifact u = rt_artifact r \<and> rt_plan u = rt_plan r \<and>
      (rank_role (plan_rank (rt_plan r)) = Decode \<longrightarrow> all_captured (buckets_of ?s) u)"
  proof (cases "rank_role (plan_rank (rt_plan r)) = Decode")
    case True
    have "\<exists>u. each_op (capture_bucket mock_backend None) (buckets_of ?s) q = (Ok (), u) \<and> graphs_agree u \<and>
      all_captured (buckets_of ?s) u \<and> rt_artifact u = rt_artifact q \<and> rt_plan u = rt_plan q"
    proof (rule mock_capture_all)
      show "0 < bucket_batch k \<and> 0 < bucket_context k" if "k \<in> set (buckets_of ?s)" for k
        using that spec_ok_buckets(3,4) [OF spec] by (metis in_buckets_of not_gr_zero)
      show "mock_next (rt_backend q) + length (buckets_of ?s) < 2 ^ 64"
        using buckets_of_bound [OF spec] by (simp add: q_def buf_def)
    qed (use spec vocab assms(2) in \<open>auto simp: q_def graphs_agree_def\<close>)
    then show ?thesis using True by (auto simp: q_def)
  next
    case False
    then show ?thesis using assms(2) by (auto simp: q_def graphs_agree_def)
  qed
  then obtain u where u: "?caps q = (Ok (), u)" "graphs_agree u" "rt_artifact u = rt_artifact r" "rt_plan u = rt_plan r"
    "rank_role (plan_rank (rt_plan r)) = Decode \<longrightarrow> all_captured (buckets_of ?s) u" by blast
  have "start_inner x mock_backend None r =
      next_op (enter StReset None) (next_op (on_backend ok_op) (enter StReady None)) u"
    using u(1) start by (simp add: next_op_run)
  moreover have "\<exists>log. next_op (enter StReset None) (next_op (on_backend ok_op) (enter StReady None)) u =
      (Ok (), u\<lparr>rt_stage := StReady, rt_log := log\<rparr>)"
    by (rule exI [of _ "rt_log u @ map (EvStartup (plan_rank (rt_plan u))) [StReset, StReady]"])
      (simp add: next_op_def enter_eq reject_def on_backend_def ok_op_def)
  ultimately obtain log where "start_inner x mock_backend None r = (Ok (), u\<lparr>rt_stage := StReady, rt_log := log\<rparr>)" by auto
  then show ?thesis using u by (auto simp: graphs_agree_def all_captured_def)
qed


text \<open>Startup of the mock backend succeeds on every rank of a compiled artifact for it whose
  vocabulary has a second token; a decode rank ends with a captured graph for every pair of a batch and a
  context bucket.\<close>

theorem mock_startup_captures:
  assumes "rt_stage r = StValidate" and "rt_backend r = mock_default" and "rt_graphs r = []"
    and "compile x (art_spec (rt_artifact r)) (art_target (rt_artifact r)) = Ok (rt_artifact r)"
    and "rt_plan r \<in> set (art_ranks (rt_artifact r))" and "target_backend (art_target (rt_artifact r)) = Mock"
    and "1 < vocab (spec_model (art_spec (rt_artifact r)))"
  shows "\<exists>t. runtime_start x mock_backend None r = (Ok (), t) \<and> rt_stage t = StReady \<and>
    (rank_role (plan_rank (rt_plan r)) = Decode \<longrightarrow>
      (\<forall>b \<in> set (batch_buckets (art_spec (rt_artifact r))). \<forall>c \<in> set (context_buckets (art_spec (rt_artifact r))).
        \<exists>g. map_of (rt_graphs t) (Bucket b c) = Some g \<and> map_of (mock_graphs (rt_backend t)) g = Some (Bucket b c)))"
proof -
  obtain t where t: "start_inner x mock_backend None r = (Ok (), t)" "graphs_agree t"
    "rank_role (plan_rank (rt_plan r)) = Decode \<longrightarrow> all_captured (buckets_of (art_spec (rt_artifact r))) t"
    using mock_start_inner assms(2-) by blast
  have "runtime_start x mock_backend None r = (Ok (), t)" using t(1) assms(1) by (simp add: runtime_start_def)
  moreover have "rt_stage t = StReady" using start_inner_Ok(1) [OF t(1)] .
  moreover have "\<exists>g. map_of (rt_graphs t) (Bucket b c) = Some g \<and> map_of (mock_graphs (rt_backend t)) g = Some (Bucket b c)"
    if "rank_role (plan_rank (rt_plan r)) = Decode" "b \<in> set (batch_buckets (art_spec (rt_artifact r)))"
      "c \<in> set (context_buckets (art_spec (rt_artifact r)))" for b c
  proof -
    have "Bucket b c \<in> set (buckets_of (art_spec (rt_artifact r)))" using that by (simp add: in_buckets_of)
    then show ?thesis using t(2,3) that(1) by (auto simp: all_captured_def graphs_agree_def)
  qed
  ultimately show ?thesis by blast
qed

section \<open>Decode steps on the mock backend\<close>

lemma check_bindings_run:
  assumes "spec_page_tokens (art_spec (rt_artifact r)) \<noteq> 0"
    and "distinct (map (\<lambda>i. sb_slot (in_binding i)) is)" "set (map (\<lambda>i. sb_slot (in_binding i)) is) \<inter> set slots = {}"
    and "distinct (concat (map (\<lambda>i. sb_pages (in_binding i)) is))"
    and "set (concat (map (\<lambda>i. sb_pages (in_binding i)) is)) \<inter> set pages = {}"
    and "\<forall>i \<in> set is. consumed (in_state i) + length (in_tokens i) < 2 ^ 64 \<and>
      div_ceil (consumed (in_state i) + length (in_tokens i)) (spec_page_tokens (art_spec (rt_artifact r)))
       \<le> length (sb_pages (in_binding i))"
  shows "\<exists>log. check_bindings slots pages is r = (Ok (), r\<lparr>rt_log := log\<rparr>)"
  using assms
proof (induction "is" arbitrary: slots pages r)
  case Nil
  then show ?case by (auto intro: exI [of _ "rt_log r"])
next
  case (Cons i "is")
  let ?b = "in_binding i"
  let ?r = "r\<lparr>rt_log := rt_log r @ [EvMetadata (plan_rank (rt_plan r)) (in_request i) (in_epoch i) (sb_slot ?b) (sb_generation ?b) (sb_pages ?b)]\<rparr>"
  have "\<exists>log. check_bindings (sb_slot ?b # slots) (sb_pages ?b @ pages) is ?r = (Ok (), ?r\<lparr>rt_log := log\<rparr>)"
    by (rule Cons.IH) (use Cons.prems in auto)
  moreover have "check_bindings slots pages (i # is) r = check_bindings (sb_slot ?b # slots) (sb_pages ?b @ pages) is ?r"
    using Cons.prems by (auto simp: Let_def fit_def next_op_run not_less)
  ultimately show ?case by auto
qed

lemma find_bucket:
  "xs \<noteq> [] \<Longrightarrow> n \<le> last xs \<Longrightarrow> \<exists>b. find (\<lambda>k. n \<le> k) xs = Some b \<and> b \<in> set xs \<and> n \<le> b"
  by (induction xs) (auto split: if_splits)

definition decode_ready :: "mock runtime \<Rightarrow> bool" where
  "decode_ready r \<longleftrightarrow> rt_stage r = StReady \<and> rank_role (plan_rank (rt_plan r)) = Decode \<and>
     spec_ok (art_spec (rt_artifact r)) \<and> graphs_agree r \<and> all_captured (buckets_of (art_spec (rt_artifact r))) r"

text \<open>What a decode input must satisfy: one token, of the vocabulary, on a state of the schema with room
  for it and with the pages it needs.\<close>

definition decode_input :: "spec \<Rightarrow> step_input \<Rightarrow> bool" where
  "decode_input s i \<longleftrightarrow> (\<exists>t. in_tokens i = [t] \<and> t < vocab (spec_model s)) \<and> state_ok s (in_state i) \<and>
     consumed (in_state i) + 1 \<le> max_context s \<and>
     div_ceil (consumed (in_state i) + 1) (spec_page_tokens s) \<le> length (sb_pages (in_binding i))"

lemma check_output_run:
  assumes spec: "spec_ok s" and out: "run_request s i = Ok out"
  shows "check_output s (i, out) = Ok ()"
proof -
  have *: "state_ok s (in_state i)" "consumed (in_state i) + length (in_tokens i) \<le> max_context s"
    "fold_out (run_token s) (in_tokens i) (in_state i) = Ok (out_state out)"
    "out = \<lparr>out_request = in_request i, out_epoch = in_epoch i,
       next_token = (last (in_tokens i) + consumed (out_state out) + 1) mod vocab (spec_model s), out_state = out_state out\<rparr>"
    using out by (simp_all add: run_request_Ok [OF spec])
  have "state_ok s (out_state out)" "consumed (out_state out) = consumed (in_state i) + length (in_tokens i)"
    using run_tokens [OF spec *(1,2)] *(3) by simp_all
  moreover have "out_request out = in_request i" "out_epoch out = in_epoch i" "next_token out < vocab (spec_model s)"
    using spec_ok_pos(1) [OF spec] by (subst *(4), simp)+
  ultimately show ?thesis by (simp add: check_output_def Let_def state_ok_def reject_def)
qed

lemma valid_runs:
  assumes "spec_ok s" and "\<forall>i \<in> set inputs. is_ok (run_request s i)"
  shows "\<exists>outs. collect (run_request s) inputs = Ok outs \<and> length outs = length inputs \<and>
    check_all (check_output s) (zip inputs outs) = Ok ()"
proof -
  have "\<exists>outs. collect (run_request s) inputs = Ok outs"
    using assms(2)
  proof (induction inputs)
    case (Cons i inputs)
    then obtain out outs where "run_request s i = Ok out" "collect (run_request s) inputs = Ok outs"
      by (auto simp: is_ok_iff)
    then show ?case by simp
  qed simp
  then obtain outs where outs: "collect (run_request s) inputs = Ok outs" by blast
  have len: "length outs = length inputs" using collect_length [OF outs] .
  have "check_output s (inputs ! n, outs ! n) = Ok ()" if "n < length inputs" for n
    using check_output_run [OF assms(1)] outs that by (simp add: collect_Ok_iff)
  then have "check_all (check_output s) (zip inputs outs) = Ok ()"
    using len by (auto simp: check_all_Ok_iff set_zip)
  then show ?thesis using outs len by blast
qed

lemma decode_input_runs: "spec_ok s \<Longrightarrow> decode_input s i \<Longrightarrow> is_ok (run_request s i)"
  using run_request_is_ok [of s i] by (fastforce simp: decode_input_def)

text \<open>Graph selection on a decode rank: a captured graph that the batch fits.\<close>

lemma decode_graph:
  assumes ready: "decode_ready r" and s: "s = art_spec (rt_artifact r)"
    and inputs: "inputs \<noteq> []" "length inputs \<le> last (batch_buckets s)" "\<forall>i \<in> set inputs. decode_input s i"
  shows "\<exists>g. (\<forall>l. \<exists>l'. select_graph inputs (r\<lparr>rt_log := l\<rparr>) = (Ok (Some g), r\<lparr>rt_log := l'\<rparr>)) \<and>
    check_graph (rt_backend r) inputs (Some g) = Ok ()"
proof -
  have spec: "spec_ok s" using ready s by (simp add: decode_ready_def)
  let ?need = "max_of (map (\<lambda>i. consumed (in_state i) + length (in_tokens i)) inputs)"
  have one: "length (in_tokens i) = 1" "consumed (in_state i) + 1 \<le> max_context s" if "i \<in> set inputs" for i
    using inputs(3) that by (auto simp: decode_input_def)
  have nonempty: "batch_buckets s \<noteq> []" "context_buckets s \<noteq> []" using spec_ok_buckets [OF spec] by auto
  obtain b where b: "find (\<lambda>k. length inputs \<le> k) (batch_buckets s) = Some b" "b \<in> set (batch_buckets s)" "length inputs \<le> b"
    using find_bucket [OF nonempty(1) inputs(2)] by blast
  have "?need \<in> set (map (\<lambda>i. consumed (in_state i) + length (in_tokens i)) inputs)" by (rule max_of_in) (use inputs in simp)
  then have "?need \<le> last (context_buckets s)" using one nonempty(2) by (auto simp: max_context_def)
  then obtain k where k: "find (\<lambda>k. ?need \<le> k) (context_buckets s) = Some k" "k \<in> set (context_buckets s)" "?need \<le> k"
    using find_bucket [OF nonempty(2)] by blast
  have "Bucket b k \<in> set (buckets_of s)" using b k by (simp add: in_buckets_of)
  then obtain g where g: "map_of (rt_graphs r) (Bucket b k) = Some g" "map_of (mock_graphs (rt_backend r)) g = Some (Bucket b k)"
    using ready s by (auto simp: decode_ready_def all_captured_def graphs_agree_def)
  have "\<exists>l'. select_graph inputs (r\<lparr>rt_log := l\<rparr>) = (Ok (Some g), r\<lparr>rt_log := l'\<rparr>)" for l
    using ready b k g s by (auto simp: decode_ready_def select_graph_def Let_def next_op_run)
  moreover have within: "consumed (in_state i) + 1 \<le> k" if "i \<in> set inputs" for i
  proof -
    have "consumed (in_state i) + length (in_tokens i) \<le> ?need" by (rule max_of_upper) (use that in simp)
    then show ?thesis using k(3) one(1) [OF that] by simp
  qed
  have "\<forall>i \<in> set inputs. and_then (reject (length (in_tokens i) \<noteq> 1) (invalid ''graph capacity'')) (\<lambda>_.
      and_then (fit 64 (consumed (in_state i) + 1)) (\<lambda>n. reject (n > bucket_context (Bucket b k)) (invalid ''graph capacity''))) = Ok ()"
  proof
    fix i assume i: "i \<in> set inputs"
    have "consumed (in_state i) + 1 < 2 ^ 64" using one(2) [OF i] small_spec [OF spec] by simp
    then show "and_then (reject (length (in_tokens i) \<noteq> 1) (invalid ''graph capacity'')) (\<lambda>_.
      and_then (fit 64 (consumed (in_state i) + 1)) (\<lambda>n. reject (n > bucket_context (Bucket b k)) (invalid ''graph capacity''))) = Ok ()"
      using one(1) [OF i] within [OF i] by (simp add: outcome_simps)
  qed
  then have "check_graph (rt_backend r) inputs (Some g) = Ok ()"
    using g(2) b(3) unfolding check_graph_def by (simp add: outcome_simps)
  ultimately show ?thesis by blast
qed

lemma decode_step:
  assumes ready: "decode_ready r" and s: "s = art_spec (rt_artifact r)"
    and inputs: "inputs \<noteq> []" "length inputs \<le> last (batch_buckets s)" "\<forall>i \<in> set inputs. decode_input s i"
    and disjoint: "distinct (map (\<lambda>i. sb_slot (in_binding i)) inputs)"
      "distinct (concat (map (\<lambda>i. sb_pages (in_binding i)) inputs))"
  shows "\<exists>outs t. runtime_step mock_backend inputs r = (Ok outs, t) \<and> collect (run_request s) inputs = Ok outs \<and> decode_ready t \<and>
    art_spec (rt_artifact t) = s"
proof -
  have spec: "spec_ok s" using ready s by (simp add: decode_ready_def)
  have "\<exists>log. check_bindings [] [] inputs r = (Ok (), r\<lparr>rt_log := log\<rparr>)"
  proof (rule check_bindings_run)
    show "spec_page_tokens (art_spec (rt_artifact r)) \<noteq> 0" using spec_ok_pos(2) [OF spec] s by simp
    show "\<forall>i \<in> set inputs. consumed (in_state i) + length (in_tokens i) < 2 ^ 64 \<and>
      div_ceil (consumed (in_state i) + length (in_tokens i)) (spec_page_tokens (art_spec (rt_artifact r)))
       \<le> length (sb_pages (in_binding i))"
      using inputs(3) small_spec [OF spec] unfolding s [symmetric] by (fastforce simp: decode_input_def)
  qed (use disjoint in auto)
  then obtain l1 where c: "check_bindings [] [] inputs r = (Ok (), r\<lparr>rt_log := l1\<rparr>)" by blast
  obtain g l2 where g: "select_graph inputs (r\<lparr>rt_log := l1\<rparr>) = (Ok (Some g), r\<lparr>rt_log := l2\<rparr>)"
    "check_graph (rt_backend r) inputs (Some g) = Ok ()"
    using decode_graph [OF ready s inputs] by blast
  obtain l3 where l3: "trace_comms (r\<lparr>rt_log := l2\<rparr>) = (Ok (), r\<lparr>rt_log := l3\<rparr>)"
    using trace_comms_frame [of "r\<lparr>rt_log := l2\<rparr>"] by auto
  obtain outs where outs: "collect (run_request s) inputs = Ok outs" "length outs = length inputs"
    "check_all (check_output s) (zip inputs outs) = Ok ()"
    using valid_runs [OF spec, of inputs] decode_input_runs [OF spec] inputs(3) by blast
  have "\<exists>l. runtime_step mock_backend inputs r = (Ok outs, r\<lparr>rt_log := l\<rparr>)"
    using ready inputs(1) c g l3 outs s
    by (simp add: decode_ready_def runtime_step_def Let_def next_op_def on_backend_def mock_backend_def mock_execute_eq
        ok_op_def reject_def)
      (rule exI, rule refl)
  then obtain l where step: "runtime_step mock_backend inputs r = (Ok outs, r\<lparr>rt_log := l\<rparr>)" by blast
  have "decode_ready (r\<lparr>rt_log := l\<rparr>)" using ready by (simp add: decode_ready_def graphs_agree_def all_captured_def)
  with step outs(1) s show ?thesis by auto
qed

text \<open>A decode rank of the mock backend that startup has brought to Ready never lacks a graph: every
  batch of valid one-token inputs on disjoint slots and pages, no longer than the largest batch bucket, is
  executed by replay, gives what the reference semantics of the backend gives for each request, and
  leaves the rank ready for the next batch.\<close>

theorem mock_decode_serves:
  assumes ready: "decode_ready r" and s: "s = art_spec (rt_artifact r)"
    and inputs: "inputs \<noteq> []" "length inputs \<le> last (batch_buckets s)" "\<forall>i \<in> set inputs. decode_input s i"
    and disjoint: "distinct (map (\<lambda>i. sb_slot (in_binding i)) inputs)"
      "distinct (concat (map (\<lambda>i. sb_pages (in_binding i)) inputs))"
  shows "\<exists>outs t. runtime_step mock_backend inputs r = (Ok outs, t) \<and> collect (run_request s) inputs = Ok outs \<and> decode_ready t"
  using decode_step [OF assms] by blast

section \<open>A concrete decode rank\<close>

definition example_runtime :: "mock runtime" where
  "example_runtime = runtime_new mock_default example_artifact (plan_of_rank example_spec Decode (spec_decode example_spec) 0 1) []"

lemma example_decode_rank: "plan_of_rank example_spec Decode (spec_decode example_spec) 0 1 \<in> set (art_ranks example_artifact)"
  using in_role_plans [of 0 "spec_decode example_spec" 1 example_spec Decode]
  by (simp add: example_artifact_def) (simp add: example_spec_def)

lemma example_artifact_spec: "art_spec example_artifact = example_spec" "art_target example_artifact = target_mock"
  "target_backend target_mock = Mock"
  by (simp_all add: example_artifact_def target_mock_def)

theorem mock_startup_captures_witness:
  "\<exists>t. runtime_start (example_externals example_artifact) mock_backend None example_runtime = (Ok (), t) \<and> rt_stage t = StReady"
proof -
  have "\<exists>t. runtime_start (example_externals example_artifact) mock_backend None example_runtime = (Ok (), t) \<and> rt_stage t = StReady \<and>
    (rank_role (plan_rank (rt_plan example_runtime)) = Decode \<longrightarrow>
      (\<forall>b \<in> set (batch_buckets (art_spec (rt_artifact example_runtime))). \<forall>c \<in> set (context_buckets (art_spec (rt_artifact example_runtime))).
        \<exists>g. map_of (rt_graphs t) (Bucket b c) = Some g \<and> map_of (mock_graphs (rt_backend t)) g = Some (Bucket b c)))"
    by (rule mock_startup_captures)
      (simp_all add: example_runtime_def runtime_new_def example_artifact_spec example_compiles
        example_decode_rank [simplified] example_spec_sizes)
  then show ?thesis by blast
qed

lemma example_ready:
  "\<exists>t. runtime_start (example_externals example_artifact) mock_backend None example_runtime = (Ok (), t) \<and>
    decode_ready t \<and> art_spec (rt_artifact t) = example_spec"
proof -
  have "\<exists>t. start_inner (example_externals example_artifact) mock_backend None example_runtime = (Ok (), t) \<and> graphs_agree t \<and>
    rt_artifact t = rt_artifact example_runtime \<and> rt_plan t = rt_plan example_runtime \<and>
    (rank_role (plan_rank (rt_plan example_runtime)) = Decode \<longrightarrow>
      all_captured (buckets_of (art_spec (rt_artifact example_runtime))) t)"
    by (rule mock_start_inner)
      (simp_all add: example_runtime_def runtime_new_def example_artifact_spec example_compiles
        example_decode_rank [simplified] example_spec_sizes)
  then obtain t where t: "start_inner (example_externals example_artifact) mock_backend None example_runtime = (Ok (), t)"
    "graphs_agree t" "rt_artifact t = example_artifact" "rt_plan t = plan_of_rank example_spec Decode (spec_decode example_spec) 0 1"
    "all_captured (buckets_of example_spec) t"
    by (auto simp: example_runtime_def runtime_new_def example_artifact_spec plan_of_rank_def)
  then have "decode_ready t"
    using start_inner_Ok(1) [OF t(1)] by (simp add: decode_ready_def example_artifact_spec example_spec_ok plan_of_rank_def)
  moreover have "runtime_start (example_externals example_artifact) mock_backend None example_runtime = (Ok (), t)"
    using t(1) by (simp add: runtime_start_def example_runtime_def runtime_new_def)
  ultimately show ?thesis using t(3) by (auto simp: example_artifact_spec)
qed

definition example_decode :: step_input where
  "example_decode = \<lparr>in_request = 3, in_epoch = 1, in_tokens = [5], in_state = hybrid_empty example_spec,
     in_binding = \<lparr>sb_slot = 0, sb_generation = 1, sb_pages = [0]\<rparr>\<rparr>"

lemma example_decode_input: "decode_input example_spec example_decode"
  using empty_state_ok [of example_spec]
  by (simp add: decode_input_def example_decode_def example_spec_sizes hybrid_empty_def Let_def)
    (simp add: example_spec_def div_ceil_def)

theorem mock_decode_serves_witness:
  "\<exists>r outs t. runtime_step mock_backend [example_decode] r = (Ok outs, t) \<and> collect (run_request example_spec) [example_decode] = Ok outs"
proof -
  obtain r where "decode_ready r" "art_spec (rt_artifact r) = example_spec" using example_ready by blast
  then show ?thesis
    using mock_decode_serves [of r example_spec "[example_decode]"] example_decode_input
    by (simp add: example_decode_def example_spec_def) blast
qed

theorem step_contract_witness:
  "\<exists>r outs t. runtime_step mock_backend [example_decode] r = (Ok outs, t) \<and> rt_graphs t = rt_graphs r"
proof -
  obtain r where "decode_ready r" "art_spec (rt_artifact r) = example_spec" using example_ready by blast
  then obtain outs t where step: "runtime_step mock_backend [example_decode] r = (Ok outs, t)"
    using decode_step [of r example_spec "[example_decode]"] example_decode_input
    by (simp add: example_decode_def example_spec_def) blast
  then have "rt_graphs t = rt_graphs r" using step_contract [OF step] by (elim conjE)
  then show ?thesis using step by blast
qed

theorem startup_fails_closed_witness:
  "\<exists>t. runtime_start (example_externals example_artifact) mock_backend None example_runtime = (Ok (), t) \<and>
     rt_plan example_runtime \<in> set (art_ranks (rt_artifact example_runtime))"
proof -
  obtain t where t: "runtime_start (example_externals example_artifact) mock_backend None example_runtime = (Ok (), t)"
    using example_ready by blast
  moreover have "rt_stage example_runtime = StValidate" "rt_plan example_runtime \<in> set (art_ranks example_artifact)"
    using example_decode_rank by (simp_all add: example_runtime_def runtime_new_def)
  ultimately show ?thesis
    using startup_fails_closed [where inject' = None and inputs = "[]", OF _ t(1)] by auto
qed

end
