(* ===== verification/Worker_Thms.thy ===== *)
theory Worker_Thms
  imports Runtime_Thms
begin

text \<open>
  Worker groups of the mock backend. What the scheduler needs of the ranks of one role is an
  interface, a locale with the contract of a rank; its consequences for a group of workers are
  proved once and instantiated for the decode ranks, which replay captured graphs, and for the prefill
  ranks, which run prompt chunks.
\<close>

section \<open>Prefill steps\<close>

definition prefill_ready :: "mock runtime \<Rightarrow> bool" where
  "prefill_ready r \<longleftrightarrow> rt_stage r = StReady \<and> rank_role (plan_rank (rt_plan r)) = Prefill \<and> spec_ok (art_spec (rt_artifact r))"

text \<open>A prompt chunk on a state of the schema, with room for it and the pages it needs.\<close>

definition prefill_input :: "spec \<Rightarrow> step_input \<Rightarrow> bool" where
  "prefill_input s i \<longleftrightarrow> in_tokens i \<noteq> [] \<and> (\<forall>t \<in> set (in_tokens i). t < vocab (spec_model s)) \<and> state_ok s (in_state i) \<and>
     consumed (in_state i) + length (in_tokens i) \<le> max_context s \<and>
     div_ceil (consumed (in_state i) + length (in_tokens i)) (spec_page_tokens s) \<le> length (sb_pages (in_binding i))"

definition disjoint_bindings :: "step_input list \<Rightarrow> bool" where
  "disjoint_bindings inputs \<longleftrightarrow> distinct (map (\<lambda>i. sb_slot (in_binding i)) inputs) \<and>
     distinct (concat (map (\<lambda>i. sb_pages (in_binding i)) inputs))"

definition prefill_batch :: "spec \<Rightarrow> step_input list \<Rightarrow> bool" where
  "prefill_batch s inputs \<longleftrightarrow> inputs \<noteq> [] \<and> (\<forall>i \<in> set inputs. prefill_input s i) \<and> disjoint_bindings inputs"

definition decode_batch :: "spec \<Rightarrow> step_input list \<Rightarrow> bool" where
  "decode_batch s inputs \<longleftrightarrow> inputs \<noteq> [] \<and> length inputs \<le> last (batch_buckets s) \<and> (\<forall>i \<in> set inputs. decode_input s i) \<and>
     disjoint_bindings inputs"

lemma prefill_input_runs: "spec_ok s \<Longrightarrow> prefill_input s i \<Longrightarrow> is_ok (run_request s i)"
  using run_request_is_ok [of s i] by (simp add: prefill_input_def)

lemma prefill_step:
  assumes ready: "prefill_ready r" and batch: "prefill_batch (art_spec (rt_artifact r)) inputs"
  shows "\<exists>outs t. runtime_step mock_backend inputs r = (Ok outs, t) \<and>
    collect (run_request (art_spec (rt_artifact r))) inputs = Ok outs \<and> prefill_ready t \<and>
    art_spec (rt_artifact t) = art_spec (rt_artifact r)"
proof -
  let ?s = "art_spec (rt_artifact r)"
  have spec: "spec_ok ?s" using ready by (simp add: prefill_ready_def)
  have inputs: "inputs \<noteq> []" "\<forall>i \<in> set inputs. prefill_input ?s i" using batch by (auto simp: prefill_batch_def)
  have "\<exists>log. check_bindings [] [] inputs r = (Ok (), r\<lparr>rt_log := log\<rparr>)"
  proof (rule check_bindings_run)
    show "spec_page_tokens ?s \<noteq> 0" using spec_ok_pos(2) [OF spec] by simp
    show "\<forall>i \<in> set inputs. consumed (in_state i) + length (in_tokens i) < 2 ^ 64 \<and>
      div_ceil (consumed (in_state i) + length (in_tokens i)) (spec_page_tokens ?s) \<le> length (sb_pages (in_binding i))"
      using inputs(2) small_spec [OF spec] by (fastforce simp: prefill_input_def)
  qed (use batch in \<open>auto simp: prefill_batch_def disjoint_bindings_def\<close>)
  then obtain l1 where c: "check_bindings [] [] inputs r = (Ok (), r\<lparr>rt_log := l1\<rparr>)" by blast
  obtain l2 where g: "select_graph inputs (r\<lparr>rt_log := l1\<rparr>) = (Ok None, r\<lparr>rt_log := l2\<rparr>)"
    using ready by (simp add: select_graph_def prefill_ready_def Let_def next_op_run)
  obtain l3 where l3: "trace_comms (r\<lparr>rt_log := l2\<rparr>) = (Ok (), r\<lparr>rt_log := l3\<rparr>)"
    using trace_comms_frame [of "r\<lparr>rt_log := l2\<rparr>"] by auto
  obtain outs where outs: "collect (run_request ?s) inputs = Ok outs" "length outs = length inputs"
    "check_all (check_output ?s) (zip inputs outs) = Ok ()"
    using valid_runs [OF spec, of inputs] prefill_input_runs [OF spec] inputs(2) by blast
  have "\<exists>l. runtime_step mock_backend inputs r = (Ok outs, r\<lparr>rt_log := l\<rparr>)"
    using ready inputs(1) c g l3 outs
    by (simp add: prefill_ready_def runtime_step_def Let_def next_op_def on_backend_def mock_backend_def mock_execute_eq
        check_graph_def ok_op_def reject_def)
      (rule exI, rule refl)
  then obtain l where step: "runtime_step mock_backend inputs r = (Ok outs, r\<lparr>rt_log := l\<rparr>)" by blast
  have "prefill_ready (r\<lparr>rt_log := l\<rparr>)" using ready by (simp add: prefill_ready_def)
  with step outs(1) show ?thesis by auto
qed

section \<open>The contract of the ranks of a role\<close>

lemma compile_ranks:
  "compile x s t = Ok a \<Longrightarrow> art_ranks a = role_plans s (Prefill, spec_prefill s) @ role_plans s (Decode, spec_decode s)"
  by (auto simp: compile_def Let_def outcome_simps)

lemma role_has_rank:
  assumes "compile x (art_spec a) (art_target a) = Ok a"
  shows "\<exists>p \<in> set (art_ranks a). rank_role (plan_rank p) = role"
proof -
  have spec: "spec_ok (art_spec a)" using assms by (auto simp: compile_def outcome_simps spec_ok_def)
  define mesh where "mesh = (case role of Prefill \<Rightarrow> spec_prefill (art_spec a) | Decode \<Rightarrow> spec_decode (art_spec a))"
  have "plan_of_rank (art_spec a) role mesh 0 0 \<in> set (role_plans (art_spec a) (role, mesh))"
    using spec_ok_meshes [OF spec] by (intro in_role_plans) (auto simp: mesh_def split: role.split)
  then have "plan_of_rank (art_spec a) role mesh 0 0 \<in> set (art_ranks a)"
    using compile_ranks [OF assms] by (auto simp: mesh_def split: role.splits)
  moreover have "rank_role (plan_rank (plan_of_rank (art_spec a) role mesh 0 0)) = role" by (simp add: plan_of_rank_def)
  ultimately show ?thesis by blast
qed

locale rank_service =
  fixes role :: role
    and rank_ready :: "mock runtime \<Rightarrow> bool"
    and batch_ok :: "spec \<Rightarrow> step_input list \<Rightarrow> bool"
  assumes rank_started: "rt_stage t = StReady \<Longrightarrow> rank_role (plan_rank (rt_plan t)) = role \<Longrightarrow> spec_ok (art_spec (rt_artifact t)) \<Longrightarrow>
      graphs_agree t \<Longrightarrow> (role = Decode \<longrightarrow> all_captured (buckets_of (art_spec (rt_artifact t))) t) \<Longrightarrow> rank_ready t"
    and rank_serves: "rank_ready r \<Longrightarrow> batch_ok (art_spec (rt_artifact r)) inputs \<Longrightarrow>
      \<exists>outs t. runtime_step mock_backend inputs r = (Ok outs, t) \<and>
        collect (run_request (art_spec (rt_artifact r))) inputs = Ok outs \<and> rank_ready t \<and>
        art_spec (rt_artifact t) = art_spec (rt_artifact r)"
begin

lemma worker_starts:
  assumes "compile x (art_spec a) (art_target a) = Ok a" and "p \<in> set (art_ranks a)" and "rank_role (plan_rank p) = role"
    and "target_backend (art_target a) = Mock" and "1 < vocab (spec_model (art_spec a))"
  shows "\<exists>t. start_worker x a p = Ok (Some t) \<and> rank_ready t \<and> art_spec (rt_artifact t) = art_spec a"
proof -
  let ?r = "runtime_new mock_default a p []"
  have "\<exists>t. start_inner x mock_backend None ?r = (Ok (), t) \<and> graphs_agree t \<and>
    rt_artifact t = rt_artifact ?r \<and> rt_plan t = rt_plan ?r \<and>
    (rank_role (plan_rank (rt_plan ?r)) = Decode \<longrightarrow> all_captured (buckets_of (art_spec (rt_artifact ?r))) t)"
    by (rule mock_start_inner) (use assms in \<open>simp_all add: runtime_new_def\<close>)
  then obtain t where t: "start_inner x mock_backend None ?r = (Ok (), t)" "graphs_agree t" "rt_artifact t = a" "rt_plan t = p"
    "role = Decode \<longrightarrow> all_captured (buckets_of (art_spec a)) t"
    using assms(3) by (auto simp: runtime_new_def)
  then have "rank_ready t"
    using start_inner_Ok(1,2) [OF t(1)] assms(3) by (intro rank_started) (simp_all add: spec_ok_def runtime_new_def)
  moreover have "start_worker x a p = Ok (Some t)"
    using t(1) by (simp add: start_worker_def runtime_start_def runtime_new_def receive_def)
  ultimately show ?thesis using t(3) by blast
qed

definition all_ready :: "spec \<Rightarrow> mock workers \<Rightarrow> bool" where
  "all_ready s ws \<longleftrightarrow> (\<forall>w \<in> set ws. \<exists>r. w = Some r \<and> rank_ready r \<and> art_spec (rt_artifact r) = s)"

lemma group_starts:
  assumes "compile x (art_spec a) (art_target a) = Ok a" and "target_backend (art_target a) = Mock"
    and "1 < vocab (spec_model (art_spec a))"
  shows "\<exists>ws. group_mock x a role = Ok ws \<and> ws \<noteq> [] \<and> all_ready (art_spec a) ws"
proof -
  let ?ps = "filter (\<lambda>p. rank_role (plan_rank p) = role) (art_ranks a)"
  have run: "\<exists>ws. collect (start_worker x a) ps = Ok ws \<and> length ws = length ps \<and> all_ready (art_spec a) ws"
    if "set ps \<subseteq> set ?ps" for ps
    using that
  proof (induction ps)
    case (Cons p ps)
    then obtain ws where ws: "collect (start_worker x a) ps = Ok ws" "length ws = length ps" "all_ready (art_spec a) ws" by auto
    obtain t where "start_worker x a p = Ok (Some t)" "rank_ready t" "art_spec (rt_artifact t) = art_spec a"
      using worker_starts [OF assms(1) _ _ assms(2,3), of p] Cons.prems by auto
    then show ?case using ws by (simp add: all_ready_def)
  qed (simp add: all_ready_def)
  have "?ps \<noteq> []" using role_has_rank [OF assms(1)] by (simp add: filter_empty_conv)
  moreover obtain ws where "collect (start_worker x a) ?ps = Ok ws" "length ws = length ?ps" "all_ready (art_spec a) ws"
    using run [of ?ps] by blast
  ultimately show ?thesis using assms(2) by (auto simp: group_mock_def reject_def)
qed

lemma send_serves:
  assumes batch: "batch_ok s inputs" and outs: "collect (run_request s) inputs = Ok outs" and "all_ready s us"
  shows "\<exists>ws. send_step mock_backend inputs us = (Ok (replicate (length us) (Ok outs)), ws) \<and> length ws = length us \<and> all_ready s ws"
  using assms(3)
proof (induction us)
  case (Cons u us)
  then obtain r where r: "u = Some r" "rank_ready r" "art_spec (rt_artifact r) = s" "all_ready s us" by (auto simp: all_ready_def)
  obtain t where t: "runtime_step mock_backend inputs r = (Ok outs, t)" "rank_ready t" "art_spec (rt_artifact t) = s"
    using rank_serves [OF r(2), of inputs] batch r(3) outs by auto
  obtain ws where "send_step mock_backend inputs us = (Ok (replicate (length us) (Ok outs)), ws)" "length ws = length us" "all_ready s ws"
    using Cons.IH r(4) by blast
  with r(1) t show ?case by (simp add: all_ready_def)
qed (simp add: all_ready_def)

lemma group_serves:
  assumes "ws \<noteq> []" and "all_ready s ws" and "batch_ok s inputs"
  shows "\<exists>outs ws'. group_step mock_backend inputs ws = (Ok outs, ws') \<and> collect (run_request s) inputs = Ok outs \<and>
    ws' \<noteq> [] \<and> all_ready s ws'"
proof -
  obtain r where r: "rank_ready r" "art_spec (rt_artifact r) = s" using assms(1,2) by (cases ws) (auto simp: all_ready_def)
  then obtain outs where outs: "collect (run_request s) inputs = Ok outs" using rank_serves [OF r(1), of inputs] assms(3) by blast
  obtain ws' where ws': "send_step mock_backend inputs ws = (Ok (replicate (length ws) (Ok outs)), ws')" "length ws' = length ws" "all_ready s ws'"
    using send_serves [OF assms(3) outs assms(2)] by blast
  have "leader_reply (replicate (length ws) (Ok outs)) = Ok outs"
    using assms(1) by (cases ws) (auto simp: receive_def outcome_simps)
  then show ?thesis using ws' outs assms(1) by (auto simp: group_step_def)
qed

end

interpretation decode_ranks: rank_service Decode decode_ready decode_batch
proof
  show "\<exists>outs t. runtime_step mock_backend inputs r = (Ok outs, t) \<and>
      collect (run_request (art_spec (rt_artifact r))) inputs = Ok outs \<and> decode_ready t \<and>
      art_spec (rt_artifact t) = art_spec (rt_artifact r)"
    if "decode_ready r" "decode_batch (art_spec (rt_artifact r)) inputs" for r inputs
    using decode_step [OF that(1) refl] that(2) by (simp add: decode_batch_def disjoint_bindings_def)
qed (simp add: decode_ready_def)

interpretation prefill_ranks: rank_service Prefill prefill_ready prefill_batch
  by unfold_locales (simp add: prefill_ready_def, rule prefill_step)

section \<open>From an artifact to tokens\<close>

text \<open>A group that steps through a sequence of batches; the results in order.\<close>

fun group_run :: "'b backend \<Rightarrow> step_input list list \<Rightarrow> 'b workers \<Rightarrow> step_output list outcome list" where
  "group_run be [] ws = []"
| "group_run be (inputs # rest) ws = (let (res, ws') = group_step be inputs ws in res # group_run be rest ws')"

lemma decode_run_serves:
  "ws \<noteq> [] \<Longrightarrow> decode_ranks.all_ready s ws \<Longrightarrow> \<forall>inputs \<in> set batches. decode_batch s inputs \<Longrightarrow>
    group_run mock_backend batches ws = map (collect (run_request s)) batches"
proof (induction batches arbitrary: ws)
  case (Cons inputs batches)
  obtain outs ws' where "group_step mock_backend inputs ws = (Ok outs, ws')" "collect (run_request s) inputs = Ok outs"
    "ws' \<noteq> []" "decode_ranks.all_ready s ws'"
    using decode_ranks.group_serves [OF Cons.prems(1,2), of inputs] Cons.prems(3) by auto
  then show ?case using Cons.IH [of ws'] Cons.prems(3) by simp
qed simp

text \<open>C31. The whole path from an artifact to tokens on the mock backend: the group of all decode ranks of
  a compiled artifact starts, and through any sequence of batches that respect the bindings every
  step succeeds on every rank with exactly the outputs of the reference semantics.\<close>

theorem decode_group_serves:
  assumes "compile x (art_spec a) (art_target a) = Ok a" and "target_backend (art_target a) = Mock"
    and "1 < vocab (spec_model (art_spec a))" and "\<forall>inputs \<in> set batches. decode_batch (art_spec a) inputs"
  shows "\<exists>ws. group_mock x a Decode = Ok ws \<and> ws \<noteq> [] \<and>
    group_run mock_backend batches ws = map (collect (run_request (art_spec a))) batches"
proof -
  obtain ws where "group_mock x a Decode = Ok ws" "ws \<noteq> []" "decode_ranks.all_ready (art_spec a) ws"
    using decode_ranks.group_starts [OF assms(1-3)] by blast
  then show ?thesis using decode_run_serves assms(4) by blast
qed

theorem decode_group_serves_witness:
  "\<exists>ws. group_mock (example_externals example_artifact) example_artifact Decode = Ok ws \<and>
     group_run mock_backend [[example_decode], [example_decode]] ws = map (collect (run_request example_spec)) [[example_decode], [example_decode]]"
proof -
  have "\<exists>ws. group_mock (example_externals example_artifact) example_artifact Decode = Ok ws \<and> ws \<noteq> [] \<and>
    group_run mock_backend [[example_decode], [example_decode]] ws =
      map (collect (run_request (art_spec example_artifact))) [[example_decode], [example_decode]]"
    by (rule decode_group_serves)
      (use example_decode_input in \<open>simp_all add: example_artifact_spec example_compiles example_spec_sizes decode_batch_def disjoint_bindings_def\<close>,
       simp add: example_spec_def example_decode_def)
  then show ?thesis by (auto simp: example_artifact_spec)
qed

end
