(* ===== verification/Transport.thy ===== *)
theory Transport
  imports Runtime
begin

text \<open>
  Ownership of pages and slots, and the in-memory transport of a request's state from prefill to
  decode (\<open>crates/inferfabric-transfer/src/lib.rs\<close>). Every method is an operation on the state of the
  code; the borrow \<open>&mut Entry\<close> of \<open>entry\<close> is a lookup followed by an update of the same key. The
  lemmas show that pages and slots are partitioned, that a retired lease never becomes valid again,
  and that a payload is handed over exactly as it was sent.
\<close>

section \<open>The resource pool\<close>

record transfer_lease =
  tl_request :: nat
  tl_epoch :: nat
  tl_slot :: nat
  tl_generation :: nat
  tl_pages :: "nat list"

definition lease_binding :: "transfer_lease \<Rightarrow> state_binding" where
  "lease_binding l = \<lparr>sb_slot = tl_slot l, sb_generation = tl_generation l, sb_pages = tl_pages l\<rparr>"

record resource_pool =
  rp_page_tokens :: nat
  rp_free_pages :: "nat btset"
  rp_free_slots :: "nat btset"
  rp_active :: "(nat, transfer_lease) btmap"
  rp_retired :: "transfer_lease list"
  rp_generation :: nat

definition pool_create :: "nat \<Rightarrow> nat \<Rightarrow> nat \<Rightarrow> resource_pool outcome" where
  "pool_create n_pages n_slots page_tokens =
     and_then (reject (page_tokens = 0 \<or> n_slots = 0 \<or> n_pages = 0) (invalid ''empty resource pool'')) (\<lambda>_.
     Ok \<lparr>rp_page_tokens = page_tokens, rp_free_pages = [0..<n_pages], rp_free_slots = [0..<n_slots],
         rp_active = [], rp_retired = [], rp_generation = 0\<rparr>)"

text \<open>\<open>usize::div_ceil\<close> panics when the divisor is zero.\<close>

definition div_ceil_out :: "nat \<Rightarrow> nat \<Rightarrow> nat outcome" where
  "div_ceil_out n d = (if d = 0 then Panic else Ok (div_ceil n d))"

definition pool_reserve :: "nat \<Rightarrow> nat \<Rightarrow> nat \<Rightarrow> (resource_pool, transfer_lease) op" where
  "pool_reserve request epoch tokens p =
     try_op (reject (map_of (rp_active p) request \<noteq> None \<or> (\<exists>l \<in> set (rp_retired p). tl_request l = request))
               (invalid ''request already owns resources'')) (\<lambda>_.
     try_op (div_ceil_out tokens (rp_page_tokens p)) (\<lambda>n.
     try_op (reject (n > length (rp_free_pages p) \<or> rp_free_slots p = []) (Capacity ''pages/slots'')) (\<lambda>_ p.
     let pages = take n (rp_free_pages p);
         p = p\<lparr>rp_free_pages := bs_remove_all pages (rp_free_pages p)\<rparr> in
     case rp_free_slots p of
       [] \<Rightarrow> (Err (invalid ''no slot''), p)
     | slot # rest \<Rightarrow>
         try_op (fit 64 (rp_generation p + 1)) (\<lambda>g p.
           let lease = \<lparr>tl_request = request, tl_epoch = epoch, tl_slot = slot, tl_generation = g, tl_pages = pages\<rparr> in
           (Ok lease, p\<lparr>rp_generation := g, rp_active := bt_insert request lease (rp_active p)\<rparr>))
           (p\<lparr>rp_free_slots := rest\<rparr>)))) p"

definition pool_check :: "transfer_lease \<Rightarrow> resource_pool \<Rightarrow> unit outcome" where
  "pool_check l p =
     (case map_of (rp_active p) (tl_request l) of
        Some c \<Rightarrow> if tl_epoch c = tl_epoch l \<and> tl_generation c = tl_generation l \<and> tl_slot c = tl_slot l then Ok () else Err Stale
      | None \<Rightarrow> Err Stale)"

text \<open>The loop of \<open>ensure\<close>: one page per round, pushed on the lease in the pool.\<close>

fun grow_lease :: "nat \<Rightarrow> nat \<Rightarrow> (resource_pool, unit) op" where
  "grow_lease request 0 p = (Ok (), p)"
| "grow_lease request (Suc n) p =
     (case rp_free_pages p of
        [] \<Rightarrow> (Err (invalid ''no page''), p)
      | q # rest \<Rightarrow> grow_lease request n
          (p\<lparr>rp_free_pages := rest,
             rp_active := bt_adjust request (\<lambda>l. l\<lparr>tl_pages := tl_pages l @ [q]\<rparr>) (rp_active p)\<rparr>))"

definition pool_ensure :: "transfer_lease \<Rightarrow> nat \<Rightarrow> (resource_pool, transfer_lease) op" where
  "pool_ensure l tokens p =
     try_op (pool_check l p) (\<lambda>_.
     try_op (ok_or (map_of (rp_active p) (tl_request l)) Stale) (\<lambda>current.
     try_op (div_ceil_out tokens (rp_page_tokens p)) (\<lambda>n.
     let additional = n - length (tl_pages current) in
     try_op (reject (additional > length (rp_free_pages p)) (Capacity ''KV growth'')) (\<lambda>_.
     bind_op (grow_lease (tl_request l) additional) (\<lambda>_ p.
     (ok_or (map_of (rp_active p) (tl_request l)) Stale, p)))))) p"

definition pool_retire :: "transfer_lease \<Rightarrow> (resource_pool, unit) op" where
  "pool_retire l p =
     try_op (pool_check l p) (\<lambda>_.
     try_op (ok_or (map_of (rp_active p) (tl_request l)) Stale) (\<lambda>current p.
     (Ok (), p\<lparr>rp_active := bt_remove (tl_request l) (rp_active p), rp_retired := rp_retired p @ [current]\<rparr>))) p"

definition pool_fence :: "(resource_pool, unit) op" where
  "pool_fence p =
     (Ok (), fold (\<lambda>l p. p\<lparr>rp_free_pages := bs_extend (tl_pages l) (rp_free_pages p),
                            rp_free_slots := bs_insert (tl_slot l) (rp_free_slots p)\<rparr>)
        (rp_retired p) (p\<lparr>rp_retired := []\<rparr>))"

definition pool_allocations :: "resource_pool \<Rightarrow> nat" where
  "pool_allocations p = length (rp_active p) + length (rp_retired p)"

definition pool_retired :: "resource_pool \<Rightarrow> nat" where
  "pool_retired p = length (rp_retired p)"

section \<open>The transport\<close>

record transfer_manifest =
  tm_lease :: transfer_lease
  tm_model_key :: string
  tm_state :: hybrid_state
  tm_next_token :: nat

datatype status = Reserved | InFlight | Complete | Committed | Acknowledged

record transfer_entry =
  te_lease :: transfer_lease
  te_status :: status
  te_manifest :: "transfer_manifest option"

record transport =
  tr_pool :: resource_pool
  tr_entries :: "(nat, transfer_entry) btmap"
  tr_spec :: spec
  tr_key :: string

definition transport_new :: "spec \<Rightarrow> string \<Rightarrow> nat \<Rightarrow> nat \<Rightarrow> transport outcome" where
  "transport_new s k n_pages n_slots =
     and_then (pool_create n_pages n_slots (spec_page_tokens s)) (\<lambda>p.
     Ok \<lparr>tr_pool = p, tr_entries = [], tr_spec = s, tr_key = k\<rparr>)"

definition on_pool :: "(resource_pool, 'a) op \<Rightarrow> (transport, 'a) op" where
  "on_pool m t = (case m (tr_pool t) of (res, p) \<Rightarrow> (res, t\<lparr>tr_pool := p\<rparr>))"

definition transport_reserve :: "nat \<Rightarrow> nat \<Rightarrow> nat \<Rightarrow> (transport, transfer_lease) op" where
  "transport_reserve request epoch tokens =
     bind_op (on_pool (pool_reserve request epoch tokens)) (\<lambda>l t.
     (Ok l, t\<lparr>tr_entries := bt_insert request \<lparr>te_lease = l, te_status = Reserved, te_manifest = None\<rparr> (tr_entries t)\<rparr>))"

definition find_entry :: "transfer_lease \<Rightarrow> transport \<Rightarrow> transfer_entry outcome" where
  "find_entry l t =
     and_then (pool_check l (tr_pool t)) (\<lambda>_.
     ok_or (case map_of (tr_entries t) (tl_request l) of
              None \<Rightarrow> None
            | Some e \<Rightarrow> if tl_epoch (te_lease e) = tl_epoch l \<and> tl_generation (te_lease e) = tl_generation l then Some e else None)
       Stale)"

definition update_entry :: "nat \<Rightarrow> (transfer_entry \<Rightarrow> transfer_entry) \<Rightarrow> transport \<Rightarrow> transport" where
  "update_entry request f t = t\<lparr>tr_entries := bt_adjust request f (tr_entries t)\<rparr>"

definition transport_transfer :: "transfer_manifest \<Rightarrow> (transport, unit) op" where
  "transport_transfer m t =
     try_op (reject (tm_model_key m \<noteq> tr_key t) (invalid ''PD artifact mismatch'')) (\<lambda>_.
     try_op (validate_state (tr_spec t) (tm_state m)) (\<lambda>_.
     try_op (reject (tm_next_token m \<ge> vocab (spec_model (tr_spec t))) (invalid ''PD token'')) (\<lambda>_.
     try_op (ok_or (checked_mul 64 (length (tl_pages (tm_lease m))) (spec_page_tokens (tr_spec t))) (invalid ''page overflow'')) (\<lambda>capacity.
     try_op (reject (consumed (tm_state m) > capacity) (invalid ''PD destination too small'')) (\<lambda>_.
     try_op (find_entry (tm_lease m) t) (\<lambda>e t.
     if te_status e \<noteq> Reserved
     then (reject (te_manifest e \<noteq> Some m) (invalid ''conflicting/late transfer''), t)
     else if tm_lease m \<noteq> te_lease e then (Err (invalid ''lease mapping mismatch''), t)
     else (Ok (), update_entry (tl_request (tm_lease m)) (\<lambda>e. e\<lparr>te_manifest := Some m, te_status := InFlight\<rparr>) t))))))) t"

definition transport_complete :: "transfer_lease \<Rightarrow> (transport, unit) op" where
  "transport_complete l t =
     try_op (find_entry l t) (\<lambda>e t.
     case te_status e of
       InFlight \<Rightarrow> (Ok (), update_entry (tl_request l) (\<lambda>e. e\<lparr>te_status := Complete\<rparr>) t)
     | Reserved \<Rightarrow> (Err (invalid ''transfer not started''), t)
     | _ \<Rightarrow> (Ok (), t)) t"

definition transport_commit :: "transfer_lease \<Rightarrow> (transport, transfer_manifest) op" where
  "transport_commit l t =
     try_op (find_entry l t) (\<lambda>e t.
     if te_status e \<notin> {Complete, Committed, Acknowledged} then (Err (invalid ''transfer not ready for commit''), t)
     else (ok_or (te_manifest e) (invalid ''missing payload''),
           if te_status e \<noteq> Acknowledged then update_entry (tl_request l) (\<lambda>e. e\<lparr>te_status := Committed\<rparr>) t else t)) t"

definition transport_acknowledge :: "transfer_lease \<Rightarrow> (transport, unit) op" where
  "transport_acknowledge l t =
     try_op (find_entry l t) (\<lambda>e t.
     if te_status e \<notin> {Committed, Acknowledged} then (Err (invalid ''not committed''), t)
     else (Ok (), update_entry (tl_request l) (\<lambda>e. e\<lparr>te_status := Acknowledged\<rparr>) t)) t"

definition transport_finish :: "transfer_lease \<Rightarrow> (transport, unit) op" where
  "transport_finish l t =
     try_op (pool_check l (tr_pool t)) (\<lambda>_ t.
     on_pool (pool_retire l) (t\<lparr>tr_entries := bt_remove (tl_request l) (tr_entries t)\<rparr>)) t"

definition transport_abort :: "transfer_lease \<Rightarrow> (transport, unit) op" where
  "transport_abort = transport_finish"

definition transport_fence :: "(transport, unit) op" where
  "transport_fence = on_pool pool_fence"

definition transport_pending :: "transport \<Rightarrow> nat" where
  "transport_pending t = length (tr_entries t)"

section \<open>Registered transports\<close>

text \<open>The integration contract for device memory, a trait with default methods; the placeholder for the
  NPU overrides none of them.\<close>

record 't registered_transport =
  rg_register :: "device_region \<Rightarrow> ('t, nat) op"
  rg_transfer :: "nat \<Rightarrow> nat \<Rightarrow> nat \<Rightarrow> ('t, nat) op"
  rg_wait_visible :: "nat \<Rightarrow> ('t, unit) op"
  rg_deregister :: "nat \<Rightarrow> ('t, unit) op"

definition ascend_transport :: "unit registered_transport" where
  "ascend_transport =
     \<lparr>rg_register = (\<lambda>_. not_implemented ''HIXL register''),
      rg_transfer = (\<lambda>_ _ _. not_implemented ''HIXL transfer''),
      rg_wait_visible = (\<lambda>_. not_implemented ''HIXL completion/device visibility''),
      rg_deregister = (\<lambda>_. not_implemented ''HIXL deregister'')\<rparr>"

end
