(* ===== verification/Transport_Thms.thy ===== *)
theory Transport_Thms
  imports Transport "HOL-Library.Multiset" 
begin

text \<open>
  Properties of the resource pool and of the transport: the partition of pages and slots, the death of
  retired leases, the growth of a lease in place, and the integrity of what is handed over.
\<close>

section \<open>The leases of a pool\<close>

definition leases :: "resource_pool \<Rightarrow> transfer_lease multiset" where
  "leases p = mset (bt_values (rp_active p)) + mset (rp_retired p)"

definition lease_pages :: "transfer_lease multiset \<Rightarrow> nat multiset" where
  "lease_pages M = \<Sum>\<^sub># (image_mset (\<lambda>l. mset (tl_pages l)) M)"

lemma lease_pages_simps [simp]:
  "lease_pages {#} = {#}" "lease_pages (add_mset l M) = mset (tl_pages l) + lease_pages M"
  "lease_pages (M + N) = lease_pages M + lease_pages N"
  by (simp_all add: lease_pages_def)

definition pool_sound :: "nat \<Rightarrow> nat \<Rightarrow> resource_pool \<Rightarrow> bool" where
  "pool_sound n_pages n_slots p \<longleftrightarrow>
     rp_page_tokens p \<noteq> 0 \<and> bt_wf (rp_active p) \<and> bs_wf (rp_free_pages p) \<and> bs_wf (rp_free_slots p) \<and>
     (\<forall>r l. map_of (rp_active p) r = Some l \<longrightarrow> tl_request l = r) \<and>
     mset (rp_free_pages p) + lease_pages (leases p) = mset [0..<n_pages] \<and>
     mset (rp_free_slots p) + image_mset tl_slot (leases p) = mset [0..<n_slots] \<and>
     (\<forall>l \<in># leases p. 0 < tl_generation l \<and> tl_generation l \<le> rp_generation p) \<and>
     (\<forall>g. count (image_mset tl_generation (leases p)) g \<le> 1) \<and>
     (\<forall>r. count (image_mset tl_request (leases p)) r \<le> 1)"

lemma mset_bt_adjust:
  "distinct (bt_keys m) \<Longrightarrow> map_of m k = Some v \<Longrightarrow> mset (bt_adjust k f m) = add_mset (k, f v) (mset (bt_remove k m))"
proof (induction m)
  case (Cons e m)
  show ?case
  proof (cases "fst e = k")
    case True
    then have "k \<notin> fst ` set m" using Cons.prems(1) by auto
    then have "bt_adjust k f m = m" "bt_remove k m = m"
      by (force simp: bt_adjust_def bt_remove_absent intro!: map_idI)+
    then show ?thesis using True Cons.prems(2) by (cases e) (simp add: bt_remove_def bt_adjust_def)
  next
    case False
    with Cons show ?thesis by (cases e) (auto simp: bt_remove_def bt_adjust_def)
  qed
qed simp

lemma values_insert_fresh: "k \<notin> fst ` set m \<Longrightarrow> mset (bt_values (bt_insert k v m)) = add_mset v (mset (bt_values m))"
  using mset_bt_insert_fresh [of k m v] by (metis image_mset_add_mset mset_map snd_conv)

lemma values_remove:
  "distinct (bt_keys m) \<Longrightarrow> map_of m k = Some v \<Longrightarrow> mset (bt_values m) = add_mset v (mset (bt_values (bt_remove k m)))"
  using mset_bt_remove [of m k v] by (metis image_mset_add_mset mset_map snd_conv)

lemma values_adjust:
  "distinct (bt_keys m) \<Longrightarrow> map_of m k = Some v \<Longrightarrow>
    mset (bt_values (bt_adjust k f m)) = add_mset (f v) (mset (bt_values (bt_remove k m)))"
  using mset_bt_adjust [of m k v f] by (metis image_mset_add_mset mset_map snd_conv)

lemma bt_absent: "map_of m k = None \<longleftrightarrow> k \<notin> fst ` set m"
  by (simp add: map_of_eq_None_iff)

lemma active_in_leases: "map_of (rp_active p) r = Some l \<Longrightarrow> l \<in># leases p"
  by (auto simp: leases_def dest: map_of_SomeD intro: rev_image_eqI)

lemma pool_check_Ok:
  "pool_check l p = Ok u \<longleftrightarrow> (\<exists>c. map_of (rp_active p) (tl_request l) = Some c \<and> tl_epoch c = tl_epoch l \<and>
     tl_generation c = tl_generation l \<and> tl_slot c = tl_slot l)"
  by (auto simp: pool_check_def split: option.split)

lemma pool_check_cases: "pool_check l p = Ok () \<or> pool_check l p = Err Stale"
  by (auto simp: pool_check_def split: option.split)

section \<open>Operations of the pool\<close>

lemma pool_create_sound: "pool_create n_pages n_slots k = Ok p \<Longrightarrow> pool_sound n_pages n_slots p"
  by (auto simp: pool_create_def outcome_simps pool_sound_def leases_def)

lemma pool_reserve_Ok:
  assumes "pool_reserve r e n p = (Ok l, q)"
  shows "map_of (rp_active p) r = None \<and> (\<forall>l \<in> set (rp_retired p). tl_request l \<noteq> r) \<and>
    div_ceil n (rp_page_tokens p) \<le> length (rp_free_pages p) \<and> rp_free_slots p \<noteq> [] \<and>
    l = \<lparr>tl_request = r, tl_epoch = e, tl_slot = hd (rp_free_slots p), tl_generation = rp_generation p + 1,
         tl_pages = take (div_ceil n (rp_page_tokens p)) (rp_free_pages p)\<rparr> \<and>
    q = p\<lparr>rp_free_pages := bs_remove_all (tl_pages l) (rp_free_pages p), rp_free_slots := tl (rp_free_slots p),
          rp_generation := rp_generation p + 1, rp_active := bt_insert r l (rp_active p)\<rparr>"
  using assms
  by (cases "rp_free_slots p")
    (auto simp: pool_reserve_def try_op_eq outcome_simps div_ceil_out_def Let_def not_less split: if_splits)

lemma pool_reserve_run:
  assumes "rp_page_tokens p \<noteq> 0" and "map_of (rp_active p) r = None" and "rp_retired p = []" and "rp_generation p + 1 < 2 ^ 64"
  shows "(if div_ceil n (rp_page_tokens p) \<le> length (rp_free_pages p) \<and> rp_free_slots p \<noteq> []
    then \<exists>l q. pool_reserve r e n p = (Ok l, q)
    else pool_reserve r e n p = (Err (Capacity ''pages/slots''), p))"
  using assms by (auto simp: pool_reserve_def div_ceil_out_def reject_def fit_def Let_def split: list.split)

lemma pool_reserve_other:
  assumes "fst (pool_reserve r e n p) = Err x" and "rp_page_tokens p \<noteq> 0"
  shows "snd (pool_reserve r e n p) = p"
  using assms by (auto simp: pool_reserve_def try_op_def outcome_simps div_ceil_out_def fit_def Let_def
      split: list.splits if_splits outcome.splits prod.splits)

lemma leases_reserve:
  assumes "map_of (rp_active p) r = None"
  shows "leases (p\<lparr>rp_free_pages := a, rp_free_slots := b, rp_generation := c, rp_active := bt_insert r l (rp_active p)\<rparr>)
    = add_mset l (leases p)"
  using assms by (simp add: leases_def values_insert_fresh bt_absent del: mset_map)

lemma take_bs_remove_all:
  "bs_wf xs \<Longrightarrow> mset xs = mset (take n xs) + mset (bs_remove_all (take n xs) xs)"
  by (rule mset_bs_remove_all) (auto simp: bs_wf_distinct dest: in_set_takeD)

lemma fresh_request:
  assumes "map_of (rp_active p) r = None" "\<forall>l \<in> set (rp_retired p). tl_request l \<noteq> r"
    "\<forall>r l. map_of (rp_active p) r = Some l \<longrightarrow> tl_request l = r" "bt_wf (rp_active p)"
  shows "count (image_mset tl_request (leases p)) r = 0"
proof -
  have "tl_request l \<noteq> r" if l: "l \<in> set (bt_values (rp_active p))" for l
  proof
    assume "tl_request l = r"
    obtain k where "(k, l) \<in> set (rp_active p)" using l by auto
    then have "map_of (rp_active p) k = Some l" using bt_in_get [OF assms(4)] by simp
    then show False using assms(1,3) \<open>tl_request l = r\<close> by fastforce
  qed
  then have "r \<notin># image_mset tl_request (leases p)" using assms(2) by (auto simp: leases_def)
  then show ?thesis by (simp only: not_in_iff)
qed

lemma pool_reserve_sound:
  assumes sound: "pool_sound n_pages n_slots p" and run: "pool_reserve r e n p = (Ok l, q)"
  shows "pool_sound n_pages n_slots q"
proof -
  note o = pool_reserve_Ok [OF run]
  have L: "leases q = add_mset l (leases p)" using o leases_reserve [of p r] by metis
  have wf: "bt_wf (rp_active p)" "bs_wf (rp_free_pages p)" "bs_wf (rp_free_slots p)" "rp_page_tokens p \<noteq> 0"
    and keys: "\<forall>r l. map_of (rp_active p) r = Some l \<longrightarrow> tl_request l = r"
    and parts: "mset (rp_free_pages p) + lease_pages (leases p) = mset [0..<n_pages]"
      "mset (rp_free_slots p) + image_mset tl_slot (leases p) = mset [0..<n_slots]"
    and gens: "\<forall>l \<in># leases p. 0 < tl_generation l \<and> tl_generation l \<le> rp_generation p"
      "\<forall>g. count (image_mset tl_generation (leases p)) g \<le> 1" "\<forall>r. count (image_mset tl_request (leases p)) r \<le> 1"
    using sound by (auto simp: pool_sound_def)
  have pages: "mset (rp_free_pages p) = mset (tl_pages l) + mset (rp_free_pages q)"
    using take_bs_remove_all [OF wf(2), of "div_ceil n (rp_page_tokens p)"] o by simp
  have slots: "mset (rp_free_slots p) = add_mset (tl_slot l) (mset (rp_free_slots q))"
    using o by (cases "rp_free_slots p") auto
  have "rp_generation p + 1 \<notin># image_mset tl_generation (leases p)" using gens(1) by fastforce
  then have g: "count (image_mset tl_generation (leases p)) (rp_generation p + 1) = 0" by (simp only: not_in_iff)
  have r: "count (image_mset tl_request (leases p)) r = 0"
    by (rule fresh_request) (use o keys wf in auto)
  have l: "tl_request l = r" "tl_generation l = rp_generation p + 1" using o by simp_all
  have "\<forall>g. count (image_mset tl_generation (leases q)) g \<le> 1" "\<forall>r. count (image_mset tl_request (leases q)) r \<le> 1"
    unfolding L using gens g r l by simp_all
  moreover have "\<forall>l \<in># leases q. 0 < tl_generation l \<and> tl_generation l \<le> rp_generation q"
    unfolding L using gens(1) l o by (auto simp: le_SucI)
  moreover have "bt_wf (rp_active q)" "bs_wf (rp_free_pages q)" "bs_wf (rp_free_slots q)" "rp_page_tokens q \<noteq> 0"
    "\<forall>r l. map_of (rp_active q) r = Some l \<longrightarrow> tl_request l = r"
    using o wf keys by (auto simp: bt_wf_insert bs_wf_remove_all bs_wf_tl)
  moreover have "mset (rp_free_pages q) + lease_pages (leases q) = mset [0..<n_pages]"
    "mset (rp_free_slots q) + image_mset tl_slot (leases q) = mset [0..<n_slots]"
    unfolding L parts [symmetric] pages slots by (simp_all add: ac_simps)
  ultimately show ?thesis unfolding pool_sound_def by blast
qed


lemma bt_adjust_twice: "bt_adjust k f (bt_adjust k g m) = bt_adjust k (\<lambda>v. f (g v)) m"
  by (induction m) (auto simp: bt_adjust_def)

lemma bt_adjust_same: "(\<And>v. f v = v) \<Longrightarrow> bt_adjust k f m = m"
  by (induction m) (auto simp: bt_adjust_def)

lemma grow_lease_run:
  "n \<le> length (rp_free_pages p) \<Longrightarrow>
    grow_lease r n p = (Ok (), p\<lparr>rp_free_pages := drop n (rp_free_pages p),
      rp_active := bt_adjust r (\<lambda>l. l\<lparr>tl_pages := tl_pages l @ take n (rp_free_pages p)\<rparr>) (rp_active p)\<rparr>)"
proof (induction n arbitrary: p)
  case 0
  then show ?case by (simp add: bt_adjust_same)
next
  case (Suc n)
  then obtain q rest where free: "rp_free_pages p = q # rest" by (cases "rp_free_pages p") auto
  let ?p = "p\<lparr>rp_free_pages := rest, rp_active := bt_adjust r (\<lambda>l. l\<lparr>tl_pages := tl_pages l @ [q]\<rparr>) (rp_active p)\<rparr>"
  have "n \<le> length (rp_free_pages ?p)" using Suc.prems free by simp
  from Suc.IH [OF this] show ?case using free by (simp add: bt_adjust_twice)
qed

text \<open>How a lease grows: in place, at the end, by pages that were free.\<close>

lemma pool_ensure_result:
  assumes "rp_page_tokens p \<noteq> 0"
  shows "pool_ensure l n p =
    (case map_of (rp_active p) (tl_request l) of
       None \<Rightarrow> (Err Stale, p)
     | Some c \<Rightarrow>
         let k = div_ceil n (rp_page_tokens p) - length (tl_pages c);
             c' = c\<lparr>tl_pages := tl_pages c @ take k (rp_free_pages p)\<rparr> in
         if pool_check l p \<noteq> Ok () then (Err Stale, p)
         else if k > length (rp_free_pages p) then (Err (Capacity ''KV growth''), p)
         else (Ok c', p\<lparr>rp_free_pages := drop k (rp_free_pages p),
                rp_active := bt_adjust (tl_request l) (\<lambda>l. l\<lparr>tl_pages := tl_pages l @ take k (rp_free_pages p)\<rparr>) (rp_active p)\<rparr>))"
proof (cases "map_of (rp_active p) (tl_request l)")
  case None
  then show ?thesis by (simp add: pool_ensure_def pool_check_def)
next
  case (Some c)
  let ?k = "div_ceil n (rp_page_tokens p) - length (tl_pages c)"
  show ?thesis
  proof (cases "pool_check l p = Ok ()")
    case True
    then show ?thesis
      using Some assms grow_lease_run [of ?k p "tl_request l"]
      by (simp add: pool_ensure_def div_ceil_out_def Let_def reject_def map_of_bt_adjust)
  next
    case False
    then have "pool_check l p = Err Stale" using pool_check_cases by auto
    then show ?thesis using Some by (simp add: pool_ensure_def Let_def)
  qed
qed

lemma pool_ensure_Ok:
  assumes "pool_ensure l n p = (Ok l', q)" and "rp_page_tokens p \<noteq> 0"
  shows "\<exists>c k. map_of (rp_active p) (tl_request l) = Some c \<and> pool_check l p = Ok () \<and>
    k = div_ceil n (rp_page_tokens p) - length (tl_pages c) \<and> k \<le> length (rp_free_pages p) \<and>
    l' = c\<lparr>tl_pages := tl_pages c @ take k (rp_free_pages p)\<rparr> \<and>
    q = p\<lparr>rp_free_pages := drop k (rp_free_pages p),
          rp_active := bt_adjust (tl_request l) (\<lambda>l. l\<lparr>tl_pages := tl_pages l @ take k (rp_free_pages p)\<rparr>) (rp_active p)\<rparr>"
  using assms by (auto simp: pool_ensure_result Let_def not_less split: option.splits if_splits)

lemma bs_wf_drop: "bs_wf xs \<Longrightarrow> bs_wf (drop n xs)"
  by (simp add: bs_wf_def sorted_wrt_drop)

text \<open>A change of one lease that keeps its request, slot and generation.\<close>

lemma leases_adjust:
  assumes "bt_wf (rp_active p)" and "map_of (rp_active p) r = Some c"
  shows "\<exists>M. leases p = add_mset c M \<and> leases (p\<lparr>rp_free_pages := a, rp_active := bt_adjust r f (rp_active p)\<rparr>) = add_mset (f c) M"
  using values_remove [OF bt_wf_distinct [OF assms(1)] assms(2)] values_adjust [OF bt_wf_distinct [OF assms(1)] assms(2), of f]
  by (simp add: leases_def del: mset_map)

lemma pool_ensure_sound:
  assumes sound: "pool_sound n_pages n_slots p" and run: "pool_ensure l n p = (Ok l', q)"
  shows "pool_sound n_pages n_slots q"
proof -
  obtain c k where c: "map_of (rp_active p) (tl_request l) = Some c" "k \<le> length (rp_free_pages p)"
    "l' = c\<lparr>tl_pages := tl_pages c @ take k (rp_free_pages p)\<rparr>"
    "q = p\<lparr>rp_free_pages := drop k (rp_free_pages p),
          rp_active := bt_adjust (tl_request l) (\<lambda>l. l\<lparr>tl_pages := tl_pages l @ take k (rp_free_pages p)\<rparr>) (rp_active p)\<rparr>"
    using pool_ensure_Ok [OF run] sound by (auto simp: pool_sound_def)
  obtain M where M: "leases p = add_mset c M" "leases q = add_mset l' M"
    using leases_adjust [where p = p and r = "tl_request l" and c = c and a = "drop k (rp_free_pages p)" and f = "\<lambda>l. l\<lparr>tl_pages := tl_pages l @ take k (rp_free_pages p)\<rparr>"]
      sound c by (auto simp: pool_sound_def)
  have split: "mset (rp_free_pages p) = mset (take k (rp_free_pages p)) + mset (rp_free_pages q)"
    using c(4) by simp (metis append_take_drop_id mset_append)
  have l': "tl_request l' = tl_request c" "tl_slot l' = tl_slot c" "tl_generation l' = tl_generation c"
    "tl_pages l' = tl_pages c @ take k (rp_free_pages p)"
    using c by simp_all
  have same: "image_mset tl_request (leases q) = image_mset tl_request (leases p)"
    "image_mset tl_generation (leases q) = image_mset tl_generation (leases p)"
    "image_mset tl_slot (leases q) = image_mset tl_slot (leases p)"
    "rp_generation q = rp_generation p" "rp_free_slots q = rp_free_slots p" "rp_page_tokens q = rp_page_tokens p"
    using M l' c(4) by simp_all
  have parts: "mset (rp_free_pages p) + lease_pages (leases p) = mset [0..<n_pages]" using sound by (simp only: pool_sound_def)
  have "mset (rp_free_pages q) + lease_pages (leases q) = mset [0..<n_pages]"
    unfolding parts [symmetric] split M by (simp add: l' ac_simps)
  moreover have "\<forall>r l. map_of (rp_active q) r = Some l \<longrightarrow> tl_request l = r"
    using sound c by (auto simp: pool_sound_def map_of_bt_adjust split: if_splits)
  moreover have "\<forall>l \<in># leases q. 0 < tl_generation l \<and> tl_generation l \<le> rp_generation q"
    using sound unfolding M same pool_sound_def by (simp add: l')
  moreover have "bt_wf (rp_active q)" "bs_wf (rp_free_pages q)"
    using sound c(4) by (simp_all add: pool_sound_def bs_wf_drop)
  ultimately show ?thesis using sound unfolding pool_sound_def same by blast
qed

lemma pool_retire_Ok:
  assumes "pool_retire l p = (Ok (), q)"
  shows "\<exists>c. map_of (rp_active p) (tl_request l) = Some c \<and> pool_check l p = Ok () \<and>
    q = p\<lparr>rp_active := bt_remove (tl_request l) (rp_active p), rp_retired := rp_retired p @ [c]\<rparr>"
  using assms by (auto simp: pool_retire_def try_op_eq outcome_simps)

lemma pool_retire_run:
  "pool_check l p = Ok () \<Longrightarrow> map_of (rp_active p) (tl_request l) = Some c \<Longrightarrow>
    pool_retire l p = (Ok (), p\<lparr>rp_active := bt_remove (tl_request l) (rp_active p), rp_retired := rp_retired p @ [c]\<rparr>)"
  by (simp add: pool_retire_def)

lemma leases_retire:
  assumes "bt_wf (rp_active p)" and "map_of (rp_active p) r = Some c"
  shows "leases (p\<lparr>rp_active := bt_remove r (rp_active p), rp_retired := rp_retired p @ [c]\<rparr>) = leases p"
  using values_remove [OF bt_wf_distinct [OF assms(1)] assms(2)] by (simp add: leases_def del: mset_map)

lemma pool_retire_sound:
  assumes sound: "pool_sound n_pages n_slots p" and run: "pool_retire l p = (Ok (), q)"
  shows "pool_sound n_pages n_slots q"
proof -
  obtain c where c: "map_of (rp_active p) (tl_request l) = Some c"
    "q = p\<lparr>rp_active := bt_remove (tl_request l) (rp_active p), rp_retired := rp_retired p @ [c]\<rparr>"
    using pool_retire_Ok [OF run] by auto
  have "leases q = leases p" using leases_retire [of p "tl_request l" c] sound c by (simp add: pool_sound_def)
  then show ?thesis using sound c by (auto simp: pool_sound_def bt_wf_remove)
qed


lemma fold_fence:
  "fold (\<lambda>l p. p\<lparr>rp_free_pages := bs_extend (tl_pages l) (rp_free_pages p), rp_free_slots := bs_insert (tl_slot l) (rp_free_slots p)\<rparr>) ls p =
    p\<lparr>rp_free_pages := bs_extend (concat (map tl_pages ls)) (rp_free_pages p),
      rp_free_slots := bs_extend (map tl_slot ls) (rp_free_slots p)\<rparr>"
  by (induction ls arbitrary: p) (simp_all add: bs_extend_def)

lemma pool_fence_eq:
  "pool_fence p = (Ok (), p\<lparr>rp_retired := [],
      rp_free_pages := bs_extend (concat (map tl_pages (rp_retired p))) (rp_free_pages p),
      rp_free_slots := bs_extend (map tl_slot (rp_retired p)) (rp_free_slots p)\<rparr>)"
  by (simp add: pool_fence_def fold_fence)

lemma lease_pages_mset: "lease_pages (mset ls) = mset (concat (map tl_pages ls))"
  by (induction ls) simp_all

lemma part_of_interval:
  assumes "mset xs + (mset ys + M) = mset [0..<n]"
  shows "distinct ys" "set ys \<inter> set xs = {}"
proof -
  have "\<And>x. count (mset xs + (mset ys + M)) x \<le> 1"
    unfolding assms using distinct_count_atmost_1 [of "[0..<n]"] by simp
  then have *: "count (mset xs) x + count (mset ys) x \<le> 1" for x
    by (metis (no_types) add.assoc count_union le_add1 le_trans)
  then show "distinct ys"
    by (metis (no_types, lifting) add_leD2 count_mset_gt_0 distinct_count_atmost_1 count_eq_zero_iff le_antisym
        not_gr_zero set_mset_mset less_one linorder_not_less nat_less_le)
  show "set ys \<inter> set xs = {}"
  proof (rule ccontr)
    assume "set ys \<inter> set xs \<noteq> {}"
    then obtain x where "x \<in> set xs" "x \<in> set ys" by blast
    then have "x \<in># mset xs" "x \<in># mset ys" by simp_all
    then show False using * [of x] by (metis count_greater_zero_iff add_le_cancel_left le_add1 le_antisym less_one linorder_not_le nat_less_le not_gr_zero)
  qed
qed

lemma leases_fence: "leases (snd (pool_fence p)) = mset (bt_values (rp_active p))"
  by (simp add: pool_fence_eq leases_def)

lemma pool_fence_sound:
  assumes sound: "pool_sound n_pages n_slots p"
  shows "pool_sound n_pages n_slots (snd (pool_fence p))"
proof -
  let ?q = "snd (pool_fence p)" let ?A = "mset (bt_values (rp_active p))" let ?R = "rp_retired p"
  have L: "leases p = ?A + mset ?R" "leases ?q = ?A" unfolding leases_fence by (simp_all add: leases_def)
  have parts: "mset (rp_free_pages p) + (mset (concat (map tl_pages ?R)) + lease_pages ?A) = mset [0..<n_pages]"
    "mset (rp_free_slots p) + (mset (map tl_slot ?R) + image_mset tl_slot ?A) = mset [0..<n_slots]"
    using sound by (simp_all add: pool_sound_def L lease_pages_mset ac_simps)
  have "mset (rp_free_pages ?q) = mset (concat (map tl_pages ?R)) + mset (rp_free_pages p)"
    "mset (rp_free_slots ?q) = mset (map tl_slot ?R) + mset (rp_free_slots p)"
    using mset_bs_extend [OF part_of_interval [OF parts(1)]] mset_bs_extend [OF part_of_interval [OF parts(2)]]
    by (simp_all add: pool_fence_eq)
  then have "mset (rp_free_pages ?q) + lease_pages (leases ?q) = mset [0..<n_pages]"
    "mset (rp_free_slots ?q) + image_mset tl_slot (leases ?q) = mset [0..<n_slots]"
    unfolding L parts [symmetric] by (simp_all only: ac_simps)
  moreover have "\<forall>g. count (image_mset tl_generation (leases ?q)) g \<le> 1" "\<forall>r. count (image_mset tl_request (leases ?q)) r \<le> 1"
    using sound unfolding pool_sound_def L by (metis (no_types) add_leD1 count_union image_mset_union)+
  moreover have "\<forall>l \<in># leases ?q. 0 < tl_generation l \<and> tl_generation l \<le> rp_generation ?q"
    using sound unfolding pool_sound_def L by (simp add: pool_fence_eq)
  moreover have "bt_wf (rp_active ?q)" "bs_wf (rp_free_pages ?q)" "bs_wf (rp_free_slots ?q)" "rp_page_tokens ?q \<noteq> 0"
    "\<forall>r l. map_of (rp_active ?q) r = Some l \<longrightarrow> tl_request l = r"
    using sound by (simp_all add: pool_sound_def pool_fence_eq bs_wf_extend)
  ultimately show ?thesis unfolding pool_sound_def by blast
qed

section \<open>Sequences of calls\<close>

datatype resource_call =
    ResReserve nat nat nat
  | ResEnsure transfer_lease nat
  | ResRetire transfer_lease
  | ResFence

text \<open>The state after a call that returned; a call that panics (the generation counter overflows) ends
  the process.\<close>

definition after_call :: "('s, 'a) op \<Rightarrow> 's \<Rightarrow> 's" where
  "after_call m s = (if fst (m s) = Panic then s else snd (m s))"

fun resource_exec :: "resource_call \<Rightarrow> resource_pool \<Rightarrow> resource_pool" where
  "resource_exec (ResReserve r e n) = after_call (pool_reserve r e n)"
| "resource_exec (ResEnsure l n) = after_call (pool_ensure l n)"
| "resource_exec (ResRetire l) = after_call (pool_retire l)"
| "resource_exec ResFence = after_call pool_fence"

lemma pool_ensure_Err: "fst (pool_ensure l n p) = Err e \<Longrightarrow> rp_page_tokens p \<noteq> 0 \<Longrightarrow> snd (pool_ensure l n p) = p"
  by (auto simp: pool_ensure_result Let_def split: option.splits if_splits)

lemma pool_retire_Err: "fst (pool_retire l p) = Err e \<Longrightarrow> snd (pool_retire l p) = p"
  by (auto simp: pool_retire_def try_op_def split: outcome.splits)

lemma resource_exec_sound:
  assumes sound: "pool_sound n_pages n_slots p"
  shows "pool_sound n_pages n_slots (resource_exec c p)"
proof -
  have "rp_page_tokens p \<noteq> 0" using sound by (simp add: pool_sound_def)
  have via: "pool_sound n_pages n_slots (after_call m p)"
    if "\<And>x q. m p = (Ok x, q) \<Longrightarrow> pool_sound n_pages n_slots q" "\<And>e. fst (m p) = Err e \<Longrightarrow> snd (m p) = p" for m :: "(resource_pool, 'x) op"
    using that sound by (cases "m p"; cases "fst (m p)") (auto simp: after_call_def)
  show ?thesis
  proof (cases c)
    case (ResReserve r e n)
    have "pool_sound n_pages n_slots (after_call (pool_reserve r e n) p)"
      by (rule via) (use pool_reserve_sound [OF sound] pool_reserve_other \<open>rp_page_tokens p \<noteq> 0\<close> in blast)+
    then show ?thesis using ResReserve by simp
  next
    case (ResEnsure l n)
    have "pool_sound n_pages n_slots (after_call (pool_ensure l n) p)"
      by (rule via) (use pool_ensure_sound [OF sound] pool_ensure_Err \<open>rp_page_tokens p \<noteq> 0\<close> in blast)+
    then show ?thesis using ResEnsure by simp
  next
    case (ResRetire l)
    have "pool_sound n_pages n_slots (after_call (pool_retire l) p)"
    proof (rule via)
      show "pool_sound n_pages n_slots q" if "pool_retire l p = (Ok x, q)" for x q
        using pool_retire_sound [OF sound, of l q] that by simp
    qed (rule pool_retire_Err)
    then show ?thesis using ResRetire by simp
  next
    case ResFence
    then show ?thesis using pool_fence_sound [OF sound] by (simp add: after_call_def pool_fence_eq)
  qed
qed

interpretation resource: op_machine resource_exec "pool_sound n_pages n_slots" for n_pages n_slots
  by unfold_locales (rule resource_exec_sound)

text \<open>C9. Through any sequence of reservations, growth, retirements and fences the pool partitions its
  pages and its slots: each is free, or belongs to exactly one lease, active or retired; no request has
  two leases and no two leases a generation.\<close>

theorem resource_pool_partition:
  assumes "pool_create n_pages n_slots k = Ok p" and "q = fold resource_exec cs p"
  shows "mset (rp_free_pages q @ concat (map tl_pages (bt_values (rp_active q) @ rp_retired q))) = mset [0..<n_pages] \<and>
    mset (rp_free_slots q @ map tl_slot (bt_values (rp_active q) @ rp_retired q)) = mset [0..<n_slots] \<and>
    distinct (map tl_request (bt_values (rp_active q) @ rp_retired q)) \<and>
    distinct (map tl_generation (bt_values (rp_active q) @ rp_retired q))"
proof -
  let ?ls = "bt_values (rp_active q) @ rp_retired q"
  have "pool_sound n_pages n_slots q"
    unfolding assms(2) by (rule resource.run_inv [OF pool_create_sound [OF assms(1)]])
  moreover have "leases q = mset ?ls" by (simp add: leases_def)
  ultimately have *: "mset (rp_free_pages q) + lease_pages (mset ?ls) = mset [0..<n_pages]"
    "mset (rp_free_slots q) + image_mset tl_slot (mset ?ls) = mset [0..<n_slots]"
    "\<forall>g. count (image_mset tl_generation (mset ?ls)) g \<le> 1" "\<forall>r. count (image_mset tl_request (mset ?ls)) r \<le> 1"
    unfolding pool_sound_def by metis+
  have dist: "distinct xs" if "\<forall>x. count (mset xs) x \<le> 1" for xs :: "nat list"
    using that by (induction xs) (auto simp: le_Suc_eq count_mset_0_iff split: if_splits)
  have "distinct (map tl_request ?ls)" "distinct (map tl_generation ?ls)"
    by (rule dist [OF *(4) [unfolded mset_map [symmetric]]], rule dist [OF *(3) [unfolded mset_map [symmetric]]])
  moreover have "mset (rp_free_pages q @ concat (map tl_pages ?ls)) = mset [0..<n_pages]"
    using *(1) [unfolded lease_pages_mset] by (simp only: mset_append)
  moreover have "mset (rp_free_slots q @ map tl_slot ?ls) = mset [0..<n_slots]"
    using *(2) unfolding mset_map [symmetric] by (simp only: mset_append)
  ultimately show ?thesis by (intro conjI)
qed


section \<open>Retired leases\<close>

definition live_generations :: "resource_pool \<Rightarrow> nat set" where
  "live_generations p = {tl_generation l |r l. map_of (rp_active p) r = Some l}"

definition generation_frame :: "resource_pool \<Rightarrow> resource_pool \<Rightarrow> bool" where
  "generation_frame p q \<longleftrightarrow> rp_generation p \<le> rp_generation q \<and>
     (\<forall>g \<in> live_generations q. g \<in> live_generations p \<or> rp_generation p < g)"

lemma generation_frame_refl [simp]: "generation_frame p p"
  by (simp add: generation_frame_def)

lemma frame_reserve: "pool_reserve r e n p = (Ok l, q) \<Longrightarrow> generation_frame p q"
  using pool_reserve_Ok [of r e n p l q]
  by (auto simp: generation_frame_def live_generations_def split: if_splits)

lemma frame_ensure: "pool_ensure l n p = (Ok l', q) \<Longrightarrow> rp_page_tokens p \<noteq> 0 \<Longrightarrow> generation_frame p q"
  using pool_ensure_Ok [of l n p l' q]
  by (fastforce simp: generation_frame_def live_generations_def map_of_bt_adjust split: if_splits)

lemma frame_retire: "pool_retire l p = (Ok u, q) \<Longrightarrow> generation_frame p q"
  using pool_retire_Ok [of l p q]
  by (auto simp: generation_frame_def live_generations_def split: if_splits) metis

lemma frame_after:
  assumes "\<And>x q. m p = (Ok x, q) \<Longrightarrow> generation_frame p q" and "\<And>e. fst (m p) = Err e \<Longrightarrow> snd (m p) = p"
  shows "generation_frame p (after_call m p)"
  using assms by (cases "m p"; cases "fst (m p)") (auto simp: after_call_def)

lemma resource_exec_frame: "rp_page_tokens p \<noteq> 0 \<Longrightarrow> generation_frame p (resource_exec c p)"
proof (cases c)
  case ResFence
  then show ?thesis by (simp add: pool_fence_eq generation_frame_def live_generations_def after_call_def)
qed (auto intro!: frame_after dest: frame_reserve frame_ensure frame_retire simp: pool_reserve_other pool_ensure_Err pool_retire_Err)

lemma retired_generation_gone:
  assumes sound: "pool_sound n_pages n_slots p" and run: "pool_retire l p = (Ok (), q)"
  shows "tl_generation l \<notin> live_generations q" "tl_generation l \<le> rp_generation q"
proof -
  obtain c where c: "map_of (rp_active p) (tl_request l) = Some c" "pool_check l p = Ok ()"
    "q = p\<lparr>rp_active := bt_remove (tl_request l) (rp_active p), rp_retired := rp_retired p @ [c]\<rparr>"
    using pool_retire_Ok [OF run] by auto
  then have g: "tl_generation c = tl_generation l" by (auto simp: pool_check_Ok)
  have q: "pool_sound n_pages n_slots q" by (rule pool_retire_sound [OF sound run])
  have c_in: "c \<in> set (rp_retired q)" using c(3) by simp
  then have "c \<in># leases q" by (simp add: leases_def)
  then show "tl_generation l \<le> rp_generation q" using q g by (auto simp: pool_sound_def)
  show "tl_generation l \<notin> live_generations q"
  proof
    assume "tl_generation l \<in> live_generations q"
    then obtain r a where a: "map_of (rp_active q) r = Some a" "tl_generation a = tl_generation l"
      by (auto simp: live_generations_def)
    then have "a \<in># mset (bt_values (rp_active q))" by (force dest: map_of_SomeD)
    then have "tl_generation l \<in># image_mset tl_generation (mset (bt_values (rp_active q)))"
      "tl_generation l \<in># image_mset tl_generation (mset (rp_retired q))"
      using a(2) g c_in by (simp_all only: set_image_mset set_mset_mset) (metis rev_image_eqI)+
    then have "1 \<le> count (image_mset tl_generation (mset (bt_values (rp_active q)))) (tl_generation l)"
      "1 \<le> count (image_mset tl_generation (mset (rp_retired q))) (tl_generation l)"
      by (metis One_nat_def Suc_leI count_greater_zero_iff)+
    then have "2 \<le> count (image_mset tl_generation (leases q)) (tl_generation l)" by (simp only: leases_def image_mset_union count_union)
    moreover have "count (image_mset tl_generation (leases q)) (tl_generation l) \<le> 1" using q by (simp only: pool_sound_def)
    ultimately show False by simp
  qed
qed

text \<open>A lease that was retired is stale for ever: whatever calls follow, even when its request id, slot
  and epoch are used again, the pool never accepts it.\<close>

theorem retired_lease_stays_stale:
  assumes "pool_create n_pages n_slots k = Ok p" and "pool_retire l (fold resource_exec cs p) = (Ok (), q)"
  shows "pool_check l (fold resource_exec ds q) = Err Stale"
proof -
  have q: "pool_sound n_pages n_slots q"
    by (rule pool_retire_sound [OF resource.run_inv [OF pool_create_sound [OF assms(1)]] assms(2)])
  let ?P = "\<lambda>x. tl_generation l \<notin> live_generations x \<and> tl_generation l \<le> rp_generation x"
  have "?P (fold resource_exec ds q)"
  proof (rule resource.run_stable [where n_pages = n_pages and n_slots = n_slots])
    show "?P (resource_exec c x)" if "pool_sound n_pages n_slots x" "?P x" for x c
      using resource_exec_frame [of x c] that by (auto simp: generation_frame_def pool_sound_def)
  qed (use q retired_generation_gone [OF resource.run_inv [OF pool_create_sound [OF assms(1)]] assms(2)] in auto)
  then have "pool_check l (fold resource_exec ds q) \<noteq> Ok ()"
    by (auto simp: pool_check_Ok live_generations_def)
  then show ?thesis using pool_check_cases by blast
qed

section \<open>A concrete pool\<close>

lemma small_pool: "pool_create 4 3 2 = Ok \<lparr>rp_page_tokens = 2, rp_free_pages = [0, 1, 2, 3], rp_free_slots = [0, 1, 2],
    rp_active = [], rp_retired = [], rp_generation = 0\<rparr>"
  by (simp add: pool_create_def reject_def upt_rec)

lemmas resource_eval = pool_reserve_def pool_retire_def pool_check_def div_ceil_out_def div_ceil_def reject_def try_op_def
  fit_def bs_remove_all_def bs_remove_def bt_remove_def after_call_def Let_def

definition example_lease :: transfer_lease where
  "example_lease = \<lparr>tl_request = 7, tl_epoch = 1, tl_slot = 0, tl_generation = 1, tl_pages = [0, 1]\<rparr>"

theorem resource_pool_partition_witness:
  "\<exists>p. pool_create 4 3 2 = Ok p \<and>
     mset (rp_free_pages (fold resource_exec [ResReserve 7 1 3] p) @
       concat (map tl_pages (bt_values (rp_active (fold resource_exec [ResReserve 7 1 3] p)) @ rp_retired (fold resource_exec [ResReserve 7 1 3] p))))
     = mset [0..<4]"
  using resource_pool_partition [OF small_pool refl, of "[ResReserve 7 1 3]"] small_pool by blast

theorem retired_lease_stays_stale_witness:
  "\<exists>p q. pool_create 4 3 2 = Ok p \<and> pool_retire example_lease (fold resource_exec [ResReserve 7 1 3] p) = (Ok (), q) \<and>
     pool_check example_lease (fold resource_exec [ResFence, ResReserve 7 1 3] q) = Err Stale"
proof -
  let ?p = "\<lparr>rp_page_tokens = 2, rp_free_pages = [0, 1, 2, 3], rp_free_slots = [0, 1, 2],
    rp_active = [], rp_retired = [], rp_generation = 0\<rparr>"
  have "\<exists>q. pool_retire example_lease (fold resource_exec [ResReserve 7 1 3] ?p) = (Ok (), q)"
    by (simp add: resource_eval example_lease_def)
  then obtain q where q: "pool_retire example_lease (fold resource_exec [ResReserve 7 1 3] ?p) = (Ok (), q)" by blast
  then show ?thesis using retired_lease_stays_stale [OF small_pool q, of "[ResFence, ResReserve 7 1 3]"] small_pool by blast
qed

end
