(* ===== verification/Handover.thy ===== *)
theory Handover
  imports Transport_Thms
begin

text \<open>
  The protocol of the transport over the pool: every active lease has exactly one entry, an entry has a
  payload from its transfer on, and the payload that is committed is the one that was sent.
\<close>

section \<open>The invariant of the transport\<close>

definition payload_ok :: "transport \<Rightarrow> transfer_lease \<Rightarrow> transfer_manifest \<Rightarrow> bool" where
  "payload_ok t l m \<longleftrightarrow> tm_lease m = l \<and> tm_model_key m = tr_key t \<and> state_ok (tr_spec t) (tm_state m) \<and>
     tm_next_token m < vocab (spec_model (tr_spec t)) \<and>
     consumed (tm_state m) \<le> length (tl_pages l) * spec_page_tokens (tr_spec t)"

definition entry_sound :: "transport \<Rightarrow> transfer_entry \<Rightarrow> transfer_lease \<Rightarrow> bool" where
  "entry_sound t e c \<longleftrightarrow>
     tl_request (te_lease e) = tl_request c \<and> tl_epoch (te_lease e) = tl_epoch c \<and>
     tl_generation (te_lease e) = tl_generation c \<and> tl_slot (te_lease e) = tl_slot c \<and>
     (\<exists>more. tl_pages c = tl_pages (te_lease e) @ more) \<and>
     (te_status e = Reserved \<longleftrightarrow> te_manifest e = None) \<and>
     (\<forall>m. te_manifest e = Some m \<longrightarrow> payload_ok t (te_lease e) m)"

definition transport_sound :: "nat \<Rightarrow> nat \<Rightarrow> transport \<Rightarrow> bool" where
  "transport_sound n_pages n_slots t \<longleftrightarrow>
     pool_sound n_pages n_slots (tr_pool t) \<and> bt_wf (tr_entries t) \<and>
     (\<forall>r. rel_option (entry_sound t) (map_of (tr_entries t) r) (map_of (rp_active (tr_pool t)) r))"

lemma entry_sound_same:
  "tr_spec u = tr_spec t \<Longrightarrow> tr_key u = tr_key t \<Longrightarrow> entry_sound u = entry_sound t"
  by (simp add: entry_sound_def payload_ok_def fun_eq_iff)

lemma find_entry_Ok:
  "find_entry l t = Ok e \<longleftrightarrow> pool_check l (tr_pool t) = Ok () \<and> map_of (tr_entries t) (tl_request l) = Some e \<and>
     tl_epoch (te_lease e) = tl_epoch l \<and> tl_generation (te_lease e) = tl_generation l"
  by (auto simp: find_entry_def outcome_simps split: option.split if_splits)

lemma find_entry_no_panic: "find_entry l t \<noteq> Panic"
  using pool_check_cases [of l "tr_pool t"] by (auto simp: find_entry_def outcome_simps)

lemma sound_entry:
  assumes "transport_sound n_pages n_slots t" and "map_of (rp_active (tr_pool t)) r = Some c"
  shows "\<exists>e. map_of (tr_entries t) r = Some e \<and> entry_sound t e c"
proof -
  have "rel_option (entry_sound t) (map_of (tr_entries t) r) (map_of (rp_active (tr_pool t)) r)"
    using assms(1) by (simp add: transport_sound_def)
  then show ?thesis using assms(2) by (cases "map_of (tr_entries t) r") auto
qed

text \<open>A lease the pool accepts always has its entry.\<close>

lemma checked_entry:
  assumes "transport_sound n_pages n_slots t" and "pool_check l (tr_pool t) = Ok ()"
  shows "\<exists>e c. find_entry l t = Ok e \<and> map_of (rp_active (tr_pool t)) (tl_request l) = Some c \<and> entry_sound t e c"
proof -
  obtain c where c: "map_of (rp_active (tr_pool t)) (tl_request l) = Some c" "tl_epoch c = tl_epoch l" "tl_generation c = tl_generation l"
    using assms(2) by (auto simp: pool_check_Ok)
  obtain e where e: "map_of (tr_entries t) (tl_request l) = Some e" "entry_sound t e c"
    using sound_entry [OF assms(1) c(1)] by blast
  then show ?thesis using c assms(2) by (auto simp: find_entry_Ok entry_sound_def)
qed

section \<open>Operations of the transport\<close>

lemma on_pool_Ok: "on_pool m t = (Ok x, u) \<longleftrightarrow> (\<exists>p. m (tr_pool t) = (Ok x, p) \<and> u = t\<lparr>tr_pool := p\<rparr>)"
  by (auto simp: on_pool_def split: prod.splits)

lemma transport_new_sound: "transport_new s k n_pages n_slots = Ok t \<Longrightarrow> transport_sound n_pages n_slots t"
  by (auto simp: transport_new_def outcome_simps transport_sound_def pool_create_sound)
    (auto simp: pool_create_def outcome_simps)

lemma transport_reserve_Ok:
  "transport_reserve r e n t = (Ok l, u) \<longleftrightarrow> (\<exists>p. pool_reserve r e n (tr_pool t) = (Ok l, p) \<and>
     u = t\<lparr>tr_pool := p, tr_entries := bt_insert r \<lparr>te_lease = l, te_status = Reserved, te_manifest = None\<rparr> (tr_entries t)\<rparr>)"
  by (auto simp: transport_reserve_def bind_op_eq on_pool_Ok)

lemma transport_reserve_sound:
  assumes sound: "transport_sound n_pages n_slots t" and run: "transport_reserve r e n t = (Ok l, u)"
  shows "transport_sound n_pages n_slots u"
proof -
  obtain p where p: "pool_reserve r e n (tr_pool t) = (Ok l, p)"
    "u = t\<lparr>tr_pool := p, tr_entries := bt_insert r \<lparr>te_lease = l, te_status = Reserved, te_manifest = None\<rparr> (tr_entries t)\<rparr>"
    using run by (auto simp: transport_reserve_Ok)
  have "pool_sound n_pages n_slots p" using pool_reserve_sound [OF _ p(1)] sound by (simp add: transport_sound_def)
  moreover have "rp_active p = bt_insert r l (rp_active (tr_pool t))"
    using pool_reserve_Ok [OF p(1)] by auto
  moreover have "entry_sound t \<lparr>te_lease = l, te_status = Reserved, te_manifest = None\<rparr> l" by (simp add: entry_sound_def)
  ultimately show ?thesis
    using sound p(2) entry_sound_same [of u t] by (auto simp: transport_sound_def bt_wf_insert)
qed

lemma update_entry_sound:
  assumes sound: "transport_sound n_pages n_slots t"
    and f: "\<And>e c. map_of (tr_entries t) r = Some e \<Longrightarrow> map_of (rp_active (tr_pool t)) r = Some c \<Longrightarrow> entry_sound t e c \<Longrightarrow> entry_sound t (f e) c"
  shows "transport_sound n_pages n_slots (update_entry r f t)"
proof -
  have "rel_option (entry_sound t) (map_of (bt_adjust r f (tr_entries t)) r') (map_of (rp_active (tr_pool t)) r')" for r'
  proof -
    have "rel_option (entry_sound t) (map_of (tr_entries t) r') (map_of (rp_active (tr_pool t)) r')"
      using sound by (simp add: transport_sound_def)
    then show ?thesis using f by (cases "r' = r") (auto simp: map_of_bt_adjust option_rel_Some2 option_rel_Some1 elim!: option.rel_cases)
  qed
  then show ?thesis
    using sound entry_sound_same [of "update_entry r f t" t] by (simp add: transport_sound_def update_entry_def)
qed

lemma transport_transfer_Ok:
  assumes "transport_transfer m t = (Ok (), u)"
  shows "tm_model_key m = tr_key t \<and> state_ok (tr_spec t) (tm_state m) \<and> tm_next_token m < vocab (spec_model (tr_spec t)) \<and>
    consumed (tm_state m) \<le> length (tl_pages (tm_lease m)) * spec_page_tokens (tr_spec t) \<and>
    (\<exists>e. find_entry (tm_lease m) t = Ok e \<and>
      (if te_status e = Reserved
       then tm_lease m = te_lease e \<and> u = update_entry (tl_request (tm_lease m)) (\<lambda>e. e\<lparr>te_manifest := Some m, te_status := InFlight\<rparr>) t
       else te_manifest e = Some m \<and> u = t))"
  using assms
  by (auto simp: transport_transfer_def try_op_eq outcome_simps checked_mul_Some_iff state_ok_def not_less split: if_splits)

lemma transport_transfer_sound:
  assumes sound: "transport_sound n_pages n_slots t" and run: "transport_transfer m t = (Ok (), u)"
  shows "transport_sound n_pages n_slots u"
proof -
  note o = transport_transfer_Ok [OF run]
  then obtain e where e: "find_entry (tm_lease m) t = Ok e" by blast
  show ?thesis
  proof (cases "te_status e = Reserved")
    case True
    then have u: "tm_lease m = te_lease e" "u = update_entry (tl_request (tm_lease m)) (\<lambda>e. e\<lparr>te_manifest := Some m, te_status := InFlight\<rparr>) t"
      using o e by auto
    show ?thesis
      unfolding u(2) by (rule update_entry_sound [OF sound]) (use o e u(1) in \<open>auto simp: entry_sound_def payload_ok_def find_entry_Ok\<close>)
  next
    case False
    then have "u = t" using o e by auto
    then show ?thesis using sound by simp
  qed
qed

lemma status_sound:
  assumes "transport_sound n_pages n_slots t" and "find_entry l t = Ok e" and "te_status e \<noteq> Reserved" and "st \<noteq> Reserved"
  shows "transport_sound n_pages n_slots (update_entry (tl_request l) (\<lambda>e. e\<lparr>te_status := st\<rparr>) t)"
  by (rule update_entry_sound [OF assms(1)]) (use assms in \<open>auto simp: entry_sound_def find_entry_Ok\<close>)

lemma transport_complete_eq:
  "transport_complete l t =
    (case find_entry l t of
       Ok e \<Rightarrow> (if te_status e = Reserved then Err (invalid ''transfer not started'') else Ok (),
               if te_status e = InFlight then update_entry (tl_request l) (\<lambda>e. e\<lparr>te_status := Complete\<rparr>) t else t)
     | Err x \<Rightarrow> (Err x, t) | Panic \<Rightarrow> (Panic, t))"
  by (auto simp: transport_complete_def split: outcome.split status.split)

lemma transport_complete_sound:
  "transport_sound n_pages n_slots t \<Longrightarrow> transport_sound n_pages n_slots (snd (transport_complete l t))"
  by (auto simp: transport_complete_eq intro!: status_sound split: outcome.split)

lemma transport_commit_sound:
  "transport_sound n_pages n_slots t \<Longrightarrow> transport_sound n_pages n_slots (snd (transport_commit l t))"
  by (cases "find_entry l t") (auto simp: transport_commit_def intro!: status_sound)

lemma transport_acknowledge_sound:
  "transport_sound n_pages n_slots t \<Longrightarrow> transport_sound n_pages n_slots (snd (transport_acknowledge l t))"
  by (cases "find_entry l t") (auto simp: transport_acknowledge_def intro!: status_sound)

lemma transport_finish_eq:
  "transport_finish l t =
    (case map_of (rp_active (tr_pool t)) (tl_request l) of
       Some c \<Rightarrow> if pool_check l (tr_pool t) = Ok ()
         then (Ok (), t\<lparr>tr_entries := bt_remove (tl_request l) (tr_entries t),
                        tr_pool := (tr_pool t)\<lparr>rp_active := bt_remove (tl_request l) (rp_active (tr_pool t)),
                                              rp_retired := rp_retired (tr_pool t) @ [c]\<rparr>\<rparr>)
         else (Err Stale, t)
     | None \<Rightarrow> (Err Stale, t))"
proof (cases "pool_check l (tr_pool t) = Ok ()")
  case True
  then obtain c where "map_of (rp_active (tr_pool t)) (tl_request l) = Some c" by (auto simp: pool_check_Ok)
  then show ?thesis using True by (simp add: transport_finish_def on_pool_def pool_retire_def)
next
  case False
  then have "pool_check l (tr_pool t) = Err Stale" using pool_check_cases by blast
  then show ?thesis by (auto simp: transport_finish_def split: option.split)
qed

lemma transport_finish_sound:
  assumes sound: "transport_sound n_pages n_slots t"
  shows "transport_sound n_pages n_slots (snd (transport_finish l t))"
proof (cases "map_of (rp_active (tr_pool t)) (tl_request l)")
  case None
  then show ?thesis using sound by (simp add: transport_finish_eq)
next
  case (Some c)
  show ?thesis
  proof (cases "pool_check l (tr_pool t) = Ok ()")
    case True
    have "pool_sound n_pages n_slots ((tr_pool t)\<lparr>rp_active := bt_remove (tl_request l) (rp_active (tr_pool t)),
        rp_retired := rp_retired (tr_pool t) @ [c]\<rparr>)"
      using pool_retire_sound [OF _ pool_retire_run [OF True Some]] sound by (simp add: transport_sound_def)
    then show ?thesis
      using sound True Some entry_sound_same [of "snd (transport_finish l t)" t]
      by (simp add: transport_finish_eq transport_sound_def bt_wf_remove)
  qed (use Some sound in \<open>simp add: transport_finish_eq\<close>)
qed

lemma transport_fence_sound:
  "transport_sound n_pages n_slots t \<Longrightarrow> transport_sound n_pages n_slots (snd (transport_fence t))"
  using pool_fence_sound [of n_pages n_slots "tr_pool t"] entry_sound_same [of "snd (transport_fence t)" t]
  by (simp add: transport_fence_def on_pool_def pool_fence_eq transport_sound_def)


text \<open>The pool is a public field: the scheduler grows a lease behind the transport's back.\<close>

lemma transport_ensure_sound:
  assumes sound: "transport_sound n_pages n_slots t" and run: "on_pool (pool_ensure l n) t = (Ok l', u)"
  shows "transport_sound n_pages n_slots u"
proof -
  obtain p where p: "pool_ensure l n (tr_pool t) = (Ok l', p)" "u = t\<lparr>tr_pool := p\<rparr>" using run by (auto simp: on_pool_Ok)
  have ps: "pool_sound n_pages n_slots (tr_pool t)" using sound by (simp add: transport_sound_def)
  then obtain c k where c: "map_of (rp_active (tr_pool t)) (tl_request l) = Some c"
    "p = (tr_pool t)\<lparr>rp_free_pages := drop k (rp_free_pages (tr_pool t)),
          rp_active := bt_adjust (tl_request l) (\<lambda>l. l\<lparr>tl_pages := tl_pages l @ take k (rp_free_pages (tr_pool t))\<rparr>) (rp_active (tr_pool t))\<rparr>"
    using pool_ensure_Ok [OF p(1)] by (auto simp: pool_sound_def)
  have grow: "entry_sound t e (a\<lparr>tl_pages := tl_pages a @ xs\<rparr>)" if "entry_sound t e a" for e a xs
    using that by (auto simp: entry_sound_def)
  have "rel_option (entry_sound t) (map_of (tr_entries t) r) (map_of (rp_active p) r)" for r
  proof -
    have "rel_option (entry_sound t) (map_of (tr_entries t) r) (map_of (rp_active (tr_pool t)) r)"
      using sound by (simp add: transport_sound_def)
    then show ?thesis using grow by (cases "r = tl_request l") (auto simp: c(2) map_of_bt_adjust elim!: option.rel_cases)
  qed
  then show ?thesis
    using sound pool_ensure_sound [OF ps p(1)] p(2) entry_sound_same [of u t] by (simp add: transport_sound_def)
qed

section \<open>Sequences of calls\<close>

datatype transport_call =
    TrReserve nat nat nat
  | TrTransfer transfer_manifest
  | TrComplete transfer_lease
  | TrCommit transfer_lease
  | TrAcknowledge transfer_lease
  | TrFinish transfer_lease
  | TrAbort transfer_lease
  | TrFence
  | TrEnsure transfer_lease nat

fun transport_exec :: "transport_call \<Rightarrow> transport \<Rightarrow> transport" where
  "transport_exec (TrReserve r e n) = after_call (transport_reserve r e n)"
| "transport_exec (TrTransfer m) = after_call (transport_transfer m)"
| "transport_exec (TrComplete l) = after_call (transport_complete l)"
| "transport_exec (TrCommit l) = after_call (transport_commit l)"
| "transport_exec (TrAcknowledge l) = after_call (transport_acknowledge l)"
| "transport_exec (TrFinish l) = after_call (transport_finish l)"
| "transport_exec (TrAbort l) = after_call (transport_abort l)"
| "transport_exec TrFence = after_call transport_fence"
| "transport_exec (TrEnsure l n) = after_call (on_pool (pool_ensure l n))"

lemma transport_reserve_Err:
  "fst (transport_reserve r e n t) = Err x \<Longrightarrow> rp_page_tokens (tr_pool t) \<noteq> 0 \<Longrightarrow> snd (transport_reserve r e n t) = t"
  using pool_reserve_other [of r e n "tr_pool t" x]
  by (cases "pool_reserve r e n (tr_pool t)"; cases "fst (pool_reserve r e n (tr_pool t))")
    (auto simp: transport_reserve_def on_pool_def)

lemma transport_transfer_Err: "fst (transport_transfer m t) = Err x \<Longrightarrow> snd (transport_transfer m t) = t"
  by (auto simp: transport_transfer_def try_op_def outcome_simps split: outcome.splits if_splits)

lemma transport_ensure_Err:
  "fst (on_pool (pool_ensure l n) t) = Err x \<Longrightarrow> rp_page_tokens (tr_pool t) \<noteq> 0 \<Longrightarrow> snd (on_pool (pool_ensure l n) t) = t"
  using pool_ensure_Err [of l n "tr_pool t" x] by (auto simp: on_pool_def split: prod.splits)

lemma after_sound:
  assumes "transport_sound n_pages n_slots t"
    and "\<And>x u. m t = (Ok x, u) \<Longrightarrow> transport_sound n_pages n_slots u" and "\<And>e. fst (m t) = Err e \<Longrightarrow> snd (m t) = t"
  shows "transport_sound n_pages n_slots (after_call m t)"
  using assms by (cases "m t"; cases "fst (m t)") (auto simp: after_call_def)

lemma after_sound_all:
  "transport_sound n_pages n_slots t \<Longrightarrow> transport_sound n_pages n_slots (snd (m t)) \<Longrightarrow> transport_sound n_pages n_slots (after_call m t)"
  by (simp add: after_call_def)

lemma transport_exec_sound:
  assumes sound: "transport_sound n_pages n_slots t"
  shows "transport_sound n_pages n_slots (transport_exec c t)"
proof -
  have pt: "rp_page_tokens (tr_pool t) \<noteq> 0" using sound by (simp add: transport_sound_def pool_sound_def)
  show ?thesis
  proof (cases c)
    case (TrReserve r e n)
    have "transport_sound n_pages n_slots (after_call (transport_reserve r e n) t)"
      by (rule after_sound [OF sound]) (use transport_reserve_sound [OF sound] transport_reserve_Err pt in blast)+
    then show ?thesis using TrReserve by simp
  next
    case (TrTransfer m)
    have "transport_sound n_pages n_slots (after_call (transport_transfer m) t)"
      by (rule after_sound [OF sound]) (use transport_transfer_sound [OF sound] transport_transfer_Err in auto)
    then show ?thesis using TrTransfer by simp
  next
    case (TrEnsure l n)
    have "transport_sound n_pages n_slots (after_call (on_pool (pool_ensure l n)) t)"
      by (rule after_sound [OF sound]) (use transport_ensure_sound [OF sound] transport_ensure_Err pt in blast)+
    then show ?thesis using TrEnsure by simp
  qed (auto intro!: after_sound_all [OF sound] transport_complete_sound transport_commit_sound transport_acknowledge_sound
      transport_finish_sound transport_fence_sound sound simp: transport_abort_def)
qed

interpretation transport: op_machine transport_exec "transport_sound n_pages n_slots" for n_pages n_slots
  by unfold_locales (rule transport_exec_sound)



section \<open>Integrity of the payload\<close>

lemma finish_generation: "generation_frame (tr_pool t) (tr_pool (snd (transport_finish l t)))"
proof (cases "map_of (rp_active (tr_pool t)) (tl_request l)")
  case (Some c)
  then show ?thesis
    using frame_retire [OF pool_retire_run [of l "tr_pool t" c]] by (simp add: transport_finish_eq)
qed (simp add: transport_finish_eq)

lemma transport_exec_generation:
  assumes sound: "transport_sound n_pages n_slots t"
  shows "generation_frame (tr_pool t) (tr_pool (transport_exec c t))"
proof -
  have pt: "rp_page_tokens (tr_pool t) \<noteq> 0" using sound by (simp add: transport_sound_def pool_sound_def)
  have via: "generation_frame (tr_pool t) (tr_pool (after_call m t))"
    if "\<And>x u. m t = (Ok x, u) \<Longrightarrow> generation_frame (tr_pool t) (tr_pool u)" "\<And>e. fst (m t) = Err e \<Longrightarrow> snd (m t) = t"
    for m :: "(transport, 'x) op"
    using that by (cases "m t"; cases "fst (m t)") (auto simp: after_call_def)
  have same: "generation_frame (tr_pool t) (tr_pool (after_call m t))" if "tr_pool (snd (m t)) = tr_pool t" for m :: "(transport, 'x) op"
    using that by (simp add: after_call_def)
  show ?thesis
  proof (cases c)
    case (TrReserve r e n)
    have "generation_frame (tr_pool t) (tr_pool (after_call (transport_reserve r e n) t))"
      by (rule via) (use transport_reserve_Err pt frame_reserve in \<open>auto simp: transport_reserve_Ok\<close>)
    then show ?thesis using TrReserve by simp
  next
    case (TrEnsure l n)
    have "generation_frame (tr_pool t) (tr_pool (after_call (on_pool (pool_ensure l n)) t))"
      by (rule via) (use transport_ensure_Err pt frame_ensure [OF _ pt] in \<open>auto simp: on_pool_Ok\<close>)
    then show ?thesis using TrEnsure by simp
  next
    case (TrTransfer m)
    have "generation_frame (tr_pool t) (tr_pool (after_call (transport_transfer m) t))"
    proof (rule via)
      show "generation_frame (tr_pool t) (tr_pool u)" if "transport_transfer m t = (Ok x, u)" for x u
        using transport_transfer_Ok [of m t u] that by (auto simp: update_entry_def split: if_splits)
    qed (rule transport_transfer_Err)
    then show ?thesis using TrTransfer by simp
  next
    case TrFence
    then show ?thesis by (simp add: after_call_def transport_fence_def on_pool_def pool_fence_eq generation_frame_def live_generations_def)
  next
    case (TrFinish l)
    then show ?thesis using finish_generation [of t l] by (simp add: after_call_def)
  next
    case (TrAbort l)
    then show ?thesis using finish_generation [of t l] by (simp add: after_call_def transport_abort_def)
  next
    case (TrComplete l)
    have "tr_pool (snd (transport_complete l t)) = tr_pool t"
      by (cases "find_entry l t") (simp_all add: transport_complete_eq update_entry_def)
    then show ?thesis using TrComplete by (simp add: same)
  next
    case (TrCommit l)
    have "tr_pool (snd (transport_commit l t)) = tr_pool t"
      by (cases "find_entry l t") (simp_all add: transport_commit_def update_entry_def)
    then show ?thesis using TrCommit by (simp add: same)
  next
    case (TrAcknowledge l)
    have "tr_pool (snd (transport_acknowledge l t)) = tr_pool t"
      by (cases "find_entry l t") (simp_all add: transport_acknowledge_def update_entry_def)
    then show ?thesis using TrAcknowledge by (simp add: same)
  qed
qed

definition carries :: "transfer_manifest \<Rightarrow> transport \<Rightarrow> bool" where
  "carries m t \<longleftrightarrow> (\<exists>e. map_of (tr_entries t) (tl_request (tm_lease m)) = Some e \<and> te_manifest e = Some m \<and> te_lease e = tm_lease m)"

definition dead_generation :: "nat \<Rightarrow> transport \<Rightarrow> bool" where
  "dead_generation g t \<longleftrightarrow> g \<notin> live_generations (tr_pool t) \<and> g \<le> rp_generation (tr_pool t)"

lemma carries_entries:
  assumes "carries m t"
    and "map_of (tr_entries u) (tl_request (tm_lease m)) = map_option f (map_of (tr_entries t) (tl_request (tm_lease m)))"
    and "\<And>e. te_lease (f e) = te_lease e" "\<And>e. te_manifest (f e) = te_manifest e"
  shows "carries m u"
  using assms by (auto simp: carries_def)

lemma carries_update:
  "carries m t \<Longrightarrow> (\<And>e. te_lease (f e) = te_lease e) \<Longrightarrow> (\<And>e. te_manifest (f e) = te_manifest e) \<Longrightarrow> carries m (update_entry r f t)"
  by (rule carries_entries [of m t _ "if r = tl_request (tm_lease m) then f else id"])
    (auto simp: update_entry_def map_of_bt_adjust option.map_id0)

lemma finish_carries:
  assumes sound: "transport_sound n_pages n_slots t" and m: "carries m t"
  shows "carries m (snd (transport_finish l t)) \<or> dead_generation (tl_generation (tm_lease m)) (snd (transport_finish l t))"
proof (cases "pool_check l (tr_pool t) = Ok () \<and> tl_request l = tl_request (tm_lease m)")
  case True
  obtain e c where e: "find_entry l t = Ok e" "map_of (rp_active (tr_pool t)) (tl_request l) = Some c"
    using checked_entry [OF sound] True by blast
  then have "tl_generation l = tl_generation (tm_lease m)" using m True by (auto simp: carries_def find_entry_Ok)
  then show ?thesis
    using retired_generation_gone [OF _ pool_retire_run, of n_pages n_slots "tr_pool t" l c] sound True e
    by (simp add: transport_finish_eq dead_generation_def transport_sound_def)
next
  case False
  then show ?thesis using m by (auto simp: transport_finish_eq carries_def split: option.split)
qed

lemma transfer_carries:
  assumes run: "transport_transfer m' t = (Ok (), u)" and m: "carries m t"
    and e: "map_of (tr_entries t) (tl_request (tm_lease m)) = Some e" "te_status e \<noteq> Reserved"
  shows "carries m u"
proof -
  obtain e' where e': "map_of (tr_entries t) (tl_request (tm_lease m')) = Some e'"
    "if te_status e' = Reserved
     then u = update_entry (tl_request (tm_lease m')) (\<lambda>e. e\<lparr>te_manifest := Some m', te_status := InFlight\<rparr>) t
     else u = t"
    using transport_transfer_Ok [OF run] by (auto simp: find_entry_Ok split: if_splits)
  show ?thesis
  proof (cases "te_status e' = Reserved")
    case True
    then have "tl_request (tm_lease m') \<noteq> tl_request (tm_lease m)" using e e'(1) by auto
    then show ?thesis using True e'(2) m by (simp add: update_entry_def carries_def map_of_bt_adjust)
  qed (use e'(2) m in simp)
qed

lemma exec_carries:
  assumes sound: "transport_sound n_pages n_slots t" and m: "carries m t"
  shows "carries m (transport_exec c t) \<or> dead_generation (tl_generation (tm_lease m)) (transport_exec c t)"
proof -
  obtain e where e: "map_of (tr_entries t) (tl_request (tm_lease m)) = Some e" "te_manifest e = Some m"
    using m by (auto simp: carries_def)
  have rel: "rel_option (entry_sound t) (map_of (tr_entries t) r) (map_of (rp_active (tr_pool t)) r)" for r
    using sound by (simp add: transport_sound_def)
  have pt: "rp_page_tokens (tr_pool t) \<noteq> 0" using sound by (simp add: transport_sound_def pool_sound_def)
  have via: "carries m (after_call f t)" if "\<And>x u. f t = (Ok x, u) \<Longrightarrow> carries m u" "\<And>e. fst (f t) = Err e \<Longrightarrow> snd (f t) = t"
    for f :: "(transport, 'x) op"
    using that m by (cases "f t"; cases "fst (f t)") (auto simp: after_call_def)
  have upd: "carries m (update_entry r (\<lambda>e. e\<lparr>te_status := st\<rparr>) t)" for r st
    by (rule carries_update [OF m]) simp_all
  show ?thesis
  proof (cases c)
    case (TrReserve r ep n)
    have "carries m (after_call (transport_reserve r ep n) t)"
    proof (rule via)
      fix l u assume u: "transport_reserve r ep n t = (Ok l, u)"
      then obtain p where p: "pool_reserve r ep n (tr_pool t) = (Ok l, p)"
        "u = t\<lparr>tr_pool := p, tr_entries := bt_insert r \<lparr>te_lease = l, te_status = Reserved, te_manifest = None\<rparr> (tr_entries t)\<rparr>"
        by (auto simp: transport_reserve_Ok)
      have "map_of (rp_active (tr_pool t)) r = None" using pool_reserve_Ok [OF p(1)] by simp
      then have "r \<noteq> tl_request (tm_lease m)" using rel [of r] e(1) by (auto elim: option.rel_cases)
      then show "carries m u" using m p(2) by (simp add: carries_def)
    qed (use transport_reserve_Err pt in blast)
    then show ?thesis using TrReserve by simp
  next
    case (TrTransfer m')
    have "carries m (after_call (transport_transfer m') t)"
    proof (rule via)
      fix x u assume u: "transport_transfer m' t = (Ok x, u)"
      have "te_status e \<noteq> Reserved" using rel [of "tl_request (tm_lease m)"] e by (auto simp: entry_sound_def elim!: option.rel_cases)
      then show "carries m u" using transfer_carries [OF _ m e(1)] u by simp
    qed (rule transport_transfer_Err)
    then show ?thesis using TrTransfer by simp
  next
    case (TrEnsure l n)
    have "carries m (after_call (on_pool (pool_ensure l n)) t)"
      by (rule via) (use m transport_ensure_Err pt in \<open>auto simp: on_pool_Ok carries_def\<close>)
    then show ?thesis using TrEnsure by simp
  next
    case (TrFinish l)
    then show ?thesis using finish_carries [OF sound m, of l] m by (simp add: after_call_def)
  next
    case (TrAbort l)
    then show ?thesis using finish_carries [OF sound m, of l] m by (simp add: after_call_def transport_abort_def)
  next
    case TrFence
    then show ?thesis using m by (simp add: after_call_def transport_fence_def on_pool_def pool_fence_eq carries_def)
  next
    case (TrComplete l)
    have "carries m (snd (transport_complete l t))"
      by (cases "find_entry l t") (simp_all add: transport_complete_eq m upd)
    then show ?thesis using TrComplete m by (simp add: after_call_def)
  next
    case (TrCommit l)
    have "carries m (snd (transport_commit l t))"
      by (cases "find_entry l t") (simp_all add: transport_commit_def m upd)
    then show ?thesis using TrCommit m by (simp add: after_call_def)
  next
    case (TrAcknowledge l)
    have "carries m (snd (transport_acknowledge l t))"
      by (cases "find_entry l t") (simp_all add: transport_acknowledge_def m upd)
    then show ?thesis using TrAcknowledge m by (simp add: after_call_def)
  qed
qed

lemma exec_keeps_payload:
  assumes "transport_sound n_pages n_slots t" and "carries m t \<or> dead_generation (tl_generation (tm_lease m)) t"
  shows "carries m (transport_exec c t) \<or> dead_generation (tl_generation (tm_lease m)) (transport_exec c t)"
  using assms exec_carries [OF assms(1)] transport_exec_generation [OF assms(1), of c]
  by (auto simp: dead_generation_def generation_frame_def)

text \<open>C10. What is committed is what was sent: after a successful transfer, no sequence of calls, conflicting
  transfers, growth of the lease, cancellation and reuse of the request included, makes a commit on its
  lease return anything else.\<close>

theorem committed_payload_is_sent:
  assumes "transport_new s k n_pages n_slots = Ok t0" and "transport_transfer m (fold transport_exec cs t0) = (Ok (), t)"
    and "transport_commit (tm_lease m) (fold transport_exec ds t) = (Ok m', u)"
  shows "m' = m"
proof -
  have s0: "transport_sound n_pages n_slots (fold transport_exec cs t0)"
    by (rule transport.run_inv [OF transport_new_sound [OF assms(1)]])
  have s1: "transport_sound n_pages n_slots t" by (rule transport_transfer_sound [OF s0 assms(2)])
  have "carries m t"
    using transport_transfer_Ok [OF assms(2)] s0
    by (auto simp: find_entry_Ok carries_def update_entry_def map_of_bt_adjust entry_sound_def payload_ok_def transport_sound_def
        split: if_splits elim!: allE [of _ "tl_request (tm_lease m)"] option.rel_cases)
  then have "carries m (fold transport_exec ds t) \<or> dead_generation (tl_generation (tm_lease m)) (fold transport_exec ds t)"
    using transport.run_stable [where P = "\<lambda>t. carries m t \<or> dead_generation (tl_generation (tm_lease m)) t", OF _ s1]
      exec_keeps_payload by blast
  then show ?thesis
    using assms(3) by (auto simp: transport_commit_def try_op_eq outcome_simps find_entry_Ok carries_def dead_generation_def
        live_generations_def pool_check_Ok split: if_splits)
qed


section \<open>A handover from end to end\<close>

lemma bt_adjust_insert: "k \<notin> fst ` set m \<Longrightarrow> bt_adjust k f (bt_insert k v m) = bt_insert k (f v) m"
  by (induction k v m rule: bt_insert.induct) (force simp: bt_adjust_def intro: map_idI)+

text \<open>The calls of the scheduler for one request, from the fresh reservation on.\<close>

lemma handover_run:
  assumes sound: "transport_sound n_pages n_slots t" and reserve: "transport_reserve r e n t = (Ok l, u)"
    and m: "payload_ok u l m" and small: "length (tl_pages l) * spec_page_tokens (tr_spec u) < 2 ^ 64"
  shows "\<exists>u1 u2 u3. transport_transfer m u = (Ok (), u1) \<and> transport_complete l u1 = (Ok (), u2) \<and>
    transport_commit l u2 = (Ok m, u3) \<and>
    transport_acknowledge l u3 = (Ok (), u\<lparr>tr_entries := bt_insert r \<lparr>te_lease = l, te_status = Acknowledged, te_manifest = Some m\<rparr> (tr_entries t)\<rparr>)"
proof -
  obtain p where p: "pool_reserve r e n (tr_pool t) = (Ok l, p)"
    "u = t\<lparr>tr_pool := p, tr_entries := bt_insert r \<lparr>te_lease = l, te_status = Reserved, te_manifest = None\<rparr> (tr_entries t)\<rparr>"
    using reserve by (auto simp: transport_reserve_Ok)
  note o = pool_reserve_Ok [OF p(1)]
  have r: "tl_request l = r" using o by simp
  have "map_of (tr_entries t) r = None"
    using o sound unfolding transport_sound_def by (metis option.rel_distinct(2) option.exhaust)
  then have fresh: "r \<notin> fst ` set (tr_entries t)" by (simp add: bt_absent)
  let ?u = "\<lambda>st x. u\<lparr>tr_entries := bt_insert r \<lparr>te_lease = l, te_status = st, te_manifest = x\<rparr> (tr_entries t)\<rparr>"
  have u: "u = ?u Reserved None" using p(2) by simp
  have pool: "pool_check l (tr_pool u) = Ok ()" using o p(2) by (simp add: pool_check_Ok)
  have found: "find_entry l (?u st x) = Ok \<lparr>te_lease = l, te_status = st, te_manifest = x\<rparr>" for st x
    using pool by (simp add: find_entry_Ok r)
  have upd: "update_entry r f (?u st x) = u\<lparr>tr_entries := bt_insert r (f \<lparr>te_lease = l, te_status = st, te_manifest = x\<rparr>) (tr_entries t)\<rparr>" for f st x
    using fresh by (simp add: update_entry_def bt_adjust_insert)
  have "transport_transfer m (?u Reserved None) = (Ok (), ?u InFlight (Some m))"
    using m small found [of Reserved None] upd
    by (simp add: transport_transfer_def payload_ok_def reject_def checked_mul_def state_ok_def r)
  then have "transport_transfer m u = (Ok (), ?u InFlight (Some m))" using u by simp
  moreover have "transport_complete l (?u InFlight (Some m)) = (Ok (), ?u Complete (Some m))"
    using found upd by (simp add: transport_complete_def r)
  moreover have "transport_commit l (?u Complete (Some m)) = (Ok m, ?u Committed (Some m))"
    using found upd by (simp add: transport_commit_def r)
  moreover have "transport_acknowledge l (?u Committed (Some m)) = (Ok (), ?u Acknowledged (Some m))"
    using found upd by (simp add: transport_acknowledge_def r)
  ultimately show ?thesis by blast
qed

text \<open>A handover goes through: on any reachable transport, a reservation that succeeds can be followed by
  the transfer of any payload that fits it, its completion, its commit, which returns that payload, and its
  acknowledgement; afterwards the lease is still valid and a second commit gives the payload again.\<close>

theorem handover_completes:
  assumes "transport_new s k n_pages n_slots = Ok t0" and "transport_reserve r e n (fold transport_exec cs t0) = (Ok l, u)"
    and "payload_ok u l m" and "length (tl_pages l) * spec_page_tokens (tr_spec u) < 2 ^ 64"
  shows "\<exists>u1 u2 u3 u4. transport_transfer m u = (Ok (), u1) \<and> transport_complete l u1 = (Ok (), u2) \<and>
    transport_commit l u2 = (Ok m, u3) \<and> transport_acknowledge l u3 = (Ok (), u4) \<and>
    pool_check l (tr_pool u4) = Ok () \<and> transport_commit l u4 = (Ok m, u4)"
proof -
  have sound: "transport_sound n_pages n_slots (fold transport_exec cs t0)"
    by (rule transport.run_inv [OF transport_new_sound [OF assms(1)]])
  let ?t = "fold transport_exec cs t0"
  let ?u4 = "u\<lparr>tr_entries := bt_insert r \<lparr>te_lease = l, te_status = Acknowledged, te_manifest = Some m\<rparr> (tr_entries ?t)\<rparr>"
  obtain u1 u2 u3 where steps: "transport_transfer m u = (Ok (), u1)" "transport_complete l u1 = (Ok (), u2)"
    "transport_commit l u2 = (Ok m, u3)" "transport_acknowledge l u3 = (Ok (), ?u4)"
    using handover_run [OF sound assms(2-4)] by blast
  obtain p where p: "pool_reserve r e n (tr_pool ?t) = (Ok l, p)" "tr_pool u = p"
    using assms(2) by (auto simp: transport_reserve_Ok)
  then have check: "pool_check l (tr_pool ?u4) = Ok ()" "tl_request l = r" using pool_reserve_Ok [OF p(1)] by (simp_all add: pool_check_Ok)
  then have "find_entry l ?u4 = Ok \<lparr>te_lease = l, te_status = Acknowledged, te_manifest = Some m\<rparr>" by (simp add: find_entry_Ok)
  then have "transport_commit l ?u4 = (Ok m, ?u4)" by (simp add: transport_commit_def)
  with steps check(1) show ?thesis by blast
qed

section \<open>A concrete transport\<close>

definition example_transport :: transport where
  "example_transport = \<lparr>tr_pool = \<lparr>rp_page_tokens = 4, rp_free_pages = [0, 1, 2], rp_free_slots = [0, 1], rp_active = [],
     rp_retired = [], rp_generation = 0\<rparr>, tr_entries = [], tr_spec = example_spec, tr_key = ''key''\<rparr>"

lemma example_transport_new: "transport_new example_spec ''key'' 3 2 = Ok example_transport"
proof -
  have "spec_page_tokens example_spec = 4" by (simp add: example_spec_def)
  then show ?thesis by (simp add: transport_new_def pool_create_def reject_def example_transport_def upt_rec)
qed

definition example_lease7 :: transfer_lease where
  "example_lease7 = \<lparr>tl_request = 7, tl_epoch = 1, tl_slot = 0, tl_generation = 1, tl_pages = [0]\<rparr>"

definition example_payload :: transfer_manifest where
  "example_payload = \<lparr>tm_lease = example_lease7, tm_model_key = ''key'', tm_state = hybrid_empty example_spec, tm_next_token = 9\<rparr>"

lemma example_reserved: "\<exists>u. transport_reserve 7 1 3 (fold transport_exec [] example_transport) = (Ok example_lease7, u) \<and>
    payload_ok u example_lease7 example_payload \<and> length (tl_pages example_lease7) * spec_page_tokens (tr_spec u) < 2 ^ 64"
proof -
  have "spec_page_tokens example_spec = 4" by (simp add: example_spec_def)
  then show ?thesis
    using empty_state_ok [of example_spec]
    by (simp add: example_transport_def transport_reserve_def on_pool_def resource_eval example_lease7_def payload_ok_def
        example_payload_def example_spec_sizes hybrid_empty_def)
qed

theorem handover_completes_witness:
  "\<exists>u u1 u2 u3. transport_transfer example_payload u = (Ok (), u1) \<and> transport_complete example_lease7 u1 = (Ok (), u2) \<and>
    transport_commit example_lease7 u2 = (Ok example_payload, u3)"
proof -
  obtain u where "transport_reserve 7 1 3 (fold transport_exec [] example_transport) = (Ok example_lease7, u)"
    "payload_ok u example_lease7 example_payload" "length (tl_pages example_lease7) * spec_page_tokens (tr_spec u) < 2 ^ 64"
    using example_reserved by blast
  from handover_completes [OF example_transport_new this] show ?thesis by blast
qed

lemma example_handover:
  "\<exists>t u. transport_transfer example_payload (fold transport_exec [TrReserve 7 1 3] example_transport) = (Ok (), t) \<and>
    transport_commit example_lease7 (fold transport_exec [TrComplete example_lease7] t) = (Ok example_payload, u)"
proof -
  obtain u where u: "transport_reserve 7 1 3 example_transport = (Ok example_lease7, u)"
    "payload_ok u example_lease7 example_payload" "length (tl_pages example_lease7) * spec_page_tokens (tr_spec u) < 2 ^ 64"
    using example_reserved by auto
  obtain u1 u2 u3 where "transport_transfer example_payload u = (Ok (), u1)" "transport_complete example_lease7 u1 = (Ok (), u2)"
    "transport_commit example_lease7 u2 = (Ok example_payload, u3)"
    using handover_run [OF transport_new_sound [OF example_transport_new] u] by blast
  then show ?thesis using u(1) by (simp add: after_call_def)
qed

theorem committed_payload_is_sent_witness:
  "\<exists>t m' u. transport_transfer example_payload (fold transport_exec [TrReserve 7 1 3] example_transport) = (Ok (), t) \<and>
    transport_commit (tm_lease example_payload) (fold transport_exec [TrComplete example_lease7] t) = (Ok m', u) \<and> m' = example_payload"
proof -
  obtain t u where tu: "transport_transfer example_payload (fold transport_exec [TrReserve 7 1 3] example_transport) = (Ok (), t)"
    "transport_commit (tm_lease example_payload) (fold transport_exec [TrComplete example_lease7] t) = (Ok example_payload, u)"
    using example_handover by (auto simp: example_payload_def)
  then show ?thesis using committed_payload_is_sent [OF example_transport_new tu] by blast
qed


end
