(* ===== verification/Live.thy ===== *)
theory Live
  imports Runtime Transport
begin

text \<open>
  The live scheduler (\<open>crates/inferfabric-scheduler/src/live.rs\<close>): it admits requests, feeds prompt
  chunks to the prefill workers and one token per request to the decode workers, hands finished prompts
  over and emits tokens. Every method is an operation on the scheduler's state; the loops of \<open>step\<close> are
  one definition each and return the inputs or events they append. The shared trace is not modelled.
\<close>

section \<open>State\<close>

record request =
  rq_id :: nat
  rq_prompt :: "nat list"
  rq_max_new_tokens :: nat
  rq_submit_at :: nat
  rq_cancel_at :: "nat option"
  rq_eos :: "nat option"

record capacity =
  cap_pages :: nat
  cap_slots :: nat

datatype finish = FinLength | FinStop | FinAbort | FinError string

record live_event =
  ev_request :: nat
  ev_token :: "nat option"
  ev_finish :: "finish option"

record job =
  job_request :: request
  job_state :: hybrid_state
  job_prefill :: "transfer_lease option"
  job_decode :: "transfer_lease option"
  job_next :: nat
  job_generated :: nat
  job_stop :: "nat list"

record live_scheduler =
  lv_artifact :: artifact
  lv_prefill :: "mock workers"
  lv_decode :: "mock workers"
  lv_p_pool :: resource_pool
  lv_transport :: transport
  lv_jobs :: "(nat, job) btmap"
  lv_queue :: "nat list"
  lv_capacity :: capacity
  lv_epoch :: nat

abbreviation live_spec :: "live_scheduler \<Rightarrow> spec" where
  "live_spec s \<equiv> art_spec (lv_artifact s)"

definition live_mock :: "externals \<Rightarrow> artifact \<Rightarrow> capacity \<Rightarrow> live_scheduler outcome" where
  "live_mock x a cap =
     and_then (group_mock x a Prefill) (\<lambda>pw.
     and_then (group_mock x a Decode) (\<lambda>dw.
     and_then (pool_create (cap_pages cap) (cap_slots cap) (spec_page_tokens (art_spec a))) (\<lambda>p.
     and_then (transport_new (art_spec a) (art_key a) (cap_pages cap) (cap_slots cap)) (\<lambda>t.
     Ok \<lparr>lv_artifact = a, lv_prefill = pw, lv_decode = dw, lv_p_pool = p, lv_transport = t, lv_jobs = [],
         lv_queue = [], lv_capacity = cap, lv_epoch = 0\<rparr>))))"

definition live_idle :: "live_scheduler \<Rightarrow> bool" where
  "live_idle s \<longleftrightarrow> lv_jobs s = []"

definition live_allocations :: "live_scheduler \<Rightarrow> nat" where
  "live_allocations s = pool_allocations (lv_p_pool s) + pool_allocations (tr_pool (lv_transport s))"

text \<open>Calls on the two pools and on the worker groups, as operations on the scheduler.\<close>

definition on_p_pool :: "(resource_pool, 'a) op \<Rightarrow> (live_scheduler, 'a) op" where
  "on_p_pool m s = (case m (lv_p_pool s) of (r, p) \<Rightarrow> (r, s\<lparr>lv_p_pool := p\<rparr>))"

definition on_transport :: "(transport, 'a) op \<Rightarrow> (live_scheduler, 'a) op" where
  "on_transport m s = (case m (lv_transport s) of (r, t) \<Rightarrow> (r, s\<lparr>lv_transport := t\<rparr>))"

definition on_prefill :: "(mock workers, 'a) op \<Rightarrow> (live_scheduler, 'a) op" where
  "on_prefill m s = (case m (lv_prefill s) of (r, w) \<Rightarrow> (r, s\<lparr>lv_prefill := w\<rparr>))"

definition on_decode :: "(mock workers, 'a) op \<Rightarrow> (live_scheduler, 'a) op" where
  "on_decode m s = (case m (lv_decode s) of (r, w) \<Rightarrow> (r, s\<lparr>lv_decode := w\<rparr>))"

section \<open>Admission, cancellation and completion\<close>

definition live_submit :: "request \<Rightarrow> nat list \<Rightarrow> (live_scheduler, unit) op" where
  "live_submit rq stops s =
     (let sp = live_spec s in
      try_op (reject (map_of (lv_jobs s) (rq_id rq) \<noteq> None \<or> rq_prompt rq = [] \<or> rq_max_new_tokens rq = 0
                \<or> (\<exists>t \<in> set (rq_prompt rq). t \<ge> vocab (spec_model sp))
                \<or> (case checked_add 64 (length (rq_prompt rq)) (rq_max_new_tokens rq) of
                     None \<Rightarrow> True | Some n \<Rightarrow> n > max_context sp))
               (invalid ''invalid live request'')) (\<lambda>_.
      try_op (if length (lv_jobs s) \<ge> cap_slots (lv_capacity s) then Err (Capacity ''live admission'')
              else and_then (div_ceil_out (length (rq_prompt rq)) (spec_page_tokens sp)) (\<lambda>n.
                reject (n > cap_pages (lv_capacity s)) (Capacity ''live admission''))) (\<lambda>_.
      try_op (ok_or (checked_add 64 (lv_epoch s) 1) (invalid ''request epoch overflow'')) (\<lambda>e s.
      bind_op (on_p_pool (pool_reserve (rq_id rq) e (length (rq_prompt rq)))) (\<lambda>l s.
      let rq = rq\<lparr>rq_submit_at := 0, rq_cancel_at := None\<rparr> in
      (Ok (), s\<lparr>lv_queue := lv_queue s @ [rq_id rq],
                lv_jobs := bt_insert (rq_id rq)
                  \<lparr>job_request = rq, job_state = hybrid_empty sp, job_prefill = Some l, job_decode = None,
                   job_next = 0, job_generated = 0, job_stop = stops\<rparr> (lv_jobs s)\<rparr>)) (s\<lparr>lv_epoch := e\<rparr>)))) s)"

definition live_fences :: "live_scheduler \<Rightarrow> live_scheduler" where
  "live_fences s = s\<lparr>lv_p_pool := snd (pool_fence (lv_p_pool s)), lv_transport := snd (transport_fence (lv_transport s))\<rparr>"

definition live_remove :: "nat \<Rightarrow> (live_scheduler, unit) op" where
  "live_remove i s =
     next_op (case map_of (lv_jobs s) i of
                None \<Rightarrow> (\<lambda>s. (Ok (), s))
              | Some j \<Rightarrow>
                  (\<lambda>s. next_op (case job_prefill j of None \<Rightarrow> (\<lambda>s. (Ok (), s)) | Some l \<Rightarrow> on_p_pool (pool_retire l))
                         (case job_decode j of None \<Rightarrow> (\<lambda>s. (Ok (), s)) | Some l \<Rightarrow> on_transport (transport_finish l))
                         (s\<lparr>lv_jobs := bt_remove i (lv_jobs s)\<rparr>)))
       (\<lambda>s. (Ok (), live_fences (s\<lparr>lv_queue := filter (\<lambda>k. k \<noteq> i) (lv_queue s)\<rparr>))) s"

definition live_cancel :: "nat \<Rightarrow> (live_scheduler, live_event option) op" where
  "live_cancel i s =
     (let existed = map_of (lv_jobs s) i \<noteq> None in
      next_op (live_remove i)
        (\<lambda>s. (Ok (if existed then Some \<lparr>ev_request = i, ev_token = None, ev_finish = Some FinAbort\<rparr> else None), s)) s)"

text \<open>Why a job ends after its latest token.\<close>

definition finish_of :: "job \<Rightarrow> finish option" where
  "finish_of j =
     (if rq_eos (job_request j) = Some (job_next j) \<or> job_next j \<in> set (job_stop j) then Some FinStop
      else if job_generated j = rq_max_new_tokens (job_request j) then Some FinLength
      else None)"

definition set_job :: "nat \<Rightarrow> job \<Rightarrow> live_scheduler \<Rightarrow> live_scheduler" where
  "set_job i j s = s\<lparr>lv_jobs := bt_adjust i (\<lambda>_. j) (lv_jobs s)\<rparr>"

definition live_emit :: "nat \<Rightarrow> live_event list \<Rightarrow> (live_scheduler, live_event list) op" where
  "live_emit i events s =
     try_op (ok_or (map_of (lv_jobs s) i) (invalid ''missing live request'')) (\<lambda>j.
     try_op (fit 64 (job_generated j + 1)) (\<lambda>g s.
     let j = j\<lparr>job_generated := g\<rparr>;
         events = events @ [\<lparr>ev_request = i, ev_token = Some (job_next j), ev_finish = finish_of j\<rparr>];
         s = set_job i j s in
     if finish_of j \<noteq> None then next_op (live_remove i) (\<lambda>s. (Ok events, s)) s else (Ok events, s))) s"

section \<open>One step\<close>

text \<open>The decode batch: every admitted job whose lease can grow by a token; the others are dropped.\<close>

definition decode_entry :: "nat \<Rightarrow> job \<Rightarrow> transfer_lease \<Rightarrow> step_input" where
  "decode_entry i j l = \<lparr>in_request = i, in_epoch = tl_epoch l, in_tokens = [job_next j], in_state = job_state j,
     in_binding = lease_binding l\<rparr>"

fun admit_decode :: "nat list \<Rightarrow> step_input list \<Rightarrow> live_event list \<Rightarrow> (live_scheduler, step_input list \<times> live_event list) op" where
  "admit_decode [] inputs events s = (Ok (inputs, events), s)"
| "admit_decode (i # is) inputs events s =
     try_op (unwrap (map_of (lv_jobs s) i)) (\<lambda>j.
     try_op (unwrap (job_decode j)) (\<lambda>d.
     try_op (fit 64 (consumed (job_state j) + 1)) (\<lambda>n s.
     case on_transport (on_pool (pool_ensure d n)) s of
       (Ok l, s) \<Rightarrow> admit_decode is (inputs @ [decode_entry i j l]) events (set_job i (j\<lparr>job_decode := Some l\<rparr>) s)
     | (Err (Capacity message), s) \<Rightarrow>
         next_op (live_remove i)
           (admit_decode is inputs (events @ [\<lparr>ev_request = i, ev_token = None, ev_finish = Some (FinError message)\<rparr>])) s
     | (Err e, s) \<Rightarrow> (Err e, s)
     | (Panic, s) \<Rightarrow> (Panic, s)))) s"

fun deliver_decode :: "step_output list \<Rightarrow> live_event list \<Rightarrow> (live_scheduler, live_event list) op" where
  "deliver_decode [] events s = (Ok events, s)"
| "deliver_decode (out # outs) events s =
     try_op (unwrap (map_of (lv_jobs s) (out_request out))) (\<lambda>j s.
     bind_op (live_emit (out_request out) events) (deliver_decode outs)
       (set_job (out_request out) (j\<lparr>job_state := out_state out, job_next := next_token out\<rparr>) s)) s"

text \<open>The prefill batch: one turn per queued job while the token budget lasts.\<close>

definition prefill_entry :: "nat \<Rightarrow> job \<Rightarrow> transfer_lease \<Rightarrow> nat \<Rightarrow> step_input" where
  "prefill_entry i j l chunk =
     \<lparr>in_request = i, in_epoch = tl_epoch l, in_tokens = take chunk (drop (consumed (job_state j)) (rq_prompt (job_request j))),
      in_state = job_state j, in_binding = lease_binding l\<rparr>"

fun gather_prefill :: "nat \<Rightarrow> nat \<Rightarrow> step_input list \<Rightarrow> (live_scheduler, step_input list) op" where
  "gather_prefill 0 budget inputs s = (Ok inputs, s)"
| "gather_prefill (Suc turns) budget inputs s =
     (if budget = 0 then (Ok inputs, s)
      else case lv_queue s of
        [] \<Rightarrow> (Panic, s)
      | i # rest \<Rightarrow>
          try_op (unwrap (map_of (lv_jobs s) i)) (\<lambda>j s.
          case job_prefill j of
            None \<Rightarrow> gather_prefill turns budget inputs s
          | Some l \<Rightarrow>
              let start = consumed (job_state j); len = length (rq_prompt (job_request j)) in
              if len < start then (Panic, s)
              else let chunk = min (len - start) budget;
                       s = s\<lparr>lv_queue := lv_queue s @ [i]\<rparr> in
                   if chunk > 0 then gather_prefill turns (budget - chunk) (inputs @ [prefill_entry i j l chunk]) s
                   else gather_prefill turns budget inputs s) (s\<lparr>lv_queue := rest\<rparr>))"

fun deliver_prefill :: "step_output list \<Rightarrow> (live_scheduler, unit) op" where
  "deliver_prefill [] s = (Ok (), s)"
| "deliver_prefill (out # outs) s =
     try_op (unwrap (map_of (lv_jobs s) (out_request out))) (\<lambda>j s.
     deliver_prefill outs (set_job (out_request out) (j\<lparr>job_state := out_state out, job_next := next_token out\<rparr>) s)) s"

text \<open>Handover of the jobs whose prompt is complete; a job that finds no room stays in prefill.\<close>

definition hand_over :: "nat \<Rightarrow> live_event list \<Rightarrow> (live_scheduler, live_event list) op" where
  "hand_over i events s =
     try_op (unwrap (map_of (lv_jobs s) i)) (\<lambda>j.
     try_op (unwrap (job_prefill j)) (\<lambda>p s.
     case on_transport (transport_reserve i (tl_epoch p) (consumed (job_state j))) s of
       (Err (Capacity _), s) \<Rightarrow> (Ok events, s)
     | (Err e, s) \<Rightarrow> (Err e, s)
     | (Panic, s) \<Rightarrow> (Panic, s)
     | (Ok l, s) \<Rightarrow>
         next_op (on_transport (transport_transfer
             \<lparr>tm_lease = l, tm_model_key = art_key (lv_artifact s), tm_state = job_state j, tm_next_token = job_next j\<rparr>))
         (next_op (on_transport (transport_complete l))
         (bind_op (on_transport (transport_commit l)) (\<lambda>m.
          next_op (on_transport (transport_acknowledge l)) (\<lambda>s.
          next_op (on_p_pool (pool_retire p)) (\<lambda>s.
            live_emit i events (s\<lparr>lv_p_pool := snd (pool_fence (lv_p_pool s)), lv_queue := filter (\<lambda>k. k \<noteq> i) (lv_queue s)\<rparr>))
            (set_job i (j\<lparr>job_decode := Some l, job_state := tm_state m, job_next := tm_next_token m, job_prefill := None\<rparr>) s)))))
         (set_job i (j\<lparr>job_decode := Some l\<rparr>) s))) s"

fun hand_over_all :: "nat list \<Rightarrow> live_event list \<Rightarrow> (live_scheduler, live_event list) op" where
  "hand_over_all [] events s = (Ok events, s)"
| "hand_over_all (i # is) events s = bind_op (hand_over i events) (hand_over_all is) s"

definition decode_ids :: "live_scheduler \<Rightarrow> nat list" where
  "decode_ids s = take (last (batch_buckets (live_spec s)))
     (map fst (filter (\<lambda>(i, j). job_decode j \<noteq> None) (lv_jobs s)))"

definition ready_ids :: "live_scheduler \<Rightarrow> nat list" where
  "ready_ids s = map fst (filter (\<lambda>(i, j). job_prefill j \<noteq> None \<and>
     consumed (job_state j) = length (rq_prompt (job_request j))) (lv_jobs s))"

definition decode_phase :: "(live_scheduler, live_event list) op" where
  "decode_phase s =
     bind_op (admit_decode (decode_ids s) [] []) (\<lambda>(inputs, events).
       if inputs = [] then (\<lambda>s. (Ok events, s))
       else bind_op (on_decode (group_step mock_backend inputs)) (\<lambda>outs. deliver_decode outs events)) s"

definition prefill_phase :: "(live_scheduler, unit) op" where
  "prefill_phase s =
     bind_op (gather_prefill (length (lv_queue s)) (spec_token_budget (live_spec s)) []) (\<lambda>inputs.
       if inputs = [] then (\<lambda>s. (Ok (), s))
       else bind_op (on_prefill (group_step mock_backend inputs)) deliver_prefill) s"

definition live_step :: "(live_scheduler, live_event list) op" where
  "live_step s =
     (if batch_buckets (live_spec s) = [] then (Err (invalid ''no buckets''), s)
      else bind_op decode_phase (\<lambda>events. next_op prefill_phase (\<lambda>s. hand_over_all (ready_ids s) events s)) s)"

end
