(* ===== verification/Live_Inv.thy ===== *)
theory Live_Inv
  imports Live Handover Worker_Thms
begin

text \<open>
  The invariant of the live scheduler and what each of its calls outside \<open>step\<close> does to it. The
  reference generation of a prompt is defined by fresh executions of the whole history; the invariant
  says that every job is at a point of its reference generation, that the two pools hold exactly the
  leases of the jobs, and that the queue holds exactly the jobs in prefill.
\<close>

section \<open>Reference generation\<close>

definition fresh_input :: "spec \<Rightarrow> nat list \<Rightarrow> step_input" where
  "fresh_input s toks = \<lparr>in_request = 0, in_epoch = 0, in_tokens = toks, in_state = hybrid_empty s,
     in_binding = \<lparr>sb_slot = 0, sb_generation = 0, sb_pages = []\<rparr>\<rparr>"

definition next_ref :: "spec \<Rightarrow> nat list \<Rightarrow> nat" where
  "next_ref s toks = (case run_request s (fresh_input s toks) of Ok out \<Rightarrow> next_token out | _ \<Rightarrow> 0)"

text \<open>The first \<open>n\<close> tokens of a prompt's generation, each by one execution of all tokens before it.\<close>

fun reference :: "spec \<Rightarrow> nat list \<Rightarrow> nat \<Rightarrow> nat list" where
  "reference s prompt 0 = []"
| "reference s prompt (Suc n) = reference s prompt n @ [next_ref s (prompt @ reference s prompt n)]"

lemma length_reference [simp]: "length (reference s prompt n) = n"
  by (induction n) auto

lemma reference_take: "n \<le> m \<Longrightarrow> take n (reference s prompt m) = reference s prompt n"
  by (induction m) (auto simp: le_Suc_eq)

definition at_history :: "spec \<Rightarrow> nat list \<Rightarrow> hybrid_state \<Rightarrow> bool" where
  "at_history s hist st \<longleftrightarrow> fold_out (run_token s) hist (hybrid_empty s) = Ok st"

lemma consumed_empty [simp]: "consumed (hybrid_empty s) = 0"
  by (simp add: hybrid_empty_def Let_def)

lemma at_history_facts:
  assumes "spec_ok s" and "at_history s hist st" and "length hist \<le> max_context s"
  shows "state_ok s st" "consumed st = length hist" "\<forall>t \<in> set hist. t < vocab (spec_model s)"
  using run_tokens [OF assms(1) empty_state_ok, of hist] assms(2,3) by (simp_all add: at_history_def)

lemma next_ref_eq:
  assumes spec: "spec_ok s" and "at_history s hist st" and "hist \<noteq> []" and "length hist \<le> max_context s"
  shows "next_ref s hist = (last hist + consumed st + 1) mod vocab (spec_model s)"
proof -
  let ?out = "\<lparr>out_request = 0, out_epoch = 0, next_token = (last hist + consumed st + 1) mod vocab (spec_model s), out_state = st\<rparr>"
  have "run_request s (fresh_input s hist) = Ok ?out"
    using assms empty_state_ok [of s] by (simp add: run_request_Ok fresh_input_def at_history_def)
  then show ?thesis by (simp add: next_ref_def)
qed

lemma next_ref_vocab: "spec_ok s \<Longrightarrow> next_ref s hist < vocab (spec_model s)"
  using spec_ok_pos(1) [of s] run_request_Ok [of s "fresh_input s hist"]
  by (fastforce simp: next_ref_def split: outcome.split dest: arg_cong [where f = next_token])

lemma run_extends:
  assumes spec: "spec_ok s" and at: "at_history s hist (in_state i)" and run: "run_request s i = Ok out"
    and room: "length (hist @ in_tokens i) \<le> max_context s"
  shows "at_history s (hist @ in_tokens i) (out_state out) \<and> next_token out = next_ref s (hist @ in_tokens i) \<and>
    out_request out = in_request i"
proof -
  note * = run [unfolded run_request_Ok [OF spec]]
  then have h: "at_history s (hist @ in_tokens i) (out_state out)"
    using at by (simp add: at_history_def fold_out_append)
  have "out_request out = in_request i" "in_tokens i \<noteq> []"
    "next_token out = (last (in_tokens i) + consumed (out_state out) + 1) mod vocab (spec_model s)"
    using * by (metis step_output.select_convs)+
  then show ?thesis using h next_ref_eq [OF spec h _ room] by simp
qed

section \<open>The invariant\<close>

text \<open>What a job has executed.\<close>

definition job_history :: "spec \<Rightarrow> job \<Rightarrow> nat list" where
  "job_history sp j =
     (if job_prefill j \<noteq> None then take (consumed (job_state j)) (rq_prompt (job_request j))
      else rq_prompt (job_request j) @ reference sp (rq_prompt (job_request j)) (job_generated j - 1))"

definition job_sound :: "spec \<Rightarrow> nat \<Rightarrow> job \<Rightarrow> bool" where
  "job_sound sp i j \<longleftrightarrow>
     (let rq = job_request j; prompt = rq_prompt rq in
      rq_id rq = i \<and> prompt \<noteq> [] \<and> (\<forall>t \<in> set prompt. t < vocab (spec_model sp)) \<and>
      length prompt + rq_max_new_tokens rq \<le> max_context sp \<and> job_generated j \<le> rq_max_new_tokens rq \<and>
      (job_prefill j = None \<longleftrightarrow> job_decode j \<noteq> None) \<and>
      (\<forall>l. job_prefill j = Some l \<longrightarrow> job_generated j = 0 \<and> consumed (job_state j) \<le> length prompt \<and>
         div_ceil (length prompt) (spec_page_tokens sp) \<le> length (tl_pages l) \<and>
         (consumed (job_state j) = length prompt \<longrightarrow> job_next j = next_ref sp prompt)) \<and>
      (job_decode j \<noteq> None \<longrightarrow> 0 < job_generated j \<and> job_next j = next_ref sp (job_history sp j)) \<and>
      at_history sp (job_history sp j) (job_state j))"

definition workers_sound :: "live_scheduler \<Rightarrow> bool" where
  "workers_sound s \<longleftrightarrow> spec_ok (live_spec s) \<and> lv_prefill s \<noteq> [] \<and> prefill_ranks.all_ready (live_spec s) (lv_prefill s) \<and>
     lv_decode s \<noteq> [] \<and> decode_ranks.all_ready (live_spec s) (lv_decode s)"

definition pools_sound :: "live_scheduler \<Rightarrow> bool" where
  "pools_sound s \<longleftrightarrow>
     pool_sound (cap_pages (lv_capacity s)) (cap_slots (lv_capacity s)) (lv_p_pool s) \<and>
     transport_sound (cap_pages (lv_capacity s)) (cap_slots (lv_capacity s)) (lv_transport s) \<and>
     rp_retired (lv_p_pool s) = [] \<and> rp_retired (tr_pool (lv_transport s)) = [] \<and>
     tr_spec (lv_transport s) = live_spec s \<and> tr_key (lv_transport s) = art_key (lv_artifact s) \<and>
     rp_page_tokens (lv_p_pool s) = spec_page_tokens (live_spec s) \<and>
     rp_page_tokens (tr_pool (lv_transport s)) = spec_page_tokens (live_spec s)"

definition leases_match :: "live_scheduler \<Rightarrow> bool" where
  "leases_match s \<longleftrightarrow>
     (\<forall>i. map_of (rp_active (lv_p_pool s)) i = Option.bind (map_of (lv_jobs s) i) job_prefill) \<and>
     (\<forall>i. map_of (rp_active (tr_pool (lv_transport s))) i = Option.bind (map_of (lv_jobs s) i) job_decode)"

definition jobs_sound :: "live_scheduler \<Rightarrow> bool" where
  "jobs_sound s \<longleftrightarrow> bt_wf (lv_jobs s) \<and> (\<forall>i j. map_of (lv_jobs s) i = Some j \<longrightarrow> job_sound (live_spec s) i j)"

definition queue_sound :: "live_scheduler \<Rightarrow> bool" where
  "queue_sound s \<longleftrightarrow> distinct (lv_queue s) \<and>
     set (lv_queue s) = {i. \<exists>j. map_of (lv_jobs s) i = Some j \<and> job_prefill j \<noteq> None}"

definition epochs_sound :: "live_scheduler \<Rightarrow> bool" where
  "epochs_sound s \<longleftrightarrow> lv_epoch s < 2 ^ 64 \<and> rp_generation (lv_p_pool s) \<le> lv_epoch s \<and>
     rp_generation (tr_pool (lv_transport s)) + length (rp_active (lv_p_pool s)) \<le> lv_epoch s"

definition live_sound :: "live_scheduler \<Rightarrow> bool" where
  "live_sound s \<longleftrightarrow> workers_sound s \<and> pools_sound s \<and> leases_match s \<and> jobs_sound s \<and> queue_sound s \<and> epochs_sound s"

text \<open>Between calls no job has all its tokens: \<open>emit\<close> removes it with the last one.\<close>

definition live_open :: "live_scheduler \<Rightarrow> bool" where
  "live_open s \<longleftrightarrow> (\<forall>i j. map_of (lv_jobs s) i = Some j \<longrightarrow> job_generated j < rq_max_new_tokens (job_request j))"

lemma live_soundD:
  assumes "live_sound s"
  shows "workers_sound s" "pools_sound s" "leases_match s" "jobs_sound s" "queue_sound s" "epochs_sound s"
    "spec_ok (live_spec s)"
  using assms by (simp_all add: live_sound_def workers_sound_def)

lemma job_soundD: "live_sound s \<Longrightarrow> map_of (lv_jobs s) i = Some j \<Longrightarrow> job_sound (live_spec s) i j"
  by (simp add: live_sound_def jobs_sound_def)


section \<open>Dropping a lease\<close>

lemma pool_fence_idle: "rp_retired p = [] \<Longrightarrow> pool_fence p = (Ok (), p)"
  by (simp add: pool_fence_eq bs_extend_def)

lemma transport_fence_idle: "rp_retired (tr_pool t) = [] \<Longrightarrow> transport_fence t = (Ok (), t)"
  by (simp add: transport_fence_def on_pool_def pool_fence_idle)

lemma pool_drop:
  assumes sound: "pool_sound n_pages n_slots p" and active: "map_of (rp_active p) (tl_request l) = Some l"
  shows "\<exists>q. pool_retire l p = (Ok (), q) \<and> pool_sound n_pages n_slots (snd (pool_fence q)) \<and>
    rp_active (snd (pool_fence q)) = bt_remove (tl_request l) (rp_active p) \<and> rp_retired (snd (pool_fence q)) = [] \<and>
    rp_generation (snd (pool_fence q)) = rp_generation p \<and> rp_page_tokens (snd (pool_fence q)) = rp_page_tokens p"
proof -
  have check: "pool_check l p = Ok ()" using active by (simp add: pool_check_Ok)
  from pool_retire_run [OF check active] obtain q where q: "pool_retire l p = (Ok (), q)"
    "q = p\<lparr>rp_active := bt_remove (tl_request l) (rp_active p), rp_retired := rp_retired p @ [l]\<rparr>" by blast
  then show ?thesis using pool_fence_sound [OF pool_retire_sound [OF sound q(1)]] by (simp add: pool_fence_eq)
qed

lemma transport_drop:
  assumes sound: "transport_sound n_pages n_slots t" and active: "map_of (rp_active (tr_pool t)) (tl_request l) = Some l"
  shows "\<exists>u. transport_finish l t = (Ok (), u) \<and> transport_sound n_pages n_slots (snd (transport_fence u)) \<and>
    rp_active (tr_pool (snd (transport_fence u))) = bt_remove (tl_request l) (rp_active (tr_pool t)) \<and>
    rp_retired (tr_pool (snd (transport_fence u))) = [] \<and>
    rp_generation (tr_pool (snd (transport_fence u))) = rp_generation (tr_pool t) \<and>
    rp_page_tokens (tr_pool (snd (transport_fence u))) = rp_page_tokens (tr_pool t) \<and>
    tr_spec (snd (transport_fence u)) = tr_spec t \<and> tr_key (snd (transport_fence u)) = tr_key t"
proof -
  have check: "pool_check l (tr_pool t) = Ok ()" using active by (simp add: pool_check_Ok)
  obtain u where u: "transport_finish l t = (Ok (), u)"
    "u = t\<lparr>tr_entries := bt_remove (tl_request l) (tr_entries t),
           tr_pool := (tr_pool t)\<lparr>rp_active := bt_remove (tl_request l) (rp_active (tr_pool t)), rp_retired := rp_retired (tr_pool t) @ [l]\<rparr>\<rparr>"
    using check active by (simp add: transport_finish_eq)
  have "transport_sound n_pages n_slots (snd (transport_fence u))"
    using transport_fence_sound transport_finish_sound [OF sound, of l] u(1) by simp
  then show ?thesis using u by (simp add: transport_fence_def on_pool_def pool_fence_eq)
qed

section \<open>Removing a job\<close>

lemma live_remove_absent:
  assumes "live_sound s" and "map_of (lv_jobs s) i = None"
  shows "live_remove i s = (Ok (), s)"
proof -
  have "i \<notin> set (lv_queue s)" using assms by (simp add: live_sound_def queue_sound_def)
  then have "filter (\<lambda>k. k \<noteq> i) (lv_queue s) = lv_queue s" by (auto simp: filter_id_conv)
  then show ?thesis
    using assms by (simp add: live_remove_def next_op_run live_fences_def live_sound_def pools_sound_def pool_fence_idle transport_fence_idle)
qed

text \<open>What stays the same.\<close>

definition same_setup :: "live_scheduler \<Rightarrow> live_scheduler \<Rightarrow> bool" where
  "same_setup s t \<longleftrightarrow> lv_artifact t = lv_artifact s \<and> lv_capacity t = lv_capacity s \<and> lv_epoch t = lv_epoch s"

lemma same_setup_refl [simp]: "same_setup s s"
  by (simp add: same_setup_def)

lemma same_setup_trans: "same_setup s t \<Longrightarrow> same_setup t u \<Longrightarrow> same_setup s u"
  by (simp add: same_setup_def)

lemma same_setup_spec: "same_setup s t \<Longrightarrow> live_spec t = live_spec s"
  by (simp add: same_setup_def)

lemma lease_of_job:
  assumes "live_sound s" and "map_of (lv_jobs s) i = Some j"
  shows "job_prefill j = Some l \<Longrightarrow> map_of (rp_active (lv_p_pool s)) i = Some l \<and> tl_request l = i"
    "job_decode j = Some l \<Longrightarrow> map_of (rp_active (tr_pool (lv_transport s))) i = Some l \<and> tl_request l = i"
  using assms by (auto simp: live_sound_def leases_match_def pools_sound_def transport_sound_def pool_sound_def)

text \<open>The invariant after the job and its lease are gone, however that came about.\<close>

lemma removed_sound:
  assumes sound: "live_sound s" and job: "map_of (lv_jobs s) i = Some j"
    and t: "t = s\<lparr>lv_jobs := bt_remove i (lv_jobs s), lv_queue := filter (\<lambda>k. k \<noteq> i) (lv_queue s), lv_p_pool := p, lv_transport := tr\<rparr>"
    and pools: "pools_sound t"
    and p: "rp_active p = bt_remove i (rp_active (lv_p_pool s))" "rp_generation p = rp_generation (lv_p_pool s)"
    and tr: "map_of (rp_active (tr_pool tr)) = (map_of (rp_active (tr_pool (lv_transport s))))(i := None)"
      "rp_generation (tr_pool tr) = rp_generation (tr_pool (lv_transport s))"
  shows "live_sound t"
proof -
  note D = live_soundD [OF sound]
  have "leases_match t" using D(3) t p tr by (simp add: leases_match_def)
  moreover have "jobs_sound t" using D(4) t by (auto simp: jobs_sound_def bt_wf_remove split: if_splits)
  moreover have "queue_sound t" using D(5) t by (auto simp: queue_sound_def)
  moreover have "length (rp_active p) \<le> length (rp_active (lv_p_pool s))" by (simp add: p bt_remove_def)
  then have "epochs_sound t" using D(6) t p tr by (simp add: epochs_sound_def)
  moreover have "workers_sound t" using D(1) t by (simp add: workers_sound_def)
  ultimately show ?thesis using pools by (simp add: live_sound_def)
qed

lemma live_remove_job:
  assumes sound: "live_sound s" and job: "map_of (lv_jobs s) i = Some j"
  shows "\<exists>t. live_remove i s = (Ok (), t) \<and> live_sound t \<and> same_setup s t \<and> lv_jobs t = bt_remove i (lv_jobs s)"
proof -
  note D = live_soundD [OF sound]
  have js: "job_sound (live_spec s) i j" using job_soundD [OF sound job] .
  have P: "pool_sound (cap_pages (lv_capacity s)) (cap_slots (lv_capacity s)) (lv_p_pool s)" "rp_retired (lv_p_pool s) = []"
    "transport_sound (cap_pages (lv_capacity s)) (cap_slots (lv_capacity s)) (lv_transport s)" "rp_retired (tr_pool (lv_transport s)) = []"
    using D(2) by (simp_all add: pools_sound_def)
  let ?s = "s\<lparr>lv_jobs := bt_remove i (lv_jobs s)\<rparr>"
  show ?thesis
  proof (cases "job_prefill j")
    case (Some l)
    then have none: "job_decode j = None" using js by (auto simp: job_sound_def Let_def)
    obtain q where q: "pool_retire l (lv_p_pool s) = (Ok (), q)" "pool_sound (cap_pages (lv_capacity s)) (cap_slots (lv_capacity s)) (snd (pool_fence q))"
      "rp_active (snd (pool_fence q)) = bt_remove i (rp_active (lv_p_pool s))" "rp_retired (snd (pool_fence q)) = []"
      "rp_generation (snd (pool_fence q)) = rp_generation (lv_p_pool s)" "rp_page_tokens (snd (pool_fence q)) = rp_page_tokens (lv_p_pool s)"
      using pool_drop [OF P(1), of l] lease_of_job(1) [OF sound job Some] by auto
    let ?t = "s\<lparr>lv_jobs := bt_remove i (lv_jobs s), lv_queue := filter (\<lambda>k. k \<noteq> i) (lv_queue s), lv_p_pool := snd (pool_fence q),
      lv_transport := lv_transport s\<rparr>"
    have run: "live_remove i s = (Ok (), ?t)"
      using job Some none q(1) P(4)
      by (simp add: live_remove_def next_op_run on_p_pool_def live_fences_def transport_fence_idle)
    have "map_of (rp_active (tr_pool (lv_transport s))) i = None" using D(3) job none by (simp add: leases_match_def)
    then have "live_sound ?t"
      by (intro removed_sound [OF sound job refl]) (use D(2) q in \<open>auto simp: pools_sound_def fun_upd_idem\<close>)
    then show ?thesis using run by (auto simp: same_setup_def)
  next
    case None
    then obtain l where l: "job_decode j = Some l" using js by (auto simp: job_sound_def Let_def)
    obtain u where u: "transport_finish l (lv_transport s) = (Ok (), u)"
      "transport_sound (cap_pages (lv_capacity s)) (cap_slots (lv_capacity s)) (snd (transport_fence u))"
      "rp_active (tr_pool (snd (transport_fence u))) = bt_remove i (rp_active (tr_pool (lv_transport s)))"
      "rp_retired (tr_pool (snd (transport_fence u))) = []"
      "rp_generation (tr_pool (snd (transport_fence u))) = rp_generation (tr_pool (lv_transport s))"
      "rp_page_tokens (tr_pool (snd (transport_fence u))) = rp_page_tokens (tr_pool (lv_transport s))"
      "tr_spec (snd (transport_fence u)) = tr_spec (lv_transport s)" "tr_key (snd (transport_fence u)) = tr_key (lv_transport s)"
      using transport_drop [OF P(3), of l] lease_of_job(2) [OF sound job l] by auto
    let ?t = "s\<lparr>lv_jobs := bt_remove i (lv_jobs s), lv_queue := filter (\<lambda>k. k \<noteq> i) (lv_queue s), lv_p_pool := lv_p_pool s,
      lv_transport := snd (transport_fence u)\<rparr>"
    have run: "live_remove i s = (Ok (), ?t)"
      using job None l u(1) P(2)
      by (simp add: live_remove_def next_op_run on_transport_def live_fences_def pool_fence_idle)
    have "map_of (rp_active (lv_p_pool s)) i = None" using D(3) job None by (simp add: leases_match_def)
    then have "bt_remove i (rp_active (lv_p_pool s)) = rp_active (lv_p_pool s)" by (simp add: bt_remove_absent bt_absent)
    then have "live_sound ?t"
      by (intro removed_sound [OF sound job refl]) (use D(2) u in \<open>auto simp: pools_sound_def\<close>)
    then show ?thesis using run by (auto simp: same_setup_def)
  qed
qed


section \<open>Changing and emitting\<close>

lemma map_of_set_job: "map_of (lv_jobs (set_job i j' s)) k = (if k = i \<and> map_of (lv_jobs s) i \<noteq> None then Some j' else map_of (lv_jobs s) k)"
  by (cases "map_of (lv_jobs s) i") (auto simp: set_job_def map_of_bt_adjust)

lemma set_job_fields [simp]:
  "lv_artifact (set_job i j s) = lv_artifact s" "lv_capacity (set_job i j s) = lv_capacity s" "lv_epoch (set_job i j s) = lv_epoch s"
  "lv_prefill (set_job i j s) = lv_prefill s" "lv_decode (set_job i j s) = lv_decode s" "lv_queue (set_job i j s) = lv_queue s"
  "lv_p_pool (set_job i j s) = lv_p_pool s" "lv_transport (set_job i j s) = lv_transport s"
  by (simp_all add: set_job_def)

lemma set_job_twice [simp]: "set_job i j (set_job i k s) = set_job i j s"
  by (simp add: set_job_def bt_adjust_twice)

lemma set_job_sound:
  assumes sound: "live_sound s" and job: "map_of (lv_jobs s) i = Some j" and new: "job_sound (live_spec s) i j'"
    and same: "job_prefill j' = job_prefill j" "job_decode j' = job_decode j"
  shows "live_sound (set_job i j' s)"
proof -
  note D = live_soundD [OF sound]
  have bind: "Option.bind (map_of (lv_jobs (set_job i j' s)) k) job_prefill = Option.bind (map_of (lv_jobs s) k) job_prefill"
    "Option.bind (map_of (lv_jobs (set_job i j' s)) k) job_decode = Option.bind (map_of (lv_jobs s) k) job_decode" for k
    using job same by (auto simp: map_of_set_job)
  have "leases_match (set_job i j' s)" using D(3) bind by (simp add: leases_match_def)
  moreover have "bt_wf (lv_jobs (set_job i j' s))" using D(4) by (simp add: jobs_sound_def set_job_def)
  then have "jobs_sound (set_job i j' s)" using D(4) new by (auto simp: jobs_sound_def map_of_set_job split: if_splits)
  moreover have "queue_sound (set_job i j' s)" using D(5) job same by (auto simp: queue_sound_def map_of_set_job)
  ultimately show ?thesis using D(1,2,6) by (simp add: live_sound_def workers_sound_def pools_sound_def epochs_sound_def)
qed

definition emitted :: "nat \<Rightarrow> job \<Rightarrow> live_event" where
  "emitted i j = \<lparr>ev_request = i, ev_token = Some (job_next j), ev_finish = finish_of j\<rparr>"

text \<open>An emission, given that the job with its count raised is sound.\<close>

lemma live_emit_run:
  assumes job: "map_of (lv_jobs u) i = Some j" and small: "job_generated j + 1 < 2 ^ 64"
    and j': "j' = j\<lparr>job_generated := job_generated j + 1\<rparr>"
    and sound: "live_sound (set_job i j' u)"
  shows "\<exists>t. live_emit i events u = (Ok (events @ [emitted i j']), t) \<and> live_sound t \<and> same_setup u t \<and>
    map_of (lv_jobs t) = (map_of (lv_jobs u))(i := (if finish_of j' = None then Some j' else None))"
proof -
  let ?u = "set_job i j' u"
  have emit: "live_emit i events u =
      (if finish_of j' \<noteq> None then next_op (live_remove i) (\<lambda>s. (Ok (events @ [emitted i j']), s)) ?u else (Ok (events @ [emitted i j']), ?u))"
    using job small by (simp add: live_emit_def fit_def j' Let_def emitted_def)
  have jobs: "map_of (lv_jobs ?u) = (map_of (lv_jobs u))(i \<mapsto> j')" using job by (auto simp: map_of_set_job fun_eq_iff)
  show ?thesis
  proof (cases "finish_of j'")
    case None
    then show ?thesis using emit sound jobs by (simp add: same_setup_def)
  next
    case (Some f)
    have "map_of (lv_jobs ?u) i = Some j'" using jobs by simp
    then obtain t where t: "live_remove i ?u = (Ok (), t)" "live_sound t" "same_setup ?u t" "lv_jobs t = bt_remove i (lv_jobs ?u)"
      using live_remove_job [OF sound] by blast
    then show ?thesis using emit Some jobs by (simp add: next_op_run same_setup_def)
  qed
qed

section \<open>Submission\<close>

lemma div_ceil_out_Ok: "d \<noteq> 0 \<Longrightarrow> div_ceil_out n d = Ok (div_ceil n d)"
  by (simp add: div_ceil_out_def)

text \<open>A request that passes the checks.\<close>

definition request_ok :: "live_scheduler \<Rightarrow> request \<Rightarrow> bool" where
  "request_ok s rq \<longleftrightarrow> map_of (lv_jobs s) (rq_id rq) = None \<and> rq_prompt rq \<noteq> [] \<and> rq_max_new_tokens rq \<noteq> 0 \<and>
     (\<forall>t \<in> set (rq_prompt rq). t < vocab (spec_model (live_spec s))) \<and>
     length (rq_prompt rq) + rq_max_new_tokens rq \<le> max_context (live_spec s)"

definition new_job :: "spec \<Rightarrow> request \<Rightarrow> nat list \<Rightarrow> transfer_lease \<Rightarrow> job" where
  "new_job sp rq stops l =
     \<lparr>job_request = rq\<lparr>rq_submit_at := 0, rq_cancel_at := None\<rparr>, job_state = hybrid_empty sp, job_prefill = Some l,
      job_decode = None, job_next = 0, job_generated = 0, job_stop = stops\<rparr>"

lemma live_submit_cases:
  assumes spec: "spec_ok (live_spec s)"
  shows "(\<exists>e. live_submit rq stops s = (Err e, s)) \<or>
    request_ok s rq \<and> lv_epoch s + 1 < 2 ^ 64 \<and>
    live_submit rq stops s =
      bind_op (on_p_pool (pool_reserve (rq_id rq) (lv_epoch s + 1) (length (rq_prompt rq)))) (\<lambda>l s.
        (Ok (), s\<lparr>lv_queue := lv_queue s @ [rq_id rq], lv_jobs := bt_insert (rq_id rq) (new_job (live_spec s) rq stops l) (lv_jobs s)\<rparr>))
        (s\<lparr>lv_epoch := lv_epoch s + 1\<rparr>)"
proof -
  have small: "max_context (live_spec s) < 2 ^ 64" using small_spec(1) [OF spec] by simp
  have "spec_page_tokens (live_spec s) \<noteq> 0" using spec_ok_pos(2) [OF spec] by simp
  show ?thesis
  proof (cases "request_ok s rq \<and> length (lv_jobs s) < cap_slots (lv_capacity s) \<and>
      div_ceil (length (rq_prompt rq)) (spec_page_tokens (live_spec s)) \<le> cap_pages (lv_capacity s) \<and> lv_epoch s + 1 < 2 ^ 64")
    case True
    then show ?thesis
      using \<open>spec_page_tokens (live_spec s) \<noteq> 0\<close> small
      by (auto simp: live_submit_def request_ok_def reject_def checked_add_def div_ceil_out_Ok new_job_def Let_def bind_op_def on_p_pool_def
          split: prod.split outcome.split)
  next
    case False
    then show ?thesis
      using \<open>spec_page_tokens (live_spec s) \<noteq> 0\<close> small
      by (auto simp: live_submit_def request_ok_def reject_def checked_add_def div_ceil_out_Ok Let_def try_op_eq not_less)
  qed
qed

lemma new_job_sound:
  assumes "request_ok s rq" and "div_ceil (length (rq_prompt rq)) (spec_page_tokens (live_spec s)) \<le> length (tl_pages l)"
  shows "job_sound (live_spec s) (rq_id rq) (new_job (live_spec s) rq stops l)"
  using assms by (auto simp: job_sound_def new_job_def request_ok_def job_history_def at_history_def Let_def)

lemma live_submit_sound:
  assumes sound: "live_sound s" and opn: "live_open s" and run: "live_submit rq stops s = (r, t)"
  shows "r \<noteq> Panic \<and> live_sound t \<and> live_open t \<and> lv_artifact t = lv_artifact s \<and>
    (if r = Ok () then \<exists>l. request_ok s rq \<and> lv_jobs t = bt_insert (rq_id rq) (new_job (live_spec s) rq stops l) (lv_jobs s)
     else lv_jobs t = lv_jobs s)"
proof -
  note D = live_soundD [OF sound]
  consider e where "live_submit rq stops s = (Err e, s)"
    | "request_ok s rq" "lv_epoch s + 1 < 2 ^ 64" "live_submit rq stops s =
      bind_op (on_p_pool (pool_reserve (rq_id rq) (lv_epoch s + 1) (length (rq_prompt rq)))) (\<lambda>l s.
        (Ok (), s\<lparr>lv_queue := lv_queue s @ [rq_id rq], lv_jobs := bt_insert (rq_id rq) (new_job (live_spec s) rq stops l) (lv_jobs s)\<rparr>))
        (s\<lparr>lv_epoch := lv_epoch s + 1\<rparr>)"
    using live_submit_cases [OF D(7), of rq stops] by blast
  then show ?thesis
  proof cases
    case 1
    then show ?thesis using run sound opn by auto
  next
    case 2
    have fresh: "map_of (lv_jobs s) (rq_id rq) = None" using 2(1) by (simp add: request_ok_def)
    then have idle: "map_of (rp_active (lv_p_pool s)) (rq_id rq) = None" using D(3) by (simp add: leases_match_def)
    have gen: "rp_generation (lv_p_pool s) + 1 < 2 ^ 64" using D(6) 2(2) by (simp add: epochs_sound_def)
    have P: "pool_sound (cap_pages (lv_capacity s)) (cap_slots (lv_capacity s)) (lv_p_pool s)" "rp_retired (lv_p_pool s) = []"
      "rp_page_tokens (lv_p_pool s) \<noteq> 0" using D(2) by (simp_all add: pools_sound_def pool_sound_def)
    show ?thesis
    proof (cases "\<exists>l q. pool_reserve (rq_id rq) (lv_epoch s + 1) (length (rq_prompt rq)) (lv_p_pool s) = (Ok l, q)")
      case True
      then obtain l q where q: "pool_reserve (rq_id rq) (lv_epoch s + 1) (length (rq_prompt rq)) (lv_p_pool s) = (Ok l, q)" by blast
      note o = pool_reserve_Ok [OF q]
      let ?j = "new_job (live_spec s) rq stops l"
      let ?t = "s\<lparr>lv_epoch := lv_epoch s + 1, lv_p_pool := q, lv_queue := lv_queue s @ [rq_id rq], lv_jobs := bt_insert (rq_id rq) ?j (lv_jobs s)\<rparr>"
      have t: "r = Ok ()" "t = ?t" using run 2(3) q by (simp_all add: bind_op_def on_p_pool_def)
      have active: "rp_active q = bt_insert (rq_id rq) l (rp_active (lv_p_pool s))" "rp_generation q = rp_generation (lv_p_pool s) + 1"
        "rp_retired q = []" "rp_page_tokens q = rp_page_tokens (lv_p_pool s)" using o P(2) by simp_all
      have "pools_sound t" using D(2) pool_reserve_sound [OF P(1) q] active t by (simp add: pools_sound_def)
      moreover have "leases_match t" using D(3) t active fresh by (auto simp: leases_match_def new_job_def)
      moreover have "job_sound (live_spec s) (rq_id rq) ?j"
        by (rule new_job_sound [OF 2(1)]) (use o D(2) in \<open>auto simp: pools_sound_def\<close>)
      then have "jobs_sound t" using D(4) t by (auto simp: jobs_sound_def bt_wf_insert split: if_splits)
      moreover have "queue_sound t" using D(5) t fresh by (auto simp: queue_sound_def new_job_def)
      moreover have "length (rp_active q) = Suc (length (rp_active (lv_p_pool s)))"
        using idle by (simp add: active length_bt_insert_fresh bt_absent)
      then have "epochs_sound t" using D(6) t active 2(2) by (simp add: epochs_sound_def)
      moreover have "workers_sound t" using D(1) t by (simp add: workers_sound_def)
      moreover have "live_open t" using opn t 2(1) by (auto simp: live_open_def new_job_def request_ok_def)
      ultimately show ?thesis using t 2(1) by (auto simp: live_sound_def)
    next
      case False
      then have "pool_reserve (rq_id rq) (lv_epoch s + 1) (length (rq_prompt rq)) (lv_p_pool s) = (Err (Capacity ''pages/slots''), lv_p_pool s)"
        using pool_reserve_run [OF P(3) idle P(2) gen, where e = "lv_epoch s + 1" and n = "length (rq_prompt rq)"] by (auto split: if_splits)
      then have t: "r = Err (Capacity ''pages/slots'')" "t = s\<lparr>lv_epoch := lv_epoch s + 1\<rparr>"
        using run 2(3) by (simp_all add: bind_op_def on_p_pool_def)
      have "live_sound t"
        using D 2(2) t by (simp add: live_sound_def workers_sound_def pools_sound_def leases_match_def jobs_sound_def queue_sound_def epochs_sound_def)
      then show ?thesis using t opn by (simp add: live_open_def)
    qed
  qed
qed

end
