(* ===== verification/Live_Step.thy ===== *)
theory Live_Step
  imports Live_Inv
begin

text \<open>
  The phases of a step of the live scheduler: each succeeds on every state that satisfies the invariant
  and preserves it, and what it does to the jobs is accounted for by the events it emits.
\<close>

section \<open>The bindings of a batch do not overlap\<close>

lemma active_leases_submset:
  assumes "bt_wf m" and "distinct ids" and "\<forall>i \<in> set ids. map_of m i = Some (f i)"
  shows "mset (map f ids) \<subseteq># mset (bt_values m)"
proof -
  have keys: "distinct (bt_keys m)" using bt_wf_distinct [OF assms(1)] .
  have "bt_values m = map (\<lambda>k. the (map_of m k)) (bt_keys m)"
    using keys by (auto simp: map_of_eq_Some_iff intro!: map_cong)
  moreover have "map f ids = map (\<lambda>k. the (map_of m k)) ids" using assms(3) by simp
  moreover have "mset ids \<subseteq># mset (bt_keys m)"
  proof -
    have "set ids \<subseteq> set (bt_keys m)" using assms(3) by (force dest: map_of_SomeD)
    then show ?thesis using assms(2) keys by (simp add: subseteq_mset_def distinct_count_atmost_1 subset_iff)
  qed
  ultimately show ?thesis by (simp only: mset_map image_mset_subseteq_mono)
qed

lemma count_distinct:
  assumes "\<forall>x. count (mset xs) x \<le> 1"
  shows "distinct xs"
  using assms by (induction xs) (auto simp: le_Suc_eq count_mset_0_iff split: if_splits)

lemma submset_distinct:
  assumes "mset xs \<subseteq># mset [0..<n]"
  shows "distinct xs"
proof -
  have "count (mset xs) x \<le> 1" for x
    using mset_subset_eq_count [OF assms, of x] distinct_count_atmost_1 [of "[0..<n]"] by (metis distinct_upt le_trans
      nat_le_linear zero_le_one)
  then show ?thesis by (intro count_distinct) simp
qed

lemma lease_pages_mono: "M \<subseteq># N \<Longrightarrow> lease_pages M \<subseteq># lease_pages N"
  by (auto simp: mset_subset_eq_exists_conv)

text \<open>Leases of different requests of one pool have different slots and no page in common.\<close>

lemma active_disjoint:
  assumes sound: "pool_sound n_pages n_slots p" and "distinct ids" and "\<forall>i \<in> set ids. map_of (rp_active p) i = Some (f i)"
  shows "distinct (map (\<lambda>i. tl_slot (f i)) ids)" "distinct (concat (map (\<lambda>i. tl_pages (f i)) ids))"
proof -
  have wf: "bt_wf (rp_active p)"
    and parts: "mset (rp_free_pages p) + lease_pages (leases p) = mset [0..<n_pages]"
      "mset (rp_free_slots p) + image_mset tl_slot (leases p) = mset [0..<n_slots]"
    using sound by (auto simp: pool_sound_def)
  have sub: "mset (map f ids) \<subseteq># leases p"
    using active_leases_submset [OF wf assms(2,3)] unfolding leases_def by (metis mset_subset_eq_add_left subset_mset.order_trans)
  have "image_mset tl_slot (mset (map f ids)) \<subseteq># mset [0..<n_slots]"
    using image_mset_subseteq_mono [OF sub, of tl_slot] unfolding parts(2) [symmetric]
    by (metis mset_subset_eq_add_right subset_mset.order_trans)
  then show "distinct (map (\<lambda>i. tl_slot (f i)) ids)"
    using submset_distinct [of "map tl_slot (map f ids)" n_slots] by (simp add: comp_def image_mset.compositionality)
  have "lease_pages (mset (map f ids)) \<subseteq># mset [0..<n_pages]"
    using lease_pages_mono [OF sub] unfolding parts(1) [symmetric] by (metis mset_subset_eq_add_right subset_mset.order_trans)
  then show "distinct (concat (map (\<lambda>i. tl_pages (f i)) ids))"
    using submset_distinct [of "concat (map tl_pages (map f ids))"] by (simp only: lease_pages_mset map_map comp_def)
qed

section \<open>What a step does to the jobs\<close>

text \<open>The work left for a job: prompt tokens to feed and tokens to generate.\<close>

definition job_work :: "job \<Rightarrow> nat" where
  "job_work j = (if job_prefill j \<noteq> None then length (rq_prompt (job_request j)) - consumed (job_state j) else 0) +
     (rq_max_new_tokens (job_request j) - job_generated j)"

definition work_at :: "(nat \<rightharpoonup> job) \<Rightarrow> nat \<Rightarrow> nat" where
  "work_at J i = (case J i of None \<Rightarrow> 0 | Some j \<Rightarrow> job_work j)"

definition same_progress :: "job \<Rightarrow> job \<Rightarrow> bool" where
  "same_progress j0 j \<longleftrightarrow> job_request j = job_request j0 \<and> job_stop j = job_stop j0 \<and> job_generated j = job_generated j0 \<and>
     job_work j \<le> job_work j0 \<and> (job_decode j = None \<longleftrightarrow> job_decode j0 = None)"

text \<open>An event against the jobs at the start of the step and now: a token event carries the next token of
  the reference generation, and the job has one token more or is gone for the stated reason; an event
  without a token reports a decoding job that was dropped because its lease could not grow.\<close>

definition stops_at :: "job \<Rightarrow> nat \<Rightarrow> bool" where
  "stops_at j0 tok \<longleftrightarrow> rq_eos (job_request j0) = Some tok \<or> tok \<in> set (job_stop j0)"

definition token_event_ok :: "spec \<Rightarrow> job \<Rightarrow> job option \<Rightarrow> nat \<Rightarrow> finish option \<Rightarrow> bool" where
  "token_event_ok sp j0 now tok fin \<longleftrightarrow>
     tok = next_ref sp (rq_prompt (job_request j0) @ reference sp (rq_prompt (job_request j0)) (job_generated j0)) \<and>
     fin = (if stops_at j0 tok then Some FinStop
            else if job_generated j0 + 1 = rq_max_new_tokens (job_request j0) then Some FinLength else None) \<and>
     (if fin = None
      then \<exists>j. now = Some j \<and> job_request j = job_request j0 \<and> job_stop j = job_stop j0 \<and>
        job_generated j = job_generated j0 + 1 \<and> job_decode j \<noteq> None \<and> job_work j < job_work j0
      else now = None)"

definition event_ok :: "spec \<Rightarrow> (nat \<rightharpoonup> job) \<Rightarrow> (nat \<rightharpoonup> job) \<Rightarrow> live_event \<Rightarrow> bool" where
  "event_ok sp J0 J e \<longleftrightarrow> (\<exists>j0. J0 (ev_request e) = Some j0 \<and>
     (case ev_token e of
        Some tok \<Rightarrow> token_event_ok sp j0 (J (ev_request e)) tok (ev_finish e)
      | None \<Rightarrow> ev_finish e = Some (FinError ''KV growth'') \<and> J (ev_request e) = None \<and> job_decode j0 \<noteq> None))"

definition step_effect :: "spec \<Rightarrow> (nat \<rightharpoonup> job) \<Rightarrow> (nat \<rightharpoonup> job) \<Rightarrow> live_event list \<Rightarrow> bool" where
  "step_effect sp J0 J evs \<longleftrightarrow> distinct (map ev_request evs) \<and> (\<forall>e \<in> set evs. event_ok sp J0 J e) \<and>
     (\<forall>i. i \<notin> ev_request ` set evs \<longrightarrow> rel_option same_progress (J0 i) (J i))"

lemma same_progress_refl [simp]: "same_progress j j"
  by (simp add: same_progress_def)

lemma same_progress_trans: "same_progress a b \<Longrightarrow> same_progress b c \<Longrightarrow> same_progress a c"
  by (auto simp: same_progress_def)

lemma effect_refl: "step_effect sp J J []"
  by (simp add: step_effect_def option.rel_refl)

lemma effect_origin:
  assumes "step_effect sp J0 J evs" and "J i = Some j" and "i \<notin> ev_request ` set evs"
  shows "\<exists>j0. J0 i = Some j0 \<and> same_progress j0 j"
proof -
  have "rel_option same_progress (J0 i) (J i)" using assms(1,3) by (simp add: step_effect_def)
  then show ?thesis using assms(2) by (auto elim: option.rel_cases)
qed

lemma event_ok_other: "ev_request e \<noteq> i \<Longrightarrow> event_ok sp J0 (J(i := x)) e \<longleftrightarrow> event_ok sp J0 J e"
proof -
  assume "ev_request e \<noteq> i"
  then have "(J(i := x)) (ev_request e) = J (ev_request e)" by simp
  then show ?thesis unfolding event_ok_def by (simp only:)
qed

text \<open>A job in prefill has not had an event.\<close>

lemma prefill_no_event:
  assumes "step_effect sp J0 J evs" and "J i = Some j" and "job_decode j = None"
  shows "i \<notin> ev_request ` set evs"
proof
  assume "i \<in> ev_request ` set evs"
  then obtain e where "e \<in> set evs" "ev_request e = i" by blast
  then have "event_ok sp J0 J e" "ev_request e = i" using assms(1) by (auto simp: step_effect_def)
  then show False using assms(2,3) by (auto simp: event_ok_def token_event_ok_def split: option.splits if_splits)
qed

lemma effect_update:
  assumes eff: "step_effect sp J0 J evs" and "J i = Some j" and "i \<notin> ev_request ` set evs" and "same_progress j j'"
  shows "step_effect sp J0 (J(i \<mapsto> j')) evs"
proof -
  obtain j0 where "J0 i = Some j0" "same_progress j0 j" using effect_origin [OF assms(1-3)] by blast
  then have "rel_option same_progress (J0 i) (Some j')" using same_progress_trans assms(4) by auto
  moreover have "event_ok sp J0 (J(i \<mapsto> j')) e" if "e \<in> set evs" for e
  proof -
    have "ev_request e \<noteq> i" using assms(3) that by blast
    then show ?thesis using eff that by (simp add: step_effect_def event_ok_other)
  qed
  ultimately show ?thesis using eff by (simp add: step_effect_def)
qed

lemma effect_event:
  assumes eff: "step_effect sp J0 J evs" and "i \<notin> ev_request ` set evs" and "ev_request e = i" and "event_ok sp J0 (J(i := x)) e"
  shows "step_effect sp J0 (J(i := x)) (evs @ [e])"
proof -
  have "event_ok sp J0 (J(i := x)) e'" if "e' \<in> set evs" for e'
  proof -
    have "ev_request e' \<noteq> i" using assms(2) that by blast
    then show ?thesis using eff that by (simp add: step_effect_def event_ok_other)
  qed
  then show ?thesis using assms by (simp add: step_effect_def)
qed

text \<open>The event of an emission is right when the job's next token is.\<close>

lemma emitted_event_ok:
  assumes eff: "step_effect sp J0 J evs" and job: "J i = Some j" and i: "i \<notin> ev_request ` set evs"
    and j': "job_request j' = job_request j" "job_stop j' = job_stop j" "job_generated j' = job_generated j + 1" "job_decode j' \<noteq> None"
      "job_prefill j' = None"
    and tok: "job_next j' = next_ref sp (rq_prompt (job_request j) @ reference sp (rq_prompt (job_request j)) (job_generated j))"
    and room: "job_generated j < rq_max_new_tokens (job_request j)"
  shows "event_ok sp J0 (J(i := (if finish_of j' = None then Some j' else None))) (emitted i j')"
proof -
  obtain j0 where j0: "J0 i = Some j0" "same_progress j0 j" using effect_origin [OF eff job i] by blast
  have "job_work j' < job_work j" using j' room by (auto simp: job_work_def)
  then have "job_work j' < job_work j0" using j0(2) by (simp add: same_progress_def)
  moreover have "finish_of j' = (if stops_at j0 (job_next j') then Some FinStop
      else if job_generated j0 + 1 = rq_max_new_tokens (job_request j0) then Some FinLength else None)"
    using j' j0(2) by (simp add: finish_of_def stops_at_def same_progress_def)
  ultimately show ?thesis
    using j' j0 tok by (auto simp: event_ok_def token_event_ok_def emitted_def same_progress_def)
qed

lemma event_ok_shrinks:
  assumes "event_ok sp J0 J e"
  shows "\<exists>j0. J0 (ev_request e) = Some j0 \<and>
    (J (ev_request e) = None \<or> (\<exists>j. J (ev_request e) = Some j \<and> job_work j < job_work j0))"
proof -
  obtain j0 where j0: "J0 (ev_request e) = Some j0"
    "case ev_token e of Some tok \<Rightarrow> token_event_ok sp j0 (J (ev_request e)) tok (ev_finish e)
       | None \<Rightarrow> ev_finish e = Some (FinError ''KV growth'') \<and> J (ev_request e) = None \<and> job_decode j0 \<noteq> None"
    using assms by (auto simp: event_ok_def)
  show ?thesis
  proof (cases "ev_token e")
    case (Some tok)
    then show ?thesis using j0 by (cases "ev_finish e") (auto simp: token_event_ok_def)
  qed (use j0 in simp)
qed

lemma effect_work:
  assumes "step_effect sp J0 J evs"
  shows "work_at J i \<le> work_at J0 i"
proof (cases "i \<in> ev_request ` set evs")
  case True
  then obtain e where "e \<in> set evs" "ev_request e = i" by blast
  then have e: "event_ok sp J0 J e" "ev_request e = i" using assms by (auto simp: step_effect_def)
  then obtain j0 where "J0 i = Some j0" "J i = None \<or> (\<exists>j. J i = Some j \<and> job_work j < job_work j0)"
    using event_ok_shrinks by blast
  then show ?thesis by (auto simp: work_at_def)
next
  case False
  then have "rel_option same_progress (J0 i) (J i)" using assms by (simp add: step_effect_def)
  then show ?thesis by (auto simp: work_at_def same_progress_def elim!: option.rel_cases)
qed

lemma event_work:
  assumes "step_effect sp J0 J evs" and "e \<in> set evs" and "\<And>i j. J0 i = Some j \<Longrightarrow> job_generated j < rq_max_new_tokens (job_request j)"
  shows "work_at J (ev_request e) < work_at J0 (ev_request e)"
proof -
  have "event_ok sp J0 J e" using assms(1,2) by (simp add: step_effect_def)
  then obtain j0 where j0: "J0 (ev_request e) = Some j0" "J (ev_request e) = None \<or> (\<exists>j. J (ev_request e) = Some j \<and> job_work j < job_work j0)"
    using event_ok_shrinks by blast
  moreover have "0 < job_work j0" using assms(3) [OF j0(1)] by (simp add: job_work_def)
  ultimately show ?thesis by (auto simp: work_at_def)
qed


section \<open>The decode phase\<close>

text \<open>Growing the lease of a decoding job.\<close>

lemma grow_run:
  assumes sound: "live_sound s" and job: "map_of (lv_jobs s) i = Some j" and d: "job_decode j = Some d"
  shows "(\<exists>l t. on_transport (on_pool (pool_ensure d n)) s = (Ok l, t) \<and> same_setup s t \<and> lv_jobs t = lv_jobs s \<and>
      live_sound (set_job i (j\<lparr>job_decode := Some l\<rparr>) t) \<and> div_ceil n (spec_page_tokens (live_spec s)) \<le> length (tl_pages l)) \<or>
    on_transport (on_pool (pool_ensure d n)) s = (Err (Capacity ''KV growth''), s)"
proof -
  note D = live_soundD [OF sound]
  let ?p = "tr_pool (lv_transport s)"
  have active: "map_of (rp_active ?p) i = Some d" "tl_request d = i" using lease_of_job(2) [OF sound job d] by auto
  have T: "transport_sound (cap_pages (lv_capacity s)) (cap_slots (lv_capacity s)) (lv_transport s)"
    and pt: "rp_page_tokens ?p = spec_page_tokens (live_spec s)" "rp_page_tokens ?p \<noteq> 0"
    using D(2) by (auto simp: pools_sound_def transport_sound_def pool_sound_def)
  have check: "pool_check d ?p = Ok ()" using active by (simp add: pool_check_Ok)
  let ?k = "div_ceil n (rp_page_tokens ?p) - length (tl_pages d)"
  show ?thesis
  proof (cases "?k > length (rp_free_pages ?p)")
    case True
    then have "pool_ensure d n ?p = (Err (Capacity ''KV growth''), ?p)"
      using pool_ensure_result [OF pt(2), of d n] active check by simp
    then show ?thesis by (simp add: on_transport_def on_pool_def)
  next
    case False
    let ?l = "d\<lparr>tl_pages := tl_pages d @ take ?k (rp_free_pages ?p)\<rparr>"
    let ?q = "?p\<lparr>rp_free_pages := drop ?k (rp_free_pages ?p),
      rp_active := bt_adjust i (\<lambda>l. l\<lparr>tl_pages := tl_pages l @ take ?k (rp_free_pages ?p)\<rparr>) (rp_active ?p)\<rparr>"
    have run: "pool_ensure d n ?p = (Ok ?l, ?q)"
      using pool_ensure_result [OF pt(2), of d n] active check False by (simp add: Let_def)
    let ?t = "s\<lparr>lv_transport := (lv_transport s)\<lparr>tr_pool := ?q\<rparr>\<rparr>" let ?j = "j\<lparr>job_decode := Some ?l\<rparr>"
    have on: "on_transport (on_pool (pool_ensure d n)) s = (Ok ?l, ?t)" using run by (simp add: on_transport_def on_pool_def)
    have js: "job_sound (live_spec s) i j" using job_soundD [OF sound job] .
    have "transport_sound (cap_pages (lv_capacity s)) (cap_slots (lv_capacity s)) (lv_transport ?t)"
      using transport_ensure_sound [OF T, of d n ?l "(lv_transport s)\<lparr>tr_pool := ?q\<rparr>"] run by (simp add: on_pool_def)
    then have "pools_sound (set_job i ?j ?t)" using D(2) by (simp add: pools_sound_def)
    moreover have "leases_match (set_job i ?j ?t)"
      using D(3) job d active by (auto simp: leases_match_def map_of_set_job map_of_bt_adjust)
    moreover have none: "job_prefill j = None" using js d by (simp add: job_sound_def Let_def)
    have "job_history (live_spec s) ?j = job_history (live_spec s) j" using none by (simp add: job_history_def)
    then have "job_sound (live_spec s) i ?j" using js d none by (simp add: job_sound_def Let_def)
    then have "jobs_sound (set_job i ?j ?t)"
      using D(4) unfolding jobs_sound_def map_of_set_job by (auto simp: set_job_def split: if_splits)
    moreover have "queue_sound (set_job i ?j ?t)" using D(5) job by (auto simp: queue_sound_def map_of_set_job)
    ultimately have "live_sound (set_job i ?j ?t)"
      using D(1,6) by (simp add: live_sound_def workers_sound_def epochs_sound_def)
    moreover have "div_ceil n (spec_page_tokens (live_spec s)) \<le> length (tl_pages ?l)" using False pt by simp
    ultimately show ?thesis using on by (auto simp: same_setup_def)
  qed
qed

text \<open>The inputs gathered so far, against the present state.\<close>

definition decode_inputs :: "live_scheduler \<Rightarrow> step_input list \<Rightarrow> bool" where
  "decode_inputs s inputs \<longleftrightarrow> distinct (map in_request inputs) \<and>
     (\<forall>inp \<in> set inputs. \<exists>j l. map_of (lv_jobs s) (in_request inp) = Some j \<and> job_decode j = Some l \<and>
        inp = decode_entry (in_request inp) j l \<and>
        div_ceil (consumed (job_state j) + 1) (spec_page_tokens (live_spec s)) \<le> length (tl_pages l))"

lemma decode_inputs_keep:
  assumes "decode_inputs s inputs" and "same_setup s t"
    and "\<And>k. k \<in> in_request ` set inputs \<Longrightarrow> map_of (lv_jobs t) k = map_of (lv_jobs s) k"
  shows "decode_inputs t inputs"
  using assms same_setup_spec [OF assms(2)] by (simp add: decode_inputs_def)

lemma decoding_room:
  assumes sound: "live_sound s" and opn: "live_open s" and job: "map_of (lv_jobs s) i = Some j" and d: "job_decode j \<noteq> None"
  shows "consumed (job_state j) = length (rq_prompt (job_request j)) + job_generated j - 1" "0 < job_generated j"
    "consumed (job_state j) + 1 \<le> max_context (live_spec s)" "state_ok (live_spec s) (job_state j)"
    "job_history (live_spec s) j = rq_prompt (job_request j) @ reference (live_spec s) (rq_prompt (job_request j)) (job_generated j - 1)"
proof -
  have js: "job_sound (live_spec s) i j" using job_soundD [OF sound job] .
  have gen: "job_generated j < rq_max_new_tokens (job_request j)" using opn job by (simp add: live_open_def)
  show pos: "0 < job_generated j" using js d by (simp add: job_sound_def Let_def)
  show h: "job_history (live_spec s) j = rq_prompt (job_request j) @ reference (live_spec s) (rq_prompt (job_request j)) (job_generated j - 1)"
    using js d by (simp add: job_sound_def Let_def job_history_def)
  have at: "at_history (live_spec s) (job_history (live_spec s) j) (job_state j)" using js by (simp add: job_sound_def Let_def)
  have len: "length (job_history (live_spec s) j) = length (rq_prompt (job_request j)) + job_generated j - 1" using h pos by simp
  have max: "length (rq_prompt (job_request j)) + rq_max_new_tokens (job_request j) \<le> max_context (live_spec s)"
    using js by (simp add: job_sound_def Let_def)
  have fits: "length (job_history (live_spec s) j) \<le> max_context (live_spec s)" using len gen max by simp
  note f = at_history_facts [OF live_soundD(7) [OF sound] at fits]
  show "consumed (job_state j) = length (rq_prompt (job_request j)) + job_generated j - 1" using f(2) len by simp
  then show "consumed (job_state j) + 1 \<le> max_context (live_spec s)" using gen max pos by simp
  show "state_ok (live_spec s) (job_state j)" by (rule f(1))
qed

lemma live_open_remove: "live_open s \<Longrightarrow> lv_jobs t = bt_remove i (lv_jobs s) \<Longrightarrow> live_open t"
  by (auto simp: live_open_def split: if_splits)

text \<open>A loop state of \<open>admit_decode\<close>.\<close>

definition admitting :: "(nat \<rightharpoonup> job) \<Rightarrow> live_scheduler \<Rightarrow> nat list \<Rightarrow> step_input list \<Rightarrow> live_event list \<Rightarrow> bool" where
  "admitting J0 s ids inputs evs \<longleftrightarrow> live_sound s \<and> live_open s \<and> decode_inputs s inputs \<and>
     step_effect (live_spec s) J0 (map_of (lv_jobs s)) evs \<and>
     distinct ids \<and> set ids \<inter> in_request ` set inputs = {} \<and> (set ids \<union> in_request ` set inputs) \<inter> ev_request ` set evs = {} \<and>
     (\<forall>i \<in> set ids. \<exists>j. map_of (lv_jobs s) i = Some j \<and> job_decode j \<noteq> None)"

lemma admit_grown:
  assumes A: "admitting J0 s (i # ids) inputs evs" and job: "map_of (lv_jobs s) i = Some j" and dec: "job_decode j = Some d"
    and t: "lv_jobs t = lv_jobs s" "same_setup s t"
    and u: "live_sound (set_job i (j\<lparr>job_decode := Some l\<rparr>) t)"
    and pages: "div_ceil (consumed (job_state j) + 1) (spec_page_tokens (live_spec s)) \<le> length (tl_pages l)"
  shows "admitting J0 (set_job i (j\<lparr>job_decode := Some l\<rparr>) t) ids (inputs @ [decode_entry i j l]) evs"
proof -
  let ?j = "j\<lparr>job_decode := Some l\<rparr>" let ?u = "set_job i ?j t"
  have fixed: "same_setup s ?u" using t(2) by (simp add: same_setup_def)
  note spec = same_setup_spec [OF fixed] same_setup_spec [OF t(2)]
  have jobs: "map_of (lv_jobs ?u) = (map_of (lv_jobs s))(i \<mapsto> ?j)" using job t(1) by (auto simp: map_of_set_job)
  have "live_open ?u" using A job by (auto simp: admitting_def live_open_def jobs)
  moreover have "decode_inputs ?u inputs"
    by (rule decode_inputs_keep [OF _ fixed]) (use A in \<open>auto simp: admitting_def jobs\<close>)
  then have "decode_inputs ?u (inputs @ [decode_entry i j l])"
    using A pages by (auto simp: decode_inputs_def admitting_def jobs spec decode_entry_def)
  moreover have "same_progress j ?j" using dec by (simp add: same_progress_def job_work_def)
  then have "step_effect (live_spec s) J0 (map_of (lv_jobs ?u)) evs"
    unfolding jobs by (intro effect_update [where j = j]) (use A job in \<open>auto simp: admitting_def\<close>)
  ultimately show ?thesis using A u by (auto simp: admitting_def jobs spec decode_entry_def)
qed

lemma admit_dropped:
  assumes A: "admitting J0 s (i # ids) inputs evs" and job: "map_of (lv_jobs s) i = Some j" and d: "job_decode j = Some d"
    and t: "live_sound t" "same_setup s t" "lv_jobs t = bt_remove i (lv_jobs s)"
  shows "admitting J0 t ids inputs (evs @ [\<lparr>ev_request = i, ev_token = None, ev_finish = Some (FinError ''KV growth'')\<rparr>])"
proof -
  let ?e = "\<lparr>ev_request = i, ev_token = None, ev_finish = Some (FinError ''KV growth'')\<rparr> :: live_event"
  note spec = same_setup_spec [OF t(2)]
  have jobs: "map_of (lv_jobs t) = (map_of (lv_jobs s))(i := None)" using t(3) by simp
  have eff: "step_effect (live_spec s) J0 (map_of (lv_jobs s)) evs" and i: "i \<notin> ev_request ` set evs" using A by (auto simp: admitting_def)
  obtain j0 where "J0 i = Some j0" "same_progress j0 j" using effect_origin [OF eff job i] by blast
  then have "event_ok (live_spec s) J0 ((map_of (lv_jobs s))(i := None)) ?e" using d by (auto simp: event_ok_def same_progress_def)
  then have "step_effect (live_spec s) J0 (map_of (lv_jobs t)) (evs @ [?e])"
    unfolding jobs by (intro effect_event [OF eff i]) simp_all
  moreover have "decode_inputs t inputs" by (rule decode_inputs_keep [OF _ t(2)]) (use A in \<open>auto simp: admitting_def jobs\<close>)
  moreover have "live_open t" using A t(3) live_open_remove by (auto simp: admitting_def)
  ultimately show ?thesis using A t(1) by (auto simp: admitting_def jobs spec)
qed

lemma admit_decode_run:
  "admitting J0 s ids inputs evs \<Longrightarrow>
    \<exists>inputs' evs' t. admit_decode ids inputs evs s = (Ok (inputs', evs'), t) \<and> admitting J0 t [] inputs' evs' \<and> same_setup s t \<and>
      length inputs' \<le> length inputs + length ids \<and> (ids = [] \<and> inputs = [] \<and> evs = [] \<or> inputs' \<noteq> [] \<or> evs' \<noteq> [] )"
proof (induction ids arbitrary: inputs evs s)
  case Nil
  then show ?case by auto
next
  case (Cons i ids)
  obtain j d where job: "map_of (lv_jobs s) i = Some j" "job_decode j = Some d" using Cons.prems by (auto simp: admitting_def)
  have sound: "live_sound s" "live_open s" using Cons.prems by (auto simp: admitting_def)
  have "consumed (job_state j) + 1 < 2 ^ 64"
    using decoding_room(3) [OF sound job(1)] job(2) small_spec(1) [OF live_soundD(7) [OF sound(1)]] by simp
  then have unfold: "admit_decode (i # ids) inputs evs s =
     (case on_transport (on_pool (pool_ensure d (consumed (job_state j) + 1))) s of
       (Ok l, s) \<Rightarrow> admit_decode ids (inputs @ [decode_entry i j l]) evs (set_job i (j\<lparr>job_decode := Some l\<rparr>) s)
     | (Err (Capacity message), s) \<Rightarrow>
         next_op (live_remove i)
           (admit_decode ids inputs (evs @ [\<lparr>ev_request = i, ev_token = None, ev_finish = Some (FinError message)\<rparr>])) s
     | (Err e, s) \<Rightarrow> (Err e, s)
     | (Panic, s) \<Rightarrow> (Panic, s))"
    using job by (simp add: fit_def)
  from grow_run [OF sound(1) job] consider
    l t where "on_transport (on_pool (pool_ensure d (consumed (job_state j) + 1))) s = (Ok l, t)" "same_setup s t" "lv_jobs t = lv_jobs s"
      "live_sound (set_job i (j\<lparr>job_decode := Some l\<rparr>) t)"
      "div_ceil (consumed (job_state j) + 1) (spec_page_tokens (live_spec s)) \<le> length (tl_pages l)"
    | "on_transport (on_pool (pool_ensure d (consumed (job_state j) + 1))) s = (Err (Capacity ''KV growth''), s)" by blast
  then show ?case
  proof cases
    case 1
    let ?u = "set_job i (j\<lparr>job_decode := Some l\<rparr>) t"
    have "admitting J0 ?u ids (inputs @ [decode_entry i j l]) evs"
      by (rule admit_grown [OF Cons.prems job 1(3,2,4,5)])
    from Cons.IH [OF this] 1(1,2) show ?thesis unfolding unfold by (fastforce simp: same_setup_def)
  next
    case 2
    obtain t where t: "live_remove i s = (Ok (), t)" "live_sound t" "same_setup s t" "lv_jobs t = bt_remove i (lv_jobs s)"
      using live_remove_job [OF sound(1) job(1)] by blast
    from Cons.IH [OF admit_dropped [OF Cons.prems job t(2-4)]] 2 t show ?thesis
      unfolding unfold by (fastforce simp: next_op_run same_setup_def)
  qed
qed

end
