(* ===== verification/Live_Phases.thy ===== *)
theory Live_Phases
  imports Live_Step
begin

text \<open>
  The decode phase and the prefill phase of a step: the batch each of them gathers is one the worker
  groups serve, and the outputs continue the reference generation of every job in it.
\<close>

section \<open>The decode phase\<close>

lemma decode_inputs_batch:
  assumes sound: "live_sound s" and opn: "live_open s" and inputs: "decode_inputs s inputs" "inputs \<noteq> []"
    and size: "length inputs \<le> last (batch_buckets (live_spec s))"
  shows "decode_batch (live_spec s) inputs"
proof -
  have entry: "\<exists>j l. map_of (lv_jobs s) (in_request inp) = Some j \<and> job_decode j = Some l \<and>
      inp = decode_entry (in_request inp) j l \<and> div_ceil (consumed (job_state j) + 1) (spec_page_tokens (live_spec s)) \<le> length (tl_pages l)"
    if "inp \<in> set inputs" for inp using inputs(1) that by (simp add: decode_inputs_def)
  have "decode_input (live_spec s) inp" if inp: "inp \<in> set inputs" for inp
  proof -
    obtain j l where j: "map_of (lv_jobs s) (in_request inp) = Some j" "job_decode j = Some l" "inp = decode_entry (in_request inp) j l"
      "div_ceil (consumed (job_state j) + 1) (spec_page_tokens (live_spec s)) \<le> length (tl_pages l)" using entry [OF inp] by blast
    have d: "job_decode j \<noteq> None" using j(2) by simp
    have "job_next j < vocab (spec_model (live_spec s))"
      using job_soundD [OF sound j(1)] d next_ref_vocab [OF live_soundD(7) [OF sound]] by (simp add: job_sound_def Let_def)
    then have "decode_input (live_spec s) (decode_entry (in_request inp) j l)"
      using decoding_room(3,4) [OF sound opn j(1) d] j(4) by (simp add: decode_input_def decode_entry_def lease_binding_def)
    then show ?thesis using j(3) by simp
  qed
  moreover have "disjoint_bindings inputs"
  proof -
    let ?f = "\<lambda>i. the (map_of (rp_active (tr_pool (lv_transport s))) i)"
    let ?ids = "map in_request inputs"
    have active: "map_of (rp_active (tr_pool (lv_transport s))) (in_request inp) = Some (?f (in_request inp)) \<and>
        in_binding inp = lease_binding (?f (in_request inp))" if inp: "inp \<in> set inputs" for inp
    proof -
      obtain j l where j: "map_of (lv_jobs s) (in_request inp) = Some j" "job_decode j = Some l" "inp = decode_entry (in_request inp) j l"
        using entry [OF inp] by blast
      have "in_binding (decode_entry (in_request inp) j l) = lease_binding l" by (simp add: decode_entry_def)
      then show ?thesis using lease_of_job(2) [OF sound j(1,2)] j(3) by simp
    qed
    have pool: "pool_sound (cap_pages (lv_capacity s)) (cap_slots (lv_capacity s)) (tr_pool (lv_transport s))"
      using live_soundD(2) [OF sound] by (simp add: pools_sound_def transport_sound_def)
    have ids: "distinct ?ids" "\<forall>i \<in> set ?ids. map_of (rp_active (tr_pool (lv_transport s))) i = Some (?f i)"
      using inputs(1) active by (auto simp: decode_inputs_def)
    have binds: "map (\<lambda>i. sb_slot (in_binding i)) inputs = map (\<lambda>i. tl_slot (?f i)) ?ids"
      "map (\<lambda>i. sb_pages (in_binding i)) inputs = map (\<lambda>i. tl_pages (?f i)) ?ids"
      using active by (simp_all add: lease_binding_def)
    show ?thesis unfolding disjoint_bindings_def binds by (intro conjI active_disjoint [OF pool ids])
  qed
  ultimately show ?thesis using inputs(2) size by (simp add: decode_batch_def)
qed

text \<open>The outputs of a batch, delivered one by one.\<close>

definition delivering :: "(nat \<rightharpoonup> job) \<Rightarrow> live_scheduler \<Rightarrow> step_input list \<Rightarrow> step_output list \<Rightarrow> live_event list \<Rightarrow> bool" where
  "delivering J0 s inputs outs evs \<longleftrightarrow> live_sound s \<and> live_open s \<and> decode_inputs s inputs \<and>
     list_all2 (\<lambda>i out. run_request (live_spec s) i = Ok out) inputs outs \<and>
     step_effect (live_spec s) J0 (map_of (lv_jobs s)) evs \<and> in_request ` set inputs \<inter> ev_request ` set evs = {}"

text \<open>A decoding job after one more execution and emission.\<close>

lemma decoded_sound:
  assumes sound: "live_sound s" and opn: "live_open s" and job: "map_of (lv_jobs s) i = Some j" and d: "job_decode j = Some l"
    and run: "run_request (live_spec s) (decode_entry i j l) = Ok out"
  shows "job_sound (live_spec s) i (j\<lparr>job_state := out_state out, job_next := next_token out, job_generated := job_generated j + 1\<rparr>)"
    "next_token out = next_ref (live_spec s) (rq_prompt (job_request j) @ reference (live_spec s) (rq_prompt (job_request j)) (job_generated j))"
    "out_request out = i"
proof -
  let ?sp = "live_spec s" let ?p = "rq_prompt (job_request j)"
  let ?j = "j\<lparr>job_state := out_state out, job_next := next_token out, job_generated := job_generated j + 1\<rparr>"
  have dec: "job_decode j \<noteq> None" using d by simp
  have js: "job_sound ?sp i j" using job_soundD [OF sound job] .
  note room = decoding_room [OF sound opn job dec]
  obtain g where g: "job_generated j = Suc g" using room(2) by (cases "job_generated j") auto
  have none: "job_prefill j = None" using js d by (simp add: job_sound_def Let_def)
  have at: "at_history ?sp (?p @ reference ?sp ?p g) (job_state j)" and next_eq: "job_next j = next_ref ?sp (?p @ reference ?sp ?p g)"
    using js room(5) d g by (simp_all add: job_sound_def Let_def)
  have gen: "job_generated j < rq_max_new_tokens (job_request j)" using opn job by (simp add: live_open_def)
  have max: "length ?p + rq_max_new_tokens (job_request j) \<le> max_context ?sp" using js by (simp add: job_sound_def Let_def)
  have "length ((?p @ reference ?sp ?p g) @ in_tokens (decode_entry i j l)) \<le> max_context ?sp"
    using gen max g by (simp add: decode_entry_def)
  moreover have "at_history ?sp (?p @ reference ?sp ?p g) (in_state (decode_entry i j l))" using at by (simp add: decode_entry_def)
  ultimately have ext: "at_history ?sp ((?p @ reference ?sp ?p g) @ in_tokens (decode_entry i j l)) (out_state out)"
    "next_token out = next_ref ?sp ((?p @ reference ?sp ?p g) @ in_tokens (decode_entry i j l))"
    "out_request out = in_request (decode_entry i j l)"
    using run_extends [OF live_soundD(7) [OF sound] _ run] by blast+
  have hist: "(?p @ reference ?sp ?p g) @ in_tokens (decode_entry i j l) = ?p @ reference ?sp ?p (job_generated j)"
    using g next_eq by (simp add: decode_entry_def)
  show "next_token out = next_ref ?sp (?p @ reference ?sp ?p (job_generated j))" using ext(2) hist by simp
  show "out_request out = i" using ext(3) by (simp add: decode_entry_def)
  have "job_history ?sp ?j = ?p @ reference ?sp ?p (job_generated j)" using none by (simp add: job_history_def)
  then show "job_sound ?sp i ?j" using js ext(1,2) hist d none gen by (simp add: job_sound_def Let_def)
qed

lemma finish_open: "finish_of j = None \<Longrightarrow> job_generated j \<noteq> rq_max_new_tokens (job_request j)"
  by (auto simp: finish_of_def split: if_splits)

text \<open>An emission by a job of the state \<open>v\<close> that was brought up to date in \<open>u\<close>: the invariant and the
  account of the events.\<close>

lemma emit_step:
  assumes v: "map_of (lv_jobs v) i = Some jv" "step_effect (live_spec u) J0 (map_of (lv_jobs v)) evs" "i \<notin> ev_request ` set evs"
      "live_open v" "job_sound (live_spec u) i jv" "spec_ok (live_spec u)"
    and u: "map_of (lv_jobs u) = (map_of (lv_jobs v))(i \<mapsto> j)"
    and j: "job_request j = job_request jv" "job_stop j = job_stop jv" "job_generated j = job_generated jv"
      "job_decode j \<noteq> None" "job_prefill j = None"
      "job_next j = next_ref (live_spec u) (rq_prompt (job_request jv) @ reference (live_spec u) (rq_prompt (job_request jv)) (job_generated jv))"
    and sound: "live_sound (set_job i (j\<lparr>job_generated := job_generated j + 1\<rparr>) u)"
  shows "\<exists>t e. live_emit i evs u = (Ok (evs @ [e]), t) \<and> ev_request e = i \<and> live_sound t \<and> live_open t \<and> same_setup u t \<and>
    step_effect (live_spec u) J0 (map_of (lv_jobs t)) (evs @ [e]) \<and>
    (\<forall>k. k \<noteq> i \<longrightarrow> map_of (lv_jobs t) k = map_of (lv_jobs u) k)"
proof -
  let ?j' = "j\<lparr>job_generated := job_generated j + 1\<rparr>"
  let ?x = "if finish_of ?j' = None then Some ?j' else None"
  have job: "map_of (lv_jobs u) i = Some j" using u by simp
  have gen: "job_generated jv < rq_max_new_tokens (job_request jv)" using v(1,4) by (simp add: live_open_def)
  have "rq_max_new_tokens (job_request jv) \<le> max_context (live_spec u)" using v(5) by (simp add: job_sound_def Let_def)
  then have "job_generated j + 1 < 2 ^ 64" using gen j(3) small_spec(1) [OF v(6)] by simp
  from live_emit_run [OF job this refl sound, of evs] obtain t where t: "live_emit i evs u = (Ok (evs @ [emitted i ?j']), t)" "live_sound t"
    "same_setup u t" "map_of (lv_jobs t) = (map_of (lv_jobs u))(i := ?x)" by blast
  then have jobs: "map_of (lv_jobs t) = (map_of (lv_jobs v))(i := ?x)" using u by simp
  have "event_ok (live_spec u) J0 ((map_of (lv_jobs v))(i := ?x)) (emitted i ?j')"
    by (rule emitted_event_ok [OF v(2,1,3)]) (use j gen in simp_all)
  then have "step_effect (live_spec u) J0 (map_of (lv_jobs t)) (evs @ [emitted i ?j'])"
    unfolding jobs by (intro effect_event [OF v(2,3)]) (simp_all add: emitted_def)
  moreover have "live_open t"
    unfolding live_open_def jobs
  proof (intro allI impI)
    fix k jk
    assume k: "((map_of (lv_jobs v))(i := ?x)) k = Some jk"
    show "job_generated jk < rq_max_new_tokens (job_request jk)"
    proof (cases "k = i")
      case True
      then have "jk = ?j'" "finish_of ?j' = None" using k by (auto split: if_splits)
      then show ?thesis using finish_open [of ?j'] gen j(1,3) by simp
    next
      case False
      then show ?thesis using k v(4) by (simp add: live_open_def)
    qed
  qed
  ultimately show ?thesis using t by (intro exI [of _ t] exI [of _ "emitted i ?j'"]) (simp add: emitted_def)
qed

lemma deliver_one:
  assumes D: "delivering J0 s (inp # inputs) (out # outs) evs"
  shows "\<exists>j t e. map_of (lv_jobs s) (out_request out) = Some j \<and>
    live_emit (out_request out) evs (set_job (out_request out) (j\<lparr>job_state := out_state out, job_next := next_token out\<rparr>) s) = (Ok (evs @ [e]), t) \<and>
    same_setup s t \<and> delivering J0 t inputs outs (evs @ [e])"
proof -
  have sound: "live_sound s" "live_open s" using D by (simp_all add: delivering_def)
  obtain j l where j: "map_of (lv_jobs s) (in_request inp) = Some j" "job_decode j = Some l" "inp = decode_entry (in_request inp) j l"
    using D by (auto simp: delivering_def decode_inputs_def)
  let ?i = "in_request inp" let ?j1 = "j\<lparr>job_state := out_state out, job_next := next_token out\<rparr>"
  let ?j2 = "?j1\<lparr>job_generated := job_generated ?j1 + 1\<rparr>" let ?u = "set_job ?i ?j1 s"
  have run: "run_request (live_spec s) (decode_entry ?i j l) = Ok out" using D j(3) by (simp add: delivering_def)
  note ds = decoded_sound [OF sound j(1,2) run]
  have u: "map_of (lv_jobs ?u) = (map_of (lv_jobs s))(?i \<mapsto> ?j1)" using j(1) by (auto simp: map_of_set_job)
  have js: "job_sound (live_spec s) ?i j" using job_soundD [OF sound(1) j(1)] .
  have fresh: "?i \<notin> ev_request ` set evs" using D by (auto simp: delivering_def)
  have "live_sound (set_job ?i ?j2 s)" by (rule set_job_sound [OF sound(1) j(1)]) (use ds(1) in auto)
  then have snd2: "live_sound (set_job ?i ?j2 ?u)" by simp
  have "\<exists>t e. live_emit ?i evs ?u = (Ok (evs @ [e]), t) \<and> ev_request e = ?i \<and> live_sound t \<and> live_open t \<and> same_setup ?u t \<and>
    step_effect (live_spec ?u) J0 (map_of (lv_jobs t)) (evs @ [e]) \<and> (\<forall>k. k \<noteq> ?i \<longrightarrow> map_of (lv_jobs t) k = map_of (lv_jobs ?u) k)"
  proof (rule emit_step [where v = s and j = ?j1, OF j(1) _ fresh sound(2)])
    show "step_effect (live_spec ?u) J0 (map_of (lv_jobs s)) evs" using D by (simp add: delivering_def)
    show "live_sound (set_job ?i (?j1\<lparr>job_generated := job_generated ?j1 + 1\<rparr>) ?u)" by (rule snd2)
    show "map_of (lv_jobs ?u) = (map_of (lv_jobs s))(?i \<mapsto> ?j1)" by (rule u)
    show "job_prefill ?j1 = None" using js j(2) by (simp add: job_sound_def Let_def)
  qed (use js j(2) ds(2) live_soundD(7) [OF sound(1)] in simp_all)
  then obtain t e where t: "live_emit ?i evs ?u = (Ok (evs @ [e]), t)" "ev_request e = ?i" "live_sound t" "live_open t" "same_setup ?u t"
    "step_effect (live_spec ?u) J0 (map_of (lv_jobs t)) (evs @ [e])" "\<forall>k. k \<noteq> ?i \<longrightarrow> map_of (lv_jobs t) k = map_of (lv_jobs ?u) k"
    by blast
  have st: "same_setup s t" using t(5) by (simp add: same_setup_def)
  have others: "map_of (lv_jobs t) k = map_of (lv_jobs s) k" if "k \<noteq> ?i" for k using t(7) u that by simp
  have parts: "?i \<notin> in_request ` set inputs" "decode_inputs s inputs" "list_all2 (\<lambda>i out. run_request (live_spec s) i = Ok out) inputs outs"
    "in_request ` set inputs \<inter> ev_request ` set evs = {}"
    using D by (auto simp: delivering_def decode_inputs_def)
  have "decode_inputs t inputs" by (rule decode_inputs_keep [OF parts(2) st]) (use parts(1) others in metis)
  moreover have "in_request ` set inputs \<inter> ev_request ` set (evs @ [e]) = {}" using parts(1,4) t(2) by simp
  ultimately have "delivering J0 t inputs outs (evs @ [e])"
    using parts(3) t(3,4,6) same_setup_spec [OF st] by (simp add: delivering_def)
  then show ?thesis using j(1) t(1) st unfolding ds(3) by blast
qed

lemma deliver_decode_run:
  "delivering J0 s inputs outs evs \<Longrightarrow>
    \<exists>evs' t. deliver_decode outs evs s = (Ok evs', t) \<and> delivering J0 t [] [] evs' \<and> same_setup s t \<and>
      set evs \<subseteq> set evs' \<and> (outs \<noteq> [] \<longrightarrow> evs' \<noteq> [])"
proof (induction outs arbitrary: inputs evs s)
  case Nil
  then show ?case by (auto simp: delivering_def)
next
  case (Cons out outs)
  then obtain inp inputs' where inputs: "inputs = inp # inputs'" by (auto simp: delivering_def list_all2_Cons2)
  obtain j t e where t: "map_of (lv_jobs s) (out_request out) = Some j"
    "live_emit (out_request out) evs (set_job (out_request out) (j\<lparr>job_state := out_state out, job_next := next_token out\<rparr>) s) = (Ok (evs @ [e]), t)"
    "same_setup s t" "delivering J0 t inputs' outs (evs @ [e])"
    using deliver_one Cons.prems inputs by blast
  from Cons.IH [OF t(4)] obtain evs' u where "deliver_decode outs (evs @ [e]) t = (Ok evs', u)" "delivering J0 u [] [] evs'"
    "same_setup t u" "set (evs @ [e]) \<subseteq> set evs'" by blast
  then show ?case using t(1-3) by (auto intro: same_setup_trans)
qed

lemma decode_ids_facts:
  assumes "bt_wf (lv_jobs s)"
  shows "distinct (decode_ids s)" "length (decode_ids s) \<le> last (batch_buckets (live_spec s))"
    "i \<in> set (decode_ids s) \<Longrightarrow> \<exists>j. map_of (lv_jobs s) i = Some j \<and> job_decode j \<noteq> None"
    "map_of (lv_jobs s) i = Some j \<Longrightarrow> job_decode j \<noteq> None \<Longrightarrow> 0 < last (batch_buckets (live_spec s)) \<Longrightarrow> decode_ids s \<noteq> []"
proof -
  let ?f = "filter (\<lambda>(i, j). job_decode j \<noteq> None) (lv_jobs s)"
  have keys: "distinct (map fst (lv_jobs s))" using bt_wf_distinct [OF assms] .
  then show "distinct (decode_ids s)" unfolding decode_ids_def by (intro distinct_take distinct_map_filter)
  show "length (decode_ids s) \<le> last (batch_buckets (live_spec s))" by (simp add: decode_ids_def)
  show "\<exists>j. map_of (lv_jobs s) i = Some j \<and> job_decode j \<noteq> None" if "i \<in> set (decode_ids s)"
    using that keys by (fastforce simp: decode_ids_def map_of_eq_Some_iff dest!: in_set_takeD)
  assume "map_of (lv_jobs s) i = Some j" "job_decode j \<noteq> None" "0 < last (batch_buckets (live_spec s))"
  then have "(i, j) \<in> set ?f" "0 < last (batch_buckets (live_spec s))" by (auto dest: map_of_SomeD)
  then have "?f \<noteq> []" "0 < last (batch_buckets (live_spec s))" by (metis empty_iff list.set(1))+
  then show "decode_ids s \<noteq> []" unfolding decode_ids_def by (simp only: take_eq_Nil map_is_Nil_conv) simp
qed

lemma decode_phase_run:
  assumes sound: "live_sound s" and opn: "live_open s"
  shows "\<exists>evs t. decode_phase s = (Ok evs, t) \<and> live_sound t \<and> live_open t \<and> same_setup s t \<and>
    step_effect (live_spec s) (map_of (lv_jobs s)) (map_of (lv_jobs t)) evs \<and>
    (if decode_ids s = [] then t = s \<and> evs = [] else evs \<noteq> [])"
proof -
  note ids = decode_ids_facts [of s]
  have wf: "bt_wf (lv_jobs s)" using live_soundD(4) [OF sound] by (simp add: jobs_sound_def)
  have "admitting (map_of (lv_jobs s)) s (decode_ids s) [] []"
    using sound opn ids [OF wf] effect_refl by (auto simp: admitting_def decode_inputs_def)
  from admit_decode_run [OF this] obtain inputs evs t where
    t: "admit_decode (decode_ids s) [] [] s = (Ok (inputs, evs), t)" "admitting (map_of (lv_jobs s)) t [] inputs evs" "same_setup s t"
      "length inputs \<le> length (decode_ids s)" "decode_ids s = [] \<or> inputs \<noteq> [] \<or> evs \<noteq> []" by auto
  note spec = same_setup_spec [OF t(3)]
  have T: "live_sound t" "live_open t" "decode_inputs t inputs"
    "step_effect (live_spec s) (map_of (lv_jobs s)) (map_of (lv_jobs t)) evs" "in_request ` set inputs \<inter> ev_request ` set evs = {}"
    using t(2) spec by (simp_all add: admitting_def)
  show ?thesis
  proof (cases "inputs = []")
    case True
    have "decode_phase s = (Ok evs, t)" using t(1) True by (simp add: decode_phase_def)
    moreover have "t = s \<and> evs = []" if "decode_ids s = []" using t(1) that by simp
    ultimately show ?thesis using T t(3,5) True by auto
  next
    case False
    have "decode_batch (live_spec t) inputs"
      using decode_inputs_batch [OF T(1-3) False] t(4) ids(2) [OF wf] spec by simp
    then obtain outs ws where g: "group_step mock_backend inputs (lv_decode t) = (Ok outs, ws)"
      "collect (run_request (live_spec t)) inputs = Ok outs" "ws \<noteq> []" "decode_ranks.all_ready (live_spec t) ws"
      using decode_ranks.group_serves [of "lv_decode t" "live_spec t" inputs] live_soundD(1) [OF T(1)] by (auto simp: workers_sound_def)
    let ?u = "t\<lparr>lv_decode := ws\<rparr>"
    have "live_sound ?u" using T(1) g(3,4)
      by (simp add: live_sound_def workers_sound_def pools_sound_def leases_match_def jobs_sound_def queue_sound_def epochs_sound_def)
    moreover have "list_all2 (\<lambda>i out. run_request (live_spec t) i = Ok out) inputs outs"
      using g(2) by (simp add: collect_Ok_iff list_all2_conv_all_nth)
    moreover have "decode_inputs ?u inputs" using T(3) by (simp add: decode_inputs_def)
    ultimately have "delivering (map_of (lv_jobs s)) ?u inputs outs evs" using T spec by (simp add: delivering_def live_open_def)
    from deliver_decode_run [OF this] obtain evs' u where
      u: "deliver_decode outs evs ?u = (Ok evs', u)" "delivering (map_of (lv_jobs s)) u [] [] evs'" "same_setup ?u u" "outs \<noteq> [] \<longrightarrow> evs' \<noteq> []"
      by blast
    have su: "same_setup s u" using t(3) u(3) by (simp add: same_setup_def)
    have "outs \<noteq> []" using g(2) False collect_length by force
    moreover have "decode_phase s = (Ok evs', u)" using t(1) False g(1) u(1) by (simp add: decode_phase_def bind_op_def on_decode_def)
    moreover have "decode_ids s \<noteq> []" using t(4) False by auto
    ultimately show ?thesis using u(2,4) su same_setup_spec [OF su] by (auto simp: delivering_def)
  qed
qed


section \<open>The prefill phase\<close>

text \<open>The chunks gathered so far.\<close>

definition prefill_inputs :: "live_scheduler \<Rightarrow> step_input list \<Rightarrow> bool" where
  "prefill_inputs s inputs \<longleftrightarrow> distinct (map in_request inputs) \<and>
     (\<forall>inp \<in> set inputs. \<exists>j l chunk. map_of (lv_jobs s) (in_request inp) = Some j \<and> job_prefill j = Some l \<and>
        inp = prefill_entry (in_request inp) j l chunk \<and> 0 < chunk \<and>
        consumed (job_state j) + chunk \<le> length (rq_prompt (job_request j)))"

definition unfed :: "live_scheduler \<Rightarrow> nat \<Rightarrow> bool" where
  "unfed s i \<longleftrightarrow> (\<exists>j. map_of (lv_jobs s) i = Some j \<and> job_prefill j \<noteq> None \<and>
     consumed (job_state j) < length (rq_prompt (job_request j)))"

lemma gather_run:
  assumes "lv_queue s = todo @ fin" and "distinct todo" and "set todo \<inter> in_request ` set inputs = {}" and "prefill_inputs s inputs"
    and "\<forall>i \<in> set todo. \<exists>j. map_of (lv_jobs s) i = Some j \<and> job_prefill j \<noteq> None \<and>
      consumed (job_state j) \<le> length (rq_prompt (job_request j))"
  shows "\<exists>inputs' q. gather_prefill (length todo) budget inputs s = (Ok inputs', s\<lparr>lv_queue := q\<rparr>) \<and>
    mset q = mset (lv_queue s) \<and> prefill_inputs s inputs' \<and>
    (inputs' = [] \<longrightarrow> inputs = [] \<and> (budget = 0 \<or> (\<forall>i \<in> set todo. \<not> unfed s i)))"
  using assms
proof (induction todo arbitrary: fin inputs budget s)
  case Nil
  show ?case by (intro exI [of _ inputs] exI [of _ "lv_queue s"]) (use Nil in simp)
next
  case (Cons i todo)
  show ?case
  proof (cases "budget = 0")
    case True
    show ?thesis by (intro exI [of _ inputs] exI [of _ "lv_queue s"]) (use True Cons.prems(4) in simp)
  next
    case False
    obtain j l where j: "map_of (lv_jobs s) i = Some j" "job_prefill j = Some l"
      "consumed (job_state j) \<le> length (rq_prompt (job_request j))" using Cons.prems(5) by auto
    define chunk where "chunk = min (length (rq_prompt (job_request j)) - consumed (job_state j)) budget"
    define inputs1 where "inputs1 = (if 0 < chunk then inputs @ [prefill_entry i j l chunk] else inputs)"
    let ?s = "s\<lparr>lv_queue := todo @ (fin @ [i])\<rparr>"
    have run: "gather_prefill (length (i # todo)) budget inputs s = gather_prefill (length todo) (budget - chunk) inputs1 ?s"
      using False Cons.prems(1) j by (auto simp: Let_def not_less chunk_def inputs1_def)
    have le: "consumed (job_state j) + chunk \<le> length (rq_prompt (job_request j))" using j(3) by (simp add: chunk_def)
    have "prefill_inputs ?s inputs1"
    proof (cases "0 < chunk")
      case True
      have "i \<notin> in_request ` set inputs" using Cons.prems(3) by auto
      then show ?thesis using True Cons.prems(4) j(1,2) le by (auto simp: prefill_inputs_def prefill_entry_def inputs1_def)
    next
      case False
      then show ?thesis using Cons.prems(4) by (simp add: prefill_inputs_def inputs1_def)
    qed
    moreover have "set todo \<inter> in_request ` set inputs1 = {}" using Cons.prems(2,3) by (auto simp: prefill_entry_def inputs1_def)
    moreover have "distinct todo" "lv_queue ?s = todo @ (fin @ [i])" using Cons.prems(2) by simp_all
    moreover have "\<forall>i \<in> set todo. \<exists>j. map_of (lv_jobs ?s) i = Some j \<and> job_prefill j \<noteq> None \<and>
      consumed (job_state j) \<le> length (rq_prompt (job_request j))" using Cons.prems(5) by simp
    ultimately obtain inputs' q where q:
      "gather_prefill (length todo) (budget - chunk) inputs1 ?s = (Ok inputs', ?s\<lparr>lv_queue := q\<rparr>)"
      "mset q = mset (lv_queue ?s)" "prefill_inputs ?s inputs'"
      "inputs' = [] \<longrightarrow> inputs1 = [] \<and> (budget - chunk = 0 \<or> (\<forall>i \<in> set todo. \<not> unfed ?s i))"
      using Cons.IH [of ?s "fin @ [i]" inputs1 "budget - chunk"] by blast
    have same: "unfed ?s = unfed s" by (simp add: unfed_def fun_eq_iff)
    have "inputs = [] \<and> (budget = 0 \<or> (\<forall>i \<in> set (i # todo). \<not> unfed s i))" if "inputs' = []"
    proof -
      have e: "inputs1 = []" "budget - chunk = 0 \<or> (\<forall>i \<in> set todo. \<not> unfed s i)" using q(4) that same by auto
      then have c: "inputs = []" "chunk = 0" by (auto simp: inputs1_def split: if_splits)
      then have "\<not> unfed s i" "budget - chunk \<noteq> 0" using False j(1) by (auto simp: unfed_def chunk_def)
      moreover have "inputs = []" by (rule c(1))
      ultimately show ?thesis using e(2) by auto
    qed
    moreover have "prefill_inputs s inputs'" using q(3) by (simp add: prefill_inputs_def)
    moreover have "mset q = mset (lv_queue s)" using q(2) Cons.prems(1) by simp
    moreover have "?s\<lparr>lv_queue := q\<rparr> = s\<lparr>lv_queue := q\<rparr>" by simp
    ultimately show ?thesis unfolding run q(1) by blast
  qed
qed

lemma queue_permuted:
  assumes sound: "live_sound s" and q: "mset q = mset (lv_queue s)"
  shows "live_sound (s\<lparr>lv_queue := q\<rparr>)"
proof -
  have "queue_sound (s\<lparr>lv_queue := q\<rparr>)"
    using live_soundD(5) [OF sound] mset_eq_setD [OF q] mset_eq_imp_distinct_iff [OF q] by (simp add: queue_sound_def)
  then show ?thesis using sound
    by (simp add: live_sound_def workers_sound_def pools_sound_def leases_match_def jobs_sound_def epochs_sound_def)
qed

lemma prefill_job:
  assumes sound: "live_sound s" and job: "map_of (lv_jobs s) i = Some j" and p: "job_prefill j = Some l"
  shows "consumed (job_state j) \<le> length (rq_prompt (job_request j))" "state_ok (live_spec s) (job_state j)"
    "at_history (live_spec s) (take (consumed (job_state j)) (rq_prompt (job_request j))) (job_state j)"
    "length (rq_prompt (job_request j)) \<le> max_context (live_spec s)" "job_decode j = None" "job_generated j = 0"
    "div_ceil (length (rq_prompt (job_request j))) (spec_page_tokens (live_spec s)) \<le> length (tl_pages l)"
    "\<forall>t \<in> set (rq_prompt (job_request j)). t < vocab (spec_model (live_spec s))"
proof -
  note js = job_soundD [OF sound job]
  show le: "consumed (job_state j) \<le> length (rq_prompt (job_request j))" using js p by (simp add: job_sound_def Let_def)
  show max: "length (rq_prompt (job_request j)) \<le> max_context (live_spec s)" using js by (simp add: job_sound_def Let_def)
  show at: "at_history (live_spec s) (take (consumed (job_state j)) (rq_prompt (job_request j))) (job_state j)"
    using js p by (simp add: job_sound_def Let_def job_history_def)
  show "state_ok (live_spec s) (job_state j)"
    by (rule at_history_facts [OF live_soundD(7) [OF sound] at]) (use max in simp)
qed (use job_soundD [OF sound job] p in \<open>simp_all add: job_sound_def Let_def\<close>)

lemma prefill_inputs_batch:
  assumes sound: "live_sound s" and inputs: "prefill_inputs s inputs" "inputs \<noteq> []"
  shows "prefill_batch (live_spec s) inputs"
proof -
  have entry: "\<exists>j l chunk. map_of (lv_jobs s) (in_request inp) = Some j \<and> job_prefill j = Some l \<and>
      inp = prefill_entry (in_request inp) j l chunk \<and> 0 < chunk \<and> consumed (job_state j) + chunk \<le> length (rq_prompt (job_request j))"
    if "inp \<in> set inputs" for inp using inputs(1) that by (simp add: prefill_inputs_def)
  have "prefill_input (live_spec s) inp" if inp: "inp \<in> set inputs" for inp
  proof -
    obtain j l chunk where j: "map_of (lv_jobs s) (in_request inp) = Some j" "job_prefill j = Some l"
      "inp = prefill_entry (in_request inp) j l chunk" "0 < chunk" "consumed (job_state j) + chunk \<le> length (rq_prompt (job_request j))"
      using entry [OF inp] by blast
    note f = prefill_job [OF sound j(1,2)]
    let ?toks = "take chunk (drop (consumed (job_state j)) (rq_prompt (job_request j)))"
    have len: "length ?toks = chunk" using j(5) by simp
    have "div_ceil (consumed (job_state j) + chunk) (spec_page_tokens (live_spec s)) \<le> length (tl_pages l)"
      using f(7) div_ceil_mono [OF _ j(5), of "spec_page_tokens (live_spec s)"] spec_ok_pos(2) [OF live_soundD(7) [OF sound]] by simp
    moreover have "set ?toks \<subseteq> set (rq_prompt (job_request j))" by (meson order_trans set_drop_subset set_take_subset)
    ultimately have "prefill_input (live_spec s) (prefill_entry (in_request inp) j l chunk)"
      using f(2,4,8) j(4,5) len unfolding prefill_input_def prefill_entry_def lease_binding_def by (auto simp: subset_iff)
    then show ?thesis using j(3) by simp
  qed
  moreover have "disjoint_bindings inputs"
  proof -
    let ?f = "\<lambda>i. the (map_of (rp_active (lv_p_pool s)) i)"
    let ?ids = "map in_request inputs"
    have active: "map_of (rp_active (lv_p_pool s)) (in_request inp) = Some (?f (in_request inp)) \<and>
        in_binding inp = lease_binding (?f (in_request inp))" if inp: "inp \<in> set inputs" for inp
    proof -
      obtain j l chunk where j: "map_of (lv_jobs s) (in_request inp) = Some j" "job_prefill j = Some l"
        "inp = prefill_entry (in_request inp) j l chunk" using entry [OF inp] by blast
      have "in_binding (prefill_entry (in_request inp) j l chunk) = lease_binding l" by (simp add: prefill_entry_def)
      then show ?thesis using lease_of_job(1) [OF sound j(1,2)] j(3) by simp
    qed
    have pool: "pool_sound (cap_pages (lv_capacity s)) (cap_slots (lv_capacity s)) (lv_p_pool s)"
      using live_soundD(2) [OF sound] by (simp add: pools_sound_def)
    have ids: "distinct ?ids" "\<forall>i \<in> set ?ids. map_of (rp_active (lv_p_pool s)) i = Some (?f i)"
      using inputs(1) active by (auto simp: prefill_inputs_def)
    have binds: "map (\<lambda>i. sb_slot (in_binding i)) inputs = map (\<lambda>i. tl_slot (?f i)) ?ids"
      "map (\<lambda>i. sb_pages (in_binding i)) inputs = map (\<lambda>i. tl_pages (?f i)) ?ids"
      using active by (simp_all add: lease_binding_def)
    show ?thesis unfolding disjoint_bindings_def binds by (intro conjI active_disjoint [OF pool ids])
  qed
  ultimately show ?thesis using inputs(2) by (simp add: prefill_batch_def)
qed

text \<open>A job after one more chunk of its prompt.\<close>

lemma fed_sound:
  assumes sound: "live_sound s" and job: "map_of (lv_jobs s) i = Some j" and p: "job_prefill j = Some l"
    and chunk: "0 < chunk" "consumed (job_state j) + chunk \<le> length (rq_prompt (job_request j))"
    and run: "run_request (live_spec s) (prefill_entry i j l chunk) = Ok out"
  shows "job_sound (live_spec s) i (j\<lparr>job_state := out_state out, job_next := next_token out\<rparr>)"
    "consumed (out_state out) = consumed (job_state j) + chunk" "out_request out = i"
proof -
  let ?sp = "live_spec s" let ?p = "rq_prompt (job_request j)" let ?c = "consumed (job_state j)"
  note f = prefill_job [OF sound job p]
  have hist: "take ?c ?p @ in_tokens (prefill_entry i j l chunk) = take (?c + chunk) ?p"
    by (simp add: prefill_entry_def take_add)
  have room: "length (take ?c ?p @ in_tokens (prefill_entry i j l chunk)) \<le> max_context ?sp" using hist f(4) by simp
  have "at_history ?sp (take ?c ?p) (in_state (prefill_entry i j l chunk))" using f(3) by (simp add: prefill_entry_def)
  from run_extends [OF live_soundD(7) [OF sound] this run room] have ext: "at_history ?sp (take (?c + chunk) ?p) (out_state out)"
    "next_token out = next_ref ?sp (take (?c + chunk) ?p)" "out_request out = i"
    using hist by (simp_all add: prefill_entry_def)
  have "length (take (?c + chunk) ?p) \<le> max_context ?sp" using f(4) by simp
  from at_history_facts(2) [OF live_soundD(7) [OF sound] ext(1) this]
  show c: "consumed (out_state out) = ?c + chunk" using chunk(2) by simp
  show "out_request out = i" by (rule ext(3))
  show "job_sound ?sp i (j\<lparr>job_state := out_state out, job_next := next_token out\<rparr>)"
    using job_soundD [OF sound job] p ext(1,2) c chunk(2) f(5) by (auto simp: job_sound_def Let_def job_history_def)
qed

text \<open>No event, only progress.\<close>

definition progressed :: "(nat \<rightharpoonup> job) \<Rightarrow> (nat \<rightharpoonup> job) \<Rightarrow> bool" where
  "progressed J K \<longleftrightarrow> (\<forall>i. rel_option same_progress (J i) (K i))"

lemma progressed_refl [simp]: "progressed J J"
  by (simp add: progressed_def option.rel_refl)

lemma progressed_update:
  assumes "progressed J K" and "K i = Some j" and "same_progress j j'"
  shows "progressed J (K(i \<mapsto> j'))"
proof -
  have "rel_option same_progress (J i) (Some j)" using assms(1,2) unfolding progressed_def by metis
  then have "rel_option same_progress (J i) (Some j')" using assms(3) by (auto elim!: option.rel_cases intro: same_progress_trans)
  then show ?thesis using assms(1) by (simp add: progressed_def)
qed

lemma event_ok_progressed:
  assumes "event_ok sp J0 J e" and "progressed J K"
  shows "event_ok sp J0 K e"
proof -
  have rel: "rel_option same_progress (J (ev_request e)) (K (ev_request e))" using assms(2) by (simp add: progressed_def)
  obtain j0 where j0: "J0 (ev_request e) = Some j0" "case ev_token e of
        Some tok \<Rightarrow> token_event_ok sp j0 (J (ev_request e)) tok (ev_finish e)
      | None \<Rightarrow> ev_finish e = Some (FinError ''KV growth'') \<and> J (ev_request e) = None \<and> job_decode j0 \<noteq> None"
    using assms(1) by (auto simp: event_ok_def)
  show ?thesis
  proof (cases "ev_token e")
    case None
    then show ?thesis using j0 rel by (simp add: event_ok_def)
  next
    case (Some tok)
    have "token_event_ok sp j0 (K (ev_request e)) tok (ev_finish e)"
    proof (cases "ev_finish e")
      case None
      then have tok: "token_event_ok sp j0 (J (ev_request e)) tok None" using j0(2) Some by simp
      then obtain j where j: "J (ev_request e) = Some j" "job_request j = job_request j0" "job_stop j = job_stop j0"
        "job_generated j = job_generated j0 + 1" "job_decode j \<noteq> None" "job_work j < job_work j0" by (auto simp: token_event_ok_def)
      then obtain k where k: "K (ev_request e) = Some k" "same_progress j k" using rel by (auto elim: option.rel_cases)
      then have "job_request k = job_request j0 \<and> job_stop k = job_stop j0 \<and> job_generated k = job_generated j0 + 1 \<and>
          job_decode k \<noteq> None \<and> job_work k < job_work j0" using j by (simp add: same_progress_def)
      then show ?thesis using tok k(1) None by (auto simp: token_event_ok_def split: if_splits)
    next
      case (Some f)
      then show ?thesis using j0(2) \<open>ev_token e = Some tok\<close> rel by (auto simp: token_event_ok_def split: if_splits)
    qed
    then show ?thesis using j0(1) Some by (simp add: event_ok_def)
  qed
qed

lemma effect_progressed:
  assumes eff: "step_effect sp J0 J evs" and K: "progressed J K"
  shows "step_effect sp J0 K evs"
proof -
  have "rel_option same_progress (J0 i) (K i)" if "i \<notin> ev_request ` set evs" for i
  proof -
    have "rel_option same_progress (J0 i) (J i)" "rel_option same_progress (J i) (K i)"
      using eff K that by (simp_all add: step_effect_def progressed_def)
    then show ?thesis by (auto elim!: option.rel_cases intro: same_progress_trans)
  qed
  then show ?thesis using eff event_ok_progressed [OF _ K] by (simp add: step_effect_def)
qed

text \<open>The outputs of the prefill batch.\<close>

definition feeding :: "(nat \<rightharpoonup> job) \<Rightarrow> live_scheduler \<Rightarrow> step_input list \<Rightarrow> step_output list \<Rightarrow> bool" where
  "feeding J0 s inputs outs \<longleftrightarrow> live_sound s \<and> live_open s \<and> prefill_inputs s inputs \<and>
     list_all2 (\<lambda>i out. run_request (live_spec s) i = Ok out) inputs outs \<and> progressed J0 (map_of (lv_jobs s))"

lemma prefill_inputs_keep:
  assumes "prefill_inputs s inputs" and "\<And>k. k \<in> in_request ` set inputs \<Longrightarrow> map_of (lv_jobs t) k = map_of (lv_jobs s) k"
  shows "prefill_inputs t inputs"
  using assms by (simp add: prefill_inputs_def)

lemma feed_one:
  assumes F: "feeding J0 s (inp # inputs) (out # outs)"
  shows "\<exists>j t. map_of (lv_jobs s) (out_request out) = Some j \<and>
    t = set_job (out_request out) (j\<lparr>job_state := out_state out, job_next := next_token out\<rparr>) s \<and>
    same_setup s t \<and> feeding J0 t inputs outs \<and> progressed (map_of (lv_jobs s)) (map_of (lv_jobs t)) \<and>
    work_at (map_of (lv_jobs t)) (in_request inp) < work_at (map_of (lv_jobs s)) (in_request inp)"
proof -
  have sound: "live_sound s" "live_open s" using F by (simp_all add: feeding_def)
  have parts: "in_request inp \<notin> in_request ` set inputs" "prefill_inputs s inputs" "progressed J0 (map_of (lv_jobs s))"
    "list_all2 (\<lambda>i out. run_request (live_spec s) i = Ok out) inputs outs" "run_request (live_spec s) inp = Ok out"
    using F by (auto simp: feeding_def prefill_inputs_def)
  obtain j l chunk where j: "map_of (lv_jobs s) (in_request inp) = Some j" "job_prefill j = Some l"
    "inp = prefill_entry (in_request inp) j l chunk" "0 < chunk" "consumed (job_state j) + chunk \<le> length (rq_prompt (job_request j))"
    using F by (auto simp: feeding_def prefill_inputs_def)
  let ?i = "in_request inp" let ?j = "j\<lparr>job_state := out_state out, job_next := next_token out\<rparr>" let ?t = "set_job ?i ?j s"
  have "run_request (live_spec s) (prefill_entry ?i j l chunk) = Ok out" using parts(5) j(3) by simp
  note fs = fed_sound [OF sound(1) j(1,2,4,5) this]
  have t: "map_of (lv_jobs ?t) = (map_of (lv_jobs s))(?i \<mapsto> ?j)" using j(1) by (auto simp: map_of_set_job)
  have less: "job_work ?j < job_work j" using j(2,4,5) fs(2) by (simp add: job_work_def)
  then have same: "same_progress j ?j" by (simp add: same_progress_def)
  have "live_sound ?t" by (rule set_job_sound [OF sound(1) j(1) fs(1)]) simp_all
  moreover have "live_open ?t" using sound(2) j(1) by (auto simp: live_open_def t)
  moreover have "prefill_inputs ?t inputs" by (rule prefill_inputs_keep [OF parts(2)]) (use parts(1) t in \<open>metis fun_upd_other\<close>)
  moreover have "progressed J0 (map_of (lv_jobs ?t))" unfolding t by (rule progressed_update [where j = j]) (use parts(3) j(1) same in simp_all)
  ultimately have "feeding J0 ?t inputs outs" using parts(4) by (simp add: feeding_def)
  moreover have "progressed (map_of (lv_jobs s)) (map_of (lv_jobs ?t))"
    unfolding t by (rule progressed_update [where j = j]) (use j(1) same in simp_all)
  moreover have "work_at (map_of (lv_jobs ?t)) ?i < work_at (map_of (lv_jobs s)) ?i" using t j(1) less by (simp add: work_at_def)
  moreover have "same_setup s ?t" by (simp add: same_setup_def)
  ultimately show ?thesis unfolding fs(3) using j(1) by blast
qed

lemma progressed_work: "progressed J K \<Longrightarrow> work_at K i \<le> work_at J i"
proof -
  assume "progressed J K"
  then have "rel_option same_progress (J i) (K i)" by (simp add: progressed_def)
  then show ?thesis by (auto simp: work_at_def same_progress_def elim!: option.rel_cases)
qed

lemma deliver_prefill_run:
  "feeding J0 s inputs outs \<Longrightarrow>
    \<exists>t. deliver_prefill outs s = (Ok (), t) \<and> feeding J0 t [] [] \<and> same_setup s t \<and>
      progressed (map_of (lv_jobs s)) (map_of (lv_jobs t)) \<and>
      (inputs \<noteq> [] \<longrightarrow> (\<exists>i. work_at (map_of (lv_jobs t)) i < work_at (map_of (lv_jobs s)) i))"
proof (induction outs arbitrary: inputs s)
  case Nil
  then show ?case by (auto simp: feeding_def)
next
  case (Cons out outs)
  then obtain inp inputs' where inputs: "inputs = inp # inputs'" by (auto simp: feeding_def list_all2_Cons2)
  obtain j t where t: "map_of (lv_jobs s) (out_request out) = Some j"
    "t = set_job (out_request out) (j\<lparr>job_state := out_state out, job_next := next_token out\<rparr>) s"
    "same_setup s t" "feeding J0 t inputs' outs" "progressed (map_of (lv_jobs s)) (map_of (lv_jobs t))"
    "work_at (map_of (lv_jobs t)) (in_request inp) < work_at (map_of (lv_jobs s)) (in_request inp)"
    using feed_one Cons.prems inputs by blast
  from Cons.IH [OF t(4)] obtain u where u: "deliver_prefill outs t = (Ok (), u)" "feeding J0 u [] []" "same_setup t u"
    "progressed (map_of (lv_jobs t)) (map_of (lv_jobs u))" by blast
  have "work_at (map_of (lv_jobs u)) (in_request inp) < work_at (map_of (lv_jobs s)) (in_request inp)"
    using progressed_work [OF u(4)] t(6) le_less_trans by blast
  moreover have "step_effect (live_spec s) (map_of (lv_jobs s)) (map_of (lv_jobs t)) []"
    using t(5) by (simp add: step_effect_def progressed_def)
  then have "progressed (map_of (lv_jobs s)) (map_of (lv_jobs u))"
    using effect_progressed [OF _ u(4)] by (fastforce simp: step_effect_def progressed_def)
  moreover have "deliver_prefill (out # outs) s = (Ok (), u)" using t(1,2) u(1) by simp
  ultimately show ?case using u(2) same_setup_trans [OF t(3) u(3)] by blast
qed

lemma unfed_queued:
  assumes "live_sound s" and "unfed s i"
  shows "i \<in> set (lv_queue s)"
  using assms live_soundD(5) [OF assms(1)] by (auto simp: queue_sound_def unfed_def)

lemma prefill_phase_run:
  assumes sound: "live_sound s" and opn: "live_open s" and budget: "0 < spec_token_budget (live_spec s)"
  shows "\<exists>t. prefill_phase s = (Ok (), t) \<and> live_sound t \<and> live_open t \<and> same_setup s t \<and>
    progressed (map_of (lv_jobs s)) (map_of (lv_jobs t)) \<and>
    ((\<exists>i. unfed s i) \<longrightarrow> (\<exists>i. work_at (map_of (lv_jobs t)) i < work_at (map_of (lv_jobs s)) i))"
proof -
  have Q: "distinct (lv_queue s)" "set (lv_queue s) = {i. \<exists>j. map_of (lv_jobs s) i = Some j \<and> job_prefill j \<noteq> None}"
    using live_soundD(5) [OF sound] by (simp_all add: queue_sound_def)
  have queued: "\<forall>i \<in> set (lv_queue s). \<exists>j. map_of (lv_jobs s) i = Some j \<and> job_prefill j \<noteq> None \<and>
      consumed (job_state j) \<le> length (rq_prompt (job_request j))"
  proof
    fix i assume "i \<in> set (lv_queue s)"
    then obtain j l where "map_of (lv_jobs s) i = Some j" "job_prefill j = Some l" using Q(2) by auto
    then show "\<exists>j. map_of (lv_jobs s) i = Some j \<and> job_prefill j \<noteq> None \<and> consumed (job_state j) \<le> length (rq_prompt (job_request j))"
      using prefill_job(1) [OF sound] by auto
  qed
  have start: "lv_queue s = lv_queue s @ []" "set (lv_queue s) \<inter> in_request ` set [] = {}" "prefill_inputs s []"
    by (simp_all add: prefill_inputs_def)
  obtain inputs q where g: "gather_prefill (length (lv_queue s)) (spec_token_budget (live_spec s)) [] s = (Ok inputs, s\<lparr>lv_queue := q\<rparr>)"
    "mset q = mset (lv_queue s)" "prefill_inputs s inputs" "inputs = [] \<longrightarrow> (\<forall>i \<in> set (lv_queue s). \<not> unfed s i)"
    using gather_run [OF start(1) Q(1) start(2,3) queued, of "spec_token_budget (live_spec s)"] budget by auto
  let ?t = "s\<lparr>lv_queue := q\<rparr>"
  have t: "live_sound ?t" "live_open ?t" "same_setup s ?t" using queue_permuted [OF sound g(2)] opn
    by (simp_all add: live_open_def same_setup_def)
  show ?thesis
  proof (cases "inputs = []")
    case True
    then have "prefill_phase s = (Ok (), ?t)" using g(1) by (simp add: prefill_phase_def)
    moreover have "\<not> unfed s i" for i using g(4) True unfed_queued [OF sound] by blast
    ultimately show ?thesis using t by (intro exI [of _ ?t]) simp
  next
    case False
    have "prefill_inputs ?t inputs" using g(3) by (simp add: prefill_inputs_def)
    then have "prefill_batch (live_spec ?t) inputs" by (rule prefill_inputs_batch [OF t(1) _ False])
    then obtain outs ws where w: "group_step mock_backend inputs (lv_prefill s) = (Ok outs, ws)"
      "collect (run_request (live_spec s)) inputs = Ok outs" "ws \<noteq> []" "prefill_ranks.all_ready (live_spec s) ws"
      using prefill_ranks.group_serves [of "lv_prefill s" "live_spec s" inputs] live_soundD(1) [OF sound] by (auto simp: workers_sound_def)
    let ?u = "?t\<lparr>lv_prefill := ws\<rparr>"
    have "live_sound ?u" using t(1) w(3,4)
      by (simp add: live_sound_def workers_sound_def pools_sound_def leases_match_def jobs_sound_def queue_sound_def epochs_sound_def)
    moreover have "list_all2 (\<lambda>i out. run_request (live_spec s) i = Ok out) inputs outs"
      using w(2) by (simp add: collect_Ok_iff list_all2_conv_all_nth)
    ultimately have "feeding (map_of (lv_jobs s)) ?u inputs outs"
      using g(3) t(2) by (simp add: feeding_def prefill_inputs_def live_open_def)
    from deliver_prefill_run [OF this] obtain u where u: "deliver_prefill outs ?u = (Ok (), u)" "feeding (map_of (lv_jobs s)) u [] []"
      "same_setup ?u u" "inputs \<noteq> [] \<longrightarrow> (\<exists>i. work_at (map_of (lv_jobs u)) i < work_at (map_of (lv_jobs ?u)) i)" by blast
    have "prefill_phase s = (Ok (), u)" using g(1) False w(1) u(1) by (simp add: prefill_phase_def bind_op_def on_prefill_def)
    moreover have "same_setup s u" using u(3) by (simp add: same_setup_def)
    ultimately show ?thesis using u(2,4) False by (auto simp: feeding_def)
  qed
qed

end
