(* ===== verification/Live_Turn.thy ===== *)
theory Live_Turn
  imports Live_Phases
begin

text \<open>
  The handover of finished prompts and the whole step: on every state that satisfies the invariant a
  step succeeds, its events account for what happened to the jobs, and unless the scheduler is idle
  the work left decreases.
\<close>

section \<open>Handover\<close>

lemma div_ceil_bound: "div_ceil n d * d < n + d \<or> d = 0"
proof (cases "d = 0")
  case False
  have "n div d * d \<le> n" by simp
  moreover have "(n div d + 1) * d < n + d" if "n mod d \<noteq> 0"
  proof -
    have "(n div d + 1) * d = n div d * d + d" "n div d * d + n mod d = n" by (simp_all only: add_mult_distrib mult_1 div_mult_mod_eq)
    then show ?thesis using that by linarith
  qed
  ultimately show ?thesis using False by (auto simp: div_ceil_def)
qed simp

text \<open>What the decode pool makes of a reservation.\<close>

lemma reserve_room:
  assumes sound: "live_sound s" and job: "map_of (lv_jobs s) i = Some j" and p: "job_prefill j = Some p"
  shows "if div_ceil n (spec_page_tokens (live_spec s)) \<le> length (rp_free_pages (tr_pool (lv_transport s))) \<and>
      rp_free_slots (tr_pool (lv_transport s)) \<noteq> []
    then \<exists>l t. transport_reserve i e n (lv_transport s) = (Ok l, t)
    else transport_reserve i e n (lv_transport s) = (Err (Capacity ''pages/slots''), lv_transport s)"
proof -
  note D = live_soundD [OF sound]
  let ?q = "tr_pool (lv_transport s)"
  have Q: "rp_page_tokens ?q \<noteq> 0" "rp_page_tokens ?q = spec_page_tokens (live_spec s)" "rp_retired ?q = []"
    using D(2) by (auto simp: pools_sound_def transport_sound_def pool_sound_def)
  have none: "map_of (rp_active ?q) i = None" using D(3) job prefill_job(5) [OF sound job p] by (simp add: leases_match_def)
  have "map_of (rp_active (lv_p_pool s)) i = Some p" using lease_of_job(1) [OF sound job p] by simp
  then have "rp_active (lv_p_pool s) \<noteq> []" by auto
  then have gen: "rp_generation ?q + 1 < 2 ^ 64" using D(6) by (cases "rp_active (lv_p_pool s)") (auto simp: epochs_sound_def)
  from pool_reserve_run [OF Q(1) none Q(3) gen, where e = e and n = n] Q(2) show ?thesis
    by (auto simp: transport_reserve_def bind_op_def on_pool_def split: if_splits)
qed

text \<open>The state in which a handed-over job emits its first token.\<close>

definition handed :: "live_scheduler \<Rightarrow> nat \<Rightarrow> job \<Rightarrow> transfer_lease \<Rightarrow> resource_pool \<Rightarrow> transport \<Rightarrow> live_scheduler" where
  "handed s i j l p t = s\<lparr>lv_transport := t, lv_jobs := bt_adjust i (\<lambda>_. j\<lparr>job_decode := Some l, job_prefill := None\<rparr>) (lv_jobs s),
     lv_p_pool := p, lv_queue := filter (\<lambda>k. k \<noteq> i) (lv_queue s)\<rparr>"

lemma handed_sound:
  assumes sound: "live_sound s" and opn: "live_open s" and job: "map_of (lv_jobs s) i = Some j" and p: "job_prefill j = Some p"
    and fed: "consumed (job_state j) = length (rq_prompt (job_request j))"
    and q: "pool_sound (cap_pages (lv_capacity s)) (cap_slots (lv_capacity s)) q" "rp_retired q = []"
      "rp_active q = bt_remove i (rp_active (lv_p_pool s))" "rp_generation q = rp_generation (lv_p_pool s)"
      "rp_page_tokens q = rp_page_tokens (lv_p_pool s)"
    and t: "transport_sound (cap_pages (lv_capacity s)) (cap_slots (lv_capacity s)) t" "rp_retired (tr_pool t) = []"
      "map_of (rp_active (tr_pool t)) = (map_of (rp_active (tr_pool (lv_transport s))))(i \<mapsto> l)"
      "rp_generation (tr_pool t) = rp_generation (tr_pool (lv_transport s)) + 1"
      "rp_page_tokens (tr_pool t) = rp_page_tokens (tr_pool (lv_transport s))" "tr_spec t = live_spec s" "tr_key t = art_key (lv_artifact s)"
  shows "live_sound (set_job i (j\<lparr>job_decode := Some l, job_prefill := None, job_generated := 1\<rparr>) (handed s i j l q t))"
proof -
  note D = live_soundD [OF sound]
  let ?j = "j\<lparr>job_decode := Some l, job_prefill := None, job_generated := 1\<rparr>"
  define u where "u = set_job i ?j (handed s i j l q t)"
  have jobs: "map_of (lv_jobs u) = (map_of (lv_jobs s))(i \<mapsto> ?j)" "bt_wf (lv_jobs u)"
    using job D(4) by (auto simp: u_def handed_def map_of_set_job jobs_sound_def set_job_def map_of_bt_adjust)
  have fields: "lv_artifact u = lv_artifact s" "lv_capacity u = lv_capacity s" "lv_epoch u = lv_epoch s"
    "lv_prefill u = lv_prefill s" "lv_decode u = lv_decode s" "lv_p_pool u = q" "lv_transport u = t"
    "lv_queue u = filter (\<lambda>k. k \<noteq> i) (lv_queue s)" by (simp_all add: u_def handed_def)
  note f = prefill_job [OF sound job p]
  note js = job_soundD [OF sound job]
  have "job_generated j < rq_max_new_tokens (job_request j)" using opn job by (simp add: live_open_def)
  then have "job_sound (live_spec s) i ?j"
    using js p fed f(3) by (simp add: job_sound_def Let_def job_history_def)
  then have "jobs_sound u" using D(4) jobs fields by (auto simp: jobs_sound_def)
  moreover have "leases_match u" using D(3) f(5) job q(3) t(3) by (simp add: leases_match_def jobs fields)
  moreover have "queue_sound u" using D(5) by (auto simp: queue_sound_def jobs fields)
  moreover have "pools_sound u" using D(2) q t by (simp add: pools_sound_def fields)
  moreover have "epochs_sound u"
  proof -
    have m: "map_of (rp_active (lv_p_pool s)) i = Some p" using lease_of_job(1) [OF sound job p] by simp
    then have "length (bt_remove i (rp_active (lv_p_pool s))) < length (rp_active (lv_p_pool s))"
      unfolding bt_remove_def by (intro length_filter_less [where x = "(i, p)"]) (auto dest: map_of_SomeD)
    then show ?thesis using D(6) q(3,4) t(4) by (simp add: epochs_sound_def fields)
  qed
  moreover have "workers_sound u" using D(1) by (simp add: workers_sound_def fields)
  ultimately have "live_sound u" by (simp add: live_sound_def)
  then show ?thesis by (simp only: u_def)
qed

text \<open>The transport's part of a handover.\<close>

lemma handover_transport:
  assumes sound: "live_sound s" and job: "map_of (lv_jobs s) i = Some j" and p: "job_prefill j = Some p"
    and fed: "consumed (job_state j) = length (rq_prompt (job_request j))"
    and reserve: "transport_reserve i e (consumed (job_state j)) (lv_transport s) = (Ok l, u)"
    and m: "m = \<lparr>tm_lease = l, tm_model_key = art_key (lv_artifact s), tm_state = job_state j, tm_next_token = job_next j\<rparr>"
  shows "\<exists>u1 u2 u3 u4. transport_transfer m u = (Ok (), u1) \<and> transport_complete l u1 = (Ok (), u2) \<and>
    transport_commit l u2 = (Ok m, u3) \<and> transport_acknowledge l u3 = (Ok (), u4) \<and>
    transport_sound (cap_pages (lv_capacity s)) (cap_slots (lv_capacity s)) u4 \<and> rp_retired (tr_pool u4) = [] \<and>
    map_of (rp_active (tr_pool u4)) = (map_of (rp_active (tr_pool (lv_transport s))))(i \<mapsto> l) \<and>
    rp_generation (tr_pool u4) = rp_generation (tr_pool (lv_transport s)) + 1 \<and>
    rp_page_tokens (tr_pool u4) = rp_page_tokens (tr_pool (lv_transport s)) \<and> tr_spec u4 = live_spec s \<and> tr_key u4 = art_key (lv_artifact s)"
proof -
  note D = live_soundD [OF sound]
  let ?P = "cap_pages (lv_capacity s)" and ?S = "cap_slots (lv_capacity s)"
  have T: "transport_sound ?P ?S (lv_transport s)" "rp_retired (tr_pool (lv_transport s)) = []"
    "tr_spec (lv_transport s) = live_spec s" "tr_key (lv_transport s) = art_key (lv_artifact s)"
    "rp_page_tokens (tr_pool (lv_transport s)) = spec_page_tokens (live_spec s)"
    using D(2) by (simp_all add: pools_sound_def)
  obtain pl where pl: "pool_reserve i e (consumed (job_state j)) (tr_pool (lv_transport s)) = (Ok l, pl)"
    "u = (lv_transport s)\<lparr>tr_pool := pl, tr_entries := bt_insert i \<lparr>te_lease = l, te_status = Reserved, te_manifest = None\<rparr> (tr_entries (lv_transport s))\<rparr>"
    using reserve by (auto simp: transport_reserve_Ok)
  note o = pool_reserve_Ok [OF pl(1)]
  have pages: "length (tl_pages l) = div_ceil (consumed (job_state j)) (spec_page_tokens (live_spec s))" using o T(5) by simp
  have pt: "0 < spec_page_tokens (live_spec s)" "spec_page_tokens (live_spec s) \<le> 16777216"
    using spec_ok_pos(2) [OF D(7)] spec_ok_limits(1) [OF D(7), of "spec_page_tokens (live_spec s)"]
    by (simp_all add: spec_dimensions_def Let_def)
  note f = prefill_job [OF sound job p]
  have "job_next j < vocab (spec_model (live_spec s))"
    using job_soundD [OF sound job] p fed next_ref_vocab [OF D(7)] by (simp add: job_sound_def Let_def)
  moreover have "consumed (job_state j) \<le> length (tl_pages l) * spec_page_tokens (live_spec s)"
    using div_ceil_upper [OF pt(1)] pages by simp
  ultimately have payload: "payload_ok u l m" using f(2) T(3,4) pl(2) m by (simp add: payload_ok_def)
  have "consumed (job_state j) \<le> 16777216" using f(1,4) small_spec(1) [OF D(7)] by simp
  then have "length (tl_pages l) * spec_page_tokens (tr_spec u) < 2 ^ 64"
    using div_ceil_bound [of "consumed (job_state j)" "spec_page_tokens (live_spec s)"] pages pt T(3) pl(2) by auto
  from handover_run [OF T(1) reserve payload this] obtain u1 u2 u3 where
    r: "transport_transfer m u = (Ok (), u1)" "transport_complete l u1 = (Ok (), u2)" "transport_commit l u2 = (Ok m, u3)"
      "transport_acknowledge l u3 = (Ok (), u\<lparr>tr_entries := bt_insert i \<lparr>te_lease = l, te_status = Acknowledged, te_manifest = Some m\<rparr> (tr_entries (lv_transport s))\<rparr>)"
    by blast
  let ?u4 = "u\<lparr>tr_entries := bt_insert i \<lparr>te_lease = l, te_status = Acknowledged, te_manifest = Some m\<rparr> (tr_entries (lv_transport s))\<rparr>"
  have "transport_sound ?P ?S u1" by (rule transport_transfer_sound [OF transport_reserve_sound [OF T(1) reserve] r(1)])
  then have "transport_sound ?P ?S u2" using transport_complete_sound [of ?P ?S u1 l] r(2) by simp
  then have "transport_sound ?P ?S u3" using transport_commit_sound [of ?P ?S u2 l] r(3) by simp
  then have "transport_sound ?P ?S ?u4" using transport_acknowledge_sound [of ?P ?S u3 l] r(4) by simp
  then show ?thesis using r o T pl(2) by (intro exI [of _ u1] exI [of _ u2] exI [of _ u3] exI [of _ ?u4]) simp
qed

definition room_for :: "live_scheduler \<Rightarrow> job \<Rightarrow> bool" where
  "room_for s j \<longleftrightarrow> div_ceil (consumed (job_state j)) (spec_page_tokens (live_spec s)) \<le> length (rp_free_pages (tr_pool (lv_transport s))) \<and>
     rp_free_slots (tr_pool (lv_transport s)) \<noteq> []"

lemma hand_over_none:
  assumes sound: "live_sound s" and job: "map_of (lv_jobs s) i = Some j" and p: "job_prefill j = Some p" and "\<not> room_for s j"
  shows "hand_over i evs s = (Ok evs, s)"
  using assms reserve_room [OF sound job p, of "consumed (job_state j)" "tl_epoch p"]
  by (auto simp: hand_over_def on_transport_def room_for_def split: if_splits)

lemma hand_over_reserved:
  assumes sound: "live_sound s" and job: "map_of (lv_jobs s) i = Some j" and p: "job_prefill j = Some p"
    and fed: "consumed (job_state j) = length (rq_prompt (job_request j))" and room: "room_for s j"
    and opn: "live_open s"
  shows "\<exists>l q t. hand_over i evs s = live_emit i evs (handed s i j l q t) \<and>
    live_sound (set_job i (j\<lparr>job_decode := Some l, job_prefill := None, job_generated := 1\<rparr>) (handed s i j l q t))"
proof -
  obtain l u where reserve: "transport_reserve i (tl_epoch p) (consumed (job_state j)) (lv_transport s) = (Ok l, u)"
    using reserve_room [OF sound job p, of "consumed (job_state j)" "tl_epoch p"] room by (auto simp: room_for_def)
  define m where "m = \<lparr>tm_lease = l, tm_model_key = art_key (lv_artifact s), tm_state = job_state j, tm_next_token = job_next j\<rparr>"
  obtain u1 u2 u3 t where t: "transport_transfer m u = (Ok (), u1)" "transport_complete l u1 = (Ok (), u2)"
    "transport_commit l u2 = (Ok m, u3)" "transport_acknowledge l u3 = (Ok (), t)"
    "transport_sound (cap_pages (lv_capacity s)) (cap_slots (lv_capacity s)) t" "rp_retired (tr_pool t) = []"
    "map_of (rp_active (tr_pool t)) = (map_of (rp_active (tr_pool (lv_transport s))))(i \<mapsto> l)"
    "rp_generation (tr_pool t) = rp_generation (tr_pool (lv_transport s)) + 1"
    "rp_page_tokens (tr_pool t) = rp_page_tokens (tr_pool (lv_transport s))" "tr_spec t = live_spec s" "tr_key t = art_key (lv_artifact s)"
    using handover_transport [OF sound job p fed reserve m_def] by blast
  have P: "pool_sound (cap_pages (lv_capacity s)) (cap_slots (lv_capacity s)) (lv_p_pool s)"
    using live_soundD(2) [OF sound] by (simp add: pools_sound_def)
  obtain q where q: "pool_retire p (lv_p_pool s) = (Ok (), q)"
    "pool_sound (cap_pages (lv_capacity s)) (cap_slots (lv_capacity s)) (snd (pool_fence q))"
    "rp_active (snd (pool_fence q)) = bt_remove i (rp_active (lv_p_pool s))" "rp_retired (snd (pool_fence q)) = []"
    "rp_generation (snd (pool_fence q)) = rp_generation (lv_p_pool s)" "rp_page_tokens (snd (pool_fence q)) = rp_page_tokens (lv_p_pool s)"
    using pool_drop [OF P, of p] lease_of_job(1) [OF sound job p] by auto
  have "hand_over i evs s = live_emit i evs (handed s i j l (snd (pool_fence q)) t)"
    using job p reserve t(1-4) q(1)
    by (simp add: m_def hand_over_def on_transport_def on_p_pool_def next_op_run bind_op_def handed_def set_job_def bt_adjust_twice)
  then show ?thesis using handed_sound [OF sound opn job p fed q(2,4,3,5,6) t(5-11)] by blast
qed

lemma hand_over_run:
  assumes sound: "live_sound s" and opn: "live_open s" and job: "map_of (lv_jobs s) i = Some j" and p: "job_prefill j = Some p"
    and fed: "consumed (job_state j) = length (rq_prompt (job_request j))"
    and eff: "step_effect (live_spec s) J0 (map_of (lv_jobs s)) evs"
  shows "\<exists>evs' t. hand_over i evs s = (Ok evs', t) \<and> live_sound t \<and> live_open t \<and> same_setup s t \<and>
    step_effect (live_spec s) J0 (map_of (lv_jobs t)) evs' \<and> set evs \<subseteq> set evs' \<and>
    (\<forall>k. k \<noteq> i \<longrightarrow> map_of (lv_jobs t) k = map_of (lv_jobs s) k) \<and> (if room_for s j then evs' \<noteq> [] else t = s)"
proof (cases "room_for s j")
  case False
  then show ?thesis using hand_over_none [OF sound job p] sound opn eff by simp
next
  case True
  let ?j = "\<lambda>l. j\<lparr>job_decode := Some l, job_prefill := None\<rparr>"
  obtain l q t where h: "hand_over i evs s = live_emit i evs (handed s i j l q t)"
    "live_sound (set_job i (j\<lparr>job_decode := Some l, job_prefill := None, job_generated := 1\<rparr>) (handed s i j l q t))"
    using hand_over_reserved [OF sound job p fed True opn] by blast
  let ?u = "handed s i j l q t"
  note f = prefill_job [OF sound job p]
  note js = job_soundD [OF sound job]
  have new: "i \<notin> ev_request ` set evs" by (rule prefill_no_event [OF eff job f(5)])
  have setup_u: "same_setup s ?u" by (simp add: same_setup_def handed_def)
  have u: "map_of (lv_jobs ?u) = (map_of (lv_jobs s))(i \<mapsto> ?j l)" using job by (auto simp: handed_def map_of_bt_adjust fun_eq_iff)
  have "\<exists>t e. live_emit i evs ?u = (Ok (evs @ [e]), t) \<and> ev_request e = i \<and> live_sound t \<and> live_open t \<and> same_setup ?u t \<and>
    step_effect (live_spec ?u) J0 (map_of (lv_jobs t)) (evs @ [e]) \<and> (\<forall>k. k \<noteq> i \<longrightarrow> map_of (lv_jobs t) k = map_of (lv_jobs ?u) k)"
  proof (rule emit_step [where v = s and j = "?j l", OF job _ new opn])
    show "map_of (lv_jobs ?u) = (map_of (lv_jobs s))(i \<mapsto> ?j l)" by (rule u)
    have "j\<lparr>job_decode := Some l, job_prefill := None, job_generated := 1\<rparr> = (?j l)\<lparr>job_generated := job_generated (?j l) + 1\<rparr>"
      using f(6) by simp
    then show "live_sound (set_job i ((?j l)\<lparr>job_generated := job_generated (?j l) + 1\<rparr>) ?u)" using h(2) by (simp only:)
    show "job_next (?j l) = next_ref (live_spec ?u) (rq_prompt (job_request j) @ reference (live_spec ?u) (rq_prompt (job_request j)) (job_generated j))"
      using js p fed f(6) same_setup_spec [OF setup_u] by (simp add: job_sound_def Let_def)
  qed (use eff js live_soundD(7) [OF sound] same_setup_spec [OF setup_u] in simp_all)
  then obtain v e where v: "live_emit i evs ?u = (Ok (evs @ [e]), v)" "live_sound v" "live_open v" "same_setup ?u v"
    "step_effect (live_spec ?u) J0 (map_of (lv_jobs v)) (evs @ [e])" "\<forall>k. k \<noteq> i \<longrightarrow> map_of (lv_jobs v) k = map_of (lv_jobs ?u) k" by blast
  have "\<forall>k. k \<noteq> i \<longrightarrow> map_of (lv_jobs v) k = map_of (lv_jobs s) k" using v(6) u by simp
  then show ?thesis using True h(1) v(1-5) same_setup_spec [OF setup_u] same_setup_trans [OF setup_u v(4)]
    by (intro exI [of _ "evs @ [e]"] exI [of _ v]) auto
qed

definition ready :: "live_scheduler \<Rightarrow> nat \<Rightarrow> bool" where
  "ready s i \<longleftrightarrow> (\<exists>j. map_of (lv_jobs s) i = Some j \<and> job_prefill j \<noteq> None \<and>
     consumed (job_state j) = length (rq_prompt (job_request j)))"

lemma hand_over_all_run:
  assumes "live_sound s" and "live_open s" and "distinct ids" and "\<forall>i \<in> set ids. ready s i"
    and "step_effect (live_spec s) J0 (map_of (lv_jobs s)) evs"
  shows "\<exists>evs' t. hand_over_all ids evs s = (Ok evs', t) \<and> live_sound t \<and> live_open t \<and> same_setup s t \<and>
    step_effect (live_spec s) J0 (map_of (lv_jobs t)) evs' \<and> set evs \<subseteq> set evs' \<and>
    (evs' = [] \<longrightarrow> t = s \<and> (\<forall>i j. i \<in> set ids \<and> map_of (lv_jobs s) i = Some j \<longrightarrow> \<not> room_for s j))"
  using assms
proof (induction ids arbitrary: evs s)
  case (Cons i ids)
  obtain j p where j: "map_of (lv_jobs s) i = Some j" "job_prefill j = Some p" "consumed (job_state j) = length (rq_prompt (job_request j))"
    using Cons.prems(4) by (auto simp: ready_def)
  obtain evs1 t where t: "hand_over i evs s = (Ok evs1, t)" "live_sound t" "live_open t" "same_setup s t"
    "step_effect (live_spec s) J0 (map_of (lv_jobs t)) evs1" "set evs \<subseteq> set evs1"
    "\<forall>k. k \<noteq> i \<longrightarrow> map_of (lv_jobs t) k = map_of (lv_jobs s) k" "if room_for s j then evs1 \<noteq> [] else t = s"
    using hand_over_run [OF Cons.prems(1,2) j Cons.prems(5)] by blast
  note spec = same_setup_spec [OF t(4)]
  have "ready t k" if "k \<in> set ids" for k
  proof -
    have "map_of (lv_jobs t) k = map_of (lv_jobs s) k" using t(7) that Cons.prems(3) by auto
    then show ?thesis using Cons.prems(4) that by (simp add: ready_def)
  qed
  then obtain evs2 u where u: "hand_over_all ids evs1 t = (Ok evs2, u)" "live_sound u" "live_open u" "same_setup t u"
    "step_effect (live_spec s) J0 (map_of (lv_jobs u)) evs2" "set evs1 \<subseteq> set evs2"
    "evs2 = [] \<longrightarrow> u = t \<and> (\<forall>i j. i \<in> set ids \<and> map_of (lv_jobs t) i = Some j \<longrightarrow> \<not> room_for t j)"
    using Cons.IH [OF t(2,3) _ _ t(5) [folded spec]] Cons.prems(3) spec by auto
  have "hand_over_all (i # ids) evs s = (Ok evs2, u)" using t(1) u(1) by simp
  moreover have "u = s \<and> (\<forall>k jk. k \<in> set (i # ids) \<and> map_of (lv_jobs s) k = Some jk \<longrightarrow> \<not> room_for s jk)" if "evs2 = []"
  proof -
    have "evs1 = []" using u(6) that by simp
    then have "t = s" "\<not> room_for s j" using t(8) by (auto split: if_splits)
    then show ?thesis using u(7) that j(1) by auto
  qed
  ultimately show ?case using u t(6) same_setup_trans [OF t(4) u(4)] by blast
qed simp

lemma ready_ids_facts:
  assumes "bt_wf (lv_jobs s)"
  shows "distinct (ready_ids s)" "i \<in> set (ready_ids s) \<longleftrightarrow> ready s i"
proof -
  have keys: "distinct (map fst (lv_jobs s))" using bt_wf_distinct [OF assms] .
  then show "distinct (ready_ids s)" unfolding ready_ids_def by (intro distinct_map_filter)
  show "i \<in> set (ready_ids s) \<longleftrightarrow> ready s i"
    using keys by (force simp: ready_ids_def ready_def map_of_eq_Some_iff)
qed

text \<open>With no decode lease out, every finished prompt finds room: its prefill lease shows that the
  pages and slots exist.\<close>

lemma room_when_empty:
  assumes sound: "live_sound s" and none: "\<And>i j. map_of (lv_jobs s) i = Some j \<Longrightarrow> job_decode j = None"
    and job: "map_of (lv_jobs s) i = Some j" and p: "job_prefill j = Some p"
  shows "room_for s j"
proof -
  note D = live_soundD [OF sound]
  let ?P = "cap_pages (lv_capacity s)" and ?S = "cap_slots (lv_capacity s)" and ?q = "tr_pool (lv_transport s)"
  have p_pool: "pool_sound ?P ?S (lv_p_pool s)" and q_pool: "pool_sound ?P ?S ?q" and q_retired: "rp_retired ?q = []"
    using D(2) by (simp_all add: pools_sound_def transport_sound_def)
  have "map_of (rp_active ?q) k = None" for k
    using D(3) none by (cases "map_of (lv_jobs s) k") (auto simp: leases_match_def)
  then have "rp_active ?q = []" by (metis map_of_eq_None_iff list.set_intros(1) list.exhaust image_eqI)
  then have "leases ?q = {#}" using q_retired by (simp add: leases_def)
  then have free: "mset (rp_free_pages ?q) = mset [0..<?P]" "mset (rp_free_slots ?q) = mset [0..<?S]"
    using q_pool by (simp_all add: pool_sound_def)
  then have len: "length (rp_free_pages ?q) = ?P" "length (rp_free_slots ?q) = ?S" by (metis size_mset length_upt diff_zero)+
  have active: "map_of (rp_active (lv_p_pool s)) i = Some p" using lease_of_job(1) [OF sound job p] by simp
  have mem: "p \<in># leases (lv_p_pool s)" using active unfolding leases_def by (force dest: map_of_SomeD)
  have "lease_pages {#p#} \<subseteq># lease_pages (leases (lv_p_pool s))" using mem by (intro lease_pages_mono) simp
  also have "\<dots> \<subseteq># mset [0..<?P]" using p_pool unfolding pool_sound_def by (metis mset_subset_eq_add_right)
  finally have "mset (tl_pages p) \<subseteq># mset [0..<?P]" by simp
  then have "length (tl_pages p) \<le> ?P" by (metis size_mset_mono size_mset length_upt diff_zero)
  moreover have "image_mset tl_slot (leases (lv_p_pool s)) \<subseteq># mset [0..<?S]" using p_pool unfolding pool_sound_def by (metis mset_subset_eq_add_right)
  then have "size (leases (lv_p_pool s)) \<le> ?S" by (metis size_mset_mono size_image_mset size_mset length_upt diff_zero)
  then have "0 < ?S" using mem by (cases ?S) auto
  moreover have "div_ceil (consumed (job_state j)) (spec_page_tokens (live_spec s)) \<le> length (tl_pages p)"
    using prefill_job(1,7) [OF sound job p] div_ceil_mono [of "spec_page_tokens (live_spec s)"] spec_ok_pos(2) [OF D(7)] le_trans by blast
  ultimately show ?thesis using len by (auto simp: room_for_def)
qed

section \<open>The step\<close>

definition total_work :: "live_scheduler \<Rightarrow> nat" where
  "total_work s = sum_list (map (\<lambda>(i, j). job_work j) (lv_jobs s))"

lemma total_work_sum:
  assumes "bt_wf (lv_jobs s)" and "finite A" and "dom (map_of (lv_jobs s)) \<subseteq> A"
  shows "total_work s = (\<Sum>i\<in>A. work_at (map_of (lv_jobs s)) i)"
proof -
  have keys: "distinct (map fst (lv_jobs s))" using bt_wf_distinct [OF assms(1)] .
  have "total_work s = (\<Sum>(i, j)\<leftarrow>lv_jobs s. work_at (map_of (lv_jobs s)) i)"
    unfolding total_work_def
    by (rule arg_cong [where f = sum_list], rule map_cong [OF refl]) (use keys in \<open>auto simp: work_at_def\<close>)
  also have "\<dots> = sum_list (map (work_at (map_of (lv_jobs s))) (map fst (lv_jobs s)))"
    by (simp add: comp_def case_prod_unfold)
  also have "\<dots> = (\<Sum>i\<in>fst ` set (lv_jobs s). work_at (map_of (lv_jobs s)) i)"
    using sum_list_distinct_conv_sum_set [OF keys, of "work_at (map_of (lv_jobs s))"] by simp
  also have "\<dots> = (\<Sum>i\<in>A. work_at (map_of (lv_jobs s)) i)"
    by (rule sum.mono_neutral_left) (use assms in \<open>auto simp: dom_map_of_conv_image_fst work_at_def map_of_eq_None_iff split: option.split\<close>, force dest: map_of_SomeD)
  finally show ?thesis .
qed

lemma total_work_less:
  assumes wf: "bt_wf (lv_jobs s)" "bt_wf (lv_jobs t)"
    and le: "\<And>i. work_at (map_of (lv_jobs t)) i \<le> work_at (map_of (lv_jobs s)) i"
    and less: "work_at (map_of (lv_jobs t)) i < work_at (map_of (lv_jobs s)) i"
  shows "total_work t < total_work s"
proof -
  let ?A = "dom (map_of (lv_jobs s)) \<union> dom (map_of (lv_jobs t))"
  have fin: "finite ?A" by (simp add: finite_dom_map_of)
  have "i \<in> ?A" using less by (auto simp: work_at_def split: option.splits)
  then have "(\<Sum>i\<in>?A. work_at (map_of (lv_jobs t)) i) < (\<Sum>i\<in>?A. work_at (map_of (lv_jobs s)) i)"
    using sum_strict_mono_ex1 [OF fin, of "work_at (map_of (lv_jobs t))" "work_at (map_of (lv_jobs s))"] le less by blast
  then show ?thesis using total_work_sum [OF wf(1) fin] total_work_sum [OF wf(2) fin] by simp
qed

lemma unfed_or_ready:
  assumes sound: "live_sound s" and job: "map_of (lv_jobs s) i = Some j" and none: "job_decode j = None" and "\<not> unfed s i"
    and t: "live_sound t" "progressed (map_of (lv_jobs s)) (map_of (lv_jobs t))" "same_setup s t"
  shows "ready t i"
proof -
  have js: "job_sound (live_spec s) i j" using job_soundD [OF sound job] .
  then obtain l where p: "job_prefill j = Some l" using none by (auto simp: job_sound_def Let_def)
  have len: "consumed (job_state j) = length (rq_prompt (job_request j))"
    using prefill_job(1) [OF sound job p] assms(4) job p by (auto simp: unfed_def)
  have "rel_option same_progress (map_of (lv_jobs s) i) (map_of (lv_jobs t) i)" using t(2) by (simp add: progressed_def)
  then obtain k where k: "map_of (lv_jobs t) i = Some k" "same_progress j k" using job by (auto elim: option.rel_cases)
  then have "job_decode k = None" using none by (simp add: same_progress_def)
  then obtain m where m: "job_prefill k = Some m" using job_soundD [OF t(1) k(1)] by (auto simp: job_sound_def Let_def)
  have "job_work k \<le> job_work j" "job_request k = job_request j" "job_generated k = job_generated j" using k(2) by (simp_all add: same_progress_def)
  then have "length (rq_prompt (job_request k)) \<le> consumed (job_state k)" using m p len by (simp add: job_work_def)
  then have "consumed (job_state k) = length (rq_prompt (job_request k))" using prefill_job(1) [OF t(1) k(1) m] by simp
  then show ?thesis using k(1) m by (simp add: ready_def)
qed

lemma live_step_run:
  assumes sound: "live_sound s" and opn: "live_open s"
  shows "\<exists>evs t. live_step s = (Ok evs, t) \<and> live_sound t \<and> live_open t \<and> same_setup s t \<and>
    step_effect (live_spec s) (map_of (lv_jobs s)) (map_of (lv_jobs t)) evs \<and> (\<not> live_idle s \<longrightarrow> total_work t < total_work s)"
proof -
  note spec = live_soundD(7) [OF sound]
  let ?J = "map_of (lv_jobs s)"
  obtain evs1 s1 where d: "decode_phase s = (Ok evs1, s1)" "live_sound s1" "live_open s1" "same_setup s s1"
    "step_effect (live_spec s) ?J (map_of (lv_jobs s1)) evs1" "if decode_ids s = [] then s1 = s \<and> evs1 = [] else evs1 \<noteq> []"
    using decode_phase_run [OF sound opn] by blast
  note spec1 = same_setup_spec [OF d(4)]
  have "0 < spec_token_budget (live_spec s1)" using spec_ok_pos(3) [OF spec] spec1 by simp
  then obtain s2 where p: "prefill_phase s1 = (Ok (), s2)" "live_sound s2" "live_open s2" "same_setup s1 s2"
    "progressed (map_of (lv_jobs s1)) (map_of (lv_jobs s2))"
    "(\<exists>i. unfed s1 i) \<longrightarrow> (\<exists>i. work_at (map_of (lv_jobs s2)) i < work_at (map_of (lv_jobs s1)) i)"
    using prefill_phase_run [OF d(2,3)] by blast
  have st2: "same_setup s s2" using same_setup_trans [OF d(4) p(4)] .
  note spec2 = same_setup_spec [OF st2]
  have wf: "bt_wf (lv_jobs u)" if "live_sound u" for u using live_soundD(4) [OF that] by (simp add: jobs_sound_def)
  note ready = ready_ids_facts [OF wf [OF p(2)]]
  have "step_effect (live_spec s2) ?J (map_of (lv_jobs s2)) evs1" using effect_progressed [OF d(5) p(5)] spec2 by simp
  then obtain evs t where h: "hand_over_all (ready_ids s2) evs1 s2 = (Ok evs, t)" "live_sound t" "live_open t" "same_setup s2 t"
    "step_effect (live_spec s2) ?J (map_of (lv_jobs t)) evs" "set evs1 \<subseteq> set evs"
    "evs = [] \<longrightarrow> t = s2 \<and> (\<forall>i j. i \<in> set (ready_ids s2) \<and> map_of (lv_jobs s2) i = Some j \<longrightarrow> \<not> room_for s2 j)"
    using hand_over_all_run [OF p(2,3) ready(1)] ready(2) by blast
  have run: "live_step s = (Ok evs, t)"
    using spec_ok_buckets(1) [OF spec] d(1) p(1) h(1) by (simp add: live_step_def next_op_run)
  have "total_work t < total_work s" if busy: "\<not> live_idle s"
  proof -
    have "\<exists>i. work_at (map_of (lv_jobs t)) i < work_at ?J i"
    proof (cases "evs = []")
      case False
      then obtain e where "e \<in> set evs" by (cases evs) auto
      then show ?thesis using event_work [OF h(5)] opn by (auto simp: live_open_def)
    next
      case True
      then have "evs1 = []" "t = s2" using h(6,7) by auto
      then have ids: "decode_ids s = []" and s1: "s1 = s" using d(6) by (auto split: if_splits)
      have "0 < last (batch_buckets (live_spec s))"
        using spec_ok_buckets(1,3) [OF spec] by (metis gr0I last_in_set)
      then have none: "job_decode j = None" if "map_of (lv_jobs s) i = Some j" for i j
        using decode_ids_facts(4) [OF wf [OF sound] that] ids by blast
      have "\<exists>i. unfed s i"
      proof (rule ccontr)
        assume "\<nexists>i. unfed s i"
        moreover obtain i j where job: "map_of (lv_jobs s) i = Some j"
          using busy unfolding live_idle_def by (cases "lv_jobs s") (auto, metis)
        ultimately have "ready s2 i" using unfed_or_ready [OF sound job none [OF job] _ p(2) _ st2] p(5) s1 by auto
        then obtain k m where k: "map_of (lv_jobs s2) i = Some k" "job_prefill k = Some m" by (auto simp: ready_def)
        have "job_decode jk = None" if "map_of (lv_jobs s2) ik = Some jk" for ik jk
        proof -
          have "rel_option same_progress (map_of (lv_jobs s) ik) (Some jk)" using p(5) s1 that unfolding progressed_def by metis
          then show ?thesis using none by (auto elim!: option.rel_cases simp: same_progress_def)
        qed
        then have "room_for s2 k" using room_when_empty [OF p(2) _ k] by blast
        then show False using h(7) True ready(2) \<open>ready s2 i\<close> k(1) by blast
      qed
      then show ?thesis using p(6) s1 \<open>t = s2\<close> by simp
    qed
    then show ?thesis using total_work_less [OF wf [OF sound] wf [OF h(2)]] effect_work [OF h(5)] by blast
  qed
  then show ?thesis using run h(2,3,5) same_setup_trans [OF st2 h(4)] spec2 by auto
qed

end
