(* ===== verification/Live_Thms.thy ===== *)
theory Live_Thms
  imports Live_Turn
begin

text \<open>
  What the live scheduler promises, over every sequence of submissions, cancellations and steps from a
  scheduler started on the mock backend.
\<close>

section \<open>Calls\<close>

datatype live_call = LvSubmit request "nat list" | LvCancel nat | LvStep

text \<open>A call with the events it reports.\<close>

fun live_events :: "live_call \<Rightarrow> live_scheduler \<Rightarrow> live_event list" where
  "live_events (LvSubmit rq stops) s = []"
| "live_events (LvCancel i) s = (case fst (live_cancel i s) of Ok (Some e) \<Rightarrow> [e] | _ \<Rightarrow> [])"
| "live_events LvStep s = (case fst (live_step s) of Ok evs \<Rightarrow> evs | _ \<Rightarrow> [])"

fun live_exec :: "live_call \<Rightarrow> live_scheduler \<Rightarrow> live_scheduler" where
  "live_exec (LvSubmit rq stops) s = snd (live_submit rq stops s)"
| "live_exec (LvCancel i) s = snd (live_cancel i s)"
| "live_exec LvStep s = snd (live_step s)"

fun live_trace :: "live_call list \<Rightarrow> live_scheduler \<Rightarrow> live_event list" where
  "live_trace [] s = []"
| "live_trace (c # cs) s = live_events c s @ live_trace cs (live_exec c s)"

definition live_ready :: "live_scheduler \<Rightarrow> bool" where
  "live_ready s \<longleftrightarrow> live_sound s \<and> live_open s"

lemma live_mock_ready:
  assumes "compile x (art_spec a) (art_target a) = Ok a" and "target_backend (art_target a) = Mock"
    and "1 < vocab (spec_model (art_spec a))"
  shows "is_ok (live_mock x a cap) \<longleftrightarrow> cap_pages cap \<noteq> 0 \<and> cap_slots cap \<noteq> 0"
    "live_mock x a cap = Ok s \<Longrightarrow> live_ready s \<and> lv_jobs s = [] \<and> lv_artifact s = a"
proof -
  have spec: "spec_ok (art_spec a)" using assms(1) by (auto simp: compile_def outcome_simps spec_ok_def)
  obtain pw where pw: "group_mock x a Prefill = Ok pw" "pw \<noteq> []" "prefill_ranks.all_ready (art_spec a) pw"
    using prefill_ranks.group_starts [OF assms] by blast
  obtain dw where dw: "group_mock x a Decode = Ok dw" "dw \<noteq> []" "decode_ranks.all_ready (art_spec a) dw"
    using decode_ranks.group_starts [OF assms] by blast
  show "is_ok (live_mock x a cap) \<longleftrightarrow> cap_pages cap \<noteq> 0 \<and> cap_slots cap \<noteq> 0"
    using pw(1) dw(1) spec_ok_pos(2) [OF spec]
    by (simp add: live_mock_def pool_create_def transport_new_def reject_def)
  assume "live_mock x a cap = Ok s"
  then obtain p t where s: "s = \<lparr>lv_artifact = a, lv_prefill = pw, lv_decode = dw, lv_p_pool = p, lv_transport = t, lv_jobs = [],
         lv_queue = [], lv_capacity = cap, lv_epoch = 0\<rparr>"
    and p: "pool_create (cap_pages cap) (cap_slots cap) (spec_page_tokens (art_spec a)) = Ok p"
    and t: "transport_new (art_spec a) (art_key a) (cap_pages cap) (cap_slots cap) = Ok t"
    using pw(1) dw(1) by (auto simp: live_mock_def outcome_simps)
  have "pools_sound s" "leases_match s" "epochs_sound s"
    using pool_create_sound [OF p] transport_new_sound [OF t] p t
    by (auto simp: s pools_sound_def leases_match_def epochs_sound_def pool_create_def transport_new_def outcome_simps)
  moreover have "workers_sound s" "jobs_sound s" "queue_sound s"
    using spec pw dw by (simp_all add: s workers_sound_def jobs_sound_def queue_sound_def)
  ultimately show "live_ready s \<and> lv_jobs s = [] \<and> lv_artifact s = a"
    by (simp add: live_ready_def live_sound_def live_open_def s)
qed

text \<open>Cancellation removes the job and nothing else.\<close>

lemma live_cancel_run:
  assumes "live_sound s" and "live_open s"
  shows "\<exists>t. live_cancel i s = (Ok (if map_of (lv_jobs s) i = None then None
      else Some \<lparr>ev_request = i, ev_token = None, ev_finish = Some FinAbort\<rparr>), t) \<and>
    live_sound t \<and> live_open t \<and> same_setup s t \<and> lv_jobs t = bt_remove i (lv_jobs s)"
proof (cases "map_of (lv_jobs s) i")
  case None
  then have "bt_remove i (lv_jobs s) = lv_jobs s" by (simp add: bt_remove_absent bt_absent)
  then show ?thesis using live_remove_absent [OF assms(1) None] None assms by (simp add: live_cancel_def next_op_run)
next
  case (Some j)
  then obtain t where "live_remove i s = (Ok (), t)" "live_sound t" "same_setup s t" "lv_jobs t = bt_remove i (lv_jobs s)"
    using live_remove_job [OF assms(1)] by blast
  then show ?thesis using Some live_open_remove [OF assms(2)] by (simp add: live_cancel_def next_op_run)
qed

lemma live_exec_ready: "live_ready s \<Longrightarrow> live_ready (live_exec c s)"
proof (cases c)
  case (LvSubmit rq stops)
  assume "live_ready s"
  then show ?thesis
    using LvSubmit live_submit_sound [of s rq stops "fst (live_submit rq stops s)" "snd (live_submit rq stops s)"]
    by (simp add: live_ready_def)
next
  case (LvCancel i)
  assume "live_ready s"
  then obtain r t where "live_cancel i s = (r, t)" "live_sound t" "live_open t"
    using live_cancel_run [of s i] by (auto simp: live_ready_def)
  then show ?thesis using LvCancel by (simp add: live_ready_def)
next
  case LvStep
  assume "live_ready s"
  then obtain r t where "live_step s = (r, t)" "live_sound t" "live_open t"
    using live_step_run [of s] by (auto simp: live_ready_def)
  then show ?thesis using LvStep by (simp add: live_ready_def)
qed

lemma live_exec_artifact: "live_ready s \<Longrightarrow> lv_artifact (live_exec c s) = lv_artifact s"
proof (cases c)
  case (LvSubmit rq stops)
  assume "live_ready s"
  then show ?thesis
    using LvSubmit live_submit_sound [of s rq stops "fst (live_submit rq stops s)" "snd (live_submit rq stops s)"]
    by (simp add: live_ready_def)
next
  case (LvCancel i)
  assume "live_ready s"
  then obtain r t where "live_cancel i s = (r, t)" "same_setup s t"
    using live_cancel_run [of s i] by (auto simp: live_ready_def)
  then show ?thesis using LvCancel by (simp add: same_setup_def)
next
  case LvStep
  assume "live_ready s"
  then obtain r t where "live_step s = (r, t)" "same_setup s t"
    using live_step_run [of s] by (auto simp: live_ready_def)
  then show ?thesis using LvStep by (simp add: same_setup_def)
qed

interpretation scheduler: op_machine live_exec live_ready
  by unfold_locales (rule live_exec_ready)

section \<open>What a request receives\<close>

text \<open>The tokens and the finish events of one request in a sequence of events.\<close>

definition tokens_of :: "nat \<Rightarrow> live_event list \<Rightarrow> nat list" where
  "tokens_of i evs = concat (map (\<lambda>e. if ev_request e = i then (case ev_token e of None \<Rightarrow> [] | Some t \<Rightarrow> [t]) else []) evs)"

definition finishes_of :: "nat \<Rightarrow> live_event list \<Rightarrow> finish list" where
  "finishes_of i evs = concat (map (\<lambda>e. if ev_request e = i then (case ev_finish e of None \<Rightarrow> [] | Some f \<Rightarrow> [f]) else []) evs)"

lemma of_simps [simp]:
  "tokens_of i [] = []" "tokens_of i (es @ fs) = tokens_of i es @ tokens_of i fs"
  "finishes_of i [] = []" "finishes_of i (es @ fs) = finishes_of i es @ finishes_of i fs"
  by (simp_all add: tokens_of_def finishes_of_def)

lemma of_absent:
  assumes "i \<notin> ev_request ` set evs"
  shows "tokens_of i evs = []" "finishes_of i evs = []"
  using assms by (induction evs) (auto simp: tokens_of_def finishes_of_def)

lemma of_single:
  assumes "distinct (map ev_request evs)" and "e \<in> set evs" and "ev_request e = i"
  shows "tokens_of i evs = (case ev_token e of None \<Rightarrow> [] | Some t \<Rightarrow> [t]) \<and>
    finishes_of i evs = (case ev_finish e of None \<Rightarrow> [] | Some f \<Rightarrow> [f])"
proof -
  obtain as bs where evs: "evs = as @ e # bs" using assms(2) by (meson split_list)
  then have "i \<notin> ev_request ` set as" "i \<notin> ev_request ` set bs" using assms(1,3) by auto
  note a = of_absent [OF this(1)] and b = of_absent [OF this(2)]
  have "evs = as @ [e] @ bs" using evs by simp
  then have "tokens_of i evs = tokens_of i as @ tokens_of i [e] @ tokens_of i bs"
    "finishes_of i evs = finishes_of i as @ finishes_of i [e] @ finishes_of i bs" by (simp_all only: of_simps)
  then have "tokens_of i evs = tokens_of i [e]" "finishes_of i evs = finishes_of i [e]" using a b by simp_all
  then show ?thesis using assms(3) by (simp add: tokens_of_def finishes_of_def)
qed

text \<open>What a job has received, against the job before and now: the next tokens of its reference
  generation; while it is there no finish and no token that stops it, and once it is gone exactly one
  finish, \<open>FinStop\<close> only after a stop token and \<open>FinLength\<close> only after the last token.\<close>

abbreviation ref_token :: "spec \<Rightarrow> job \<Rightarrow> nat \<Rightarrow> nat" where
  "ref_token sp j k \<equiv> next_ref sp (rq_prompt (job_request j) @ reference sp (rq_prompt (job_request j)) k)"

definition received :: "spec \<Rightarrow> job \<Rightarrow> nat list \<Rightarrow> finish list \<Rightarrow> job option \<Rightarrow> bool" where
  "received sp j0 toks fins now \<longleftrightarrow> (\<exists>n. job_generated j0 \<le> n \<and> n \<le> rq_max_new_tokens (job_request j0) \<and>
     reference sp (rq_prompt (job_request j0)) (job_generated j0) @ toks = reference sp (rq_prompt (job_request j0)) n \<and>
     (\<forall>k. job_generated j0 \<le> k \<and> k + 1 < n \<longrightarrow> \<not> stops_at j0 (ref_token sp j0 k)) \<and>
     (\<forall>j. now = Some j \<longrightarrow> fins = [] \<and> job_request j = job_request j0 \<and> job_stop j = job_stop j0 \<and> job_generated j = n \<and>
        (job_generated j0 < n \<longrightarrow> \<not> stops_at j0 (ref_token sp j0 (n - 1)))) \<and>
     (now = None \<longrightarrow> (\<exists>f. fins = [f] \<and> (f = FinStop \<longrightarrow> job_generated j0 < n \<and> stops_at j0 (ref_token sp j0 (n - 1))) \<and>
        (f = FinLength \<longrightarrow> n = rq_max_new_tokens (job_request j0)))))"

lemma received_none:
  assumes "job_generated j0 \<le> rq_max_new_tokens (job_request j0)" and "job_request j = job_request j0" "job_stop j = job_stop j0"
    "job_generated j = job_generated j0"
  shows "received sp j0 [] [] (Some j)"
  unfolding received_def by (intro exI [of _ "job_generated j0"]) (use assms in auto)

lemma received_end:
  assumes "job_generated j0 \<le> rq_max_new_tokens (job_request j0)" and "f \<noteq> FinStop" and "f \<noteq> FinLength"
  shows "received sp j0 [] [f] None"
  unfolding received_def by (intro exI [of _ "job_generated j0"]) (use assms in auto)

lemma received_trans:
  assumes a: "received sp j0 t1 f1 (Some j)" and b: "received sp j t2 f2 now"
  shows "received sp j0 (t1 @ t2) (f1 @ f2) now"
proof -
  let ?p = "rq_prompt (job_request j0)"
  obtain n1 where n1: "job_generated j0 \<le> n1" "reference sp ?p (job_generated j0) @ t1 = reference sp ?p n1"
    "\<forall>k. job_generated j0 \<le> k \<and> k + 1 < n1 \<longrightarrow> \<not> stops_at j0 (ref_token sp j0 k)" "f1 = []" "job_request j = job_request j0"
    "job_stop j = job_stop j0" "job_generated j = n1" "job_generated j0 < n1 \<longrightarrow> \<not> stops_at j0 (ref_token sp j0 (n1 - 1))"
    using a by (auto simp: received_def)
  have same: "stops_at j = stops_at j0" "ref_token sp j = ref_token sp j0" using n1(5,6) by (simp_all add: stops_at_def fun_eq_iff)
  obtain n where n: "n1 \<le> n" "n \<le> rq_max_new_tokens (job_request j0)" "reference sp ?p n1 @ t2 = reference sp ?p n"
    "\<forall>k. n1 \<le> k \<and> k + 1 < n \<longrightarrow> \<not> stops_at j0 (ref_token sp j0 k)"
    "\<forall>j'. now = Some j' \<longrightarrow> f2 = [] \<and> job_request j' = job_request j0 \<and> job_stop j' = job_stop j0 \<and> job_generated j' = n \<and>
       (n1 < n \<longrightarrow> \<not> stops_at j0 (ref_token sp j0 (n - 1)))"
    "now = None \<longrightarrow> (\<exists>f. f2 = [f] \<and> (f = FinStop \<longrightarrow> n1 < n \<and> stops_at j0 (ref_token sp j0 (n - 1))) \<and>
       (f = FinLength \<longrightarrow> n = rq_max_new_tokens (job_request j0)))"
    using b unfolding received_def n1(5,6,7) same by blast
  have before: "\<not> stops_at j0 (ref_token sp j0 k)" if "job_generated j0 \<le> k" "k < n1" for k
  proof (cases "k + 1 < n1")
    case False
    then have "n1 - 1 = k" "job_generated j0 < n1" using that by auto
    then show ?thesis using n1(8) by simp
  qed (use n1(3) that in blast)
  have all: "\<forall>k. job_generated j0 \<le> k \<and> k + 1 < n \<longrightarrow> \<not> stops_at j0 (ref_token sp j0 k)"
  proof (intro allI impI)
    fix k assume "job_generated j0 \<le> k \<and> k + 1 < n"
    then show "\<not> stops_at j0 (ref_token sp j0 k)" using before [of k] n(4) by (cases "k < n1") auto
  qed
  have ref: "reference sp ?p (job_generated j0) @ t1 @ t2 = reference sp ?p n" using n1(2) n(3) by (metis append_assoc)
  have last: "\<not> stops_at j0 (ref_token sp j0 (n - 1))" if "job_generated j0 < n" "n1 < n \<longrightarrow> \<not> stops_at j0 (ref_token sp j0 (n - 1))"
    using that before [of "n - 1"] n(1) by (cases "n1 < n") auto
  have "\<forall>j'. now = Some j' \<longrightarrow> f1 @ f2 = [] \<and> job_request j' = job_request j0 \<and> job_stop j' = job_stop j0 \<and> job_generated j' = n \<and>
      (job_generated j0 < n \<longrightarrow> \<not> stops_at j0 (ref_token sp j0 (n - 1)))"
  proof (intro allI impI)
    fix j' assume "now = Some j'"
    then have j': "f2 = [] \<and> job_request j' = job_request j0 \<and> job_stop j' = job_stop j0 \<and> job_generated j' = n"
      "n1 < n \<longrightarrow> \<not> stops_at j0 (ref_token sp j0 (n - 1))" using n(5) by blast+
    then show "f1 @ f2 = [] \<and> job_request j' = job_request j0 \<and> job_stop j' = job_stop j0 \<and> job_generated j' = n \<and>
      (job_generated j0 < n \<longrightarrow> \<not> stops_at j0 (ref_token sp j0 (n - 1)))" using last n1(4) by simp
  qed
  moreover have "now = None \<longrightarrow> (\<exists>f. f1 @ f2 = [f] \<and> (f = FinStop \<longrightarrow> job_generated j0 < n \<and> stops_at j0 (ref_token sp j0 (n - 1))) \<and>
      (f = FinLength \<longrightarrow> n = rq_max_new_tokens (job_request j0)))"
    unfolding n1(4) append_Nil using n(6) n1(1) le_less_trans by blast
  moreover have "job_generated j0 \<le> n" using n1(1) n(1) by simp
  ultimately show ?thesis unfolding received_def using n(2) ref all by blast
qed

lemma step_received:
  assumes eff: "step_effect sp J0 J evs" and job: "J0 i = Some j0" and gen: "job_generated j0 < rq_max_new_tokens (job_request j0)"
  shows "received sp j0 (tokens_of i evs) (finishes_of i evs) (J i)"
proof (cases "i \<in> ev_request ` set evs")
  case False
  then have "rel_option same_progress (J0 i) (J i)" using eff by (simp add: step_effect_def)
  then obtain j where "J i = Some j" "same_progress j0 j" using job by (auto elim: option.rel_cases)
  then show ?thesis using received_none [of j0 j] gen of_absent [OF False] by (simp add: same_progress_def)
next
  case True
  then obtain e where e: "e \<in> set evs" "ev_request e = i" by blast
  note single = of_single [OF _ e]
  have dist: "distinct (map ev_request evs)" and ok: "event_ok sp J0 J e" using eff e(1) by (simp_all add: step_effect_def)
  show ?thesis
  proof (cases "ev_token e")
    case None
    then have "ev_finish e = Some (FinError ''KV growth'')" "J i = None" using ok e(2) by (auto simp: event_ok_def)
    then show ?thesis using single [OF dist] None received_end [of j0] gen by simp
  next
    case (Some tok)
    then have tok: "token_event_ok sp j0 (J i) tok (ev_finish e)" using ok e(2) job by (auto simp: event_ok_def)
    let ?n = "job_generated j0 + 1"
    have t: "tok = ref_token sp j0 (job_generated j0)" using tok by (simp add: token_event_ok_def)
    have fin: "ev_finish e = (if stops_at j0 tok then Some FinStop
      else if job_generated j0 + 1 = rq_max_new_tokens (job_request j0) then Some FinLength else None)"
      using tok by (simp add: token_event_ok_def)
    have toks: "tokens_of i evs = [tok]" "finishes_of i evs = (case ev_finish e of None \<Rightarrow> [] | Some f \<Rightarrow> [f])"
      using single [OF dist] Some by simp_all
    have ref: "reference sp (rq_prompt (job_request j0)) (job_generated j0) @ [tok] = reference sp (rq_prompt (job_request j0)) ?n"
      using t by simp
    show ?thesis
    proof (cases "ev_finish e")
      case None
      then have "\<not> stops_at j0 tok" using fin by (auto split: if_splits)
      moreover obtain j where "J i = Some j" "job_request j = job_request j0" "job_stop j = job_stop j0" "job_generated j = ?n"
        using tok None by (auto simp: token_event_ok_def)
      ultimately show ?thesis
        unfolding received_def toks using None ref gen t by (intro exI [of _ ?n]) auto
    next
      case (Some f)
      then have "J i = None" using tok by (auto simp: token_event_ok_def split: if_splits)
      moreover have "f = FinStop \<Longrightarrow> stops_at j0 tok" "f = FinLength \<Longrightarrow> ?n = rq_max_new_tokens (job_request j0)"
        using fin Some by (auto split: if_splits)
      ultimately show ?thesis
        unfolding received_def toks using Some ref gen t by (intro exI [of _ ?n]) auto
    qed
  qed
qed

lemma step_absent:
  assumes eff: "step_effect sp J0 J evs" and "J0 i = None"
  shows "i \<notin> ev_request ` set evs" "J i = None"
proof -
  show no: "i \<notin> ev_request ` set evs"
  proof
    assume "i \<in> ev_request ` set evs"
    then obtain e where "e \<in> set evs" "ev_request e = i" by blast
    then have "event_ok sp J0 J e" "ev_request e = i" using eff by (auto simp: step_effect_def)
    then show False using assms(2) by (auto simp: event_ok_def)
  qed
  then have "rel_option same_progress (J0 i) (J i)" using eff by (simp add: step_effect_def)
  then show "J i = None" using assms(2) by (auto elim: option.rel_cases)
qed

text \<open>One call, seen from one request.\<close>

lemma submit_other:
  assumes ready: "live_ready s" and "rq_id rq \<noteq> i"
  shows "map_of (lv_jobs (snd (live_submit rq stops s))) i = map_of (lv_jobs s) i"
  using live_submit_sound [of s rq stops "fst (live_submit rq stops s)" "snd (live_submit rq stops s)"] assms
  by (auto simp: live_ready_def split: if_splits)

lemma call_received:
  assumes ready: "live_ready s" and other: "\<And>rq stops. c = LvSubmit rq stops \<Longrightarrow> rq_id rq \<noteq> i"
    and job: "map_of (lv_jobs s) i = Some j0"
  shows "received (live_spec s) j0 (tokens_of i (live_events c s)) (finishes_of i (live_events c s)) (map_of (lv_jobs (live_exec c s)) i)"
proof -
  have sound: "live_sound s" "live_open s" using ready by (simp_all add: live_ready_def)
  have gen: "job_generated j0 < rq_max_new_tokens (job_request j0)" using sound(2) job by (simp add: live_open_def)
  show ?thesis
  proof (cases c)
    case (LvSubmit rq stops)
    then show ?thesis using submit_other [OF ready other] job received_none [of j0 j0] gen by simp
  next
    case (LvCancel k)
    obtain t where t: "live_cancel k s = (Ok (if map_of (lv_jobs s) k = None then None
      else Some \<lparr>ev_request = k, ev_token = None, ev_finish = Some FinAbort\<rparr>), t)" "lv_jobs t = bt_remove k (lv_jobs s)"
      using live_cancel_run [OF sound] by blast
    show ?thesis
    proof (cases "k = i")
      case True
      then show ?thesis using LvCancel t job received_end [of j0 FinAbort] gen by (simp add: tokens_of_def finishes_of_def)
    next
      case False
      then have "i \<notin> ev_request ` set (live_events c s)" using LvCancel t(1) by simp
      note a = of_absent [OF this]
      have "map_of (lv_jobs (live_exec c s)) i = Some j0" using LvCancel t False job by simp
      then show ?thesis using a received_none [of j0 j0] gen by simp
    qed
  next
    case LvStep
    obtain evs t where t: "live_step s = (Ok evs, t)" "step_effect (live_spec s) (map_of (lv_jobs s)) (map_of (lv_jobs t)) evs"
      using live_step_run [OF sound] by blast
    show ?thesis using LvStep t(1) step_received [OF t(2) job gen] by simp
  qed
qed

lemma call_absent:
  assumes ready: "live_ready s" and other: "\<And>rq stops. c = LvSubmit rq stops \<Longrightarrow> rq_id rq \<noteq> i"
    and job: "map_of (lv_jobs s) i = None"
  shows "i \<notin> ev_request ` set (live_events c s) \<and> map_of (lv_jobs (live_exec c s)) i = None"
proof (cases c)
  case (LvSubmit rq stops)
  then show ?thesis using submit_other [OF ready other] job by simp
next
  case (LvCancel k)
  obtain t where t: "live_cancel k s = (Ok (if map_of (lv_jobs s) k = None then None
    else Some \<lparr>ev_request = k, ev_token = None, ev_finish = Some FinAbort\<rparr>), t)" "lv_jobs t = bt_remove k (lv_jobs s)"
    using live_cancel_run [of s k] ready by (auto simp: live_ready_def)
  then show ?thesis using LvCancel job by auto
next
  case LvStep
  obtain evs t where t: "live_step s = (Ok evs, t)" "step_effect (live_spec s) (map_of (lv_jobs s)) (map_of (lv_jobs t)) evs"
    using live_step_run [of s] ready by (auto simp: live_ready_def)
  then show ?thesis using LvStep step_absent [OF t(2) job] by simp
qed

text \<open>Any sequence of calls that does not submit the same id again.\<close>

lemma trace_absent:
  assumes "live_ready s" and "\<And>rq stops. LvSubmit rq stops \<in> set cs \<Longrightarrow> rq_id rq \<noteq> i" and "map_of (lv_jobs s) i = None"
  shows "i \<notin> ev_request ` set (live_trace cs s) \<and> map_of (lv_jobs (fold live_exec cs s)) i = None"
  using assms
proof (induction cs arbitrary: s)
  case (Cons c cs)
  have "i \<notin> ev_request ` set (live_events c s)" "map_of (lv_jobs (live_exec c s)) i = None"
    using call_absent [OF Cons.prems(1) _ Cons.prems(3), of c] Cons.prems(2) by auto
  then show ?case using Cons.IH [OF live_exec_ready [OF Cons.prems(1)]] Cons.prems(2) by auto
qed simp

lemma trace_received:
  assumes "live_ready s" and "\<And>rq stops. LvSubmit rq stops \<in> set cs \<Longrightarrow> rq_id rq \<noteq> i" and "map_of (lv_jobs s) i = Some j0"
  shows "received (live_spec s) j0 (tokens_of i (live_trace cs s)) (finishes_of i (live_trace cs s)) (map_of (lv_jobs (fold live_exec cs s)) i)"
  using assms
proof (induction cs arbitrary: s j0)
  case Nil
  have "job_generated j0 \<le> rq_max_new_tokens (job_request j0)"
    using Nil by (simp add: live_ready_def live_open_def less_imp_le)
  then show ?case using Nil received_none [of j0 j0] by simp
next
  case (Cons c cs)
  note ready = live_exec_ready [OF Cons.prems(1), of c]
  have one: "received (live_spec s) j0 (tokens_of i (live_events c s)) (finishes_of i (live_events c s)) (map_of (lv_jobs (live_exec c s)) i)"
    using call_received [OF Cons.prems(1) _ Cons.prems(3), of c] Cons.prems(2) by auto
  show ?case
  proof (cases "map_of (lv_jobs (live_exec c s)) i")
    case None
    have rest: "i \<notin> ev_request ` set (live_trace cs (live_exec c s))" "map_of (lv_jobs (fold live_exec cs (live_exec c s))) i = None"
      using trace_absent [OF ready _ None, of cs] Cons.prems(2) by auto
    then show ?thesis using one None of_absent [OF rest(1)] by simp
  next
    case (Some j)
    have "received (live_spec (live_exec c s)) j (tokens_of i (live_trace cs (live_exec c s))) (finishes_of i (live_trace cs (live_exec c s)))
        (map_of (lv_jobs (fold live_exec cs (live_exec c s))) i)"
      using Cons.IH [OF ready _ Some] Cons.prems(2) by auto
    then show ?thesis using received_trans [OF one [unfolded Some]] live_exec_artifact [OF Cons.prems(1), of c] by simp
  qed
qed

section \<open>Properties\<close>

lemma reachable_ready:
  assumes "compile x (art_spec a) (art_target a) = Ok a" and "target_backend (art_target a) = Mock"
    and "1 < vocab (spec_model (art_spec a))" and "live_mock x a cap = Ok s0"
  shows "live_ready (fold live_exec cs s0)" "lv_artifact (fold live_exec cs s0) = a"
proof -
  have start: "live_ready s0" "lv_artifact s0 = a" using live_mock_ready(2) [OF assms] by auto
  show "live_ready (fold live_exec cs s0)" by (rule scheduler.run_inv [OF start(1)])
  show "lv_artifact (fold live_exec cs s0) = a"
    by (rule scheduler.run_stable [where P = "\<lambda>s. lv_artifact s = a", OF _ start]) (simp add: live_exec_artifact)
qed

text \<open>C8. The scheduler never fails: in every state it can reach, a step and a cancellation succeed and a
  submission does not panic, whatever requests were submitted and in whatever order.\<close>

theorem live_never_fails:
  assumes "compile x (art_spec a) (art_target a) = Ok a" and "target_backend (art_target a) = Mock"
    and "1 < vocab (spec_model (art_spec a))" and "live_mock x a cap = Ok s0" and "s = fold live_exec cs s0"
  shows "is_ok (fst (live_step s)) \<and> is_ok (fst (live_cancel i s)) \<and> fst (live_submit rq stops s) \<noteq> Panic"
proof -
  have ready: "live_sound s" "live_open s" using reachable_ready(1) [OF assms(1-4), of cs] assms(5) by (simp_all add: live_ready_def)
  obtain evs t e u where "live_step s = (Ok evs, t)" "live_cancel i s = (Ok e, u)"
    using live_step_run [OF ready] live_cancel_run [OF ready, of i] by blast
  moreover have "fst (live_submit rq stops s) \<noteq> Panic"
    using live_submit_sound [OF ready, of rq stops "fst (live_submit rq stops s)" "snd (live_submit rq stops s)"] by simp
  ultimately show ?thesis by simp
qed

lemma reference_nth: "k < n \<Longrightarrow> reference sp prompt n ! k = next_ref sp (prompt @ reference sp prompt k)"
  by (induction n) (auto simp: nth_append less_Suc_eq)

definition stop_token :: "request \<Rightarrow> nat list \<Rightarrow> nat \<Rightarrow> bool" where
  "stop_token rq stops t \<longleftrightarrow> rq_eos rq = Some t \<or> t \<in> set stops"

text \<open>C2. What a request receives, whatever else is submitted, cancelled and stepped meanwhile: the first \<open>n\<close>
  tokens of the reference generation of its prompt, \<open>n\<close> at most the requested number and no token after a
  stop token; while it is served no finish, and at the end exactly one, which says \<open>FinStop\<close> only after a
  stop token and \<open>FinLength\<close> only after the requested number of tokens. Chunked prefill, batching, the
  handover between the roles and the order of the calls change nothing in the tokens.\<close>

theorem live_generates:
  assumes "compile x (art_spec a) (art_target a) = Ok a" and "target_backend (art_target a) = Mock"
    and "1 < vocab (spec_model (art_spec a))" and "live_mock x a cap = Ok s0"
    and "live_submit rq stops (fold live_exec cs s0) = (Ok (), s)"
    and "\<And>rq' stops'. LvSubmit rq' stops' \<in> set ds \<Longrightarrow> rq_id rq' \<noteq> rq_id rq"
  shows "\<exists>n \<le> rq_max_new_tokens rq. let out = reference (art_spec a) (rq_prompt rq) n in
    tokens_of (rq_id rq) (live_trace ds s) = out \<and> (\<forall>k. k + 1 < n \<longrightarrow> \<not> stop_token rq stops (out ! k)) \<and>
    (if map_of (lv_jobs (fold live_exec ds s)) (rq_id rq) \<noteq> None
     then finishes_of (rq_id rq) (live_trace ds s) = [] \<and> (0 < n \<longrightarrow> \<not> stop_token rq stops (out ! (n - 1)))
     else \<exists>f. finishes_of (rq_id rq) (live_trace ds s) = [f] \<and> (f = FinStop \<longrightarrow> 0 < n \<and> stop_token rq stops (out ! (n - 1))) \<and>
       (f = FinLength \<longrightarrow> n = rq_max_new_tokens rq))"
proof -
  let ?s = "fold live_exec cs s0" let ?now = "map_of (lv_jobs (fold live_exec ds s)) (rq_id rq)"
  note r = reachable_ready [OF assms(1-4), of cs]
  have sound: "live_sound ?s" "live_open ?s" using r(1) by (simp_all add: live_ready_def)
  obtain l where s: "live_sound s" "live_open s" "lv_artifact s = a"
    "lv_jobs s = bt_insert (rq_id rq) (new_job (art_spec a) rq stops l) (lv_jobs ?s)"
    using live_submit_sound [OF sound assms(5)] r(2) by auto
  let ?j = "new_job (art_spec a) rq stops l"
  have j: "job_generated ?j = 0" "rq_prompt (job_request ?j) = rq_prompt rq" "rq_max_new_tokens (job_request ?j) = rq_max_new_tokens rq"
    "stops_at ?j = stop_token rq stops" by (simp_all add: new_job_def stops_at_def stop_token_def fun_eq_iff)
  have "received (art_spec a) ?j (tokens_of (rq_id rq) (live_trace ds s)) (finishes_of (rq_id rq) (live_trace ds s)) ?now"
    using trace_received [of s ds "rq_id rq" ?j] s assms(6) by (auto simp: live_ready_def)
  then obtain n where n': "n \<le> rq_max_new_tokens rq"
    "reference (art_spec a) (rq_prompt (job_request ?j)) 0 @ tokens_of (rq_id rq) (live_trace ds s) = reference (art_spec a) (rq_prompt (job_request ?j)) n"
    "\<forall>k. 0 \<le> k \<and> k + 1 < n \<longrightarrow> \<not> stop_token rq stops (ref_token (art_spec a) ?j k)"
    and n: "\<forall>j. ?now = Some j \<longrightarrow> finishes_of (rq_id rq) (live_trace ds s) = [] \<and>
      job_request j = job_request ?j \<and> job_stop j = job_stop ?j \<and> job_generated j = n \<and>
      (0 < n \<longrightarrow> \<not> stop_token rq stops (ref_token (art_spec a) ?j (n - 1)))"
    "?now = None \<longrightarrow> (\<exists>f. finishes_of (rq_id rq) (live_trace ds s) = [f] \<and> (f = FinStop \<longrightarrow>
      0 < n \<and> stop_token rq stops (ref_token (art_spec a) ?j (n - 1))) \<and> (f = FinLength \<longrightarrow> n = rq_max_new_tokens rq))"
    unfolding received_def j(1,3,4) by (elim exE conjE) (rule that; assumption)
  have toks: "tokens_of (rq_id rq) (live_trace ds s) = reference (art_spec a) (rq_prompt rq) n" using n'(2) by (simp add: j(2))
  have last: "0 < n \<Longrightarrow> reference (art_spec a) (rq_prompt rq) n ! (n - 1) = ref_token (art_spec a) ?j (n - 1)"
    by (simp add: reference_nth j(2))
  have "\<forall>k. k + 1 < n \<longrightarrow> \<not> stop_token rq stops (reference (art_spec a) (rq_prompt rq) n ! k)"
    using n'(3) by (simp add: reference_nth j(2))
  moreover have "if ?now \<noteq> None
     then finishes_of (rq_id rq) (live_trace ds s) = [] \<and> (0 < n \<longrightarrow> \<not> stop_token rq stops (reference (art_spec a) (rq_prompt rq) n ! (n - 1)))
     else \<exists>f. finishes_of (rq_id rq) (live_trace ds s) = [f] \<and>
       (f = FinStop \<longrightarrow> 0 < n \<and> stop_token rq stops (reference (art_spec a) (rq_prompt rq) n ! (n - 1))) \<and>
       (f = FinLength \<longrightarrow> n = rq_max_new_tokens rq)"
  proof (cases ?now)
    case None
    then obtain f where "finishes_of (rq_id rq) (live_trace ds s) = [f]" "f = FinLength \<longrightarrow> n = rq_max_new_tokens rq"
      "f = FinStop \<longrightarrow> 0 < n \<and> stop_token rq stops (ref_token (art_spec a) ?j (n - 1))"
      using n(2) by blast
    then show ?thesis using None last by simp
  next
    case (Some j)
    then have "finishes_of (rq_id rq) (live_trace ds s) = []"
      "0 < n \<longrightarrow> \<not> stop_token rq stops (ref_token (art_spec a) ?j (n - 1))"
      using n(1) by blast+
    then show ?thesis using Some last by simp
  qed
  ultimately show ?thesis unfolding Let_def using n'(1) toks by blast
qed

section \<open>Resources\<close>

lemma alist_length_count:
  assumes "bt_wf m" and "bt_wf n" and "\<And>i. map_of m i = Option.bind (map_of n i) f"
  shows "length m = card {i. \<exists>j. map_of n i = Some j \<and> f j \<noteq> None}"
proof -
  have "length m = card (dom (map_of m))"
    using bt_wf_distinct [OF assms(1)] by (metis distinct_card dom_map_of_conv_image_fst length_map list.set_map)
  moreover have "dom (map_of m) = {i. \<exists>j. map_of n i = Some j \<and> f j \<noteq> None}"
    using assms(3) by (auto simp: dom_def bind_eq_Some_conv)
  ultimately show ?thesis by simp
qed

lemma allocations_jobs:
  assumes sound: "live_sound s"
  shows "live_allocations s = length (lv_jobs s)"
proof -
  note D = live_soundD [OF sound]
  let ?J = "map_of (lv_jobs s)"
  have wf: "bt_wf (lv_jobs s)" "bt_wf (rp_active (lv_p_pool s))" "bt_wf (rp_active (tr_pool (lv_transport s)))"
    using D(2,4) by (auto simp: jobs_sound_def pools_sound_def pool_sound_def transport_sound_def)
  have none: "rp_retired (lv_p_pool s) = []" "rp_retired (tr_pool (lv_transport s)) = []" using D(2) by (simp_all add: pools_sound_def)
  let ?P = "{i. \<exists>j. ?J i = Some j \<and> job_prefill j \<noteq> None}" and ?D = "{i. \<exists>j. ?J i = Some j \<and> job_decode j \<noteq> None}"
  have split: "?P \<union> ?D = dom ?J" "?P \<inter> ?D = {}"
  proof -
    have "job_decode j = None" if "?J i = Some j" "job_prefill j \<noteq> None" for i j
      using job_soundD [OF sound that(1)] that(2) by (simp add: job_sound_def Let_def)
    then have "i \<notin> ?D" if "i \<in> ?P" for i using that by auto
    then show "?P \<inter> ?D = {}" by blast
    have "job_decode j \<noteq> None" if "?J i = Some j" "job_prefill j = None" for i j
      using job_soundD [OF sound that(1)] that(2) by (simp add: job_sound_def Let_def)
    then have "i \<in> ?P \<union> ?D" if "?J i = Some j" for i j using that by (cases "job_prefill j") auto
    then have "dom ?J \<subseteq> ?P \<union> ?D" by blast
    then show "?P \<union> ?D = dom ?J" by blast
  qed
  have "finite (?P \<union> ?D)" unfolding split(1) by (rule finite_dom_map_of)
  then have fin: "finite ?P" "finite ?D" by (simp_all only: finite_Un)
  have "length (rp_active (lv_p_pool s)) = card ?P" "length (rp_active (tr_pool (lv_transport s))) = card ?D"
    using D(3) by (intro alist_length_count wf; simp add: leases_match_def)+
  then have "live_allocations s = card (dom ?J)"
    using card_Un_disjoint [OF fin split(2)] split(1) none by (simp add: live_allocations_def pool_allocations_def)
  also have "\<dots> = length (lv_jobs s)"
    using bt_wf_distinct [OF wf(1)] by (metis distinct_card dom_map_of_conv_image_fst length_map list.set_map)
  finally show ?thesis .
qed

lemma pool_idle_free:
  assumes "pool_sound n_pages n_slots p" and "rp_active p = []" and "rp_retired p = []"
  shows "rp_free_pages p = [0..<n_pages] \<and> rp_free_slots p = [0..<n_slots]"
proof -
  have "mset (rp_free_pages p) = mset [0..<n_pages]" "mset (rp_free_slots p) = mset [0..<n_slots]" "bs_wf (rp_free_pages p)" "bs_wf (rp_free_slots p)"
    using assms by (simp_all add: pool_sound_def leases_def)
  moreover have "sorted xs \<and> distinct xs" if "bs_wf xs" for xs :: "nat list"
    using that by (simp add: bs_wf_def strict_sorted_iff)
  ultimately show ?thesis by (metis distinct_upt properties_for_sort sorted_upt)
qed

text \<open>C5. No resource leaks: in every reachable state the leases of the two pools number exactly the jobs, and
  an idle scheduler has every page and every slot of both pools free.\<close>

theorem live_no_leak:
  assumes "compile x (art_spec a) (art_target a) = Ok a" and "target_backend (art_target a) = Mock"
    and "1 < vocab (spec_model (art_spec a))" and "live_mock x a cap = Ok s0" and "s = fold live_exec cs s0"
  shows "live_allocations s = length (lv_jobs s) \<and>
    (live_idle s \<longrightarrow> (\<forall>p \<in> {lv_p_pool s, tr_pool (lv_transport s)}.
       rp_free_pages p = [0..<cap_pages (lv_capacity s)] \<and> rp_free_slots p = [0..<cap_slots (lv_capacity s)]))"
proof -
  have sound: "live_sound s" using reachable_ready(1) [OF assms(1-4), of cs] assms(5) by (simp add: live_ready_def)
  note D = live_soundD [OF sound]
  have alloc: "live_allocations s = length (lv_jobs s)" by (rule allocations_jobs [OF sound])
  have P: "pool_sound (cap_pages (lv_capacity s)) (cap_slots (lv_capacity s)) (lv_p_pool s)"
    "pool_sound (cap_pages (lv_capacity s)) (cap_slots (lv_capacity s)) (tr_pool (lv_transport s))"
    using D(2) by (simp_all add: pools_sound_def transport_sound_def)
  have "rp_free_pages p = [0..<cap_pages (lv_capacity s)] \<and> rp_free_slots p = [0..<cap_slots (lv_capacity s)]"
    if "live_idle s" and p: "p \<in> {lv_p_pool s, tr_pool (lv_transport s)}" for p
  proof -
    have "live_allocations s = 0" using alloc that(1) by (simp add: live_idle_def)
    then have "rp_active p = []" "rp_retired p = []" using p by (auto simp: live_allocations_def pool_allocations_def)
    then show ?thesis using pool_idle_free P p by blast
  qed
  then show ?thesis using alloc by blast
qed

text \<open>C23. Without new calls every reachable scheduler drains: each step of a busy scheduler decreases the
  work left, so it is idle after at most \<open>total_work\<close> steps.\<close>

theorem live_drains:
  assumes "compile x (art_spec a) (art_target a) = Ok a" and "target_backend (art_target a) = Mock"
    and "1 < vocab (spec_model (art_spec a))" and "live_mock x a cap = Ok s0"
  shows "\<exists>n \<le> total_work (fold live_exec cs s0). live_idle (fold live_exec (cs @ replicate n LvStep) s0)"
proof -
  have "live_ready s \<Longrightarrow> \<exists>n \<le> total_work s. live_idle (fold live_exec (replicate n LvStep) s)" for s
  proof (induction "total_work s" arbitrary: s rule: less_induct)
    case less
    show ?case
    proof (cases "live_idle s")
      case False
      obtain evs t where t: "live_step s = (Ok evs, t)" "live_sound t" "live_open t" "total_work t < total_work s"
        using live_step_run [of s] less.prems False by (auto simp: live_ready_def)
      then obtain n where "n \<le> total_work t" "live_idle (fold live_exec (replicate n LvStep) t)"
        using less.hyps [OF t(4)] by (auto simp: live_ready_def)
      then show ?thesis using t(1,4) by (intro exI [of _ "Suc n"]) simp
    qed (intro exI [of _ 0], simp)
  qed
  from this [OF reachable_ready(1) [OF assms, of cs]] show ?thesis by simp
qed

section \<open>Witnesses\<close>

definition example_capacity :: capacity where
  "example_capacity = \<lparr>cap_pages = 4, cap_slots = 2\<rparr>"

definition example_live :: live_scheduler where
  "example_live = (case live_mock (example_externals example_artifact) example_artifact example_capacity of Ok s \<Rightarrow> s)"

definition example_request :: "nat \<Rightarrow> request" where
  "example_request i = \<lparr>rq_id = i, rq_prompt = [1, 2, 3, 4, 5], rq_max_new_tokens = 3, rq_submit_at = 0, rq_cancel_at = None, rq_eos = None\<rparr>"

lemma example_live_start:
  "live_mock (example_externals example_artifact) example_artifact example_capacity = Ok example_live"
  using live_mock_ready(1) [of "example_externals example_artifact" example_artifact example_capacity]
  by (auto simp: example_artifact_spec example_compiles example_spec_sizes example_capacity_def is_ok_iff example_live_def)

lemmas example_live_facts = example_live_start example_artifact_spec example_compiles example_spec_sizes

theorem live_never_fails_witness:
  "is_ok (fst (live_step (fold live_exec [LvSubmit (example_request 1) [], LvStep, LvCancel 1] example_live)))"
proof -
  have "is_ok (fst (live_step (fold live_exec [LvSubmit (example_request 1) [], LvStep, LvCancel 1] example_live))) \<and>
    is_ok (fst (live_cancel 1 (fold live_exec [LvSubmit (example_request 1) [], LvStep, LvCancel 1] example_live))) \<and>
    fst (live_submit (example_request 1) [] (fold live_exec [LvSubmit (example_request 1) [], LvStep, LvCancel 1] example_live)) \<noteq> Panic"
    by (rule live_never_fails [where x = "example_externals example_artifact" and a = example_artifact and cap = example_capacity, OF _ _ _ _ refl])
      (simp_all add: example_live_facts)
  then show ?thesis by (rule conjunct1)
qed

theorem live_no_leak_witness:
  "live_allocations (fold live_exec [LvSubmit (example_request 1) [], LvStep] example_live) =
     length (lv_jobs (fold live_exec [LvSubmit (example_request 1) [], LvStep] example_live))"
  using live_no_leak [where x = "example_externals example_artifact" and a = example_artifact and cap = example_capacity
      and cs = "[LvSubmit (example_request 1) [], LvStep]" and ?s0.0 = example_live, OF _ _ _ _ refl]
  by (simp add: example_live_facts)

theorem live_drains_witness:
  "\<exists>n. live_idle (fold live_exec ([LvSubmit (example_request 1) []] @ replicate n LvStep) example_live)"
  using live_drains [where x = "example_externals example_artifact" and a = example_artifact and cap = example_capacity
      and cs = "[LvSubmit (example_request 1) []]" and ?s0.0 = example_live]
  by (auto simp: example_live_facts)

lemma example_live_fields:
  "lv_jobs example_live = []" "lv_epoch example_live = 0" "lv_capacity example_live = example_capacity" "lv_artifact example_live = example_artifact"
  "lv_p_pool example_live = \<lparr>rp_page_tokens = 4, rp_free_pages = [0, 1, 2, 3], rp_free_slots = [0, 1], rp_active = [], rp_retired = [], rp_generation = 0\<rparr>"
proof -
  have size: "spec_page_tokens example_spec = 4" by (simp add: example_spec_def)
  have "pool_create (cap_pages example_capacity) (cap_slots example_capacity) (spec_page_tokens (art_spec example_artifact)) =
      Ok \<lparr>rp_page_tokens = 4, rp_free_pages = [0, 1, 2, 3], rp_free_slots = [0, 1], rp_active = [], rp_retired = [], rp_generation = 0\<rparr>"
    by (simp add: pool_create_def reject_def example_capacity_def example_artifact_spec size upt_rec)
  moreover obtain pw dw t p where e: "pool_create (cap_pages example_capacity) (cap_slots example_capacity) (spec_page_tokens (art_spec example_artifact)) = Ok p"
    "\<lparr>lv_artifact = example_artifact, lv_prefill = pw, lv_decode = dw, lv_p_pool = p, lv_transport = t, lv_jobs = [], lv_queue = [],
      lv_capacity = example_capacity, lv_epoch = 0\<rparr> = example_live"
    using example_live_start by (auto simp: live_mock_def outcome_simps)
  ultimately have p: "p = \<lparr>rp_page_tokens = 4, rp_free_pages = [0, 1, 2, 3], rp_free_slots = [0, 1], rp_active = [], rp_retired = [], rp_generation = 0\<rparr>"
    by simp
  show "lv_p_pool example_live = \<lparr>rp_page_tokens = 4, rp_free_pages = [0, 1, 2, 3], rp_free_slots = [0, 1], rp_active = [], rp_retired = [], rp_generation = 0\<rparr>"
    "lv_jobs example_live = []" "lv_epoch example_live = 0" "lv_capacity example_live = example_capacity" "lv_artifact example_live = example_artifact"
    unfolding e(2) [symmetric] p by simp_all
qed

lemma example_live_submit: "\<exists>s. live_submit (example_request 1) [] example_live = (Ok (), s)"
proof -
  have "spec_page_tokens example_spec = 4" by (simp add: example_spec_def)
  moreover have "div_ceil (Suc (Suc (Suc (Suc (Suc 0))))) 4 = 2" by (simp add: div_ceil_def)
  ultimately show ?thesis
    by (simp add: live_submit_def example_live_fields example_artifact_spec example_request_def example_spec_sizes example_capacity_def
        reject_def checked_add_def div_ceil_out_def bind_op_def on_p_pool_def pool_reserve_def fit_def Let_def)
qed

theorem live_generates_witness:
  "\<exists>s n. live_submit (example_request 1) [] example_live = (Ok (), s) \<and> n \<le> 3 \<and>
     tokens_of 1 (live_trace [LvStep, LvSubmit (example_request 2) [], LvStep] s) = reference example_spec [1, 2, 3, 4, 5] n"
proof -
  obtain s where s: "live_submit (example_request 1) [] (fold live_exec [] example_live) = (Ok (), s)"
    using example_live_submit by auto
  have other: "LvSubmit rq' stops' \<in> set [LvStep, LvSubmit (example_request 2) [], LvStep] \<Longrightarrow> rq_id rq' \<noteq> rq_id (example_request 1)" for rq' stops'
    by (auto simp: example_request_def)
  have "\<exists>n \<le> rq_max_new_tokens (example_request 1). let out = reference (art_spec example_artifact) (rq_prompt (example_request 1)) n in
    tokens_of (rq_id (example_request 1)) (live_trace [LvStep, LvSubmit (example_request 2) [], LvStep] s) = out \<and>
    (\<forall>k. k + 1 < n \<longrightarrow> \<not> stop_token (example_request 1) [] (out ! k)) \<and>
    (if map_of (lv_jobs (fold live_exec [LvStep, LvSubmit (example_request 2) [], LvStep] s)) (rq_id (example_request 1)) \<noteq> None
     then finishes_of (rq_id (example_request 1)) (live_trace [LvStep, LvSubmit (example_request 2) [], LvStep] s) = [] \<and>
       (0 < n \<longrightarrow> \<not> stop_token (example_request 1) [] (out ! (n - 1)))
     else \<exists>f. finishes_of (rq_id (example_request 1)) (live_trace [LvStep, LvSubmit (example_request 2) [], LvStep] s) = [f] \<and>
       (f = FinStop \<longrightarrow> 0 < n \<and> stop_token (example_request 1) [] (out ! (n - 1))) \<and>
       (f = FinLength \<longrightarrow> n = rq_max_new_tokens (example_request 1)))"
    by (rule live_generates [where x = "example_externals example_artifact" and a = example_artifact and cap = example_capacity,
          OF _ _ _ _ s other]) (simp_all add: example_live_facts)
  then obtain n where "n \<le> rq_max_new_tokens (example_request 1)" "tokens_of (rq_id (example_request 1))
      (live_trace [LvStep, LvSubmit (example_request 2) [], LvStep] s) = reference (art_spec example_artifact) (rq_prompt (example_request 1)) n"
    unfolding Let_def by blast
  moreover have "rq_id (example_request 1) = 1" "rq_max_new_tokens (example_request 1) = 3" "rq_prompt (example_request 1) = [1, 2, 3, 4, 5]"
    by (simp_all add: example_request_def)
  ultimately have "n \<le> 3" "tokens_of 1 (live_trace [LvStep, LvSubmit (example_request 2) [], LvStep] s) = reference example_spec [1, 2, 3, 4, 5] n"
    by (simp_all only: example_artifact_spec)
  moreover have "live_submit (example_request 1) [] example_live = (Ok (), s)" using s by simp
  ultimately show ?thesis by blast
qed

end
