(* ===== verification/Device_Buffer.thy ===== *)
theory Device_Buffer
  imports Containers
begin

text \<open>
  Device-buffer contracts and their binding to kernel tensors
  (\<open>crates/inferfabric-plan/src/device_buffer.rs\<close>). Addresses, offsets and sizes are 64-bit unsigned
  integers with the checked operations of the code; a raw pointer is its address. The lifetime
  markers and the support description carry no behaviour and are left out.
\<close>

section \<open>Contracts\<close>

definition DEVICE_FORMAT :: string where
  "DEVICE_FORMAT = ''inferfabric.device-buffer.v1''"

datatype dtype = I8 | Bf16 | F32

fun dtype_bytes :: "dtype \<Rightarrow> nat" where
  "dtype_bytes I8 = 1"
| "dtype_bytes Bf16 = 2"
| "dtype_bytes F32 = 4"

fun abi_tag :: "dtype \<Rightarrow> nat" where
  "abi_tag I8 = 1"
| "abi_tag Bf16 = 2"
| "abi_tag F32 = 3"

datatype buffer_access = Read | Write

datatype memory_class = ClWeight | ClState | ClActivation | ClWorkspace | ClInput | ClOutput

record device_allocation =
  da_id :: nat
  da_rank :: nat
  da_device :: nat
  da_bytes :: nat
  da_alignment :: nat
  da_class :: memory_class
  da_read_only :: bool

record tensor_view =
  tv_allocation :: nat
  tv_offset :: nat
  tv_dtype :: dtype
  tv_shape :: "nat list"
  tv_strides :: "nat list"
  tv_alignment :: nat
  tv_access :: buffer_access

record workspace =
  ws_allocation :: nat
  ws_offset :: nat
  ws_bytes :: nat
  ws_alignment :: nat

record device_call =
  dc_format :: string
  dc_implementation :: string
  dc_binary_sha256 :: string
  dc_numerical_contract :: string
  dc_rank :: nat
  dc_device :: nat
  dc_stream :: nat
  dc_allocations :: "device_allocation list"
  dc_inputs :: "tensor_view list"
  dc_outputs :: "tensor_view list"
  dc_workspace :: "workspace option"

definition alignment_ok :: "nat \<Rightarrow> bool" where
  "alignment_ok a \<longleftrightarrow> a \<noteq> 0 \<and> is_power_of_two a"

definition overlap :: "nat \<times> nat \<Rightarrow> nat \<times> nat \<Rightarrow> bool" where
  "overlap a b \<longleftrightarrow> fst a < snd b \<and> fst b < snd a"

definition range_end :: "nat \<Rightarrow> nat \<Rightarrow> nat \<Rightarrow> nat outcome" where
  "range_end offset bytes cap =
     and_then (ok_or (checked_add 64 offset bytes) (invalid ''buffer range overflow'')) (\<lambda>limit.
     and_then (reject (bytes = 0 \<or> limit > cap) (invalid ''buffer range outside allocation'')) (\<lambda>_. Ok limit))"

text \<open>The loop of \<open>byte_span\<close>, from the last dimension to the first.\<close>

fun span_stride :: "(nat \<times> nat) list \<Rightarrow> nat \<Rightarrow> nat outcome" where
  "span_stride [] stride = Ok stride"
| "span_stride ((dim, actual) # rest) stride =
     and_then (reject (dim = 0 \<or> dim > 2 ^ 63 - 1 \<or> stride > 2 ^ 63 - 1 \<or> actual \<noteq> stride)
       (invalid ''kernel ABI requires contiguous positive views'')) (\<lambda>_.
     and_then (ok_or (checked_mul 64 stride dim) (invalid ''tensor shape overflow'')) (\<lambda>stride. span_stride rest stride))"

definition byte_span :: "tensor_view \<Rightarrow> nat outcome" where
  "byte_span v =
     and_then (reject (tv_shape v = [] \<or> length (tv_shape v) > 8 \<or> length (tv_strides v) \<noteq> length (tv_shape v))
       (invalid ''tensor rank/stride mismatch'')) (\<lambda>_.
     and_then (span_stride (rev (zip (tv_shape v) (tv_strides v))) 1) (\<lambda>stride.
     ok_or (checked_mul 64 stride (dtype_bytes (tv_dtype v))) (invalid ''tensor byte overflow'')))"

section \<open>Verification\<close>

definition is_ascii_hexdigit :: "char \<Rightarrow> bool" where
  "is_ascii_hexdigit c \<longleftrightarrow> c \<in> set ''0123456789abcdefABCDEF''"

fun check_allocations :: "device_call \<Rightarrow> device_allocation list \<Rightarrow> (nat, device_allocation) btmap \<Rightarrow> (nat, device_allocation) btmap outcome" where
  "check_allocations c [] table = Ok table"
| "check_allocations c (a # as) table =
     and_then (reject (map_of table (da_id a) \<noteq> None \<or> da_bytes a = 0 \<or> \<not> alignment_ok (da_alignment a)
         \<or> da_rank a \<noteq> dc_rank c \<or> da_device a \<noteq> dc_device c \<or> da_class a = ClWeight \<and> \<not> da_read_only a)
       (invalid ''allocation identity/placement/alignment'')) (\<lambda>_.
     check_allocations c as (bt_insert (da_id a) a table))"

type_synonym buffer_range = "nat \<times> nat \<times> nat"

definition check_view :: "(nat, device_allocation) btmap \<Rightarrow> buffer_access \<Rightarrow> tensor_view \<Rightarrow> buffer_range outcome" where
  "check_view table access v =
     and_then (ok_or (map_of table (tv_allocation v)) (invalid ''unknown tensor allocation'')) (\<lambda>a.
     and_then (reject (tv_access v \<noteq> access \<or> access = Write \<and> da_read_only a \<or> \<not> alignment_ok (tv_alignment v)
         \<or> tv_alignment v < dtype_bytes (tv_dtype v) \<or> da_alignment a < tv_alignment v \<or> \<not> tv_alignment v dvd tv_offset v)
       (invalid ''view access/alignment'')) (\<lambda>_.
     and_then (byte_span v) (\<lambda>bytes.
     and_then (range_end (tv_offset v) bytes (da_bytes a)) (\<lambda>limit.
     Ok (tv_allocation v, tv_offset v, limit)))))"

definition aliases :: "buffer_range \<Rightarrow> buffer_range \<Rightarrow> bool" where
  "aliases p q \<longleftrightarrow> fst p = fst q \<and> overlap (snd p) (snd q)"

text \<open>Every output against the inputs and the outputs before it.\<close>

fun check_aliases :: "buffer_range list \<Rightarrow> buffer_range list \<Rightarrow> unit outcome" where
  "check_aliases before [] = Ok ()"
| "check_aliases before (r # rs) =
     and_then (reject (\<exists>q \<in> set before. aliases r q) (invalid ''kernel ABI forbids writable aliases'')) (\<lambda>_.
     check_aliases (before @ [r]) rs)"

definition check_workspace :: "(nat, device_allocation) btmap \<Rightarrow> buffer_range list \<Rightarrow> workspace option \<Rightarrow> nat list outcome" where
  "check_workspace table ranges w = (case w of
     None \<Rightarrow> Ok []
   | Some w \<Rightarrow>
       and_then (ok_or (map_of table (ws_allocation w)) (invalid ''unknown workspace allocation'')) (\<lambda>a.
       and_then (reject (da_read_only a \<or> \<not> alignment_ok (ws_alignment w) \<or> ws_alignment w > 4096
           \<or> da_alignment a < ws_alignment w \<or> \<not> ws_alignment w dvd ws_offset w)
         (invalid ''workspace access/alignment'')) (\<lambda>_.
       and_then (range_end (ws_offset w) (ws_bytes w) (da_bytes a)) (\<lambda>limit.
       and_then (reject (\<exists>q \<in> set ranges. fst q = ws_allocation w \<and> overlap (ws_offset w, limit) (snd q))
         (invalid ''workspace aliases tensor'')) (\<lambda>_. Ok [ws_allocation w])))))"

definition verify_call :: "device_call \<Rightarrow> unit outcome" where
  "verify_call c =
     and_then (reject (dc_format c \<noteq> DEVICE_FORMAT \<or> dc_implementation c = [] \<or> dc_numerical_contract c = []
         \<or> length (dc_binary_sha256 c) \<noteq> 64 \<or> \<not> (\<forall>x \<in> set (dc_binary_sha256 c). is_ascii_hexdigit x)
         \<or> dc_allocations c = [] \<or> length (dc_allocations c) > 4096 \<or> dc_inputs c = [] \<or> dc_outputs c = []
         \<or> length (dc_inputs c) > 64 \<or> length (dc_outputs c) > 64)
       (invalid ''device invocation contract/version/port bounds'')) (\<lambda>_.
     and_then (check_allocations c (dc_allocations c) []) (\<lambda>table.
     and_then (collect (check_view table Read) (dc_inputs c)) (\<lambda>ins.
     and_then (collect (check_view table Write) (dc_outputs c)) (\<lambda>outs.
     and_then (check_aliases ins outs) (\<lambda>_.
     and_then (check_workspace table (ins @ outs) (dc_workspace c)) (\<lambda>ws.
     reject (length (bs_of (map fst ins @ map fst outs @ ws)) \<noteq> length table) (invalid ''unused invocation allocation'')))))))"

definition verify_prepared :: "device_call \<Rightarrow> string \<Rightarrow> string \<Rightarrow> nat \<Rightarrow> nat \<Rightarrow> unit outcome" where
  "verify_prepared c binary contract bytes align =
     and_then (verify_call c) (\<lambda>_.
     and_then (reject (binary \<noteq> dc_binary_sha256 c \<or> contract \<noteq> dc_numerical_contract c \<or> \<not> alignment_ok align \<or> align > 4096)
       (invalid ''prepared implementation/contract/alignment mismatch'')) (\<lambda>_.
     reject (\<not> (case dc_workspace c of Some w \<Rightarrow> bytes \<le> ws_bytes w \<and> align \<le> ws_alignment w | None \<Rightarrow> bytes = 0))
       (invalid ''prepared workspace exceeds frozen contract; replan explicitly'')))"

section \<open>Binding\<close>

record kernel_tensor =
  kt_struct_bytes :: nat
  kt_dtype :: nat
  kt_rank :: nat
  kt_access :: nat
  kt_data :: nat
  kt_allocation_bytes :: nat
  kt_shape :: "nat list"
  kt_strides :: "nat list"

record resident_allocation =
  ra_id :: nat
  ra_base :: nat
  ra_bytes :: nat
  ra_rank :: nat
  ra_device :: nat

record bound_call =
  bd_inputs :: "kernel_tensor list"
  bd_outputs :: "kernel_tensor list"
  bd_workspace :: nat
  bd_workspace_bytes :: nat

fun bind_residents :: "device_call \<Rightarrow> resident_allocation list \<Rightarrow> (nat, resident_allocation) btmap \<Rightarrow> (nat \<times> nat) list \<Rightarrow>
    (nat, resident_allocation) btmap outcome" where
  "bind_residents c [] table absolute = Ok table"
| "bind_residents c (r # rs) table absolute =
     and_then (ok_or (find (\<lambda>a. da_id a = ra_id r) (dc_allocations c)) (invalid ''unknown resident ID'')) (\<lambda>a.
     and_then (ok_or (checked_add 64 (ra_base r) (ra_bytes r)) (invalid ''resident pointer overflow'')) (\<lambda>limit.
     and_then (reject (map_of table (ra_id r) \<noteq> None \<or> ra_base r = 0 \<or> ra_bytes r < da_bytes a \<or> ra_rank r \<noteq> da_rank a
         \<or> ra_device r \<noteq> da_device a \<or> \<not> da_alignment a dvd ra_base r \<or> limit > 2 ^ 64 - 1
         \<or> (\<exists>q \<in> set absolute. overlap (ra_base r, limit) q))
       (invalid ''resident placement/capacity/alignment/alias mismatch'')) (\<lambda>_.
     bind_residents c rs (bt_insert (ra_id r) r table) (absolute @ [(ra_base r, limit)]))))"

text \<open>The loop that fills the two \<open>[i64; 8]\<close> arrays from the front.\<close>

definition abi_dims :: "(nat \<times> nat) list \<Rightarrow> (nat \<times> nat) list outcome" where
  "abi_dims ds = collect (\<lambda>(i, d, s).
     if i \<ge> 8 then Panic
     else and_then (ok_or (try_narrow 63 d) (invalid ''shape ABI overflow'')) (\<lambda>x.
       and_then (ok_or (try_narrow 63 s) (invalid ''stride ABI overflow'')) (\<lambda>y. Ok (x, y)))) (zip [0..<length ds] ds)"

definition abi_array :: "nat list \<Rightarrow> nat list" where
  "abi_array xs = xs @ replicate (8 - length xs) 0"

definition kernel_tensor_of :: "(nat, resident_allocation) btmap \<Rightarrow> tensor_view \<Rightarrow> kernel_tensor outcome" where
  "kernel_tensor_of table v =
     and_then (unwrap (map_of table (tv_allocation v))) (\<lambda>r.
     and_then (ok_or (checked_add 64 (ra_base r) (tv_offset v)) (invalid ''view pointer overflow'')) (\<lambda>address.
     and_then (abi_dims (zip (tv_shape v) (tv_strides v))) (\<lambda>dims.
     and_then (byte_span v) (\<lambda>bytes.
     Ok \<lparr>kt_struct_bytes = 160, kt_dtype = abi_tag (tv_dtype v), kt_rank = length (tv_shape v),
         kt_access = (if tv_access v = Read then 1 else 2), kt_data = address, kt_allocation_bytes = bytes,
         kt_shape = abi_array (map fst dims), kt_strides = abi_array (map snd dims)\<rparr>))))"

definition bind_workspace :: "(nat, resident_allocation) btmap \<Rightarrow> workspace option \<Rightarrow> (nat \<times> nat) outcome" where
  "bind_workspace table w = (case w of
     None \<Rightarrow> Ok (0, 0)
   | Some w \<Rightarrow>
       and_then (unwrap (map_of table (ws_allocation w))) (\<lambda>r.
       and_then (ok_or (checked_add 64 (ra_base r) (ws_offset w)) (invalid ''workspace pointer overflow'')) (\<lambda>address.
       Ok (address, ws_bytes w))))"

definition bind_call :: "device_call \<Rightarrow> resident_allocation list \<Rightarrow> bound_call outcome" where
  "bind_call c residents =
     and_then (verify_call c) (\<lambda>_.
     and_then (reject (length residents \<noteq> length (dc_allocations c)) (invalid ''resident allocation count'')) (\<lambda>_.
     and_then (bind_residents c residents [] []) (\<lambda>table.
     and_then (collect (kernel_tensor_of table) (dc_inputs c)) (\<lambda>ins.
     and_then (collect (kernel_tensor_of table) (dc_outputs c)) (\<lambda>outs.
     and_then (bind_workspace table (dc_workspace c)) (\<lambda>(ws, bytes).
     Ok \<lparr>bd_inputs = ins, bd_outputs = outs, bd_workspace = ws, bd_workspace_bytes = bytes\<rparr>))))))"

end
