(* ===== verification/Device_Buffer_Thms.thy ===== *)
theory Device_Buffer_Thms
  imports Device_Buffer
begin

text \<open>
  What verification and binding of a device call guarantee: the views are contiguous and row-major, the
  bound tensors lie aligned inside their resident allocations, and nothing a kernel writes overlaps
  anything else it is given, in absolute addresses.
\<close>

section \<open>Views\<close>

lemma alignment_dvd: "alignment_ok a \<Longrightarrow> alignment_ok b \<Longrightarrow> a \<le> b \<Longrightarrow> a dvd b"
  by (auto simp: alignment_ok_def is_power_of_two_iff le_imp_power_dvd)

fun row_strides :: "nat list \<Rightarrow> nat list" where
  "row_strides [] = []"
| "row_strides (d # ds) = prod_list ds # row_strides ds"

lemma span_stride_append:
  "span_stride (xs @ ys) n = and_then (span_stride xs n) (span_stride ys)"
proof (induction xs arbitrary: n)
  case (Cons x xs)
  obtain d a where x: "x = (d, a)" by (cases x)
  then show ?case by (cases "reject (d = 0 \<or> d > 2 ^ 63 - 1 \<or> n > 2 ^ 63 - 1 \<or> a \<noteq> n) (invalid ''kernel ABI requires contiguous positive views'')";
      cases "ok_or (checked_mul 64 n d) (invalid ''tensor shape overflow'')") (simp_all add: Cons)
qed simp

lemma span_stride_Ok:
  assumes "length shape = length strides" and "span_stride (rev (zip shape strides)) 1 = Ok n"
  shows "strides = row_strides shape \<and> n = prod_list shape \<and> (\<forall>d \<in> set shape. 0 < d \<and> d < 2 ^ 63) \<and> (\<forall>s \<in> set strides. s < 2 ^ 63)"
  using assms
proof (induction shape strides arbitrary: n rule: list_induct2)
  case (Cons d ds s ss)
  obtain m where m: "span_stride (rev (zip ds ss)) 1 = Ok m" "span_stride [(d, s)] m = Ok n"
    using Cons.prems by (auto simp: span_stride_append outcome_simps simp del: span_stride.simps)
  then show ?case using Cons.IH [OF m(1)] by (auto simp: outcome_simps checked_mul_def mult.commute split: if_splits)
qed simp

lemma byte_span_Ok:
  assumes "byte_span v = Ok n"
  shows "tv_strides v = row_strides (tv_shape v)" "n = prod_list (tv_shape v) * dtype_bytes (tv_dtype v)"
    "tv_shape v \<noteq> []" "length (tv_shape v) \<le> 8" "\<forall>d \<in> set (tv_shape v). 0 < d \<and> d < 2 ^ 63" "\<forall>s \<in> set (tv_strides v). s < 2 ^ 63" "0 < n"
proof -
  obtain m where m: "tv_shape v \<noteq> []" "length (tv_shape v) \<le> 8" "length (tv_strides v) = length (tv_shape v)"
    "span_stride (rev (zip (tv_shape v) (tv_strides v))) 1 = Ok m" "n = m * dtype_bytes (tv_dtype v)"
    using assms by (auto simp: byte_span_def outcome_simps checked_mul_Some_iff not_less)
  note s = span_stride_Ok [OF m(3) [symmetric] m(4)]
  show "tv_strides v = row_strides (tv_shape v)" "n = prod_list (tv_shape v) * dtype_bytes (tv_dtype v)" "tv_shape v \<noteq> []"
    "length (tv_shape v) \<le> 8" "\<forall>d \<in> set (tv_shape v). 0 < d \<and> d < 2 ^ 63" "\<forall>s \<in> set (tv_strides v). s < 2 ^ 63"
    using m s by simp_all
  have "m \<noteq> 0" using s by (auto simp: prod_list_zero_iff)
  then show "0 < n" using m(5) by (cases "tv_dtype v") simp_all
qed

text \<open>The element of an index vector.\<close>

fun element_offset :: "nat list \<Rightarrow> nat list \<Rightarrow> nat" where
  "element_offset (i # is) (s # ss) = i * s + element_offset is ss"
| "element_offset _ _ = 0"

lemma element_offset_bound:
  "list_all2 (<) is shape \<Longrightarrow> element_offset is (row_strides shape) < prod_list shape"
proof (induction "is" shape rule: list_all2_induct)
  case (Cons i "is" d shape)
  have "i * prod_list shape + element_offset is (row_strides shape) < i * prod_list shape + prod_list shape" using Cons by simp
  also have "\<dots> = (i + 1) * prod_list shape" by simp
  also have "\<dots> \<le> d * prod_list shape" using Cons by (intro mult_le_mono1) simp
  finally show ?case by simp
qed simp

lemma element_offset_inj:
  "list_all2 (<) is shape \<Longrightarrow> list_all2 (<) js shape \<Longrightarrow>
    element_offset is (row_strides shape) = element_offset js (row_strides shape) \<Longrightarrow> is = js"
proof (induction "is" shape arbitrary: js rule: list_all2_induct)
  case (Cons i "is" d shape)
  obtain j js' where js: "js = j # js'" "list_all2 (<) js' shape" using Cons.prems(1) by (auto simp: list_all2_Cons2)
  let ?p = "prod_list shape"
  have b: "element_offset is (row_strides shape) < ?p" "element_offset js' (row_strides shape) < ?p"
    using element_offset_bound Cons(2) js(2) by auto
  have eq: "i * ?p + element_offset is (row_strides shape) = j * ?p + element_offset js' (row_strides shape)"
    using Cons.prems(2) js(1) by simp
  then have "(i * ?p + element_offset is (row_strides shape)) div ?p = (j * ?p + element_offset js' (row_strides shape)) div ?p" by simp
  then have "i = j" using b by (simp add: div_mult_self3)
  then show ?case using eq js Cons.IH by simp
qed simp

text \<open>C33. A view with a byte span addresses its elements without aliasing: different index vectors in the
  shape have different byte ranges, all inside the span, and the span has no byte more than the
  elements need.\<close>

theorem view_elements_disjoint:
  assumes "byte_span v = Ok n" and "list_all2 (<) is (tv_shape v)" and "list_all2 (<) js (tv_shape v)"
  shows "element_offset is (tv_strides v) * dtype_bytes (tv_dtype v) + dtype_bytes (tv_dtype v) \<le> n \<and>
    (is \<noteq> js \<longrightarrow> element_offset is (tv_strides v) \<noteq> element_offset js (tv_strides v)) \<and>
    n = prod_list (tv_shape v) * dtype_bytes (tv_dtype v)"
proof -
  note b = byte_span_Ok [OF assms(1)]
  have "element_offset is (tv_strides v) + 1 \<le> prod_list (tv_shape v)" using element_offset_bound [OF assms(2)] b(1) by simp
  then have "(element_offset is (tv_strides v) + 1) * dtype_bytes (tv_dtype v) \<le> n" unfolding b(2) by (rule mult_le_mono1)
  then show ?thesis using b(1,2) element_offset_inj [OF assms(2,3)] by auto
qed

section \<open>Verified calls\<close>

definition allocation_ok :: "device_call \<Rightarrow> device_allocation \<Rightarrow> bool" where
  "allocation_ok c a \<longleftrightarrow> 0 < da_bytes a \<and> alignment_ok (da_alignment a) \<and> da_rank a = dc_rank c \<and> da_device a = dc_device c"

lemma check_allocations_Ok:
  "check_allocations c as t = Ok table \<Longrightarrow>
    distinct (map da_id as) \<and> (\<forall>a \<in> set as. map_of t (da_id a) = None \<and> map_of table (da_id a) = Some a \<and> allocation_ok c a) \<and>
    (\<forall>i. i \<notin> da_id ` set as \<longrightarrow> map_of table i = map_of t i)"
proof (induction as arbitrary: t)
  case (Cons a as)
  then have "check_allocations c as (bt_insert (da_id a) a t) = Ok table" "map_of t (da_id a) = None" "allocation_ok c a"
    by (auto simp: outcome_simps allocation_ok_def)
  moreover from Cons.IH [OF this(1)] have "da_id a \<notin> da_id ` set as" by fastforce
  ultimately show ?case using Cons.IH [of "bt_insert (da_id a) a t"] by (auto split: if_splits)
qed simp

lemma range_end_Ok: "range_end offset bytes cap = Ok limit \<longleftrightarrow> limit = offset + bytes \<and> 0 < bytes \<and> limit \<le> cap \<and> limit < 2 ^ 64"
  by (auto simp: range_end_def outcome_simps checked_add_Some_iff not_less)

lemma check_view_Ok:
  assumes "check_view table access v = Ok p"
  shows "\<exists>a n. map_of table (tv_allocation v) = Some a \<and> byte_span v = Ok n \<and> p = (tv_allocation v, tv_offset v, tv_offset v + n) \<and>
    tv_access v = access \<and> tv_offset v + n \<le> da_bytes a \<and> tv_offset v + n < 2 ^ 64 \<and> alignment_ok (tv_alignment v) \<and>
    tv_alignment v \<le> da_alignment a \<and> tv_alignment v dvd tv_offset v \<and> (access = Write \<longrightarrow> \<not> da_read_only a)"
  using assms by (auto simp: check_view_def outcome_simps range_end_Ok not_less)

lemma check_aliases_Ok:
  "check_aliases before rs = Ok () \<longleftrightarrow> (\<forall>i < length rs. \<forall>q \<in> set (before @ take i rs). \<not> aliases (rs ! i) q)"
proof (induction rs arbitrary: before)
  case (Cons r rs)
  have "check_aliases before (r # rs) = Ok () \<longleftrightarrow> (\<forall>q \<in> set before. \<not> aliases r q) \<and>
      (\<forall>i < length rs. \<forall>q \<in> set ((before @ [r]) @ take i rs). \<not> aliases (rs ! i) q)"
    using Cons.IH [of "before @ [r]"] by (auto simp: outcome_simps)
  also have "\<dots> \<longleftrightarrow> (\<forall>i < length (r # rs). \<forall>q \<in> set (before @ take i (r # rs)). \<not> aliases ((r # rs) ! i) q)"
    unfolding length_Cons All_less_Suc2 by simp
  finally show ?case .
qed simp

definition workspace_in :: "(nat, device_allocation) btmap \<Rightarrow> buffer_range list \<Rightarrow> workspace \<Rightarrow> bool" where
  "workspace_in table ranges w \<longleftrightarrow> (\<exists>a. map_of table (ws_allocation w) = Some a \<and> \<not> da_read_only a \<and> 0 < ws_bytes w \<and>
     ws_offset w + ws_bytes w \<le> da_bytes a \<and> ws_offset w + ws_bytes w < 2 ^ 64 \<and> alignment_ok (ws_alignment w) \<and>
     ws_alignment w \<le> da_alignment a \<and> ws_alignment w dvd ws_offset w \<and>
     (\<forall>q \<in> set ranges. \<not> aliases (ws_allocation w, ws_offset w, ws_offset w + ws_bytes w) q))"

lemma check_workspace_Ok:
  "check_workspace table ranges w = Ok ws \<Longrightarrow> w = Some x \<Longrightarrow> workspace_in table ranges x"
  by (force simp: check_workspace_def workspace_in_def outcome_simps range_end_Ok aliases_def not_less)

text \<open>What a verified call consists of.\<close>

lemma verify_call_Ok:
  assumes "verify_call c = Ok ()"
  shows "\<exists>table ins outs. distinct (map da_id (dc_allocations c)) \<and>
    (\<forall>a \<in> set (dc_allocations c). map_of table (da_id a) = Some a \<and> allocation_ok c a) \<and>
    (\<forall>i. map_of table i \<noteq> None \<longrightarrow> i \<in> da_id ` set (dc_allocations c)) \<and>
    list_all2 (\<lambda>v p. check_view table Read v = Ok p) (dc_inputs c) ins \<and>
    list_all2 (\<lambda>v p. check_view table Write v = Ok p) (dc_outputs c) outs \<and>
    (\<forall>i < length outs. \<forall>q \<in> set (ins @ take i outs). \<not> aliases (outs ! i) q) \<and>
    (\<forall>w. dc_workspace c = Some w \<longrightarrow> workspace_in table (ins @ outs) w)"
proof -
  obtain table ins outs ws where v: "check_allocations c (dc_allocations c) [] = Ok table"
    "collect (check_view table Read) (dc_inputs c) = Ok ins" "collect (check_view table Write) (dc_outputs c) = Ok outs"
    "check_aliases ins outs = Ok ()" "check_workspace table (ins @ outs) (dc_workspace c) = Ok ws"
    using assms by (auto simp: verify_call_def and_then_Ok_iff)
  note t = check_allocations_Ok [OF v(1)]
  have d: "distinct (map da_id (dc_allocations c))" using t by blast
  have a: "\<forall>a \<in> set (dc_allocations c). map_of table (da_id a) = Some a \<and> allocation_ok c a" using t by blast
  have i: "\<forall>i. map_of table i \<noteq> None \<longrightarrow> i \<in> da_id ` set (dc_allocations c)"
  proof (intro allI impI, rule ccontr)
    fix i assume "map_of table i \<noteq> None" "i \<notin> da_id ` set (dc_allocations c)"
    then show False using t by simp
  qed
  have l: "list_all2 (\<lambda>v p. check_view table Read v = Ok p) (dc_inputs c) ins"
    "list_all2 (\<lambda>v p. check_view table Write v = Ok p) (dc_outputs c) outs"
    using v(2,3) by (simp_all add: collect_Ok_iff list_all2_conv_all_nth)
  have w: "\<forall>w. dc_workspace c = Some w \<longrightarrow> workspace_in table (ins @ outs) w" using check_workspace_Ok [OF v(5)] by blast
  show ?thesis using d a i l v(4) [unfolded check_aliases_Ok] w by blast
qed

section \<open>Residents\<close>

definition resident_ok :: "device_call \<Rightarrow> resident_allocation \<Rightarrow> bool" where
  "resident_ok c r \<longleftrightarrow> (\<exists>a \<in> set (dc_allocations c). da_id a = ra_id r \<and> da_bytes a \<le> ra_bytes r \<and> da_alignment a dvd ra_base r \<and>
     ra_rank r = da_rank a \<and> ra_device r = da_device a) \<and> ra_base r \<noteq> 0 \<and> ra_base r + ra_bytes r < 2 ^ 64"

abbreviation resident_span :: "resident_allocation \<Rightarrow> nat \<times> nat" where
  "resident_span r \<equiv> (ra_base r, ra_base r + ra_bytes r)"

lemma overlap_sym: "overlap a b \<longleftrightarrow> overlap b a"
  by (auto simp: overlap_def)

lemma bind_residents_Ok:
  "bind_residents c rs t absolute = Ok table \<Longrightarrow>
    distinct (map ra_id rs) \<and>
    (\<forall>r \<in> set rs. map_of t (ra_id r) = None \<and> map_of table (ra_id r) = Some r \<and> resident_ok c r \<and>
      (\<forall>q \<in> set absolute. \<not> overlap (resident_span r) q)) \<and>
    (\<forall>i. i \<notin> ra_id ` set rs \<longrightarrow> map_of table i = map_of t i) \<and>
    (\<forall>r \<in> set rs. \<forall>q \<in> set rs. ra_id r \<noteq> ra_id q \<longrightarrow> \<not> overlap (resident_span r) (resident_span q))"
proof (induction rs arbitrary: t absolute)
  case (Cons r rs)
  obtain a where a: "find (\<lambda>a. da_id a = ra_id r) (dc_allocations c) = Some a" "ra_base r + ra_bytes r < 2 ^ 64"
    "map_of t (ra_id r) = None" "ra_base r \<noteq> 0" "da_bytes a \<le> ra_bytes r" "ra_rank r = da_rank a" "ra_device r = da_device a"
    "da_alignment a dvd ra_base r" "\<forall>q \<in> set absolute. \<not> overlap (resident_span r) q"
    and rest: "bind_residents c rs (bt_insert (ra_id r) r t) (absolute @ [resident_span r]) = Ok table"
    using Cons.prems by (auto simp: outcome_simps checked_add_Some_iff not_less)
  have "a \<in> set (dc_allocations c)" "da_id a = ra_id r" using a(1) by (auto simp: find_Some_iff)
  then have ok: "resident_ok c r" using a by (auto simp: resident_ok_def)
  note IH = Cons.IH [OF rest]
  have ids: "ra_id r \<notin> ra_id ` set rs" using IH by fastforce
  then have tab: "map_of table (ra_id r) = Some r" using IH by simp
  have others: "map_of t (ra_id q) = None \<and> map_of table (ra_id q) = Some q \<and> resident_ok c q \<and>
      (\<forall>p \<in> set absolute. \<not> overlap (resident_span q) p) \<and> \<not> overlap (resident_span q) (resident_span r)" if "q \<in> set rs" for q
    using IH that by (auto split: if_splits)
  show ?case
  proof (intro conjI)
    show "distinct (map ra_id (r # rs))" using IH ids by auto
    show "\<forall>q \<in> set (r # rs). map_of t (ra_id q) = None \<and> map_of table (ra_id q) = Some q \<and> resident_ok c q \<and>
      (\<forall>p \<in> set absolute. \<not> overlap (resident_span q) p)"
      using a(3,9) ok tab others by simp
    show "\<forall>i. i \<notin> ra_id ` set (r # rs) \<longrightarrow> map_of table i = map_of t i" using IH by auto
    show "\<forall>p \<in> set (r # rs). \<forall>q \<in> set (r # rs). ra_id p \<noteq> ra_id q \<longrightarrow> \<not> overlap (resident_span p) (resident_span q)"
      using others IH overlap_sym by auto
  qed
qed simp

lemma kernel_tensor_run:
  assumes "map_of table (tv_allocation v) = Some r" and "byte_span v = Ok n" and "ra_base r + tv_offset v < 2 ^ 64"
  shows "\<exists>t. kernel_tensor_of table v = Ok t \<and> kt_data t = ra_base r + tv_offset v \<and> kt_allocation_bytes t = n \<and>
    kt_shape t = abi_array (tv_shape v) \<and> kt_strides t = abi_array (tv_strides v)"
proof -
  note b = byte_span_Ok [OF assms(2)]
  have len: "length (tv_strides v) = length (tv_shape v)"
  proof -
    have "length (row_strides ds) = length ds" for ds by (induction ds) auto
    then show ?thesis using b(1) by simp
  qed
  let ?ds = "zip (tv_shape v) (tv_strides v)"
  have "abi_dims ?ds = Ok ?ds"
    unfolding abi_dims_def collect_Ok_iff
    using b(4,5,6) len by (auto simp: try_narrow_def nth_mem)
  then show ?thesis using assms len by (simp add: kernel_tensor_of_def checked_add_def)
qed

section \<open>Bound calls\<close>

definition tensor_range :: "kernel_tensor \<Rightarrow> nat set" where
  "tensor_range t = {kt_data t ..< kt_data t + kt_allocation_bytes t}"

definition resident_range :: "resident_allocation \<Rightarrow> nat set" where
  "resident_range r = {ra_base r ..< ra_base r + ra_bytes r}"

lemma not_overlap_disjoint: "\<not> overlap (a, b) (c, d) \<Longrightarrow> {a ..< b} \<inter> {c ..< d} = {}"
  by (auto simp: overlap_def)

text \<open>The place of one bound view.\<close>

definition placed :: "(nat, resident_allocation) btmap \<Rightarrow> tensor_view \<Rightarrow> buffer_range \<Rightarrow> kernel_tensor \<Rightarrow> bool" where
  "placed table v p t \<longleftrightarrow> (\<exists>r. map_of table (tv_allocation v) = Some r \<and> byte_span v = Ok (kt_allocation_bytes t) \<and>
     p = (tv_allocation v, tv_offset v, tv_offset v + kt_allocation_bytes t) \<and> kt_data t = ra_base r + tv_offset v \<and>
     tv_offset v + kt_allocation_bytes t \<le> ra_bytes r \<and> tv_alignment v dvd kt_data t \<and>
     kt_shape t = abi_array (tv_shape v) \<and> kt_strides t = abi_array (tv_strides v))"

lemma view_placed:
  assumes view: "check_view table access v = Ok p" and call: "\<And>a. map_of table (tv_allocation v) = Some a \<Longrightarrow> allocation_ok c a \<and>
      (\<exists>r. map_of residents (tv_allocation v) = Some r \<and> da_bytes a \<le> ra_bytes r \<and> da_alignment a dvd ra_base r \<and> ra_base r + ra_bytes r < 2 ^ 64)"
  shows "\<exists>t. kernel_tensor_of residents v = Ok t \<and> placed residents v p t"
proof -
  obtain a n where v: "map_of table (tv_allocation v) = Some a" "byte_span v = Ok n" "p = (tv_allocation v, tv_offset v, tv_offset v + n)"
    "tv_offset v + n \<le> da_bytes a" "alignment_ok (tv_alignment v)" "tv_alignment v \<le> da_alignment a" "tv_alignment v dvd tv_offset v"
    using check_view_Ok [OF view] by blast
  obtain r where r: "map_of residents (tv_allocation v) = Some r" "da_bytes a \<le> ra_bytes r" "da_alignment a dvd ra_base r"
    "ra_base r + ra_bytes r < 2 ^ 64" "alignment_ok (da_alignment a)" using call [OF v(1)] by (auto simp: allocation_ok_def)
  have "tv_alignment v dvd ra_base r" using alignment_dvd [OF v(5) r(5) v(6)] r(3) dvd_trans by blast
  then have dvd: "tv_alignment v dvd ra_base r + tv_offset v" using v(7) by simp
  have "ra_base r + tv_offset v < 2 ^ 64" using v(4) r(2,4) by linarith
  from kernel_tensor_run [OF r(1) v(2) this] obtain t where
    "kernel_tensor_of residents v = Ok t" "kt_data t = ra_base r + tv_offset v" "kt_allocation_bytes t = n"
    "kt_shape t = abi_array (tv_shape v)" "kt_strides t = abi_array (tv_strides v)" by blast
  then show ?thesis using v r dvd by (auto simp: placed_def)
qed

definition placed_range :: "(nat, resident_allocation) btmap \<Rightarrow> buffer_range \<Rightarrow> nat \<Rightarrow> nat \<Rightarrow> bool" where
  "placed_range table p address n \<longleftrightarrow> (\<exists>r. map_of table (fst p) = Some r \<and> snd (snd p) = fst (snd p) + n \<and>
     address = ra_base r + fst (snd p) \<and> snd (snd p) \<le> ra_bytes r)"

lemma placed_range: "placed table v p t \<Longrightarrow> placed_range table p (kt_data t) (kt_allocation_bytes t)"
  by (auto simp: placed_def placed_range_def)

definition residents_apart :: "(nat, resident_allocation) btmap \<Rightarrow> bool" where
  "residents_apart table \<longleftrightarrow> (\<forall>i j r q. map_of table i = Some r \<and> map_of table j = Some q \<and> i \<noteq> j \<longrightarrow>
     \<not> overlap (resident_span r) (resident_span q))"

lemma placed_apart:
  assumes p: "placed_range table p x m" and q: "placed_range table q y n" and "\<not> aliases p q" and apart: "residents_apart table"
  shows "{x ..< x + m} \<inter> {y ..< y + n} = {}"
proof -
  obtain r where r: "map_of table (fst p) = Some r" "snd (snd p) = fst (snd p) + m" "x = ra_base r + fst (snd p)" "snd (snd p) \<le> ra_bytes r"
    using p by (auto simp: placed_range_def)
  obtain r' where r': "map_of table (fst q) = Some r'" "snd (snd q) = fst (snd q) + n" "y = ra_base r' + fst (snd q)" "snd (snd q) \<le> ra_bytes r'"
    using q by (auto simp: placed_range_def)
  show ?thesis
  proof (cases "fst p = fst q")
    case True
    then have "r = r'" "\<not> overlap (snd p) (snd q)" using r(1) r'(1) assms(3) by (simp_all add: aliases_def)
    then show ?thesis using r r' by (auto simp: overlap_def)
  next
    case False
    then have "\<not> overlap (resident_span r) (resident_span r')" using apart r(1) r'(1) unfolding residents_apart_def by blast
    then show ?thesis using r r' by (auto simp: overlap_def)
  qed
qed

lemma bind_call_run:
  assumes verified: "verify_call c = Ok ()" and count: "length rs = length (dc_allocations c)"
    and bound: "bind_residents c rs [] [] = Ok table"
  shows "\<exists>b ins outs. bind_call c rs = Ok b \<and> residents_apart table \<and> (\<forall>i r. map_of table i = Some r \<longrightarrow> r \<in> set rs \<and> ra_id r = i) \<and>
    length ins = length (dc_inputs c) \<and> length outs = length (dc_outputs c) \<and>
    length (bd_inputs b) = length ins \<and> length (bd_outputs b) = length outs \<and>
    (\<forall>i < length ins. placed table (dc_inputs c ! i) (ins ! i) (bd_inputs b ! i)) \<and>
    (\<forall>i < length outs. placed table (dc_outputs c ! i) (outs ! i) (bd_outputs b ! i)) \<and>
    (\<forall>i < length outs. \<forall>q \<in> set (ins @ take i outs). \<not> aliases (outs ! i) q) \<and>
    (\<forall>w. dc_workspace c = Some w \<longrightarrow> bd_workspace_bytes b = ws_bytes w \<and>
      placed_range table (ws_allocation w, ws_offset w, ws_offset w + ws_bytes w) (bd_workspace b) (ws_bytes w) \<and>
      (\<forall>q \<in> set (ins @ outs). \<not> aliases (ws_allocation w, ws_offset w, ws_offset w + ws_bytes w) q))"
proof -
  obtain allocs ins outs where v: "distinct (map da_id (dc_allocations c))"
    "\<forall>a \<in> set (dc_allocations c). map_of allocs (da_id a) = Some a \<and> allocation_ok c a"
    "\<forall>i. map_of allocs i \<noteq> None \<longrightarrow> i \<in> da_id ` set (dc_allocations c)"
    "list_all2 (\<lambda>v p. check_view allocs Read v = Ok p) (dc_inputs c) ins"
    "list_all2 (\<lambda>v p. check_view allocs Write v = Ok p) (dc_outputs c) outs"
    "\<forall>i < length outs. \<forall>q \<in> set (ins @ take i outs). \<not> aliases (outs ! i) q"
    "\<forall>w. dc_workspace c = Some w \<longrightarrow> workspace_in allocs (ins @ outs) w"
    using verify_call_Ok [OF verified] by blast
  have R: "distinct (map ra_id rs)" "\<And>r. r \<in> set rs \<Longrightarrow> map_of table (ra_id r) = Some r \<and> resident_ok c r"
    "\<And>i. i \<notin> ra_id ` set rs \<Longrightarrow> map_of table i = None"
    "\<And>r q. r \<in> set rs \<Longrightarrow> q \<in> set rs \<Longrightarrow> ra_id r \<noteq> ra_id q \<Longrightarrow> \<not> overlap (resident_span r) (resident_span q)"
    using bind_residents_Ok [OF bound] by auto
  have origin: "r \<in> set rs \<and> ra_id r = i" if "map_of table i = Some r" for i r
    using R(2,3) that by (metis imageE option.distinct(1) option.inject)
  have apart: "residents_apart table" unfolding residents_apart_def using origin R(4) by metis
  have "ra_id r \<in> da_id ` set (dc_allocations c)" if "r \<in> set rs" for r
    using R(2) [OF that] unfolding resident_ok_def by (metis imageI)
  then have "ra_id ` set rs \<subseteq> da_id ` set (dc_allocations c)" by blast
  moreover have "card (ra_id ` set rs) = card (da_id ` set (dc_allocations c))"
    using R(1) v(1) count by (metis distinct_card length_map list.set_map)
  ultimately have ids: "ra_id ` set rs = da_id ` set (dc_allocations c)" by (simp add: card_subset_eq)
  have resident: "allocation_ok c a \<and> (\<exists>r. map_of table i = Some r \<and> da_bytes a \<le> ra_bytes r \<and> da_alignment a dvd ra_base r \<and>
      ra_base r + ra_bytes r < 2 ^ 64)" if a: "map_of allocs i = Some a" for i a
  proof -
    have i: "i \<in> da_id ` set (dc_allocations c)" using v(3) a by auto
    then have "i \<in> ra_id ` set rs" by (simp only: ids)
    then obtain r where r: "r \<in> set rs" "ra_id r = i" by blast
    then obtain a' where a': "a' \<in> set (dc_allocations c)" "da_id a' = i" "da_bytes a' \<le> ra_bytes r" "da_alignment a' dvd ra_base r"
      "ra_base r + ra_bytes r < 2 ^ 64" using R(2) [OF r(1)] by (auto simp: resident_ok_def)
    then have "a' = a" using v(2) a by auto
    then show ?thesis using a' v(2) R(2) [OF r(1)] r(2) by auto
  qed
  have place: "\<exists>t. kernel_tensor_of table x = Ok t \<and> placed table x p t" if "check_view allocs access x = Ok p" for access x p
    by (rule view_placed [OF that]) (use resident in blast)
  have "\<exists>ts. collect (kernel_tensor_of table) vs = Ok ts \<and> length ts = length ps \<and> (\<forall>i < length ps. placed table (vs ! i) (ps ! i) (ts ! i))"
    if "list_all2 (\<lambda>v p. check_view allocs access v = Ok p) vs ps" for access vs ps
    using that
  proof (induction vs ps rule: list_all2_induct)
    case (Cons x xs p ps)
    obtain t where "kernel_tensor_of table x = Ok t" "placed table x p t" using place [OF Cons(1)] by blast
    moreover obtain ts where "collect (kernel_tensor_of table) xs = Ok ts" "length ts = length ps" "\<forall>i < length ps. placed table (xs ! i) (ps ! i) (ts ! i)"
      using Cons(3) by blast
    ultimately show ?case by (intro exI [of _ "t # ts"]) (simp add: nth_Cons split: nat.split)
  qed simp
  then obtain tin tout where t: "collect (kernel_tensor_of table) (dc_inputs c) = Ok tin" "length tin = length ins"
    "\<forall>i < length ins. placed table (dc_inputs c ! i) (ins ! i) (tin ! i)"
    "collect (kernel_tensor_of table) (dc_outputs c) = Ok tout" "length tout = length outs"
    "\<forall>i < length outs. placed table (dc_outputs c ! i) (outs ! i) (tout ! i)"
    using v(4,5) by meson
  have len: "length ins = length (dc_inputs c)" "length outs = length (dc_outputs c)" using v(4,5) by (simp_all add: list_all2_lengthD)
  have "\<exists>x n. bind_workspace table (dc_workspace c) = Ok (x, n) \<and> (\<forall>w. dc_workspace c = Some w \<longrightarrow> n = ws_bytes w \<and>
      placed_range table (ws_allocation w, ws_offset w, ws_offset w + ws_bytes w) x (ws_bytes w) \<and>
      (\<forall>q \<in> set (ins @ outs). \<not> aliases (ws_allocation w, ws_offset w, ws_offset w + ws_bytes w) q))"
  proof (cases "dc_workspace c")
    case (Some w)
    then have w: "workspace_in allocs (ins @ outs) w" using v(7) by blast
    then obtain a where a: "map_of allocs (ws_allocation w) = Some a" "ws_offset w + ws_bytes w \<le> da_bytes a"
      "\<forall>q \<in> set (ins @ outs). \<not> aliases (ws_allocation w, ws_offset w, ws_offset w + ws_bytes w) q"
      by (auto simp: workspace_in_def)
    obtain r where r: "map_of table (ws_allocation w) = Some r" "da_bytes a \<le> ra_bytes r" "ra_base r + ra_bytes r < 2 ^ 64"
      using resident [OF a(1)] by blast
    have "bind_workspace table (dc_workspace c) = Ok (ra_base r + ws_offset w, ws_bytes w)"
      using Some r a(2) by (simp add: bind_workspace_def checked_add_def)
    then show ?thesis using Some a r by (auto simp: placed_range_def)
  qed (simp add: bind_workspace_def)
  then obtain x n where w: "bind_workspace table (dc_workspace c) = Ok (x, n)" "\<forall>w. dc_workspace c = Some w \<longrightarrow> n = ws_bytes w \<and>
      placed_range table (ws_allocation w, ws_offset w, ws_offset w + ws_bytes w) x (ws_bytes w) \<and>
      (\<forall>q \<in> set (ins @ outs). \<not> aliases (ws_allocation w, ws_offset w, ws_offset w + ws_bytes w) q)" by blast
  let ?b = "\<lparr>bd_inputs = tin, bd_outputs = tout, bd_workspace = x, bd_workspace_bytes = n\<rparr>"
  have "bind_call c rs = Ok ?b" using verified count bound t(1,4) w(1) by (simp add: bind_call_def reject_def)
  then show ?thesis using apart origin len t v(6) w(2)
    by (intro exI [of _ ?b] exI [of _ ins] exI [of _ outs]) simp
qed

lemma bind_call_Ok:
  assumes "bind_call c rs = Ok b"
  shows "verify_call c = Ok () \<and> length rs = length (dc_allocations c) \<and> is_ok (bind_residents c rs [] [])"
  using assms by (auto simp: bind_call_def and_then_Ok_iff reject_Ok_iff is_ok_iff)

text \<open>C12. A bound call is safe: every tensor the kernel receives is aligned and lies inside the resident
  allocation its view names, with the byte span of the view, and no byte the kernel may write, in an
  output or in the workspace, belongs to any other tensor, in absolute addresses.\<close>

theorem bound_call_safe:
  assumes "bind_call c rs = Ok b"
  shows "list_all2 (\<lambda>v t. \<exists>r \<in> set rs. ra_id r = tv_allocation v \<and> kt_data t = ra_base r + tv_offset v \<and>
      tensor_range t \<subseteq> resident_range r \<and> tv_alignment v dvd kt_data t \<and> byte_span v = Ok (kt_allocation_bytes t))
      (dc_inputs c @ dc_outputs c) (bd_inputs b @ bd_outputs b) \<and>
    (\<forall>i < length (bd_outputs b). \<forall>t \<in> set (bd_inputs b @ take i (bd_outputs b)).
      tensor_range (bd_outputs b ! i) \<inter> tensor_range t = {}) \<and>
    (\<forall>t \<in> set (bd_inputs b @ bd_outputs b). \<forall>w. dc_workspace c = Some w \<longrightarrow>
      {bd_workspace b ..< bd_workspace b + bd_workspace_bytes b} \<inter> tensor_range t = {})"
proof -
  obtain table where table: "bind_residents c rs [] [] = Ok table" using bind_call_Ok [OF assms] by (auto simp: is_ok_iff)
  obtain b' ins outs where run: "bind_call c rs = Ok b'" "residents_apart table"
    "\<forall>i r. map_of table i = Some r \<longrightarrow> r \<in> set rs \<and> ra_id r = i"
    "length ins = length (dc_inputs c)" "length outs = length (dc_outputs c)"
    "length (bd_inputs b') = length ins" "length (bd_outputs b') = length outs"
    "\<forall>i < length ins. placed table (dc_inputs c ! i) (ins ! i) (bd_inputs b' ! i)"
    "\<forall>i < length outs. placed table (dc_outputs c ! i) (outs ! i) (bd_outputs b' ! i)"
    "\<forall>i < length outs. \<forall>q \<in> set (ins @ take i outs). \<not> aliases (outs ! i) q"
    "\<forall>w. dc_workspace c = Some w \<longrightarrow> bd_workspace_bytes b' = ws_bytes w \<and>
      placed_range table (ws_allocation w, ws_offset w, ws_offset w + ws_bytes w) (bd_workspace b') (ws_bytes w) \<and>
      (\<forall>q \<in> set (ins @ outs). \<not> aliases (ws_allocation w, ws_offset w, ws_offset w + ws_bytes w) q)"
    using bind_call_run [OF _ _ table] bind_call_Ok [OF assms] by blast
  have b: "b' = b" using run(1) assms by simp
  note run = run [unfolded b]
  have inside: "\<exists>r \<in> set rs. ra_id r = tv_allocation v \<and> kt_data t = ra_base r + tv_offset v \<and>
      tensor_range t \<subseteq> resident_range r \<and> tv_alignment v dvd kt_data t \<and> byte_span v = Ok (kt_allocation_bytes t)"
    if "placed table v p t" for v p t
    using that run(3) unfolding placed_def tensor_range_def resident_range_def by (force simp: ivl_subset)
  have "list_all2 (\<lambda>v t. \<exists>r \<in> set rs. ra_id r = tv_allocation v \<and> kt_data t = ra_base r + tv_offset v \<and>
      tensor_range t \<subseteq> resident_range r \<and> tv_alignment v dvd kt_data t \<and> byte_span v = Ok (kt_allocation_bytes t))
      (dc_inputs c @ dc_outputs c) (bd_inputs b @ bd_outputs b)"
    (is "list_all2 ?P _ _")
  proof (rule list_all2_appendI; rule list_all2_all_nthI)
    show "?P (dc_inputs c ! n) (bd_inputs b ! n)" if "n < length (dc_inputs c)" for n
      using inside [where v = "dc_inputs c ! n" and p = "ins ! n" and t = "bd_inputs b ! n"] run(4,8) that by simp
    show "?P (dc_outputs c ! n) (bd_outputs b ! n)" if "n < length (dc_outputs c)" for n
      using inside [where v = "dc_outputs c ! n" and p = "outs ! n" and t = "bd_outputs b ! n"] run(5,9) that by simp
  qed (use run(4-7) in simp_all)
  moreover have "tensor_range (bd_outputs b ! i) \<inter> tensor_range t = {}"
    if i: "i < length (bd_outputs b)" and t: "t \<in> set (bd_inputs b @ take i (bd_outputs b))" for i t
  proof -
    obtain v q where q: "placed table v q t" "q \<in> set (ins @ take i outs)"
    proof (cases "t \<in> set (bd_inputs b)")
      case True
      then obtain k where "k < length ins" "t = bd_inputs b ! k" using run(6) by (metis in_set_conv_nth)
      then show ?thesis using that run(8) by (metis in_set_conv_nth Un_iff set_append)
    next
      case False
      then obtain k where "k < i" "t = bd_outputs b ! k" using t i by (auto simp: in_set_conv_nth)
      moreover from this have "outs ! k \<in> set (take i outs)" using i run(7) by (auto simp: in_set_conv_nth)
      ultimately show ?thesis using that run(7,9) i by (metis less_trans Un_iff set_append)
    qed
    have "placed table (dc_outputs c ! i) (outs ! i) (bd_outputs b ! i)" "\<not> aliases (outs ! i) q"
      using i q(2) run(7,9,10) by auto
    then show ?thesis using placed_apart [OF placed_range placed_range [OF q(1)] _ run(2)] by (simp add: tensor_range_def)
  qed
  moreover have "{bd_workspace b ..< bd_workspace b + bd_workspace_bytes b} \<inter> tensor_range t = {}"
    if w: "dc_workspace c = Some w" and t: "t \<in> set (bd_inputs b @ bd_outputs b)" for w t
  proof -
    obtain v q where q: "placed table v q t" "q \<in> set (ins @ outs)"
    proof (cases "t \<in> set (bd_inputs b)")
      case True
      then obtain k where "k < length ins" "t = bd_inputs b ! k" using run(6) by (metis in_set_conv_nth)
      then show ?thesis using that run(8) by (metis in_set_conv_nth Un_iff set_append)
    next
      case False
      then obtain k where "k < length outs" "t = bd_outputs b ! k" using t run(7) by (auto simp: in_set_conv_nth)
      then show ?thesis using that run(9) by (metis in_set_conv_nth Un_iff set_append)
    qed
    have "bd_workspace_bytes b = ws_bytes w" "placed_range table (ws_allocation w, ws_offset w, ws_offset w + ws_bytes w) (bd_workspace b) (ws_bytes w)"
      "\<not> aliases (ws_allocation w, ws_offset w, ws_offset w + ws_bytes w) q" using run(11) w q(2) by auto
    then show ?thesis using placed_apart [OF _ placed_range [OF q(1)] _ run(2)] by (simp add: tensor_range_def)
  qed
  ultimately show ?thesis by blast
qed

lemma check_allocations_no_panic: "check_allocations c as t \<noteq> Panic"
  by (induction as arbitrary: t) (auto simp: and_then_Panic_iff reject_Panic_iff)

lemma span_stride_no_panic: "span_stride ds n \<noteq> Panic"
  by (induction ds n rule: span_stride.induct) (auto simp: and_then_Panic_iff reject_Panic_iff ok_or_Panic_iff)

lemma check_aliases_no_panic: "check_aliases before rs \<noteq> Panic"
  by (induction rs arbitrary: before) (auto simp: and_then_Panic_iff reject_Panic_iff)

lemma bind_residents_no_panic: "bind_residents c rs t absolute \<noteq> Panic"
  by (induction rs arbitrary: t absolute) (auto simp: and_then_Panic_iff reject_Panic_iff ok_or_Panic_iff)

lemma verify_call_no_panic: "verify_call c \<noteq> Panic"
proof -
  have span: "byte_span v \<noteq> Panic" for v
    by (auto simp: byte_span_def and_then_Panic_iff reject_Panic_iff ok_or_Panic_iff span_stride_no_panic)
  have ends: "range_end a n m \<noteq> Panic" for a n m
    by (auto simp: range_end_def and_then_Panic_iff reject_Panic_iff ok_or_Panic_iff)
  have "check_view table access v \<noteq> Panic" for table access v
    by (auto simp: check_view_def and_then_Panic_iff reject_Panic_iff ok_or_Panic_iff span ends)
  then have "collect (check_view table access) vs \<noteq> Panic" for table access vs by (rule collect_no_panic)
  moreover have "check_workspace table ranges w \<noteq> Panic" for table ranges w
    by (cases w) (auto simp: check_workspace_def and_then_Panic_iff reject_Panic_iff ok_or_Panic_iff ends)
  ultimately show ?thesis
    by (auto simp: verify_call_def and_then_Panic_iff reject_Panic_iff check_allocations_no_panic check_aliases_no_panic)
qed

lemma bind_call_is_ok:
  "is_ok (bind_call c rs) \<longleftrightarrow> verify_call c = Ok () \<and> length rs = length (dc_allocations c) \<and> is_ok (bind_residents c rs [] [])"
proof
  assume "is_ok (bind_call c rs)"
  then show "verify_call c = Ok () \<and> length rs = length (dc_allocations c) \<and> is_ok (bind_residents c rs [] [])"
    using bind_call_Ok by (auto simp: is_ok_iff)
next
  assume "verify_call c = Ok () \<and> length rs = length (dc_allocations c) \<and> is_ok (bind_residents c rs [] [])"
  then show "is_ok (bind_call c rs)" using bind_call_run [of c rs] by (auto simp: is_ok_iff)
qed

text \<open>Binding is total: it never panics, and once the call verifies and the residents fit its
  allocations nothing else can fail, neither a lookup nor an address computation nor a narrowing.\<close>

theorem bind_call_total:
  "bind_call c rs \<noteq> Panic \<and>
    (is_ok (bind_call c rs) \<longleftrightarrow> verify_call c = Ok () \<and> length rs = length (dc_allocations c) \<and> is_ok (bind_residents c rs [] []))"
proof -
  note iff = bind_call_is_ok [of c rs]
  have "bind_call c rs \<noteq> Panic"
  proof (cases "verify_call c")
    case (Ok u)
    show ?thesis
    proof (cases "bind_residents c rs [] []")
      case (Ok t)
      then show ?thesis using iff \<open>verify_call c = Ok u\<close> by (cases "length rs = length (dc_allocations c)") (auto simp: is_ok_iff bind_call_def reject_def)
    next
      case (Err e)
      then show ?thesis using \<open>verify_call c = Ok u\<close> by (auto simp: bind_call_def reject_def)
    qed (simp add: bind_residents_no_panic)
  next
    case (Err e)
    then show ?thesis by (simp add: bind_call_def)
  qed (simp add: verify_call_no_panic)
  then show ?thesis using iff by blast
qed

section \<open>Witnesses\<close>

definition example_view :: "nat \<Rightarrow> nat \<Rightarrow> buffer_access \<Rightarrow> tensor_view" where
  "example_view i offset access = \<lparr>tv_allocation = i, tv_offset = offset, tv_dtype = F32, tv_shape = [2, 3], tv_strides = [3, 1],
     tv_alignment = 8, tv_access = access\<rparr>"

definition example_call :: device_call where
  "example_call = \<lparr>dc_format = DEVICE_FORMAT, dc_implementation = ''add'', dc_binary_sha256 = replicate 64 (CHR ''0''),
     dc_numerical_contract = ''f32'', dc_rank = 0, dc_device = 0, dc_stream = 0,
     dc_allocations = [\<lparr>da_id = 1, da_rank = 0, da_device = 0, da_bytes = 64, da_alignment = 16, da_class = ClActivation, da_read_only = False\<rparr>,
                       \<lparr>da_id = 2, da_rank = 0, da_device = 0, da_bytes = 24, da_alignment = 8, da_class = ClWeight, da_read_only = True\<rparr>],
     dc_inputs = [example_view 2 0 Read], dc_outputs = [example_view 1 8 Write],
     dc_workspace = Some \<lparr>ws_allocation = 1, ws_offset = 32, ws_bytes = 32, ws_alignment = 16\<rparr>\<rparr>"

definition example_residents :: "resident_allocation list" where
  "example_residents = [\<lparr>ra_id = 2, ra_base = 128, ra_bytes = 24, ra_rank = 0, ra_device = 0\<rparr>,
     \<lparr>ra_id = 1, ra_base = 64, ra_bytes = 64, ra_rank = 0, ra_device = 0\<rparr>]"

lemma example_span: "byte_span (example_view i offset access) = Ok 24"
  by (simp add: byte_span_def example_view_def reject_def checked_mul_def)

lemma example_bound: "is_ok (bind_call example_call example_residents)"
proof -
  have p: "is_power_of_two 8" "is_power_of_two 16" by (simp_all add: is_power_of_two.simps)
  have dvd: "(16 :: nat) dvd 32" "(8 :: nat) dvd 8" "(8 :: nat) dvd 128" "(16 :: nat) dvd 64" by simp_all
  have views: "check_view table access (example_view i offset access) = Ok (i, offset, offset + 24)"
    if "map_of table i = Some a" "da_alignment a \<ge> 8" "da_bytes a \<ge> offset + 24" "da_bytes a \<le> 64" "8 dvd offset" "access = Write \<longrightarrow> \<not> da_read_only a"
    for table access i offset a
    using that example_span p
    by (auto simp: check_view_def range_end_def checked_add_def reject_def alignment_ok_def) (auto simp: example_view_def p)
  have "verify_call example_call = Ok ()"
    using p dvd
    by (simp add: verify_call_def example_call_def reject_def alignment_ok_def is_ascii_hexdigit_def views check_workspace_def range_end_def
        checked_add_def overlap_def aliases_def bs_of_def bs_extend_def)
  moreover have "is_ok (bind_residents example_call example_residents [] [])"
    using dvd by (simp add: example_call_def example_residents_def checked_add_def reject_def overlap_def)
  ultimately show ?thesis using bind_call_is_ok by (simp add: example_call_def example_residents_def)
qed

theorem view_elements_disjoint_witness:
  "element_offset [0, 2] (tv_strides (example_view 1 0 Read)) \<noteq> element_offset [1, 0] (tv_strides (example_view 1 0 Read))"
proof -
  have "list_all2 (<) [0, 2] (tv_shape (example_view 1 0 Read))" "list_all2 (<) [1, 0] (tv_shape (example_view 1 0 Read))"
    by (simp_all add: example_view_def)
  from view_elements_disjoint [OF example_span this] show ?thesis by simp
qed

theorem bound_call_safe_witness:
  "\<exists>b. bind_call example_call example_residents = Ok b \<and>
     (\<forall>i < length (bd_outputs b). \<forall>t \<in> set (bd_inputs b @ take i (bd_outputs b)).
      tensor_range (bd_outputs b ! i) \<inter> tensor_range t = {})"
proof -
  obtain b where b: "bind_call example_call example_residents = Ok b" using example_bound by (auto simp: is_ok_iff)
  from bound_call_safe [OF b] b show ?thesis by blast
qed

end
