(* ===== verification/Physical.thy ===== *)
theory Physical
  imports Containers "HOL-Library.Char_ord" "HOL-Library.List_Lexorder" "HOL-Library.Product_Lexorder" "HOL-Library.Option_ord"
begin

text \<open>
  The backend-neutral physical plan (\<open>crates/inferfabric-plan/src/physical.rs\<close>): its types, the
  choice of an implementation, the conservative serial planner and the verifier. Costs and sizes
  are 64-bit unsigned integers with the checked operations of the code. Strings are their bytes, in
  the lexicographic order in which Rust compares them; \<open>None\<close> is below every \<open>Some\<close>.
\<close>

section \<open>Plans\<close>

definition PHYSICAL_FORMAT :: string where
  "PHYSICAL_FORMAT = ''inferfabric.physical.v1''"

datatype cost_source = UnknownCost | Analytical | Measured | Interpolated

record cost =
  ct_source :: cost_source
  ct_estimate_ns :: "nat option"
  ct_upper_ns :: "nat option"
  ct_evidence :: "string option"

definition default_cost :: cost where
  "default_cost = \<lparr>ct_source = UnknownCost, ct_estimate_ns = None, ct_upper_ns = None, ct_evidence = None\<rparr>"

datatype location = Host | Device | Opaque

datatype boundary_kind =
    HostToDevice | DeviceToHost | ControlUpload | ParameterUpload | ParameterReadback | RequestOutput | Synchronize
  | DynamicAllocation | InternalLaunches | PersistentState

record boundary =
  bn_kind :: boundary_kind
  bn_detail :: string

record candidate =
  cd_id :: string
  cd_contract_revision :: string
  cd_numerical_contract :: string
  cd_location :: location
  cd_eligible :: bool
  cd_rejection :: "string option"
  cd_workspace_bound_bytes :: "nat option"
  cd_capture_qualified :: bool
  cd_boundaries :: "boundary list"
  cd_unresolved :: "string list"
  cd_cost :: cost

record phys_value =
  pv_logical_node :: nat
  pv_dtype :: "string option"
  pv_shape :: "nat list"
  pv_layout :: string
  pv_location :: location
  pv_payload_bytes :: "nat option"
  pv_alignment :: "nat option"
  pv_arena_offset :: "nat option"
  pv_lifetime :: "nat \<times> nat"

record phys_collective =
  cl_group :: string
  cl_operation :: string
  cl_dtype :: string
  cl_elements_per_rank :: nat
  cl_sequence :: nat

record phys_operation =
  po_name :: string
  po_logical_nodes :: "nat list"
  po_inputs :: "nat list"
  po_candidates :: "candidate list"
  po_collective :: "phys_collective option"

record phys_step =
  sp_id :: nat
  sp_operation :: phys_operation
  sp_selected :: nat
  sp_selection_reason :: string
  sp_stream :: nat
  sp_data_dependencies :: "nat list"
  sp_order_dependencies :: "nat list"
  sp_reuse_dependencies :: "nat list"

record phys_schedule =
  sd_id :: nat
  sd_steps :: "phys_step list"
  sd_values :: "phys_value list"
  sd_outputs :: "nat list"
  sd_known_host_payload_peak_bytes :: nat
  sd_memory_complete :: bool
  sd_activation_policy :: string
  sd_cost_complete :: bool
  sd_estimated_serial_ns :: "nat option"

record phys_rank =
  rk_rank :: nat
  rk_device :: nat
  rk_schedule :: nat

record phys_group =
  gp_id :: string
  gp_ranks :: "nat list"

record phys_plan =
  pl_format :: string
  pl_name :: string
  pl_target :: string
  pl_logical_digest :: string
  pl_policy :: string
  pl_executable :: bool
  pl_ranks :: "phys_rank list"
  pl_groups :: "phys_group list"
  pl_schedules :: "phys_schedule list"
  pl_limitations :: "string list"

section \<open>The choice of an implementation\<close>

definition check_cost :: "cost \<Rightarrow> unit outcome" where
  "check_cost c =
     (if ct_source c = UnknownCost
      then reject (ct_estimate_ns c \<noteq> None \<or> ct_upper_ns c \<noteq> None) (invalid ''unknown cost has a numeric estimate'')
      else reject (ct_estimate_ns c = None \<or> ct_upper_ns c = None \<or> ct_evidence c = None \<or> ct_evidence c = Some []
          \<or> ct_upper_ns c < ct_estimate_ns c)
        (invalid ''incomplete or invalid cost provenance/bound''))"

definition host_boundary :: "boundary \<Rightarrow> bool" where
  "host_boundary b \<longleftrightarrow> bn_kind b = HostToDevice \<or> bn_kind b = DeviceToHost"

text \<open>The first loop of \<open>choose\<close>, with the identifiers seen so far.\<close>

fun check_candidates :: "candidate list \<Rightarrow> string btset \<Rightarrow> unit outcome" where
  "check_candidates [] ids = Ok ()"
| "check_candidates (c # cs) ids =
     and_then (reject (cd_location c \<noteq> Device \<or> (\<exists>b \<in> set (cd_boundaries c). host_boundary b))
       (invalid ''activation host fallback is forbidden by device residency'')) (\<lambda>_.
     and_then (check_cost (cd_cost c)) (\<lambda>_.
     and_then (reject (cd_id c = [] \<or> cd_id c \<in> set ids \<or> cd_contract_revision c = [] \<or> cd_numerical_contract c = []
         \<or> \<not> cd_eligible c \<and> (cd_rejection c = None \<or> cd_rejection c = Some []) \<or> cd_eligible c \<and> cd_rejection c \<noteq> None)
       (invalid ''invalid candidate contract/eligibility'')) (\<lambda>_.
     check_candidates cs (bs_insert (cd_id c) ids))))"

definition upper_of :: "nat \<times> candidate \<Rightarrow> nat option" where
  "upper_of e = ct_upper_ns (cd_cost (snd e))"

definition choose_candidate :: "candidate list \<Rightarrow> (nat \<times> string) outcome" where
  "choose_candidate candidates =
     and_then (reject (candidates = []) (invalid ''no implementation candidates'')) (\<lambda>_.
     and_then (check_candidates candidates []) (\<lambda>_.
     let legal = filter (\<lambda>e. cd_eligible (snd e)) (zip [0..<length candidates] candidates) in
     and_then (reject (legal = []) (invalid ''no legal implementation'')) (\<lambda>_.
     and_then (reject (\<exists>e \<in> set legal. cd_numerical_contract (snd e) \<noteq> cd_numerical_contract (snd (hd legal)))
       (invalid ''candidate changes numerical contract'')) (\<lambda>_.
     let complete = (\<forall>e \<in> set legal. upper_of e \<noteq> None);
         sorted_legal = (if complete then sort_key (\<lambda>e. (upper_of e, cd_id (snd e))) legal else sort_key (\<lambda>e. cd_id (snd e)) legal) in
     Ok (fst (hd sorted_legal),
         if complete then ''minimum conservative serial cost; stable implementation-ID tie break''
         else ''deterministic legal baseline; costs unavailable, no latency comparison claimed'')))))"

section \<open>The host payload peak\<close>

definition host_bytes :: "phys_value \<Rightarrow> nat" where
  "host_bytes v = (if pv_location v = Host then (case pv_payload_bytes v of Some b \<Rightarrow> b | None \<Rightarrow> 0) else 0)"

text \<open>One round of the loop, for the value at an index: the running total, the peak and the bytes
  that end at each position.\<close>

definition peak_round :: "nat \<times> phys_value \<Rightarrow> nat \<times> nat \<times> nat list \<Rightarrow> (nat \<times> nat \<times> nat list) outcome" where
  "peak_round = (\<lambda>(i, v) (total, peak, ends).
     let bytes = host_bytes v; e = snd (pv_lifetime v) in
     and_then (ok_or (checked_add 64 total bytes) (invalid ''host payload overflow'')) (\<lambda>total.
     let peak = max peak total in
     and_then (index_at ends e) (\<lambda>old.
     and_then (ok_or (checked_add 64 old bytes) (invalid ''host payload overflow'')) (\<lambda>new.
     and_then (assign_at ends e new) (\<lambda>ends.
     and_then (index_at ends i) (\<lambda>gone.
     and_then (ok_or (checked_sub total gone) (invalid ''invalid host lifetimes'')) (\<lambda>total.
     Ok (total, peak, ends))))))))"

definition host_peak :: "phys_value list \<Rightarrow> nat \<Rightarrow> nat outcome" where
  "host_peak values n =
     and_then (fold_out peak_round (zip [0..<length values] values) (0, 0, replicate (n + 1) 0)) (\<lambda>(total, peak, ends). Ok peak)"

section \<open>Verification\<close>

definition cost_sum :: "nat option \<Rightarrow> nat option \<Rightarrow> nat option outcome" where
  "cost_sum acc estimate = (case (acc, estimate) of
     (Some a, Some b) \<Rightarrow> and_then (ok_or (checked_add 64 a b) (invalid ''schedule cost overflow'')) (\<lambda>c. Ok (Some c))
   | _ \<Rightarrow> Ok None)"

fun check_ranks :: "(nat \<times> phys_rank) list \<Rightarrow> nat btset \<Rightarrow> unit outcome" where
  "check_ranks [] devices = Ok ()"
| "check_ranks ((i, r) # rs) devices =
     and_then (reject (rk_rank r \<noteq> i \<or> rk_schedule r \<noteq> 0 \<or> rk_device r \<in> set devices) (invalid ''rank binding mismatch'')) (\<lambda>_.
     check_ranks rs (bs_insert (rk_device r) devices))"

text \<open>\<open>any(|j| !origins.insert(*j))\<close>: whether a logical node appears twice, and the nodes inserted.\<close>

fun insert_origins :: "nat list \<Rightarrow> nat btset \<Rightarrow> bool \<times> nat btset" where
  "insert_origins [] origins = (False, origins)"
| "insert_origins (j # js) origins = (if j \<in> set origins then (True, origins) else insert_origins js (bs_insert j origins))"

fun assign_all :: "nat list \<Rightarrow> nat \<Rightarrow> nat list \<Rightarrow> nat list outcome" where
  "assign_all [] i ends = Ok ends"
| "assign_all (j # js) i ends = and_then (assign_at ends j i) (assign_all js i)"

definition check_collective :: "phys_collective option \<Rightarrow> nat \<Rightarrow> nat outcome" where
  "check_collective c sequence = (case c of
     None \<Rightarrow> Ok sequence
   | Some c \<Rightarrow>
       and_then (reject (cl_group c \<noteq> ''all_ranks'' \<or> cl_sequence c \<noteq> sequence \<or> cl_operation c = [] \<or> cl_dtype c = []
           \<or> cl_elements_per_rank c = 0)
         (invalid ''collective order/signature mismatch'')) (\<lambda>_. fit 64 (sequence + 1)))"

record check_state =
  ck_ends :: "nat list"
  ck_sequence :: nat
  ck_sum :: "nat option"
  ck_origins :: "nat btset"

definition order_before :: "nat \<Rightarrow> nat list" where
  "order_before i = (if i > 0 then [i - 1] else [])"

text \<open>The condition of the first rejection short-circuits: the origins are read last.\<close>

definition check_step :: "nat \<times> phys_step \<Rightarrow> check_state \<Rightarrow> check_state outcome" where
  "check_step = (\<lambda>(i, t) k.
     let p = sp_operation t;
         (again, origins) = insert_origins (po_logical_nodes p) (ck_origins k) in
     and_then (reject (sp_id t \<noteq> i \<or> sp_stream t \<noteq> 0 \<or> sp_data_dependencies t \<noteq> po_inputs p
         \<or> sp_order_dependencies t \<noteq> order_before i \<or> sp_reuse_dependencies t \<noteq> []
         \<or> (\<exists>j \<in> set (po_inputs p). j \<ge> i) \<or> po_logical_nodes p = [] \<or> again)
       (invalid ''invalid physical dependencies/provenance'')) (\<lambda>_.
     and_then (choose_candidate (po_candidates p)) (\<lambda>choice.
     and_then (reject (choice \<noteq> (sp_selected t, sp_selection_reason t)) (invalid ''physical selection changed'')) (\<lambda>_.
     and_then (assign_all (po_inputs p) i (ck_ends k)) (\<lambda>ends.
     and_then (index_at (po_candidates p) (sp_selected t)) (\<lambda>c.
     and_then (cost_sum (ck_sum k) (ct_estimate_ns (cd_cost c))) (\<lambda>total.
     and_then (check_collective (po_collective p) (ck_sequence k)) (\<lambda>sequence.
     Ok \<lparr>ck_ends = ends, ck_sequence = sequence, ck_sum = total, ck_origins = origins\<rparr>))))))))"

definition check_value :: "phys_step list \<Rightarrow> nat list \<Rightarrow> nat \<times> phys_value \<Rightarrow> unit outcome" where
  "check_value steps ends = (\<lambda>(i, v).
     and_then (index_at ends i) (\<lambda>e.
     and_then (index_at steps i) (\<lambda>t.
     reject (pv_location v \<noteq> Device \<or> pv_lifetime v \<noteq> (i, e) \<or> pv_arena_offset v \<noteq> None
         \<or> pv_logical_node v \<notin> set (po_logical_nodes (sp_operation t))
         \<or> \<not> (case pv_alignment v of None \<Rightarrow> True | Some a \<Rightarrow> a \<noteq> 0 \<and> is_power_of_two a))
       (invalid ''unproven storage lifetime/reuse''))))"

definition dtype_unit :: "string option \<Rightarrow> nat option" where
  "dtype_unit d =
     (if d = Some ''i8'' \<or> d = Some ''u8'' then Some 1
      else if d = Some ''bf16'' \<or> d = Some ''f16'' then Some 2
      else if d = Some ''f32'' \<or> d = Some ''i32'' then Some 4
      else if d = Some ''f64'' \<or> d = Some ''i64'' then Some 8
      else None)"

definition check_payload :: "phys_value \<Rightarrow> unit outcome" where
  "check_payload v = (case pv_payload_bytes v of
     None \<Rightarrow> Ok ()
   | Some bytes \<Rightarrow>
       and_then (ok_or (dtype_unit (pv_dtype v)) (invalid ''known payload requires concrete dtype'')) (\<lambda>unit_bytes.
       reject (pv_shape v = [] \<or> length (pv_shape v) > 8 \<or> 0 \<in> set (pv_shape v)
           \<or> try_product (pv_shape v) unit_bytes \<noteq> Some bytes)
         (invalid ''payload size/shape mismatch'')))"

definition verify_physical :: "phys_plan \<Rightarrow> unit outcome" where
  "verify_physical p =
     and_then (reject (pl_format p \<noteq> PHYSICAL_FORMAT \<or> pl_executable p \<or> pl_policy p \<noteq> ''serial-device-resident-v1''
         \<or> length (pl_schedules p) \<noteq> 1 \<or> pl_ranks p = [] \<or> length (pl_ranks p) > 256 \<or> pl_logical_digest p = [])
       (invalid ''unsupported physical inspection plan'')) (\<lambda>_.
     and_then (check_ranks (zip [0..<length (pl_ranks p)] (pl_ranks p)) []) (\<lambda>_.
     and_then (reject (pl_groups p \<noteq> [\<lparr>gp_id = ''all_ranks'', gp_ranks = [0..<length (pl_ranks p)]\<rparr>])
       (invalid ''collective participants mismatch'')) (\<lambda>_.
     and_then (index_at (pl_schedules p) 0) (\<lambda>s.
     let n = length (sd_steps s) in
     and_then (reject (sd_id s \<noteq> 0 \<or> n = 0 \<or> n > 10000 \<or> length (sd_values s) \<noteq> n \<or> sd_outputs s = []
         \<or> (\<exists>i \<in> set (sd_outputs s). i \<ge> n) \<or> sd_memory_complete s)
       (invalid ''physical schedule bounds'')) (\<lambda>_.
     and_then (fold_out check_step (zip [0..<n] (sd_steps s))
       \<lparr>ck_ends = [0..<n], ck_sequence = 0, ck_sum = Some 0, ck_origins = []\<rparr>) (\<lambda>k.
     and_then (assign_all (sd_outputs s) n (ck_ends k)) (\<lambda>ends.
     and_then (check_all (check_value (sd_steps s) ends) (zip [0..<length (sd_values s)] (sd_values s))) (\<lambda>_.
     and_then (check_all check_payload (sd_values s)) (\<lambda>_.
     and_then (host_peak (sd_values s) n) (\<lambda>peak.
     reject (sd_known_host_payload_peak_bytes s \<noteq> peak \<or> sd_estimated_serial_ns s \<noteq> ck_sum k
         \<or> sd_cost_complete s \<noteq> (ck_sum k \<noteq> None))
       (invalid ''physical summary mismatch'')))))))))))"

section \<open>The serial planner\<close>

definition end_life :: "nat \<Rightarrow> nat \<Rightarrow> phys_value list \<Rightarrow> phys_value list outcome" where
  "end_life i j values =
     and_then (index_at values j) (\<lambda>v. assign_at values j (v\<lparr>pv_lifetime := (fst (pv_lifetime v), i)\<rparr>))"

definition fresh_values :: "phys_value list \<Rightarrow> phys_value list" where
  "fresh_values values = map (\<lambda>(i, v). v\<lparr>pv_lifetime := (i, i), pv_arena_offset := None\<rparr>) (zip [0..<length values] values)"

definition serial_step :: "nat \<times> phys_operation \<Rightarrow> phys_value list \<times> phys_step list \<times> nat option \<Rightarrow>
    (phys_value list \<times> phys_step list \<times> nat option) outcome" where
  "serial_step = (\<lambda>(i, p) (values, steps, acc).
     and_then (reject (\<exists>j \<in> set (po_inputs p). j \<ge> i) (invalid ''non-topological physical dependency'')) (\<lambda>_.
     and_then (fold_out (end_life i) (po_inputs p) values) (\<lambda>values.
     and_then (choose_candidate (po_candidates p)) (\<lambda>(selected, reason).
     and_then (index_at (po_candidates p) selected) (\<lambda>c.
     and_then (cost_sum acc (ct_estimate_ns (cd_cost c))) (\<lambda>acc.
     Ok (values,
         steps @ [\<lparr>sp_id = i, sp_operation = p, sp_selected = selected, sp_selection_reason = reason, sp_stream = 0,
           sp_data_dependencies = po_inputs p, sp_order_dependencies = order_before i, sp_reuse_dependencies = []\<rparr>],
         acc)))))))"

definition SERIAL_ACTIVATION_POLICY :: string where
  "SERIAL_ACTIVATION_POLICY = ''device-only activations; host fallback forbidden; no arena reuse or complete device memory budget claimed''"

definition SERIAL_LIMITATIONS :: "string list" where
  "SERIAL_LIMITATIONS =
     [''Inspection IR only: native executor still consumes the token program, not this physical plan'',
      ''Backend calls retain opaque internals; boundary annotations are not independently executable launches'',
      ''Device workspace, internal temporaries, persistent-state sizes and binary identities require backend preparation/probes'',
      ''Known host payload peak excludes opaque handles, container capacity, allocator overhead and device memory'',
      ''No measured hardware costs, overlap, reuse or capture qualification is implied'']"

definition serial_plan :: "string \<Rightarrow> string \<Rightarrow> string \<Rightarrow> nat list \<Rightarrow> phys_operation list \<Rightarrow> phys_value list \<Rightarrow> nat list \<Rightarrow>
    phys_plan outcome" where
  "serial_plan name target logical_digest devices operations values outputs =
     (let n = length operations in
     and_then (reject (n = 0 \<or> n > 10000 \<or> length values \<noteq> n \<or> (\<exists>v \<in> set values. pv_location v \<noteq> Device) \<or> devices = []
         \<or> length devices > 256 \<or> outputs = [] \<or> (\<exists>i \<in> set outputs. i \<ge> n))
       (invalid ''physical graph bounds'')) (\<lambda>_.
     and_then (fold_out serial_step (zip [0..<n] operations) (fresh_values values, [], Some 0)) (\<lambda>(values, steps, acc).
     and_then (fold_out (end_life n) outputs values) (\<lambda>values.
     and_then (host_peak values n) (\<lambda>peak.
     let p = \<lparr>pl_format = PHYSICAL_FORMAT, pl_name = name, pl_target = target, pl_logical_digest = logical_digest,
          pl_policy = ''serial-device-resident-v1'', pl_executable = False,
          pl_ranks = map (\<lambda>(rank, device). \<lparr>rk_rank = rank, rk_device = device, rk_schedule = 0\<rparr>) (zip [0..<length devices] devices),
          pl_groups = [\<lparr>gp_id = ''all_ranks'', gp_ranks = [0..<length devices]\<rparr>],
          pl_schedules = [\<lparr>sd_id = 0, sd_steps = steps, sd_values = values, sd_outputs = outputs,
            sd_known_host_payload_peak_bytes = peak, sd_memory_complete = False, sd_activation_policy = SERIAL_ACTIVATION_POLICY,
            sd_cost_complete = (acc \<noteq> None), sd_estimated_serial_ns = acc\<rparr>],
          pl_limitations = SERIAL_LIMITATIONS\<rparr> in
     and_then (verify_physical p) (\<lambda>_. Ok p))))))"

end
