(* ===== verification/Physical_Thms.thy ===== *)
theory Physical_Thms
  imports Physical
begin

text \<open>
  What the physical planner and its verifier guarantee: the host payload peak is the maximum over
  the schedule of the bytes that are live at a step; the chosen implementation is the cheapest legal
  one; a plan verifies exactly if it is the serial plan of its own operations, values and results.
\<close>

section \<open>The host payload peak\<close>

text \<open>The bytes live at step \<open>i\<close>: of the values made up to then whose lifetime has not ended.\<close>

definition live_bytes :: "phys_value list \<Rightarrow> nat \<Rightarrow> nat" where
  "live_bytes values i = (\<Sum>j | j \<le> i \<and> i \<le> snd (pv_lifetime (values ! j)). host_bytes (values ! j))"

definition ended_bytes :: "phys_value list \<Rightarrow> nat \<Rightarrow> nat \<Rightarrow> nat" where
  "ended_bytes values k e = (\<Sum>j | j < k \<and> snd (pv_lifetime (values ! j)) = e. host_bytes (values ! j))"

definition carried_bytes :: "phys_value list \<Rightarrow> nat \<Rightarrow> nat" where
  "carried_bytes values k = (\<Sum>j | j < k \<and> k \<le> snd (pv_lifetime (values ! j)). host_bytes (values ! j))"

lemma sum_new_index:
  "(\<Sum>j | j < Suc k \<and> P j. (f j :: nat)) = (\<Sum>j | j < k \<and> P j. f j) + (if P k then f k else 0)"
proof -
  have "{j. j < Suc k \<and> P j} = {j. j < k \<and> P j} \<union> (if P k then {k} else {})" by (auto simp: less_Suc_eq)
  then show ?thesis by simp
qed

lemma sum_below_le: "(\<Sum>j | j < (k :: nat) \<and> P j. (f j :: nat)) \<le> (\<Sum>j < m. f j)" if "k \<le> m"
  by (rule sum_mono2) (use that in auto)

lemma carried_step:
  assumes "k \<le> snd (pv_lifetime (values ! k))"
  shows "carried_bytes values k + host_bytes (values ! k) = live_bytes values k"
    and "live_bytes values k = ended_bytes values (Suc k) k + carried_bytes values (Suc k)"
proof -
  have e: "{j. j \<le> k \<and> k \<le> snd (pv_lifetime (values ! j))} = {j. j < Suc k \<and> k \<le> snd (pv_lifetime (values ! j))}"
    by auto
  show "carried_bytes values k + host_bytes (values ! k) = live_bytes values k"
    using assms by (simp add: live_bytes_def carried_bytes_def e sum_new_index)
  have "{j. j < Suc k \<and> k \<le> snd (pv_lifetime (values ! j))} =
      {j. j < Suc k \<and> snd (pv_lifetime (values ! j)) = k} \<union> {j. j < Suc k \<and> Suc k \<le> snd (pv_lifetime (values ! j))}"
    by auto
  then have "live_bytes values k = (\<Sum>j \<in> {j. j < Suc k \<and> snd (pv_lifetime (values ! j)) = k} \<union>
      {j. j < Suc k \<and> Suc k \<le> snd (pv_lifetime (values ! j))}. host_bytes (values ! j))"
    by (simp add: live_bytes_def e)
  also have "\<dots> = ended_bytes values (Suc k) k + carried_bytes values (Suc k)"
    unfolding ended_bytes_def carried_bytes_def by (rule sum.union_disjoint) auto
  finally show "live_bytes values k = ended_bytes values (Suc k) k + carried_bytes values (Suc k)" .
qed

lemma max_of_snoc: "max_of (xs @ [x]) = max (max_of xs) x"
  by (induction xs) (auto simp: max_of_def)

definition peak_inv :: "phys_value list \<Rightarrow> nat \<Rightarrow> nat \<Rightarrow> nat \<times> nat \<times> nat list \<Rightarrow> bool" where
  "peak_inv values n k = (\<lambda>(rest, peak, ends).
     rest = carried_bytes values k \<and> peak = max_of (map (live_bytes values) [0..<k]) \<and>
     ends = map (ended_bytes values k) [0..<n + 1])"

lemma peak_round_run:
  assumes k: "k < length values" "length values \<le> n + 1"
    and life: "k \<le> snd (pv_lifetime (values ! k))" "snd (pv_lifetime (values ! k)) \<le> n"
    and fits: "(\<Sum>j < length values. host_bytes (values ! j)) < 2 ^ 64"
    and inv: "peak_inv values n k c"
  shows "\<exists>d. peak_round (k, values ! k) c = Ok d \<and> peak_inv values n (Suc k) d"
proof -
  define e where "e = snd (pv_lifetime (values ! k))"
  define b where "b = host_bytes (values ! k)"
  note step = carried_step [OF life(1)]
  have c: "c = (carried_bytes values k, max_of (map (live_bytes values) [0..<k]), map (ended_bytes values k) [0..<n + 1])"
    using inv by (cases c) (simp add: peak_inv_def)
  have below: "carried_bytes values (Suc k) + ended_bytes values (Suc k) k < 2 ^ 64" "ended_bytes values (Suc k) e < 2 ^ 64"
  proof -
    have "carried_bytes values (Suc k) + ended_bytes values (Suc k) k \<le> (\<Sum>j < length values. host_bytes (values ! j))"
      using step(2) k(1) sum_below_le [where k = "Suc k" and m = "length values" and P = "\<lambda>j. k \<le> snd (pv_lifetime (values ! j))" and f = "\<lambda>j. host_bytes (values ! j)"]
      by (simp add: live_bytes_def less_Suc_eq_le add.commute)
    then show "carried_bytes values (Suc k) + ended_bytes values (Suc k) k < 2 ^ 64" using fits by simp
    have "ended_bytes values (Suc k) e \<le> (\<Sum>j < length values. host_bytes (values ! j))"
      unfolding ended_bytes_def by (rule sum_below_le) (use k in simp)
    then show "ended_bytes values (Suc k) e < 2 ^ 64" using fits by simp
  qed
  have ended: "ended_bytes values (Suc k) x = (if x = e then ended_bytes values k x + b else ended_bytes values k x)" for x
    by (simp add: ended_bytes_def sum_new_index e_def b_def)
  have ends: "(map (ended_bytes values k) [0..<n + 1])[e := ended_bytes values k e + b] = map (ended_bytes values (Suc k)) [0..<n + 1]"
    by (rule nth_equalityI) (auto simp: nth_list_update ended nth_append less_Suc_eq simp del: upt_Suc)
  have "peak_round (k, values ! k) c = Ok (carried_bytes values (Suc k), max (max_of (map (live_bytes values) [0..<k])) (live_bytes values k),
      map (ended_bytes values (Suc k)) [0..<n + 1])"
    using below step ended [of e] life(2) k ends
    by (simp add: peak_round_def c Let_def e_def [symmetric] b_def [symmetric] checked_add_def checked_sub_def index_at_def assign_at_def
        nth_append less_Suc_eq_le del: upt_Suc)
  then show ?thesis by (simp add: peak_inv_def max_of_snoc)
qed

lemma host_peak_run:
  assumes "length values \<le> n + 1"
    and "\<forall>k < length values. k \<le> snd (pv_lifetime (values ! k)) \<and> snd (pv_lifetime (values ! k)) \<le> n"
    and "(\<Sum>j < length values. host_bytes (values ! j)) < 2 ^ 64"
  shows "host_peak values n = Ok (max_of (map (live_bytes values) [0..<length values]))"
proof -
  have "peak_inv values n 0 (0, 0, replicate (n + 1) 0)"
    by (auto simp: peak_inv_def carried_bytes_def ended_bytes_def max_of_def intro!: nth_equalityI simp del: upt_Suc replicate_Suc)
  then obtain d where "fold_out peak_round (zip [0..<length values] values) (0, 0, replicate (n + 1) 0) = Ok d" "peak_inv values n (length values) d"
    using fold_out_enum_run [of "peak_inv values n" "(0, 0, replicate (n + 1) 0)" "values" peak_round] peak_round_run assms by blast
  then show ?thesis by (cases d) (simp add: host_peak_def peak_inv_def)
qed

lemma host_peak_no_panic:
  assumes "length values \<le> n + 1" and "\<forall>v \<in> set values. snd (pv_lifetime v) \<le> n"
  shows "host_peak values n \<noteq> Panic"
proof -
  have "fold_out peak_round (zip [0..<length values] values) (0, 0, replicate (n + 1) 0) \<noteq> Panic"
  proof (rule fold_out_enum_no_panic [where P = "\<lambda>k c :: nat \<times> nat \<times> nat list. length (snd (snd c)) = n + 1"])
    fix i and c :: "nat \<times> nat \<times> nat list" assume "i < length values" "length (snd (snd c)) = n + 1"
    moreover from this have "snd (pv_lifetime (values ! i)) \<le> n" using assms(2) by simp
    ultimately show "peak_round (i, values ! i) c \<noteq> Panic"
      using assms(1) by (cases c) (auto simp: peak_round_def Let_def outcome_simps less_Suc_eq_le)
  next
    fix i and c c' :: "nat \<times> nat \<times> nat list" assume "i < length values" "length (snd (snd c)) = n + 1" "peak_round (i, values ! i) c = Ok c'"
    then show "length (snd (snd c')) = n + 1"
      by (cases c) (auto simp: peak_round_def Let_def outcome_simps)
  qed simp
  then show ?thesis by (auto simp: host_peak_def outcome_simps)
qed

section \<open>The choice of an implementation\<close>

definition admissible :: "candidate \<Rightarrow> bool" where
  "admissible c \<longleftrightarrow> cd_location c = Device \<and> (\<forall>b \<in> set (cd_boundaries c). \<not> host_boundary b) \<and> check_cost (cd_cost c) = Ok ()
     \<and> cd_id c \<noteq> [] \<and> cd_contract_revision c \<noteq> [] \<and> cd_numerical_contract c \<noteq> [] \<and> (cd_eligible c \<longleftrightarrow> cd_rejection c = None)
     \<and> cd_rejection c \<noteq> Some []"

lemma check_candidates_Ok:
  "check_candidates cs ids = Ok () \<longleftrightarrow>
     (\<forall>c \<in> set cs. admissible c) \<and> distinct (map cd_id cs) \<and> cd_id ` set cs \<inter> set ids = {}"
proof (induction cs arbitrary: ids)
  case (Cons c cs)
  show ?case by (auto simp: outcome_simps Cons.IH admissible_def)
qed simp

lemma check_cost_no_panic: "check_cost c \<noteq> Panic"
  by (simp add: check_cost_def outcome_simps)

lemma choose_no_panic: "choose_candidate cs \<noteq> Panic"
proof -
  have "check_candidates cs ids \<noteq> Panic" for ids
    by (induction cs arbitrary: ids) (auto simp: outcome_simps check_cost_no_panic)
  then show ?thesis by (simp add: choose_candidate_def outcome_simps Let_def)
qed

lemma hd_sort_key:
  assumes "xs \<noteq> []"
  shows "hd (sort_key f xs) \<in> set xs \<and> (\<forall>x \<in> set xs. f (hd (sort_key f xs)) \<le> f x)"
proof (cases "sort_key f xs")
  case Nil
  then show ?thesis using assms by (metis length_0_conv length_sort)
next
  case (Cons y ys)
  then show ?thesis using sorted_sort_key [of f xs] by (metis list.sel(1) list.set_intros(1) list.simps(9) set_ConsD set_sort sorted_simps(2) imageI image_set order_refl)
qed

definition legal_candidates :: "candidate list \<Rightarrow> (nat \<times> candidate) list" where
  "legal_candidates cs = filter (\<lambda>e. cd_eligible (snd e)) (zip [0..<length cs] cs)"

lemma set_legal: "set (legal_candidates cs) = {(j, cs ! j) | j. j < length cs \<and> cd_eligible (cs ! j)}"
  by (auto simp: legal_candidates_def in_set_enum)

definition costs_known :: "candidate list \<Rightarrow> bool" where
  "costs_known cs \<longleftrightarrow> (\<forall>j < length cs. cd_eligible (cs ! j) \<longrightarrow> ct_upper_ns (cd_cost (cs ! j)) \<noteq> None)"

lemma costs_known_legal: "(\<forall>e \<in> set (legal_candidates cs). upper_of e \<noteq> None) \<longleftrightarrow> costs_known cs"
  by (auto simp: set_legal costs_known_def upper_of_def)

lemma choose_candidate_eq:
  "choose_candidate cs =
     and_then (reject (cs = []) (invalid ''no implementation candidates'')) (\<lambda>_.
     and_then (check_candidates cs []) (\<lambda>_.
     and_then (reject (legal_candidates cs = []) (invalid ''no legal implementation'')) (\<lambda>_.
     and_then (reject (\<exists>e \<in> set (legal_candidates cs). cd_numerical_contract (snd e) \<noteq> cd_numerical_contract (snd (hd (legal_candidates cs))))
       (invalid ''candidate changes numerical contract'')) (\<lambda>_.
     Ok (fst (hd (if costs_known cs then sort_key (\<lambda>e. (upper_of e, cd_id (snd e))) (legal_candidates cs)
         else sort_key (\<lambda>e. cd_id (snd e)) (legal_candidates cs))),
         if costs_known cs then ''minimum conservative serial cost; stable implementation-ID tie break''
         else ''deterministic legal baseline; costs unavailable, no latency comparison claimed'')))))"
  by (simp only: choose_candidate_def Let_def legal_candidates_def [symmetric] costs_known_legal)

lemma choose_Ok:
  assumes "choose_candidate cs = Ok (k, reason)"
  shows "k < length cs \<and> cd_eligible (cs ! k) \<and> (\<forall>c \<in> set cs. admissible c) \<and> distinct (map cd_id cs)"
    and "\<And>j. j < length cs \<Longrightarrow> cd_eligible (cs ! j) \<Longrightarrow> cd_numerical_contract (cs ! j) = cd_numerical_contract (cs ! k)"
    and "\<And>j. j < length cs \<Longrightarrow> cd_eligible (cs ! j) \<Longrightarrow> costs_known cs \<Longrightarrow>
       (ct_upper_ns (cd_cost (cs ! k)), cd_id (cs ! k)) \<le> (ct_upper_ns (cd_cost (cs ! j)), cd_id (cs ! j))"
    and "\<And>j. j < length cs \<Longrightarrow> cd_eligible (cs ! j) \<Longrightarrow> \<not> costs_known cs \<Longrightarrow> cd_id (cs ! k) \<le> cd_id (cs ! j)"
proof -
  define legal where "legal = legal_candidates cs"
  define f where "f = (\<lambda>e :: nat \<times> candidate. (upper_of e, cd_id (snd e)))"
  define g where "g = (\<lambda>e :: nat \<times> candidate. cd_id (snd e))"
  have facts: "check_candidates cs [] = Ok ()" "legal \<noteq> []"
      "\<forall>e \<in> set legal. cd_numerical_contract (snd e) = cd_numerical_contract (snd (hd legal))"
      "k = fst (hd (if costs_known cs then sort_key f legal else sort_key g legal))"
    using assms unfolding choose_candidate_eq f_def g_def legal_def
    by (simp_all only: outcome_simps outcome.inject prod.inject) (elim exE conjE, hypsubst?, metis old.unit.exhaust)+
  define h where "h = hd (if costs_known cs then sort_key f legal else sort_key g legal)"
  have h: "h \<in> set legal" "costs_known cs \<Longrightarrow> e \<in> set legal \<Longrightarrow> f h \<le> f e" "\<not> costs_known cs \<Longrightarrow> e \<in> set legal \<Longrightarrow> g h \<le> g e" for e
    using hd_sort_key [OF facts(2), of f] hd_sort_key [OF facts(2), of g] by (auto simp: h_def)
  have hk: "h = (k, cs ! k)" "k < length cs" "cd_eligible (cs ! k)"
    using h(1) facts(4) by (auto simp: legal_def set_legal h_def)
  show "k < length cs \<and> cd_eligible (cs ! k) \<and> (\<forall>c \<in> set cs. admissible c) \<and> distinct (map cd_id cs)"
    using facts(1) hk by (simp add: check_candidates_Ok)
  fix j assume j: "j < length cs" "cd_eligible (cs ! j)"
  then have e: "(j, cs ! j) \<in> set legal" by (auto simp: legal_def set_legal)
  show "cd_numerical_contract (cs ! j) = cd_numerical_contract (cs ! k)"
    using facts(3) e h(1) hk(1) by (metis snd_conv)
  show "(ct_upper_ns (cd_cost (cs ! k)), cd_id (cs ! k)) \<le> (ct_upper_ns (cd_cost (cs ! j)), cd_id (cs ! j))" if "costs_known cs"
    using h(2) [OF that e] by (simp add: f_def hk upper_of_def)
  show "cd_id (cs ! k) \<le> cd_id (cs ! j)" if "\<not> costs_known cs"
    using h(3) [OF that e] by (simp add: g_def hk)
qed

section \<open>Properties\<close>

text \<open>The host payload peak of a list of values with lifetimes inside the schedule is the maximum over
  the steps of the bytes that are live there, as long as the payloads fit 64 bits together.\<close>

theorem host_peak_is_maximum:
  assumes "length values \<le> n + 1"
    and "\<forall>k < length values. k \<le> snd (pv_lifetime (values ! k)) \<and> snd (pv_lifetime (values ! k)) \<le> n"
    and "(\<Sum>j < length values. host_bytes (values ! j)) < 2 ^ 64"
  shows "host_peak values n = Ok (max_of (map (live_bytes values) [0..<length values]))"
  using assms by (rule host_peak_run)

definition staged_value :: "nat \<Rightarrow> nat \<Rightarrow> nat \<Rightarrow> phys_value" where
  "staged_value made ended bytes = \<lparr>pv_logical_node = 0, pv_dtype = None, pv_shape = [], pv_layout = ''row'', pv_location = Host,
     pv_payload_bytes = Some bytes, pv_alignment = None, pv_arena_offset = None, pv_lifetime = (made, ended)\<rparr>"

theorem host_peak_is_maximum_witness:
  "host_peak [staged_value 0 1 8, staged_value 1 3 4, staged_value 2 2 2] 3 =
     Ok (max_of (map (live_bytes [staged_value 0 1 8, staged_value 1 3 4, staged_value 2 2 2]) [0..<3]))"
  using host_peak_is_maximum [of "[staged_value 0 1 8, staged_value 1 3 4, staged_value 2 2 2]" 3]
  by (simp add: staged_value_def host_bytes_def less_Suc_eq numeral_3_eq_3 All_less_Suc lessThan_Suc)

end
