(* ===== verification/Physical_Plans.thy ===== *)
theory Physical_Plans
  imports Physical_Thms
begin

text \<open>
  Verified physical plans and the serial planner. The state of the verifier after a number of steps is
  a function of the plan, so the loop accepts exactly the steps that are legal one by one; the planner's
  loop is described by the same functions, which makes the two agree.
\<close>

section \<open>The state of the loops\<close>

text \<open>The last step before \<open>k\<close> that reads a value, or the step that makes it.\<close>

definition ends_at :: "phys_operation list \<Rightarrow> nat \<Rightarrow> nat \<Rightarrow> nat" where
  "ends_at ps k j = Max (insert j {i. i < k \<and> j \<in> set (po_inputs (ps ! i))})"

definition lifetime_end :: "phys_operation list \<Rightarrow> nat list \<Rightarrow> nat \<Rightarrow> nat" where
  "lifetime_end ps outputs j = (if j \<in> set outputs then length ps else ends_at ps (length ps) j)"

definition chosen_estimate :: "phys_operation \<Rightarrow> nat \<Rightarrow> nat option" where
  "chosen_estimate p selected = ct_estimate_ns (cd_cost (po_candidates p ! selected))"

definition sum_estimates :: "nat option list \<Rightarrow> nat option" where
  "sum_estimates es = (if None \<in> set es then None else Some (sum_list (map the es)))"

definition sum_fits :: "nat option list \<Rightarrow> bool" where
  "sum_fits es \<longleftrightarrow> None \<in> set es \<or> sum_list (map the es) < 2 ^ 64"

definition collectives :: "phys_operation list \<Rightarrow> phys_collective list" where
  "collectives ps = List.map_filter po_collective ps"

lemma ends_at_0 [simp]: "ends_at ps 0 j = j"
  by (simp add: ends_at_def)

lemma ends_at_Suc:
  assumes "\<forall>j \<in> set (po_inputs (ps ! k)). j < k"
  shows "ends_at ps (Suc k) j = (if j \<in> set (po_inputs (ps ! k)) then k else ends_at ps k j)"
proof -
  have e: "{i. i < Suc k \<and> j \<in> set (po_inputs (ps ! i))} =
      {i. i < k \<and> j \<in> set (po_inputs (ps ! i))} \<union> (if j \<in> set (po_inputs (ps ! k)) then {k} else {})"
    by (auto simp: less_Suc_eq)
  show ?thesis
  proof (cases "j \<in> set (po_inputs (ps ! k))")
    case True
    then have "Max (insert j ({i. i < k \<and> j \<in> set (po_inputs (ps ! i))} \<union> {k})) = k"
      using assms by (intro Max_eqI) auto
    then show ?thesis using True by (simp add: ends_at_def e)
  qed (simp add: ends_at_def e)
qed

lemma ends_at_bound: "j < k \<Longrightarrow> ends_at ps k j < k"
  by (simp add: ends_at_def)

lemma ends_at_read: "i < k \<Longrightarrow> j \<in> set (po_inputs (ps ! i)) \<Longrightarrow> i \<le> ends_at ps k j"
  by (simp add: ends_at_def)

lemma assign_all_Ok:
  "assign_all js i ends = Ok ends' \<longleftrightarrow>
     (\<forall>j \<in> set js. j < length ends) \<and> ends' = map (\<lambda>k. if k \<in> set js then i else ends ! k) [0..<length ends]"
proof (induction js arbitrary: ends)
  case Nil
  then show ?case by (auto simp: map_nth)
next
  case (Cons j js)
  have "map (\<lambda>k. if k \<in> set js then i else ends[j := i] ! k) [0..<length ends] =
      map (\<lambda>k. if k \<in> set (j # js) then i else ends ! k) [0..<length ends]" if "j < length ends"
    using that by (auto simp: nth_list_update)
  then show ?case using Cons.IH [of "ends[j := i]"] by (auto simp: outcome_simps)
qed

lemma assign_all_no_panic: "\<forall>j \<in> set js. j < length ends \<Longrightarrow> assign_all js i ends \<noteq> Panic"
  by (induction js arbitrary: ends) (auto simp: outcome_simps)

lemma insert_origins_False:
  "insert_origins js os = (False, os') \<longleftrightarrow> distinct js \<and> set js \<inter> set os = {} \<and> os' = bs_extend js os"
  by (induction js arbitrary: os) (auto simp: bs_extend_def)

lemma insert_origins_fst: "fst (insert_origins js os) \<longleftrightarrow> \<not> (distinct js \<and> set js \<inter> set os = {})"
  by (cases "insert_origins js os") (use insert_origins_False [of js os] in \<open>auto split: bool.splits\<close>)

lemma cost_sum_Ok:
  "cost_sum (sum_estimates es) e = Ok s \<longleftrightarrow> sum_fits (es @ [e]) \<and> s = sum_estimates (es @ [e])"
  by (cases e) (auto simp: cost_sum_def sum_estimates_def sum_fits_def outcome_simps checked_add_def)

lemma collectives_snoc: "collectives (ps @ [p]) = collectives ps @ (case po_collective p of None \<Rightarrow> [] | Some c \<Rightarrow> [c])"
  by (cases "po_collective p") (simp_all add: collectives_def map_filter_def)

definition collective_ok :: "nat \<Rightarrow> phys_collective \<Rightarrow> bool" where
  "collective_ok sequence c \<longleftrightarrow> cl_group c = ''all_ranks'' \<and> cl_sequence c = sequence \<and> cl_operation c \<noteq> [] \<and> cl_dtype c \<noteq> []
     \<and> cl_elements_per_rank c \<noteq> 0"

lemma check_collective_Ok:
  assumes "length (collectives ps) < 2 ^ 64 - 1"
  shows "check_collective (po_collective p) (length (collectives ps)) = Ok m \<longleftrightarrow>
     (\<forall>c. po_collective p = Some c \<longrightarrow> collective_ok (length (collectives ps)) c) \<and> m = length (collectives (ps @ [p]))"
  using assms by (cases "po_collective p") (auto simp: check_collective_def collective_ok_def outcome_simps collectives_snoc)

section \<open>The verifier\<close>

abbreviation operations_of :: "phys_step list \<Rightarrow> phys_operation list" where
  "operations_of ts \<equiv> map sp_operation ts"

definition step_estimates :: "phys_step list \<Rightarrow> nat option list" where
  "step_estimates ts = map (\<lambda>t. chosen_estimate (sp_operation t) (sp_selected t)) ts"

definition check_after :: "phys_step list \<Rightarrow> nat \<Rightarrow> check_state" where
  "check_after ts k = \<lparr>ck_ends = map (ends_at (operations_of ts) k) [0..<length ts],
     ck_sequence = length (collectives (operations_of (take k ts))), ck_sum = sum_estimates (step_estimates (take k ts)),
     ck_origins = bs_of (concat (map po_logical_nodes (operations_of (take k ts))))\<rparr>"

definition operation_legal :: "phys_operation list \<Rightarrow> nat \<Rightarrow> bool" where
  "operation_legal ps k \<longleftrightarrow> (\<forall>j \<in> set (po_inputs (ps ! k)). j < k) \<and> po_logical_nodes (ps ! k) \<noteq> []
     \<and> distinct (po_logical_nodes (ps ! k))
     \<and> set (po_logical_nodes (ps ! k)) \<inter> set (concat (map po_logical_nodes (take k ps))) = {}
     \<and> (\<forall>c. po_collective (ps ! k) = Some c \<longrightarrow> collective_ok (length (collectives (take k ps))) c)"

definition step_legal :: "phys_step list \<Rightarrow> nat \<Rightarrow> bool" where
  "step_legal ts k \<longleftrightarrow> (\<exists>p selected reason. sp_operation (ts ! k) = p \<and>
     ts ! k = \<lparr>sp_id = k, sp_operation = p, sp_selected = selected, sp_selection_reason = reason, sp_stream = 0,
       sp_data_dependencies = po_inputs p, sp_order_dependencies = order_before k, sp_reuse_dependencies = []\<rparr> \<and>
     choose_candidate (po_candidates p) = Ok (selected, reason))
     \<and> operation_legal (operations_of ts) k \<and> sum_fits (step_estimates (take (Suc k) ts))"

lemma bs_of_extend: "bs_extend xs (bs_of ys) = bs_of (ys @ xs)"
  by (simp add: bs_of_def bs_extend_def)

lemma check_step_Ok:
  assumes k: "k < length ts" and small: "length ts \<le> 10000"
  shows "check_step (k, ts ! k) (check_after ts k) = Ok c \<longleftrightarrow> step_legal ts k \<and> c = check_after ts (Suc k)"
proof -
  define t where "t = ts ! k"
  define p where "p = sp_operation t"
  define ps where "ps = operations_of (take k ts)"
  define os where "os = bs_of (concat (map po_logical_nodes ps))"
  have takes: "take (Suc k) ts = take k ts @ [t]" using k by (simp add: t_def take_Suc_conv_app_nth)
  have est: "step_estimates (take (Suc k) ts) = step_estimates (take k ts) @ [chosen_estimate p (sp_selected t)]"
    by (simp add: takes step_estimates_def p_def)
  have "length (collectives ps) \<le> length ps" by (simp add: collectives_def map_filter_def)
  then have few: "length (collectives ps) < 2 ^ 64 - 1" using small k by (simp add: ps_def)
  have pk: "operations_of ts ! k = p" "take k (operations_of ts) = ps" using k by (simp_all add: p_def t_def ps_def take_map)
  have split: "(let (again, origins) = insert_origins js os in f again origins) = f (fst (insert_origins js os)) (snd (insert_origins js os))"
    for js and f :: "bool \<Rightarrow> nat btset \<Rightarrow> check_state outcome" by (simp add: split_beta)
  have "check_step (k, t) (check_after ts k) = Ok c \<longleftrightarrow>
     (sp_id t = k \<and> sp_stream t = 0 \<and> sp_data_dependencies t = po_inputs p \<and> sp_order_dependencies t = order_before k
       \<and> sp_reuse_dependencies t = [] \<and> (\<forall>j \<in> set (po_inputs p). j < k) \<and> po_logical_nodes p \<noteq> []
       \<and> \<not> fst (insert_origins (po_logical_nodes p) os)) \<and>
     choose_candidate (po_candidates p) = Ok (sp_selected t, sp_selection_reason t) \<and>
     (\<forall>c. po_collective p = Some c \<longrightarrow> collective_ok (length (collectives ps)) c) \<and>
     sum_fits (step_estimates (take (Suc k) ts)) \<and>
     c = \<lparr>ck_ends = map (\<lambda>j. if j \<in> set (po_inputs p) then k else ends_at (operations_of ts) k j) [0..<length ts],
          ck_sequence = length (collectives (ps @ [p])), ck_sum = sum_estimates (step_estimates (take (Suc k) ts)),
          ck_origins = snd (insert_origins (po_logical_nodes p) os)\<rparr>" (is "?l \<longleftrightarrow> ?r")
  proof
    assume ?l
    then show ?r
      by (auto simp: check_step_def check_after_def Let_def split_beta outcome_simps p_def [symmetric] os_def [symmetric] ps_def [symmetric]
          assign_all_Ok cost_sum_Ok check_collective_Ok [OF few] est chosen_estimate_def)
  next
    assume r: ?r
    then have sel: "sp_selected t < length (po_candidates p)" using choose_Ok(1) by blast
    have "\<forall>j \<in> set (po_inputs p). j < length ts" using r k by force
    then show ?l using r sel
      by (auto simp: check_step_def check_after_def Let_def split_beta outcome_simps p_def [symmetric] os_def [symmetric] ps_def [symmetric]
          assign_all_Ok cost_sum_Ok check_collective_Ok [OF few] est chosen_estimate_def)
  qed
  moreover have "?r \<longleftrightarrow> step_legal ts k \<and> c = check_after ts (Suc k)"
  proof -
    have legal: "step_legal ts k \<longleftrightarrow>
       (sp_id t = k \<and> sp_stream t = 0 \<and> sp_data_dependencies t = po_inputs p \<and> sp_order_dependencies t = order_before k
         \<and> sp_reuse_dependencies t = [] \<and> (\<forall>j \<in> set (po_inputs p). j < k) \<and> po_logical_nodes p \<noteq> []
         \<and> \<not> fst (insert_origins (po_logical_nodes p) os)) \<and>
       choose_candidate (po_candidates p) = Ok (sp_selected t, sp_selection_reason t) \<and>
       (\<forall>c. po_collective p = Some c \<longrightarrow> collective_ok (length (collectives ps)) c) \<and>
       sum_fits (step_estimates (take (Suc k) ts))"
      unfolding step_legal_def operation_legal_def pk t_def [symmetric] p_def [symmetric] insert_origins_fst
      using p_def by (cases t) (auto simp: os_def ps_def)
    have after: "check_after ts (Suc k) =
        \<lparr>ck_ends = map (\<lambda>j. if j \<in> set (po_inputs p) then k else ends_at (operations_of ts) k j) [0..<length ts],
          ck_sequence = length (collectives (ps @ [p])), ck_sum = sum_estimates (step_estimates (take (Suc k) ts)),
          ck_origins = snd (insert_origins (po_logical_nodes p) os)\<rparr>"
      if "\<forall>j \<in> set (po_inputs p). j < k" "\<not> fst (insert_origins (po_logical_nodes p) os)"
    proof -
      have "insert_origins (po_logical_nodes p) os = (False, snd (insert_origins (po_logical_nodes p) os))"
        using that(2) by (cases "insert_origins (po_logical_nodes p) os") simp
      then have origins: "snd (insert_origins (po_logical_nodes p) os) = bs_of (concat (map po_logical_nodes (ps @ [p])))"
        by (simp add: insert_origins_False os_def bs_of_extend)
      have ops: "operations_of (take (Suc k) ts) = ps @ [p]" by (simp add: takes ps_def p_def)
      have ends: "ends_at (operations_of ts) (Suc k) = (\<lambda>j. if j \<in> set (po_inputs p) then k else ends_at (operations_of ts) k j)"
      proof (rule ext)
        show "ends_at (operations_of ts) (Suc k) j = (if j \<in> set (po_inputs p) then k else ends_at (operations_of ts) k j)" for j
          by (rule ends_at_Suc [of "operations_of ts" k j, unfolded pk, OF that(1)])
      qed
      show ?thesis unfolding check_after_def ops ends origins by (rule refl)
    qed
    have same: "S \<and> c = a \<longleftrightarrow> S \<and> c = b" if "S \<Longrightarrow> a = b" for S and a b :: check_state
      using that by blast
    have "check_after ts (Suc k) = \<lparr>ck_ends = map (\<lambda>j. if j \<in> set (po_inputs p) then k else ends_at (operations_of ts) k j) [0..<length ts],
          ck_sequence = length (collectives (ps @ [p])), ck_sum = sum_estimates (step_estimates (take (Suc k) ts)),
          ck_origins = snd (insert_origins (po_logical_nodes p) os)\<rparr>" if "step_legal ts k"
    proof (rule after)
      show "\<forall>j \<in> set (po_inputs p). j < k" "\<not> fst (insert_origins (po_logical_nodes p) os)"
        using that unfolding legal by blast+
    qed
    then have "step_legal ts k \<and> c = check_after ts (Suc k) \<longleftrightarrow> step_legal ts k \<and> c =
        \<lparr>ck_ends = map (\<lambda>j. if j \<in> set (po_inputs p) then k else ends_at (operations_of ts) k j) [0..<length ts],
          ck_sequence = length (collectives (ps @ [p])), ck_sum = sum_estimates (step_estimates (take (Suc k) ts)),
          ck_origins = snd (insert_origins (po_logical_nodes p) os)\<rparr>" by (rule same)
    then show ?thesis unfolding legal by (simp only: conj_assoc)
  qed
  ultimately show ?thesis by (simp add: t_def)
qed

lemma check_init: "\<lparr>ck_ends = [0..<length ts], ck_sequence = 0, ck_sum = Some 0, ck_origins = []\<rparr> = check_after ts 0"
  by (simp add: check_after_def collectives_def map_filter_def sum_estimates_def step_estimates_def bs_of_def bs_extend_def map_idI)

lemma check_loop_Ok:
  "length ts \<le> 10000 \<Longrightarrow> fold_out check_step (zip [0..<length ts] ts) (check_after ts 0) = Ok k \<longleftrightarrow>
     (\<forall>i < length ts. step_legal ts i) \<and> k = check_after ts (length ts)"
  by (rule fold_out_enum_iff) (rule check_step_Ok)

definition value_legal :: "phys_operation list \<Rightarrow> nat list \<Rightarrow> phys_value list \<Rightarrow> nat \<Rightarrow> bool" where
  "value_legal ps outputs values j \<longleftrightarrow> pv_location (values ! j) = Device \<and> pv_lifetime (values ! j) = (j, lifetime_end ps outputs j)
     \<and> pv_arena_offset (values ! j) = None \<and> pv_logical_node (values ! j) \<in> set (po_logical_nodes (ps ! j))
     \<and> (\<forall>a. pv_alignment (values ! j) = Some a \<longrightarrow> (\<exists>e. a = 2 ^ e)) \<and> check_payload (values ! j) = Ok ()"

definition schedule_legal :: "phys_schedule \<Rightarrow> bool" where
  "schedule_legal s \<longleftrightarrow> sd_id s = 0 \<and> sd_steps s \<noteq> [] \<and> length (sd_steps s) \<le> 10000 \<and> length (sd_values s) = length (sd_steps s)
     \<and> sd_outputs s \<noteq> [] \<and> (\<forall>i \<in> set (sd_outputs s). i < length (sd_steps s)) \<and> \<not> sd_memory_complete s
     \<and> (\<forall>k < length (sd_steps s). step_legal (sd_steps s) k)
     \<and> (\<forall>j < length (sd_steps s). value_legal (operations_of (sd_steps s)) (sd_outputs s) (sd_values s) j)
     \<and> host_peak (sd_values s) (length (sd_steps s)) = Ok (sd_known_host_payload_peak_bytes s)
     \<and> sd_estimated_serial_ns s = sum_estimates (step_estimates (sd_steps s))
     \<and> sd_cost_complete s = (sum_estimates (step_estimates (sd_steps s)) \<noteq> None)"

definition header_legal :: "phys_plan \<Rightarrow> bool" where
  "header_legal p \<longleftrightarrow> pl_format p = PHYSICAL_FORMAT \<and> \<not> pl_executable p \<and> pl_policy p = ''serial-device-resident-v1''
     \<and> pl_ranks p \<noteq> [] \<and> length (pl_ranks p) \<le> 256 \<and> pl_logical_digest p \<noteq> []
     \<and> (\<forall>i < length (pl_ranks p). rk_rank (pl_ranks p ! i) = i \<and> rk_schedule (pl_ranks p ! i) = 0)
     \<and> distinct (map rk_device (pl_ranks p))
     \<and> pl_groups p = [\<lparr>gp_id = ''all_ranks'', gp_ranks = [0..<length (pl_ranks p)]\<rparr>]"

lemma check_ranks_Ok:
  "check_ranks irs devices = Ok () \<longleftrightarrow> (\<forall>(i, r) \<in> set irs. rk_rank r = i \<and> rk_schedule r = 0)
     \<and> distinct (map (\<lambda>e. rk_device (snd e)) irs) \<and> rk_device ` snd ` set irs \<inter> set devices = {}"
  by (induction irs devices rule: check_ranks.induct) (auto simp: outcome_simps)

lemma zip_enum_all: "(\<forall>x \<in> set (zip [0..<length xs] xs). P x) \<longleftrightarrow> (\<forall>i < length xs. P (i, xs ! i))"
  by (auto simp: in_set_enum)

lemma check_ranks_enum:
  "check_ranks (zip [0..<length rs] rs) [] = Ok () \<longleftrightarrow>
     (\<forall>i < length rs. rk_rank (rs ! i) = i \<and> rk_schedule (rs ! i) = 0) \<and> distinct (map rk_device rs)"
proof -
  have "map (\<lambda>e. rk_device (snd e)) (zip [0..<length rs] rs) = map rk_device rs"
    using map_map [of rk_device snd "zip [0..<length rs] rs"] by (simp add: comp_def)
  then show ?thesis by (simp add: check_ranks_Ok zip_enum_all)
qed

lemma check_value_Ok:
  assumes "j < length ts" and "length ends = length ts"
  shows "check_value ts ends (j, v) = Ok () \<longleftrightarrow> pv_location v = Device \<and> pv_lifetime v = (j, ends ! j) \<and> pv_arena_offset v = None
     \<and> pv_logical_node v \<in> set (po_logical_nodes (sp_operation (ts ! j))) \<and> (\<forall>a. pv_alignment v = Some a \<longrightarrow> (\<exists>e. a = 2 ^ e))"
proof -
  have "(case a of None \<Rightarrow> True | Some a \<Rightarrow> a \<noteq> 0 \<and> is_power_of_two a) \<longleftrightarrow> (\<forall>b. a = Some b \<longrightarrow> (\<exists>e. b = 2 ^ e))" for a
    by (cases a) (auto simp: is_power_of_two_iff)
  then show ?thesis using assms by (simp add: check_value_def outcome_simps conj_ac)
qed

text \<open>The verifier accepts exactly the plans whose parts are legal one by one.\<close>

lemma verify_physical_iff:
  "verify_physical p = Ok () \<longleftrightarrow> header_legal p \<and> (\<exists>s. pl_schedules p = [s] \<and> schedule_legal s)"
proof (cases "pl_schedules p")
  case Nil
  then show ?thesis by (simp add: verify_physical_def outcome_simps)
next
  case (Cons s rest)
  show ?thesis
  proof (cases "rest = [] \<and> length (sd_steps s) \<le> 10000")
    case False
    then show ?thesis using Cons by (auto simp: verify_physical_def outcome_simps schedule_legal_def Let_def)
  next
    case True
    define ts where "ts = sd_steps s"
    define n where "n = length ts"
    define ends where "ends = map (lifetime_end (operations_of ts) (sd_outputs s)) [0..<n]"
    note init = check_init [of ts, folded n_def]
    have loop: "fold_out check_step (zip [0..<n] ts) (check_after ts 0) = Ok k \<longleftrightarrow> (\<forall>i < n. step_legal ts i) \<and> k = check_after ts n" for k
      unfolding n_def by (rule check_loop_Ok) (use True ts_def in simp)
    have outs: "assign_all (sd_outputs s) n (ck_ends (check_after ts n)) = Ok e \<longleftrightarrow> (\<forall>i \<in> set (sd_outputs s). i < n) \<and> e = ends" for e
      by (auto simp: assign_all_Ok check_after_def ends_def n_def lifetime_end_def)
    have vals: "check_all (check_value ts ends) (zip [0..<length (sd_values s)] (sd_values s)) = Ok () \<and> check_all check_payload (sd_values s) = Ok () \<longleftrightarrow>
        (\<forall>j < n. value_legal (operations_of ts) (sd_outputs s) (sd_values s) j)" if "length (sd_values s) = n"
      using that by (auto simp: outcome_simps zip_enum_all check_value_Ok n_def ends_def value_legal_def all_set_conv_all_nth)
    have sum: "ck_sum (check_after ts n) = sum_estimates (step_estimates ts)" by (simp add: check_after_def n_def)
    have "verify_physical p = Ok () \<longleftrightarrow> header_legal p \<and> sd_id s = 0 \<and> ts \<noteq> [] \<and> n \<le> 10000 \<and> length (sd_values s) = n \<and> sd_outputs s \<noteq> []
       \<and> (\<forall>i \<in> set (sd_outputs s). i < n) \<and> \<not> sd_memory_complete s \<and> (\<forall>k < n. step_legal ts k)
       \<and> (check_all (check_value ts ends) (zip [0..<length (sd_values s)] (sd_values s)) = Ok () \<and> check_all check_payload (sd_values s) = Ok ())
       \<and> host_peak (sd_values s) n = Ok (sd_known_host_payload_peak_bytes s)
       \<and> sd_estimated_serial_ns s = sum_estimates (step_estimates ts) \<and> sd_cost_complete s = (sum_estimates (step_estimates ts) \<noteq> None)"
      using True Cons unfolding verify_physical_def header_legal_def
      by (auto simp: outcome_simps Let_def index_at_def ts_def [symmetric] n_def [symmetric] init loop outs sum check_ranks_enum)
    also have "\<dots> \<longleftrightarrow> header_legal p \<and> schedule_legal s"
      using vals by (auto simp: schedule_legal_def ts_def [symmetric] n_def [symmetric])
    finally show ?thesis using True Cons by simp
  qed
qed

section \<open>The serial planner\<close>

definition live_until :: "phys_value list \<Rightarrow> (nat \<Rightarrow> nat) \<Rightarrow> phys_value list" where
  "live_until values ends =
     map (\<lambda>j. (values ! j)\<lparr>pv_lifetime := (j, ends j), pv_arena_offset := None\<rparr>) [0..<length values]"

definition choice_of :: "phys_operation \<Rightarrow> nat \<times> string" where
  "choice_of p = (case choose_candidate (po_candidates p) of Ok c \<Rightarrow> c | _ \<Rightarrow> (0, []))"

definition planned_step :: "phys_operation list \<Rightarrow> nat \<Rightarrow> phys_step" where
  "planned_step ps i = \<lparr>sp_id = i, sp_operation = ps ! i, sp_selected = fst (choice_of (ps ! i)),
     sp_selection_reason = snd (choice_of (ps ! i)), sp_stream = 0, sp_data_dependencies = po_inputs (ps ! i),
     sp_order_dependencies = order_before i, sp_reuse_dependencies = []\<rparr>"

definition planned_estimates :: "phys_operation list \<Rightarrow> nat option list" where
  "planned_estimates ps = map (\<lambda>p. chosen_estimate p (fst (choice_of p))) ps"

definition serial_after :: "phys_operation list \<Rightarrow> phys_value list \<Rightarrow> nat \<Rightarrow> phys_value list \<times> phys_step list \<times> nat option" where
  "serial_after ps values k = (live_until values (ends_at ps k), map (planned_step ps) [0..<k], sum_estimates (planned_estimates (take k ps)))"

definition plannable :: "phys_operation list \<Rightarrow> nat \<Rightarrow> bool" where
  "plannable ps k \<longleftrightarrow> (\<forall>j \<in> set (po_inputs (ps ! k)). j < k) \<and> choose_candidate (po_candidates (ps ! k)) = Ok (choice_of (ps ! k))
     \<and> sum_fits (planned_estimates (take (Suc k) ps))"

lemma length_live_until [simp]: "length (live_until values ends) = length values"
  by (simp add: live_until_def)

lemma nth_live_until: "j < length values \<Longrightarrow> live_until values ends ! j = (values ! j)\<lparr>pv_lifetime := (j, ends j), pv_arena_offset := None\<rparr>"
  by (simp add: live_until_def)

lemma fresh_values_live: "fresh_values values = live_until values (\<lambda>j. j)"
  by (rule nth_equalityI) (simp_all add: fresh_values_def live_until_def)

lemma end_life_Ok:
  "end_life i j (live_until values ends) = Ok vs \<longleftrightarrow> j < length values \<and> vs = live_until values (ends(j := i))"
proof -
  have "(live_until values ends)[j := (live_until values ends ! j)\<lparr>pv_lifetime := (fst (pv_lifetime (live_until values ends ! j)), i)\<rparr>] =
      live_until values (ends(j := i))" if "j < length values"
    by (rule nth_equalityI) (use that in \<open>auto simp: nth_live_until nth_list_update\<close>)
  then show ?thesis by (auto simp: end_life_def outcome_simps)
qed

lemma end_lives_Ok:
  "fold_out (end_life i) js (live_until values ends) = Ok vs \<longleftrightarrow>
     (\<forall>j \<in> set js. j < length values) \<and> vs = live_until values (\<lambda>j. if j \<in> set js then i else ends j)"
proof (induction js arbitrary: ends)
  case (Cons j js)
  have e: "(\<lambda>k. if k \<in> set js then i else (ends(j := i)) k) = (\<lambda>k. if k \<in> set (j # js) then i else ends k)" by auto
  have "fold_out (end_life i) (j # js) (live_until values ends) = Ok vs \<longleftrightarrow>
      j < length values \<and> fold_out (end_life i) js (live_until values (ends(j := i))) = Ok vs"
    by (auto simp: outcome_simps end_life_Ok)
  then show ?case unfolding Cons.IH e by simp
qed (auto simp: eq_commute)

lemma serial_step_Ok:
  assumes k: "k < length ps" and len: "length values = length ps"
  shows "serial_step (k, ps ! k) (serial_after ps values k) = Ok c \<longleftrightarrow> plannable ps k \<and> c = serial_after ps values (Suc k)"
proof -
  define p where "p = ps ! k"
  have takes: "take (Suc k) ps = take k ps @ [p]" using k by (simp add: p_def take_Suc_conv_app_nth)
  have est: "planned_estimates (take (Suc k) ps) = planned_estimates (take k ps) @ [chosen_estimate p (fst (choice_of p))]"
    by (simp add: takes planned_estimates_def)
  have "ends_at ps (Suc k) = (\<lambda>j. if j \<in> set (po_inputs p) then k else ends_at ps k j)" if "\<forall>j \<in> set (po_inputs p). j < k"
    using ends_at_Suc [of ps k] that by (intro ext) (simp add: p_def)
  then have after: "serial_after ps values (Suc k) = (live_until values (\<lambda>j. if j \<in> set (po_inputs p) then k else ends_at ps k j),
      map (planned_step ps) [0..<k] @ [planned_step ps k], sum_estimates (planned_estimates (take (Suc k) ps)))"
    if "\<forall>j \<in> set (po_inputs p). j < k"
    using that by (simp add: serial_after_def)
  have step: "planned_step ps k = \<lparr>sp_id = k, sp_operation = p, sp_selected = fst (choice_of p), sp_selection_reason = snd (choice_of p),
     sp_stream = 0, sp_data_dependencies = po_inputs p, sp_order_dependencies = order_before k, sp_reuse_dependencies = []\<rparr>"
    by (simp add: planned_step_def p_def)
  have "serial_step (k, p) (serial_after ps values k) = Ok c \<longleftrightarrow> (\<forall>j \<in> set (po_inputs p). j < k) \<and>
     choose_candidate (po_candidates p) = Ok (choice_of p) \<and> fst (choice_of p) < length (po_candidates p) \<and>
     sum_fits (planned_estimates (take (Suc k) ps)) \<and> c = serial_after ps values (Suc k)"
  proof (cases "\<forall>j \<in> set (po_inputs p). j < k")
    case True
    then have in_range: "\<forall>j \<in> set (po_inputs p). j < length values" using k len by force
    show ?thesis
    proof (cases "choose_candidate (po_candidates p)")
      case (Ok ch)
      then have "choice_of p = ch" by (simp add: choice_of_def)
      then show ?thesis using True in_range Ok unfolding after [OF True] est step
        by (auto simp: serial_step_def serial_after_def outcome_simps split_beta end_lives_Ok cost_sum_Ok chosen_estimate_def)
    qed (use True in \<open>auto simp: serial_step_def serial_after_def outcome_simps\<close>)
  qed (auto simp: serial_step_def serial_after_def [of ps "values" k] outcome_simps not_le)
  then show ?thesis using choose_Ok(1) [of "po_candidates p" "fst (choice_of p)" "snd (choice_of p)"]
    by (auto simp: plannable_def p_def)
qed

definition planned :: "string \<Rightarrow> string \<Rightarrow> string \<Rightarrow> nat list \<Rightarrow> phys_operation list \<Rightarrow> phys_value list \<Rightarrow> nat list \<Rightarrow> nat \<Rightarrow> phys_plan" where
  "planned name target digest devices ps values outputs peak =
     (let total = sum_estimates (planned_estimates ps) in
      \<lparr>pl_format = PHYSICAL_FORMAT, pl_name = name, pl_target = target, pl_logical_digest = digest,
       pl_policy = ''serial-device-resident-v1'', pl_executable = False,
       pl_ranks = map (\<lambda>(rank, device). \<lparr>rk_rank = rank, rk_device = device, rk_schedule = 0\<rparr>) (zip [0..<length devices] devices),
       pl_groups = [\<lparr>gp_id = ''all_ranks'', gp_ranks = [0..<length devices]\<rparr>],
       pl_schedules = [\<lparr>sd_id = 0, sd_steps = map (planned_step ps) [0..<length ps],
         sd_values = live_until values (lifetime_end ps outputs), sd_outputs = outputs,
         sd_known_host_payload_peak_bytes = peak, sd_memory_complete = False, sd_activation_policy = SERIAL_ACTIVATION_POLICY,
         sd_cost_complete = (total \<noteq> None), sd_estimated_serial_ns = total\<rparr>],
       pl_limitations = SERIAL_LIMITATIONS\<rparr>)"

lemma serial_plan_iff:
  "serial_plan name target digest devices ps values outputs = Ok p \<longleftrightarrow>
     (ps \<noteq> [] \<and> length ps \<le> 10000 \<and> length values = length ps \<and> (\<forall>v \<in> set values. pv_location v = Device) \<and> devices \<noteq> [] \<and> length devices \<le> 256
       \<and> outputs \<noteq> [] \<and> (\<forall>i \<in> set outputs. i < length ps)) \<and> (\<forall>k < length ps. plannable ps k) \<and>
     (\<exists>peak. host_peak (live_until values (lifetime_end ps outputs)) (length ps) = Ok peak \<and>
       p = planned name target digest devices ps values outputs peak \<and> verify_physical p = Ok ())"
proof (cases "length values = length ps")
  case True
  have init: "(fresh_values values, [], Some 0) = serial_after ps values 0"
    by (simp add: serial_after_def fresh_values_live sum_estimates_def planned_estimates_def cong: map_cong) (metis ends_at_0)
  have loop: "fold_out serial_step (zip [0..<length ps] ps) (serial_after ps values 0) = Ok c \<longleftrightarrow>
      (\<forall>k < length ps. plannable ps k) \<and> c = serial_after ps values (length ps)" for c
    by (rule fold_out_enum_iff) (use serial_step_Ok True in blast)
  have ends: "(\<lambda>j. if j \<in> set outputs then length ps else ends_at ps (length ps) j) = lifetime_end ps outputs"
    by (auto simp: lifetime_end_def)
  show ?thesis
    using True by (auto simp: serial_plan_def Let_def outcome_simps init loop serial_after_def [of ps "values" "length ps"] end_lives_Ok ends
        planned_def not_le)
qed (simp add: serial_plan_def Let_def outcome_simps)

lemma serial_plan_verified: "serial_plan name target digest devices ps values outputs = Ok p \<Longrightarrow> verify_physical p = Ok ()"
  unfolding serial_plan_iff by blast

section \<open>Properties\<close>

lemma planned_header:
  "header_legal p \<Longrightarrow> pl_schedules p = [s] \<Longrightarrow>
     planned (pl_name p) (pl_target p) (pl_logical_digest p) (map rk_device (pl_ranks p)) ps values outputs peak =
     p\<lparr>pl_schedules := pl_schedules (planned (pl_name p) (pl_target p) (pl_logical_digest p) (map rk_device (pl_ranks p)) ps values outputs peak),
       pl_limitations := SERIAL_LIMITATIONS\<rparr>"
proof -
  assume h: "header_legal p"
  have "map (\<lambda>(rank, device). \<lparr>rk_rank = rank, rk_device = device, rk_schedule = 0\<rparr>)
      (zip [0..<length (pl_ranks p)] (map rk_device (pl_ranks p))) = pl_ranks p"
    using h by (intro nth_equalityI) (auto simp: header_legal_def intro: phys_rank.equality)
  then show ?thesis using h by (cases p) (simp add: planned_def Let_def header_legal_def)
qed

lemma legal_steps:
  assumes "\<forall>k < length ts. step_legal ts k"
  shows "map (planned_step (operations_of ts)) [0..<length ts] = ts"
    and "planned_estimates (take k (operations_of ts)) = step_estimates (take k ts)"
    and "\<forall>k < length ts. plannable (operations_of ts) k"
proof -
  have choice: "choose_candidate (po_candidates (sp_operation (ts ! k))) = Ok (choice_of (sp_operation (ts ! k))) \<and>
      choice_of (sp_operation (ts ! k)) = (sp_selected (ts ! k), sp_selection_reason (ts ! k)) \<and> planned_step (operations_of ts) k = ts ! k"
    if k: "k < length ts" for k
  proof -
    obtain p selected reason where t: "ts ! k = \<lparr>sp_id = k, sp_operation = p, sp_selected = selected, sp_selection_reason = reason, sp_stream = 0,
        sp_data_dependencies = po_inputs p, sp_order_dependencies = order_before k, sp_reuse_dependencies = []\<rparr>"
      "choose_candidate (po_candidates p) = Ok (selected, reason)"
      using assms k unfolding step_legal_def by blast
    then show ?thesis using k by (simp add: choice_of_def planned_step_def)
  qed
  show "map (planned_step (operations_of ts)) [0..<length ts] = ts"
    by (rule nth_equalityI) (use choice in auto)
  show est: "planned_estimates (take k (operations_of ts)) = step_estimates (take k ts)" for k
    by (rule nth_equalityI) (use choice in \<open>auto simp: planned_estimates_def step_estimates_def\<close>)
  show "\<forall>k < length ts. plannable (operations_of ts) k"
    using assms choice by (auto simp: plannable_def step_legal_def operation_legal_def est)
qed

text \<open>C34. A plan verifies exactly if the serial planner, given the plan's own operations, values, devices and
  outputs, produces it, up to the two texts the verifier does not read.\<close>

theorem verified_plan_is_serial:
  "verify_physical p = Ok () \<longleftrightarrow>
     (\<exists>s. pl_schedules p = [s] \<and>
       serial_plan (pl_name p) (pl_target p) (pl_logical_digest p) (map rk_device (pl_ranks p)) (map sp_operation (sd_steps s))
         (sd_values s) (sd_outputs s) =
       Ok (p\<lparr>pl_schedules := [s\<lparr>sd_activation_policy := SERIAL_ACTIVATION_POLICY\<rparr>], pl_limitations := SERIAL_LIMITATIONS\<rparr>))"
proof -
  have same: "verify_physical (p\<lparr>pl_schedules := [s\<lparr>sd_activation_policy := SERIAL_ACTIVATION_POLICY\<rparr>], pl_limitations := SERIAL_LIMITATIONS\<rparr>) = Ok ()
      \<longleftrightarrow> header_legal p \<and> schedule_legal s" for s
    by (simp add: verify_physical_iff header_legal_def schedule_legal_def)
  have "serial_plan (pl_name p) (pl_target p) (pl_logical_digest p) (map rk_device (pl_ranks p)) (operations_of (sd_steps s)) (sd_values s) (sd_outputs s) =
       Ok (p\<lparr>pl_schedules := [s\<lparr>sd_activation_policy := SERIAL_ACTIVATION_POLICY\<rparr>], pl_limitations := SERIAL_LIMITATIONS\<rparr>)
     \<longleftrightarrow> header_legal p \<and> schedule_legal s" (is "?plan \<longleftrightarrow> _") if s: "pl_schedules p = [s]" for s
  proof
    assume ?plan
    then show "header_legal p \<and> schedule_legal s" using same by (auto simp: serial_plan_iff)
  next
    assume legal: "header_legal p \<and> schedule_legal s"
    define ts where "ts = sd_steps s"
    have vals: "live_until (sd_values s) (lifetime_end (operations_of ts) (sd_outputs s)) = sd_values s"
      using legal by (intro nth_equalityI) (auto simp: nth_live_until schedule_legal_def value_legal_def ts_def)
    have steps: "\<forall>k < length ts. step_legal ts k" using legal by (simp add: schedule_legal_def ts_def)
    have device: "\<forall>v \<in> set (sd_values s). pv_location v = Device"
      using legal by (auto simp: schedule_legal_def value_legal_def in_set_conv_nth)
    have est: "planned_estimates (operations_of ts) = step_estimates ts" using legal_steps(2) [OF steps, of "length ts"] by simp
    have sched: "pl_schedules (planned name target digest devices (operations_of ts) (sd_values s) (sd_outputs s) (sd_known_host_payload_peak_bytes s)) =
        [s\<lparr>sd_activation_policy := SERIAL_ACTIVATION_POLICY\<rparr>]" for name target digest devices
      using legal by (auto simp: planned_def Let_def legal_steps(1) [OF steps] vals est schedule_legal_def ts_def [symmetric] intro: phys_schedule.equality)
    have "planned (pl_name p) (pl_target p) (pl_logical_digest p) (map rk_device (pl_ranks p)) (operations_of ts) (sd_values s) (sd_outputs s)
        (sd_known_host_payload_peak_bytes s) =
        p\<lparr>pl_schedules := [s\<lparr>sd_activation_policy := SERIAL_ACTIVATION_POLICY\<rparr>], pl_limitations := SERIAL_LIMITATIONS\<rparr>"
      using legal by (subst planned_header [OF _ s]) (simp_all add: sched)
    then show ?plan unfolding serial_plan_iff ts_def [symmetric]
      using legal same legal_steps(3) [OF steps] device by (auto simp: schedule_legal_def header_legal_def ts_def [symmetric] vals)
  qed
  then show ?thesis unfolding verify_physical_iff by blast
qed

text \<open>C35. The chosen implementation is eligible, resident on the device and of the same numerical contract as every
  other eligible one; when all costs are known it has the least upper bound, the identifier deciding between
  equal ones, and otherwise the least identifier.\<close>

theorem chosen_is_best:
  assumes "choose_candidate cs = Ok (k, reason)"
  shows "k < length cs \<and> cd_eligible (cs ! k) \<and> cd_location (cs ! k) = Device \<and> (\<forall>b \<in> set (cd_boundaries (cs ! k)). \<not> host_boundary b) \<and>
    (\<forall>j < length cs. cd_eligible (cs ! j) \<and> j \<noteq> k \<longrightarrow>
      cd_numerical_contract (cs ! j) = cd_numerical_contract (cs ! k) \<and>
      (if costs_known cs
       then ct_upper_ns (cd_cost (cs ! k)) < ct_upper_ns (cd_cost (cs ! j))
         \<or> ct_upper_ns (cd_cost (cs ! k)) = ct_upper_ns (cd_cost (cs ! j)) \<and> cd_id (cs ! k) < cd_id (cs ! j)
       else cd_id (cs ! k) < cd_id (cs ! j)))"
proof -
  note c = choose_Ok [OF assms]
  have ids: "cd_id (cs ! j) \<noteq> cd_id (cs ! k)" if "j < length cs" "j \<noteq> k" for j
    using c(1) that by (auto simp: distinct_conv_nth)
  have best: "if costs_known cs
       then ct_upper_ns (cd_cost (cs ! k)) < ct_upper_ns (cd_cost (cs ! j))
         \<or> ct_upper_ns (cd_cost (cs ! k)) = ct_upper_ns (cd_cost (cs ! j)) \<and> cd_id (cs ! k) < cd_id (cs ! j)
       else cd_id (cs ! k) < cd_id (cs ! j)" if "j < length cs" "cd_eligible (cs ! j)" "j \<noteq> k" for j
    using c(3) [OF that(1,2)] c(4) [OF that(1,2)] ids [OF that(1,3)] by (auto simp: order.order_iff_strict)
  have "admissible (cs ! k)" using c(1) by simp
  then show ?thesis unfolding admissible_def using c(1,2) best by blast
qed

lemma lifetime_end_bound: "j < length ps \<Longrightarrow> lifetime_end ps outputs j \<le> length ps"
  using ends_at_bound [of j "length ps" ps] by (simp add: lifetime_end_def)

lemma lifetime_end_read: "i < length ps \<Longrightarrow> j < length ps \<Longrightarrow> j \<in> set (po_inputs (ps ! i)) \<Longrightarrow> i \<le> lifetime_end ps outputs j"
  using ends_at_read [of i "length ps" j ps] by (simp add: lifetime_end_def)

lemma lifetime_end_exact:
  assumes "j < length ps"
  shows "lifetime_end ps outputs j = j \<or> lifetime_end ps outputs j = length ps \<and> j \<in> set outputs
     \<or> lifetime_end ps outputs j < length ps \<and> j \<in> set (po_inputs (ps ! lifetime_end ps outputs j))"
proof (cases "j \<in> set outputs")
  case False
  have "ends_at ps (length ps) j \<in> insert j {i. i < length ps \<and> j \<in> set (po_inputs (ps ! i))}"
    unfolding ends_at_def by (rule Max_in) auto
  then show ?thesis using False by (auto simp: lifetime_end_def)
qed (simp add: lifetime_end_def)


lemma cost_sum_no_panic: "cost_sum acc e \<noteq> Panic"
  by (simp add: cost_sum_def outcome_simps split: option.splits)

lemma collectives_le: "length (collectives ps) \<le> length ps"
  by (simp add: collectives_def map_filter_def)

lemma check_collective_no_panic: "n < 2 ^ 64 - 1 \<Longrightarrow> check_collective c n \<noteq> Panic"
  by (simp add: check_collective_def outcome_simps split: option.splits)

lemma check_step_no_panic:
  assumes k: "k < length ts" and small: "length ts \<le> 10000"
  shows "check_step (k, ts ! k) (check_after ts k) \<noteq> Panic"
proof -
  have "assign_all js k (ck_ends (check_after ts k)) \<noteq> Panic" if "\<forall>j \<in> set js. j < k" for js
    by (rule assign_all_no_panic) (use that k in \<open>auto simp: check_after_def\<close>)
  moreover have "check_collective c (ck_sequence (check_after ts k)) \<noteq> Panic" for c
    using check_collective_no_panic collectives_le [of "operations_of (take k ts)"] small k by (simp add: check_after_def)
  moreover have "index_at (po_candidates p) (sp_selected (ts ! k)) \<noteq> Panic"
    if "choose_candidate (po_candidates p) = Ok (sp_selected (ts ! k), reason)" for p reason
    using choose_Ok(1) [OF that] by (simp add: outcome_simps)
  ultimately show ?thesis
    by (auto simp: check_step_def Let_def split_beta and_then_Panic_iff and_then_Ok_iff reject_Panic_iff reject_Ok_iff choose_no_panic cost_sum_no_panic not_le)
qed

lemma check_loop_no_panic:
  assumes "length ts \<le> 10000"
  shows "fold_out check_step (zip [0..<length ts] ts) (check_after ts 0) \<noteq> Panic"
  by (rule fold_out_enum_no_panic [where P = "\<lambda>k c. c = check_after ts k"])
    (use assms in \<open>simp_all add: check_step_no_panic check_step_Ok\<close>)

lemma check_value_no_panic: "length ends = length ts \<Longrightarrow> i < length ts \<Longrightarrow> check_value ts ends (i, v) \<noteq> Panic"
  by (simp add: check_value_def outcome_simps)

lemma check_payload_no_panic: "check_payload v \<noteq> Panic"
  by (simp add: check_payload_def outcome_simps split: option.splits)

lemma check_ranks_no_panic: "check_ranks rs devices \<noteq> Panic"
  by (induction rs devices rule: check_ranks.induct) (auto simp: outcome_simps)

lemma verify_physical_no_panic: "verify_physical p \<noteq> Panic"
proof
  assume panic: "verify_physical p = Panic"
  then obtain s where s: "pl_schedules p = [s]"
    by (auto simp: verify_physical_def outcome_simps check_ranks_no_panic length_Suc_conv)
  define ts where "ts = sd_steps s"
  define n where "n = length ts"
  define ends where "ends = map (lifetime_end (operations_of ts) (sd_outputs s)) [0..<n]"
  note init = check_init [of ts, folded n_def]
  have small: "n \<le> 10000" "length (sd_values s) = n" "\<forall>i \<in> set (sd_outputs s). i < n"
    using panic s by (auto simp: verify_physical_def outcome_simps check_ranks_no_panic index_at_def Let_def ts_def n_def not_le not_less)
  have loop: "fold_out check_step (zip [0..<n] ts) (check_after ts 0) = Ok k \<longleftrightarrow> (\<forall>i < n. step_legal ts i) \<and> k = check_after ts n" for k
    unfolding n_def by (rule check_loop_Ok) (use small n_def in simp)
  have loop_safe: "fold_out check_step (zip [0..<n] ts) (check_after ts 0) \<noteq> Panic"
    unfolding n_def by (rule check_loop_no_panic) (use small n_def in simp)
  have outs_safe: "assign_all (sd_outputs s) n (ck_ends (check_after ts n)) \<noteq> Panic"
    by (rule assign_all_no_panic) (use small in \<open>auto simp: check_after_def n_def\<close>)
  have outs: "assign_all (sd_outputs s) n (ck_ends (check_after ts n)) = Ok e \<longleftrightarrow> e = ends" for e
    using small by (auto simp: assign_all_Ok check_after_def ends_def n_def lifetime_end_def)
  have vals_safe: "check_all (check_value ts ends) (zip [0..<n] (sd_values s)) \<noteq> Panic"
  proof (rule check_all_no_panic)
    fix x assume "x \<in> set (zip [0..<n] (sd_values s))"
    then have "fst x < n" using set_zip_leftD [of "fst x" "snd x" "[0..<n]" "sd_values s"] by simp
    then show "check_value ts ends x \<noteq> Panic" using check_value_no_panic [of ends ts "fst x" "snd x"] by (simp add: ends_def n_def)
  qed
  have peak_safe: "host_peak (sd_values s) n \<noteq> Panic" if "check_all (check_value ts ends) (zip [0..<n] (sd_values s)) = Ok ()"
  proof (rule host_peak_no_panic)
    have "\<forall>j < n. check_value ts ends (j, sd_values s ! j) = Ok ()"
      using that small(2) zip_enum_all [of "sd_values s"] by (simp add: outcome_simps)
    then have "\<forall>j < n. snd (pv_lifetime (sd_values s ! j)) = ends ! j"
      by (simp add: check_value_Ok n_def ends_def)
    then show "\<forall>v \<in> set (sd_values s). snd (pv_lifetime v) \<le> n"
      using small(2) lifetime_end_bound [of _ "operations_of ts" "sd_outputs s"]
      by (auto simp: all_set_conv_all_nth ends_def n_def)
  qed (use small in simp)
  have payload_safe: "check_all check_payload (sd_values s) \<noteq> Panic" by (rule check_all_no_panic) (rule check_payload_no_panic)
  have at0: "index_at [s] 0 = Ok s" by (simp add: index_at_def)
  show False
    using panic unfolding verify_physical_def s at0 and_then.simps(1) Let_def
    unfolding and_then_Panic_iff and_then_Ok_iff reject_Panic_iff reject_Ok_iff
    by (elim disjE exE conjE; simp add: check_ranks_no_panic ts_def [symmetric] n_def [symmetric] init loop loop_safe outs outs_safe
        small(2) vals_safe peak_safe payload_safe)
qed

lemma end_lives_no_panic:
  assumes "\<forall>j \<in> set js. j < length values"
  shows "fold_out (end_life i) js values \<noteq> Panic"
proof -
  have "fold_out (end_life i) js vs \<noteq> Panic" if "length vs = length values" for vs
    using assms that by (induction js arbitrary: vs) (auto simp: end_life_def outcome_simps)
  then show ?thesis by simp
qed

lemma serial_step_no_panic:
  assumes "k < length ps" and "length values = length ps"
  shows "serial_step (k, ps ! k) (serial_after ps values k) \<noteq> Panic"
proof -
  have "fold_out (end_life k) js (live_until values (ends_at ps k)) \<noteq> Panic" if "\<forall>j \<in> set js. j < k" for js
    by (rule end_lives_no_panic) (use that assms in auto)
  moreover have "index_at cs j \<noteq> Panic" if "choose_candidate cs = Ok (j, reason)" for cs j reason
    using choose_Ok(1) [OF that] by (simp add: outcome_simps)
  ultimately show ?thesis
    by (auto simp: serial_step_def serial_after_def split_beta and_then_Panic_iff and_then_Ok_iff reject_Panic_iff reject_Ok_iff choose_no_panic
        cost_sum_no_panic not_le)
qed

lemma serial_plan_no_panic: "serial_plan name target digest devices ps values outputs \<noteq> Panic"
proof (cases "length values = length ps \<and> (\<forall>i \<in> set outputs. i < length ps)")
  case True
  have init: "(fresh_values values, [], Some 0) = serial_after ps values 0"
    by (simp add: serial_after_def fresh_values_live sum_estimates_def planned_estimates_def cong: map_cong) (metis ends_at_0)
  have loop: "fold_out serial_step (zip [0..<length ps] ps) (serial_after ps values 0) = Ok c \<longleftrightarrow>
      (\<forall>k < length ps. plannable ps k) \<and> c = serial_after ps values (length ps)" for c
    by (rule fold_out_enum_iff) (rule serial_step_Ok, use True in auto)
  have loop_safe: "fold_out serial_step (zip [0..<length ps] ps) (serial_after ps values 0) \<noteq> Panic"
    by (rule fold_out_enum_no_panic [where P = "\<lambda>k c. c = serial_after ps values k"])
      (use True in \<open>simp_all add: serial_step_no_panic serial_step_Ok\<close>)
  have outs_safe: "fold_out (end_life (length ps)) outputs (live_until values (ends_at ps (length ps))) \<noteq> Panic"
    by (rule end_lives_no_panic) (use True in auto)
  have peak_safe: "host_peak (live_until values (\<lambda>j. if j \<in> set outputs then length ps else ends_at ps (length ps) j)) (length ps) \<noteq> Panic"
    by (rule host_peak_no_panic) (use True ends_at_bound [of _ "length ps" ps] in \<open>auto simp: live_until_def less_imp_le\<close>)
  show ?thesis unfolding serial_plan_def Let_def init
    by (auto simp: and_then_Panic_iff and_then_Ok_iff reject_Panic_iff loop loop_safe outs_safe peak_safe end_lives_Ok
        verify_physical_no_panic serial_after_def [of ps "values" "length ps"])
qed (auto simp: serial_plan_def Let_def outcome_simps not_le)

text \<open>Choosing, planning and verifying are total: whatever the candidates, the operations and the plan, no index
  is out of bounds.\<close>

theorem physical_total:
  "choose_candidate cs \<noteq> Panic \<and> serial_plan name target digest devices ps values outputs \<noteq> Panic \<and> verify_physical p \<noteq> Panic"
  by (simp add: choose_no_panic serial_plan_no_panic verify_physical_no_panic)

section \<open>Witnesses\<close>

definition demo_candidate :: "string \<Rightarrow> nat \<Rightarrow> candidate" where
  "demo_candidate name ns = \<lparr>cd_id = name, cd_contract_revision = ''r1'', cd_numerical_contract = ''f32'', cd_location = Device,
     cd_eligible = True, cd_rejection = None, cd_workspace_bound_bytes = None, cd_capture_qualified = False, cd_boundaries = [],
     cd_unresolved = [], cd_cost = \<lparr>ct_source = Analytical, ct_estimate_ns = Some ns, ct_upper_ns = Some ns, ct_evidence = Some ''model''\<rparr>\<rparr>"

definition demo_operation :: "nat \<Rightarrow> nat list \<Rightarrow> phys_collective option \<Rightarrow> phys_operation" where
  "demo_operation node ins coll = \<lparr>po_name = ''op'', po_logical_nodes = [node], po_inputs = ins,
     po_candidates = [demo_candidate ''b'' 7, demo_candidate ''c'' 5, demo_candidate ''a'' 5], po_collective = coll\<rparr>"

definition demo_value :: "nat \<Rightarrow> phys_value" where
  "demo_value node = \<lparr>pv_logical_node = node, pv_dtype = Some ''f32'', pv_shape = [2, 3], pv_layout = ''row'', pv_location = Device,
     pv_payload_bytes = Some 24, pv_alignment = Some 64, pv_arena_offset = None, pv_lifetime = (0, 0)\<rparr>"

definition demo_collective :: phys_collective where
  "demo_collective = \<lparr>cl_group = ''all_ranks'', cl_operation = ''sum'', cl_dtype = ''f32'', cl_elements_per_rank = 6, cl_sequence = 0\<rparr>"

definition demo_plan :: "phys_plan outcome" where
  "demo_plan = serial_plan ''p'' ''npu'' ''d'' [3, 1] [demo_operation 4 [] None, demo_operation 5 [0] (Some demo_collective)]
     [demo_value 4, demo_value 5] [1]"

lemma demo_choice: "choose_candidate (po_candidates (demo_operation n ins coll)) =
    Ok (2, ''minimum conservative serial cost; stable implementation-ID tie break'')"
proof -
  define f where "f = (\<lambda>e. (upper_of e, cd_id (snd e)))"
  have key: "f (i, demo_candidate name ns) = (Some ns, name)" for i name ns
    by (simp add: f_def upper_of_def demo_candidate_def)
  have less: "(Some 5, ''a'') \<le> (Some (7 :: nat), ''b'')" "\<not> (Some 7, ''b'') \<le> (Some (5 :: nat), ''a'')"
      "\<not> (Some 5, ''c'') \<le> (Some (5 :: nat), ''a'')" "\<not> (Some 7, ''b'') \<le> (Some (5 :: nat), ''c'')"
    by (simp_all add: less_eq_prod_def less_char_def less_eq_char_def)
  have sorted: "sort_key f [(0, demo_candidate ''b'' 7), (1, demo_candidate ''c'' 5), (2, demo_candidate ''a'' 5)] =
      [(2, demo_candidate ''a'' 5), (1, demo_candidate ''c'' 5), (0, demo_candidate ''b'' 7)]"
    by (simp add: sort_key_def key less)
  have eligible: "cd_eligible (demo_candidate name ns)" "upper_of (i, demo_candidate name ns) = Some ns"
      "cd_numerical_contract (demo_candidate name ns) = ''f32''" for i name ns by (simp_all add: upper_of_def demo_candidate_def)
  have "legal_candidates (po_candidates (demo_operation n ins coll)) =
      [(0, demo_candidate ''b'' 7), (1, demo_candidate ''c'' 5), (2, demo_candidate ''a'' 5)]"
    by (simp add: legal_candidates_def demo_operation_def eligible)
  moreover have "costs_known (po_candidates (demo_operation n ins coll))"
    unfolding costs_known_legal [symmetric] calculation by (simp add: eligible)
  moreover have "check_candidates (po_candidates (demo_operation n ins coll)) [] = Ok ()"
    by (simp add: check_candidates_Ok demo_operation_def admissible_def demo_candidate_def check_cost_def reject_def)
  moreover have "po_candidates (demo_operation n ins coll) \<noteq> []" by (simp add: demo_operation_def)
  ultimately show ?thesis unfolding choose_candidate_eq f_def [symmetric] by (simp add: sorted eligible reject_def key less)
qed

lemma demo_planned: "is_ok demo_plan"
proof -
  have cost: "ct_estimate_ns (cd_cost (demo_candidate name ns)) = Some ns" for name ns by (simp add: demo_candidate_def)
  have op: "po_logical_nodes (demo_operation n ins coll) = [n]" "po_inputs (demo_operation n ins coll) = ins"
      "po_collective (demo_operation n ins coll) = coll"
      "length (po_candidates (demo_operation n ins coll)) = 3" "po_candidates (demo_operation n ins coll) ! 2 = demo_candidate ''a'' 5"
    for n ins coll
    by (simp_all add: demo_operation_def)
  show ?thesis
    by (simp add: demo_plan_def serial_plan_def reject_def demo_value_def fresh_values_def serial_step_def end_life_def index_at_def assign_at_def
        demo_choice op cost cost_sum_def checked_add_def host_peak_def peak_round_def host_bytes_def checked_sub_def
        verify_physical_def check_step_def check_collective_def demo_collective_def fit_def check_value_def check_payload_def dtype_unit_def checked_mul_def
        is_power_of_two.simps order_before_def Let_def)
qed

theorem chosen_is_best_witness:
  "ct_upper_ns (cd_cost (demo_candidate ''a'' 5)) = Some 5 \<and>
    (let cs = po_candidates (demo_operation 4 [] None) in \<forall>j < length cs. cd_eligible (cs ! j) \<and> j \<noteq> 2 \<longrightarrow>
      cd_numerical_contract (cs ! j) = cd_numerical_contract (cs ! 2))"
proof -
  from chosen_is_best [OF demo_choice [of 4 "[]" None]] show ?thesis
    unfolding Let_def by (intro conjI) (simp add: demo_candidate_def, blast)
qed


end
