(* ===== verification/Plan_IR.thy ===== *)
theory Plan_IR
  imports Containers "HOL-Library.Char_ord" "HOL-Library.List_Lexorder"
begin

text \<open>
  The interchange schemas of the CPU plan crate (\<open>crates/inferfabric-plan/src/ir.rs\<close>, the limits and
  \<open>elements\<close> of \<open>lib.rs\<close>, \<open>shape\<close> of \<open>planner.rs\<close>). The \<open>f32\<close> numbers are a type \<open>'f\<close> with the
  operations the code uses of them in a record \<open>'f float_ops\<close>: nothing is assumed of these, so what is
  proved holds of the IEEE operations, with their rounding, and of any other. A \<open>usize\<close> is 64 bits wide.
\<close>

section \<open>Numbers and limits\<close>

record 'f float_ops =
  fl_add :: "'f \<Rightarrow> 'f \<Rightarrow> 'f"
  fl_mul :: "'f \<Rightarrow> 'f \<Rightarrow> 'f"
  fl_max :: "'f \<Rightarrow> 'f \<Rightarrow> 'f"
  fl_zero :: 'f
  fl_finite :: "'f \<Rightarrow> bool"

definition PLAN_VERSION :: nat where "PLAN_VERSION = 1"
definition TARGET :: string where "TARGET = ''cpu-f32-v1''"
definition ALIGNMENT :: nat where "ALIGNMENT = 64"
definition MAX_BYTES :: nat where "MAX_BYTES = 64 * 1024 * 1024"
definition MAX_NODES :: nat where "MAX_NODES = 512"

definition elements :: "nat list \<Rightarrow> nat outcome" where
  "elements shape =
     and_then (reject (shape = [] \<or> length shape > 8 \<or> 0 \<in> set shape) (invalid ''shape must have 1..8 positive dimensions'')) (\<lambda>_.
     and_then (ok_or (try_product shape 1) (invalid ''shape overflow'')) (\<lambda>n.
     and_then (reject (n > MAX_BYTES div 4) (invalid ''tensor exceeds CPU plan limit'')) (\<lambda>_. Ok n)))"

section \<open>Schemas\<close>

datatype plan_op = Add | Mul | Relu | Matmul

record plan_tensor =
  ts_name :: string
  ts_shape :: "nat list"

record 'f plan_constant =
  cn_name :: string
  cn_shape :: "nat list"
  cn_data :: "'f list"

record logical_node =
  ln_name :: string
  ln_op :: plan_op
  ln_inputs :: "string list"

record 'f logical_graph =
  lg_version :: nat
  lg_name :: string
  lg_inputs :: "plan_tensor list"
  lg_constants :: "'f plan_constant list"
  lg_states :: "'f plan_constant list"
  lg_nodes :: "logical_node list"
  lg_outputs :: "string list"
  lg_updates :: "(string, string) btmap"

datatype plan_storage = InputStorage | ConstantStorage | StateStorage | ArenaStorage

record 'f plan_value =
  vl_name :: string
  vl_shape :: "nat list"
  vl_storage :: plan_storage
  vl_initial :: "'f list option"

record typed_node =
  tn_name :: string
  tn_op :: plan_op
  tn_inputs :: "nat list"
  tn_output :: nat

record 'f typed_graph =
  tg_version :: nat
  tg_name :: string
  tg_values :: "'f plan_value list"
  tg_nodes :: "typed_node list"
  tg_outputs :: "nat list"
  tg_updates :: "(nat, nat) btmap"

datatype kernel = AddF32V1 | MulF32V1 | ReluF32V1 | MatmulF32V1 | MatmulBlockedF32V1

fun kernel_op :: "kernel \<Rightarrow> plan_op" where
  "kernel_op AddF32V1 = Add"
| "kernel_op MulF32V1 = Mul"
| "kernel_op ReluF32V1 = Relu"
| "kernel_op MatmulF32V1 = Matmul"
| "kernel_op MatmulBlockedF32V1 = Matmul"

record 'f plan_buffer =
  bf_value :: "'f plan_value"
  bf_offset :: "nat option"
  bf_lifetime :: "(nat \<times> nat) option"

record plan_step =
  st_name :: string
  st_kernel :: kernel
  st_inputs :: "nat list"
  st_output :: nat
  st_rank :: nat
  st_stream :: nat
  st_dependencies :: "nat list"
  st_reuse_dependencies :: "nat list"
  st_selection_reason :: string

record 'f cpu_plan =
  cp_version :: nat
  cp_name :: string
  cp_target :: string
  cp_policy :: string
  cp_alignment :: nat
  cp_arena_bytes :: nat
  cp_buffers :: "'f plan_buffer list"
  cp_steps :: "plan_step list"
  cp_outputs :: "nat list"
  cp_updates :: "(nat, nat) btmap"
  cp_removed_nodes :: "string list"
  cp_folded_nodes :: "string list"

section \<open>The shape of a result\<close>

definition op_shape :: "plan_op \<Rightarrow> nat list list \<Rightarrow> nat list outcome" where
  "op_shape op inputs =
     (let arity = (if op = Relu then 1 else 2) in
     and_then (reject (length inputs \<noteq> arity) (invalid ''operation arity mismatch'')) (\<lambda>_.
     if op = Matmul then
       and_then (index_at inputs 0) (\<lambda>x.
       and_then (index_at inputs 1) (\<lambda>y.
       and_then (reject (length x \<noteq> 2 \<or> length y \<noteq> 2 \<or> x ! 1 \<noteq> y ! 0) (invalid ''matmul requires [M,K] and [K,N]'')) (\<lambda>_.
       let out = [x ! 0, y ! 1] in
       and_then (elements out) (\<lambda>n.
       and_then (ok_or (checked_mul 64 n (x ! 1)) (invalid ''matmul work overflow'')) (\<lambda>work.
       and_then (reject (work > 100000000) (invalid ''matmul exceeds CPU invocation work limit'')) (\<lambda>_. Ok out))))))
     else
       and_then (index_at inputs 0) (\<lambda>x.
       and_then (reject (arity = 2 \<and> inputs ! 0 \<noteq> inputs ! 1) (invalid ''elementwise shape mismatch; no implicit broadcast'')) (\<lambda>_.
       Ok x))))"

end
