(* ===== verification/Plan_Verify.thy ===== *)
theory Plan_Verify
  imports Plan_IR
begin

text \<open>
  The verifier of CPU plans (\<open>crates/inferfabric-plan/src/verify.rs\<close>) and the checked override of
  kernels (\<open>override_kernels\<close> of \<open>lib.rs\<close>). The loops are folds over their states: the names and bytes seen
  so far, the producers and lifetimes.
\<close>

section \<open>Buffers\<close>

definition check_buffer_storage :: "'f float_ops \<Rightarrow> 'f cpu_plan \<Rightarrow> nat \<Rightarrow> 'f plan_buffer \<Rightarrow> unit outcome" where
  "check_buffer_storage F p bytes b =
     (let v = bf_value b in
      if vl_storage v = ArenaStorage then
        and_then (ok_or (bf_offset b) (invalid ''missing arena offset'')) (\<lambda>offset.
        reject (vl_initial v \<noteq> None \<or> bf_lifetime b = None \<or> \<not> ALIGNMENT dvd offset
            \<or> (case checked_add 64 offset bytes of None \<Rightarrow> True | Some limit \<Rightarrow> limit > cp_arena_bytes p))
          (invalid ''invalid arena bounds, initializer or alignment''))
      else
        and_then (reject (bf_offset b \<noteq> None \<or> bf_lifetime b \<noteq> None) (invalid ''owned storage cannot alias arena'')) (\<lambda>_.
        if vl_storage v = InputStorage then reject (vl_initial v \<noteq> None) (invalid ''input cannot have initializer'')
        else reject (case vl_initial v of None \<Rightarrow> True | Some xs \<Rightarrow> length xs \<noteq> bytes div 4 \<or> (\<exists>x \<in> set xs. \<not> fl_finite F x))
          (invalid ''invalid owned initializer'')))"

definition check_buffer :: "'f float_ops \<Rightarrow> 'f cpu_plan \<Rightarrow> 'f plan_buffer \<Rightarrow> string btset \<times> nat \<Rightarrow> (string btset \<times> nat) outcome" where
  "check_buffer F p b = (\<lambda>(names, total).
     let v = bf_value b in
     and_then (elements (vl_shape v)) (\<lambda>n.
     let bytes = n * 4 in
     and_then (ok_or (checked_add 64 total bytes) (invalid ''plan byte count overflow'')) (\<lambda>total.
     and_then (reject (total > MAX_BYTES \<or> vl_name v = [] \<or> length (vl_name v) > 256 \<or> vl_name v \<in> set names)
       (invalid ''plan byte limit or duplicate/invalid buffer name'')) (\<lambda>_.
     and_then (check_buffer_storage F p bytes b) (\<lambda>_.
     Ok (bs_insert (vl_name v) names, total))))))"

section \<open>Steps\<close>

record live_state =
  li_producer :: "(nat, nat) btmap"
  li_lives :: "(nat \<times> nat) option list"

record input_state =
  is_shapes :: "nat list list"
  is_required :: "nat btset"
  is_lives :: "(nat \<times> nat) option list"

definition extend_life :: "nat \<Rightarrow> nat \<Rightarrow> (nat \<times> nat) option list \<Rightarrow> (nat \<times> nat) option list outcome" where
  "extend_life bid i lives =
     and_then (index_at lives bid) (\<lambda>life.
     and_then (unwrap life) (\<lambda>l. assign_at lives bid (Some (fst l, i))))"

definition read_input :: "'f cpu_plan \<Rightarrow> nat \<Rightarrow> (nat, nat) btmap \<Rightarrow> nat \<Rightarrow> input_state \<Rightarrow> input_state outcome" where
  "read_input p i producer bid s =
     and_then (ok_or (get_at (cp_buffers p) bid) (invalid ''input buffer ID out of range'')) (\<lambda>b.
     let s = s\<lparr>is_shapes := is_shapes s @ [vl_shape (bf_value b)]\<rparr> in
     if vl_storage (bf_value b) = ArenaStorage then
       and_then (ok_or (map_of producer bid) (invalid ''read before production'')) (\<lambda>src.
       and_then (extend_life bid i (is_lives s)) (\<lambda>lives.
       Ok (s\<lparr>is_required := bs_insert src (is_required s), is_lives := lives\<rparr>)))
     else Ok s)"

definition bad_dependencies :: "nat \<Rightarrow> nat list \<Rightarrow> bool" where
  "bad_dependencies i deps \<longleftrightarrow> (\<exists>d \<in> set deps. d \<ge> i) \<or> length (bs_of deps) \<noteq> length deps"

definition check_plan_step :: "'f cpu_plan \<Rightarrow> nat \<times> plan_step \<Rightarrow> live_state \<Rightarrow> live_state outcome" where
  "check_plan_step p = (\<lambda>(i, t) k.
     and_then (reject (st_rank t \<noteq> 0 \<or> st_stream t \<noteq> 0) (invalid ''CPU executor supports rank 0 / stream 0 only'')) (\<lambda>_.
     and_then (ok_or (get_at (cp_buffers p) (st_output t)) (invalid ''output buffer ID out of range'')) (\<lambda>out.
     and_then (reject (vl_storage (bf_value out) \<noteq> ArenaStorage \<or> vl_name (bf_value out) \<noteq> st_name t
         \<or> map_of (li_producer k) (st_output t) \<noteq> None) (invalid ''invalid or duplicate step output'')) (\<lambda>_.
     and_then (reject (bad_dependencies i (st_dependencies t) \<or> bad_dependencies i (st_reuse_dependencies t))
       (invalid ''dependencies must be unique prior steps'')) (\<lambda>_.
     and_then (fold_out (read_input p i (li_producer k)) (st_inputs t) \<lparr>is_shapes = [], is_required = [], is_lives = li_lives k\<rparr>) (\<lambda>s.
     and_then (reject (\<not> (\<forall>d \<in> set (is_required s). d \<in> set (st_dependencies t))) (invalid ''missing data dependency'')) (\<lambda>_.
     and_then (op_shape (kernel_op (st_kernel t)) (is_shapes s)) (\<lambda>shape.
     and_then (reject (shape \<noteq> vl_shape (bf_value out)) (invalid ''kernel output shape mismatch'')) (\<lambda>_.
     and_then (assign_at (is_lives s) (st_output t) (Some (i, i))) (\<lambda>lives.
     Ok \<lparr>li_producer = bt_insert (st_output t) i (li_producer k), li_lives = lives\<rparr>))))))))))"

section \<open>Results\<close>

definition check_update :: "'f cpu_plan \<Rightarrow> nat \<times> nat \<Rightarrow> unit outcome" where
  "check_update p = (\<lambda>(target, source).
     and_then (ok_or (get_at (cp_buffers p) target) (invalid ''state target out of bounds'')) (\<lambda>t.
     and_then (ok_or (get_at (cp_buffers p) source) (invalid ''state source out of bounds'')) (\<lambda>s.
     reject (vl_storage (bf_value t) \<noteq> StateStorage \<or> vl_shape (bf_value t) \<noteq> vl_shape (bf_value s)) (invalid ''invalid state commit binding''))))"

definition keep_result :: "'f cpu_plan \<Rightarrow> nat \<Rightarrow> (nat \<times> nat) option list \<Rightarrow> (nat \<times> nat) option list outcome" where
  "keep_result p bid lives =
     and_then (ok_or (get_at (cp_buffers p) bid) (invalid ''result ID out of bounds'')) (\<lambda>b.
     if vl_storage (bf_value b) = ArenaStorage then
       and_then (index_at lives bid) (\<lambda>life.
       and_then (ok_or life (invalid ''unproduced result'')) (\<lambda>l.
       assign_at lives bid (Some (fst l, length (cp_steps p)))))
     else Ok lives)"

section \<open>Aliasing\<close>

definition check_pair :: "'f cpu_plan \<Rightarrow> 'f plan_buffer \<Rightarrow> nat \<times> nat \<Rightarrow> 'f plan_buffer \<Rightarrow> unit outcome" where
  "check_pair p b life other = (case bf_lifetime other of
     None \<Rightarrow> Ok ()
   | Some (ofirst, olast) \<Rightarrow>
       and_then (unwrap (bf_offset b)) (\<lambda>a.
       and_then (unwrap (bf_offset other)) (\<lambda>c.
       and_then (elements (vl_shape (bf_value other))) (\<lambda>m.
       and_then (if a < c + m * 4 then and_then (elements (vl_shape (bf_value b))) (\<lambda>n. Ok (c < a + n * 4)) else Ok False) (\<lambda>overlaps.
       if \<not> overlaps then Ok ()
       else and_then (reject (fst life \<le> olast \<and> ofirst \<le> snd life) (invalid ''simultaneously live buffers alias'')) (\<lambda>_.
         let (earlier, later) = (if snd life < ofirst then (snd life, ofirst) else (olast, fst life)) in
         and_then (index_at (cp_steps p) later) (\<lambda>t.
         reject (earlier \<notin> set (st_reuse_dependencies t)) (invalid ''missing memory reuse dependency''))))))))"

definition check_lifetime :: "'f cpu_plan \<Rightarrow> (nat \<times> nat) option list \<Rightarrow> nat \<times> 'f plan_buffer \<Rightarrow> unit outcome" where
  "check_lifetime p lives = (\<lambda>(bid, b).
     and_then (index_at lives bid) (\<lambda>live.
     and_then (reject (bf_lifetime b \<noteq> live \<or> vl_storage (bf_value b) = ArenaStorage \<and> live = None) (invalid ''forged or missing lifetime'')) (\<lambda>_.
     case bf_lifetime b of
       None \<Rightarrow> Ok ()
     | Some life \<Rightarrow> check_all (check_pair p b life) (take bid (cp_buffers p)))))"

definition verify_plan :: "'f float_ops \<Rightarrow> 'f cpu_plan \<Rightarrow> unit outcome" where
  "verify_plan F p =
     and_then (reject (cp_version p \<noteq> PLAN_VERSION \<or> cp_target p \<noteq> TARGET \<or> cp_policy p \<noteq> ''deterministic-cpu-v1'' \<or> cp_alignment p \<noteq> ALIGNMENT)
       (invalid ''unsupported physical plan version/target/policy/alignment'')) (\<lambda>_.
     and_then (reject (length (cp_steps p) > MAX_NODES \<or> length (cp_buffers p) > MAX_NODES * 4 \<or> cp_arena_bytes p > MAX_BYTES
         \<or> \<not> ALIGNMENT dvd cp_arena_bytes p \<or> cp_outputs p = []) (invalid ''physical plan resource limit or empty outputs'')) (\<lambda>_.
     and_then (fold_out (check_buffer F p) (cp_buffers p) ([], 0)) (\<lambda>_.
     and_then (fold_out (check_plan_step p) (zip [0..<length (cp_steps p)] (cp_steps p))
       \<lparr>li_producer = [], li_lives = replicate (length (cp_buffers p)) None\<rparr>) (\<lambda>k.
     and_then (reject (length (bs_of (cp_outputs p)) \<noteq> length (cp_outputs p)) (invalid ''duplicate result ID'')) (\<lambda>_.
     and_then (check_all (check_update p) (cp_updates p)) (\<lambda>_.
     and_then (fold_out (keep_result p) (cp_outputs p @ bt_values (cp_updates p)) (li_lives k)) (\<lambda>lives.
     check_all (check_lifetime p lives) (zip [0..<length (cp_buffers p)] (cp_buffers p)))))))))"

section \<open>Checked overrides\<close>

definition override_step :: "string \<times> kernel \<Rightarrow> plan_step list \<Rightarrow> plan_step list outcome" where
  "override_step = (\<lambda>(name, k) ts.
     and_then (ok_or (position_of (\<lambda>t. st_name t = name) ts) (invalid (''unknown physical step '' @ name))) (\<lambda>i.
     and_then (index_at ts i) (\<lambda>t.
     and_then (reject (kernel_op (st_kernel t) \<noteq> kernel_op k) (invalid ''kernel override changes operation semantics'')) (\<lambda>_.
     assign_at ts i (t\<lparr>st_kernel := k, st_selection_reason := ''explicit checked physical-plan override''\<rparr>)))))"

definition override_kernels :: "'f float_ops \<Rightarrow> 'f cpu_plan \<Rightarrow> (string, kernel) btmap \<Rightarrow> 'f cpu_plan outcome" where
  "override_kernels F p overrides =
     and_then (verify_plan F p) (\<lambda>_.
     and_then (fold_out override_step overrides (cp_steps p)) (\<lambda>ts.
     let q = p\<lparr>cp_steps := ts\<rparr> in
     and_then (verify_plan F q) (\<lambda>_. Ok q)))"

end
