(* ===== verification/Plan_Exec.thy ===== *)
theory Plan_Exec
  imports Plan_Verify
begin

text \<open>
  The CPU executor of verified plans (\<open>crates/inferfabric-plan/src/execute.rs\<close>). The arena is a list of
  64-byte lines of sixteen numbers, indexed as the code indexes it; every read and write is one access at
  the place and in the order of the code, so that a write may disturb a later read. A compiled kernel is
  code of the client: a function from shapes and values to an outcome.
\<close>

section \<open>State\<close>

type_synonym 'f arena = "'f list list"

definition arena_get :: "'f arena \<Rightarrow> nat \<Rightarrow> 'f outcome" where
  "arena_get a i = and_then (index_at a (i div 16)) (\<lambda>line. index_at line (i mod 16))"

definition arena_set :: "'f arena \<Rightarrow> nat \<Rightarrow> 'f \<Rightarrow> 'f arena outcome" where
  "arena_set a i x =
     and_then (index_at a (i div 16)) (\<lambda>line.
     and_then (assign_at line (i mod 16) x) (\<lambda>line. assign_at a (i div 16) line))"

record 'f kernel_impl =
  ki_operation :: plan_op
  ki_execute :: "nat list list \<Rightarrow> 'f list list \<Rightarrow> nat list \<Rightarrow> 'f list outcome"

record 'f executor =
  ex_plan :: "'f cpu_plan"
  ex_arena :: "'f arena"
  ex_owned :: "(nat, 'f list) btmap"
  ex_implementations :: "(string, 'f kernel_impl) btmap"

record 'f run_report =
  rr_outputs :: "(string, 'f list) btmap"
  rr_state :: "(string, 'f list) btmap"
  rr_executed_steps :: "string list"
  rr_arena_bytes :: nat

type_synonym 'f inputs = "(string, 'f list) btmap"

definition executor_new :: "'f float_ops \<Rightarrow> 'f cpu_plan \<Rightarrow> 'f executor outcome" where
  "executor_new F p =
     and_then (verify_plan F p) (\<lambda>_.
     Ok \<lparr>ex_plan = p, ex_arena = replicate (cp_arena_bytes p div 64) (replicate 16 (fl_zero F)),
         ex_owned = bt_collect (List.map_filter (\<lambda>(i, b). map_option (\<lambda>v. (i, v)) (vl_initial (bf_value b)))
           (zip [0..<length (cp_buffers p)] (cp_buffers p))),
         ex_implementations = []\<rparr>)"

definition bind_implementation :: "string \<Rightarrow> 'f kernel_impl \<Rightarrow> ('f executor, unit) op" where
  "bind_implementation step_name impl ex =
     try_op (ok_or (find (\<lambda>t. st_name t = step_name) (cp_steps (ex_plan ex))) (invalid ''unknown implementation step'')) (\<lambda>t.
     try_op (reject (kernel_op (st_kernel t) \<noteq> ki_operation impl) (invalid ''compiled implementation operation mismatch'')) (\<lambda>_ ex.
     try_op (reject (map_of (ex_implementations ex) step_name \<noteq> None) (invalid ''duplicate implementation binding'')) (\<lambda>_ ex.
     (Ok (), ex\<lparr>ex_implementations := bt_insert step_name impl (ex_implementations ex)\<rparr>)) ex)) ex"

section \<open>Reads and writes\<close>

definition exec_get :: "'f executor \<Rightarrow> 'f inputs \<Rightarrow> nat \<Rightarrow> nat \<Rightarrow> 'f outcome" where
  "exec_get ex inputs bid i =
     and_then (index_at (cp_buffers (ex_plan ex)) bid) (\<lambda>b.
     case vl_storage (bf_value b) of
       ArenaStorage \<Rightarrow> and_then (unwrap (bf_offset b)) (\<lambda>offset. arena_get (ex_arena ex) (offset div 4 + i))
     | InputStorage \<Rightarrow> and_then (unwrap (map_of inputs (vl_name (bf_value b)))) (\<lambda>v. index_at v i)
     | StateStorage \<Rightarrow> and_then (unwrap (map_of (ex_owned ex) bid)) (\<lambda>v. index_at v i)
     | ConstantStorage \<Rightarrow> and_then (unwrap (map_of (ex_owned ex) bid)) (\<lambda>v. index_at v i))"

definition buffer_shape :: "'f executor \<Rightarrow> nat \<Rightarrow> nat list outcome" where
  "buffer_shape ex bid = and_then (index_at (cp_buffers (ex_plan ex)) bid) (\<lambda>b. Ok (vl_shape (bf_value b)))"

definition exec_collect :: "'f executor \<Rightarrow> 'f inputs \<Rightarrow> nat \<Rightarrow> 'f list outcome" where
  "exec_collect ex inputs bid =
     and_then (buffer_shape ex bid) (\<lambda>shape.
     and_then (expect_ok (elements shape)) (\<lambda>n. collect (exec_get ex inputs bid) [0..<n]))"

definition write_arena :: "nat \<Rightarrow> 'f \<Rightarrow> ('f executor, unit) op" where
  "write_arena i x ex = try_op (arena_set (ex_arena ex) i x) (\<lambda>a ex. (Ok (), ex\<lparr>ex_arena := a\<rparr>)) ex"

section \<open>Steps\<close>

definition run_implementation :: "'f float_ops \<Rightarrow> 'f inputs \<Rightarrow> plan_step \<Rightarrow> nat \<Rightarrow> nat \<Rightarrow> 'f kernel_impl \<Rightarrow> ('f executor, unit) op" where
  "run_implementation F inputs t dst n impl ex =
     try_op (and_then (collect (buffer_shape ex) (st_inputs t)) (\<lambda>shapes.
             and_then (collect (exec_collect ex inputs) (st_inputs t)) (\<lambda>values.
             and_then (buffer_shape ex (st_output t)) (\<lambda>shape.
             and_then (ki_execute impl shapes values shape) (\<lambda>out.
             and_then (reject (length out \<noteq> n \<or> (\<exists>x \<in> set out. \<not> fl_finite F x))
               (invalid ''compiled implementation output contract violation; state not committed'')) (\<lambda>_. Ok out)))))) (\<lambda>out.
     each_op (\<lambda>(i, x). write_arena (dst + i) x) (zip [0..<length out] out)) ex"

definition elementwise_value :: "'f float_ops \<Rightarrow> 'f inputs \<Rightarrow> 'f executor \<Rightarrow> kernel \<Rightarrow> nat \<Rightarrow> nat option \<Rightarrow> nat \<Rightarrow> 'f outcome" where
  "elementwise_value F inputs ex k a b i =
     and_then (exec_get ex inputs a i) (\<lambda>x.
     case k of
       AddF32V1 \<Rightarrow> and_then (unwrap b) (\<lambda>b. and_then (exec_get ex inputs b i) (\<lambda>y. Ok (fl_add F x y)))
     | MulF32V1 \<Rightarrow> and_then (unwrap b) (\<lambda>b. and_then (exec_get ex inputs b i) (\<lambda>y. Ok (fl_mul F x y)))
     | _ \<Rightarrow> Ok (fl_max F x (fl_zero F)))"

definition run_elementwise :: "'f float_ops \<Rightarrow> 'f inputs \<Rightarrow> kernel \<Rightarrow> nat \<Rightarrow> nat option \<Rightarrow> nat \<Rightarrow> nat \<Rightarrow> ('f executor, unit) op" where
  "run_elementwise F inputs k a b dst n =
     each_op (\<lambda>i ex. try_op (elementwise_value F inputs ex k a b i) (write_arena (dst + i)) ex) [0..<n]"

definition dot_value :: "'f float_ops \<Rightarrow> 'f inputs \<Rightarrow> 'f executor \<Rightarrow> nat \<Rightarrow> nat option \<Rightarrow> nat \<Rightarrow> nat \<Rightarrow> nat \<Rightarrow> nat \<Rightarrow> 'f outcome" where
  "dot_value F inputs ex a b n k i j =
     fold_out (\<lambda>z acc. and_then (exec_get ex inputs a (i * k + z)) (\<lambda>x.
       and_then (unwrap b) (\<lambda>b. and_then (exec_get ex inputs b (z * n + j)) (\<lambda>y. Ok (fl_add F acc (fl_mul F x y))))))
       [0..<k] (fl_zero F)"

text \<open>\<open>(0..n).step_by(t)\<close> for a positive \<open>t\<close>.\<close>

definition step_by :: "nat \<Rightarrow> nat \<Rightarrow> nat list" where
  "step_by n t = map (\<lambda>q. q * t) [0..<div_ceil n t]"

definition run_matmul :: "'f float_ops \<Rightarrow> 'f inputs \<Rightarrow> kernel \<Rightarrow> nat \<Rightarrow> nat option \<Rightarrow> nat \<Rightarrow> nat list \<Rightarrow> nat \<Rightarrow> ('f executor, unit) op" where
  "run_matmul F inputs kern a b dst dims k =
     (let m = dims ! 0; n = dims ! 1; tile = (if kern = MatmulBlockedF32V1 then 16 else 1) in
      each_op (\<lambda>row. each_op (\<lambda>col. each_op (\<lambda>i. each_op (\<lambda>j ex.
        try_op (dot_value F inputs ex a b n k i j) (write_arena (dst + i * n + j)) ex)
        [col..<min (col + tile) n]) [row..<min (row + tile) m]) (step_by n tile)) (step_by m tile))"

definition check_written :: "'f float_ops \<Rightarrow> plan_step \<Rightarrow> nat \<Rightarrow> nat \<Rightarrow> ('f executor, unit) op" where
  "check_written F t dst n ex =
     try_op (and_then (any_out (\<lambda>i. and_then (arena_get (ex_arena ex) i) (\<lambda>x. Ok (\<not> fl_finite F x))) [dst..<dst + n]) (\<lambda>bad.
       reject bad (invalid (''nonfinite result at '' @ st_name t @ ''; state not committed'')))) (\<lambda>_ ex. (Ok (), ex)) ex"

definition run_kernel :: "'f float_ops \<Rightarrow> 'f inputs \<Rightarrow> plan_step \<Rightarrow> nat \<Rightarrow> nat option \<Rightarrow> nat \<Rightarrow> nat \<Rightarrow> ('f executor, unit) op" where
  "run_kernel F inputs t a b dst n ex =
     (if kernel_op (st_kernel t) = Matmul then
        try_op (and_then (buffer_shape ex (st_output t)) (\<lambda>dims.
                and_then (index_at dims 0) (\<lambda>_.
                and_then (index_at dims 1) (\<lambda>_.
                and_then (buffer_shape ex a) (\<lambda>ashape.
                and_then (index_at ashape 1) (\<lambda>k. Ok (dims, k))))))) (\<lambda>(dims, k).
        run_matmul F inputs (st_kernel t) a b dst dims k) ex
      else run_elementwise F inputs (st_kernel t) a b dst n ex)"

definition run_plan_step :: "'f float_ops \<Rightarrow> 'f inputs \<Rightarrow> plan_step \<Rightarrow> ('f executor, unit) op" where
  "run_plan_step F inputs t ex =
     try_op (and_then (index_at (cp_buffers (ex_plan ex)) (st_output t)) (\<lambda>out.
             and_then (unwrap (bf_offset out)) (\<lambda>offset.
             and_then (index_at (st_inputs t) 0) (\<lambda>a.
             and_then (elements (vl_shape (bf_value out))) (\<lambda>n. Ok (offset div 4, a, n)))))) (\<lambda>(dst, a, n) ex.
     case map_of (ex_implementations ex) (st_name t) of
       Some impl \<Rightarrow> run_implementation F inputs t dst n impl ex
     | None \<Rightarrow> bind_op (run_kernel F inputs t a (get_at (st_inputs t) 1) dst n) (\<lambda>_. check_written F t dst n) ex) ex"

section \<open>Invocations\<close>

definition input_mismatch :: "'f float_ops \<Rightarrow> 'f inputs \<Rightarrow> 'f plan_buffer \<Rightarrow> bool outcome" where
  "input_mismatch F inputs b = (case map_of inputs (vl_name (bf_value b)) of
     None \<Rightarrow> Ok True
   | Some v \<Rightarrow> and_then (expect_ok (elements (vl_shape (bf_value b)))) (\<lambda>n. Ok (length v \<noteq> n \<or> (\<exists>x \<in> set v. \<not> fl_finite F x))))"

definition check_inputs :: "'f float_ops \<Rightarrow> 'f cpu_plan \<Rightarrow> 'f inputs \<Rightarrow> unit outcome" where
  "check_inputs F p inputs =
     (let expected = filter (\<lambda>b. vl_storage (bf_value b) = InputStorage) (cp_buffers p) in
      and_then (if length inputs \<noteq> length expected then Ok True else any_out (input_mismatch F inputs) expected) (\<lambda>bad.
      reject bad (invalid ''input names, sizes or finite values do not match binary bindings'')))"

definition named_value :: "'f executor \<Rightarrow> 'f inputs \<Rightarrow> nat \<Rightarrow> (string \<times> 'f list) outcome" where
  "named_value ex inputs bid =
     and_then (index_at (cp_buffers (ex_plan ex)) bid) (\<lambda>b.
     and_then (exec_collect ex inputs bid) (\<lambda>v. Ok (vl_name (bf_value b), v)))"

definition commit_state :: "nat \<times> 'f list \<Rightarrow> ('f executor, unit) op" where
  "commit_state = (\<lambda>(dst, data) ex.
     try_op (unwrap (map_of (ex_owned ex) dst)) (\<lambda>old ex.
       if length old \<noteq> length data then (Panic, ex)
       else (Ok (), ex\<lparr>ex_owned := bt_adjust dst (\<lambda>_. data) (ex_owned ex)\<rparr>)) ex)"

definition report_state :: "'f executor \<Rightarrow> (string, 'f list) btmap outcome" where
  "report_state ex =
     and_then (collect (\<lambda>(bid, b). and_then (unwrap (map_of (ex_owned ex) bid)) (\<lambda>v. Ok (vl_name (bf_value b), v)))
       (filter (\<lambda>(bid, b). vl_storage (bf_value b) = StateStorage)
         (zip [0..<length (cp_buffers (ex_plan ex))] (cp_buffers (ex_plan ex))))) (\<lambda>vs. Ok (bt_collect vs))"

definition executor_run :: "'f float_ops \<Rightarrow> 'f inputs \<Rightarrow> ('f executor, 'f run_report) op" where
  "executor_run F inputs ex =
     try_op (check_inputs F (ex_plan ex) inputs) (\<lambda>_.
     bind_op (each_op (run_plan_step F inputs) (cp_steps (ex_plan ex))) (\<lambda>_ ex.
     try_op (collect (named_value ex inputs) (cp_outputs (ex_plan ex))) (\<lambda>outputs ex.
     try_op (collect (\<lambda>(dst, src). and_then (exec_collect ex inputs src) (\<lambda>v. Ok (dst, v))) (cp_updates (ex_plan ex))) (\<lambda>updates.
     bind_op (each_op commit_state updates) (\<lambda>_ ex.
     try_op (report_state ex) (\<lambda>state ex.
       (Ok \<lparr>rr_outputs = bt_collect outputs, rr_state = state, rr_executed_steps = map st_name (cp_steps (ex_plan ex)),
            rr_arena_bytes = cp_arena_bytes (ex_plan ex)\<rparr>, ex)) ex)) ex) ex)) ex"

end
