(* ===== verification/Plan_Legal.thy ===== *)
theory Plan_Legal
  imports Plan_Exec
begin

text \<open>
  What the plan verifier establishes, as one predicate on plans: the buffers are well formed, every step
  reads what an earlier step produced, the declared lifetimes cover every read and every result, and two
  buffers that are live at the same time have disjoint bytes of the arena.
\<close>

section \<open>Sizes\<close>

lemma try_product_Some:
  assumes "0 \<notin> set xs"
  shows "try_product xs a = Some n \<longleftrightarrow> n = a * prod_list xs \<and> (a * prod_list xs < 2 ^ 64 \<or> xs = [])"
  using assms
proof (induction xs arbitrary: a)
  case (Cons x xs)
  have pos: "0 < prod_list xs" using Cons.prems by (auto simp: prod_list_zero_iff intro: Nat.gr0I)
  have ih: "try_product xs (a * x) = Some n \<longleftrightarrow> n = a * x * prod_list xs \<and> (a * x * prod_list xs < 2 ^ 64 \<or> xs = [])"
    using Cons by simp
  show ?case
  proof (cases "a * x < 2 ^ 64")
    case True
    then show ?thesis using ih by (auto simp: checked_mul_def mult.assoc)
  next
    case False
    have "a * x \<le> a * x * prod_list xs" using pos by simp
    then have "\<not> a * x * prod_list xs < 2 ^ 64" using False by linarith
    then show ?thesis using False by (simp add: checked_mul_def mult.assoc)
  qed
qed auto

lemma elements_Ok:
  "elements shape = Ok n \<longleftrightarrow>
     shape \<noteq> [] \<and> length shape \<le> 8 \<and> 0 \<notin> set shape \<and> n = prod_list shape \<and> prod_list shape \<le> MAX_BYTES div 4"
proof (cases "shape = [] \<or> length shape > 8 \<or> 0 \<in> set shape")
  case True
  then show ?thesis by (auto simp: elements_def reject_def)
next
  case False
  have small: "MAX_BYTES div 4 < 2 ^ 64" by (simp add: MAX_BYTES_def)
  have "elements shape = Ok n \<longleftrightarrow> try_product shape 1 = Some n \<and> n \<le> MAX_BYTES div 4"
    using False by (auto simp: elements_def outcome_simps not_less)
  also have "\<dots> \<longleftrightarrow> n = prod_list shape \<and> n < 2 ^ 64 \<and> n \<le> MAX_BYTES div 4"
    using try_product_Some [of shape 1 n] False by auto
  finally show ?thesis using False small by auto
qed

lemma elements_pos: "elements shape = Ok n \<Longrightarrow> 0 < n"
  by (auto simp: elements_Ok prod_list_zero_iff intro: Nat.gr0I)

lemma elements_no_panic: "elements shape \<noteq> Panic"
  by (simp add: elements_def outcome_simps)

section \<open>Legal plans\<close>

definition buffer_size :: "'f plan_buffer \<Rightarrow> nat" where
  "buffer_size b = prod_list (vl_shape (bf_value b))"

definition buffer_name :: "'f plan_buffer \<Rightarrow> string" where
  "buffer_name b = vl_name (bf_value b)"

definition buffer_legal :: "'f float_ops \<Rightarrow> 'f cpu_plan \<Rightarrow> 'f plan_buffer \<Rightarrow> bool" where
  "buffer_legal F p b \<longleftrightarrow> elements (vl_shape (bf_value b)) = Ok (buffer_size b) \<and>
     (if vl_storage (bf_value b) = ArenaStorage
      then vl_initial (bf_value b) = None \<and> bf_lifetime b \<noteq> None \<and>
        (\<exists>offset. bf_offset b = Some offset \<and> 64 dvd offset \<and> offset + buffer_size b * 4 \<le> cp_arena_bytes p)
      else bf_offset b = None \<and> bf_lifetime b = None \<and>
        (if vl_storage (bf_value b) = InputStorage then vl_initial (bf_value b) = None
         else \<exists>xs. vl_initial (bf_value b) = Some xs \<and> length xs = buffer_size b \<and> (\<forall>x \<in> set xs. fl_finite F x)))"

lemma buffer_legal_size: "buffer_legal F p b \<Longrightarrow> elements (vl_shape (bf_value b)) = Ok (buffer_size b)"
  by (simp add: buffer_legal_def)

abbreviation plan_buffer_at :: "'f cpu_plan \<Rightarrow> nat \<Rightarrow> 'f plan_buffer" where
  "plan_buffer_at p i \<equiv> cp_buffers p ! i"

abbreviation storage_at :: "'f cpu_plan \<Rightarrow> nat \<Rightarrow> plan_storage" where
  "storage_at p i \<equiv> vl_storage (bf_value (plan_buffer_at p i))"

abbreviation shape_at :: "'f cpu_plan \<Rightarrow> nat \<Rightarrow> nat list" where
  "shape_at p i \<equiv> vl_shape (bf_value (plan_buffer_at p i))"

text \<open>A buffer that can be read before step \<open>k\<close>: owned, or produced by an earlier step.\<close>

definition readable :: "'f cpu_plan \<Rightarrow> nat \<Rightarrow> nat \<Rightarrow> bool" where
  "readable p k i \<longleftrightarrow> i < length (cp_buffers p) \<and>
     (storage_at p i = ArenaStorage \<longrightarrow> (\<exists>j < k. j < length (cp_steps p) \<and> st_output (cp_steps p ! j) = i))"

definition plan_step_legal :: "'f cpu_plan \<Rightarrow> nat \<Rightarrow> bool" where
  "plan_step_legal p k \<longleftrightarrow> (let t = cp_steps p ! k in
     st_rank t = 0 \<and> st_stream t = 0 \<and> st_output t < length (cp_buffers p) \<and> storage_at p (st_output t) = ArenaStorage \<and>
     vl_name (bf_value (plan_buffer_at p (st_output t))) = st_name t \<and> st_output t \<notin> st_output ` set (take k (cp_steps p)) \<and>
     (\<forall>i \<in> set (st_inputs t). readable p k i \<and>
        (\<forall>j < k. storage_at p i = ArenaStorage \<and> st_output (cp_steps p ! j) = i \<longrightarrow> j \<in> set (st_dependencies t))) \<and>
     op_shape (kernel_op (st_kernel t)) (map (shape_at p) (st_inputs t)) = Ok (shape_at p (st_output t)))"

definition plan_results :: "'f cpu_plan \<Rightarrow> nat list" where
  "plan_results p = cp_outputs p @ bt_values (cp_updates p)"

definition lifetime_legal :: "'f cpu_plan \<Rightarrow> nat \<Rightarrow> bool" where
  "lifetime_legal p i \<longleftrightarrow> (\<exists>made last. bf_lifetime (plan_buffer_at p i) = Some (made, last) \<and>
     made < length (cp_steps p) \<and> st_output (cp_steps p ! made) = i \<and> made \<le> last \<and> last \<le> length (cp_steps p) \<and>
     (\<forall>j < length (cp_steps p). i \<in> set (st_inputs (cp_steps p ! j)) \<longrightarrow> j \<le> last) \<and>
     (i \<in> set (plan_results p) \<longrightarrow> last = length (cp_steps p)))"

definition bytes_overlap :: "'f plan_buffer \<Rightarrow> 'f plan_buffer \<Rightarrow> bool" where
  "bytes_overlap b c \<longleftrightarrow> (\<exists>x y. bf_offset b = Some x \<and> bf_offset c = Some y \<and> x < y + buffer_size c * 4 \<and> y < x + buffer_size b * 4)"

definition live_together :: "'f plan_buffer \<Rightarrow> 'f plan_buffer \<Rightarrow> bool" where
  "live_together b c \<longleftrightarrow> (\<exists>x y. bf_lifetime b = Some x \<and> bf_lifetime c = Some y \<and> fst x \<le> snd y \<and> fst y \<le> snd x)"

definition plan_legal :: "'f float_ops \<Rightarrow> 'f cpu_plan \<Rightarrow> bool" where
  "plan_legal F p \<longleftrightarrow> cp_arena_bytes p \<le> MAX_BYTES \<and> 64 dvd cp_arena_bytes p \<and> length (cp_steps p) \<le> MAX_NODES \<and>
     distinct (map buffer_name (cp_buffers p)) \<and> (\<forall>b \<in> set (cp_buffers p). buffer_legal F p b) \<and>
     (\<forall>k < length (cp_steps p). plan_step_legal p k) \<and>
     cp_outputs p \<noteq> [] \<and> distinct (cp_outputs p) \<and> (\<forall>i \<in> set (plan_results p). readable p (length (cp_steps p)) i) \<and>
     (\<forall>(x, y) \<in> set (cp_updates p). x < length (cp_buffers p) \<and> storage_at p x = StateStorage \<and> shape_at p x = shape_at p y) \<and>
     (\<forall>i < length (cp_buffers p). storage_at p i = ArenaStorage \<longrightarrow> lifetime_legal p i) \<and>
     (\<forall>i < length (cp_buffers p). \<forall>j < i. live_together (plan_buffer_at p i) (plan_buffer_at p j) \<longrightarrow>
        \<not> bytes_overlap (plan_buffer_at p i) (plan_buffer_at p j))"

section \<open>The loops of the verifier\<close>

lemma check_buffer_storage_Ok:
  assumes "elements (vl_shape (bf_value b)) = Ok (buffer_size b)" and "cp_arena_bytes p \<le> MAX_BYTES"
  shows "check_buffer_storage F p (buffer_size b * 4) b = Ok () \<longleftrightarrow> buffer_legal F p b"
proof (cases "vl_storage (bf_value b) = ArenaStorage")
  case True
  have "offset + buffer_size b * 4 < 2 ^ 64" if "offset + buffer_size b * 4 \<le> cp_arena_bytes p" for offset
    using that assms(2) by (simp add: MAX_BYTES_def)
  then have "(case checked_add 64 offset (buffer_size b * 4) of None \<Rightarrow> True | Some limit \<Rightarrow> limit > cp_arena_bytes p) \<longleftrightarrow>
      \<not> offset + buffer_size b * 4 \<le> cp_arena_bytes p" for offset
    by (auto simp: checked_add_def)
  then show ?thesis using True assms(1)
    by (cases "bf_offset b") (auto simp: Let_def check_buffer_storage_def buffer_legal_def outcome_simps ALIGNMENT_def)
next
  case False
  have "buffer_size b * 4 div 4 = buffer_size b" by simp
  then show ?thesis using False assms(1)
    by (cases "vl_initial (bf_value b)"; cases "bf_lifetime b") (auto simp: Let_def check_buffer_storage_def buffer_legal_def outcome_simps)
qed

lemma check_buffers_Ok:
  assumes "fold_out (check_buffer F p) bs (names, held) = Ok r" and "cp_arena_bytes p \<le> MAX_BYTES"
  shows "(\<forall>b \<in> set bs. buffer_legal F p b) \<and> distinct (map buffer_name bs) \<and> buffer_name ` set bs \<inter> set names = {}"
  using assms(1)
proof (induction bs arbitrary: names held)
  case (Cons b bs)
  then obtain c where c: "check_buffer F p b (names, held) = Ok c" "fold_out (check_buffer F p) bs c = Ok r"
    by (auto simp: outcome_simps)
  then obtain n where n: "elements (vl_shape (bf_value b)) = Ok n" "check_buffer_storage F p (n * 4) b = Ok ()"
      "vl_name (bf_value b) \<notin> set names" "fst c = bs_insert (vl_name (bf_value b)) names"
    by (auto simp: check_buffer_def Let_def outcome_simps)
  have "n = buffer_size b" using n(1) by (simp add: elements_Ok buffer_size_def)
  then have "buffer_legal F p b" using n(1,2) assms(2) check_buffer_storage_Ok by blast
  moreover have "(\<forall>b \<in> set bs. buffer_legal F p b) \<and> distinct (map buffer_name bs) \<and> buffer_name ` set bs \<inter> set (fst c) = {}"
    using Cons.IH [of "fst c" "snd c"] c(2) by simp
  ultimately show ?case using n(3,4) unfolding buffer_name_def [symmetric] by auto
qed simp

text \<open>The state of the step loop: who produced what, and since when and until when it lives.\<close>

definition steps_inv :: "'f cpu_plan \<Rightarrow> nat \<Rightarrow> live_state \<Rightarrow> bool" where
  "steps_inv p k s \<longleftrightarrow> length (li_lives s) = length (cp_buffers p) \<and> (\<forall>j < k. plan_step_legal p j) \<and>
     (\<forall>i j. map_of (li_producer s) i = Some j \<longleftrightarrow> j < k \<and> st_output (cp_steps p ! j) = i) \<and>
     (\<forall>i < length (cp_buffers p).
        (map_of (li_producer s) i = None \<longrightarrow> li_lives s ! i = None) \<and>
        (\<forall>j. map_of (li_producer s) i = Some j \<longrightarrow>
           (\<exists>last. li_lives s ! i = Some (j, last) \<and> j \<le> last \<and> last < k \<and> (\<forall>m < k. i \<in> set (st_inputs (cp_steps p ! m)) \<longrightarrow> m \<le> last))))"

lemma steps_inv_producer: "steps_inv p k s \<Longrightarrow> map_of (li_producer s) i = Some j \<longleftrightarrow> j < k \<and> st_output (cp_steps p ! j) = i"
  by (simp add: steps_inv_def)

lemma steps_inv_none: "steps_inv p k s \<Longrightarrow> i < length (cp_buffers p) \<Longrightarrow> map_of (li_producer s) i = None \<Longrightarrow> li_lives s ! i = None"
  by (simp add: steps_inv_def)

lemma steps_inv_some:
  "steps_inv p k s \<Longrightarrow> i < length (cp_buffers p) \<Longrightarrow> map_of (li_producer s) i = Some j \<Longrightarrow>
     \<exists>last. li_lives s ! i = Some (j, last) \<and> j \<le> last \<and> last < k \<and> (\<forall>m < k. i \<in> set (st_inputs (cp_steps p ! m)) \<longrightarrow> m \<le> last)"
  by (simp add: steps_inv_def)

lemma extend_life_Ok:
  "extend_life i k lives = Ok lives' \<longleftrightarrow> i < length lives \<and> (\<exists>l. lives ! i = Some l \<and> lives' = lives[i := Some (fst l, k)])"
  by (auto simp: extend_life_def outcome_simps)

definition touched :: "'f cpu_plan \<Rightarrow> nat list \<Rightarrow> nat \<Rightarrow> bool" where
  "touched p ids i \<longleftrightarrow> i \<in> set ids \<and> storage_at p i = ArenaStorage"

lemma read_inputs_Ok:
  assumes "fold_out (read_input p k producer) ids s = Ok r" and "length (is_lives s) = length (cp_buffers p)"
  shows "is_shapes r = is_shapes s @ map (shape_at p) ids \<and> length (is_lives r) = length (cp_buffers p) \<and>
    set (is_required s) \<subseteq> set (is_required r) \<and>
    (\<forall>i \<in> set ids. i < length (cp_buffers p) \<and>
       (storage_at p i = ArenaStorage \<longrightarrow> (\<exists>src. map_of producer i = Some src \<and> src \<in> set (is_required r)))) \<and>
    (\<forall>i. (touched p ids i \<longrightarrow> (\<exists>l. is_lives s ! i = Some l \<and> is_lives r ! i = Some (fst l, k))) \<and>
         (\<not> touched p ids i \<longrightarrow> is_lives r ! i = is_lives s ! i))"
  using assms
proof (induction ids arbitrary: s)
  case (Cons i ids)
  then obtain s1 where s1: "read_input p k producer i s = Ok s1" "fold_out (read_input p k producer) ids s1 = Ok r"
    by (auto simp: outcome_simps)
  have one: "is_shapes s1 = is_shapes s @ [shape_at p i] \<and> length (is_lives s1) = length (cp_buffers p) \<and>
      set (is_required s) \<subseteq> set (is_required s1) \<and> i < length (cp_buffers p) \<and>
      (storage_at p i = ArenaStorage \<longrightarrow> (\<exists>src. map_of producer i = Some src \<and> src \<in> set (is_required s1)) \<and>
         (\<exists>l. is_lives s ! i = Some l \<and> is_lives s1 = (is_lives s)[i := Some (fst l, k)])) \<and>
      (storage_at p i \<noteq> ArenaStorage \<longrightarrow> is_lives s1 = is_lives s)"
    using s1(1) Cons.prems(2)
    by (auto simp: read_input_def Let_def outcome_simps get_at_Some_iff extend_life_Ok split: if_splits)
  have rest: "is_shapes r = is_shapes s1 @ map (shape_at p) ids \<and> length (is_lives r) = length (cp_buffers p) \<and>
    set (is_required s1) \<subseteq> set (is_required r) \<and>
    (\<forall>i \<in> set ids. i < length (cp_buffers p) \<and>
       (storage_at p i = ArenaStorage \<longrightarrow> (\<exists>src. map_of producer i = Some src \<and> src \<in> set (is_required r)))) \<and>
    (\<forall>i. (touched p ids i \<longrightarrow> (\<exists>l. is_lives s1 ! i = Some l \<and> is_lives r ! i = Some (fst l, k))) \<and>
         (\<not> touched p ids i \<longrightarrow> is_lives r ! i = is_lives s1 ! i))"
    using Cons.IH [OF s1(2)] one by blast
  have lives: "(touched p (i # ids) m \<longrightarrow> (\<exists>l. is_lives s ! m = Some l \<and> is_lives r ! m = Some (fst l, k))) \<and>
         (\<not> touched p (i # ids) m \<longrightarrow> is_lives r ! m = is_lives s ! m)" for m
  proof (cases "touched p ids m")
    case True
    then obtain l where l: "is_lives s1 ! m = Some l" "is_lives r ! m = Some (fst l, k)" using rest by blast
    have "\<exists>l'. is_lives s ! m = Some l' \<and> fst l' = fst l"
      using one l(1) Cons.prems(2) by (cases l; cases "storage_at p i = ArenaStorage"; cases "m = i") auto
    then show ?thesis using l(2) True by (auto simp: touched_def)
  next
    case False
    then have r: "is_lives r ! m = is_lives s1 ! m" using rest by blast
    show ?thesis
    proof (cases "m = i \<and> storage_at p i = ArenaStorage")
      case True
      then show ?thesis using one r Cons.prems(2) by (auto simp: touched_def)
    next
      case no: False
      then have "is_lives s1 ! m = is_lives s ! m" using one by (cases "storage_at p i = ArenaStorage") auto
      moreover have "\<not> touched p (i # ids) m" using no False by (auto simp: touched_def)
      ultimately show ?thesis using r by simp
    qed
  qed
  then show ?case using one rest by (auto simp del: fold_out.simps)
qed (simp add: touched_def)

lemma check_plan_step_Ok:
  assumes k: "k < length (cp_steps p)" and inv: "steps_inv p k s" and ok: "check_plan_step p (k, cp_steps p ! k) s = Ok r"
  shows "steps_inv p (Suc k) r"
proof -
  define t where "t = cp_steps p ! k"
  obtain q where q: "st_rank t = 0" "st_stream t = 0" "st_output t < length (cp_buffers p)" "storage_at p (st_output t) = ArenaStorage"
      "vl_name (bf_value (plan_buffer_at p (st_output t))) = st_name t" "map_of (li_producer s) (st_output t) = None"
      "fold_out (read_input p k (li_producer s)) (st_inputs t) \<lparr>is_shapes = [], is_required = [], is_lives = li_lives s\<rparr> = Ok q"
      "\<forall>d \<in> set (is_required q). d \<in> set (st_dependencies t)" "op_shape (kernel_op (st_kernel t)) (is_shapes q) = Ok (shape_at p (st_output t))"
      "r = \<lparr>li_producer = bt_insert (st_output t) k (li_producer s), li_lives = (is_lives q)[st_output t := Some (k, k)]\<rparr>"
    using ok unfolding check_plan_step_def t_def [symmetric] by (auto simp: outcome_simps get_at_Some_iff)
  have len: "length (li_lives s) = length (cp_buffers p)" using inv by (simp add: steps_inv_def)
  note reads = read_inputs_Ok [OF q(7), simplified, OF len]
  have producer: "map_of (li_producer s) i = Some j \<longleftrightarrow> j < k \<and> st_output (cp_steps p ! j) = i" for i j
    using inv by (simp add: steps_inv_def)
  have fresh: "\<forall>j < k. st_output (cp_steps p ! j) \<noteq> st_output t" using q(6) producer by (metis option.distinct(1))
  have legal: "plan_step_legal p k"
    unfolding plan_step_legal_def Let_def t_def [symmetric]
  proof (intro conjI)
    show "st_output t \<notin> st_output ` set (take k (cp_steps p))"
    proof
      assume "st_output t \<in> st_output ` set (take k (cp_steps p))"
      then obtain j where "j < k" "st_output t = st_output (cp_steps p ! j)" using k by (auto simp: in_set_conv_nth)
      then show False using fresh by metis
    qed
    show "op_shape (kernel_op (st_kernel t)) (map (shape_at p) (st_inputs t)) = Ok (shape_at p (st_output t))"
      using q(9) reads by simp
    show "\<forall>i \<in> set (st_inputs t). readable p k i \<and>
        (\<forall>j < k. storage_at p i = ArenaStorage \<and> st_output (cp_steps p ! j) = i \<longrightarrow> j \<in> set (st_dependencies t))"
    proof
      fix i assume i: "i \<in> set (st_inputs t)"
      have "readable p k i" using reads i producer k by (fastforce simp: readable_def)
      moreover have "j \<in> set (st_dependencies t)" if "j < k" "storage_at p i = ArenaStorage" "st_output (cp_steps p ! j) = i" for j
        using reads i that producer q(8) by (metis option.inject)
      ultimately show "readable p k i \<and>
        (\<forall>j < k. storage_at p i = ArenaStorage \<and> st_output (cp_steps p ! j) = i \<longrightarrow> j \<in> set (st_dependencies t))" by blast
    qed
  qed (use q in simp_all)
  show ?thesis unfolding steps_inv_def
  proof (intro conjI allI impI)
    show "length (li_lives r) = length (cp_buffers p)" using q(10) reads by simp
    show "plan_step_legal p j" if "j < Suc k" for j using that legal inv by (auto simp: less_Suc_eq steps_inv_def)
    show "(map_of (li_producer r) i = Some j) = (j < Suc k \<and> st_output (cp_steps p ! j) = i)" for i j
      using q(10) producer fresh by (auto simp: less_Suc_eq t_def)
  next
    fix i assume i: "i < length (cp_buffers p)" and none: "map_of (li_producer r) i = None"
    then have no: "i \<noteq> st_output t" "map_of (li_producer s) i = None" using q(10) by (auto split: if_splits)
    then have "\<not> touched p (st_inputs t) i" using reads by (auto simp: touched_def)
    then show "li_lives r ! i = None" using q(10) reads no i inv by (simp add: steps_inv_def)
  next
    fix i j assume i: "i < length (cp_buffers p)" and j: "map_of (li_producer r) i = Some j"
    show "\<exists>last. li_lives r ! i = Some (j, last) \<and> j \<le> last \<and> last < Suc k \<and>
        (\<forall>m < Suc k. i \<in> set (st_inputs (cp_steps p ! m)) \<longrightarrow> m \<le> last)"
    proof (cases "i = st_output t")
      case True
      then have "li_lives r ! i = Some (k, k)" "j = k" using q(3,10) reads j by auto
      then show ?thesis by (intro exI [of _ k]) auto
    next
      case False
      then have js: "map_of (li_producer s) i = Some j" using j q(10) by simp
      then obtain last where last: "li_lives s ! i = Some (j, last)" "j \<le> last" "last < k"
          "\<forall>m < k. i \<in> set (st_inputs (cp_steps p ! m)) \<longrightarrow> m \<le> last"
        using steps_inv_some [OF inv i] by blast
      show ?thesis
      proof (cases "touched p (st_inputs t) i")
        case True
        then have "li_lives r ! i = Some (j, k)" using reads last(1) q(10) False by (metis fst_conv nth_list_update_neq option.inject live_state.select_convs(2))
        then show ?thesis using js producer by (intro exI [of _ k]) auto
      next
        case no: False
        have "storage_at p i = ArenaStorage"
          using js producer inv by (auto simp: steps_inv_def plan_step_legal_def Let_def)
        then have "i \<notin> set (st_inputs t)" using no by (simp add: touched_def)
        moreover have "li_lives r ! i = Some (j, last)" using no reads last(1) q(10) False by simp
        ultimately show ?thesis using last by (intro exI [of _ last]) (auto simp: less_Suc_eq t_def)
      qed
    qed
  qed
qed

text \<open>The results: their buffers live to the end of the schedule.\<close>

lemma keep_results_Ok:
  assumes "fold_out (keep_result p) ids lives = Ok r" and "length lives = length (cp_buffers p)"
  shows "length r = length (cp_buffers p) \<and> (\<forall>i \<in> set ids. i < length (cp_buffers p)) \<and>
    (\<forall>i. (touched p ids i \<longrightarrow> (\<exists>l. lives ! i = Some l \<and> r ! i = Some (fst l, length (cp_steps p)))) \<and>
         (\<not> touched p ids i \<longrightarrow> r ! i = lives ! i))"
  using assms
proof (induction ids arbitrary: lives)
  case (Cons i ids)
  then obtain l1 where l1: "keep_result p i lives = Ok l1" "fold_out (keep_result p) ids l1 = Ok r"
    by (auto simp: outcome_simps)
  have one: "i < length (cp_buffers p)" "length l1 = length (cp_buffers p)"
      "storage_at p i = ArenaStorage \<Longrightarrow> \<exists>l. lives ! i = Some l \<and> l1 = lives[i := Some (fst l, length (cp_steps p))]"
      "storage_at p i \<noteq> ArenaStorage \<Longrightarrow> l1 = lives"
    using l1(1) Cons.prems(2) by (auto simp: keep_result_def outcome_simps get_at_Some_iff split: if_splits)
  note rest = Cons.IH [OF l1(2) one(2)]
  have "(touched p (i # ids) m \<longrightarrow> (\<exists>l. lives ! m = Some l \<and> r ! m = Some (fst l, length (cp_steps p)))) \<and>
         (\<not> touched p (i # ids) m \<longrightarrow> r ! m = lives ! m)" for m
  proof (cases "touched p ids m")
    case True
    then obtain l where l: "l1 ! m = Some l" "r ! m = Some (fst l, length (cp_steps p))" using rest by blast
    have "\<exists>l'. lives ! m = Some l' \<and> fst l' = fst l"
      using one l(1) Cons.prems(2) by (cases l; cases "storage_at p i = ArenaStorage"; cases "m = i") auto
    then show ?thesis using l(2) True by (auto simp: touched_def)
  next
    case False
    then have r: "r ! m = l1 ! m" using rest by blast
    show ?thesis
    proof (cases "m = i \<and> storage_at p i = ArenaStorage")
      case True
      then show ?thesis using one r Cons.prems(2) by (auto simp: touched_def)
    next
      case no: False
      then have "l1 ! m = lives ! m" using one by (cases "storage_at p i = ArenaStorage") auto
      moreover have "\<not> touched p (i # ids) m" using no False by (auto simp: touched_def)
      ultimately show ?thesis using r by simp
    qed
  qed
  then show ?case using one rest by simp
qed (simp add: touched_def)

lemma check_pair_Ok:
  assumes "check_pair p b life c = Ok ()" and "bf_lifetime b = Some life"
    and "elements (vl_shape (bf_value b)) = Ok (buffer_size b)" and "elements (vl_shape (bf_value c)) = Ok (buffer_size c)"
    and "live_together b c"
  shows "\<not> bytes_overlap b c"
  using assms by (auto simp: check_pair_def live_together_def bytes_overlap_def outcome_simps split: if_splits)

lemma distinct_bs_of: "length (bs_of xs) = length xs \<longleftrightarrow> distinct xs"
  by (metis bs_wf_distinct bs_wf_of card_distinct distinct_card set_bs_of)

lemma verify_plan_legal:
  assumes "verify_plan F p = Ok ()"
  shows "plan_legal F p"
proof -
  define n where "n = length (cp_steps p)"
  obtain r k lives where v: "cp_arena_bytes p \<le> MAX_BYTES" "64 dvd cp_arena_bytes p" "n \<le> MAX_NODES" "cp_outputs p \<noteq> []"
      "fold_out (check_buffer F p) (cp_buffers p) ([], 0) = Ok r"
      "fold_out (check_plan_step p) (zip [0..<n] (cp_steps p)) \<lparr>li_producer = [], li_lives = replicate (length (cp_buffers p)) None\<rparr> = Ok k"
      "length (bs_of (cp_outputs p)) = length (cp_outputs p)" "check_all (check_update p) (cp_updates p) = Ok ()"
      "fold_out (keep_result p) (plan_results p) (li_lives k) = Ok lives"
      "check_all (check_lifetime p lives) (zip [0..<length (cp_buffers p)] (cp_buffers p)) = Ok ()"
    using assms unfolding verify_plan_def n_def plan_results_def by (auto simp: outcome_simps ALIGNMENT_def not_less)
  have bufs: "\<forall>b \<in> set (cp_buffers p). buffer_legal F p b" "distinct (map buffer_name (cp_buffers p))"
    using check_buffers_Ok [OF v(5,1)] by auto
  have start: "steps_inv p 0 \<lparr>li_producer = [], li_lives = replicate (length (cp_buffers p)) None\<rparr>"
    by (simp add: steps_inv_def)
  have inv: "steps_inv p n k"
    using fold_out_enum [where P = "steps_inv p", OF v(6) [unfolded n_def] start] check_plan_step_Ok unfolding n_def by blast
  have results: "length lives = length (cp_buffers p)" "\<forall>i \<in> set (plan_results p). i < length (cp_buffers p)"
      "\<And>i. touched p (plan_results p) i \<Longrightarrow> \<exists>l. li_lives k ! i = Some l \<and> lives ! i = Some (fst l, n)"
      "\<And>i. \<not> touched p (plan_results p) i \<Longrightarrow> lives ! i = li_lives k ! i"
    using keep_results_Ok [OF v(9)] inv by (simp_all add: steps_inv_def n_def)
  have producer: "map_of (li_producer k) i = Some j \<longleftrightarrow> j < n \<and> st_output (cp_steps p ! j) = i" for i j
    using inv by (simp add: steps_inv_def)
  have life: "bf_lifetime (plan_buffer_at p i) = lives ! i" "storage_at p i = ArenaStorage \<Longrightarrow> lives ! i \<noteq> None"
      "\<And>l. bf_lifetime (plan_buffer_at p i) = Some l \<Longrightarrow> check_all (check_pair p (plan_buffer_at p i) l) (take i (cp_buffers p)) = Ok ()"
    if "i < length (cp_buffers p)" for i
  proof -
    have "check_lifetime p lives (i, plan_buffer_at p i) = Ok ()"
      using v(10) that unfolding check_all_Ok_iff by (force simp: in_set_zip)
    then show "bf_lifetime (plan_buffer_at p i) = lives ! i" "storage_at p i = ArenaStorage \<Longrightarrow> lives ! i \<noteq> None"
      "\<And>l. bf_lifetime (plan_buffer_at p i) = Some l \<Longrightarrow> check_all (check_pair p (plan_buffer_at p i) l) (take i (cp_buffers p)) = Ok ()"
      by (auto simp: check_lifetime_def outcome_simps split: option.splits)
  qed
  have lives: "\<exists>j last. lives ! i = Some (j, last) \<and> j < n \<and> st_output (cp_steps p ! j) = i \<and> j \<le> last \<and> last \<le> n \<and>
      (\<forall>m < n. i \<in> set (st_inputs (cp_steps p ! m)) \<longrightarrow> m \<le> last) \<and> (touched p (plan_results p) i \<longrightarrow> last = n)"
    if i: "i < length (cp_buffers p)" and some: "li_lives k ! i \<noteq> None" for i
  proof -
    have "map_of (li_producer k) i \<noteq> None" using steps_inv_none [OF inv i] some by blast
    then obtain j where j: "map_of (li_producer k) i = Some j" by blast
    then obtain last where last: "li_lives k ! i = Some (j, last)" "j \<le> last" "last < n" "\<forall>m < n. i \<in> set (st_inputs (cp_steps p ! m)) \<longrightarrow> m \<le> last"
      using steps_inv_some [OF inv i] by blast
    show ?thesis
    proof (cases "touched p (plan_results p) i")
      case True
      from results(3) [OF True] last(1) have "lives ! i = Some (j, n)" by auto
      then show ?thesis using j producer by (intro exI [of _ j] exI [of _ n]) auto
    next
      case False
      then have "lives ! i = Some (j, last)" using results(4) last(1) by simp
      then show ?thesis using j producer last False by (intro exI [of _ j] exI [of _ last]) auto
    qed
  qed
  have arena: "li_lives k ! i \<noteq> None" if "i < length (cp_buffers p)" "storage_at p i = ArenaStorage" for i
    using life(2) [OF that] results(3,4) [of i] by (cases "touched p (plan_results p) i") auto
  show ?thesis
    unfolding plan_legal_def n_def [symmetric]
  proof (intro conjI)
    show "distinct (cp_outputs p)" using v(7) by (simp add: distinct_bs_of)
    show "\<forall>k < n. plan_step_legal p k" using inv by (simp add: steps_inv_def)
    show "\<forall>i \<in> set (plan_results p). readable p n i"
    proof
      fix i assume i: "i \<in> set (plan_results p)"
      then have "i < length (cp_buffers p)" using results(2) by blast
      then show "readable p n i" using arena [of i] lives [of i] by (auto simp: readable_def n_def)
    qed
    show "\<forall>(x, y) \<in> set (cp_updates p). x < length (cp_buffers p) \<and> storage_at p x = StateStorage \<and> shape_at p x = shape_at p y"
      using v(8) by (auto simp: outcome_simps check_update_def get_at_Some_iff)
    show "\<forall>i < length (cp_buffers p). storage_at p i = ArenaStorage \<longrightarrow> lifetime_legal p i"
    proof (intro allI impI)
      fix i assume i: "i < length (cp_buffers p)" "storage_at p i = ArenaStorage"
      then show "lifetime_legal p i" using lives [OF i(1) arena [OF i]] life(1) [OF i(1)]
        by (auto simp: lifetime_legal_def touched_def n_def)
    qed
    show "\<forall>i < length (cp_buffers p). \<forall>j < i. live_together (plan_buffer_at p i) (plan_buffer_at p j) \<longrightarrow>
        \<not> bytes_overlap (plan_buffer_at p i) (plan_buffer_at p j)"
    proof (intro allI impI)
      fix i j assume i: "i < length (cp_buffers p)" and j: "j < i" and together: "live_together (plan_buffer_at p i) (plan_buffer_at p j)"
      obtain l where l: "bf_lifetime (plan_buffer_at p i) = Some l" using together by (auto simp: live_together_def)
      have "plan_buffer_at p j \<in> set (take i (cp_buffers p))" using i j by (auto simp: in_set_conv_nth)
      then have "check_pair p (plan_buffer_at p i) l (plan_buffer_at p j) = Ok ()" using life(3) [OF i l] by (simp add: outcome_simps)
      moreover have "buffer_legal F p (plan_buffer_at p i)" "buffer_legal F p (plan_buffer_at p j)" using bufs(1) i j by auto
      ultimately show "\<not> bytes_overlap (plan_buffer_at p i) (plan_buffer_at p j)"
        using l together by (intro check_pair_Ok) (simp_all add: buffer_legal_size)
    qed
  qed (use v bufs in auto)
qed

end
