(* ===== verification/Plan_Run.thy ===== *)
theory Plan_Run
  imports Plan_Legal
begin

text \<open>
  The executor refines an evaluation without an arena. The reference gives every buffer its whole value,
  in an environment; the executor reads and writes single numbers of shared memory. For a verified plan both
  do the same, because whatever a step still has to read lies outside of what it writes.
\<close>

section \<open>Memory\<close>

text \<open>The interface of a memory of numbered cells.\<close>

locale cell_store =
  fixes get :: "'s \<Rightarrow> nat \<Rightarrow> 'v outcome"
    and put :: "'s \<Rightarrow> nat \<Rightarrow> 'v \<Rightarrow> 's outcome"
    and wf :: "'s \<Rightarrow> bool"
    and cells :: nat
  assumes put_run: "wf s \<Longrightarrow> i < cells \<Longrightarrow> \<exists>t. put s i v = Ok t \<and> wf t"
    and get_put: "put s i v = Ok t \<Longrightarrow> get t j = (if j = i then Ok v else get s j)"
begin

text \<open>A loop that computes a value from the memory and puts it into a cell. As long as the values do not
  depend on the cells the loop writes, the order of the rounds does not matter.\<close>

lemma put_loop:
  assumes "wf s" and "\<forall>x \<in> set xs. pos x < cells"
    and "\<And>x y. x \<in> set xs \<Longrightarrow> y \<in> set xs \<Longrightarrow> pos x = pos y \<Longrightarrow> v x = v y"
    and "\<And>x t. x \<in> set xs \<Longrightarrow> wf t \<Longrightarrow> (\<forall>j. j \<notin> pos ` set xs \<longrightarrow> get t j = get s j) \<Longrightarrow> calc x t = Ok (v x)"
  shows "\<exists>t. fold_out (\<lambda>x t. and_then (calc x t) (put t (pos x))) xs s = Ok t \<and> wf t \<and>
    (\<forall>x \<in> set xs. get t (pos x) = Ok (v x)) \<and> (\<forall>j. j \<notin> pos ` set xs \<longrightarrow> get t j = get s j)"
proof -
  have "\<exists>t. fold_out (\<lambda>x t. and_then (calc x t) (put t (pos x))) ys s = Ok t \<and> wf t \<and>
    (\<forall>x \<in> set ys. get t (pos x) = Ok (v x)) \<and> (\<forall>j. j \<notin> pos ` set xs \<longrightarrow> get t j = get s j)" if "set ys \<subseteq> set xs" for ys
    using that
  proof (induction ys rule: rev_induct)
    case Nil
    then show ?case using assms(1) by simp
  next
    case (snoc y ys)
    then obtain t where t: "fold_out (\<lambda>x t. and_then (calc x t) (put t (pos x))) ys s = Ok t" "wf t"
        "\<forall>x \<in> set ys. get t (pos x) = Ok (v x)" "\<forall>j. j \<notin> pos ` set xs \<longrightarrow> get t j = get s j" by auto
    have y: "y \<in> set xs" "calc y t = Ok (v y)" using assms(4) t snoc.prems by auto
    then obtain u where u: "put t (pos y) (v y) = Ok u" "wf u" using put_run t(2) assms(2) by blast
    have "get u (pos x) = Ok (v x)" if "x \<in> set (ys @ [y])" for x
      using get_put [OF u(1)] t(3) that assms(3) [of x y] snoc.prems y(1) by (cases "pos x = pos y") auto
    moreover have "get u j = get s j" if "j \<notin> pos ` set xs" for j
      using get_put [OF u(1)] t(4) that y(1) by auto
    ultimately show ?case using t(1) y(2) u by (auto simp: fold_out_append)
  qed
  then show ?thesis by blast
qed

end

definition arena_wf :: "nat \<Rightarrow> 'f arena \<Rightarrow> bool" where
  "arena_wf n a \<longleftrightarrow> length a = n \<and> (\<forall>line \<in> set a. length line = 16)"

lemma arena_set_Ok:
  "arena_set a i x = Ok b \<longleftrightarrow> i div 16 < length a \<and> i mod 16 < length (a ! (i div 16)) \<and> b = a[i div 16 := (a ! (i div 16))[i mod 16 := x]]"
  by (auto simp: arena_set_def outcome_simps)

lemma arena_get_set:
  assumes "arena_set a i x = Ok b"
  shows "arena_get b j = (if j = i then Ok x else arena_get a j)"
proof (cases "j div 16 = i div 16")
  case True
  then have "j = i \<longleftrightarrow> j mod 16 = i mod 16" by (metis div_mult_mod_eq)
  then show ?thesis using assms True
    by (auto simp: arena_set_Ok arena_get_def index_at_def)
next
  case False
  then show ?thesis using assms by (auto simp: arena_set_Ok arena_get_def index_at_def)
qed

lemma arena_set_run:
  assumes "arena_wf n a" and "i < 16 * n"
  shows "\<exists>b. arena_set a i x = Ok b \<and> arena_wf n b"
proof -
  have i: "i div 16 < length a" using assms by (auto simp: arena_wf_def)
  then have l: "length (a ! (i div 16)) = 16" using assms by (simp add: arena_wf_def)
  have "arena_wf n (a[i div 16 := (a ! (i div 16))[i mod 16 := x]])"
    using assms i l by (auto simp: arena_wf_def dest!: set_update_subset_insert [THEN subsetD])
  then show ?thesis using i l by (auto simp: arena_set_Ok)
qed

interpretation arena: cell_store arena_get arena_set "arena_wf n" "16 * n" for n
  by unfold_locales (auto simp: arena_set_run arena_get_set)

section \<open>The reference evaluation\<close>

type_synonym 'f env = "nat \<Rightarrow> 'f list"

definition dot :: "'f float_ops \<Rightarrow> 'f list \<Rightarrow> 'f list \<Rightarrow> nat \<Rightarrow> nat \<Rightarrow> nat \<Rightarrow> nat \<Rightarrow> 'f" where
  "dot F x y n k i j = fold (\<lambda>z acc. fl_add F acc (fl_mul F (x ! (i * k + z)) (y ! (z * n + j)))) [0..<k] (fl_zero F)"

definition eval_op :: "'f float_ops \<Rightarrow> plan_op \<Rightarrow> nat list list \<Rightarrow> 'f list list \<Rightarrow> 'f list" where
  "eval_op F op shapes vals = (case op of
     Add \<Rightarrow> map2 (fl_add F) (vals ! 0) (vals ! 1)
   | Mul \<Rightarrow> map2 (fl_mul F) (vals ! 0) (vals ! 1)
   | Relu \<Rightarrow> map (\<lambda>x. fl_max F x (fl_zero F)) (vals ! 0)
   | Matmul \<Rightarrow> (let m = shapes ! 0 ! 0; k = shapes ! 0 ! 1; n = shapes ! 1 ! 1 in
       map (\<lambda>q. dot F (vals ! 0) (vals ! 1) n k (q div n) (q mod n)) [0..<m * n]))"

definition eval_step :: "'f float_ops \<Rightarrow> 'f cpu_plan \<Rightarrow> (string \<Rightarrow> 'f kernel_impl option) \<Rightarrow> plan_step \<Rightarrow> 'f env \<Rightarrow> 'f env outcome" where
  "eval_step F p impls t env =
     (let shapes = map (shape_at p) (st_inputs t); vals = map env (st_inputs t) in
      and_then (case impls (st_name t) of
          Some impl \<Rightarrow> and_then (ki_execute impl shapes vals (shape_at p (st_output t))) (\<lambda>out.
            and_then (reject (length out \<noteq> prod_list (shape_at p (st_output t)) \<or> (\<exists>x \<in> set out. \<not> fl_finite F x))
              (invalid ''compiled implementation output contract violation; state not committed'')) (\<lambda>_. Ok out))
        | None \<Rightarrow> and_then (reject (\<exists>x \<in> set (eval_op F (kernel_op (st_kernel t)) shapes vals). \<not> fl_finite F x)
            (invalid (''nonfinite result at '' @ st_name t @ ''; state not committed''))) (\<lambda>_.
            Ok (eval_op F (kernel_op (st_kernel t)) shapes vals)))
        (\<lambda>out. Ok (env(st_output t := out))))"

definition eval_plan :: "'f float_ops \<Rightarrow> 'f cpu_plan \<Rightarrow> (string \<Rightarrow> 'f kernel_impl option) \<Rightarrow> 'f env \<Rightarrow> 'f env outcome" where
  "eval_plan F p impls env = fold_out (eval_step F p impls) (cp_steps p) env"

definition initial_env :: "'f cpu_plan \<Rightarrow> 'f inputs \<Rightarrow> (nat, 'f list) btmap \<Rightarrow> 'f env" where
  "initial_env p inputs owned i = (case storage_at p i of
     InputStorage \<Rightarrow> the (map_of inputs (vl_name (bf_value (plan_buffer_at p i))))
   | ArenaStorage \<Rightarrow> []
   | _ \<Rightarrow> the (map_of owned i))"

section \<open>Frames\<close>

definition cells_of :: "'f cpu_plan \<Rightarrow> nat \<Rightarrow> nat set" where
  "cells_of p i = (case bf_offset (plan_buffer_at p i) of
     None \<Rightarrow> {} | Some offset \<Rightarrow> {offset div 4 ..< offset div 4 + buffer_size (plan_buffer_at p i)})"

definition live_at :: "'f cpu_plan \<Rightarrow> nat \<Rightarrow> nat \<Rightarrow> bool" where
  "live_at p k i \<longleftrightarrow> i < length (cp_buffers p) \<and>
     (storage_at p i = ArenaStorage \<longrightarrow> (\<exists>made last. bf_lifetime (plan_buffer_at p i) = Some (made, last) \<and> made < k \<and> k \<le> last))"

definition holds :: "'f executor \<Rightarrow> 'f inputs \<Rightarrow> 'f env \<Rightarrow> nat \<Rightarrow> bool" where
  "holds ex inputs env i \<longleftrightarrow> length (env i) = buffer_size (plan_buffer_at (ex_plan ex) i) \<and>
     (\<forall>q < buffer_size (plan_buffer_at (ex_plan ex) i). exec_get ex inputs i q = Ok (env i ! q))"

lemma legal_buffer: "plan_legal F p \<Longrightarrow> i < length (cp_buffers p) \<Longrightarrow> buffer_legal F p (plan_buffer_at p i)"
  by (simp add: plan_legal_def)

lemma legal_step: "plan_legal F p \<Longrightarrow> k < length (cp_steps p) \<Longrightarrow> plan_step_legal p k"
  by (simp add: plan_legal_def)

lemma legal_lifetime: "plan_legal F p \<Longrightarrow> i < length (cp_buffers p) \<Longrightarrow> storage_at p i = ArenaStorage \<Longrightarrow> lifetime_legal p i"
  by (simp add: plan_legal_def)

lemma legal_arena:
  assumes "plan_legal F p" and "i < length (cp_buffers p)" and "storage_at p i = ArenaStorage"
  obtains offset where "bf_offset (plan_buffer_at p i) = Some offset" "64 dvd offset"
    "offset div 4 + buffer_size (plan_buffer_at p i) \<le> 16 * (cp_arena_bytes p div 64)"
proof -
  obtain offset where o: "bf_offset (plan_buffer_at p i) = Some offset" "64 dvd offset"
      "offset + buffer_size (plan_buffer_at p i) * 4 \<le> cp_arena_bytes p"
    using legal_buffer [OF assms(1,2)] assms(3) by (auto simp: buffer_legal_def)
  obtain x y where "offset = 64 * x" "cp_arena_bytes p = 64 * y" using o(2) assms(1) by (auto simp: plan_legal_def elim!: dvdE)
  then show ?thesis using o that by simp
qed

text \<open>A value has one producer.\<close>

lemma unique_producer:
  assumes "plan_legal F p" and "i < length (cp_steps p)" and "j < length (cp_steps p)"
    and "st_output (cp_steps p ! i) = st_output (cp_steps p ! j)"
  shows "i = j"
proof -
  have "st_output (cp_steps p ! b) \<noteq> st_output (cp_steps p ! a)" if "a < b" "b < length (cp_steps p)" for a b
  proof -
    have "cp_steps p ! a \<in> set (take b (cp_steps p))" using that by (auto simp: in_set_conv_nth)
    then show ?thesis using legal_step [OF assms(1) that(2)] by (auto simp: plan_step_legal_def Let_def)
  qed
  then show ?thesis using assms by (metis linorder_neqE_nat)
qed

lemma output_lifetime:
  assumes "plan_legal F p" and "k < length (cp_steps p)"
  obtains last where "bf_lifetime (plan_buffer_at p (st_output (cp_steps p ! k))) = Some (k, last)" "k \<le> last"
proof -
  have "st_output (cp_steps p ! k) < length (cp_buffers p)" "storage_at p (st_output (cp_steps p ! k)) = ArenaStorage"
    using legal_step [OF assms] by (simp_all add: plan_step_legal_def Let_def)
  from legal_lifetime [OF assms(1) this] obtain made last where
      "bf_lifetime (plan_buffer_at p (st_output (cp_steps p ! k))) = Some (made, last)" "made < length (cp_steps p)"
      "st_output (cp_steps p ! made) = st_output (cp_steps p ! k)" "made \<le> last"
    by (auto simp: lifetime_legal_def)
  then show ?thesis using unique_producer [OF assms(1)] assms(2) that by metis
qed

lemma read_live:
  assumes "plan_legal F p" and "k < length (cp_steps p)" and "i \<in> set (st_inputs (cp_steps p ! k))"
  shows "live_at p k i"
proof -
  have r: "readable p k i" using legal_step [OF assms(1,2)] assms(3) by (simp add: plan_step_legal_def Let_def)
  show ?thesis
  proof (cases "storage_at p i = ArenaStorage")
    case True
    then obtain j where j: "j < k" "j < length (cp_steps p)" "st_output (cp_steps p ! j) = i" "i < length (cp_buffers p)"
      using r by (auto simp: readable_def)
    obtain made last where m: "bf_lifetime (plan_buffer_at p i) = Some (made, last)" "made < length (cp_steps p)"
        "st_output (cp_steps p ! made) = i" "\<forall>j < length (cp_steps p). i \<in> set (st_inputs (cp_steps p ! j)) \<longrightarrow> j \<le> last"
      using legal_lifetime [OF assms(1) j(4) True] by (auto simp: lifetime_legal_def)
    have "made = j" using unique_producer [OF assms(1) m(2) j(2)] m(3) j(3) by simp
    then show ?thesis using m assms(2,3) j by (simp add: live_at_def)
  qed (use r in \<open>simp add: live_at_def readable_def\<close>)
qed

lemma result_live:
  assumes "plan_legal F p" and "i \<in> set (plan_results p)"
  shows "live_at p (length (cp_steps p)) i"
proof -
  have r: "readable p (length (cp_steps p)) i" using assms by (simp add: plan_legal_def)
  show ?thesis
  proof (cases "storage_at p i = ArenaStorage")
    case True
    have i: "i < length (cp_buffers p)" using r by (simp add: readable_def)
    obtain made last where m: "bf_lifetime (plan_buffer_at p i) = Some (made, last)" "made < length (cp_steps p)" "last = length (cp_steps p)"
      using legal_lifetime [OF assms(1) i True] assms(2) by (auto simp: lifetime_legal_def)
    then show ?thesis using i by (simp add: live_at_def)
  qed (use r in \<open>simp add: live_at_def readable_def\<close>)
qed

lemma live_together_sym: "live_together b c \<longleftrightarrow> live_together c b"
  by (auto simp: live_together_def)

lemma bytes_overlap_sym: "bytes_overlap b c \<longleftrightarrow> bytes_overlap c b"
  by (auto simp: bytes_overlap_def)

lemma live_disjoint:
  assumes "plan_legal F p" and "i < length (cp_buffers p)" and "j < length (cp_buffers p)" and "i \<noteq> j"
    and "storage_at p i = ArenaStorage" and "storage_at p j = ArenaStorage"
    and "live_together (plan_buffer_at p i) (plan_buffer_at p j)"
  shows "cells_of p i \<inter> cells_of p j = {}"
proof -
  have all: "\<forall>i < length (cp_buffers p). \<forall>j < i. live_together (plan_buffer_at p i) (plan_buffer_at p j) \<longrightarrow>
      \<not> bytes_overlap (plan_buffer_at p i) (plan_buffer_at p j)"
    using assms(1) unfolding plan_legal_def by (elim conjE)
  have no: "\<not> bytes_overlap (plan_buffer_at p i) (plan_buffer_at p j)"
  proof (cases "j < i")
    case True
    then show ?thesis using all assms by blast
  next
    case False
    then have "i < j" using assms(4) by simp
    then show ?thesis using all assms(3,7) live_together_sym bytes_overlap_sym by blast
  qed
  obtain x where x: "bf_offset (plan_buffer_at p i) = Some x" "64 dvd x" using legal_arena [OF assms(1,2,5)] by metis
  obtain y where y: "bf_offset (plan_buffer_at p j) = Some y" "64 dvd y" using legal_arena [OF assms(1,3,6)] by metis
  obtain x' y' where "x = 64 * x'" "y = 64 * y'" using x(2) y(2) by (auto elim!: dvdE)
  then show ?thesis using no x(1) y(1) by (auto simp: bytes_overlap_def cells_of_def)
qed

text \<open>What is live before a step is outside of what the step writes.\<close>

lemma live_outside:
  assumes "plan_legal F p" and "k < length (cp_steps p)" and "live_at p k i" and "storage_at p i = ArenaStorage"
  shows "i \<noteq> st_output (cp_steps p ! k)" and "cells_of p i \<inter> cells_of p (st_output (cp_steps p ! k)) = {}"
proof -
  obtain last where o: "bf_lifetime (plan_buffer_at p (st_output (cp_steps p ! k))) = Some (k, last)" "k \<le> last"
    using output_lifetime [OF assms(1,2)] .
  obtain made until where i: "bf_lifetime (plan_buffer_at p i) = Some (made, until)" "made < k" "k \<le> until"
    using assms(3,4) by (auto simp: live_at_def)
  show ne: "i \<noteq> st_output (cp_steps p ! k)" using o i by auto
  have "st_output (cp_steps p ! k) < length (cp_buffers p)" "storage_at p (st_output (cp_steps p ! k)) = ArenaStorage"
    using legal_step [OF assms(1,2)] by (simp_all add: plan_step_legal_def Let_def)
  moreover have "live_together (plan_buffer_at p i) (plan_buffer_at p (st_output (cp_steps p ! k)))"
    using o i by (simp add: live_together_def)
  moreover have "i < length (cp_buffers p)" using assms(3) by (simp add: live_at_def)
  ultimately show "cells_of p i \<inter> cells_of p (st_output (cp_steps p ! k)) = {}"
    using live_disjoint [OF assms(1)] ne assms(4) by blast
qed

lemma holds_frame:
  assumes "holds ex inputs env i" and "ex_plan ex = p" and "i < length (cp_buffers p)"
    and "storage_at p i = ArenaStorage \<longrightarrow> (\<forall>j \<in> cells_of p i. arena_get a j = arena_get (ex_arena ex) j)"
  shows "holds (ex\<lparr>ex_arena := a\<rparr>) inputs env i"
proof -
  have "exec_get (ex\<lparr>ex_arena := a\<rparr>) inputs i q = exec_get ex inputs i q" if "q < buffer_size (plan_buffer_at p i)" for q
    using assms(2-) that
    by (cases "storage_at p i"; cases "bf_offset (plan_buffer_at p i)") (auto simp: exec_get_def index_at_def cells_of_def)
  then show ?thesis using assms(1,2) by (simp add: holds_def)
qed

end
