(* ===== verification/Plan_Refine.thy ===== *)
theory Plan_Refine
  imports Plan_Run
begin

text \<open>
  The simulation: one step of the executor against one step of the reference evaluation, then a whole
  invocation with its report and its commit of the state.
\<close>

section \<open>Writing loops of the executor\<close>

lemma each_write:
  assumes "fold_out (\<lambda>x a. and_then (calc x (ex\<lparr>ex_arena := a\<rparr>)) (arena_set a (pos x))) xs (ex_arena ex) = Ok b"
  shows "each_op (\<lambda>x ex. try_op (calc x ex) (write_arena (pos x)) ex) xs ex = (Ok (), ex\<lparr>ex_arena := b\<rparr>)"
  using assms
proof (induction xs arbitrary: ex)
  case (Cons x xs)
  then obtain v a where v: "calc x ex = Ok v" "arena_set (ex_arena ex) (pos x) v = Ok a"
      "fold_out (\<lambda>x a. and_then (calc x (ex\<lparr>ex_arena := a\<rparr>)) (arena_set a (pos x))) xs a = Ok b"
    by (auto simp: outcome_simps)
  have "each_op (\<lambda>x ex. try_op (calc x ex) (write_arena (pos x)) ex) xs (ex\<lparr>ex_arena := a\<rparr>) = (Ok (), ex\<lparr>ex_arena := b\<rparr>)"
    using Cons.IH [of "ex\<lparr>ex_arena := a\<rparr>"] v(3) by simp
  moreover have "write_arena (pos x) v ex = (Ok (), ex\<lparr>ex_arena := a\<rparr>)" by (simp add: write_arena_def v(2))
  ultimately show ?case using v(1) by simp
qed simp

lemma each_op_map: "each_op f (map g xs) = each_op (f \<circ> g) xs"
proof (rule ext)
  show "each_op f (map g xs) s = each_op (f \<circ> g) xs s" for s
    by (induction xs arbitrary: s) (auto simp: bind_op_def split: prod.splits outcome.splits)
qed

lemma each_op_append: "each_op f (xs @ ys) s = bind_op (each_op f xs) (\<lambda>_. each_op f ys) s"
  by (induction xs arbitrary: s) (auto simp: bind_op_def split: prod.splits outcome.splits)

lemma each_op_concat: "each_op (\<lambda>x. each_op g (h x)) xs = each_op g (concat (map h xs))"
proof (rule ext)
  show "each_op (\<lambda>x. each_op g (h x)) xs s = each_op g (concat (map h xs)) s" for s
    by (induction xs arbitrary: s) (auto simp: each_op_append bind_op_def split: prod.splits outcome.splits)
qed

lemma each_op_nested: "each_op (\<lambda>x. each_op (g x) (h x)) xs = each_op (\<lambda>(x, y). g x y) (concat (map (\<lambda>x. map (Pair x) (h x)) xs))"
proof -
  have "each_op (\<lambda>(x, y). g x y) (map (Pair x) ys) = each_op (g x) ys" for x ys
    by (simp add: each_op_map comp_def)
  then show ?thesis using each_op_concat [of "\<lambda>(x, y). g x y" "\<lambda>x. map (Pair x) (h x)" xs] by simp
qed

lemma set_step_by: "0 < t \<Longrightarrow> i < n \<Longrightarrow> \<exists>r \<in> set (step_by n t). r \<le> i \<and> i < min (r + t) n"
proof (intro bexI conjI)
  assume t: "0 < t" and i: "i < n"
  show "i div t * t \<le> i" by simp
  show "i < min (i div t * t + t) n" using dividend_less_div_times [OF t, of i] i by (simp add: add.commute)
  show "i div t * t \<in> set (step_by n t)" using div_ceil_covers [OF t i] by (auto simp: step_by_def)
qed

text \<open>The cells of a matrix in the order in which the tiled loops visit them: all of them.\<close>

definition tile_cells :: "nat \<Rightarrow> nat \<Rightarrow> nat \<Rightarrow> nat \<Rightarrow> nat \<Rightarrow> (nat \<times> nat) list" where
  "tile_cells m n tile row col = concat (map (\<lambda>i. map (Pair i) [col..<min (col + tile) n]) [row..<min (row + tile) m])"

definition matrix_cells :: "nat \<Rightarrow> nat \<Rightarrow> nat \<Rightarrow> (nat \<times> nat) list" where
  "matrix_cells m n tile = concat (map (\<lambda>row. concat (map (tile_cells m n tile row) (step_by n tile))) (step_by m tile))"

lemma set_matrix_cells:
  assumes tile: "0 < tile"
  shows "set (matrix_cells m n tile) = {..<m} \<times> {..<n}"
proof (rule equalityI)
  show "set (matrix_cells m n tile) \<subseteq> {..<m} \<times> {..<n}" by (auto simp: matrix_cells_def tile_cells_def)
  show "{..<m} \<times> {..<n} \<subseteq> set (matrix_cells m n tile)"
  proof
    fix c assume "c \<in> {..<m} \<times> {..<n}"
    then obtain i j where c: "c = (i, j)" "i < m" "j < n" by auto
    then obtain row col where "row \<in> set (step_by m tile)" "row \<le> i" "i < min (row + tile) m"
        "col \<in> set (step_by n tile)" "col \<le> j" "j < min (col + tile) n"
      using set_step_by [OF tile, of i m] set_step_by [OF tile, of j n] by auto
    then show "c \<in> set (matrix_cells m n tile)" unfolding c(1) by (force simp: matrix_cells_def tile_cells_def)
  qed
qed

lemma run_matmul_cells:
  "run_matmul F inputs kern a b dst [m, n] k =
     each_op (\<lambda>(i, j) ex. try_op (dot_value F inputs ex a b n k i j) (write_arena (dst + i * n + j)) ex)
       (matrix_cells m n (if kern = MatmulBlockedF32V1 then 16 else 1))"
proof -
  define B where "B = (\<lambda>(i, j) ex. try_op (dot_value F inputs ex a b n k i j) (write_arena (dst + i * n + j)) ex)"
  define tile where "tile = (if kern = MatmulBlockedF32V1 then 16 else 1 :: nat)"
  have inner: "each_op (\<lambda>i. each_op (\<lambda>j ex. try_op (dot_value F inputs ex a b n k i j) (write_arena (dst + i * n + j)) ex) [col..<min (col + tile) n])
      [row..<min (row + tile) m] = each_op B (tile_cells m n tile row col)" for row col
    by (simp add: each_op_nested tile_cells_def B_def)
  show ?thesis unfolding run_matmul_def Let_def tile_def [symmetric] B_def [symmetric]
    by (simp only: nth_Cons_0 nth_Cons_Suc One_nat_def inner each_op_concat matrix_cells_def)
qed

section \<open>Operations\<close>

lemma op_shape_Ok:
  "op_shape op shapes = Ok s \<longleftrightarrow>
     (if op = Matmul then \<exists>m k n. shapes = [[m, k], [k, n]] \<and> s = [m, n] \<and> elements [m, n] = Ok (m * n) \<and> m * n * k \<le> 100000000
      else if op = Relu then shapes = [s] else shapes = [s, s])"
proof (cases "op = Matmul")
  case True
  have "op_shape op [x, y] = Ok s \<longleftrightarrow>
      (\<exists>m k n. [x, y] = [[m, k], [k, n]] \<and> s = [m, n] \<and> elements [m, n] = Ok (m * n) \<and> m * n * k \<le> 100000000)" for x y
  proof (cases "length x = 2 \<and> length y = 2")
    case False
    then show ?thesis using True by (auto simp: op_shape_def outcome_simps)
  next
    case len: True
    then obtain m k k' n where xy: "x = [m, k]" "y = [k', n]"
      by (auto simp: length_Suc_conv numeral_2_eq_2)
    have e: "a = m * n" if "elements [m, n] = Ok a" for a using that by (simp add: elements_Ok)
    have "op_shape op [x, y] = Ok s \<longleftrightarrow> k = k' \<and> s = [m, n] \<and> elements [m, n] = Ok (m * n) \<and> m * n * k \<le> 100000000"
    proof (cases "k = k' \<and> elements [m, n] = Ok (m * n)")
      case True
      then show ?thesis using \<open>op = Matmul\<close>
        by (auto simp: op_shape_def xy reject_def index_at_def checked_mul_def)
    next
      case False
      have "k \<noteq> k' \<or> elements [m, n] \<noteq> Ok a" for a using False e by blast
      then show ?thesis using \<open>op = Matmul\<close> False
        by (cases "k = k'"; cases "elements [m, n]") (auto simp: op_shape_def xy reject_def index_at_def)
    qed
    then show ?thesis by (auto simp: xy)
  qed
  moreover have "op_shape op shapes = Ok s \<Longrightarrow> length shapes = 2" using True by (auto simp: op_shape_def outcome_simps)
  moreover have "length shapes = 2 \<Longrightarrow> \<exists>x y. shapes = [x, y]" by (auto simp: length_Suc_conv numeral_2_eq_2)
  ultimately show ?thesis using True by (metis (no_types, lifting) length_Cons list.size(3) numeral_2_eq_2)
next
  case False
  then show ?thesis
    by (cases op) (auto simp: op_shape_def outcome_simps length_Suc_conv numeral_2_eq_2)
qed

lemma length_eval_op:
  assumes "op_shape op shapes = Ok s" and "list_all2 (\<lambda>v sh. length v = prod_list sh) vals shapes"
  shows "length (eval_op F op shapes vals) = prod_list s"
  using assms by (cases op) (auto simp: op_shape_Ok eval_op_def Let_def list_all2_Cons2)

section \<open>One step\<close>

definition framed :: "'f cpu_plan \<Rightarrow> nat \<Rightarrow> 'f executor \<Rightarrow> 'f arena \<Rightarrow> bool" where
  "framed p k ex a \<longleftrightarrow> arena_wf (cp_arena_bytes p div 64) a \<and>
     (\<forall>j. j \<notin> cells_of p (st_output (cp_steps p ! k)) \<longrightarrow> arena_get a j = arena_get (ex_arena ex) j)"

definition exec_inv :: "'f cpu_plan \<Rightarrow> 'f inputs \<Rightarrow> nat \<Rightarrow> 'f env \<Rightarrow> 'f executor \<Rightarrow> bool" where
  "exec_inv p inputs k env ex \<longleftrightarrow> ex_plan ex = p \<and> arena_wf (cp_arena_bytes p div 64) (ex_arena ex) \<and>
     (\<forall>i. live_at p k i \<longrightarrow> holds ex inputs env i)"

lemma live_framed:
  assumes "plan_legal F p" and "k < length (cp_steps p)" and "exec_inv p inputs k env ex" and "framed p k ex a" and "live_at p k i"
  shows "holds (ex\<lparr>ex_arena := a\<rparr>) inputs env i"
proof (rule holds_frame)
  show "holds ex inputs env i" "ex_plan ex = p" "i < length (cp_buffers p)" using assms(3,5) by (simp_all add: exec_inv_def live_at_def)
  show "storage_at p i = ArenaStorage \<longrightarrow> (\<forall>j \<in> cells_of p i. arena_get a j = arena_get (ex_arena ex) j)"
    using live_outside(2) [OF assms(1,2,5)] assms(4) by (auto simp: framed_def)
qed

lemma read_framed:
  assumes "plan_legal F p" and "k < length (cp_steps p)" and "exec_inv p inputs k env ex" and "framed p k ex a"
    and "i \<in> set (st_inputs (cp_steps p ! k))" and "q < prod_list (shape_at p i)"
  shows "exec_get (ex\<lparr>ex_arena := a\<rparr>) inputs i q = Ok (env i ! q)"
  using live_framed [OF assms(1-4) read_live [OF assms(1,2,5)]] assms(3,6) by (simp add: holds_def buffer_size_def exec_inv_def)

lemma framed_refl: "exec_inv p inputs k env ex \<Longrightarrow> framed p k ex (ex_arena ex)"
  by (simp add: exec_inv_def framed_def)

lemma store_loop:
  assumes legal: "plan_legal F p" and k: "k < length (cp_steps p)" and inv: "exec_inv p inputs k env ex"
    and o: "bf_offset (plan_buffer_at p (st_output (cp_steps p ! k))) = Some offset"
    and pos: "\<forall>x \<in> set xs. pos x < prod_list (shape_at p (st_output (cp_steps p ! k)))"
    and same: "\<And>x y. x \<in> set xs \<Longrightarrow> y \<in> set xs \<Longrightarrow> pos x = pos y \<Longrightarrow> v x = v y"
    and calc: "\<And>x a. x \<in> set xs \<Longrightarrow> framed p k ex a \<Longrightarrow> calc x (ex\<lparr>ex_arena := a\<rparr>) = Ok (v x)"
  shows "\<exists>a. each_op (\<lambda>x ex. try_op (calc x ex) (write_arena (offset div 4 + pos x)) ex) xs ex = (Ok (), ex\<lparr>ex_arena := a\<rparr>) \<and>
    framed p k ex a \<and> (\<forall>x \<in> set xs. arena_get a (offset div 4 + pos x) = Ok (v x))"
proof -
  define out where "out = st_output (cp_steps p ! k)"
  have out: "out < length (cp_buffers p)" "storage_at p out = ArenaStorage"
    using legal_step [OF legal k] by (simp_all add: plan_step_legal_def Let_def out_def)
  have cells: "cells_of p out = {offset div 4 ..< offset div 4 + prod_list (shape_at p out)}"
    using o by (simp add: cells_of_def out_def buffer_size_def)
  have room: "offset div 4 + prod_list (shape_at p out) \<le> 16 * (cp_arena_bytes p div 64)"
    using legal_arena [OF legal out] o by (metis buffer_size_def option.inject out_def)
  have within: "offset div 4 + pos x \<in> cells_of p out" if "x \<in> set xs" for x using pos that cells by (auto simp: out_def)
  have "\<exists>b. fold_out (\<lambda>x a. and_then (calc x (ex\<lparr>ex_arena := a\<rparr>)) (arena_set a (offset div 4 + pos x))) xs (ex_arena ex) = Ok b \<and>
      arena_wf (cp_arena_bytes p div 64) b \<and> (\<forall>x \<in> set xs. arena_get b (offset div 4 + pos x) = Ok (v x)) \<and>
      (\<forall>j. j \<notin> (\<lambda>x. offset div 4 + pos x) ` set xs \<longrightarrow> arena_get b j = arena_get (ex_arena ex) j)"
  proof (rule arena.put_loop)
    show "arena_wf (cp_arena_bytes p div 64) (ex_arena ex)" using inv by (simp add: exec_inv_def)
    show "\<forall>x \<in> set xs. offset div 4 + pos x < 16 * (cp_arena_bytes p div 64)" 
    proof
      fix x assume "x \<in> set xs"
      then have "pos x < prod_list (shape_at p out)" using pos by (simp add: out_def)
      then show "offset div 4 + pos x < 16 * (cp_arena_bytes p div 64)" using room by linarith
    qed
    show "v x = v y" if "x \<in> set xs" "y \<in> set xs" "offset div 4 + pos x = offset div 4 + pos y" for x y
      by (rule same) (use that in simp_all)
    fix x a assume "x \<in> set xs" "arena_wf (cp_arena_bytes p div 64) a"
      "\<forall>j. j \<notin> (\<lambda>x. offset div 4 + pos x) ` set xs \<longrightarrow> arena_get a j = arena_get (ex_arena ex) j"
    moreover have "(\<lambda>x. offset div 4 + pos x) ` set xs \<subseteq> cells_of p out" using within by blast
    ultimately show "calc x (ex\<lparr>ex_arena := a\<rparr>) = Ok (v x)" by (intro calc) (auto simp: framed_def out_def)
  qed
  then obtain b where b: "fold_out (\<lambda>x a. and_then (calc x (ex\<lparr>ex_arena := a\<rparr>)) (arena_set a (offset div 4 + pos x))) xs (ex_arena ex) = Ok b"
      "arena_wf (cp_arena_bytes p div 64) b" "\<forall>x \<in> set xs. arena_get b (offset div 4 + pos x) = Ok (v x)"
      "\<forall>j. j \<notin> (\<lambda>x. offset div 4 + pos x) ` set xs \<longrightarrow> arena_get b j = arena_get (ex_arena ex) j" by blast
  have "(\<lambda>x. offset div 4 + pos x) ` set xs \<subseteq> cells_of p out" using within by blast
  then have "framed p k ex b" using b(2,4) unfolding framed_def out_def by blast
  then show ?thesis using each_write [OF b(1)] b(3) by blast
qed

lemma cell_within: "i < m \<Longrightarrow> j < n \<Longrightarrow> i * n + j < m * (n :: nat)"
proof -
  assume "i < m" and "j < n"
  then have "i * n + j < (i + 1) * n" by simp
  also have "\<dots> \<le> m * n" using \<open>i < m\<close> by (intro mult_le_mono1) simp
  finally show ?thesis .
qed

lemma fold_out_fold: "(\<And>x acc. x \<in> set xs \<Longrightarrow> f x acc = Ok (g x acc)) \<Longrightarrow> fold_out f xs acc = Ok (fold g xs acc)"
  by (induction xs arbitrary: acc) auto

text \<open>The kernel of a step computes the value of its operation.\<close>

lemma run_kernel_value:
  assumes legal: "plan_legal F p" and k: "k < length (cp_steps p)" and inv: "exec_inv p inputs k env ex"
    and o: "bf_offset (plan_buffer_at p (st_output (cp_steps p ! k))) = Some offset"
  defines "t \<equiv> cp_steps p ! k"
  shows "\<exists>a. run_kernel F inputs t (st_inputs t ! 0) (get_at (st_inputs t) 1) (offset div 4) (prod_list (shape_at p (st_output t))) ex = (Ok (), ex\<lparr>ex_arena := a\<rparr>) \<and>
    framed p k ex a \<and> (\<forall>q < prod_list (shape_at p (st_output t)).
      arena_get a (offset div 4 + q) = Ok (eval_op F (kernel_op (st_kernel t)) (map (shape_at p) (st_inputs t)) (map env (st_inputs t)) ! q))"
proof -
  define out where "out = eval_op F (kernel_op (st_kernel t)) (map (shape_at p) (st_inputs t)) (map env (st_inputs t))"
  have plan: "ex_plan ex = p" using inv by (simp add: exec_inv_def)
  have bound: "st_output t < length (cp_buffers p)" "\<forall>i \<in> set (st_inputs t). i < length (cp_buffers p)"
    using legal_step [OF legal k] by (auto simp: plan_step_legal_def Let_def t_def readable_def)
  have shape: "op_shape (kernel_op (st_kernel t)) (map (shape_at p) (st_inputs t)) = Ok (shape_at p (st_output t))"
    using legal_step [OF legal k] by (simp add: plan_step_legal_def Let_def t_def)
  have len: "length (env i) = prod_list (shape_at p i)" if "i \<in> set (st_inputs t)" for i
    using inv read_live [OF legal k] that by (auto simp: exec_inv_def holds_def t_def buffer_size_def)
  note read = read_framed [OF legal k inv, folded t_def]
  show ?thesis
  proof (cases "kernel_op (st_kernel t) = Matmul")
    case False
    have ins: "st_inputs t \<noteq> []" "shape_at p (st_inputs t ! 0) = shape_at p (st_output t)"
        "kernel_op (st_kernel t) \<noteq> Relu \<Longrightarrow> length (st_inputs t) = 2 \<and> shape_at p (st_inputs t ! 1) = shape_at p (st_output t)"
      using shape False by (auto simp: op_shape_Ok length_Suc_conv map_eq_Cons_conv split: if_splits)
    have vals: "elementwise_value F inputs (ex\<lparr>ex_arena := a\<rparr>) (st_kernel t) (st_inputs t ! 0) (get_at (st_inputs t) 1) q = Ok (out ! q)"
      if q: "q < prod_list (shape_at p (st_output t))" and a: "framed p k ex a" for q a
    proof -
      have x: "exec_get (ex\<lparr>ex_arena := a\<rparr>) inputs (st_inputs t ! 0) q = Ok (env (st_inputs t ! 0) ! q)" "length (env (st_inputs t ! 0)) = prod_list (shape_at p (st_output t))"
        using read [OF a, of "st_inputs t ! 0" q] len [of "st_inputs t ! 0"] ins(1,2) q by simp_all
      show ?thesis
      proof (cases "kernel_op (st_kernel t) = Relu")
        case True
        then show ?thesis using x q ins(1) by (cases "st_kernel t") (simp_all add: elementwise_value_def out_def eval_op_def)
      next
        case no: False
        then have two: "st_inputs t ! 1 \<in> set (st_inputs t)" "get_at (st_inputs t) 1 = Some (st_inputs t ! 1)" "shape_at p (st_inputs t ! 1) = shape_at p (st_output t)"
          "length (st_inputs t) = 2"
          using ins(3) by (simp_all add: get_at_def)
        then have y: "exec_get (ex\<lparr>ex_arena := a\<rparr>) inputs (st_inputs t ! 1) q = Ok (env (st_inputs t ! 1) ! q)" "length (env (st_inputs t ! 1)) = prod_list (shape_at p (st_output t))"
          using read [OF a two(1), of q] len [OF two(1)] q by simp_all
        show ?thesis using False no x y q two(2,4)
          by (cases "st_kernel t") (simp_all add: elementwise_value_def out_def eval_op_def)
      qed
    qed
    show ?thesis
      using store_loop [OF legal k inv o, of "[0..<prod_list (shape_at p (st_output t))]" "\<lambda>q. q" "\<lambda>q. out ! q"
          "\<lambda>q ex. elementwise_value F inputs ex (st_kernel t) (st_inputs t ! 0) (get_at (st_inputs t) 1) q"] vals False
      by (auto simp: run_kernel_def run_elementwise_def t_def out_def)
  next
    case True
    then obtain m kk n where dims: "map (shape_at p) (st_inputs t) = [[m, kk], [kk, n]]" "shape_at p (st_output t) = [m, n]" "elements [m, n] = Ok (m * n)"
      using shape by (auto simp: op_shape_Ok)
    then have ins: "length (st_inputs t) = 2" "shape_at p (st_inputs t ! 0) = [m, kk]" "shape_at p (st_inputs t ! 1) = [kk, n]"
      by (auto simp: map_eq_Cons_conv)
    have npos: "0 < n" using dims(3) by (auto simp: elements_Ok)
    have members: "st_inputs t ! 0 \<in> set (st_inputs t)" "st_inputs t ! 1 \<in> set (st_inputs t)" using ins(1) by simp_all
    define x where "x = env (st_inputs t ! 0)"
    define y where "y = env (st_inputs t ! 1)"
    define tile where "tile = (if st_kernel t = MatmulBlockedF32V1 then 16 else 1 :: nat)"
    have out: "out ! (i * n + j) = dot F x y n kk i j" if "i < m" "j < n" for i j
    proof -
      have "i * n + j < m * n" using that by (rule cell_within)
      then show ?thesis using that True ins by (simp add: out_def eval_op_def dims(1) x_def y_def)
    qed
    have dots: "dot_value F inputs (ex\<lparr>ex_arena := a\<rparr>) (st_inputs t ! 0) (get_at (st_inputs t) 1) n kk i j = Ok (dot F x y n kk i j)"
      if "i < m" "j < n" and a: "framed p k ex a" for i j a
    proof -
      have "exec_get (ex\<lparr>ex_arena := a\<rparr>) inputs (st_inputs t ! 0) (i * kk + z) = Ok (x ! (i * kk + z))"
           "exec_get (ex\<lparr>ex_arena := a\<rparr>) inputs (st_inputs t ! 1) (z * n + j) = Ok (y ! (z * n + j))" if "z < kk" for z
        using read [OF a members(1)] read [OF a members(2)] \<open>i < m\<close> \<open>j < n\<close> that
        by (simp_all add: ins ins(3) [simplified] x_def y_def cell_within)
      then show ?thesis unfolding dot_value_def dot_def
        by (intro fold_out_fold) (simp add: get_at_def ins(1))
    qed
    have pos: "tile > 0" by (simp add: tile_def)
    have loop: "run_kernel F inputs t (st_inputs t ! 0) (get_at (st_inputs t) 1) (offset div 4) (prod_list (shape_at p (st_output t))) ex =
        each_op (\<lambda>c ex. try_op (dot_value F inputs ex (st_inputs t ! 0) (get_at (st_inputs t) 1) n kk (fst c) (snd c))
          (write_arena (offset div 4 + (fst c * n + snd c))) ex) (matrix_cells m n tile) ex"
      using True bound members ins dims(2) plan
      by (simp add: run_kernel_def buffer_shape_def index_at_def run_matmul_cells tile_def case_prod_unfold add.assoc)
    have "\<exists>a. each_op (\<lambda>c ex. try_op (dot_value F inputs ex (st_inputs t ! 0) (get_at (st_inputs t) 1) n kk (fst c) (snd c))
          (write_arena (offset div 4 + (fst c * n + snd c))) ex) (matrix_cells m n tile) ex = (Ok (), ex\<lparr>ex_arena := a\<rparr>) \<and>
        framed p k ex a \<and> (\<forall>c \<in> set (matrix_cells m n tile). arena_get a (offset div 4 + (fst c * n + snd c)) = Ok (dot F x y n kk (fst c) (snd c)))"
    proof (rule store_loop [OF legal k inv o])
      show "\<forall>c \<in> set (matrix_cells m n tile). fst c * n + snd c < prod_list (shape_at p (st_output (cp_steps p ! k)))"
        using dims(2) by (auto simp: set_matrix_cells [OF pos] t_def cell_within)
      show "dot F x y n kk (fst c) (snd c) = dot F x y n kk (fst d) (snd d)"
        if "c \<in> set (matrix_cells m n tile)" "d \<in> set (matrix_cells m n tile)" "fst c * n + snd c = fst d * n + snd d" for c d
      proof -
        have "snd c < n" "snd d < n" using that(1,2) by (auto simp: set_matrix_cells [OF pos])
        then have "fst c = (fst c * n + snd c) div n" "fst d = (fst d * n + snd d) div n"
          "snd c = (fst c * n + snd c) mod n" "snd d = (fst d * n + snd d) mod n" using npos by simp_all
        then show ?thesis using that(3) by metis
      qed
      show "dot_value F inputs (ex\<lparr>ex_arena := a\<rparr>) (st_inputs t ! 0) (get_at (st_inputs t) 1) n kk (fst c) (snd c) = Ok (dot F x y n kk (fst c) (snd c))"
        if "c \<in> set (matrix_cells m n tile)" "framed p k ex a" for c a
        using that dots by (auto simp: set_matrix_cells [OF pos])
    qed
    then obtain a where a: "run_kernel F inputs t (st_inputs t ! 0) (get_at (st_inputs t) 1) (offset div 4) (prod_list (shape_at p (st_output t))) ex = (Ok (), ex\<lparr>ex_arena := a\<rparr>)"
        "framed p k ex a" "\<forall>c \<in> set (matrix_cells m n tile). arena_get a (offset div 4 + (fst c * n + snd c)) = Ok (dot F x y n kk (fst c) (snd c))"
      unfolding loop by blast
    have "arena_get a (offset div 4 + q) = Ok (out ! q)" if q: "q < prod_list (shape_at p (st_output t))" for q
    proof -
      have "q div n < m" "q mod n < n" using q npos dims(2) by (simp_all add: less_mult_imp_div_less)
      then show ?thesis using a(3) out [of "q div n" "q mod n"] by (force simp: set_matrix_cells [OF pos])
    qed
    then show ?thesis using a(1,2) unfolding out_def by blast
  qed
qed

lemma inv_after_step:
  assumes legal: "plan_legal F p" and k: "k < length (cp_steps p)" and inv: "exec_inv p inputs k env ex" and a: "framed p k ex a"
    and o: "bf_offset (plan_buffer_at p (st_output (cp_steps p ! k))) = Some offset"
    and len: "length out = prod_list (shape_at p (st_output (cp_steps p ! k)))"
    and vals: "\<forall>q < length out. arena_get a (offset div 4 + q) = Ok (out ! q)"
  shows "exec_inv p inputs (Suc k) (env(st_output (cp_steps p ! k) := out)) (ex\<lparr>ex_arena := a\<rparr>)"
proof -
  define target where "target = st_output (cp_steps p ! k)"
  have plan: "ex_plan ex = p" using inv by (simp add: exec_inv_def)
  have target: "target < length (cp_buffers p)" "storage_at p target = ArenaStorage"
    using legal_step [OF legal k] by (simp_all add: plan_step_legal_def Let_def target_def)
  have "holds (ex\<lparr>ex_arena := a\<rparr>) inputs (env(target := out)) i" if live: "live_at p (Suc k) i" for i
  proof (cases "i = target")
    case True
    then show ?thesis using target o len vals plan
      by (simp add: holds_def exec_get_def index_at_def buffer_size_def target_def [symmetric])
  next
    case False
    have "live_at p k i"
    proof (cases "storage_at p i = ArenaStorage")
      case True
      have i: "i < length (cp_buffers p)" using live by (simp add: live_at_def)
      obtain made last where m: "bf_lifetime (plan_buffer_at p i) = Some (made, last)" "made < Suc k" "Suc k \<le> last"
        using live True by (auto simp: live_at_def)
      have "st_output (cp_steps p ! made) = i" using legal_lifetime [OF legal i True] m(1) by (auto simp: lifetime_legal_def)
      then have "made \<noteq> k" using False target_def by auto
      then show ?thesis using m i by (auto simp: live_at_def)
    qed (use live in \<open>simp add: live_at_def\<close>)
    from live_framed [OF legal k inv a this] False show ?thesis by (simp add: holds_def)
  qed
  then show ?thesis using plan a by (simp add: exec_inv_def framed_def target_def)
qed

lemma collect_map: "(\<And>x. x \<in> set xs \<Longrightarrow> f x = Ok (g x)) \<Longrightarrow> collect f xs = Ok (map g xs)"
  by (induction xs) auto

lemma exec_collect_holds:
  assumes "holds ex inputs env i" and "ex_plan ex = p" and "plan_legal F p" and "i < length (cp_buffers p)"
  shows "exec_collect ex inputs i = Ok (env i)"
proof -
  have "collect (exec_get ex inputs i) [0..<buffer_size (plan_buffer_at p i)] = Ok (map ((!) (env i)) [0..<buffer_size (plan_buffer_at p i)])"
    using assms(1,2) by (intro collect_map) (simp add: holds_def)
  moreover have "map ((!) (env i)) [0..<buffer_size (plan_buffer_at p i)] = env i"
    using assms(1,2) map_nth [of "env i"] by (simp add: holds_def)
  moreover have "elements (shape_at p i) = Ok (buffer_size (plan_buffer_at p i))"
    using buffer_legal_size [OF legal_buffer [OF assms(3,4)]] .
  ultimately show ?thesis using assms(2,4) by (simp add: exec_collect_def buffer_shape_def index_at_def)
qed

lemma run_implementation_value:
  assumes legal: "plan_legal F p" and k: "k < length (cp_steps p)" and inv: "exec_inv p inputs k env ex"
    and o: "bf_offset (plan_buffer_at p (st_output (cp_steps p ! k))) = Some offset"
  defines "t \<equiv> cp_steps p ! k"
  defines "n \<equiv> prod_list (shape_at p (st_output t))"
  shows "case and_then (ki_execute impl (map (shape_at p) (st_inputs t)) (map env (st_inputs t)) (shape_at p (st_output t))) (\<lambda>out.
            and_then (reject (length out \<noteq> n \<or> (\<exists>x \<in> set out. \<not> fl_finite F x))
              (invalid ''compiled implementation output contract violation; state not committed'')) (\<lambda>_. Ok out)) of
      Ok out \<Rightarrow> length out = n \<and> (\<exists>a. run_implementation F inputs t (offset div 4) n impl ex = (Ok (), ex\<lparr>ex_arena := a\<rparr>) \<and>
        framed p k ex a \<and> (\<forall>q < n. arena_get a (offset div 4 + q) = Ok (out ! q)))
    | Err e \<Rightarrow> run_implementation F inputs t (offset div 4) n impl ex = (Err e, ex)
    | Panic \<Rightarrow> run_implementation F inputs t (offset div 4) n impl ex = (Panic, ex)"
proof -
  have plan: "ex_plan ex = p" using inv by (simp add: exec_inv_def)
  have bound: "st_output t < length (cp_buffers p)" "\<And>i. i \<in> set (st_inputs t) \<Longrightarrow> i < length (cp_buffers p)"
    using legal_step [OF legal k] by (auto simp: plan_step_legal_def Let_def t_def readable_def)
  have shapes: "collect (buffer_shape ex) (st_inputs t) = Ok (map (shape_at p) (st_inputs t))"
    using bound(2) plan by (intro collect_map) (simp add: buffer_shape_def index_at_def)
  have vals: "collect (exec_collect ex inputs) (st_inputs t) = Ok (map env (st_inputs t))"
    using inv read_live [OF legal k] bound(2) plan
    by (intro collect_map exec_collect_holds [OF _ plan legal]) (auto simp: exec_inv_def t_def)
  define r where "r = and_then (ki_execute impl (map (shape_at p) (st_inputs t)) (map env (st_inputs t)) (shape_at p (st_output t))) (\<lambda>out.
            and_then (reject (length out \<noteq> n \<or> (\<exists>x \<in> set out. \<not> fl_finite F x))
              (invalid ''compiled implementation output contract violation; state not committed'')) (\<lambda>_. Ok out))"
  have run: "run_implementation F inputs t (offset div 4) n impl ex =
      try_op r (\<lambda>out. each_op (\<lambda>(i, x). write_arena (offset div 4 + i) x) (zip [0..<length out] out)) ex"
    using bound(1) plan by (simp add: run_implementation_def shapes vals buffer_shape_def index_at_def r_def)
  show ?thesis unfolding r_def [symmetric]
  proof (cases r)
    case (Ok out)
    then have len: "length out = n" by (auto simp: r_def outcome_simps)
    have e: "(\<lambda>(i, x). write_arena (offset div 4 + i) x) = (\<lambda>c ex. try_op (Ok (snd c)) (write_arena (offset div 4 + fst c)) (ex :: 'a executor))"
      by (auto simp: fun_eq_iff)
    have members: "c \<in> set (zip [0..<length out] out) \<longleftrightarrow> fst c < n \<and> snd c = out ! fst c" for c
      unfolding len [symmetric] by (rule in_set_enum)
    have "\<exists>a. each_op (\<lambda>c ex. try_op (Ok (snd c)) (write_arena (offset div 4 + fst c)) ex) (zip [0..<length out] out) ex = (Ok (), ex\<lparr>ex_arena := a\<rparr>) \<and>
        framed p k ex a \<and> (\<forall>c \<in> set (zip [0..<length out] out). arena_get a (offset div 4 + fst c) = Ok (snd c))"
      by (rule store_loop [OF legal k inv o]) (auto simp: members n_def t_def)
    then obtain a where a: "each_op (\<lambda>c ex. try_op (Ok (snd c)) (write_arena (offset div 4 + fst c)) ex) (zip [0..<length out] out) ex = (Ok (), ex\<lparr>ex_arena := a\<rparr>)"
        "framed p k ex a" "\<forall>c \<in> set (zip [0..<length out] out). arena_get a (offset div 4 + fst c) = Ok (snd c)" by blast
    have "arena_get a (offset div 4 + q) = Ok (out ! q)" if "q < n" for q using a(3) members [of "(q, out ! q)"] that by fastforce
    then show "case r of Ok out \<Rightarrow> length out = n \<and> (\<exists>a. run_implementation F inputs t (offset div 4) n impl ex = (Ok (), ex\<lparr>ex_arena := a\<rparr>) \<and>
        framed p k ex a \<and> (\<forall>q < n. arena_get a (offset div 4 + q) = Ok (out ! q)))
      | Err e \<Rightarrow> run_implementation F inputs t (offset div 4) n impl ex = (Err e, ex)
      | Panic \<Rightarrow> run_implementation F inputs t (offset div 4) n impl ex = (Panic, ex)"
      using Ok len a(1,2) by (auto simp: run e)
  qed (simp_all add: run)
qed

text \<open>The executor after a failed step: only the arena differs.\<close>

definition arena_only :: "'f cpu_plan \<Rightarrow> 'f executor \<Rightarrow> 'f executor \<Rightarrow> bool" where
  "arena_only p ex ex' \<longleftrightarrow> (\<exists>a. ex' = ex\<lparr>ex_arena := a\<rparr> \<and> arena_wf (cp_arena_bytes p div 64) a)"

lemma arena_only_trans: "arena_only p ex ex1 \<Longrightarrow> arena_only p ex1 ex2 \<Longrightarrow> arena_only p ex ex2"
  by (auto simp: arena_only_def)

lemma step_simulates:
  assumes legal: "plan_legal F p" and k: "k < length (cp_steps p)" and inv: "exec_inv p inputs k env ex"
    and impls: "map_of (ex_implementations ex) = impls"
  defines "t \<equiv> cp_steps p ! k"
  shows "\<exists>ex'. arena_only p ex ex' \<and> (case eval_step F p impls t env of
      Ok env' \<Rightarrow> run_plan_step F inputs t ex = (Ok (), ex') \<and> exec_inv p inputs (Suc k) env' ex'
    | Err e \<Rightarrow> run_plan_step F inputs t ex = (Err e, ex')
    | Panic \<Rightarrow> run_plan_step F inputs t ex = (Panic, ex'))"
proof -
  define n where "n = prod_list (shape_at p (st_output t))"
  have plan: "ex_plan ex = p" "arena_wf (cp_arena_bytes p div 64) (ex_arena ex)" using inv by (simp_all add: exec_inv_def)
  have target: "st_output t < length (cp_buffers p)" "storage_at p (st_output t) = ArenaStorage"
      "op_shape (kernel_op (st_kernel t)) (map (shape_at p) (st_inputs t)) = Ok (shape_at p (st_output t))"
    using legal_step [OF legal k] by (simp_all add: plan_step_legal_def Let_def t_def)
  obtain offset where o: "bf_offset (plan_buffer_at p (st_output t)) = Some offset" using legal_arena [OF legal target(1,2)] by metis
  have ins: "st_inputs t \<noteq> []" using target(3) by (auto simp: op_shape_Ok split: if_splits)
  have size: "elements (shape_at p (st_output t)) = Ok n"
    using buffer_legal_size [OF legal_buffer [OF legal target(1)]] by (simp add: n_def buffer_size_def)
  have run: "run_plan_step F inputs t ex = (case impls (st_name t) of
       Some impl \<Rightarrow> run_implementation F inputs t (offset div 4) n impl ex
     | None \<Rightarrow> bind_op (run_kernel F inputs t (st_inputs t ! 0) (get_at (st_inputs t) 1) (offset div 4) n) (\<lambda>_. check_written F t (offset div 4) n) ex)"
    using plan target(1) o ins size impls by (simp add: run_plan_step_def index_at_def)
  have self: "arena_only p ex ex" using plan(2) by (auto simp: arena_only_def intro: exI [of _ "ex_arena ex"])
  have framed_only: "framed p k ex a \<Longrightarrow> arena_only p ex (ex\<lparr>ex_arena := a\<rparr>)" for a by (auto simp: arena_only_def framed_def)
  show ?thesis
  proof (cases "impls (st_name t)")
    case (Some impl)
    note val = run_implementation_value [OF legal k inv o [unfolded t_def], folded t_def, of impl]
    define r where "r = and_then (ki_execute impl (map (shape_at p) (st_inputs t)) (map env (st_inputs t)) (shape_at p (st_output t))) (\<lambda>out.
            and_then (reject (length out \<noteq> n \<or> (\<exists>x \<in> set out. \<not> fl_finite F x))
              (invalid ''compiled implementation output contract violation; state not committed'')) (\<lambda>_. Ok out))"
    have ev: "eval_step F p impls t env = and_then r (\<lambda>out. Ok (env(st_output t := out)))"
      by (simp add: eval_step_def Some r_def n_def)
    show ?thesis
    proof (cases r)
      case (Ok out)
      then obtain a where a: "run_implementation F inputs t (offset div 4) n impl ex = (Ok (), ex\<lparr>ex_arena := a\<rparr>)" "framed p k ex a"
          "length out = n" "\<forall>q < n. arena_get a (offset div 4 + q) = Ok (out ! q)"
        using val unfolding n_def [symmetric] r_def [symmetric] by auto
      have "exec_inv p inputs (Suc k) (env(st_output t := out)) (ex\<lparr>ex_arena := a\<rparr>)"
        using inv_after_step [OF legal k inv a(2) o [unfolded t_def], of out] a(3,4) by (simp add: n_def t_def)
      then show ?thesis using a(1) framed_only [OF a(2)] Some Ok by (intro exI [of _ "ex\<lparr>ex_arena := a\<rparr>"]) (simp add: run ev)
    next
      case (Err e)
      then show ?thesis using val self Some unfolding n_def [symmetric] r_def [symmetric] by (intro exI [of _ ex]) (simp add: run ev)
    next
      case Panic
      then show ?thesis using val self Some unfolding n_def [symmetric] r_def [symmetric] by (intro exI [of _ ex]) (simp add: run ev)
    qed
  next
    case None
    define out where "out = eval_op F (kernel_op (st_kernel t)) (map (shape_at p) (st_inputs t)) (map env (st_inputs t))"
    have "list_all2 (\<lambda>v sh. length v = prod_list sh) (map env (st_inputs t)) (map (shape_at p) (st_inputs t))"
      using inv read_live [OF legal k] by (auto simp: list_all2_conv_all_nth exec_inv_def holds_def buffer_size_def t_def)
    then have len: "length out = n" using length_eval_op [OF target(3)] by (simp add: out_def n_def)
    obtain a where a: "run_kernel F inputs t (st_inputs t ! 0) (get_at (st_inputs t) 1) (offset div 4) n ex = (Ok (), ex\<lparr>ex_arena := a\<rparr>)"
        "framed p k ex a" "\<forall>q < n. arena_get a (offset div 4 + q) = Ok (out ! q)"
      using run_kernel_value [OF legal k inv o [unfolded t_def], folded t_def] unfolding n_def [symmetric] out_def [symmetric] by blast
    have "any_out (\<lambda>i. and_then (arena_get a i) (\<lambda>x. Ok (\<not> fl_finite F x))) [offset div 4..<offset div 4 + n] =
        Ok (\<exists>i \<in> set [offset div 4..<offset div 4 + n]. \<not> fl_finite F (out ! (i - offset div 4)))"
    proof (rule any_out_total)
      fix i assume "i \<in> set [offset div 4..<offset div 4 + n]"
      then have "arena_get a (offset div 4 + (i - offset div 4)) = Ok (out ! (i - offset div 4))"
        using a(3) [rule_format, of "i - offset div 4"] by auto
      then show "and_then (arena_get a i) (\<lambda>x. Ok (\<not> fl_finite F x)) = Ok (\<not> fl_finite F (out ! (i - offset div 4)))"
        using \<open>i \<in> set [offset div 4..<offset div 4 + n]\<close> by simp
    qed
    also have "(\<exists>i \<in> set [offset div 4..<offset div 4 + n]. \<not> fl_finite F (out ! (i - offset div 4))) \<longleftrightarrow> (\<exists>x \<in> set out. \<not> fl_finite F x)"
    proof
      assume "\<exists>i \<in> set [offset div 4..<offset div 4 + n]. \<not> fl_finite F (out ! (i - offset div 4))"
      then show "\<exists>x \<in> set out. \<not> fl_finite F x" using len by (auto intro!: bexI [of _ "out ! (_ - _)"])
    next
      assume "\<exists>x \<in> set out. \<not> fl_finite F x"
      then obtain q where "q < n" "\<not> fl_finite F (out ! q)" using len by (auto simp: in_set_conv_nth)
      then show "\<exists>i \<in> set [offset div 4..<offset div 4 + n]. \<not> fl_finite F (out ! (i - offset div 4))"
        by (intro bexI [of _ "offset div 4 + q"]) auto
    qed
    finally have bad: "any_out (\<lambda>i. and_then (arena_get a i) (\<lambda>x. Ok (\<not> fl_finite F x))) [offset div 4..<offset div 4 + n] =
        Ok (\<exists>x \<in> set out. \<not> fl_finite F x)" .
    have after: "exec_inv p inputs (Suc k) (env(st_output t := out)) (ex\<lparr>ex_arena := a\<rparr>)"
      using inv_after_step [OF legal k inv a(2) o [unfolded t_def], of out] a(3) len by (simp add: n_def t_def)
    have "run_plan_step F inputs t ex = check_written F t (offset div 4) n (ex\<lparr>ex_arena := a\<rparr>)"
      unfolding run None by (simp only: option.case bind_op_def a(1) prod.case outcome.case)
    then show ?thesis
      using after framed_only [OF a(2)] None
      by (intro exI [of _ "ex\<lparr>ex_arena := a\<rparr>"])
        (auto simp: check_written_def bad eval_step_def Let_def out_def [symmetric] reject_def)
  qed
qed

section \<open>Invocations\<close>

lemma steps_simulate:
  assumes legal: "plan_legal F p" and inv: "exec_inv p inputs 0 env ex" and impls: "map_of (ex_implementations ex) = impls"
  shows "\<exists>ex'. arena_only p ex ex' \<and> (case eval_plan F p impls env of
      Ok env' \<Rightarrow> each_op (run_plan_step F inputs) (cp_steps p) ex = (Ok (), ex') \<and> exec_inv p inputs (length (cp_steps p)) env' ex'
    | Err e \<Rightarrow> each_op (run_plan_step F inputs) (cp_steps p) ex = (Err e, ex')
    | Panic \<Rightarrow> each_op (run_plan_step F inputs) (cp_steps p) ex = (Panic, ex'))"
proof -
  have "\<exists>ex'. arena_only p ex ex' \<and> (case fold_out (eval_step F p impls) (drop k (cp_steps p)) env of
      Ok env' \<Rightarrow> each_op (run_plan_step F inputs) (drop k (cp_steps p)) ex = (Ok (), ex') \<and> exec_inv p inputs (length (cp_steps p)) env' ex'
    | Err e \<Rightarrow> each_op (run_plan_step F inputs) (drop k (cp_steps p)) ex = (Err e, ex')
    | Panic \<Rightarrow> each_op (run_plan_step F inputs) (drop k (cp_steps p)) ex = (Panic, ex'))"
    if "k \<le> length (cp_steps p)" and "exec_inv p inputs k env ex" and "map_of (ex_implementations ex) = impls" for k env ex
    using that
  proof (induction "length (cp_steps p) - k" arbitrary: k env ex)
    case 0
    then have "arena_only p ex ex" by (auto simp: arena_only_def exec_inv_def intro: exI [of _ "ex_arena ex"])
    then show ?case using 0 by (intro exI [of _ ex]) simp
  next
    case (Suc d)
    then have k: "k < length (cp_steps p)" by simp
    then have head: "drop k (cp_steps p) = cp_steps p ! k # drop (Suc k) (cp_steps p)" by (simp add: Cons_nth_drop_Suc)
    obtain ex1 where ex1: "arena_only p ex ex1" "case eval_step F p impls (cp_steps p ! k) env of
        Ok env' \<Rightarrow> run_plan_step F inputs (cp_steps p ! k) ex = (Ok (), ex1) \<and> exec_inv p inputs (Suc k) env' ex1
      | Err e \<Rightarrow> run_plan_step F inputs (cp_steps p ! k) ex = (Err e, ex1)
      | Panic \<Rightarrow> run_plan_step F inputs (cp_steps p ! k) ex = (Panic, ex1)"
      using step_simulates [OF legal k Suc.prems(2,3)] by blast
    show ?case
    proof (cases "eval_step F p impls (cp_steps p ! k) env")
      case (Ok env')
      have next_k: "d = length (cp_steps p) - Suc k" using Suc.hyps(2) by simp
      have "map_of (ex_implementations ex1) = impls" using ex1(1) Suc.prems(3) by (auto simp: arena_only_def)
      moreover have "run_plan_step F inputs (cp_steps p ! k) ex = (Ok (), ex1)" "exec_inv p inputs (Suc k) env' ex1" using ex1(2) Ok by simp_all
      ultimately obtain ex2 where "arena_only p ex1 ex2" "case fold_out (eval_step F p impls) (drop (Suc k) (cp_steps p)) env' of
          Ok env' \<Rightarrow> each_op (run_plan_step F inputs) (drop (Suc k) (cp_steps p)) ex1 = (Ok (), ex2) \<and> exec_inv p inputs (length (cp_steps p)) env' ex2
        | Err e \<Rightarrow> each_op (run_plan_step F inputs) (drop (Suc k) (cp_steps p)) ex1 = (Err e, ex2)
        | Panic \<Rightarrow> each_op (run_plan_step F inputs) (drop (Suc k) (cp_steps p)) ex1 = (Panic, ex2)"
        using Suc.hyps(1) [OF next_k] k by force
      moreover have f1: "fold_out (eval_step F p impls) (drop k (cp_steps p)) env = fold_out (eval_step F p impls) (drop (Suc k) (cp_steps p)) env'"
        unfolding head by (simp add: Ok)
      moreover have e1: "each_op (run_plan_step F inputs) (drop k (cp_steps p)) ex = each_op (run_plan_step F inputs) (drop (Suc k) (cp_steps p)) ex1"
        unfolding head using \<open>run_plan_step F inputs (cp_steps p ! k) ex = (Ok (), ex1)\<close> by simp
      moreover have "arena_only p ex ex2" using ex1(1) \<open>arena_only p ex1 ex2\<close> by (rule arena_only_trans)
      ultimately show ?thesis unfolding f1 e1 by (intro exI [of _ ex2] conjI)
    qed (use ex1 in \<open>auto simp: head intro!: exI [of _ ex1]\<close>)
  qed
  from this [of 0 env ex, unfolded drop_0] inv impls show ?thesis by (simp add: eval_plan_def)
qed

end
