(* ===== verification/Plan_Thms.thy ===== *)
theory Plan_Thms
  imports Plan_Refine
begin

text \<open>
  Invocations of the executor, and the properties of verified CPU plans: an invocation returns what the
  reference evaluation returns, whatever an earlier one left in the arena, and commits the state only on
  success; a checked override of kernels changes no result.
\<close>

section \<open>Whole invocations\<close>

definition owned_wf :: "'f cpu_plan \<Rightarrow> (nat, 'f list) btmap \<Rightarrow> bool" where
  "owned_wf p owned \<longleftrightarrow> (\<forall>i < length (cp_buffers p). storage_at p i = StateStorage \<or> storage_at p i = ConstantStorage \<longrightarrow>
     (\<exists>v. map_of owned i = Some v \<and> length v = buffer_size (plan_buffer_at p i)))"

definition executor_wf :: "'f float_ops \<Rightarrow> 'f executor \<Rightarrow> bool" where
  "executor_wf F ex \<longleftrightarrow> plan_legal F (ex_plan ex) \<and> arena_wf (cp_arena_bytes (ex_plan ex) div 64) (ex_arena ex) \<and>
     owned_wf (ex_plan ex) (ex_owned ex)"

lemma new_owned:
  assumes "executor_new F p = Ok ex" and i: "i < length (cp_buffers p)"
  shows "map_of (ex_owned ex) i = vl_initial (bf_value (plan_buffer_at p i))"
proof -
  define ivs where "ivs = List.map_filter (\<lambda>(i, b). map_option (\<lambda>v. (i, v)) (vl_initial (bf_value b))) (zip [0..<length (cp_buffers p)] (cp_buffers p))"
  have "map fst ivs = map fst (filter (\<lambda>c. vl_initial (bf_value (snd c)) \<noteq> None) (zip [0..<length (cp_buffers p)] (cp_buffers p)))"
    by (auto simp: ivs_def map_filter_def split_beta comp_def intro!: map_cong filter_cong)
  moreover have "distinct (map fst (filter f (zip [0..<length (cp_buffers p)] (cp_buffers p))))" for f
    by (simp add: distinct_map_filter)
  ultimately have distinct: "distinct (map fst ivs)" by simp
  have "ex_owned ex = bt_collect ivs" using assms(1) by (auto simp: executor_new_def outcome_simps ivs_def)
  then have owned: "map_of (ex_owned ex) i = Some v \<longleftrightarrow> (i, v) \<in> set ivs" for v
    using distinct by (simp add: map_of_bt_collect_distinct)
  have "(i, v) \<in> set ivs \<longleftrightarrow> vl_initial (bf_value (plan_buffer_at p i)) = Some v" for v
  proof
    assume "(i, v) \<in> set ivs"
    then show "vl_initial (bf_value (plan_buffer_at p i)) = Some v" by (auto simp: ivs_def map_filter_def in_set_enum)
  next
    have "(i, plan_buffer_at p i) \<in> set (zip [0..<length (cp_buffers p)] (cp_buffers p))" using i by (simp add: in_set_enum)
    moreover assume "vl_initial (bf_value (plan_buffer_at p i)) = Some v"
    ultimately show "(i, v) \<in> set ivs" by (force simp: ivs_def map_filter_def)
  qed
  then show ?thesis using owned by (metis not_None_eq)
qed

lemma new_wf: "executor_new F p = Ok ex \<Longrightarrow> executor_wf F ex \<and> ex_plan ex = p \<and> ex_implementations ex = []"
proof -
  assume new: "executor_new F p = Ok ex"
  then have legal: "plan_legal F p" and ex: "ex_plan ex = p" "ex_implementations ex = []" "arena_wf (cp_arena_bytes p div 64) (ex_arena ex)"
    by (auto simp: executor_new_def outcome_simps verify_plan_legal arena_wf_def)
  have "owned_wf p (ex_owned ex)" unfolding owned_wf_def
  proof (intro allI impI)
    fix i assume i: "i < length (cp_buffers p)" "storage_at p i = StateStorage \<or> storage_at p i = ConstantStorage"
    then obtain v where "vl_initial (bf_value (plan_buffer_at p i)) = Some v" "length v = buffer_size (plan_buffer_at p i)"
      using legal_buffer [OF legal i(1)] by (auto simp: buffer_legal_def)
    then show "\<exists>v. map_of (ex_owned ex) i = Some v \<and> length v = buffer_size (plan_buffer_at p i)" using new_owned [OF new i(1)] by simp
  qed
  then show ?thesis using legal ex by (simp add: executor_wf_def)
qed

lemma check_inputs_Ok:
  fixes F :: "'a float_ops"
  assumes "check_inputs F p inputs = Ok ()" and "plan_legal F p" and "i < length (cp_buffers p)" and "storage_at p i = InputStorage"
  shows "\<exists>v. map_of inputs (vl_name (bf_value (plan_buffer_at p i))) = Some v \<and> length v = buffer_size (plan_buffer_at p i) \<and> (\<forall>x \<in> set v. fl_finite F x)"
proof -
  define bad :: "'a plan_buffer \<Rightarrow> bool" where "bad = (\<lambda>b. case map_of inputs (vl_name (bf_value b)) of None \<Rightarrow> True
    | Some v \<Rightarrow> length v \<noteq> buffer_size b \<or> (\<exists>x \<in> set v. \<not> fl_finite F x))"
  have "input_mismatch F inputs b = Ok (bad b)" if "b \<in> set (cp_buffers p)" for b
  proof -
    have "buffer_legal F p b" using assms(2) that by (simp add: plan_legal_def)
    then have "elements (vl_shape (bf_value b)) = Ok (buffer_size b)" by (rule buffer_legal_size)
    then show ?thesis by (simp add: input_mismatch_def bad_def split: option.split)
  qed
  then have "any_out (input_mismatch F inputs) (filter (\<lambda>b. vl_storage (bf_value b) = InputStorage) (cp_buffers p)) =
      Ok (\<exists>b \<in> set (filter (\<lambda>b. vl_storage (bf_value b) = InputStorage) (cp_buffers p)). bad b)"
    by (intro any_out_total) simp
  then have "\<forall>b \<in> set (cp_buffers p). vl_storage (bf_value b) = InputStorage \<longrightarrow> \<not> bad b"
    using assms(1) by (auto simp: check_inputs_def Let_def outcome_simps split: if_splits)
  then have "\<not> bad (plan_buffer_at p i)" using assms(3,4) by simp
  then show ?thesis by (auto simp: bad_def split: option.splits)
qed

lemma initial_inv:
  assumes "executor_wf F ex" and "check_inputs F (ex_plan ex) inputs = Ok ()"
  shows "exec_inv (ex_plan ex) inputs 0 (initial_env (ex_plan ex) inputs (ex_owned ex)) ex"
proof -
  have "holds ex inputs (initial_env (ex_plan ex) inputs (ex_owned ex)) i" if "live_at (ex_plan ex) 0 i" for i
  proof -
    have i: "i < length (cp_buffers (ex_plan ex))" "storage_at (ex_plan ex) i \<noteq> ArenaStorage" using that by (auto simp: live_at_def)
    show ?thesis
    proof (cases "storage_at (ex_plan ex) i = InputStorage")
      case True
      then show ?thesis using check_inputs_Ok [OF assms(2) _ i(1) True] assms(1) i
        by (auto simp: executor_wf_def holds_def exec_get_def index_at_def initial_env_def)
    next
      case False
      then have "storage_at (ex_plan ex) i = StateStorage \<or> storage_at (ex_plan ex) i = ConstantStorage" using i(2) by (cases "storage_at (ex_plan ex) i") auto
      then show ?thesis using assms(1) i
        by (auto simp: executor_wf_def owned_wf_def holds_def exec_get_def index_at_def initial_env_def)
    qed
  qed
  then show ?thesis using assms(1) by (simp add: exec_inv_def executor_wf_def)
qed

definition committed :: "'f cpu_plan \<Rightarrow> 'f env \<Rightarrow> (nat, 'f list) btmap \<Rightarrow> (nat, 'f list) btmap" where
  "committed p env owned = fold (\<lambda>(x, y). bt_adjust x (\<lambda>_. env y)) (cp_updates p) owned"

definition state_map :: "'f cpu_plan \<Rightarrow> (nat, 'f list) btmap \<Rightarrow> (string, 'f list) btmap" where
  "state_map p owned = bt_collect (map (\<lambda>i. (vl_name (bf_value (plan_buffer_at p i)), the (map_of owned i)))
     (filter (\<lambda>i. storage_at p i = StateStorage) [0..<length (cp_buffers p)]))"

definition report_of :: "'f cpu_plan \<Rightarrow> 'f env \<Rightarrow> (nat, 'f list) btmap \<Rightarrow> 'f run_report" where
  "report_of p env owned =
     \<lparr>rr_outputs = bt_collect (map (\<lambda>i. (vl_name (bf_value (plan_buffer_at p i)), env i)) (cp_outputs p)),
      rr_state = state_map p (committed p env owned),
      rr_executed_steps = map st_name (cp_steps p), rr_arena_bytes = cp_arena_bytes p\<rparr>"

lemma commit_step: "map_of owned x = Some old \<Longrightarrow> length old = length v \<Longrightarrow> ex_owned ex = owned \<Longrightarrow>
    commit_state (x, v) ex = (Ok (), ex\<lparr>ex_owned := bt_adjust x (\<lambda>_. v) owned\<rparr>)"
  by (simp add: commit_state_def)

lemma commits_run:
  assumes "\<forall>(x, y) \<in> set us. \<exists>old. map_of (ex_owned ex) x = Some old \<and> length old = length (env y)"
  shows "each_op commit_state (map (\<lambda>(x, y). (x, env y)) us) ex = (Ok (), ex\<lparr>ex_owned := fold (\<lambda>(x, y). bt_adjust x (\<lambda>_. env y)) us (ex_owned ex)\<rparr>)"
  using assms
proof (induction us arbitrary: ex)
  case (Cons u us)
  obtain x y where u: "u = (x, y)" by (cases u)
  then obtain old where old: "map_of (ex_owned ex) x = Some old" "length old = length (env y)" using Cons.prems by auto
  have "each_op commit_state (map (\<lambda>(x, y). (x, env y)) us) (ex\<lparr>ex_owned := bt_adjust x (\<lambda>_. env y) (ex_owned ex)\<rparr>) =
      (Ok (), ex\<lparr>ex_owned := fold (\<lambda>(x, y). bt_adjust x (\<lambda>_. env y)) us (bt_adjust x (\<lambda>_. env y) (ex_owned ex))\<rparr>)"
    using Cons.IH [of "ex\<lparr>ex_owned := bt_adjust x (\<lambda>_. env y) (ex_owned ex)\<rparr>"] Cons.prems old by (fastforce simp: map_of_bt_adjust)
  then show ?case using commit_step [OF old refl] by (simp add: u)
qed simp

text \<open>The state the updates write: every target keeps its length.\<close>

lemma map_of_committed:
  "map_of (fold (\<lambda>(x, y). bt_adjust x (\<lambda>_. env y)) us owned) i =
     (case map_of owned i of None \<Rightarrow> None | Some old \<Rightarrow> Some (case map_of (rev us) i of None \<Rightarrow> old | Some y \<Rightarrow> env y))"
proof (induction us arbitrary: owned)
  case (Cons u us)
  obtain x y where u: "u = (x, y)" by (cases u)
  show ?case unfolding u using Cons.IH [of "bt_adjust x (\<lambda>_. env y) owned"]
    by (auto simp: map_of_bt_adjust map_add_def split: option.splits)
qed (simp split: option.split)

lemma plan_results_env:
  assumes wf: "plan_legal F p" and inv: "exec_inv p inputs (length (cp_steps p)) env ex" and i: "i \<in> set (plan_results p)"
  shows "exec_collect ex inputs i = Ok (env i) \<and> i < length (cp_buffers p) \<and> length (env i) = buffer_size (plan_buffer_at p i)"
proof -
  have live: "live_at p (length (cp_steps p)) i" using result_live [OF wf i] .
  then have h: "holds ex inputs env i" "i < length (cp_buffers p)" "ex_plan ex = p" using inv by (auto simp: exec_inv_def live_at_def)
  show ?thesis using exec_collect_holds [OF h(1,3) wf h(2)] h by (simp add: holds_def)
qed

lemma report_state_wf:
  assumes "executor_wf F ex" shows "report_state ex = Ok (state_map (ex_plan ex) (ex_owned ex))"
proof -
  let ?p = "ex_plan ex"
  define states where "states = filter (\<lambda>i. storage_at ?p i = StateStorage) [0..<length (cp_buffers ?p)]"
  have "zip [0..<length (cp_buffers ?p)] (cp_buffers ?p) = map (\<lambda>i. (i, plan_buffer_at ?p i)) [0..<length (cp_buffers ?p)]"
    by (rule nth_equalityI) auto
  then have pairs: "filter (\<lambda>(bid, b). vl_storage (bf_value b) = StateStorage) (zip [0..<length (cp_buffers ?p)] (cp_buffers ?p)) =
      map (\<lambda>i. (i, plan_buffer_at ?p i)) states"
    by (simp add: states_def filter_map comp_def)
  have "collect (\<lambda>(bid, b). and_then (unwrap (map_of (ex_owned ex) bid)) (\<lambda>v. Ok (vl_name (bf_value b), v))) (map (\<lambda>i. (i, plan_buffer_at ?p i)) states) =
      Ok (map (\<lambda>(bid, b). (vl_name (bf_value b), the (map_of (ex_owned ex) bid))) (map (\<lambda>i. (i, plan_buffer_at ?p i)) states))"
  proof (rule collect_map)
    fix c assume "c \<in> set (map (\<lambda>i. (i, plan_buffer_at ?p i)) states)"
    then obtain i where i: "c = (i, plan_buffer_at ?p i)" "i < length (cp_buffers ?p)" "storage_at ?p i = StateStorage" by (auto simp: states_def)
    then obtain v where "map_of (ex_owned ex) i = Some v" using assms by (auto simp: executor_wf_def owned_wf_def)
    then show "(case c of (bid, b) \<Rightarrow> and_then (unwrap (map_of (ex_owned ex) bid)) (\<lambda>v. Ok (vl_name (bf_value b), v))) =
        Ok (case c of (bid, b) \<Rightarrow> (vl_name (bf_value b), the (map_of (ex_owned ex) bid)))" using i by simp
  qed
  then show ?thesis unfolding report_state_def pairs by (simp add: state_map_def states_def [symmetric] comp_def)
qed

text \<open>After the steps: the outputs are read, the updates gathered, the state committed.\<close>

lemma finish_run:
  assumes wf: "executor_wf F ex" and plan: "ex_plan ex = p" and inv: "exec_inv p inputs (length (cp_steps p)) env ex"
  defines "ex' \<equiv> ex\<lparr>ex_owned := committed p env (ex_owned ex)\<rparr>"
  shows "collect (named_value ex inputs) (cp_outputs p) = Ok (map (\<lambda>i. (vl_name (bf_value (plan_buffer_at p i)), env i)) (cp_outputs p))"
    and "collect (\<lambda>(dst, src). and_then (exec_collect ex inputs src) (\<lambda>v. Ok (dst, v))) (cp_updates p) = Ok (map (\<lambda>(x, y). (x, env y)) (cp_updates p))"
    and "each_op commit_state (map (\<lambda>(x, y). (x, env y)) (cp_updates p)) ex = (Ok (), ex')"
    and "report_state ex' = Ok (rr_state (report_of p env (ex_owned ex)))"
    and "executor_wf F ex'"
proof -
  have legal: "plan_legal F p" using wf plan by (simp add: executor_wf_def)
  note res = plan_results_env [OF legal inv]
  show "collect (named_value ex inputs) (cp_outputs p) = Ok (map (\<lambda>i. (vl_name (bf_value (plan_buffer_at p i)), env i)) (cp_outputs p))"
    using res plan by (intro collect_map) (simp add: named_value_def index_at_def plan_results_def)
  have sources: "y \<in> set (plan_results p)" if "(x, y) \<in> set (cp_updates p)" for x y using that by (force simp: plan_results_def)
  show "collect (\<lambda>(dst, src). and_then (exec_collect ex inputs src) (\<lambda>v. Ok (dst, v))) (cp_updates p) = Ok (map (\<lambda>(x, y). (x, env y)) (cp_updates p))"
    using res sources by (intro collect_map) auto
  have updates: "\<exists>old. map_of (ex_owned ex) x = Some old \<and> length old = length (env y) \<and> length (env y) = buffer_size (plan_buffer_at p x)"
    if u: "(x, y) \<in> set (cp_updates p)" for x y
  proof -
    have t: "x < length (cp_buffers p)" "storage_at p x = StateStorage" "shape_at p x = shape_at p y"
      using legal u unfolding plan_legal_def by auto
    then obtain old where "map_of (ex_owned ex) x = Some old" "length old = buffer_size (plan_buffer_at p x)"
      using wf plan by (auto simp: executor_wf_def owned_wf_def)
    then show ?thesis using res [OF sources [OF u]] t(3) by (simp add: buffer_size_def)
  qed
  show "each_op commit_state (map (\<lambda>(x, y). (x, env y)) (cp_updates p)) ex = (Ok (), ex')"
    unfolding ex'_def committed_def using updates by (intro commits_run) fastforce
  have owned: "owned_wf p (committed p env (ex_owned ex))" unfolding owned_wf_def
  proof (intro allI impI)
    fix i assume i: "i < length (cp_buffers p)" "storage_at p i = StateStorage \<or> storage_at p i = ConstantStorage"
    then obtain old where old: "map_of (ex_owned ex) i = Some old" "length old = buffer_size (plan_buffer_at p i)"
      using wf plan by (auto simp: executor_wf_def owned_wf_def)
    show "\<exists>v. map_of (committed p env (ex_owned ex)) i = Some v \<and> length v = buffer_size (plan_buffer_at p i)"
    proof (cases "map_of (rev (cp_updates p)) i")
      case None
      then show ?thesis using old by (simp add: committed_def map_of_committed)
    next
      case (Some y)
      then have "(i, y) \<in> set (cp_updates p)" by (metis map_of_SomeD set_rev)
      then have "length (env y) = buffer_size (plan_buffer_at p i)" using updates by blast
      moreover have "map_of (committed p env (ex_owned ex)) i = Some (env y)"
        unfolding committed_def map_of_committed using old(1) Some by simp
      ultimately show ?thesis by blast
    qed
  qed
  then show "executor_wf F ex'" using wf plan by (simp add: executor_wf_def ex'_def)
  from report_state_wf [OF this] show "report_state ex' = Ok (rr_state (report_of p env (ex_owned ex)))"
    by (simp add: report_of_def ex'_def plan)
qed

section \<open>The executor refines the evaluation\<close>

lemma run_refines:
  assumes wf: "executor_wf F ex" and ok: "check_inputs F (ex_plan ex) inputs = Ok ()"
  shows "\<exists>ex'. ex_plan ex' = ex_plan ex \<and> ex_implementations ex' = ex_implementations ex \<and> executor_wf F ex' \<and>
    (case eval_plan F (ex_plan ex) (map_of (ex_implementations ex)) (initial_env (ex_plan ex) inputs (ex_owned ex)) of
       Ok env \<Rightarrow> executor_run F inputs ex = (Ok (report_of (ex_plan ex) env (ex_owned ex)), ex') \<and>
         ex_owned ex' = committed (ex_plan ex) env (ex_owned ex)
     | Err e \<Rightarrow> executor_run F inputs ex = (Err e, ex') \<and> ex_owned ex' = ex_owned ex
     | Panic \<Rightarrow> executor_run F inputs ex = (Panic, ex') \<and> ex_owned ex' = ex_owned ex)"
proof -
  define p where "p = ex_plan ex"
  define env0 where "env0 = initial_env p inputs (ex_owned ex)"
  have legal: "plan_legal F p" using wf by (simp add: executor_wf_def p_def)
  obtain ex1 where ex1: "arena_only p ex ex1" "case eval_plan F p (map_of (ex_implementations ex)) env0 of
      Ok env' \<Rightarrow> each_op (run_plan_step F inputs) (cp_steps p) ex = (Ok (), ex1) \<and> exec_inv p inputs (length (cp_steps p)) env' ex1
    | Err e \<Rightarrow> each_op (run_plan_step F inputs) (cp_steps p) ex = (Err e, ex1)
    | Panic \<Rightarrow> each_op (run_plan_step F inputs) (cp_steps p) ex = (Panic, ex1)"
    using steps_simulate [OF legal initial_inv [OF wf ok, folded p_def] refl] unfolding env0_def by blast
  have same: "ex_plan ex1 = p" "ex_implementations ex1 = ex_implementations ex" "ex_owned ex1 = ex_owned ex" "executor_wf F ex1"
    using ex1(1) wf by (auto simp: arena_only_def p_def executor_wf_def)
  show ?thesis unfolding p_def [symmetric] env0_def [symmetric]
  proof (cases "eval_plan F p (map_of (ex_implementations ex)) env0")
    case (Ok env)
    define ex2 where "ex2 = ex1\<lparr>ex_owned := committed p env (ex_owned ex1)\<rparr>"
    have run: "each_op (run_plan_step F inputs) (cp_steps p) ex = (Ok (), ex1)" "exec_inv p inputs (length (cp_steps p)) env ex1"
      using ex1(2) Ok by simp_all
    note fin = finish_run [OF same(4,1) run(2), folded ex2_def]
    have "executor_run F inputs ex = (Ok (report_of p env (ex_owned ex)), ex2)"
      using ok run(1) fin(1-4) same by (simp add: executor_run_def p_def [symmetric] report_of_def ex2_def)
    then show "\<exists>ex'. ex_plan ex' = p \<and> ex_implementations ex' = ex_implementations ex \<and> executor_wf F ex' \<and>
      (case eval_plan F p (map_of (ex_implementations ex)) env0 of
         Ok env \<Rightarrow> executor_run F inputs ex = (Ok (report_of p env (ex_owned ex)), ex') \<and> ex_owned ex' = committed p env (ex_owned ex)
       | Err e \<Rightarrow> executor_run F inputs ex = (Err e, ex') \<and> ex_owned ex' = ex_owned ex
       | Panic \<Rightarrow> executor_run F inputs ex = (Panic, ex') \<and> ex_owned ex' = ex_owned ex)"
      using Ok fin(5) same by (intro exI [of _ ex2]) (simp add: ex2_def)
  qed (use ex1(2) same ok in \<open>auto simp: executor_run_def p_def [symmetric] intro!: exI [of _ ex1]\<close>)
qed

section \<open>Overrides\<close>

text \<open>Steps that differ in the implementation of the same operation only.\<close>

definition same_step :: "plan_step \<Rightarrow> plan_step \<Rightarrow> bool" where
  "same_step t u \<longleftrightarrow> u = t\<lparr>st_kernel := st_kernel u, st_selection_reason := st_selection_reason u\<rparr> \<and>
     kernel_op (st_kernel u) = kernel_op (st_kernel t)"

lemma same_stepD:
  assumes "same_step t u"
  shows "st_name u = st_name t" "st_inputs u = st_inputs t" "st_output u = st_output t" "kernel_op (st_kernel u) = kernel_op (st_kernel t)"
  using assms by (cases t, cases u, simp add: same_step_def)+

lemma same_step_refl [intro]: "same_step t t"
  by (simp add: same_step_def)

lemma same_step_trans: "same_step t u \<Longrightarrow> same_step u w \<Longrightarrow> same_step t w"
  by (cases t, cases u, cases w) (simp add: same_step_def)

lemma override_step_same:
  assumes "list_all2 same_step ts us" and "override_step nk us = Ok vs"
  shows "list_all2 same_step ts vs"
proof -
  obtain name k i u where o: "us ! i = u" "i < length us" "kernel_op (st_kernel u) = kernel_op k"
      "vs = us[i := u\<lparr>st_kernel := k, st_selection_reason := ''explicit checked physical-plan override''\<rparr>]"
    using assms(2) by (cases nk) (auto simp: override_step_def outcome_simps)
  have i: "i < length ts" using assms(1) o(2) by (simp add: list_all2_lengthD)
  have "same_step u (u\<lparr>st_kernel := k, st_selection_reason := ''explicit checked physical-plan override''\<rparr>)"
    using o(3) by (cases u) (simp add: same_step_def)
  with list_all2_nthD [OF assms(1) i] o(1) have
    "same_step (ts ! i) (u\<lparr>st_kernel := k, st_selection_reason := ''explicit checked physical-plan override''\<rparr>)"
    using same_step_trans by blast
  then have "list_all2 same_step (ts[i := ts ! i]) vs" unfolding o(4) by (intro list_all2_update_cong assms(1))
  then show ?thesis by simp
qed

definition same_meaning :: "'f cpu_plan \<Rightarrow> 'f cpu_plan \<Rightarrow> bool" where
  "same_meaning p q \<longleftrightarrow> (\<exists>us. q = p\<lparr>cp_steps := us\<rparr> \<and> list_all2 same_step (cp_steps p) us)"

lemma override_same: "override_kernels F p overrides = Ok q \<Longrightarrow> same_meaning p q"
proof -
  assume "override_kernels F p overrides = Ok q"
  then obtain us where us: "fold_out override_step overrides (cp_steps p) = Ok us" "q = p\<lparr>cp_steps := us\<rparr>"
    by (auto simp: override_kernels_def outcome_simps Let_def)
  have "list_all2 same_step (cp_steps p) us"
    using us(1) by (rule fold_out_invariant) (auto intro: override_step_same list_all2_refl)
  then show ?thesis using us(2) by (auto simp: same_meaning_def)
qed

lemma same_meaning_eval:
  assumes "same_meaning p q" shows "eval_plan F q impls env = eval_plan F p impls env"
proof -
  obtain us where q: "q = p\<lparr>cp_steps := us\<rparr>" and us: "list_all2 same_step (cp_steps p) us" using assms by (auto simp: same_meaning_def)
  have step: "eval_step F q impls u = eval_step F p impls t" if "same_step t u" for t u
  proof -
    have "cp_buffers q = cp_buffers p" by (simp add: q)
    then show ?thesis by (intro ext) (unfold eval_step_def same_stepD [OF that], simp only:)
  qed
  have "fold_out (eval_step F q impls) us env = fold_out (eval_step F p impls) ts env" if "list_all2 same_step ts us" for ts us
    using that
  proof (induction ts us arbitrary: env rule: list_all2_induct)
    case (Cons t ts u us)
    then show ?case using step by (cases "eval_step F p impls t env") auto
  qed simp
  from this [OF us] show ?thesis by (simp add: eval_plan_def q)
qed

lemma same_meaning_report: "same_meaning p q \<Longrightarrow> report_of q env owned = report_of p env owned \<and> committed q env owned = committed p env owned"
proof -
  assume "same_meaning p q"
  then obtain us where q: "q = p\<lparr>cp_steps := us\<rparr>" and us: "list_all2 same_step (cp_steps p) us" by (auto simp: same_meaning_def)
  have "map st_name us = map st_name (cp_steps p)"
    using us by (induction rule: list_all2_induct) (simp_all add: same_stepD)
  then show ?thesis by (simp add: q report_of_def state_map_def committed_def)
qed

section \<open>Properties\<close>

text \<open>C3. A CPU plan executes as its reference evaluation: in every state an invocation can start from, an invocation
  whose inputs are accepted returns the report of the values obtained by evaluating the steps in order over named
  values, the state it reports and keeps being the update of every target by the final value of its source, at once;
  where the evaluation fails the invocation fails with that error and the state is the old one. The arena, with its
  aliased offsets and the contents an earlier invocation left, is never observable, and the invariant is kept.\<close>

theorem executor_refines:
  assumes "executor_wf F ex" and "check_inputs F (ex_plan ex) inputs = Ok ()"
  shows "\<exists>ex'. ex_plan ex' = ex_plan ex \<and> ex_implementations ex' = ex_implementations ex \<and> executor_wf F ex' \<and>
    (case eval_plan F (ex_plan ex) (map_of (ex_implementations ex)) (initial_env (ex_plan ex) inputs (ex_owned ex)) of
       Ok env \<Rightarrow> executor_run F inputs ex = (Ok (report_of (ex_plan ex) env (ex_owned ex)), ex') \<and>
         ex_owned ex' = committed (ex_plan ex) env (ex_owned ex)
     | Err e \<Rightarrow> executor_run F inputs ex = (Err e, ex') \<and> ex_owned ex' = ex_owned ex
     | Panic \<Rightarrow> executor_run F inputs ex = (Panic, ex') \<and> ex_owned ex' = ex_owned ex)"
  using assms by (rule run_refines)

text \<open>A recurrence \<open>s := s * m + x\<close> over the integers.\<close>

definition int_ops :: "int float_ops" where
  "int_ops = \<lparr>fl_add = (+), fl_mul = (*), fl_max = max, fl_zero = 0, fl_finite = (\<lambda>_. True)\<rparr>"

definition recurrence_plan :: "kernel \<Rightarrow> string \<Rightarrow> int cpu_plan" where
  "recurrence_plan k reason = \<lparr>cp_version = 1, cp_name = ''rnn'', cp_target = ''cpu-f32-v1'', cp_policy = ''deterministic-cpu-v1'',
     cp_alignment = 64, cp_arena_bytes = 128,
     cp_buffers = [
       \<lparr>bf_value = \<lparr>vl_name = ''x'', vl_shape = [1, 2], vl_storage = InputStorage, vl_initial = None\<rparr>, bf_offset = None, bf_lifetime = None\<rparr>,
       \<lparr>bf_value = \<lparr>vl_name = ''m'', vl_shape = [2, 2], vl_storage = ConstantStorage, vl_initial = Some [0, 1, 1, 1]\<rparr>, bf_offset = None, bf_lifetime = None\<rparr>,
       \<lparr>bf_value = \<lparr>vl_name = ''s'', vl_shape = [1, 2], vl_storage = StateStorage, vl_initial = Some [3, 5]\<rparr>, bf_offset = None, bf_lifetime = None\<rparr>,
       \<lparr>bf_value = \<lparr>vl_name = ''y'', vl_shape = [1, 2], vl_storage = ArenaStorage, vl_initial = None\<rparr>, bf_offset = Some 0, bf_lifetime = Some (0, 1)\<rparr>,
       \<lparr>bf_value = \<lparr>vl_name = ''z'', vl_shape = [1, 2], vl_storage = ArenaStorage, vl_initial = None\<rparr>, bf_offset = Some 64, bf_lifetime = Some (1, 2)\<rparr>],
     cp_steps = [
       \<lparr>st_name = ''y'', st_kernel = k, st_inputs = [2, 1], st_output = 3, st_rank = 0, st_stream = 0,
         st_dependencies = [], st_reuse_dependencies = [], st_selection_reason = reason\<rparr>,
       \<lparr>st_name = ''z'', st_kernel = AddF32V1, st_inputs = [3, 0], st_output = 4, st_rank = 0, st_stream = 0,
         st_dependencies = [0], st_reuse_dependencies = [], st_selection_reason = ''r''\<rparr>],
     cp_outputs = [4], cp_updates = [(2, 4)], cp_removed_nodes = [], cp_folded_nodes = []\<rparr>"

definition recurrence_executor :: "kernel \<Rightarrow> string \<Rightarrow> int executor" where
  "recurrence_executor k reason = \<lparr>ex_plan = recurrence_plan k reason, ex_arena = replicate 2 (replicate 16 0),
     ex_owned = [(1, [0, 1, 1, 1]), (2, [3, 5])], ex_implementations = []\<rparr>"

lemmas plan_eval = recurrence_plan_def int_ops_def PLAN_VERSION_def TARGET_def ALIGNMENT_def MAX_BYTES_def MAX_NODES_def
  reject_def index_at_def get_at_def assign_at_def checked_add_def checked_mul_def elements_def

lemmas verify_eval = plan_eval verify_plan_def check_buffer_def check_buffer_storage_def check_plan_step_def read_input_def
  bad_dependencies_def extend_life_def op_shape_def check_update_def keep_result_def check_lifetime_def check_pair_def bs_of_def bs_extend_def upt_rec

lemma recurrence_verified: "verify_plan int_ops (recurrence_plan MatmulF32V1 ''r'') = Ok ()"
  by (simp add: verify_eval)

lemma recurrence_override_verified: "verify_plan int_ops (recurrence_plan MatmulBlockedF32V1 ''explicit checked physical-plan override'') = Ok ()"
  by (simp add: verify_eval)

lemma recurrence_override: "override_kernels int_ops (recurrence_plan MatmulF32V1 ''r'') [(''y'', MatmulBlockedF32V1)] =
    Ok (recurrence_plan MatmulBlockedF32V1 ''explicit checked physical-plan override'')"
proof -
  have "fold_out override_step [(''y'', MatmulBlockedF32V1)] (cp_steps (recurrence_plan MatmulF32V1 ''r'')) =
      Ok (cp_steps (recurrence_plan MatmulBlockedF32V1 ''explicit checked physical-plan override''))"
    by (simp add: override_step_def plan_eval)
  moreover have "recurrence_plan MatmulF32V1 ''r''\<lparr>cp_steps := cp_steps (recurrence_plan k reason)\<rparr> = recurrence_plan k reason" for k reason
    by (simp add: recurrence_plan_def)
  ultimately show ?thesis
    by (simp add: override_kernels_def Let_def recurrence_verified recurrence_override_verified)
qed

lemma recurrence_new: "verify_plan int_ops (recurrence_plan k reason) = Ok () \<Longrightarrow>
    executor_new int_ops (recurrence_plan k reason) = Ok (recurrence_executor k reason)"
  by (simp add: executor_new_def recurrence_executor_def) (simp add: plan_eval bt_collect_def List.map_filter_def upt_rec)

lemmas recurrence_new_wf = new_wf [OF recurrence_new, THEN conjunct1]

lemma recurrence_inputs: "check_inputs int_ops (ex_plan (recurrence_executor MatmulF32V1 ''r'')) [(''x'', [10, 20])] = Ok ()"
  by (simp add: recurrence_executor_def check_inputs_def input_mismatch_def plan_eval)

theorem executor_refines_witness:
  "\<exists>ex'. executor_wf int_ops ex' \<and> executor_run int_ops [(''x'', [10, 20])] (recurrence_executor MatmulF32V1 ''r'') =
     (Ok \<lparr>rr_outputs = [(''z'', [15, 28])], rr_state = [(''s'', [15, 28])], rr_executed_steps = [''y'', ''z''], rr_arena_bytes = 128\<rparr>, ex')"
proof -
  let ?ex = "recurrence_executor MatmulF32V1 ''r''" and ?p = "recurrence_plan MatmulF32V1 ''r''" and ?inputs = "[(''x'', [10, 20 :: int])]"
  define env where "env = (initial_env ?p ?inputs (ex_owned ?ex))(3 := [5, 8], 4 := [15, 28])"
  have "eval_plan int_ops ?p (map_of []) (initial_env ?p ?inputs (ex_owned ?ex)) = Ok env"
    by (simp add: eval_plan_def eval_step_def eval_op_def dot_def initial_env_def plan_eval recurrence_executor_def env_def upt_rec)
  moreover have "report_of ?p env (ex_owned ?ex) =
      \<lparr>rr_outputs = [(''z'', [15, 28])], rr_state = [(''s'', [15, 28])], rr_executed_steps = [''y'', ''z''], rr_arena_bytes = 128\<rparr>"
    by (simp add: report_of_def state_map_def committed_def env_def plan_eval recurrence_executor_def bt_collect_def upt_rec map_of_bt_adjust)
  ultimately show ?thesis
    using executor_refines [OF recurrence_new_wf [OF recurrence_verified] recurrence_inputs] by (auto simp: recurrence_executor_def)
qed

text \<open>C20. A checked override of kernels changes no result: an executor of the overridden plan and one of the original,
  with the same owned values and implementations but any arenas, accept the same inputs, give the same
  report, error or panic, and keep the same state.\<close>

theorem override_preserves_results:
  assumes "override_kernels F p overrides = Ok q" and "executor_wf F ex" and "ex_plan ex = p" and "executor_wf F ex2" and "ex_plan ex2 = q"
    and "ex_owned ex2 = ex_owned ex" and "ex_implementations ex2 = ex_implementations ex"
  shows "fst (executor_run F inputs ex2) = fst (executor_run F inputs ex) \<and>
    ex_owned (snd (executor_run F inputs ex2)) = ex_owned (snd (executor_run F inputs ex))"
proof (cases "check_inputs F p inputs = Ok ()")
  case True
  note same = override_same [OF assms(1)]
  have bufs: "cp_buffers q = cp_buffers p" using same by (auto simp: same_meaning_def)
  have "check_inputs F q inputs = Ok ()" "initial_env q inputs = initial_env p inputs"
    using True unfolding check_inputs_def initial_env_def fun_eq_iff bufs by blast+
  then show ?thesis
    using run_refines [OF assms(2), of inputs] run_refines [OF assms(4), of inputs] True same_meaning_eval [OF same] same_meaning_report [OF same] assms
    by (auto split: outcome.splits)
next
  case False
  have "check_inputs F q inputs = check_inputs F p inputs"
    using override_same [OF assms(1)] by (auto simp: same_meaning_def check_inputs_def)
  then show ?thesis using False assms by (cases "check_inputs F p inputs") (simp_all add: executor_run_def)
qed

theorem override_preserves_results_witness:
  "fst (executor_run int_ops [(''x'', [10, 20])] (recurrence_executor MatmulBlockedF32V1 ''explicit checked physical-plan override'')) =
   fst (executor_run int_ops [(''x'', [10, 20])] (recurrence_executor MatmulF32V1 ''r''))"
  using override_preserves_results [OF recurrence_override recurrence_new_wf [OF recurrence_verified] _ recurrence_new_wf [OF recurrence_override_verified],
      of "[(''x'', [10, 20])]"]
  by (simp add: recurrence_executor_def)

text \<open>What the verifier accepts is safe to execute in its arena: two buffers that are live at a common step occupy
  disjoint bytes, all within the arena, and every operand of a step is owned or was produced before the step,
  which lists that producer among its dependencies.\<close>

theorem verified_cpu_plan_safe:
  assumes "verify_plan F p = Ok ()"
  shows "(\<forall>i < length (cp_buffers p). \<forall>j < i. live_together (plan_buffer_at p i) (plan_buffer_at p j) \<longrightarrow>
        \<not> bytes_overlap (plan_buffer_at p i) (plan_buffer_at p j))
    \<and> (\<forall>b \<in> set (cp_buffers p). \<forall>offset. bf_offset b = Some offset \<longrightarrow> offset + buffer_size b * 4 \<le> cp_arena_bytes p)
    \<and> (\<forall>k < length (cp_steps p). \<forall>i \<in> set (st_inputs (cp_steps p ! k)). readable p k i \<and>
        (\<forall>j < k. storage_at p i = ArenaStorage \<and> st_output (cp_steps p ! j) = i \<longrightarrow> j \<in> set (st_dependencies (cp_steps p ! k))))"
proof -
  have legal: "plan_legal F p" using assms by (rule verify_plan_legal)
  then have "\<forall>b \<in> set (cp_buffers p). \<forall>offset. bf_offset b = Some offset \<longrightarrow> offset + buffer_size b * 4 \<le> cp_arena_bytes p"
    by (auto simp: plan_legal_def buffer_legal_def split: if_splits)
  moreover have "plan_step_legal p k" if "k < length (cp_steps p)" for k using legal that by (simp add: plan_legal_def)
  ultimately show ?thesis using legal by (simp add: plan_legal_def plan_step_legal_def Let_def)
qed

theorem verified_cpu_plan_safe_witness:
  "\<not> bytes_overlap (plan_buffer_at (recurrence_plan MatmulF32V1 ''r'') 4) (plan_buffer_at (recurrence_plan MatmulF32V1 ''r'') 3)"
proof -
  let ?p = "recurrence_plan MatmulF32V1 ''r''"
  have "(\<forall>i < length (cp_buffers ?p). \<forall>j < i. live_together (plan_buffer_at ?p i) (plan_buffer_at ?p j) \<longrightarrow>
      \<not> bytes_overlap (plan_buffer_at ?p i) (plan_buffer_at ?p j))"
    using verified_cpu_plan_safe [OF recurrence_verified] by (rule conjunct1)
  moreover have "4 < length (cp_buffers ?p)" "(3 :: nat) < 4" "live_together (plan_buffer_at ?p 4) (plan_buffer_at ?p 3)"
    by (simp_all add: recurrence_plan_def live_together_def)
  ultimately show ?thesis by blast
qed

end
