(* ===== verification/Planner.thy ===== *)
theory Planner
  imports Plan_Verify
begin

text \<open>
  The planner of CPU plans (\<open>crates/inferfabric-plan/src/planner.rs\<close>): typing of a logical graph with a
  topological order of its nodes, dead-node elimination, constant folding, compaction of the value numbers,
  placement of the arena by lifetime, and selection of the kernels. The result is verified before it is returned.
\<close>

section \<open>Typing\<close>

definition logical_names :: "'f logical_graph \<Rightarrow> string list" where
  "logical_names g = map ts_name (lg_inputs g) @ map cn_name (lg_constants g) @ map cn_name (lg_states g) @ map ln_name (lg_nodes g)"

definition check_name :: "string \<Rightarrow> string btset \<Rightarrow> string btset outcome" where
  "check_name name names =
     and_then (reject (name = [] \<or> length name > 256 \<or> name \<in> set names) (invalid (''invalid or duplicate value name: '' @ name))) (\<lambda>_.
     Ok (bs_insert name names))"

record 'f typing_state =
  ty_ids :: "(string, nat) btmap"
  ty_values :: "'f plan_value list"
  ty_nodes :: "typed_node list"

definition add_value :: "'f plan_value \<Rightarrow> 'f typing_state \<Rightarrow> 'f typing_state" where
  "add_value v s = s\<lparr>ty_ids := bt_insert (vl_name v) (length (ty_values s)) (ty_ids s), ty_values := ty_values s @ [v]\<rparr>"

definition add_input :: "plan_tensor \<Rightarrow> 'f typing_state \<Rightarrow> 'f typing_state outcome" where
  "add_input t s =
     and_then (elements (ts_shape t)) (\<lambda>_.
     Ok (add_value \<lparr>vl_name = ts_name t, vl_shape = ts_shape t, vl_storage = InputStorage, vl_initial = None\<rparr> s))"

definition add_owned :: "'f float_ops \<Rightarrow> plan_storage \<Rightarrow> 'f plan_constant \<Rightarrow> 'f typing_state \<Rightarrow> 'f typing_state outcome" where
  "add_owned F storage c s =
     and_then (elements (cn_shape c)) (\<lambda>n.
     and_then (reject (n \<noteq> length (cn_data c) \<or> (\<exists>x \<in> set (cn_data c). \<not> fl_finite F x))
       (invalid ''constant/state initializer shape or value mismatch'')) (\<lambda>_.
     Ok (add_value \<lparr>vl_name = cn_name c, vl_shape = cn_shape c, vl_storage = storage, vl_initial = Some (cn_data c)\<rparr> s)))"

definition check_operands :: "string btset \<Rightarrow> logical_node \<Rightarrow> unit outcome" where
  "check_operands names n = reject (\<exists>x \<in> set (ln_inputs n). x \<notin> set names) (invalid (''unknown operand in '' @ ln_name n))"

definition shape_of :: "'f plan_value list \<Rightarrow> nat \<Rightarrow> nat list outcome" where
  "shape_of vs i = and_then (index_at vs i) (\<lambda>v. Ok (vl_shape v))"

definition place_node :: "string \<Rightarrow> logical_node \<Rightarrow> 'f typing_state \<Rightarrow> 'f typing_state outcome" where
  "place_node name n s =
     and_then (collect (\<lambda>x. unwrap (map_of (ty_ids s) x)) (ln_inputs n)) (\<lambda>inputs.
     and_then (collect (shape_of (ty_values s)) inputs) (\<lambda>shapes.
     and_then (op_shape (ln_op n) shapes) (\<lambda>dims.
     and_then (elements dims) (\<lambda>_.
     Ok ((add_value \<lparr>vl_name = name, vl_shape = dims, vl_storage = ArenaStorage, vl_initial = None\<rparr> s)
       \<lparr>ty_nodes := ty_nodes s @ [\<lparr>tn_name = name, tn_op = ln_op n, tn_inputs = inputs, tn_output = length (ty_values s)\<rparr>]\<rparr>)))))"

text \<open>The first pending node, by name, whose operands are all placed.\<close>

definition ready_node :: "'f typing_state \<Rightarrow> (string, logical_node) btmap \<Rightarrow> (string \<times> logical_node) option" where
  "ready_node s = find (\<lambda>(_, n). \<forall>x \<in> set (ln_inputs n). map_of (ty_ids s) x \<noteq> None)"

lemma ready_node_in: "ready_node s pending = Some (name, n) \<Longrightarrow> (name, n) \<in> set pending \<and> (\<forall>x \<in> set (ln_inputs n). map_of (ty_ids s) x \<noteq> None)"
  by (auto simp: ready_node_def find_Some_iff in_set_conv_nth)

function place_nodes :: "(string, logical_node) btmap \<Rightarrow> 'f typing_state \<Rightarrow> 'f typing_state outcome" where
  "place_nodes pending s =
     (if pending = [] then Ok s
      else case ready_node s pending of
        None \<Rightarrow> Err (invalid ''cycle in logical graph'')
      | Some (name, n) \<Rightarrow> and_then (place_node name n s) (\<lambda>s. place_nodes (bt_remove name pending) s))"
  by pat_completeness auto

termination place_nodes
  by (relation "measure (length \<circ> fst)") (auto simp: bt_remove_def dest!: ready_node_in intro!: length_filter_less)

declare place_nodes.simps [simp del]

definition resolve :: "'f typing_state \<Rightarrow> string \<Rightarrow> nat outcome" where
  "resolve s name = ok_or (map_of (ty_ids s) name) (invalid (''unknown output/update '' @ name))"

definition add_update :: "'f typing_state \<Rightarrow> string \<times> string \<Rightarrow> (nat, nat) btmap \<Rightarrow> (nat, nat) btmap outcome" where
  "add_update s = (\<lambda>(target, source) updates.
     and_then (resolve s target) (\<lambda>t.
     and_then (resolve s source) (\<lambda>u.
     and_then (index_at (ty_values s) t) (\<lambda>tv.
     and_then (index_at (ty_values s) u) (\<lambda>uv.
     and_then (reject (vl_storage tv \<noteq> StateStorage \<or> vl_shape tv \<noteq> vl_shape uv) (invalid ''state update requires matching state target and value'')) (\<lambda>_.
     Ok (bt_insert t u updates)))))))"

definition add_bytes :: "'f plan_value \<Rightarrow> nat \<Rightarrow> nat outcome" where
  "add_bytes v bytes = and_then (elements (vl_shape v)) (\<lambda>n. ok_or (checked_add 64 bytes (n * 4)) (invalid ''logical storage overflow''))"

definition typed :: "'f float_ops \<Rightarrow> 'f logical_graph \<Rightarrow> 'f typed_graph outcome" where
  "typed F g =
     and_then (reject (lg_version g \<noteq> PLAN_VERSION \<or> length (lg_nodes g) > MAX_NODES \<or> lg_outputs g = [])
       (invalid ''invalid logical graph version, node count or outputs'')) (\<lambda>_.
     and_then (reject (length (lg_inputs g) + length (lg_constants g) + length (lg_states g) + length (lg_nodes g) > MAX_NODES * 4)
       (invalid ''too many logical values'')) (\<lambda>_.
     and_then (fold_out check_name (logical_names g) []) (\<lambda>names.
     and_then (fold_out add_input (lg_inputs g) \<lparr>ty_ids = [], ty_values = [], ty_nodes = []\<rparr>) (\<lambda>s.
     and_then (fold_out (add_owned F ConstantStorage) (lg_constants g) s) (\<lambda>s.
     and_then (fold_out (add_owned F StateStorage) (lg_states g) s) (\<lambda>s.
     and_then (check_all (check_operands names) (lg_nodes g)) (\<lambda>_.
     and_then (place_nodes (bt_collect (map (\<lambda>n. (ln_name n, n)) (lg_nodes g))) s) (\<lambda>s.
     and_then (collect (resolve s) (lg_outputs g)) (\<lambda>outputs.
     and_then (reject (length (bs_of outputs) \<noteq> length outputs) (invalid ''duplicate output'')) (\<lambda>_.
     and_then (fold_out (add_update s) (lg_updates g) []) (\<lambda>updates.
     and_then (fold_out add_bytes (ty_values s) 0) (\<lambda>bytes.
     and_then (reject (bytes > MAX_BYTES) (invalid ''logical graph exceeds CPU storage limit'')) (\<lambda>_.
     Ok \<lparr>tg_version = PLAN_VERSION, tg_name = lg_name g, tg_values = ty_values s, tg_nodes = ty_nodes s,
         tg_outputs = outputs, tg_updates = updates\<rparr>)))))))))))))"

section \<open>Options\<close>

record compile_options =
  co_debug :: bool
  co_kernel_overrides :: "(string, kernel) btmap"

record 'f compilation =
  cm_logical :: "'f logical_graph"
  cm_typed :: "'f typed_graph"
  cm_optimized :: "'f typed_graph"
  cm_physical :: "'f cpu_plan"

definition check_override :: "'f typed_graph \<Rightarrow> string \<times> kernel \<Rightarrow> unit outcome" where
  "check_override t = (\<lambda>(name, k).
     and_then (ok_or (find (\<lambda>n. tn_name n = name) (tg_nodes t)) (invalid (''unknown kernel override node '' @ name))) (\<lambda>n.
     reject (tn_op n \<noteq> kernel_op k) (invalid ''kernel override changes operation semantics'')))"

section \<open>Dead nodes\<close>

definition mark_needed :: "bool \<Rightarrow> typed_node \<Rightarrow> nat btset \<times> string list \<Rightarrow> nat btset \<times> string list" where
  "mark_needed debug n = (\<lambda>(needed, removed).
     if debug \<or> tn_output n \<in> set needed then (bs_extend (tn_inputs n) needed, removed) else (needed, removed @ [tn_name n]))"

definition needed_values :: "bool \<Rightarrow> 'f typed_graph \<Rightarrow> nat btset \<times> string list" where
  "needed_values debug t =
     fold (mark_needed debug) (rev (tg_nodes t)) (bs_of (tg_outputs t @ bt_values (tg_updates t)), [])"

definition live_nodes :: "bool \<Rightarrow> nat btset \<Rightarrow> typed_node list \<Rightarrow> typed_node list" where
  "live_nodes debug needed = filter (\<lambda>n. debug \<or> tn_output n \<in> set needed)"

section \<open>Constant folding\<close>

definition fold_element :: "'f float_ops \<Rightarrow> typed_node \<Rightarrow> 'f plan_value list \<Rightarrow> 'f list \<Rightarrow> 'f list option \<Rightarrow> nat \<Rightarrow> 'f outcome" where
  "fold_element F n vs a b i = (case tn_op n of
     Add \<Rightarrow> and_then (index_at a i) (\<lambda>x. and_then (unwrap b) (\<lambda>b. and_then (index_at b i) (\<lambda>y. Ok (fl_add F x y))))
   | Mul \<Rightarrow> and_then (index_at a i) (\<lambda>x. and_then (unwrap b) (\<lambda>b. and_then (index_at b i) (\<lambda>y. Ok (fl_mul F x y))))
   | Relu \<Rightarrow> and_then (index_at a i) (\<lambda>x. Ok (fl_max F x (fl_zero F)))
   | Matmul \<Rightarrow>
       and_then (index_at (tn_inputs n) 0) (\<lambda>p.
       and_then (and_then (shape_of vs p) (\<lambda>s. index_at s 1)) (\<lambda>k.
       and_then (and_then (shape_of vs (tn_output n)) (\<lambda>s. index_at s 1)) (\<lambda>m.
       fold_out (\<lambda>j acc. and_then (index_at a (i div m * k + j)) (\<lambda>x.
         and_then (unwrap b) (\<lambda>b. and_then (index_at b (j * m + i mod m)) (\<lambda>y. Ok (fl_add F acc (fl_mul F x y)))))) [0..<k] (fl_zero F)))))"

definition initial_of :: "'f plan_value list \<Rightarrow> nat \<Rightarrow> 'f list outcome" where
  "initial_of vs i = and_then (index_at vs i) (\<lambda>v. unwrap (vl_initial v))"

definition fold_constant :: "'f float_ops \<Rightarrow> typed_node \<Rightarrow> 'f plan_value list \<Rightarrow> 'f list outcome" where
  "fold_constant F n vs =
     and_then (index_at (tn_inputs n) 0) (\<lambda>p.
     and_then (initial_of vs p) (\<lambda>a.
     and_then (case get_at (tn_inputs n) 1 of None \<Rightarrow> Ok None | Some q \<Rightarrow> and_then (initial_of vs q) (\<lambda>b. Ok (Some b))) (\<lambda>b.
     and_then (shape_of vs (tn_output n)) (\<lambda>shape.
     and_then (expect_ok (elements shape)) (\<lambda>m. collect (fold_element F n vs a b) [0..<m])))))"

record 'f folding_state =
  fd_values :: "'f plan_value list"
  fd_folded :: "string list"
  fd_retained :: "typed_node list"

definition node_work :: "'f plan_value list \<Rightarrow> typed_node \<Rightarrow> nat outcome" where
  "node_work vs n =
     and_then (and_then (shape_of vs (tn_output n)) elements) (\<lambda>count.
     and_then (if tn_op n = Matmul then and_then (index_at (tn_inputs n) 0) (\<lambda>p. and_then (shape_of vs p) (\<lambda>s. index_at s 1)) else Ok 1) (\<lambda>k.
     Ok (count * k)))"

definition fold_node :: "'f float_ops \<Rightarrow> compile_options \<Rightarrow> typed_node \<Rightarrow> 'f folding_state \<Rightarrow> 'f folding_state outcome" where
  "fold_node F opts n s =
     and_then (node_work (fd_values s) n) (\<lambda>work.
     and_then (if co_debug opts \<or> map_of (co_kernel_overrides opts) (tn_name n) \<noteq> None \<or> work > 4096 then Ok True
       else any_out (\<lambda>i. and_then (index_at (fd_values s) i) (\<lambda>v. Ok (vl_storage v \<noteq> ConstantStorage))) (tn_inputs n)) (\<lambda>keep.
     if keep then Ok (s\<lparr>fd_retained := fd_retained s @ [n]\<rparr>)
     else
       and_then (fold_constant F n (fd_values s)) (\<lambda>data.
       and_then (reject (\<exists>x \<in> set data. \<not> fl_finite F x) (invalid ''nonfinite constant-folded result'')) (\<lambda>_.
       and_then (index_at (fd_values s) (tn_output n)) (\<lambda>v.
       and_then (assign_at (fd_values s) (tn_output n) (v\<lparr>vl_storage := ConstantStorage, vl_initial := Some data\<rparr>)) (\<lambda>vs.
       Ok (s\<lparr>fd_values := vs, fd_folded := fd_folded s @ [tn_name n]\<rparr>)))))))"

section \<open>Compaction\<close>

definition runtime_values :: "nat list \<Rightarrow> (nat, nat) btmap \<Rightarrow> typed_node list \<Rightarrow> nat btset" where
  "runtime_values outputs updates nodes = bs_of (outputs @ bt_values updates @ concat (map (\<lambda>n. tn_inputs n @ [tn_output n]) nodes))"

definition compact_value :: "nat btset \<Rightarrow> nat \<times> 'f plan_value \<Rightarrow> (nat, nat) btmap \<times> 'f plan_value list \<Rightarrow> (nat, nat) btmap \<times> 'f plan_value list" where
  "compact_value runtime = (\<lambda>(i, v) (remap, kept).
     if vl_storage v = InputStorage \<or> vl_storage v = StateStorage \<or> i \<in> set runtime
     then (bt_insert i (length kept) remap, kept @ [v]) else (remap, kept))"

definition remap_id :: "(nat, nat) btmap \<Rightarrow> nat \<Rightarrow> nat outcome" where
  "remap_id remap i = unwrap (map_of remap i)"

definition remap_node :: "(nat, nat) btmap \<Rightarrow> typed_node \<Rightarrow> typed_node outcome" where
  "remap_node remap n =
     and_then (collect (remap_id remap) (tn_inputs n)) (\<lambda>inputs.
     and_then (remap_id remap (tn_output n)) (\<lambda>output.
     Ok (n\<lparr>tn_inputs := inputs, tn_output := output\<rparr>)))"

definition remap_update :: "(nat, nat) btmap \<Rightarrow> nat \<times> nat \<Rightarrow> (nat \<times> nat) outcome" where
  "remap_update remap = (\<lambda>(a, b). and_then (remap_id remap a) (\<lambda>a. and_then (remap_id remap b) (\<lambda>b. Ok (a, b))))"

definition compact :: "'f typed_graph \<Rightarrow> 'f typed_graph outcome" where
  "compact t =
     (let runtime = runtime_values (tg_outputs t) (tg_updates t) (tg_nodes t);
          (remap, kept) = fold (compact_value runtime) (zip [0..<length (tg_values t)] (tg_values t)) ([], []) in
     and_then (collect (remap_node remap) (tg_nodes t)) (\<lambda>nodes.
     and_then (collect (remap_id remap) (tg_outputs t)) (\<lambda>outputs.
     and_then (collect (remap_update remap) (tg_updates t)) (\<lambda>updates.
     Ok (t\<lparr>tg_values := kept, tg_nodes := nodes, tg_outputs := outputs, tg_updates := bt_collect updates\<rparr>)))))"

definition check_kept :: "typed_node list \<Rightarrow> string \<times> kernel \<Rightarrow> unit outcome" where
  "check_kept nodes = (\<lambda>(name, _). reject (\<not> (\<exists>n \<in> set nodes. tn_name n = name))
     (invalid (''override node '' @ name @ '' was eliminated; use debug planning to retain it'')))"

section \<open>Lifetimes and placement\<close>

type_synonym lives = "(nat, nat \<times> nat) btmap"

definition extend_lives :: "nat \<Rightarrow> nat list \<Rightarrow> lives \<Rightarrow> lives" where
  "extend_lives i = fold (\<lambda>x. bt_adjust x (\<lambda>l. (fst l, i)))"

definition record_life :: "nat \<times> typed_node \<Rightarrow> lives \<times> (nat, nat) btmap \<Rightarrow> lives \<times> (nat, nat) btmap" where
  "record_life = (\<lambda>(i, n) (lives, producers).
     (extend_lives i (tn_inputs n) (bt_insert (tn_output n) (i, i) lives), bt_insert (tn_output n) i producers))"

definition plan_lives :: "'f typed_graph \<Rightarrow> lives \<times> (nat, nat) btmap" where
  "plan_lives t =
     (let (lives, producers) = fold record_life (zip [0..<length (tg_nodes t)] (tg_nodes t)) ([], []) in
      (extend_lives (length (tg_nodes t)) (tg_outputs t @ bt_values (tg_updates t)) lives, producers))"

definition align_up :: "nat \<Rightarrow> nat" where
  "align_up n = div_ceil n ALIGNMENT * ALIGNMENT"

definition buffer_bytes :: "'f plan_buffer \<Rightarrow> nat outcome" where
  "buffer_bytes b = and_then (elements (vl_shape (bf_value b))) (\<lambda>n. Ok (n * 4))"

fun find_offset :: "'f plan_buffer list \<Rightarrow> nat \<Rightarrow> (nat \<times> nat) list \<Rightarrow> nat \<Rightarrow> nat outcome" where
  "find_offset bs aligned [] offset = Ok offset"
| "find_offset bs aligned ((start, j) # js) offset =
     (if offset + aligned \<le> start then Ok offset
      else and_then (index_at bs j) (\<lambda>b. and_then (buffer_bytes b) (\<lambda>m. find_offset bs aligned js (max offset (start + align_up m)))))"

record 'f placing_state =
  pc_buffers :: "'f plan_buffer list"
  pc_placed :: "nat list"
  pc_arena :: nat

definition conflicts :: "lives \<Rightarrow> nat \<times> nat \<Rightarrow> 'f placing_state \<Rightarrow> (nat \<times> nat) list outcome" where
  "conflicts lives life s =
     and_then (collect (\<lambda>j. and_then (unwrap (map_of lives j)) (\<lambda>l. Ok (snd l, j))) (pc_placed s)) (\<lambda>ends.
     and_then (collect (\<lambda>j. and_then (index_at (pc_buffers s) j) (\<lambda>b. and_then (unwrap (bf_offset b)) (\<lambda>start. Ok (start, j))))
       (map snd (filter (\<lambda>(until, _). until \<ge> fst life) ends))) (\<lambda>starts.
     Ok (sort_key fst starts)))"

definition place_buffer :: "lives \<Rightarrow> typed_node \<Rightarrow> 'f placing_state \<Rightarrow> 'f placing_state outcome" where
  "place_buffer lives n s =
     and_then (index_at (pc_buffers s) (tn_output n)) (\<lambda>b.
     and_then (buffer_bytes b) (\<lambda>bytes.
     and_then (unwrap (map_of lives (tn_output n))) (\<lambda>life.
     and_then (conflicts lives life s) (\<lambda>js.
     and_then (find_offset (pc_buffers s) (align_up bytes) js 0) (\<lambda>offset.
     and_then (assign_at (pc_buffers s) (tn_output n) (b\<lparr>bf_offset := Some offset, bf_lifetime := Some life\<rparr>)) (\<lambda>bs.
     Ok \<lparr>pc_buffers = bs, pc_placed = pc_placed s @ [tn_output n], pc_arena = max (pc_arena s) (offset + align_up bytes)\<rparr>))))))"

section \<open>Steps\<close>

definition reuse_of :: "nat \<Rightarrow> nat \<Rightarrow> nat \<Rightarrow> 'f plan_buffer \<Rightarrow> nat option outcome" where
  "reuse_of i start limit old = (case (bf_lifetime old, bf_offset old) of
     (Some (_, until), Some offset) \<Rightarrow>
       if until < i \<and> offset < limit then and_then (expect_ok (buffer_bytes old)) (\<lambda>m. Ok (if start < offset + m then Some until else None))
       else Ok None
   | _ \<Rightarrow> Ok None)"

definition select_kernel :: "'f plan_value list \<Rightarrow> 'f plan_buffer \<Rightarrow> typed_node \<Rightarrow> kernel outcome" where
  "select_kernel vs out n = (case tn_op n of
     Add \<Rightarrow> Ok AddF32V1
   | Mul \<Rightarrow> Ok MulF32V1
   | Relu \<Rightarrow> Ok ReluF32V1
   | Matmul \<Rightarrow>
       and_then (elements (vl_shape (bf_value out))) (\<lambda>m.
       and_then (index_at (tn_inputs n) 0) (\<lambda>p.
       and_then (and_then (shape_of vs p) (\<lambda>s. index_at s 1)) (\<lambda>k.
       Ok (if m * k \<ge> 4096 then MatmulBlockedF32V1 else MatmulF32V1)))))"

definition make_step :: "compile_options \<Rightarrow> 'f plan_value list \<Rightarrow> (nat, nat) btmap \<Rightarrow> 'f plan_buffer list \<Rightarrow> nat \<times> typed_node \<Rightarrow> plan_step outcome" where
  "make_step opts vs producers bs = (\<lambda>(i, n).
     let deps = bs_of (List.map_filter (map_of producers) (tn_inputs n)) in
     and_then (index_at bs (tn_output n)) (\<lambda>out.
     and_then (unwrap (bf_offset out)) (\<lambda>start.
     and_then (buffer_bytes out) (\<lambda>bytes.
     and_then (collect (reuse_of i start (start + bytes)) bs) (\<lambda>reuse.
     and_then (select_kernel vs out n) (\<lambda>chosen.
     let kernel = (case map_of (co_kernel_overrides opts) (tn_name n) of None \<Rightarrow> chosen | Some k \<Rightarrow> k) in
     Ok \<lparr>st_name = tn_name n, st_kernel = kernel, st_inputs = tn_inputs n, st_output = tn_output n, st_rank = 0, st_stream = 0,
         st_dependencies = deps, st_reuse_dependencies = bs_of (List.map_filter (\<lambda>r. r) reuse),
         st_selection_reason =
           (if map_of (co_kernel_overrides opts) (tn_name n) \<noteq> None then ''explicit checked implementation override''
            else if kernel = MatmulBlockedF32V1 then ''static MAC count >= 4096: 16x16 output tiles''
            else ''qualified deterministic CPU implementation; no timing-based cost model'')\<rparr>))))))"

definition plan_memory :: "compile_options \<Rightarrow> 'f typed_graph \<Rightarrow> string list \<Rightarrow> string list \<Rightarrow> 'f cpu_plan outcome" where
  "plan_memory opts t removed folded =
     (let (lives, producers) = plan_lives t;
          unplaced = map (\<lambda>v. \<lparr>bf_value = v, bf_offset = None, bf_lifetime = None\<rparr>) (tg_values t) in
     and_then (fold_out (place_buffer lives) (tg_nodes t) \<lparr>pc_buffers = unplaced, pc_placed = [], pc_arena = 0\<rparr>) (\<lambda>s.
     and_then (collect (make_step opts (tg_values t) producers (pc_buffers s)) (zip [0..<length (tg_nodes t)] (tg_nodes t))) (\<lambda>steps.
     Ok \<lparr>cp_version = PLAN_VERSION, cp_name = tg_name t, cp_target = TARGET, cp_policy = ''deterministic-cpu-v1'', cp_alignment = ALIGNMENT,
         cp_arena_bytes = pc_arena s, cp_buffers = pc_buffers s, cp_steps = steps, cp_outputs = tg_outputs t, cp_updates = tg_updates t,
         cp_removed_nodes = removed, cp_folded_nodes = folded\<rparr>)))"

section \<open>Compilation\<close>

definition optimize :: "'f float_ops \<Rightarrow> compile_options \<Rightarrow> 'f typed_graph \<Rightarrow> ('f typed_graph \<times> string list \<times> string list) outcome" where
  "optimize F opts t =
     (let (needed, removed) = needed_values (co_debug opts) t;
          nodes = live_nodes (co_debug opts) needed (tg_nodes t) in
     and_then (fold_out (fold_node F opts) nodes \<lparr>fd_values = tg_values t, fd_folded = [], fd_retained = []\<rparr>) (\<lambda>s.
     and_then (compact (t\<lparr>tg_values := fd_values s, tg_nodes := fd_retained s\<rparr>)) (\<lambda>q.
     Ok (q, removed, fd_folded s))))"

definition compile_with_options :: "'f float_ops \<Rightarrow> 'f logical_graph \<Rightarrow> compile_options \<Rightarrow> 'f compilation outcome" where
  "compile_with_options F g opts =
     and_then (typed F g) (\<lambda>t.
     and_then (check_all (check_override t) (co_kernel_overrides opts)) (\<lambda>_.
     and_then (optimize F opts t) (\<lambda>(q, removed, folded).
     and_then (check_all (check_kept (tg_nodes q)) (co_kernel_overrides opts)) (\<lambda>_.
     and_then (plan_memory opts q removed folded) (\<lambda>p.
     and_then (verify_plan F p) (\<lambda>_.
     Ok \<lparr>cm_logical = g, cm_typed = t, cm_optimized = q, cm_physical = p\<rparr>))))))"

definition compile_graph :: "'f float_ops \<Rightarrow> 'f logical_graph \<Rightarrow> 'f compilation outcome" where
  "compile_graph F g = compile_with_options F g \<lparr>co_debug = False, co_kernel_overrides = []\<rparr>"

end
