(* ===== verification/Planner_Typed.thy ===== *)
theory Planner_Typed
  imports Planner Plan_Legal
begin

text \<open>
  What typing a logical graph guarantees: the typed graph lists the inputs, constants and states of the
  source and then its nodes, each after its operands, with the shape its operation gives.
\<close>

section \<open>Well-typed graphs\<close>

definition shapes_at :: "'f plan_value list \<Rightarrow> nat list \<Rightarrow> nat list list" where
  "shapes_at vs = map (\<lambda>i. vl_shape (vs ! i))"

definition value_legal :: "'f float_ops \<Rightarrow> 'f plan_value \<Rightarrow> bool" where
  "value_legal F v \<longleftrightarrow> elements (vl_shape v) = Ok (prod_list (vl_shape v)) \<and>
     (if vl_storage v = InputStorage \<or> vl_storage v = ArenaStorage then vl_initial v = None
      else \<exists>d. vl_initial v = Some d \<and> length d = prod_list (vl_shape v) \<and> (\<forall>x \<in> set d. fl_finite F x))"

text \<open>The node in position \<open>k\<close> produces value \<open>base + k\<close> from earlier values.\<close>

definition node_legal :: "'f plan_value list \<Rightarrow> nat \<Rightarrow> nat \<Rightarrow> typed_node \<Rightarrow> bool" where
  "node_legal vs base k n \<longleftrightarrow> tn_output n = base + k \<and> base + k < length vs \<and> vl_name (vs ! (base + k)) = tn_name n \<and>
     vl_storage (vs ! (base + k)) = ArenaStorage \<and> (\<forall>i \<in> set (tn_inputs n). i < base + k) \<and>
     op_shape (tn_op n) (shapes_at vs (tn_inputs n)) = Ok (vl_shape (vs ! (base + k)))"

definition names_distinct :: "'f plan_value list \<Rightarrow> bool" where
  "names_distinct vs \<longleftrightarrow> distinct (map vl_name vs)"

definition typed_legal :: "'f float_ops \<Rightarrow> nat \<Rightarrow> 'f typed_graph \<Rightarrow> bool" where
  "typed_legal F base t \<longleftrightarrow> length (tg_values t) = base + length (tg_nodes t) \<and> names_distinct (tg_values t) \<and>
     (\<forall>v \<in> set (tg_values t). value_legal F v) \<and> (\<forall>i < base. vl_storage (tg_values t ! i) \<noteq> ArenaStorage) \<and>
     (\<forall>k < length (tg_nodes t). node_legal (tg_values t) base k (tg_nodes t ! k)) \<and>
     tg_outputs t \<noteq> [] \<and> distinct (tg_outputs t) \<and> (\<forall>i \<in> set (tg_outputs t). i < length (tg_values t)) \<and>
     bt_wf (tg_updates t) \<and>
     (\<forall>(x, y) \<in> set (tg_updates t). x < length (tg_values t) \<and> y < length (tg_values t) \<and>
        vl_storage (tg_values t ! x) = StateStorage \<and> vl_shape (tg_values t ! x) = vl_shape (tg_values t ! y))"

text \<open>The correspondence with the source, by name.\<close>

definition name_at :: "'f plan_value list \<Rightarrow> nat \<Rightarrow> string" where
  "name_at vs i = vl_name (vs ! i)"

definition owned_value :: "plan_storage \<Rightarrow> 'f plan_constant \<Rightarrow> 'f plan_value" where
  "owned_value storage c = \<lparr>vl_name = cn_name c, vl_shape = cn_shape c, vl_storage = storage, vl_initial = Some (cn_data c)\<rparr>"

definition input_value :: "plan_tensor \<Rightarrow> 'f plan_value" where
  "input_value t = \<lparr>vl_name = ts_name t, vl_shape = ts_shape t, vl_storage = InputStorage, vl_initial = None\<rparr>"

lemma value_fields [simp]:
  "vl_name (input_value t) = ts_name t" "vl_shape (input_value t) = ts_shape t" "vl_storage (input_value t) = InputStorage" "vl_initial (input_value t) = None"
  "vl_name (owned_value st c) = cn_name c" "vl_shape (owned_value st c) = cn_shape c" "vl_storage (owned_value st c) = st" "vl_initial (owned_value st c) = Some (cn_data c)"
  by (simp_all add: input_value_def owned_value_def)

definition source_values :: "'f logical_graph \<Rightarrow> 'f plan_value list" where
  "source_values g = map input_value (lg_inputs g) @ map (owned_value ConstantStorage) (lg_constants g) @
     map (owned_value StateStorage) (lg_states g)"

definition node_matches :: "'f plan_value list \<Rightarrow> typed_node \<Rightarrow> logical_node \<Rightarrow> bool" where
  "node_matches vs t n \<longleftrightarrow> tn_name t = ln_name n \<and> tn_op t = ln_op n \<and> map (name_at vs) (tn_inputs t) = ln_inputs n"

definition typing_of :: "'f logical_graph \<Rightarrow> 'f typed_graph \<Rightarrow> bool" where
  "typing_of g t \<longleftrightarrow> take (length (source_values g)) (tg_values t) = source_values g \<and>
     (\<exists>placed. list_all2 (node_matches (tg_values t)) (tg_nodes t) placed \<and> set placed = set (lg_nodes g)) \<and>
     map (name_at (tg_values t)) (tg_outputs t) = lg_outputs g \<and>
     (\<lambda>(x, y). (name_at (tg_values t) x, name_at (tg_values t) y)) ` set (tg_updates t) = set (lg_updates g)"

section \<open>The state of the typing loops\<close>

definition ids_ok :: "'f typing_state \<Rightarrow> bool" where
  "ids_ok s \<longleftrightarrow> (\<forall>x i. map_of (ty_ids s) x = Some i \<longleftrightarrow> i < length (ty_values s) \<and> name_at (ty_values s) i = x)"

lemma ids_okD: "ids_ok s \<Longrightarrow> map_of (ty_ids s) x = Some i \<longleftrightarrow> i < length (ty_values s) \<and> name_at (ty_values s) i = x"
  by (simp add: ids_ok_def)

lemma ids_ok_None: "ids_ok s \<Longrightarrow> map_of (ty_ids s) x = None \<longleftrightarrow> x \<notin> vl_name ` set (ty_values s)"
proof -
  assume ok: "ids_ok s"
  have "map_of (ty_ids s) x \<noteq> None \<longleftrightarrow> (\<exists>i. map_of (ty_ids s) x = Some i)" by auto
  also have "\<dots> \<longleftrightarrow> (\<exists>i < length (ty_values s). vl_name (ty_values s ! i) = x)" by (simp add: ids_okD [OF ok] name_at_def)
  also have "\<dots> \<longleftrightarrow> x \<in> vl_name ` set (ty_values s)" by (force simp: in_set_conv_nth)
  finally show ?thesis by blast
qed

lemma ids_ok_distinct: "ids_ok s \<Longrightarrow> names_distinct (ty_values s)"
  unfolding names_distinct_def distinct_conv_nth
proof (intro allI impI)
  fix i j assume "ids_ok s" and ij: "i < length (map vl_name (ty_values s))" "j < length (map vl_name (ty_values s))" "i \<noteq> j"
  from \<open>ids_ok s\<close> have "map_of (ty_ids s) (name_at (ty_values s) i) = Some i" "map_of (ty_ids s) (name_at (ty_values s) j) = Some j"
    using ij by (simp_all add: ids_okD)
  then show "map vl_name (ty_values s) ! i \<noteq> map vl_name (ty_values s) ! j" using ij by (auto simp: name_at_def)
qed

lemma ids_ok_add:
  assumes "ids_ok s" and "vl_name v \<notin> vl_name ` set (ty_values s)"
  shows "ids_ok (add_value v s)"
proof -
  have fresh: "vl_name (ty_values s ! i) \<noteq> vl_name v" if "i < length (ty_values s)" for i
    using assms(2) that by (metis image_eqI nth_mem)
  show ?thesis unfolding ids_ok_def
    using assms(1) fresh by (auto simp: add_value_def ids_okD name_at_def nth_append less_Suc_eq)
qed

lemma add_value_simps [simp]:
  "ty_values (add_value v s) = ty_values s @ [v]" "ty_nodes (add_value v s) = ty_nodes s"
  by (simp_all add: add_value_def)

section \<open>Names\<close>

lemma check_name_Ok: "check_name x names = Ok names' \<longleftrightarrow> x \<noteq> [] \<and> length x \<le> 256 \<and> x \<notin> set names \<and> names' = bs_insert x names"
  by (auto simp: check_name_def outcome_simps)

lemma check_names:
  assumes "fold_out check_name xs names = Ok names'"
  shows "set names' = set xs \<union> set names \<and> distinct xs \<and> set xs \<inter> set names = {}"
  using assms
proof (induction xs arbitrary: names)
  case (Cons x xs)
  then obtain "x \<notin> set names" "fold_out check_name xs (bs_insert x names) = Ok names'"
    by (auto simp: check_name_Ok outcome_simps)
  then show ?case using Cons.IH [of "bs_insert x names"] by auto
qed auto

section \<open>Inputs, constants and states\<close>

definition source_inv :: "'f float_ops \<Rightarrow> 'f plan_value list \<Rightarrow> 'f typing_state \<Rightarrow> bool" where
  "source_inv F vs s \<longleftrightarrow> ids_ok s \<and> ty_values s = vs \<and> ty_nodes s = [] \<and> (\<forall>v \<in> set vs. value_legal F v)"

lemma elements_prod: "elements shape = Ok n \<Longrightarrow> elements shape = Ok (prod_list shape) \<and> n = prod_list shape"
  using elements_Ok by auto

lemma add_input_Ok: "add_input t s = Ok s' \<longleftrightarrow> (\<exists>n. elements (ts_shape t) = Ok n) \<and> s' = add_value (input_value t) s"
  by (auto simp: add_input_def input_value_def outcome_simps)

lemma add_owned_Ok: "add_owned F storage c s = Ok s' \<longleftrightarrow> elements (cn_shape c) = Ok (length (cn_data c)) \<and>
    (\<forall>x \<in> set (cn_data c). fl_finite F x) \<and> s' = add_value (owned_value storage c) s"
  by (auto simp: add_owned_def owned_value_def outcome_simps)

lemma add_inputs:
  assumes "fold_out add_input ts s = Ok s'" and "source_inv F vs s" and "distinct (map vl_name vs @ map ts_name ts)"
  shows "source_inv F (vs @ map input_value ts) s'"
  using assms
proof (induction ts arbitrary: vs s)
  case (Cons t ts)
  from Cons.prems(1) obtain n where n: "elements (ts_shape t) = Ok n" "fold_out add_input ts (add_value (input_value t) s) = Ok s'"
    by (auto simp: add_input_Ok outcome_simps)
  have "value_legal F (input_value t)" using elements_prod [OF n(1)] by (simp add: value_legal_def)
  moreover have "ids_ok (add_value (input_value t) s)"
    using Cons.prems by (intro ids_ok_add) (auto simp: source_inv_def)
  ultimately have "source_inv F (vs @ [input_value t]) (add_value (input_value t) s)" using Cons.prems(2) by (auto simp: source_inv_def)
  from Cons.IH [OF n(2) this] Cons.prems(3) show ?case by auto
qed simp

lemma add_owneds:
  assumes "fold_out (add_owned F storage) cs s = Ok s'" and "source_inv F vs s" and "storage = ConstantStorage \<or> storage = StateStorage"
    and "distinct (map vl_name vs @ map cn_name cs)"
  shows "source_inv F (vs @ map (owned_value storage) cs) s'"
  using assms
proof (induction cs arbitrary: vs s)
  case (Cons c cs)
  from Cons.prems(1) obtain n where n: "elements (cn_shape c) = Ok n" "n = length (cn_data c)" "\<forall>x \<in> set (cn_data c). fl_finite F x"
      "fold_out (add_owned F storage) cs (add_value (owned_value storage c) s) = Ok s'"
    by (auto simp: add_owned_Ok outcome_simps)
  have "value_legal F (owned_value storage c)" using elements_prod [OF n(1)] n(2,3) Cons.prems(3) by (auto simp: value_legal_def)
  moreover have "ids_ok (add_value (owned_value storage c) s)"
    using Cons.prems by (intro ids_ok_add) (auto simp: source_inv_def)
  ultimately have "source_inv F (vs @ [owned_value storage c]) (add_value (owned_value storage c) s)" using Cons.prems(2) by (auto simp: source_inv_def)
  from Cons.IH [OF n(4) this Cons.prems(3)] Cons.prems(4) show ?case by auto
qed simp

section \<open>Placing the nodes\<close>

definition placing_inv :: "'f float_ops \<Rightarrow> 'f plan_value list \<Rightarrow> logical_node list \<Rightarrow> (string, logical_node) btmap \<Rightarrow> 'f typing_state \<Rightarrow> bool" where
  "placing_inv F src all pending s \<longleftrightarrow> ids_ok s \<and> (\<forall>v \<in> set (ty_values s). value_legal F v) \<and>
     take (length src) (ty_values s) = src \<and> length (ty_values s) = length src + length (ty_nodes s) \<and>
     (\<forall>k < length (ty_nodes s). node_legal (ty_values s) (length src) k (ty_nodes s ! k)) \<and>
     bt_wf pending \<and> (\<forall>(x, n) \<in> set pending. x = ln_name n \<and> x \<notin> vl_name ` set (ty_values s)) \<and>
     (\<exists>placed. list_all2 (node_matches (ty_values s)) (ty_nodes s) placed \<and> set placed \<union> snd ` set pending = set all)"

lemma shapes_at_append: "\<forall>i \<in> set is. i < length vs \<Longrightarrow> shapes_at (vs @ ws) is = shapes_at vs is"
  by (auto simp: shapes_at_def nth_append)

lemma node_legal_append:
  assumes "node_legal vs base k n" shows "node_legal (vs @ ws) base k n"
proof -
  have "\<forall>i \<in> set (tn_inputs n). i < length vs" using assms by (auto simp: node_legal_def)
  then show ?thesis using assms by (simp add: node_legal_def nth_append shapes_at_append)
qed

lemma node_matches_append:
  assumes "node_matches vs t n" and "\<forall>i \<in> set (tn_inputs t). i < length vs" shows "node_matches (vs @ ws) t n"
proof -
  have same: "map (name_at (vs @ ws)) (tn_inputs t) = map (name_at vs) (tn_inputs t)" using assms(2) by (auto simp: name_at_def nth_append)
  show ?thesis using assms(1) unfolding node_matches_def same .
qed

lemma place_node_Ok:
  assumes "place_node name n s = Ok s'" and ok: "ids_ok s"
  shows "\<exists>inputs dims. map (name_at (ty_values s)) inputs = ln_inputs n \<and> (\<forall>i \<in> set inputs. i < length (ty_values s)) \<and>
    op_shape (ln_op n) (shapes_at (ty_values s) inputs) = Ok dims \<and> elements dims = Ok (prod_list dims) \<and>
    s' = (add_value \<lparr>vl_name = name, vl_shape = dims, vl_storage = ArenaStorage, vl_initial = None\<rparr> s)
      \<lparr>ty_nodes := ty_nodes s @ [\<lparr>tn_name = name, tn_op = ln_op n, tn_inputs = inputs, tn_output = length (ty_values s)\<rparr>]\<rparr>"
proof -
  obtain inputs shapes dims m where c: "collect (\<lambda>x. unwrap (map_of (ty_ids s) x)) (ln_inputs n) = Ok inputs"
      "collect (shape_of (ty_values s)) inputs = Ok shapes" "op_shape (ln_op n) shapes = Ok dims" "elements dims = Ok m"
      "s' = (add_value \<lparr>vl_name = name, vl_shape = dims, vl_storage = ArenaStorage, vl_initial = None\<rparr> s)
      \<lparr>ty_nodes := ty_nodes s @ [\<lparr>tn_name = name, tn_op = ln_op n, tn_inputs = inputs, tn_output = length (ty_values s)\<rparr>]\<rparr>"
    using assms(1) by (auto simp: place_node_def outcome_simps)
  have at: "inputs ! q < length (ty_values s) \<and> name_at (ty_values s) (inputs ! q) = ln_inputs n ! q" if "q < length (ln_inputs n)" for q
    using c(1) that ok by (simp add: collect_Ok_iff outcome_simps ids_okD)
  have len: "length inputs = length (ln_inputs n)" using c(1) by (rule collect_length)
  have names: "map (name_at (ty_values s)) inputs = ln_inputs n" using at len by (intro nth_equalityI) auto
  have range: "\<forall>i \<in> set inputs. i < length (ty_values s)" using at len by (auto simp: in_set_conv_nth)
  have "shapes = shapes_at (ty_values s) inputs"
    using c(2) by (intro nth_equalityI) (auto simp: collect_Ok_iff shapes_at_def shape_of_def outcome_simps)
  then show ?thesis using c names range elements_prod [OF c(4)] by blast
qed

lemma place_node_inv:
  assumes inv: "placing_inv F src all pending s" and name: "(name, n) \<in> set pending" and step: "place_node name n s = Ok s'"
  shows "placing_inv F src all (bt_remove name pending) s'"
proof -
  have ok: "ids_ok s" and wf: "bt_wf pending" using inv by (simp_all add: placing_inv_def)
  obtain inputs dims where c: "map (name_at (ty_values s)) inputs = ln_inputs n" "\<forall>i \<in> set inputs. i < length (ty_values s)"
      "op_shape (ln_op n) (shapes_at (ty_values s) inputs) = Ok dims" "elements dims = Ok (prod_list dims)"
      "s' = (add_value \<lparr>vl_name = name, vl_shape = dims, vl_storage = ArenaStorage, vl_initial = None\<rparr> s)
      \<lparr>ty_nodes := ty_nodes s @ [\<lparr>tn_name = name, tn_op = ln_op n, tn_inputs = inputs, tn_output = length (ty_values s)\<rparr>]\<rparr>"
    using place_node_Ok [OF step ok] by blast
  let ?v = "\<lparr>vl_name = name, vl_shape = dims, vl_storage = ArenaStorage, vl_initial = None\<rparr>"
    and ?t = "\<lparr>tn_name = name, tn_op = ln_op n, tn_inputs = inputs, tn_output = length (ty_values s)\<rparr>" and ?vs = "ty_values s"
  have fresh: "name = ln_name n" "name \<notin> vl_name ` set ?vs" using inv name by (auto simp: placing_inv_def)
  have s': "ty_values s' = ?vs @ [?v]" "ty_nodes s' = ty_nodes s @ [?t]" using c(5) by simp_all
  have "ids_ok (add_value ?v s)" using ok fresh(2) by (intro ids_ok_add) simp_all
  then have 1: "ids_ok s'" using c(5) by (simp add: ids_ok_def)
  have 2: "\<forall>v \<in> set (ty_values s'). value_legal F v" using inv c(4) by (auto simp: s' placing_inv_def value_legal_def)
  have len: "length ?vs = length src + length (ty_nodes s)" "take (length src) ?vs = src" using inv by (simp_all add: placing_inv_def)
  have old: "node_legal ?vs (length src) k (ty_nodes s ! k)" if "k < length (ty_nodes s)" for k using inv that by (simp add: placing_inv_def)
  have "shapes_at (?vs @ [?v]) inputs = shapes_at ?vs inputs" using c(2) by (auto simp: shapes_at_def nth_append)
  then have "node_legal (?vs @ [?v]) (length src) (length (ty_nodes s)) ?t" using c(2,3) len(1) by (simp add: node_legal_def nth_append)
  then have 3: "\<forall>k < length (ty_nodes s'). node_legal (ty_values s') (length src) k (ty_nodes s' ! k)"
    using node_legal_append [OF old] by (auto simp: s' nth_append less_Suc_eq)
  have gone: "set (bt_remove name pending) = {e \<in> set pending. fst e \<noteq> name}" by (auto simp: bt_remove_def)
  have 4: "\<forall>(x, n) \<in> set (bt_remove name pending). x = ln_name n \<and> x \<notin> vl_name ` set (ty_values s')"
    using inv by (auto simp: gone s' placing_inv_def)
  have "{e \<in> set pending. fst e = name} = {(name, n)}" using name wf by (auto simp: bt_in_get)
  then have split: "snd ` set pending = insert n (snd ` set (bt_remove name pending))" unfolding gone using name by force
  obtain placed where p: "list_all2 (node_matches ?vs) (ty_nodes s) placed" "set placed \<union> snd ` set pending = set all"
    using inv by (auto simp: placing_inv_def)
  have "node_matches (?vs @ [?v]) t m" if t: "t \<in> set (ty_nodes s)" and m: "node_matches ?vs t m" for t m
  proof -
    obtain k where "k < length (ty_nodes s)" "t = ty_nodes s ! k" using t by (auto simp: in_set_conv_nth)
    then have "\<forall>i \<in> set (tn_inputs t). i < length ?vs" using old [of k] by (auto simp: node_legal_def)
    then show ?thesis using m by (rule node_matches_append [rotated])
  qed
  then have "list_all2 (node_matches (?vs @ [?v])) (ty_nodes s) placed" using p(1) by (auto intro: list.rel_mono_strong)
  moreover have "node_matches (?vs @ [?v]) ?t n" using c(1,2) fresh(1) by (intro node_matches_append) (simp_all add: node_matches_def)
  ultimately have 5: "list_all2 (node_matches (ty_values s')) (ty_nodes s') (placed @ [n])"
    by (simp add: s' list_all2_appendI)
  have 6: "take (length src) (ty_values s') = src" "length (ty_values s') = length src + length (ty_nodes s')" using len by (simp_all add: s')
  have 7: "set (placed @ [n]) \<union> snd ` set (bt_remove name pending) = set all" using split p(2) by simp
  show ?thesis unfolding placing_inv_def using 1 2 3 4 5 6 7 bt_wf_remove [OF wf] by blast
qed

lemma place_nodes_inv: "place_nodes pending s = Ok s' \<Longrightarrow> placing_inv F src all pending s \<Longrightarrow> placing_inv F src all [] s'"
proof (induction pending s rule: place_nodes.induct)
  case (1 pending s)
  show ?case
  proof (cases "pending = []")
    case False
    then obtain name n where r: "ready_node s pending = Some (name, n)" using 1(2) by (subst (asm) place_nodes.simps) (auto split: option.splits)
    then obtain s1 where s1: "place_node name n s = Ok s1" "place_nodes (bt_remove name pending) s1 = Ok s'"
      using 1(2) False by (subst (asm) place_nodes.simps) (auto simp: outcome_simps)
    have "placing_inv F src all (bt_remove name pending) s1" using 1(3) ready_node_in [OF r] s1(1) by (intro place_node_inv) auto
    then show ?thesis using 1(1) [OF False r refl s1(2)] by blast
  qed (use 1 in \<open>simp add: place_nodes.simps\<close>)
qed

section \<open>Outputs and updates\<close>

lemma resolved_outputs:
  assumes "collect (resolve s) names = Ok outputs" and "ids_ok s"
  shows "map (name_at (ty_values s)) outputs = names \<and> (\<forall>i \<in> set outputs. i < length (ty_values s))"
proof -
  have at: "outputs ! q < length (ty_values s) \<and> name_at (ty_values s) (outputs ! q) = names ! q" if "q < length names" for q
    using assms that by (simp add: collect_Ok_iff resolve_def outcome_simps ids_okD)
  have "length outputs = length names" using assms(1) by (rule collect_length)
  then show ?thesis using at by (auto simp: in_set_conv_nth intro!: nth_equalityI)
qed

definition update_legal :: "'f plan_value list \<Rightarrow> nat \<times> nat \<Rightarrow> bool" where
  "update_legal vs = (\<lambda>(x, y). x < length vs \<and> y < length vs \<and> vl_storage (vs ! x) = StateStorage \<and> vl_shape (vs ! x) = vl_shape (vs ! y))"

abbreviation names_of_update :: "'f plan_value list \<Rightarrow> nat \<times> nat \<Rightarrow> string \<times> string" where
  "names_of_update vs \<equiv> \<lambda>(x, y). (name_at vs x, name_at vs y)"

lemma add_update_Ok:
  assumes "add_update s (target, source) us = Ok us'" and "ids_ok s"
  shows "\<exists>x y. us' = bt_insert x y us \<and> update_legal (ty_values s) (x, y) \<and> names_of_update (ty_values s) (x, y) = (target, source)"
  using assms by (auto simp: add_update_def resolve_def outcome_simps ids_okD update_legal_def)

lemma set_bt_insert: "bt_wf m \<Longrightarrow> set (bt_insert k v m) = insert (k, v) {e \<in> set m. fst e \<noteq> k}"
proof -
  assume wf: "bt_wf m"
  have "(a, b) \<in> set (bt_insert k v m) \<longleftrightarrow> (a, b) \<in> insert (k, v) {e \<in> set m. fst e \<noteq> k}" for a b
    using bt_in_get [OF bt_wf_insert [OF wf]] bt_in_get [OF wf] by auto
  then show ?thesis by auto
qed

lemma add_updates:
  assumes "fold_out (add_update s) us acc = Ok us'" and ok: "ids_ok s"
    and "bt_wf acc" and "\<forall>u \<in> set acc. update_legal (ty_values s) u" and "distinct (map fst us)"
    and "name_at (ty_values s) ` fst ` set acc \<inter> fst ` set us = {}"
  shows "bt_wf us' \<and> (\<forall>u \<in> set us'. update_legal (ty_values s) u) \<and>
    names_of_update (ty_values s) ` set us' = names_of_update (ty_values s) ` set acc \<union> set us"
  using assms(1,3-)
proof (induction us arbitrary: acc)
  case (Cons u us)
  obtain target source where u: "u = (target, source)" by (cases u)
  from Cons.prems(1) obtain acc1 where a: "add_update s (target, source) acc = Ok acc1" "fold_out (add_update s) us acc1 = Ok us'"
    by (auto simp: u outcome_simps)
  obtain x y where xy: "acc1 = bt_insert x y acc" "update_legal (ty_values s) (x, y)" "name_at (ty_values s) x = target" "name_at (ty_values s) y = source"
    using add_update_Ok [OF a(1) ok] by auto
  have "x \<notin> fst ` set acc" using Cons.prems(5) xy(3) by (auto simp: u)
  then have set1: "set acc1 = insert (x, y) (set acc)" using set_bt_insert [OF Cons.prems(2)] unfolding xy(1) by force
  have "name_at (ty_values s) ` fst ` set acc1 \<inter> fst ` set us = {}" using Cons.prems(4,5) xy(3) unfolding set1 by (auto simp: u)
  moreover have "bt_wf acc1" "\<forall>u \<in> set acc1. update_legal (ty_values s) u" using Cons.prems(2,3) xy(2) bt_wf_insert unfolding set1 by (auto simp: xy(1))
  ultimately have "bt_wf us' \<and> (\<forall>u \<in> set us'. update_legal (ty_values s) u) \<and>
      names_of_update (ty_values s) ` set us' = names_of_update (ty_values s) ` set acc1 \<union> set us"
    using Cons.IH [OF a(2)] Cons.prems(4) by simp
  then show ?case using xy(3,4) by (simp add: set1 u)
qed simp

section \<open>Typing\<close>

lemma set_bt_collect: "distinct (map fst xs) \<Longrightarrow> set (bt_collect xs) = set xs"
proof -
  assume d: "distinct (map fst xs)"
  have "(k, v) \<in> set (bt_collect xs) \<longleftrightarrow> (k, v) \<in> set xs" for k v
    using bt_in_get [OF bt_wf_collect, of k v xs] d by (simp add: map_of_bt_collect_distinct)
  then show ?thesis by auto
qed

lemma placing_start:
  assumes "source_inv F (source_values g) s" and "distinct (map vl_name (source_values g) @ map ln_name (lg_nodes g))"
  shows "placing_inv F (source_values g) (lg_nodes g) (bt_collect (map (\<lambda>n. (ln_name n, n)) (lg_nodes g))) s"
proof -
  let ?pending = "bt_collect (map (\<lambda>n. (ln_name n, n)) (lg_nodes g))"
  have keys: "distinct (map fst (map (\<lambda>n. (ln_name n, n)) (lg_nodes g)))" using assms(2) by (simp add: comp_def)
  have set: "set ?pending = set (map (\<lambda>n. (ln_name n, n)) (lg_nodes g))" using keys by (rule set_bt_collect)
  then have "snd ` set ?pending = set (lg_nodes g)" by (force simp: set)
  moreover have "\<forall>(x, n) \<in> set ?pending. x = ln_name n \<and> x \<notin> vl_name ` set (source_values g)"
    using assms(2) by (auto simp: set)
  ultimately show ?thesis using assms(1) by (simp add: placing_inv_def source_inv_def)
qed

lemma typing_start:
  assumes names: "fold_out check_name (logical_names g) [] = Ok names"
    and c: "fold_out add_input (lg_inputs g) \<lparr>ty_ids = [], ty_values = [], ty_nodes = []\<rparr> = Ok s1"
      "fold_out (add_owned F ConstantStorage) (lg_constants g) s1 = Ok s2" "fold_out (add_owned F StateStorage) (lg_states g) s2 = Ok s3"
  shows "placing_inv F (source_values g) (lg_nodes g) (bt_collect (map (\<lambda>n. (ln_name n, n)) (lg_nodes g))) s3"
proof -
  have dist: "distinct (logical_names g)" using check_names [OF names] by simp
  then have d: "distinct (map vl_name (source_values g) @ map ln_name (lg_nodes g))"
    by (simp add: logical_names_def source_values_def comp_def)
  have "source_inv F [] \<lparr>ty_ids = [], ty_values = [], ty_nodes = []\<rparr>" by (simp add: source_inv_def ids_ok_def)
  then have "source_inv F (map input_value (lg_inputs g)) s1"
    using add_inputs [OF c(1), of F "[]"] dist by (simp add: logical_names_def)
  then have "source_inv F (map input_value (lg_inputs g) @ map (owned_value ConstantStorage) (lg_constants g)) s2"
    using dist by (intro add_owneds [OF c(2)]) (auto simp: logical_names_def comp_def)
  then have "source_inv F (source_values g) s3"
    unfolding source_values_def append_assoc [symmetric] using dist
    by (intro add_owneds [OF c(3)]) (auto simp: logical_names_def comp_def)
  then show ?thesis using d by (rule placing_start)
qed

lemma typed_wf:
  assumes "typed F g = Ok t" and "distinct (map fst (lg_updates g))"
  shows "typed_legal F (length (source_values g)) t \<and> typing_of g t"
proof -
  let ?src = "source_values g" and ?pending = "bt_collect (map (\<lambda>n. (ln_name n, n)) (lg_nodes g))"
  obtain names s1 s2 s3 s outputs updates bytes where c: "lg_outputs g \<noteq> []"
      "fold_out check_name (logical_names g) [] = Ok names"
      "fold_out add_input (lg_inputs g) \<lparr>ty_ids = [], ty_values = [], ty_nodes = []\<rparr> = Ok s1"
      "fold_out (add_owned F ConstantStorage) (lg_constants g) s1 = Ok s2"
      "fold_out (add_owned F StateStorage) (lg_states g) s2 = Ok s3"
      "place_nodes ?pending s3 = Ok s" "collect (resolve s) (lg_outputs g) = Ok outputs"
      "length (bs_of outputs) = length outputs" "fold_out (add_update s) (lg_updates g) [] = Ok updates"
      "t = \<lparr>tg_version = PLAN_VERSION, tg_name = lg_name g, tg_values = ty_values s, tg_nodes = ty_nodes s,
         tg_outputs = outputs, tg_updates = updates\<rparr>"
    using assms(1) unfolding typed_def outcome_simps by blast
  have inv: "placing_inv F ?src (lg_nodes g) [] s"
    using place_nodes_inv [OF c(6)] typing_start [OF c(2-5)] by blast
  then have ok: "ids_ok s" by (simp add: placing_inv_def)
  note outs = resolved_outputs [OF c(7) ok]
  have ups: "bt_wf updates \<and> (\<forall>u \<in> set updates. update_legal (ty_values s) u) \<and> names_of_update (ty_values s) ` set updates = set (lg_updates g)"
    using add_updates [OF c(9) ok] assms(2) by simp
  have low: "vl_storage (ty_values s ! i) \<noteq> ArenaStorage" if "i < length ?src" for i
  proof -
    have "take (length ?src) (ty_values s) ! i = ?src ! i" using inv by (simp add: placing_inv_def)
    then have "ty_values s ! i \<in> set ?src" using that by simp
    then show ?thesis by (auto simp: source_values_def)
  qed
  have "distinct outputs" using c(8) by (metis card_distinct distinct_card set_bs_of bs_wf_distinct bs_wf_of)
  moreover have "outputs \<noteq> []" using c(1) collect_length [OF c(7)] by auto
  ultimately have "typed_legal F (length ?src) t"
    using inv outs ups low ids_ok_distinct [OF ok] by (simp add: typed_legal_def placing_inv_def c(10) update_legal_def)
  moreover have "typing_of g t"
    using inv outs ups by (auto simp: typing_of_def placing_inv_def c(10))
  ultimately show ?thesis by blast
qed

end
