(* ===== verification/Planner_Opt.thy ===== *)
theory Planner_Opt
  imports Planner_Typed Plan_Refine
begin

text \<open>
  The optimisations of the planner preserve the value of every result: removing dead nodes, folding constants
  and renumbering the values. The values of a typed graph are those of its nodes, evaluated in order.
\<close>

section \<open>Values of a typed graph\<close>

definition node_value :: "'f float_ops \<Rightarrow> 'f plan_value list \<Rightarrow> typed_node \<Rightarrow> 'f env \<Rightarrow> 'f list" where
  "node_value F vs n env = eval_op F (tn_op n) (shapes_at vs (tn_inputs n)) (map env (tn_inputs n))"

definition eval_nodes :: "'f float_ops \<Rightarrow> 'f plan_value list \<Rightarrow> typed_node list \<Rightarrow> 'f env \<Rightarrow> 'f env" where
  "eval_nodes F vs = fold (\<lambda>n env. env(tn_output n := node_value F vs n env))"

lemma eval_nodes_simps [simp]:
  "eval_nodes F vs [] env = env"
  "eval_nodes F vs (n # ns) env = eval_nodes F vs ns (env(tn_output n := node_value F vs n env))"
  "eval_nodes F vs (ms @ ns) env = eval_nodes F vs ns (eval_nodes F vs ms env)"
  by (simp_all add: eval_nodes_def)

lemma eval_nodes_other: "i \<notin> tn_output ` set ns \<Longrightarrow> eval_nodes F vs ns env i = env i"
  by (induction ns arbitrary: env) auto

lemma node_value_cong: "\<forall>i \<in> set (tn_inputs n). env i = env' i \<Longrightarrow> node_value F vs n env = node_value F vs n env'"
proof -
  assume "\<forall>i \<in> set (tn_inputs n). env i = env' i"
  then have "map env (tn_inputs n) = map env' (tn_inputs n)" by simp
  then show ?thesis unfolding node_value_def by (rule arg_cong)
qed

text \<open>Values a node list does not touch can be set earlier or after it.\<close>

lemma eval_nodes_update:
  assumes "\<forall>n \<in> set ns. tn_output n \<noteq> i \<and> i \<notin> set (tn_inputs n)"
  shows "eval_nodes F vs ns (env(i := v)) = (eval_nodes F vs ns env)(i := v)"
  using assms
proof (induction ns arbitrary: env)
  case (Cons n ns)
  have "node_value F vs n (env(i := v)) = node_value F vs n env" using Cons.prems by (intro node_value_cong) auto
  then have swap: "(env(i := v))(tn_output n := node_value F vs n (env(i := v))) = (env(tn_output n := node_value F vs n env))(i := v)"
    using Cons.prems by (auto simp: fun_upd_twist)
  show ?case unfolding eval_nodes_simps swap using Cons.prems by (intro Cons.IH) simp
qed simp

definition in_order :: "typed_node list \<Rightarrow> bool" where
  "in_order ns \<longleftrightarrow> sorted_wrt (\<lambda>m n. tn_output m < tn_output n) ns \<and> (\<forall>n \<in> set ns. \<forall>i \<in> set (tn_inputs n). i < tn_output n)"

lemma in_order_legal:
  assumes "\<forall>k < length ns. node_legal vs base k (ns ! k)" shows "in_order ns"
proof -
  have "tn_output (ns ! j) < tn_output (ns ! k)" if "j < k" "k < length ns" for j k
    using assms that by (simp add: node_legal_def)
  moreover have "\<forall>i \<in> set (tn_inputs n). i < tn_output n" if n: "n \<in> set ns" for n
  proof -
    obtain k where "k < length ns" "n = ns ! k" using n by (auto simp: in_set_conv_nth)
    then show ?thesis using assms by (simp add: node_legal_def)
  qed
  ultimately show ?thesis by (simp add: in_order_def sorted_wrt_iff_nth_less)
qed

lemma in_order_inj: "in_order ns \<Longrightarrow> inj_on tn_output (set ns)"
proof -
  assume "in_order ns"
  then have "sorted_wrt (<) (map tn_output ns)" by (simp add: in_order_def sorted_wrt_map)
  then have "distinct (map tn_output ns)" by (simp add: strict_sorted_iff)
  then show ?thesis by (simp add: distinct_map)
qed

lemma in_order_filter: "in_order ns \<Longrightarrow> in_order (filter P ns)"
  by (simp add: in_order_def sorted_wrt_filter)

lemma in_order_append:
  "in_order (ms @ ns) \<longleftrightarrow> in_order ms \<and> in_order ns \<and> (\<forall>m \<in> set ms. \<forall>n \<in> set ns. tn_output m < tn_output n)"
  by (auto simp: in_order_def sorted_wrt_append)

section \<open>Dead nodes\<close>

text \<open>The needed values contain the operands of every node that is kept.\<close>

lemma mark_needed_closed:
  assumes "fold (mark_needed debug) ns (needed, removed) = (needed', removed')"
    and "sorted_wrt (\<lambda>m n. tn_output n < tn_output m) ns" and "\<forall>n \<in> set ns. \<forall>i \<in> set (tn_inputs n). i < tn_output n"
  shows "set needed \<subseteq> set needed' \<and> (\<forall>n \<in> set ns. debug \<or> tn_output n \<in> set needed' \<longrightarrow> set (tn_inputs n) \<subseteq> set needed') \<and>
    (\<forall>i \<in> set needed' - set needed. \<exists>n \<in> set ns. i \<in> set (tn_inputs n))"
  using assms
proof (induction ns arbitrary: needed removed)
  case (Cons n ns)
  obtain needed1 removed1 where one: "mark_needed debug n (needed, removed) = (needed1, removed1)" by fastforce
  have sub: "set needed \<subseteq> set needed1" "set needed1 \<subseteq> set needed \<union> set (tn_inputs n)"
    "debug \<or> tn_output n \<in> set needed \<Longrightarrow> set (tn_inputs n) \<subseteq> set needed1" "\<not> (debug \<or> tn_output n \<in> set needed) \<Longrightarrow> needed1 = needed"
    using one by (auto simp: mark_needed_def split: if_splits)
  from Cons.prems(1) have "fold (mark_needed debug) ns (needed1, removed1) = (needed', removed')" by (simp add: one)
  from Cons.IH [OF this] Cons.prems(2,3) have ih: "set needed1 \<subseteq> set needed'"
    "\<forall>m \<in> set ns. debug \<or> tn_output m \<in> set needed' \<longrightarrow> set (tn_inputs m) \<subseteq> set needed'"
    "\<forall>i \<in> set needed' - set needed1. \<exists>m \<in> set ns. i \<in> set (tn_inputs m)" by auto
  have "set (tn_inputs n) \<subseteq> set needed'" if d: "debug \<or> tn_output n \<in> set needed'"
  proof (cases "debug \<or> tn_output n \<in> set needed")
    case False
    then have "tn_output n \<in> set needed' - set needed1" using d sub(4) by auto
    then obtain m where "m \<in> set ns" "tn_output n \<in> set (tn_inputs m)" using ih(3) by blast
    then have "tn_output n < tn_output m" "tn_output m < tn_output n" using Cons.prems(2,3) by auto
    then show ?thesis by simp
  qed (use sub(3) ih(1) in blast)
  then show ?case using ih sub by auto
qed simp

definition agree_on :: "nat set \<Rightarrow> 'f env \<Rightarrow> 'f env \<Rightarrow> bool" where
  "agree_on X env env' \<longleftrightarrow> (\<forall>i \<in> X. env i = env' i)"

lemma eval_live:
  assumes "\<forall>n \<in> set ns. tn_output n \<in> N \<longrightarrow> set (tn_inputs n) \<subseteq> N" and "agree_on N env env'"
  shows "agree_on N (eval_nodes F vs ns env) (eval_nodes F vs (filter (\<lambda>n. tn_output n \<in> N) ns) env')"
  using assms
proof (induction ns arbitrary: env env')
  case (Cons n ns)
  show ?case
  proof (cases "tn_output n \<in> N")
    case True
    then have "node_value F vs n env = node_value F vs n env'" using Cons.prems by (intro node_value_cong) (auto simp: agree_on_def)
    then have "agree_on N (env(tn_output n := node_value F vs n env)) (env'(tn_output n := node_value F vs n env'))"
      using Cons.prems(2) by (simp add: agree_on_def)
    then show ?thesis using Cons True by simp
  next
    case False
    then have "agree_on N (env(tn_output n := node_value F vs n env)) env'" using Cons.prems(2) by (auto simp: agree_on_def)
    then show ?thesis using Cons False by simp
  qed
qed simp

lemma dead_nodes:
  assumes "needed_values debug t = (needed, removed)" and "in_order (tg_nodes t)"
  shows "agree_on (set (tg_outputs t) \<union> snd ` set (tg_updates t) \<union> tn_output ` set (live_nodes debug needed (tg_nodes t)))
      (eval_nodes F vs (tg_nodes t) env) (eval_nodes F vs (live_nodes debug needed (tg_nodes t)) env)"
proof (cases debug)
  case True
  then show ?thesis by (simp add: live_nodes_def agree_on_def)
next
  case False
  have "sorted_wrt (\<lambda>m n. tn_output n < tn_output m) (rev (tg_nodes t))" "\<forall>n \<in> set (rev (tg_nodes t)). \<forall>i \<in> set (tn_inputs n). i < tn_output n"
    using assms(2) by (auto simp: in_order_def sorted_wrt_rev)
  from mark_needed_closed [OF assms(1) [unfolded needed_values_def] this] False
  have N: "set (tg_outputs t @ bt_values (tg_updates t)) \<subseteq> set needed"
    "\<forall>n \<in> set (tg_nodes t). tn_output n \<in> set needed \<longrightarrow> set (tn_inputs n) \<subseteq> set needed" by auto
  have "agree_on (set needed) (eval_nodes F vs (tg_nodes t) env) (eval_nodes F vs (live_nodes debug needed (tg_nodes t)) env)"
    using eval_live [OF N(2), of env env F vs] False by (simp add: live_nodes_def agree_on_def)
  then show ?thesis using N(1) False by (auto simp: agree_on_def live_nodes_def)
qed

section \<open>Folding\<close>

text \<open>Numbering and shapes stay what they were.\<close>

definition same_values :: "'f plan_value list \<Rightarrow> 'f plan_value list \<Rightarrow> bool" where
  "same_values vs ws \<longleftrightarrow> length ws = length vs \<and> (\<forall>i < length vs. vl_shape (ws ! i) = vl_shape (vs ! i) \<and> vl_name (ws ! i) = vl_name (vs ! i))"

lemma same_values_shapes: "same_values vs ws \<Longrightarrow> \<forall>i \<in> set is. i < length vs \<Longrightarrow> shapes_at ws is = shapes_at vs is"
  by (auto simp: same_values_def shapes_at_def)

definition is_constant :: "'f plan_value list \<Rightarrow> nat \<Rightarrow> bool" where
  "is_constant vs i \<longleftrightarrow> i < length vs \<and> vl_storage (vs ! i) = ConstantStorage"

definition const_env :: "'f plan_value list \<Rightarrow> 'f env \<Rightarrow> 'f env" where
  "const_env vs env i = (if is_constant vs i then the (vl_initial (vs ! i)) else env i)"

lemma constant_initial:
  assumes "is_constant vs i" and "\<forall>v \<in> set vs. value_legal F v"
  shows "initial_of vs i = Ok (const_env vs env i) \<and> length (const_env vs env i) = prod_list (vl_shape (vs ! i))"
proof -
  have "value_legal F (vs ! i)" using assms by (simp add: is_constant_def)
  then show ?thesis using assms(1) by (auto simp: is_constant_def value_legal_def initial_of_def index_at_def const_env_def)
qed

lemma fold_constant_value:
  assumes shape: "op_shape (tn_op n) (shapes_at vs (tn_inputs n)) = Ok (vl_shape (vs ! tn_output n))" and out: "tn_output n < length vs"
    and size: "elements (vl_shape (vs ! tn_output n)) = Ok (prod_list (vl_shape (vs ! tn_output n)))"
    and ins: "\<forall>i \<in> set (tn_inputs n). i < length vs \<and> initial_of vs i = Ok (env i) \<and> length (env i) = prod_list (vl_shape (vs ! i))"
  shows "fold_constant F n vs = Ok (node_value F vs n env)"
proof -
  define s where "s = vl_shape (vs ! tn_output n)"
  define a where "a = env (tn_inputs n ! 0)"
  define b where "b = (if length (tn_inputs n) < 2 then None else Some (env (tn_inputs n ! 1)))"
  have "list_all2 (\<lambda>v sh. length v = prod_list sh) (map env (tn_inputs n)) (shapes_at vs (tn_inputs n))"
    using ins by (simp add: list_all2_conv_all_nth shapes_at_def)
  then have len: "length (node_value F vs n env) = prod_list s"
    using length_eval_op [OF shape] by (simp add: node_value_def s_def)
  have elem: "fold_element F n vs a b q = Ok (node_value F vs n env ! q)" if q: "q < prod_list s" for q
  proof (cases "tn_op n = Matmul")
    case True
    then obtain m k r where d: "shapes_at vs (tn_inputs n) = [[m, k], [k, r]]" "s = [m, r]" using shape by (auto simp: op_shape_Ok s_def)
    then obtain x y where xy: "tn_inputs n = [x, y]" "vl_shape (vs ! x) = [m, k]" "vl_shape (vs ! y) = [k, r]" by (auto simp: shapes_at_def map_eq_Cons_conv)
    have "r > 0" using size d(2) by (auto simp: s_def [symmetric] elements_Ok)
    then have cell: "q div r < m" "q mod r < r" using q d(2) by (simp_all add: less_mult_imp_div_less)
    have lens: "length (env x) = m * k" "length (env y) = k * r" "x < length vs" "y < length vs" using ins xy by simp_all
    have "fold_out (\<lambda>j acc. and_then (index_at a (q div r * k + j)) (\<lambda>u. and_then (unwrap b) (\<lambda>b. and_then (index_at b (j * r + q mod r)) (\<lambda>w. Ok (fl_add F acc (fl_mul F u w))))))
        [0..<k] (fl_zero F) = Ok (dot F (env x) (env y) r k (q div r) (q mod r))"
      unfolding dot_def using lens(1,2) cell
      by (intro fold_out_fold) (simp add: a_def b_def xy(1) index_at_def cell_within)
    then show ?thesis using True q d lens out
      by (simp add: fold_element_def node_value_def eval_op_def xy index_at_def shape_of_def s_def [symmetric])
  next
    case False
    then have x: "tn_inputs n \<noteq> []" "vl_shape (vs ! (tn_inputs n ! 0)) = s" "length a = prod_list s"
      using shape ins by (auto simp: op_shape_Ok shapes_at_def s_def a_def map_eq_Cons_conv split: if_splits)
    show ?thesis
    proof (cases "tn_op n = Relu")
      case True
      then show ?thesis using x q by (simp add: fold_element_def node_value_def eval_op_def index_at_def a_def)
    next
      case no: False
      then obtain u w where uw: "tn_inputs n = [u, w]" "vl_shape (vs ! u) = s" "vl_shape (vs ! w) = s"
        using False shape by (auto simp: op_shape_Ok shapes_at_def s_def map_eq_Cons_conv)
      then have "length (env w) = prod_list s" using ins by simp
      then show ?thesis using False no x(3) q uw(1)
        by (cases "tn_op n") (simp_all add: fold_element_def node_value_def eval_op_def index_at_def a_def b_def)
    qed
  qed
  have nonempty: "tn_inputs n \<noteq> []" using shape by (auto simp: op_shape_Ok shapes_at_def split: if_splits)
  have "initial_of vs (tn_inputs n ! 0) = Ok a" using ins nonempty by (simp add: a_def)
  moreover have "(case get_at (tn_inputs n) 1 of None \<Rightarrow> Ok None | Some q \<Rightarrow> and_then (initial_of vs q) (\<lambda>b. Ok (Some b))) = Ok b"
    using ins by (simp add: get_at_def b_def)
  moreover have "collect (fold_element F n vs a b) [0..<prod_list s] = Ok (node_value F vs n env)"
  proof -
    have "collect (fold_element F n vs a b) [0..<prod_list s] = Ok (map ((!) (node_value F vs n env)) [0..<prod_list s])"
      using elem by (intro collect_map) simp
    then show ?thesis using len map_nth [of "node_value F vs n env"] by simp
  qed
  ultimately show ?thesis using nonempty out size
    by (simp add: fold_constant_def index_at_def shape_of_def s_def [symmetric])
qed

definition node_ok :: "'f plan_value list \<Rightarrow> typed_node \<Rightarrow> bool" where
  "node_ok vs n \<longleftrightarrow> tn_output n < length vs \<and> vl_name (vs ! tn_output n) = tn_name n \<and> vl_storage (vs ! tn_output n) = ArenaStorage \<and>
     (\<forall>i \<in> set (tn_inputs n). i < tn_output n) \<and> op_shape (tn_op n) (shapes_at vs (tn_inputs n)) = Ok (vl_shape (vs ! tn_output n))"

lemma node_legal_ok: "node_legal vs base k n \<Longrightarrow> node_ok vs n"
  by (simp add: node_legal_def node_ok_def)

definition folding_inv :: "'f float_ops \<Rightarrow> 'f plan_value list \<Rightarrow> typed_node list \<Rightarrow> 'f folding_state \<Rightarrow> bool" where
  "folding_inv F vs past s \<longleftrightarrow> same_values vs (fd_values s) \<and> (\<forall>v \<in> set (fd_values s). value_legal F v) \<and>
     set (fd_retained s) \<subseteq> set past \<and> in_order (fd_retained s) \<and>
     (\<forall>i < length vs. i \<notin> tn_output ` (set past - set (fd_retained s)) \<longrightarrow> fd_values s ! i = vs ! i) \<and>
     (\<forall>n \<in> set past - set (fd_retained s). is_constant (fd_values s) (tn_output n)) \<and>
     (\<forall>env. eval_nodes F vs (fd_retained s) (const_env (fd_values s) env) = eval_nodes F vs past (const_env vs env))"

lemma any_out_False: "any_out f xs = Ok False \<longleftrightarrow> (\<forall>x \<in> set xs. f x = Ok False)"
  by (induction xs) (auto simp: outcome_simps split: if_splits)

lemma fold_node_Ok:
  assumes "fold_node F opts n s = Ok s'"
  shows "s' = s\<lparr>fd_retained := fd_retained s @ [n]\<rparr> \<or>
    (\<exists>data. (\<forall>i \<in> set (tn_inputs n). is_constant (fd_values s) i) \<and> fold_constant F n (fd_values s) = Ok data \<and> (\<forall>x \<in> set data. fl_finite F x) \<and>
       s' = s\<lparr>fd_values := (fd_values s)[tn_output n := (fd_values s ! tn_output n)\<lparr>vl_storage := ConstantStorage, vl_initial := Some data\<rparr>],
         fd_folded := fd_folded s @ [tn_name n]\<rparr>)"
proof -
  obtain work :: nat and keep where k: "(if co_debug opts \<or> map_of (co_kernel_overrides opts) (tn_name n) \<noteq> None \<or> work > 4096 then Ok True
       else any_out (\<lambda>i. and_then (index_at (fd_values s) i) (\<lambda>v. Ok (vl_storage v \<noteq> ConstantStorage))) (tn_inputs n)) = Ok keep"
      "(if keep then Ok (s\<lparr>fd_retained := fd_retained s @ [n]\<rparr>)
     else
       and_then (fold_constant F n (fd_values s)) (\<lambda>data.
       and_then (reject (\<exists>x \<in> set data. \<not> fl_finite F x) (invalid ''nonfinite constant-folded result'')) (\<lambda>_.
       and_then (index_at (fd_values s) (tn_output n)) (\<lambda>v.
       and_then (assign_at (fd_values s) (tn_output n) (v\<lparr>vl_storage := ConstantStorage, vl_initial := Some data\<rparr>)) (\<lambda>vs.
       Ok (s\<lparr>fd_values := vs, fd_folded := fd_folded s @ [tn_name n]\<rparr>)))))) = Ok s'"
    using assms unfolding fold_node_def and_then_Ok_iff by blast
  show ?thesis
  proof (cases keep)
    case False
    then have "\<forall>i \<in> set (tn_inputs n). is_constant (fd_values s) i"
      using k(1) by (auto simp: any_out_False outcome_simps is_constant_def index_at_def split: if_splits)
    then show ?thesis using k(2) False by (auto simp: outcome_simps)
  qed (use k(2) in simp)
qed

lemma is_constant_update:
  "x < length vs \<Longrightarrow> is_constant (vs[x := v\<lparr>vl_storage := ConstantStorage, vl_initial := Some d\<rparr>]) i \<longleftrightarrow> i = x \<or> is_constant vs i"
  by (auto simp: is_constant_def nth_list_update)

lemma const_env_update:
  "x < length vs \<Longrightarrow> const_env (vs[x := v\<lparr>vl_storage := ConstantStorage, vl_initial := Some d\<rparr>]) env = (const_env vs env)(x := d)"
  by (rule ext) (auto simp: const_env_def is_constant_def nth_list_update)

lemma fold_node_inv:
  assumes inv: "folding_inv F vs past s" and step: "fold_node F opts n s = Ok s'" and order: "in_order (past @ [n])"
    and n: "node_ok vs n" and ok: "\<forall>m \<in> set past. node_ok vs m"
  shows "folding_inv F vs (past @ [n]) s'"
proof -
  let ?ws = "fd_values s" and ?o = "tn_output n"
  have same: "same_values vs ?ws" and legal: "\<forall>v \<in> set ?ws. value_legal F v" and sub: "set (fd_retained s) \<subseteq> set past" and ret: "in_order (fd_retained s)"
    and old: "\<And>i. i < length vs \<Longrightarrow> i \<notin> tn_output ` (set past - set (fd_retained s)) \<Longrightarrow> ?ws ! i = vs ! i"
    and fixed: "\<forall>m \<in> set past - set (fd_retained s). is_constant ?ws (tn_output m)"
    and eval: "\<And>env. eval_nodes F vs (fd_retained s) (const_env ?ws env) = eval_nodes F vs past (const_env vs env)"
    using inv by (simp_all add: folding_inv_def)
  have earlier: "tn_output m < ?o" if "m \<in> set past" for m using order that by (auto simp: in_order_append)
  then have new: "n \<notin> set past" by blast
  consider (keep) "s' = s\<lparr>fd_retained := fd_retained s @ [n]\<rparr>" |
    (drop) data where "\<forall>i \<in> set (tn_inputs n). is_constant ?ws i" "fold_constant F n ?ws = Ok data" "\<forall>x \<in> set data. fl_finite F x"
       "s' = s\<lparr>fd_values := ?ws[?o := (?ws ! ?o)\<lparr>vl_storage := ConstantStorage, vl_initial := Some data\<rparr>], fd_folded := fd_folded s @ [tn_name n]\<rparr>"
    using fold_node_Ok [OF step] by blast
  then show ?thesis
  proof cases
    case keep
    have "in_order (fd_retained s @ [n])" using ret order sub earlier by (auto simp: in_order_append)
    moreover have "set past \<union> {n} - (set (fd_retained s) \<union> {n}) = set past - set (fd_retained s)" using new by auto
    ultimately show ?thesis using same legal sub old fixed eval unfolding folding_inv_def by (simp add: keep) blast
  next
    case drop
    let ?v = "(?ws ! ?o)\<lparr>vl_storage := ConstantStorage, vl_initial := Some data\<rparr>"
    have o: "?o < length ?ws" "length ?ws = length vs" using n same by (auto simp: node_ok_def same_values_def)
    have "\<forall>i \<in> set (tn_inputs n). i < length vs" using n by (fastforce simp: node_ok_def)
    note shapes = same_values_shapes [OF same this]
    have shape: "op_shape (tn_op n) (shapes_at ?ws (tn_inputs n)) = Ok (vl_shape (?ws ! ?o))"
      using n same by (auto simp: node_ok_def same_values_def shapes)
    have legal_o: "value_legal F (?ws ! ?o)" using legal o by simp
    then have size: "elements (vl_shape (?ws ! ?o)) = Ok (prod_list (vl_shape (?ws ! ?o)))" by (simp add: value_legal_def)
    have ins: "initial_of ?ws i = Ok (const_env ?ws env i) \<and> length (const_env ?ws env i) = prod_list (vl_shape (?ws ! i)) \<and> i < length ?ws"
      if "i \<in> set (tn_inputs n)" for i env
      using drop(1) that constant_initial [OF _ legal] by (auto simp: is_constant_def)
    have data: "data = node_value F ?ws n (const_env ?ws env)" for env
      using fold_constant_value [OF shape o(1) size, of "const_env ?ws env" F] ins drop(2) by simp
    have arena: "vl_storage (?ws ! tn_output m) = ArenaStorage" if "m \<in> set (fd_retained s)" for m
    proof -
      have "m \<in> set past" using that sub by blast
      moreover have "tn_output m \<notin> tn_output ` (set past - set (fd_retained s))"
      proof
        assume "tn_output m \<in> tn_output ` (set past - set (fd_retained s))"
        then obtain m' where m': "m' \<in> set past" "m' \<notin> set (fd_retained s)" "tn_output m' = tn_output m" by auto
        have "inj_on tn_output (set past)" using order by (simp add: in_order_append in_order_inj)
        then show False using m' \<open>m \<in> set past\<close> that by (auto dest: inj_onD)
      qed
      ultimately show ?thesis using old ok by (simp add: node_ok_def)
    qed
    have untouched: "eval_nodes F vs (fd_retained s) e i = e i" if "i \<in> set (tn_inputs n)" for i e
      using arena drop(1) that by (intro eval_nodes_other) (auto simp: is_constant_def)
    have folded: "node_value F vs n (eval_nodes F vs past (const_env vs env)) = data" for env
    proof -
      have "node_value F ?ws n (const_env ?ws env) = node_value F ?ws n (eval_nodes F vs (fd_retained s) (const_env ?ws env))"
        using untouched by (intro node_value_cong) simp
      then show ?thesis unfolding data [of env] eval by (simp add: node_value_def shapes)
    qed
    have apart: "\<forall>m \<in> set (fd_retained s). tn_output m \<noteq> ?o \<and> ?o \<notin> set (tn_inputs m)"
    proof
      fix m assume "m \<in> set (fd_retained s)"
      then have "tn_output m < ?o" "\<forall>i \<in> set (tn_inputs m). i < tn_output m" using earlier sub ok by (auto simp: node_ok_def)
      then show "tn_output m \<noteq> ?o \<and> ?o \<notin> set (tn_inputs m)" by auto
    qed
    have 1: "eval_nodes F vs (fd_retained s) (const_env (?ws[?o := ?v]) env) = eval_nodes F vs (past @ [n]) (const_env vs env)" for env
      unfolding const_env_update [OF o(1)] eval_nodes_update [OF apart] eval by (simp add: folded)
    have len: "length data = prod_list (vl_shape (?ws ! ?o))"
    proof -
      have "list_all2 (\<lambda>v sh. length v = prod_list sh) (map (const_env ?ws undefined) (tn_inputs n)) (shapes_at ?ws (tn_inputs n))"
        using ins by (simp add: list_all2_conv_all_nth shapes_at_def)
      from length_eval_op [OF shape this] show ?thesis unfolding data [of undefined] by (simp add: node_value_def)
    qed
    have 2: "\<forall>v \<in> set (?ws[?o := ?v]). value_legal F v"
      using legal set_update_subset_insert [of ?ws ?o ?v] size len drop(3) by (auto simp: value_legal_def)
    have 3: "same_values vs (?ws[?o := ?v])" using same o by (auto simp: same_values_def nth_list_update)
    have 4: "?ws[?o := ?v] ! i = vs ! i" if "i < length vs" "i \<notin> tn_output ` (set (past @ [n]) - set (fd_retained s))" for i
    proof -
      have "i \<noteq> ?o" "i \<notin> tn_output ` (set past - set (fd_retained s))" using that new sub by auto
      then show ?thesis using old that(1) by simp
    qed
    have 5: "\<forall>m \<in> set (past @ [n]) - set (fd_retained s). is_constant (?ws[?o := ?v]) (tn_output m)"
      using fixed is_constant_update [OF o(1)] by auto
    show ?thesis unfolding folding_inv_def using 1 2 3 4 5 sub ret by (simp add: drop(4)) blast
  qed
qed

lemma fold_nodes_inv:
  "fold_out (fold_node F opts) ns s = Ok s' \<Longrightarrow> folding_inv F vs past s \<Longrightarrow> in_order (past @ ns) \<Longrightarrow> \<forall>n \<in> set (past @ ns). node_ok vs n \<Longrightarrow>
     folding_inv F vs (past @ ns) s'"
proof (induction ns arbitrary: past s)
  case (Cons n ns)
  then obtain s1 where s1: "fold_node F opts n s = Ok s1" "fold_out (fold_node F opts) ns s1 = Ok s'" by (auto simp: outcome_simps)
  have "in_order (past @ [n])" using Cons.prems(3) in_order_append [of "past @ [n]" ns] by simp
  then have "folding_inv F vs (past @ [n]) s1" using fold_node_inv [OF Cons.prems(2) s1(1)] Cons.prems(4) by simp
  from Cons.IH [OF s1(2) this] Cons.prems(3,4) show ?case by simp
qed simp

end
