(* ===== verification/Planner_Compact.thy ===== *)
theory Planner_Compact
  imports Planner_Opt
begin

text \<open>
  Compaction renumbers the values that are kept, in order, and every use of them: the values of the
  renumbered graph are those of the original.
\<close>

section \<open>The numbers of the kept values\<close>

definition kept_at :: "'f plan_value list \<Rightarrow> nat btset \<Rightarrow> nat \<Rightarrow> bool" where
  "kept_at vs runtime i \<longleftrightarrow> vl_storage (vs ! i) = InputStorage \<or> vl_storage (vs ! i) = StateStorage \<or> i \<in> set runtime"

definition kept_ids :: "'f plan_value list \<Rightarrow> nat btset \<Rightarrow> nat \<Rightarrow> nat list" where
  "kept_ids vs runtime k = filter (kept_at vs runtime) [0..<k]"

definition new_id :: "'f plan_value list \<Rightarrow> nat btset \<Rightarrow> nat \<Rightarrow> nat" where
  "new_id vs runtime i = length (kept_ids vs runtime i)"

lemma compact_values:
  assumes "fold (compact_value runtime) (zip [0..<length vs] vs) ([], []) = (remap, kept)"
  shows "(\<forall>i. map_of remap i = (if i < length vs \<and> kept_at vs runtime i then Some (new_id vs runtime i) else None)) \<and>
    kept = map ((!) vs) (kept_ids vs runtime (length vs))"
proof -
  define S where "S k = fold (compact_value runtime) (zip [0..<k] (take k vs)) ([], [])" for k
  have "(\<forall>i. map_of (fst (S k)) i = (if i < k \<and> kept_at vs runtime i then Some (new_id vs runtime i) else None)) \<and>
      snd (S k) = map ((!) vs) (kept_ids vs runtime k)" if "k \<le> length vs" for k
    using that
  proof (induction k)
    case 0
    then show ?case by (simp add: S_def kept_ids_def)
  next
    case (Suc k)
    then have "S (Suc k) = compact_value runtime (k, vs ! k) (S k)" by (simp add: S_def take_Suc_conv_app_nth)
    then show ?case using Suc
      by (cases "S k") (auto simp: compact_value_def kept_ids_def kept_at_def new_id_def less_Suc_eq)
  qed
  from this [of "length vs"] show ?thesis using assms by (simp add: S_def)
qed

lemma new_id_less: "kept_at vs runtime i \<Longrightarrow> i < j \<Longrightarrow> new_id vs runtime i < new_id vs runtime j"
proof -
  assume i: "kept_at vs runtime i" "i < j"
  then have "[0..<j] = [0..<i] @ i # [Suc i..<j]" by (metis le_add1 plus_nat.add_0 upt_add_eq_append upt_conv_Cons less_imp_le_nat le_add_diff_inverse)
  then show ?thesis using i(1) by (simp add: new_id_def kept_ids_def)
qed

lemma new_id_nth:
  assumes "i < n" and "kept_at vs runtime i"
  shows "new_id vs runtime i < length (kept_ids vs runtime n) \<and> kept_ids vs runtime n ! new_id vs runtime i = i"
proof -
  have "[0..<n] = [0..<i] @ i # [Suc i..<n]" using assms(1) by (metis le_add1 plus_nat.add_0 upt_add_eq_append upt_conv_Cons less_imp_le_nat le_add_diff_inverse)
  then show ?thesis using assms(2) by (simp add: new_id_def kept_ids_def nth_append)
qed

section \<open>Renumbered graphs\<close>

definition rename_node :: "(nat \<Rightarrow> nat) \<Rightarrow> typed_node \<Rightarrow> typed_node" where
  "rename_node r n = n\<lparr>tn_inputs := map r (tn_inputs n), tn_output := r (tn_output n)\<rparr>"

lemma rename_node_simps [simp]:
  "tn_name (rename_node r n) = tn_name n" "tn_op (rename_node r n) = tn_op n"
  "tn_inputs (rename_node r n) = map r (tn_inputs n)" "tn_output (rename_node r n) = r (tn_output n)"
  by (simp_all add: rename_node_def)

text \<open>\<open>K\<close> are the numbers of the kept values, \<open>r\<close> their new numbers.\<close>

definition renumbering :: "nat set \<Rightarrow> (nat \<Rightarrow> nat) \<Rightarrow> 'f plan_value list \<Rightarrow> 'f plan_value list \<Rightarrow> bool" where
  "renumbering K r vs ws \<longleftrightarrow> inj_on r K \<and> (\<forall>i \<in> K. i < length vs \<and> r i < length ws \<and> ws ! r i = vs ! i) \<and>
     (\<forall>j < length ws. \<exists>i \<in> K. r i = j) \<and> (\<forall>i < length vs. vl_storage (vs ! i) = StateStorage \<or> vl_storage (vs ! i) = InputStorage \<longrightarrow> i \<in> K)"

lemma renumbering_at: "renumbering K r vs ws \<Longrightarrow> i \<in> K \<Longrightarrow> i < length vs \<and> r i < length ws \<and> ws ! r i = vs ! i"
  unfolding renumbering_def by blast

lemma renumbering_inj: "renumbering K r vs ws \<Longrightarrow> inj_on r K"
  unfolding renumbering_def by blast

lemma renumbering_shapes: "renumbering K r vs ws \<Longrightarrow> set is \<subseteq> K \<Longrightarrow> shapes_at ws (map r is) = shapes_at vs is"
  by (induction "is") (auto simp: shapes_at_def dest: renumbering_at)

lemma compact_renumbering:
  assumes "fold (compact_value runtime) (zip [0..<length vs] vs) ([], []) = (remap, kept)"
  shows "renumbering {i. i < length vs \<and> kept_at vs runtime i} (new_id vs runtime) vs kept"
proof -
  note kept = compact_values [OF assms, THEN conjunct2]
  let ?K = "{i. i < length vs \<and> kept_at vs runtime i}"
  have "inj_on (new_id vs runtime) ?K"
    by (rule inj_onI) (metis (mono_tags, lifting) mem_Collect_eq nat_neq_iff new_id_less)
  moreover have "\<exists>i \<in> ?K. new_id vs runtime i = j" if j: "j < length kept" for j
  proof
    let ?i = "kept_ids vs runtime (length vs) ! j"
    have "?i \<in> set (kept_ids vs runtime (length vs))" using j kept by simp
    then show i: "?i \<in> ?K" by (auto simp: kept_ids_def)
    have d: "distinct (kept_ids vs runtime (length vs))" by (simp add: kept_ids_def)
    have "j < length (kept_ids vs runtime (length vs))" using j kept by simp
    from nth_eq_iff_index_eq [OF d conjunct1 [OF new_id_nth, of ?i] this]
    show "new_id vs runtime ?i = j" using new_id_nth [of ?i "length vs" vs runtime] i by blast
  qed
  ultimately show ?thesis using new_id_nth [of _ "length vs" vs runtime] unfolding renumbering_def
    by (auto simp: kept kept_at_def)
qed

lemma eval_renamed:
  assumes "renumbering K r vs ws" and "\<forall>n \<in> set ns. tn_output n \<in> K \<and> set (tn_inputs n) \<subseteq> K" and "\<forall>i \<in> K. env' (r i) = env i"
  shows "\<forall>i \<in> K. eval_nodes F ws (map (rename_node r) ns) env' (r i) = eval_nodes F vs ns env i"
  using assms(2,3)
proof (induction ns arbitrary: env env')
  case (Cons n ns)
  have n: "tn_output n \<in> K" "set (tn_inputs n) \<subseteq> K" using Cons.prems(1) by simp_all
  have "shapes_at ws (map r (tn_inputs n)) = shapes_at vs (tn_inputs n)" using assms(1) n(2) by (rule renumbering_shapes)
  moreover have vals: "map env' (map r (tn_inputs n)) = map env (tn_inputs n)"
  proof -
    have "env' (r i) = env i" if "i \<in> set (tn_inputs n)" for i using that Cons.prems(2) n(2) by (meson subsetD)
    then have "map (\<lambda>i. env' (r i)) (tn_inputs n) = map env (tn_inputs n)" by (rule map_cong [OF refl])
    then show ?thesis by (simp only: map_map comp_def)
  qed
  ultimately have same: "node_value F ws (rename_node r n) env' = node_value F vs n env" unfolding node_value_def rename_node_simps by (simp only:)
  show ?case unfolding list.map eval_nodes_simps rename_node_simps same
  proof (rule Cons.IH)
    show "\<forall>m \<in> set ns. tn_output m \<in> K \<and> set (tn_inputs m) \<subseteq> K" using Cons.prems(1) by simp
    show "\<forall>i \<in> K. (env'(r (tn_output n) := node_value F vs n env)) (r i) = (env(tn_output n := node_value F vs n env)) i"
      using Cons.prems(2) n(1) renumbering_inj [OF assms(1)] by (auto dest: inj_onD)
  qed
qed simp

definition renamed_graph :: "nat set \<Rightarrow> (nat \<Rightarrow> nat) \<Rightarrow> 'f typed_graph \<Rightarrow> 'f typed_graph \<Rightarrow> bool" where
  "renamed_graph K r t q \<longleftrightarrow> renumbering K r (tg_values t) (tg_values q) \<and> tg_nodes q = map (rename_node r) (tg_nodes t) \<and>
     (\<forall>n \<in> set (tg_nodes t). tn_output n \<in> K \<and> set (tn_inputs n) \<subseteq> K) \<and>
     tg_outputs q = map r (tg_outputs t) \<and> set (tg_outputs t) \<subseteq> K \<and>
     set (tg_updates q) = (\<lambda>(a, b). (r a, r b)) ` set (tg_updates t) \<and> set (tg_updates t) \<subseteq> K \<times> K \<and> bt_wf (tg_updates q) \<and>
     tg_name q = tg_name t"

lemma collect_maps: "collect f xs = Ok ys \<Longrightarrow> (\<And>x y. x \<in> set xs \<Longrightarrow> f x = Ok y \<Longrightarrow> P x \<and> y = g x) \<Longrightarrow> ys = map g xs \<and> (\<forall>x \<in> set xs. P x)"
  by (induction xs arbitrary: ys) (auto simp: outcome_simps)

lemma compact_renamed:
  assumes "compact t = Ok q" and "bt_wf (tg_updates t)"
  shows "\<exists>K r. renamed_graph K r t q"
proof -
  define rt where "rt = runtime_values (tg_outputs t) (tg_updates t) (tg_nodes t)"
  define vs where "vs = tg_values t"
  obtain remap kept where rk: "fold (compact_value rt) (zip [0..<length vs] vs) ([], []) = (remap, kept)" by fastforce
  let ?K = "{i. i < length vs \<and> kept_at vs rt i}" and ?r = "new_id vs rt"
  obtain nodes outputs updates where c: "collect (remap_node remap) (tg_nodes t) = Ok nodes" "collect (remap_id remap) (tg_outputs t) = Ok outputs"
      "collect (remap_update remap) (tg_updates t) = Ok updates"
      "q = t\<lparr>tg_values := kept, tg_nodes := nodes, tg_outputs := outputs, tg_updates := bt_collect updates\<rparr>"
    using assms(1) rk by (auto simp: compact_def Let_def outcome_simps rt_def vs_def)
  have look: "remap_id remap i = Ok j \<longleftrightarrow> i \<in> ?K \<and> j = ?r i" for i j
    using compact_values [OF rk] by (auto simp: remap_id_def outcome_simps split: if_splits)
  have ids: "ys = map ?r xs \<and> set xs \<subseteq> ?K" if "collect (remap_id remap) xs = Ok ys" for xs ys
    using collect_maps [OF that, of "\<lambda>i. i \<in> ?K" ?r] by (auto simp: look)
  have node: "m = rename_node ?r n \<and> tn_output n \<in> ?K \<and> set (tn_inputs n) \<subseteq> ?K" if "remap_node remap n = Ok m" for n m
    using that ids by (auto simp: remap_node_def rename_node_def outcome_simps look)
  have update: "v = (\<lambda>(a, b). (?r a, ?r b)) u \<and> u \<in> ?K \<times> ?K" if "remap_update remap u = Ok v" for u v
    using that by (cases u) (auto simp: remap_update_def outcome_simps look)
  have nodes: "nodes = map (rename_node ?r) (tg_nodes t)" "\<forall>n \<in> set (tg_nodes t). tn_output n \<in> ?K \<and> set (tn_inputs n) \<subseteq> ?K"
    using collect_maps [OF c(1), of "\<lambda>n. tn_output n \<in> ?K \<and> set (tn_inputs n) \<subseteq> ?K" "rename_node ?r"] node by blast+
  have ups: "updates = map (\<lambda>(a, b). (?r a, ?r b)) (tg_updates t)" "set (tg_updates t) \<subseteq> ?K \<times> ?K"
    using collect_maps [OF c(3), of "\<lambda>u. u \<in> ?K \<times> ?K" "\<lambda>(a, b). (?r a, ?r b)"] update by blast+
  note ren = compact_renumbering [OF rk]
  have "map fst updates = map ?r (map fst (tg_updates t))" unfolding ups(1) by auto
  moreover have "distinct (map ?r (map fst (tg_updates t)))"
  proof -
    have "set (map fst (tg_updates t)) \<subseteq> ?K" using ups(2) by auto
    moreover have "inj_on ?r ?K" using ren by (rule renumbering_inj)
    ultimately have "inj_on ?r (set (map fst (tg_updates t)))" by (rule inj_on_subset [rotated])
    then show ?thesis using bt_wf_distinct [OF assms(2)] by (simp only: distinct_map)
  qed
  ultimately have "set (bt_collect updates) = set updates" by (intro set_bt_collect) simp
  then have "renamed_graph ?K ?r t q"
    unfolding renamed_graph_def using ren nodes ups ids [OF c(2)] by (simp add: c(4) vs_def)
  then show ?thesis by blast
qed

end
