(* ===== verification/Planner_Plan.thy ===== *)
theory Planner_Plan
  imports Planner_Compact Plan_Thms
begin

text \<open>
  The plan of an optimised graph computes the values of the graph: its steps are the nodes, its buffers the
  values, and the kernels selected or chosen by an override implement the operations of the nodes.
\<close>

section \<open>Steps and buffers of the plan\<close>

definition step_of :: "typed_node \<Rightarrow> plan_step \<Rightarrow> bool" where
  "step_of n t \<longleftrightarrow> st_name t = tn_name n \<and> st_inputs t = tn_inputs n \<and> st_output t = tn_output n \<and> kernel_op (st_kernel t) = tn_op n"

definition overrides_fit :: "compile_options \<Rightarrow> typed_node list \<Rightarrow> bool" where
  "overrides_fit opts ns \<longleftrightarrow> (\<forall>n \<in> set ns. \<forall>k. map_of (co_kernel_overrides opts) (tn_name n) = Some k \<longrightarrow> kernel_op k = tn_op n)"

lemma place_buffer_values:
  assumes "place_buffer lives n s = Ok s'" shows "map bf_value (pc_buffers s') = map bf_value (pc_buffers s)"
proof -
  obtain b offset life bs where b: "index_at (pc_buffers s) (tn_output n) = Ok b"
      "assign_at (pc_buffers s) (tn_output n) (b\<lparr>bf_offset := Some offset, bf_lifetime := Some life\<rparr>) = Ok bs" "pc_buffers s' = bs"
    using assms by (auto simp: place_buffer_def outcome_simps)
  then have o: "tn_output n < length (pc_buffers s)" "b = pc_buffers s ! tn_output n"
      "bs = (pc_buffers s)[tn_output n := b\<lparr>bf_offset := Some offset, bf_lifetime := Some life\<rparr>]"
    by (auto simp: outcome_simps)
  have "map bf_value bs = (map bf_value (pc_buffers s))[tn_output n := map bf_value (pc_buffers s) ! tn_output n]"
    using o(1) unfolding o(2,3) by (simp add: map_update)
  then show ?thesis unfolding b(3) by (simp only: list_update_id)
qed

lemma select_kernel_op: "select_kernel vs out n = Ok k \<Longrightarrow> kernel_op k = tn_op n"
  by (cases "tn_op n") (auto simp: select_kernel_def outcome_simps)

lemma make_step_of:
  assumes "make_step opts vs producers bs (i, n) = Ok t" and "overrides_fit opts ns" and "n \<in> set ns"
  shows "step_of n t"
proof -
  obtain out start bytes reuse chosen where m: "select_kernel vs out n = Ok chosen" and
    t: "t = \<lparr>st_name = tn_name n, st_kernel = (case map_of (co_kernel_overrides opts) (tn_name n) of None \<Rightarrow> chosen | Some k \<Rightarrow> k),
         st_inputs = tn_inputs n, st_output = tn_output n, st_rank = 0, st_stream = 0,
         st_dependencies = bs_of (List.map_filter (map_of producers) (tn_inputs n)), st_reuse_dependencies = bs_of (List.map_filter (\<lambda>r. r) reuse),
         st_selection_reason = st_selection_reason t\<rparr>"
    using assms(1) by (auto simp: make_step_def outcome_simps Let_def)
  have "kernel_op (case map_of (co_kernel_overrides opts) (tn_name n) of None \<Rightarrow> chosen | Some k \<Rightarrow> k) = tn_op n"
    using select_kernel_op [OF m] assms(2,3) by (auto simp: overrides_fit_def split: option.split)
  then show ?thesis unfolding step_of_def by (subst t, simp)+
qed

lemma plan_memory_Ok:
  assumes "plan_memory opts q removed folded = Ok p" and "overrides_fit opts (tg_nodes q)"
  shows "map bf_value (cp_buffers p) = tg_values q \<and> list_all2 step_of (tg_nodes q) (cp_steps p) \<and>
    cp_outputs p = tg_outputs q \<and> cp_updates p = tg_updates q"
proof -
  obtain lives producers where lp: "plan_lives q = (lives, producers)" by fastforce
  let ?unplaced = "map (\<lambda>v. \<lparr>bf_value = v, bf_offset = None, bf_lifetime = None\<rparr>) (tg_values q)"
  obtain s steps where s: "fold_out (place_buffer lives) (tg_nodes q) \<lparr>pc_buffers = ?unplaced, pc_placed = [], pc_arena = 0\<rparr> = Ok s"
      "collect (make_step opts (tg_values q) producers (pc_buffers s)) (zip [0..<length (tg_nodes q)] (tg_nodes q)) = Ok steps"
      "cp_buffers p = pc_buffers s" "cp_steps p = steps" "cp_outputs p = tg_outputs q" "cp_updates p = tg_updates q"
    using assms(1) by (auto simp: plan_memory_def lp outcome_simps)
  have "map bf_value (pc_buffers s) = map bf_value ?unplaced"
    by (rule fold_out_invariant [OF s(1), where P = "\<lambda>c. map bf_value (pc_buffers c) = map bf_value ?unplaced"])
      (auto dest: place_buffer_values)
  moreover have "step_of (tg_nodes q ! k) (steps ! k)" if "k < length (tg_nodes q)" for k
    using s(2) that make_step_of [OF _ assms(2), of _ _ _ k "tg_nodes q ! k" "steps ! k"] by (auto simp: collect_Ok_iff)
  moreover have "length steps = length (tg_nodes q)" using collect_length [OF s(2)] by simp
  ultimately show ?thesis using s by (simp add: list_all2_conv_all_nth comp_def)
qed

section \<open>Evaluation\<close>

lemma shape_at_values: "map bf_value (cp_buffers p) = vs \<Longrightarrow> i < length vs \<Longrightarrow> shape_at p i = vl_shape (vs ! i)"
  by (metis length_map nth_map)

text \<open>The evaluation of the steps is the evaluation of the nodes, unless a value is not finite.\<close>

lemma eval_steps_nodes:
  assumes "list_all2 step_of ns ts" and "map bf_value (cp_buffers p) = vs" and "\<forall>n \<in> set ns. \<forall>i \<in> set (tn_inputs n). i < length vs" and "distinct (map tn_output ns)"
  shows "case fold_out (eval_step F p Map.empty) ts env of
      Ok env' \<Rightarrow> env' = eval_nodes F vs ns env \<and> (\<forall>n \<in> set ns. \<forall>x \<in> set (eval_nodes F vs ns env (tn_output n)). fl_finite F x)
    | Err e \<Rightarrow> \<exists>n \<in> set ns. \<exists>x \<in> set (eval_nodes F vs ns env (tn_output n)). \<not> fl_finite F x
    | Panic \<Rightarrow> False"
  using assms(1,3,4)
proof (induction ns ts arbitrary: env rule: list_all2_induct)
  case (Cons n ns t ts)
  have "map (shape_at p) (tn_inputs n) = shapes_at vs (tn_inputs n)"
    using Cons.prems(1) shape_at_values [OF assms(2)] by (simp add: shapes_at_def)
  then have step: "eval_step F p Map.empty t env = (if \<exists>x \<in> set (node_value F vs n env). \<not> fl_finite F x
      then Err (invalid (''nonfinite result at '' @ st_name t @ ''; state not committed'')) else Ok (env(tn_output n := node_value F vs n env)))"
    using Cons.hyps(1) unfolding eval_step_def Let_def step_of_def by (simp add: node_value_def reject_def)
  have "tn_output n \<notin> tn_output ` set ns" using Cons.prems(2) by simp
  then have last: "eval_nodes F vs (n # ns) env (tn_output n) = node_value F vs n env" by (simp add: eval_nodes_other)
  have "distinct (map tn_output ns)" using Cons.prems(2) by simp
  moreover obtain env1 where env1: "env(tn_output n := node_value F vs n env) = env1" by blast
  ultimately show ?case using Cons.IH [of env1] Cons.prems(1) step last unfolding env1 by (auto simp: env1 split: outcome.splits)
qed simp

end
