(* ===== verification/Planner_Thms.thy ===== *)
theory Planner_Thms
  imports Planner_Plan
begin

text \<open>
  The meaning of a logical graph and the theorem that compiled plans compute it: typing finds the values of the
  graph, the optimisations and the plan keep them, and the executor returns them and commits them as new state.
\<close>

section \<open>The meaning of a logical graph\<close>

text \<open>Shapes and values by name that satisfy the equations of the graph, for given inputs and states.\<close>

definition graph_solution :: "'f float_ops \<Rightarrow> 'f logical_graph \<Rightarrow> 'f inputs \<Rightarrow> (string \<Rightarrow> 'f list) \<Rightarrow> (string \<Rightarrow> nat list) \<Rightarrow> (string \<Rightarrow> 'f list) \<Rightarrow> bool" where
  "graph_solution F g inputs st shp val \<longleftrightarrow>
     (\<forall>t \<in> set (lg_inputs g). shp (ts_name t) = ts_shape t \<and> val (ts_name t) = the (map_of inputs (ts_name t))) \<and>
     (\<forall>c \<in> set (lg_constants g). shp (cn_name c) = cn_shape c \<and> val (cn_name c) = cn_data c) \<and>
     (\<forall>c \<in> set (lg_states g). shp (cn_name c) = cn_shape c \<and> val (cn_name c) = st (cn_name c)) \<and>
     (\<forall>n \<in> set (lg_nodes g). op_shape (ln_op n) (map shp (ln_inputs n)) = Ok (shp (ln_name n)) \<and>
        val (ln_name n) = eval_op F (ln_op n) (map shp (ln_inputs n)) (map val (ln_inputs n)))"

text \<open>The values a typed graph starts from.\<close>

definition base_env :: "'f plan_value list \<Rightarrow> 'f inputs \<Rightarrow> (string \<Rightarrow> 'f list) \<Rightarrow> 'f env" where
  "base_env vs inputs st i = (case vl_storage (vs ! i) of
     InputStorage \<Rightarrow> the (map_of inputs (name_at vs i))
   | StateStorage \<Rightarrow> st (name_at vs i)
   | ConstantStorage \<Rightarrow> the (vl_initial (vs ! i))
   | ArenaStorage \<Rightarrow> [])"

lemma source_value_solved:
  assumes sol: "graph_solution F g inputs st shp val" and g: "take (length (source_values g)) vs = source_values g" and i: "i < length (source_values g)"
  shows "shp (name_at vs i) = vl_shape (vs ! i) \<and> val (name_at vs i) = base_env vs inputs st i"
proof -
  have "vs ! i = source_values g ! i" using g i by (metis nth_take)
  then have "vs ! i \<in> set (source_values g)" using i by simp
  then show ?thesis using sol unfolding source_values_def graph_solution_def by (auto simp: name_at_def base_env_def)
qed

lemma solution_values:
  assumes legal: "typed_legal F (length (source_values g)) t" and of: "typing_of g t" and sol: "graph_solution F g inputs st shp val"
    and i: "i < length (tg_values t)"
  shows "shp (name_at (tg_values t) i) = vl_shape (tg_values t ! i) \<and>
    val (name_at (tg_values t) i) = eval_nodes F (tg_values t) (tg_nodes t) (base_env (tg_values t) inputs st) i"
proof -
  let ?vs = "tg_values t" and ?base = "length (source_values g)"
  define E where "E k = eval_nodes F ?vs (take k (tg_nodes t)) (base_env ?vs inputs st)" for k
  obtain placed where placed: "list_all2 (node_matches ?vs) (tg_nodes t) placed" "set placed = set (lg_nodes g)" using of by (auto simp: typing_of_def)
  have "\<forall>i < ?base + k. shp (name_at ?vs i) = vl_shape (?vs ! i) \<and> val (name_at ?vs i) = E k i" if "k \<le> length (tg_nodes t)" for k
    using that
  proof (induction k)
    case 0
    have "take ?base ?vs = source_values g" using of by (simp add: typing_of_def)
    then show ?case using source_value_solved [OF sol] by (simp add: E_def)
  next
    case (Suc k)
    define n where "n = tg_nodes t ! k"
    have k: "k < length (tg_nodes t)" using Suc.prems by simp
    then have n: "node_legal ?vs ?base k n" using legal by (simp add: typed_legal_def n_def)
    then have out: "tn_output n = ?base + k" "name_at ?vs (?base + k) = tn_name n" "\<forall>i \<in> set (tn_inputs n). i < ?base + k"
      by (auto simp: node_legal_def name_at_def)
    have ih: "\<forall>i < ?base + k. shp (name_at ?vs i) = vl_shape (?vs ! i) \<and> val (name_at ?vs i) = E k i" using Suc by simp
    have E: "E (Suc k) = (E k)(?base + k := node_value F ?vs n (E k))" using k out(1) by (simp add: E_def take_Suc_conv_app_nth n_def)
    have m: "node_matches ?vs n (placed ! k)" using list_all2_nthD [OF placed(1) k] by (simp add: n_def)
    have "placed ! k \<in> set (lg_nodes g)" using placed k by (metis list_all2_lengthD nth_mem)
    then have eqs: "op_shape (tn_op n) (map shp (map (name_at ?vs) (tn_inputs n))) = Ok (shp (tn_name n))"
        "val (tn_name n) = eval_op F (tn_op n) (map shp (map (name_at ?vs) (tn_inputs n))) (map val (map (name_at ?vs) (tn_inputs n)))"
      using sol m unfolding graph_solution_def node_matches_def by metis+
    have shapes: "map shp (map (name_at ?vs) (tn_inputs n)) = shapes_at ?vs (tn_inputs n)" using ih out(3) by (simp add: shapes_at_def)
    have vals: "map val (map (name_at ?vs) (tn_inputs n)) = map (E k) (tn_inputs n)" using ih out(3) by simp
    have "shp (tn_name n) = vl_shape (?vs ! (?base + k))" using eqs(1) n unfolding shapes by (simp add: node_legal_def)
    moreover have "val (tn_name n) = node_value F ?vs n (E k)" unfolding eqs(2) shapes vals by (simp add: node_value_def)
    ultimately show ?case using ih out(2) by (simp add: E less_Suc_eq)
  qed
  from this [of "length (tg_nodes t)"] i legal show ?thesis by (simp add: E_def typed_legal_def)
qed

text \<open>The values of the nodes satisfy their equations.\<close>

lemma eval_nodes_fixpoint:
  assumes "in_order ns" and k: "k < length ns"
  shows "eval_nodes F vs ns env (tn_output (ns ! k)) = node_value F vs (ns ! k) (eval_nodes F vs ns env)"
proof -
  let ?n = "ns ! k"
  have ns: "ns = take k ns @ ?n # drop (Suc k) ns" using k by (rule id_take_nth_drop)
  define before_n where "before_n = eval_nodes F vs (take k ns) env"
  have o: "in_order (take k ns @ ?n # drop (Suc k) ns)" using assms(1) ns by simp
  then have later: "\<forall>m \<in> set (drop (Suc k) ns). tn_output ?n < tn_output m" and ins: "\<forall>i \<in> set (tn_inputs ?n). i < tn_output ?n"
    by (auto simp: in_order_def sorted_wrt_append)
  have final: "eval_nodes F vs ns env i = (before_n(tn_output ?n := node_value F vs ?n before_n)) i" if "i \<le> tn_output ?n" for i
  proof -
    have "i \<notin> tn_output ` set (drop (Suc k) ns)" using later that by fastforce
    then show ?thesis by (subst ns, unfold eval_nodes_simps before_n_def [symmetric]) (rule eval_nodes_other)
  qed
  have "node_value F vs ?n before_n = node_value F vs ?n (eval_nodes F vs ns env)"
    using final ins by (intro node_value_cong) auto
  then show ?thesis using final [of "tn_output ?n"] by simp
qed

text \<open>A typed graph has a solution.\<close>

lemma solution_exists:
  assumes legal: "typed_legal F (length (source_values g)) t" and of: "typing_of g t"
  shows "\<exists>shp val. graph_solution F g inputs st shp val"
proof -
  let ?vs = "tg_values t" and ?ns = "tg_nodes t" and ?base = "length (source_values g)"
  define E where "E = eval_nodes F ?vs ?ns (base_env ?vs inputs st)"
  define idx where "idx x = the (map_of (zip (map vl_name ?vs) [0..<length ?vs]) x)" for x
  have idx: "idx (name_at ?vs i) = i" if "i < length ?vs" for i
  proof -
    have "map_of (zip (map vl_name ?vs) [0..<length ?vs]) (map vl_name ?vs ! i) = Some ([0..<length ?vs] ! i)"
      using legal that by (intro map_of_zip_nth) (simp_all add: typed_legal_def names_distinct_def)
    then show ?thesis using that by (simp add: idx_def name_at_def)
  qed
  have order: "in_order ?ns" using legal in_order_legal [of ?ns ?vs ?base] by (simp add: typed_legal_def)
  have src: "\<exists>i < ?base. ?vs ! i = v \<and> idx (vl_name v) = i \<and> E i = base_env ?vs inputs st i" if v: "v \<in> set (source_values g)" for v
  proof -
    obtain i where i: "i < ?base" "source_values g ! i = v" using v by (auto simp: in_set_conv_nth)
    have "?vs ! i = v" using of i by (metis nth_take typing_of_def)
    moreover have "i \<notin> tn_output ` set ?ns" using legal i(1) by (force simp: typed_legal_def node_legal_def in_set_conv_nth)
    ultimately show ?thesis using i idx [of i] legal by (auto simp: E_def eval_nodes_other name_at_def typed_legal_def)
  qed
  obtain placed where placed: "list_all2 (node_matches ?vs) ?ns placed" "set placed = set (lg_nodes g)" using of by (auto simp: typing_of_def)
  have node: "op_shape (ln_op m) (map (\<lambda>x. vl_shape (?vs ! idx x)) (ln_inputs m)) = Ok (vl_shape (?vs ! idx (ln_name m))) \<and>
      E (idx (ln_name m)) = eval_op F (ln_op m) (map (\<lambda>x. vl_shape (?vs ! idx x)) (ln_inputs m)) (map (\<lambda>x. E (idx x)) (ln_inputs m))"
    if m: "m \<in> set (lg_nodes g)" for m
  proof -
    obtain k where k: "k < length ?ns" "placed ! k = m" using m placed by (metis in_set_conv_nth list_all2_lengthD)
    define n where "n = ?ns ! k"
    have match: "node_matches ?vs n m" using list_all2_nthD [OF placed(1) k(1)] k(2) by (simp add: n_def)
    have n: "node_legal ?vs ?base k n" using legal k(1) by (simp add: typed_legal_def n_def)
    then have len: "\<forall>i \<in> set (tn_inputs n). i < length ?vs" by (auto simp: node_legal_def)
    have ins: "map idx (ln_inputs m) = tn_inputs n"
    proof -
      have "map idx (map (name_at ?vs) (tn_inputs n)) = tn_inputs n" using len idx by (simp add: map_idI)
      moreover have "ln_inputs m = map (name_at ?vs) (tn_inputs n)" using match by (simp add: node_matches_def)
      ultimately show ?thesis by (simp only:)
    qed
    have out: "idx (ln_name m) = tn_output n" using match n idx [of "tn_output n"] by (auto simp: node_matches_def node_legal_def name_at_def)
    have shapes: "map (\<lambda>x. vl_shape (?vs ! idx x)) (ln_inputs m) = shapes_at ?vs (tn_inputs n)"
      unfolding ins [symmetric] by (simp add: shapes_at_def comp_def)
    have vals: "map (\<lambda>x. E (idx x)) (ln_inputs m) = map E (tn_inputs n)" unfolding ins [symmetric] by (simp add: comp_def)
    have "E (tn_output n) = node_value F ?vs n E"
      unfolding E_def using order k(1) by (simp add: n_def eval_nodes_fixpoint)
    then show ?thesis unfolding shapes vals out using match n by (simp add: node_value_def node_matches_def node_legal_def)
  qed
  have "graph_solution F g inputs st (\<lambda>x. vl_shape (?vs ! idx x)) (\<lambda>x. E (idx x))"
    unfolding graph_solution_def
  proof (intro conjI ballI)
    fix m assume "m \<in> set (lg_nodes g)"
    from node [OF this] show "op_shape (ln_op m) (map (\<lambda>x. vl_shape (?vs ! idx x)) (ln_inputs m)) = Ok (vl_shape (?vs ! idx (ln_name m)))"
        "E (idx (ln_name m)) = eval_op F (ln_op m) (map (\<lambda>x. vl_shape (?vs ! idx x)) (ln_inputs m)) (map (\<lambda>x. E (idx x)) (ln_inputs m))"
      by simp_all
  next
    fix c assume "c \<in> set (lg_inputs g)"
    then have "input_value c \<in> set (source_values g)" by (simp add: source_values_def)
    from src [OF this] show "vl_shape (?vs ! idx (ts_name c)) = ts_shape c" "E (idx (ts_name c)) = the (map_of inputs (ts_name c))"
      by (auto simp: base_env_def name_at_def)
  next
    fix c assume "c \<in> set (lg_constants g)"
    then have "owned_value ConstantStorage c \<in> set (source_values g)" by (simp add: source_values_def)
    from src [OF this] show "vl_shape (?vs ! idx (cn_name c)) = cn_shape c" "E (idx (cn_name c)) = cn_data c"
      by (auto simp: base_env_def name_at_def)
  next
    fix c assume "c \<in> set (lg_states g)"
    then have "owned_value StateStorage c \<in> set (source_values g)" by (simp add: source_values_def)
    from src [OF this] show "vl_shape (?vs ! idx (cn_name c)) = cn_shape c" "E (idx (cn_name c)) = st (cn_name c)"
      by (auto simp: base_env_def name_at_def)
  qed
  then show ?thesis by blast
qed

section \<open>The compiled values\<close>

lemma eval_nodes_same_values:
  assumes "same_values vs ws" and "\<forall>n \<in> set ns. \<forall>i \<in> set (tn_inputs n). i < length vs"
  shows "eval_nodes F ws ns env = eval_nodes F vs ns env"
proof -
  have "node_value F ws n e = node_value F vs n e" if "n \<in> set ns" for n e
    using same_values_shapes [OF assms(1), of "tn_inputs n"] assms(2) that by (simp add: node_value_def)
  then show ?thesis unfolding eval_nodes_def by (intro fold_cong) auto
qed

text \<open>The result of the optimisations: a renumbering of part of the values, some of which became constants.\<close>

definition optimized :: "'f float_ops \<Rightarrow> nat set \<Rightarrow> (nat \<Rightarrow> nat) \<Rightarrow> 'f typed_graph \<Rightarrow> 'f typed_graph \<Rightarrow> bool" where
  "optimized F K r t q \<longleftrightarrow> (\<exists>ws ns. same_values (tg_values t) ws \<and> (\<forall>i < length ws. vl_storage (ws ! i) \<noteq> ConstantStorage \<longrightarrow> ws ! i = tg_values t ! i) \<and>
     (\<forall>i < length ws. vl_storage (tg_values t ! i) \<noteq> ArenaStorage \<longrightarrow> ws ! i = tg_values t ! i) \<and>
     set ns \<subseteq> set (tg_nodes t) \<and> in_order ns \<and> (\<forall>v \<in> set ws. value_legal F v) \<and>
     (\<forall>env. agree_on (set (tg_outputs t) \<union> snd ` set (tg_updates t) \<union> tn_output ` set ns)
        (eval_nodes F (tg_values t) (tg_nodes t) (const_env (tg_values t) env)) (eval_nodes F ws ns (const_env ws env))) \<and>
     renamed_graph K r (t\<lparr>tg_values := ws, tg_nodes := ns\<rparr>) q)"

lemma optimize_Ok:
  assumes opt: "optimize F opts t = Ok (q, removed, folded)" and legal: "typed_legal F base t"
  shows "\<exists>K r. optimized F K r t q"
proof -
  let ?vs = "tg_values t"
  obtain needed removed' where nd: "needed_values (co_debug opts) t = (needed, removed')" by fastforce
  define live where "live = live_nodes (co_debug opts) needed (tg_nodes t)"
  obtain s where s: "fold_out (fold_node F opts) live \<lparr>fd_values = ?vs, fd_folded = [], fd_retained = []\<rparr> = Ok s"
      "compact (t\<lparr>tg_values := fd_values s, tg_nodes := fd_retained s\<rparr>) = Ok q"
    using opt by (auto simp: optimize_def nd live_def outcome_simps)
  have nodes: "\<forall>k < length (tg_nodes t). node_legal ?vs base k (tg_nodes t ! k)" using legal by (simp add: typed_legal_def)
  then have order: "in_order (tg_nodes t)" by (rule in_order_legal)
  have ok: "\<forall>n \<in> set (tg_nodes t). node_ok ?vs n"
  proof
    fix n assume "n \<in> set (tg_nodes t)"
    then obtain k where "k < length (tg_nodes t)" "n = tg_nodes t ! k" by (auto simp: in_set_conv_nth)
    then show "node_ok ?vs n" using nodes node_legal_ok by blast
  qed
  have live: "in_order live" "\<forall>n \<in> set live. node_ok ?vs n" "set live \<subseteq> set (tg_nodes t)"
    using in_order_filter [OF order] ok by (auto simp: live_def live_nodes_def)
  have "folding_inv F ?vs [] \<lparr>fd_values = ?vs, fd_folded = [], fd_retained = []\<rparr>"
    using legal by (simp add: folding_inv_def same_values_def typed_legal_def in_order_def)
  from fold_nodes_inv [OF s(1) this] live have inv: "folding_inv F ?vs live s" by simp
  let ?ws = "fd_values s" and ?ns = "fd_retained s"
  have same: "same_values ?vs ?ws" and sub: "set ?ns \<subseteq> set live" using inv by (simp_all add: folding_inv_def)
  have len: "length ?ws = length ?vs" using same by (simp add: same_values_def)
  have dropped: "is_constant ?ws (tn_output n) \<and> vl_storage (?vs ! tn_output n) = ArenaStorage" if "n \<in> set live - set ?ns" for n
    using inv that live(2) by (auto simp: folding_inv_def node_ok_def)
  have other: "?ws ! i = ?vs ! i" if "i < length ?ws" "vl_storage (?ws ! i) \<noteq> ConstantStorage \<or> vl_storage (?vs ! i) \<noteq> ArenaStorage" for i
  proof -
    have "i \<notin> tn_output ` (set live - set ?ns)" using that(2) dropped by (auto simp: is_constant_def)
    then show ?thesis using inv that(1) len by (simp add: folding_inv_def)
  qed
  have range: "\<forall>n \<in> set ?ns. \<forall>i \<in> set (tn_inputs n). i < length ?vs" using sub live(2) by (fastforce simp: node_ok_def)
  have "eval_nodes F ?ws ?ns (const_env ?ws env) = eval_nodes F ?vs live (const_env ?vs env)" for env
    using inv unfolding eval_nodes_same_values [OF same range] by (simp add: folding_inv_def)
  then have agree: "agree_on (set (tg_outputs t) \<union> snd ` set (tg_updates t) \<union> tn_output ` set ?ns)
      (eval_nodes F ?vs (tg_nodes t) (const_env ?vs env)) (eval_nodes F ?ws ?ns (const_env ?ws env))" for env
    using dead_nodes [OF nd order, of F ?vs "const_env ?vs env", folded live_def] sub by (auto simp: agree_on_def)
  have "bt_wf (tg_updates (t\<lparr>tg_values := ?ws, tg_nodes := ?ns\<rparr>))" using legal by (simp add: typed_legal_def)
  from compact_renamed [OF s(2) this] obtain K r where "renamed_graph K r (t\<lparr>tg_values := ?ws, tg_nodes := ?ns\<rparr>) q" by blast
  then have "optimized F K r t q" unfolding optimized_def
    using same other agree sub live(3) inv by (intro exI [of _ ?ws] exI [of _ ?ns]) (auto simp: folding_inv_def)
  then show ?thesis by blast
qed

lemma typed_node_names: "typed_legal F base t \<Longrightarrow> inj_on tn_name (set (tg_nodes t))"
proof (rule inj_onI)
  fix m n assume t: "typed_legal F base t" and "m \<in> set (tg_nodes t)" "n \<in> set (tg_nodes t)" and same: "tn_name m = tn_name n"
  then obtain j k where jk: "j < length (tg_nodes t)" "tg_nodes t ! j = m" "k < length (tg_nodes t)" "tg_nodes t ! k = n" by (auto simp: in_set_conv_nth)
  have "node_legal (tg_values t) base j m" "node_legal (tg_values t) base k n" using t jk by (auto simp: typed_legal_def)
  then have "map vl_name (tg_values t) ! (base + j) = map vl_name (tg_values t) ! (base + k)" "base + j < length (tg_values t)" "base + k < length (tg_values t)"
    using same by (auto simp: node_legal_def)
  then have "j = k" using t nth_eq_iff_index_eq [of "map vl_name (tg_values t)" "base + j" "base + k"] by (simp add: typed_legal_def names_distinct_def)
  then show "m = n" using jk by simp
qed

text \<open>Overrides name nodes of the typed graph, and implement their operations.\<close>

lemma overrides_fit_compiled:
  assumes "check_all (check_override t) (co_kernel_overrides opts) = Ok ()" and "typed_legal F base t" and "set ns \<subseteq> set (tg_nodes t)"
  shows "overrides_fit opts (map (rename_node r) ns)"
  unfolding overrides_fit_def
proof (intro ballI allI impI)
  fix m k assume "m \<in> set (map (rename_node r) ns)" and k: "map_of (co_kernel_overrides opts) (tn_name m) = Some k"
  then obtain n where n: "n \<in> set (tg_nodes t)" "m = rename_node r n" using assms(3) by auto
  have "(tn_name n, k) \<in> set (co_kernel_overrides opts)" using k n(2) by (simp add: map_of_SomeD)
  then have "check_override t (tn_name n, k) = Ok ()" using assms(1) by (auto simp: outcome_simps)
  then obtain n' where n': "find (\<lambda>n'. tn_name n' = tn_name n) (tg_nodes t) = Some n'" "tn_op n' = kernel_op k"
    by (auto simp: check_override_def outcome_simps)
  then have "n' \<in> set (tg_nodes t)" "tn_name n' = tn_name n" by (auto simp: find_Some_iff in_set_conv_nth)
  moreover have "inj_on tn_name (set (tg_nodes t))" using assms(2) by (rule typed_node_names)
  ultimately have "n' = n" using n(1) by (auto dest: inj_onD)
  then show "kernel_op k = tn_op m" using n' n(2) by simp
qed

section \<open>Executors that serve a plan\<close>

text \<open>The states of an executor of a plan without compiled implementations: a new one, and after any invocation.\<close>

inductive serving :: "'f float_ops \<Rightarrow> 'f cpu_plan \<Rightarrow> 'f executor \<Rightarrow> bool" for F p where
  started: "executor_new F p = Ok ex \<Longrightarrow> serving F p ex"
| ran: "serving F p ex \<Longrightarrow> serving F p (snd (executor_run F inputs ex))"

definition constants_kept :: "'f cpu_plan \<Rightarrow> (nat, 'f list) btmap \<Rightarrow> bool" where
  "constants_kept p owned \<longleftrightarrow> (\<forall>i < length (cp_buffers p). storage_at p i = ConstantStorage \<longrightarrow> map_of owned i = vl_initial (bf_value (plan_buffer_at p i)))"

lemma rejected_run: "check_inputs F (ex_plan ex) inputs \<noteq> Ok () \<Longrightarrow> snd (executor_run F inputs ex) = ex"
  by (cases "check_inputs F (ex_plan ex) inputs") (simp_all add: executor_run_def)

lemma committed_other: "plan_legal F p \<Longrightarrow> i < length (cp_buffers p) \<Longrightarrow> storage_at p i \<noteq> StateStorage \<Longrightarrow> map_of (committed p env owned) i = map_of owned i"
proof -
  assume p: "plan_legal F p" "i < length (cp_buffers p)" "storage_at p i \<noteq> StateStorage"
  have "map_of (rev (cp_updates p)) i = None"
  proof (rule ccontr)
    assume "map_of (rev (cp_updates p)) i \<noteq> None"
    then obtain y where "(i, y) \<in> set (cp_updates p)" by (metis map_of_SomeD not_None_eq set_rev)
    then show False using p by (auto simp: plan_legal_def)
  qed
  then show ?thesis unfolding committed_def map_of_committed by (simp split: option.split)
qed

lemma serving_inv: "serving F p ex \<Longrightarrow> executor_wf F ex \<and> ex_plan ex = p \<and> ex_implementations ex = [] \<and> constants_kept p (ex_owned ex)"
proof (induction rule: serving.induct)
  case (started ex)
  then show ?case using new_wf [OF started] new_owned [OF started] by (simp add: constants_kept_def)
next
  case (ran ex inputs)
  show ?case
  proof (cases "check_inputs F p inputs = Ok ()")
    case True
    have legal: "plan_legal F p" using ran.IH by (auto simp: executor_wf_def)
    have ex: "ex_plan ex = p" "ex_implementations ex = []" "executor_wf F ex" using ran.IH by simp_all
    obtain ex' where r: "ex_plan ex' = p" "ex_implementations ex' = []" "executor_wf F ex'"
        "case eval_plan F p (map_of []) (initial_env p inputs (ex_owned ex)) of
         Ok env \<Rightarrow> executor_run F inputs ex = (Ok (report_of p env (ex_owned ex)), ex') \<and> ex_owned ex' = committed p env (ex_owned ex)
       | Err e \<Rightarrow> executor_run F inputs ex = (Err e, ex') \<and> ex_owned ex' = ex_owned ex
       | Panic \<Rightarrow> executor_run F inputs ex = (Panic, ex') \<and> ex_owned ex' = ex_owned ex"
      using run_refines [OF ex(3), of inputs] True unfolding ex by blast
    then have ex': "snd (executor_run F inputs ex) = ex'" "ex_owned ex' = ex_owned ex \<or> (\<exists>env. ex_owned ex' = committed p env (ex_owned ex))"
      by (cases "eval_plan F p (map_of []) (initial_env p inputs (ex_owned ex))"; auto)+
    then have "constants_kept p (ex_owned ex')" using ran.IH committed_other [OF legal] by (auto simp: constants_kept_def)
    then show ?thesis using ex' r by simp
  qed (use ran.IH rejected_run [of F ex inputs] in simp)
qed

section \<open>Compiled graphs compute their values\<close>

lemma initial_env_renamed:
  assumes ren: "renumbering K r ws (tg_values q)" and bufs: "map bf_value (cp_buffers p) = tg_values q" and i: "i \<in> K"
    and same: "vl_storage (ws ! i) \<noteq> ConstantStorage \<longrightarrow> ws ! i = vs ! i" and const: "constants_kept p owned"
    and states: "vl_storage (ws ! i) = StateStorage \<longrightarrow> the (map_of owned (r i)) = st (name_at vs i)"
  shows "initial_env p inputs owned (r i) = const_env ws (base_env vs inputs st) i"
proof -
  have at: "i < length ws" "r i < length (cp_buffers p)" "bf_value (plan_buffer_at p (r i)) = ws ! i"
  proof -
    have "length (tg_values q) = length (cp_buffers p)" "tg_values q ! j = bf_value (plan_buffer_at p j)" if "j < length (cp_buffers p)" for j
      using that by (auto simp flip: bufs)
    moreover have "length (tg_values q) = length (cp_buffers p)" by (simp flip: bufs)
    ultimately show "i < length ws" "r i < length (cp_buffers p)" "bf_value (plan_buffer_at p (r i)) = ws ! i"
      using renumbering_at [OF ren i] by auto
  qed
  show ?thesis using at same states const
    by (cases "vl_storage (ws ! i)") (auto simp: initial_env_def const_env_def is_constant_def base_env_def name_at_def constants_kept_def)
qed

lemma const_base_env: "const_env vs (base_env vs inputs st) = base_env vs inputs st"
  by (rule ext) (simp add: const_env_def is_constant_def base_env_def)

text \<open>The states of a plan by name.\<close>

lemma map_of_state_map:
  assumes "plan_legal F p" and "i < length (cp_buffers p)" and "storage_at p i = StateStorage"
  shows "map_of (state_map p owned) (vl_name (bf_value (plan_buffer_at p i))) = Some (the (map_of owned i))"
proof -
  let ?states = "filter (\<lambda>i. storage_at p i = StateStorage) [0..<length (cp_buffers p)]"
  have "distinct (map buffer_name (cp_buffers p))" using assms(1) by (simp add: plan_legal_def)
  then have "inj_on (\<lambda>i. vl_name (bf_value (plan_buffer_at p i))) {..<length (cp_buffers p)}"
    by (auto simp: inj_on_def distinct_conv_nth buffer_name_def)
  then have d: "distinct (map fst (map (\<lambda>i. (vl_name (bf_value (plan_buffer_at p i)), the (map_of owned i))) ?states))"
    by (auto simp: distinct_map comp_def intro: inj_on_subset)
  have "(vl_name (bf_value (plan_buffer_at p i)), the (map_of owned i)) \<in> set (map (\<lambda>i. (vl_name (bf_value (plan_buffer_at p i)), the (map_of owned i))) ?states)"
    using assms(2,3) by auto
  then show ?thesis unfolding state_map_def map_of_bt_collect_distinct [OF d] by (rule map_of_is_SomeI [OF d])
qed

text \<open>The facts a successful compilation leaves.\<close>

lemma compile_facts:
  assumes c: "compile_with_options F g opts = Ok c" and wf: "bt_wf (lg_updates g)"
  shows "\<exists>t q K r. typed_legal F (length (source_values g)) t \<and> typing_of g t \<and> optimized F K r t q \<and>
    map bf_value (cp_buffers (cm_physical c)) = tg_values q \<and> list_all2 step_of (tg_nodes q) (cp_steps (cm_physical c)) \<and>
    cp_outputs (cm_physical c) = tg_outputs q \<and> cp_updates (cm_physical c) = tg_updates q"
proof -
  obtain t q removed folded p where s: "typed F g = Ok t" "check_all (check_override t) (co_kernel_overrides opts) = Ok ()"
      "optimize F opts t = Ok (q, removed, folded)" "plan_memory opts q removed folded = Ok p" "cm_physical c = p"
    using c by (auto simp: compile_with_options_def outcome_simps)
  have t: "typed_legal F (length (source_values g)) t" "typing_of g t" using typed_wf [OF s(1)] bt_wf_distinct [OF wf] by simp_all
  obtain K r where o: "optimized F K r t q" using optimize_Ok [OF s(3) t(1)] by blast
  then obtain ns where "set ns \<subseteq> set (tg_nodes t)" "tg_nodes q = map (rename_node r) ns"
    by (auto simp: optimized_def renamed_graph_def)
  then have "overrides_fit opts (tg_nodes q)" using overrides_fit_compiled [OF s(2) t(1)] by simp
  from plan_memory_Ok [OF s(4) this] t o show ?thesis unfolding s(5) by blast
qed

text \<open>Evaluating the plan from a state of a serving executor.\<close>

lemma compiled_eval:
  assumes t: "typed_legal F (length (source_values g)) t" "typing_of g t" and opt: "optimized F K r t q"
    and p: "map bf_value (cp_buffers p) = tg_values q" "list_all2 step_of (tg_nodes q) (cp_steps p)"
    and const: "constants_kept p owned"
    and st: "\<And>i. i < length (cp_buffers p) \<Longrightarrow> storage_at p i = StateStorage \<Longrightarrow> the (map_of owned i) = st (vl_name (bf_value (plan_buffer_at p i)))"
    and sol: "graph_solution F g inputs st shp val"
  shows "case eval_plan F p Map.empty (initial_env p inputs owned) of
      Ok env \<Rightarrow> \<forall>i \<in> set (tg_outputs t) \<union> snd ` set (tg_updates t). env (r i) = val (name_at (tg_values t) i)
    | Err e \<Rightarrow> \<exists>n \<in> set (lg_nodes g). \<exists>x \<in> set (val (ln_name n)). \<not> fl_finite F x
    | Panic \<Rightarrow> False"
proof -
  let ?vs = "tg_values t"
  obtain ws ns where o: "same_values ?vs ws" "\<forall>i < length ws. vl_storage (ws ! i) \<noteq> ConstantStorage \<longrightarrow> ws ! i = ?vs ! i"
      "set ns \<subseteq> set (tg_nodes t)" "in_order ns" 
      "\<And>env. agree_on (set (tg_outputs t) \<union> snd ` set (tg_updates t) \<union> tn_output ` set ns)
        (eval_nodes F ?vs (tg_nodes t) (const_env ?vs env)) (eval_nodes F ws ns (const_env ws env))"
      "renamed_graph K r (t\<lparr>tg_values := ws, tg_nodes := ns\<rparr>) q"
    using opt unfolding optimized_def by blast
  have ren: "renumbering K r ws (tg_values q)" and nodes: "tg_nodes q = map (rename_node r) ns" and
    ops: "\<forall>n \<in> set ns. tn_output n \<in> K \<and> set (tn_inputs n) \<subseteq> K" and res: "set (tg_outputs t) \<union> snd ` set (tg_updates t) \<subseteq> K"
    using o(6) by (auto simp: renamed_graph_def)
  have init: "\<forall>i \<in> K. initial_env p inputs owned (r i) = const_env ws (base_env ?vs inputs st) i"
  proof
    fix i assume i: "i \<in> K"
    note at = renumbering_at [OF ren i]
    have b: "r i < length (cp_buffers p)" "bf_value (plan_buffer_at p (r i)) = ws ! i"
      using at p(1) by (metis length_map) (metis at length_map nth_map p(1))
    have same: "vl_storage (ws ! i) \<noteq> ConstantStorage \<longrightarrow> ws ! i = ?vs ! i" using o(2) at by blast
    have "vl_storage (ws ! i) = StateStorage \<longrightarrow> the (map_of owned (r i)) = st (name_at ?vs i)"
      using st [OF b(1)] same b(2) by (auto simp: name_at_def)
    with initial_env_renamed [OF ren p(1) i same const] show "initial_env p inputs owned (r i) = const_env ws (base_env ?vs inputs st) i" .
  qed
  define E where "E = eval_nodes F ?vs (tg_nodes t) (base_env ?vs inputs st)"
  define env where "env = eval_nodes F (tg_values q) (tg_nodes q) (initial_env p inputs owned)"
  have env: "env (r i) = E i" if "i \<in> set (tg_outputs t) \<union> snd ` set (tg_updates t) \<union> tn_output ` set ns" for i
  proof -
    have "i \<in> K" using that res ops by blast
    then have "env (r i) = eval_nodes F ws ns (const_env ws (base_env ?vs inputs st)) i"
      using eval_renamed [OF ren ops init] unfolding env_def nodes by blast
    also have "\<dots> = E i" using o(5) [of "base_env ?vs inputs st"] that unfolding E_def const_base_env agree_on_def by simp
    finally show ?thesis .
  qed
  have E: "E i = val (name_at ?vs i)" if "i < length ?vs" for i using solution_values [OF t sol that] by (simp add: E_def)
  have "distinct (map tn_output (tg_nodes q))"
  proof -
    have "inj_on r (tn_output ` set ns)" using renumbering_inj [OF ren] ops by (auto intro: inj_on_subset)
    moreover have "sorted_wrt (<) (map tn_output ns)" using o(4) by (simp add: in_order_def sorted_wrt_map)
    then have "distinct (map tn_output ns)" by (simp add: strict_sorted_iff)
    ultimately have "distinct (map r (map tn_output ns))" by (simp only: distinct_map set_map)
    then show ?thesis by (simp add: nodes comp_def)
  qed
  moreover have "\<forall>n \<in> set (tg_nodes q). \<forall>i \<in> set (tn_inputs n). i < length (tg_values q)"
    using ops renumbering_at [OF ren] unfolding nodes by fastforce
  ultimately have ev: "case eval_plan F p Map.empty (initial_env p inputs owned) of
      Ok env' \<Rightarrow> env' = env \<and> (\<forall>n \<in> set (tg_nodes q). \<forall>x \<in> set (env (tn_output n)). fl_finite F x)
    | Err e \<Rightarrow> \<exists>n \<in> set (tg_nodes q). \<exists>x \<in> set (env (tn_output n)). \<not> fl_finite F x
    | Panic \<Rightarrow> False"
    using eval_steps_nodes [OF p(2,1)] unfolding eval_plan_def env_def by blast
  show ?thesis
  proof (cases "eval_plan F p Map.empty (initial_env p inputs owned)")
    case (Ok env')
    have "env (r i) = val (name_at ?vs i)" if i: "i \<in> set (tg_outputs t) \<union> snd ` set (tg_updates t)" for i
    proof -
      have "i < length ?vs" using t(1) i by (auto simp: typed_legal_def)
      moreover have "i \<in> set (tg_outputs t) \<union> snd ` set (tg_updates t) \<union> tn_output ` set ns" using i by blast
      ultimately show ?thesis using env E by (simp only:)
    qed
    then show ?thesis using Ok ev by simp
  next
    case (Err e)
    then obtain n x where n: "n \<in> set ns" "x \<in> set (E (tn_output n))" "\<not> fl_finite F x" using ev env by (auto simp: nodes)
    then obtain k where k: "k < length (tg_nodes t)" "tg_nodes t ! k = n" using o(3) by (metis in_set_conv_nth subsetD)
    then have "node_legal ?vs (length (source_values g)) k n" using t(1) by (auto simp: typed_legal_def)
    then have out: "tn_output n < length ?vs" "name_at ?vs (tn_output n) = tn_name n" by (auto simp: node_legal_def name_at_def)
    obtain placed where placed: "list_all2 (node_matches ?vs) (tg_nodes t) placed" "set placed = set (lg_nodes g)" using t(2) by (auto simp: typing_of_def)
    have "node_matches ?vs n (placed ! k)" using list_all2_nthD [OF placed(1) k(1)] k(2) by simp
    moreover have "placed ! k \<in> set (lg_nodes g)" using placed k(1) by (metis list_all2_lengthD nth_mem)
    ultimately show ?thesis using Err n(2,3) E [OF out(1)] out(2) by (auto simp: node_matches_def)
  qed (use ev in simp)
qed

text \<open>The outputs and the next state by name.\<close>

lemma renamed_at:
  assumes "optimized F K r t q" and "map bf_value (cp_buffers p) = tg_values q" and "i \<in> K"
  shows "i < length (tg_values t) \<and> r i < length (cp_buffers p) \<and> vl_name (bf_value (plan_buffer_at p (r i))) = name_at (tg_values t) i \<and>
    (vl_storage (tg_values t ! i) \<noteq> ArenaStorage \<longrightarrow> bf_value (plan_buffer_at p (r i)) = tg_values t ! i)"
proof -
  obtain ws ns where o: "same_values (tg_values t) ws" "\<forall>i < length ws. vl_storage (tg_values t ! i) \<noteq> ArenaStorage \<longrightarrow> ws ! i = tg_values t ! i"
      "renamed_graph K r (t\<lparr>tg_values := ws, tg_nodes := ns\<rparr>) q"
    using assms(1) unfolding optimized_def by blast
  have "renumbering K r ws (tg_values q)" using o(3) by (simp add: renamed_graph_def)
  from renumbering_at [OF this assms(3)] have at: "i < length ws" "r i < length (tg_values q)" "tg_values q ! r i = ws ! i" by simp_all
  have "r i < length (cp_buffers p)" "bf_value (plan_buffer_at p (r i)) = ws ! i"
    using at assms(2) by (metis length_map) (metis at(2,3) assms(2) length_map nth_map)
  then show ?thesis using o(1,2) at(1) by (auto simp: same_values_def name_at_def)
qed

lemma optimized_results:
  assumes "optimized F K r t q"
  shows "tg_outputs q = map r (tg_outputs t) \<and> set (tg_updates q) = (\<lambda>(a, b). (r a, r b)) ` set (tg_updates t) \<and> bt_wf (tg_updates q) \<and>
    set (tg_outputs t) \<subseteq> K \<and> set (tg_updates t) \<subseteq> K \<times> K \<and> inj_on r K \<and>
    (\<forall>i < length (tg_values t). vl_storage (tg_values t ! i) = StateStorage \<longrightarrow> i \<in> K)"
proof -
  obtain ws ns where o: "same_values (tg_values t) ws" "\<forall>i < length ws. vl_storage (tg_values t ! i) \<noteq> ArenaStorage \<longrightarrow> ws ! i = tg_values t ! i"
      "renamed_graph K r (t\<lparr>tg_values := ws, tg_nodes := ns\<rparr>) q"
    using assms(1) unfolding optimized_def by blast
  have ren: "renumbering K r ws (tg_values q)" using o(3) by (simp add: renamed_graph_def)
  have "i \<in> K" if "i < length (tg_values t)" "vl_storage (tg_values t ! i) = StateStorage" for i
  proof -
    have "i < length ws" "vl_storage (ws ! i) = StateStorage" using that o(1,2) by (auto simp: same_values_def)
    then show ?thesis using ren unfolding renumbering_def by blast
  qed
  then show ?thesis using o(3) renumbering_inj [OF ren] by (simp add: renamed_graph_def)
qed

lemma compiled_state:
  assumes t: "typed_legal F (length (source_values g)) t" "typing_of g t" and opt: "optimized F K r t q" and wf: "bt_wf (lg_updates g)"
    and p: "map bf_value (cp_buffers p) = tg_values q" "cp_updates p = tg_updates q" and ex: "executor_wf F ex" "ex_plan ex = p"
    and env: "\<forall>i \<in> snd ` set (tg_updates t). env (r i) = val (name_at (tg_values t) i)" and c: "c \<in> set (lg_states g)"
  shows "map_of (state_map p (committed p env (ex_owned ex))) (cn_name c) =
    Some (case map_of (lg_updates g) (cn_name c) of None \<Rightarrow> the (map_of (state_map p (ex_owned ex)) (cn_name c)) | Some y \<Rightarrow> val y)"
proof -
  let ?vs = "tg_values t"
  note res = optimized_results [OF opt]
  have "owned_value StateStorage c \<in> set (source_values g)" using c by (simp add: source_values_def)
  then obtain i where i: "i < length (source_values g)" "source_values g ! i = owned_value StateStorage c" by (auto simp: in_set_conv_nth)
  have vi: "?vs ! i = owned_value StateStorage c" using t(2) i by (metis nth_take typing_of_def)
  have iK: "i \<in> K" using res i(1) vi t(1) by (auto simp: typed_legal_def)
  have at: "r i < length (cp_buffers p)" "storage_at p (r i) = StateStorage" "vl_name (bf_value (plan_buffer_at p (r i))) = cn_name c"
    using renamed_at [OF opt p(1) iK] vi by (auto simp: name_at_def)
  have legal: "plan_legal F p" using ex by (auto simp: executor_wf_def)
  note look = map_of_state_map [OF legal at(1,2), unfolded at(3)]
  obtain old where old: "map_of (ex_owned ex) (r i) = Some old" using ex at(1,2) by (auto simp: executor_wf_def owned_wf_def)
  have "distinct (map fst (rev (cp_updates p)))" using bt_wf_distinct [of "cp_updates p"] res p(2) by (simp flip: rev_map)
  then have "map_of (rev (cp_updates p)) (r i) = Some z \<longleftrightarrow> (r i, z) \<in> set (cp_updates p)" for z by simp
  then have update: "map_of (rev (cp_updates p)) (r i) = Some z \<longleftrightarrow> (\<exists>b. (i, b) \<in> set (tg_updates t) \<and> z = r b)" for z
    using res p(2) iK by (auto dest: inj_onD)
  have same: "a = i" if "a < length ?vs" "name_at ?vs a = cn_name c" for a
    using that t(1) vi iK renamed_at [OF opt p(1) iK] nth_eq_iff_index_eq [of "map vl_name ?vs" a i]
    by (simp add: typed_legal_def names_distinct_def name_at_def)
  have name_i: "name_at ?vs i = cn_name c" using vi by (simp add: name_at_def)
  have set: "(cn_name c, y) \<in> set (lg_updates g) \<longleftrightarrow> (\<exists>b. (i, b) \<in> set (tg_updates t) \<and> y = name_at ?vs b)" for y
  proof
    assume "(cn_name c, y) \<in> set (lg_updates g)"
    then have "(cn_name c, y) \<in> (\<lambda>(x, y). (name_at ?vs x, name_at ?vs y)) ` set (tg_updates t)" using t(2) by (simp add: typing_of_def)
    then obtain a b where ab: "(a, b) \<in> set (tg_updates t)" "name_at ?vs a = cn_name c" "y = name_at ?vs b" by auto
    then have "a < length ?vs" using t(1) by (auto simp: typed_legal_def)
    then show "\<exists>b. (i, b) \<in> set (tg_updates t) \<and> y = name_at ?vs b" using same ab by blast
  next
    assume "\<exists>b. (i, b) \<in> set (tg_updates t) \<and> y = name_at ?vs b"
    then have "(cn_name c, y) \<in> (\<lambda>(x, y). (name_at ?vs x, name_at ?vs y)) ` set (tg_updates t)" by (force simp: name_i image_iff)
    then show "(cn_name c, y) \<in> set (lg_updates g)" using t(2) by (simp add: typing_of_def)
  qed
  have names: "map_of (lg_updates g) (cn_name c) = Some y \<longleftrightarrow> (\<exists>b. (i, b) \<in> set (tg_updates t) \<and> y = name_at ?vs b)" for y
    using bt_wf_distinct [OF wf] by (simp add: set)
  show ?thesis
  proof (cases "\<exists>b. (i, b) \<in> set (tg_updates t)")
    case True
    then obtain b where b: "(i, b) \<in> set (tg_updates t)" by blast
    then have "map_of (rev (cp_updates p)) (r i) = Some (r b)" "map_of (lg_updates g) (cn_name c) = Some (name_at ?vs b)" using update names by blast+
    moreover have "env (r b) = val (name_at ?vs b)" using env b by force
    ultimately show ?thesis unfolding look committed_def map_of_committed old by simp
  next
    case False
    then have "map_of (rev (cp_updates p)) (r i) = None" "map_of (lg_updates g) (cn_name c) = None" using update names by (metis option.exhaust)+
    then show ?thesis unfolding look committed_def map_of_committed old by simp
  qed
qed

section \<open>Properties\<close>

text \<open>C18. What the planner accepts is well typed: the typed graph lists the inputs, constants and states of the source
  and then every node of it, once, after the nodes it reads, with the shape its operation gives; outputs and updates
  resolve to their names; and the equations of the source have a solution for any inputs and states.\<close>

theorem typed_graph_well_typed:
  assumes "typed F g = Ok t" and "bt_wf (lg_updates g)"
  shows "typed_legal F (length (source_values g)) t \<and> typing_of g t \<and> (\<exists>shp val. graph_solution F g inputs st shp val)"
  using typed_wf [OF assms(1) bt_wf_distinct [OF assms(2)]] solution_exists by blast

text \<open>C1. A compiled graph computes its meaning: whatever its history, an executor of the plan returns for accepted inputs
  the values that solve the equations of the source graph for these inputs and its present states, and takes the
  updates' values as next states, at once, whether nodes were folded, removed, renumbered or run by an overridden
  kernel in a reused arena. It fails only if the value of some node is not finite, and never panics.\<close>

theorem compiled_graph_computes:
  assumes "compile_with_options F g opts = Ok c" and "bt_wf (lg_updates g)" and "serving F (cm_physical c) ex"
    and "check_inputs F (cm_physical c) inputs = Ok ()" and "report_state ex = Ok m"
    and "graph_solution F g inputs (\<lambda>x. the (map_of m x)) shp val"
  shows "case fst (executor_run F inputs ex) of
      Ok rep \<Rightarrow> rr_outputs rep = bt_collect (map (\<lambda>x. (x, val x)) (lg_outputs g)) \<and>
        (\<forall>s \<in> set (lg_states g). map_of (rr_state rep) (cn_name s) =
          Some (case map_of (lg_updates g) (cn_name s) of None \<Rightarrow> the (map_of m (cn_name s)) | Some y \<Rightarrow> val y))
    | Err e \<Rightarrow> \<exists>n \<in> set (lg_nodes g). \<exists>x \<in> set (val (ln_name n)). \<not> fl_finite F x
    | Panic \<Rightarrow> False"
proof -
  define p where "p = cm_physical c"
  obtain t q K r where f: "typed_legal F (length (source_values g)) t" "typing_of g t" "optimized F K r t q"
      "map bf_value (cp_buffers p) = tg_values q" "list_all2 step_of (tg_nodes q) (cp_steps p)" "cp_outputs p = tg_outputs q" "cp_updates p = tg_updates q"
    using compile_facts [OF assms(1,2)] unfolding p_def by blast
  have ex: "executor_wf F ex" "ex_plan ex = p" "ex_implementations ex = []" "constants_kept p (ex_owned ex)"
    using serving_inv assms(3) by (auto simp: p_def)
  then have legal: "plan_legal F p" by (auto simp: executor_wf_def)
  have m: "m = state_map p (ex_owned ex)" using report_state_wf [OF ex(1)] assms(5) ex(2) by simp
  have st: "the (map_of (ex_owned ex) i) = the (map_of m (vl_name (bf_value (plan_buffer_at p i))))" if "i < length (cp_buffers p)" "storage_at p i = StateStorage" for i
    using map_of_state_map [OF legal that] by (simp add: m)
  note eval = compiled_eval [OF f(1-5) ex(4) st assms(6)]
  have "check_inputs F (ex_plan ex) inputs = Ok ()" using assms(4) ex(2) by (simp add: p_def)
  from run_refines [OF ex(1) this] have run: "case eval_plan F p Map.empty (initial_env p inputs (ex_owned ex)) of
       Ok env \<Rightarrow> fst (executor_run F inputs ex) = Ok (report_of p env (ex_owned ex))
     | Err e \<Rightarrow> fst (executor_run F inputs ex) = Err e | Panic \<Rightarrow> fst (executor_run F inputs ex) = Panic"
    unfolding ex(2,3) by (cases "eval_plan F p Map.empty (initial_env p inputs (ex_owned ex))") auto
  show ?thesis
  proof (cases "eval_plan F p Map.empty (initial_env p inputs (ex_owned ex))")
    case (Ok env)
    then have env: "\<forall>i \<in> set (tg_outputs t) \<union> snd ` set (tg_updates t). env (r i) = val (name_at (tg_values t) i)" using eval by simp
    have "map (\<lambda>i. (vl_name (bf_value (plan_buffer_at p i)), env i)) (map r (tg_outputs t)) = map (\<lambda>x. (x, val x)) (map (name_at (tg_values t)) (tg_outputs t))"
      using env renamed_at [OF f(3,4)] optimized_results [OF f(3)] by auto
    moreover have "map (name_at (tg_values t)) (tg_outputs t) = lg_outputs g" using f(2) by (simp add: typing_of_def)
    ultimately have "rr_outputs (report_of p env (ex_owned ex)) = bt_collect (map (\<lambda>x. (x, val x)) (lg_outputs g))"
      using optimized_results [OF f(3)] by (simp add: report_of_def f(6))
    moreover have "\<forall>i \<in> snd ` set (tg_updates t). env (r i) = val (name_at (tg_values t) i)" using env by blast
    then have "\<forall>s \<in> set (lg_states g). map_of (rr_state (report_of p env (ex_owned ex))) (cn_name s) =
        Some (case map_of (lg_updates g) (cn_name s) of None \<Rightarrow> the (map_of m (cn_name s)) | Some y \<Rightarrow> val y)"
      using compiled_state [OF f(1-3) assms(2) f(4,7) ex(1,2)] unfolding report_of_def m by simp
    ultimately show ?thesis using run Ok by simp
  qed (use run eval in simp_all)
qed

text \<open>The graph \<open>s := relu(s)\<close> with output \<open>y = relu(s)\<close>, over the integers.\<close>

definition relu_graph :: "int logical_graph" where
  "relu_graph = \<lparr>lg_version = 1, lg_name = ''g'', lg_inputs = [], lg_constants = [],
     lg_states = [\<lparr>cn_name = ''s'', cn_shape = [2], cn_data = [3, -5]\<rparr>], lg_nodes = [\<lparr>ln_name = ''y'', ln_op = Relu, ln_inputs = [''s'']\<rparr>],
     lg_outputs = [''y''], lg_updates = [(''s'', ''y'')]\<rparr>"

definition relu_typed :: "int typed_graph" where
  "relu_typed = \<lparr>tg_version = 1, tg_name = ''g'',
     tg_values = [\<lparr>vl_name = ''s'', vl_shape = [2], vl_storage = StateStorage, vl_initial = Some [3, -5]\<rparr>,
       \<lparr>vl_name = ''y'', vl_shape = [2], vl_storage = ArenaStorage, vl_initial = None\<rparr>],
     tg_nodes = [\<lparr>tn_name = ''y'', tn_op = Relu, tn_inputs = [0], tn_output = 1\<rparr>], tg_outputs = [1], tg_updates = [(0, 1)]\<rparr>"

definition relu_plan :: "int cpu_plan" where
  "relu_plan = \<lparr>cp_version = 1, cp_name = ''g'', cp_target = ''cpu-f32-v1'', cp_policy = ''deterministic-cpu-v1'',
     cp_alignment = 64, cp_arena_bytes = 64,
     cp_buffers = [
       \<lparr>bf_value = \<lparr>vl_name = ''s'', vl_shape = [2], vl_storage = StateStorage, vl_initial = Some [3, -5]\<rparr>, bf_offset = None, bf_lifetime = None\<rparr>,
       \<lparr>bf_value = \<lparr>vl_name = ''y'', vl_shape = [2], vl_storage = ArenaStorage, vl_initial = None\<rparr>, bf_offset = Some 0, bf_lifetime = Some (0, 1)\<rparr>],
     cp_steps = [\<lparr>st_name = ''y'', st_kernel = ReluF32V1, st_inputs = [0], st_output = 1, st_rank = 0, st_stream = 0,
       st_dependencies = [], st_reuse_dependencies = [],
       st_selection_reason = ''qualified deterministic CPU implementation; no timing-based cost model''\<rparr>],
     cp_outputs = [1], cp_updates = [(0, 1)], cp_removed_nodes = [], cp_folded_nodes = []\<rparr>"

lemma relu_typing: "typed int_ops relu_graph = Ok relu_typed"
  by (simp add: typed_def relu_graph_def relu_typed_def plan_eval logical_names_def check_name_def add_input_def add_owned_def add_value_def
    check_operands_def bt_collect_def place_nodes.simps ready_node_def place_node_def shape_of_def op_shape_def bt_remove_def resolve_def
    add_update_def add_bytes_def bs_of_def bs_extend_def)

lemma relu_optimized: "optimize int_ops \<lparr>co_debug = False, co_kernel_overrides = []\<rparr> relu_typed = Ok (relu_typed, [], [])"
  by (simp add: optimize_def relu_typed_def needed_values_def mark_needed_def live_nodes_def bs_of_def bs_extend_def fold_node_def node_work_def
    shape_of_def plan_eval compact_def runtime_values_def compact_value_def remap_node_def remap_id_def remap_update_def bt_collect_def upt_rec)

lemma relu_planned: "plan_memory \<lparr>co_debug = False, co_kernel_overrides = []\<rparr> relu_typed [] [] = Ok relu_plan"
  by (simp add: plan_memory_def relu_typed_def relu_plan_def plan_lives_def record_life_def extend_lives_def bt_adjust_def place_buffer_def buffer_bytes_def conflicts_def
    align_up_def div_ceil_def make_step_def reuse_of_def select_kernel_def List.map_filter_def bs_of_def bs_extend_def plan_eval upt_rec)

lemma relu_verified: "verify_plan int_ops relu_plan = Ok ()"
  by (simp add: verify_eval relu_plan_def)

definition relu_compilation :: "int compilation" where
  "relu_compilation = \<lparr>cm_logical = relu_graph, cm_typed = relu_typed, cm_optimized = relu_typed, cm_physical = relu_plan\<rparr>"

lemma relu_compiled: "compile_with_options int_ops relu_graph \<lparr>co_debug = False, co_kernel_overrides = []\<rparr> = Ok relu_compilation"
  by (simp add: compile_with_options_def relu_typing relu_optimized relu_planned relu_verified relu_compilation_def)

definition relu_executor :: "int executor" where
  "relu_executor = \<lparr>ex_plan = relu_plan, ex_arena = [replicate 16 0], ex_owned = [(0, [3, -5])], ex_implementations = []\<rparr>"

lemma relu_new: "executor_new int_ops relu_plan = Ok relu_executor"
  by (simp add: executor_new_def relu_verified relu_executor_def) (simp add: relu_plan_def int_ops_def bt_collect_def List.map_filter_def upt_rec)

lemma relu_wf: "bt_wf (lg_updates relu_graph)"
  by (simp add: relu_graph_def bt_wf_def)

theorem typed_graph_well_typed_witness: "typing_of relu_graph relu_typed \<and> typed_legal int_ops 1 relu_typed"
proof -
  have "length (source_values relu_graph) = 1" by (simp add: relu_graph_def source_values_def)
  then show ?thesis using typed_graph_well_typed [OF relu_typing relu_wf] by simp
qed

theorem compiled_graph_computes_witness:
  "case fst (executor_run int_ops [] relu_executor) of Ok rep \<Rightarrow> rr_outputs rep = [(''y'', [3, 0])] \<and> map_of (rr_state rep) ''s'' = Some [3, 0]
    | Err e \<Rightarrow> False | Panic \<Rightarrow> False"
proof -
  let ?shp = "\<lambda>_. [2]" and ?val = "(\<lambda>_. [])(''s'' := [3, -5], ''y'' := [3, 0 :: int])"
  have serving: "serving int_ops (cm_physical relu_compilation) relu_executor"
    using relu_new by (auto simp: relu_compilation_def intro: serving.started)
  have state: "report_state relu_executor = Ok [(''s'', [3, -5])]"
    by (simp add: report_state_def relu_executor_def relu_plan_def bt_collect_def upt_rec)
  have inputs: "check_inputs int_ops (cm_physical relu_compilation) [] = Ok ()"
    by (simp add: check_inputs_def relu_compilation_def relu_plan_def reject_def)
  have "graph_solution int_ops relu_graph [] (\<lambda>x. the (map_of [(''s'', [3, -5])] x)) ?shp ?val"
    by (simp add: graph_solution_def relu_graph_def op_shape_def index_at_def reject_def eval_op_def int_ops_def)
  from compiled_graph_computes [OF relu_compiled relu_wf serving inputs state this]
  show ?thesis by (auto simp: relu_graph_def int_ops_def bt_collect_def split: outcome.splits)
qed

end
