(* ===== verification/Planner_Cycle.thy ===== *)
theory Planner_Cycle
  imports Planner_Thms
begin

text \<open>
  Typing terminates with an error exactly where it should: a cycle is reported for cyclic graphs only, cyclic
  graphs are never accepted, and typing never panics.
\<close>

definition cyclic :: "'f logical_graph \<Rightarrow> bool" where
  "cyclic g \<longleftrightarrow> (\<exists>C. C \<noteq> {} \<and> C \<subseteq> set (lg_nodes g) \<and> (\<forall>n \<in> C. \<exists>x \<in> set (ln_inputs n). \<exists>m \<in> C. ln_name m = x))"

definition cycle_error :: error where
  "cycle_error = invalid ''cycle in logical graph''"

lemma typed_not_cyclic:
  assumes legal: "typed_legal F (length (source_values g)) t" and of: "typing_of g t"
  shows "\<not> cyclic g"
proof
  let ?vs = "tg_values t" and ?base = "length (source_values g)" and ?ns = "tg_nodes t"
  assume "cyclic g"
  then obtain C where C: "C \<noteq> {}" "C \<subseteq> set (lg_nodes g)" "\<forall>n \<in> C. \<exists>x \<in> set (ln_inputs n). \<exists>m \<in> C. ln_name m = x" by (auto simp: cyclic_def)
  obtain placed where placed: "list_all2 (node_matches ?vs) ?ns placed" "set placed = set (lg_nodes g)" using of by (auto simp: typing_of_def)
  have len: "length placed = length ?ns" using placed(1) by (simp add: list_all2_lengthD)
  have no: "placed ! k \<notin> C" if "k < length placed" for k
    using that
  proof (induction k rule: less_induct)
    case (less k)
    show ?case
    proof
      assume in_C: "placed ! k \<in> C"
      then obtain m where m: "m \<in> C" "ln_name m \<in> set (ln_inputs (placed ! k))" using C(3) by metis
      obtain j where j: "j < length placed" "placed ! j = m" using m(1) C(2) placed(2) by (metis in_set_conv_nth subsetD)
      have match: "node_matches ?vs (?ns ! k) (placed ! k)" "node_matches ?vs (?ns ! j) m"
        using list_all2_nthD2 [OF placed(1)] less.prems j by auto
      have nodes: "node_legal ?vs ?base k (?ns ! k)" "node_legal ?vs ?base j (?ns ! j)" using legal less.prems j(1) len by (auto simp: typed_legal_def)
      obtain i where i: "i \<in> set (tn_inputs (?ns ! k))" "name_at ?vs i = ln_name m" 
      proof -
        have "ln_inputs (placed ! k) = map (name_at ?vs) (tn_inputs (?ns ! k))" using match(1) by (simp add: node_matches_def)
        then have "ln_name m \<in> name_at ?vs ` set (tn_inputs (?ns ! k))" using m(2) by simp
        then show thesis using that by (metis imageE)
      qed
      have bounds: "i < ?base + k" "i < length ?vs" "?base + j < length ?vs" "name_at ?vs (?base + j) = ln_name m"
        using nodes i(1) match(2) by (auto simp: node_legal_def node_matches_def name_at_def)
      then have "i = ?base + j" using legal i(2) nth_eq_iff_index_eq [of "map vl_name ?vs" i "?base + j"] by (simp add: typed_legal_def names_distinct_def name_at_def)
      then have "j < k" using bounds(1) by simp
      then show False using less.IH [of j] j m(1) by simp
    qed
  qed
  obtain n where "n \<in> C" using C(1) by blast
  then obtain k where "k < length placed" "placed ! k = n" using C(2) placed(2) by (metis in_set_conv_nth subsetD)
  then show False using no \<open>n \<in> C\<close> by blast
qed

section \<open>Placing the nodes stops only at a cycle\<close>

lemma elements_not_cycle: "elements s \<noteq> Err cycle_error"
  by (auto simp: elements_def cycle_error_def invalid_def outcome_simps)

text \<open>Steps that never panic, and report a cycle only if \<open>B\<close>.\<close>

definition calm :: "bool \<Rightarrow> 'a outcome \<Rightarrow> bool" where
  "calm B m \<longleftrightarrow> m \<noteq> Panic \<and> (m = Err cycle_error \<longrightarrow> B)"

lemma calm_Ok: "calm B (Ok x)"
  by (simp add: calm_def)

lemma calm_and_then: "calm B m \<Longrightarrow> (\<And>x. m = Ok x \<Longrightarrow> calm B (f x)) \<Longrightarrow> calm B (and_then m f)"
  by (cases m) (auto simp: calm_def)

lemma calm_fold: "(\<And>x c. x \<in> set xs \<Longrightarrow> calm B (f x c)) \<Longrightarrow> calm B (fold_out f xs b)"
  by (induction xs arbitrary: b) (auto intro!: calm_and_then calm_Ok)

lemma calm_check: "(\<And>x. x \<in> set xs \<Longrightarrow> calm B (f x)) \<Longrightarrow> calm B (check_all f xs)"
  by (induction xs) (auto intro!: calm_and_then calm_Ok)

lemma calm_collect: "(\<And>x. x \<in> set xs \<Longrightarrow> calm B (f x)) \<Longrightarrow> calm B (collect f xs)"
  by (induction xs) (auto intro!: calm_and_then calm_Ok)

lemma calm_reject: "message \<noteq> ''cycle in logical graph'' \<Longrightarrow> calm B (reject b (invalid message))"
  by (auto simp: calm_def outcome_simps cycle_error_def invalid_def)

lemma calm_ok_or: "message \<noteq> ''cycle in logical graph'' \<Longrightarrow> calm B (ok_or m (invalid message))"
  by (auto simp: calm_def outcome_simps cycle_error_def invalid_def)

lemma calm_elements: "calm B (elements s)"
  using elements_no_panic elements_not_cycle by (auto simp: calm_def)

lemmas calm_intros = calm_Ok calm_and_then calm_fold calm_check calm_collect calm_reject calm_ok_or calm_elements

lemma calm_op_shape: "calm B (op_shape op shapes)"
  by (auto simp: op_shape_def Let_def index_at_def split: if_splits intro!: calm_intros) (auto simp: outcome_simps)

lemma place_node_ready:
  assumes ok: "ids_ok s" and ready: "\<forall>x \<in> set (ln_inputs n). map_of (ty_ids s) x \<noteq> None"
  shows "calm B (place_node name n s)"
proof -
  have "collect (\<lambda>x. unwrap (map_of (ty_ids s) x)) (ln_inputs n) = Ok (map (\<lambda>x. the (map_of (ty_ids s) x)) (ln_inputs n))"
    using ready by (intro collect_map) auto
  moreover have "collect (shape_of (ty_values s)) (map (\<lambda>x. the (map_of (ty_ids s) x)) (ln_inputs n)) =
      Ok (map (\<lambda>i. vl_shape (ty_values s ! i)) (map (\<lambda>x. the (map_of (ty_ids s) x)) (ln_inputs n)))"
  proof (rule collect_map)
    fix i assume "i \<in> set (map (\<lambda>x. the (map_of (ty_ids s) x)) (ln_inputs n))"
    then obtain x where "map_of (ty_ids s) x = Some i" using ready by fastforce
    then show "shape_of (ty_values s) i = Ok (vl_shape (ty_values s ! i))" by (simp add: ids_okD [OF ok] shape_of_def index_at_def)
  qed
  ultimately show ?thesis unfolding place_node_def by (simp add: calm_and_then calm_op_shape calm_elements calm_Ok)
qed

lemma place_nodes_stuck:
  assumes "placing_inv F src all pending s"
    and "\<forall>n \<in> set all. \<forall>x \<in> set (ln_inputs n). x \<in> vl_name ` set src \<union> ln_name ` set all"
  shows "place_nodes pending s \<noteq> Panic \<and>
    (place_nodes pending s = Err cycle_error \<longrightarrow> (\<exists>C. C \<noteq> {} \<and> C \<subseteq> set all \<and> (\<forall>n \<in> C. \<exists>x \<in> set (ln_inputs n). \<exists>m \<in> C. ln_name m = x)))"
  using assms(1)
proof (induction pending s rule: place_nodes.induct)
  case (1 pending s)
  have ok: "ids_ok s" using 1(2) by (simp add: placing_inv_def)
  show ?case
  proof (cases "pending = []")
    case True
    then show ?thesis by (simp add: place_nodes.simps)
  next
    case False
    show ?thesis
    proof (cases "ready_node s pending")
      case None
      let ?C = "snd ` set pending"
      have "\<exists>x \<in> set (ln_inputs n). \<exists>m \<in> ?C. ln_name m = x" if n: "n \<in> ?C" for n
      proof -
        obtain x where x: "x \<in> set (ln_inputs n)" "map_of (ty_ids s) x = None"
        proof -
          obtain name where "(name, n) \<in> set pending" using n by force
          then have "\<not> (\<forall>x \<in> set (ln_inputs n). map_of (ty_ids s) x \<noteq> None)" using None by (auto simp: ready_node_def find_None_iff)
          then show thesis using that by blast
        qed
        have fresh: "x \<notin> vl_name ` set (ty_values s)" using x(2) ids_ok_None [OF ok] by simp
        obtain placed where p: "list_all2 (node_matches (ty_values s)) (ty_nodes s) placed" "set placed \<union> ?C = set all"
          using 1(2) by (auto simp: placing_inv_def)
        have "set src \<subseteq> set (ty_values s)" using 1(2) by (metis placing_inv_def set_take_subset)
        then obtain m where m: "m \<in> set all" "ln_name m = x" using assms(2) n p(2) x(1) fresh by blast
        have "m \<notin> set placed"
        proof
          assume "m \<in> set placed"
          then obtain k where k: "k < length (ty_nodes s)" "placed ! k = m" using p(1) by (metis in_set_conv_nth list_all2_lengthD)
          have "node_legal (ty_values s) (length src) k (ty_nodes s ! k)" using 1(2) k(1) by (simp add: placing_inv_def)
          moreover have "node_matches (ty_values s) (ty_nodes s ! k) m" using list_all2_nthD [OF p(1) k(1)] k(2) by simp
          ultimately have "x = vl_name (ty_values s ! (length src + k))" "length src + k < length (ty_values s)"
            using m(2) by (auto simp: node_legal_def node_matches_def)
          then show False using fresh by auto
        qed
        then show ?thesis using m p(2) x(1) by blast
      qed
      moreover have "?C \<subseteq> set all" "?C \<noteq> {}" using 1(2) False by (auto simp: placing_inv_def)
      ultimately have C: "?C \<noteq> {} \<and> ?C \<subseteq> set all \<and> (\<forall>n \<in> ?C. \<exists>x \<in> set (ln_inputs n). \<exists>m \<in> ?C. ln_name m = x)" by blast
      have stuck: "place_nodes pending s = Err (invalid ''cycle in logical graph'')" using False None by (simp add: place_nodes.simps [of pending s])
      show ?thesis unfolding stuck by (intro conjI impI) (simp, rule exI, rule C)
    next
      case (Some e)
      obtain name n where e: "e = (name, n)" by (cases e)
      then have r: "ready_node s pending = Some (name, n)" using Some by simp
      have step: "place_nodes pending s = and_then (place_node name n s) (\<lambda>s. place_nodes (bt_remove name pending) s)"
        using False r by (simp add: place_nodes.simps [of pending s])
      have "placing_inv F src all (bt_remove name pending) s1" if "place_node name n s = Ok s1" for s1
        using 1(2) ready_node_in [OF r] that by (intro place_node_inv) auto
      then show ?thesis using 1(1) [OF False r refl] place_node_ready [OF ok, of n False name] ready_node_in [OF r] unfolding step
        by (cases "place_node name n s") (auto simp: calm_def)
    qed
  qed
qed

section \<open>Typing\<close>

lemma calm_rounds:
  "calm B (check_name x names)" "calm B (add_input t s)" "calm B (add_owned F st c s)" "calm B (check_operands names n)"
  "calm B (resolve s x)" "calm B (add_bytes v bytes)"
  by (auto simp: check_name_def add_input_def add_owned_def check_operands_def resolve_def add_bytes_def intro!: calm_intros)

lemma calm_update:
  assumes "ids_ok s" shows "calm B (add_update s u acc)"
proof -
  obtain target source where u: "u = (target, source)" by (cases u)
  have "calm B (index_at (ty_values s) i)" if "resolve s x = Ok i" for x i
    using that by (simp add: resolve_def outcome_simps ids_okD [OF assms] index_at_def calm_Ok)
  then show ?thesis unfolding u add_update_def
    by (auto intro!: calm_intros calm_rounds)
qed

lemma operands_known:
  assumes "fold_out check_name (logical_names g) [] = Ok names" and "check_all (check_operands names) (lg_nodes g) = Ok ()"
    and "n \<in> set (lg_nodes g)" and "x \<in> set (ln_inputs n)"
  shows "x \<in> vl_name ` set (source_values g) \<union> ln_name ` set (lg_nodes g)"
proof -
  have "set names = set (logical_names g)" using check_names [OF assms(1)] by simp
  then have "x \<in> set (logical_names g)" using assms(2-) by (auto simp: outcome_simps check_operands_def)
  then show ?thesis by (auto simp: logical_names_def source_values_def image_Un image_image)
qed

lemma typed_calm: "calm (cyclic g) (typed F g)"
proof -
  let ?pending = "bt_collect (map (\<lambda>n. (ln_name n, n)) (lg_nodes g))"
  have places: "calm (cyclic g) (place_nodes ?pending s3) \<and> (\<forall>s. place_nodes ?pending s3 = Ok s \<longrightarrow> ids_ok s)"
    if "fold_out check_name (logical_names g) [] = Ok names" "fold_out add_input (lg_inputs g) \<lparr>ty_ids = [], ty_values = [], ty_nodes = []\<rparr> = Ok s1"
      "fold_out (add_owned F ConstantStorage) (lg_constants g) s1 = Ok s2" "fold_out (add_owned F StateStorage) (lg_states g) s2 = Ok s3"
      "check_all (check_operands names) (lg_nodes g) = Ok ()" for names s1 s2 s3
  proof -
    note start = typing_start [OF that(1-4)]
    have "ids_ok s" if "place_nodes ?pending s3 = Ok s" for s using place_nodes_inv [OF that start] by (simp add: placing_inv_def)
    then show ?thesis using place_nodes_stuck [OF start] operands_known [OF that(1,5)] by (auto simp: calm_def cyclic_def)
  qed
  show ?thesis unfolding typed_def
    using places by (intro calm_intros calm_rounds calm_update) (auto)
qed

section \<open>Properties\<close>

text \<open>C19. Typing is total and exact about cycles: it never panics; a graph it accepts has no nonempty set of nodes that all read
  from the set, and where it answers that the graph has a cycle there is such a set.\<close>

theorem typing_detects_cycles:
  "case typed F g of Ok t \<Rightarrow> bt_wf (lg_updates g) \<longrightarrow> \<not> cyclic g | Err e \<Rightarrow> e = cycle_error \<longrightarrow> cyclic g | Panic \<Rightarrow> False"
proof (cases "typed F g")
  case (Ok t)
  then show ?thesis using typed_wf [OF Ok bt_wf_distinct] typed_not_cyclic by auto
qed (use typed_calm [of g F] in \<open>simp_all add: calm_def\<close>)

theorem typing_detects_cycles_witness: "\<not> cyclic relu_graph"
  using typing_detects_cycles [where F = int_ops and g = relu_graph] by (simp add: relu_typing relu_wf)

end
