(* ===== verification/Activation.thy ===== *)
theory Activation
  imports Containers "HOL-Library.Product_Lexorder"
begin

text \<open>
  The arena of the hidden activations (\<open>crates/inferfabric-native/src/activation.rs\<close>): intervals of
  layers in which a value is live, and the offsets the planner gives them. Offsets and sizes are \<open>usize\<close>,
  so every addition is the checked one of 64 bits. The device session behind \<open>bind_hidden\<close> (its
  allocation and its view of a buffer) and the environment variable it reads are parameters.
\<close>

section \<open>The planner\<close>

definition ACTIVATION_ALIGNMENT :: nat where
  "ACTIVATION_ALIGNMENT = 512"

record interval =
  iv_bytes :: nat
  iv_first :: nat
  iv_last :: nat

record activation_plan =
  ap_bytes :: nat
  ap_offsets :: "nat list"

definition align :: "nat \<Rightarrow> nat outcome" where
  "align bytes = ok_or
     (map_option (\<lambda>n. n div ACTIVATION_ALIGNMENT * ACTIVATION_ALIGNMENT) (checked_add 64 bytes (ACTIVATION_ALIGNMENT - 1)))
     (invalid ''activation alignment overflow'')"

abbreviation arena_overflow :: error where
  "arena_overflow \<equiv> invalid ''activation arena overflow''"

text \<open>The search for a gap among the values that are live at the same time, in the order of their offsets.\<close>

fun find_gap :: "interval list \<Rightarrow> nat list \<Rightarrow> nat \<Rightarrow> nat list \<Rightarrow> nat \<Rightarrow> nat outcome" where
  "find_gap ivs offs need [] offset = Ok offset"
| "find_gap ivs offs need (j # js) offset =
     and_then (ok_or (checked_add 64 offset need) arena_overflow) (\<lambda>end.
     and_then (index_at offs j) (\<lambda>start.
     if end \<le> start then Ok offset
     else and_then (index_at ivs j) (\<lambda>v.
          and_then (align (iv_bytes v)) (\<lambda>n.
          and_then (ok_or (checked_add 64 start n) arena_overflow) (\<lambda>next.
          find_gap ivs offs need js (max offset next))))))"

text \<open>Two intervals share a layer.\<close>

definition share_layer :: "interval \<Rightarrow> interval \<Rightarrow> bool" where
  "share_layer w v \<longleftrightarrow> iv_last w \<ge> iv_first v \<and> iv_first w \<le> iv_last v"

record arena_state =
  ar_offsets :: "nat list"
  ar_placed :: "nat list"
  ar_bytes :: nat

definition conflicting :: "interval list \<Rightarrow> interval \<Rightarrow> arena_state \<Rightarrow> nat list outcome" where
  "conflicting ivs v s =
     and_then (collect (\<lambda>j. and_then (index_at ivs j) (\<lambda>w. Ok (j, share_layer w v))) (ar_placed s)) (\<lambda>tests.
     and_then (collect (\<lambda>j. and_then (index_at (ar_offsets s) j) (\<lambda>start. Ok (start, j))) (map fst (filter snd tests))) (\<lambda>starts.
     Ok (map snd (sort_key fst starts))))"

definition place_interval :: "interval list \<Rightarrow> nat \<Rightarrow> arena_state \<Rightarrow> arena_state outcome" where
  "place_interval ivs i s =
     and_then (index_at ivs i) (\<lambda>v.
     and_then (reject (iv_bytes v = 0 \<or> iv_first v > iv_last v) (invalid ''invalid activation live interval'')) (\<lambda>_.
     and_then (align (iv_bytes v)) (\<lambda>need.
     and_then (conflicting ivs v s) (\<lambda>js.
     and_then (find_gap ivs (ar_offsets s) need js 0) (\<lambda>offset.
     and_then (ok_or (checked_add 64 offset need) arena_overflow) (\<lambda>end.
     and_then (assign_at (ar_offsets s) i offset) (\<lambda>offs.
     Ok \<lparr>ar_offsets = offs, ar_placed = ar_placed s @ [i], ar_bytes = max (ar_bytes s) end\<rparr>)))))))"

definition placing_order :: "interval list \<Rightarrow> nat list" where
  "placing_order ivs = sort_key (\<lambda>i. (iv_first (ivs ! i), i)) [0..<length ivs]"

definition plan_activations :: "interval list \<Rightarrow> activation_plan outcome" where
  "plan_activations ivs =
     and_then (fold_out (place_interval ivs) (placing_order ivs)
        \<lparr>ar_offsets = replicate (length ivs) 0, ar_placed = [], ar_bytes = 0\<rparr>) (\<lambda>s.
     Ok \<lparr>ap_bytes = ar_bytes s, ap_offsets = ar_offsets s\<rparr>)"

section \<open>Binding the hidden activations\<close>

text \<open>A buffer between each pair of adjacent layers and one at either end.\<close>

definition hidden_intervals :: "nat \<Rightarrow> nat \<Rightarrow> interval list" where
  "hidden_intervals layers width = map (\<lambda>i. \<lparr>iv_bytes = width, iv_first = i, iv_last = i + 1\<rparr>) [0..<layers + 2]"

text \<open>\<open>allocate\<close> and \<open>view\<close> are the calls of the device session, which change its state; \<open>dedicated\<close> tells
  whether the environment asks for one allocation for each buffer.\<close>

definition bind_hidden :: "(nat \<Rightarrow> ('d, nat) op) \<Rightarrow> (nat \<Rightarrow> nat \<Rightarrow> nat \<Rightarrow> ('d, nat) op) \<Rightarrow> bool \<Rightarrow> nat \<Rightarrow> nat \<Rightarrow> ('d, nat list) op" where
  "bind_hidden allocate view dedicated layers width =
     (let ivs = hidden_intervals layers width in
      if dedicated then collect_op (\<lambda>v. allocate (iv_bytes v)) ivs
      else try_op (plan_activations ivs) (\<lambda>p.
           bind_op (allocate (ap_bytes p)) (\<lambda>parent.
           collect_op (\<lambda>offset. view parent offset width) (ap_offsets p))))"

end
