(* ===== verification/Activation_Thms.thy ===== *)
theory Activation_Thms
  imports Activation
begin

text \<open>
  What the activation planner promises: values that are live in a common layer never share a byte of the
  arena, the planner never panics and succeeds whenever the sizes add up below the address width, and the
  hidden activations of any number of layers take two buffers in turn.
\<close>

section \<open>Sizes\<close>

definition aligned :: "nat \<Rightarrow> nat" where
  "aligned bytes = (bytes + 511) div 512 * 512"

abbreviation room :: "interval \<Rightarrow> nat" where
  "room v \<equiv> aligned (iv_bytes v)"

lemma align_iffs [outcome_simps]:
  "align b = Ok n \<longleftrightarrow> b + 511 < 2 ^ 64 \<and> n = aligned b"
  "align b = Panic \<longleftrightarrow> False"
  by (auto simp: align_def ACTIVATION_ALIGNMENT_def aligned_def outcome_simps checked_iffs)

lemma aligned_covers: "b \<le> aligned b"
  using div_mult_mod_eq [of "b + 511" 512] mod_less_divisor [of 512 "b + 511"] by (simp add: aligned_def)

lemma aligned_dvd [simp]: "512 dvd aligned b"
  by (simp add: aligned_def)

lemma aligned_below: "aligned b < 2 ^ 64 \<Longrightarrow> b + 511 < 2 ^ 64"
  using div_less_iff_less_mult [of 512 "b + 511" "2 ^ 55"] by (simp add: aligned_def)

lemma aligned_pos: "0 < b \<Longrightarrow> 0 < aligned b"
  using aligned_covers [of b] by linarith

section \<open>The gap\<close>

definition apart :: "nat \<Rightarrow> nat \<Rightarrow> nat \<Rightarrow> nat \<Rightarrow> bool" where
  "apart a m b n \<longleftrightarrow> a + m \<le> b \<or> b + n \<le> a"

lemma apart_sym: "apart a m b n \<Longrightarrow> apart b n a m"
  by (auto simp: apart_def)

lemma find_gap_Ok:
  assumes "find_gap ivs offs need js offset = Ok r" and "sorted (map (\<lambda>j. offs ! j) js)"
  shows "offset \<le> r" and "r = offset \<or> (\<exists>j \<in> set js. r = offs ! j + room (ivs ! j))"
    and "j \<in> set js \<Longrightarrow> apart r need (offs ! j) (room (ivs ! j))"
  using assms
proof (induction js arbitrary: offset)
  case (Cons i js)
  {
    case 1
    then show ?case using Cons.IH(1) by (fastforce simp: outcome_simps checked_iffs split: if_splits)
  next
    case 2
    then show ?case using Cons.IH(2) by (fastforce simp: outcome_simps checked_iffs max_def split: if_splits)
  next
    case 3
    then show ?case
      using Cons.IH(3) Cons.IH(1) [of "max offset (offs ! i + room (ivs ! i))"]
      by (fastforce simp: outcome_simps checked_iffs apart_def split: if_splits)
  }
qed simp_all

lemma find_gap_total:
  assumes "\<forall>j \<in> set js. j < length offs \<and> j < length ivs \<and> iv_bytes (ivs ! j) + 511 < 2 ^ 64 \<and> offs ! j + room (ivs ! j) \<le> limit"
    and "offset \<le> limit" and "limit + need < 2 ^ 64"
  shows "\<exists>r. find_gap ivs offs need js offset = Ok r"
  using assms(1,2)
proof (induction js arbitrary: offset)
  case (Cons j js)
  have "offs ! j + room (ivs ! j) < 2 ^ 64" and "offset + need < 2 ^ 64" using Cons.prems assms(3) by auto
  then show ?case using Cons.prems Cons.IH [of "max offset (offs ! j + room (ivs ! j))"]
    by (simp add: checked_add_def index_at_def align_iffs [THEN iffD2])
qed simp

lemma find_gap_no_panic:
  "\<forall>j \<in> set js. j < length offs \<and> j < length ivs \<Longrightarrow> find_gap ivs offs need js offset \<noteq> Panic"
  by (induction js arbitrary: offset) (auto simp: outcome_simps)

section \<open>The loop\<close>

text \<open>After the intervals \<open>done\<close>: their places are aligned, inside the arena, apart where they are live
  together, and the arena ends at the end of one of them.\<close>

definition arena_inv :: "interval list \<Rightarrow> nat list \<Rightarrow> arena_state \<Rightarrow> bool" where
  "arena_inv ivs placed s \<longleftrightarrow> ar_placed s = placed \<and> length (ar_offsets s) = length ivs \<and>
     (\<forall>i \<in> set placed. 512 dvd ar_offsets s ! i \<and> iv_bytes (ivs ! i) + 511 < 2 ^ 64 \<and> iv_first (ivs ! i) \<le> iv_last (ivs ! i) \<and>
        0 < iv_bytes (ivs ! i) \<and> ar_offsets s ! i + room (ivs ! i) \<le> ar_bytes s) \<and>
     (\<forall>i \<in> set placed. \<forall>j \<in> set placed. i \<noteq> j \<longrightarrow> share_layer (ivs ! i) (ivs ! j) \<longrightarrow>
        apart (ar_offsets s ! i) (room (ivs ! i)) (ar_offsets s ! j) (room (ivs ! j))) \<and>
     ar_bytes s \<le> (\<Sum>i\<leftarrow>placed. room (ivs ! i))"

lemma share_layer_sym: "share_layer v w \<longleftrightarrow> share_layer w v"
  by (auto simp: share_layer_def)

lemma conflicting_Ok:
  assumes "\<forall>j \<in> set (ar_placed s). j < length ivs" and "length (ar_offsets s) = length ivs"
  shows "conflicting ivs v s = Ok (sort_key ((!) (ar_offsets s)) (filter (\<lambda>j. share_layer (ivs ! j) v) (ar_placed s)))"
proof -
  have tests: "collect (\<lambda>j. and_then (index_at ivs j) (\<lambda>w. Ok (j, share_layer w v))) js = Ok (map (\<lambda>j. (j, share_layer (ivs ! j) v)) js)"
    if "\<forall>j \<in> set js. j < length ivs" for js
    using that by (induction js) (auto simp: index_at_def)
  have starts: "collect (\<lambda>j. and_then (index_at (ar_offsets s) j) (\<lambda>start. Ok (start, j))) js = Ok (map (\<lambda>j. (ar_offsets s ! j, j)) js)"
    if "\<forall>j \<in> set js. j < length ivs" for js
    using that assms(2) by (induction js) (auto simp: index_at_def)
  have sorts: "sort_key fst (map (\<lambda>j. (f j, j)) js) = map (\<lambda>j. (f j, j)) (sort_key f js)" for f :: "nat \<Rightarrow> nat" and js
  proof (induction js)
    case (Cons j js)
    have "insort_key fst (f j, j) (map (\<lambda>j. (f j, j)) ks) = map (\<lambda>j. (f j, j)) (insort_key f j ks)" for ks
      by (induction ks) auto
    with Cons show ?case by simp
  qed simp
  show ?thesis
    using assms(1) tests [OF assms(1)] starts [of "filter (\<lambda>j. share_layer (ivs ! j) v) (ar_placed s)"]
    by (auto simp: conflicting_def filter_map comp_def sorts)
qed

lemma place_interval_step:
  assumes inv: "arena_inv ivs placed s" and placed: "\<forall>j \<in> set placed. j < length ivs" and i: "i < length ivs" "i \<notin> set placed"
    and ok: "place_interval ivs i s = Ok s'"
  shows "arena_inv ivs (placed @ [i]) s'"
proof -
  let ?v = "ivs ! i" and ?js = "sort_key ((!) (ar_offsets s)) (filter (\<lambda>j. share_layer (ivs ! j) (ivs ! i)) placed)"
  have p: "ar_placed s = placed" and len: "length (ar_offsets s) = length ivs" using inv by (auto simp: arena_inv_def)
  obtain r where v: "0 < iv_bytes ?v" "iv_first ?v \<le> iv_last ?v" "iv_bytes ?v + 511 < 2 ^ 64" and
    gap: "find_gap ivs (ar_offsets s) (room ?v) ?js 0 = Ok r" and
    s': "s' = \<lparr>ar_offsets = (ar_offsets s)[i := r], ar_placed = placed @ [i], ar_bytes = max (ar_bytes s) (r + room ?v)\<rparr>"
    using ok placed len p i(1) by (auto simp: place_interval_def outcome_simps checked_iffs conflicting_Ok)
  have gap': "r = 0 \<or> (\<exists>j \<in> set ?js. r = ar_offsets s ! j + room (ivs ! j))"
    "j \<in> set placed \<Longrightarrow> share_layer (ivs ! j) ?v \<Longrightarrow> apart r (room ?v) (ar_offsets s ! j) (room (ivs ! j))" for j
    using find_gap_Ok(2,3) [OF gap] by auto
  have "512 dvd r" "r \<le> ar_bytes s" using gap'(1) inv by (auto simp: arena_inv_def)
  moreover have "(ar_offsets s)[i := r] ! j = ar_offsets s ! j" if "j \<in> set placed" for j
    using that i(2) by (metis nth_list_update_neq)
  ultimately show ?thesis
    using inv v i gap'(2) len unfolding arena_inv_def s'
    by (auto simp: share_layer_sym apart_sym max_def dest: apart_sym intro: le_trans)
qed

lemma place_interval_no_panic:
  assumes "arena_inv ivs placed s" and "\<forall>j \<in> set placed. j < length ivs" and "i < length ivs"
  shows "place_interval ivs i s \<noteq> Panic"
  using assms find_gap_no_panic
  by (fastforce simp: place_interval_def outcome_simps checked_iffs arena_inv_def conflicting_Ok)

lemma place_interval_run:
  assumes inv: "arena_inv ivs placed s" and placed: "\<forall>j \<in> set placed. j < length ivs" and i: "i < length ivs"
    and v: "0 < iv_bytes (ivs ! i)" "iv_first (ivs ! i) \<le> iv_last (ivs ! i)"
    and sum: "(\<Sum>j\<leftarrow>placed @ [i]. room (ivs ! j)) < 2 ^ 64"
  shows "\<exists>s'. place_interval ivs i s = Ok s'"
proof -
  let ?js = "sort_key ((!) (ar_offsets s)) (filter (\<lambda>j. share_layer (ivs ! j) (ivs ! i)) placed)"
  have fits: "ar_bytes s + room (ivs ! i) < 2 ^ 64" "iv_bytes (ivs ! i) + 511 < 2 ^ 64"
    using inv sum aligned_below [of "iv_bytes (ivs ! i)"] by (auto simp: arena_inv_def)
  obtain r where r: "find_gap ivs (ar_offsets s) (room (ivs ! i)) ?js 0 = Ok r"
    using find_gap_total [of ?js "ar_offsets s" ivs "ar_bytes s" 0 "room (ivs ! i)"] inv placed fits(1)
    by (auto simp: arena_inv_def)
  have "r \<le> ar_bytes s" using find_gap_Ok(2) [OF r] inv by (auto simp: arena_inv_def)
  then have "r + room (ivs ! i) < 2 ^ 64" using fits(1) by simp
  then show ?thesis
    using inv placed i v fits r
    by (simp add: place_interval_def conflicting_Ok arena_inv_def reject_def index_at_def assign_at_def checked_add_def align_iffs [THEN iffD2])
qed

lemma placing_order_split:
  assumes "placing_order ivs = ys @ i # zs"
  shows "i < length ivs" and "i \<notin> set ys" and "\<forall>j \<in> set ys. j < length ivs"
proof -
  have "set (placing_order ivs) = {..<length ivs}" "distinct (placing_order ivs)"
    by (auto simp: placing_order_def)
  then show "i < length ivs" "i \<notin> set ys" "\<forall>j \<in> set ys. j < length ivs" unfolding assms by auto
qed

lemma arena_inv_start: "arena_inv ivs [] \<lparr>ar_offsets = replicate (length ivs) 0, ar_placed = [], ar_bytes = 0\<rparr>"
  by (simp add: arena_inv_def)

lemma plan_activations_inv:
  assumes "plan_activations ivs = Ok p"
  shows "arena_inv ivs (placing_order ivs) \<lparr>ar_offsets = ap_offsets p, ar_placed = placing_order ivs, ar_bytes = ap_bytes p\<rparr>"
proof -
  obtain s where s: "fold_out (place_interval ivs) (placing_order ivs) \<lparr>ar_offsets = replicate (length ivs) 0, ar_placed = [], ar_bytes = 0\<rparr> = Ok s"
    "p = \<lparr>ap_bytes = ar_bytes s, ap_offsets = ar_offsets s\<rparr>"
    using assms by (auto simp: plan_activations_def outcome_simps)
  have "arena_inv ivs (placing_order ivs) s"
  proof (rule fold_out_prefix [where P = "arena_inv ivs", OF s(1) arena_inv_start])
    show "arena_inv ivs (ys @ [i]) c'" if "placing_order ivs = ys @ i # zs" "arena_inv ivs ys c" "place_interval ivs i c = Ok c'" for ys i zs c c'
      using place_interval_step [OF that(2)] placing_order_split [OF that(1)] that(3) by blast
  qed
  then show ?thesis using s(2) by (simp add: arena_inv_def)
qed

lemma place_loop_no_panic:
  "fold_out (place_interval ivs) (placing_order ivs) \<lparr>ar_offsets = replicate (length ivs) 0, ar_placed = [], ar_bytes = 0\<rparr> \<noteq> Panic"
proof (rule fold_out_prefix_no_panic [where P = "arena_inv ivs", OF arena_inv_start])
  fix ys i zs c c'
  assume *: "placing_order ivs = ys @ i # zs" "arena_inv ivs ys c"
  show "place_interval ivs i c \<noteq> Panic" using place_interval_no_panic [OF *(2)] placing_order_split [OF *(1)] by blast
  show "arena_inv ivs (ys @ [i]) c'" if "place_interval ivs i c = Ok c'"
    using place_interval_step [OF *(2)] placing_order_split [OF *(1)] that by blast
qed

lemma sum_placing_order: "(\<Sum>i\<leftarrow>placing_order ivs. room (ivs ! i)) = (\<Sum>v\<leftarrow>ivs. room v)"
proof -
  have "mset (placing_order ivs) = mset [0..<length ivs]" by (simp add: placing_order_def)
  then have "sum_mset (image_mset (\<lambda>i. room (ivs ! i)) (mset (placing_order ivs))) = sum_mset (image_mset (\<lambda>i. room (ivs ! i)) (mset [0..<length ivs]))"
    by simp
  then have "(\<Sum>i\<leftarrow>placing_order ivs. room (ivs ! i)) = (\<Sum>i\<leftarrow>[0..<length ivs]. room (ivs ! i))"
    by (metis mset_map sum_mset_sum_list)
  also have "map (\<lambda>i. room (ivs ! i)) [0..<length ivs] = map room ivs" by (rule nth_equalityI) auto
  finally show ?thesis by (simp only:)
qed

section \<open>Properties\<close>

text \<open>C36. Activation storage. When the planner accepts the intervals, every value has an aligned place inside the
  arena and two values that are live in a common layer never share a byte; the arena is no larger than the sum
  of the padded sizes.\<close>

theorem activations_never_overlap:
  assumes "plan_activations ivs = Ok p"
  shows "length (ap_offsets p) = length ivs
    \<and> (\<forall>i < length ivs. 512 dvd ap_offsets p ! i \<and> ap_offsets p ! i + iv_bytes (ivs ! i) \<le> ap_bytes p)
    \<and> (\<forall>i < length ivs. \<forall>j < length ivs. i \<noteq> j \<longrightarrow>
         (\<exists>layer. layer \<in> {iv_first (ivs ! i)..iv_last (ivs ! i)} \<inter> {iv_first (ivs ! j)..iv_last (ivs ! j)}) \<longrightarrow>
         {ap_offsets p ! i..<ap_offsets p ! i + iv_bytes (ivs ! i)} \<inter> {ap_offsets p ! j..<ap_offsets p ! j + iv_bytes (ivs ! j)} = {})
    \<and> ap_bytes p \<le> (\<Sum>v\<leftarrow>ivs. aligned (iv_bytes v))"
proof -
  note inv = plan_activations_inv [OF assms]
  have all: "set (placing_order ivs) = {..<length ivs}" by (auto simp: placing_order_def)
  have room: "iv_bytes v \<le> room v" for v by (rule aligned_covers)
  have places: "512 dvd ap_offsets p ! i \<and> ap_offsets p ! i + iv_bytes (ivs ! i) \<le> ap_bytes p" if "i < length ivs" for i
  proof -
    have "512 dvd ap_offsets p ! i" "ap_offsets p ! i + room (ivs ! i) \<le> ap_bytes p"
      using inv that by (simp_all add: arena_inv_def all)
    then show ?thesis using room [of "ivs ! i"] by linarith
  qed
  have "{ap_offsets p ! i..<ap_offsets p ! i + iv_bytes (ivs ! i)} \<inter> {ap_offsets p ! j..<ap_offsets p ! j + iv_bytes (ivs ! j)} = {}"
    if "i < length ivs" "j < length ivs" "i \<noteq> j" "share_layer (ivs ! i) (ivs ! j)" for i j
  proof -
    have "apart (ap_offsets p ! i) (room (ivs ! i)) (ap_offsets p ! j) (room (ivs ! j))"
      using inv that by (auto simp: arena_inv_def all)
    then show ?thesis using room [of "ivs ! i"] room [of "ivs ! j"] by (auto simp: apart_def)
  qed
  moreover have "share_layer (ivs ! i) (ivs ! j)"
    if "layer \<in> {iv_first (ivs ! i)..iv_last (ivs ! i)} \<inter> {iv_first (ivs ! j)..iv_last (ivs ! j)}" for i j layer
    using that by (auto simp: share_layer_def)
  moreover have "length (ap_offsets p) = length ivs" "ap_bytes p \<le> (\<Sum>v\<leftarrow>ivs. room v)"
    using inv by (simp_all add: arena_inv_def sum_placing_order)
  ultimately show ?thesis using places by blast
qed

lemma activations_never_overlap_witness:
  "plan_activations [\<lparr>iv_bytes = 513, iv_first = 0, iv_last = 9\<rparr>, \<lparr>iv_bytes = 1, iv_first = 1, iv_last = 2\<rparr>, \<lparr>iv_bytes = 512, iv_first = 3, iv_last = 8\<rparr>] =
     Ok \<lparr>ap_bytes = 1536, ap_offsets = [0, 1024, 1024]\<rparr>
   \<and> ({0..<513} :: nat set) \<inter> {1024..<1025} = {}"
proof -
  have ok: "plan_activations [\<lparr>iv_bytes = 513, iv_first = 0, iv_last = 9\<rparr>, \<lparr>iv_bytes = 1, iv_first = 1, iv_last = 2\<rparr>, \<lparr>iv_bytes = 512, iv_first = 3, iv_last = 8\<rparr>] =
     Ok \<lparr>ap_bytes = 1536, ap_offsets = [0, 1024, 1024]\<rparr>"
    by (simp add: plan_activations_def placing_order_def place_interval_def conflicting_def share_layer_def align_def ACTIVATION_ALIGNMENT_def
        index_at_def assign_at_def reject_def checked_add_def upt_rec)
  show ?thesis using ok activations_never_overlap [OF ok] by (auto elim: allE [of _ 0])
qed

text \<open>Totality. The planner never panics, and it succeeds whenever every interval is legal and the padded
  sizes add up below the address width.\<close>

theorem plan_activations_total:
  "plan_activations ivs \<noteq> Panic
   \<and> ((\<forall>v \<in> set ivs. 0 < iv_bytes v \<and> iv_first v \<le> iv_last v) \<and> (\<Sum>v\<leftarrow>ivs. aligned (iv_bytes v)) < 2 ^ 64 \<longrightarrow>
      (\<exists>p. plan_activations ivs = Ok p))"
proof -
  have "plan_activations ivs \<noteq> Panic"
    using place_loop_no_panic by (simp add: plan_activations_def outcome_simps)
  moreover have "\<exists>p. plan_activations ivs = Ok p" if sizes: "\<forall>v \<in> set ivs. 0 < iv_bytes v \<and> iv_first v \<le> iv_last v" "(\<Sum>v\<leftarrow>ivs. room v) < 2 ^ 64"
  proof -
    have "\<exists>s. place_interval ivs i c = Ok s \<and> arena_inv ivs (ys @ [i]) s"
      if *: "placing_order ivs = ys @ i # zs" "arena_inv ivs ys c" for ys i zs c
    proof -
      have "(\<Sum>j\<leftarrow>ys @ [i]. room (ivs ! j)) < 2 ^ 64" using sum_placing_order [of ivs] sizes(2) by (simp add: *(1))
      moreover have "0 < iv_bytes (ivs ! i)" "iv_first (ivs ! i) \<le> iv_last (ivs ! i)" using sizes(1) placing_order_split(1) [OF *(1)] by auto
      ultimately obtain s where "place_interval ivs i c = Ok s"
        using place_interval_run [OF *(2) placing_order_split(3,1) [OF *(1)]] by blast
      then show ?thesis using place_interval_step [OF *(2) placing_order_split(3,1,2) [OF *(1)]] by blast
    qed
    then have "\<exists>s. fold_out (place_interval ivs) (placing_order ivs) \<lparr>ar_offsets = replicate (length ivs) 0, ar_placed = [], ar_bytes = 0\<rparr> = Ok s
        \<and> arena_inv ivs (placing_order ivs) s"
      by (rule fold_out_prefix_run [where P = "arena_inv ivs", OF arena_inv_start])
    then show ?thesis by (auto simp: plan_activations_def)
  qed
  ultimately show ?thesis by blast
qed

subsection \<open>The hidden activations\<close>

abbreviation turn :: "nat \<Rightarrow> nat \<Rightarrow> nat" where
  "turn width i \<equiv> if even i then 0 else aligned width"

lemma hidden_nth: "i < layers + 2 \<Longrightarrow> hidden_intervals layers width ! i = \<lparr>iv_bytes = width, iv_first = i, iv_last = i + 1\<rparr>"
  by (simp add: hidden_intervals_def del: upt_Suc add_2_eq_Suc')

lemma hidden_length: "length (hidden_intervals layers width) = layers + 2"
  by (simp add: hidden_intervals_def)

lemma placing_order_hidden: "placing_order (hidden_intervals layers width) = [0..<layers + 2]"
proof -
  have "sorted_wrt (\<lambda>i j. (iv_first (hidden_intervals layers width ! i), i) \<le> (iv_first (hidden_intervals layers width ! j), j)) [0..<n]"
    if "n \<le> layers + 2" for n
    by (rule sorted_wrt_mono_rel [of _ "(<)"]) (use that in \<open>auto simp: hidden_nth less_eq_prod_def strict_sorted_iff\<close>)
  from this [of "layers + 2"] show ?thesis
    by (simp add: placing_order_def sort_key_id_if_sorted sorted_map hidden_length del: upt_Suc add_2_eq_Suc')
qed

text \<open>The arena before buffer \<open>k\<close>: the buffers so far take the two places in turn.\<close>

definition hidden_state :: "nat \<Rightarrow> nat \<Rightarrow> nat \<Rightarrow> arena_state" where
  "hidden_state layers width k = \<lparr>ar_offsets = map (\<lambda>i. if i < k then turn width i else 0) [0..<layers + 2],
     ar_placed = [0..<k], ar_bytes = min k 2 * aligned width\<rparr>"

lemma live_neighbours:
  assumes "k < layers + 2"
  shows "filter (\<lambda>j. share_layer (hidden_intervals layers width ! j) (hidden_intervals layers width ! k)) [0..<k] = (if k = 0 then [] else [k - 1])"
proof (cases k)
  case (Suc j)
  have "filter (\<lambda>i. share_layer (hidden_intervals layers width ! i) (hidden_intervals layers width ! k)) [0..<j] = []"
    using Suc assms by (auto simp: hidden_nth share_layer_def filter_empty_conv)
  then show ?thesis using Suc assms by (simp add: hidden_nth share_layer_def)
qed simp

lemma place_hidden:
  assumes "k < layers + 2" and "0 < width" and "2 * aligned width < 2 ^ 64"
  shows "place_interval (hidden_intervals layers width) k (hidden_state layers width k) = Ok (hidden_state layers width (Suc k))"
proof -
  let ?ivs = "hidden_intervals layers width" and ?s = "hidden_state layers width k" and ?near = "if k = 0 then [] else [k - 1]"
  have v: "index_at ?ivs k = Ok (?ivs ! k)" using assms(1) by (simp add: index_at_def hidden_length)
  have room: "align width = Ok (aligned width)" "0 < aligned width"
    using assms(2,3) aligned_below [of width] aligned_pos by (simp_all add: align_iffs)
  have "sort_key f ?near = ?near" for f :: "nat \<Rightarrow> nat" by simp
  then have js: "conflicting ?ivs (?ivs ! k) ?s = Ok ?near"
    using assms(1) live_neighbours [OF assms(1), of width] by (subst conflicting_Ok) (auto simp: hidden_state_def hidden_length)
  have gap: "find_gap ?ivs (ar_offsets ?s) (aligned width) ?near 0 = Ok (turn width k)"
  proof (cases k)
    case (Suc j)
    have "index_at (ar_offsets ?s) j = Ok (turn width j)"
      using assms(1) Suc by (simp add: index_at_def hidden_state_def del: upt_Suc add_2_eq_Suc')
    moreover have "index_at ?ivs j = Ok \<lparr>iv_bytes = width, iv_first = j, iv_last = j + 1\<rparr>"
      using assms(1) Suc by (simp add: index_at_def hidden_nth hidden_length)
    ultimately show ?thesis using Suc room assms(3) by (simp add: checked_add_def)
  qed simp
  have offs: "(ar_offsets ?s)[k := turn width k] = ar_offsets (hidden_state layers width (Suc k))"
    by (rule nth_equalityI) (auto simp: hidden_state_def nth_list_update less_Suc_eq simp del: upt_Suc add_2_eq_Suc')
  have bytes: "max (ar_bytes ?s) (turn width k + aligned width) = ar_bytes (hidden_state layers width (Suc k))"
    by (cases k; cases "k - 1") (auto simp: hidden_state_def max_def)
  have "k < length (ar_offsets ?s)" using assms(1) by (simp add: hidden_state_def)
  moreover have "iv_bytes (?ivs ! k) = width" "iv_first (?ivs ! k) \<le> iv_last (?ivs ! k)" using assms(1) by (simp_all add: hidden_nth)
  ultimately have "place_interval ?ivs k ?s = Ok \<lparr>ar_offsets = ar_offsets (hidden_state layers width (Suc k)),
      ar_placed = ar_placed ?s @ [k], ar_bytes = ar_bytes (hidden_state layers width (Suc k))\<rparr>"
    using v room js gap assms(2,3) offs bytes by (simp add: place_interval_def reject_def checked_add_def assign_at_def)
  then show ?thesis by (simp add: hidden_state_def)
qed

lemma plan_hidden:
  assumes "0 < width" and "2 * aligned width < 2 ^ 64"
  shows "plan_activations (hidden_intervals layers width) = Ok \<lparr>ap_bytes = 2 * aligned width, ap_offsets = map (turn width) [0..<layers + 2]\<rparr>"
proof -
  define n where "n = layers + 2"
  let ?P = "\<lambda>ys s. s = hidden_state layers width (length ys)"
  have start: "?P [] \<lparr>ar_offsets = replicate (length (hidden_intervals layers width)) 0, ar_placed = [], ar_bytes = 0\<rparr>"
    by (simp add: hidden_state_def hidden_length map_replicate_const del: upt_Suc)
  have "\<exists>s. fold_out (place_interval (hidden_intervals layers width)) [0..<n]
      \<lparr>ar_offsets = replicate (length (hidden_intervals layers width)) 0, ar_placed = [], ar_bytes = 0\<rparr> = Ok s \<and> ?P [0..<n] s"
  proof (rule fold_out_prefix_run [where P = ?P, OF start])
    fix ys k zs s
    assume *: "[0..<n] = ys @ k # zs" "?P ys s"
    have len: "length ys < n" using arg_cong [OF *(1), of length] by simp
    have "[0..<n] ! length ys = k" by (simp add: *(1))
    then have "k = length ys" using len by simp
    then show "\<exists>s'. place_interval (hidden_intervals layers width) k s = Ok s' \<and> ?P (ys @ [k]) s'"
      using place_hidden [OF _ assms, of k layers] *(2) len by (simp add: n_def)
  qed
  then obtain s where "fold_out (place_interval (hidden_intervals layers width)) [0..<layers + 2]
      \<lparr>ar_offsets = replicate (length (hidden_intervals layers width)) 0, ar_placed = [], ar_bytes = 0\<rparr> = Ok s"
    "s = hidden_state layers width (layers + 2)"
    unfolding n_def by auto
  moreover have "map (\<lambda>i. if i < layers + 2 then turn width i else 0) [0..<layers + 2] = map (turn width) [0..<layers + 2]"
    by (rule map_cong) auto
  ultimately show ?thesis
    unfolding plan_activations_def placing_order_hidden by (simp add: hidden_state_def del: upt_Suc add_2_eq_Suc')
qed

text \<open>Two buffers suffice. A binding of the hidden activations of any number of layers makes one allocation of two
  padded rows and views it at its two halves in turn, so that each layer reads one half and writes the other.\<close>

theorem hidden_layers_alternate:
  assumes "0 < width" and "2 * aligned width < 2 ^ 64"
    and "bind_hidden allocate view False layers width device = (Ok handles, device')"
  shows "\<exists>parent device1. allocate (2 * aligned width) device = (Ok parent, device1)
    \<and> collect_op (\<lambda>i. view parent (if even i then 0 else aligned width) width) [0..<layers + 2] device1 = (Ok handles, device')"
proof -
  have map: "collect_op (\<lambda>offset. view parent offset width) (map f ks) d = collect_op (\<lambda>i. view parent (f i) width) ks d" for parent f ks d
    by (induction ks arbitrary: d) (auto simp: bind_op_def split: prod.split outcome.split)
  show ?thesis
    using assms(3) unfolding bind_hidden_def Let_def plan_hidden [OF assms(1,2)] 
    by (auto simp: bind_op_eq map simp del: upt_Suc add_2_eq_Suc')
qed

lemma hidden_layers_alternate_witness:
  "\<exists>parent device1. (Ok (7::nat), 8) = (Ok parent, device1)
    \<and> collect_op (\<lambda>i d. (Ok (parent + (if even i then 0 else aligned 16)), d)) [0..<3] device1 = (Ok [7, 519, 7], 8::nat)"
  using hidden_layers_alternate [of 16 "\<lambda>bytes d. (Ok d, d + 1)" "\<lambda>parent offset bytes d. (Ok (parent + offset), d)" 1 7 "[7, 519, 7]" 8]
  by (simp add: bind_hidden_def plan_hidden hidden_intervals_def aligned_def bind_op_def upt_rec)

end
