(* ===== verification/DSL_Syntax.thy ===== *)
theory DSL_Syntax
  imports Containers "HOL-Library.Char_ord" "HOL-Library.List_Lexorder"
begin

text \<open>
  The authoring language (\<open>crates/inferfabric-dsl/src/syntax.rs\<close>): the lexer, the tree and the
  recursive-descent parser. A source is its list of bytes; a span counts bytes. The nesting limit of the
  parser is the structure of the recursion: \<open>expr_at k\<close> is the expression at depth \<open>65 - k\<close>. A loop of the
  parser runs on as many rounds as there are tokens, and a round more panics; that no parse ever does is a
  theorem of \<open>DSL_Syntax_Thms\<close>. Parameters are the JSON reader behind a string literal and the reader of
  a number of type \<open>f32\<close>.
\<close>

section \<open>Trees\<close>

datatype 'f expr =
    NameE string
  | StringE string
  | NumberE string
  | ListE "'f expr list"
  | CallE string "(string option \<times> 'f expr) list"
  | FoldE string "'f expr" "'f expr" string "'f expr" "'f spanned list"
and 'f member =
    FieldM string "'f expr"
  | InputM string "nat list"
  | ConstantM string "nat list" "'f list"
  | StateM string "nat list" "'f list"
  | LetM string "'f expr"
  | YieldM string
  | UpdateM string string
and 'f spanned = Spanned (sm_start: nat) (sm_end: nat) (sm_member: "'f member")

record 'f dsl_module =
  dm_name :: string
  dm_parameters :: "string list"
  dm_body :: "'f spanned list"

record 'f document =
  doc_modules :: "'f dsl_module list"
  doc_name :: string
  doc_model :: "'f spanned list"
  doc_plan_name :: string
  doc_plan :: "'f spanned list"

record 'f literals =
  lit_string :: "string \<Rightarrow> string option"
  lit_f32 :: "string \<Rightarrow> 'f option"

section \<open>Characters and numerals\<close>

definition ascii_alphabetic :: "char \<Rightarrow> bool" where
  "ascii_alphabetic c \<longleftrightarrow> (CHR ''a'' \<le> c \<and> c \<le> CHR ''z'') \<or> (CHR ''A'' \<le> c \<and> c \<le> CHR ''Z'')"

definition ascii_digit :: "char \<Rightarrow> bool" where
  "ascii_digit c \<longleftrightarrow> CHR ''0'' \<le> c \<and> c \<le> CHR ''9''"

definition ascii_whitespace :: "char \<Rightarrow> bool" where
  "ascii_whitespace c \<longleftrightarrow> c \<in> {CHR 0x20, CHR 0x09, CHR 0x0A, CHR 0x0C, CHR 0x0D}"

definition name_start :: "char \<Rightarrow> bool" where
  "name_start c \<longleftrightarrow> ascii_alphabetic c \<or> c = CHR ''_''"

definition name_char :: "char \<Rightarrow> bool" where
  "name_char c \<longleftrightarrow> ascii_alphabetic c \<or> ascii_digit c \<or> c = CHR ''_'' \<or> c = CHR ''.''"

definition number_char :: "char \<Rightarrow> bool" where
  "number_char c \<longleftrightarrow> ascii_digit c \<or> c \<in> set ''.eE+-''"

definition digit_value :: "char \<Rightarrow> nat" where
  "digit_value c = of_char c - 48"

text \<open>\<open>str::parse::<usize>\<close>: an optional plus sign and digits, below the width.\<close>

definition parse_usize :: "string \<Rightarrow> nat option" where
  "parse_usize s =
     (let ds = (case s of c # d # cs \<Rightarrow> if c = CHR ''+'' then d # cs else s | _ \<Rightarrow> s);
          n = foldl (\<lambda>n c. 10 * n + digit_value c) 0 ds
      in if ds \<noteq> [] \<and> list_all ascii_digit ds \<and> n < 2 ^ 64 then Some n else None)"

section \<open>The lexer\<close>

record token =
  tk_text :: string
  tk_start :: nat
  tk_end :: nat

definition QUOTE :: char where
  "QUOTE = CHR 0x22"

definition BACKSLASH :: char where
  "BACKSLASH = CHR 0x5C"

definition NEWLINE :: char where
  "NEWLINE = CHR 0x0A"

definition punctuation :: string where
  "punctuation = ''{}[]()<>=,:;''"

text \<open>The bytes of a string after its opening quote, up to and with the closing one.\<close>

fun scan_string :: "string \<Rightarrow> nat option" where
  "scan_string [] = None"
| "scan_string [c] = (if c = QUOTE then Some 1 else None)"
| "scan_string (c # d # cs) =
     (if c = BACKSLASH then map_option ((+) 2) (scan_string cs)
      else if c = QUOTE then Some 1
      else map_option Suc (scan_string (d # cs)))"

text \<open>The bytes of a token after its first byte \<open>c\<close>, which is at \<open>start\<close>.\<close>

definition token_rest :: "nat \<Rightarrow> char \<Rightarrow> string \<Rightarrow> nat outcome" where
  "token_rest start c cs =
     (if c = QUOTE then ok_or (scan_string cs) (invalid (''byte '' @ show_nat start @ '': unterminated string''))
      else if name_start c then Ok (length (takeWhile name_char cs))
      else if ascii_digit c \<or> c = CHR ''-'' then Ok (length (takeWhile number_char cs))
      else if c \<in> set punctuation then Ok 0
      else Err (invalid (''byte '' @ show_nat start @ '': unsupported character'')))"

definition starts_comment :: "char \<Rightarrow> string \<Rightarrow> bool" where
  "starts_comment c cs \<longleftrightarrow> c = CHR ''#'' \<or> c = CHR ''/'' \<and> get_at cs 0 = Some (CHR ''/'')"

function lex_from :: "nat \<Rightarrow> nat \<Rightarrow> string \<Rightarrow> token list outcome" where
  "lex_from seen i [] = Ok []"
| "lex_from seen i (c # cs) =
     (if ascii_whitespace c then lex_from seen (Suc i) cs
      else if starts_comment c cs then
        (let n = length (takeWhile (\<lambda>b. b \<noteq> NEWLINE) cs) in lex_from seen (Suc i + n) (drop n cs))
      else and_then (token_rest i c cs) (\<lambda>n.
           and_then (reject (Suc seen > 100000) (invalid ''DSL token limit'')) (\<lambda>_.
           and_then (lex_from (Suc seen) (Suc i + n) (drop n cs)) (\<lambda>ts.
           Ok (\<lparr>tk_text = c # take n cs, tk_start = i, tk_end = Suc i + n\<rparr> # ts)))))"
  by pat_completeness auto
termination lex_from
  by (relation "measure (\<lambda>(seen, i, cs). length cs)") (auto simp: less_Suc_eq_le)

definition lex :: "string \<Rightarrow> token list outcome" where
  "lex source =
     and_then (reject (length source > 1024 * 1024) (invalid ''DSL source exceeds 1 MiB'')) (\<lambda>_.
     lex_from 0 0 source)"

section \<open>The parser\<close>

record parsing =
  ps_tokens :: "token list"
  ps_position :: nat

type_synonym 'a parser = "(parsing, 'a) op"

definition parse_error :: "parsing \<Rightarrow> string \<Rightarrow> error" where
  "parse_error p message = invalid (''byte '' @ show_nat (case get_at (ps_tokens p) (ps_position p) of
       Some t \<Rightarrow> tk_start t
     | None \<Rightarrow> (if ps_tokens p = [] then 0 else tk_end (last (ps_tokens p)))) @ '': '' @ message)"

definition fail_at :: "string \<Rightarrow> 'a parser" where
  "fail_at message p = (Err (parse_error p message), p)"

definition give :: "'a \<Rightarrow> ('s, 'a) op" where
  "give x s = (Ok x, s)"

definition peek :: "parsing \<Rightarrow> string" where
  "peek p = (case get_at (ps_tokens p) (ps_position p) of None \<Rightarrow> [] | Some t \<Rightarrow> tk_text t)"

definition take_token :: "string parser" where
  "take_token p = (case get_at (ps_tokens p) (ps_position p) of
     None \<Rightarrow> fail_at ''unexpected end of source'' p
   | Some t \<Rightarrow> (Ok (tk_text t), p\<lparr>ps_position := ps_position p + 1\<rparr>))"

definition expect :: "string \<Rightarrow> unit parser" where
  "expect text p =
     (if peek p \<noteq> text then fail_at (''expected '' @ [CHR 0x27] @ text @ [CHR 0x27]) p
      else (Ok (), p\<lparr>ps_position := ps_position p + 1\<rparr>))"

definition is_name :: "string \<Rightarrow> bool" where
  "is_name s \<longleftrightarrow> s \<noteq> [] \<and> name_start (hd s) \<and> list_all name_char s"

definition name :: "string parser" where
  "name = bind_op take_token (\<lambda>text. if \<not> is_name text then fail_at ''expected identifier'' else give text)"

text \<open>\<open>while self.peek() != close { item; if self.peek() != "," { break; } self.take()?; }\<close>.\<close>

fun comma_list :: "nat \<Rightarrow> string \<Rightarrow> 'a parser \<Rightarrow> 'a list parser" where
  "comma_list 0 close item p = (Panic, p)"
| "comma_list (Suc n) close item p =
     (if peek p = close then (Ok [], p)
      else bind_op item (\<lambda>x p.
           if peek p \<noteq> '','' then (Ok [x], p)
           else bind_op take_token (\<lambda>_. bind_op (comma_list n close item) (\<lambda>xs. give (x # xs))) p) p)"

definition rounds :: "parsing \<Rightarrow> nat" where
  "rounds p = Suc (length (ps_tokens p))"

definition argument :: "'a parser \<Rightarrow> (string option \<times> 'a) parser" where
  "argument item p =
     (if map_option tk_text (get_at (ps_tokens p) (ps_position p + 1)) = Some ''=''
      then bind_op name (\<lambda>k. bind_op (expect ''='') (\<lambda>_. bind_op item (\<lambda>e. give (Some k, e)))) p
      else bind_op item (\<lambda>e. give (None, e)) p)"

definition fold_expr :: "'f expr parser \<Rightarrow> 'f spanned list parser \<Rightarrow> 'f expr parser" where
  "fold_expr item body =
     bind_op take_token (\<lambda>_. bind_op name (\<lambda>index. bind_op (expect ''in'') (\<lambda>_. bind_op (expect ''range'') (\<lambda>_.
     bind_op (expect ''('') (\<lambda>_. bind_op item (\<lambda>start. bind_op (expect '','') (\<lambda>_. bind_op item (\<lambda>until.
     bind_op (expect '')'') (\<lambda>_. bind_op (expect ''carry'') (\<lambda>_. bind_op (expect ''('') (\<lambda>_. bind_op name (\<lambda>carry.
     bind_op (expect ''='') (\<lambda>_. bind_op item (\<lambda>initial. bind_op (expect '')'') (\<lambda>_. bind_op body (\<lambda>ms.
     give (FoldE index start until carry initial ms)))))))))))))))))"

definition list_expr :: "'f expr parser \<Rightarrow> 'f expr parser" where
  "list_expr item =
     bind_op take_token (\<lambda>_. bind_op (\<lambda>p. comma_list (rounds p) '']'' item p) (\<lambda>values.
     bind_op (expect '']'') (\<lambda>_. give (ListE values))))"

definition call_expr :: "'f expr parser \<Rightarrow> string \<Rightarrow> 'f expr parser" where
  "call_expr item f =
     bind_op take_token (\<lambda>_. bind_op (\<lambda>p. comma_list (rounds p) '')'' (argument item) p) (\<lambda>args.
     bind_op (expect '')'') (\<lambda>_. give (CallE f args))))"

text \<open>A literal, a name or a call, after its first token.\<close>

definition atom_expr :: "'f literals \<Rightarrow> 'f expr parser \<Rightarrow> string \<Rightarrow> 'f expr parser" where
  "atom_expr L item text p =
     (if take 1 text = [QUOTE] then
        (case lit_string L text of None \<Rightarrow> fail_at ''invalid string literal'' p | Some s \<Rightarrow> (Ok (StringE s), p))
      else if take 1 text = ''-'' then (Ok (NumberE text), p)
      else try_op (index_at text 0) (\<lambda>c p.
           if ascii_digit c then (Ok (NumberE text), p)
           else if \<not> ascii_alphabetic c \<and> take 1 text \<noteq> ''_'' then fail_at ''expected expression'' p
           else if peek p \<noteq> ''('' then (Ok (NameE text), p)
           else call_expr item text p) p)"

definition expr_body :: "'f literals \<Rightarrow> 'f expr parser \<Rightarrow> 'f spanned list parser \<Rightarrow> 'f expr parser" where
  "expr_body L item body p =
     (if peek p = ''fold'' then fold_expr item body p
      else if peek p = ''['' then list_expr item p
      else bind_op take_token (atom_expr L item) p)"

text \<open>\<open>shape(depth)\<close>; \<open>item\<close> is the expression one level deeper.\<close>

definition dimension :: "parsing \<Rightarrow> 'f expr \<Rightarrow> nat outcome" where
  "dimension p e = (case e of
     NumberE n \<Rightarrow> ok_or (parse_usize n) (parse_error p ''invalid dimension'')
   | _ \<Rightarrow> Err (parse_error p ''dimension must be integer''))"

definition tensor_shape :: "'f expr parser \<Rightarrow> nat list parser" where
  "tensor_shape item =
     bind_op (expect '':'') (\<lambda>_. bind_op (expect ''tensor'') (\<lambda>_. bind_op (expect ''<'') (\<lambda>_. bind_op (expect ''f32'') (\<lambda>_.
     bind_op (expect ''>'') (\<lambda>_. bind_op item (\<lambda>e p. case e of
       ListE values \<Rightarrow> try_op (collect (dimension p) values) give p
     | _ \<Rightarrow> fail_at ''expected shape list'' p))))))"

definition initial_number :: "'f literals \<Rightarrow> parsing \<Rightarrow> 'f expr \<Rightarrow> 'f outcome" where
  "initial_number L p e = (case e of
     NumberE n \<Rightarrow> ok_or (lit_f32 L n) (parse_error p ''invalid float'')
   | _ \<Rightarrow> Err (parse_error p ''initializer must be numeric''))"

definition owned_member :: "'f literals \<Rightarrow> 'f expr parser \<Rightarrow> 'f expr parser \<Rightarrow> string \<Rightarrow> 'f member parser" where
  "owned_member L item deeper key =
     bind_op name (\<lambda>n. bind_op (tensor_shape deeper) (\<lambda>shape. bind_op (expect ''='') (\<lambda>_. bind_op item (\<lambda>e p. case e of
       ListE values \<Rightarrow> try_op (collect (initial_number L p) values) (\<lambda>data.
         give (if key = ''const'' then ConstantM n shape data else StateM n shape data)) p
     | _ \<Rightarrow> fail_at ''expected initializer list'' p))))"

text \<open>One declaration after its key. The depth of \<open>item\<close> is one and that of \<open>deeper\<close> two below the block.\<close>

definition member_of :: "'f literals \<Rightarrow> bool \<Rightarrow> 'f expr parser \<Rightarrow> 'f expr parser \<Rightarrow> string \<Rightarrow> 'f member parser" where
  "member_of L graph_allowed item deeper key =
     (if key = ''input'' \<and> graph_allowed then
        bind_op name (\<lambda>n. bind_op (tensor_shape deeper) (\<lambda>shape. give (InputM n shape)))
      else if key \<in> {''const'', ''state''} \<and> graph_allowed then owned_member L item deeper key
      else if key = ''let'' \<and> graph_allowed then
        bind_op name (\<lambda>n. bind_op (expect ''='') (\<lambda>_. bind_op item (\<lambda>e. give (LetM n e))))
      else if key = ''yield'' \<and> graph_allowed then bind_op name (\<lambda>n. give (YieldM n))
      else if key = ''update'' \<and> graph_allowed then
        bind_op name (\<lambda>n. bind_op (expect ''='') (\<lambda>_. bind_op name (\<lambda>v. give (UpdateM n v))))
      else bind_op (expect ''='') (\<lambda>_. bind_op item (\<lambda>e. give (FieldM key e))))"

definition spanned_member :: "'f literals \<Rightarrow> bool \<Rightarrow> 'f expr parser \<Rightarrow> 'f expr parser \<Rightarrow> 'f spanned parser" where
  "spanned_member L graph_allowed item deeper p =
     (case get_at (ps_tokens p) (ps_position p) of
        None \<Rightarrow> fail_at ''unclosed declaration'' p
      | Some first \<Rightarrow>
          bind_op name (\<lambda>key. bind_op (member_of L graph_allowed item deeper key) (\<lambda>m. bind_op (expect '';'') (\<lambda>_ p.
          try_op (index_at (ps_tokens p) (ps_position p - 1)) (\<lambda>t. give (Spanned (tk_start first) (tk_end t) m)) p))) p)"

fun member_list :: "nat \<Rightarrow> 'a parser \<Rightarrow> 'a list parser" where
  "member_list 0 item p = (Panic, p)"
| "member_list (Suc n) item p =
     (if peek p = ''}'' then (Ok [], p)
      else bind_op item (\<lambda>x. bind_op (member_list n item) (\<lambda>xs. give (x # xs))) p)"

definition members_body :: "'f literals \<Rightarrow> bool \<Rightarrow> 'f expr parser \<Rightarrow> 'f expr parser \<Rightarrow> 'f spanned list parser" where
  "members_body L graph_allowed item deeper =
     bind_op (expect ''{'') (\<lambda>_. bind_op (\<lambda>p. member_list (rounds p) (spanned_member L graph_allowed item deeper) p) (\<lambda>ms.
     bind_op (expect ''}'') (\<lambda>_. give ms)))"

fun expr_at :: "'f literals \<Rightarrow> nat \<Rightarrow> 'f expr parser"
  and members_at :: "'f literals \<Rightarrow> nat \<Rightarrow> bool \<Rightarrow> 'f spanned list parser" where
  "expr_at L 0 = fail_at ''expression nesting limit''"
| "expr_at L (Suc k) = expr_body L (expr_at L k) (members_at L k True)"
| "members_at L 0 graph_allowed = fail_at ''declaration nesting limit''"
| "members_at L (Suc k) graph_allowed = members_body L graph_allowed (expr_at L k) (expr_at L (k - 1))"

definition NESTING :: nat where
  "NESTING = 65"

definition members :: "'f literals \<Rightarrow> bool \<Rightarrow> 'f spanned list parser" where
  "members L graph_allowed = members_at L NESTING graph_allowed"

definition module_decl :: "'f literals \<Rightarrow> 'f dsl_module parser" where
  "module_decl L =
     bind_op take_token (\<lambda>_. bind_op name (\<lambda>n. bind_op (expect ''('') (\<lambda>_.
     bind_op (\<lambda>p. comma_list (rounds p) '')'' name p) (\<lambda>parameters. bind_op (expect '')'') (\<lambda>_.
     bind_op (members L True) (\<lambda>body. give \<lparr>dm_name = n, dm_parameters = parameters, dm_body = body\<rparr>))))))"

text \<open>The modules read so far are \<open>ms\<close>; the 257th is refused.\<close>

fun module_list :: "nat \<Rightarrow> 'f literals \<Rightarrow> 'f dsl_module list \<Rightarrow> 'f dsl_module list parser" where
  "module_list 0 L ms p = (Panic, p)"
| "module_list (Suc n) L ms p =
     (if peek p \<noteq> ''module'' then (Ok ms, p)
      else bind_op (module_decl L) (\<lambda>m.
           if length (ms @ [m]) > 256 then fail_at ''module count limit'' else module_list n L (ms @ [m])) p)"

definition document_body :: "'f literals \<Rightarrow> 'f document parser" where
  "document_body L =
     bind_op (expect ''language'') (\<lambda>_. bind_op (expect ''inferfabric'') (\<lambda>_. bind_op (expect ''1'') (\<lambda>_. bind_op (expect '';'') (\<lambda>_.
     bind_op (\<lambda>p. module_list (rounds p) L [] p) (\<lambda>modules.
     bind_op (expect ''model'') (\<lambda>_. bind_op name (\<lambda>n. bind_op (members L True) (\<lambda>model.
     bind_op (expect ''plan'') (\<lambda>_. bind_op name (\<lambda>plan_name. bind_op (expect ''for'') (\<lambda>_. bind_op name (\<lambda>target.
     if target \<noteq> n then fail_at ''plan references a different model''
     else bind_op (members L False) (\<lambda>plan p.
          if peek p \<noteq> [] then fail_at ''unexpected declaration; imports are not supported by this v1 subset'' p
          else (Ok \<lparr>doc_modules = modules, doc_name = n, doc_model = model, doc_plan_name = plan_name, doc_plan = plan\<rparr>, p))))))))))))))"

definition parse_document :: "'f literals \<Rightarrow> string \<Rightarrow> 'f document outcome" where
  "parse_document L source =
     and_then (lex source) (\<lambda>tokens.
     let p = \<lparr>ps_tokens = tokens, ps_position = 0\<rparr> in
     if peek p \<noteq> ''language''
     then Err (invalid ''legacy DSL removed: use 'language inferfabric 1;' and model/plan declarations'')
     else fst (document_body L p))"

end
