(* ===== verification/DSL_Syntax_Thms.thy ===== *)
theory DSL_Syntax_Thms
  imports DSL_Syntax
begin

text \<open>
  The lexer returns the pieces of the source its spans name, in order. The parser never panics: a loop ends
  before its rounds do, since every round takes a token, and no token is empty. What it accepts is legal: names
  are identifiers, nesting is bounded, and spans lie inside the source.
\<close>

section \<open>Tokens\<close>

lemma scan_string_bound: "scan_string cs = Some n \<Longrightarrow> n \<le> length cs"
  by (induction cs arbitrary: n rule: scan_string.induct) (auto split: if_splits)

lemma token_rest_bound: "token_rest i c cs = Ok n \<Longrightarrow> n \<le> length cs"
  by (auto simp: token_rest_def outcome_simps scan_string_bound length_takeWhile_le split: if_splits)

text \<open>The pieces of a source that begins at byte \<open>i\<close>.\<close>

fun tiles :: "nat \<Rightarrow> string \<Rightarrow> token list \<Rightarrow> bool" where
  "tiles i source [] \<longleftrightarrow> True"
| "tiles i source (t # ts) \<longleftrightarrow>
     i \<le> tk_start t \<and> tk_start t < tk_end t \<and> tk_end t \<le> i + length source \<and>
     tk_text t = take (tk_end t - tk_start t) (drop (tk_start t - i) source) \<and>
     tiles (tk_end t) (drop (tk_end t - i) source) ts"

lemma tiles_drop: "tiles (i + n) (drop n source) ts \<Longrightarrow> n \<le> length source \<Longrightarrow> tiles i source ts"
  by (cases ts) (auto simp: add.commute)

lemma lex_from_tiles: "lex_from seen i source = Ok ts \<Longrightarrow> tiles i source ts"
proof (induction seen i source arbitrary: ts rule: lex_from.induct)
  case (2 seen i c cs)
  show ?case
  proof (cases "ascii_whitespace c")
    case True
    then have "tiles (Suc i) cs ts" using 2 by simp
    then show ?thesis using tiles_drop [of i 1 "c # cs" ts] by simp
  next
    case ws: False
    show ?thesis
    proof (cases "starts_comment c cs")
      case True
      let ?n = "length (takeWhile (\<lambda>b. b \<noteq> NEWLINE) cs)"
      have "tiles (Suc i + ?n) (drop ?n cs) ts" using 2(2,4) ws True by (simp add: Let_def)
      then show ?thesis using tiles_drop [of i "Suc ?n" "c # cs" ts] length_takeWhile_le [of _ cs] by simp
    next
      case False
      then obtain n us where n: "token_rest i c cs = Ok n" "lex_from (Suc seen) (Suc i + n) (drop n cs) = Ok us"
        "ts = \<lparr>tk_text = c # take n cs, tk_start = i, tk_end = Suc i + n\<rparr> # us"
        using 2(4) ws by (auto simp: outcome_simps)
      have "tiles (Suc i + n) (drop n cs) us"
        using 2(3) [OF ws False n(2)] .
      then show ?thesis using n token_rest_bound [OF n(1)] by simp
    qed
  qed
qed simp

lemma lex_from_no_panic: "lex_from seen i source \<noteq> Panic"
  by (induction seen i source rule: lex_from.induct)
    (auto simp: outcome_simps token_rest_def Let_def split: if_splits)

lemma tiles_nth:
  "tiles i source ts \<Longrightarrow> k < length ts \<Longrightarrow> i \<le> tk_start (ts ! k) \<and> tk_start (ts ! k) < tk_end (ts ! k) \<and> tk_end (ts ! k) \<le> i + length source \<and>
     tk_text (ts ! k) = take (tk_end (ts ! k) - tk_start (ts ! k)) (drop (tk_start (ts ! k) - i) source)"
proof (induction ts arbitrary: i source k)
  case (Cons t ts)
  show ?case
  proof (cases k)
    case (Suc m)
    have "tiles (tk_end t) (drop (tk_end t - i) source) ts" using Cons.prems(1) by simp
    from Cons.IH [OF this, of m] show ?thesis using Cons.prems Suc by (auto simp: drop_drop)
  qed (use Cons.prems in auto)
qed simp

lemma tiles_order: "tiles i source ts \<Longrightarrow> j < k \<Longrightarrow> k < length ts \<Longrightarrow> tk_end (ts ! j) \<le> tk_start (ts ! k)"
proof (induction ts arbitrary: i source j k)
  case (Cons t ts)
  have r: "tiles (tk_end t) (drop (tk_end t - i) source) ts" using Cons.prems(1) by simp
  obtain m where m: "k = Suc m" "m < length ts" using Cons.prems by (cases k) auto
  show ?case
  proof (cases j)
    case 0
    then show ?thesis using tiles_nth [OF r m(2)] m by simp
  next
    case (Suc l)
    then show ?thesis using Cons.IH [OF r, of l m] Cons.prems m by simp
  qed
qed simp

section \<open>Lexemes\<close>

text \<open>The text of a token, whatever follows it.\<close>

definition lexeme :: "string \<Rightarrow> bool" where
  "lexeme t \<longleftrightarrow> t \<noteq> [] \<and> token_rest 0 (hd t) (tl t) = Ok (length (tl t))"

definition number_text :: "string \<Rightarrow> bool" where
  "number_text t \<longleftrightarrow> t \<noteq> [] \<and> (ascii_digit (hd t) \<or> hd t = CHR ''-'') \<and> list_all number_char (tl t)"

definition string_text :: "string \<Rightarrow> bool" where
  "string_text t \<longleftrightarrow> t \<noteq> [] \<and> hd t = QUOTE \<and> scan_string (tl t) = Some (length (tl t))"

lemma scan_string_take: "scan_string cs = Some n \<Longrightarrow> scan_string (take n cs) = Some n"
proof (induction cs arbitrary: n rule: scan_string.induct)
  case (3 c d cs)
  then show ?case
  proof (cases "c = BACKSLASH \<or> c = QUOTE")
    case True
    then show ?thesis using 3 by (auto simp: QUOTE_def BACKSLASH_def)
  next
    case False
    then obtain m where m: "scan_string (d # cs) = Some m" "n = Suc m" using 3(3) by auto
    obtain l where l: "m = Suc l" using m(1) by (cases cs) (auto split: if_splits)
    have "scan_string (take m (d # cs)) = Some m" using 3(2) False m by simp
    then show ?thesis using False m l by simp
  qed
qed (auto split: if_splits)

lemma takeWhile_all: "length (takeWhile P cs) = length cs \<longleftrightarrow> list_all P cs"
  by (metis list.pred_set takeWhile_eq_all_conv takeWhile_eq_take take_all_iff order_refl)

lemma token_rest_take: "token_rest i c cs = Ok n \<Longrightarrow> token_rest 0 c (take n cs) = Ok n"
  by (auto simp: token_rest_def outcome_simps scan_string_take takeWhile_eq_take [symmetric] split: if_splits)

lemma name_start_facts: "name_start c \<Longrightarrow> name_char c \<and> \<not> ascii_digit c \<and> c \<noteq> QUOTE \<and> c \<noteq> CHR ''-''"
  by (auto simp: name_start_def name_char_def ascii_alphabetic_def ascii_digit_def QUOTE_def less_eq_char_def)

lemma digit_facts: "ascii_digit c \<or> c = CHR ''-'' \<Longrightarrow> c \<noteq> QUOTE \<and> \<not> name_start c"
  by (auto simp: name_start_def ascii_alphabetic_def ascii_digit_def QUOTE_def less_eq_char_def)

lemma lexeme_name: "lexeme t \<and> name_start (hd t) \<longleftrightarrow> is_name t"
  using name_start_facts [of "hd t"]
  by (cases t) (auto simp: lexeme_def is_name_def token_rest_def takeWhile_all)

lemma lexeme_number: "lexeme t \<and> (ascii_digit (hd t) \<or> hd t = CHR ''-'') \<longleftrightarrow> number_text t"
  using digit_facts [of "hd t"] takeWhile_all [of number_char "tl t"] by (auto simp: lexeme_def number_text_def token_rest_def)

lemma lexeme_string: "lexeme t \<and> hd t = QUOTE \<longleftrightarrow> string_text t"
  by (auto simp: lexeme_def string_text_def token_rest_def outcome_simps)

lemma lex_from_lexemes: "lex_from seen i source = Ok ts \<Longrightarrow> \<forall>t \<in> set ts. lexeme (tk_text t)"
proof (induction seen i source arbitrary: ts rule: lex_from.induct)
  case (2 seen i c cs)
  then show ?case
    by (auto simp: outcome_simps Let_def lexeme_def token_rest_take split: if_splits)
      (metis length_take min.absorb2 token_rest_bound token_rest_take)+
qed simp

section \<open>What a parser does\<close>

text \<open>\<open>takes n Q m\<close>: on lexed tokens \<open>m\<close> does not panic, and when it succeeds it has taken at least \<open>n\<close> tokens and its
  result satisfies \<open>Q\<close>.\<close>

definition lexed :: "parsing \<Rightarrow> bool" where
  "lexed p \<longleftrightarrow> (\<forall>t \<in> set (ps_tokens p). lexeme (tk_text t)) \<and> ps_position p \<le> length (ps_tokens p)"

definition takes_at :: "nat \<Rightarrow> ('a \<Rightarrow> bool) \<Rightarrow> parsing \<Rightarrow> 'a outcome \<times> parsing \<Rightarrow> bool" where
  "takes_at n Q p r \<longleftrightarrow> fst r \<noteq> Panic \<and>
     (\<forall>x p'. r = (Ok x, p') \<longrightarrow> ps_tokens p' = ps_tokens p \<and> ps_position p + n \<le> ps_position p' \<and> lexed p' \<and> Q x)"

definition takes :: "nat \<Rightarrow> ('a \<Rightarrow> bool) \<Rightarrow> 'a parser \<Rightarrow> bool" where
  "takes n Q m \<longleftrightarrow> (\<forall>p. lexed p \<longrightarrow> takes_at n Q p (m p))"

named_theorems takes_intros
  "introduction rules for the judgement on parsers"

lemma takesI: "(\<And>p. lexed p \<Longrightarrow> takes_at n Q p (m p)) \<Longrightarrow> takes n Q m"
  by (simp add: takes_def)

lemma takes_call: "takes n Q m \<Longrightarrow> lexed p \<Longrightarrow> takes_at n Q p (m p)"
  by (simp add: takes_def)

lemma takes_at_Ok_iff: "takes_at n Q p (Ok x, p') \<longleftrightarrow>
    ps_tokens p' = ps_tokens p \<and> ps_position p + n \<le> ps_position p' \<and> lexed p' \<and> Q x"
  by (auto simp: takes_at_def)

lemma takes_at_Err [simp]: "takes_at n Q p (Err e, p')"
  by (simp add: takes_at_def)

lemma takes_atE:
  assumes "takes_at n Q p r"
  obtains x p' where "r = (Ok x, p')" "ps_tokens p' = ps_tokens p" "ps_position p + n \<le> ps_position p'" "lexed p'" "Q x"
    | e p' where "r = (Err e, p')"
  using assms by (cases r; cases "fst r") (auto simp: takes_at_def)

lemma takes_at_weaken: "takes_at n Q p r \<Longrightarrow> k \<le> n \<Longrightarrow> (\<And>x. Q x \<Longrightarrow> R x) \<Longrightarrow> takes_at k R p r"
  by (erule takes_atE) (auto simp: takes_at_Ok_iff)

text \<open>The steps before count too.\<close>

lemma takes_at_later:
  "takes_at k Q p' r \<Longrightarrow> ps_tokens p' = ps_tokens p \<Longrightarrow> ps_position p + n \<le> ps_position p' \<Longrightarrow> takes_at n Q p r"
  by (erule takes_atE) (auto simp: takes_at_Ok_iff)

lemma takes_weaken: "takes n Q m \<Longrightarrow> k \<le> n \<Longrightarrow> (\<And>x. Q x \<Longrightarrow> R x) \<Longrightarrow> takes k R m"
  unfolding takes_def using takes_at_weaken by blast

lemma takes_less: "takes (Suc 0) Q m \<Longrightarrow> takes 0 Q m"
  by (rule takes_weaken) auto

lemma takes_at_bind:
  assumes "takes_at n Q p (m p)"
    and "\<And>x p'. Q x \<Longrightarrow> lexed p' \<Longrightarrow> ps_tokens p' = ps_tokens p \<Longrightarrow> ps_position p + n \<le> ps_position p' \<Longrightarrow> takes_at 0 R p' (f x p')"
  shows "takes_at n R p (bind_op m f p)"
  using assms(1)
proof (cases rule: takes_atE)
  case (1 x p')
  then show ?thesis using takes_at_later [OF assms(2)] by simp
qed simp

lemma takes_then:
  "takes n Q m \<Longrightarrow> lexed p \<Longrightarrow>
   (\<And>x p'. Q x \<Longrightarrow> lexed p' \<Longrightarrow> ps_tokens p' = ps_tokens p \<Longrightarrow> ps_position p + n \<le> ps_position p' \<Longrightarrow> takes_at 0 R p' (f x p')) \<Longrightarrow>
   takes_at n R p (bind_op m f p)"
  by (rule takes_at_bind [of n Q]) (simp_all add: takes_call)

lemma takes_bind:
  "takes n Q m \<Longrightarrow> (\<And>x. Q x \<Longrightarrow> takes 0 R (f x)) \<Longrightarrow> takes n R (bind_op m f)"
  unfolding takes_def using takes_at_bind by blast

lemma takes_at_Ok: "takes_at 0 Q p (Ok x, p) \<longleftrightarrow> lexed p \<and> Q x"
  by (auto simp: takes_at_Ok_iff)

lemma takes_at_fail [simp]: "takes_at n Q p (fail_at s p)"
  by (simp add: fail_at_def)

lemma takes_at_try:
  "m \<noteq> Panic \<Longrightarrow> (\<And>x. m = Ok x \<Longrightarrow> takes_at n Q p (f x p)) \<Longrightarrow> takes_at n Q p (try_op m f p)"
  by (cases m) auto

lemma takes_give [takes_intros]: "Q x \<Longrightarrow> takes 0 Q (give x)"
  by (simp add: takes_def give_def takes_at_Ok)

lemma takes_fail [takes_intros]: "takes n Q (fail_at s)"
  by (simp add: takes_def)

lemma lexed_step: "lexed p \<Longrightarrow> ps_position p < length (ps_tokens p) \<Longrightarrow> lexed (p\<lparr>ps_position := Suc (ps_position p)\<rparr>)"
  by (simp add: lexed_def)

lemma takes_token: "takes (Suc 0) lexeme take_token"
  by (rule takesI) (auto simp: take_token_def takes_at_def fail_at_def get_at_def lexed_step lexed_def)

lemma takes_expect: "s \<noteq> [] \<Longrightarrow> takes (Suc 0) (\<lambda>_. True) (expect s)"
  by (rule takesI) (auto simp: expect_def peek_def takes_at_def fail_at_def get_at_def lexed_step split: if_splits)

lemma takes_name: "takes (Suc 0) is_name name"
  unfolding name_def by (rule takes_bind [OF takes_token]) (auto intro: takes_give takes_fail)

lemma takes_bind_expect [takes_intros]:
  "s \<noteq> [] \<Longrightarrow> takes 0 R (f ()) \<Longrightarrow> takes (Suc 0) R (bind_op (expect s) f)"
  "s \<noteq> [] \<Longrightarrow> takes 0 R (f ()) \<Longrightarrow> takes 0 R (bind_op (expect s) f)"
  by (rule takes_bind [OF takes_expect], simp_all) (rule takes_bind [OF takes_expect [THEN takes_less]], simp_all)

lemma takes_bind_name [takes_intros]:
  "(\<And>x. is_name x \<Longrightarrow> takes 0 R (f x)) \<Longrightarrow> takes (Suc 0) R (bind_op name f)"
  "(\<And>x. is_name x \<Longrightarrow> takes 0 R (f x)) \<Longrightarrow> takes 0 R (bind_op name f)"
  by (rule takes_bind [OF takes_name], simp) (rule takes_bind [OF takes_name [THEN takes_less]], simp)

lemma takes_bind_token [takes_intros]:
  "(\<And>x. lexeme x \<Longrightarrow> takes 0 R (f x)) \<Longrightarrow> takes (Suc 0) R (bind_op take_token f)"
  "(\<And>x. lexeme x \<Longrightarrow> takes 0 R (f x)) \<Longrightarrow> takes 0 R (bind_op take_token f)"
  by (rule takes_bind [OF takes_token], simp) (rule takes_bind [OF takes_token [THEN takes_less]], simp)

subsection \<open>Loops\<close>

lemma lexed_bound: "lexed p \<Longrightarrow> ps_position p \<le> length (ps_tokens p)"
  by (simp add: lexed_def)

lemma comma_list_at:
  assumes item: "takes (Suc 0) Q item"
  shows "lexed p \<Longrightarrow> length (ps_tokens p) - ps_position p < n \<Longrightarrow> takes_at 0 (list_all Q) p (comma_list n close item p)"
proof (induction n arbitrary: p)
  case (Suc n)
  let ?rest = "\<lambda>x. bind_op take_token (\<lambda>_. bind_op (comma_list n close item) (\<lambda>xs. give (x # xs)))"
  have more: "takes_at 0 (list_all Q) q (?rest x q)"
    if q: "Q x" "lexed q" "ps_tokens q = ps_tokens p" "ps_position p + Suc 0 \<le> ps_position q" for x q
  proof (rule takes_at_weaken [OF takes_then [OF takes_token q(2)]])
    fix t p'
    assume p': "lexed p'" "ps_tokens p' = ps_tokens q" "ps_position q + Suc 0 \<le> ps_position p'"
    have "takes_at 0 (list_all Q) p' (comma_list n close item p')"
      by (rule Suc.IH [OF p'(1)]) (use Suc.prems(2) p' q lexed_bound [OF p'(1)] in simp)
    then show "takes_at 0 (list_all Q) p' (bind_op (comma_list n close item) (\<lambda>xs. give (x # xs)) p')"
      by (rule takes_at_bind) (simp add: give_def takes_at_Ok q(1))
  qed auto
  have "takes_at (Suc 0) (list_all Q) p (bind_op item (\<lambda>x p. if peek p \<noteq> '','' then (Ok [x], p) else ?rest x p) p)"
    by (rule takes_then [OF item Suc.prems(1)]) (auto simp: takes_at_Ok more)
  from takes_at_weaken [OF this, of 0] show ?case using Suc.prems(1) by (auto simp: takes_at_Ok)
qed simp

lemma takes_comma_list:
  assumes "takes (Suc 0) Q item"
  shows "takes 0 (list_all Q) (\<lambda>p. comma_list (rounds p) close item p)"
  by (rule takesI, rule comma_list_at [OF assms]) (simp_all add: rounds_def)

lemma member_list_at:
  assumes item: "takes (Suc 0) Q item"
  shows "lexed p \<Longrightarrow> length (ps_tokens p) - ps_position p < n \<Longrightarrow> takes_at 0 (list_all Q) p (member_list n item p)"
proof (induction n arbitrary: p)
  case (Suc n)
  have "takes_at (Suc 0) (list_all Q) p (bind_op item (\<lambda>x. bind_op (member_list n item) (\<lambda>xs. give (x # xs))) p)"
  proof (rule takes_then [OF item Suc.prems(1)])
    fix x q
    assume q: "Q x" "lexed q" "ps_tokens q = ps_tokens p" "ps_position p + Suc 0 \<le> ps_position q"
    have "takes_at 0 (list_all Q) q (member_list n item q)"
      by (rule Suc.IH [OF q(2)]) (use Suc.prems(2) q lexed_bound [OF q(2)] in simp)
    then show "takes_at 0 (list_all Q) q (bind_op (member_list n item) (\<lambda>xs. give (x # xs)) q)"
      by (rule takes_at_bind) (simp add: give_def takes_at_Ok q(1))
  qed
  from takes_at_weaken [OF this, of 0] show ?case using Suc.prems(1) by (auto simp: takes_at_Ok)
qed simp

lemma takes_member_list:
  assumes "takes (Suc 0) Q item"
  shows "takes 0 (list_all Q) (\<lambda>p. member_list (rounds p) item p)"
  by (rule takesI, rule member_list_at [OF assms]) (simp_all add: rounds_def)

section \<open>Legal trees\<close>

text \<open>The trees a parser can return at depth \<open>65 - k\<close>: names are identifiers, numbers and strings are literals, and the
  nesting limit is kept.\<close>

definition graph_keywords :: "string set" where
  "graph_keywords = {''input'', ''const'', ''state'', ''let'', ''yield'', ''update''}"

definition legal_shape :: "nat \<Rightarrow> nat list \<Rightarrow> bool" where
  "legal_shape k shape \<longleftrightarrow> (\<forall>n \<in> set shape. n < 2 ^ 64) \<and> (if shape = [] then 1 < k else 2 < k)"

definition legal_data :: "'f literals \<Rightarrow> nat \<Rightarrow> 'f list \<Rightarrow> bool" where
  "legal_data L k data \<longleftrightarrow> (\<forall>x \<in> set data. \<exists>t. number_text t \<and> lit_f32 L t = Some x) \<and> (if data = [] then 0 < k else 1 < k)"

inductive legal_expr :: "'f literals \<Rightarrow> nat \<Rightarrow> 'f expr \<Rightarrow> bool"
  and legal_member :: "'f literals \<Rightarrow> bool \<Rightarrow> nat \<Rightarrow> 'f member \<Rightarrow> bool"
  and legal_block :: "'f literals \<Rightarrow> bool \<Rightarrow> nat \<Rightarrow> 'f spanned list \<Rightarrow> bool" for L where
  "is_name s \<Longrightarrow> s \<noteq> ''fold'' \<Longrightarrow> legal_expr L (Suc k) (NameE s)"
| "string_text t \<Longrightarrow> lit_string L t = Some s \<Longrightarrow> legal_expr L (Suc k) (StringE s)"
| "number_text s \<Longrightarrow> legal_expr L (Suc k) (NumberE s)"
| "\<forall>e \<in> set es. legal_expr L k e \<Longrightarrow> legal_expr L (Suc k) (ListE es)"
| "is_name f \<Longrightarrow> f \<noteq> ''fold'' \<Longrightarrow> \<forall>a \<in> set args. (\<forall>key. fst a = Some key \<longrightarrow> is_name key) \<and> legal_expr L k (snd a) \<Longrightarrow>
   legal_expr L (Suc k) (CallE f args)"
| "is_name i \<Longrightarrow> is_name c \<Longrightarrow> legal_expr L k a \<Longrightarrow> legal_expr L k b \<Longrightarrow> legal_expr L k e \<Longrightarrow> legal_block L True k ms \<Longrightarrow>
   legal_expr L (Suc k) (FoldE i a b c e ms)"
| "is_name n \<Longrightarrow> legal_shape k shape \<Longrightarrow> legal_member L True k (InputM n shape)"
| "is_name n \<Longrightarrow> legal_shape k shape \<Longrightarrow> legal_data L k data \<Longrightarrow> legal_member L True k (ConstantM n shape data)"
| "is_name n \<Longrightarrow> legal_shape k shape \<Longrightarrow> legal_data L k data \<Longrightarrow> legal_member L True k (StateM n shape data)"
| "is_name n \<Longrightarrow> legal_expr L k e \<Longrightarrow> legal_member L True k (LetM n e)"
| "is_name n \<Longrightarrow> legal_member L True k (YieldM n)"
| "is_name n \<Longrightarrow> is_name v \<Longrightarrow> legal_member L True k (UpdateM n v)"
| "is_name n \<Longrightarrow> g \<longrightarrow> n \<notin> graph_keywords \<Longrightarrow> legal_expr L k e \<Longrightarrow> legal_member L g k (FieldM n e)"
| "\<forall>m \<in> set ms. legal_member L g k (sm_member m) \<Longrightarrow> legal_block L g (Suc k) ms"

lemmas legal_intros = legal_expr_legal_member_legal_block.intros

inductive_cases legal_ListE: "legal_expr L k (ListE es)"
inductive_cases legal_NumberE: "legal_expr L k (NumberE s)"

lemma lexeme_start: "lexeme t \<Longrightarrow> ascii_alphabetic (hd t) \<or> hd t = CHR ''_'' \<Longrightarrow> is_name t"
  using lexeme_name [of t] by (auto simp: name_start_def)

lemma takes_argument:
  assumes "takes (Suc 0) Q item"
  shows "takes (Suc 0) (\<lambda>a. (\<forall>key. fst a = Some key \<longrightarrow> is_name key) \<and> Q (snd a)) (argument item)"
proof (rule takesI)
  fix p assume p: "lexed p"
  have "takes (Suc 0) (\<lambda>a. (\<forall>key. fst a = Some key \<longrightarrow> is_name key) \<and> Q (snd a)) (bind_op name (\<lambda>k. bind_op (expect ''='') (\<lambda>_. bind_op item (\<lambda>e. give (Some k, e)))))"
    by (intro takes_intros takes_bind [OF assms [THEN takes_less]]) auto
  moreover have "takes (Suc 0) (\<lambda>a. (\<forall>key. fst a = Some key \<longrightarrow> is_name key) \<and> Q (snd a)) (bind_op item (\<lambda>e. give (None, e)))"
    by (intro takes_intros takes_bind [OF assms]) auto
  ultimately show "takes_at (Suc 0) (\<lambda>a. (\<forall>key. fst a = Some key \<longrightarrow> is_name key) \<and> Q (snd a)) p (argument item p)"
    using p by (simp add: argument_def takes_call)
qed

lemma takes_fold:
  assumes "takes (Suc 0) (legal_expr L k) item" and "takes (Suc 0) (legal_block L True k) body"
  shows "takes (Suc 0) (legal_expr L (Suc k)) (fold_expr item body)"
  unfolding fold_expr_def by (intro takes_intros takes_bind [OF assms(1) [THEN takes_less]] takes_bind [OF assms(2) [THEN takes_less]]) (auto intro: legal_intros)

lemma takes_list:
  assumes "takes (Suc 0) (legal_expr L k) item"
  shows "takes (Suc 0) (legal_expr L (Suc k)) (list_expr item)"
  unfolding list_expr_def by (intro takes_intros takes_bind [OF takes_comma_list [OF assms]]) (auto intro!: legal_intros simp: list_all_iff)

lemma takes_callee:
  assumes "takes (Suc 0) (legal_expr L k) item" and "is_name f" and "f \<noteq> ''fold''"
  shows "takes (Suc 0) (legal_expr L (Suc k)) (call_expr item f)"
  unfolding call_expr_def by (intro takes_intros takes_bind [OF takes_comma_list [OF takes_argument [OF assms(1)]]])
    (use assms(2,3) in \<open>auto intro!: legal_intros simp: list_all_iff\<close>)

lemma take_1_iff: "take (Suc 0) t = [c] \<longleftrightarrow> t \<noteq> [] \<and> hd t = c"
  by (cases t) auto

lemma takes_atom:
  assumes "takes (Suc 0) (legal_expr L k) item" and "lexeme t" and "t \<noteq> ''fold''"
  shows "takes 0 (legal_expr L (Suc k)) (atom_expr L item t)"
proof (rule takesI)
  fix p assume p: "lexed p"
  have ne: "t \<noteq> []" using assms(2) by (simp add: lexeme_def)
  have c: "index_at t 0 = Ok (hd t)" using ne by (cases t) (auto simp: index_at_def)
  consider "hd t = QUOTE" | "hd t \<noteq> QUOTE" "hd t = CHR ''-'' \<or> ascii_digit (hd t)"
    | "hd t \<noteq> QUOTE" "hd t \<noteq> CHR ''-''" "\<not> ascii_digit (hd t)" "ascii_alphabetic (hd t) \<or> hd t = CHR ''_''"
    | "hd t \<noteq> QUOTE" "hd t \<noteq> CHR ''-''" "\<not> ascii_digit (hd t)" "\<not> ascii_alphabetic (hd t)" "hd t \<noteq> CHR ''_''"
    by blast
  then show "takes_at 0 (legal_expr L (Suc k)) p (atom_expr L item t p)"
  proof cases
    case 1
    then have "string_text t" using lexeme_string assms(2) by blast
    then show ?thesis using 1 ne p by (auto simp: atom_expr_def take_1_iff takes_at_Ok intro: legal_intros split: option.split)
  next
    case 2
    then have "number_text t" using lexeme_number assms(2) by blast
    then show ?thesis using 2 ne p c by (auto simp: atom_expr_def take_1_iff takes_at_Ok intro: legal_intros)
  next
    case 3
    then have n: "is_name t" using lexeme_start assms(2) by blast
    then show ?thesis using 3 ne p c takes_call [OF takes_less [OF takes_callee [OF assms(1) n assms(3)]] p]
      by (auto simp: atom_expr_def take_1_iff takes_at_Ok intro!: legal_intros assms(3))
  next
    case 4
    then show ?thesis using ne c by (auto simp: atom_expr_def take_1_iff)
  qed
qed

lemma take_token_peek: "take_token p = (Ok t, p') \<Longrightarrow> t = peek p"
  by (auto simp: take_token_def peek_def fail_at_def split: option.splits)

lemma takes_expr_body:
  assumes "takes (Suc 0) (legal_expr L k) item" and "takes (Suc 0) (legal_block L True k) body"
  shows "takes (Suc 0) (legal_expr L (Suc k)) (expr_body L item body)"
proof (rule takesI)
  fix p assume p: "lexed p"
  have "takes_at (Suc 0) (legal_expr L (Suc k)) p (bind_op take_token (atom_expr L item) p)" if "peek p \<noteq> ''fold''"
  proof (rule takes_at_bind [of "Suc 0" "\<lambda>t. lexeme t \<and> t = peek p"])
    show "takes_at (Suc 0) (\<lambda>t. lexeme t \<and> t = peek p) p (take_token p)"
      using takes_call [OF takes_token p] take_token_peek by (fastforce elim!: takes_atE simp: takes_at_Ok_iff)
  qed (use takes_atom [OF assms(1)] that in \<open>auto intro: takes_call\<close>)
  then show "takes_at (Suc 0) (legal_expr L (Suc k)) p (expr_body L item body p)"
    using takes_call [OF takes_fold [OF assms] p] takes_call [OF takes_list [OF assms(1)] p] by (simp add: expr_body_def)
qed

subsection \<open>Declarations\<close>

lemma takes_shape:
  assumes "takes (Suc 0) (legal_expr L k) item"
  shows "takes 0 (\<lambda>shape. legal_shape (Suc k) shape) (tensor_shape item)"
proof -
  have "takes 0 (legal_shape (Suc k)) (\<lambda>p. case e of ListE values \<Rightarrow> try_op (collect (dimension p) values) give p | _ \<Rightarrow> fail_at ''expected shape list'' p)"
    if e: "legal_expr L k e" for e
  proof (rule takesI)
    fix p assume p: "lexed p"
    show "takes_at 0 (legal_shape (Suc k)) p (case e of ListE values \<Rightarrow> try_op (collect (dimension p) values) give p | _ \<Rightarrow> fail_at ''expected shape list'' p)"
    proof (cases e)
      case (ListE es)
      have "collect (dimension p) es \<noteq> Panic" by (rule collect_no_panic) (auto simp: dimension_def outcome_simps split: expr.split)
      moreover have "legal_shape (Suc k) ns" if ns: "collect (dimension p) es = Ok ns" for ns
      proof -
        have len: "length ns = length es" and each: "\<forall>i < length es. dimension p (es ! i) = Ok (ns ! i)" using ns by (auto simp: collect_Ok_iff)
        have "ns ! i < 2 ^ 64" if "i < length es" for i
        proof -
          have "dimension p (es ! i) = Ok (ns ! i)" using each that by blast
          then show ?thesis by (auto simp: dimension_def outcome_simps parse_usize_def Let_def split: expr.splits if_splits)
        qed
        then have "\<forall>n \<in> set ns. n < 2 ^ 64" by (metis in_set_conv_nth len)
        moreover obtain j where "k = Suc j" "\<forall>x \<in> set es. legal_expr L j x" using e ListE by (auto elim: legal_ListE)
        moreover have "es \<noteq> [] \<longrightarrow> 0 < j" using \<open>\<forall>x \<in> set es. legal_expr L j x\<close> by (cases es; cases j) (auto elim: legal_expr.cases)
        ultimately show ?thesis using len by (auto simp: legal_shape_def)
      qed
      ultimately show ?thesis using ListE p by (auto intro!: takes_at_try simp: give_def takes_at_Ok)
    qed auto
  qed
  then show ?thesis unfolding tensor_shape_def by (intro takes_intros takes_bind [OF assms [THEN takes_less]]) auto
qed

lemma takes_data:
  assumes "legal_expr L k e" and "\<And>data. legal_data L k data \<Longrightarrow> Q (f data)"
  shows "takes 0 Q (\<lambda>p. case e of ListE values \<Rightarrow> try_op (collect (initial_number L p) values) (\<lambda>data. give (f data)) p
      | _ \<Rightarrow> fail_at ''expected initializer list'' p)"
proof (rule takesI)
  fix p assume p: "lexed p"
  show "takes_at 0 Q p (case e of ListE values \<Rightarrow> try_op (collect (initial_number L p) values) (\<lambda>data. give (f data)) p
      | _ \<Rightarrow> fail_at ''expected initializer list'' p)"
  proof (cases e)
    case (ListE es)
    have "collect (initial_number L p) es \<noteq> Panic"
      by (rule collect_no_panic) (auto simp: initial_number_def outcome_simps split: expr.split)
    moreover have "legal_data L k xs" if xs: "collect (initial_number L p) es = Ok xs" for xs
    proof -
      obtain j where j: "k = Suc j" "\<forall>x \<in> set es. legal_expr L j x" using assms(1) ListE by (auto elim: legal_ListE)
      have len: "length xs = length es" and each: "\<forall>i < length es. initial_number L p (es ! i) = Ok (xs ! i)" using xs by (auto simp: collect_Ok_iff)
      have "\<exists>t. number_text t \<and> lit_f32 L t = Some (xs ! i)" if i: "i < length es" for i
      proof -
        have "initial_number L p (es ! i) = Ok (xs ! i)" using each i by blast
        then obtain t where t: "es ! i = NumberE t" "lit_f32 L t = Some (xs ! i)"
          by (auto simp: initial_number_def outcome_simps split: expr.splits)
        moreover have "legal_expr L j (es ! i)" using j(2) i by simp
        ultimately show ?thesis by (auto elim: legal_NumberE)
      qed
      then have "\<forall>x \<in> set xs. \<exists>t. number_text t \<and> lit_f32 L t = Some x" by (metis in_set_conv_nth len)
      moreover have "es \<noteq> [] \<longrightarrow> 0 < j" using j(2) by (cases es; cases j) (auto elim: legal_expr.cases)
      ultimately show ?thesis using len j(1) by (auto simp: legal_data_def)
    qed
    ultimately show ?thesis using ListE p assms(2) by (auto intro!: takes_at_try simp: give_def takes_at_Ok)
  qed auto
qed

lemma legal_shape_mono: "legal_shape (Suc (k - Suc 0)) shape \<Longrightarrow> legal_shape k shape"
  by (cases k) (auto simp: legal_shape_def split: if_splits)

lemma takes_owned:
  assumes "takes (Suc 0) (legal_expr L k) item" and "takes (Suc 0) (legal_expr L (k - 1)) deeper"
  shows "takes (Suc 0) (legal_member L True k) (owned_member L item deeper key)"
  unfolding owned_member_def
  by (intro takes_intros takes_bind [OF takes_shape [OF assms(2)]] takes_bind [OF assms(1) [THEN takes_less]], simp)
    (rule takes_data, assumption, auto intro: legal_intros legal_shape_mono)

lemma takes_member:
  assumes item: "takes (Suc 0) (legal_expr L k) item" and deeper: "takes (Suc 0) (legal_expr L (k - 1)) deeper" and key: "is_name key"
  shows "takes 0 (legal_member L g k) (member_of L g item deeper key)"
proof -
  have owned: "takes 0 (legal_member L True k) (owned_member L item deeper key)"
    by (rule takes_less [OF takes_owned [OF item deeper]])
  have input: "takes 0 (legal_member L True k) (bind_op name (\<lambda>n. bind_op (tensor_shape deeper) (\<lambda>shape. give (InputM n shape))))"
    by (intro takes_intros takes_bind [OF takes_shape [OF deeper]]) (auto intro: legal_intros legal_shape_mono)
  have bound: "takes 0 (legal_member L True k) (bind_op name (\<lambda>n. bind_op (expect ''='') (\<lambda>_. bind_op item (\<lambda>e. give (LetM n e)))))"
    by (intro takes_intros takes_bind [OF item [THEN takes_less]]) (auto intro: legal_intros)
  have out: "takes 0 (legal_member L True k) (bind_op name (\<lambda>n. give (YieldM n)))"
    by (intro takes_intros) (auto intro: legal_intros)
  have upd: "takes 0 (legal_member L True k) (bind_op name (\<lambda>n. bind_op (expect ''='') (\<lambda>_. bind_op name (\<lambda>v. give (UpdateM n v)))))"
    by (intro takes_intros) (auto intro: legal_intros)
  have field: "takes 0 (legal_member L g k) (bind_op (expect ''='') (\<lambda>_. bind_op item (\<lambda>e. give (FieldM key e))))" if "g \<longrightarrow> key \<notin> graph_keywords"
    by (intro takes_intros takes_bind [OF item [THEN takes_less]]) (use key that in \<open>auto intro: legal_intros\<close>)
  show ?thesis
  proof (cases g)
    case True
    then show ?thesis using owned input bound out upd field by (auto simp: member_of_def graph_keywords_def)
  next
    case False
    then show ?thesis using field by (auto simp: member_of_def)
  qed
qed

lemma takes_spanned:
  assumes item: "takes (Suc 0) (legal_expr L k) item" and deeper: "takes (Suc 0) (legal_expr L (k - 1)) deeper"
  shows "takes (Suc 0) (\<lambda>m. legal_member L g k (sm_member m)) (spanned_member L g item deeper)"
proof (rule takesI)
  fix p assume p: "lexed p"
  have tail: "takes_at 0 (\<lambda>m. legal_member L g k (sm_member m)) q
      (try_op (index_at (ps_tokens q) (ps_position q - 1)) (\<lambda>t. give (Spanned i (tk_end t) m)) q)"
    if "legal_member L g k m" "lexed q" "0 < ps_position q" for i m q
    using that by (intro takes_at_try) (auto simp: give_def takes_at_Ok lexed_def outcome_simps)
  have close: "takes 0 (\<lambda>m. legal_member L g k (sm_member m)) (bind_op (expect '';'') (\<lambda>_ q.
          try_op (index_at (ps_tokens q) (ps_position q - 1)) (\<lambda>t. give (Spanned i (tk_end t) m)) q))"
    if m: "legal_member L g k m" for i m
  proof (rule takesI)
    fix q assume q: "lexed q"
    have "takes_at (Suc 0) (\<lambda>m. legal_member L g k (sm_member m)) q (bind_op (expect '';'') (\<lambda>_ q.
          try_op (index_at (ps_tokens q) (ps_position q - 1)) (\<lambda>t. give (Spanned i (tk_end t) m)) q) q)"
      by (rule takes_then [OF takes_expect q], simp, rule tail [OF m], assumption, linarith)
    then show "takes_at 0 (\<lambda>m. legal_member L g k (sm_member m)) q (bind_op (expect '';'') (\<lambda>_ q.
          try_op (index_at (ps_tokens q) (ps_position q - 1)) (\<lambda>t. give (Spanned i (tk_end t) m)) q) q)"
      by (rule takes_at_weaken) auto
  qed
  have "takes (Suc 0) (\<lambda>m. legal_member L g k (sm_member m)) (bind_op name (\<lambda>key. bind_op (member_of L g item deeper key) (\<lambda>m. bind_op (expect '';'') (\<lambda>_ p.
          try_op (index_at (ps_tokens p) (ps_position p - 1)) (\<lambda>t. give (Spanned i (tk_end t) m)) p))))" for i
    by (intro takes_intros takes_bind [OF takes_member [OF item deeper]] close)
  then show "takes_at (Suc 0) (\<lambda>m. legal_member L g k (sm_member m)) p (spanned_member L g item deeper p)"
    using p by (auto simp: spanned_member_def intro: takes_call split: option.split)
qed

lemma takes_members:
  assumes "takes (Suc 0) (legal_expr L k) item" and "takes (Suc 0) (legal_expr L (k - 1)) deeper"
  shows "takes (Suc 0) (legal_block L g (Suc k)) (members_body L g item deeper)"
  unfolding members_body_def
  by (intro takes_intros takes_bind [OF takes_member_list [OF takes_spanned [OF assms]]]) (auto intro: legal_intros simp: list_all_iff)

text \<open>The two levels of the grammar together.\<close>

theorem takes_grammar: "takes (Suc 0) (legal_expr L k) (expr_at L k) \<and> (\<forall>g. takes (Suc 0) (legal_block L g k) (members_at L k g))"
proof (induction k rule: less_induct)
  case (less k)
  show ?case
  proof (cases k)
    case (Suc j)
    have j: "takes (Suc 0) (legal_expr L j) (expr_at L j)" "takes (Suc 0) (legal_block L True j) (members_at L j True)"
      "takes (Suc 0) (legal_expr L (j - 1)) (expr_at L (j - 1))"
      using less.IH [of j] less.IH [of "j - 1"] Suc by auto
    show ?thesis using takes_expr_body [OF j(1,2)] takes_members [OF j(1,3)] by (simp add: Suc)
  qed (auto simp: takes_def)
qed

subsection \<open>Documents\<close>

definition legal_module :: "'f literals \<Rightarrow> 'f dsl_module \<Rightarrow> bool" where
  "legal_module L m \<longleftrightarrow> is_name (dm_name m) \<and> list_all is_name (dm_parameters m) \<and> legal_block L True NESTING (dm_body m)"

definition legal_document :: "'f literals \<Rightarrow> 'f document \<Rightarrow> bool" where
  "legal_document L d \<longleftrightarrow> list_all (legal_module L) (doc_modules d) \<and> length (doc_modules d) \<le> 256 \<and> is_name (doc_name d) \<and>
     legal_block L True NESTING (doc_model d) \<and> is_name (doc_plan_name d) \<and> legal_block L False NESTING (doc_plan d)"

lemma takes_block: "takes (Suc 0) (legal_block L g NESTING) (members L g)"
  using takes_grammar by (auto simp: members_def)

lemma takes_module: "takes (Suc 0) (legal_module L) (module_decl L)"
  unfolding module_decl_def
  by (intro takes_intros takes_bind [OF takes_comma_list [OF takes_name]] takes_bind [OF takes_block [THEN takes_less]])
    (auto simp: legal_module_def)

lemma module_list_at:
  "lexed p \<Longrightarrow> length (ps_tokens p) - ps_position p < n \<Longrightarrow> list_all (legal_module L) ms \<Longrightarrow> length ms \<le> 256 \<Longrightarrow>
   takes_at 0 (\<lambda>ms. list_all (legal_module L) ms \<and> length ms \<le> 256) p (module_list n L ms p)"
proof (induction n arbitrary: p ms)
  case (Suc n)
  have "takes_at (Suc 0) (\<lambda>ms. list_all (legal_module L) ms \<and> length ms \<le> 256) p
      (bind_op (module_decl L) (\<lambda>m. if length (ms @ [m]) > 256 then fail_at ''module count limit'' else module_list n L (ms @ [m])) p)"
  proof (rule takes_then [OF takes_module Suc.prems(1)])
    fix m q
    assume q: "legal_module L m" "lexed q" "ps_tokens q = ps_tokens p" "ps_position p + Suc 0 \<le> ps_position q"
    have "length (ps_tokens q) - ps_position q < n" using Suc.prems(2) q lexed_bound [OF q(2)] by simp
    then show "takes_at 0 (\<lambda>ms. list_all (legal_module L) ms \<and> length ms \<le> 256) q
        ((if length (ms @ [m]) > 256 then fail_at ''module count limit'' else module_list n L (ms @ [m])) q)"
      using Suc.IH [OF q(2), of "ms @ [m]"] Suc.prems(3) q(1) by simp
  qed
  from takes_at_weaken [OF this, of 0] show ?case using Suc.prems by (auto simp: takes_at_Ok)
qed simp

lemma takes_modules: "takes 0 (\<lambda>ms. list_all (legal_module L) ms \<and> length ms \<le> 256) (\<lambda>p. module_list (rounds p) L [] p)"
  by (rule takesI, rule module_list_at) (simp_all add: rounds_def)

lemma takes_document: "takes (Suc 0) (legal_document L) (document_body L)"
proof -
  have plan: "takes 0 (legal_document L) (if target \<noteq> n then fail_at ''plan references a different model''
     else bind_op (members L False) (\<lambda>plan p.
          if peek p \<noteq> [] then fail_at ''unexpected declaration; imports are not supported by this v1 subset'' p
          else (Ok \<lparr>doc_modules = modules, doc_name = n, doc_model = model, doc_plan_name = plan_name, doc_plan = plan\<rparr>, p)))"
    if "list_all (legal_module L) modules \<and> length modules \<le> 256" "is_name n" "legal_block L True NESTING model" "is_name plan_name"
    for target n modules model plan_name
  proof -
    have cont: "takes 0 (legal_document L) (\<lambda>p.
          if peek p \<noteq> [] then fail_at ''unexpected declaration; imports are not supported by this v1 subset'' p
          else (Ok \<lparr>doc_modules = modules, doc_name = n, doc_model = model, doc_plan_name = plan_name, doc_plan = plan\<rparr>, p))"
      if "legal_block L False NESTING plan" for plan
      by (rule takesI) (use that \<open>list_all (legal_module L) modules \<and> length modules \<le> 256\<close> \<open>is_name n\<close> \<open>legal_block L True NESTING model\<close> \<open>is_name plan_name\<close>
        in \<open>auto simp: takes_at_Ok legal_document_def\<close>)
    show ?thesis
    proof (cases "target = n")
      case True
      show ?thesis unfolding True
        by (simp, rule takes_bind [OF takes_block [THEN takes_less]], rule cont, assumption)
    qed (simp add: takes_fail)
  qed
  show ?thesis unfolding document_body_def
    by (intro takes_intros takes_bind [OF takes_modules] takes_bind [OF takes_block [THEN takes_less]] plan) auto
qed

section \<open>Properties\<close>

text \<open>C37. Parsing is total: on every source the lexer and the parser return a document or an error, so none of their loops and none of the recursions
  of the grammar runs for ever, and no index is out of bounds. A document they return is legal: its names
  are identifiers, its numbers and strings literals, and its nesting within the limit.\<close>

theorem parsing_total:
  "case parse_document L source of Ok d \<Rightarrow> legal_document L d | Err e \<Rightarrow> True | Panic \<Rightarrow> False"
proof (cases "lex source")
  case (Ok ts)
  then have "lex_from 0 0 source = Ok ts" by (auto simp: lex_def outcome_simps)
  then have "lexed \<lparr>ps_tokens = ts, ps_position = 0\<rparr>" using lex_from_lexemes by (auto simp: lexed_def)
  then have "takes_at (Suc 0) (legal_document L) \<lparr>ps_tokens = ts, ps_position = 0\<rparr> (document_body L \<lparr>ps_tokens = ts, ps_position = 0\<rparr>)"
    by (rule takes_call [OF takes_document])
  then show ?thesis using Ok by (auto simp: parse_document_def Let_def elim!: takes_atE)
next
  case Panic
  then show ?thesis using lex_from_no_panic by (auto simp: lex_def outcome_simps)
qed (simp add: parse_document_def)

end
