(* ===== verification/DSL_Print.thy ===== *)
theory DSL_Print
  imports DSL_Syntax_Thms
begin

text \<open>
  The written form of a document and the round trip through the lexer and the parser: a legal document, written
  with single spaces between its tokens, parses to itself up to the spans.
\<close>

section \<open>Writing\<close>

record 'f writers =
  wr_string :: "string \<Rightarrow> string"
  wr_f32 :: "'f \<Rightarrow> string"

text \<open>The writers invert the readers of the literals.\<close>

definition writes :: "'f literals \<Rightarrow> 'f writers \<Rightarrow> bool" where
  "writes L W \<longleftrightarrow>
     (\<forall>t s. string_text t \<longrightarrow> lit_string L t = Some s \<longrightarrow> string_text (wr_string W s) \<and> lit_string L (wr_string W s) = Some s) \<and>
     (\<forall>t x. number_text t \<longrightarrow> lit_f32 L t = Some x \<longrightarrow> number_text (wr_f32 W x) \<and> lit_f32 L (wr_f32 W x) = Some x)"

fun commas :: "string list list \<Rightarrow> string list" where
  "commas [] = []"
| "commas [w] = w"
| "commas (w # v # ws) = w @ '','' # commas (v # ws)"

definition show_shape :: "nat list \<Rightarrow> string list" where
  "show_shape shape = ['':'', ''tensor'', ''<'', ''f32'', ''>'', ''[''] @ commas (map (\<lambda>n. [show_nat n]) shape) @ ['']'']"

definition show_data :: "'f writers \<Rightarrow> 'f list \<Rightarrow> string list" where
  "show_data W data = ''['' # commas (map (\<lambda>x. [wr_f32 W x]) data) @ ['']'']"

fun show_key :: "string option \<Rightarrow> string list" where
  "show_key None = []"
| "show_key (Some k) = [k, ''='']"

fun show_expr :: "'f writers \<Rightarrow> 'f expr \<Rightarrow> string list"
  and show_member :: "'f writers \<Rightarrow> 'f member \<Rightarrow> string list"
  and show_spanned :: "'f writers \<Rightarrow> 'f spanned \<Rightarrow> string list" where
  "show_expr W (NameE s) = [s]"
| "show_expr W (StringE s) = [wr_string W s]"
| "show_expr W (NumberE s) = [s]"
| "show_expr W (ListE es) = ''['' # commas (map (show_expr W) es) @ ['']'']"
| "show_expr W (CallE f args) = [f, ''(''] @ commas (map (\<lambda>(k, e). show_key k @ show_expr W e) args) @ ['')'']"
| "show_expr W (FoldE i a b c e ms) = [''fold'', i, ''in'', ''range'', ''(''] @ show_expr W a @ '','' # show_expr W b @ [ '')'', ''carry'', ''('', c, ''=''] @
     show_expr W e @ [ '')'', ''{''] @ concat (map (show_spanned W) ms) @ [''}'']"
| "show_member W (FieldM n e) = [n, ''=''] @ show_expr W e"
| "show_member W (InputM n shape) = [''input'', n] @ show_shape shape"
| "show_member W (ConstantM n shape data) = [''const'', n] @ show_shape shape @ ''='' # show_data W data"
| "show_member W (StateM n shape data) = [''state'', n] @ show_shape shape @ ''='' # show_data W data"
| "show_member W (LetM n e) = [''let'', n, ''=''] @ show_expr W e"
| "show_member W (YieldM n) = [''yield'', n]"
| "show_member W (UpdateM n v) = [''update'', n, ''='', v]"
| "show_spanned W (Spanned a b m) = show_member W m @ ['';'']"

definition show_block :: "'f writers \<Rightarrow> 'f spanned list \<Rightarrow> string list" where
  "show_block W ms = ''{'' # concat (map (show_spanned W) ms) @ [''}'']"

definition show_module :: "'f writers \<Rightarrow> 'f dsl_module \<Rightarrow> string list" where
  "show_module W m = [''module'', dm_name m, ''(''] @ commas (map (\<lambda>n. [n]) (dm_parameters m)) @ '')'' # show_block W (dm_body m)"

definition show_document :: "'f writers \<Rightarrow> 'f document \<Rightarrow> string list" where
  "show_document W d = [''language'', ''inferfabric'', ''1'', '';''] @ concat (map (show_module W) (doc_modules d)) @
     [''model'', doc_name d] @ show_block W (doc_model d) @ [''plan'', doc_plan_name d, ''for'', doc_name d] @ show_block W (doc_plan d)"

definition spaced :: "string list \<Rightarrow> string" where
  "spaced ws = concat (map (\<lambda>w. w @ '' '') ws)"

section \<open>Trees without spans\<close>

fun plain_expr :: "'f expr \<Rightarrow> 'f expr"
  and plain_member :: "'f member \<Rightarrow> 'f member"
  and plain_spanned :: "'f spanned \<Rightarrow> 'f spanned" where
  "plain_expr (NameE s) = NameE s"
| "plain_expr (StringE s) = StringE s"
| "plain_expr (NumberE s) = NumberE s"
| "plain_expr (ListE es) = ListE (map plain_expr es)"
| "plain_expr (CallE f args) = CallE f (map (\<lambda>(k, e). (k, plain_expr e)) args)"
| "plain_expr (FoldE i a b c e ms) = FoldE i (plain_expr a) (plain_expr b) c (plain_expr e) (map plain_spanned ms)"
| "plain_member (FieldM n e) = FieldM n (plain_expr e)"
| "plain_member (LetM n e) = LetM n (plain_expr e)"
| "plain_member (InputM n shape) = InputM n shape"
| "plain_member (ConstantM n shape data) = ConstantM n shape data"
| "plain_member (StateM n shape data) = StateM n shape data"
| "plain_member (YieldM n) = YieldM n"
| "plain_member (UpdateM n v) = UpdateM n v"
| "plain_spanned (Spanned a b m) = Spanned 0 0 (plain_member m)"

definition plain_block :: "'f spanned list \<Rightarrow> 'f spanned list" where
  "plain_block ms = map plain_spanned ms"

definition plain_document :: "'f document \<Rightarrow> 'f document" where
  "plain_document d = \<lparr>doc_modules = map (\<lambda>m. m\<lparr>dm_body := plain_block (dm_body m)\<rparr>) (doc_modules d), doc_name = doc_name d,
     doc_model = plain_block (doc_model d), doc_plan_name = doc_plan_name d, doc_plan = plain_block (doc_plan d)\<rparr>"

lemma plain_spanned_iff: "plain_spanned m = plain_spanned n \<longleftrightarrow> plain_member (sm_member m) = plain_member (sm_member n)"
  by (cases m; cases n) simp

lemma plain_list_cases: "plain_expr e = ListE (map NumberE ts) \<longleftrightarrow> e = ListE (map NumberE ts)"
proof -
  have "plain_expr e = NumberE t \<longleftrightarrow> e = NumberE t" for e :: "'a expr" and t by (cases e) auto
  then have "map plain_expr es = map NumberE ts \<longleftrightarrow> es = map NumberE ts" for es :: "'a expr list"
    by (induction es arbitrary: ts) (auto simp: Cons_eq_map_conv)
  then show ?thesis by (cases e) auto
qed

section \<open>Words and the lexer\<close>

lemma scan_string_append: "scan_string cs = Some n \<Longrightarrow> scan_string (cs @ rest) = Some n"
proof (induction cs arbitrary: n rule: scan_string.induct)
  case (2 c)
  then show ?case by (cases rest) (auto simp: QUOTE_def BACKSLASH_def split: if_splits)
qed (auto split: if_splits)

lemma token_rest_space:
  assumes "token_rest 0 c cs = Ok (length cs)"
  shows "token_rest i c (cs @ CHR '' '' # rest) = Ok (length cs)"
proof -
  have sep: "takeWhile P (cs @ CHR '' '' # rest) = cs" if "length (takeWhile P cs) = length cs" "\<not> P (CHR '' '')" for P
    using that takeWhile_all [of P cs] by (simp add: list_all_iff takeWhile_append)
  have "\<not> name_char (CHR '' '')" "\<not> number_char (CHR '' '')"
    by (simp_all add: name_char_def number_char_def ascii_alphabetic_def ascii_digit_def less_eq_char_def)
  then show ?thesis using assms sep [of name_char] sep [of number_char] scan_string_append
    by (auto simp: token_rest_def outcome_simps split: if_splits)
qed

lemma lexeme_first:
  assumes "lexeme (c # cs)"
  shows "\<not> ascii_whitespace c" "\<not> starts_comment c ds"
proof -
  show "\<not> ascii_whitespace c"
    using assms by (auto simp: lexeme_def token_rest_def ascii_whitespace_def name_start_def ascii_alphabetic_def ascii_digit_def less_eq_char_def QUOTE_def punctuation_def)
  show "\<not> starts_comment c ds"
    using assms by (auto simp: lexeme_def token_rest_def starts_comment_def name_start_def ascii_alphabetic_def ascii_digit_def less_eq_char_def QUOTE_def punctuation_def)
qed

lemma lex_spaced:
  "\<forall>w \<in> set ws. lexeme w \<Longrightarrow> seen + length ws \<le> 100000 \<Longrightarrow> \<exists>ts. lex_from seen i (spaced ws) = Ok ts \<and> map tk_text ts = ws"
proof (induction ws arbitrary: seen i)
  case (Cons w ws)
  then obtain c cs where w: "w = c # cs" by (cases w) (auto simp: lexeme_def)
  have rest: "token_rest i c (cs @ CHR '' '' # spaced ws) = Ok (length cs)"
    using Cons.prems(1) w by (intro token_rest_space) (auto simp: lexeme_def)
  obtain ts where ts: "lex_from (Suc seen) (Suc (Suc i + length cs)) (spaced ws) = Ok ts" "map tk_text ts = ws"
    using Cons.IH [of "Suc seen" "Suc (Suc i + length cs)"] Cons.prems by auto
  have "ascii_whitespace (CHR '' '')" by (simp add: ascii_whitespace_def)
  moreover have "lexeme (c # cs)" using Cons.prems(1) w by simp
  ultimately show ?case using rest ts lexeme_first [of c cs] Cons.prems(2)
    by (simp add: spaced_def w reject_def)
qed (simp add: spaced_def)

end
