(* ===== verification/DSL_Roundtrip.thy ===== *)
theory DSL_Roundtrip
  imports DSL_Print
begin

text \<open>
  The parser on written words. \<open>reads m ws Q K\<close>: in front of the words \<open>ws\<close>, followed by words that satisfy \<open>K\<close>, the
  parser \<open>m\<close> takes exactly \<open>ws\<close> and returns a result that satisfies \<open>Q\<close>.
\<close>

section \<open>Numerals\<close>

lemma ascii_digit_of_nat: "n < 10 \<Longrightarrow> ascii_digit (char_of (48 + n)) \<and> digit_value (char_of (48 + n)) = n"
  by (simp add: ascii_digit_def digit_value_def less_eq_char_def)

lemma show_nat_digits:
  "show_nat n \<noteq> [] \<and> list_all ascii_digit (show_nat n) \<and> foldl (\<lambda>n c. 10 * n + digit_value c) 0 (show_nat n) = n"
proof (induction n rule: show_nat.induct)
  case (1 n)
  then show ?case
    using ascii_digit_of_nat [of n] ascii_digit_of_nat [of "n mod 10"]
    by (cases "n < 10") (auto simp: show_nat.simps [of n])
qed

lemma plus_no_digit [simp]: "\<not> ascii_digit (CHR ''+'')"
  by (simp add: ascii_digit_def less_eq_char_def)

lemma parse_show_nat: "n < 2 ^ 64 \<Longrightarrow> parse_usize (show_nat n) = Some n"
  using show_nat_digits [of n]
  by (auto simp: parse_usize_def Let_def split: list.splits)

lemma number_show_nat: "number_text (show_nat n)"
  using show_nat_digits [of n] by (cases "show_nat n") (auto simp: number_text_def number_char_def list_all_iff)

section \<open>Reading\<close>

definition upcoming :: "parsing \<Rightarrow> string list" where
  "upcoming p = map tk_text (drop (ps_position p) (ps_tokens p))"

definition reads :: "'a parser \<Rightarrow> string list \<Rightarrow> ('a \<Rightarrow> bool) \<Rightarrow> (string list \<Rightarrow> bool) \<Rightarrow> bool" where
  "reads m ws Q K \<longleftrightarrow> (\<forall>p rest. upcoming p = ws @ rest \<longrightarrow> K rest \<longrightarrow>
     (\<exists>x. m p = (Ok x, p\<lparr>ps_position := ps_position p + length ws\<rparr>) \<and> Q x))"

named_theorems reads_intros
  "introduction rules for the reading judgement"

lemma readsI:
  "(\<And>p rest. upcoming p = ws @ rest \<Longrightarrow> K rest \<Longrightarrow> \<exists>x. m p = (Ok x, p\<lparr>ps_position := ps_position p + length ws\<rparr>) \<and> Q x) \<Longrightarrow> reads m ws Q K"
  by (simp add: reads_def)

lemma readsE:
  assumes "reads m ws Q K" and "upcoming p = ws @ rest" and "K rest"
  obtains x where "m p = (Ok x, p\<lparr>ps_position := ps_position p + length ws\<rparr>)" "Q x"
  using assms by (auto simp: reads_def)

lemma upcoming_advance:
  assumes "upcoming p = ws @ rest"
  shows "upcoming (p\<lparr>ps_position := ps_position p + length ws\<rparr>) = rest"
proof -
  have "upcoming (p\<lparr>ps_position := ps_position p + length ws\<rparr>) = drop (length ws) (upcoming p)"
    by (simp add: upcoming_def drop_map add.commute)
  then show ?thesis by (simp add: assms)
qed

lemma upcoming_next:
  assumes "upcoming p = w # rest"
  shows "\<exists>t. get_at (ps_tokens p) (ps_position p) = Some t \<and> tk_text t = w"
    and "upcoming (p\<lparr>ps_position := Suc (ps_position p)\<rparr>) = rest"
proof -
  have "ps_position p < length (ps_tokens p)" using assms by (metis Cons_nth_drop_Suc drop_eq_Nil leI list.distinct(1) list.map_disc_iff upcoming_def)
  then show "\<exists>t. get_at (ps_tokens p) (ps_position p) = Some t \<and> tk_text t = w"
    using assms by (auto simp: upcoming_def get_at_def Cons_nth_drop_Suc [symmetric])
  show "upcoming (p\<lparr>ps_position := Suc (ps_position p)\<rparr>) = rest" using upcoming_advance [of p "[w]" rest] assms by simp
qed

lemma peek_upcoming: "upcoming p = w # rest \<Longrightarrow> peek p = w"
  using upcoming_next(1) by (fastforce simp: peek_def)

lemma upcoming_second:
  assumes "upcoming p = w # v # rest"
  shows "map_option tk_text (get_at (ps_tokens p) (ps_position p + 1)) = Some v"
  using upcoming_next(1) [OF upcoming_next(2) [OF assms]] by auto

lemma reads_bind:
  assumes "reads m ws Q K" and "\<And>x. Q x \<Longrightarrow> reads (f x) vs R J" and "\<And>rest. J rest \<Longrightarrow> K (vs @ rest)"
  shows "reads (bind_op m f) (ws @ vs) R J"
proof (rule readsI)
  fix p rest
  assume *: "upcoming p = (ws @ vs) @ rest" "J rest"
  obtain x where x: "m p = (Ok x, p\<lparr>ps_position := ps_position p + length ws\<rparr>)" "Q x"
    using readsE [OF assms(1), of p "vs @ rest"] * assms(3) by auto
  let ?q = "p\<lparr>ps_position := ps_position p + length ws\<rparr>"
  have "upcoming ?q = vs @ rest" using upcoming_advance [of p ws] * by simp
  then obtain y where "f x ?q = (Ok y, ?q\<lparr>ps_position := ps_position ?q + length vs\<rparr>)" "R y"
    using readsE [OF assms(2) [OF x(2)] _ *(2)] by blast
  then show "\<exists>y. bind_op m f p = (Ok y, p\<lparr>ps_position := ps_position p + length (ws @ vs)\<rparr>) \<and> R y"
    using x(1) by (auto simp: add.assoc)
qed

lemma reads_weaken: "reads m ws Q K \<Longrightarrow> (\<And>x. Q x \<Longrightarrow> R x) \<Longrightarrow> (\<And>rest. J rest \<Longrightarrow> K rest) \<Longrightarrow> reads m ws R J"
  unfolding reads_def by blast

lemma reads_give [reads_intros]: "Q x \<Longrightarrow> reads (give x) [] Q K"
  by (rule readsI) (simp add: give_def)

lemma reads_token: "reads take_token [w] (\<lambda>x. x = w) K"
  by (rule readsI) (auto simp: take_token_def dest!: upcoming_next(1))

lemma reads_name: "is_name w \<Longrightarrow> reads name [w] (\<lambda>x. x = w) K"
  by (rule readsI) (auto simp: name_def take_token_def give_def dest!: upcoming_next(1))

lemma reads_expect: "reads (expect w) [w] (\<lambda>_. True) K"
  by (rule readsI) (auto simp: expect_def dest: peek_upcoming)

lemma reads_bind_expect [reads_intros]: "reads (f ()) vs R J \<Longrightarrow> reads (bind_op (expect w) f) (w # vs) R J"
  using reads_bind [OF reads_expect [of w "\<lambda>_. True"], of f vs R J] by simp

lemma reads_bind_name [reads_intros]: "is_name w \<Longrightarrow> reads (f w) vs R J \<Longrightarrow> reads (bind_op name f) (w # vs) R J"
  using reads_bind [OF reads_name [of w "\<lambda>_. True"], of f vs R J] by simp

lemma reads_bind_token [reads_intros]: "reads (f w) vs R J \<Longrightarrow> reads (bind_op take_token f) (w # vs) R J"
  using reads_bind [OF reads_token [of w "\<lambda>_. True"], of f vs R J] by simp

section \<open>Lists\<close>

text \<open>What follows an expression.\<close>

definition stops :: "string list \<Rightarrow> bool" where
  "stops rest \<longleftrightarrow> rest \<noteq> [] \<and> hd rest \<in> {'','', '')'', '']'', '';''}"

definition follows :: "string list \<Rightarrow> bool" where
  "follows rest \<longleftrightarrow> stops rest \<or> rest \<noteq> [] \<and> hd rest = ''=''"

lemma reads_stops: "reads m ws Q follows \<Longrightarrow> reads m ws Q stops"
  by (erule reads_weaken) (auto simp: follows_def)

lemma comma_list_reads:
  assumes "\<forall>x \<in> set xs. w x \<noteq> [] \<and> hd (w x) \<noteq> close \<and> reads item (w x) (R x) stops" and "close \<in> {'')'', '']''}"
    and "upcoming p = commas (map w xs) @ close # rest" and "length xs < n"
  shows "\<exists>ys. comma_list n close item p = (Ok ys, p\<lparr>ps_position := ps_position p + length (commas (map w xs))\<rparr>) \<and> list_all2 R xs ys"
  using assms(1,3,4)
proof (induction xs arbitrary: p n)
  case Nil
  then have "peek p = close" by (simp add: peek_upcoming)
  with Nil show ?case by (cases n) auto
next
  case (Cons x xs)
  then obtain m where n: "n = Suc m" by (cases n) auto
  have w: "w x \<noteq> []" "hd (w x) \<noteq> close" "reads item (w x) (R x) stops" using Cons.prems(1) by auto
  obtain after where after: "upcoming p = w x @ after" "stops after"
      "after = (if xs = [] then close # rest else '','' # commas (map w xs) @ close # rest)"
  proof (cases xs)
    case Nil
    then show ?thesis using that [of "close # rest"] Cons.prems(2) assms(2) by (auto simp: stops_def)
  next
    case (Cons y ys)
    then show ?thesis using that [of "'','' # commas (map w xs) @ close # rest"] Cons.prems(2) by (auto simp: stops_def)
  qed
  obtain y where y: "item p = (Ok y, p\<lparr>ps_position := ps_position p + length (w x)\<rparr>)" "R x y"
    using readsE [OF w(3) after(1,2)] by blast
  let ?q = "p\<lparr>ps_position := ps_position p + length (w x)\<rparr>"
  have q: "upcoming ?q = after" by (rule upcoming_advance [OF after(1)])
  have start: "peek p \<noteq> close" using after(1) w by (cases "w x") (auto dest: peek_upcoming)
  show ?case
  proof (cases xs)
    case Nil
    then have "peek ?q \<noteq> '',''" using q after(3) assms(2) by (auto simp: peek_upcoming)
    then show ?thesis using start y n Nil by simp
  next
    case (Cons z zs)
    let ?r = "?q\<lparr>ps_position := Suc (ps_position ?q)\<rparr>"
    have q': "upcoming ?q = '','' # commas (map w xs) @ close # rest" using q after(3) Cons by simp
    have comma: "peek ?q = '',''" "take_token ?q = (Ok '','', ?r)"
      using peek_upcoming [OF q'] upcoming_next(1) [OF q'] by (auto simp: take_token_def)
    have r: "upcoming ?r = commas (map w xs) @ close # rest" by (rule upcoming_next(2) [OF q'])
    obtain ys where "comma_list m close item ?r = (Ok ys, ?r\<lparr>ps_position := ps_position ?r + length (commas (map w xs))\<rparr>)" "list_all2 R xs ys"
      using Cons.IH [OF _ r, of m] Cons.prems n by auto
    then show ?thesis using start y n comma \<open>xs = z # zs\<close> by (simp add: give_def)
  qed
qed

lemma commas_length: "\<forall>x \<in> set xs. w x \<noteq> [] \<Longrightarrow> length xs \<le> length (commas (map w xs))"
proof (induction xs)
  case (Cons x xs)
  then have "Suc 0 \<le> length (w x)" by (simp add: Suc_le_eq)
  moreover have "length xs \<le> length (commas (map w xs))" using Cons by simp
  ultimately show ?case by (cases xs) auto
qed simp

lemma reads_comma_list:
  assumes "\<forall>x \<in> set xs. w x \<noteq> [] \<and> hd (w x) \<noteq> close \<and> reads item (w x) (R x) stops" and "close \<in> {'')'', '']''}"
  shows "reads (\<lambda>p. comma_list (rounds p) close item p) (commas (map w xs)) (list_all2 R xs) (\<lambda>rest. rest \<noteq> [] \<and> hd rest = close)"
proof (rule readsI)
  fix p rest
  assume *: "upcoming p = commas (map w xs) @ rest" "rest \<noteq> [] \<and> hd rest = close"
  have "length (upcoming p) \<le> length (ps_tokens p)" by (simp add: upcoming_def)
  then have "length xs < rounds p" using commas_length [of xs w] assms(1) *(1) by (simp add: rounds_def)
  moreover have "rest = close # tl rest" using *(2) by (cases rest) auto
  ultimately show "\<exists>ys. comma_list (rounds p) close item p = (Ok ys, p\<lparr>ps_position := ps_position p + length (commas (map w xs))\<rparr>) \<and> list_all2 R xs ys"
    using comma_list_reads [OF assms, of p "tl rest" "rounds p"] *(1) by simp
qed

lemma member_list_reads:
  assumes "\<forall>x \<in> set xs. w x \<noteq> [] \<and> hd (w x) \<noteq> ''}'' \<and> reads item (w x) (R x) (\<lambda>_. True)"
    and "upcoming p = concat (map w xs) @ ''}'' # rest" and "length xs < n"
  shows "\<exists>ys. member_list n item p = (Ok ys, p\<lparr>ps_position := ps_position p + length (concat (map w xs))\<rparr>) \<and> list_all2 R xs ys"
  using assms
proof (induction xs arbitrary: p n)
  case Nil
  then have "peek p = ''}''" by (simp add: peek_upcoming)
  with Nil show ?case by (cases n) auto
next
  case (Cons x xs)
  then obtain m where n: "n = Suc m" by (cases n) auto
  have w: "w x \<noteq> []" "hd (w x) \<noteq> ''}''" "reads item (w x) (R x) (\<lambda>_. True)" using Cons.prems(1) by auto
  have up: "upcoming p = w x @ concat (map w xs) @ ''}'' # rest" using Cons.prems(2) by simp
  obtain y where y: "item p = (Ok y, p\<lparr>ps_position := ps_position p + length (w x)\<rparr>)" "R x y"
    using readsE [OF w(3) up] by blast
  let ?q = "p\<lparr>ps_position := ps_position p + length (w x)\<rparr>"
  have q: "upcoming ?q = concat (map w xs) @ ''}'' # rest" by (rule upcoming_advance [OF up])
  have start: "peek p \<noteq> ''}''" using up w by (cases "w x") (auto dest: peek_upcoming)
  obtain ys where "member_list m item ?q = (Ok ys, ?q\<lparr>ps_position := ps_position ?q + length (concat (map w xs))\<rparr>)" "list_all2 R xs ys"
    using Cons.IH [OF _ q, of m] Cons.prems n by auto
  then show ?case using start y n by (simp add: give_def add.assoc)
qed

lemma concat_length: "\<forall>x \<in> set xs. w x \<noteq> [] \<Longrightarrow> length xs \<le> length (concat (map w xs))"
proof (induction xs)
  case (Cons x xs)
  then have "Suc 0 \<le> length (w x)" by (simp add: Suc_le_eq)
  moreover have "length xs \<le> length (concat (map w xs))" using Cons by simp
  ultimately show ?case by simp
qed simp

lemma reads_member_list:
  assumes "\<forall>x \<in> set xs. w x \<noteq> [] \<and> hd (w x) \<noteq> ''}'' \<and> reads item (w x) (R x) (\<lambda>_. True)"
  shows "reads (\<lambda>p. member_list (rounds p) item p) (concat (map w xs)) (list_all2 R xs) (\<lambda>rest. rest \<noteq> [] \<and> hd rest = ''}'')"
proof (rule readsI)
  fix p rest
  assume *: "upcoming p = concat (map w xs) @ rest" "rest \<noteq> [] \<and> hd rest = ''}''"
  have "length (upcoming p) \<le> length (ps_tokens p)" by (simp add: upcoming_def)
  then have "length xs < rounds p" using concat_length [of xs w] assms *(1) by (simp add: rounds_def)
  moreover have "rest = ''}'' # tl rest" using *(2) by (cases rest) auto
  ultimately show "\<exists>ys. member_list (rounds p) item p = (Ok ys, p\<lparr>ps_position := ps_position p + length (concat (map w xs))\<rparr>) \<and> list_all2 R xs ys"
    using member_list_reads [OF assms, of p "tl rest" "rounds p"] *(1) by simp
qed

section \<open>Expressions\<close>

lemma reads_body:
  "reads (fold_expr item body) (''fold'' # ws) Q K \<Longrightarrow> reads (expr_body L item body) (''fold'' # ws) Q K"
  "reads (list_expr item) (''['' # ws) Q K \<Longrightarrow> reads (expr_body L item body) (''['' # ws) Q K"
  by (auto simp: reads_def expr_body_def dest: peek_upcoming)

lemma reads_body_atom:
  assumes "w \<noteq> ''fold''" and "w \<noteq> ''[''" and "reads (atom_expr L item w) ws Q K"
  shows "reads (expr_body L item body) (w # ws) Q K"
proof (rule readsI)
  fix p rest
  assume *: "upcoming p = (w # ws) @ rest" "K rest"
  have "reads (bind_op take_token (atom_expr L item)) (w # ws) Q K" by (intro reads_intros assms(3))
  then obtain x where "bind_op take_token (atom_expr L item) p = (Ok x, p\<lparr>ps_position := ps_position p + length (w # ws)\<rparr>)" "Q x"
    using readsE * by blast
  moreover have "peek p = w" using * by (simp add: peek_upcoming)
  ultimately show "\<exists>x. expr_body L item body p = (Ok x, p\<lparr>ps_position := ps_position p + length (w # ws)\<rparr>) \<and> Q x"
    using assms(1,2) by (simp add: expr_body_def)
qed

lemma name_atom:
  assumes "is_name s"
  shows "take (Suc 0) s \<noteq> [QUOTE]" "take (Suc 0) s \<noteq> ''-''" "index_at s 0 = Ok (hd s)" "\<not> ascii_digit (hd s)"
    "ascii_alphabetic (hd s) \<or> take (Suc 0) s = ''_''" "s \<noteq> []"
  using assms name_start_facts [of "hd s"] by (auto simp: is_name_def take_1_iff index_at_def name_start_def hd_conv_nth)

lemma reads_atom_name:
  assumes "is_name s"
  shows "reads (atom_expr L item s) [] (\<lambda>x. x = NameE s) follows"
proof (rule readsI)
  fix p rest
  assume "upcoming p = [] @ rest" "follows rest"
  then have "peek p \<noteq> ''(''" by (cases rest) (auto simp: stops_def follows_def peek_upcoming)
  then show "\<exists>x. atom_expr L item s p = (Ok x, p\<lparr>ps_position := ps_position p + length []\<rparr>) \<and> x = NameE s"
    using name_atom [OF assms] by (auto simp: atom_expr_def)
qed

lemma reads_atom_call:
  assumes "is_name f" and "reads (call_expr item f) (''('' # ws) Q K"
  shows "reads (atom_expr L item f) (''('' # ws) Q K"
proof (rule readsI)
  fix p rest
  assume *: "upcoming p = (''('' # ws) @ rest" "K rest"
  then have "peek p = ''(''" by (simp add: peek_upcoming)
  then have "atom_expr L item f p = call_expr item f p" using name_atom [OF assms(1)] by (auto simp: atom_expr_def)
  then show "\<exists>x. atom_expr L item f p = (Ok x, p\<lparr>ps_position := ps_position p + length (''('' # ws)\<rparr>) \<and> Q x"
    using readsE [OF assms(2) *] by metis
qed

lemma reads_atom_number: "number_text s \<Longrightarrow> reads (atom_expr L item s) [] (\<lambda>x. x = NumberE s) K"
  using digit_facts [of "hd s"] by (auto simp: reads_def atom_expr_def number_text_def take_1_iff index_at_def hd_conv_nth)

lemma reads_atom_string: "string_text t \<Longrightarrow> lit_string L t = Some s \<Longrightarrow> reads (atom_expr L item t) [] (\<lambda>x. x = StringE s) K"
  by (auto simp: reads_def atom_expr_def string_text_def take_1_iff)

lemma literal_word:
  assumes "is_name w \<or> number_text w \<or> string_text w"
  shows "w \<noteq> []" "w \<notin> {''='', ''['', ''('', '')'', '']'', ''{'', ''}'', '','', '';'', '':'', ''<'', ''>''}"
  using assms
  by (auto simp: is_name_def number_text_def string_text_def name_start_def ascii_alphabetic_def ascii_digit_def less_eq_char_def QUOTE_def)

lemma not_fold: "number_text w \<or> string_text w \<Longrightarrow> w \<noteq> ''fold''"
  by (auto simp: number_text_def string_text_def ascii_digit_def less_eq_char_def QUOTE_def)

text \<open>How a written expression begins.\<close>

lemma show_expr_start:
  assumes "legal_expr L k e" and "writes L W"
  shows "show_expr W e \<noteq> []" "hd (show_expr W e) \<notin> {''='', '')'', '']'', ''}''}"
proof -
  have "\<exists>w ws. show_expr W e = w # ws \<and> (w = ''['' \<or> is_name w \<or> number_text w \<or> string_text w)"
    using assms by (cases rule: legal_expr.cases) (auto simp: writes_def is_name_def name_start_def name_char_def ascii_alphabetic_def less_eq_char_def)
  then obtain w ws where w: "show_expr W e = w # ws" "w = ''['' \<or> is_name w \<or> number_text w \<or> string_text w" by blast
  show "show_expr W e \<noteq> []" using w(1) by simp
  show "hd (show_expr W e) \<notin> {''='', '')'', '']'', ''}''}" using w literal_word [of w] by auto
qed

lemma show_expr_second:
  assumes "legal_expr L k e" and "writes L W" and "stops rest"
  shows "\<exists>w v vs. show_expr W e @ rest = w # v # vs \<and> v \<noteq> ''=''"
proof -
  obtain r rs where r: "rest = r # rs" "r \<noteq> ''=''" using assms(3) by (cases rest) (auto simp: stops_def)
  from assms(1) show ?thesis
  proof (cases rule: legal_expr.cases)
    case (4 es j)
    show ?thesis
    proof (cases es)
      case (Cons x xs)
      then have "show_expr W x \<noteq> []" "hd (show_expr W x) \<noteq> ''=''" using show_expr_start [of L j x W] 4 assms(2) by auto
      then show ?thesis using 4 Cons by (cases "show_expr W x"; cases xs) auto
    qed (use 4 in simp)
  next
    case (6 i c j a b e ms)
    then show ?thesis using literal_word(2) [of i] by simp
  qed (use r in auto)
qed

lemma reads_argument:
  assumes "reads item (show_expr W e) Q stops" and "legal_expr L k e" and "writes L W" and "\<forall>n. key = Some n \<longrightarrow> is_name n"
  shows "reads (argument item) (show_key key @ show_expr W e) (\<lambda>a. fst a = key \<and> Q (snd a)) stops"
proof (cases key)
  case None
  show ?thesis
  proof (rule readsI)
    fix p rest
    assume *: "upcoming p = (show_key key @ show_expr W e) @ rest" "stops rest"
    obtain w v vs where "upcoming p = w # v # vs" "v \<noteq> ''=''" using show_expr_second [OF assms(2,3) *(2)] * None by auto
    then have "argument item p = bind_op item (\<lambda>e. give (None, e)) p" using upcoming_second [of p w v vs] by (auto simp: argument_def)
    moreover obtain x where "item p = (Ok x, p\<lparr>ps_position := ps_position p + length (show_expr W e)\<rparr>)" "Q x"
      using readsE [OF assms(1), of p rest] * None by auto
    ultimately show "\<exists>x. argument item p = (Ok x, p\<lparr>ps_position := ps_position p + length (show_key key @ show_expr W e)\<rparr>) \<and> fst x = key \<and> Q (snd x)"
      using None by (simp add: give_def)
  qed
next
  case (Some n)
  then have n: "is_name n" using assms(4) by simp
  have all: "reads (bind_op name (\<lambda>k. bind_op (expect ''='') (\<lambda>_. bind_op item (\<lambda>e. give (Some k, e))))) (n # ''='' # show_expr W e @ [])
      (\<lambda>a. fst a = Some n \<and> Q (snd a)) stops"
    by (intro reads_intros n reads_bind [OF assms(1)]) auto
  show ?thesis
  proof (rule readsI)
    fix p rest
    assume *: "upcoming p = (show_key key @ show_expr W e) @ rest" "stops rest"
    then have "argument item p = bind_op name (\<lambda>k. bind_op (expect ''='') (\<lambda>_. bind_op item (\<lambda>e. give (Some k, e)))) p"
      using upcoming_second [of p n "''=''"] Some by (simp add: argument_def)
    moreover have "upcoming p = (n # ''='' # show_expr W e @ []) @ rest" using * Some by simp
    then obtain x where "bind_op name (\<lambda>k. bind_op (expect ''='') (\<lambda>_. bind_op item (\<lambda>e. give (Some k, e)))) p =
        (Ok x, p\<lparr>ps_position := ps_position p + length (n # ''='' # show_expr W e @ [])\<rparr>)" "fst x = Some n \<and> Q (snd x)"
      using *(2) by (rule readsE [OF all])
    ultimately show "\<exists>x. argument item p = (Ok x, p\<lparr>ps_position := ps_position p + length (show_key key @ show_expr W e)\<rparr>) \<and> fst x = key \<and> Q (snd x)"
      using Some by simp
  qed
qed

subsection \<open>One level of the grammar\<close>

abbreviation same_expr :: "'f expr \<Rightarrow> 'f expr \<Rightarrow> bool" where
  "same_expr e x \<equiv> plain_expr x = plain_expr e"

abbreviation same_block :: "'f spanned list \<Rightarrow> 'f spanned list \<Rightarrow> bool" where
  "same_block ms xs \<equiv> plain_block xs = plain_block ms"

lemma plain_map: "list_all2 (\<lambda>e x. f x = f e) es xs \<longleftrightarrow> map f xs = map f es"
proof -
  have "list_all2 (\<lambda>e x. f x = f e) es xs \<longleftrightarrow> list_all2 (=) (map f es) (map f xs)"
    by (auto simp: list_all2_conv_all_nth)
  then show ?thesis by (auto simp: list.rel_eq)
qed

lemma reads_level:
  assumes item: "\<And>e. legal_expr L k e \<Longrightarrow> reads item (show_expr W e) (same_expr e) follows"
    and body: "\<And>ms. legal_block L True k ms \<Longrightarrow> reads body (show_block W ms) (same_block ms) (\<lambda>_. True)"
    and W: "writes L W" and e: "legal_expr L (Suc k) e"
  shows "reads (expr_body L item body) (show_expr W e) (same_expr e) follows"
  using e
proof (cases rule: legal_expr.cases)
  case (1 s)
  have "reads (expr_body L item body) [s] (\<lambda>x. x = NameE s) follows"
    by (intro reads_body_atom reads_atom_name) (use 1 literal_word [of s] in auto)
  then show ?thesis unfolding 1 show_expr.simps by (rule reads_weaken) auto
next
  case (2 t s)
  then have t: "string_text (wr_string W s)" "lit_string L (wr_string W s) = Some s" using W by (auto simp: writes_def)
  have "reads (expr_body L item body) [wr_string W s] (\<lambda>x. x = StringE s) follows"
    by (intro reads_body_atom reads_atom_string t) (use t(1) literal_word [of "wr_string W s"] not_fold in auto)
  then show ?thesis unfolding 2 show_expr.simps by (rule reads_weaken) auto
next
  case (3 s)
  have "reads (expr_body L item body) [s] (\<lambda>x. x = NumberE s) follows"
    by (intro reads_body_atom reads_atom_number) (use 3 literal_word [of s] not_fold in auto)
  then show ?thesis unfolding 3 show_expr.simps by (rule reads_weaken) auto
next
  case (4 es)
  have each: "\<forall>e \<in> set es. show_expr W e \<noteq> [] \<and> hd (show_expr W e) \<noteq> '']'' \<and> reads item (show_expr W e) (same_expr e) stops"
    using 4 item [THEN reads_stops] show_expr_start [OF _ W] by auto
  have "reads (list_expr item) (''['' # commas (map (show_expr W) es) @ '']'' # []) (same_expr e) follows"
    unfolding list_expr_def
    by (intro reads_intros reads_bind [OF reads_comma_list [OF each]]) (auto simp: 4 plain_map)
  then show ?thesis unfolding 4 show_expr.simps by (rule reads_body(2))
next
  case (5 f args)
  let ?w = "\<lambda>a. show_key (fst a) @ show_expr W (snd a)" and ?R = "\<lambda>a x. fst x = fst a \<and> same_expr (snd a) (snd x)"
  have each: "\<forall>a \<in> set args. ?w a \<noteq> [] \<and> hd (?w a) \<noteq> '')'' \<and> reads (argument item) (?w a) (?R a) stops"
  proof
    fix a assume "a \<in> set args"
    then have a: "\<forall>n. fst a = Some n \<longrightarrow> is_name n" "legal_expr L k (snd a)" using 5 by auto
    have "?w a \<noteq> [] \<and> hd (?w a) \<noteq> '')''"
      using show_expr_start [OF a(2) W] a(1) literal_word(2) [of "the (fst a)"] by (cases "fst a") auto
    then show "?w a \<noteq> [] \<and> hd (?w a) \<noteq> '')'' \<and> reads (argument item) (?w a) (?R a) stops"
      using reads_argument [OF item [OF a(2), THEN reads_stops] a(2) W a(1)] by simp
  qed
  have args: "map (\<lambda>(k, e). (k, plain_expr e)) xs = map (\<lambda>(k, e). (k, plain_expr e)) args" if "list_all2 ?R args xs" for xs
    using that by (auto simp: plain_map [symmetric] case_prod_beta elim: list_all2_mono)
  have "reads (call_expr item f) (''('' # commas (map ?w args) @ '')'' # []) (same_expr e) follows"
    unfolding call_expr_def
    by (intro reads_intros reads_bind [OF reads_comma_list [OF each]]) (auto simp: 5 args)
  then have "reads (expr_body L item body) (f # ''('' # commas (map ?w args) @ [ '')'']) (same_expr e) follows"
    by (intro reads_body_atom reads_atom_call) (use 5 literal_word [of f] in auto)
  then show ?thesis by (simp add: 5 case_prod_unfold)
next
  case (6 i c a b d ms)
  have same: "same_expr e (FoldE i a' b' c d' ms')" if "same_expr a a'" "same_expr b b'" "same_expr d d'" "same_block ms ms'" for a' b' d' ms'
    using that by (simp add: 6 plain_block_def)
  have "reads (fold_expr item body) (''fold'' # i # ''in'' # ''range'' # ''('' # show_expr W a @ '','' # show_expr W b @ '')'' # ''carry'' # ''('' # c # ''='' #
      show_expr W d @ '')'' # show_block W ms @ []) (same_expr e) follows"
    unfolding fold_expr_def
    by (intro reads_intros reads_bind [OF item] reads_bind [OF body] 6 same) (auto simp: stops_def follows_def)
  from reads_body(1) [OF this] show ?thesis by (simp add: 6 show_block_def)
qed

section \<open>Declarations\<close>

lemma reads_shape:
  assumes item: "\<And>e. legal_expr L (k - 1) e \<Longrightarrow> reads item (show_expr W e) (same_expr e) follows"
    and "legal_shape k shape"
  shows "reads (tensor_shape item) (show_shape shape) (\<lambda>x. x = shape) follows"
proof -
  let ?e = "ListE (map NumberE (map show_nat shape))"
  have legal: "legal_expr L (k - 1) ?e"
  proof (cases "k - 1")
    case (Suc j)
    have "legal_expr L j (NumberE (show_nat n))" if "n \<in> set shape" for n
      using that assms(2) Suc number_show_nat [of n] by (cases j) (auto simp: legal_shape_def split: if_splits intro: legal_intros)
    then show ?thesis unfolding Suc by (intro legal_intros) auto
  qed (use assms(2) in \<open>auto simp: legal_shape_def split: if_splits\<close>)
  have dims: "collect (dimension p) (map NumberE (map show_nat ns)) = Ok ns" if "\<forall>n \<in> set ns. n < 2 ^ 64" for ns p
    using that parse_show_nat by (induction ns) (auto simp: dimension_def)
  have small: "\<forall>n \<in> set shape. n < 2 ^ 64" using assms(2) by (simp add: legal_shape_def)
  have "reads (\<lambda>p. case x of ListE values \<Rightarrow> try_op (collect (dimension p) values) give p | _ \<Rightarrow> fail_at ''expected shape list'' p) [] (\<lambda>y. y = shape) follows"
    if x: "same_expr ?e x" for x
  proof -
    have "plain_expr ?e = ?e" using plain_list_cases [of ?e "map show_nat shape"] by simp
    then have "x = ?e" using x plain_list_cases [of x "map show_nat shape"] by simp
    then show ?thesis by (simp add: reads_def dims [OF small] give_def del: map_map)
  qed
  then have "reads (tensor_shape item) ('':'' # ''tensor'' # ''<'' # ''f32'' # ''>'' # show_expr W ?e @ []) (\<lambda>x. x = shape) follows"
    unfolding tensor_shape_def by (intro reads_intros reads_bind [OF item [OF legal]]) auto
  then show ?thesis by (simp add: show_shape_def comp_def)
qed

lemma reads_data:
  assumes item: "\<And>e. legal_expr L k e \<Longrightarrow> reads item (show_expr W e) (same_expr e) follows"
    and W: "writes L W" and data: "legal_data L k data"
    and Q: "Q (f data)"
  shows "reads (bind_op item (\<lambda>e p. case e of ListE values \<Rightarrow> try_op (collect (initial_number L p) values) (\<lambda>data. give (f data)) p
      | _ \<Rightarrow> fail_at ''expected initializer list'' p)) (show_data W data) Q follows"
proof -
  let ?e = "ListE (map NumberE (map (wr_f32 W) data))"
  have num: "number_text (wr_f32 W x) \<and> lit_f32 L (wr_f32 W x) = Some x" if "x \<in> set data" for x
    using that W data unfolding writes_def legal_data_def by blast
  have legal: "legal_expr L k ?e"
  proof (cases k)
    case (Suc j)
    have "legal_expr L j (NumberE (wr_f32 W x))" if "x \<in> set data" for x
      using that data Suc num [OF that] by (cases j) (auto simp: legal_data_def split: if_splits intro: legal_intros)
    then show ?thesis unfolding Suc by (intro legal_intros) auto
  qed (use data in \<open>auto simp: legal_data_def split: if_splits\<close>)
  have "\<forall>x \<in> set xs. lit_f32 L (wr_f32 W x) = Some x \<Longrightarrow> collect (initial_number L p) (map NumberE (map (wr_f32 W) xs)) = Ok xs" for xs p
    by (induction xs) (auto simp: initial_number_def)
  then have nums: "collect (initial_number L p) (map NumberE (map (wr_f32 W) data)) = Ok data" for p using num by blast
  have "reads (\<lambda>p. case x of ListE values \<Rightarrow> try_op (collect (initial_number L p) values) (\<lambda>data. give (f data)) p
      | _ \<Rightarrow> fail_at ''expected initializer list'' p) [] Q follows"
    if x: "same_expr ?e x" for x
  proof -
    have "plain_expr ?e = ?e" using plain_list_cases [of ?e "map (wr_f32 W) data"] by simp
    then have "x = ?e" using x plain_list_cases [of x "map (wr_f32 W) data"] by simp
    then show ?thesis using Q by (simp add: reads_def nums give_def del: map_map)
  qed
  then have "reads (bind_op item (\<lambda>e p. case e of ListE values \<Rightarrow> try_op (collect (initial_number L p) values) (\<lambda>data. give (f data)) p
      | _ \<Rightarrow> fail_at ''expected initializer list'' p)) (show_expr W ?e @ []) Q follows"
    by (intro reads_bind [OF item [OF legal]]) auto
  then show ?thesis by (simp add: show_data_def comp_def)
qed

lemma keyword_names:
  "is_name ''input''" "is_name ''const''" "is_name ''state''" "is_name ''let''" "is_name ''yield''" "is_name ''update''"
  "is_name ''fold''" "is_name ''in''" "is_name ''range''" "is_name ''carry''" "is_name ''tensor''" "is_name ''f32''"
  "is_name ''module''" "is_name ''model''" "is_name ''plan''" "is_name ''for''" "is_name ''language''" "is_name ''inferfabric''"
  by (simp_all add: is_name_def name_start_def name_char_def ascii_alphabetic_def ascii_digit_def less_eq_char_def)

lemma reads_member:
  assumes item: "\<And>e. legal_expr L k e \<Longrightarrow> reads item (show_expr W e) (same_expr e) follows"
    and deeper: "\<And>e. legal_expr L (k - 1) e \<Longrightarrow> reads deeper (show_expr W e) (same_expr e) follows"
    and W: "writes L W" and m: "legal_member L g k m"
  shows "\<exists>key ws. show_member W m = key # ws \<and> is_name key \<and>
     reads (member_of L g item deeper key) ws (\<lambda>x. plain_member x = plain_member m) follows"
  using m
proof (cases rule: legal_member.cases)
  case (1 n shape)
  have "reads (bind_op name (\<lambda>n. bind_op (tensor_shape deeper) (\<lambda>shape. give (InputM n shape)))) (n # show_shape shape @ [])
      (\<lambda>x. plain_member x = plain_member m) follows"
    by (intro reads_intros 1 reads_bind [OF reads_shape [OF deeper]]) (auto simp: 1)
  then show ?thesis using 1 by (auto simp: member_of_def keyword_names)
next
  case (2 n shape data)
  have "reads (owned_member L item deeper ''const'') (n # show_shape shape @ ''='' # show_data W data) (\<lambda>x. plain_member x = plain_member m) follows"
    unfolding owned_member_def
    by (intro reads_intros 2 reads_bind [OF reads_shape [OF deeper]] reads_data [OF item W])
      (auto simp: 2 stops_def follows_def intro!: reads_intros reads_data [OF item W])
  then show ?thesis using 2 by (auto simp: member_of_def keyword_names)
next
  case (3 n shape data)
  have "reads (owned_member L item deeper ''state'') (n # show_shape shape @ ''='' # show_data W data) (\<lambda>x. plain_member x = plain_member m) follows"
    unfolding owned_member_def
    by (intro reads_intros 3 reads_bind [OF reads_shape [OF deeper]] reads_data [OF item W])
      (auto simp: 3 stops_def follows_def intro!: reads_intros reads_data [OF item W])
  then show ?thesis using 3 by (auto simp: member_of_def keyword_names)
next
  case (4 n e)
  have "reads (bind_op name (\<lambda>n. bind_op (expect ''='') (\<lambda>_. bind_op item (\<lambda>e. give (LetM n e))))) (n # ''='' # show_expr W e @ [])
      (\<lambda>x. plain_member x = plain_member m) follows"
    by (intro reads_intros 4 reads_bind [OF item]) (auto simp: 4)
  then show ?thesis using 4 by (auto simp: member_of_def keyword_names)
next
  case (5 n)
  have "reads (bind_op name (\<lambda>n. give (YieldM n))) (n # []) (\<lambda>x. plain_member x = plain_member m) follows"
    by (intro reads_intros 5) (auto simp: 5)
  then show ?thesis using 5 by (auto simp: member_of_def keyword_names)
next
  case (6 n v)
  have "reads (bind_op name (\<lambda>n. bind_op (expect ''='') (\<lambda>_. bind_op name (\<lambda>v. give (UpdateM n v))))) (n # ''='' # v # [])
      (\<lambda>x. plain_member x = plain_member m) follows"
    by (intro reads_intros 6) (auto simp: 6)
  then show ?thesis using 6 by (auto simp: member_of_def keyword_names)
next
  case (7 n e)
  have "reads (bind_op (expect ''='') (\<lambda>_. bind_op item (\<lambda>e. give (FieldM n e)))) (''='' # show_expr W e @ []) (\<lambda>x. plain_member x = plain_member m) follows"
    by (intro reads_intros reads_bind [OF item] 7) (auto simp: 7)
  moreover have "member_of L g item deeper n = bind_op (expect ''='') (\<lambda>_. bind_op item (\<lambda>e. give (FieldM n e)))"
  proof (cases g)
    case True
    then have "n \<notin> graph_keywords" using 7(3) by simp
    then show ?thesis by (simp add: member_of_def graph_keywords_def)
  qed (simp add: member_of_def)
  ultimately have "reads (member_of L g item deeper n) (''='' # show_expr W e) (\<lambda>x. plain_member x = plain_member m) follows" by simp
  then show ?thesis using 7(1,2) by (intro exI [of _ n] exI [of _ "''='' # show_expr W e"]) simp
qed

lemma reads_spanned:
  assumes item: "\<And>e. legal_expr L k e \<Longrightarrow> reads item (show_expr W e) (same_expr e) follows"
    and deeper: "\<And>e. legal_expr L (k - 1) e \<Longrightarrow> reads deeper (show_expr W e) (same_expr e) follows"
    and W: "writes L W" and m: "legal_member L g k (sm_member m)"
  shows "show_spanned W m \<noteq> []" and "hd (show_spanned W m) \<noteq> ''}''"
    and "reads (spanned_member L g item deeper) (show_spanned W m) (\<lambda>x. plain_spanned x = plain_spanned m) (\<lambda>_. True)"
proof -
  obtain key ws where ws: "show_member W (sm_member m) = key # ws" "is_name key"
    "reads (member_of L g item deeper key) ws (\<lambda>x. plain_member x = plain_member (sm_member m)) follows"
    using reads_member [OF item deeper W m] by blast
  have words: "show_spanned W m = key # ws @ ['';'']" using ws(1) by (cases m) simp
  show "show_spanned W m \<noteq> []" "hd (show_spanned W m) \<noteq> ''}''" using words literal_word(2) [of key] ws(2) by auto
  show "reads (spanned_member L g item deeper) (show_spanned W m) (\<lambda>x. plain_spanned x = plain_spanned m) (\<lambda>_. True)"
  proof (rule readsI)
    fix p rest
    assume up: "upcoming p = show_spanned W m @ rest"
    then obtain first where first: "get_at (ps_tokens p) (ps_position p) = Some first" using upcoming_next(1) words by fastforce
    have body: "reads (bind_op name (\<lambda>key. bind_op (member_of L g item deeper key) (\<lambda>x. bind_op (expect '';'') (\<lambda>_. give x))))
        (key # ws @ '';'' # []) (\<lambda>x. plain_member x = plain_member (sm_member m)) (\<lambda>_. True)"
      by (intro reads_intros ws(2) reads_bind [OF ws(3)]) (auto simp: follows_def stops_def)
    let ?q = "p\<lparr>ps_position := ps_position p + length (show_spanned W m)\<rparr>"
    obtain x where x: "bind_op name (\<lambda>key. bind_op (member_of L g item deeper key) (\<lambda>x. bind_op (expect '';'') (\<lambda>_. give x))) p = (Ok x, ?q)"
      "plain_member x = plain_member (sm_member m)"
      using readsE [OF body, of p rest] up words by auto
    have "length (show_spanned W m) \<le> length (upcoming p)" using up by simp
    then have "ps_position ?q - 1 < length (ps_tokens ?q)" using words by (simp add: upcoming_def)
    then obtain t where t: "index_at (ps_tokens ?q) (ps_position ?q - 1) = Ok t" by (auto simp: index_at_def)
    have "spanned_member L g item deeper p = (Ok (Spanned (tk_start first) (tk_end t) x), ?q)"
      using x(1) first t by (auto simp: spanned_member_def bind_op_eq give_def)
    then show "\<exists>y. spanned_member L g item deeper p = (Ok y, ?q) \<and> plain_spanned y = plain_spanned m"
      using x(2) by (auto simp: plain_spanned_iff)
  qed
qed

lemma reads_block:
  assumes item: "\<And>e. legal_expr L k e \<Longrightarrow> reads item (show_expr W e) (same_expr e) follows"
    and deeper: "\<And>e. legal_expr L (k - 1) e \<Longrightarrow> reads deeper (show_expr W e) (same_expr e) follows"
    and W: "writes L W" and ms: "legal_block L g (Suc k) ms"
  shows "reads (members_body L g item deeper) (show_block W ms) (same_block ms) (\<lambda>_. True)"
proof -
  have "\<forall>m \<in> set ms. legal_member L g k (sm_member m)" using ms by (auto elim: legal_block.cases)
  then have each: "\<forall>m \<in> set ms. show_spanned W m \<noteq> [] \<and> hd (show_spanned W m) \<noteq> ''}'' \<and>
      reads (spanned_member L g item deeper) (show_spanned W m) (\<lambda>x. plain_spanned x = plain_spanned m) (\<lambda>_. True)"
    using reads_spanned [OF item deeper W] by blast
  have "reads (members_body L g item deeper) (''{'' # concat (map (show_spanned W) ms) @ ''}'' # []) (same_block ms) (\<lambda>_. True)"
    unfolding members_body_def
    by (intro reads_intros reads_bind [OF reads_member_list [OF each]]) (auto simp: plain_map plain_block_def)
  then show ?thesis by (simp add: show_block_def)
qed

theorem reads_grammar:
  assumes "writes L W"
  shows "(\<forall>e. legal_expr L k e \<longrightarrow> reads (expr_at L k) (show_expr W e) (same_expr e) follows) \<and>
    (\<forall>g ms. legal_block L g k ms \<longrightarrow> reads (members_at L k g) (show_block W ms) (same_block ms) (\<lambda>_. True))"
proof (induction k rule: less_induct)
  case (less k)
  show ?case
  proof (cases k)
    case 0
    then show ?thesis by (auto elim: legal_expr.cases legal_block.cases)
  next
    case (Suc j)
    have j: "legal_expr L j e \<Longrightarrow> reads (expr_at L j) (show_expr W e) (same_expr e) follows"
      "legal_expr L (j - 1) e \<Longrightarrow> reads (expr_at L (j - 1)) (show_expr W e) (same_expr e) follows"
      "legal_block L True j ms \<Longrightarrow> reads (members_at L j True) (show_block W ms) (same_block ms) (\<lambda>_. True)" for e ms
      using less.IH [of j] less.IH [of "j - 1"] Suc by auto
    show ?thesis unfolding Suc expr_at.simps members_at.simps
      using reads_level [OF j(1,3) assms] reads_block [OF j(1,2) assms] by blast
  qed
qed

section \<open>The written words are lexemes\<close>

lemma punctuation_lexemes:
  "lexeme ''[''" "lexeme '']''" "lexeme ''(''" "lexeme '')''" "lexeme ''{''" "lexeme ''}''" "lexeme '',''" "lexeme '';''" "lexeme '':''"
  "lexeme ''<''" "lexeme ''>''" "lexeme ''=''"
  by (simp_all add: lexeme_def token_rest_def name_start_def ascii_alphabetic_def ascii_digit_def less_eq_char_def QUOTE_def punctuation_def)

lemma name_lexeme: "is_name w \<Longrightarrow> lexeme w"
  using lexeme_name by blast

lemma number_lexeme: "number_text w \<Longrightarrow> lexeme w"
  using lexeme_number by blast

lemma set_commas: "set (commas ws) \<subseteq> insert '','' (\<Union> (set ` set ws))"
  by (induction ws rule: commas.induct) auto

lemma commas_lexemes: "\<forall>ws \<in> set wss. \<forall>w \<in> set ws. lexeme w \<Longrightarrow> \<forall>w \<in> set (commas wss). lexeme w"
  using set_commas [of wss] punctuation_lexemes(7) by blast

lemmas word_lexemes = punctuation_lexemes name_lexeme number_lexeme keyword_names [THEN name_lexeme]

lemma shape_lexemes: "\<forall>w \<in> set (show_shape shape). lexeme w"
proof -
  have "\<forall>w \<in> set (commas (map (\<lambda>n. [show_nat n]) shape)). lexeme w"
    by (rule commas_lexemes) (auto intro: number_lexeme number_show_nat)
  then show ?thesis by (auto simp: show_shape_def word_lexemes)
qed

lemma data_lexemes:
  assumes "writes L W" and "legal_data L k data"
  shows "\<forall>w \<in> set (show_data W data). lexeme w"
proof -
  have "number_text (wr_f32 W x)" if "x \<in> set data" for x using that assms unfolding writes_def legal_data_def by blast
  then have "\<forall>w \<in> set (commas (map (\<lambda>x. [wr_f32 W x]) data)). lexeme w"
    by (intro commas_lexemes) (auto intro: number_lexeme)
  then show ?thesis by (auto simp: show_data_def word_lexemes)
qed

lemma show_lexemes:
  assumes W: "writes L W"
  shows "legal_expr L k e \<Longrightarrow> \<forall>w \<in> set (show_expr W e). lexeme w"
    and "legal_member L g k m \<Longrightarrow> \<forall>w \<in> set (show_member W m). lexeme w"
    and "legal_block L g k ms \<Longrightarrow> \<forall>m \<in> set ms. \<forall>w \<in> set (show_spanned W m). lexeme w"
proof (induction rule: legal_expr_legal_member_legal_block.inducts)
  case (2 t s k)
  then have "string_text (wr_string W s)" using W unfolding writes_def by blast
  then show ?case using lexeme_string by auto
next
  case (4 es k)
  then have "\<forall>w \<in> set (commas (map (show_expr W) es)). lexeme w" by (intro commas_lexemes) auto
  then show ?case by (auto simp: word_lexemes)
next
  case (5 f args k)
  then have "\<forall>w \<in> set (show_key (fst a) @ show_expr W (snd a)). lexeme w" if "a \<in> set args" for a
    using that by (cases "fst a") (auto simp: word_lexemes)
  then have "\<forall>w \<in> set (commas (map (\<lambda>a. show_key (fst a) @ show_expr W (snd a)) args)). lexeme w" by (intro commas_lexemes) auto
  then show ?case using 5(1) by (auto simp: word_lexemes case_prod_unfold)
next
  case (14 ms g k)
  show ?case
  proof (intro ballI)
    fix m w assume "m \<in> set ms" "w \<in> set (show_spanned W m)"
    moreover have "\<forall>w \<in> set (show_member W (sm_member m)). lexeme w" using 14 calculation(1) by blast
    moreover obtain a b x where "m = Spanned a b x" by (cases m)
    ultimately show "lexeme w" by (auto simp: word_lexemes)
  qed
qed (use data_lexemes [OF W] shape_lexemes in \<open>auto simp: word_lexemes\<close>)

lemma block_lexemes: "writes L W \<Longrightarrow> legal_block L g k ms \<Longrightarrow> \<forall>w \<in> set (show_block W ms). lexeme w"
  using show_lexemes(3) [of L W g k ms] by (auto simp: show_block_def word_lexemes)

lemma document_lexemes:
  assumes "writes L W" and d: "legal_document L d"
  shows "\<forall>w \<in> set (show_document W d). lexeme w"
proof -
  have one: "lexeme ''1''" by (simp add: lexeme_def token_rest_def name_start_def ascii_alphabetic_def ascii_digit_def less_eq_char_def QUOTE_def)
  have "\<forall>w \<in> set (show_module W m). lexeme w" if "m \<in> set (doc_modules d)" for m
  proof -
    have m: "is_name (dm_name m)" "\<forall>n \<in> set (dm_parameters m). is_name n" "legal_block L True NESTING (dm_body m)"
      using that d by (auto simp: legal_document_def legal_module_def list_all_iff)
    have "\<forall>w \<in> set (commas (map (\<lambda>n. [n]) (dm_parameters m))). lexeme w" using m(2) by (intro commas_lexemes) (auto intro: name_lexeme)
    then show ?thesis using m(1) block_lexemes [OF assms(1) m(3)] by (auto simp: show_module_def word_lexemes)
  qed
  then show ?thesis using d block_lexemes [OF assms(1)] one
    by (auto simp: show_document_def legal_document_def word_lexemes)
qed

section \<open>Documents\<close>

lemma reads_members: "writes L W \<Longrightarrow> legal_block L g NESTING ms \<Longrightarrow> reads (members L g) (show_block W ms) (same_block ms) (\<lambda>_. True)"
  using reads_grammar [of L W NESTING] by (auto simp: members_def)

abbreviation same_module :: "'f dsl_module \<Rightarrow> 'f dsl_module \<Rightarrow> bool" where
  "same_module m x \<equiv> x\<lparr>dm_body := plain_block (dm_body x)\<rparr> = m\<lparr>dm_body := plain_block (dm_body m)\<rparr>"

lemma reads_module:
  assumes "writes L W" and m: "legal_module L m"
  shows "reads (module_decl L) (show_module W m) (same_module m) (\<lambda>_. True)"
proof -
  have each: "\<forall>n \<in> set (dm_parameters m). [n] \<noteq> [] \<and> hd [n] \<noteq> '')'' \<and> reads name [n] (\<lambda>x. x = n) stops"
    using m literal_word(2) by (auto simp: legal_module_def list_all_iff intro: reads_name)
  have params: "list_all2 (\<lambda>n x. x = n) ns xs \<longleftrightarrow> xs = ns" for ns xs :: "string list"
    by (induction ns arbitrary: xs) (auto simp: list_all2_Cons1)
  have "reads (module_decl L) (''module'' # dm_name m # ''('' # commas (map (\<lambda>n. [n]) (dm_parameters m)) @ '')'' # show_block W (dm_body m) @ [])
      (same_module m) (\<lambda>_. True)"
    unfolding module_decl_def
    by (intro reads_intros reads_bind [OF reads_comma_list [OF each]] reads_bind [OF reads_members [OF assms(1)]])
      (use m in \<open>auto simp: legal_module_def params\<close>)
  then show ?thesis by (simp add: show_module_def)
qed

lemma module_list_reads:
  assumes "writes L W" and "list_all (legal_module L) ms" and "length done + length ms \<le> 256"
    and "upcoming p = concat (map (show_module W) ms) @ rest" and "rest \<noteq> [] \<and> hd rest \<noteq> ''module''" and "length ms < n"
  shows "\<exists>xs. module_list n L done p = (Ok (done @ xs), p\<lparr>ps_position := ps_position p + length (concat (map (show_module W) ms))\<rparr>) \<and> list_all2 same_module ms xs"
  using assms(2-4,6)
proof (induction ms arbitrary: p n "done")
  case Nil
  then have "peek p \<noteq> ''module''" using assms(5) by (cases rest) (auto simp: peek_upcoming)
  with Nil show ?case by (cases n) auto
next
  case (Cons m ms)
  then obtain k where n: "n = Suc k" by (cases n) auto
  have up: "upcoming p = show_module W m @ concat (map (show_module W) ms) @ rest" using Cons.prems(3) by simp
  obtain x where x: "module_decl L p = (Ok x, p\<lparr>ps_position := ps_position p + length (show_module W m)\<rparr>)" "same_module m x"
    using readsE [OF reads_module [OF assms(1)] up] Cons.prems(1) by auto
  let ?q = "p\<lparr>ps_position := ps_position p + length (show_module W m)\<rparr>"
  have q: "upcoming ?q = concat (map (show_module W) ms) @ rest" by (rule upcoming_advance [OF up])
  have start: "peek p = ''module''" using up by (auto simp: show_module_def peek_upcoming)
  obtain xs where "module_list k L (done @ [x]) ?q = (Ok ((done @ [x]) @ xs), ?q\<lparr>ps_position := ps_position ?q + length (concat (map (show_module W) ms))\<rparr>)"
    "list_all2 same_module ms xs"
    using Cons.IH [of "done @ [x]" ?q k] Cons.prems q n by auto
  then show ?case using start x n Cons.prems(2) by (simp add: add.assoc)
qed

lemma reads_modules:
  assumes "writes L W" and "list_all (legal_module L) ms" and "length ms \<le> 256"
  shows "reads (\<lambda>p. module_list (rounds p) L [] p) (concat (map (show_module W) ms)) (list_all2 same_module ms) (\<lambda>rest. rest \<noteq> [] \<and> hd rest \<noteq> ''module'')"
proof (rule readsI)
  fix p rest
  assume *: "upcoming p = concat (map (show_module W) ms) @ rest" "rest \<noteq> [] \<and> hd rest \<noteq> ''module''"
  have "length (upcoming p) \<le> length (ps_tokens p)" by (simp add: upcoming_def)
  then have "length ms < rounds p" using concat_length [of ms "show_module W"] *(1) by (simp add: rounds_def show_module_def)
  then show "\<exists>xs. module_list (rounds p) L [] p = (Ok xs, p\<lparr>ps_position := ps_position p + length (concat (map (show_module W) ms))\<rparr>) \<and> list_all2 same_module ms xs"
    using module_list_reads [OF assms(1,2), of "[]" p rest] assms(3) * by simp
qed

lemma reads_document:
  assumes "writes L W" and d: "legal_document L d"
  shows "reads (document_body L) (show_document W d) (\<lambda>x. plain_document x = plain_document d) (\<lambda>rest. rest = [])"
proof -
  have d: "list_all (legal_module L) (doc_modules d)" "length (doc_modules d) \<le> 256" "is_name (doc_name d)"
    "legal_block L True NESTING (doc_model d)" "is_name (doc_plan_name d)" "legal_block L False NESTING (doc_plan d)"
    using d by (auto simp: legal_document_def)
  let ?cont = "\<lambda>modules model plan p. if peek p \<noteq> [] then fail_at ''unexpected declaration; imports are not supported by this v1 subset'' p
          else (Ok \<lparr>doc_modules = modules, doc_name = doc_name d, doc_model = model, doc_plan_name = doc_plan_name d, doc_plan = plan\<rparr>, p)"
  have last: "reads (?cont modules model plan) [] (\<lambda>x. plain_document x = plain_document d) (\<lambda>rest. rest = [])"
    if "list_all2 same_module (doc_modules d) modules" "same_block (doc_model d) model" "same_block (doc_plan d) plan" for modules model plan
  proof (rule readsI)
    fix p rest
    assume "upcoming p = [] @ rest" "rest = []"
    then have "length (ps_tokens p) \<le> ps_position p" by (simp add: upcoming_def)
    then have "peek p = []" by (simp add: peek_def get_at_def)
    then show "\<exists>x. ?cont modules model plan p = (Ok x, p\<lparr>ps_position := ps_position p + length []\<rparr>) \<and> plain_document x = plain_document d"
      using that by (simp add: plain_document_def plain_map)
  qed
  have "reads (document_body L) (''language'' # ''inferfabric'' # ''1'' # '';'' # concat (map (show_module W) (doc_modules d)) @
      ''model'' # doc_name d # show_block W (doc_model d) @ ''plan'' # doc_plan_name d # ''for'' # doc_name d # show_block W (doc_plan d) @ [])
      (\<lambda>x. plain_document x = plain_document d) (\<lambda>rest. rest = [])"
    unfolding document_body_def
    by (intro reads_intros d reads_bind [OF reads_modules [OF assms(1) d(1,2)]] reads_bind [OF reads_members [OF assms(1) d(4)]])
      (simp_all, rule reads_bind [OF reads_members [OF assms(1) d(6)], of _ "[]", simplified], rule last)
  then show ?thesis by (simp add: show_document_def)
qed

section \<open>Round trip\<close>

text \<open>C15. Writing and parsing. A legal document, written as text, is lexed and parsed to a document that differs from it
  in the spans only; in particular every document the parser ever returns can be written and read again. The text must
  keep the limits of the lexer.\<close>

theorem parse_of_written:
  assumes "writes L W" and "legal_document L d"
    and "length (spaced (show_document W d)) \<le> 1024 * 1024" and "length (show_document W d) \<le> 100000"
  shows "\<exists>d'. parse_document L (spaced (show_document W d)) = Ok d' \<and> plain_document d' = plain_document d"
proof -
  obtain ts where ts: "lex_from 0 0 (spaced (show_document W d)) = Ok ts" "map tk_text ts = show_document W d"
    using lex_spaced [OF document_lexemes [OF assms(1,2)], of 0 0] assms(4) by auto
  let ?p = "\<lparr>ps_tokens = ts, ps_position = 0\<rparr>"
  have up: "upcoming ?p = show_document W d @ []" by (simp add: upcoming_def ts(2))
  then have "peek ?p = ''language''" by (auto simp: show_document_def peek_upcoming)
  moreover obtain x where "document_body L ?p = (Ok x, ?p\<lparr>ps_position := ps_position ?p + length (show_document W d)\<rparr>)"
    "plain_document x = plain_document d"
    using readsE [OF reads_document [OF assms(1,2)] up] by auto
  ultimately show ?thesis using ts(1) assms(3) by (simp add: parse_document_def lex_def reject_def)
qed

text \<open>A document with a constant and two operations, over literals read as they are written.\<close>

definition verbatim :: "string literals" where
  "verbatim = \<lparr>lit_string = Some, lit_f32 = Some\<rparr>"

definition verbatim_writers :: "string writers" where
  "verbatim_writers = \<lparr>wr_string = (\<lambda>s. s), wr_f32 = (\<lambda>s. s)\<rparr>"

definition sample_document :: "string document" where
  "sample_document = \<lparr>doc_modules = [], doc_name = ''m'',
     doc_model = [Spanned 0 0 (InputM ''x'' []), Spanned 0 0 (LetM ''y'' (CallE ''relu'' [(None, NameE ''x'')])), Spanned 0 0 (YieldM ''y'')],
     doc_plan_name = ''p'', doc_plan = [Spanned 0 0 (FieldM ''target'' (NameE ''cpu_f32_v1''))]\<rparr>"

lemma sample_legal: "legal_document verbatim sample_document"
proof -
  have n: "is_name ''m''" "is_name ''x''" "is_name ''y''" "is_name ''p''" "is_name ''relu''" "is_name ''target''" "is_name ''cpu_f32_v1''"
    by (simp_all add: is_name_def name_start_def name_char_def ascii_alphabetic_def ascii_digit_def less_eq_char_def)
  have "legal_block verbatim True (Suc (Suc (Suc j))) (doc_model sample_document)" for j
    by (auto intro!: legal_intros simp: n legal_shape_def sample_document_def)
  from this [of 62] have model: "legal_block verbatim True NESTING (doc_model sample_document)" by (simp add: NESTING_def)
  have "legal_block verbatim False (Suc (Suc (Suc j))) (doc_plan sample_document)" for j
    by (auto intro!: legal_intros simp: n sample_document_def)
  from this [of 62] have "legal_block verbatim False NESTING (doc_plan sample_document)" by (simp add: NESTING_def)
  then show ?thesis using model n by (simp add: legal_document_def) (simp add: sample_document_def)
qed

lemma parse_of_written_witness:
  "\<exists>d'. parse_document verbatim (spaced (show_document verbatim_writers sample_document)) = Ok d' \<and> plain_document d' = plain_document sample_document"
proof (rule parse_of_written [OF _ sample_legal])
  show "writes verbatim verbatim_writers" by (simp add: writes_def verbatim_def verbatim_writers_def)
  show "length (spaced (show_document verbatim_writers sample_document)) \<le> 1024 * 1024" "length (show_document verbatim_writers sample_document) \<le> 100000"
    by (simp_all add: sample_document_def show_document_def show_block_def show_shape_def spaced_def)
qed

end
