(* ===== verification/Token_Graph.thy ===== *)
theory Token_Graph
  imports DSL_Syntax
begin

text \<open>
  The token graph both authoring frontends produce (\<open>crates/inferfabric-authoring/src/execution.rs\<close>): nodes in
  topological order, the types of the values they produce, and the validation of a graph. Attributes are text; widths
  are natural numbers, which the validation bounds far below the width of \<open>usize\<close>.
\<close>

section \<open>Data\<close>

record expansion_frame =
  ef_module :: string
  ef_instance :: string
  ef_start :: nat
  ef_end :: nat

record source_origin =
  so_start :: nat
  so_end :: nat
  so_frames :: "expansion_frame list"

record token_node =
  nd_source :: "source_origin option"
  nd_name :: string
  nd_op :: string
  nd_inputs :: "nat list"
  nd_attrs :: "(string, string) btmap"

record token_graph =
  gr_name :: string
  gr_max_context :: nat
  gr_eos :: nat
  gr_nodes :: "token_node list"
  gr_output :: nat

datatype token_type =
    TensorT nat
  | QuantizedT nat
  | HyperConnectionT
  | RoutesT
  | ExpertsT nat
  | CacheT
  | IndexCacheT nat
  | IndicesT nat

definition node_fail :: "token_node \<Rightarrow> string \<Rightarrow> 'a outcome" where
  "node_fail n message = Err (invalid (nd_name n @ '' ('' @ nd_op n @ ''): '' @ message))"

definition node_check :: "token_node \<Rightarrow> bool \<Rightarrow> string \<Rightarrow> unit outcome" where
  "node_check n bad message = (if bad then node_fail n message else Ok ())"

definition attr :: "token_node \<Rightarrow> string \<Rightarrow> string option" where
  "attr n key = map_of (nd_attrs n) key"

definition the_attr :: "token_node \<Rightarrow> string \<Rightarrow> string outcome" where
  "the_attr n key = unwrap (attr n key)"

section \<open>Attributes\<close>

definition node_integer :: "token_node \<Rightarrow> string \<Rightarrow> nat outcome" where
  "node_integer n key = ok_or (Option.bind (attr n key) parse_usize) (invalid (nd_name n @ '': invalid '' @ key))"

definition cache_attributes :: "token_node \<Rightarrow> string list \<Rightarrow> string list outcome" where
  "cache_attributes n attrs = (case attr n ''cache_dtype'' of
     None \<Rightarrow> Ok attrs
   | Some dtype \<Rightarrow>
       let attrs = attrs @ [''cache_dtype''] in
       and_then (node_check n (dtype \<notin> {''bf16'', ''int8'', ''int4'', ''int8_ds_mla''}) ''unsupported cache dtype'') (\<lambda>_.
       if dtype = ''int8_ds_mla'' then
         and_then (node_check n (nd_op n \<noteq> ''cache_norm_rope_append'' \<or> attr n ''cache_scale_dtype'' \<noteq> Some ''f32'' \<or>
             attr n ''cache_quantization'' \<noteq> Some ''pertile128'' \<or> attr n ''cache_rope_dtype'' \<noteq> Some ''bf16'')
           ''packed MLA C8 requires fused normalization, pertile128 FP32 scales and BF16 rotary'') (\<lambda>_.
         Ok (attrs @ [''cache_scale_dtype'', ''cache_quantization'', ''cache_rope_dtype'']))
       else if dtype \<noteq> ''bf16'' then
         and_then (node_check n (attr n ''cache_scale_dtype'' \<noteq> Some ''f32'' \<or> attr n ''cache_quantization'' \<noteq> Some ''per_token_head_symmetric'')
           ''quantized cache requires FP32 per-token/head symmetric scales'') (\<lambda>_.
         Ok (attrs @ [''cache_scale_dtype'', ''cache_quantization'']))
       else Ok attrs))"

text \<open>\<open>str::contains\<close>.\<close>

fun contains_text :: "string \<Rightarrow> string \<Rightarrow> bool" where
  "contains_text pat [] = (pat = [])"
| "contains_text pat (c # cs) = (take (length pat) (c # cs) = pat \<or> contains_text pat cs)"

definition check_attribute :: "token_node \<Rightarrow> string \<times> string \<Rightarrow> unit outcome" where
  "check_attribute n kv =
     (let v = snd kv in
      and_then (node_check n (v = [] \<or> length v > 1024 \<or> CHR 0x00 \<in> set v \<or> NEWLINE \<in> set v) ''invalid attribute string'') (\<lambda>_.
      node_check n (fst kv = ''weight'' \<and>
          (\<not> list_all (\<lambda>c. ascii_alphabetic c \<or> ascii_digit c \<or> c \<in> set ''._{}'') v \<or> contains_text ''..'' v))
        ''invalid weight binding''))"

definition schema :: "token_node \<Rightarrow> token_type list \<Rightarrow> token_type list \<Rightarrow> string list \<Rightarrow> unit outcome" where
  "schema n inputs expected attrs =
     and_then (node_check n (inputs \<noteq> expected) ''input type/shape mismatch'') (\<lambda>_.
     and_then (node_check n (bs_of (bt_keys (nd_attrs n)) \<noteq> bs_of attrs) ''missing or unknown attributes'') (\<lambda>_.
     check_all (check_attribute n) (nd_attrs n)))"

section \<open>The type of a node\<close>

definition tensor_width :: "token_node \<Rightarrow> token_type list \<Rightarrow> nat \<Rightarrow> nat outcome" where
  "tensor_width n inputs i = (case get_at inputs i of Some (TensorT w) \<Rightarrow> Ok w | _ \<Rightarrow> node_fail n ''expected tensor'')"

definition node_width :: "token_node \<Rightarrow> nat outcome" where
  "node_width n = and_then (node_integer n ''width'') (\<lambda>w.
     and_then (node_check n (w = 0 \<or> w > 200000) ''width out of range'') (\<lambda>_. Ok w))"

text \<open>\<open>self.integer(k)? != v || ...\<close>: a later attribute is read only if the earlier ones have their value.\<close>

fun differs :: "token_node \<Rightarrow> (string \<times> nat) list \<Rightarrow> bool outcome" where
  "differs n [] = Ok False"
| "differs n ((k, v) # rest) = and_then (node_integer n k) (\<lambda>x. if x \<noteq> v then Ok True else differs n rest)"

definition or_attr :: "token_node \<Rightarrow> string \<Rightarrow> string \<Rightarrow> bool \<Rightarrow> bool outcome" where
  "or_attr n k v bad = (if bad then Ok True else and_then (the_attr n k) (\<lambda>x. Ok (x \<noteq> v)))"

definition infer_cast :: "token_node \<Rightarrow> token_type list \<Rightarrow> token_type outcome" where
  "infer_cast n inputs =
     and_then (tensor_width n inputs 0) (\<lambda>w.
     and_then (schema n inputs [TensorT w] [''dtype'']) (\<lambda>_.
     and_then (the_attr n ''dtype'') (\<lambda>dtype.
     and_then (node_check n (dtype \<notin> {''bf16'', ''f32''}) ''cast requires bf16 or f32; use quantize for integer storage'') (\<lambda>_.
     Ok (TensorT w)))))"

definition infer_quantize :: "token_node \<Rightarrow> token_type list \<Rightarrow> token_type outcome" where
  "infer_quantize n inputs =
     and_then (tensor_width n inputs 0) (\<lambda>w.
     and_then (schema n inputs [TensorT w] [''dtype'', ''scheme'', ''scale_dtype'']) (\<lambda>_.
     and_then (or_attr n ''dtype'' ''int8'' False) (\<lambda>bad.
     and_then (or_attr n ''scheme'' ''per_token_symmetric'' bad) (\<lambda>bad.
     and_then (or_attr n ''scale_dtype'' ''f32'' bad) (\<lambda>bad.
     and_then (node_check n bad ''unsupported runtime quantization contract'') (\<lambda>_.
     Ok (QuantizedT w)))))))"

definition infer_embedding :: "token_node \<Rightarrow> token_type list \<Rightarrow> token_type outcome" where
  "infer_embedding n inputs =
     and_then (schema n inputs [] [''weight'', ''width'', ''vocab'']) (\<lambda>_.
     and_then (node_integer n ''vocab'') (\<lambda>vocab.
     and_then (if vocab \<noteq> 151552 then Ok True else and_then (node_width n) (\<lambda>w. Ok (w \<noteq> 2560))) (\<lambda>bad.
     and_then (node_check n bad ''unsupported embedding specialization'') (\<lambda>_.
     and_then (node_width n) (\<lambda>w. Ok (TensorT w))))))"

definition infer_repeat :: "token_node \<Rightarrow> token_type list \<Rightarrow> token_type outcome" where
  "infer_repeat n inputs =
     and_then (tensor_width n inputs 0) (\<lambda>w.
     and_then (schema n inputs [TensorT w] [''count'']) (\<lambda>_.
     and_then (node_integer n ''count'') (\<lambda>c.
     and_then (node_check n (c = 0 \<or> c > 16) ''repeat count'') (\<lambda>_.
     Ok (TensorT (w * c))))))"

definition infer_mhc :: "token_node \<Rightarrow> token_type list \<Rightarrow> token_type outcome" where
  "infer_mhc n inputs =
     and_then (schema n inputs [TensorT 10240] [''weight'', ''streams'', ''sinkhorn'', ''eps'']) (\<lambda>_.
     and_then (differs n [(''streams'', 4), (''sinkhorn'', 20)]) (\<lambda>bad.
     and_then (or_attr n ''eps'' ''1e-6'' bad) (\<lambda>bad.
     and_then (node_check n bad ''unsupported mHC specialization'') (\<lambda>_.
     Ok HyperConnectionT))))"

definition infer_norm :: "token_node \<Rightarrow> token_type list \<Rightarrow> token_type outcome" where
  "infer_norm n inputs =
     and_then (tensor_width n inputs 0) (\<lambda>w.
     and_then (schema n inputs [TensorT w] [''weight'', ''eps'']) (\<lambda>_.
     and_then (the_attr n ''eps'') (\<lambda>eps.
     and_then (node_check n (eps \<noteq> ''1e-5'') ''unsupported RMSNorm epsilon'') (\<lambda>_.
     Ok (TensorT w)))))"

definition infer_linear :: "token_node \<Rightarrow> token_type list \<Rightarrow> token_type outcome" where
  "infer_linear n inputs =
     and_then (case get_at inputs 0 of Some (QuantizedT w) \<Rightarrow> Ok w | _ \<Rightarrow> tensor_width n inputs 0) (\<lambda>w.
     let quantized = (case get_at inputs 0 of Some (QuantizedT _) \<Rightarrow> True | _ \<Rightarrow> False) in
     and_then (node_width n) (\<lambda>output.
     and_then (if attr n ''paired_weight'' \<noteq> None then
         and_then (node_check n quantized ''paired BF16 projection cannot consume quantized input'') (\<lambda>_.
         and_then (node_integer n ''paired_width'') (\<lambda>paired.
         and_then (node_check n (paired = 0 \<or> paired > 200000 - output \<or> attr n ''placement'' \<noteq> Some ''replicated'')
           ''paired projection requires bounded widths and replicated placement'') (\<lambda>_.
         Ok ([''weight'', ''width'', ''placement'', ''paired_weight'', ''paired_width''], output + paired))))
       else Ok ([''weight'', ''width'', ''placement''], output)) (\<lambda>(attrs, output).
     and_then (schema n inputs [if quantized then QuantizedT w else TensorT w] attrs) (\<lambda>_.
     and_then (the_attr n ''placement'') (\<lambda>placement.
     and_then (node_check n (placement \<notin> {''tp_rows'', ''tp_columns'', ''replicated''}) ''unknown linear placement'') (\<lambda>_.
     Ok (TensorT output)))))))"

definition infer_allreduce :: "token_node \<Rightarrow> token_type list \<Rightarrow> token_type outcome" where
  "infer_allreduce n inputs =
     and_then (tensor_width n inputs 0) (\<lambda>w.
     and_then (case attr n ''dtype'' of
         Some dtype \<Rightarrow> and_then (node_check n (dtype \<notin> {''f32'', ''bf16''}) ''unsupported collective dtype'') (\<lambda>_. Ok [''dtype''])
       | None \<Rightarrow> Ok []) (\<lambda>attrs.
     and_then (schema n inputs [TensorT w] attrs) (\<lambda>_. Ok (TensorT w))))"

definition infer_mome :: "token_node \<Rightarrow> token_type list \<Rightarrow> token_type outcome" where
  "infer_mome n inputs =
     and_then (tensor_width n inputs 0) (\<lambda>w.
     and_then (case attr n ''placement'' of
         Some placement \<Rightarrow> and_then (node_check n (placement \<notin> {''replicated'', ''tp_channels''}) ''unsupported convolution placement'') (\<lambda>_.
           Ok [''weight'', ''taps'', ''placement''])
       | None \<Rightarrow> Ok [''weight'', ''taps'']) (\<lambda>attrs.
     and_then (schema n inputs [TensorT w] attrs) (\<lambda>_.
     and_then (differs n [(''taps'', 3)]) (\<lambda>bad.
     and_then (node_check n bad ''unsupported convolution taps'') (\<lambda>_. Ok (TensorT w))))))"

definition infer_slice :: "token_node \<Rightarrow> token_type list \<Rightarrow> token_type outcome" where
  "infer_slice n inputs =
     and_then (tensor_width n inputs 0) (\<lambda>w.
     and_then (schema n inputs [TensorT w] [''start'', ''width'']) (\<lambda>_.
     and_then (node_integer n ''start'') (\<lambda>a.
     and_then (node_width n) (\<lambda>b.
     and_then (node_check n (case checked_add 64 a b of None \<Rightarrow> True | Some m \<Rightarrow> m > w) ''slice bounds'') (\<lambda>_.
     Ok (TensorT b))))))"

definition infer_rotary_prefix :: "token_node \<Rightarrow> token_type list \<Rightarrow> token_type outcome" where
  "infer_rotary_prefix n inputs =
     and_then (node_integer n ''heads'') (\<lambda>heads.
     and_then (node_integer n ''head_dim'') (\<lambda>head_dim.
     and_then (node_integer n ''rotary_dim'') (\<lambda>rotary_dim.
     and_then (node_check n (heads = 0 \<or> heads > 64 \<or> head_dim \<le> rotary_dim \<or> head_dim > 512 \<or> rotary_dim \<noteq> 64)
       ''unsupported rotary prefix shape'') (\<lambda>_.
     and_then (schema n inputs [TensorT (heads * head_dim)] [''heads'', ''head_dim'', ''rotary_dim'', ''theta'']) (\<lambda>_.
     and_then (differs n [(''theta'', 6400000)]) (\<lambda>bad.
     and_then (node_check n bad ''unsupported rotary theta'') (\<lambda>_.
     Ok (TensorT (heads * head_dim)))))))))"

definition infer_rope :: "token_node \<Rightarrow> token_type list \<Rightarrow> token_type outcome" where
  "infer_rope n inputs =
     and_then (schema n inputs [TensorT 64] [''theta'']) (\<lambda>_.
     and_then (or_attr n ''theta'' ''6400000'' False) (\<lambda>bad.
     and_then (node_check n bad ''unsupported RoPE specialization'') (\<lambda>_.
     Ok (TensorT 64))))"

definition infer_concat :: "token_node \<Rightarrow> token_type list \<Rightarrow> token_type outcome" where
  "infer_concat n inputs =
     and_then (tensor_width n inputs 0) (\<lambda>a.
     and_then (tensor_width n inputs 1) (\<lambda>b.
     and_then (schema n inputs [TensorT a, TensorT b] []) (\<lambda>_.
     Ok (TensorT (a + b)))))"

definition infer_mla_query :: "token_node \<Rightarrow> token_type list \<Rightarrow> token_type outcome" where
  "infer_mla_query n inputs =
     (let attrs = [''weight'', ''theta'', ''heads'', ''nope'', ''rope'', ''latent''] in
      and_then (case attr n ''rotary_dtype'' of
          Some dtype \<Rightarrow>
            and_then (node_check n (dtype \<notin> {''bf16'', ''f32''} \<or> dtype = ''bf16'' \<and> attr n ''input_layout'' \<noteq> Some ''rank_local'')
              ''BF16 query rotary requires rank-local input; rotary dtype must be bf16 or f32'') (\<lambda>_. Ok (attrs @ [''rotary_dtype'']))
        | None \<Rightarrow> Ok attrs) (\<lambda>attrs.
      and_then (case attr n ''input_layout'' of
          Some layout \<Rightarrow>
            if layout = ''rank_local'' then Ok (attrs @ [''input_layout''], 1152)
            else if layout = ''replicated'' then Ok (attrs @ [''input_layout''], 9216)
            else node_fail n ''unsupported query input layout''
        | None \<Rightarrow> Ok (attrs, 9216)) (\<lambda>(attrs, width).
      and_then (schema n inputs [TensorT width] attrs) (\<lambda>_.
      and_then (check_all (\<lambda>(k, v). and_then (node_integer n k) (\<lambda>x. node_check n (x \<noteq> v) ''unsupported query absorption specialization''))
          [(''theta'', 6400000), (''heads'', 48), (''nope'', 128), (''rope'', 64), (''latent'', 512)]) (\<lambda>_.
      Ok (TensorT 3456))))))"

definition infer_sink_normalize :: "token_node \<Rightarrow> token_type list \<Rightarrow> token_type outcome" where
  "infer_sink_normalize n inputs =
     and_then (schema n inputs [] [''weight'', ''norm'', ''count'', ''latent'', ''rope'', ''eps'']) (\<lambda>_.
     and_then (differs n [(''count'', 128), (''latent'', 512), (''rope'', 64)]) (\<lambda>bad.
     and_then (or_attr n ''eps'' ''1e-5'' bad) (\<lambda>bad.
     and_then (node_check n bad ''unsupported sink specialization'') (\<lambda>_.
     Ok (TensorT 73728)))))"

definition infer_cache_append :: "token_node \<Rightarrow> token_type list \<Rightarrow> token_type outcome" where
  "infer_cache_append n inputs =
     and_then (cache_attributes n []) (\<lambda>attrs.
     and_then (schema n inputs [TensorT 576, TensorT 73728] attrs) (\<lambda>_. Ok CacheT))"

definition infer_cache_norm_rope_append :: "token_node \<Rightarrow> token_type list \<Rightarrow> token_type outcome" where
  "infer_cache_norm_rope_append n inputs =
     and_then (cache_attributes n [''weight'', ''eps'', ''theta'']) (\<lambda>attrs.
     and_then (schema n inputs [TensorT 512, TensorT 64, TensorT 73728] attrs) (\<lambda>_.
     and_then (or_attr n ''eps'' ''1e-5'' False) (\<lambda>bad.
     and_then (if bad then Ok True else differs n [(''theta'', 6400000)]) (\<lambda>bad.
     and_then (node_check n bad ''unsupported fused cache normalization/rotary contract'') (\<lambda>_.
     Ok CacheT)))))"

definition infer_index_cache_append :: "token_node \<Rightarrow> token_type list \<Rightarrow> token_type outcome" where
  "infer_index_cache_append n inputs =
     and_then (node_width n) (\<lambda>width.
     and_then (schema n inputs [TensorT width] ([''width'', ''page_tokens''] @ (if attr n ''cache_dtype'' \<noteq> None then [''cache_dtype''] else []))) (\<lambda>_.
     and_then (node_check n (case attr n ''cache_dtype'' of None \<Rightarrow> False | Some v \<Rightarrow> v \<noteq> ''int8'' \<and> v \<noteq> ''bf16'') ''unsupported index-cache dtype'') (\<lambda>_.
     and_then (if width \<noteq> 128 then Ok True else differs n [(''page_tokens'', 64)]) (\<lambda>bad.
     and_then (node_check n bad ''unsupported index-cache storage'') (\<lambda>_.
     Ok (IndexCacheT width))))))"

definition infer_sparse_index :: "token_node \<Rightarrow> token_type list \<Rightarrow> token_type outcome" where
  "infer_sparse_index n inputs =
     and_then (schema n inputs [TensorT (24 * 128), TensorT 24, IndexCacheT 128] [''heads'', ''head_dim'', ''topk'', ''scoring'']) (\<lambda>_.
     and_then (differs n [(''heads'', 24), (''head_dim'', 128), (''topk'', 2048)]) (\<lambda>bad.
     and_then (or_attr n ''scoring'' ''weighted_relu'' bad) (\<lambda>bad.
     and_then (node_check n bad ''unsupported sparse index contract'') (\<lambda>_.
     Ok (IndicesT 2048)))))"

definition learned_selection :: "token_node \<Rightarrow> bool" where
  "learned_selection n \<longleftrightarrow> attr n ''selection'' = Some ''learned_indices''"

definition infer_latent_attention :: "token_node \<Rightarrow> token_type list \<Rightarrow> token_type outcome" where
  "infer_latent_attention n inputs =
     (let learned = learned_selection n in
      and_then (schema n inputs (if learned then [TensorT 3456, CacheT, IndicesT 2048] else [TensorT 3456, CacheT]) [''scale_dim'', ''window'', ''selection'']) (\<lambda>_.
      and_then (differs n [(''scale_dim'', 192)]) (\<lambda>bad.
      and_then (if bad then Ok True else and_then (node_integer n ''window'') (\<lambda>w. Ok (w \<notin> {512, 2048}))) (\<lambda>bad.
      and_then (if bad then Ok True else if learned then Ok False else or_attr n ''selection'' ''all_causal_within_window'' False) (\<lambda>bad.
      and_then (if bad then Ok True else if \<not> learned then Ok False else differs n [(''window'', 2048)]) (\<lambda>bad.
      and_then (node_check n bad ''unsupported attention semantics'') (\<lambda>_.
      Ok (TensorT 3072))))))))"

definition infer_mla_value :: "token_node \<Rightarrow> token_type list \<Rightarrow> token_type outcome" where
  "infer_mla_value n inputs =
     and_then (schema n inputs [TensorT 3072] [''weight'', ''heads'', ''latent'', ''value'']) (\<lambda>_.
     and_then (differs n [(''heads'', 48), (''latent'', 512), (''value'', 128)]) (\<lambda>bad.
     and_then (node_check n bad ''unsupported value expansion specialization'') (\<lambda>_.
     Ok (TensorT 768))))"

definition infer_swiglu :: "token_node \<Rightarrow> token_type list \<Rightarrow> token_type outcome" where
  "infer_swiglu n inputs =
     and_then (tensor_width n inputs 0) (\<lambda>w.
     if length inputs = 1 then
       and_then (schema n inputs [TensorT w] []) (\<lambda>_.
       and_then (node_check n (w = 0 \<or> w mod 2 \<noteq> 0) ''packed SwiGLU needs equal halves'') (\<lambda>_.
       Ok (TensorT (w div 2))))
     else and_then (schema n inputs [TensorT w, TensorT w] []) (\<lambda>_. Ok (TensorT w)))"

definition infer_router :: "token_node \<Rightarrow> token_type list \<Rightarrow> token_type outcome" where
  "infer_router n inputs =
     and_then (schema n inputs [TensorT 2560] [''weight'', ''experts'', ''topk'', ''scoring'', ''scale'']) (\<lambda>_.
     and_then (differs n [(''experts'', 256), (''topk'', 8)]) (\<lambda>bad.
     and_then (or_attr n ''scoring'' ''sigmoid_bias_group_topk'' bad) (\<lambda>bad.
     and_then (or_attr n ''scale'' ''2.5'' bad) (\<lambda>bad.
     and_then (node_check n bad ''unsupported router specialization'') (\<lambda>_.
     Ok RoutesT)))))"

definition expert_binding :: "token_node \<Rightarrow> nat \<Rightarrow> bool outcome" where
  "expert_binding n width =
     and_then (node_width n) (\<lambda>w.
     if w \<noteq> width then Ok True
     else and_then (the_attr n ''weight'') (\<lambda>weight. Ok (\<not> contains_text ''{expert}'' weight)))"

definition infer_expert_linear :: "token_node \<Rightarrow> token_type list \<Rightarrow> token_type outcome" where
  "infer_expert_linear n inputs =
     and_then (case attr n ''paired_weight'' of
         Some weight \<Rightarrow> and_then (node_check n (\<not> contains_text ''{expert}'' weight) ''paired expert binding'') (\<lambda>_.
           Ok [''weight'', ''width'', ''paired_weight''])
       | None \<Rightarrow> Ok [''weight'', ''width'']) (\<lambda>attrs.
     and_then (schema n inputs [TensorT 2560, RoutesT] attrs) (\<lambda>_.
     and_then (expert_binding n 1024) (\<lambda>bad.
     and_then (node_check n bad ''expert projection specialization/binding'') (\<lambda>_.
     Ok (ExpertsT (if attr n ''paired_weight'' \<noteq> None then 2048 else 1024))))))"

definition infer_expert_swiglu_down :: "token_node \<Rightarrow> token_type list \<Rightarrow> token_type outcome" where
  "infer_expert_swiglu_down n inputs =
     and_then (schema n inputs (if length inputs = 2 then [ExpertsT 2048, RoutesT] else [ExpertsT 1024, ExpertsT 1024, RoutesT])
         [''weight'', ''width'']) (\<lambda>_.
     and_then (expert_binding n 2560) (\<lambda>bad.
     and_then (node_check n bad ''expert down specialization/binding'') (\<lambda>_.
     Ok (ExpertsT 2560))))"

text \<open>\<open>Node::infer\<close>; the small arms stand here.\<close>

definition infer_gather :: "token_node \<Rightarrow> token_type list \<Rightarrow> token_type outcome" where
  "infer_gather n inputs =
     and_then (tensor_width n inputs 0) (\<lambda>w. and_then (schema n inputs [TensorT w] []) (\<lambda>_. Ok (TensorT (w * 8))))"

definition infer_add :: "token_node \<Rightarrow> token_type list \<Rightarrow> token_type outcome" where
  "infer_add n inputs =
     and_then (tensor_width n inputs 0) (\<lambda>w. and_then (schema n inputs [TensorT w, TensorT w] []) (\<lambda>_. Ok (TensorT w)))"

definition infer :: "token_node \<Rightarrow> token_type list \<Rightarrow> token_type outcome" where
  "infer n inputs =
     (if nd_op n = ''cast'' then infer_cast n inputs
      else if nd_op n = ''quantize'' then infer_quantize n inputs
      else if nd_op n = ''embedding'' then infer_embedding n inputs
      else if nd_op n = ''repeat'' then infer_repeat n inputs
      else if nd_op n = ''mhc_pre'' \<or> nd_op n = ''mhc_merge'' then infer_mhc n inputs
      else if nd_op n = ''mhc_input'' then and_then (schema n inputs [HyperConnectionT] []) (\<lambda>_. Ok (TensorT 2560))
      else if nd_op n = ''mhc_post'' then and_then (schema n inputs [HyperConnectionT, TensorT 2560] []) (\<lambda>_. Ok (TensorT 10240))
      else if nd_op n = ''norm'' \<or> nd_op n = ''optional_norm'' then infer_norm n inputs
      else if nd_op n = ''linear'' then infer_linear n inputs
      else if nd_op n = ''gather'' then infer_gather n inputs
      else if nd_op n = ''allreduce'' then infer_allreduce n inputs
      else if nd_op n = ''mome'' then infer_mome n inputs
      else if nd_op n = ''slice'' then infer_slice n inputs
      else if nd_op n = ''rotary_prefix'' then infer_rotary_prefix n inputs
      else if nd_op n = ''rope'' then infer_rope n inputs
      else if nd_op n = ''concat'' then infer_concat n inputs
      else if nd_op n = ''mla_query'' then infer_mla_query n inputs
      else if nd_op n = ''sink_normalize'' then infer_sink_normalize n inputs
      else if nd_op n = ''cache_append'' then infer_cache_append n inputs
      else if nd_op n = ''cache_norm_rope_append'' then infer_cache_norm_rope_append n inputs
      else if nd_op n = ''index_cache_append'' then infer_index_cache_append n inputs
      else if nd_op n = ''sparse_index'' then infer_sparse_index n inputs
      else if nd_op n = ''latent_attention'' then infer_latent_attention n inputs
      else if nd_op n = ''mla_value'' then infer_mla_value n inputs
      else if nd_op n = ''swiglu'' then infer_swiglu n inputs
      else if nd_op n = ''router'' then infer_router n inputs
      else if nd_op n = ''expert_linear'' then infer_expert_linear n inputs
      else if nd_op n = ''expert_swiglu_down'' then infer_expert_swiglu_down n inputs
      else if nd_op n = ''expert_reduce'' then and_then (schema n inputs [ExpertsT 2560, RoutesT] []) (\<lambda>_. Ok (TensorT 2560))
      else if nd_op n = ''add'' then infer_add n inputs
      else node_fail n ''unknown operation'')"

section \<open>The validation of a graph\<close>

record graph_typing =
  ck_types :: "token_type list"
  ck_names :: "string btset"

text \<open>The rules about the node before and the attention over a long context.\<close>

definition check_context :: "token_graph \<Rightarrow> token_node \<Rightarrow> unit outcome" where
  "check_context g n =
     (if nd_op n = ''latent_attention'' \<and> gr_max_context g > 512 then
        and_then (index_at (nd_inputs n) 1) (\<lambda>j.
        and_then (index_at (gr_nodes g) j) (\<lambda>cache.
        let dtype = (case attr cache ''cache_dtype'' of None \<Rightarrow> ''bf16'' | Some d \<Rightarrow> d) in
        and_then (if dtype = ''bf16'' then Ok False else if dtype \<noteq> ''int8_ds_mla'' then Ok True else or_attr n ''selection'' ''learned_indices'' False) (\<lambda>bad.
        node_check n bad ''long context requires paged BF16 windows or learned-index packed C8'')))
      else Ok ())"

definition check_routes :: "token_graph \<Rightarrow> token_node \<Rightarrow> unit outcome" where
  "check_routes g n =
     (if nd_op n = ''expert_swiglu_down'' then
        and_then (unwrap (if nd_inputs n = [] then None else Some (last (nd_inputs n)))) (\<lambda>routes.
        check_all (\<lambda>j.
          and_then (index_at (gr_nodes g) j) (\<lambda>source.
          and_then (if nd_op source \<noteq> ''expert_linear'' then Ok True else and_then (index_at (nd_inputs source) 1) (\<lambda>r. Ok (r \<noteq> routes))) (\<lambda>bad.
          node_check n bad ''expert route provenance mismatch''))) (butlast (nd_inputs n)))
      else Ok ())"

definition check_reduce :: "token_graph \<Rightarrow> token_node \<Rightarrow> unit outcome" where
  "check_reduce g n =
     (if nd_op n = ''expert_reduce'' then
        and_then (index_at (nd_inputs n) 0) (\<lambda>j.
        and_then (index_at (gr_nodes g) j) (\<lambda>source.
        and_then (if nd_op source \<noteq> ''expert_swiglu_down'' then Ok True
            else and_then (index_at (nd_inputs n) 1) (\<lambda>r. Ok (nd_inputs source = [] \<or> last (nd_inputs source) \<noteq> r))) (\<lambda>bad.
        node_check n bad ''expert route provenance mismatch'')))
      else Ok ())"

definition check_node :: "token_graph \<Rightarrow> nat \<times> token_node \<Rightarrow> graph_typing \<Rightarrow> graph_typing outcome" where
  "check_node g inode s =
     (let i = fst inode; n = snd inode in
      and_then (node_check n (nd_name n = [] \<or> length (nd_name n) > 1024 \<or> nd_name n \<in> set (ck_names s) \<or> (\<exists>j \<in> set (nd_inputs n). j \<ge> i))
        ''duplicate name or non-topological dependency'') (\<lambda>_.
      and_then (collect (index_at (ck_types s)) (nd_inputs n)) (\<lambda>inputs.
      and_then (infer n inputs) (\<lambda>t.
      and_then (node_check n (case t of TensorT w \<Rightarrow> w > 200000 | _ \<Rightarrow> False) ''tensor width bound'') (\<lambda>_.
      and_then (check_context g n) (\<lambda>_.
      and_then (check_routes g n) (\<lambda>_.
      and_then (check_reduce g n) (\<lambda>_.
      Ok \<lparr>ck_types = ck_types s @ [t], ck_names = bs_insert (nd_name n) (ck_names s)\<rparr>))))))))"

definition mark_live :: "token_graph \<Rightarrow> nat \<Rightarrow> nat btset \<Rightarrow> nat btset" where
  "mark_live g i live = (if i \<in> set live then bs_extend (nd_inputs (gr_nodes g ! i)) live else live)"

definition live_ids :: "token_graph \<Rightarrow> nat btset" where
  "live_ids g = fold (mark_live g) (rev [0..<length (gr_nodes g)]) [gr_output g]"

definition uses_of :: "token_graph \<Rightarrow> nat \<Rightarrow> token_node list" where
  "uses_of g i = filter (\<lambda>n. i \<in> set (nd_inputs n)) (gr_nodes g)"

definition check_uses :: "token_graph \<Rightarrow> nat \<times> token_type \<Rightarrow> unit outcome" where
  "check_uses g it =
     (let i = fst it; t = snd it; uses = uses_of g i in
      and_then (reject (t = CacheT \<and> (length uses \<noteq> 1 \<or> nd_op (uses ! 0) \<noteq> ''latent_attention'')) (invalid ''cache handle must feed exactly one attention'')) (\<lambda>_.
      and_then (reject ((case t of IndexCacheT _ \<Rightarrow> True | _ \<Rightarrow> False) \<and> (length uses \<noteq> 1 \<or> nd_op (uses ! 0) \<noteq> ''sparse_index''))
        (invalid ''index cache must feed exactly one selector'')) (\<lambda>_.
      and_then (reject ((case t of IndicesT _ \<Rightarrow> True | _ \<Rightarrow> False) \<and> (\<exists>n \<in> set uses. nd_op n \<noteq> ''latent_attention'' \<or> \<not> learned_selection n))
        (invalid ''selected indices require explicit learned attention consumers'')) (\<lambda>_.
      if t = HyperConnectionT then
        and_then (index_at (gr_nodes g) i) (\<lambda>n.
        reject (length (filter (\<lambda>n. nd_op n = ''mhc_input'') uses) \<noteq> 1 \<or>
            length (filter (\<lambda>n. nd_op n = ''mhc_post'') uses) \<noteq> (if nd_op n = ''mhc_pre'' then 1 else 0))
          (invalid ''unpaired hyper-connection state''))
      else Ok ()))))"

definition validate_graph :: "token_graph \<Rightarrow> token_type list outcome" where
  "validate_graph g =
     and_then (reject (gr_nodes g = [] \<or> length (gr_nodes g) > 10000 \<or> gr_max_context g = 0 \<or> gr_max_context g > 65536 \<or>
         gr_eos g \<ge> 151552 \<or> gr_name g = [] \<or> length (gr_name g) > 1024) (invalid ''token graph bounds'')) (\<lambda>_.
     and_then (fold_out (check_node g) (zip [0..<length (gr_nodes g)] (gr_nodes g)) \<lparr>ck_types = [], ck_names = []\<rparr>) (\<lambda>s.
     and_then (reject (get_at (ck_types s) (gr_output g) \<noteq> Some (TensorT 151552)) (invalid ''output must be vocabulary logits'')) (\<lambda>_.
     and_then (reject (length (live_ids g) \<noteq> length (gr_nodes g)) (invalid ''unreachable node/state effect in token graph'')) (\<lambda>_.
     and_then (check_all (check_uses g) (zip [0..<length (ck_types s)] (ck_types s))) (\<lambda>_.
     Ok (ck_types s))))))"

section \<open>The binary form\<close>

definition le_u32 :: "nat \<Rightarrow> nat list" where
  "le_u32 n = map (\<lambda>i. n div 256 ^ i mod 256) [0..<4]"

definition text_bytes :: "string \<Rightarrow> nat list" where
  "text_bytes s = map of_char s"

definition counted :: "string \<Rightarrow> nat list" where
  "counted s = le_u32 (length s) @ text_bytes s"

definition type_tag :: "token_type \<Rightarrow> (nat \<times> nat) outcome" where
  "type_tag t = (case t of
     TensorT w \<Rightarrow> Ok (0, w)
   | HyperConnectionT \<Rightarrow> Ok (1, 0)
   | RoutesT \<Rightarrow> Ok (2, 0)
   | ExpertsT w \<Rightarrow> Ok (3, w)
   | CacheT \<Rightarrow> Ok (4, 0)
   | _ \<Rightarrow> Err (invalid ''typed storage values require physical program encoding''))"

definition encode_node :: "token_node \<times> token_type \<Rightarrow> nat list outcome" where
  "encode_node nt =
     (let n = fst nt in
      and_then (type_tag (snd nt)) (\<lambda>(tag, width).
      Ok (le_u32 tag @ le_u32 width @ counted (nd_name n) @ counted (nd_op n) @
          le_u32 (length (nd_inputs n)) @ concat (map le_u32 (nd_inputs n)) @
          le_u32 (length (nd_attrs n)) @ concat (map (\<lambda>(k, v). counted k @ counted v) (nd_attrs n)))))"

definition encode_graph :: "token_graph \<Rightarrow> nat list outcome" where
  "encode_graph g =
     and_then (validate_graph g) (\<lambda>types.
     and_then (collect encode_node (zip (gr_nodes g) types)) (\<lambda>parts.
     Ok (text_bytes ''IFTOKN01'' @ le_u32 (gr_max_context g) @ le_u32 (gr_eos g) @ le_u32 (gr_output g) @
         le_u32 (length (gr_nodes g)) @ concat parts)))"

end
