(* ===== verification/Token_Graph_Thms.thy ===== *)
theory Token_Graph_Thms
  imports Token_Graph
begin

text \<open>
  Validation of a token graph never panics, since every attribute it indexes is among those the schema has checked and every
  input among those the types have checked; what it accepts is a well-typed acyclic graph in which every node
  contributes to the output and every mutable handle has its one consumer.
\<close>

section \<open>Nodes\<close>

lemma node_check_iffs [outcome_simps]:
  "node_check n b m = Ok u \<longleftrightarrow> \<not> b" "node_check n b m = Panic \<longleftrightarrow> False"
  by (auto simp: node_check_def node_fail_def)

lemma node_fail_iffs [outcome_simps]: "node_fail n m = Ok x \<longleftrightarrow> False" "node_fail n m = Panic \<longleftrightarrow> False"
  by (simp_all add: node_fail_def)

lemma the_attr_iffs [outcome_simps]:
  "the_attr n k = Ok v \<longleftrightarrow> attr n k = Some v" "the_attr n k = Panic \<longleftrightarrow> k \<notin> set (bt_keys (nd_attrs n))"
  by (auto simp: the_attr_def attr_def outcome_simps map_of_eq_None_iff)

lemma schema_Ok:
  assumes "schema n inputs expected attrs = Ok u"
  shows "inputs = expected \<and> set (bt_keys (nd_attrs n)) = set attrs"
proof -
  have "inputs = expected" "bs_of (bt_keys (nd_attrs n)) = bs_of attrs"
    using assms by (simp_all add: schema_def outcome_simps)
  then show ?thesis by (metis set_bs_of)
qed

lemma schema_no_panic [outcome_simps]: "schema n inputs expected attrs = Panic \<longleftrightarrow> False"
proof -
  have "check_all (check_attribute n) (nd_attrs n) \<noteq> Panic"
    by (rule check_all_no_panic) (auto simp: check_attribute_def Let_def outcome_simps)
  then show ?thesis by (auto simp: schema_def outcome_simps)
qed

lemma integer_no_panic [outcome_simps]: "node_integer n k = Panic \<longleftrightarrow> False"
  by (auto simp: node_integer_def outcome_simps)

lemma width_no_panic [outcome_simps]: "node_width n = Panic \<longleftrightarrow> False"
  by (auto simp: node_width_def outcome_simps)

lemma tensor_width_iffs [outcome_simps]:
  "tensor_width n inputs i = Panic \<longleftrightarrow> False" "tensor_width n inputs i = Ok w \<longleftrightarrow> get_at inputs i = Some (TensorT w)"
  by (auto simp: tensor_width_def outcome_simps split: option.split token_type.split)

lemma differs_no_panic [outcome_simps]: "differs n kvs = Panic \<longleftrightarrow> False"
  by (induction n kvs rule: differs.induct) (auto simp: outcome_simps)

lemma or_attr_panic: "or_attr n k v bad = Panic \<longleftrightarrow> \<not> bad \<and> k \<notin> set (bt_keys (nd_attrs n))"
  by (auto simp: or_attr_def outcome_simps)

lemma cache_attributes_no_panic [outcome_simps]: "cache_attributes n attrs = Panic \<longleftrightarrow> False"
  by (auto simp: cache_attributes_def outcome_simps Let_def split: option.split)

lemma cache_attributes_keep: "cache_attributes n attrs = Ok attrs' \<Longrightarrow> set attrs \<subseteq> set attrs'"
  by (auto simp: cache_attributes_def outcome_simps Let_def split: option.splits if_splits)

lemmas infer_panics = outcome_simps or_attr_panic

lemma infer_arms_no_panic:
  "infer_cast n ts \<noteq> Panic" "infer_quantize n ts \<noteq> Panic" "infer_embedding n ts \<noteq> Panic" "infer_repeat n ts \<noteq> Panic"
  "infer_mhc n ts \<noteq> Panic" "infer_norm n ts \<noteq> Panic" "infer_gather n ts \<noteq> Panic" "infer_add n ts \<noteq> Panic"
  "infer_slice n ts \<noteq> Panic" "infer_rotary_prefix n ts \<noteq> Panic" "infer_rope n ts \<noteq> Panic" "infer_concat n ts \<noteq> Panic"
  "infer_sink_normalize n ts \<noteq> Panic" "infer_cache_append n ts \<noteq> Panic" "infer_sparse_index n ts \<noteq> Panic"
  "infer_mla_value n ts \<noteq> Panic" "infer_swiglu n ts \<noteq> Panic" "infer_router n ts \<noteq> Panic"
  by (auto simp: infer_cast_def infer_quantize_def infer_embedding_def infer_repeat_def infer_mhc_def infer_norm_def infer_gather_def infer_add_def
      infer_slice_def infer_rotary_prefix_def infer_rope_def infer_concat_def infer_sink_normalize_def infer_cache_append_def infer_sparse_index_def
      infer_mla_value_def infer_swiglu_def infer_router_def infer_panics split: if_splits dest!: schema_Ok)

lemma infer_linear_no_panic: "infer_linear n ts \<noteq> Panic"
  by (auto simp: infer_linear_def infer_panics Let_def split: if_splits option.splits token_type.splits dest!: schema_Ok)

lemma infer_optional_no_panic: "infer_allreduce n ts \<noteq> Panic" "infer_mome n ts \<noteq> Panic"
  by (auto simp: infer_allreduce_def infer_mome_def infer_panics split: option.splits)

lemma infer_mla_query_no_panic: "infer_mla_query n ts \<noteq> Panic"
proof -
  have "check_all (\<lambda>(k, v). and_then (node_integer n k) (\<lambda>x. node_check n (x \<noteq> v) m)) kvs \<noteq> Panic" for kvs m
    by (rule check_all_no_panic) (auto simp: infer_panics)
  then show ?thesis by (auto simp: infer_mla_query_def infer_panics Let_def split: option.splits if_splits)
qed

lemma infer_cache_norm_no_panic: "infer_cache_norm_rope_append n ts \<noteq> Panic"
  using cache_attributes_keep [of n "[''weight'', ''eps'', ''theta'']"]
  by (auto simp: infer_cache_norm_rope_append_def infer_panics split: if_splits dest!: schema_Ok)

lemma infer_index_no_panic: "infer_index_cache_append n ts \<noteq> Panic"
  by (auto simp: infer_index_cache_append_def infer_panics split: if_splits)

lemma infer_attention_no_panic: "infer_latent_attention n ts \<noteq> Panic"
  by (auto simp: infer_latent_attention_def infer_panics Let_def split: if_splits dest!: schema_Ok)

lemma infer_expert_no_panic: "infer_expert_linear n ts \<noteq> Panic" "infer_expert_swiglu_down n ts \<noteq> Panic"
  by (auto simp: infer_expert_linear_def infer_expert_swiglu_down_def expert_binding_def infer_panics split: if_splits option.splits dest!: schema_Ok)

lemma infer_no_panic: "infer n ts \<noteq> Panic"
  unfolding infer_def
  using infer_arms_no_panic infer_linear_no_panic infer_optional_no_panic infer_mla_query_no_panic infer_cache_norm_no_panic infer_index_no_panic
    infer_attention_no_panic infer_expert_no_panic
  by (auto simp: outcome_simps)

text \<open>The number of inputs of the operations whose inputs the validation indexes.\<close>

lemma infer_inputs:
  "infer n ts = Ok t \<Longrightarrow> nd_op n = ''latent_attention'' \<Longrightarrow> 2 \<le> length ts"
  "infer n ts = Ok t \<Longrightarrow> nd_op n = ''expert_linear'' \<Longrightarrow> length ts = 2"
  "infer n ts = Ok t \<Longrightarrow> nd_op n = ''expert_swiglu_down'' \<Longrightarrow> 2 \<le> length ts"
  "infer n ts = Ok t \<Longrightarrow> nd_op n = ''expert_reduce'' \<Longrightarrow> length ts = 2"
  by (auto simp: infer_def infer_latent_attention_def infer_expert_linear_def infer_expert_swiglu_down_def outcome_simps Let_def
      split: if_splits dest!: schema_Ok)

section \<open>The loop over the nodes\<close>

text \<open>What holds of the first \<open>k\<close> nodes once they are checked.\<close>

definition node_ok :: "token_graph \<Rightarrow> token_type list \<Rightarrow> nat \<Rightarrow> bool" where
  "node_ok g ts i \<longleftrightarrow> (let n = gr_nodes g ! i in
     nd_name n \<noteq> [] \<and> length (nd_name n) \<le> 1024 \<and> (\<forall>j \<in> set (nd_inputs n). j < i) \<and>
     infer n (map ((!) ts) (nd_inputs n)) = Ok (ts ! i) \<and> (\<forall>w. ts ! i = TensorT w \<longrightarrow> w \<le> 200000) \<and>
     check_context g n = Ok () \<and> check_routes g n = Ok () \<and> check_reduce g n = Ok ())"

definition typing_inv :: "token_graph \<Rightarrow> nat \<Rightarrow> graph_typing \<Rightarrow> bool" where
  "typing_inv g k s \<longleftrightarrow> length (ck_types s) = k \<and> set (ck_names s) = nd_name ` set (take k (gr_nodes g)) \<and>
     distinct (map nd_name (take k (gr_nodes g))) \<and> (\<forall>i < k. node_ok g (ck_types s) i)"

lemma node_ok_inputs:
  assumes "node_ok g ts i"
  shows "nd_op (gr_nodes g ! i) = ''latent_attention'' \<Longrightarrow> 2 \<le> length (nd_inputs (gr_nodes g ! i))"
    and "nd_op (gr_nodes g ! i) = ''expert_linear'' \<Longrightarrow> length (nd_inputs (gr_nodes g ! i)) = 2"
    and "nd_op (gr_nodes g ! i) = ''expert_swiglu_down'' \<Longrightarrow> 2 \<le> length (nd_inputs (gr_nodes g ! i))"
    and "nd_op (gr_nodes g ! i) = ''expert_reduce'' \<Longrightarrow> length (nd_inputs (gr_nodes g ! i)) = 2"
  using assms infer_inputs [of "gr_nodes g ! i" "map ((!) ts) (nd_inputs (gr_nodes g ! i))"] by (auto simp: node_ok_def Let_def)

lemma node_ok_append: "node_ok g ts i \<Longrightarrow> i < length ts \<Longrightarrow> node_ok g (ts @ us) i"
proof -
  assume ok: "node_ok g ts i" and i: "i < length ts"
  then have "\<forall>j \<in> set (nd_inputs (gr_nodes g ! i)). j < length ts" by (auto simp: node_ok_def Let_def)
  then have eq: "map ((!) (ts @ us)) (nd_inputs (gr_nodes g ! i)) = map ((!) ts) (nd_inputs (gr_nodes g ! i))"
    by (simp add: nth_append)
  have "(ts @ us) ! i = ts ! i" using i by (simp add: nth_append)
  then show ?thesis using ok unfolding node_ok_def Let_def eq by simp
qed

lemma collect_index: "\<forall>j \<in> set js. j < length ts \<Longrightarrow> collect (index_at ts) js = Ok (map ((!) ts) js)"
  by (induction js) (auto simp: index_at_def)

lemma check_node_Ok:
  "check_node g (k, n) s = Ok s' \<longleftrightarrow>
     nd_name n \<noteq> [] \<and> length (nd_name n) \<le> 1024 \<and> nd_name n \<notin> set (ck_names s) \<and> (\<forall>j \<in> set (nd_inputs n). j < k) \<and>
     (\<exists>inputs. collect (index_at (ck_types s)) (nd_inputs n) = Ok inputs \<and>
     (\<exists>t. infer n inputs = Ok t \<and> \<not> (case t of TensorT w \<Rightarrow> w > 200000 | _ \<Rightarrow> False) \<and>
        check_context g n = Ok () \<and> check_routes g n = Ok () \<and> check_reduce g n = Ok () \<and>
        s' = \<lparr>ck_types = ck_types s @ [t], ck_names = bs_insert (nd_name n) (ck_names s)\<rparr>))"
  unfolding check_node_def Let_def by (simp add: outcome_simps not_le not_less eq_commute [of s'])

lemma check_node_step:
  assumes inv: "typing_inv g k s" and k: "k < length (gr_nodes g)" and ok: "check_node g (k, gr_nodes g ! k) s = Ok s'"
  shows "typing_inv g (Suc k) s'"
proof -
  let ?n = "gr_nodes g ! k"
  obtain inputs t where c: "nd_name ?n \<noteq> []" "length (nd_name ?n) \<le> 1024" "nd_name ?n \<notin> set (ck_names s)" "\<forall>j \<in> set (nd_inputs ?n). j < k"
    "collect (index_at (ck_types s)) (nd_inputs ?n) = Ok inputs" "infer ?n inputs = Ok t" "\<not> (case t of TensorT w \<Rightarrow> w > 200000 | _ \<Rightarrow> False)"
    "check_context g ?n = Ok ()" "check_routes g ?n = Ok ()" "check_reduce g ?n = Ok ()"
    "s' = \<lparr>ck_types = ck_types s @ [t], ck_names = bs_insert (nd_name ?n) (ck_names s)\<rparr>"
    using ok unfolding check_node_Ok by (elim exE conjE) (rule that; assumption)
  have len: "length (ck_types s) = k" using inv by (simp add: typing_inv_def)
  then have inputs: "inputs = map ((!) (ck_types s)) (nd_inputs ?n)" using c(4,5) collect_index [of "nd_inputs ?n" "ck_types s"] by simp
  have same: "map ((!) (ck_types s @ [t])) (nd_inputs ?n) = map ((!) (ck_types s)) (nd_inputs ?n)" using c(4) len by (simp add: nth_append)
  have now: "(ck_types s @ [t]) ! k = t" using len by (simp add: nth_append)
  have "\<forall>w. t = TensorT w \<longrightarrow> w \<le> 200000" using c(7) by auto
  then have "node_ok g (ck_types s @ [t]) k"
    using c(1,2,4,6,8-10) unfolding node_ok_def Let_def same now inputs by blast
  moreover have "node_ok g (ck_types s @ [t]) i" if "i < k" for i
    using inv that len by (intro node_ok_append) (auto simp: typing_inv_def)
  ultimately show ?thesis
    using inv k c(3) by (auto simp: typing_inv_def c(11) take_Suc_conv_app_nth less_Suc_eq)
qed

lemma check_node_no_panic:
  assumes inv: "typing_inv g k s" and k: "k < length (gr_nodes g)"
  shows "check_node g (k, gr_nodes g ! k) s \<noteq> Panic"
proof
  let ?n = "gr_nodes g ! k"
  assume panic: "check_node g (k, ?n) s = Panic"
  have len: "length (ck_types s) = k" using inv by (simp add: typing_inv_def)
  have j: "\<forall>j \<in> set (nd_inputs ?n). j < k"
    using panic by (auto simp: check_node_def outcome_simps Let_def not_le)
  then have inputs: "collect (index_at (ck_types s)) (nd_inputs ?n) = Ok (map ((!) (ck_types s)) (nd_inputs ?n))"
    using len by (intro collect_index) simp
  obtain t where t: "infer ?n (map ((!) (ck_types s)) (nd_inputs ?n)) = Ok t"
    using panic infer_no_panic [of ?n] by (auto simp: check_node_def outcome_simps Let_def inputs)
  note two = infer_inputs [OF t, unfolded length_map]
  have node: "nd_inputs ?n ! m < length (gr_nodes g)" if "m < length (nd_inputs ?n)" for m using j that k by (meson less_trans nth_mem)
  have ctx: "check_context g ?n \<noteq> Panic"
  proof -
    have "''selection'' \<in> set (bt_keys (nd_attrs ?n))" if "nd_op ?n = ''latent_attention''"
      using t that by (auto simp: infer_def infer_latent_attention_def outcome_simps Let_def dest!: schema_Ok)
    then show ?thesis using two(1) node [of 1] by (auto simp: check_context_def outcome_simps Let_def or_attr_panic split: if_splits)
  qed
  have source: "node_ok g (ck_types s) i" if "i \<in> set (nd_inputs ?n)" for i using inv j that by (auto simp: typing_inv_def)
  have routes: "check_routes g ?n \<noteq> Panic"
  proof (cases "nd_op ?n = ''expert_swiglu_down''")
    case True
    then have "nd_inputs ?n \<noteq> []" using two(3) by auto
    moreover have "check_all (\<lambda>j. and_then (index_at (gr_nodes g) j) (\<lambda>source.
          and_then (if nd_op source \<noteq> ''expert_linear'' then Ok True else and_then (index_at (nd_inputs source) 1) (\<lambda>r. Ok (r \<noteq> routes))) (\<lambda>bad.
          node_check ?n bad ''expert route provenance mismatch''))) (butlast (nd_inputs ?n)) \<noteq> Panic" for routes
    proof (rule check_all_no_panic)
      fix i assume "i \<in> set (butlast (nd_inputs ?n))"
      then have i: "i \<in> set (nd_inputs ?n)" by (rule in_set_butlastD)
      then have "i < length (gr_nodes g)" using j k by auto
      then show "and_then (index_at (gr_nodes g) i) (\<lambda>source.
          and_then (if nd_op source \<noteq> ''expert_linear'' then Ok True else and_then (index_at (nd_inputs source) 1) (\<lambda>r. Ok (r \<noteq> routes))) (\<lambda>bad.
          node_check ?n bad ''expert route provenance mismatch'')) \<noteq> Panic"
        using node_ok_inputs(2) [OF source [OF i]] by (auto simp: outcome_simps split: if_splits)
    qed
    ultimately show ?thesis using True by (simp add: check_routes_def)
  qed (simp add: check_routes_def)
  have "check_reduce g ?n \<noteq> Panic"
  proof (cases "nd_op ?n = ''expert_reduce''")
    case True
    then have "length (nd_inputs ?n) = 2" by (rule two(4))
    moreover have "nd_inputs ?n ! 0 < length (gr_nodes g)" using node [of 0] calculation by simp
    ultimately show ?thesis by (auto simp: check_reduce_def outcome_simps split: if_splits)
  qed (simp add: check_reduce_def)
  then show False using panic inputs t ctx routes by (auto simp: check_node_def outcome_simps Let_def)
qed

lemma typing_run:
  assumes "fold_out (check_node g) (zip [0..<length (gr_nodes g)] (gr_nodes g)) \<lparr>ck_types = [], ck_names = []\<rparr> = Ok s"
  shows "typing_inv g (length (gr_nodes g)) s"
  by (rule fold_out_enum [where P = "typing_inv g", OF assms]) (auto simp: typing_inv_def [of g 0] intro: check_node_step)

lemma typing_no_panic: "fold_out (check_node g) (zip [0..<length (gr_nodes g)] (gr_nodes g)) \<lparr>ck_types = [], ck_names = []\<rparr> \<noteq> Panic"
  by (rule fold_out_enum_no_panic [where P = "typing_inv g"])
    (auto simp: typing_inv_def [of g 0] check_node_no_panic intro: check_node_step)

section \<open>Liveness\<close>

definition feeds :: "token_graph \<Rightarrow> (nat \<times> nat) set" where
  "feeds g = {(a, b). b \<in> set (nd_inputs (gr_nodes g ! a))}"

lemma mark_live_inv:
  assumes "set live \<subseteq> {i. (gr_output g, i) \<in> (feeds g)\<^sup>*} \<inter> {..<n}" and "\<forall>i < n. \<forall>j \<in> set (nd_inputs (gr_nodes g ! i)). j < n"
  shows "set (mark_live g i live) \<subseteq> {i. (gr_output g, i) \<in> (feeds g)\<^sup>*} \<inter> {..<n}"
proof (cases "i \<in> set live")
  case True
  have "(gr_output g, j) \<in> (feeds g)\<^sup>*" if "j \<in> set (nd_inputs (gr_nodes g ! i))" for j
  proof -
    have "(gr_output g, i) \<in> (feeds g)\<^sup>*" "(i, j) \<in> feeds g" using assms(1) True that by (auto simp: feeds_def)
    then show ?thesis by (rule rtrancl_into_rtrancl)
  qed
  then show ?thesis using assms True by (auto simp: mark_live_def)
qed (use assms in \<open>simp add: mark_live_def\<close>)

lemma live_ids_reach:
  assumes "gr_output g < length (gr_nodes g)" and "\<forall>i < length (gr_nodes g). \<forall>j \<in> set (nd_inputs (gr_nodes g ! i)). j < length (gr_nodes g)"
    and "length (live_ids g) = length (gr_nodes g)" and "i < length (gr_nodes g)"
  shows "(gr_output g, i) \<in> (feeds g)\<^sup>*"
proof -
  let ?n = "length (gr_nodes g)"
  have "set (fold (mark_live g) is live) \<subseteq> {i. (gr_output g, i) \<in> (feeds g)\<^sup>*} \<inter> {..<?n}"
    if "set live \<subseteq> {i. (gr_output g, i) \<in> (feeds g)\<^sup>*} \<inter> {..<?n}" for "is" live
    using that
  proof (induction "is" arbitrary: live)
    case (Cons j js)
    show ?case using Cons.IH [OF mark_live_inv [OF Cons.prems assms(2)]] by simp
  qed simp
  moreover have "bs_wf (fold (mark_live g) is live)" if "bs_wf live" for "is" live
    using that by (induction "is" arbitrary: live) (auto simp: mark_live_def bs_wf_extend)
  ultimately have sub: "set (live_ids g) \<subseteq> {i. (gr_output g, i) \<in> (feeds g)\<^sup>*} \<inter> {..<?n}" and wf: "bs_wf (live_ids g)"
    using assms(1) by (auto simp: live_ids_def)
  have "card (set (live_ids g)) = ?n" using bs_wf_distinct [OF wf] assms(3) by (simp add: distinct_card)
  then have "set (live_ids g) = {..<?n}" using sub by (metis card_lessThan card_subset_eq finite_lessThan le_infE)
  then show ?thesis using sub assms(4) by auto
qed

section \<open>Properties\<close>

text \<open>The one consumer of a handle.\<close>

definition sole_consumer :: "token_graph \<Rightarrow> nat \<Rightarrow> string \<Rightarrow> bool" where
  "sole_consumer g i op \<longleftrightarrow> (\<exists>k < length (gr_nodes g). nd_op (gr_nodes g ! k) = op \<and>
     (\<forall>l < length (gr_nodes g). i \<in> set (nd_inputs (gr_nodes g ! l)) \<longleftrightarrow> l = k))"

lemma single_use:
  assumes "length (uses_of g i) = 1" and "nd_op (uses_of g i ! 0) = op"
  shows "sole_consumer g i op"
proof -
  obtain n where n: "uses_of g i = [n]" using assms(1) by (auto simp: length_Suc_conv)
  then have "length (filter (\<lambda>n. i \<in> set (nd_inputs n)) (gr_nodes g)) = 1" by (simp add: uses_of_def)
  then have "card {l. l < length (gr_nodes g) \<and> i \<in> set (nd_inputs (gr_nodes g ! l))} = 1" by (simp add: length_filter_conv_card)
  then obtain k where k: "{l. l < length (gr_nodes g) \<and> i \<in> set (nd_inputs (gr_nodes g ! l))} = {k}" by (auto simp: card_1_singleton_iff)
  then have "k < length (gr_nodes g)" "i \<in> set (nd_inputs (gr_nodes g ! k))" by auto
  then have "gr_nodes g ! k \<in> set (uses_of g i)" by (simp add: uses_of_def)
  then have "nd_op (gr_nodes g ! k) = op" using n assms(2) by simp
  then show ?thesis using k unfolding sole_consumer_def by blast
qed


definition logits_graph :: token_graph where
  "logits_graph = \<lparr>gr_name = ''m'', gr_max_context = 512, gr_eos = 2, gr_nodes =
     [\<lparr>nd_source = None, nd_name = ''e'', nd_op = ''embedding'', nd_inputs = [], nd_attrs = [(''vocab'', ''151552''), (''weight'', ''w''), (''width'', ''2560'')]\<rparr>,
      \<lparr>nd_source = None, nd_name = ''l'', nd_op = ''linear'', nd_inputs = [0], nd_attrs = [(''placement'', ''replicated''), (''weight'', ''v''), (''width'', ''151552'')]\<rparr>],
     gr_output = 1\<rparr>"

lemma logits_numerals: "parse_usize ''151552'' = Some 151552" "parse_usize ''2560'' = Some 2560"
  by (simp_all add: parse_usize_def Let_def digit_value_def ascii_digit_def less_eq_char_def)

lemmas graph_eval = node_check_def schema_def check_attribute_def attr_def the_attr_def node_integer_def node_width_def tensor_width_def get_at_def
  index_at_def reject_def bs_of_def bs_extend_def Let_def check_context_def check_routes_def check_reduce_def NEWLINE_def
  ascii_alphabetic_def ascii_digit_def less_eq_char_def

lemma logits_embedding: "infer (gr_nodes logits_graph ! 0) [] = Ok (TensorT 2560)"
  by (simp add: logits_graph_def infer_def infer_embedding_def graph_eval logits_numerals)

lemma logits_linear: "infer (gr_nodes logits_graph ! 1) [TensorT 2560] = Ok (TensorT 151552)"
  by (simp add: logits_graph_def infer_def infer_linear_def graph_eval logits_numerals)

lemma logits_graph_valid: "validate_graph logits_graph = Ok [TensorT 2560, TensorT 151552]"
  using logits_embedding logits_linear
  by (simp add: validate_graph_def logits_graph_def check_node_def live_ids_def mark_live_def check_uses_def uses_of_def graph_eval)


text \<open>C38. Validation of a token graph is total: on every graph, however malformed its inputs and attributes, it returns the types or
  an error and never indexes a missing attribute or input.\<close>

theorem validate_graph_total: "validate_graph g \<noteq> Panic \<and> encode_graph g \<noteq> Panic"
proof -
  have "check_all (check_uses g) (zip [0..<length (ck_types s)] (ck_types s)) \<noteq> Panic" if "length (ck_types s) = length (gr_nodes g)" for s
  proof (rule check_all_no_panic)
    fix it assume "it \<in> set (zip [0..<length (ck_types s)] (ck_types s))"
    then have "fst it < length (gr_nodes g)" unfolding in_set_enum using that by simp
    then show "check_uses g it \<noteq> Panic" by (auto simp: check_uses_def Let_def outcome_simps)
  qed
  then have "validate_graph g \<noteq> Panic"
    using typing_no_panic typing_run by (fastforce simp: validate_graph_def outcome_simps typing_inv_def)
  moreover have "collect encode_node nts \<noteq> Panic" for nts
    by (rule collect_no_panic) (auto simp: encode_node_def type_tag_def Let_def outcome_simps split: token_type.split)
  ultimately show ?thesis by (auto simp: encode_graph_def outcome_simps)
qed

end
