(* ===== verification/DSL_Expand.thy ===== *)
theory DSL_Expand
  imports Token_Graph
begin

text \<open>
  The expansion of modules and folds (\<open>crates/inferfabric-dsl/src/expand.rs\<close>): a document with modules becomes a
  document whose model is a list of primitive operations on named values. The work limit, the depth limit and the limits on
  paths and nodes are those of the source; as in the parser, \<open>eval_at k\<close> is the evaluation at depth \<open>65 - k\<close>. The
  depth-first search over module calls runs on fuel, one more than there are modules, and a search
  that needs more panics; that none does is proved in \<open>DSL_Expand_Thms\<close>.
\<close>

definition PRIMITIVES :: "string list" where
  "PRIMITIVES = [''embedding'', ''cast'', ''quantize'', ''repeat'', ''mhc_pre'', ''mhc_merge'', ''mhc_input'', ''mhc_post'', ''norm'', ''optional_norm'',
     ''linear'', ''gather'', ''allreduce'', ''mome'', ''slice'', ''rope'', ''rotary_prefix'', ''concat'', ''mla_query'', ''mla_value'', ''sink_normalize'',
     ''cache_append'', ''cache_norm_rope_append'', ''latent_attention'', ''index_cache_append'', ''sparse_index'', ''swiglu'', ''router'', ''expert_linear'',
     ''expert_swiglu_down'', ''expert_reduce'', ''add'']"

definition STATIC :: "string list" where
  "STATIC = [''weights'', ''child'', ''choose'', ''div'', ''mod'', ''eq'', ''lt'', ''record'']"

section \<open>Values\<close>

datatype 'f dsl_value =
    TensorV string
  | ScalarV "'f expr"
  | ScopeV string
  | RecordV "(string \<times> 'f dsl_value) list"

type_synonym 'f dsl_env = "(string, 'f dsl_value) btmap"

record 'f expander =
  ex_members :: "'f spanned list"
  ex_origins :: "(string, source_origin) btmap"
  ex_frames :: "expansion_frame list"
  ex_steps :: nat

type_synonym ('f, 'a) expansion = "('f expander, 'a) op"

definition site_error :: "'f spanned \<Rightarrow> string \<Rightarrow> error" where
  "site_error site message = invalid (''byte '' @ show_nat (sm_start site) @ '': '' @ message)"

fun literal :: "'f dsl_value \<Rightarrow> 'f spanned \<Rightarrow> 'f expr outcome" where
  "literal (ScalarV e) site = Ok e"
| "literal (ScopeV s) site = Ok (StringE s)"
| "literal _ site = Err (site_error site ''tensor supplied where a compile-time attribute is required'')"

fun handle_shape :: "'f dsl_value \<Rightarrow> string option"
  and fields_shape :: "(string \<times> 'f dsl_value) list \<Rightarrow> string \<Rightarrow> string option" where
  "handle_shape (TensorV n) = Some ''handle''"
| "handle_shape (RecordV entries) = fields_shape entries ''{''"
| "handle_shape (ScalarV e) = None"
| "handle_shape (ScopeV s) = None"
| "fields_shape [] shape = Some (shape @ ''}'')"
| "fields_shape ((n, v) # entries) shape = (case handle_shape v of
     None \<Rightarrow> None
   | Some child \<Rightarrow>
       if length shape + length n + length child + 3 > 65536 then None
       else fields_shape entries (shape @ n @ '':'' @ child @ '';''))"

definition integer_value :: "'f dsl_value \<Rightarrow> 'f spanned \<Rightarrow> nat outcome" where
  "integer_value v site = (case v of
     ScalarV (NumberE s) \<Rightarrow> ok_or (parse_usize s) (site_error site ''expected nonnegative compile-time integer'')
   | _ \<Rightarrow> Err (site_error site ''expected compile-time integer''))"

definition tensor_name :: "'f dsl_value \<Rightarrow> 'f spanned \<Rightarrow> string outcome" where
  "tensor_name v site = (case v of TensorV n \<Rightarrow> Ok n | _ \<Rightarrow> Err (site_error site ''expected tensor/graph handle''))"

text \<open>\<open>str::split\<close> at a character.\<close>

fun split_at :: "char \<Rightarrow> string \<Rightarrow> string list" where
  "split_at c [] = [[]]"
| "split_at c (x # xs) = (if x = c then [] # split_at c xs else (case split_at c xs of [] \<Rightarrow> [[x]] | w # ws \<Rightarrow> (x # w) # ws))"

definition scope_part :: "string \<Rightarrow> bool" where
  "scope_part s \<longleftrightarrow> s \<noteq> [] \<and> (list_all (\<lambda>c. ascii_alphabetic c \<or> ascii_digit c \<or> c = CHR ''_'') s \<or> s = ''{expert}'')"

definition scoped :: "string \<Rightarrow> string \<Rightarrow> 'f spanned \<Rightarrow> string outcome" where
  "scoped base component site =
     and_then (reject (component = [] \<or> \<not> list_all scope_part (split_at (CHR ''.'') component)) (site_error site ''invalid weight scope component'')) (\<lambda>_.
     let path = (if base = [] then component else base @ ''.'' @ component) in
     and_then (reject (length path > 1024) (site_error site ''weight path limit'')) (\<lambda>_. Ok path))"

section \<open>Names\<close>

fun field_walk :: "'f spanned \<Rightarrow> string list \<Rightarrow> 'f dsl_value \<Rightarrow> 'f dsl_value outcome" where
  "field_walk site [] v = Ok v"
| "field_walk site (f # fs) v = (case v of
     RecordV entries \<Rightarrow> and_then (ok_or (map_of entries f) (site_error site (''unknown record field '' @ f))) (field_walk site fs)
   | _ \<Rightarrow> Err (site_error site ''field access requires a record''))"

definition resolve_name :: "string \<Rightarrow> 'f dsl_env \<Rightarrow> 'f spanned \<Rightarrow> 'f dsl_value outcome" where
  "resolve_name n env site = (case map_of env n of
     Some v \<Rightarrow> Ok v
   | None \<Rightarrow>
      let root = takeWhile (\<lambda>c. c \<noteq> CHR ''.'') n; tail = tl (dropWhile (\<lambda>c. c \<noteq> CHR ''.'') n) in
      (case (if CHR ''.'' \<in> set n then map_of env root else None) of
         Some (ScopeV base) \<Rightarrow> and_then (scoped base tail site) (\<lambda>s. Ok (ScopeV s))
       | Some v \<Rightarrow> field_walk site (split_at (CHR ''.'') tail) v
       | None \<Rightarrow>
           if n \<in> {''true'', ''false''} then Ok (ScalarV (NameE n))
           else Err (site_error site (''unknown binding '' @ n))))"

section \<open>The evaluator\<close>

definition tick :: "'f spanned \<Rightarrow> ('f, unit) expansion" where
  "tick site s =
     (let s = s\<lparr>ex_steps := ex_steps s + 1\<rparr> in
      try_op (reject (ex_steps s > 100000) (site_error site ''compile-time expansion work limit'')) give s)"

definition push_frame :: "expansion_frame \<Rightarrow> ('f, unit) expansion" where
  "push_frame f s = (Ok (), s\<lparr>ex_frames := ex_frames s @ [f]\<rparr>)"

definition pop_frame :: "('f, unit) expansion" where
  "pop_frame s = (Ok (), s\<lparr>ex_frames := butlast (ex_frames s)\<rparr>)"

definition positional :: "(string option \<times> 'f expr) list \<Rightarrow> nat \<Rightarrow> 'f spanned \<Rightarrow> unit outcome" where
  "positional args n site =
     reject (length args \<noteq> n \<or> (\<exists>a \<in> set args. fst a \<noteq> None))
       (site_error site (''expected '' @ show_nat n @ '' positional arguments''))"

text \<open>\<open>ev\<close> is the evaluation one level deeper, \<open>bd\<close> that of a body.\<close>

type_synonym 'f evaluation = "'f expr \<Rightarrow> 'f dsl_env \<Rightarrow> string \<Rightarrow> 'f spanned \<Rightarrow> ('f, 'f dsl_value) expansion"
type_synonym 'f body_evaluation = "'f spanned list \<Rightarrow> 'f dsl_env \<Rightarrow> string \<Rightarrow> ('f, 'f dsl_value) expansion"

fun iterate_fold :: "'f body_evaluation \<Rightarrow> string \<Rightarrow> string \<Rightarrow> 'f spanned list \<Rightarrow> 'f dsl_env \<Rightarrow> string \<Rightarrow> 'f spanned \<Rightarrow> string \<Rightarrow>
    nat list \<Rightarrow> 'f dsl_value \<Rightarrow> ('f, 'f dsl_value) expansion" where
  "iterate_fold bd index carry body env path site shape [] v = give v"
| "iterate_fold bd index carry body env path site shape (i # is) v =
     (let local = bt_insert carry v (bt_insert index (ScalarV (NumberE (show_nat i))) env);
          instance_path = path @ ''.i'' @ show_nat i
      in bind_op (push_frame \<lparr>ef_module = ''fold'', ef_instance = instance_path, ef_start = sm_start site, ef_end = sm_end site\<rparr>) (\<lambda>_.
         bind_op (bd body local instance_path) (\<lambda>v.
         bind_op pop_frame (\<lambda>_.
         try_op (reject (handle_shape v \<noteq> Some shape) (site_error site ''fold carry record structure changed'')) (\<lambda>_.
         iterate_fold bd index carry body env path site shape is v)))))"

definition eval_fold :: "'f evaluation \<Rightarrow> 'f body_evaluation \<Rightarrow> string \<Rightarrow> 'f expr \<Rightarrow> 'f expr \<Rightarrow> string \<Rightarrow> 'f expr \<Rightarrow> 'f spanned list \<Rightarrow>
    'f dsl_env \<Rightarrow> string \<Rightarrow> 'f spanned \<Rightarrow> ('f, 'f dsl_value) expansion" where
  "eval_fold ev bd index start until carry initial body env path site =
     try_op (reject (index = carry) (site_error site ''loop index and carry must differ'')) (\<lambda>_.
     bind_op (ev start env path site) (\<lambda>v. try_op (integer_value v site) (\<lambda>a.
     bind_op (ev until env path site) (\<lambda>v. try_op (integer_value v site) (\<lambda>b.
     try_op (reject (a > b \<or> b - a > 4096) (site_error site ''fold range must be ascending with at most 4096 iterations'')) (\<lambda>_.
     bind_op (ev initial env path site) (\<lambda>v.
     try_op (ok_or (handle_shape v) (site_error site ''fold carry requires graph handles'')) (\<lambda>shape.
     iterate_fold bd index carry body env path site shape [a..<b] v))))))))"

fun eval_fields :: "'f evaluation \<Rightarrow> 'f dsl_env \<Rightarrow> string \<Rightarrow> 'f spanned \<Rightarrow> (string option \<times> 'f expr) list \<Rightarrow> (string, 'f dsl_value) btmap \<Rightarrow>
    ('f, (string, 'f dsl_value) btmap) expansion" where
  "eval_fields ev env path site [] entries = give entries"
| "eval_fields ev env path site ((key, e) # args) entries =
     try_op (ok_or key (site_error site ''record requires named fields'')) (\<lambda>n.
     try_op (reject (CHR ''.'' \<in> set n \<or> map_of entries n \<noteq> None) (site_error site ''duplicate or invalid record field'')) (\<lambda>_.
     bind_op (ev e env (path @ ''.'' @ n) site) (\<lambda>v.
     try_op (reject (handle_shape v = None) (site_error site ''record fields require graph handles'')) (\<lambda>_.
     eval_fields ev env path site args (bt_insert n v entries)))))"

definition eval_record :: "'f evaluation \<Rightarrow> (string option \<times> 'f expr) list \<Rightarrow> 'f dsl_env \<Rightarrow> string \<Rightarrow> 'f spanned \<Rightarrow> ('f, 'f dsl_value) expansion" where
  "eval_record ev args env path site =
     try_op (reject (args = [] \<or> length args > 64) (site_error site ''record requires 1..64 named fields'')) (\<lambda>_.
     bind_op (eval_fields ev env path site args []) (\<lambda>entries.
     try_op (reject (handle_shape (RecordV entries) = None) (site_error site ''record structure exceeds expansion limit'')) (\<lambda>_.
     give (RecordV entries))))"

definition eval_choose :: "'f evaluation \<Rightarrow> (string option \<times> 'f expr) list \<Rightarrow> 'f dsl_env \<Rightarrow> string \<Rightarrow> 'f spanned \<Rightarrow> ('f, 'f dsl_value) expansion" where
  "eval_choose ev args env path site =
     try_op (positional args 3 site) (\<lambda>_.
     try_op (index_at args 0) (\<lambda>a.
     bind_op (ev (snd a) env path site) (\<lambda>v.
     try_op (case v of ScalarV (NameE c) \<Rightarrow>
               if c = ''true'' then Ok (1::nat) else if c = ''false'' then Ok 2 else Err (site_error site ''choose condition must be boolean'')
             | _ \<Rightarrow> Err (site_error site ''choose condition must be a compile-time boolean'')) (\<lambda>selected.
     try_op (index_at args selected) (\<lambda>b. ev (snd b) env path site)))))"

definition scope_component :: "'f dsl_value \<Rightarrow> 'f spanned \<Rightarrow> string outcome" where
  "scope_component v site = (case v of
     ScalarV (StringE s) \<Rightarrow> Ok s
   | ScalarV (NumberE s) \<Rightarrow> and_then (ok_or (parse_usize s) (site_error site ''weight index must be nonnegative integer'')) (\<lambda>n. Ok (show_nat n))
   | _ \<Rightarrow> Err (site_error site ''invalid scope component''))"

fun extend_scope :: "'f evaluation \<Rightarrow> 'f dsl_env \<Rightarrow> string \<Rightarrow> 'f spanned \<Rightarrow> (string option \<times> 'f expr) list \<Rightarrow> string \<Rightarrow> ('f, 'f dsl_value) expansion" where
  "extend_scope ev env path site [] scope = give (ScopeV scope)"
| "extend_scope ev env path site ((key, e) # args) scope =
     bind_op (ev e env path site) (\<lambda>v.
     try_op (scope_component v site) (\<lambda>part.
     try_op (scoped scope part site) (\<lambda>scope.
     extend_scope ev env path site args scope)))"

definition eval_scope :: "'f evaluation \<Rightarrow> string \<Rightarrow> (string option \<times> 'f expr) list \<Rightarrow> 'f dsl_env \<Rightarrow> string \<Rightarrow> 'f spanned \<Rightarrow> ('f, 'f dsl_value) expansion" where
  "eval_scope ev op_name args env path site =
     try_op (if op_name = ''weights'' then positional args 1 site
             else reject (length args < 2 \<or> (\<exists>a \<in> set args. fst a \<noteq> None)) (site_error site ''child requires scope and positional components'')) (\<lambda>_.
     try_op (index_at args 0) (\<lambda>a.
     bind_op (ev (snd a) env path site) (\<lambda>v.
     try_op (case v of
         ScalarV (StringE s) \<Rightarrow> if op_name = ''weights'' then scoped [] s site
           else Err (site_error site ''weights requires a string; child requires a weight scope'')
       | ScopeV s \<Rightarrow> if op_name = ''child'' then Ok s else Err (site_error site ''weights requires a string; child requires a weight scope'')
       | _ \<Rightarrow> Err (site_error site ''weights requires a string; child requires a weight scope'')) (\<lambda>scope.
     extend_scope ev env path site (tl args) scope))))"

definition show_bool :: "bool \<Rightarrow> string" where
  "show_bool b = (if b then ''true'' else ''false'')"

definition arith_value :: "string \<Rightarrow> nat \<Rightarrow> nat \<Rightarrow> 'f spanned \<Rightarrow> 'f expr outcome" where
  "arith_value op_name a b site =
     (if op_name = ''div'' then
        and_then (reject (b = 0 \<or> a mod b \<noteq> 0) (site_error site ''div requires nonzero divisor and exact division'')) (\<lambda>_. Ok (NumberE (show_nat (a div b))))
      else if op_name = ''mod'' then and_then (reject (b = 0) (site_error site ''modulo by zero'')) (\<lambda>_. Ok (NumberE (show_nat (a mod b))))
      else if op_name = ''eq'' then Ok (NameE (show_bool (a = b)))
      else Ok (NameE (show_bool (a < b))))"

definition eval_arith :: "'f evaluation \<Rightarrow> string \<Rightarrow> (string option \<times> 'f expr) list \<Rightarrow> 'f dsl_env \<Rightarrow> string \<Rightarrow> 'f spanned \<Rightarrow> ('f, 'f dsl_value) expansion" where
  "eval_arith ev op_name args env path site =
     try_op (positional args 2 site) (\<lambda>_.
     try_op (index_at args 0) (\<lambda>x. bind_op (ev (snd x) env path site) (\<lambda>v. try_op (integer_value v site) (\<lambda>a.
     try_op (index_at args 1) (\<lambda>x. bind_op (ev (snd x) env path site) (\<lambda>v. try_op (integer_value v site) (\<lambda>b.
     try_op (arith_value op_name a b site) (\<lambda>e. give (ScalarV e)))))))))"

text \<open>The binding of module arguments: \<open>position\<close> counts the positional ones, \<open>named\<close> tells whether a named one was seen.\<close>

fun bind_arguments :: "'f evaluation \<Rightarrow> 'f dsl_module \<Rightarrow> string \<Rightarrow> 'f dsl_env \<Rightarrow> string \<Rightarrow> 'f spanned \<Rightarrow> (string option \<times> 'f expr) list \<Rightarrow>
    nat \<Rightarrow> bool \<Rightarrow> 'f dsl_env \<Rightarrow> ('f, 'f dsl_env) expansion" where
  "bind_arguments ev m op_name env path site [] position named local = give local"
| "bind_arguments ev m op_name env path site ((key, e) # args) position named local =
     try_op (case key of
         Some k \<Rightarrow> and_then (reject (k \<notin> set (dm_parameters m)) (site_error site (''unknown parameter '' @ k @ '' for '' @ op_name))) (\<lambda>_. Ok (k, position, True))
       | None \<Rightarrow>
           and_then (reject named (site_error site ''positional argument after named argument'')) (\<lambda>_.
           and_then (ok_or (get_at (dm_parameters m) position) (site_error site ''too many module arguments'')) (\<lambda>k. Ok (k, position + 1, named)))) (\<lambda>(k, position, named).
     bind_op (ev e env (path @ ''.arg_'' @ k) site) (\<lambda>v.
     try_op (reject (map_of local k \<noteq> None) (site_error site (''duplicate module argument '' @ k))) (\<lambda>_.
     bind_arguments ev m op_name env path site args position named (bt_insert k v local))))"

definition eval_module :: "'f evaluation \<Rightarrow> 'f body_evaluation \<Rightarrow> 'f dsl_module \<Rightarrow> string \<Rightarrow> (string option \<times> 'f expr) list \<Rightarrow> 'f dsl_env \<Rightarrow> string \<Rightarrow>
    'f spanned \<Rightarrow> ('f, 'f dsl_value) expansion" where
  "eval_module ev bd m op_name args env path site =
     bind_op (bind_arguments ev m op_name env path site args 0 False []) (\<lambda>local.
     try_op (reject (length local \<noteq> length (dm_parameters m)) (site_error site (''missing arguments for '' @ op_name))) (\<lambda>_.
     bind_op (push_frame \<lparr>ef_module = op_name, ef_instance = path, ef_start = sm_start site, ef_end = sm_end site\<rparr>) (\<lambda>_.
     bind_op (bd (dm_body m) local path) (\<lambda>v.
     bind_op pop_frame (\<lambda>_. give v)))))"

text \<open>The arguments of a primitive: \<open>i\<close> is the index of the next one.\<close>

fun eval_operands :: "'f evaluation \<Rightarrow> 'f dsl_env \<Rightarrow> string \<Rightarrow> 'f spanned \<Rightarrow> nat \<Rightarrow> (string option \<times> 'f expr) list \<Rightarrow>
    ('f, (string option \<times> 'f expr) list) expansion" where
  "eval_operands ev env path site i [] = give []"
| "eval_operands ev env path site i ((key, e) # args) =
     bind_op (case (key, e) of
         (Some _, NameE n) \<Rightarrow>
           if map_of env n = None \<and> CHR ''.'' \<notin> set n then give (ScalarV e) else ev e env (path @ ''.arg'' @ show_nat i) site
       | _ \<Rightarrow> ev e env (path @ ''.arg'' @ show_nat i) site) (\<lambda>v.
     try_op (if key \<noteq> None then literal v site else and_then (tensor_name v site) (\<lambda>n. Ok (NameE n))) (\<lambda>x.
     bind_op (eval_operands ev env path site (i + 1) args) (\<lambda>xs. give ((key, x) # xs))))"

definition emit_node :: "string \<Rightarrow> (string option \<times> 'f expr) list \<Rightarrow> string \<Rightarrow> 'f spanned \<Rightarrow> ('f, 'f dsl_value) expansion" where
  "emit_node op_name xs path site s =
     try_op (reject (length (ex_origins s) \<ge> 10000) (site_error site ''expanded node limit'')) (\<lambda>_ s.
     let origin = \<lparr>so_start = sm_start site, so_end = sm_end site, so_frames = ex_frames s\<rparr>;
         s' = s\<lparr>ex_origins := bt_insert path origin (ex_origins s)\<rparr>
     in try_op (reject (map_of (ex_origins s) path \<noteq> None) (site_error site ''expanded instance name collision'')) (\<lambda>_ s.
        (Ok (TensorV path), s\<lparr>ex_members := ex_members s @ [Spanned (sm_start site) (sm_end site) (LetM path (CallE op_name xs))]\<rparr>)) s') s"

definition eval_primitive :: "'f evaluation \<Rightarrow> string \<Rightarrow> (string option \<times> 'f expr) list \<Rightarrow> 'f dsl_env \<Rightarrow> string \<Rightarrow> 'f spanned \<Rightarrow> ('f, 'f dsl_value) expansion" where
  "eval_primitive ev op_name args env path site =
     try_op (reject (op_name \<notin> set PRIMITIVES) (site_error site (''unknown module/operator '' @ op_name))) (\<lambda>_.
     bind_op (eval_operands ev env path site 0 args) (\<lambda>xs. emit_node op_name xs path site))"

definition eval_call :: "(string, 'f dsl_module) btmap \<Rightarrow> 'f evaluation \<Rightarrow> 'f body_evaluation \<Rightarrow> string \<Rightarrow> (string option \<times> 'f expr) list \<Rightarrow>
    'f dsl_env \<Rightarrow> string \<Rightarrow> 'f spanned \<Rightarrow> ('f, 'f dsl_value) expansion" where
  "eval_call M ev bd op_name args env path site =
     (if op_name = ''record'' then eval_record ev args env path site
      else if op_name = ''choose'' then eval_choose ev args env path site
      else if op_name = ''weights'' \<or> op_name = ''child'' then eval_scope ev op_name args env path site
      else if op_name \<in> {''div'', ''mod'', ''eq'', ''lt''} then eval_arith ev op_name args env path site
      else (case map_of M op_name of
              Some m \<Rightarrow> eval_module ev bd m op_name args env path site
            | None \<Rightarrow> eval_primitive ev op_name args env path site))"

definition eval_expr :: "(string, 'f dsl_module) btmap \<Rightarrow> 'f evaluation \<Rightarrow> 'f body_evaluation \<Rightarrow> 'f evaluation" where
  "eval_expr M ev bd e env path site =
     bind_op (tick site) (\<lambda>_.
     try_op (reject (length path > 1024) (site_error site ''module/expression expansion depth or path limit'')) (\<lambda>_.
     case e of
       NameE n \<Rightarrow> (\<lambda>s. try_op (resolve_name n env site) give s)
     | StringE t \<Rightarrow> give (ScalarV (StringE t))
     | NumberE t \<Rightarrow> give (ScalarV (NumberE t))
     | ListE es \<Rightarrow> (\<lambda>s. (Err (site_error site ''list is not a token-graph value''), s))
     | FoldE index start until carry initial body \<Rightarrow> eval_fold ev bd index start until carry initial body env path site
     | CallE op_name args \<Rightarrow> eval_call M ev bd op_name args env path site))"

text \<open>A body with the evaluation of its expressions; \<open>result\<close> is the value of the yield seen so far.\<close>

fun eval_body :: "'f evaluation \<Rightarrow> 'f spanned list \<Rightarrow> 'f dsl_env \<Rightarrow> string \<Rightarrow> 'f dsl_value option \<Rightarrow> ('f, 'f dsl_value) expansion" where
  "eval_body ev [] env prefix result = try_op (ok_or result (invalid (prefix @ '': module/fold missing yield''))) give"
| "eval_body ev (m # ms) env prefix result =
     bind_op (tick m) (\<lambda>_.
     try_op (reject (result \<noteq> None) (site_error m ''declaration after yield'')) (\<lambda>_.
     case sm_member m of
       LetM n e \<Rightarrow>
         try_op (reject (map_of env n \<noteq> None) (site_error m (''duplicate local binding '' @ n))) (\<lambda>_.
         bind_op (ev e env (prefix @ ''.'' @ n) m) (\<lambda>v. eval_body ev ms (bt_insert n v env) prefix result))
     | YieldM n \<Rightarrow> try_op (resolve_name n env m) (\<lambda>v. eval_body ev ms env prefix (Some v))
     | _ \<Rightarrow> (\<lambda>s. (Err (site_error m ''module/fold bodies contain only let and yield''), s))))"

fun eval_at :: "(string, 'f dsl_module) btmap \<Rightarrow> nat \<Rightarrow> 'f evaluation" where
  "eval_at M 0 = (\<lambda>e env path site. bind_op (tick site) (\<lambda>_ s. (Err (site_error site ''module/expression expansion depth or path limit''), s)))"
| "eval_at M (Suc k) = eval_expr M (eval_at M k) (\<lambda>ms env prefix. eval_body (eval_at M (k - 1)) ms env prefix None)"

section \<open>Module calls\<close>

fun dependencies :: "'f expr \<Rightarrow> string btset \<Rightarrow> string btset"
  and member_dependencies :: "'f member \<Rightarrow> string btset \<Rightarrow> string btset"
  and spanned_dependencies :: "'f spanned \<Rightarrow> string btset \<Rightarrow> string btset" where
  "dependencies (CallE f args) called = fold (\<lambda>(k, e). dependencies e) args (bs_insert f called)"
| "dependencies (FoldE i a b c e ms) called = fold spanned_dependencies ms (dependencies e (dependencies b (dependencies a called)))"
| "dependencies (NameE n) called = called"
| "dependencies (StringE n) called = called"
| "dependencies (NumberE n) called = called"
| "dependencies (ListE es) called = called"
| "member_dependencies (LetM n e) called = dependencies e called"
| "member_dependencies (FieldM n e) called = called"
| "member_dependencies (InputM n shape) called = called"
| "member_dependencies (ConstantM n shape data) called = called"
| "member_dependencies (StateM n shape data) called = called"
| "member_dependencies (YieldM n) called = called"
| "member_dependencies (UpdateM n v) called = called"
| "spanned_dependencies (Spanned a b m) called = member_dependencies m called"

type_synonym call_graph = "(string, string btset) btmap"

fun visit :: "nat \<Rightarrow> call_graph \<Rightarrow> string \<Rightarrow> string btset \<times> string btset \<Rightarrow> (string btset \<times> string btset) outcome" where
  "visit 0 deps n marks = Panic"
| "visit (Suc fuel) deps n (active, visited) =
     (if n \<in> set visited then Ok (active, visited)
      else and_then (reject (n \<in> set active) (invalid (''recursive DSL module '' @ n))) (\<lambda>_.
           and_then (unwrap (map_of deps n)) (\<lambda>nexts.
           and_then (fold_out (\<lambda>next marks. if map_of deps next \<noteq> None then visit fuel deps next marks else Ok marks)
              nexts (bs_insert n active, visited)) (\<lambda>(active, visited).
           Ok (bs_remove n active, bs_insert n visited)))))"

definition visit_all :: "call_graph \<Rightarrow> string btset outcome" where
  "visit_all deps = fold_out (\<lambda>n visited. and_then (visit (Suc (length deps)) deps n ([], visited)) (\<lambda>marks. Ok (snd marks))) (bt_keys deps) []"

definition add_module :: "'f dsl_module \<Rightarrow> (string, 'f dsl_module) btmap \<times> call_graph \<Rightarrow> ((string, 'f dsl_module) btmap \<times> call_graph) outcome" where
  "add_module m mods =
     and_then (reject (dm_name m \<in> set PRIMITIVES \<or> dm_name m \<in> set STATIC \<or> map_of (fst mods) (dm_name m) \<noteq> None)
       (invalid (''duplicate/reserved module '' @ dm_name m))) (\<lambda>_.
     and_then (reject (length (dm_parameters m) > 64 \<or> length (bs_of (dm_parameters m)) \<noteq> length (dm_parameters m))
       (invalid ''duplicate/excessive module parameters'')) (\<lambda>_.
     Ok (bt_insert (dm_name m) m (fst mods), bt_insert (dm_name m) (fold spanned_dependencies (dm_body m) []) (snd mods))))"

section \<open>The expansion of a document\<close>

record 'f top_state =
  tp_env :: "'f dsl_env"
  tp_yielded :: bool

definition expand_member :: "(string, 'f dsl_module) btmap \<Rightarrow> 'f spanned \<Rightarrow> 'f top_state \<Rightarrow> ('f, 'f top_state) expansion" where
  "expand_member M m t =
     try_op (reject (tp_yielded t) (site_error m ''declaration after model yield'')) (\<lambda>_.
     case sm_member m of
       LetM n e \<Rightarrow>
         try_op (reject (map_of (tp_env t) n \<noteq> None) (site_error m ''duplicate model binding'')) (\<lambda>_.
         bind_op (eval_at M 65 e (tp_env t) n m) (\<lambda>v. give (t\<lparr>tp_env := bt_insert n v (tp_env t)\<rparr>)))
     | YieldM n \<Rightarrow>
         try_op (and_then (resolve_name n (tp_env t) m) (\<lambda>v. tensor_name v m)) (\<lambda>result s.
         (Ok (t\<lparr>tp_yielded := True\<rparr>), s\<lparr>ex_members := ex_members s @ [Spanned (sm_start m) (sm_end m) (YieldM result)]\<rparr>))
     | FieldM n e \<Rightarrow> (\<lambda>s. (Ok t, s\<lparr>ex_members := ex_members s @ [m]\<rparr>))
     | _ \<Rightarrow> (\<lambda>s. (Err (site_error m ''unsupported token graph declaration''), s)))"

fun expand_members :: "(string, 'f dsl_module) btmap \<Rightarrow> 'f spanned list \<Rightarrow> 'f top_state \<Rightarrow> ('f, 'f top_state) expansion" where
  "expand_members M [] t = give t"
| "expand_members M (m # ms) t = bind_op (expand_member M m t) (expand_members M ms)"

definition expand :: "'f document \<Rightarrow> ('f document \<times> (string, source_origin) btmap) outcome" where
  "expand ast =
     and_then (fold_out add_module (doc_modules ast) ([], [])) (\<lambda>(M, deps).
     and_then (check_all (\<lambda>called. reject (map_of M called = None \<and> called \<notin> set PRIMITIVES \<and> called \<notin> set STATIC)
         (invalid (''unknown module/operator '' @ called))) (concat (bt_values deps))) (\<lambda>_.
     and_then (visit_all deps) (\<lambda>_.
     case expand_members M (doc_model ast) \<lparr>tp_env = [], tp_yielded = False\<rparr> \<lparr>ex_members = [], ex_origins = [], ex_frames = [], ex_steps = 0\<rparr> of
       (Ok _, s) \<Rightarrow> Ok (ast\<lparr>doc_modules := [], doc_model := ex_members s\<rparr>, ex_origins s)
     | (Err e, s) \<Rightarrow> Err e
     | (Panic, s) \<Rightarrow> Panic)))"

end
