(* ===== verification/DSL_Meaning.thy ===== *)
theory DSL_Meaning
  imports DSL_Expand "HOL-Library.Monad_Syntax"
begin

text \<open>
  What a document means, independently of its expansion: a reference evaluator that computes with the values
  of tensors instead of their names. \<open>K op xs attrs\<close> is the value of a primitive on its operands, a
  parameter. The evaluator knows no paths, frames, nodes or limits but the nesting limit, which is its fuel.
  \<open>program_value\<close> is the meaning of what the expansion emits, a list of primitive operations run in order.
\<close>

section \<open>The reference evaluator\<close>

datatype ('f, 'v) denot =
    TensorD 'v
  | ScalarD "'f expr"
  | ScopeD string
  | RecordD "(string \<times> ('f, 'v) denot) list"

type_synonym ('f, 'v) denots = "string \<rightharpoonup> ('f, 'v) denot"
type_synonym ('f, 'v) kernels = "string \<Rightarrow> 'v list \<Rightarrow> (string \<times> 'f expr) list \<Rightarrow> 'v"
type_synonym ('f, 'v) reading = "'f expr \<Rightarrow> ('f, 'v) denots \<Rightarrow> ('f, 'v) denot option"
type_synonym ('f, 'v) body_reading = "'f spanned list \<Rightarrow> ('f, 'v) denots \<Rightarrow> ('f, 'v) denot option"

definition scope_path :: "string \<Rightarrow> string \<Rightarrow> string" where
  "scope_path base part = (if base = [] then part else base @ ''.'' @ part)"

fun d_walk :: "string list \<Rightarrow> ('f, 'v) denot \<Rightarrow> ('f, 'v) denot option" where
  "d_walk [] d = Some d"
| "d_walk (f # fs) d = (case d of RecordD ds \<Rightarrow> do { x \<leftarrow> map_of ds f; d_walk fs x } | _ \<Rightarrow> None)"

definition d_lookup :: "string \<Rightarrow> ('f, 'v) denots \<Rightarrow> ('f, 'v) denot option" where
  "d_lookup n \<eta> = (case \<eta> n of
     Some d \<Rightarrow> Some d
   | None \<Rightarrow>
      let root = takeWhile (\<lambda>c. c \<noteq> CHR ''.'') n; tail = tl (dropWhile (\<lambda>c. c \<noteq> CHR ''.'') n) in
      (case (if CHR ''.'' \<in> set n then \<eta> root else None) of
         Some (ScopeD base) \<Rightarrow> Some (ScopeD (scope_path base tail))
       | Some d \<Rightarrow> d_walk (split_at (CHR ''.'') tail) d
       | None \<Rightarrow> if n \<in> {''true'', ''false''} then Some (ScalarD (NameE n)) else None))"

definition d_tensor :: "('f, 'v) denot \<Rightarrow> 'v option" where
  "d_tensor d = (case d of TensorD x \<Rightarrow> Some x | _ \<Rightarrow> None)"

definition d_integer :: "('f, 'v) denot \<Rightarrow> nat option" where
  "d_integer d = (case d of ScalarD (NumberE s) \<Rightarrow> parse_usize s | _ \<Rightarrow> None)"

definition d_literal :: "('f, 'v) denot \<Rightarrow> 'f expr option" where
  "d_literal d = (case d of ScalarD e \<Rightarrow> Some e | ScopeD s \<Rightarrow> Some (StringE s) | _ \<Rightarrow> None)"

fun m_fold :: "(('f, 'v) denots \<Rightarrow> ('f, 'v) denot option) \<Rightarrow> string \<Rightarrow> string \<Rightarrow> ('f, 'v) denots \<Rightarrow> nat list \<Rightarrow> ('f, 'v) denot \<Rightarrow> ('f, 'v) denot option" where
  "m_fold bd index carry \<eta> [] d = Some d"
| "m_fold bd index carry \<eta> (i # is) d =
     do { x \<leftarrow> bd (\<eta>(index \<mapsto> ScalarD (NumberE (show_nat i)), carry \<mapsto> d)); m_fold bd index carry \<eta> is x }"

fun m_fields :: "('f, 'v) reading \<Rightarrow> ('f, 'v) denots \<Rightarrow> (string option \<times> 'f expr) list \<Rightarrow> (string \<times> ('f, 'v) denot) list \<Rightarrow>
    (string \<times> ('f, 'v) denot) list option" where
  "m_fields ev \<eta> [] ds = Some ds"
| "m_fields ev \<eta> ((Some n, e) # args) ds = do { d \<leftarrow> ev e \<eta>; m_fields ev \<eta> args (bt_insert n d ds) }"
| "m_fields ev \<eta> ((None, e) # args) ds = None"

definition m_choose :: "('f, 'v) reading \<Rightarrow> ('f, 'v) denots \<Rightarrow> 'f expr list \<Rightarrow> ('f, 'v) denot option" where
  "m_choose ev \<eta> es = (case es of
     [c, a, b] \<Rightarrow> do { d \<leftarrow> ev c \<eta>;
       (case d of ScalarD (NameE t) \<Rightarrow> if t = ''true'' then ev a \<eta> else if t = ''false'' then ev b \<eta> else None | _ \<Rightarrow> None) }
   | _ \<Rightarrow> None)"

definition d_component :: "('f, 'v) denot \<Rightarrow> string option" where
  "d_component d = (case d of ScalarD (StringE s) \<Rightarrow> Some s | ScalarD (NumberE s) \<Rightarrow> map_option show_nat (parse_usize s) | _ \<Rightarrow> None)"

fun m_extend :: "('f, 'v) reading \<Rightarrow> ('f, 'v) denots \<Rightarrow> 'f expr list \<Rightarrow> string \<Rightarrow> ('f, 'v) denot option" where
  "m_extend ev \<eta> [] s = Some (ScopeD s)"
| "m_extend ev \<eta> (e # es) s = do { d \<leftarrow> ev e \<eta>; p \<leftarrow> d_component d; m_extend ev \<eta> es (scope_path s p) }"

definition m_scope :: "('f, 'v) reading \<Rightarrow> ('f, 'v) denots \<Rightarrow> string \<Rightarrow> 'f expr list \<Rightarrow> ('f, 'v) denot option" where
  "m_scope ev \<eta> op_name es = (case es of
     e # es \<Rightarrow> do { d \<leftarrow> ev e \<eta>;
       (case d of
          ScalarD (StringE s) \<Rightarrow> if op_name = ''weights'' then m_extend ev \<eta> es s else None
        | ScopeD s \<Rightarrow> if op_name = ''child'' then m_extend ev \<eta> es s else None
        | _ \<Rightarrow> None) }
   | [] \<Rightarrow> None)"

definition m_arith :: "('f, 'v) reading \<Rightarrow> ('f, 'v) denots \<Rightarrow> string \<Rightarrow> 'f expr list \<Rightarrow> ('f, 'v) denot option" where
  "m_arith ev \<eta> op_name es = (case es of
     [x, y] \<Rightarrow> do { a \<leftarrow> ev x \<eta> \<bind> d_integer; b \<leftarrow> ev y \<eta> \<bind> d_integer;
       (if op_name = ''div'' then (if b \<noteq> 0 \<and> b dvd a then Some (ScalarD (NumberE (show_nat (a div b)))) else None)
        else if op_name = ''mod'' then (if b \<noteq> 0 then Some (ScalarD (NumberE (show_nat (a mod b)))) else None)
        else if op_name = ''eq'' then Some (ScalarD (NameE (show_bool (a = b))))
        else Some (ScalarD (NameE (show_bool (a < b))))) }
   | _ \<Rightarrow> None)"

text \<open>The arguments of a module: a positional one takes the next parameter.\<close>

fun m_bind :: "('f, 'v) reading \<Rightarrow> ('f, 'v) denots \<Rightarrow> string list \<Rightarrow> (string option \<times> 'f expr) list \<Rightarrow> ('f, 'v) denots \<Rightarrow> ('f, 'v) denots option" where
  "m_bind ev \<eta> ps [] l = Some l"
| "m_bind ev \<eta> ps ((Some k, e) # args) l = do { d \<leftarrow> ev e \<eta>; m_bind ev \<eta> ps args (l(k \<mapsto> d)) }"
| "m_bind ev \<eta> [] ((None, e) # args) l = None"
| "m_bind ev \<eta> (p # ps) ((None, e) # args) l = do { d \<leftarrow> ev e \<eta>; m_bind ev \<eta> ps args (l(p \<mapsto> d)) }"

text \<open>A named argument of a primitive that is a free name stands for itself.\<close>

definition m_attribute :: "('f, 'v) reading \<Rightarrow> ('f, 'v) denots \<Rightarrow> 'f expr \<Rightarrow> 'f expr option" where
  "m_attribute ev \<eta> e = (case e of
     NameE n \<Rightarrow> if \<eta> n = None \<and> CHR ''.'' \<notin> set n then Some e else ev e \<eta> \<bind> d_literal
   | _ \<Rightarrow> ev e \<eta> \<bind> d_literal)"

fun m_operands :: "('f, 'v) reading \<Rightarrow> ('f, 'v) denots \<Rightarrow> (string option \<times> 'f expr) list \<Rightarrow> ('v list \<times> (string \<times> 'f expr) list) option" where
  "m_operands ev \<eta> [] = Some ([], [])"
| "m_operands ev \<eta> ((None, e) # args) = do { x \<leftarrow> ev e \<eta> \<bind> d_tensor; (xs, as) \<leftarrow> m_operands ev \<eta> args; Some (x # xs, as) }"
| "m_operands ev \<eta> ((Some k, e) # args) = do { a \<leftarrow> m_attribute ev \<eta> e; (xs, as) \<leftarrow> m_operands ev \<eta> args; Some (xs, (k, a) # as) }"

fun m_body :: "('f, 'v) reading \<Rightarrow> 'f spanned list \<Rightarrow> ('f, 'v) denots \<Rightarrow> ('f, 'v) denot option \<Rightarrow> ('f, 'v) denot option" where
  "m_body ev [] \<eta> result = result"
| "m_body ev (m # ms) \<eta> result = (case sm_member m of
     LetM n e \<Rightarrow> do { d \<leftarrow> ev e \<eta>; m_body ev ms (\<eta>(n \<mapsto> d)) result }
   | YieldM n \<Rightarrow> do { d \<leftarrow> d_lookup n \<eta>; m_body ev ms \<eta> (Some d) }
   | _ \<Rightarrow> None)"

definition m_call :: "('f, 'v) kernels \<Rightarrow> (string \<rightharpoonup> 'f dsl_module) \<Rightarrow> ('f, 'v) reading \<Rightarrow> ('f, 'v) body_reading \<Rightarrow> string \<Rightarrow>
    (string option \<times> 'f expr) list \<Rightarrow> ('f, 'v) denots \<Rightarrow> ('f, 'v) denot option" where
  "m_call K M ev bd op_name args \<eta> =
     (if op_name = ''record'' then map_option RecordD (m_fields ev \<eta> args [])
      else if op_name = ''choose'' then m_choose ev \<eta> (map snd args)
      else if op_name = ''weights'' \<or> op_name = ''child'' then m_scope ev \<eta> op_name (map snd args)
      else if op_name \<in> {''div'', ''mod'', ''eq'', ''lt''} then m_arith ev \<eta> op_name (map snd args)
      else (case M op_name of
              Some m \<Rightarrow> do { l \<leftarrow> m_bind ev \<eta> (dm_parameters m) args Map.empty; bd (dm_body m) l }
            | None \<Rightarrow> do { (xs, as) \<leftarrow> m_operands ev \<eta> args; Some (TensorD (K op_name xs as)) }))"

fun meaning :: "('f, 'v) kernels \<Rightarrow> (string \<rightharpoonup> 'f dsl_module) \<Rightarrow> nat \<Rightarrow> ('f, 'v) reading" where
  "meaning K M 0 e \<eta> = None"
| "meaning K M (Suc k) e \<eta> =
     (let ev = meaning K M k; bd = (\<lambda>ms \<eta>. m_body (meaning K M (k - 1)) ms \<eta> None) in
      case e of
        NameE n \<Rightarrow> d_lookup n \<eta>
      | StringE t \<Rightarrow> Some (ScalarD e)
      | NumberE t \<Rightarrow> Some (ScalarD e)
      | ListE es \<Rightarrow> None
      | FoldE index start until carry initial body \<Rightarrow>
          do { a \<leftarrow> ev start \<eta> \<bind> d_integer; b \<leftarrow> ev until \<eta> \<bind> d_integer; d \<leftarrow> ev initial \<eta>; m_fold (bd body) index carry \<eta> [a..<b] d }
      | CallE op_name args \<Rightarrow> m_call K M ev bd op_name args \<eta>)"

fun m_model :: "('f, 'v) kernels \<Rightarrow> (string \<rightharpoonup> 'f dsl_module) \<Rightarrow> 'f spanned list \<Rightarrow> ('f, 'v) denots \<Rightarrow> 'v option" where
  "m_model K M [] \<eta> = None"
| "m_model K M (m # ms) \<eta> = (case sm_member m of
     LetM n e \<Rightarrow> do { d \<leftarrow> meaning K M 65 e \<eta>; m_model K M ms (\<eta>(n \<mapsto> d)) }
   | YieldM n \<Rightarrow> d_lookup n \<eta> \<bind> d_tensor
   | _ \<Rightarrow> m_model K M ms \<eta>)"

definition modules_of :: "'f document \<Rightarrow> string \<rightharpoonup> 'f dsl_module" where
  "modules_of ast = map_of (map (\<lambda>m. (dm_name m, m)) (doc_modules ast))"

definition document_meaning :: "('f, 'v) kernels \<Rightarrow> 'f document \<Rightarrow> 'v option" where
  "document_meaning K ast = m_model K (modules_of ast) (doc_model ast) Map.empty"

section \<open>Programs of primitive operations\<close>

text \<open>The unnamed arguments of a node name values before it, the named ones are literals.\<close>

fun operand_values :: "(string \<rightharpoonup> 'v) \<Rightarrow> (string option \<times> 'f expr) list \<Rightarrow> 'v list option" where
  "operand_values \<rho> [] = Some []"
| "operand_values \<rho> ((Some k, e) # args) = operand_values \<rho> args"
| "operand_values \<rho> ((None, e) # args) =
     do { x \<leftarrow> (case e of NameE y \<Rightarrow> \<rho> y | _ \<Rightarrow> None); xs \<leftarrow> operand_values \<rho> args; Some (x # xs) }"

fun node_attributes :: "(string option \<times> 'f expr) list \<Rightarrow> (string \<times> 'f expr) list" where
  "node_attributes [] = []"
| "node_attributes ((Some k, e) # args) = (k, e) # node_attributes args"
| "node_attributes ((None, e) # args) = node_attributes args"

definition run_node :: "('f, 'v) kernels \<Rightarrow> 'f spanned \<Rightarrow> (string \<rightharpoonup> 'v) \<Rightarrow> (string \<rightharpoonup> 'v) option" where
  "run_node K m \<rho> = (case sm_member m of
     LetM x (CallE op_name args) \<Rightarrow> do { xs \<leftarrow> operand_values \<rho> args; Some (\<rho>(x \<mapsto> K op_name xs (node_attributes args))) }
   | FieldM n e \<Rightarrow> Some \<rho>
   | _ \<Rightarrow> None)"

fun run_nodes :: "('f, 'v) kernels \<Rightarrow> 'f spanned list \<Rightarrow> (string \<rightharpoonup> 'v) \<Rightarrow> (string \<rightharpoonup> 'v) option" where
  "run_nodes K [] \<rho> = Some \<rho>"
| "run_nodes K (m # ms) \<rho> = do { \<rho> \<leftarrow> run_node K m \<rho>; run_nodes K ms \<rho> }"

fun program_value :: "('f, 'v) kernels \<Rightarrow> 'f spanned list \<Rightarrow> (string \<rightharpoonup> 'v) \<Rightarrow> 'v option" where
  "program_value K [] \<rho> = None"
| "program_value K (m # ms) \<rho> = (case sm_member m of
     YieldM y \<Rightarrow> \<rho> y
   | _ \<Rightarrow> do { \<rho> \<leftarrow> run_node K m \<rho>; program_value K ms \<rho> })"

text \<open>A program in scope: every node a primitive with a fresh name, its operands names of earlier nodes, its attributes
  atoms; the result an earlier node, and nothing after it.\<close>

fun atom :: "'f expr \<Rightarrow> bool" where
  "atom (NameE n) = True"
| "atom (StringE s) = True"
| "atom (NumberE s) = True"
| "atom _ = False"

fun operand_ok :: "string set \<Rightarrow> string option \<times> 'f expr \<Rightarrow> bool" where
  "operand_ok D (Some k, e) = atom e"
| "operand_ok D (None, NameE y) = (y \<in> D)"
| "operand_ok D (None, _) = False"

fun scoped_nodes :: "string set \<Rightarrow> 'f spanned list \<Rightarrow> bool" where
  "scoped_nodes D [] = True"
| "scoped_nodes D (m # ms) = (case sm_member m of
     LetM x (CallE op_name args) \<Rightarrow>
       op_name \<in> set PRIMITIVES \<and> x \<notin> D \<and> list_all (operand_ok D) args \<and> scoped_nodes (insert x D) ms
   | FieldM n e \<Rightarrow> scoped_nodes D ms
   | YieldM y \<Rightarrow> y \<in> D \<and> ms = []
   | _ \<Rightarrow> False)"

end
