(* ===== verification/DSL_Expand_Logic.thy ===== *)
theory DSL_Expand_Logic
  imports DSL_Meaning
begin

text \<open>
  A logic for the expander: \<open>yields K \<rho> f P\<close> says that from a sound state whose nodes have at least the values \<open>\<rho>\<close>, \<open>f\<close> ends in a
  sound state that extends it, does not panic, and if it succeeds, its result has \<open>P\<close>. One rule per
  combinator; what is known of a value stays true as nodes are added.
\<close>

section \<open>Values\<close>

inductive value_means :: "(string \<rightharpoonup> 'v) \<Rightarrow> 'f dsl_value \<Rightarrow> ('f, 'v) denot \<Rightarrow> bool" for \<rho> where
  means_tensor: "\<rho> n = Some x \<Longrightarrow> value_means \<rho> (TensorV n) (TensorD x)"
| means_scalar: "atom e \<Longrightarrow> value_means \<rho> (ScalarV e) (ScalarD e)"
| means_scope: "value_means \<rho> (ScopeV s) (ScopeD s)"
| means_record: "list_all2 (\<lambda>a b. fst a = fst b \<and> value_means \<rho> (snd a) (snd b)) vs ds \<Longrightarrow> value_means \<rho> (RecordV vs) (RecordD ds)"

inductive_simps value_means_simps:
  "value_means \<rho> (TensorV n) d" "value_means \<rho> (ScalarV e) d" "value_means \<rho> (ScopeV s) d" "value_means \<rho> (RecordV vs) d"

abbreviation fields_mean :: "(string \<rightharpoonup> 'v) \<Rightarrow> (string \<times> 'f dsl_value) list \<Rightarrow> (string \<times> ('f, 'v) denot) list \<Rightarrow> bool" where
  "fields_mean \<rho> \<equiv> list_all2 (\<lambda>a b. fst a = fst b \<and> value_means \<rho> (snd a) (snd b))"

lemma value_means_mono: "value_means \<rho> v d \<Longrightarrow> \<rho> \<subseteq>\<^sub>m \<rho>' \<Longrightarrow> value_means \<rho>' v d"
proof (induction rule: value_means.induct)
  case (means_tensor n x)
  then show ?case by (auto intro!: value_means.means_tensor simp: map_le_def dom_def)
next
  case (means_record vs ds)
  then show ?case by (auto intro!: value_means.means_record elim: list_all2_mono)
qed (auto intro: value_means.intros)

lemma fields_mean_lookup:
  "fields_mean \<rho> vs ds \<Longrightarrow> map_of vs f = Some v \<Longrightarrow> \<exists>d. map_of ds f = Some d \<and> value_means \<rho> v d"
  by (induction rule: list_all2_induct) (auto split: if_splits)

lemma fields_mean_insert:
  "fields_mean \<rho> vs ds \<Longrightarrow> value_means \<rho> v d \<Longrightarrow> fields_mean \<rho> (bt_insert n v vs) (bt_insert n d ds)"
  by (induction rule: list_all2_induct) auto

lemma fields_mean_mono:
  assumes "fields_mean \<rho> vs ds" and le: "\<rho> \<subseteq>\<^sub>m \<rho>'"
  shows "fields_mean \<rho>' vs ds"
  using assms(1) by (induction rule: list_all2_induct) (simp_all add: value_means_mono [OF _ le])

definition env_means :: "(string \<rightharpoonup> 'v) \<Rightarrow> 'f dsl_env \<Rightarrow> ('f, 'v) denots \<Rightarrow> bool" where
  "env_means \<rho> env \<eta> \<longleftrightarrow> (\<forall>n. rel_option (value_means \<rho>) (map_of env n) (\<eta> n))"

lemma env_means_empty [simp]: "env_means \<rho> [] Map.empty"
  by (simp add: env_means_def)

lemma env_means_mono:
  assumes "env_means \<rho> env \<eta>" and le: "\<rho> \<subseteq>\<^sub>m \<rho>'"
  shows "env_means \<rho>' env \<eta>"
  unfolding env_means_def
proof
  fix n
  have "rel_option (value_means \<rho>) (map_of env n) (\<eta> n)" using assms(1) by (simp add: env_means_def)
  then show "rel_option (value_means \<rho>') (map_of env n) (\<eta> n)" by cases (simp_all add: value_means_mono [OF _ le])
qed

lemma env_means_insert: "env_means \<rho> env \<eta> \<Longrightarrow> value_means \<rho> v d \<Longrightarrow> env_means \<rho> (bt_insert n v env) (\<eta>(n \<mapsto> d))"
  by (simp add: env_means_def)

lemma env_means_Some: "env_means \<rho> env \<eta> \<Longrightarrow> map_of env n = Some v \<Longrightarrow> \<exists>d. \<eta> n = Some d \<and> value_means \<rho> v d"
  by (metis env_means_def option_rel_Some1)

lemma env_means_None: "env_means \<rho> env \<eta> \<Longrightarrow> map_of env n = None \<longleftrightarrow> \<eta> n = None"
  unfolding env_means_def by (metis option.rel_distinct(1) option.rel_distinct(2) option.exhaust)

section \<open>States\<close>

definition sound :: "('f, 'v) kernels \<Rightarrow> 'f expander \<Rightarrow> (string \<rightharpoonup> 'v) \<Rightarrow> bool" where
  "sound K s \<rho> \<longleftrightarrow> run_nodes K (ex_members s) Map.empty = Some \<rho> \<and> scoped_nodes {} (ex_members s)
     \<and> dom \<rho> = set (bt_keys (ex_origins s)) \<and> bt_wf (ex_origins s) \<and> length (ex_origins s) \<le> 10000"

definition yields :: "('f, 'v) kernels \<Rightarrow> (string \<rightharpoonup> 'v) \<Rightarrow> ('f, 'a) expansion \<Rightarrow> ((string \<rightharpoonup> 'v) \<Rightarrow> 'a \<Rightarrow> bool) \<Rightarrow> bool" where
  "yields K \<rho> f P \<longleftrightarrow> (\<forall>s \<rho>\<^sub>0. sound K s \<rho>\<^sub>0 \<longrightarrow> \<rho> \<subseteq>\<^sub>m \<rho>\<^sub>0 \<longrightarrow>
     (\<exists>\<rho>'. sound K (snd (f s)) \<rho>' \<and> \<rho>\<^sub>0 \<subseteq>\<^sub>m \<rho>' \<and> fst (f s) \<noteq> Panic \<and> (\<forall>v. fst (f s) = Ok v \<longrightarrow> P \<rho>' v)))"

lemma yieldsI:
  assumes "\<And>s \<rho>\<^sub>0. sound K s \<rho>\<^sub>0 \<Longrightarrow> \<rho> \<subseteq>\<^sub>m \<rho>\<^sub>0 \<Longrightarrow>
     \<exists>\<rho>'. sound K (snd (f s)) \<rho>' \<and> \<rho>\<^sub>0 \<subseteq>\<^sub>m \<rho>' \<and> fst (f s) \<noteq> Panic \<and> (\<forall>v. fst (f s) = Ok v \<longrightarrow> P \<rho>' v)"
  shows "yields K \<rho> f P"
  using assms by (simp add: yields_def)

lemma yieldsD:
  assumes "yields K \<rho> f P" and "sound K s \<rho>\<^sub>0" and "\<rho> \<subseteq>\<^sub>m \<rho>\<^sub>0"
  obtains \<rho>' where "sound K (snd (f s)) \<rho>'" "\<rho>\<^sub>0 \<subseteq>\<^sub>m \<rho>'" "fst (f s) \<noteq> Panic" "\<And>v. fst (f s) = Ok v \<Longrightarrow> P \<rho>' v"
  using assms unfolding yields_def by blast

lemma yields_conseq:
  assumes "yields K \<rho> f P" and "\<And>\<rho>' v. \<rho> \<subseteq>\<^sub>m \<rho>' \<Longrightarrow> P \<rho>' v \<Longrightarrow> Q \<rho>' v"
  shows "yields K \<rho> f Q"
  using assms unfolding yields_def by (meson map_le_trans)

lemma yields_give: "(\<And>\<rho>'. \<rho> \<subseteq>\<^sub>m \<rho>' \<Longrightarrow> P \<rho>' v) \<Longrightarrow> yields K \<rho> (give v) P"
  by (rule yieldsI) (auto simp: give_def intro: map_le_refl)

lemma yields_fail: "yields K \<rho> (\<lambda>s. (Err e, s)) P"
  by (rule yieldsI) (auto intro: map_le_refl)

lemma yields_try:
  assumes "x \<noteq> Panic" and "\<And>v. x = Ok v \<Longrightarrow> yields K \<rho> (g v) P"
  shows "yields K \<rho> (try_op x g) P"
  using assms by (cases x) (auto simp: yields_def intro: map_le_refl)

lemma yields_bind:
  assumes f: "yields K \<rho> f P" and g: "\<And>\<rho>' v. \<rho> \<subseteq>\<^sub>m \<rho>' \<Longrightarrow> P \<rho>' v \<Longrightarrow> yields K \<rho>' (g v) Q"
  shows "yields K \<rho> (bind_op f g) Q"
proof (rule yieldsI)
  fix s \<rho>\<^sub>0 assume s: "sound K s \<rho>\<^sub>0" "\<rho> \<subseteq>\<^sub>m \<rho>\<^sub>0"
  obtain \<rho>' where t: "sound K (snd (f s)) \<rho>'" "\<rho>\<^sub>0 \<subseteq>\<^sub>m \<rho>'" "fst (f s) \<noteq> Panic" "\<And>v. fst (f s) = Ok v \<Longrightarrow> P \<rho>' v"
    using f s by (rule yieldsD) blast
  show "\<exists>\<rho>'. sound K (snd (bind_op f g s)) \<rho>' \<and> \<rho>\<^sub>0 \<subseteq>\<^sub>m \<rho>' \<and> fst (bind_op f g s) \<noteq> Panic \<and> (\<forall>v. fst (bind_op f g s) = Ok v \<longrightarrow> Q \<rho>' v)"
  proof (cases "fst (f s)")
    case (Ok v)
    then have fs: "f s = (Ok v, snd (f s))" by (metis prod.collapse)
    have "yields K \<rho>' (g v) Q" using g t(4) [OF Ok] s(2) t(2) by (meson map_le_trans)
    then obtain \<rho>'' where "sound K (snd (g v (snd (f s)))) \<rho>''" "\<rho>' \<subseteq>\<^sub>m \<rho>''" "fst (g v (snd (f s))) \<noteq> Panic"
      "\<And>w. fst (g v (snd (f s))) = Ok w \<Longrightarrow> Q \<rho>'' w"
      using t(1) map_le_refl by (rule yieldsD) blast
    then show ?thesis using t(2) bind_op_simps(1) [of f s v "snd (f s)" g, OF fs] by (metis map_le_trans)
  next
    case (Err e)
    then have "f s = (Err e, snd (f s))" by (metis prod.collapse)
    then have "bind_op f g s = (Err e, snd (f s))" by (rule bind_op_simps)
    then show ?thesis using t by auto
  qed (use t in simp)
qed

lemma yields_state:
  assumes "\<And>s. ex_members (t s) = ex_members s" and "\<And>s. ex_origins (t s) = ex_origins s" and "\<And>\<rho>'. \<rho> \<subseteq>\<^sub>m \<rho>' \<Longrightarrow> P \<rho>' v"
  shows "yields K \<rho> (\<lambda>s. (Ok v, t s)) P"
  by (rule yieldsI) (use assms in \<open>auto simp: sound_def intro: map_le_refl\<close>)

lemma yields_push: "yields K \<rho> (push_frame f) (\<lambda>_ _. True)"
  unfolding push_frame_def by (rule yields_state) auto

lemma yields_pop: "yields K \<rho> pop_frame (\<lambda>_ _. True)"
  unfolding pop_frame_def by (rule yields_state) auto

lemma yields_tick: "yields K \<rho> (tick site) (\<lambda>_ _. True)"
proof (rule yieldsI)
  fix s \<rho>\<^sub>0 assume "sound K s \<rho>\<^sub>0"
  then show "\<exists>\<rho>'. sound K (snd (tick site s)) \<rho>' \<and> \<rho>\<^sub>0 \<subseteq>\<^sub>m \<rho>' \<and> fst (tick site s) \<noteq> Panic \<and> (\<forall>v. fst (tick site s) = Ok v \<longrightarrow> True)"
    by (intro exI [of _ \<rho>\<^sub>0]) (auto simp: tick_def Let_def reject_def give_def sound_def try_op_def split: outcome.splits)
qed

end
