(* ===== verification/DSL_Expand_Thms.thy ===== *)
theory DSL_Expand_Thms
  imports DSL_Expand_Logic
begin

text \<open>
  The expansion of a document preserves its meaning, emits a program in scope and never panics. Each operation of the
  expander is proved in the logic of \<open>DSL_Expand_Logic\<close> from what the evaluations it calls yield;
  the depth of the evaluation is then an induction.
\<close>

section \<open>Operations on values\<close>

lemma outcomes_no_panic [simp]:
  "literal v site \<noteq> Panic" "integer_value v site \<noteq> Panic" "tensor_name v site \<noteq> Panic" "scoped base part site \<noteq> Panic"
  "scope_component v site \<noteq> Panic" "positional args n site \<noteq> Panic" "arith_value op_name a b site \<noteq> Panic"
  by (cases v; auto simp: integer_value_def tensor_name_def scope_component_def scoped_def positional_def arith_value_def Let_def outcome_simps
    split: dsl_value.splits expr.splits)+

lemma literal_means: "literal v site = Ok e \<Longrightarrow> value_means \<rho> v d \<Longrightarrow> d_literal d = Some e \<and> atom e"
  by (cases v) (auto simp: value_means_simps d_literal_def)

lemma integer_means: "integer_value v site = Ok n \<Longrightarrow> value_means \<rho> v d \<Longrightarrow> d_integer d = Some n"
  by (cases v) (auto simp: value_means_simps d_integer_def integer_value_def outcome_simps split: expr.splits)

lemma tensor_means: "tensor_name v site = Ok n \<Longrightarrow> value_means \<rho> v d \<Longrightarrow> \<exists>x. \<rho> n = Some x \<and> d_tensor d = Some x"
  by (cases v) (auto simp: value_means_simps d_tensor_def tensor_name_def)

lemma scoped_path: "scoped base part site = Ok p \<Longrightarrow> scope_path base part = p"
  by (auto simp: scoped_def scope_path_def Let_def outcome_simps)

lemma component_means: "scope_component v site = Ok p \<Longrightarrow> value_means \<rho> v d \<Longrightarrow> d_component d = Some p"
  by (cases v) (auto simp: value_means_simps d_component_def scope_component_def outcome_simps split: expr.splits)

lemma field_walk_no_panic [simp]: "field_walk site fs v \<noteq> Panic"
  by (induction site fs v rule: field_walk.induct) (auto simp: outcome_simps split: dsl_value.splits)

lemma field_walk_means:
  "field_walk site fs v = Ok w \<Longrightarrow> value_means \<rho> v d \<Longrightarrow> \<exists>d'. d_walk fs d = Some d' \<and> value_means \<rho> w d'"
proof (induction fs arbitrary: v d)
  case (Cons f fs)
  from Cons.prems(1) obtain vs x where v: "v = RecordV vs" "map_of vs f = Some x" "field_walk site fs x = Ok w"
    by (auto simp: outcome_simps split: dsl_value.splits)
  from Cons.prems(2) v(1) obtain ds where d: "d = RecordD ds" "fields_mean \<rho> vs ds" by (auto simp: value_means_simps)
  from fields_mean_lookup [OF d(2) v(2)] Cons.IH [OF v(3)] show ?case by (auto simp: d(1))
qed simp

lemma resolve_no_panic [simp]: "resolve_name n env site \<noteq> Panic"
  by (auto simp: resolve_name_def Let_def outcome_simps split: option.splits dsl_value.splits)

lemma resolve_means:
  assumes "resolve_name n env site = Ok v" and env: "env_means \<rho> env \<eta>"
  shows "\<exists>d. d_lookup n \<eta> = Some d \<and> value_means \<rho> v d"
proof (cases "map_of env n")
  case (Some w)
  then show ?thesis using assms env_means_Some [OF env Some] by (auto simp: resolve_name_def d_lookup_def)
next
  case None
  then have fresh: "\<eta> n = None" using env_means_None [OF env] by simp
  let ?root = "takeWhile (\<lambda>c. c \<noteq> CHR ''.'') n"
  show ?thesis
  proof (cases "if CHR ''.'' \<in> set n then map_of env ?root else None")
    case root: None
    then have "(if CHR ''.'' \<in> set n then \<eta> ?root else None) = None" using env_means_None [OF env] by (auto split: if_splits)
    then show ?thesis using assms(1) None fresh root
      by (auto simp: resolve_name_def d_lookup_def Let_def value_means_simps split: if_splits)
  next
    case root: (Some w)
    then obtain d where d: "(if CHR ''.'' \<in> set n then \<eta> ?root else None) = Some d" "value_means \<rho> w d"
      using env_means_Some [OF env, of ?root w] by (auto split: if_splits)
    show ?thesis
    proof (cases "\<exists>b. w = ScopeV b")
      case True
      then obtain b where b: "w = ScopeV b" by blast
      then obtain x where x: "v = ScopeV x" "scoped b (tl (dropWhile (\<lambda>c. c \<noteq> CHR ''.'') n)) site = Ok x"
        using assms(1) None root by (auto simp: resolve_name_def Let_def outcome_simps)
      show ?thesis using fresh d b x(1) scoped_path [OF x(2)] by (auto simp: d_lookup_def Let_def value_means_simps)
    next
      case False
      then have "field_walk site (split_at (CHR ''.'') (tl (dropWhile (\<lambda>c. c \<noteq> CHR ''.'') n))) w = Ok v"
        using assms(1) None root by (auto simp: resolve_name_def Let_def split: dsl_value.splits)
      moreover have "d \<noteq> ScopeD b" for b using d(2) False by (cases w) (auto simp: value_means_simps)
      ultimately show ?thesis using field_walk_means [OF _ d(2)] fresh d(1) by (auto simp: d_lookup_def Let_def split: denot.splits)
    qed
  qed
qed

section \<open>The operations\<close>

text \<open>What an evaluation promises against its reference.\<close>

definition ev_ok :: "('f, 'v) kernels \<Rightarrow> ('f, 'v) reading \<Rightarrow> 'f evaluation \<Rightarrow> bool" where
  "ev_ok K mev ev \<longleftrightarrow> (\<forall>e env path site \<rho> \<eta>. env_means \<rho> env \<eta> \<longrightarrow>
     yields K \<rho> (ev e env path site) (\<lambda>\<rho>' v. \<exists>d. mev e \<eta> = Some d \<and> value_means \<rho>' v d))"

definition bd_ok :: "('f, 'v) kernels \<Rightarrow> ('f, 'v) body_reading \<Rightarrow> 'f body_evaluation \<Rightarrow> bool" where
  "bd_ok K mbd bd \<longleftrightarrow> (\<forall>ms env path \<rho> \<eta>. env_means \<rho> env \<eta> \<longrightarrow>
     yields K \<rho> (bd ms env path) (\<lambda>\<rho>' v. \<exists>d. mbd ms \<eta> = Some d \<and> value_means \<rho>' v d))"

lemma ev_yields:
  "ev_ok K mev ev \<Longrightarrow> env_means \<rho> env \<eta> \<Longrightarrow> yields K \<rho> (ev e env path site) (\<lambda>\<rho>' v. \<exists>d. mev e \<eta> = Some d \<and> value_means \<rho>' v d)"
  by (simp add: ev_ok_def)

lemma ev_bind:
  assumes "ev_ok K mev ev" and "env_means \<rho> env \<eta>"
    and "\<And>\<rho>' v d. \<rho> \<subseteq>\<^sub>m \<rho>' \<Longrightarrow> mev e \<eta> = Some d \<Longrightarrow> value_means \<rho>' v d \<Longrightarrow> env_means \<rho>' env \<eta> \<Longrightarrow> yields K \<rho>' (g v) Q"
  shows "yields K \<rho> (bind_op (ev e env path site) g) Q"
  by (rule yields_bind [OF ev_yields [OF assms(1,2)]]) (use assms(3) env_means_mono [OF assms(2)] in blast)

lemma bd_bind:
  assumes "bd_ok K mbd bd" and "env_means \<rho> env \<eta>"
    and "\<And>\<rho>' v d. \<rho> \<subseteq>\<^sub>m \<rho>' \<Longrightarrow> mbd ms \<eta> = Some d \<Longrightarrow> value_means \<rho>' v d \<Longrightarrow> yields K \<rho>' (g v) Q"
  shows "yields K \<rho> (bind_op (bd ms env path) g) Q"
  by (rule yields_bind [where P = "\<lambda>\<rho>' v. \<exists>d. mbd ms \<eta> = Some d \<and> value_means \<rho>' v d"])
    (use assms in \<open>auto simp: bd_ok_def\<close>)

lemma pure_bind:
  assumes "yields K \<rho> f (\<lambda>_ _. True)" and "\<And>\<rho>' v. \<rho> \<subseteq>\<^sub>m \<rho>' \<Longrightarrow> yields K \<rho>' (g v) Q"
  shows "yields K \<rho> (bind_op f g) Q"
  by (rule yields_bind [OF assms(1)]) (rule assms(2))

lemmas tick_bind = pure_bind [OF yields_tick] and push_bind = pure_bind [OF yields_push] and pop_bind = pure_bind [OF yields_pop]

lemma iterate_fold_yields:
  assumes bd: "bd_ok K mbd bd"
  shows "env_means \<rho> env \<eta> \<Longrightarrow> value_means \<rho> v d \<Longrightarrow>
    yields K \<rho> (iterate_fold bd index carry body env path site shape is v)
      (\<lambda>\<rho>' w. \<exists>d'. m_fold (mbd body) index carry \<eta> is d = Some d' \<and> value_means \<rho>' w d')"
proof (induction "is" arbitrary: \<rho> v d)
  case Nil
  then show ?case by (auto intro!: yields_give dest: value_means_mono)
next
  case (Cons i js)
  have local: "env_means \<rho>' (bt_insert carry v (bt_insert index (ScalarV (NumberE (show_nat i))) env))
      (\<eta>(index \<mapsto> ScalarD (NumberE (show_nat i)), carry \<mapsto> d))" if "\<rho> \<subseteq>\<^sub>m \<rho>'" for \<rho>'
    using env_means_mono [OF Cons.prems(1) that] value_means_mono [OF Cons.prems(2) that] by (intro env_means_insert) (simp_all add: value_means_simps)
  show ?case
    unfolding iterate_fold.simps Let_def
  proof (rule push_bind, rule bd_bind [OF bd local], assumption, rule pop_bind, rule yields_try, simp add: reject_def)
    fix \<rho>\<^sub>1 \<rho>\<^sub>2 \<rho>\<^sub>3 w d' u
    assume le: "\<rho> \<subseteq>\<^sub>m \<rho>\<^sub>1" "\<rho>\<^sub>1 \<subseteq>\<^sub>m \<rho>\<^sub>2" "\<rho>\<^sub>2 \<subseteq>\<^sub>m \<rho>\<^sub>3"
      and w: "mbd body (\<eta>(index \<mapsto> ScalarD (NumberE (show_nat i)), carry \<mapsto> d)) = Some d'" "value_means \<rho>\<^sub>2 w d'"
    then have "env_means \<rho>\<^sub>3 env \<eta>" "value_means \<rho>\<^sub>3 w d'"
      using env_means_mono [OF Cons.prems(1)] value_means_mono [OF w(2)] by (meson map_le_trans)+
    from Cons.IH [OF this] w(1)
    show "yields K \<rho>\<^sub>3 (iterate_fold bd index carry body env path site shape js w)
       (\<lambda>\<rho>' w. \<exists>d'. m_fold (mbd body) index carry \<eta> (i # js) d = Some d' \<and> value_means \<rho>' w d')"
      by simp
  qed
qed

lemma eval_fold_yields:
  assumes ev: "ev_ok K mev ev" and bd: "bd_ok K mbd bd" and env: "env_means \<rho> env \<eta>"
  shows "yields K \<rho> (eval_fold ev bd index start until carry initial body env path site)
    (\<lambda>\<rho>' v. \<exists>d. do { a \<leftarrow> mev start \<eta> \<bind> d_integer; b \<leftarrow> mev until \<eta> \<bind> d_integer; d \<leftarrow> mev initial \<eta>;
        m_fold (mbd body) index carry \<eta> [a..<b] d } = Some d \<and> value_means \<rho>' v d)"
  unfolding eval_fold_def
  apply (rule yields_try, simp add: reject_def)
  apply (rule ev_bind [OF ev env])
  apply (rule yields_try, simp)
  apply (rule ev_bind [OF ev], assumption)
  apply (rule yields_try, simp)
  apply (rule yields_try, simp add: reject_def)
  apply (rule ev_bind [OF ev], assumption)
  apply (rule yields_try, simp add: outcome_simps)
  apply (rule yields_conseq, rule iterate_fold_yields [OF bd], assumption, assumption)
  apply (auto dest!: integer_means)
  done

lemma eval_fields_yields:
  assumes ev: "ev_ok K mev ev"
  shows "env_means \<rho> env \<eta> \<Longrightarrow> fields_mean \<rho> vs ds \<Longrightarrow>
    yields K \<rho> (eval_fields ev env path site args vs) (\<lambda>\<rho>' ws. \<exists>es. m_fields mev \<eta> args ds = Some es \<and> fields_mean \<rho>' ws es)"
proof (induction args arbitrary: \<rho> vs ds)
  case Nil
  then show ?case by (auto intro!: yields_give dest: fields_mean_mono)
next
  case (Cons a args)
  obtain key e where a: "a = (key, e)" by (cases a)
  show ?case unfolding a eval_fields.simps
    apply (rule yields_try, simp add: outcome_simps)
    apply (rule yields_try, simp add: reject_def)
    apply (rule ev_bind [OF ev Cons.prems(1)])
    apply (rule yields_try, simp add: reject_def)
    apply (rule yields_conseq, rule Cons.IH, assumption, rule fields_mean_insert, rule fields_mean_mono [OF Cons.prems(2)], assumption, assumption)
    apply (auto simp: outcome_simps)
    done
qed

lemma eval_record_yields:
  assumes ev: "ev_ok K mev ev" and env: "env_means \<rho> env \<eta>"
  shows "yields K \<rho> (eval_record ev args env path site) (\<lambda>\<rho>' v. \<exists>d. map_option RecordD (m_fields mev \<eta> args []) = Some d \<and> value_means \<rho>' v d)"
  unfolding eval_record_def
  apply (rule yields_try, simp add: reject_def)
  apply (rule yields_bind, rule eval_fields_yields [OF ev env, where ds = "[]"], simp)
  apply (rule yields_try, simp add: reject_def)
  apply (rule yields_give)
  apply (auto simp: value_means_simps dest: fields_mean_mono)
  done

lemma positional_Ok: "positional args n site = Ok u \<Longrightarrow> length args = n"
  by (simp add: positional_def outcome_simps)

lemma eval_choose_yields:
  assumes ev: "ev_ok K mev ev" and env: "env_means \<rho> env \<eta>"
  shows "yields K \<rho> (eval_choose ev args env path site) (\<lambda>\<rho>' v. \<exists>d. m_choose mev \<eta> (map snd args) = Some d \<and> value_means \<rho>' v d)"
  unfolding eval_choose_def
proof (rule yields_try, simp)
  fix u assume "positional args 3 site = Ok u"
  then have "length args = Suc (Suc (Suc 0))" by (auto dest: positional_Ok)
  then obtain c a b where args: "args = [c, a, b]" by (auto simp: length_Suc_conv)
  show "yields K \<rho> (try_op (index_at args 0) (\<lambda>a.
     bind_op (ev (snd a) env path site) (\<lambda>v.
     try_op (case v of ScalarV (NameE c) \<Rightarrow>
               if c = ''true'' then Ok (1::nat) else if c = ''false'' then Ok 2 else Err (site_error site ''choose condition must be boolean'')
             | _ \<Rightarrow> Err (site_error site ''choose condition must be a compile-time boolean'')) (\<lambda>selected.
     try_op (index_at args selected) (\<lambda>b. ev (snd b) env path site)))))
     (\<lambda>\<rho>' v. \<exists>d. m_choose mev \<eta> (map snd args) = Some d \<and> value_means \<rho>' v d)"
    unfolding args
    apply (rule yields_try, simp add: index_at_def)
    apply (rule ev_bind [OF ev env])
    apply (rule yields_try, simp split: dsl_value.split expr.split)
    apply (rule yields_try, fastforce simp: index_at_def split: dsl_value.splits expr.splits if_splits)
    apply (rule yields_conseq, rule ev_yields [OF ev], assumption)
    apply (auto simp: index_at_def m_choose_def value_means_simps split: dsl_value.splits expr.splits if_splits)
    done
qed

lemma extend_scope_yields:
  assumes ev: "ev_ok K mev ev"
  shows "env_means \<rho> env \<eta> \<Longrightarrow> yields K \<rho> (extend_scope ev env path site args scope)
    (\<lambda>\<rho>' v. \<exists>d. m_extend mev \<eta> (map snd args) scope = Some d \<and> value_means \<rho>' v d)"
proof (induction args arbitrary: \<rho> scope)
  case Nil
  then show ?case by (auto intro!: yields_give simp: value_means_simps)
next
  case (Cons a args)
  obtain key e where a: "a = (key, e)" by (cases a)
  show ?case unfolding a extend_scope.simps
    apply (rule ev_bind [OF ev Cons.prems])
    apply (rule yields_try, simp)
    apply (rule yields_try, simp)
    apply (rule yields_conseq, rule Cons.IH, assumption)
    apply (auto dest!: component_means scoped_path)
    done
qed

lemma eval_scope_yields:
  assumes ev: "ev_ok K mev ev" and env: "env_means \<rho> env \<eta>" and op: "op_name = ''weights'' \<or> op_name = ''child''"
  shows "yields K \<rho> (eval_scope ev op_name args env path site) (\<lambda>\<rho>' v. \<exists>d. m_scope mev \<eta> op_name (map snd args) = Some d \<and> value_means \<rho>' v d)"
proof (cases args)
  case Nil
  show ?thesis unfolding eval_scope_def Nil
    apply (rule yields_try, simp add: reject_def)
    using op apply (auto simp: positional_def reject_def)
    done
next
  case (Cons a rest)
  show ?thesis unfolding eval_scope_def Cons
    apply (rule yields_try, simp add: reject_def)
    apply (rule yields_try, simp add: index_at_def)
    apply (rule ev_bind [OF ev env])
    apply (rule yields_try, simp split: dsl_value.split expr.split)
    apply (rule yields_conseq, rule extend_scope_yields [OF ev], assumption)
    using op apply (auto simp: index_at_def m_scope_def value_means_simps scope_path_def split: dsl_value.splits expr.splits if_splits dest!: scoped_path)
    done
qed

lemma arith_means:
  "arith_value op_name a b site = Ok e \<Longrightarrow>
   (if op_name = ''div'' then (if b \<noteq> 0 \<and> b dvd a then Some (ScalarD (NumberE (show_nat (a div b)))) else None)
    else if op_name = ''mod'' then (if b \<noteq> 0 then Some (ScalarD (NumberE (show_nat (a mod b)))) else None)
    else if op_name = ''eq'' then Some (ScalarD (NameE (show_bool (a = b))))
    else Some (ScalarD (NameE (show_bool (a < b))))) = Some (ScalarD e) \<and> atom e"
  by (auto simp: arith_value_def outcome_simps mod_eq_0_iff_dvd split: if_splits)

lemma eval_arith_yields:
  assumes ev: "ev_ok K mev ev" and env: "env_means \<rho> env \<eta>"
  shows "yields K \<rho> (eval_arith ev op_name args env path site) (\<lambda>\<rho>' v. \<exists>d. m_arith mev \<eta> op_name (map snd args) = Some d \<and> value_means \<rho>' v d)"
proof (cases "length args = 2")
  case False
  show ?thesis unfolding eval_arith_def
    by (rule yields_try, simp) (use False in \<open>auto dest: positional_Ok\<close>)
next
  case True
  then obtain x y where args: "args = [x, y]" by (auto simp: length_Suc_conv numeral_2_eq_2)
  show ?thesis unfolding eval_arith_def args
    apply (rule yields_try, simp)
    apply (rule yields_try, simp add: index_at_def)
    apply (rule ev_bind [OF ev env])
    apply (rule yields_try, simp)
    apply (rule yields_try, simp add: index_at_def)
    apply (rule ev_bind [OF ev], assumption)
    apply (rule yields_try, simp)
    apply (rule yields_try, simp)
    apply (rule yields_give)
    apply (drule arith_means)
    apply (drule (1) integer_means)+
    apply (simp add: index_at_def m_arith_def value_means_simps)
    done
qed

lemma bind_arguments_yields:
  assumes ev: "ev_ok K mev ev"
  shows "env_means \<rho> env \<eta> \<Longrightarrow> env_means \<rho> local l \<Longrightarrow>
    yields K \<rho> (bind_arguments ev m op_name env path site args position named local)
      (\<lambda>\<rho>' local'. \<exists>l'. m_bind mev \<eta> (drop position (dm_parameters m)) args l = Some l' \<and> env_means \<rho>' local' l')"
proof (induction args arbitrary: \<rho> local l position named)
  case Nil
  then show ?case by (auto intro!: yields_give dest: env_means_mono)
next
  case (Cons a args)
  have next_env: "env_means \<rho>' (bt_insert k v local) (l(k \<mapsto> d))" if "\<rho> \<subseteq>\<^sub>m \<rho>'" "value_means \<rho>' v d" for \<rho>' k v d
    by (intro env_means_insert env_means_mono [OF Cons.prems(2)] that)
  show ?case
  proof (cases a)
    case (Pair key e)
    show ?thesis
    proof (cases key)
      case None
      show ?thesis unfolding Pair None bind_arguments.simps
        apply (rule yields_try, simp add: outcome_simps)
        apply (clarsimp simp: outcome_simps get_at_Some_iff)
        apply (rule ev_bind [OF ev Cons.prems(1)])
        apply (rule yields_try, simp add: reject_def)
        apply (rule yields_conseq, rule Cons.IH, assumption, rule next_env, assumption, assumption)
        apply (simp add: Cons_nth_drop_Suc [symmetric] fun_upd_def)
        done
    next
      case (Some k)
      show ?thesis unfolding Pair Some bind_arguments.simps
        apply (rule yields_try, simp add: outcome_simps)
        apply (clarsimp simp: outcome_simps)
        apply (rule ev_bind [OF ev Cons.prems(1)])
        apply (rule yields_try, simp add: reject_def)
        apply (rule yields_conseq, rule Cons.IH, assumption, rule next_env, assumption, assumption)
        apply (simp add: fun_upd_def)
        done
    qed
  qed
qed

lemma eval_module_yields:
  assumes ev: "ev_ok K mev ev" and bd: "bd_ok K mbd bd" and env: "env_means \<rho> env \<eta>"
  shows "yields K \<rho> (eval_module ev bd m op_name args env path site)
    (\<lambda>\<rho>' v. \<exists>d. do { l \<leftarrow> m_bind mev \<eta> (dm_parameters m) args Map.empty; mbd (dm_body m) l } = Some d \<and> value_means \<rho>' v d)"
  unfolding eval_module_def
  apply (rule yields_bind, rule bind_arguments_yields [OF ev env, where l = Map.empty], simp)
  apply (rule yields_try, simp add: reject_def)
  apply (rule push_bind)
  apply (elim exE conjE)
  apply (rule bd_bind [OF bd], erule (1) env_means_mono)
  apply (rule pop_bind)
  apply (rule yields_give)
  apply (metis bind.bind_lunit drop0 map_le_trans value_means_mono)
  done

section \<open>Primitives\<close>

lemma operand_values_mono: "operand_values \<rho> xs = Some vs \<Longrightarrow> \<rho> \<subseteq>\<^sub>m \<rho>' \<Longrightarrow> operand_values \<rho>' xs = Some vs"
  by (induction \<rho> xs arbitrary: vs rule: operand_values.induct)
    (auto simp: map_le_def dom_def bind_eq_Some_conv split: expr.splits)

lemma operand_ok_mono: "list_all (operand_ok D) xs \<Longrightarrow> D \<subseteq> D' \<Longrightarrow> list_all (operand_ok D') xs"
proof (induction xs)
  case (Cons a xs)
  then show ?case by (cases "(D, a)" rule: operand_ok.cases) auto
qed simp

lemma eval_operands_yields:
  assumes ev: "ev_ok K mev ev"
  shows "env_means \<rho> env \<eta> \<Longrightarrow> yields K \<rho> (eval_operands ev env path site i args)
    (\<lambda>\<rho>' xs. \<exists>vs. m_operands mev \<eta> args = Some (vs, node_attributes xs) \<and> operand_values \<rho>' xs = Some vs \<and> list_all (operand_ok (dom \<rho>')) xs)"
proof (induction args arbitrary: \<rho> i)
  case Nil
  then show ?case by (auto intro!: yields_give)
next
  case (Cons a args)
  have rest: "yields K \<rho>' (bind_op (eval_operands ev env path site (i + 1) args) (\<lambda>xs. give (x # xs))) P"
    if "\<rho> \<subseteq>\<^sub>m \<rho>'" and "\<And>\<rho>'' xs vs. \<rho>' \<subseteq>\<^sub>m \<rho>'' \<Longrightarrow> m_operands mev \<eta> args = Some (vs, node_attributes xs) \<Longrightarrow> operand_values \<rho>'' xs = Some vs \<Longrightarrow>
        list_all (operand_ok (dom \<rho>'')) xs \<Longrightarrow> P \<rho>'' (x # xs)" for \<rho>' x P
    apply (rule yields_bind, rule Cons.IH [OF env_means_mono [OF Cons.prems that(1)]])
    apply (rule yields_give)
    apply (elim exE conjE)
    apply (rule that(2))
    apply (auto intro: operand_values_mono operand_ok_mono [OF _ map_le_implies_dom_le] map_le_trans)
    done
  show ?case
  proof (cases a)
    case (Pair key e)
    show ?thesis
    proof (cases key)
      case None
      show ?thesis unfolding Pair None eval_operands.simps
        apply simp
        apply (rule ev_bind [OF ev Cons.prems])
        apply (rule yields_try, simp add: outcome_simps)
        apply (rule rest [simplified], assumption)
        apply (auto simp: outcome_simps dest!: tensor_means)
        apply (auto simp: map_le_def dom_def)
        done
    next
      case (Some k)
      have attribute: "yields K \<rho> (case (Some k, e) of
         (Some _, NameE n) \<Rightarrow>
           if map_of env n = None \<and> CHR ''.'' \<notin> set n then give (ScalarV e) else ev e env (path @ ''.arg'' @ show_nat i) site
       | _ \<Rightarrow> ev e env (path @ ''.arg'' @ show_nat i) site) (\<lambda>\<rho>' v. \<forall>x. literal v site = Ok x \<longrightarrow> m_attribute mev \<eta> e = Some x \<and> atom x)"
        apply (cases "\<exists>n. e = NameE n \<and> map_of env n = None \<and> CHR ''.'' \<notin> set n")
        apply (use env_means_None [OF Cons.prems] in \<open>auto intro!: yields_give simp: m_attribute_def\<close>) []
        apply (rule yields_conseq [where P = "\<lambda>\<rho>' v. \<exists>d. mev e \<eta> = Some d \<and> value_means \<rho>' v d"])
        apply (use ev_yields [OF ev Cons.prems] in \<open>auto split: expr.split\<close>) []
        apply (use env_means_None [OF Cons.prems] in \<open>auto simp: m_attribute_def dest!: literal_means split: expr.split\<close>)
        done
      show ?thesis unfolding Pair Some eval_operands.simps
        apply (rule yields_bind [OF attribute])
        apply (rule yields_try, simp add: outcome_simps)
        apply (rule rest, assumption)
        apply (auto simp: outcome_simps)
        done
    qed
  qed
qed

lemma run_nodes_append: "run_nodes K (ms @ ns) \<rho> = run_nodes K ms \<rho> \<bind> run_nodes K ns"
  by (induction ms arbitrary: \<rho>) (auto split: bind_split)

lemma scoped_nodes_append:
  "run_nodes K ms \<rho> = Some \<rho>' \<Longrightarrow> scoped_nodes (dom \<rho>) (ms @ ns) \<longleftrightarrow> scoped_nodes (dom \<rho>) ms \<and> scoped_nodes (dom \<rho>') ns"
proof (induction ms arbitrary: \<rho>)
  case (Cons m ms)
  from Cons.prems obtain \<rho>\<^sub>1 where step: "run_node K m \<rho> = Some \<rho>\<^sub>1" "run_nodes K ms \<rho>\<^sub>1 = Some \<rho>'" by (auto simp: bind_eq_Some_conv)
  show ?case
  proof (cases "\<exists>x op_name xs. sm_member m = LetM x (CallE op_name xs)")
    case True
    then obtain x op_name xs where m: "sm_member m = LetM x (CallE op_name xs)" by blast
    then have "dom \<rho>\<^sub>1 = insert x (dom \<rho>)" using step(1) by (auto simp: run_node_def bind_eq_Some_conv)
    then show ?thesis using Cons.IH [OF step(2)] m by simp
  next
    case False
    then obtain n e where "sm_member m = FieldM n e" "\<rho>\<^sub>1 = \<rho>" using step(1) by (auto simp: run_node_def split: member.splits expr.splits)
    then show ?thesis using Cons.IH [OF step(2)] by simp
  qed
qed simp

lemma length_bt_insert_present: "bt_wf m \<Longrightarrow> k \<in> fst ` set m \<Longrightarrow> length (bt_insert k v m) = length m"
  using distinct_card [OF bt_wf_distinct [of "bt_insert k v m"]] distinct_card [OF bt_wf_distinct [of m]]
  by (simp add: bt_wf_insert insert_absorb)

lemma emit_node_yields:
  assumes prim: "op_name \<in> set PRIMITIVES" and vs: "operand_values \<rho> xs = Some vs" and ok: "list_all (operand_ok (dom \<rho>)) xs"
  shows "yields K \<rho> (emit_node op_name xs path site) (\<lambda>\<rho>' v. value_means \<rho>' v (TensorD (K op_name vs (node_attributes xs))))"
proof (rule yieldsI)
  fix s \<rho>\<^sub>0 assume s: "sound K s \<rho>\<^sub>0" and le: "\<rho> \<subseteq>\<^sub>m \<rho>\<^sub>0"
  let ?x = "K op_name vs (node_attributes xs)" and ?m = "Spanned (sm_start site) (sm_end site) (LetM path (CallE op_name xs))"
  show "\<exists>\<rho>'. sound K (snd (emit_node op_name xs path site s)) \<rho>' \<and> \<rho>\<^sub>0 \<subseteq>\<^sub>m \<rho>' \<and> fst (emit_node op_name xs path site s) \<noteq> Panic \<and>
      (\<forall>v. fst (emit_node op_name xs path site s) = Ok v \<longrightarrow> value_means \<rho>' v (TensorD ?x))"
  proof (cases "length (ex_origins s) \<ge> 10000 \<or> map_of (ex_origins s) path \<noteq> None")
    case True
    moreover have "sound K (s\<lparr>ex_origins := bt_insert path or (ex_origins s)\<rparr>) \<rho>\<^sub>0" if "map_of (ex_origins s) path \<noteq> None" for or
      using s that by (auto simp: sound_def map_of_eq_None_iff insert_absorb length_bt_insert_present bt_wf_insert)
    ultimately show ?thesis using s by (intro exI [of _ \<rho>\<^sub>0]) (auto simp: emit_node_def reject_def Let_def)
  next
    case False
    then have fresh: "path \<notin> set (bt_keys (ex_origins s))" by (simp add: map_of_eq_None_iff)
    have run: "run_nodes K [?m] \<rho>\<^sub>0 = Some (\<rho>\<^sub>0(path \<mapsto> ?x))"
      using operand_values_mono [OF vs le] by (simp add: run_node_def)
    have "scoped_nodes (dom \<rho>\<^sub>0) [?m]"
      using prim operand_ok_mono [OF ok map_le_implies_dom_le [OF le]] fresh s by (simp add: sound_def)
    then have "sound K (s\<lparr>ex_origins := bt_insert path or (ex_origins s), ex_members := ex_members s @ [?m]\<rparr>) (\<rho>\<^sub>0(path \<mapsto> ?x))" for or
      using s False run fresh scoped_nodes_append [of K "ex_members s" Map.empty \<rho>\<^sub>0]
      by (auto simp: sound_def run_nodes_append length_bt_insert_fresh bt_wf_insert)
    moreover have "\<rho>\<^sub>0 \<subseteq>\<^sub>m \<rho>\<^sub>0(path \<mapsto> ?x)" using fresh s by (auto simp: sound_def map_le_def)
    ultimately show ?thesis using False
      by (intro exI [of _ "\<rho>\<^sub>0(path \<mapsto> ?x)"]) (simp add: emit_node_def reject_def Let_def value_means_simps)
  qed
qed

lemma eval_primitive_yields:
  assumes ev: "ev_ok K mev ev" and env: "env_means \<rho> env \<eta>"
  shows "yields K \<rho> (eval_primitive ev op_name args env path site)
    (\<lambda>\<rho>' v. \<exists>d. do { (xs, as) \<leftarrow> m_operands mev \<eta> args; Some (TensorD (K op_name xs as)) } = Some d \<and> value_means \<rho>' v d)"
  unfolding eval_primitive_def
  apply (rule yields_try, simp add: reject_def)
  apply (rule yields_bind, rule eval_operands_yields [OF ev env])
  apply (elim exE conjE)
  apply (rule yields_conseq, rule emit_node_yields)
  apply (auto simp: outcome_simps)
  done

section \<open>The evaluator\<close>

lemma eval_call_yields:
  assumes ev: "ev_ok K mev ev" and bd: "bd_ok K mbd bd" and env: "env_means \<rho> env \<eta>"
  shows "yields K \<rho> (eval_call M ev bd op_name args env path site)
    (\<lambda>\<rho>' v. \<exists>d. m_call K (map_of M) mev mbd op_name args \<eta> = Some d \<and> value_means \<rho>' v d)"
  using eval_record_yields [OF ev env] eval_choose_yields [OF ev env] eval_scope_yields [OF ev env] eval_arith_yields [OF ev env]
    eval_module_yields [OF ev bd env] eval_primitive_yields [OF ev env]
  by (simp add: eval_call_def m_call_def split: option.split)

lemma eval_body_yields:
  assumes ev: "ev_ok K mev ev"
  shows "env_means \<rho> env \<eta> \<Longrightarrow> rel_option (value_means \<rho>) result r \<Longrightarrow>
    yields K \<rho> (eval_body ev ms env prefix result) (\<lambda>\<rho>' v. \<exists>d. m_body mev ms \<eta> r = Some d \<and> value_means \<rho>' v d)"
proof (induction ms arbitrary: \<rho> env \<eta> result r)
  case Nil
  then show ?case
    by (cases result) (auto intro!: yields_give yields_fail yields_try simp: outcome_simps option_rel_Some1 dest: value_means_mono)
next
  case (Cons m ms)
  have result: "rel_option (value_means \<rho>') result r" if "\<rho> \<subseteq>\<^sub>m \<rho>'" for \<rho>'
    using Cons.prems(2) by cases (simp_all add: value_means_mono [OF _ that])
  show ?case unfolding eval_body.simps
  proof (rule tick_bind, rule yields_try, simp add: reject_def)
    fix \<rho>' u assume le: "\<rho> \<subseteq>\<^sub>m \<rho>'"
    note env = env_means_mono [OF Cons.prems(1) le]
    show "yields K \<rho>' (case sm_member m of
       LetM n e \<Rightarrow>
         try_op (reject (map_of env n \<noteq> None) (site_error m (''duplicate local binding '' @ n))) (\<lambda>_.
         bind_op (ev e env (prefix @ ''.'' @ n) m) (\<lambda>v. eval_body ev ms (bt_insert n v env) prefix result))
     | YieldM n \<Rightarrow> try_op (resolve_name n env m) (\<lambda>v. eval_body ev ms env prefix (Some v))
     | _ \<Rightarrow> (\<lambda>s. (Err (site_error m ''module/fold bodies contain only let and yield''), s)))
     (\<lambda>\<rho>' v. \<exists>d. m_body mev (m # ms) \<eta> r = Some d \<and> value_means \<rho>' v d)"
    proof (cases "sm_member m")
      case (LetM n e)
      show ?thesis unfolding LetM member.case
        apply (rule yields_try, simp add: reject_def)
        apply (rule ev_bind [OF ev env])
        apply (rule yields_conseq, rule Cons.IH [OF env_means_insert result], assumption, assumption, erule map_le_trans [OF le])
        apply (simp add: LetM fun_upd_def)
        done
    next
      case (YieldM n)
      show ?thesis unfolding YieldM member.case
        apply (rule yields_try, simp)
        apply (drule resolve_means [OF _ env])
        apply (elim exE conjE)
        apply (rule yields_conseq, rule Cons.IH [OF env, where r = "Some _"], simp)
        apply (simp add: YieldM)
        done
    qed (simp_all add: yields_fail)
  qed
qed

lemma eval_expr_yields:
  fixes K :: "('f, 'v) kernels"
  assumes ev: "ev_ok K (meaning K (map_of M) k) ev" and bd: "bd_ok K (\<lambda>ms \<eta>. m_body (meaning K (map_of M) (k - 1)) ms \<eta> None) bd"
  shows "ev_ok K (meaning K (map_of M) (Suc k)) (eval_expr M ev bd)"
  unfolding ev_ok_def
proof (intro allI impI)
  fix e env path site and \<rho> :: "string \<rightharpoonup> 'v" and \<eta> :: "('f, 'v) denots"
  assume env0: "env_means \<rho> env \<eta>"
  show "yields K \<rho> (eval_expr M ev bd e env path site) (\<lambda>\<rho>' v. \<exists>d. meaning K (map_of M) (Suc k) e \<eta> = Some d \<and> value_means \<rho>' v d)"
    unfolding eval_expr_def
  proof (rule tick_bind, rule yields_try, simp add: reject_def)
    fix \<rho>' u assume "\<rho> \<subseteq>\<^sub>m \<rho>'"
    then have env: "env_means \<rho>' env \<eta>" by (rule env_means_mono [OF env0])
    show "yields K \<rho>' (case e of
       NameE n \<Rightarrow> (\<lambda>s. try_op (resolve_name n env site) give s)
     | StringE t \<Rightarrow> give (ScalarV (StringE t))
     | NumberE t \<Rightarrow> give (ScalarV (NumberE t))
     | ListE es \<Rightarrow> (\<lambda>s. (Err (site_error site ''list is not a token-graph value''), s))
     | FoldE index start until carry initial body \<Rightarrow> eval_fold ev bd index start until carry initial body env path site
     | CallE op_name args \<Rightarrow> eval_call M ev bd op_name args env path site)
     (\<lambda>\<rho>' v. \<exists>d. meaning K (map_of M) (Suc k) e \<eta> = Some d \<and> value_means \<rho>' v d)"
    proof (cases e)
      case (NameE n)
      have "yields K \<rho>' (try_op (resolve_name n env site) give) (\<lambda>\<rho>' v. \<exists>d. d_lookup n \<eta> = Some d \<and> value_means \<rho>' v d)"
        by (rule yields_try) (auto intro!: yields_give dest!: resolve_means [OF _ env] intro: value_means_mono)
      then show ?thesis by (simp add: NameE)
    next
      case (FoldE index start until carry initial body)
      then show ?thesis using eval_fold_yields [OF ev bd env] by (simp add: Let_def)
    next
      case (CallE op_name args)
      then show ?thesis using eval_call_yields [OF ev bd env] by (simp add: Let_def)
    qed (auto intro!: yields_give yields_fail simp: value_means_simps)
  qed
qed

lemma eval_at_ok: "ev_ok K (meaning K (map_of M) k) (eval_at M k)"
proof (induction k rule: less_induct)
  case (less k)
  show ?case
  proof (cases k)
    case 0
    show ?thesis unfolding 0 ev_ok_def eval_at.simps by (intro allI impI tick_bind yields_fail)
  next
    case (Suc j)
    then have ev: "ev_ok K (meaning K (map_of M) j) (eval_at M j)" "ev_ok K (meaning K (map_of M) (j - 1)) (eval_at M (j - 1))"
      using less [of j] less [of "j - 1"] by simp_all
    have "bd_ok K (\<lambda>ms \<eta>. m_body (meaning K (map_of M) (j - 1)) ms \<eta> None) (\<lambda>ms env prefix. eval_body (eval_at M (j - 1)) ms env prefix None)"
      unfolding bd_ok_def by (intro allI impI eval_body_yields [OF ev(2)]) simp_all
    from eval_expr_yields [OF ev(1) this] show ?thesis unfolding Suc eval_at.simps .
  qed
qed

section \<open>The model\<close>

lemma program_value_append: "run_nodes K ms \<rho> = Some \<rho>' \<Longrightarrow> program_value K (ms @ ns) \<rho> = program_value K ns \<rho>'"
proof (induction ms arbitrary: \<rho>)
  case (Cons m ms)
  then show ?case by (auto simp: bind_eq_Some_conv run_node_def split: member.splits)
qed simp

lemma program_value_run: "run_nodes K ms \<rho> = Some \<rho>' \<Longrightarrow> program_value K ms \<rho> = None"
  using program_value_append [of K ms \<rho> \<rho>' "[]"] by simp

text \<open>What an expanded model is: the nodes of a sound state, with or without a result.\<close>

definition expanded :: "('f, 'v) kernels \<Rightarrow> 'v option \<Rightarrow> 'f expander \<Rightarrow> bool" where
  "expanded K r s \<longleftrightarrow> (\<exists>nodes \<rho>. sound K (s\<lparr>ex_members := nodes\<rparr>) \<rho> \<and>
     (r = None \<and> ex_members s = nodes \<or> (\<exists>a b y x. r = Some x \<and> \<rho> y = Some x \<and> ex_members s = nodes @ [Spanned a b (YieldM y)])))"

lemma expand_members_yielded:
  "tp_yielded t \<Longrightarrow> expand_members M ms t s = (r, s') \<Longrightarrow> r \<noteq> Panic \<and> (\<forall>t'. r = Ok t' \<longrightarrow> s' = s)"
  by (cases ms) (auto simp: give_def expand_member_def reject_def bind_op_eq)

lemma expand_members_expanded:
  "sound K s \<rho> \<Longrightarrow> env_means \<rho> (tp_env t) \<eta> \<Longrightarrow> \<not> tp_yielded t \<Longrightarrow> expand_members M ms t s = (r, s') \<Longrightarrow>
   r \<noteq> Panic \<and> (\<forall>t'. r = Ok t' \<longrightarrow> expanded K (m_model K (map_of M) ms \<eta>) s')"
proof (induction ms arbitrary: s \<rho> t \<eta>)
  case Nil
  then show ?case by (auto simp: give_def expanded_def intro!: exI [of _ "ex_members s"] exI [of _ \<rho>])
next
  case (Cons m ms)
  show ?case
  proof (cases "sm_member m")
    case (LetM n e)
    show ?thesis
    proof (cases "map_of (tp_env t) n")
      case None
      obtain \<rho>' where ev: "sound K (snd (eval_at M 65 e (tp_env t) n m s)) \<rho>'" "\<rho> \<subseteq>\<^sub>m \<rho>'" "fst (eval_at M 65 e (tp_env t) n m s) \<noteq> Panic"
        "\<And>v. fst (eval_at M 65 e (tp_env t) n m s) = Ok v \<Longrightarrow> \<exists>d. meaning K (map_of M) 65 e \<eta> = Some d \<and> value_means \<rho>' v d"
        by (rule yieldsD [OF ev_yields [OF eval_at_ok Cons.prems(2)] Cons.prems(1) map_le_refl]) blast
      show ?thesis
      proof (cases "fst (eval_at M 65 e (tp_env t) n m s)")
        case (Ok v)
        obtain d where d: "meaning K (map_of M) 65 e \<eta> = Some d" "value_means \<rho>' v d" using ev(4) [OF Ok] by blast
        obtain s1 where s1: "eval_at M 65 e (tp_env t) n m s = (Ok v, s1)" using Ok by (metis prod.collapse)
        then have "expand_members M ms (t\<lparr>tp_env := bt_insert n v (tp_env t)\<rparr>) s1 = (r, s')"
          using Cons.prems(3,4) LetM None by (simp add: expand_member_def reject_def give_def bind_op_def)
        from Cons.IH [OF ev(1) [unfolded s1 snd_conv] _ _ this, of "\<eta>(n \<mapsto> d)"] show ?thesis
          using env_means_insert [OF env_means_mono [OF Cons.prems(2) ev(2)] d(2)] Cons.prems(3) d(1) LetM by (simp add: fun_upd_def)
      next
        case (Err e')
        then obtain s1 where "eval_at M 65 e (tp_env t) n m s = (Err e', s1)" by (metis prod.collapse)
        then show ?thesis using Cons.prems(3,4) LetM None by (auto simp: expand_member_def reject_def bind_op_def)
      qed (use ev(3) in simp)
    qed (use Cons.prems(3,4) LetM in \<open>auto simp: expand_member_def reject_def bind_op_def\<close>)
  next
    case (YieldM n)
    let ?x = "and_then (resolve_name n (tp_env t) m) (\<lambda>v. tensor_name v m)"
    have safe: "?x \<noteq> Panic" by (simp add: outcome_simps)
    show ?thesis
    proof (cases ?x)
      case (Ok y)
      then obtain v where v: "resolve_name n (tp_env t) m = Ok v" "tensor_name v m = Ok y" by (auto simp: outcome_simps)
      obtain d x where x: "d_lookup n \<eta> = Some d" "\<rho> y = Some x" "d_tensor d = Some x"
        using resolve_means [OF v(1) Cons.prems(2)] tensor_means [OF v(2)] by blast
      let ?s = "s\<lparr>ex_members := ex_members s @ [Spanned (sm_start m) (sm_end m) (YieldM y)]\<rparr>"
      have "expand_members M ms (t\<lparr>tp_yielded := True\<rparr>) ?s = (r, s')"
        using Cons.prems(3,4) YieldM Ok by (simp add: expand_member_def reject_def bind_op_def)
      then have "r \<noteq> Panic \<and> (\<forall>t'. r = Ok t' \<longrightarrow> s' = ?s)" by (intro expand_members_yielded) simp_all
      moreover have "expanded K (Some x) ?s"
        using Cons.prems(1) x(2) by (auto simp: expanded_def intro!: exI [of _ "ex_members s"] exI [of _ \<rho>])
      ultimately show ?thesis using YieldM x by auto
    qed (use safe Cons.prems(3,4) YieldM in \<open>auto simp: expand_member_def reject_def bind_op_def\<close>)
  next
    case (FieldM n e)
    let ?s = "s\<lparr>ex_members := ex_members s @ [m]\<rparr>"
    have "sound K ?s \<rho>" using Cons.prems(1) FieldM scoped_nodes_append [of K "ex_members s" Map.empty \<rho> "[m]"]
      by (simp add: sound_def run_nodes_append run_node_def)
    moreover have "expand_members M ms t ?s = (r, s')" using Cons.prems(3,4) FieldM by (simp add: expand_member_def reject_def bind_op_def)
    ultimately show ?thesis using Cons.IH [OF _ Cons.prems(2,3)] FieldM by simp
  qed (use Cons.prems(3,4) in \<open>auto simp: expand_member_def reject_def bind_op_def\<close>)
qed

fun node_names :: "'f spanned list \<Rightarrow> string list" where
  "node_names [] = []"
| "node_names (m # ms) = (case sm_member m of LetM x e \<Rightarrow> x # node_names ms | _ \<Rightarrow> node_names ms)"

lemma run_nodes_dom: "run_nodes K ms \<rho> = Some \<rho>' \<Longrightarrow> dom \<rho>' = dom \<rho> \<union> set (node_names ms)"
proof (induction ms arbitrary: \<rho>)
  case (Cons m ms)
  then obtain \<rho>\<^sub>1 where step: "run_node K m \<rho> = Some \<rho>\<^sub>1" "run_nodes K ms \<rho>\<^sub>1 = Some \<rho>'" by (auto simp: bind_eq_Some_conv)
  have "dom \<rho>\<^sub>1 = dom \<rho> \<union> set (node_names [m])"
    using step(1) by (auto simp: run_node_def bind_eq_Some_conv split: member.splits expr.splits)
  then show ?case using Cons.IH [OF step(2)] by (auto split: member.splits)
qed simp

lemma node_names_append: "node_names (ms @ ns) = node_names ms @ node_names ns"
  by (induction ms) (auto split: member.splits)

lemma expanded_program:
  assumes "expanded K r s"
  shows "program_value K (ex_members s) Map.empty = r \<and> scoped_nodes {} (ex_members s)
    \<and> set (bt_keys (ex_origins s)) = set (node_names (ex_members s)) \<and> length (ex_origins s) \<le> 10000"
proof -
  obtain nodes \<rho> where s: "sound K (s\<lparr>ex_members := nodes\<rparr>) \<rho>"
    and r: "r = None \<and> ex_members s = nodes \<or> (\<exists>a b y x. r = Some x \<and> \<rho> y = Some x \<and> ex_members s = nodes @ [Spanned a b (YieldM y)])"
    using assms by (auto simp: expanded_def)
  have run: "run_nodes K nodes Map.empty = Some \<rho>" "scoped_nodes {} nodes" "set (bt_keys (ex_origins s)) = set (node_names nodes)"
    "length (ex_origins s) \<le> 10000"
    using s run_nodes_dom [of K nodes Map.empty \<rho>] by (auto simp: sound_def)
  from r show ?thesis
    using run program_value_run [OF run(1)] program_value_append [OF run(1)] scoped_nodes_append [OF run(1)]
    by (auto simp: node_names_append)
qed

section \<open>Module calls\<close>

lemma visit_runs:
  "bs_wf active \<Longrightarrow> set active \<subseteq> set (bt_keys deps) \<Longrightarrow> n \<in> set (bt_keys deps) \<Longrightarrow> length deps < fuel + length active \<Longrightarrow>
   visit fuel deps n (active, visited) \<noteq> Panic \<and> (\<forall>marks. visit fuel deps n (active, visited) = Ok marks \<longrightarrow> fst marks = active)"
proof (induction fuel arbitrary: n active visited)
  case 0
  have "length active = card (set active)" using bs_wf_distinct [OF 0(1)] by (simp add: distinct_card)
  also have "\<dots> \<le> card (set (bt_keys deps))" using 0(2) by (intro card_mono) simp_all
  also have "\<dots> \<le> length deps" using card_length [of "bt_keys deps"] by simp
  finally show ?case using 0(4) by simp
next
  case (Suc fuel)
  show ?case
  proof (cases "n \<in> set visited \<or> n \<in> set active")
    case True
    then show ?thesis by (auto simp: reject_def)
  next
    case False
    obtain nexts where nexts: "map_of deps n = Some nexts" using Suc.prems(3) by (metis map_of_eq_None_iff not_None_eq list.set_map)
    let ?active = "bs_insert n active" and ?f = "\<lambda>next marks. if map_of deps next \<noteq> None then visit fuel deps next marks else Ok marks"
    have act: "bs_wf ?active" "set ?active \<subseteq> set (bt_keys deps)" "length ?active = Suc (length active)" "bs_remove n ?active = active"
      using Suc.prems False bs_ext [of "bs_remove n ?active" active] mset_bs_insert [of n active]
      by (auto simp: bs_wf_insert bs_wf_remove dest: arg_cong [where f = size])
    have visit: "visit fuel deps next (?active, v) \<noteq> Panic \<and> (\<forall>marks. visit fuel deps next (?active, v) = Ok marks \<longrightarrow> fst marks = ?active)"
      if "map_of deps next \<noteq> None" for "next" v
      by (rule Suc.IH [OF act(1,2)]) (use that Suc.prems(4) act(3) in \<open>auto simp: map_of_eq_None_iff\<close>)
    have step: "?f next marks \<noteq> Panic" "?f next marks = Ok marks' \<Longrightarrow> fst marks' = ?active" if "fst marks = ?active" for "next" marks marks'
      using visit [of "next" "snd marks"] that by (cases marks; simp split: if_splits)+
    have "fold_out ?f nexts (?active, visited) \<noteq> Panic"
      by (rule fold_out_prefix_no_panic [where P = "\<lambda>_ marks. fst marks = ?active"]) (simp, erule step, erule (1) step)
    moreover have "fst marks = ?active" if "fold_out ?f nexts (?active, visited) = Ok marks" for marks
      by (rule fold_out_invariant [OF that]) (simp, erule (1) step)
    ultimately show ?thesis using False nexts act(4) by (fastforce simp: reject_def outcome_simps)
  qed
qed

lemma visit_all_no_panic: "visit_all deps \<noteq> Panic"
  unfolding visit_all_def
proof (rule fold_out_prefix_no_panic [where P = "\<lambda>_ _. True"])
  fix ys n zs visited assume "bt_keys deps = ys @ n # zs"
  then have "n \<in> set (bt_keys deps)" by simp
  then have "visit (Suc (length deps)) deps n ([], visited) \<noteq> Panic" using visit_runs [of "[]" deps n "Suc (length deps)" visited] by simp
  then show "and_then (visit (Suc (length deps)) deps n ([], visited)) (\<lambda>marks. Ok (snd marks)) \<noteq> Panic" by (simp add: outcome_simps)
qed simp_all

definition calls_of :: "'f dsl_module \<Rightarrow> string btset" where
  "calls_of m = fold spanned_dependencies (dm_body m) []"

lemma add_modules:
  assumes "fold_out add_module ms ([], []) = Ok (M, deps)"
  shows "map_of M = map_of (map (\<lambda>m. (dm_name m, m)) ms) \<and> map_of deps = map_of (map (\<lambda>m. (dm_name m, calls_of m)) ms)"
proof -
  have "map_of (fst (M, deps)) = map_of (map (\<lambda>m. (dm_name m, m)) ms) \<and> map_of (snd (M, deps)) = map_of (map (\<lambda>m. (dm_name m, calls_of m)) ms)"
    using assms
  proof (rule fold_out_prefix [where P = "\<lambda>ys c. map_of (fst c) = map_of (map (\<lambda>m. (dm_name m, m)) ys) \<and>
      map_of (snd c) = map_of (map (\<lambda>m. (dm_name m, calls_of m)) ys)"])
    fix ys m zs c c'
    assume prev: "map_of (fst c) = map_of (map (\<lambda>m. (dm_name m, m)) ys) \<and> map_of (snd c) = map_of (map (\<lambda>m. (dm_name m, calls_of m)) ys)"
      and step: "add_module m c = Ok c'"
    have "map_of (fst c) (dm_name m) = None" "c' = (bt_insert (dm_name m) m (fst c), bt_insert (dm_name m) (calls_of m) (snd c))"
      using step by (auto simp: add_module_def outcome_simps calls_of_def)
    moreover from this(1) have "dm_name m \<notin> dm_name ` set ys" using prev by (simp add: map_of_eq_None_iff image_image)
    ultimately show "map_of (fst c') = map_of (map (\<lambda>m. (dm_name m, m)) (ys @ [m])) \<and> map_of (snd c') = map_of (map (\<lambda>m. (dm_name m, calls_of m)) (ys @ [m]))"
      using prev by (auto simp: map_add_def fun_eq_iff map_of_eq_None_iff image_image split: option.split dest!: map_of_SomeD)
  qed simp
  then show ?thesis by simp
qed

abbreviation start_top :: "'f top_state" where
  "start_top \<equiv> \<lparr>tp_env = [], tp_yielded = False\<rparr>"

abbreviation start_state :: "'f expander" where
  "start_state \<equiv> \<lparr>ex_members = [], ex_origins = [], ex_frames = [], ex_steps = 0\<rparr>"

lemma expand_Ok:
  assumes "expand ast = Ok (doc, origins)"
  obtains M deps s t where "fold_out add_module (doc_modules ast) ([], []) = Ok (M, deps)" "visit_all deps \<noteq> Panic"
    "expand_members M (doc_model ast) start_top start_state = (Ok t, s)"
    "doc = ast\<lparr>doc_modules := [], doc_model := ex_members s\<rparr>" "origins = ex_origins s" "\<exists>v. visit_all deps = Ok v"
proof -
  from assms obtain M deps marks where pre: "fold_out add_module (doc_modules ast) ([], []) = Ok (M, deps)" "visit_all deps = Ok marks"
    and rest: "(case expand_members M (doc_model ast) start_top start_state of
       (Ok _, s) \<Rightarrow> Ok (ast\<lparr>doc_modules := [], doc_model := ex_members s\<rparr>, ex_origins s) | (Err e, s) \<Rightarrow> Err e | (Panic, s) \<Rightarrow> Panic)
      = Ok (doc, origins)"
    by (auto simp: expand_def outcome_simps)
  obtain r s where run: "expand_members M (doc_model ast) start_top start_state = (r, s)" by fastforce
  then obtain t where "r = Ok t" using rest by (cases r) auto
  then show ?thesis using that pre rest run by auto
qed

lemma sound_initial: "sound K start_state Map.empty"
  by (simp add: sound_def)

lemma add_module_no_panic: "add_module m mods \<noteq> Panic"
  by (auto simp: add_module_def outcome_simps)

section \<open>An example\<close>

text \<open>A model with a module and a fold: an embedding, doubled twice.\<close>

definition doubling_document :: "nat document" where
  "doubling_document = \<lparr>doc_modules = [\<lparr>dm_name = ''twice'', dm_parameters = [''x''],
       dm_body = [Spanned 0 1 (LetM ''y'' (CallE ''add'' [(None, NameE ''x''), (None, NameE ''x'')])), Spanned 1 2 (YieldM ''y'')]\<rparr>],
     doc_name = ''m'',
     doc_model = [Spanned 2 3 (LetM ''e'' (CallE ''embedding'' [(Some ''vocab'', NumberE ''3'')])),
       Spanned 3 4 (LetM ''h'' (FoldE ''i'' (NumberE ''0'') (NumberE ''2'') ''c'' (NameE ''e'')
         [Spanned 4 5 (LetM ''d'' (CallE ''twice'' [(None, NameE ''c'')])), Spanned 5 6 (YieldM ''d'')])),
       Spanned 6 7 (YieldM ''h'')],
     doc_plan_name = ''p'', doc_plan = []\<rparr>"

lemma eval_at_numeral: "eval_at M (numeral k) e env path site s =
  eval_expr M (eval_at M (pred_numeral k)) (\<lambda>ms env prefix. eval_body (eval_at M (pred_numeral k - 1)) ms env prefix None) e env path site s"
  by (simp add: numeral_eq_Suc)

lemmas meaning_numeral = meaning.simps(2) [where k = "pred_numeral n", folded numeral_eq_Suc] for n

lemmas expand_eval = try_op_def bind_op_def reject_def give_def Let_def eval_expr_def eval_call_def eval_fold_def eval_module_def eval_primitive_def
  emit_node_def expand_member_def tick_def push_frame_def pop_frame_def resolve_name_def integer_value_def tensor_name_def PRIMITIVES_def STATIC_def
  eval_at_numeral get_at_def


lemma small_parse: "parse_usize ''0'' = Some 0" "parse_usize ''2'' = Some 2"
  by (simp_all add: parse_usize_def Let_def digit_value_def ascii_digit_def less_eq_char_def)
lemma small_show: "show_nat 0 = ''0''" "show_nat (Suc 0) = ''1''" "[0..<2] = [0, Suc 0]"
  by code_simp+

definition doubled_nodes :: "nat spanned list" where
  "doubled_nodes = [Spanned 2 3 (LetM ''e'' (CallE ''embedding'' [(Some ''vocab'', NumberE ''3'')])),
     Spanned 0 1 (LetM ''h.i0.d.y'' (CallE ''add'' [(None, NameE ''e''), (None, NameE ''e'')])),
     Spanned 0 1 (LetM ''h.i1.d.y'' (CallE ''add'' [(None, NameE ''h.i0.d.y''), (None, NameE ''h.i0.d.y'')])),
     Spanned 6 7 (YieldM ''h.i1.d.y'')]"

lemma doubling_members:
  "\<exists>t s. expand_members (map (\<lambda>m. (dm_name m, m)) (doc_modules doubling_document)) (doc_model doubling_document) start_top start_state = (Ok t, s)
     \<and> ex_members s = doubled_nodes"
  by (simp add: doubling_document_def doubled_nodes_def expand_eval small_parse small_show)

lemma doubling_expands: "\<exists>origins. expand doubling_document = Ok (doubling_document\<lparr>doc_modules := [], doc_model := doubled_nodes\<rparr>, origins)"
proof -
  have "fold_out add_module (doc_modules doubling_document) ([], []) = Ok (map (\<lambda>m. (dm_name m, m)) (doc_modules doubling_document), [(''twice'', [''add''])])"
    by (simp add: doubling_document_def add_module_def reject_def PRIMITIVES_def STATIC_def bs_of_def bs_extend_def)
  moreover have "visit_all [(''twice'', [''add''])] = Ok [''twice'']"
    by (simp add: visit_all_def reject_def bs_remove_def)
  ultimately show ?thesis using doubling_members by (auto simp: expand_def reject_def PRIMITIVES_def)
qed

lemma expand_program:
  assumes "expand ast = Ok (doc, origins)"
  shows "program_value K (doc_model doc) Map.empty = document_meaning K ast" "scoped_nodes {} (doc_model doc)"
    "set (bt_keys origins) = set (node_names (doc_model doc))" "length origins \<le> 10000" "doc_modules doc = []"
    "doc_plan doc = doc_plan ast" "doc_name doc = doc_name ast"
proof -
  obtain M deps s t where mods: "fold_out add_module (doc_modules ast) ([], []) = Ok (M, deps)"
    and run: "expand_members M (doc_model ast) start_top start_state = (Ok t, s)"
    and doc: "doc = ast\<lparr>doc_modules := [], doc_model := ex_members s\<rparr>" "origins = ex_origins s"
    by (rule expand_Ok [OF assms])
  have "expanded K (m_model K (map_of M) (doc_model ast) Map.empty) s"
    using expand_members_expanded [OF sound_initial, of _ Map.empty, OF _ _ run] by simp
  from expanded_program [OF this]
  show "program_value K (doc_model doc) Map.empty = document_meaning K ast" "scoped_nodes {} (doc_model doc)"
    "set (bt_keys origins) = set (node_names (doc_model doc))" "length origins \<le> 10000" "doc_modules doc = []"
    "doc_plan doc = doc_plan ast" "doc_name doc = doc_name ast"
    using add_modules [OF mods] by (simp_all add: document_meaning_def modules_of_def doc)
qed

section \<open>Properties\<close>

text \<open>C7. The expansion preserves the meaning of a document, for every interpretation of the primitives: the program of
  primitive operations it emits, with all modules inlined, folds unrolled and names qualified, computes the value
  the document denotes, or both have none.\<close>

theorem expansion_preserves_meaning:
  assumes "expand ast = Ok (doc, origins)"
  shows "program_value K (doc_model doc) Map.empty = document_meaning K ast"
  by (simp add: expand_program [OF assms])

lemma expansion_preserves_meaning_witness:
  "program_value (\<lambda>op_name xs attrs. if op_name = ''add'' then sum_list xs else 3) doubled_nodes Map.empty = Some (12::nat)"
proof -
  obtain origins where "expand doubling_document = Ok (doubling_document\<lparr>doc_modules := [], doc_model := doubled_nodes\<rparr>, origins)"
    using doubling_expands by blast
  from expansion_preserves_meaning [OF this, of "\<lambda>op_name xs attrs. if op_name = ''add'' then sum_list xs else 3"] show ?thesis
    by (simp add: doubling_document_def document_meaning_def modules_of_def meaning_numeral m_call_def d_lookup_def d_integer_def d_tensor_def
        m_attribute_def d_literal_def small_parse small_show)
qed

text \<open>C39. What the expansion emits is in scope: no modules are left; every node is one of the primitives under a name no other node
  has; its operands name earlier nodes, its attributes are atoms; the result names a node and
  comes last; and exactly the nodes have an origin, at most ten thousand of them.\<close>

theorem expansion_in_scope:
  assumes "expand ast = Ok (doc, origins)"
  shows "doc_modules doc = [] \<and> scoped_nodes {} (doc_model doc) \<and> set (bt_keys origins) = set (node_names (doc_model doc))
    \<and> length origins \<le> 10000 \<and> doc_plan doc = doc_plan ast \<and> doc_name doc = doc_name ast"
  using expand_program [OF assms] by (intro conjI)

lemma expansion_in_scope_witness: "scoped_nodes {} doubled_nodes \<and> doc_modules (doubling_document\<lparr>doc_modules := [], doc_model := doubled_nodes\<rparr>) = []"
proof -
  obtain origins where "expand doubling_document = Ok (doubling_document\<lparr>doc_modules := [], doc_model := doubled_nodes\<rparr>, origins)"
    using doubling_expands by blast
  from expansion_in_scope [OF this] show ?thesis by simp
qed

text \<open>C40. The expansion is total: on every document it returns an expansion or an error. The search for recursive modules never
  outgrows its fuel, and no argument list is indexed beyond its end.\<close>

theorem expansion_total: "expand ast \<noteq> Panic"
proof -
  have modules: "fold_out add_module (doc_modules ast) ([], []) \<noteq> Panic"
    by (rule fold_out_prefix_no_panic [where P = "\<lambda>_ _. True"]) (simp_all add: add_module_no_panic)
  have known: "check_all (\<lambda>called. reject (P called) (e called)) cs \<noteq> Panic" for P :: "string \<Rightarrow> bool" and e cs
    by (rule check_all_no_panic) (simp add: reject_def)
  have "(case expand_members M (doc_model ast) start_top start_state of
       (Ok _, s) \<Rightarrow> Ok (ast\<lparr>doc_modules := [], doc_model := ex_members s\<rparr>, ex_origins s) | (Err e, s) \<Rightarrow> Err e | (Panic, s) \<Rightarrow> Panic) \<noteq> Panic" for M
  proof -
    obtain r s where run: "expand_members M (doc_model ast) start_top start_state = (r, s)" by fastforce
    have "r \<noteq> Panic \<and> (\<forall>t'. r = Ok t' \<longrightarrow> expanded (\<lambda>_ _ _. ()) (m_model (\<lambda>_ _ _. ()) (map_of M) (doc_model ast) Map.empty) s)"
      by (rule expand_members_expanded [OF sound_initial _ _ run]) simp_all
    then show ?thesis by (cases r) (simp_all add: run)
  qed
  then show ?thesis using modules known visit_all_no_panic by (auto simp only: expand_def and_then_Panic_iff split: prod.split)
qed

end
