(* ===== verification/Authoring.thy ===== *)
theory Authoring
  imports Model Planner Token_Graph
begin

text \<open>
  The authoring boundary (\<open>crates/inferfabric-authoring/src/lib.rs\<close>) and the topology of OpenPangu
  (\<open>crates/inferfabric-model/src/openpangu.rs\<close>): a model definition is one of four kinds, and neither the language nor
  compiled authors bypass its validation. The JSON reader and writer of an artifact are parameters, as is the author,
  who supplies a definition or an error.
\<close>

section \<open>Topology\<close>

record parallel =
  pl_tp :: nat
  pl_ep :: nat
  pl_devices :: "nat list"
  pl_max_num_seqs :: nat
  pl_max_num_batched_tokens :: nat
  pl_max_model_len :: nat

definition validate_parallel :: "parallel \<Rightarrow> unit outcome" where
  "validate_parallel p =
     and_then (reject (pl_tp p \<noteq> pl_ep p \<or> pl_tp p \<notin> {1, 2, 4, 8} \<or> length (pl_devices p) \<noteq> pl_tp p)
       (invalid ''OpenPangu requires TP=EP in {1,2,4,8} on the same device group'')) (\<lambda>_.
     let ids = remdups_adj (sort (pl_devices p)) in
     and_then (reject (length ids \<noteq> pl_tp p \<or> (\<exists>d \<in> set ids. d > 1023)) (invalid ''invalid or duplicate device IDs'')) (\<lambda>_.
     reject (pl_max_num_seqs p = 0 \<or> pl_max_num_seqs p > 1024 \<or> pl_max_num_batched_tokens p = 0 \<or> pl_max_num_batched_tokens p > 1048576 \<or>
         pl_max_model_len p = 0 \<or> pl_max_model_len p > 1048576) (invalid ''invalid OpenPangu serving capacity'')))"

section \<open>Definitions of models\<close>

datatype 'f model_definition =
    QwenModel bool spec
  | OpenPanguModel parallel
  | GraphModel "'f logical_graph"
  | ExecutionModel parallel token_graph

definition validate_definition :: "'f float_ops \<Rightarrow> 'f model_definition \<Rightarrow> unit outcome" where
  "validate_definition F d = (case d of
     QwenModel checkpoint spec \<Rightarrow> validate_spec spec
   | OpenPanguModel p \<Rightarrow> validate_parallel p
   | ExecutionModel p g \<Rightarrow>
       and_then (validate_parallel p) (\<lambda>_.
       and_then (validate_graph g) (\<lambda>_.
       reject (pl_tp p \<noteq> 8 \<or> pl_max_model_len p \<noteq> gr_max_context g)
         (invalid ''ascend_token_v1 requires TP=EP=8 and matching graph/context bounds'')))
   | GraphModel g \<Rightarrow> and_then (compile_graph F g) (\<lambda>_. Ok ()))"

text \<open>\<open>elaborate\<close> of a compiled author, given what its \<open>define\<close> returns.\<close>

definition elaborate_author :: "'f float_ops \<Rightarrow> 'f model_definition outcome \<Rightarrow> 'f model_definition outcome" where
  "elaborate_author F define = and_then define (\<lambda>d. and_then (validate_definition F d) (\<lambda>_. Ok d))"

section \<open>Artifacts\<close>

record 'f model_artifact =
  ma_format :: string
  ma_version :: nat
  ma_definition :: "'f model_definition"

text \<open>The JSON writer and reader of an artifact; the left summand is the message of a failed conversion.\<close>

record 'f model_json =
  mj_write :: "'f model_artifact \<Rightarrow> string + nat list"
  mj_read :: "nat list \<Rightarrow> string + 'f model_artifact"

definition json_result :: "string + 'a \<Rightarrow> 'a outcome" where
  "json_result r = (case r of Inl message \<Rightarrow> Err (invalid message) | Inr x \<Rightarrow> Ok x)"

lemma json_result_iffs [outcome_simps]:
  "json_result r = Ok x \<longleftrightarrow> r = Inr x" "json_result r = Err e \<longleftrightarrow> (\<exists>m. r = Inl m \<and> e = invalid m)" "json_result r = Panic \<longleftrightarrow> False"
  by (auto simp: json_result_def split: sum.splits)

definition encode_definition :: "'f float_ops \<Rightarrow> 'f model_json \<Rightarrow> 'f model_definition \<Rightarrow> nat list outcome" where
  "encode_definition F J d =
     and_then (validate_definition F d) (\<lambda>_.
     json_result (mj_write J \<lparr>ma_format = ''inferfabric.model'', ma_version = 1, ma_definition = d\<rparr>))"

definition decode_definition :: "'f float_ops \<Rightarrow> 'f model_json \<Rightarrow> nat list \<Rightarrow> 'f model_definition outcome" where
  "decode_definition F J bytes =
     and_then (reject (length bytes > 16 * 1024 * 1024) (invalid ''model artifact exceeds 16 MiB'')) (\<lambda>_.
     and_then (json_result (mj_read J bytes)) (\<lambda>a.
     and_then (reject (ma_format a \<noteq> ''inferfabric.model'' \<or> ma_version a \<noteq> 1) (invalid ''unsupported compiled model artifact'')) (\<lambda>_.
     and_then (validate_definition F (ma_definition a)) (\<lambda>_.
     Ok (ma_definition a)))))"

end
