(* ===== verification/DSL_Elaborate.thy ===== *)
theory DSL_Elaborate
  imports Authoring DSL_Expand
begin

text \<open>
  Elaboration (\<open>crates/inferfabric-dsl/src/lib.rs\<close>, \<open>execution.rs\<close> and \<open>openpangu.rs\<close>): a parsed document becomes a
  model definition. A contract adapter reads fields, each exactly once; a graph for the CPU target is
  read member by member; a token graph is expanded first. \<open>definition\<close> accepts a source of the language or
  the bytes of an artifact.
\<close>

section \<open>Fields\<close>

type_synonym 'f field_map = "(string, 'f expr) btmap"
type_synonym ('f, 'a) reader = "('f field_map, 'a) op"

fun read_fields :: "'f spanned list \<Rightarrow> 'f field_map \<Rightarrow> 'f field_map outcome" where
  "read_fields [] kvs = Ok kvs"
| "read_fields (m # ms) kvs = (case sm_member m of
     FieldM k v \<Rightarrow>
       and_then (reject (map_of kvs k \<noteq> None) (invalid (''byte '' @ show_nat (sm_start m) @ '': duplicate field '' @ k))) (\<lambda>_.
       read_fields ms (bt_insert k v kvs))
   | _ \<Rightarrow> Err (invalid (''byte '' @ show_nat (sm_start m) @ '': graph declaration not allowed in contract adapter'')))"

definition take_field :: "string \<Rightarrow> ('f, 'f expr) reader" where
  "take_field k kvs = (ok_or (map_of kvs k) (invalid (''missing field '' @ k)), bt_remove k kvs)"

definition text_field :: "string \<Rightarrow> ('f, string) reader" where
  "text_field k = bind_op (take_field k) (\<lambda>e kvs. (case e of
     NameE s \<Rightarrow> Ok s
   | StringE s \<Rightarrow> Ok s
   | _ \<Rightarrow> Err (invalid (k @ '' requires name/string'')), kvs))"

definition number_field :: "string \<Rightarrow> ('f, nat) reader" where
  "number_field k = bind_op (take_field k) (\<lambda>e kvs. (case e of
     NumberE s \<Rightarrow> ok_or (parse_usize s) (invalid (''invalid integer '' @ k))
   | _ \<Rightarrow> Err (invalid (k @ '' requires integer'')), kvs))"

definition list_number :: "'f expr \<Rightarrow> nat outcome" where
  "list_number e = (case e of NumberE s \<Rightarrow> ok_or (parse_usize s) (invalid ''invalid integer list'') | _ \<Rightarrow> Err (invalid ''expected integer list''))"

definition numbers_field :: "string \<Rightarrow> ('f, nat list) reader" where
  "numbers_field k = bind_op (take_field k) (\<lambda>e kvs. (case e of
     ListE es \<Rightarrow> collect list_number es
   | _ \<Rightarrow> Err (invalid ''expected list''), kvs))"

text \<open>The message of \<open>finish\<close> shows the keys as Rust's \<open>Debug\<close> does; names need no escape.\<close>

definition show_keys :: "string list \<Rightarrow> string" where
  "show_keys ks = ''['' @ concat (case map (\<lambda>k. [CHR 0x22] @ k @ [CHR 0x22]) ks of [] \<Rightarrow> [] | q # qs \<Rightarrow> q # map (\<lambda>r. '', '' @ r) qs) @ '']''"

definition finish_fields :: "('f, unit) reader" where
  "finish_fields kvs = (reject (kvs \<noteq> []) (invalid (''unsupported fields: '' @ show_keys (bt_keys kvs))), kvs)"

fun named_arguments :: "(string option \<times> 'f expr) list \<Rightarrow> 'f field_map \<Rightarrow> 'f field_map outcome" where
  "named_arguments [] kvs = Ok kvs"
| "named_arguments ((key, e) # args) kvs =
     and_then (ok_or key (invalid ''mesh requires named arguments'')) (\<lambda>k.
     and_then (reject (map_of kvs k \<noteq> None) (invalid ''duplicate mesh argument'')) (\<lambda>_.
     named_arguments args (bt_insert k e kvs)))"

definition mesh_of :: "(string option \<times> 'f expr) list \<Rightarrow> mesh outcome" where
  "mesh_of args =
     and_then (named_arguments args []) (\<lambda>kvs.
     fst (bind_op (number_field ''tp'') (\<lambda>tp.
          bind_op (number_field ''cp'') (\<lambda>cp.
          bind_op (text_field ''sp'') (\<lambda>s.
          try_op (if s = ''true'' then Ok True else if s = ''false'' then Ok False else Err (invalid ''invalid SP boolean'')) (\<lambda>sp.
          bind_op finish_fields (\<lambda>_.
          give \<lparr>mesh_tp = tp, mesh_cp = cp, mesh_sp = sp\<rparr>))))) kvs))"

definition mesh_field :: "string \<Rightarrow> ('f, mesh) reader" where
  "mesh_field k = bind_op (take_field k) (\<lambda>e kvs. (case e of
     CallE f args \<Rightarrow> and_then (reject (f \<noteq> ''mesh'') (invalid ''expected mesh constructor'')) (\<lambda>_. mesh_of args)
   | _ \<Rightarrow> Err (invalid ''expected mesh(tp=..., cp=..., sp=...)''), kvs))"

section \<open>Contract adapters\<close>

definition device_field :: "string \<Rightarrow> ('f, nat list) reader" where
  "device_field message = bind_op (numbers_field ''devices'') (\<lambda>ns kvs. (collect (\<lambda>n. ok_or (try_narrow 32 n) (invalid message)) ns, kvs))"

definition parallel_fields :: "string \<Rightarrow> ('f, parallel) reader" where
  "parallel_fields message =
     bind_op (number_field ''tp'') (\<lambda>tp.
     bind_op (number_field ''ep'') (\<lambda>ep.
     bind_op (device_field message) (\<lambda>devices.
     bind_op (number_field ''max_num_seqs'') (\<lambda>seqs.
     bind_op (number_field ''max_num_batched_tokens'') (\<lambda>tokens.
     bind_op (number_field ''max_model_len'') (\<lambda>len.
     give \<lparr>pl_tp = tp, pl_ep = ep, pl_devices = devices, pl_max_num_seqs = seqs, pl_max_num_batched_tokens = tokens, pl_max_model_len = len\<rparr>))))))"

definition layer_of :: "'f expr \<Rightarrow> layer outcome" where
  "layer_of e = (case e of
     NameE s \<Rightarrow> if s = ''full'' then Ok Full else if s = ''delta'' then Ok Delta else Err (invalid ''unsupported layer contract'')
   | _ \<Rightarrow> Err (invalid ''unsupported layer contract''))"

definition layers_field :: "('f, layer list) reader" where
  "layers_field = bind_op (take_field ''layers'') (\<lambda>e kvs. (case e of
     ListE es \<Rightarrow> collect layer_of es
   | _ \<Rightarrow> Err (invalid ''layers requires a list''), kvs))"

definition model_fields :: "('f, model) reader" where
  "model_fields =
     bind_op (text_field ''label'') (\<lambda>label.
     bind_op (number_field ''hidden'') (\<lambda>h.
     bind_op (number_field ''intermediate'') (\<lambda>im.
     bind_op (number_field ''vocab'') (\<lambda>v.
     bind_op (number_field ''query_heads'') (\<lambda>q.
     bind_op (number_field ''kv_heads'') (\<lambda>kv.
     bind_op (number_field ''head_dim'') (\<lambda>hd.
     bind_op (number_field ''delta_heads'') (\<lambda>dh.
     bind_op (number_field ''delta_dim'') (\<lambda>dd.
     bind_op (number_field ''conv_width'') (\<lambda>cw.
     bind_op layers_field (\<lambda>ls.
     give \<lparr>model_name = label, hidden = h, intermediate = im, vocab = v, query_heads = q, kv_heads = kv, head_dim = hd,
           delta_heads = dh, delta_dim = dd, conv_width = cw, layers = ls\<rparr>)))))))))))"

definition plan_fields :: "model \<Rightarrow> ('f, spec) reader" where
  "plan_fields m =
     bind_op (mesh_field ''prefill'') (\<lambda>prefill.
     bind_op (mesh_field ''decode'') (\<lambda>decode.
     bind_op (number_field ''page_tokens'') (\<lambda>pages.
     bind_op (number_field ''token_budget'') (\<lambda>budget.
     bind_op (numbers_field ''batch_buckets'') (\<lambda>batches.
     bind_op (numbers_field ''context_buckets'') (\<lambda>contexts.
     give \<lparr>spec_model = m, spec_prefill = prefill, spec_decode = decode, spec_page_tokens = pages, spec_token_budget = budget,
           batch_buckets = batches, context_buckets = contexts\<rparr>))))))"

fun contract_of :: "'f spanned list \<Rightarrow> string option" where
  "contract_of [] = None"
| "contract_of (m # ms) = (case sm_member m of
     FieldM k (NameE v) \<Rightarrow> if k = ''contract'' then Some v else contract_of ms
   | _ \<Rightarrow> contract_of ms)"

definition adapt_openpangu :: "'f field_map \<Rightarrow> 'f field_map \<Rightarrow> 'f model_definition outcome" where
  "adapt_openpangu mf pf =
     and_then (fst (finish_fields mf)) (\<lambda>_.
     fst (bind_op (parallel_fields ''device ID overflow'') (\<lambda>p.
          bind_op finish_fields (\<lambda>_.
          give (OpenPanguModel p))) pf))"

definition adapt_qwen :: "bool \<Rightarrow> 'f field_map \<Rightarrow> 'f field_map \<Rightarrow> 'f model_definition outcome" where
  "adapt_qwen checkpoint mf pf =
     (let (model, mf) = model_fields mf in
      and_then model (\<lambda>model.
      let (spec, pf) = plan_fields model pf in
      and_then spec (\<lambda>spec.
      and_then (fst (finish_fields mf)) (\<lambda>_.
      and_then (fst (finish_fields pf)) (\<lambda>_.
      Ok (QwenModel checkpoint spec))))))"

definition adapt_contract :: "string \<Rightarrow> 'f document \<Rightarrow> 'f model_definition outcome" where
  "adapt_contract contract ast =
     and_then (read_fields (doc_model ast) []) (\<lambda>mf.
     and_then (read_fields (doc_plan ast) []) (\<lambda>pf.
     let (read, mf) = text_field ''contract'' mf in
     and_then read (\<lambda>_.
     if contract = ''openpangu_v2_tp_ep_v1'' then adapt_openpangu mf pf
     else if contract = ''qwen_structure_v1'' \<or> contract = ''qwen35_text_v1'' then adapt_qwen (contract = ''qwen35_text_v1'') mf pf
     else Err (invalid ''unsupported model contract''))))"

section \<open>Graphs for the CPU\<close>

definition graph_op :: "string \<Rightarrow> plan_op option" where
  "graph_op op_name =
     (if op_name = ''add'' then Some Add else if op_name = ''mul'' then Some Mul
      else if op_name = ''relu'' then Some Relu else if op_name = ''matmul'' then Some Matmul else None)"

definition operand_name :: "string option \<times> 'f expr \<Rightarrow> string outcome" where
  "operand_name a = (case a of (None, NameE n) \<Rightarrow> Ok n | _ \<Rightarrow> Err (invalid ''graph operation requires positional value names''))"

definition graph_member :: "'f spanned \<Rightarrow> 'f logical_graph \<Rightarrow> 'f logical_graph outcome" where
  "graph_member m g = (case sm_member m of
     InputM n shape \<Rightarrow> Ok (g\<lparr>lg_inputs := lg_inputs g @ [\<lparr>ts_name = n, ts_shape = shape\<rparr>]\<rparr>)
   | ConstantM n shape data \<Rightarrow> Ok (g\<lparr>lg_constants := lg_constants g @ [\<lparr>cn_name = n, cn_shape = shape, cn_data = data\<rparr>]\<rparr>)
   | StateM n shape data \<Rightarrow> Ok (g\<lparr>lg_states := lg_states g @ [\<lparr>cn_name = n, cn_shape = shape, cn_data = data\<rparr>]\<rparr>)
   | LetM n (CallE op_name args) \<Rightarrow>
       and_then (ok_or (graph_op op_name) (invalid (''byte '' @ show_nat (sm_start m) @ '': unsupported graph operation '' @ op_name))) (\<lambda>op.
       and_then (collect operand_name args) (\<lambda>inputs.
       Ok (g\<lparr>lg_nodes := lg_nodes g @ [\<lparr>ln_name = n, ln_op = op, ln_inputs = inputs\<rparr>]\<rparr>)))
   | YieldM n \<Rightarrow> Ok (g\<lparr>lg_outputs := lg_outputs g @ [n]\<rparr>)
   | UpdateM n v \<Rightarrow>
       and_then (reject (map_of (lg_updates g) n \<noteq> None) (invalid ''duplicate state update'')) (\<lambda>_.
       Ok (g\<lparr>lg_updates := bt_insert n v (lg_updates g)\<rparr>))
   | _ \<Rightarrow> Err (invalid (''byte '' @ show_nat (sm_start m) @ '': unsupported graph declaration'')))"

definition adapt_graph :: "'f document \<Rightarrow> 'f model_definition outcome" where
  "adapt_graph ast =
     and_then (read_fields (doc_plan ast) []) (\<lambda>pf.
     let (target, pf) = text_field ''target'' pf in
     and_then target (\<lambda>target.
     and_then (reject (target \<noteq> ''cpu_f32_v1'') (invalid ''graph target not implemented'')) (\<lambda>_.
     and_then (fst (finish_fields pf)) (\<lambda>_.
     and_then (fold_out graph_member (doc_model ast) \<lparr>lg_version = 1, lg_name = doc_name ast, lg_inputs = [], lg_constants = [],
         lg_states = [], lg_nodes = [], lg_outputs = [], lg_updates = []\<rparr>) (\<lambda>g.
     Ok (GraphModel g))))))"

section \<open>Token graphs\<close>

record 'f graph_reading =
  rd_nodes :: "token_node list"
  rd_output :: nat
  rd_names :: "(string, nat) btmap"
  rd_fields :: "'f field_map"

definition NO_OUTPUT :: nat where
  "NO_OUTPUT = 2 ^ 64 - 1"

text \<open>The arguments of a node, its inputs in order and its attributes by name.\<close>

definition scalar_text :: "'f expr \<Rightarrow> string outcome" where
  "scalar_text e = (case e of NameE v \<Rightarrow> Ok v | StringE v \<Rightarrow> Ok v | NumberE v \<Rightarrow> Ok v | _ \<Rightarrow> Err (invalid ''scalar attribute required''))"

fun node_arguments :: "(string, nat) btmap \<Rightarrow> (string option \<times> 'f expr) list \<Rightarrow> nat list \<times> (string, string) btmap \<Rightarrow>
    (nat list \<times> (string, string) btmap) outcome" where
  "node_arguments names [] c = Ok c"
| "node_arguments names ((Some key, e) # args) (inputs, attrs) =
     and_then (scalar_text e) (\<lambda>v.
     and_then (reject (map_of attrs key \<noteq> None) (invalid ''duplicate operator attribute'')) (\<lambda>_.
     node_arguments names args (inputs, bt_insert key v attrs)))"
| "node_arguments names ((None, e) # args) (inputs, attrs) =
     and_then (case e of NameE v \<Rightarrow> Ok v | _ \<Rightarrow> Err (invalid ''operator input must name a prior value'')) (\<lambda>v.
     and_then (ok_or (map_of names v) (invalid (''unknown input '' @ v))) (\<lambda>i.
     node_arguments names args (inputs @ [i], attrs)))"

definition token_member :: "(string, source_origin) btmap \<Rightarrow> 'f spanned \<Rightarrow> 'f graph_reading \<Rightarrow> 'f graph_reading outcome" where
  "token_member origins m r = (case sm_member m of
     FieldM k v \<Rightarrow>
       and_then (reject (map_of (rd_fields r) k \<noteq> None) (invalid ''duplicate graph field'')) (\<lambda>_.
       Ok (r\<lparr>rd_fields := bt_insert k v (rd_fields r)\<rparr>))
   | LetM n (CallE op_name args) \<Rightarrow>
       and_then (node_arguments (rd_names r) args ([], [])) (\<lambda>(inputs, attrs).
       and_then (reject (map_of (rd_names r) n \<noteq> None) (invalid ''duplicate value name'')) (\<lambda>_.
       Ok (r\<lparr>rd_names := bt_insert n (length (rd_nodes r)) (rd_names r),
             rd_nodes := rd_nodes r @ [\<lparr>nd_source = map_of origins n, nd_name = n, nd_op = op_name, nd_inputs = inputs, nd_attrs = attrs\<rparr>]\<rparr>)))
   | YieldM n \<Rightarrow>
       and_then (reject (rd_output r \<noteq> NO_OUTPUT) (invalid ''multiple outputs'')) (\<lambda>_.
       and_then (ok_or (map_of (rd_names r) n) (invalid ''unknown output'')) (\<lambda>i.
       Ok (r\<lparr>rd_output := i\<rparr>)))
   | _ \<Rightarrow> Err (invalid (''byte '' @ show_nat (sm_start m) @ '': unsupported token graph declaration'')))"

definition elaborate_tokens :: "'f float_ops \<Rightarrow> 'f document \<Rightarrow> 'f model_definition outcome" where
  "elaborate_tokens F ast =
     and_then (expand ast) (\<lambda>(ast, origins).
     and_then (read_fields (doc_plan ast) []) (\<lambda>pf.
     and_then (fst (bind_op (text_field ''target'') (\<lambda>_.
                    bind_op (parallel_fields ''device overflow'') (\<lambda>p.
                    bind_op finish_fields (\<lambda>_. give p))) pf)) (\<lambda>p.
     and_then (fold_out (token_member origins) (doc_model ast) \<lparr>rd_nodes = [], rd_output = NO_OUTPUT, rd_names = [], rd_fields = []\<rparr>) (\<lambda>r.
     and_then (fst (bind_op (number_field ''context'') (\<lambda>max_context.
                    bind_op (number_field ''eos'') (\<lambda>eos.
                    bind_op finish_fields (\<lambda>_. give (max_context, eos)))) (rd_fields r))) (\<lambda>(max_context, eos).
     let d = ExecutionModel p \<lparr>gr_name = doc_name ast, gr_max_context = max_context, gr_eos = eos, gr_nodes = rd_nodes r, gr_output = rd_output r\<rparr> in
     and_then (validate_definition F d) (\<lambda>_. Ok d))))))"

section \<open>Documents and sources\<close>

definition token_target :: "'f document \<Rightarrow> bool" where
  "token_target ast \<longleftrightarrow> list_ex (\<lambda>m. case sm_member m of FieldM k (NameE v) \<Rightarrow> k = ''target'' \<and> v = ''ascend_token_v1'' | _ \<Rightarrow> False) (doc_plan ast)"

definition elaborate :: "'f float_ops \<Rightarrow> 'f document \<Rightarrow> 'f model_definition outcome" where
  "elaborate F ast =
     (if token_target ast then elaborate_tokens F ast
      else and_then (reject (doc_modules ast \<noteq> []) (invalid ''modules currently require ascend_token_v1'')) (\<lambda>_.
        and_then (case contract_of (doc_model ast) of
            Some contract \<Rightarrow> adapt_contract contract ast
          | None \<Rightarrow> adapt_graph ast) (\<lambda>d.
        and_then (validate_definition F d) (\<lambda>_. Ok d))))"

text \<open>\<open>str::trim_start\<close> on the UTF-8 bytes of a source: the bytes of the first character, if it is white space.\<close>

definition leading_space :: "nat list \<Rightarrow> nat" where
  "leading_space bs =
     (if take 1 bs \<in> {[0x09], [0x0A], [0x0B], [0x0C], [0x0D], [0x20]} then 1
      else if take 2 bs \<in> {[0xC2, 0x85], [0xC2, 0xA0]} then 2
      else if take 3 bs \<in> {[0xE1, 0x9A, 0x80], [0xE2, 0x80, 0xA8], [0xE2, 0x80, 0xA9], [0xE2, 0x80, 0xAF], [0xE2, 0x81, 0x9F], [0xE3, 0x80, 0x80]}
           \<or> (take 2 bs = [0xE2, 0x80] \<and> length bs > 2 \<and> 0x80 \<le> bs ! 2 \<and> bs ! 2 \<le> 0x8A) then 3
      else 0)"

function trim_start :: "nat list \<Rightarrow> nat list" where
  "trim_start bs = (if bs = [] \<or> leading_space bs = 0 then bs else trim_start (drop (leading_space bs) bs))"
  by auto
termination by (relation "measure length") auto

declare trim_start.simps [simp del]

definition definition_of :: "'f float_ops \<Rightarrow> 'f literals \<Rightarrow> 'f model_json \<Rightarrow> string \<Rightarrow> 'f model_definition outcome" where
  "definition_of F L J source =
     (let bytes = map of_char source in
      if take 1 (trim_start bytes) = [0x7B] then decode_definition F J bytes
      else and_then (parse_document L source) (elaborate F))"

definition parse_spec :: "'f float_ops \<Rightarrow> 'f literals \<Rightarrow> 'f model_json \<Rightarrow> string \<Rightarrow> spec outcome" where
  "parse_spec F L J source = and_then (definition_of F L J source) (\<lambda>d. case d of
     QwenModel checkpoint spec \<Rightarrow> Ok spec
   | _ \<Rightarrow> Err (invalid ''expected Qwen model definition''))"

definition parse_checkpoint :: "'f float_ops \<Rightarrow> 'f literals \<Rightarrow> 'f model_json \<Rightarrow> string \<Rightarrow> spec outcome" where
  "parse_checkpoint F L J source = and_then (definition_of F L J source) (\<lambda>d. case d of
     QwenModel checkpoint spec \<Rightarrow> if checkpoint then Ok spec else Err (invalid ''requires qwen35_text_v1 checkpoint contract'')
   | _ \<Rightarrow> Err (invalid ''requires qwen35_text_v1 checkpoint contract''))"

definition parse_parallel :: "'f float_ops \<Rightarrow> 'f literals \<Rightarrow> 'f model_json \<Rightarrow> string \<Rightarrow> parallel outcome" where
  "parse_parallel F L J source = and_then (definition_of F L J source) (\<lambda>d. case d of
     OpenPanguModel p \<Rightarrow> Ok p
   | ExecutionModel p g \<Rightarrow> Ok p
   | _ \<Rightarrow> Err (invalid ''expected OpenPangu model definition''))"

end
