(* ===== verification/DSL_Elaborate_Thms.thy ===== *)
theory DSL_Elaborate_Thms
  imports DSL_Elaborate DSL_Expand_Thms Token_Graph_Thms
begin

text \<open>
  Elaboration keeps the meaning of a document: the token graph it builds, whose nodes read their inputs by index,
  evaluates to what the document denotes. Artifacts read back what was written.
\<close>

section \<open>The value of a token graph\<close>

type_synonym 'v node_kernels = "string \<Rightarrow> 'v list \<Rightarrow> (string, string) btmap \<Rightarrow> 'v"

fun node_values :: "'v node_kernels \<Rightarrow> token_node list \<Rightarrow> 'v list \<Rightarrow> 'v list" where
  "node_values K [] vs = vs"
| "node_values K (n # ns) vs = node_values K ns (vs @ [K (nd_op n) (map ((!) vs) (nd_inputs n)) (nd_attrs n)])"

definition graph_value :: "'v node_kernels \<Rightarrow> token_graph \<Rightarrow> 'v" where
  "graph_value K g = node_values K (gr_nodes g) [] ! gr_output g"

text \<open>The same kernels on the attributes of a document, which are expressions.\<close>

definition expr_text :: "'f expr \<Rightarrow> string" where
  "expr_text e = (case e of NameE v \<Rightarrow> v | StringE v \<Rightarrow> v | NumberE v \<Rightarrow> v | _ \<Rightarrow> [])"

definition attribute_texts :: "(string \<times> 'f expr) list \<Rightarrow> (string, string) btmap \<Rightarrow> (string, string) btmap" where
  "attribute_texts as m = fold (\<lambda>(k, e). bt_insert k (expr_text e)) as m"

definition on_document :: "'v node_kernels \<Rightarrow> ('f, 'v) kernels" where
  "on_document K = (\<lambda>op_name xs as. K op_name xs (attribute_texts as []))"

lemma node_values_append: "node_values K (ns @ ms) vs = node_values K ms (node_values K ns vs)"
  by (induction ns arbitrary: vs) auto

lemma length_node_values [simp]: "length (node_values K ns vs) = length vs + length ns"
  by (induction ns arbitrary: vs) auto

section \<open>The graph a program becomes\<close>

definition agrees :: "'v node_kernels \<Rightarrow> (string \<rightharpoonup> 'v) \<Rightarrow> 'f graph_reading \<Rightarrow> bool" where
  "agrees K \<rho> r \<longleftrightarrow> (\<forall>n i. map_of (rd_names r) n = Some i \<longrightarrow> i < length (rd_nodes r) \<and> \<rho> n = Some (node_values K (rd_nodes r) [] ! i))"

lemma node_arguments_values:
  "node_arguments names args (inputs, attrs) = Ok (inputs', attrs') \<Longrightarrow>
   (\<And>n i. map_of names n = Some i \<Longrightarrow> \<rho> n = Some (vs ! i)) \<Longrightarrow>
   \<exists>is. inputs' = inputs @ is \<and> operand_values \<rho> args = Some (map ((!) vs) is) \<and> attrs' = attribute_texts (node_attributes args) attrs"
proof (induction args arbitrary: inputs attrs)
  case Nil
  then show ?case by (simp add: attribute_texts_def)
next
  case (Cons a args)
  obtain key e where a: "a = (key, e)" by (cases a)
  show ?case
  proof (cases key)
    case None
    obtain v i where v: "e = NameE v" "map_of names v = Some i" "node_arguments names args (inputs @ [i], attrs) = Ok (inputs', attrs')"
      using Cons.prems(1) by (auto simp: a None outcome_simps split: expr.splits)
    obtain js where js: "inputs' = inputs @ i # js" "operand_values \<rho> args = Some (map ((!) vs) js)" "attrs' = attribute_texts (node_attributes args) attrs"
      using Cons.IH [OF v(3) Cons.prems(2)] by auto
    show ?thesis using Cons.prems(2) [OF v(2)] by (intro exI [of _ "i # js"]) (simp add: a None v(1) js)
  next
    case (Some k)
    obtain v where v: "scalar_text e = Ok v" "node_arguments names args (inputs, bt_insert k v attrs) = Ok (inputs', attrs')"
      using Cons.prems(1) by (auto simp: a Some outcome_simps)
    have "expr_text e = v" using v(1) by (auto simp: scalar_text_def expr_text_def split: expr.splits)
    then show ?thesis using Cons.IH [OF v(2) Cons.prems(2)] by (auto simp: a Some attribute_texts_def)
  qed
qed

lemma token_members_value:
  fixes ms :: "'f spanned list"
  assumes "fold_out (token_member origins) ms r = Ok r'" and "agrees K \<rho> r" and "rd_output r = NO_OUTPUT" and "scoped_nodes D ms" and "rd_output r' \<noteq> NO_OUTPUT"
  shows "program_value (on_document K) ms \<rho> = Some (node_values K (rd_nodes r') [] ! rd_output r')"
  using assms
proof (induction ms arbitrary: r \<rho> D)
  case Nil
  then show ?case by simp
next
  case (Cons m ms)
  obtain r1 where step: "token_member origins m r = Ok r1" "fold_out (token_member origins) ms r1 = Ok r'"
    using Cons.prems(1) by (auto simp: outcome_simps)
  have known: "\<And>n i. map_of (rd_names r) n = Some i \<Longrightarrow> \<rho> n = Some (node_values K (rd_nodes r) [] ! i)"
    and range: "\<And>n i. map_of (rd_names r) n = Some i \<Longrightarrow> i < length (rd_nodes r)"
    using Cons.prems(2) by (auto simp: agrees_def)
  show ?case
  proof (cases "sm_member m")
    case (YieldM y)
    then obtain i where i: "map_of (rd_names r) y = Some i" "r1 = r\<lparr>rd_output := i\<rparr>" using step(1) by (auto simp: token_member_def outcome_simps)
    have "r' = r1" using Cons.prems(4) step(2) YieldM by simp
    then show ?thesis using known [OF i(1)] i(2) YieldM by simp
  next
    case (FieldM k v)
    then have r1: "rd_names r1 = rd_names r" "rd_nodes r1 = rd_nodes r" "rd_output r1 = rd_output r" using step(1) by (auto simp: token_member_def outcome_simps)
    have "agrees K \<rho> r1" using Cons.prems(2) r1 by (simp add: agrees_def)
    from Cons.IH [OF step(2) this] r1 Cons.prems(3,4,5) FieldM show ?thesis by (simp add: run_node_def)
  next
    case (LetM n e)
    then obtain op_name args where e: "e = CallE op_name args" using step(1) by (cases e) (auto simp: token_member_def)
    obtain inputs attrs where a: "node_arguments (rd_names r) args ([], []) = Ok (inputs, attrs)" "map_of (rd_names r) n = None"
      "r1 = r\<lparr>rd_names := bt_insert n (length (rd_nodes r)) (rd_names r),
         rd_nodes := rd_nodes r @ [\<lparr>nd_source = map_of origins n, nd_name = n, nd_op = op_name, nd_inputs = inputs, nd_attrs = attrs\<rparr>]\<rparr>"
      using step(1) by (auto simp: token_member_def LetM e outcome_simps)
    let ?vs = "node_values K (rd_nodes r) []"
    have args: "operand_values \<rho> args = Some (map ((!) ?vs) inputs)" "attrs = attribute_texts (node_attributes args) []"
      using node_arguments_values [OF a(1) known] by auto
    let ?\<rho> = "\<rho>(n \<mapsto> K op_name (map ((!) ?vs) inputs) attrs)"
    have "agrees K ?\<rho> r1"
      using known range by (auto simp: agrees_def a(3) node_values_append nth_append less_Suc_eq)
    moreover have "run_node (on_document K) m \<rho> = Some ?\<rho>" by (simp add: run_node_def LetM e args on_document_def)
    moreover have "scoped_nodes (insert n D) ms" using Cons.prems(4) by (simp add: LetM e)
    ultimately show ?thesis using Cons.IH [OF step(2)] Cons.prems(3,5) a(3) LetM by simp
  qed (use step(1) in \<open>simp_all add: token_member_def\<close>)
qed

lemma adapted_not_execution:
  "adapt_contract c ast \<noteq> Ok (ExecutionModel p g)" "adapt_graph ast \<noteq> Ok (ExecutionModel p g)"
  by (auto simp: adapt_contract_def adapt_openpangu_def adapt_qwen_def adapt_graph_def bind_op_def give_def outcome_simps Let_def
      split: prod.splits outcome.splits if_splits)

lemma elaborate_execution:
  assumes "elaborate F ast = Ok (ExecutionModel p g)"
  shows "\<exists>doc origins r ts. expand ast = Ok (doc, origins) \<and> gr_nodes g = rd_nodes r \<and> gr_output g = rd_output r \<and> validate_graph g = Ok ts \<and>
    fold_out (token_member origins) (doc_model doc) \<lparr>rd_nodes = [], rd_output = NO_OUTPUT, rd_names = [], rd_fields = []\<rparr> = Ok r"
proof -
  have "elaborate_tokens F ast = Ok (ExecutionModel p g)"
    using assms by (auto simp: elaborate_def outcome_simps adapted_not_execution split: if_splits option.splits)
  then show ?thesis
    by (auto simp: elaborate_tokens_def Let_def outcome_simps validate_definition_def)
qed

lemma validated_output:
  assumes "validate_graph g = Ok ts"
  shows "gr_output g < 10000"
proof -
  obtain s where s: "fold_out (check_node g) (zip [0..<length (gr_nodes g)] (gr_nodes g)) \<lparr>ck_types = [], ck_names = []\<rparr> = Ok s"
    "get_at (ck_types s) (gr_output g) = Some (TensorT 151552)" "length (gr_nodes g) \<le> 10000"
    using assms by (auto simp: validate_graph_def outcome_simps)
  have "length (ck_types s) = length (gr_nodes g)" using typing_run [OF s(1)] by (simp add: typing_inv_def)
  then show ?thesis using s(2,3) by (simp add: get_at_Some_iff)
qed

section \<open>Properties\<close>

text \<open>C6. Elaboration keeps the meaning: if a document elaborates to a token graph, then for every interpretation of the
  operations the graph, read node by node with its inputs by index, evaluates to the value the document denotes,
  modules, folds and all.\<close>

theorem elaborated_graph_computes:
  assumes "elaborate F ast = Ok (ExecutionModel p g)"
  shows "document_meaning (on_document K) ast = Some (graph_value K g)"
proof -
  obtain doc origins r ts where e: "expand ast = Ok (doc, origins)" "gr_nodes g = rd_nodes r" "gr_output g = rd_output r"
    "fold_out (token_member origins) (doc_model doc) \<lparr>rd_nodes = [], rd_output = NO_OUTPUT, rd_names = [], rd_fields = []\<rparr> = Ok r"
    "validate_graph g = Ok ts" 
    using elaborate_execution [OF assms] by blast
  have "rd_output r < 10000" using validated_output [OF e(5)] e(3) by simp
  then have "rd_output r \<noteq> NO_OUTPUT" by (simp add: NO_OUTPUT_def)
  then have "program_value (on_document K) (doc_model doc) Map.empty = Some (node_values K (rd_nodes r) [] ! rd_output r)"
    using expand_program(2) [OF e(1)] by (intro token_members_value [OF e(4)]) (simp_all add: agrees_def)
  then show ?thesis by (simp add: expand_program(1) [OF e(1)] graph_value_def e(2,3))
qed

definition head_document :: "int document" where
  "head_document = \<lparr>doc_modules = [\<lparr>dm_name = ''head'', dm_parameters = [''x''],
       dm_body = [Spanned 0 1 (LetM ''l'' (CallE ''linear'' [(None, NameE ''x''), (Some ''placement'', NameE ''replicated''),
            (Some ''weight'', StringE ''v''), (Some ''width'', NumberE ''151552'')])), Spanned 1 2 (YieldM ''l'')]\<rparr>],
     doc_name = ''m'',
     doc_model = [Spanned 2 3 (FieldM ''context'' (NumberE ''512'')), Spanned 3 4 (FieldM ''eos'' (NumberE ''2'')),
       Spanned 4 5 (LetM ''e'' (CallE ''embedding'' [(Some ''vocab'', NumberE ''151552''), (Some ''weight'', StringE ''w''), (Some ''width'', NumberE ''2560'')])),
       Spanned 5 6 (LetM ''h'' (CallE ''head'' [(None, NameE ''e'')])),
       Spanned 6 7 (YieldM ''h'')],
     doc_plan_name = ''p'',
     doc_plan = [Spanned 7 8 (FieldM ''target'' (NameE ''ascend_token_v1'')), Spanned 8 9 (FieldM ''tp'' (NumberE ''8'')), Spanned 9 10 (FieldM ''ep'' (NumberE ''8'')),
       Spanned 10 11 (FieldM ''devices'' (ListE (map NumberE [''0'', ''1'', ''2'', ''3'', ''4'', ''5'', ''6'', ''7'']))),
       Spanned 11 12 (FieldM ''max_num_seqs'' (NumberE ''1'')), Spanned 12 13 (FieldM ''max_num_batched_tokens'' (NumberE ''1'')),
       Spanned 13 14 (FieldM ''max_model_len'' (NumberE ''512''))]\<rparr>"

definition head_nodes :: "token_node list" where
  "head_nodes =
     [\<lparr>nd_source = Some \<lparr>so_start = 4, so_end = 5, so_frames = []\<rparr>, nd_name = ''e'', nd_op = ''embedding'', nd_inputs = [],
        nd_attrs = [(''vocab'', ''151552''), (''weight'', ''w''), (''width'', ''2560'')]\<rparr>,
      \<lparr>nd_source = Some \<lparr>so_start = 0, so_end = 1, so_frames = [\<lparr>ef_module = ''head'', ef_instance = ''h'', ef_start = 5, ef_end = 6\<rparr>]\<rparr>,
        nd_name = ''h.l'', nd_op = ''linear'', nd_inputs = [0], nd_attrs = [(''placement'', ''replicated''), (''weight'', ''v''), (''width'', ''151552'')]\<rparr>]"

definition head_graph :: token_graph where
  "head_graph = \<lparr>gr_name = ''m'', gr_max_context = 512, gr_eos = 2, gr_nodes = head_nodes, gr_output = 1\<rparr>"

definition head_parallel :: parallel where
  "head_parallel = \<lparr>pl_tp = 8, pl_ep = 8, pl_devices = [0, 1, 2, 3, 4, 5, 6, 7], pl_max_num_seqs = 1, pl_max_num_batched_tokens = 1, pl_max_model_len = 512\<rparr>"

lemma head_numerals: "parse_usize ''0'' = Some 0" "parse_usize ''1'' = Some 1" "parse_usize ''2'' = Some 2" "parse_usize ''3'' = Some 3"
  "parse_usize ''4'' = Some 4" "parse_usize ''5'' = Some 5" "parse_usize ''6'' = Some 6" "parse_usize ''7'' = Some 7" "parse_usize ''8'' = Some 8"
  "parse_usize ''512'' = Some 512"
  by (simp_all add: parse_usize_def Let_def digit_value_def ascii_digit_def less_eq_char_def)

lemma head_digits: "show_nat (Suc (Suc 0)) = ''2''" "show_nat (Suc (Suc (Suc 0))) = ''3''"
  by code_simp+

lemma head_valid: "validate_graph head_graph = Ok [TensorT 2560, TensorT 151552]"
proof -
  have "infer (head_nodes ! 0) [] = Ok (TensorT 2560)" "infer (head_nodes ! 1) [TensorT 2560] = Ok (TensorT 151552)"
    by (simp_all add: head_nodes_def infer_def infer_embedding_def infer_linear_def graph_eval logits_numerals)
  then show ?thesis
    by (simp add: validate_graph_def head_graph_def head_nodes_def check_node_def live_ids_def mark_live_def check_uses_def uses_of_def graph_eval)
qed

lemma head_parallel_valid: "validate_parallel head_parallel = Ok ()"
  by (simp add: validate_parallel_def head_parallel_def Let_def reject_def)

definition head_members :: "int spanned list" where
  "head_members = [Spanned 2 3 (FieldM ''context'' (NumberE ''512'')), Spanned 3 4 (FieldM ''eos'' (NumberE ''2'')),
     Spanned 4 5 (LetM ''e'' (CallE ''embedding'' [(Some ''vocab'', NumberE ''151552''), (Some ''weight'', StringE ''w''), (Some ''width'', NumberE ''2560'')])),
     Spanned 0 1 (LetM ''h.l'' (CallE ''linear'' [(None, NameE ''e''), (Some ''placement'', NameE ''replicated''),
            (Some ''weight'', StringE ''v''), (Some ''width'', NumberE ''151552'')])), Spanned 6 7 (YieldM ''h.l'')]"

definition head_origins :: "(string, source_origin) btmap" where
  "head_origins = [(''e'', \<lparr>so_start = 4, so_end = 5, so_frames = []\<rparr>),
     (''h.l'', \<lparr>so_start = 0, so_end = 1, so_frames = [\<lparr>ef_module = ''head'', ef_instance = ''h'', ef_start = 5, ef_end = 6\<rparr>]\<rparr>)]"

lemma head_expands: "expand head_document = Ok (head_document\<lparr>doc_modules := [], doc_model := head_members\<rparr>, head_origins)"
proof -
  have "fold_out add_module (doc_modules head_document) ([], []) = Ok (map (\<lambda>m. (dm_name m, m)) (doc_modules head_document), [(''head'', [''linear''])])"
    by (simp add: head_document_def add_module_def reject_def PRIMITIVES_def STATIC_def bs_of_def bs_extend_def)
  moreover have "visit_all [(''head'', [''linear''])] = Ok [''head'']"
    by (simp add: visit_all_def reject_def bs_remove_def)
  moreover have "\<exists>t s. expand_members (map (\<lambda>m. (dm_name m, m)) (doc_modules head_document)) (doc_model head_document) start_top start_state = (Ok t, s)
      \<and> ex_members s = head_members \<and> ex_origins s = head_origins"
    by (simp add: head_document_def head_members_def head_origins_def expand_eval small_show head_digits)
  ultimately show ?thesis by (auto simp: expand_def reject_def PRIMITIVES_def)
qed

lemma head_tokens: "\<exists>r. fold_out (token_member head_origins) head_members \<lparr>rd_nodes = [], rd_output = NO_OUTPUT, rd_names = [], rd_fields = []\<rparr> = Ok r
    \<and> rd_nodes r = head_nodes \<and> rd_output r = 1 \<and> rd_fields r = [(''context'', NumberE ''512''), (''eos'', NumberE ''2'')]"
  by (simp add: head_members_def head_origins_def head_nodes_def token_member_def reject_def scalar_text_def NO_OUTPUT_def)

lemma head_elaborates: "elaborate F head_document = Ok (ExecutionModel head_parallel head_graph)"
proof -
  have target: "token_target head_document" by (simp add: token_target_def head_document_def)
  have plan: "\<exists>pf. read_fields (doc_plan head_document) [] = Ok pf \<and> fst (bind_op (text_field ''target'') (\<lambda>_.
                    bind_op (parallel_fields ''device overflow'') (\<lambda>p.
                    bind_op finish_fields (\<lambda>_. give p))) pf) = Ok head_parallel"
    by (simp add: head_document_def head_parallel_def reject_def bind_op_def text_field_def parallel_fields_def finish_fields_def give_def
        take_field_def number_field_def device_field_def numbers_field_def list_number_def head_numerals bt_remove_def try_narrow_def)
  have "fst (bind_op (number_field ''context'') (\<lambda>max_context. bind_op (number_field ''eos'') (\<lambda>eos. bind_op finish_fields (\<lambda>_. give (max_context, eos))))
      [(''context'', NumberE ''512'' :: int expr), (''eos'', NumberE ''2'')]) = Ok (512, 2)"
    by (simp add: bind_op_def number_field_def take_field_def finish_fields_def give_def reject_def head_numerals bt_remove_def)
  moreover have "validate_definition F (ExecutionModel head_parallel head_graph) = Ok ()"
    using head_valid head_parallel_valid by (simp add: validate_definition_def reject_def) (simp add: head_parallel_def head_graph_def)
  moreover have "doc_name head_document = ''m''" by (simp add: head_document_def)
  ultimately show ?thesis using target plan head_tokens
    by (auto simp: elaborate_def elaborate_tokens_def head_expands head_graph_def)
qed

lemma elaborated_graph_computes_witness:
  "document_meaning (on_document (\<lambda>op_name xs attrs. if op_name = ''embedding'' then 1 else sum_list xs + length attrs)) head_document = Some (4::nat)"
  using elaborated_graph_computes [OF head_elaborates, of "\<lambda>op_name xs attrs. if op_name = ''embedding'' then 1 else sum_list xs + length attrs"]
  by (simp add: graph_value_def head_graph_def head_nodes_def)

text \<open>Round trip of definitions: an artifact that was written for a definition is read back as the same definition, if it is within
  the size limit and the JSON reader inverts the JSON writer.\<close>

theorem definition_roundtrip:
  assumes "encode_definition F J d = Ok bytes" and "length bytes \<le> 16 * 1024 * 1024"
    and "\<And>a. mj_write J a = Inr bytes \<Longrightarrow> mj_read J bytes = Inr a"
  shows "decode_definition F J bytes = Ok d"
proof -
  let ?a = "\<lparr>ma_format = ''inferfabric.model'', ma_version = 1, ma_definition = d\<rparr>"
  have "validate_definition F d = Ok ()" "mj_write J ?a = Inr bytes" using assms(1) by (auto simp: encode_definition_def outcome_simps)
  then show ?thesis using assms(2) assms(3) [of ?a] by (simp add: decode_definition_def reject_def json_result_def)
qed

definition head_json :: "int model_json" where
  "head_json = (let a = \<lparr>ma_format = ''inferfabric.model'', ma_version = 1, ma_definition = ExecutionModel head_parallel head_graph\<rparr> in
     \<lparr>mj_write = (\<lambda>b. if b = a then Inr [0x7B] else Inl ''unknown''), mj_read = (\<lambda>bytes. if bytes = [0x7B] then Inr a else Inl ''unknown'')\<rparr>)"

lemma definition_roundtrip_witness: "\<forall>F. decode_definition F head_json [0x7B] = Ok (ExecutionModel head_parallel head_graph)"
proof (rule allI, rule definition_roundtrip)
  fix F :: "int float_ops"
  have "validate_definition F (ExecutionModel head_parallel head_graph) = Ok ()"
    using head_valid head_parallel_valid by (simp add: validate_definition_def reject_def) (simp add: head_parallel_def head_graph_def)
  then show "encode_definition F head_json (ExecutionModel head_parallel head_graph) = Ok [0x7B]"
    by (simp add: encode_definition_def head_json_def Let_def json_result_def)
qed (auto simp: head_json_def Let_def split: if_splits)

end
