(* ===== verification/Spec2Isabelle.thy ===== *)
theory Spec2Isabelle
  imports Serving Arith_History State_Pool_Thms Prefix_Index_Thms Compiler Hybrid Worker_Thms Handover Live_Thms Device_Buffer_Thms Physical_Plans Plan_Thms Planner_Cycle Activation_Thms DSL_Roundtrip Token_Graph_Thms DSL_Expand_Thms DSL_Elaborate_Thms
begin

text \<open>
  IronPangu is an inference runtime for language models. A model is authored in a small language or in
  Rust, validated, and compiled into artifacts: rank plans with explicit communication for the serving
  runtime, CPU plans for the reference executor, inspection plans of physical operators. At run time a scheduler
  admits requests, reserves pages and slots of state from pools, runs prefill and decode ranks, and hands state over from
  one to the other; lookups of cached prefixes and histories of arithmetic decide what may be reused. This
  development models the Rust code under \<open>src/crates\<close> that makes these decisions.

  \<^bold>\<open>Conventions\<close> (theories \<open>Prelude\<close>, \<open>Containers\<close>). A function of type \<open>Result<T>\<close> returns an
  \<open>outcome\<close>: \<open>Ok\<close>, \<open>Err\<close> with the error of the source, or \<open>Panic\<close> where Rust would panic (an \<open>unwrap\<close>, an index
  out of bounds, an arithmetic overflow the source does not check). A method on \<open>&mut self\<close> is a state transformer
  \<open>('s, 'a) op\<close> that returns the state on failure too. Fixed-width unsigned integers are natural numbers with the
  checked operations of the source; a wrapping one is a word. A \<open>BTreeMap\<close> is a sorted association list, a
  \<open>BTreeSet\<close> a sorted list, an owned string a list of bytes. The locales are \<open>key_store\<close>, the interface of a map,
  \<open>op_frame\<close>, what an operation leaves alone, and \<open>op_machine\<close>, a component whose operations keep an
  invariant; every component instantiates the ones it uses.

  \<^bold>\<open>Specification and artifacts.\<close>
  \<^item> \<open>Model\<close>: \<open>inferfabric-model/src/lib.rs\<close>, the specification of a model and \<open>Spec::validate\<close>; its lemmas turn a validated
    specification into the bounds the other components use.
  \<^item> \<open>IR\<close>, \<open>Serving\<close>, \<open>Arith_History\<close>: \<open>inferfabric-ir\<close>. The types of an artifact; the serving contract (execution variants,
    batches, the ring of pages of a sliding window); the run-length encoded history of invocations. A validated batch is a
    partition inside its limits, ring pages never alias, and the history refines a list of invocations.
  \<^item> \<open>Compiler\<close>: \<open>inferfabric-compiler/src/lib.rs\<close>, \<open>compile\<close>, \<open>encode\<close>, \<open>decode\<close> and \<open>cached\<close>. All ranks of a group issue the
    same collectives, sends meet their receives, decoding inverts encoding, and the cache only ever returns what a
    compilation would. \<open>serde_json\<close> and SHA-256 are the record \<open>externals\<close>.

  \<^bold>\<open>Execution of a step.\<close>
  \<^item> \<open>Hybrid\<close>, \<open>Runtime\<close>, \<open>Runtime_Thms\<close>, \<open>Worker_Thms\<close>: \<open>inferfabric-runtime/src/lib.rs\<close>. The hybrid state of attention pages and recurrent words
    and its reference execution; the backends; the startup machine of a rank, its step, and the group of ranks. Startup
    fails closed, a step keeps its contract for every backend, a decode group serves every valid batch.
    Running a prompt in chunks is running it at once.
  \<^item> \<open>Device_Buffer\<close>, \<open>Device_Buffer_Thms\<close>: \<open>inferfabric-plan/src/device_buffer.rs\<close>, the check of a device call and its binding to
    resident allocations. Bound tensors are inside their allocation, aligned and free of forbidden overlap.
  \<^item> \<open>Activation\<close>, \<open>Activation_Thms\<close>: \<open>inferfabric-native/src/activation.rs\<close>, the arena of hidden activations.

  \<^bold>\<open>State and scheduling.\<close>
  \<^item> \<open>State_Pool\<close> and its \<open>_Inv\<close>, \<open>_Calls\<close>, \<open>_Frame\<close>, \<open>_Thms\<close>: \<open>inferfabric-runtime/src/state_pool.rs\<close>. Units of
    capacity with generations, borrows, retirement and reclaiming. The invariant is that free and held units partition each pool; calls
    are atomic and never panic; a dead lease stays dead; a borrow pins its units.
  \<^item> \<open>Prefix_Index\<close>, \<open>Prefix_Index_Thms\<close>: \<open>prefix_index.rs\<close>, the compressed tree of cached prefixes as a refinement of a set.
  \<^item> \<open>Transport\<close>, \<open>Transport_Thms\<close>, \<open>Handover\<close>: \<open>inferfabric-transfer/src/lib.rs\<close>, the resource pools and the transport of state
    between prefill and decode, with its protocol.
  \<^item> \<open>Live\<close> and its \<open>_Inv\<close>, \<open>_Step\<close>, \<open>_Phases\<close>, \<open>_Turn\<close>, \<open>_Thms\<close>: \<open>inferfabric-scheduler/src/live.rs\<close>, over the pools, the transport and the
    worker groups above. In every reachable state steps succeed and nothing leaks; every request
    receives the reference generation of its prompt; work decreases with every step, so the scheduler drains.

  \<^bold>\<open>Plans.\<close>
  \<^item> \<open>Physical\<close>, \<open>Physical_Thms\<close>, \<open>Physical_Plans\<close>: \<open>inferfabric-plan/src/physical.rs\<close>, choice of candidates, serial planning, verification.
    Verification accepts exactly what the serial planner produces.
  \<^item> \<open>Plan_IR\<close>, \<open>Plan_Verify\<close>, \<open>Plan_Exec\<close>: \<open>ir.rs\<close>, \<open>verify.rs\<close>, \<open>execute.rs\<close> and \<open>lib.rs\<close> of \<open>inferfabric-plan\<close>. \<open>Plan_Legal\<close>, \<open>Plan_Run\<close>, \<open>Plan_Refine\<close> and
    \<open>Plan_Thms\<close> prove that the executor, which reads and writes one arena at shared offsets, refines the evaluation of the
    steps over named values, and that a checked override of kernels changes nothing. The numbers \<open>f32\<close> are a type
    parameter with the record of operations the code applies; no law of arithmetic is assumed.
  \<^item> \<open>Planner\<close>: \<open>planner.rs\<close>. \<open>Planner_Typed\<close>, \<open>Planner_Opt\<close>, \<open>Planner_Compact\<close>, \<open>Planner_Plan\<close>, \<open>Planner_Thms\<close> and \<open>Planner_Cycle\<close> follow its passes:
    typing, removal of dead nodes, folding of constants, renumbering, placement. A compiled
    graph computes the solution of the equations of its source.

  \<^bold>\<open>The authoring language.\<close>
  \<^item> \<open>DSL_Syntax\<close>, \<open>DSL_Syntax_Thms\<close>, \<open>DSL_Print\<close>, \<open>DSL_Roundtrip\<close>: \<open>inferfabric-dsl/src/syntax.rs\<close>, the lexer and the parser. Parsing is
    total, and parsing the text of a document gives the document back.
  \<^item> \<open>DSL_Expand\<close>: \<open>expand.rs\<close>, the expansion of modules and folds to primitive operations. \<open>DSL_Meaning\<close> is a reference evaluator of
    documents, \<open>DSL_Expand_Logic\<close> a logic for the expander with a rule per combinator, and \<open>DSL_Expand_Thms\<close> shows with it that
    the expansion keeps the meaning, emits a program in scope, and never panics.
  \<^item> \<open>Token_Graph\<close>, \<open>Token_Graph_Thms\<close>: \<open>inferfabric-authoring/src/execution.rs\<close>, the typed token graph, its validation and binary form.
  \<^item> \<open>Authoring\<close>, \<open>DSL_Elaborate\<close>, \<open>DSL_Elaborate_Thms\<close>: \<open>inferfabric-authoring/src/lib.rs\<close>, \<open>inferfabric-model/src/openpangu.rs\<close> and
    \<open>lib.rs\<close>, \<open>execution.rs\<close> and \<open>openpangu.rs\<close> of \<open>inferfabric-dsl\<close>: from a parsed document to a validated model definition. The token
    graph a document elaborates to evaluates, by index, to what the document denotes.

  \<^bold>\<open>Bounds and fuel.\<close> Loops over collections are structural. The recursion of the parser counts the levels the nesting limit leaves, and
  its loops the tokens left, the search for recursive modules the modules; that the count never runs out is proved. The
  evaluator of the expansion counts the levels its depth limit leaves. The tree walks of the prefix
  index are structural in the tree, the placement loops of the planners in the list of pending nodes.
  Times, traces and process-wide counters are the arguments or the states that the definitions show.

  \<^bold>\<open>Not modelled.\<close> Reading checkpoints and weights (\<open>openpangu\<close>, \<open>checkpoint\<close>, \<open>bound\<close>, \<open>initialization\<close>), because they
  are file access and \<open>serde\<close> around tables of one model; the token programs of the native executor and the
  sessions of the Ascend library, whose meaning is that of C++ kernels outside the Rust code; threads, HTTP and
  argument parsing of the frontend and the command line; the closed-batch scheduler for fixtures; the JSON
  text of artifacts. The manifest lists each with its files.
\<close>

end
